(* ===== verification/Prelude.thy ===== *)
theory Prelude
  imports Main "HOL-Library.Word" "HOL-Library.Sublist"
begin

text \<open>
  The shared vocabulary of the development: how a Rust computation that may panic is
  represented, the integer and span types every component uses, and the generic facts about
  lists, options and association lists that the component proofs rewrite with.

  \<^item> A Rust function that may panic returns \<open>panic + 'a\<close>: \<open>Inl\<close> is the panic, \<open>Inr\<close> the value.
    \<open>and_then\<close> sequences two such computations; everything after a panic is skipped.
  \<^item> A \<open>usize\<close> that is only a length or an index is a \<open>nat\<close>; identifiers that the code
    converts between widths (\<open>u32\<close>, \<open>u64\<close>) are words.
  \<^item> A hash map (\<open>std::collections::HashMap\<close>, and \<open>ahash::AHashMap\<close>, which dereferences to
    it) is an association list with at most one entry per key; its iteration order carries
    no meaning in any theorem.
\<close>

section \<open>Collections of rewrite rules\<close>

named_theorems rust_simps \<open>rewriting of panicking computations\<close>
named_theorems op_defs \<open>definitions of the operations of the component at hand\<close>

section \<open>Panics\<close>

datatype panic =
    UnwrapNone          \<comment> \<open>\<open>Option::unwrap\<close> or \<open>expect\<close> on \<open>None\<close>, \<open>Result::unwrap\<close> on \<open>Err\<close>\<close>
  | IndexOutOfBounds    \<comment> \<open>slice or map indexing outside the container\<close>
  | UnreachableCode     \<comment> \<open>the \<open>unreachable!\<close> macro\<close>
  | TodoMacro           \<comment> \<open>the \<open>todo!\<close> and \<open>unimplemented!\<close> macros\<close>
  | AssertionFailed     \<comment> \<open>\<open>assert!\<close>, \<open>assert_eq!\<close>, \<open>assert_ne!\<close>\<close>
  | PanicMacro          \<comment> \<open>the \<open>panic!\<close> macro\<close>
  | ArithmeticOverflow  \<comment> \<open>overflow checks of the dev profile\<close>
  | StackOverflow       \<comment> \<open>recursion deeper than the stack, which ends the process\<close>

type_synonym 'a rust = "panic + 'a"

definition and_then :: "'e + 'a \<Rightarrow> ('a \<Rightarrow> 'e + 'b) \<Rightarrow> 'e + 'b" where
  "and_then m f = (case m of Inl e \<Rightarrow> Inl e | Inr x \<Rightarrow> f x)"

definition unwrap :: "'a option \<Rightarrow> 'a rust" where
  "unwrap x = (case x of None \<Rightarrow> Inl UnwrapNone | Some v \<Rightarrow> Inr v)"

definition assert_that :: "bool \<Rightarrow> unit rust" where
  "assert_that b = (if b then Inr () else Inl AssertionFailed)"

section \<open>Integers, ranges, slices and maps\<close>

type_synonym u32 = "32 word"
type_synonym u64 = "64 word"

text \<open>\<open>Range<usize>\<close>: start (inclusive) and end (exclusive).\<close>

type_synonym span = "nat \<times> nat"

text \<open>\<open>slice::get\<close>.\<close>

definition get_at :: "'a list \<Rightarrow> nat \<Rightarrow> 'a option" where
  "get_at xs i = (if i < length xs then Some (xs ! i) else None)"

text \<open>\<open>Option::or\<close>.\<close>

definition opt_or :: "'a option \<Rightarrow> 'a option \<Rightarrow> 'a option" where
  "opt_or a b = (case a of None \<Rightarrow> b | Some x \<Rightarrow> Some x)"

text \<open>\<open>HashMap::insert\<close>: replaces the entry of an equal key, or adds one.\<close>

fun assoc_put :: "'k \<Rightarrow> 'v \<Rightarrow> ('k \<times> 'v) list \<Rightarrow> ('k \<times> 'v) list" where
  "assoc_put k v [] = [(k, v)]"
| "assoc_put k v ((k', v') # m) = (if k = k' then (k, v) # m else (k', v') # assoc_put k v m)"

section \<open>Facts about panicking computations\<close>

lemma and_then_simps [simp, rust_simps]:
  "and_then (Inl e) f = Inl e"
  "and_then (Inr x) f = f x"
  by (simp_all add: and_then_def)

lemma and_then_Inr_iff [rust_simps]:
  "and_then m f = Inr y \<longleftrightarrow> (\<exists>x. m = Inr x \<and> f x = Inr y)"
  by (cases m) simp_all

lemma and_then_assoc: "and_then (and_then m f) g = and_then m (\<lambda>x. and_then (f x) g)"
  by (cases m) simp_all

lemma and_then_cong [fundef_cong]:
  "m = m' \<Longrightarrow> (\<And>x. m' = Inr x \<Longrightarrow> f x = g x) \<Longrightarrow> and_then m f = and_then m' g"
  by (cases m') simp_all

lemma unwrap_simps [simp]:
  "unwrap None = Inl UnwrapNone"
  "unwrap (Some v) = Inr v"
  by (simp_all add: unwrap_def)

lemma unwrap_Inr_iff [simp]: "unwrap x = Inr v \<longleftrightarrow> x = Some v"
  by (cases x) simp_all

lemma assert_that_simps [simp]:
  "assert_that True = Inr ()"
  "assert_that False = Inl AssertionFailed"
  by (simp_all add: assert_that_def)

lemma assert_that_Inr_iff [simp]: "assert_that b = Inr u \<longleftrightarrow> b"
  by (simp add: assert_that_def)

section \<open>Facts about slices and options\<close>

lemma get_at_Some_iff: "get_at xs i = Some x \<longleftrightarrow> i < length xs \<and> xs ! i = x"
  by (simp add: get_at_def)

lemma get_at_None_iff [simp]: "get_at xs i = None \<longleftrightarrow> length xs \<le> i"
  by (simp add: get_at_def not_less)

lemma get_at_inside [simp]: "i < length xs \<Longrightarrow> get_at xs i = Some (xs ! i)"
  by (simp add: get_at_def)

lemma get_at_outside [simp]: "length xs \<le> i \<Longrightarrow> get_at xs i = None"
  by (simp add: get_at_def)

lemma get_at_bound: "get_at xs i = Some x \<Longrightarrow> i < length xs"
  by (simp add: get_at_Some_iff)

lemma get_at_append:
  "get_at (xs @ ys) i = (if i < length xs then Some (xs ! i) else get_at ys (i - length xs))"
  by (auto simp: get_at_def nth_append)

lemma get_at_update:
  "get_at (xs[i := v]) j = (if i = j \<and> j < length xs then Some v else get_at xs j)"
  by (auto simp: get_at_def)

lemma opt_or_simps [simp]:
  "opt_or None b = b"
  "opt_or (Some x) b = Some x"
  by (simp_all add: opt_or_def)

lemma prefix_nth: "prefix xs ys \<Longrightarrow> i < length xs \<Longrightarrow> ys ! i = xs ! i"
  by (auto simp: prefix_def nth_append)

lemma prefix_update_beyond: "prefix xs ys \<Longrightarrow> length xs \<le> i \<Longrightarrow> prefix xs (ys[i := v])"
  by (auto simp: prefix_def list_update_append)

section \<open>Facts about association lists\<close>

lemma assoc_put_lookup [simp]: "map_of (assoc_put k v m) = (map_of m)(k \<mapsto> v)"
  by (induction m rule: assoc_put.induct) (auto simp: fun_eq_iff)

lemma assoc_put_keys: "fst ` set (assoc_put k v m) = insert k (fst ` set m)"
  by (induction k v m rule: assoc_put.induct) auto

lemma assoc_put_distinct: "distinct (map fst m) \<Longrightarrow> distinct (map fst (assoc_put k v m))"
proof (induction k v m rule: assoc_put.induct)
  case (2 k v k' v' m)
  have "k' \<notin> fst ` set (assoc_put k v m)" if "k \<noteq> k'"
    using 2(2) that by (simp add: assoc_put_keys)
  with 2 show ?case by auto
qed simp

lemma assoc_put_fresh: "map_of m k = None \<Longrightarrow> set (assoc_put k v m) = insert (k, v) (set m)"
  by (induction k v m rule: assoc_put.induct) (auto split: if_splits)

end
