(* ===== verification/Core.thy ===== *)
theory Core
  imports Prelude
begin

text \<open>
  The small data types of \<^verbatim>\<open>montyc_core\<close> that every later stage shares: module references, span
  references and span data (\<^verbatim>\<open>span.rs\<close>, \<^verbatim>\<open>module.rs\<close>), constants (\<^verbatim>\<open>ast.rs\<close>), value identifiers
  (\<^verbatim>\<open>value.rs\<close>) and the hash-keyed Python dictionary (\<^verbatim>\<open>dict.rs\<close>).
\<close>

section \<open>Modules, spans, constants\<close>

datatype module_ref = ModuleRef (module_ref_raw: u32)

record span_data =
  sd_range :: span
  sd_module :: module_ref
  sd_hash :: u64

text \<open>The pair of a group identifier and a distinct identifier.\<close>

datatype span_ref = SpanRef (span_group: u32) (span_distinct: u32)

text \<open>A 64-bit float is carried as its bit pattern: no operation of the modelled code reads it.\<close>

datatype const =
    CInt "64 word"
  | CFloat "64 word"
  | CBool bool
  | CString span_ref
  | CNone
  | CEllipsis

datatype value_id = ValueId (value_id_raw: u32)

text \<open>The raw value of an \<open>ObjectId\<close>, a non-zero \<open>u64\<close>.\<close>

type_synonym object_id = u64

section \<open>Key conversions\<close>

text \<open>\<open>u32::try_from(usize)\<close>; the conversion of \<open>ModuleRef\<close> wraps it.\<close>

definition u32_of_usize :: "nat \<Rightarrow> u32 option" where
  "u32_of_usize n = (if n < 2 ^ 32 then Some (word_of_nat n) else None)"

definition module_ref_of_usize :: "nat \<Rightarrow> module_ref option" where
  "module_ref_of_usize n = map_option ModuleRef (u32_of_usize n)"

definition usize_of_module_ref :: "module_ref \<Rightarrow> nat" where
  "usize_of_module_ref m = unat (module_ref_raw m)"

section \<open>Python dictionaries keyed by hash\<close>

type_synonym 'v py_dict = "(u64 \<times> 'v) list"

definition py_dict_get :: "'v py_dict \<Rightarrow> u64 \<Rightarrow> 'v option" where
  "py_dict_get d key = map_of d key"

text \<open>\<open>insert\<close> returns the value it replaced.\<close>

definition py_dict_insert :: "u64 \<Rightarrow> 'v \<Rightarrow> 'v py_dict \<Rightarrow> 'v option \<times> 'v py_dict" where
  "py_dict_insert key v d = (map_of d key, assoc_put key v d)"

text \<open>The map from values back to keys that \<open>iter_by_alloc_asc\<close> hands to its filter.\<close>

definition py_dict_by_value :: "(value_id \<times> value_id) py_dict \<Rightarrow> (value_id \<times> value_id) list" where
  "py_dict_by_value d = fold (\<lambda>(_, (key, v)) values. assoc_put v key values) d []"

definition py_dict_iter_by_alloc_asc ::
  "((value_id \<times> value_id) list \<Rightarrow> (value_id \<times> value_id) list) \<Rightarrow> (value_id \<times> value_id) py_dict
    \<Rightarrow> (value_id \<times> value_id) list" where
  "py_dict_iter_by_alloc_asc filter_fn d = filter_fn (py_dict_by_value d)"

section \<open>Facts\<close>

lemma unat_u32_less: "unat (w :: u32) < 2 ^ 32"
  by (rule order_less_le_trans [OF unsigned_less]) simp

lemma unat_word_of_nat_u32: "n < 2 ^ 32 \<Longrightarrow> unat (word_of_nat n :: u32) = n"
  by (simp add: unsigned_of_nat take_bit_nat_eq_self)

lemma u32_of_usize_Some_iff: "u32_of_usize n = Some w \<longleftrightarrow> n = unat w"
proof
  assume "u32_of_usize n = Some w"
  then show "n = unat w" by (auto simp: u32_of_usize_def unat_word_of_nat_u32 split: if_splits)
next
  assume n: "n = unat w"
  with unat_u32_less [of w] show "u32_of_usize n = Some w" by (simp add: u32_of_usize_def)
qed

lemma module_ref_roundtrip:
  "module_ref_of_usize n = Some m \<longleftrightarrow> usize_of_module_ref m = n"
  by (cases m) (auto simp: module_ref_of_usize_def usize_of_module_ref_def u32_of_usize_Some_iff)

lemma py_dict_insert_get:
  assumes "py_dict_insert key v d = (old, d')"
  shows "py_dict_get d' k = (if k = key then Some v else py_dict_get d k) \<and> old = py_dict_get d key"
  using assms by (auto simp: py_dict_insert_def py_dict_get_def)

end
