(* ===== verification/Ast.thy ===== *)
theory Ast
  imports Core
begin

text \<open>
  The syntax tree of \<^verbatim>\<open>montyc_parser/src/ast\<close>: expressions, primaries and atoms (\<^verbatim>\<open>expr.rs\<close>,
  \<^verbatim>\<open>primary.rs\<close>, \<^verbatim>\<open>atom.rs\<close>), statements and their parts (\<^verbatim>\<open>statement.rs\<close>, \<^verbatim>\<open>models.rs\<close>,
  \<^verbatim>\<open>funcdef.rs\<close>, \<^verbatim>\<open>ifstmt.rs\<close>, \<^verbatim>\<open>import.rs\<close>), the \<open>AstNode\<close> view of a node and the spans nodes
  compute for themselves. \<open>Box\<close> is transparent. The dispatch part of \<open>AstObject::visit_with\<close> is
  in the theory of the visitor that is run over the tree.
\<close>

section \<open>Nodes with a span\<close>

datatype 'a spanned = Spanned (sp_span: span) (sp_inner: 'a)

definition spanned_replace :: "'b \<Rightarrow> 'a spanned \<Rightarrow> 'b spanned" where
  "spanned_replace u s = Spanned (sp_span s) u"

definition spanned_replace_with :: "('a spanned \<Rightarrow> 'b) \<Rightarrow> 'a spanned \<Rightarrow> 'b spanned" where
  "spanned_replace_with f s = Spanned (sp_span s) (f s)"

section \<open>Operators\<close>

datatype unary_op = Invert | UNot | UAdd | USub

datatype infix_op =
    Add | Sub | Power | InfixInvert | FloorDiv | MatMult | Mod | Div | Mult
  | LeftShift | RightShift | NotEq | Eq | And | Or | Xor

fun unary_op_as_ref :: "unary_op \<Rightarrow> string rust" where
  "unary_op_as_ref Invert = Inr ''invert''"
| "unary_op_as_ref UNot = Inl TodoMacro"
| "unary_op_as_ref UAdd = Inr ''pos''"
| "unary_op_as_ref USub = Inr ''neg''"

fun infix_op_sigil :: "infix_op \<Rightarrow> string" where
  "infix_op_sigil Add = ''+''"
| "infix_op_sigil Sub = ''-''"
| "infix_op_sigil Power = ''^''"
| "infix_op_sigil InfixInvert = ''~''"
| "infix_op_sigil FloorDiv = ''//''"
| "infix_op_sigil MatMult = ''@''"
| "infix_op_sigil Mod = ''%''"
| "infix_op_sigil Div = ''/''"
| "infix_op_sigil Mult = ''*''"
| "infix_op_sigil LeftShift = ''<<''"
| "infix_op_sigil RightShift = ''>>''"
| "infix_op_sigil NotEq = ''!=''"
| "infix_op_sigil Eq = ''==''"
| "infix_op_sigil And = ''and''"
| "infix_op_sigil Or = ''or''"
| "infix_op_sigil Xor = ''^''"

fun infix_op_as_ref :: "infix_op \<Rightarrow> string rust" where
  "infix_op_as_ref Add = Inr ''add''"
| "infix_op_as_ref Sub = Inr ''sub''"
| "infix_op_as_ref Power = Inr ''pow''"
| "infix_op_as_ref InfixInvert = Inl TodoMacro"
| "infix_op_as_ref FloorDiv = Inr ''floordiv''"
| "infix_op_as_ref MatMult = Inr ''matmul''"
| "infix_op_as_ref Mod = Inr ''mod''"
| "infix_op_as_ref Div = Inr ''div''"
| "infix_op_as_ref Mult = Inr ''mul''"
| "infix_op_as_ref LeftShift = Inr ''lshift''"
| "infix_op_as_ref RightShift = Inr ''rshift''"
| "infix_op_as_ref NotEq = Inr ''ne''"
| "infix_op_as_ref Eq = Inr ''eq''"
| "infix_op_as_ref And = Inr ''and''"
| "infix_op_as_ref Or = Inr ''or''"
| "infix_op_as_ref Xor = Inr ''xor''"

section \<open>Expressions, primaries, atoms\<close>

datatype atom =
    AtNone
  | AtEllipsis
  | AtInt "64 word"
  | AtStr span_ref
  | AtBool bool
  | AtFloat "64 word"
  | AtTuple "expr spanned list"
  | AtComment span_ref
  | AtName span_ref
and expr =
    ExprIf "expr spanned" "expr spanned" "expr spanned"
  | BinOp "expr spanned" infix_op "expr spanned"
  | Unary unary_op "expr spanned"
  | Named "atom spanned" "expr spanned"
  | ExprPrimary "primary spanned"
and primary =
    Atomic "atom spanned"
  | Subscript "primary spanned" "expr spanned"
  | Call "primary spanned" "expr spanned list option"
  | Attribute "primary spanned" "atom spanned"
  | Await "primary spanned"

section \<open>Statements\<close>

text \<open>\<open>Return\<close> holds an expression, or the span of the bare keyword.\<close>

datatype return_stmt = Return "unit spanned + expr spanned"

datatype assign = Assign (asn_name: "primary spanned") (asn_value: "expr spanned") (asn_kind: "expr spanned option")

datatype annotation = Annotation (ann_name: "atom spanned") (ann_kind: "expr spanned")

datatype import =
    ImportNames "primary spanned list"
  | ImportFrom "primary spanned" "primary spanned list" nat

datatype statement =
    StExpr expr
  | StFnDef function_def
  | StRet return_stmt
  | StAsn assign
  | StAnn annotation
  | StImport import
  | StClass class_def
  | StIf if_chain
  | StWhile while_stmt
  | StPass
and function_def =
    FunctionDef (fn_reciever: "atom spanned option") (fn_name: "atom spanned")
      (fn_args: "(span_ref \<times> expr spanned option) list option") (fn_body: "statement spanned list")
      (fn_decorators: "primary spanned list") (fn_returns: "expr spanned option")
and class_def =
    ClassDef (cls_name: "atom spanned") (cls_decorators: "primary spanned list")
      (cls_body: "statement spanned list")
and if_branch = IfBranch (if_test: "expr spanned") (if_body: "statement spanned list")
and if_chain = IfChain (if_branches: "if_branch spanned list") (if_orelse: "statement spanned list option")
and while_stmt = While (wh_test: "expr spanned") (wh_body: "statement spanned list")

datatype module = Module (module_body: "statement spanned list")

section \<open>Names\<close>

fun atom_as_name :: "atom \<Rightarrow> span_ref option" where
  "atom_as_name (AtName t) = Some t"
| "atom_as_name _ = None"

fun primary_as_name :: "primary \<Rightarrow> span_ref option" where
  "primary_as_name (Atomic at) = atom_as_name (sp_inner at)"
| "primary_as_name _ = None"

text \<open>Break a dotted name down into its named components.\<close>

fun primary_components :: "primary \<Rightarrow> atom list rust" where
  "primary_components (Atomic at) = Inr [sp_inner at]"
| "primary_components (Attribute (Spanned _ left) attr) =
     and_then (primary_components left) (\<lambda>names. Inr (names @ [sp_inner attr]))"
| "primary_components _ = Inl UnreachableCode"

fun primary_is_comment :: "primary \<Rightarrow> bool" where
  "primary_is_comment (Atomic (Spanned _ (AtComment _))) = True"
| "primary_is_comment _ = False"

definition is_dynamically_typed :: "function_def \<Rightarrow> bool" where
  "is_dynamically_typed f =
     (case fn_args f of None \<Rightarrow> False | Some args \<Rightarrow> list_ex (\<lambda>arg. snd arg = None) args)"

section \<open>Spans\<close>

fun expr_span :: "expr \<Rightarrow> span option" where
  "expr_span (BinOp left _ right) = Some (fst (sp_span left), snd (sp_span right))"
| "expr_span (ExprIf _ left right) = Some (fst (sp_span left), snd (sp_span right))"
| "expr_span (Named left right) = Some (fst (sp_span left), fst (sp_span right))"
| "expr_span (Unary _ v) = Some (sp_span v)"
| "expr_span (ExprPrimary p) = Some (sp_span p)"

fun primary_span :: "primary \<Rightarrow> span option rust" where
  "primary_span (Atomic s) = Inr (Some (sp_span s))"
| "primary_span (Subscript v index) = Inr (Some (fst (sp_span v), snd (sp_span index)))"
| "primary_span (Call func None) = Inr None"
| "primary_span (Call func (Some args)) =
     Inr (if args = [] then None else Some (fst (sp_span func), snd (sp_span (last args))))"
| "primary_span (Attribute left attr) = Inr (Some (fst (sp_span left), snd (sp_span attr)))"
| "primary_span (Await _) = Inl TodoMacro"

definition function_def_span :: "function_def \<Rightarrow> span option" where
  "function_def_span f =
     (if fn_body f = [] then None
      else Some (fst (sp_span (fn_name f)), snd (sp_span (last (fn_body f)))))"

definition while_span :: "while_stmt \<Rightarrow> span option" where
  "while_span w = Some (fst (sp_span (wh_test w)),
     if wh_body w = [] then snd (sp_span (wh_test w)) else snd (sp_span (last (wh_body w))))"

definition class_def_span :: "class_def \<Rightarrow> span option" where
  "class_def_span c = Some (fst (sp_span (cls_name c)),
     if cls_body c = [] then snd (sp_span (cls_name c)) else snd (sp_span (last (cls_body c))))"

definition assign_span :: "assign \<Rightarrow> span option" where
  "assign_span a = Some (fst (sp_span (asn_name a)), snd (sp_span (asn_value a)))"

fun return_span :: "return_stmt \<Rightarrow> span option" where
  "return_span (Return (Inr val)) = Some (sp_span val)"
| "return_span (Return (Inl tok)) = Some (sp_span tok)"

definition if_branch_span :: "if_branch \<Rightarrow> span option" where
  "if_branch_span b = Some (fst (sp_span (if_test b)),
     if if_body b = [] then snd (sp_span (if_test b)) else snd (sp_span (last (if_body b))))"

text \<open>\<open>self.branches[0]\<close> panics on a chain without branches.\<close>

definition if_chain_span :: "if_chain \<Rightarrow> span option rust" where
  "if_chain_span c =
     (case if_branches c of
        [] \<Rightarrow> Inl IndexOutOfBounds
      | head # _ \<Rightarrow>
          Inr (Some (fst (sp_span head),
            (case if_orelse c of
               Some (x # xs) \<Rightarrow> snd (sp_span (last (x # xs)))
             | _ \<Rightarrow> snd (sp_span (last (if_branches c)))))))"

fun import_span :: "import \<Rightarrow> span option" where
  "import_span (ImportNames names) =
     (if names = [] then None else Some (fst (sp_span (hd names)), snd (sp_span (last names))))"
| "import_span (ImportFrom m names _) =
     (if names = [] then None else Some (fst (sp_span m), snd (sp_span (last names))))"

fun module_span :: "module \<Rightarrow> span option" where
  "module_span (Module []) = None"
| "module_span (Module [item]) = Some (sp_span item)"
| "module_span (Module (head # next # rest)) = Some (fst (sp_span head), snd (sp_span (last (next # rest))))"

section \<open>The node view\<close>

datatype ast_node =
    NImport import
  | NClassDef class_def
  | NFuncDef function_def
  | NIf if_chain
  | NAssign assign
  | NInt atom
  | NStr atom
  | NComment atom
  | NBool atom
  | NFloat atom
  | NTuple atom
  | NName atom
  | NBinOp expr
  | NIfExpr expr
  | NUnary expr
  | NNamedExpr expr
  | NNone atom
  | NEllipsis atom
  | NSubscript primary
  | NCall primary
  | NAttr primary
  | NRet return_stmt
  | NWhile while_stmt
  | NAnnotation annotation
  | NPass

fun atom_into_ast_node :: "atom \<Rightarrow> ast_node" where
  "atom_into_ast_node AtNone = NNone AtNone"
| "atom_into_ast_node AtEllipsis = NEllipsis AtEllipsis"
| "atom_into_ast_node (AtInt n) = NInt (AtInt n)"
| "atom_into_ast_node (AtStr s) = NStr (AtStr s)"
| "atom_into_ast_node (AtBool b) = NBool (AtBool b)"
| "atom_into_ast_node (AtFloat f) = NFloat (AtFloat f)"
| "atom_into_ast_node (AtTuple es) = NTuple (AtTuple es)"
| "atom_into_ast_node (AtComment c) = NComment (AtComment c)"
| "atom_into_ast_node (AtName n) = NName (AtName n)"

fun primary_into_ast_node :: "primary \<Rightarrow> ast_node rust" where
  "primary_into_ast_node (Atomic a) = Inr (atom_into_ast_node (sp_inner a))"
| "primary_into_ast_node (Subscript v i) = Inr (NSubscript (Subscript v i))"
| "primary_into_ast_node (Call f args) = Inr (NCall (Call f args))"
| "primary_into_ast_node (Attribute l a) = Inr (NAttr (Attribute l a))"
| "primary_into_ast_node (Await _) = Inl TodoMacro"

fun expr_into_ast_node :: "expr \<Rightarrow> ast_node rust" where
  "expr_into_ast_node (ExprIf t b e) = Inr (NIfExpr (ExprIf t b e))"
| "expr_into_ast_node (BinOp l op r) = Inr (NBinOp (BinOp l op r))"
| "expr_into_ast_node (Unary op v) = Inr (NUnary (Unary op v))"
| "expr_into_ast_node (Named t v) = Inr (NNamedExpr (Named t v))"
| "expr_into_ast_node (ExprPrimary p) = primary_into_ast_node (sp_inner p)"

fun statement_into_ast_node :: "statement \<Rightarrow> ast_node rust" where
  "statement_into_ast_node StPass = Inr NPass"
| "statement_into_ast_node (StExpr e) = expr_into_ast_node e"
| "statement_into_ast_node (StFnDef f) = Inr (NFuncDef f)"
| "statement_into_ast_node (StRet r) = Inr (NRet r)"
| "statement_into_ast_node (StAsn a) = Inr (NAssign a)"
| "statement_into_ast_node (StAnn a) = Inr (NAnnotation a)"
| "statement_into_ast_node (StImport i) = Inr (NImport i)"
| "statement_into_ast_node (StClass c) = Inr (NClassDef c)"
| "statement_into_ast_node (StIf c) = Inr (NIf c)"
| "statement_into_ast_node (StWhile w) = Inr (NWhile w)"

text \<open>The body of a function consists of \<open>...\<close>, or of a string and \<open>...\<close>.\<close>

definition fn_is_ellipsis_stubbed :: "function_def \<Rightarrow> bool rust" where
  "fn_is_ellipsis_stubbed f =
     (case fn_body f of
        [] \<Rightarrow> Inl UnreachableCode
      | [h] \<Rightarrow> and_then (statement_into_ast_node (sp_inner h)) (\<lambda>n.
                 Inr (case n of NEllipsis _ \<Rightarrow> True | _ \<Rightarrow> False))
      | [h, t] \<Rightarrow>
          and_then (statement_into_ast_node (sp_inner h)) (\<lambda>n.
          (case n of
             NStr _ \<Rightarrow> and_then (statement_into_ast_node (sp_inner t)) (\<lambda>m.
                 Inr (case m of NEllipsis _ \<Rightarrow> True | _ \<Rightarrow> False))
           | _ \<Rightarrow> Inr False))
      | _ \<Rightarrow> Inr False)"

end
