(* ===== verification/ParseCore.thy ===== *)
theory ParseCore
  imports Ast
begin

text \<open>
  Tokens, the token stream and the basic parsers: \<^verbatim>\<open>montyc_parser/src/token.rs\<close>, \<^verbatim>\<open>lib.rs\<close> and
  \<^verbatim>\<open>comb/core.rs\<close>.

  \<^item> What the token iterator will yield is given as a list of tokens and panics (\<^verbatim>\<open>TokenIter\<close>
    computes it). The stream pulls one at a time, and remembers how many it has pulled and whether
    it has met the end.
  \<^item> A parser takes the position it starts at and the stream. It does not return (\<open>None\<close>), panics,
    fails, or returns the position it stopped at and a value, with the stream.
  \<^item> The combinators of \<open>nom\<close> are the fields of a record that every parser using them takes;
    \<open>nom_spec\<close> is their documented behaviour, a hypothesis of the theorems that need it.
\<close>

section \<open>Tokens\<close>

datatype py_token =
    TkInvalid | TkTrue | TkFalse | TkNone | TkIs | TkOr | TkNot | TkAwait | TkAsync | TkIf | TkElif | TkElse | TkClassDef
  | TkFnDef | TkReturn | TkWhile | TkPass | TkContinue | TkIn | TkBreak | TkFrom | TkImport | TkRaise | TkAssert | TkDel
  | TkGlobal | TkYield | TkNonlocal | TkEllipsis | TkLParen | TkRParen | TkLBracket | TkRBracket | TkLBrace | TkRBrace
  | TkAt | TkEscape | TkDiv | TkCaret | TkComma | TkEqual | TkDot | TkAnd | TkColon | TkPlus | TkMinus | TkStar | TkTilde
  | TkModulo | TkLessThan | TkPipe | TkGreaterThan | TkBang | TkNewline | TkFormFeed | TkDisappointment | TkWhitespace
  | TkDigits "64 word" | TkComment | TkStringLiteral | TkByteLiteral | TkRawIdent
  | TkIdent span_ref | TkStringRef span_ref | TkCommentRef span_ref

text \<open>\<open>From<PyToken> for Option<SpanRef>\<close> and \<open>From<PyToken> for Atom\<close>.\<close>

definition token_span_ref :: "py_token \<Rightarrow> span_ref option" where
  "token_span_ref t = (case t of TkStringRef n \<Rightarrow> Some n | TkCommentRef n \<Rightarrow> Some n | TkIdent n \<Rightarrow> Some n | _ \<Rightarrow> None)"

definition atom_of_token :: "py_token \<Rightarrow> atom rust" where
  "atom_of_token t =
     (case t of
        TkEllipsis \<Rightarrow> Inr AtEllipsis
      | TkNone \<Rightarrow> Inr AtNone
      | TkTrue \<Rightarrow> Inr (AtBool True)
      | TkFalse \<Rightarrow> Inr (AtBool False)
      | TkDigits n \<Rightarrow> Inr (AtInt n)
      | TkCommentRef n \<Rightarrow> Inr (AtComment n)
      | TkStringRef n \<Rightarrow> Inr (AtStr n)
      | TkIdent n \<Rightarrow> Inr (AtName n)
      | _ \<Rightarrow> Inl UnreachableCode)"

section \<open>The token stream\<close>

text \<open>\<open>ts_pulled\<close> is the length of the vector \<open>tokens\<close>, a prefix of \<open>ts_tokens\<close>.\<close>

record token_stream =
  ts_tokens :: "(py_token \<times> span) rust list"
  ts_pulled :: nat
  ts_complete :: bool

datatype error_kind = ErrEof | ErrIsNot | ErrAlt | ErrNom

type_synonym 'a parser = "nat \<Rightarrow> token_stream \<Rightarrow> (panic + (error_kind + nat \<times> 'a) \<times> token_stream) option"

definition pret :: "'a \<Rightarrow> 'a parser" where
  "pret x pos st = Some (Inr (Inr (pos, x), st))"

definition pfail :: "error_kind \<Rightarrow> 'a parser" where
  "pfail k pos st = Some (Inr (Inl k, st))"

definition prust :: "'a rust \<Rightarrow> 'a parser" where
  "prust r pos st = (case r of Inl p \<Rightarrow> Some (Inl p) | Inr x \<Rightarrow> Some (Inr (Inr (pos, x), st)))"

definition pbind :: "'a parser \<Rightarrow> ('a \<Rightarrow> 'b parser) \<Rightarrow> 'b parser" where
  "pbind p f pos st =
     (case p pos st of
        None \<Rightarrow> None
      | Some (Inl e) \<Rightarrow> Some (Inl e)
      | Some (Inr (Inl k, st')) \<Rightarrow> Some (Inr (Inl k, st'))
      | Some (Inr (Inr (pos', x), st')) \<Rightarrow> f x pos' st')"

text \<open>On failure, the second parser starts where the first one did; the stream keeps what it pulled.\<close>

definition por :: "'a parser \<Rightarrow> 'a parser \<Rightarrow> 'a parser" where
  "por p q pos st = (case p pos st of Some (Inr (Inl _, st')) \<Rightarrow> q pos st' | r \<Rightarrow> r)"

text \<open>\<open>if let Ok((s, x)) = p(stream) { f(x) } else { q }\<close>: a failure of \<open>f\<close> is a failure.\<close>

definition pif :: "'a parser \<Rightarrow> ('a \<Rightarrow> 'b parser) \<Rightarrow> 'b parser \<Rightarrow> 'b parser" where
  "pif p f q pos st =
     (case p pos st of
        None \<Rightarrow> None
      | Some (Inl e) \<Rightarrow> Some (Inl e)
      | Some (Inr (Inl _, st')) \<Rightarrow> q pos st'
      | Some (Inr (Inr (pos', x), st')) \<Rightarrow> f x pos' st')"

text \<open>\<open>p(stream).unwrap_or((stream, d))\<close>, and \<open>p(stream).unwrap()\<close>.\<close>

definition unwrap_or :: "'a parser \<Rightarrow> 'a \<Rightarrow> 'a parser" where
  "unwrap_or p d = por p (pret d)"

definition punwrap :: "'a parser \<Rightarrow> 'a parser" where
  "punwrap p = por p (prust (Inl UnwrapNone))"

text \<open>\<open>let (_, x) = p(stream)?\<close>: the result of \<open>p\<close>, and the stream is left where it was.\<close>

definition plook :: "'a parser \<Rightarrow> 'a parser" where
  "plook p pos st =
     (case p pos st of
        Some (Inr (Inr (_, x), st')) \<Rightarrow> Some (Inr (Inr (pos, x), st'))
      | r \<Rightarrow> r)"

text \<open>
  A loop. Its body gives the next state or the result. \<open>piter p f\<close> is a body that breaks, with the
  stream where the iteration began, when \<open>p\<close> gives \<open>Inl\<close>, and otherwise goes on with \<open>f\<close>.
\<close>

fun ploop :: "nat \<Rightarrow> ('s \<Rightarrow> ('s + 'b) parser) \<Rightarrow> 's \<Rightarrow> 'b parser" where
  "ploop 0 f s pos st = None"
| "ploop (Suc n) f s pos st = pbind (f s) (case_sum (ploop n f) pret) pos st"

definition piter :: "('b + 'h) parser \<Rightarrow> ('h \<Rightarrow> 's parser) \<Rightarrow> ('s + 'b) parser" where
  "piter p f pos st =
     (case p pos st of
        None \<Rightarrow> None
      | Some (Inl e) \<Rightarrow> Some (Inl e)
      | Some (Inr (Inl k, st')) \<Rightarrow> Some (Inr (Inl k, st'))
      | Some (Inr (Inr (_, Inl b), st')) \<Rightarrow> Some (Inr (Inr (pos, Inr b), st'))
      | Some (Inr (Inr (pos', Inr h), st')) \<Rightarrow> pbind (f h) (\<lambda>s. pret (Inl s)) pos' st')"

text \<open>\<open>TokenStreamRef::grow\<close>: one more token, or the end.\<close>

definition ts_grow :: "token_stream \<Rightarrow> (py_token \<times> span) rust option \<times> token_stream" where
  "ts_grow st =
     (case get_at (ts_tokens st) (ts_pulled st) of
        None \<Rightarrow> (None, st\<lparr>ts_complete := True\<rparr>)
      | Some t \<Rightarrow> (Some t, st\<lparr>ts_pulled := ts_pulled st + 1\<rparr>))"

definition ts_is_eof :: "token_stream \<Rightarrow> bool" where
  "ts_is_eof st = ts_complete st"

definition expect_with :: "(py_token \<Rightarrow> span \<Rightarrow> bool) \<Rightarrow> py_token spanned parser" where
  "expect_with predicate pos st =
     (if ts_pulled st < pos then Some (Inl IndexOutOfBounds)
      else case (if ts_pulled st = pos then ts_grow st else (get_at (ts_tokens st) pos, st)) of
        (None, st') \<Rightarrow> Some (Inr (Inl ErrEof, st'))
      | (Some (Inl p), st') \<Rightarrow> Some (Inl p)
      | (Some (Inr _), st') \<Rightarrow>
          (case get_at (ts_tokens st') pos of
             None \<Rightarrow> Some (Inl AssertionFailed)
           | Some (Inl p) \<Rightarrow> Some (Inl p)
           | Some (Inr (token, sp)) \<Rightarrow>
               (if predicate token sp then Some (Inr (Inr (pos + 1, Spanned sp token), st'))
                else Some (Inr (Inl ErrIsNot, st')))))"

definition expect :: "py_token \<Rightarrow> py_token spanned parser" where
  "expect v = expect_with (\<lambda>t _. t = v)"

text \<open>\<open>while let Ok((s, x)) = p(stream) { stream = s; state = x }\<close>.\<close>

definition pwhile :: "nat \<Rightarrow> ('s \<Rightarrow> 's parser) \<Rightarrow> 's \<Rightarrow> 's parser" where
  "pwhile n p = ploop n (\<lambda>s. pif (p s) (\<lambda>x. pret (Inl x)) (pret (Inr s)))"

section \<open>Progress\<close>

text \<open>
  \<open>good C m p\<close>: on a stream with at most \<open>m\<close> tokens left, \<open>p\<close> returns, panics or fails; it keeps the
  tokens and what has been pulled; it never goes back, and a result that satisfies \<open>C\<close> has consumed a
  token.
\<close>

definition ts_at :: "nat \<Rightarrow> token_stream \<Rightarrow> bool" where
  "ts_at pos st \<longleftrightarrow> pos \<le> ts_pulled st \<and> ts_pulled st \<le> length (ts_tokens st)"

definition good_result :: "('a \<Rightarrow> bool) \<Rightarrow> nat \<Rightarrow> token_stream \<Rightarrow> (panic + (error_kind + nat \<times> 'a) \<times> token_stream) \<Rightarrow> bool" where
  "good_result C pos st r =
     (case r of
        Inl _ \<Rightarrow> True
      | Inr (e, st') \<Rightarrow> ts_tokens st' = ts_tokens st \<and> ts_at pos st'
          \<and> (case e of Inl _ \<Rightarrow> True | Inr (pos', x) \<Rightarrow> pos \<le> pos' \<and> ts_at pos' st' \<and> (C x \<longrightarrow> pos < pos')))"

definition good :: "('a \<Rightarrow> bool) \<Rightarrow> nat \<Rightarrow> 'a parser \<Rightarrow> bool" where
  "good C m p \<longleftrightarrow> (\<forall>pos st. ts_at pos st \<longrightarrow> length (ts_tokens st) - pos \<le> m \<longrightarrow>
     (\<exists>r. p pos st = Some r \<and> good_result C pos st r))"

abbreviation "consumes m p \<equiv> good (\<lambda>_. True) m p"
abbreviation "returns m p \<equiv> good (\<lambda>_. False) m p"

named_theorems good_intros \<open>parsers that return and make progress\<close>

lemma goodI:
  assumes "\<And>pos st. ts_at pos st \<Longrightarrow> length (ts_tokens st) - pos \<le> m \<Longrightarrow> \<exists>r. p pos st = Some r \<and> good_result C pos st r"
  shows "good C m p"
  using assms by (simp add: good_def)

lemma goodE [consumes 3, case_names panic fail ok]:
  assumes "good C m p" and "ts_at pos st" and "length (ts_tokens st) - pos \<le> m"
  obtains q where "p pos st = Some (Inl q)"
    | e st' where "p pos st = Some (Inr (Inl e, st'))" "ts_tokens st' = ts_tokens st" "ts_at pos st'"
    | pos' x st' where "p pos st = Some (Inr (Inr (pos', x), st'))" "ts_tokens st' = ts_tokens st" "ts_at pos st'"
        "pos \<le> pos'" "ts_at pos' st'" "C x \<Longrightarrow> pos < pos'"
proof -
  obtain r where r: "p pos st = Some r" "good_result C pos st r" using assms by (auto simp: good_def)
  show thesis
  proof (cases r)
    case (Inl q)
    then show ?thesis using that(1) r(1) by simp
  next
    case (Inr y)
    obtain e st' where y: "y = (e, st')" by (cases y)
    show ?thesis
    proof (cases e)
      case (Inl k)
      then show ?thesis using that(2) [of k st'] r Inr y by (simp add: good_result_def)
    next
      case (Inr z)
      obtain pos' x where "z = (pos', x)" by (cases z)
      then show ?thesis using that(3) [of pos' x st'] r \<open>r = Inr y\<close> y Inr by (simp add: good_result_def)
    qed
  qed
qed

lemma good_mono:
  assumes "good C m p" and "m' \<le> m" and "\<And>x. D x \<Longrightarrow> C x"
  shows "good D m' p"
proof (rule goodI)
  fix pos st assume st: "ts_at pos st" "length (ts_tokens st) - pos \<le> m'"
  then have "length (ts_tokens st) - pos \<le> m" using assms(2) by simp
  from assms(1) st(1) this show "\<exists>r. p pos st = Some r \<and> good_result D pos st r"
    by (cases rule: goodE) (auto simp: good_result_def dest: assms(3))
qed

lemma consumes_good: "consumes m p \<Longrightarrow> good C m p"
  by (erule good_mono) simp_all

lemma good_returns: "good C m p \<Longrightarrow> returns m p"
  by (erule good_mono) simp_all

lemma good_pret: "\<not> C x \<Longrightarrow> good C m (pret x)"
  by (simp add: good_def pret_def good_result_def)

lemma returns_pret [good_intros]: "returns m (pret x)"
  by (simp add: good_pret)

lemma good_pfail [good_intros]: "good C m (pfail e)"
  by (simp add: good_def pfail_def good_result_def)

lemma good_panic [good_intros]: "good C m (prust (Inl p))"
  by (simp add: good_def prust_def good_result_def)

lemma returns_prust [good_intros]: "returns m (prust r)"
  by (cases r) (simp_all add: good_def prust_def good_result_def)

lemma good_expect_with [good_intros]: "good C m (expect_with f)"
proof -
  have "consumes m (expect_with f)"
    by (rule goodI)
      (auto simp: expect_with_def ts_at_def ts_grow_def good_result_def get_at_Some_iff split: option.split prod.split sum.split)
  then show ?thesis by (rule consumes_good)
qed

lemma good_expect [good_intros]: "good C m (expect v)"
  unfolding expect_def by (rule good_expect_with)

text \<open>Sequences: the first parser consumes, or a later one does.\<close>

lemma good_first:
  assumes "consumes m p" and "\<And>x. 0 < m \<Longrightarrow> returns (m - 1) (f x)"
  shows "good C m (pbind p f)"
proof (rule goodI)
  fix pos st assume st: "ts_at pos st" "length (ts_tokens st) - pos \<le> m"
  from assms(1) st show "\<exists>r. pbind p f pos st = Some r \<and> good_result C pos st r"
  proof (cases rule: goodE)
    case (ok pos' x st')
    have "pos' \<le> length (ts_tokens st)" using ok(2,5) by (simp add: ts_at_def)
    then have "0 < m" "length (ts_tokens st') - pos' \<le> m - 1" using ok st(2) by simp_all
    from assms(2) [OF this(1)] ok(5) this(2) show ?thesis
      by (cases rule: goodE) (use ok in \<open>auto simp: pbind_def ts_at_def good_result_def\<close>)
  qed (simp_all add: pbind_def good_result_def)
qed

lemma good_later:
  assumes "returns m p" and "\<And>x. good C m (f x)"
  shows "good C m (pbind p f)"
proof (rule goodI)
  fix pos st assume st: "ts_at pos st" "length (ts_tokens st) - pos \<le> m"
  from assms(1) st show "\<exists>r. pbind p f pos st = Some r \<and> good_result C pos st r"
  proof (cases rule: goodE)
    case (ok pos' x st')
    then have "length (ts_tokens st') - pos' \<le> m" using st(2) by simp
    from assms(2) ok(5) this show ?thesis
      by (cases rule: goodE) (use ok in \<open>auto simp: pbind_def ts_at_def good_result_def\<close>)
  qed (simp_all add: pbind_def good_result_def)
qed

lemma good_por [good_intros]:
  assumes "good C m p" and "good C m q"
  shows "good C m (por p q)"
proof (rule goodI)
  fix pos st assume st: "ts_at pos st" "length (ts_tokens st) - pos \<le> m"
  from assms(1) st show "\<exists>r. por p q pos st = Some r \<and> good_result C pos st r"
  proof (cases rule: goodE)
    case (fail e st')
    have "length (ts_tokens st') - pos \<le> m" using fail(2) st(2) by simp
    from assms(2) fail(3) this show ?thesis
      by (cases rule: goodE) (use fail in \<open>auto simp: por_def good_result_def\<close>)
  qed (auto simp: por_def good_result_def)
qed

text \<open>\<open>pif\<close> is \<open>pbind\<close> when the first parser succeeds, and otherwise the alternative.\<close>

lemma good_pif:
  assumes "returns m p" and "good C m (pbind p f)" and "good C m q"
  shows "good C m (pif p f q)"
proof (rule goodI)
  fix pos st assume st: "ts_at pos st" "length (ts_tokens st) - pos \<le> m"
  from assms(1) st show "\<exists>r. pif p f q pos st = Some r \<and> good_result C pos st r"
  proof (cases rule: goodE)
    case (fail e st')
    have "length (ts_tokens st') - pos \<le> m" using fail(2) st(2) by simp
    from assms(3) fail(3) this show ?thesis
      by (cases rule: goodE) (use fail in \<open>auto simp: pif_def good_result_def\<close>)
  next
    case (ok pos' x st')
    then have "pif p f q pos st = pbind p f pos st" by (simp add: pif_def pbind_def)
    then show ?thesis using assms(2) st by (auto simp: good_def)
  qed (auto simp: pif_def good_result_def)
qed

lemma good_pif_first:
  "consumes m p \<Longrightarrow> (\<And>x. 0 < m \<Longrightarrow> returns (m - 1) (f x)) \<Longrightarrow> good C m q \<Longrightarrow> good C m (pif p f q)"
  by (intro good_pif good_first) (auto intro: good_returns)

lemma good_pif_later:
  "returns m p \<Longrightarrow> (\<And>x. good C m (f x)) \<Longrightarrow> good C m q \<Longrightarrow> good C m (pif p f q)"
  by (intro good_pif good_later)

lemma good_unwrap_or: "returns m p \<Longrightarrow> returns m (unwrap_or p d)"
  unfolding unwrap_or_def by (intro good_intros)

lemma good_punwrap: "good C m p \<Longrightarrow> good C m (punwrap p)"
  unfolding punwrap_def by (intro good_intros)

lemma good_plook:
  assumes "returns m p" shows "returns m (plook p)"
proof (rule goodI)
  fix pos st assume st: "ts_at pos st" "length (ts_tokens st) - pos \<le> m"
  from assms st show "\<exists>r. plook p pos st = Some r \<and> good_result (\<lambda>_. False) pos st r"
    by (cases rule: goodE) (auto simp: plook_def good_result_def)
qed

text \<open>Loops: every iteration that goes on has consumed a token.\<close>

lemma good_ploop:
  assumes "\<And>s m'. m' \<le> m \<Longrightarrow> good isl m' (f s)" and "m < n"
  shows "returns m (ploop n f s)"
  using assms
proof (induction n arbitrary: m s)
  case (Suc n)
  show ?case
  proof (rule goodI)
    fix pos st assume st: "ts_at pos st" "length (ts_tokens st) - pos \<le> m"
    have "good isl m (f s)" by (rule Suc.prems(1)) simp
    from this st show "\<exists>r. ploop (Suc n) f s pos st = Some r \<and> good_result (\<lambda>_. False) pos st r"
    proof (cases rule: goodE)
      case (ok pos' x st')
      have le: "pos' \<le> length (ts_tokens st)" using ok(2,5) by (simp add: ts_at_def)
      show ?thesis
      proof (cases x)
        case (Inl s')
        then have m: "m - 1 < n" "length (ts_tokens st') - pos' \<le> m - 1" using le ok st(2) Suc.prems(2) by simp_all
        have "good isl m' (f t)" if "m' \<le> m - 1" for m' t using Suc.prems(1) that by simp
        from Suc.IH [OF this m(1)] ok(5) m(2) show ?thesis
          by (cases rule: goodE) (use ok Inl in \<open>auto simp: pbind_def ts_at_def good_result_def\<close>)
      next
        case (Inr b)
        then show ?thesis using ok by (simp add: pbind_def pret_def good_result_def)
      qed
    qed (simp_all add: pbind_def good_result_def)
  qed
qed simp

lemma good_pwhile:
  assumes "\<And>s m'. m' \<le> m \<Longrightarrow> consumes m' (p s)" and "m < n"
  shows "returns m (pwhile n p s)"
  unfolding pwhile_def
  by (rule good_ploop [OF _ assms(2)], rule good_pif_first [OF assms(1)]) (auto intro: good_pret)

text \<open>An iteration consumes before or after it has decided to go on.\<close>

lemma good_piter_late:
  assumes "returns m p" and "\<And>h. consumes m (f h)"
  shows "good isl m (piter p f)"
proof (rule goodI)
  fix pos st assume st: "ts_at pos st" "length (ts_tokens st) - pos \<le> m"
  from assms(1) st show "\<exists>r. piter p f pos st = Some r \<and> good_result isl pos st r"
  proof (cases rule: goodE)
    case (ok pos' x st')
    then have le: "length (ts_tokens st') - pos' \<le> m" using st(2) by simp
    show ?thesis
    proof (cases x)
      case (Inr h)
      from assms(2) [of h] ok(5) le show ?thesis
        by (cases rule: goodE) (use ok Inr in \<open>auto simp: piter_def pbind_def pret_def ts_at_def good_result_def\<close>)
    qed (use ok in \<open>simp add: piter_def good_result_def\<close>)
  qed (simp_all add: piter_def good_result_def)
qed

lemma good_piter_early:
  assumes "good (\<lambda>x. \<not> isl x) m p" and "\<And>h. 0 < m \<Longrightarrow> returns (m - 1) (f h)"
  shows "good isl m (piter p f)"
proof (rule goodI)
  fix pos st assume st: "ts_at pos st" "length (ts_tokens st) - pos \<le> m"
  from assms(1) st show "\<exists>r. piter p f pos st = Some r \<and> good_result isl pos st r"
  proof (cases rule: goodE)
    case (ok pos' x st')
    have le: "pos' \<le> length (ts_tokens st)" using ok(2,5) by (simp add: ts_at_def)
    show ?thesis
    proof (cases x)
      case (Inr h)
      then have "0 < m" "length (ts_tokens st') - pos' \<le> m - 1" using le ok st(2) by simp_all
      from assms(2) [OF this(1), of h] ok(5) this(2) show ?thesis
        by (cases rule: goodE) (use ok Inr in \<open>auto simp: piter_def pbind_def pret_def ts_at_def good_result_def\<close>)
    qed (use ok in \<open>simp add: piter_def good_result_def\<close>)
  qed (simp_all add: piter_def good_result_def)
qed

section \<open>nom\<close>

text \<open>
  The combinators of \<open>nom\<close> that the parsers use, at the types they use them at: \<open>name\<close>s are for
  tokens, with a suffix for the other results.
\<close>

type_synonym parsed_argument = "py_token spanned \<times> expr spanned option"

record nom =
  nom_many0 :: "py_token spanned parser \<Rightarrow> py_token spanned list parser"
  nom_many0_arg :: "parsed_argument parser \<Rightarrow> parsed_argument list parser"
  nom_many1 :: "py_token spanned parser \<Rightarrow> py_token spanned list parser"
  nom_many_m_n :: "nat \<Rightarrow> nat \<Rightarrow> py_token spanned parser \<Rightarrow> py_token spanned list parser"
  nom_alt_atom :: "atom spanned parser list \<Rightarrow> atom spanned parser"
  nom_alt_expr :: "expr spanned parser list \<Rightarrow> expr spanned parser"
  nom_alt_stmt :: "statement spanned parser list \<Rightarrow> statement spanned parser"
  nom_alt_import :: "import spanned parser list \<Rightarrow> import spanned parser"
  nom_alt_arg :: "parsed_argument parser list \<Rightarrow> parsed_argument parser"
  nom_terminated :: "py_token spanned parser \<Rightarrow> py_token spanned list parser \<Rightarrow> py_token spanned parser"
  nom_terminated_tok :: "py_token spanned parser \<Rightarrow> py_token spanned parser \<Rightarrow> py_token spanned parser"
  nom_terminated_atom :: "atom spanned parser \<Rightarrow> py_token spanned list parser \<Rightarrow> atom spanned parser"
  nom_terminated_expr :: "expr spanned parser \<Rightarrow> py_token spanned list parser \<Rightarrow> expr spanned parser"
  nom_terminated_primary :: "primary spanned parser \<Rightarrow> py_token spanned list parser \<Rightarrow> primary spanned parser"
  nom_terminated_arg :: "parsed_argument parser \<Rightarrow> py_token spanned parser \<Rightarrow> parsed_argument parser"
  nom_tuple_float :: "py_token spanned parser \<Rightarrow> py_token spanned parser \<Rightarrow> py_token spanned parser
    \<Rightarrow> (py_token spanned \<times> py_token spanned \<times> py_token spanned) parser"
  nom_tuple_else :: "unit parser \<Rightarrow> py_token spanned parser \<Rightarrow> unit parser \<Rightarrow> (unit \<times> py_token spanned \<times> unit) parser"
  nom_tuple_if :: "unit parser \<Rightarrow> expr spanned parser \<Rightarrow> unit parser \<Rightarrow> py_token spanned parser \<Rightarrow> unit parser
    \<Rightarrow> (unit \<times> expr spanned \<times> unit \<times> py_token spanned \<times> unit) parser"
  nom_tuple_while :: "py_token spanned list parser \<Rightarrow> expr spanned parser \<Rightarrow> py_token spanned list parser
    \<Rightarrow> py_token spanned parser \<Rightarrow> py_token spanned list parser
    \<Rightarrow> (py_token spanned list \<times> expr spanned \<times> py_token spanned list \<times> py_token spanned \<times> py_token spanned list) parser"

text \<open>
  What their documentation says. \<open>alt\<close> gives the first success; \<open>terminated\<close> and \<open>tuple\<close> run parsers
  one after the other; \<open>many0\<close> repeats a parser until it fails, \<open>many1\<close> at least once, \<open>many_m_n\<close>
  between \<open>m\<close> and \<open>n\<close> times. The laws of \<open>many0\<close> are for a parser that returns and consumes input
  where it is run.
\<close>

definition alt_spec :: "('a parser list \<Rightarrow> 'a parser) \<Rightarrow> bool" where
  "alt_spec alt \<longleftrightarrow> (\<forall>ps. alt ps = foldr por ps (pfail ErrNom))"

definition terminated_spec :: "('a parser \<Rightarrow> 'b parser \<Rightarrow> 'a parser) \<Rightarrow> bool" where
  "terminated_spec terminated \<longleftrightarrow> (\<forall>p q. terminated p q = pbind p (\<lambda>x. pbind q (\<lambda>_. pret x)))"

definition tuple3_spec :: "('a parser \<Rightarrow> 'b parser \<Rightarrow> 'c parser \<Rightarrow> ('a \<times> 'b \<times> 'c) parser) \<Rightarrow> bool" where
  "tuple3_spec tuple \<longleftrightarrow> (\<forall>p q r. tuple p q r = pbind p (\<lambda>x. pbind q (\<lambda>y. pbind r (\<lambda>z. pret (x, y, z)))))"

definition tuple5_spec :: "('a parser \<Rightarrow> 'b parser \<Rightarrow> 'c parser \<Rightarrow> 'd parser \<Rightarrow> 'e parser \<Rightarrow> ('a \<times> 'b \<times> 'c \<times> 'd \<times> 'e) parser) \<Rightarrow> bool" where
  "tuple5_spec tuple \<longleftrightarrow> (\<forall>p q r s t. tuple p q r s t =
     pbind p (\<lambda>a. pbind q (\<lambda>b. pbind r (\<lambda>c. pbind s (\<lambda>d. pbind t (\<lambda>e. pret (a, b, c, d, e)))))))"

definition repeat_step :: "'a parser \<Rightarrow> 'a list parser \<Rightarrow> 'a list parser" where
  "repeat_step p ps = por (pbind p (\<lambda>x. pbind ps (\<lambda>xs. pret (x # xs)))) (pret [])"

definition many0_spec :: "('a parser \<Rightarrow> 'a list parser) \<Rightarrow> bool" where
  "many0_spec many0 \<longleftrightarrow> (\<forall>p m pos st. consumes m p \<longrightarrow> ts_at pos st \<longrightarrow> length (ts_tokens st) - pos \<le> m \<longrightarrow>
     many0 p pos st = repeat_step p (many0 p) pos st)"

fun prepeat :: "nat \<Rightarrow> 'a parser \<Rightarrow> 'a list parser" where
  "prepeat 0 p = pret []"
| "prepeat (Suc n) p = repeat_step p (prepeat n p)"

definition nom_spec :: "nom \<Rightarrow> bool" where
  "nom_spec N \<longleftrightarrow>
     many0_spec (nom_many0 N) \<and> many0_spec (nom_many0_arg N)
     \<and> (\<forall>p. nom_many1 N p = pbind p (\<lambda>x. pbind (nom_many0 N p) (\<lambda>xs. pret (x # xs))))
     \<and> (\<forall>m n p. nom_many_m_n N m n p = pbind (prepeat n p) (\<lambda>xs. if length xs < m then pfail ErrNom else pret xs))
     \<and> alt_spec (nom_alt_atom N) \<and> alt_spec (nom_alt_expr N) \<and> alt_spec (nom_alt_stmt N)
     \<and> alt_spec (nom_alt_import N) \<and> alt_spec (nom_alt_arg N)
     \<and> terminated_spec (nom_terminated N) \<and> terminated_spec (nom_terminated_tok N)
     \<and> terminated_spec (nom_terminated_atom N) \<and> terminated_spec (nom_terminated_expr N)
     \<and> terminated_spec (nom_terminated_primary N) \<and> terminated_spec (nom_terminated_arg N)
     \<and> tuple3_spec (nom_tuple_float N) \<and> tuple3_spec (nom_tuple_else N)
     \<and> tuple5_spec (nom_tuple_if N) \<and> tuple5_spec (nom_tuple_while N)"

lemma nom_specD:
  assumes "nom_spec N"
  shows "many0_spec (nom_many0 N)" "many0_spec (nom_many0_arg N)"
    "nom_many1 N p = pbind p (\<lambda>x. pbind (nom_many0 N p) (\<lambda>xs. pret (x # xs)))"
    "nom_many_m_n N i j p = pbind (prepeat j p) (\<lambda>xs. if length xs < i then pfail ErrNom else pret xs)"
    "alt_spec (nom_alt_atom N)" "alt_spec (nom_alt_expr N)" "alt_spec (nom_alt_stmt N)"
    "alt_spec (nom_alt_import N)" "alt_spec (nom_alt_arg N)"
    "terminated_spec (nom_terminated N)" "terminated_spec (nom_terminated_tok N)"
    "terminated_spec (nom_terminated_atom N)" "terminated_spec (nom_terminated_expr N)"
    "terminated_spec (nom_terminated_primary N)" "terminated_spec (nom_terminated_arg N)"
    "tuple3_spec (nom_tuple_float N)" "tuple3_spec (nom_tuple_else N)"
    "tuple5_spec (nom_tuple_if N)" "tuple5_spec (nom_tuple_while N)"
  using assms unfolding nom_spec_def by blast+

lemma good_many0:
  assumes many0: "many0_spec many0"
  shows "consumes m p \<Longrightarrow> returns m (many0 p)"
proof (induction m)
  case 0
  show ?case
  proof (rule goodI)
    fix pos st assume st: "ts_at pos st" "length (ts_tokens st) - pos \<le> 0"
    have "many0 p pos st = repeat_step p (many0 p) pos st"
      using many0 0 st unfolding many0_spec_def by blast
    moreover have "returns 0 (repeat_step p (many0 p))"
      unfolding repeat_step_def by (intro good_por returns_pret good_first [OF 0]) simp
    ultimately show "\<exists>r. many0 p pos st = Some r \<and> good_result (\<lambda>_. False) pos st r"
      using st by (simp add: good_def)
  qed
next
  case (Suc m)
  have "returns m (many0 p)" by (rule Suc.IH) (rule good_mono [OF Suc.prems], simp_all)
  then have step: "returns (Suc m) (repeat_step p (many0 p))"
    unfolding repeat_step_def
    by (intro good_por returns_pret good_first [OF Suc.prems]) (simp add: good_later returns_pret)
  show ?case
  proof (rule goodI)
    fix pos st assume st: "ts_at pos st" "length (ts_tokens st) - pos \<le> Suc m"
    have "many0 p pos st = repeat_step p (many0 p) pos st"
      using many0 Suc.prems st unfolding many0_spec_def by blast
    then show "\<exists>r. many0 p pos st = Some r \<and> good_result (\<lambda>_. False) pos st r"
      using st step by (simp add: good_def)
  qed
qed

lemma good_prepeat: "consumes m p \<Longrightarrow> returns m (prepeat n p)"
proof (induction n arbitrary: m)
  case (Suc n)
  have "returns (m - 1) (prepeat n p)" by (rule Suc.IH) (rule good_mono [OF Suc.prems], simp_all)
  then show ?case unfolding prepeat.simps repeat_step_def
    by (intro good_por returns_pret good_first [OF Suc.prems] good_later)
qed (simp add: returns_pret)

lemma good_foldr_por: "list_all (good C m) ps \<Longrightarrow> good C m (foldr por ps (pfail e))"
  by (induction ps) (simp_all add: good_intros)

lemma good_alt: "alt_spec alt \<Longrightarrow> list_all (good C m) ps \<Longrightarrow> good C m (alt ps)"
  by (simp add: alt_spec_def good_foldr_por)

lemma good_terminated:
  assumes "terminated_spec t"
  shows "consumes m p \<Longrightarrow> (0 < m \<Longrightarrow> returns (m - 1) q) \<Longrightarrow> good C m (t p q)"
    and "returns m p \<Longrightarrow> consumes m q \<Longrightarrow> good C m (t p q)"
proof -
  have t: "t p q = pbind p (\<lambda>x. pbind q (\<lambda>_. pret x))" using assms by (simp add: terminated_spec_def)
  show "good C m (t p q)" if "consumes m p" "0 < m \<Longrightarrow> returns (m - 1) q"
    unfolding t by (rule good_first [OF that(1)]) (rule good_later [OF that(2) returns_pret])
  show "good C m (t p q)" if "returns m p" "consumes m q"
    unfolding t by (rule good_later [OF that(1)]) (rule good_first [OF that(2) returns_pret])
qed

section \<open>Tokens expected\<close>

fun expect_any_of :: "py_token list \<Rightarrow> py_token spanned parser" where
  "expect_any_of [] = pfail ErrAlt"
| "expect_any_of (v # vs) = por (expect v) (expect_any_of vs)"

fun expect_any_token :: "py_token list \<Rightarrow> py_token spanned parser" where
  "expect_any_token [] = pfail ErrAlt"
| "expect_any_token (v # vs) = por (expect v) (expect_any_token vs)"

definition expect_many_n_var :: "nom \<Rightarrow> nat \<Rightarrow> py_token \<Rightarrow> py_token spanned list parser" where
  "expect_many_n_var N n v =
     (if n = 0 then nom_many0 N (expect v)
      else if n = 1 then nom_many1 N (expect v)
      else nom_many_m_n N n (min (n + 1) (2 ^ 64 - 1)) (expect v))"

text \<open>The const parameter \<open>N\<close> is the first argument.\<close>

definition expect_many_n :: "nom \<Rightarrow> nat \<Rightarrow> py_token \<Rightarrow> py_token spanned list parser" where
  "expect_many_n N n v =
     (if n = 0 then nom_many0 N (expect v)
      else if n = 1 then nom_many1 N (expect v)
      else nom_many_m_n N n (min (n + 1) (2 ^ 64 - 1)) (expect v))"

fun expect_all :: "py_token list \<Rightarrow> py_token spanned list \<Rightarrow> py_token spanned list parser" where
  "expect_all [] results = pret results"
| "expect_all (v # vs) results = pbind (expect v) (\<lambda>obj. expect_all vs (results @ [obj]))"

text \<open>The panic for an empty array is raised when the parser is built.\<close>

definition expect_wrapped_values :: "nom \<Rightarrow> py_token list \<Rightarrow> py_token \<Rightarrow> py_token spanned list parser" where
  "expect_wrapped_values N vs wrapper =
     (if vs = [] then prust (Inl PanicMacro)
      else pbind (expect_many_n N 0 wrapper) (\<lambda>_.
           pbind (expect_all vs []) (\<lambda>results.
           pbind (expect_many_n N 0 wrapper) (\<lambda>_.
           pret results))))"

definition whitespace :: "nom \<Rightarrow> unit parser" where
  "whitespace N = pbind (expect_many_n N 0 TkWhitespace) (\<lambda>_. pret ())"

lemma good_expect_any [good_intros]: "good C m (expect_any_token vs)" "good C m (expect_any_of vs)"
  by (induction vs) (simp_all add: good_intros)

lemma good_expect_many [good_intros]:
  assumes "nom_spec N"
  shows "returns m (expect_many_n N n v)" "returns m (expect_many_n_var N n v)"
proof -
  have many0: "returns k (nom_many0 N (expect v))" for k
    by (rule good_many0 [OF nom_specD(1) [OF assms]]) (rule good_expect)
  have "returns m (nom_many1 N (expect v))"
    unfolding nom_specD(3) [OF assms] by (intro good_first [OF good_expect] good_later many0 returns_pret)
  moreover have "returns m (nom_many_m_n N i j (expect v))" for i j
    unfolding nom_specD(4) [OF assms]
    by (rule good_later [OF good_prepeat [OF good_expect]]) (simp add: good_intros)
  ultimately show "returns m (expect_many_n N n v)" "returns m (expect_many_n_var N n v)"
    unfolding expect_many_n_def expect_many_n_var_def using many0 by simp_all
qed

lemma good_whitespace [good_intros]: "nom_spec N \<Longrightarrow> returns m (whitespace N)"
  unfolding whitespace_def by (intro good_later good_intros)

lemma good_expect_all: "returns m (expect_all vs acc)"
  by (induction vs arbitrary: m acc) (simp_all add: good_intros good_first)

lemma good_expect_all_Cons: "good C m (expect_all (v # vs) acc)"
  by (simp add: good_first [OF good_expect good_expect_all])

lemma good_expect_wrapped [good_intros]:
  assumes "nom_spec N" shows "good C m (expect_wrapped_values N (v # vs) w)"
proof -
  note skip = good_later [OF good_expect_many(1) [OF assms]]
  have "good C m (pbind (expect_many_n N 0 w) (\<lambda>_. pbind (expect_all (v # vs) []) (\<lambda>results.
      pbind (expect_many_n N 0 w) (\<lambda>_. pret results))))"
    by (intro skip good_first [OF good_expect_all_Cons] returns_pret)
  then show ?thesis by (simp add: expect_wrapped_values_def)
qed

text \<open>The parsers at the head of a sequence, and whether they consume.\<close>

lemmas good_first_token =
  good_first [OF good_expect] good_first [OF good_expect_with]
  good_first [OF good_expect_any(1)] good_first [OF good_expect_any(2)]
  good_pif_first [OF good_expect] good_pif_first [OF good_expect_with]
  good_pif_first [OF good_expect_any(1)] good_pif_first [OF good_expect_any(2)]

lemmas good_skip = good_later [OF good_whitespace] good_later [OF good_expect_many(1)] good_later [OF good_expect_many(2)]
  good_later [OF good_unwrap_or [OF good_whitespace]] good_later [OF good_unwrap_or [OF good_expect_many(1)]]
  good_later [OF good_unwrap_or [OF good_expect_many(2)]]
  good_later [OF good_punwrap [OF good_expect_many(1)]]
  good_later [OF returns_prust]

section \<open>The documented behaviour is possible\<close>

definition many_ref :: "'a parser \<Rightarrow> 'a list parser" where
  "many_ref p pos st = prepeat (Suc (length (ts_tokens st) - pos)) p pos st"

definition tuple3_ref :: "'a parser \<Rightarrow> 'b parser \<Rightarrow> 'c parser \<Rightarrow> ('a \<times> 'b \<times> 'c) parser" where
  "tuple3_ref p q r = pbind p (\<lambda>x. pbind q (\<lambda>y. pbind r (\<lambda>z. pret (x, y, z))))"

definition tuple5_ref :: "'a parser \<Rightarrow> 'b parser \<Rightarrow> 'c parser \<Rightarrow> 'd parser \<Rightarrow> 'e parser \<Rightarrow> ('a \<times> 'b \<times> 'c \<times> 'd \<times> 'e) parser" where
  "tuple5_ref p q r s t =
     pbind p (\<lambda>a. pbind q (\<lambda>b. pbind r (\<lambda>c. pbind s (\<lambda>d. pbind t (\<lambda>e. pret (a, b, c, d, e))))))"

definition alt_ref :: "'a parser list \<Rightarrow> 'a parser" where
  "alt_ref ps = foldr por ps (pfail ErrNom)"

definition terminated_ref :: "'a parser \<Rightarrow> 'b parser \<Rightarrow> 'a parser" where
  "terminated_ref p q = pbind p (\<lambda>x. pbind q (\<lambda>_. pret x))"

definition nom_ref :: nom where
  "nom_ref =
     \<lparr>nom_many0 = many_ref, nom_many0_arg = many_ref,
      nom_many1 = (\<lambda>p. pbind p (\<lambda>x. pbind (many_ref p) (\<lambda>xs. pret (x # xs)))),
      nom_many_m_n = (\<lambda>m n p. pbind (prepeat n p) (\<lambda>xs. if length xs < m then pfail ErrNom else pret xs)),
      nom_alt_atom = alt_ref, nom_alt_expr = alt_ref, nom_alt_stmt = alt_ref, nom_alt_import = alt_ref, nom_alt_arg = alt_ref,
      nom_terminated = terminated_ref, nom_terminated_tok = terminated_ref, nom_terminated_atom = terminated_ref,
      nom_terminated_expr = terminated_ref, nom_terminated_primary = terminated_ref, nom_terminated_arg = terminated_ref,
      nom_tuple_float = tuple3_ref, nom_tuple_else = tuple3_ref, nom_tuple_if = tuple5_ref, nom_tuple_while = tuple5_ref\<rparr>"

lemma repeat_step_cong:
  assumes "\<And>pos' x st'. p pos st = Some (Inr (Inr (pos', x), st')) \<Longrightarrow> f pos' st' = g pos' st'"
  shows "repeat_step p f pos st = repeat_step p g pos st"
  using assms by (auto simp: repeat_step_def por_def pbind_def split: option.split sum.split prod.split)

lemma prepeat_fuel:
  assumes "consumes m p" and "ts_at pos st" and "length (ts_tokens st) - pos \<le> m" and "m < a" and "m < b"
  shows "prepeat a p pos st = prepeat b p pos st"
  using assms
proof (induction m arbitrary: a b pos st rule: less_induct)
  case (less m)
  obtain a' b' where ab: "a = Suc a'" "b = Suc b'" using less.prems(4,5) by (metis not0_implies_Suc not_less_zero)
  show ?case
    unfolding ab prepeat.simps
  proof (rule repeat_step_cong)
    fix pos' x st' assume ok: "p pos st = Some (Inr (Inr (pos', x), st'))"
    from less.prems(1-3) show "prepeat a' p pos' st' = prepeat b' p pos' st'"
    proof (cases rule: goodE)
      case (ok pos'' x' st'')
      have "pos'' \<le> length (ts_tokens st)" using ok(2,5) by (simp add: ts_at_def)
      then have m: "m - 1 < m" "length (ts_tokens st'') - pos'' \<le> m - 1" using ok less.prems(3) by simp_all
      have "consumes (m - 1) p" by (rule good_mono [OF less.prems(1)]) simp_all
      from less.IH [OF m(1) this ok(5) m(2), of a' b'] show ?thesis
        using ok(1) \<open>p pos st = Some (Inr (Inr (pos', x), st'))\<close> less.prems(4,5) ab m(1) by simp
    qed (use ok in simp_all)
  qed
qed

lemma many_ref_spec: "many0_spec many_ref"
  unfolding many0_spec_def
proof (intro allI impI)
  fix p :: "'a parser" and m pos st
  assume p: "consumes m p" and st: "ts_at pos st" "length (ts_tokens st) - pos \<le> m"
  show "many_ref p pos st = repeat_step p (many_ref p) pos st"
    unfolding many_ref_def [of p pos] prepeat.simps
  proof (rule repeat_step_cong)
    fix pos' x st' assume run: "p pos st = Some (Inr (Inr (pos', x), st'))"
    from p st show "prepeat (length (ts_tokens st) - pos) p pos' st' = many_ref p pos' st'"
    proof (cases rule: goodE)
      case (ok pos'' x' st'')
      then have eq: "pos'' = pos'" "st'' = st'" using run by simp_all
      have le: "pos' \<le> length (ts_tokens st)" using ok(2,5) eq by (simp add: ts_at_def)
      let ?k = "length (ts_tokens st') - pos'"
      have k: "?k < length (ts_tokens st) - pos" using ok le eq by simp
      have "consumes ?k p" by (rule good_mono [OF p]) (use k st(2) in simp_all)
      then have "prepeat (length (ts_tokens st) - pos) p pos' st' = prepeat (Suc ?k) p pos' st'"
        by (rule prepeat_fuel) (use ok(5) eq k in simp_all)
      then show ?thesis by (simp only: many_ref_def)
    qed (use run in simp_all)
  qed
qed

lemma nom_ref_spec: "nom_spec nom_ref"
  by (simp add: nom_spec_def nom_ref_def many_ref_spec alt_spec_def alt_ref_def terminated_spec_def terminated_ref_def
      tuple3_spec_def tuple3_ref_def tuple5_spec_def tuple5_ref_def)

end
