(* ===== verification/SSAMap.thy ===== *)
theory SSAMap
  imports Prelude
begin

text \<open>
  The slot map of \<^verbatim>\<open>montyc_core/src/utils/ssamap.rs\<close>, the table behind the span interner and the
  type registry. Keys are handed out in order; \<open>next_free\<close> is the next one. The invariant
  \<open>ssa_wf\<close> is that \<open>next_free\<close> is the length of the vector: it is what \<open>insert\<close> asserts at run
  time, and every operation is shown to keep it. The locale \<open>slot_store\<close> is what clients rely
  on; it is interpreted below on the operations of the map.
\<close>

section \<open>The map and its operations\<close>

record 'v ssamap =
  ssa_inner :: "'v option list"
  ssa_next_free :: nat

definition ssa_new :: "'v ssamap" where
  "ssa_new = \<lparr>ssa_inner = [], ssa_next_free = 0\<rparr>"

definition ssa_iter :: "'v ssamap \<Rightarrow> (nat \<times> 'v) list" where
  "ssa_iter m = List.map_filter (\<lambda>(idx, value). map_option (\<lambda>v. (idx, v)) value)
     (List.enumerate 0 (ssa_inner m))"

definition ssa_is_empty :: "'v ssamap \<Rightarrow> bool" where
  "ssa_is_empty m = (ssa_iter m = [])"

definition ssa_skip :: "nat \<Rightarrow> 'v ssamap \<Rightarrow> 'v ssamap" where
  "ssa_skip n m =
     m\<lparr>ssa_next_free := ssa_next_free m + n, ssa_inner := ssa_inner m @ replicate n None\<rparr>"

text \<open>\<open>Err(current)\<close> leaves the map as it was.\<close>

definition ssa_skip_to_nth :: "nat \<Rightarrow> 'v ssamap \<Rightarrow> nat + 'v ssamap" where
  "ssa_skip_to_nth pos m =
     (let current = ssa_next_free m in
      if pos < current then Inl current
      else Inr (m\<lparr>ssa_next_free := pos,
                  ssa_inner := ssa_inner m @ replicate (pos - current) None\<rparr>))"

definition ssa_reserve :: "'v ssamap \<Rightarrow> nat \<times> 'v ssamap" where
  "ssa_reserve m =
     (ssa_next_free m,
      m\<lparr>ssa_next_free := ssa_next_free m + 1, ssa_inner := ssa_inner m @ [None]\<rparr>)"

text \<open>
  The subtraction \<open>next_free - k\<close> is checked in the dev profile. The inner sum is the
  function's own \<open>Result<(), ()>\<close>.
\<close>

definition ssa_cancel_reserve :: "nat \<Rightarrow> 'v ssamap \<Rightarrow> (unit + 'v ssamap) rust" where
  "ssa_cancel_reserve k m =
     (if ssa_next_free m < k then Inl ArithmeticOverflow
      else if ssa_next_free m - k = 1 then
        and_then (unwrap (get_at (ssa_inner m) k)) (\<lambda>slot.
        and_then (assert_that (slot = None)) (\<lambda>_.
        Inr (Inr (m\<lparr>ssa_inner := butlast (ssa_inner m), ssa_next_free := k\<rparr>))))
      else Inr (Inl ()))"

definition ssa_try_set_value :: "nat \<Rightarrow> 'v \<Rightarrow> 'v ssamap \<Rightarrow> unit + 'v ssamap" where
  "ssa_try_set_value k v m =
     (case get_at (ssa_inner m) k of
        None \<Rightarrow> Inl ()
      | Some (Some _) \<Rightarrow> Inl ()
      | Some None \<Rightarrow> Inr (m\<lparr>ssa_inner := (ssa_inner m)[k := Some v]\<rparr>))"

text \<open>
  \<open>insert\<close> is generic in the key type \<open>K: TryFrom<usize>\<close>; \<open>conv\<close> is that conversion and a
  failing one panics.
\<close>

definition ssa_insert :: "(nat \<Rightarrow> 'k option) \<Rightarrow> 'v \<Rightarrow> 'v ssamap \<Rightarrow> ('k \<times> 'v ssamap) rust" where
  "ssa_insert conv v m =
     (let key = ssa_next_free m in
      and_then (assert_that (key = length (ssa_inner m))) (\<lambda>_.
      and_then (unwrap (conv key)) (\<lambda>k.
      Inr (k, m\<lparr>ssa_next_free := key + 1, ssa_inner := ssa_inner m @ [Some v]\<rparr>))))"

definition ssa_get :: "'v ssamap \<Rightarrow> nat \<Rightarrow> 'v option" where
  "ssa_get m key = Option.bind (get_at (ssa_inner m) key) (\<lambda>cell. cell)"

definition ssa_get_mut :: "nat \<Rightarrow> ('v \<Rightarrow> 'v) \<Rightarrow> 'v ssamap \<Rightarrow> 'v ssamap option" where
  "ssa_get_mut key f m =
     (case ssa_get m key of
        None \<Rightarrow> None
      | Some v \<Rightarrow> Some (m\<lparr>ssa_inner := (ssa_inner m)[key := Some (f v)]\<rparr>))"

text \<open>
  \<open>get_or_insert\<close> returns a reference to a slot; the model returns the slot's key. When the
  requested key is vacant the value goes to the next free key, which is the one returned.
\<close>

definition ssa_get_or_insert :: "nat \<Rightarrow> (unit \<Rightarrow> 'v) \<Rightarrow> 'v ssamap \<Rightarrow> (nat \<times> 'v ssamap) rust" where
  "ssa_get_or_insert key f m =
     and_then
       (if ssa_get m key = None then ssa_insert Some (f ()) m else Inr (key, m))
       (\<lambda>(k, m'). and_then (unwrap (ssa_get m' k)) (\<lambda>_. Inr (k, m')))"

fun find_value :: "nat \<Rightarrow> 'v \<Rightarrow> 'v option list \<Rightarrow> nat option" where
  "find_value k v [] = None"
| "find_value k v (c # cs) = (if c = Some v then Some k else find_value (k + 1) v cs)"

definition ssa_entry :: "(nat \<Rightarrow> 'k option) \<Rightarrow> 'v \<Rightarrow> 'v ssamap \<Rightarrow> ('k \<times> 'v ssamap) rust" where
  "ssa_entry conv v m =
     (case find_value 0 v (ssa_inner m) of
        Some k \<Rightarrow> and_then (unwrap (conv k)) (\<lambda>k'. Inr (k', m))
      | None \<Rightarrow> ssa_insert conv v m)"

section \<open>The invariant and the state machine\<close>

definition ssa_wf :: "'v ssamap \<Rightarrow> bool" where
  "ssa_wf m \<longleftrightarrow> ssa_next_free m = length (ssa_inner m)"

text \<open>
  Every operation that changes a map, apart from handing out a mutable reference to a value
  that is already there.
\<close>

inductive ssa_step :: "'v ssamap \<Rightarrow> 'v ssamap \<Rightarrow> bool" where
  step_skip: "ssa_step m (ssa_skip n m)"
| step_skip_to: "ssa_skip_to_nth pos m = Inr m' \<Longrightarrow> ssa_step m m'"
| step_reserve: "ssa_reserve m = (k, m') \<Longrightarrow> ssa_step m m'"
| step_cancel: "ssa_cancel_reserve k m = Inr (Inr m') \<Longrightarrow> ssa_step m m'"
| step_set: "ssa_try_set_value k v m = Inr m' \<Longrightarrow> ssa_step m m'"
| step_insert: "ssa_insert Some v m = Inr (k, m') \<Longrightarrow> ssa_step m m'"
| step_get_or: "ssa_get_or_insert k f m = Inr (k', m') \<Longrightarrow> ssa_step m m'"
| step_entry: "ssa_entry Some v m = Inr (k', m') \<Longrightarrow> ssa_step m m'"

section \<open>The interface clients rely on\<close>

text \<open>
  A store that hands out a fresh slot for every value put into it. \<open>size_of\<close> counts the slots
  handed out so far.
\<close>

locale slot_store =
  fixes put :: "'v \<Rightarrow> 's \<Rightarrow> (nat \<times> 's) rust"
    and look :: "'s \<Rightarrow> nat \<Rightarrow> 'v option"
    and slots :: "'s \<Rightarrow> nat"
    and ok :: "'s \<Rightarrow> bool"
  assumes put_ok: "ok s \<Longrightarrow> \<exists>s'. put v s = Inr (slots s, s') \<and> ok s' \<and> slots s' = Suc (slots s)"
    and look_put: "ok s \<Longrightarrow> put v s = Inr (k, s') \<Longrightarrow> look s' i = (if i = k then Some v else look s i)"
    and look_bound: "ok s \<Longrightarrow> look s i = Some v \<Longrightarrow> i < slots s"
begin

fun put_all :: "'v list \<Rightarrow> 's \<Rightarrow> (nat list \<times> 's) rust" where
  "put_all [] s = Inr ([], s)"
| "put_all (v # vs) s =
     and_then (put v s) (\<lambda>(k, s'). and_then (put_all vs s') (\<lambda>(ks, s''). Inr (k # ks, s'')))"

lemma put_key: "ok s \<Longrightarrow> put v s = Inr (k, s') \<Longrightarrow> k = slots s \<and> ok s' \<and> slots s' = Suc k"
  using put_ok [of s v] by auto

lemma put_fresh: "ok s \<Longrightarrow> put v s = Inr (k, s') \<Longrightarrow> look s k = None"
  using put_key look_bound by (metis less_irrefl option.exhaust)

lemma look_put_same: "ok s \<Longrightarrow> put v s = Inr (k, s') \<Longrightarrow> look s' k = Some v"
  by (simp add: look_put)

lemma look_put_keeps: "ok s \<Longrightarrow> put v s = Inr (k, s') \<Longrightarrow> look s i = Some w \<Longrightarrow> look s' i = Some w"
  using look_put put_fresh by fastforce

lemma put_all_ok:
  "ok s \<Longrightarrow> \<exists>s'. put_all vs s = Inr ([slots s..<slots s + length vs], s') \<and> ok s'
      \<and> slots s' = slots s + length vs
      \<and> (\<forall>i w. look s i = Some w \<longrightarrow> look s' i = Some w)
      \<and> (\<forall>j < length vs. look s' (slots s + j) = Some (vs ! j))"
proof (induction vs arbitrary: s)
  case Nil
  then show ?case by simp
next
  case (Cons v vs)
  obtain s1 where s1: "put v s = Inr (slots s, s1)" "ok s1" "slots s1 = Suc (slots s)"
    using put_ok Cons.prems by blast
  obtain s2 where s2: "put_all vs s1 = Inr ([slots s1..<slots s1 + length vs], s2)" "ok s2"
      "slots s2 = slots s1 + length vs" "\<forall>i w. look s1 i = Some w \<longrightarrow> look s2 i = Some w"
      "\<forall>j < length vs. look s2 (slots s1 + j) = Some (vs ! j)"
    using Cons.IH [OF s1(2)] by blast
  have keep: "\<forall>i w. look s i = Some w \<longrightarrow> look s2 i = Some w"
    using look_put_keeps [OF Cons.prems s1(1)] s2(4) by blast
  have new: "look s2 (slots s + j) = Some ((v # vs) ! j)" if "j < length (v # vs)" for j
    using that s2(4,5) look_put_same [OF Cons.prems s1(1)] s1(3) by (cases j) auto
  have keys: "slots s # [slots s1..<slots s1 + length vs] = [slots s..<slots s + length (v # vs)]"
    using upt_conv_Cons [of "slots s" "slots s + length (v # vs)"] s1(3) by (simp del: upt_Suc)
  have "put_all (v # vs) s = Inr ([slots s..<slots s + length (v # vs)], s2)"
    unfolding keys [symmetric] using s1(1) s2(1) by simp
  then show ?case using s1(3) s2(2,3) keep new by auto
qed

end

section \<open>Basic facts\<close>

lemmas ssa_defs [op_defs] =
  ssa_new_def ssa_skip_def ssa_skip_to_nth_def ssa_reserve_def ssa_cancel_reserve_def
  ssa_try_set_value_def ssa_insert_def ssa_get_mut_def ssa_get_or_insert_def ssa_entry_def

lemma ssa_get_beyond [simp]: "length (ssa_inner m) \<le> k \<Longrightarrow> ssa_get m k = None"
  by (simp add: ssa_get_def)

lemma ssa_get_bound: "ssa_get m k = Some v \<Longrightarrow> k < length (ssa_inner m)"
  by (metis ssa_get_beyond not_less option.distinct(1))

lemma ssa_get_Some_iff: "ssa_get m k = Some v \<longleftrightarrow> get_at (ssa_inner m) k = Some (Some v)"
  by (auto simp: ssa_get_def split: Option.bind_splits)

lemma find_value_spec:
  "find_value k v cs = Some j \<longleftrightarrow>
     (k \<le> j \<and> j - k < length cs \<and> cs ! (j - k) = Some v \<and> (\<forall>i < j - k. cs ! i \<noteq> Some v))"
proof (induction cs arbitrary: k)
  case (Cons c cs)
  show ?case
  proof (cases "c = Some v")
    case True
    then show ?thesis by (auto simp: nth_Cons' split: if_splits)
  next
    case False
    have "(\<forall>i < Suc n. (c # cs) ! i \<noteq> Some v) \<longleftrightarrow> (\<forall>i < n. cs ! i \<noteq> Some v)" for n
      using False by (auto simp: less_Suc_eq_0_disj)
    moreover have "j - k = Suc (j - Suc k)" if "k < j" using that by simp
    ultimately show ?thesis
      using False Cons.IH [of "k + 1"] by (cases "k < j") (auto simp: not_less)
  qed
qed auto

lemma find_value_None_iff: "find_value k v cs = None \<longleftrightarrow> Some v \<notin> set cs"
  by (induction k v cs rule: find_value.induct) auto

lemma find_value_snoc: "Some v \<notin> set cs \<Longrightarrow> find_value k v (cs @ [Some v]) = Some (k + length cs)"
  by (induction k v cs rule: find_value.induct) auto

section \<open>Every operation keeps the invariant\<close>

lemma ssa_wf_insert: "ssa_wf m \<Longrightarrow> ssa_insert conv v m = Inr (k, m') \<Longrightarrow> ssa_wf m'"
  by (auto simp: ssa_insert_def ssa_wf_def Let_def rust_simps)

lemma ssa_wf_get_mut: "ssa_wf m \<Longrightarrow> ssa_get_mut k f m = Some m' \<Longrightarrow> ssa_wf m'"
  by (auto simp: ssa_get_mut_def ssa_wf_def split: option.splits)

lemma ssa_step_wf: "ssa_step m m' \<Longrightarrow> ssa_wf m \<Longrightarrow> ssa_wf m'"
proof (induction rule: ssa_step.induct)
  case (step_get_or k f m k' m')
  then show ?case
    by (auto simp: ssa_get_or_insert_def rust_simps dest: ssa_wf_insert split: if_splits)
next
  case (step_entry v m k' m')
  then show ?case
    by (auto simp: ssa_entry_def rust_simps dest: ssa_wf_insert split: option.splits)
qed (auto simp: ssa_defs ssa_wf_def Let_def rust_simps split: if_splits option.splits)

text \<open>A filled slot keeps its value, and a vector only loses vacant slots.\<close>

lemma ssa_insert_get:
  assumes "ssa_insert conv v m = Inr (k, m')"
  shows "ssa_get m' i = (if i = ssa_next_free m then Some v else ssa_get m i)"
  using assms by (auto simp: ssa_insert_def ssa_get_def Let_def rust_simps get_at_append)

lemma ssa_insert_keeps:
  "ssa_insert conv v m = Inr (k, m') \<Longrightarrow> ssa_get m i = Some w \<Longrightarrow> ssa_get m' i = Some w"
proof (goal_cases)
  case 1
  then have "ssa_next_free m = length (ssa_inner m)"
    by (simp add: ssa_insert_def Let_def rust_simps)
  with 1 ssa_get_bound show ?case by (fastforce simp: ssa_insert_get)
qed

lemma ssa_cancel_keeps:
  assumes "ssa_cancel_reserve k m = Inr (Inr m')" "ssa_wf m" "ssa_get m i = Some w"
  shows "ssa_get m' i = Some w"
proof -
  from assms(1,2) have k: "length (ssa_inner m) = Suc k" "ssa_inner m ! k = None"
      and m': "ssa_inner m' = butlast (ssa_inner m)"
    by (auto simp: ssa_cancel_reserve_def ssa_wf_def rust_simps get_at_Some_iff split: if_splits)
  have "i < k" using assms(3) k by (auto simp: ssa_get_Some_iff get_at_Some_iff less_Suc_eq)
  with assms(3) k m' show ?thesis
    by (simp add: ssa_get_Some_iff get_at_Some_iff nth_butlast)
qed

lemma ssa_step_keeps:
  "ssa_step m m' \<Longrightarrow> ssa_wf m \<Longrightarrow> ssa_get m i = Some w \<Longrightarrow> ssa_get m' i = Some w"
proof (induction rule: ssa_step.induct)
  case (step_cancel k m m')
  then show ?case by (rule ssa_cancel_keeps)
next
  case (step_insert v m k m')
  then show ?case by (blast intro: ssa_insert_keeps)
next
  case (step_get_or k f m k' m')
  then show ?case
    by (auto simp: ssa_get_or_insert_def rust_simps dest: ssa_insert_keeps split: if_splits)
next
  case (step_entry v m k' m')
  then show ?case
    by (auto simp: ssa_entry_def rust_simps dest: ssa_insert_keeps split: option.splits)
qed (auto simp: ssa_defs ssa_get_def Let_def get_at_append get_at_update
      dest: get_at_bound split: if_splits option.splits Option.bind_splits)

interpretation ssa: slot_store "ssa_insert Some" ssa_get ssa_next_free ssa_wf
proof unfold_locales
  fix s :: "'v ssamap" and v
  assume "ssa_wf s"
  then show "\<exists>s'. ssa_insert Some v s = Inr (ssa_next_free s, s') \<and> ssa_wf s'
      \<and> ssa_next_free s' = Suc (ssa_next_free s)"
    by (simp add: ssa_insert_def ssa_wf_def Let_def)
next
  fix s s' :: "'v ssamap" and v k i
  assume "ssa_wf s" "ssa_insert Some v s = Inr (k, s')"
  moreover from this have "k = ssa_next_free s" by (simp add: ssa_insert_def Let_def rust_simps)
  ultimately show "ssa_get s' i = (if i = k then Some v else ssa_get s i)"
    by (simp add: ssa_insert_get)
next
  fix s :: "'v ssamap" and i v
  assume "ssa_wf s" "ssa_get s i = Some v"
  then show "i < ssa_next_free s" by (simp add: ssa_wf_def ssa_get_bound)
qed

lemma ssa_wf_new: "ssa_wf ssa_new"
  by (simp add: ssa_wf_def ssa_new_def)

lemma ssa_entry_ok:
  assumes "ssa_wf m"
  shows "\<exists>k m'. ssa_entry Some v m = Inr (k, m') \<and> ssa_wf m' \<and> ssa_get m' k = Some v
           \<and> find_value 0 v (ssa_inner m') = Some k"
proof (cases "find_value 0 v (ssa_inner m)")
  case (Some k)
  then have "ssa_get m k = Some v"
    using find_value_spec [of 0 v "ssa_inner m" k] by (simp add: ssa_get_Some_iff)
  with Some assms show ?thesis by (simp add: ssa_entry_def)
next
  case None
  let ?m = "m\<lparr>ssa_next_free := ssa_next_free m + 1, ssa_inner := ssa_inner m @ [Some v]\<rparr>"
  from None assms have "ssa_entry Some v m = Inr (ssa_next_free m, ?m)"
    by (simp add: ssa_entry_def ssa_insert_def ssa_wf_def Let_def)
  moreover from None assms have "find_value 0 v (ssa_inner ?m) = Some (ssa_next_free m)"
    by (simp add: find_value_None_iff find_value_snoc ssa_wf_def)
  moreover have "ssa_wf ?m" "ssa_get ?m (ssa_next_free m) = Some v"
    using assms by (simp_all add: ssa_wf_def ssa_get_def get_at_append)
  ultimately show ?thesis by blast
qed

section \<open>Properties\<close>

text \<open>
  C38. Single assignment: whatever sequence of operations is applied to a well-formed map, the
  map stays well-formed (so the assertion in \<open>insert\<close> never fires) and a key that holds a value
  keeps that value for ever.
\<close>

theorem ssamap_single_assignment:
  assumes "ssa_step\<^sup>*\<^sup>* m m'" and "ssa_wf m"
  shows "ssa_wf m' \<and> (\<forall>k v. ssa_get m k = Some v \<longrightarrow> ssa_get m' k = Some v)"
  using assms
proof (induction rule: rtranclp_induct)
  case base
  then show ?case by simp
next
  case (step y z)
  then have "ssa_wf y" and keep: "\<And>k v. ssa_get m k = Some v \<Longrightarrow> ssa_get y k = Some v"
    by simp_all
  then show ?case
    using ssa_step_wf [OF step.hyps(2)] ssa_step_keeps [OF step.hyps(2)] by simp
qed

theorem ssamap_single_assignment_witness:
  "ssa_get (snd (projr (ssa_insert Some (7::int) ssa_new))) 0 = Some 7 \<and>
     ssa_get (ssa_skip 3 (snd (projr (ssa_insert Some 7 ssa_new)))) 0 = Some (7::int)"
proof -
  let ?m = "snd (projr (ssa_insert Some (7::int) ssa_new))"
  have "ssa_wf ?m" by (simp add: ssa_wf_def ssa_insert_def ssa_new_def)
  moreover have "ssa_step\<^sup>*\<^sup>* ?m (ssa_skip 3 ?m)" by (simp add: step_skip r_into_rtranclp)
  moreover have "ssa_get ?m 0 = Some 7" by (simp add: ssa_insert_def ssa_new_def ssa_get_def)
  ultimately show ?thesis using ssamap_single_assignment [of ?m "ssa_skip 3 ?m"] by blast
qed

text \<open>
  Insert and lookup: inserting any list of values into a well-formed map never panics, hands
  out consecutive keys starting at \<open>next_free\<close>, each of which looks up to its own value, and
  disturbs no earlier key.
\<close>

theorem ssamap_insert_lookup:
  assumes "ssa_wf m"
  shows "\<exists>m'. ssa.put_all vs m = Inr ([ssa_next_free m..<ssa_next_free m + length vs], m') \<and> ssa_wf m'
      \<and> (\<forall>j < length vs. ssa_get m' (ssa_next_free m + j) = Some (vs ! j))
      \<and> (\<forall>i w. ssa_get m i = Some w \<longrightarrow> ssa_get m' i = Some w)"
  using ssa.put_all_ok [OF assms, of vs] by blast

theorem ssamap_insert_lookup_witness:
  "\<exists>m'. ssa.put_all ''abc'' ssa_new = Inr ([0, 1, 2], m') \<and> ssa_get m' 2 = Some (CHR ''c'')"
  using ssamap_insert_lookup [OF ssa_wf_new, of "''abc''"]
  by (fastforce simp: ssa_new_def upt_rec)

text \<open>
  Reservations round-trip: cancelling the slot that was reserved last restores the map
  exactly, and a reserved slot can be filled exactly once.
\<close>

theorem ssamap_reserve_roundtrip:
  assumes "ssa_wf m" and "ssa_reserve m = (k, m1)"
  shows "ssa_cancel_reserve k m1 = Inr (Inr m)
      \<and> (\<exists>m2. ssa_try_set_value k v m1 = Inr m2 \<and> ssa_get m2 k = Some v
             \<and> (\<forall>w. ssa_try_set_value k w m2 = Inl ()))"
  using assms
  by (auto simp: ssa_reserve_def ssa_cancel_reserve_def ssa_try_set_value_def ssa_wf_def
      ssa_get_def get_at_append get_at_update)

theorem ssamap_reserve_roundtrip_witness:
  "ssa_cancel_reserve 0 (snd (ssa_reserve (ssa_new :: int ssamap))) = Inr (Inr ssa_new)"
  using ssamap_reserve_roundtrip [OF ssa_wf_new, of 0 "snd (ssa_reserve ssa_new)" "5::int"]
  by (simp add: ssa_reserve_def ssa_new_def)

text \<open>
  Interning: \<open>entry\<close> on a well-formed map never panics, returns a key that looks up to the
  value, and asking again with an equal value returns the same key and leaves the map alone.
\<close>

theorem ssamap_entry_idempotent:
  assumes "ssa_wf m"
  shows "\<exists>k m'. ssa_entry Some v m = Inr (k, m') \<and> ssa_get m' k = Some v
           \<and> ssa_entry Some v m' = Inr (k, m')"
  using ssa_entry_ok [OF assms, of v] by (auto simp: ssa_entry_def)

theorem ssamap_entry_idempotent_witness:
  "\<exists>k m'. ssa_entry Some (4::int) ssa_new = Inr (k, m') \<and> ssa_entry Some 4 m' = Inr (k, m')"
  using ssamap_entry_idempotent [OF ssa_wf_new, of 4] by blast

end
