(* ===== verification/SpanInterner.thy ===== *)
theory SpanInterner
  imports Core SSAMap
begin

text \<open>
  The span interner of \<^verbatim>\<open>montyc_parser/src/span_interner.rs\<close> (\<^verbatim>\<open>montyc_parser2\<close> carries the same
  file). Every interned piece of source text gets a fresh distinct identifier; texts with the
  same hash share a group identifier, which the rest of the compiler compares instead of
  strings. The hash function belongs to the ahash crate and is the parameter \<open>hash\<close>. The
  reference-counted cell around the interner is not modelled: the operations are the ones that
  run once the borrow succeeded.
\<close>

section \<open>Slices of UTF-8 source text\<close>

text \<open>
  A source text is its bytes. \<open>str::get(range)\<close> fails unless both ends are inside the text and on
  the boundary of a character, that is not in front of a continuation byte.
\<close>

definition is_char_boundary :: "string \<Rightarrow> nat \<Rightarrow> bool" where
  "is_char_boundary s i \<longleftrightarrow> i = 0 \<or> i = length s \<or>
     (i < length s \<and> (of_char (s ! i) < (128 :: nat) \<or> 192 \<le> (of_char (s ! i) :: nat)))"

definition str_get :: "string \<Rightarrow> span \<Rightarrow> string option" where
  "str_get s r = (case r of (a, b) \<Rightarrow>
     if a \<le> b \<and> is_char_boundary s a \<and> is_char_boundary s b
     then Some (take (b - a) (drop a s)) else None)"

section \<open>The interner\<close>

record span_interner =
  si_map :: "span_data ssamap"
  si_groups :: "(u64 \<times> u32) list"

definition interner_new :: span_interner where
  "interner_new = \<lparr>si_map = ssa_new, si_groups = []\<rparr>"

definition interner_span_data :: "span_interner \<Rightarrow> span_ref \<Rightarrow> span_data option" where
  "interner_span_data si sref = ssa_get (si_map si) (unat (span_distinct sref))"

definition spangroup_of_hash :: "span_interner \<Rightarrow> u64 \<Rightarrow> u32 option" where
  "spangroup_of_hash si h = map_of (si_groups si) h"

definition spangroup_of_str :: "(string \<Rightarrow> u64) \<Rightarrow> span_interner \<Rightarrow> string \<Rightarrow> u32 option" where
  "spangroup_of_str hash si st = spangroup_of_hash si (hash st)"

text \<open>\<open>distinct as u32\<close> truncates.\<close>

definition spanrefs_of_group :: "span_interner \<Rightarrow> u32 \<Rightarrow> span_ref list option" where
  "spanrefs_of_group si grp =
     (case List.find (\<lambda>(_, g). g = grp) (si_groups si) of
        None \<Rightarrow> None
      | Some (h, _) \<Rightarrow>
          Some (map (\<lambda>(idx, _). SpanRef grp (word_of_nat idx))
                 (filter (\<lambda>(_, data). sd_hash data = h) (ssa_iter (si_map si)))))"

definition spanref_to_str ::
  "(module_ref \<Rightarrow> span \<Rightarrow> string option) \<Rightarrow> span_interner \<Rightarrow> span_ref \<Rightarrow> string option" where
  "spanref_to_str resolver si sref =
     Option.bind (ssa_get (si_map si) (unat (span_distinct sref)))
       (\<lambda>data. resolver (sd_module data) (sd_range data))"

text \<open>\<open>BoundMutInterner::insert\<close> for an interner bound to \<open>source\<close> and \<open>module\<close>.\<close>

definition interner_insert ::
  "(string \<Rightarrow> u64) \<Rightarrow> string \<Rightarrow> module_ref \<Rightarrow> span \<Rightarrow> span_interner \<Rightarrow> (span_ref \<times> span_interner) rust" where
  "interner_insert hash source mref rng si =
     and_then (unwrap (str_get source rng)) (\<lambda>data.
     let h = hash data in
     and_then (ssa_insert u32_of_usize \<lparr>sd_range = rng, sd_module = mref, sd_hash = h\<rparr> (si_map si))
       (\<lambda>(d, map').
         let grp = (case map_of (si_groups si) h of Some g \<Rightarrow> g | None \<Rightarrow> d);
             groups' = (case map_of (si_groups si) h of
                          Some _ \<Rightarrow> si_groups si | None \<Rightarrow> assoc_put h d (si_groups si))
         in Inr (SpanRef grp d, \<lparr>si_map = map', si_groups = groups'\<rparr>)))"

definition str_to_spanref ::
  "(string \<Rightarrow> u64) \<Rightarrow> u32 \<Rightarrow> string \<Rightarrow> span_interner \<Rightarrow> (span_ref \<times> span_interner) rust" where
  "str_to_spanref hash n name si = interner_insert hash name (ModuleRef n) (0, length name) si"

text \<open>The tokenizer interns one span after another.\<close>

fun intern_all ::
  "(string \<Rightarrow> u64) \<Rightarrow> (string \<times> module_ref \<times> span) list \<Rightarrow> span_interner
    \<Rightarrow> (span_ref list \<times> span_interner) rust" where
  "intern_all hash [] si = Inr ([], si)"
| "intern_all hash ((source, mref, rng) # jobs) si =
     and_then (interner_insert hash source mref rng si) (\<lambda>(r, si').
     and_then (intern_all hash jobs si') (\<lambda>(rs, si''). Inr (r # rs, si'')))"

section \<open>Invariant\<close>

definition interner_wf :: "span_interner \<Rightarrow> bool" where
  "interner_wf si \<longleftrightarrow> ssa_wf (si_map si) \<and> ssa_next_free (si_map si) \<le> 2 ^ 32
     \<and> (\<forall>h g. map_of (si_groups si) h = Some g \<longrightarrow>
           (\<exists>d. ssa_get (si_map si) (unat g) = Some d \<and> sd_hash d = h))
     \<and> (\<forall>k d. ssa_get (si_map si) k = Some d \<longrightarrow> map_of (si_groups si) (sd_hash d) \<noteq> None)"

text \<open>A reference that the interner has handed out for a text of hash \<open>h\<close>.\<close>

definition issued :: "span_interner \<Rightarrow> span_ref \<Rightarrow> u64 \<Rightarrow> bool" where
  "issued si sref h \<longleftrightarrow>
     (\<exists>d. interner_span_data si sref = Some d \<and> sd_hash d = h)
     \<and> map_of (si_groups si) h = Some (span_group sref)"

section \<open>Facts\<close>

lemma ssa_insert_u32:
  "ssa_wf m \<Longrightarrow> ssa_insert u32_of_usize v m = Inr (k, m') \<longleftrightarrow>
     ssa_insert Some v m = Inr (unat k, m')"
  by (auto simp: ssa_insert_def ssa_wf_def Let_def rust_simps u32_of_usize_Some_iff)

lemma str_get_whole: "str_get s (0, length s) = Some s"
  by (simp add: str_get_def is_char_boundary_def)

lemma interner_wf_new: "interner_wf interner_new"
  by (simp add: interner_wf_def interner_new_def ssa_wf_def ssa_new_def)

text \<open>What one insertion does, as one rule.\<close>

lemma interner_insertD:
  assumes ins: "interner_insert hash source mref rng si = Inr (sref, si')" and wf: "interner_wf si"
  obtains t where "str_get source rng = Some t"
    and "ssa_insert Some \<lparr>sd_range = rng, sd_module = mref, sd_hash = hash t\<rparr> (si_map si)
           = Inr (unat (span_distinct sref), si_map si')"
    and "unat (span_distinct sref) = ssa_next_free (si_map si)"
    and "map_of (si_groups si') = (map_of (si_groups si))(hash t \<mapsto> span_group sref)"
    and "map_of (si_groups si) (hash t) = Some (span_group sref) \<or>
           map_of (si_groups si) (hash t) = None \<and> span_group sref = span_distinct sref"
proof -
  from wf have m: "ssa_wf (si_map si)" by (simp add: interner_wf_def)
  from ins obtain t where t: "str_get source rng = Some t"
    by (auto simp: interner_insert_def rust_simps)
  let ?v = "\<lparr>sd_range = rng, sd_module = mref, sd_hash = hash t\<rparr>"
  from ins t have i: "ssa_insert u32_of_usize ?v (si_map si) = Inr (span_distinct sref, si_map si')"
    and g: "si_groups si' = (case map_of (si_groups si) (hash t) of Some _ \<Rightarrow> si_groups si
          | None \<Rightarrow> assoc_put (hash t) (span_distinct sref) (si_groups si))"
    and s: "span_group sref = (case map_of (si_groups si) (hash t) of Some g \<Rightarrow> g
          | None \<Rightarrow> span_distinct sref)"
    by (auto simp: interner_insert_def rust_simps Let_def split: option.split)
  from i m have i': "ssa_insert Some ?v (si_map si) = Inr (unat (span_distinct sref), si_map si')"
    by (simp add: ssa_insert_u32)
  show thesis
    using that [OF t i'] ssa.put_key [OF m i'] g s
    by (cases "map_of (si_groups si) (hash t)") (auto simp: fun_upd_idem)
qed

lemma interner_insert_next:
  assumes wf: "interner_wf si" and ins: "interner_insert hash source mref rng si = Inr (sref, si')"
  shows "unat (span_distinct sref) = ssa_next_free (si_map si)
    \<and> ssa_next_free (si_map si') = Suc (ssa_next_free (si_map si))"
proof -
  have m: "ssa_wf (si_map si)" using wf by (simp add: interner_wf_def)
  show ?thesis by (rule interner_insertD [OF ins wf]) (auto dest: ssa.put_key [OF m])
qed

lemma interner_wf_insert:
  assumes wf: "interner_wf si" and ins: "interner_insert hash source mref rng si = Inr (sref, si')"
  shows "interner_wf si'"
proof (rule interner_insertD [OF ins wf])
  fix t
  let ?v = "\<lparr>sd_range = rng, sd_module = mref, sd_hash = hash t\<rparr>"
  assume i: "ssa_insert Some ?v (si_map si) = Inr (unat (span_distinct sref), si_map si')"
    and gs: "map_of (si_groups si') = (map_of (si_groups si))(hash t \<mapsto> span_group sref)"
    and g: "map_of (si_groups si) (hash t) = Some (span_group sref) \<or>
           map_of (si_groups si) (hash t) = None \<and> span_group sref = span_distinct sref"
  from wf have m: "ssa_wf (si_map si)" by (simp add: interner_wf_def)
  note look = ssa.look_put [OF m i] and keeps = ssa.look_put_keeps [OF m i]
  have "unat (span_distinct sref) < 2 ^ 32"
    by (rule unat_u32_less)
  then have n: "ssa_wf (si_map si')" "ssa_next_free (si_map si') \<le> 2 ^ 32"
    using ssa.put_key [OF m i] by auto
  have old: "\<exists>d. ssa_get (si_map si') (unat g) = Some d \<and> sd_hash d = h"
    if "map_of (si_groups si) h = Some g" for h g
    using that wf keeps unfolding interner_wf_def by blast
  have "\<exists>d. ssa_get (si_map si') (unat (span_group sref)) = Some d \<and> sd_hash d = hash t"
    using g
  proof (elim disjE conjE)
    assume "span_group sref = span_distinct sref"
    then show ?thesis by (simp add: look)
  qed (rule old)
  with old have groups: "\<exists>d. ssa_get (si_map si') (unat g) = Some d \<and> sd_hash d = h"
    if "map_of (si_groups si') h = Some g" for h g
    using that gs by (auto split: if_splits)
  have "map_of (si_groups si') (sd_hash d) \<noteq> None" if "ssa_get (si_map si') k = Some d" for k d
    using that wf gs look by (auto simp: interner_wf_def split: if_splits)
  with n groups show ?thesis unfolding interner_wf_def by blast
qed

lemma issued_insert:
  assumes wf: "interner_wf si" and ins: "interner_insert hash source mref rng si = Inr (sref, si')"
    and t: "str_get source rng = Some t"
  shows "issued si' sref (hash t)"
proof (rule interner_insertD [OF ins wf])
  fix u
  assume "str_get source rng = Some u"
    and i: "ssa_insert Some \<lparr>sd_range = rng, sd_module = mref, sd_hash = hash u\<rparr> (si_map si)
           = Inr (unat (span_distinct sref), si_map si')"
    and gs: "map_of (si_groups si') = (map_of (si_groups si))(hash u \<mapsto> span_group sref)"
  moreover have "ssa_wf (si_map si)" using wf by (simp add: interner_wf_def)
  ultimately show ?thesis
    using t ssa.look_put_same [OF _ i] by (auto simp: issued_def interner_span_data_def)
qed

lemma issued_keeps:
  assumes wf: "interner_wf si" and ins: "interner_insert hash source mref rng si = Inr (sref, si')"
    and old: "issued si r h"
  shows "issued si' r h"
proof (rule interner_insertD [OF ins wf])
  fix u
  assume i: "ssa_insert Some \<lparr>sd_range = rng, sd_module = mref, sd_hash = hash u\<rparr> (si_map si)
           = Inr (unat (span_distinct sref), si_map si')"
    and gs: "map_of (si_groups si') = (map_of (si_groups si))(hash u \<mapsto> span_group sref)"
    and g: "map_of (si_groups si) (hash u) = Some (span_group sref) \<or>
           map_of (si_groups si) (hash u) = None \<and> span_group sref = span_distinct sref"
  have "ssa_wf (si_map si)" using wf by (simp add: interner_wf_def)
  from ssa.look_put_keeps [OF this i] old gs g show ?thesis
    by (auto simp: issued_def interner_span_data_def)
qed

lemma issued_group_iff:
  assumes "interner_wf si" and "issued si r1 h1" and "issued si r2 h2"
  shows "span_group r1 = span_group r2 \<longleftrightarrow> h1 = h2"
proof
  assume "span_group r1 = span_group r2"
  then have "map_of (si_groups si) h1 = Some (span_group r1)"
      and "map_of (si_groups si) h2 = Some (span_group r1)"
    using assms(2,3) by (simp_all add: issued_def)
  then show "h1 = h2" using assms(1) unfolding interner_wf_def by (metis option.inject)
next
  assume "h1 = h2"
  then show "span_group r1 = span_group r2" using assms(2,3) by (simp add: issued_def)
qed

lemma interner_insert_total:
  assumes wf: "interner_wf si" and t: "str_get source rng = Some t"
    and room: "ssa_next_free (si_map si) < 2 ^ 32"
  shows "\<exists>sref si'. interner_insert hash source mref rng si = Inr (sref, si')
           \<and> ssa_next_free (si_map si') = Suc (ssa_next_free (si_map si))"
proof -
  have "ssa_wf (si_map si)" using wf by (simp add: interner_wf_def)
  then show ?thesis
    using t room by (simp add: interner_insert_def ssa_insert_def ssa_wf_def Let_def u32_of_usize_def)
qed

lemma intern_all_keeps:
  "intern_all hash jobs si = Inr (rs, si') \<Longrightarrow> interner_wf si \<Longrightarrow>
     interner_wf si' \<and> (\<forall>r h. issued si r h \<longrightarrow> issued si' r h)"
proof (induction hash jobs si arbitrary: rs si' rule: intern_all.induct)
  case (2 hash source mref rng jobs si)
  then obtain r si1 rs' where one: "interner_insert hash source mref rng si = Inr (r, si1)"
    and rest: "intern_all hash jobs si1 = Inr (rs', si')"
    by (auto simp: rust_simps)
  have "interner_wf si1" by (rule interner_wf_insert [OF "2.prems"(2) one])
  with "2.IH" [OF one refl rest] issued_keeps [OF "2.prems"(2) one] show ?case by blast
qed simp

lemma intern_all_issued:
  "intern_all hash jobs si = Inr (rs, si') \<Longrightarrow> interner_wf si \<Longrightarrow>
     list_all2 (\<lambda>(source, mref, rng) r. \<exists>t. str_get source rng = Some t \<and> issued si' r (hash t)) jobs rs"
proof (induction hash jobs si arbitrary: rs si' rule: intern_all.induct)
  case (2 hash source mref rng jobs si)
  then obtain r si1 rs' where one: "interner_insert hash source mref rng si = Inr (r, si1)"
    and rest: "intern_all hash jobs si1 = Inr (rs', si')" and rs: "rs = r # rs'"
    by (auto simp: rust_simps)
  have wf: "interner_wf si1" by (rule interner_wf_insert [OF "2.prems"(2) one])
  obtain t where t: "str_get source rng = Some t"
    using interner_insertD [OF one "2.prems"(2)] by blast
  have "issued si' r (hash t)"
    using intern_all_keeps [OF rest wf] issued_insert [OF "2.prems"(2) one t] by blast
  with t rs "2.IH" [OF one refl rest wf] show ?case by auto
qed simp

lemma intern_all_distinct:
  "intern_all hash jobs si = Inr (rs, si') \<Longrightarrow> interner_wf si \<Longrightarrow>
     map (unat \<circ> span_distinct) rs
       = [ssa_next_free (si_map si)..<ssa_next_free (si_map si) + length jobs]"
proof (induction hash jobs si arbitrary: rs si' rule: intern_all.induct)
  case (2 hash source mref rng jobs si)
  let ?n = "ssa_next_free (si_map si)"
  from "2.prems" obtain r si1 rs' where
    one: "interner_insert hash source mref rng si = Inr (r, si1)"
    and rest: "intern_all hash jobs si1 = Inr (rs', si')" and rs: "rs = r # rs'"
    by (auto simp: rust_simps)
  have wf: "interner_wf si1" by (rule interner_wf_insert [OF "2.prems"(2) one])
  show ?case
    using interner_insert_next [OF "2.prems"(2) one] "2.IH" [OF one refl rest wf] rs upt_conv_Cons [of ?n "?n + Suc (length jobs)"]
    by (simp del: upt_Suc)
qed simp

section \<open>Properties\<close>



text \<open>
  Interning round-trips and its only failures are the two the code names: with room left in
  the 32-bit identifier space and a range on character boundaries of the source, \<open>insert\<close> returns
  a reference whose span data is the range, module and hash that were interned, and resolving it
  against the source gives back the text; an unmappable range or an exhausted identifier space
  panics.
\<close>

theorem interner_roundtrip:
  assumes "interner_wf si"
  shows "(case str_get source rng of
      None \<Rightarrow> interner_insert hash source mref rng si = Inl UnwrapNone
    | Some t \<Rightarrow>
        if ssa_next_free (si_map si) < 2 ^ 32 then
          \<exists>sref si'. interner_insert hash source mref rng si = Inr (sref, si') \<and> interner_wf si'
            \<and> interner_span_data si' sref = Some \<lparr>sd_range = rng, sd_module = mref, sd_hash = hash t\<rparr>
            \<and> spanref_to_str (\<lambda>m r. if m = mref then str_get source r else None) si' sref = Some t
            \<and> spangroup_of_str hash si' t = Some (span_group sref)
        else interner_insert hash source mref rng si = Inl UnwrapNone)"
proof (cases "str_get source rng")
  case None
  then show ?thesis by (simp add: interner_insert_def)
next
  case (Some t)
  have m: "ssa_wf (si_map si)" using assms by (simp add: interner_wf_def)
  show ?thesis
  proof (cases "ssa_next_free (si_map si) < 2 ^ 32")
    case True
    obtain sref si' where ins: "interner_insert hash source mref rng si = Inr (sref, si')"
      using interner_insert_total [OF assms Some True] by blast
    have data: "interner_span_data si' sref = Some \<lparr>sd_range = rng, sd_module = mref, sd_hash = hash t\<rparr>"
      by (rule interner_insertD [OF ins assms])
         (use Some ssa.look_put_same [OF m] in \<open>auto simp: interner_span_data_def\<close>)
    moreover have "spangroup_of_str hash si' t = Some (span_group sref)"
      using issued_insert [OF assms ins Some]
      by (simp add: spangroup_of_str_def spangroup_of_hash_def issued_def)
    moreover have "spanref_to_str (\<lambda>m r. if m = mref then str_get source r else None) si' sref = Some t"
      using data Some by (simp add: spanref_to_str_def interner_span_data_def)
    ultimately show ?thesis using Some True ins interner_wf_insert [OF assms ins] by auto
  next
    case False
    with Some m show ?thesis
      by (simp add: interner_insert_def ssa_insert_def ssa_wf_def Let_def u32_of_usize_def)
  qed
qed

theorem interner_roundtrip_witness:
  "\<exists>sref si'. interner_insert (\<lambda>_. 9) ''x = 1'' (ModuleRef 3) (0, 1) interner_new = Inr (sref, si')
    \<and> spanref_to_str (\<lambda>m r. if m = ModuleRef 3 then str_get ''x = 1'' r else None) si' sref = Some ''x''"
proof -
  have t: "str_get ''x = 1'' (0, 1) = Some ''x''" by (simp add: str_get_def is_char_boundary_def)
  have room: "ssa_next_free (si_map interner_new) < 2 ^ 32"
    by (simp add: interner_new_def ssa_new_def)
  show ?thesis
    using interner_roundtrip [OF interner_wf_new, where source = "''x = 1''" and rng = "(0, 1)"
        and hash = "\<lambda>_. 9" and mref = "ModuleRef 3"] t room
    by auto
qed

end
