(* ===== verification/TokenIter.thy ===== *)
theory TokenIter
  imports ParseCore SpanInterner
begin

text \<open>
  The token iterator, \<^verbatim>\<open>montyc_parser/src/token_iter.rs\<close>: what \<open>logos\<close> has recognised, each token with
  its span, becomes what the token stream pulls. Identifiers, strings and comments are interned.
  \<open>iter_tokens\<close> is the whole run of the iterator, up to the first panic.
\<close>

definition token_iter_next ::
  "(string \<Rightarrow> u64) \<Rightarrow> string \<Rightarrow> module_ref \<Rightarrow> py_token \<times> span \<Rightarrow> span_interner \<Rightarrow> ((py_token \<times> span) \<times> span_interner) rust" where
  "token_iter_next hash source mref lexed si =
     (case lexed of (token, rng) \<Rightarrow>
      (case token of
         TkRawIdent \<Rightarrow> and_then (interner_insert hash source mref rng si) (\<lambda>(n, si'). Inr ((TkIdent n, rng), si'))
       | TkByteLiteral \<Rightarrow> Inl TodoMacro
       | TkStringLiteral \<Rightarrow> and_then (interner_insert hash source mref rng si) (\<lambda>(n, si'). Inr ((TkStringRef n, rng), si'))
       | TkComment \<Rightarrow> and_then (interner_insert hash source mref rng si) (\<lambda>(n, si'). Inr ((TkCommentRef n, rng), si'))
       | TkInvalid \<Rightarrow> Inl UnreachableCode
       | _ \<Rightarrow> Inr ((token, rng), si)))"

fun iter_tokens ::
  "(string \<Rightarrow> u64) \<Rightarrow> string \<Rightarrow> module_ref \<Rightarrow> (py_token \<times> span) list \<Rightarrow> span_interner
    \<Rightarrow> (py_token \<times> span) rust list \<times> span_interner" where
  "iter_tokens hash source mref [] si = ([], si)"
| "iter_tokens hash source mref (t # ts) si =
     (case token_iter_next hash source mref t si of
        Inl p \<Rightarrow> ([Inl p], si)
      | Inr (t', si') \<Rightarrow> (case iter_tokens hash source mref ts si' of (rest, si'') \<Rightarrow> (Inr t' # rest, si'')))"

lemma length_iter_tokens: "length (fst (iter_tokens hash source mref ts si)) \<le> length ts"
  by (induction hash source mref ts si rule: iter_tokens.induct) (auto split: sum.split prod.split)

text \<open>What the stream pulls names no token that the iterator replaces.\<close>

lemma iter_tokens_kinds:
  "Inr (t, sp) \<in> set (fst (iter_tokens hash source mref ts si)) \<Longrightarrow>
     t \<notin> {TkRawIdent, TkByteLiteral, TkStringLiteral, TkComment, TkInvalid}"
proof (induction hash source mref ts si rule: iter_tokens.induct)
  case (2 hash source mref l ts si)
  have kind: "t' \<notin> {TkRawIdent, TkByteLiteral, TkStringLiteral, TkComment, TkInvalid}"
    if "token_iter_next hash source mref l si = Inr ((t', sp'), si')" for t' sp' si'
    using that
    by (cases l) (auto simp: token_iter_next_def and_then_def split: py_token.splits sum.splits)
  show ?case
  proof (cases "token_iter_next hash source mref l si")
    case (Inl p)
    then show ?thesis using "2.prems" by simp
  next
    case (Inr y)
    obtain t' sp' si' where y: "y = ((t', sp'), si')" by (metis surj_pair)
    obtain rest si'' where rest: "iter_tokens hash source mref ts si' = (rest, si'')" by fastforce
    have "(t, sp) = (t', sp') \<or> Inr (t, sp) \<in> set (fst (iter_tokens hash source mref ts si'))"
      using "2.prems" Inr y rest by auto
    then show ?thesis using kind [OF Inr [unfolded y]] "2.IH" [OF Inr, of "(t', sp')" si'] y by auto
  qed
qed simp

end
