(* ===== verification/ParseExpr.thy ===== *)
theory ParseExpr
  imports ParseCore "HOL-Library.Log_Nat"
begin

text \<open>
  The parsers of atoms, primaries and expressions: \<^verbatim>\<open>montyc_parser/src/comb/atom.rs\<close>, \<^verbatim>\<open>primary.rs\<close>
  and \<^verbatim>\<open>expr.rs\<close>.

  The functions of the crate call each other in a cycle. A parser here takes the parsers it calls
  back into as a record \<open>grammar\<close>; \<^verbatim>\<open>ParseStmt\<close> ties the knot with fuel. What is called back is
  reached only after a token has been consumed, so that fuel above the number of tokens is enough.
\<close>

section \<open>The grammar\<close>

record grammar =
  g_fuel :: nat
  g_await_primary :: "primary spanned parser"
  g_primary_left_recurse :: "primary spanned \<Rightarrow> primary spanned parser"
  g_factor :: "expr spanned parser"
  g_bitwise_and :: "expr spanned parser"
  g_bitwise_xor :: "expr spanned parser"
  g_bitwise_or :: "expr spanned parser"
  g_comparison :: "expr spanned parser"
  g_inversion :: "expr spanned parser"
  g_conjunction :: "expr spanned parser"
  g_disjunction :: "expr spanned parser"
  g_expression :: "expr spanned parser"
  g_statement :: "statement spanned parser"
  g_statement_unstripped :: "statement spanned parser"

section \<open>Atoms\<close>

definition expect_digits :: "py_token spanned parser" where
  "expect_digits = expect_with (\<lambda>t _. case t of TkDigits _ \<Rightarrow> True | _ \<Rightarrow> False)"

definition expect_ident :: "py_token spanned parser" where
  "expect_ident = expect_with (\<lambda>t _. case t of TkIdent _ \<Rightarrow> True | _ \<Rightarrow> False)"

definition name_p :: "atom spanned parser" where
  "name_p =
     pbind expect_ident (\<lambda>ident.
     prust (case sp_inner ident of
        TkIdent n \<Rightarrow> Inr (Spanned (sp_span ident) (AtName n))
      | _ \<Rightarrow> Inl UnreachableCode))"

definition integer_p :: "atom spanned parser" where
  "integer_p =
     pbind expect_digits (\<lambda>digits.
     prust (case sp_inner digits of
        TkDigits inner \<Rightarrow> Inr (Spanned (sp_span digits) (AtInt inner))
      | _ \<Rightarrow> Inl UnreachableCode))"

text \<open>
  \<open>format!("{}.{}", int, real).parse::<f64>()\<close>: the double nearest to the decimal number, ties to
  even, with the sign of \<open>int\<close>; the text does not parse when \<open>real\<close> is negative. The absolute value is
  zero, or lies between \<open>10\<^sup>-\<^sup>2\<^sup>0\<close> and \<open>2\<^sup>6\<^sup>4\<close>, so that the result is normal.
\<close>

definition round_div_even :: "nat \<Rightarrow> nat \<Rightarrow> nat" where
  "round_div_even a b =
     (let q = a div b; r = a mod b in if b < 2 * r \<or> (2 * r = b \<and> odd q) then q + 1 else q)"

definition scaled_ratio :: "nat \<Rightarrow> nat \<Rightarrow> int \<Rightarrow> nat \<times> nat" where
  "scaled_ratio a b e = (if 0 \<le> e then (a, b * 2 ^ nat e) else (a * 2 ^ nat (- e), b))"

definition f64_of_ratio :: "nat \<Rightarrow> nat \<Rightarrow> 64 word" where
  "f64_of_ratio a b =
     (if a = 0 then 0
      else let e0 = bitlen (int a) - bitlen (int b) - 53;
               (a0, b0) = scaled_ratio a b e0;
               e = (if 2 ^ 53 * b0 \<le> a0 then e0 + 1 else e0);
               (a1, b1) = scaled_ratio a b e
           in word_of_int ((e + 1075) * 2 ^ 52 + int (round_div_even a1 b1) - 2 ^ 52))"

fun decimal_digits :: "nat \<Rightarrow> nat" where
  "decimal_digits n = (if n < 10 then 1 else 1 + decimal_digits (n div 10))"

definition parse_f64 :: "64 word \<Rightarrow> 64 word \<Rightarrow> 64 word rust" where
  "parse_f64 i r =
     (if sint r < 0 then Inl UnwrapNone
      else let k = 10 ^ decimal_digits (nat (sint r));
               v = f64_of_ratio (nat \<bar>sint i\<bar> * k + nat (sint r)) k
           in Inr (if sint i < 0 then set_bit 63 v else v))"

definition float_p :: "nom \<Rightarrow> atom spanned parser" where
  "float_p N =
     pbind (nom_tuple_float N expect_digits (expect TkDot) expect_digits) (\<lambda>(left, _, right).
     prust (case (sp_inner left, sp_inner right) of
        (TkDigits i, TkDigits r) \<Rightarrow>
          and_then (parse_f64 i r) (\<lambda>v. Inr (Spanned (fst (sp_span left), snd (sp_span right)) (AtFloat v)))
      | _ \<Rightarrow> Inl UnreachableCode))"

definition string_ref :: "atom spanned parser" where
  "string_ref =
     pbind (expect_with (\<lambda>t _. case t of TkStringRef _ \<Rightarrow> True | _ \<Rightarrow> False)) (\<lambda>ident.
     prust (case sp_inner ident of
        TkStringRef n \<Rightarrow> Inr (Spanned (sp_span ident) (AtStr n))
      | _ \<Rightarrow> Inl UnreachableCode))"

definition tuple_literal_inner :: "nom \<Rightarrow> grammar \<Rightarrow> expr spanned list parser" where
  "tuple_literal_inner N G =
     pbind (g_expression G) (\<lambda>first.
     pbind (unwrap_or (whitespace N) ()) (\<lambda>_.
     pbind (expect TkComma) (\<lambda>_.
     pbind (unwrap_or (whitespace N) ()) (\<lambda>_.
     pbind (ploop (g_fuel G) (\<lambda>values.
        pif (g_expression G) (\<lambda>expr.
          pbind (unwrap_or (expect_many_n N 0 TkWhitespace) []) (\<lambda>_.
          pif (expect TkComma) (\<lambda>_.
            pbind (unwrap_or (expect_many_n N 0 TkWhitespace) []) (\<lambda>_.
            pret (Inl (values @ [expr]))))
          (pret (Inr (values @ [expr])))))
        (pret (Inr values))) [first]) (\<lambda>values.
     pbind (unwrap_or (whitespace N) ()) (\<lambda>_.
     pret values))))))"

definition tuple_literal :: "nom \<Rightarrow> grammar \<Rightarrow> atom spanned parser" where
  "tuple_literal N G =
     pbind (expect TkLParen) (\<lambda>lparen.
     pbind (unwrap_or (whitespace N) ()) (\<lambda>_.
     pbind (tuple_literal_inner N G) (\<lambda>values.
     pbind (expect TkRParen) (\<lambda>rparen.
     pret (Spanned (fst (sp_span lparen), snd (sp_span rparen)) (AtTuple values))))))"

definition atom_fallback :: "atom spanned parser" where
  "atom_fallback =
     pbind (expect_any_of [TkEllipsis, TkTrue, TkFalse, TkNone]) (\<lambda>t.
     pbind (prust (atom_of_token (sp_inner t))) (\<lambda>a.
     pret (Spanned (sp_span t) a)))"

definition atom_p :: "nom \<Rightarrow> grammar \<Rightarrow> atom spanned parser" where
  "atom_p N G = nom_alt_atom N [name_p, float_p N, string_ref, integer_p, tuple_literal N G, atom_fallback]"

definition atom_unspanned :: "nom \<Rightarrow> grammar \<Rightarrow> atom parser" where
  "atom_unspanned N G = pbind (atom_p N G) (\<lambda>a. pret (sp_inner a))"

section \<open>Primaries\<close>

definition subscript_tuple :: "nom \<Rightarrow> grammar \<Rightarrow> expr spanned parser" where
  "subscript_tuple N G =
     pbind (tuple_literal_inner N G) (\<lambda>values.
     prust (if values = [] then Inl UnwrapNone
            else Inr (spanned_replace_with ExprPrimary (spanned_replace_with Atomic
              (Spanned (fst (sp_span (hd values)), snd (sp_span (last values))) (AtTuple values))))))"

definition primary_subscript :: "nom \<Rightarrow> grammar \<Rightarrow> primary spanned \<Rightarrow> primary spanned parser" where
  "primary_subscript N G base =
     pbind (expect TkLBracket) (\<lambda>_.
     pbind (whitespace N) (\<lambda>_.
     pbind (por (subscript_tuple N G) (g_expression G)) (\<lambda>index.
     pbind (whitespace N) (\<lambda>_.
     pbind (expect TkRBracket) (\<lambda>rbracket.
     pret (Spanned (fst (sp_span base), snd (sp_span rbracket)) (Subscript base index)))))))"

definition primary_call :: "nom \<Rightarrow> grammar \<Rightarrow> primary spanned \<Rightarrow> primary spanned parser" where
  "primary_call N G base =
     pbind (expect TkLParen) (\<lambda>_.
     pbind (whitespace N) (\<lambda>_.
     pbind (ploop (g_fuel G) (\<lambda>args.
        pbind (whitespace N) (\<lambda>_.
        pif (g_expression G) (\<lambda>arg.
          pbind (punwrap (expect_many_n N 0 TkWhitespace)) (\<lambda>_.
          pif (expect TkComma) (\<lambda>_. pret (Inl (args @ [arg])))
          (pif (expect TkRParen) (\<lambda>_. pret (Inr (args @ [arg])))
          (prust (Inl UnreachableCode)))))
        (pif (expect TkRParen) (\<lambda>_. pret (Inr args))
        (prust (Inl UnreachableCode))))) []) (\<lambda>args.
     pret (Spanned (fst (sp_span base), snd (sp_span base))
       (Call base (if args = [] then None else Some args))))))"

definition primary_dot_name :: "nom \<Rightarrow> primary spanned \<Rightarrow> primary spanned parser" where
  "primary_dot_name N base =
     pbind (whitespace N) (\<lambda>_.
     pbind (expect TkDot) (\<lambda>_.
     pbind (whitespace N) (\<lambda>_.
     pbind name_p (\<lambda>ident.
     pbind (whitespace N) (\<lambda>_.
     pret (Spanned (fst (sp_span base), snd (sp_span ident)) (Attribute base ident)))))))"

definition primary_left_recurse :: "nom \<Rightarrow> grammar \<Rightarrow> primary spanned \<Rightarrow> primary spanned parser" where
  "primary_left_recurse N G base =
     pbind (por (por (por (primary_dot_name N base) (primary_call N G base)) (primary_subscript N G base))
                (pfail ErrIsNot)) (\<lambda>output.
     pwhile (g_fuel G) (g_primary_left_recurse G) output)"

definition primary_p :: "nom \<Rightarrow> grammar \<Rightarrow> primary spanned parser" where
  "primary_p N G =
     pbind (atom_p N G) (\<lambda>a.
     por (primary_left_recurse N G (spanned_replace_with Atomic a)) (pret (spanned_replace_with Atomic a)))"

definition await_primary :: "nom \<Rightarrow> grammar \<Rightarrow> primary spanned parser" where
  "await_primary N G =
     pif (nom_terminated N (expect TkAwait) (expect_many_n N 1 TkWhitespace)) (\<lambda>await_node.
       pbind (g_await_primary G) (\<lambda>p.
       pret (Spanned (fst (sp_span await_node), snd (sp_span p)) (sp_inner p))))
     (primary_p N G)"

section \<open>Expressions\<close>

definition bin_op :: "infix_op \<Rightarrow> expr spanned \<Rightarrow> expr spanned \<Rightarrow> expr spanned" where
  "bin_op op left right = Spanned (fst (sp_span left), snd (sp_span right)) (BinOp left op right)"

definition power_p :: "nom \<Rightarrow> grammar \<Rightarrow> expr spanned parser" where
  "power_p N G =
     pbind (await_primary N G) (\<lambda>left.
     pif (expect_wrapped_values N [TkStar, TkStar] TkWhitespace) (\<lambda>_.
       pbind (g_factor G) (\<lambda>right.
       pret (bin_op Power (spanned_replace_with ExprPrimary left) right)))
     (pret (spanned_replace_with ExprPrimary left)))"

definition factor :: "nom \<Rightarrow> grammar \<Rightarrow> expr spanned parser" where
  "factor N G =
     pif (expect_any_token [TkPlus, TkMinus, TkTilde]) (\<lambda>token.
       pbind (g_factor G) (\<lambda>v.
       pbind (prust (case sp_inner token of
            TkPlus \<Rightarrow> Inr UAdd | TkMinus \<Rightarrow> Inr USub | TkTilde \<Rightarrow> Inr Invert | _ \<Rightarrow> Inl UnreachableCode)) (\<lambda>op.
       pret (Spanned (fst (sp_span token), snd (sp_span v)) (Unary op v)))))
     (power_p N G)"

definition term_rest :: "nom \<Rightarrow> grammar \<Rightarrow> expr spanned \<Rightarrow> expr spanned parser" where
  "term_rest N G left =
     pbind (whitespace N) (\<lambda>_.
     pbind (expect_any_token [TkStar, TkDiv, TkModulo, TkAt]) (\<lambda>tok.
     pif (expect TkDiv) (\<lambda>_.
       pbind (whitespace N) (\<lambda>_.
       pbind (factor N G) (\<lambda>right.
       pret (bin_op FloorDiv left right))))
     (pbind (whitespace N) (\<lambda>_.
      pbind (factor N G) (\<lambda>right.
      pbind (prust (case sp_inner tok of
           TkAt \<Rightarrow> Inr MatMult | TkModulo \<Rightarrow> Inr Mod | TkStar \<Rightarrow> Inr Mult | TkDiv \<Rightarrow> Inr Div
         | _ \<Rightarrow> Inl UnreachableCode)) (\<lambda>op.
      pret (bin_op op left right)))))))"

definition term_p :: "nom \<Rightarrow> grammar \<Rightarrow> expr spanned parser" where
  "term_p N G =
     pbind (whitespace N) (\<lambda>_.
     pbind (factor N G) (\<lambda>base.
     por (term_rest N G base) (pret base)))"

definition sum_rest :: "nom \<Rightarrow> grammar \<Rightarrow> expr spanned \<Rightarrow> expr spanned parser" where
  "sum_rest N G left =
     pbind (whitespace N) (\<lambda>_.
     pbind (expect_any_token [TkPlus, TkMinus]) (\<lambda>tok.
     pbind (whitespace N) (\<lambda>_.
     pbind (term_p N G) (\<lambda>v.
     pbind (prust (case sp_inner tok of TkPlus \<Rightarrow> Inr Add | TkMinus \<Rightarrow> Inr Sub | _ \<Rightarrow> Inl UnreachableCode)) (\<lambda>op.
     pret (bin_op op left v))))))"

definition sum_p :: "nom \<Rightarrow> grammar \<Rightarrow> expr spanned parser" where
  "sum_p N G =
     pbind (whitespace N) (\<lambda>_.
     pbind (term_p N G) (\<lambda>obj.
     pwhile (g_fuel G) (sum_rest N G) obj))"

definition shift_expr :: "nom \<Rightarrow> grammar \<Rightarrow> expr spanned parser" where
  "shift_expr N G =
     pbind (whitespace N) (\<lambda>_.
     pbind (sum_p N G) (\<lambda>base.
     pif (expect_any_token [TkLessThan, TkGreaterThan]) (\<lambda>tok.
       pbind (whitespace N) (\<lambda>_.
       pbind (expect TkLessThan) (\<lambda>_.
       pbind (g_expression G) (\<lambda>v.
       pret (bin_op (if sp_inner tok = TkLessThan then LeftShift else RightShift) base v)))))
     (pret base)))"

definition bitwise_and :: "nom \<Rightarrow> grammar \<Rightarrow> expr spanned parser" where
  "bitwise_and N G =
     pbind (whitespace N) (\<lambda>_.
     pbind (shift_expr N G) (\<lambda>base.
     pbind (whitespace N) (\<lambda>_.
     pif (expect_any_token [TkAnd]) (\<lambda>_.
       pbind (whitespace N) (\<lambda>_.
       pbind (g_bitwise_and G) (\<lambda>v.
       pret (bin_op And base v))))
     (pret base))))"

definition bitwise_xor :: "nom \<Rightarrow> grammar \<Rightarrow> expr spanned parser" where
  "bitwise_xor N G =
     pbind (whitespace N) (\<lambda>_.
     pbind (bitwise_and N G) (\<lambda>base.
     pbind (whitespace N) (\<lambda>_.
     pif (expect_any_token [TkCaret]) (\<lambda>_.
       pbind (whitespace N) (\<lambda>_.
       pbind (g_bitwise_xor G) (\<lambda>v.
       pret (bin_op Xor base v))))
     (pret base))))"

definition bitwise_or :: "nom \<Rightarrow> grammar \<Rightarrow> expr spanned parser" where
  "bitwise_or N G =
     pbind (whitespace N) (\<lambda>_.
     pbind (bitwise_xor N G) (\<lambda>base.
     pbind (whitespace N) (\<lambda>_.
     pif (expect_any_token [TkPipe]) (\<lambda>_.
       pbind (whitespace N) (\<lambda>_.
       pbind (g_bitwise_or G) (\<lambda>v.
       pret (bin_op Or base v))))
     (pret base))))"

definition equality :: "nom \<Rightarrow> grammar \<Rightarrow> expr spanned parser" where
  "equality N G =
     pbind (expect_many_n N 0 TkWhitespace) (\<lambda>_.
     pbind (bitwise_or N G) (\<lambda>left.
     pbind (expect_many_n N 0 TkWhitespace) (\<lambda>_.
     pbind (expect_any_of [TkEqual, TkBang]) (\<lambda>token.
     pbind (expect TkEqual) (\<lambda>_.
     pbind (prust (case sp_inner token of TkBang \<Rightarrow> Inr NotEq | TkEqual \<Rightarrow> Inr Eq | _ \<Rightarrow> Inl UnreachableCode)) (\<lambda>op.
     pbind (expect_many_n N 0 TkWhitespace) (\<lambda>_.
     pbind (g_comparison G) (\<lambda>right.
     pret (bin_op op left right)))))))))"

definition comparison :: "nom \<Rightarrow> grammar \<Rightarrow> expr spanned parser" where
  "comparison N G = nom_alt_expr N [equality N G, bitwise_or N G]"

definition not_comparison :: "nom \<Rightarrow> grammar \<Rightarrow> expr spanned parser" where
  "not_comparison N G =
     pbind (whitespace N) (\<lambda>_.
     pbind (expect TkNot) (\<lambda>tok.
     pbind (g_inversion G) (\<lambda>v.
     pret (Spanned (fst (sp_span tok), snd (sp_span v)) (Unary UNot v)))))"

definition inversion :: "nom \<Rightarrow> grammar \<Rightarrow> expr spanned parser" where
  "inversion N G = nom_alt_expr N [not_comparison N G, comparison N G]"

definition and_inversion :: "nom \<Rightarrow> grammar \<Rightarrow> expr spanned parser" where
  "and_inversion N G =
     pbind (inversion N G) (\<lambda>left.
     pbind (whitespace N) (\<lambda>_.
     pbind (expect TkAnd) (\<lambda>_.
     pbind (whitespace N) (\<lambda>_.
     pbind (g_conjunction G) (\<lambda>right.
     pret (bin_op And left right))))))"

definition conjunction :: "nom \<Rightarrow> grammar \<Rightarrow> expr spanned parser" where
  "conjunction N G = nom_alt_expr N [and_inversion N G, inversion N G]"

definition or_conjunction :: "nom \<Rightarrow> grammar \<Rightarrow> expr spanned parser" where
  "or_conjunction N G =
     pbind (conjunction N G) (\<lambda>left.
     pbind (whitespace N) (\<lambda>_.
     pbind (expect TkOr) (\<lambda>_.
     pbind (whitespace N) (\<lambda>_.
     pbind (g_disjunction G) (\<lambda>right.
     pret (bin_op Or left right))))))"

definition disjunction :: "nom \<Rightarrow> grammar \<Rightarrow> expr spanned parser" where
  "disjunction N G = nom_alt_expr N [or_conjunction N G, conjunction N G]"

definition ternary_disjunction :: "nom \<Rightarrow> grammar \<Rightarrow> expr spanned parser" where
  "ternary_disjunction N G =
     pbind (disjunction N G) (\<lambda>body.
     pbind (whitespace N) (\<lambda>_.
     pbind (expect TkIf) (\<lambda>_.
     pbind (whitespace N) (\<lambda>_.
     pbind (disjunction N G) (\<lambda>test.
     pbind (whitespace N) (\<lambda>_.
     pbind (expect TkElse) (\<lambda>_.
     pbind (whitespace N) (\<lambda>_.
     pbind (g_expression G) (\<lambda>orelse.
     pret (Spanned (fst (sp_span body), snd (sp_span orelse)) (ExprIf test body orelse)))))))))))"

definition expression :: "nom \<Rightarrow> grammar \<Rightarrow> expr spanned parser" where
  "expression N G =
     pbind (nom_alt_expr N [ternary_disjunction N G, disjunction N G]) (\<lambda>expr.
     pbind (whitespace N) (\<lambda>_.
     pret expr))"

definition expression_unspanned :: "nom \<Rightarrow> grammar \<Rightarrow> expr parser" where
  "expression_unspanned N G = pbind (expression N G) (\<lambda>result. pret (sp_inner result))"

section \<open>Progress\<close>

text \<open>
  The parsers that are called back return and consume a token on any stream that has fewer than \<open>m\<close>
  tokens left, and loops have fuel for \<open>m\<close> tokens.
\<close>

definition grammar_ok :: "nat \<Rightarrow> grammar \<Rightarrow> bool" where
  "grammar_ok m G \<longleftrightarrow> m < g_fuel G \<and> (\<forall>m' < m.
     consumes m' (g_await_primary G) \<and> (\<forall>base. consumes m' (g_primary_left_recurse G base))
     \<and> consumes m' (g_factor G) \<and> consumes m' (g_bitwise_and G) \<and> consumes m' (g_bitwise_xor G)
     \<and> consumes m' (g_bitwise_or G) \<and> consumes m' (g_comparison G) \<and> consumes m' (g_inversion G)
     \<and> consumes m' (g_conjunction G) \<and> consumes m' (g_disjunction G) \<and> consumes m' (g_expression G)
     \<and> consumes m' (g_statement G) \<and> consumes m' (g_statement_unstripped G))"

lemma ok_less: "grammar_ok m G \<Longrightarrow> m' \<le> m \<Longrightarrow> grammar_ok m' G"
  by (simp add: grammar_ok_def)

lemma ok_fuel: "grammar_ok m G \<Longrightarrow> m' \<le> m \<Longrightarrow> m' < g_fuel G"
  by (simp add: grammar_ok_def)

lemma good_callback [good_intros]:
  assumes "grammar_ok (Suc m) G"
  shows "good C m (g_await_primary G)" "good C m (g_primary_left_recurse G base)"
    "good D m (g_factor G)" "good D m (g_bitwise_and G)" "good D m (g_bitwise_xor G)" "good D m (g_bitwise_or G)"
    "good D m (g_comparison G)" "good D m (g_inversion G)" "good D m (g_conjunction G)"
    "good D m (g_disjunction G)" "good D m (g_expression G)"
    "good E m (g_statement G)" "good E m (g_statement_unstripped G)"
  using assms by (simp_all add: grammar_ok_def consumes_good)

lemma good_loop_pret [good_intros]: "good isl m (pret (Inr b))" "good (\<lambda>x. \<not> isl x) m (pret (Inl a))"
  by (simp_all add: good_pret)

text \<open>Rules for a sequence, by the parser at its head.\<close>

declare good_first_token [good_intros] good_skip [good_intros]

lemma good_expect_digits [good_intros]: "good C m expect_digits"
  unfolding expect_digits_def by (rule good_expect_with)

lemma good_expect_ident [good_intros]: "good C m expect_ident"
  unfolding expect_ident_def by (rule good_expect_with)

lemma good_name [good_intros]: "good C m name_p"
  unfolding name_p_def by (intro good_first [OF good_expect_ident] good_intros)

lemma good_integer [good_intros]: "good C m integer_p"
  unfolding integer_p_def by (intro good_first [OF good_expect_digits] good_intros)

lemma good_string_ref [good_intros]: "good C m string_ref"
  unfolding string_ref_def by (intro good_first [OF good_expect_with] good_intros)

lemma good_atom_fallback [good_intros]: "good C m atom_fallback"
  unfolding atom_fallback_def by (intro good_intros)

lemma good_tuple3:
  assumes "tuple3_spec t" and "consumes m p" and "0 < m \<Longrightarrow> returns (m - 1) q" and "0 < m \<Longrightarrow> returns (m - 1) r"
  shows "good C m (t p q r)"
proof -
  have "t p q r = pbind p (\<lambda>x. pbind q (\<lambda>y. pbind r (\<lambda>z. pret (x, y, z))))"
    using assms(1) by (simp add: tuple3_spec_def)
  then show ?thesis
    by (simp only:, intro good_first [OF assms(2)] good_later [OF assms(3)] good_later [OF assms(4)] returns_pret)
qed

lemma good_float [good_intros]: "nom_spec N \<Longrightarrow> good C m (float_p N)"
  unfolding float_p_def
  by (rule good_first [OF good_tuple3 [OF nom_specD(16)]]) (auto intro: good_intros split: prod.split)

lemma good_tuple_literal_inner [good_intros]:
  assumes nom: "nom_spec N" and ok: "grammar_ok (Suc m) G" shows "good C m (tuple_literal_inner N G)"
proof -
  have loop: "returns k (ploop (g_fuel G) (\<lambda>values.
        pif (g_expression G) (\<lambda>expr.
          pbind (unwrap_or (expect_many_n N 0 TkWhitespace) []) (\<lambda>_.
          pif (expect TkComma) (\<lambda>_.
            pbind (unwrap_or (expect_many_n N 0 TkWhitespace) []) (\<lambda>_.
            pret (Inl (values @ [expr]))))
          (pret (Inr (values @ [expr])))))
        (pret (Inr values))) vs)" if "k \<le> m" for k vs
    by (intro good_ploop good_pif_first [OF good_callback(11)] good_intros nom)
       (use that in \<open>simp_all add: ok_fuel [OF ok] ok_less [OF ok]\<close>)
  show ?thesis
    unfolding tuple_literal_inner_def
    by (intro good_first [OF good_callback(11) [OF ok]] good_later [OF loop] good_intros nom) simp_all
qed

lemma good_tuple_literal [good_intros]:
  assumes "nom_spec N" and ok: "grammar_ok m G" shows "good C m (tuple_literal N G)"
  unfolding tuple_literal_def
  by (intro good_first [OF good_tuple_literal_inner] good_intros assms(1)) (simp_all add: ok_less [OF ok])

lemma good_atom [good_intros]:
  assumes "nom_spec N" and "grammar_ok m G" shows "good C m (atom_p N G)"
  unfolding atom_p_def by (rule good_alt [OF nom_specD(5) [OF assms(1)]]) (simp add: good_intros assms)

lemma good_subscript_tuple [good_intros]:
  assumes "nom_spec N" and "grammar_ok (Suc m) G" shows "good C m (subscript_tuple N G)"
  unfolding subscript_tuple_def by (intro good_first [OF good_tuple_literal_inner] good_intros assms)

lemma good_primary_subscript [good_intros]:
  assumes "nom_spec N" and ok: "grammar_ok m G" shows "good C m (primary_subscript N G base)"
  unfolding primary_subscript_def
  by (intro good_intros good_later [OF good_por] assms(1)) (simp_all add: ok_less [OF ok])

lemma good_primary_call [good_intros]:
  assumes nom: "nom_spec N" and ok: "grammar_ok m G" shows "good C m (primary_call N G base)"
proof -
  have loop: "returns k (ploop (g_fuel G) (\<lambda>args.
        pbind (whitespace N) (\<lambda>_.
        pif (g_expression G) (\<lambda>arg.
          pbind (punwrap (expect_many_n N 0 TkWhitespace)) (\<lambda>_.
          pif (expect TkComma) (\<lambda>_. pret (Inl (args @ [arg])))
          (pif (expect TkRParen) (\<lambda>_. pret (Inr (args @ [arg])))
          (prust (Inl UnreachableCode)))))
        (pif (expect TkRParen) (\<lambda>_. pret (Inr args))
        (prust (Inl UnreachableCode))))) args)" if "k < m" for k args
    by (intro good_ploop good_pif_first [OF good_callback(11)] good_intros nom)
       (use that in \<open>simp_all add: ok_fuel [OF ok] ok_less [OF ok]\<close>)
  show ?thesis
    unfolding primary_call_def by (intro good_later [OF loop] good_intros nom) simp_all
qed

lemma good_primary_dot_name [good_intros]: "nom_spec N \<Longrightarrow> good C m (primary_dot_name N base)"
  unfolding primary_dot_name_def by (intro good_first [OF good_name] good_intros; assumption)

lemma good_primary_left_recurse [good_intros]:
  assumes "nom_spec N" and ok: "grammar_ok m G" shows "good C m (primary_left_recurse N G base)"
  unfolding primary_left_recurse_def
  by (intro good_first [OF good_por] good_pwhile good_intros assms)
    (simp_all add: ok_less [OF ok] ok_fuel [OF ok])

lemma good_primary [good_intros]:
  assumes "nom_spec N" and ok: "grammar_ok m G" shows "good C m (primary_p N G)"
  unfolding primary_p_def
  by (intro good_first [OF good_atom] good_intros assms) (simp_all add: ok_less [OF ok])

lemma good_await_primary [good_intros]:
  assumes "nom_spec N" and ok: "grammar_ok m G" shows "good C m (await_primary N G)"
  unfolding await_primary_def
  by (intro good_pif_first [OF good_terminated(1) [OF nom_specD(10)]] good_first [OF good_callback(1)] good_intros assms)
    (simp_all add: ok_less [OF ok])

text \<open>The levels of the grammar: the first operand consumes, and what follows returns.\<close>

lemma good_power [good_intros]:
  assumes "nom_spec N" and ok: "grammar_ok m G" shows "good C m (power_p N G)"
  unfolding power_p_def
  by (intro good_first [OF good_await_primary] good_pif_first [OF good_expect_wrapped] good_first [OF good_callback(3)]
      good_intros assms) (simp_all add: ok_less [OF ok])

lemma good_factor [good_intros]:
  assumes "nom_spec N" and ok: "grammar_ok m G" shows "good C m (factor N G)"
  unfolding factor_def
  by (intro good_first [OF good_callback(3)] good_intros assms) (simp_all add: ok_less [OF ok])

lemma good_term_rest [good_intros]:
  assumes "nom_spec N" and ok: "grammar_ok m G" shows "good C m (term_rest N G left)"
  unfolding term_rest_def
  by (intro good_first [OF good_factor] good_intros assms(1)) (simp_all add: ok_less [OF ok])

lemma good_term [good_intros]:
  assumes "nom_spec N" and ok: "grammar_ok m G" shows "good C m (term_p N G)"
  unfolding term_p_def
  by (intro good_first [OF good_factor] good_intros assms) (simp_all add: ok_less [OF ok])

lemma good_sum_rest [good_intros]:
  assumes "nom_spec N" and ok: "grammar_ok m G" shows "good C m (sum_rest N G left)"
  unfolding sum_rest_def
  by (intro good_first [OF good_term] good_intros assms(1)) (simp_all add: ok_less [OF ok])

lemma good_sum [good_intros]:
  assumes "nom_spec N" and ok: "grammar_ok m G" shows "good C m (sum_p N G)"
  unfolding sum_p_def
  by (intro good_first [OF good_term] good_pwhile good_intros assms) (simp_all add: ok_less [OF ok] ok_fuel [OF ok])

lemma good_shift_expr [good_intros]:
  assumes "nom_spec N" and ok: "grammar_ok m G" shows "good C m (shift_expr N G)"
  unfolding shift_expr_def
  by (intro good_first [OF good_sum] good_first [OF good_callback(11)] good_intros assms) (simp_all add: ok_less [OF ok])

lemma good_bitwise_and [good_intros]:
  assumes "nom_spec N" and ok: "grammar_ok m G" shows "good C m (bitwise_and N G)"
  unfolding bitwise_and_def
  by (intro good_first [OF good_shift_expr] good_first [OF good_callback(4)] good_intros assms) (simp_all add: ok_less [OF ok])

lemma good_bitwise_xor [good_intros]:
  assumes "nom_spec N" and ok: "grammar_ok m G" shows "good C m (bitwise_xor N G)"
  unfolding bitwise_xor_def
  by (intro good_first [OF good_bitwise_and] good_first [OF good_callback(5)] good_intros assms) (simp_all add: ok_less [OF ok])

lemma good_bitwise_or [good_intros]:
  assumes "nom_spec N" and ok: "grammar_ok m G" shows "good C m (bitwise_or N G)"
  unfolding bitwise_or_def
  by (intro good_first [OF good_bitwise_xor] good_first [OF good_callback(6)] good_intros assms) (simp_all add: ok_less [OF ok])

lemma good_equality [good_intros]:
  assumes "nom_spec N" and ok: "grammar_ok m G" shows "good C m (equality N G)"
  unfolding equality_def
  by (intro good_first [OF good_bitwise_or] good_first [OF good_callback(7)] good_intros assms) (simp_all add: ok_less [OF ok])

lemma good_alt2:
  assumes "nom_spec N" and "good C m p" and "good C m q"
  shows "good C m (nom_alt_expr N [p, q])"
  by (rule good_alt [OF nom_specD(6) [OF assms(1)]]) (simp add: assms)

lemma good_comparison [good_intros]:
  assumes "nom_spec N" and "grammar_ok m G" shows "good C m (comparison N G)"
  unfolding comparison_def by (intro good_alt2 good_intros assms)

lemma good_not_comparison [good_intros]:
  assumes "nom_spec N" and ok: "grammar_ok m G" shows "good C m (not_comparison N G)"
  unfolding not_comparison_def
  by (intro good_first [OF good_callback(8)] good_intros assms(1)) (simp_all add: ok_less [OF ok])

lemma good_inversion [good_intros]:
  assumes "nom_spec N" and "grammar_ok m G" shows "good C m (inversion N G)"
  unfolding inversion_def by (intro good_alt2 good_intros assms)

lemma good_and_inversion [good_intros]:
  assumes "nom_spec N" and ok: "grammar_ok m G" shows "good C m (and_inversion N G)"
  unfolding and_inversion_def
  by (intro good_first [OF good_inversion] good_first [OF good_callback(9)] good_intros assms) (simp_all add: ok_less [OF ok])

lemma good_conjunction [good_intros]:
  assumes "nom_spec N" and "grammar_ok m G" shows "good C m (conjunction N G)"
  unfolding conjunction_def by (intro good_alt2 good_intros assms)

lemma good_or_conjunction [good_intros]:
  assumes "nom_spec N" and ok: "grammar_ok m G" shows "good C m (or_conjunction N G)"
  unfolding or_conjunction_def
  by (intro good_first [OF good_conjunction] good_first [OF good_callback(10)] good_intros assms) (simp_all add: ok_less [OF ok])

lemma good_disjunction [good_intros]:
  assumes "nom_spec N" and "grammar_ok m G" shows "good C m (disjunction N G)"
  unfolding disjunction_def by (intro good_alt2 good_intros assms)

lemma good_ternary [good_intros]:
  assumes "nom_spec N" and ok: "grammar_ok m G" shows "good C m (ternary_disjunction N G)"
  unfolding ternary_disjunction_def
  by (intro good_first [OF good_disjunction] good_first [OF good_callback(11)] good_intros assms) (simp_all add: ok_less [OF ok])

lemma good_expression [good_intros]:
  assumes "nom_spec N" and "grammar_ok m G" shows "good C m (expression N G)"
  unfolding expression_def
  by (intro good_first [OF good_alt2] good_intros assms)

end
