(* ===== verification/ParseStmt.thy ===== *)
theory ParseStmt
  imports ParseExpr
begin

text \<open>
  The parsers of statements and modules: \<^verbatim>\<open>montyc_parser/src/comb/mod.rs\<close>, \<^verbatim>\<open>stmt.rs\<close>, \<^verbatim>\<open>assign.rs\<close>,
  \<^verbatim>\<open>import.rs\<close>, \<^verbatim>\<open>class.rs\<close>, \<^verbatim>\<open>funcdef.rs\<close>, \<^verbatim>\<open>while_.rs\<close> and \<^verbatim>\<open>ifelse.rs\<close>; the knot of the grammar, and
  \<^verbatim>\<open>parse\<close> of \<^verbatim>\<open>lib.rs\<close>. Its theorem is that the parser of modules returns on every input.
\<close>

section \<open>Small statements\<close>

definition return_p :: "nom \<Rightarrow> grammar \<Rightarrow> return_stmt spanned parser" where
  "return_p N G =
     pbind (expect TkReturn) (\<lambda>ret.
     pbind (pif (expression N G) (\<lambda>v. pret (snd (sp_span v), Inr v))
             (pret (snd (sp_span ret), Inl (Spanned (sp_span ret) ())))) (\<lambda>(span_end, v).
     pret (Spanned (fst (sp_span ret), span_end) (Return v))))"

definition return_unspanned :: "nom \<Rightarrow> grammar \<Rightarrow> return_stmt parser" where
  "return_unspanned N G = pbind (return_p N G) (\<lambda>r. pret (sp_inner r))"

definition assignment_p :: "nom \<Rightarrow> grammar \<Rightarrow> assign spanned parser" where
  "assignment_p N G =
     pbind (nom_terminated_primary N (primary_p N G) (expect_many_n N 0 TkWhitespace)) (\<lambda>ident.
     pbind (pif (nom_terminated N (expect TkColon) (expect_many_n N 0 TkWhitespace)) (\<lambda>_.
         pbind (nom_terminated_expr N (expression N G) (expect_many_n N 0 TkWhitespace)) (\<lambda>kind.
         pret (Some kind)))
       (pret None)) (\<lambda>kind.
     pbind (nom_terminated N (expect TkEqual) (expect_many_n N 0 TkWhitespace)) (\<lambda>_.
     pbind (expression N G) (\<lambda>v.
     pret (Spanned (fst (sp_span ident), snd (sp_span v)) (Assign ident v kind))))))"

definition assignment_unspanned :: "nom \<Rightarrow> grammar \<Rightarrow> assign parser" where
  "assignment_unspanned N G = pbind (assignment_p N G) (\<lambda>a. pret (sp_inner a))"

text \<open>\<open>Spanned::map\<close> with the constructor of a statement.\<close>

definition spanned_map :: "('a \<Rightarrow> 'b) \<Rightarrow> 'a spanned \<Rightarrow> 'b spanned" where
  "spanned_map f s = Spanned (sp_span s) (f (sp_inner s))"

definition dyn_assign :: "nom \<Rightarrow> grammar \<Rightarrow> statement spanned parser" where
  "dyn_assign N G = pbind (assignment_p N G) (\<lambda>a. pret (Spanned (sp_span a) (StAsn (sp_inner a))))"

definition dyn_annotation :: "nom \<Rightarrow> grammar \<Rightarrow> statement spanned parser" where
  "dyn_annotation N G =
     pbind (nom_terminated_atom N name_p (expect_many_n N 0 TkWhitespace)) (\<lambda>ident.
     pbind (nom_terminated N (expect TkColon) (expect_many_n N 0 TkWhitespace)) (\<lambda>_.
     pbind (nom_terminated_expr N (expression N G) (expect_many_n N 0 TkWhitespace)) (\<lambda>kind.
     pret (Spanned (fst (sp_span ident), snd (sp_span kind)) (StAnn (Annotation ident kind))))))"

definition dyn_return :: "nom \<Rightarrow> grammar \<Rightarrow> statement spanned parser" where
  "dyn_return N G = pbind (return_p N G) (\<lambda>r. pret (Spanned (sp_span r) (StRet (sp_inner r))))"

text \<open>A token that stands for an atom, as a statement.\<close>

definition token_statement :: "py_token spanned \<Rightarrow> statement spanned rust" where
  "token_statement tok =
     and_then (atom_of_token (sp_inner tok)) (\<lambda>a.
     Inr (spanned_map StExpr (spanned_replace_with ExprPrimary (spanned_replace_with Atomic (Spanned (sp_span tok) a)))))"

definition dyn_span_ref :: "statement spanned parser" where
  "dyn_span_ref =
     pbind (expect_with (\<lambda>t _. case t of TkIdent _ \<Rightarrow> True | TkCommentRef _ \<Rightarrow> True | TkStringRef _ \<Rightarrow> True | _ \<Rightarrow> False)) (\<lambda>tok.
     prust (token_statement tok))"

definition dyn_pass :: "statement spanned parser" where
  "dyn_pass = pbind (expect TkPass) (\<lambda>t. pret (Spanned (sp_span t) StPass))"

definition dyn_expr :: "nom \<Rightarrow> grammar \<Rightarrow> statement spanned parser" where
  "dyn_expr N G = pbind (expression N G) (\<lambda>e. pret (spanned_map StExpr e))"

definition small_stmt :: "nom \<Rightarrow> grammar \<Rightarrow> statement spanned parser" where
  "small_stmt N G = nom_alt_stmt N
     [dyn_assign N G, dyn_annotation N G, dyn_return N G, dyn_pass, dyn_expr N G, dyn_span_ref]"

section \<open>Imports\<close>

definition is_import_path :: "primary \<Rightarrow> bool" where
  "is_import_path p =
     (case p of
        Atomic a \<Rightarrow> (case sp_inner a of AtName _ \<Rightarrow> True | _ \<Rightarrow> False)
      | Attribute _ _ \<Rightarrow> True
      | _ \<Rightarrow> False)"

definition import_names_p :: "nom \<Rightarrow> grammar \<Rightarrow> primary spanned list parser" where
  "import_names_p N G =
     ploop (g_fuel G) (\<lambda>names.
       pbind (expect_many_n N 0 TkWhitespace) (\<lambda>_.
       pbind (primary_p N G) (\<lambda>thing.
       pbind (prust (if is_import_path (sp_inner thing) then Inr () else Inl UnreachableCode)) (\<lambda>_.
       pif (expect TkComma) (\<lambda>_. pret (Inl (names @ [thing]))) (pret (Inr (names @ [thing]))))))) []"

definition import_span_to :: "py_token spanned \<Rightarrow> primary spanned list \<Rightarrow> span rust" where
  "import_span_to tok names =
     (if names = [] then Inl UnwrapNone else Inr (fst (sp_span tok), snd (sp_span (last names))))"

definition import_from :: "nom \<Rightarrow> grammar \<Rightarrow> import spanned parser" where
  "import_from N G =
     pbind (expect TkImport) (\<lambda>tok.
     pbind (whitespace N) (\<lambda>_.
     pbind (import_names_p N G) (\<lambda>names.
     prust (and_then (import_span_to tok names) (\<lambda>sp. Inr (Spanned sp (ImportNames names)))))))"

definition from_import :: "nom \<Rightarrow> grammar \<Rightarrow> import spanned parser" where
  "from_import N G =
     pbind (expect TkFrom) (\<lambda>tok.
     pbind (whitespace N) (\<lambda>_.
     pbind (expect_many_n N 0 TkDot) (\<lambda>dots.
     pbind (primary_p N G) (\<lambda>m.
     pbind (prust (if is_import_path (sp_inner m) then Inr () else Inl UnreachableCode)) (\<lambda>_.
     pbind (whitespace N) (\<lambda>_.
     pbind (expect TkImport) (\<lambda>_.
     pbind (whitespace N) (\<lambda>_.
     pbind (import_names_p N G) (\<lambda>names.
     prust (and_then (import_span_to tok names) (\<lambda>sp. Inr (Spanned sp (ImportFrom m names (length dots))))))))))))))"

definition import_p :: "nom \<Rightarrow> grammar \<Rightarrow> import spanned parser" where
  "import_p N G = nom_alt_import N [import_from N G, from_import N G]"

definition dyn_import :: "nom \<Rightarrow> grammar \<Rightarrow> statement spanned parser" where
  "dyn_import N G = pbind (import_p N G) (\<lambda>i. pret (spanned_map StImport i))"

section \<open>Decorators and classes\<close>

definition chomp :: "grammar \<Rightarrow> py_token spanned list parser" where
  "chomp G =
     ploop (g_fuel G) (\<lambda>refs.
       pif (expect TkWhitespace) (\<lambda>_. pret (Inl refs))
      (pif (expect TkNewline) (\<lambda>_. pret (Inl refs))
      (pif (expect_with (\<lambda>t _. case t of TkCommentRef _ \<Rightarrow> True | _ \<Rightarrow> False)) (\<lambda>sr. pret (Inl (refs @ [sr])))
      (pret (Inr refs))))) []"

definition is_decorator :: "primary \<Rightarrow> bool" where
  "is_decorator p =
     (case p of
        Atomic a \<Rightarrow> (case sp_inner a of AtName _ \<Rightarrow> True | _ \<Rightarrow> False)
      | Attribute _ _ \<Rightarrow> True
      | Call _ _ \<Rightarrow> True
      | _ \<Rightarrow> False)"

definition decorator :: "nom \<Rightarrow> grammar \<Rightarrow> primary spanned parser" where
  "decorator N G =
     pbind (expect TkAt) (\<lambda>_.
     pbind (primary_p N G) (\<lambda>dec.
     prust (if is_decorator (sp_inner dec) then Inr dec else Inl UnreachableCode)))"

definition decorator_list :: "nom \<Rightarrow> grammar \<Rightarrow> primary spanned list parser" where
  "decorator_list N G =
     ploop (g_fuel G) (\<lambda>ds.
       pif (decorator N G) (\<lambda>dec.
         pbind (unwrap_or (chomp G) []) (\<lambda>_.
         pret (Inl (ds @ [dec]))))
       (pret (Inr ds))) []"

definition class_body :: "nom \<Rightarrow> grammar \<Rightarrow> statement spanned list parser" where
  "class_body N G =
     pif (expect TkNewline) (\<lambda>_.
       ploop (g_fuel G) (\<lambda>body.
         pif (expect_many_n N 4 TkWhitespace) (\<lambda>_.
           pbind (g_statement G) (\<lambda>stmt.
           pbind (expect_many_n N 0 TkNewline) (\<lambda>_.
           pret (Inl (body @ [stmt])))))
         (pret (Inr body))) [])
     (pbind (plook (g_statement G)) (\<lambda>stmt. pret [stmt]))"

definition class_def_p :: "nom \<Rightarrow> grammar \<Rightarrow> class_def spanned parser" where
  "class_def_p N G =
     pbind (decorator_list N G) (\<lambda>decorators.
     pbind (expect TkClassDef) (\<lambda>tok.
     pbind (whitespace N) (\<lambda>_.
     pbind (atom_p N G) (\<lambda>nm.
     pbind (whitespace N) (\<lambda>_.
     pbind (expect TkColon) (\<lambda>_.
     pbind (whitespace N) (\<lambda>_.
     pbind (class_body N G) (\<lambda>body.
     pret (Spanned
       (case decorators of d # _ \<Rightarrow> fst (sp_span d) | [] \<Rightarrow> fst (sp_span tok),
        if body = [] then snd (sp_span nm) else snd (sp_span (last body)))
       (ClassDef nm decorators body))))))))))"

definition dyn_classdef :: "nom \<Rightarrow> grammar \<Rightarrow> statement spanned parser" where
  "dyn_classdef N G = pbind (class_def_p N G) (\<lambda>c. pret (spanned_map StClass c))"

section \<open>Functions\<close>

definition argument_p :: "nom \<Rightarrow> py_token spanned parser" where
  "argument_p N =
     pbind (whitespace N) (\<lambda>_.
     pbind expect_ident (\<lambda>nm.
     pbind (whitespace N) (\<lambda>_.
     pret nm)))"

text \<open>The failure of \<open>expect(Colon)\<close> is looked at: at the end of the stream it is a panic.\<close>

definition peof :: "'a parser \<Rightarrow> 'a parser \<Rightarrow> 'a parser" where
  "peof p q pos st = (if ts_is_eof st then p pos st else q pos st)"

definition argument_annotated :: "nom \<Rightarrow> grammar \<Rightarrow> parsed_argument parser" where
  "argument_annotated N G =
     pbind (whitespace N) (\<lambda>_.
     pbind expect_ident (\<lambda>nm.
     pbind (whitespace N) (\<lambda>_.
     pbind (pif (expect TkColon) (\<lambda>_.
         pbind (whitespace N) (\<lambda>_.
         pbind (expression N G) (\<lambda>kind.
         pret (Some kind))))
       (peof (prust (Inl TodoMacro)) (pbind (whitespace N) (\<lambda>_. pret None)))) (\<lambda>kind.
     pret (nm, kind)))))"

definition arguments :: "nom \<Rightarrow> grammar \<Rightarrow> (py_token spanned option \<times> parsed_argument list) parser" where
  "arguments N G =
     pbind (whitespace N) (\<lambda>_.
     pbind (unwrap_or (pbind (nom_terminated_tok N (argument_p N) (expect TkComma)) (\<lambda>r. pret (Some r))) None) (\<lambda>recv.
     pbind (nom_many0_arg N (nom_alt_arg N
         [nom_terminated_arg N (argument_annotated N G) (expect TkComma), argument_annotated N G])) (\<lambda>args.
     pret (recv, args))))"

text \<open>The indent of a block is measured once: the white space before its first line.\<close>

definition indent_level :: "nom \<Rightarrow> nat option \<Rightarrow> nat parser" where
  "indent_level N level =
     (case level of
        None \<Rightarrow> pbind (plook (expect_many_n N 0 TkWhitespace)) (\<lambda>indent. pret (length indent))
      | Some l \<Rightarrow> pret l)"

text \<open>
  The indented block of a function or a \<open>while\<close>: lines with the indent of the first one. A line that
  is not a statement is a failure.
\<close>

definition indented_block :: "nom \<Rightarrow> nat \<Rightarrow> statement spanned parser \<Rightarrow> statement spanned list parser" where
  "indented_block N fuel stmt_p =
     ploop fuel (\<lambda>(level, body).
       piter
         (pbind (expect_many_n N 0 TkNewline) (\<lambda>_.
          pbind (indent_level N level) (\<lambda>l.
          pif (expect_many_n_var N l TkWhitespace) (\<lambda>_. pret (Inr l)) (pret (Inl body)))))
         (\<lambda>l. pbind stmt_p (\<lambda>part. pret (Some l, body @ [part])))) (None, [])"

definition ident_of_token :: "py_token \<Rightarrow> span_ref rust" where
  "ident_of_token t = (case t of TkIdent n \<Rightarrow> Inr n | _ \<Rightarrow> Inl UnreachableCode)"

fun function_args :: "parsed_argument list \<Rightarrow> (span_ref \<times> expr spanned option) list rust" where
  "function_args [] = Inr []"
| "function_args ((l, r) # args) =
     and_then (ident_of_token (sp_inner l)) (\<lambda>n.
     and_then (function_args args) (\<lambda>rest. Inr ((n, r) # rest)))"

definition make_function_def ::
  "primary spanned list option \<Rightarrow> py_token spanned \<Rightarrow> py_token spanned option \<Rightarrow> parsed_argument list
    \<Rightarrow> expr spanned option \<Rightarrow> statement spanned list \<Rightarrow> function_def spanned rust" where
  "make_function_def dec ident receiver args ret_type body =
     and_then (if args = [] then Inr None else and_then (function_args args) (\<lambda>as. Inr (Some as))) (\<lambda>fargs.
     and_then (ident_of_token (sp_inner ident)) (\<lambda>n.
     and_then (case receiver of
         None \<Rightarrow> Inr None
       | Some r \<Rightarrow> and_then (ident_of_token (sp_inner r)) (\<lambda>k. Inr (Some (Spanned (sp_span r) (AtName k))))) (\<lambda>recv.
     if body = [] then Inl UnwrapNone
     else Inr (Spanned (fst (sp_span ident), snd (sp_span (last body)))
       (FunctionDef recv (Spanned (sp_span ident) (AtName n)) fargs body
          (case dec of Some ds \<Rightarrow> ds | None \<Rightarrow> []) ret_type)))))"

definition function_def_p :: "nom \<Rightarrow> grammar \<Rightarrow> function_def spanned parser" where
  "function_def_p N G =
     pbind (unwrap_or (pbind (decorator_list N G) (\<lambda>dec. pret (Some dec))) None) (\<lambda>dec.
     pbind (expect TkFnDef) (\<lambda>_.
     pbind (whitespace N) (\<lambda>_.
     pbind expect_ident (\<lambda>ident.
     pbind (whitespace N) (\<lambda>_.
     pbind (expect TkLParen) (\<lambda>_.
     pbind (arguments N G) (\<lambda>(receiver, args).
     pbind (expect TkRParen) (\<lambda>_.
     pbind (whitespace N) (\<lambda>_.
     pbind (pif (pbind (expect TkMinus) (\<lambda>_. expect TkGreaterThan)) (\<lambda>_.
         pbind (whitespace N) (\<lambda>_.
         pbind (expression N G) (\<lambda>ret.
         pret (Some ret))))
       (pret None)) (\<lambda>ret_type.
     pbind (whitespace N) (\<lambda>_.
     pbind (expect TkColon) (\<lambda>_.
     pbind (whitespace N) (\<lambda>_.
     pbind (pif (g_statement G) (\<lambda>stmt. pret [stmt]) (indented_block N (g_fuel G) (g_statement G))) (\<lambda>body.
     prust (make_function_def dec ident receiver args ret_type body)))))))))))))))"

definition dyn_funcdef :: "nom \<Rightarrow> grammar \<Rightarrow> statement spanned parser" where
  "dyn_funcdef N G = pbind (function_def_p N G) (\<lambda>f. pret (Spanned (sp_span f) (StFnDef (sp_inner f))))"

section \<open>Loops and branches\<close>

definition while_stmt_p :: "nom \<Rightarrow> grammar \<Rightarrow> while_stmt spanned parser" where
  "while_stmt_p N G =
     pbind (expect TkWhile) (\<lambda>tok.
     pbind (nom_tuple_while N (expect_many_n N 0 TkWhitespace) (expression N G) (expect_many_n N 0 TkWhitespace)
         (expect TkColon) (expect_many_n N 0 TkWhitespace)) (\<lambda>(_, test, _).
     pbind (pif (g_statement_unstripped G) (\<lambda>stmt. pret [stmt])
         (indented_block N (g_fuel G) (g_statement_unstripped G))) (\<lambda>body.
     pret (Spanned (sp_span tok) (While test body)))))"

definition dyn_while :: "nom \<Rightarrow> grammar \<Rightarrow> statement spanned parser" where
  "dyn_while N G = pbind (while_stmt_p N G) (\<lambda>w. pret (spanned_map StWhile w))"

text \<open>The block of an \<open>if\<close> or an \<open>else\<close>: it ends at a line that is not a statement.\<close>

definition if_block :: "nom \<Rightarrow> grammar \<Rightarrow> (py_token spanned list parser \<Rightarrow> py_token spanned list parser)
    \<Rightarrow> statement spanned list parser" where
  "if_block N G checked =
     ploop (g_fuel G) (\<lambda>(level, body).
       piter
         (pbind (checked (expect_many_n N 0 TkNewline)) (\<lambda>_.
          pbind (case level of
              None \<Rightarrow> pbind (plook (checked (expect_many_n N 0 TkWhitespace))) (\<lambda>indent. pret (length indent))
            | Some l \<Rightarrow> pret l) (\<lambda>l.
          por (pbind (expect_many_n_var N l TkWhitespace) (\<lambda>_. pbind (g_statement G) (\<lambda>part. pret (Inr (l, part)))))
              (pret (Inl body)))))
         (\<lambda>(l, part). pret (Some l, body @ [part]))) (None, [])"

definition elif_block :: "nom \<Rightarrow> grammar \<Rightarrow> statement spanned list parser" where
  "elif_block N G =
     ploop (g_fuel G) (\<lambda>body.
       pif (pbind (nom_terminated N (expect TkNewline) (expect_many_n N 4 TkWhitespace)) (\<lambda>_. g_statement G))
         (\<lambda>part. pret (Inl (body @ [part])))
         (pret (Inr body))) []"

definition if_head :: "nom \<Rightarrow> grammar \<Rightarrow> (unit \<times> expr spanned \<times> unit \<times> py_token spanned \<times> unit) parser" where
  "if_head N G = nom_tuple_if N (whitespace N) (expression N G) (whitespace N) (expect TkColon) (whitespace N)"

text \<open>The \<open>elif\<close> branches; the result has the indent level of the chain.\<close>

definition elif_branches :: "nom \<Rightarrow> grammar \<Rightarrow> if_branch spanned list \<Rightarrow> (nat option \<times> if_branch spanned list) parser" where
  "elif_branches N G branches =
     ploop (g_fuel G) (\<lambda>(level, branches).
       piter
         (pbind (expect_many_n N 0 TkNewline) (\<lambda>_.
          pbind (indent_level N level) (\<lambda>l.
          por (pbind (expect_many_n_var N l TkWhitespace) (\<lambda>_. pbind (expect TkElif) (\<lambda>etok. pret (Inr (l, etok)))))
              (pret (Inl (Some l, branches))))))
         (\<lambda>(l, etok).
          pbind (if_head N G) (\<lambda>(_, test, _).
          pbind (elif_block N G) (\<lambda>body.
          pret (Some l, branches @ [Spanned (sp_span etok) (IfBranch test body)]))))) (None, branches)"

text \<open>The stream stays where it was when there is no \<open>else\<close>.\<close>

definition else_branch :: "nom \<Rightarrow> grammar \<Rightarrow> nat option \<Rightarrow> statement spanned list option parser" where
  "else_branch N G level =
     pbind (piter
       (pbind (unwrap_or (expect_many_n N 0 TkNewline) []) (\<lambda>_.
        pbind (indent_level N level) (\<lambda>l.
        pbind (unwrap_or (expect_many_n_var N l TkWhitespace) []) (\<lambda>_.
        pif (expect TkElse) (\<lambda>_. pret (Inr ())) (pret (Inl None))))))
       (\<lambda>_. pbind (nom_tuple_else N (whitespace N) (expect TkColon) (whitespace N)) (\<lambda>_.
            if_block N G punwrap))) (\<lambda>r.
     pret (case r of Inl body \<Rightarrow> Some body | Inr none \<Rightarrow> none))"

definition if_stmt :: "nom \<Rightarrow> grammar \<Rightarrow> if_chain spanned parser" where
  "if_stmt N G =
     pbind (expect TkIf) (\<lambda>token.
     pbind (if_head N G) (\<lambda>(_, test, _).
     pbind (pif (g_statement G) (\<lambda>stmt.
         pret (IfChain [Spanned (sp_span token) (IfBranch test [stmt])] None))
       (pbind (if_block N G (\<lambda>p. p)) (\<lambda>body.
        pbind (elif_branches N G [Spanned (sp_span token) (IfBranch test body)]) (\<lambda>(level, branches).
        pbind (else_branch N G level) (\<lambda>orelse.
        pret (IfChain branches orelse)))))) (\<lambda>if_obj.
     prust (case if_branches if_obj of
        [] \<Rightarrow> Inl IndexOutOfBounds
      | b # bs \<Rightarrow> Inr (Spanned (fst (sp_span b), snd (sp_span (last (b # bs)))) if_obj)))))"

definition dyn_ifstmt :: "nom \<Rightarrow> grammar \<Rightarrow> statement spanned parser" where
  "dyn_ifstmt N G = pbind (if_stmt N G) (\<lambda>i. pret (spanned_map StIf i))"

section \<open>Statements and modules\<close>

definition compound_stmt :: "nom \<Rightarrow> grammar \<Rightarrow> statement spanned parser" where
  "compound_stmt N G = nom_alt_stmt N
     [dyn_funcdef N G, dyn_import N G, dyn_classdef N G, dyn_ifstmt N G, dyn_while N G]"

definition statement_unstripped :: "nom \<Rightarrow> grammar \<Rightarrow> statement spanned parser" where
  "statement_unstripped N G = nom_alt_stmt N [small_stmt N G, compound_stmt N G]"

definition statement_p :: "nom \<Rightarrow> grammar \<Rightarrow> statement spanned parser" where
  "statement_p N G =
     pbind (unwrap_or (whitespace N) ()) (\<lambda>_.
     nom_alt_stmt N [small_stmt N G, compound_stmt N G])"

definition statement_unspanned :: "nom \<Rightarrow> grammar \<Rightarrow> statement parser" where
  "statement_unspanned N G = pbind (statement_p N G) (\<lambda>s. pret (sp_inner s))"

fun token_statements :: "py_token spanned list \<Rightarrow> statement spanned list rust" where
  "token_statements [] = Inr []"
| "token_statements (t # ts) =
     and_then (token_statement t) (\<lambda>s. and_then (token_statements ts) (\<lambda>ss. Inr (s # ss)))"

definition module_p :: "nom \<Rightarrow> grammar \<Rightarrow> module parser" where
  "module_p N G =
     pbind (chomp G) (\<lambda>head.
     pbind (prust (token_statements head)) (\<lambda>body.
     pbind (ploop (g_fuel G) (\<lambda>body.
         pif (statement_p N G) (\<lambda>stmt.
           pbind (expect_many_n N 0 TkNewline) (\<lambda>_.
           pret (Inl (body @ [stmt]))))
         (pret (Inr body))) body) (\<lambda>body.
     pbind (chomp G) (\<lambda>tail.
     pbind (prust (token_statements tail)) (\<lambda>rest.
     pret (Module (body @ rest)))))))"

section \<open>The knot\<close>

fun crate_grammar :: "nom \<Rightarrow> nat \<Rightarrow> grammar" where
  "crate_grammar N 0 =
     \<lparr>g_fuel = 1, g_await_primary = (\<lambda>_ _. None), g_primary_left_recurse = (\<lambda>_ _ _. None),
      g_factor = (\<lambda>_ _. None), g_bitwise_and = (\<lambda>_ _. None), g_bitwise_xor = (\<lambda>_ _. None),
      g_bitwise_or = (\<lambda>_ _. None), g_comparison = (\<lambda>_ _. None), g_inversion = (\<lambda>_ _. None),
      g_conjunction = (\<lambda>_ _. None), g_disjunction = (\<lambda>_ _. None), g_expression = (\<lambda>_ _. None),
      g_statement = (\<lambda>_ _. None), g_statement_unstripped = (\<lambda>_ _. None)\<rparr>"
| "crate_grammar N (Suc n) =
     (let G = crate_grammar N n in
     \<lparr>g_fuel = n + 2, g_await_primary = await_primary N G, g_primary_left_recurse = primary_left_recurse N G,
      g_factor = factor N G, g_bitwise_and = bitwise_and N G, g_bitwise_xor = bitwise_xor N G,
      g_bitwise_or = bitwise_or N G, g_comparison = comparison N G, g_inversion = inversion N G,
      g_conjunction = conjunction N G, g_disjunction = disjunction N G, g_expression = expression N G,
      g_statement = statement_p N G, g_statement_unstripped = statement_unstripped N G\<rparr>)"

text \<open>\<open>parse\<close> of \<^verbatim>\<open>lib.rs\<close>, on what the iterator yields.\<close>

definition parse :: "(py_token \<times> span) rust list \<Rightarrow> 'r parser \<Rightarrow> 'r rust option" where
  "parse tokens func =
     (case func 0 \<lparr>ts_tokens = tokens, ts_pulled = 0, ts_complete = False\<rparr> of
        None \<Rightarrow> None
      | Some (Inl p) \<Rightarrow> Some (Inl p)
      | Some (Inr (Inl _, _)) \<Rightarrow> Some (Inl UnwrapNone)
      | Some (Inr (Inr (_, r), st)) \<Rightarrow> Some (if ts_is_eof st then Inr r else Inl AssertionFailed))"

definition parse_module :: "nom \<Rightarrow> nat \<Rightarrow> (py_token \<times> span) rust list \<Rightarrow> module rust option" where
  "parse_module N fuel tokens = parse tokens (module_p N (crate_grammar N fuel))"

section \<open>Progress\<close>

declare good_first [OF good_name, good_intros] good_first [OF good_expect_ident, good_intros]

lemma good_first_terminated [good_intros]:
  assumes "nom_spec N"
  shows "good C m (nom_terminated N (expect v) (expect_many_n N i w))"
  by (rule good_terminated(1) [OF nom_specD(10) [OF assms]]) (intro good_intros assms)+

lemma good_terminated_operand [good_intros]:
  assumes nom: "nom_spec N" and ok: "grammar_ok m G"
  shows "good C m (nom_terminated_primary N (primary_p N G) (expect_many_n N i w))"
    and "good D m (nom_terminated_expr N (expression N G) (expect_many_n N i w))"
  by (rule good_terminated(1), rule nom_specD [OF nom], (intro good_intros assms)+)+

lemma good_terminated_name:
  assumes nom: "nom_spec N" shows "good C m (nom_terminated_atom N name_p (expect_many_n N i w))"
  by (rule good_terminated(1) [OF nom_specD(12) [OF nom]]) (intro good_intros nom)+

lemma good_return_stmt [good_intros]:
  assumes "nom_spec N" and ok: "grammar_ok m G" shows "good C m (return_p N G)"
  unfolding return_p_def
  by (intro good_intros good_later [OF good_pif_first [OF good_expression]] assms(1))
    (auto intro: good_intros simp: ok_less [OF ok])

lemma good_assignment [good_intros]:
  assumes nom: "nom_spec N" and ok: "grammar_ok m G" shows "good C m (assignment_p N G)"
  unfolding assignment_p_def
  by (intro good_first [OF good_terminated_operand(1)] good_first [OF good_terminated_operand(2)]
      good_first [OF good_first_terminated] good_later [OF good_pif_first [OF good_first_terminated]]
      good_first [OF good_expression] good_intros assms) (simp_all add: ok_less [OF ok])

lemma good_dyn_assign [good_intros]:
  assumes "nom_spec N" and "grammar_ok m G" shows "good C m (dyn_assign N G)"
  unfolding dyn_assign_def by (intro good_first [OF good_assignment] good_intros assms)

lemma good_dyn_annotation [good_intros]:
  assumes "nom_spec N" and ok: "grammar_ok m G" shows "good C m (dyn_annotation N G)"
  unfolding dyn_annotation_def
  by (intro good_first [OF good_terminated_name] good_first [OF good_terminated_operand(2)]
      good_first [OF good_first_terminated] good_intros assms) (simp_all add: ok_less [OF ok])

lemma good_dyn_return [good_intros]:
  assumes "nom_spec N" and "grammar_ok m G" shows "good C m (dyn_return N G)"
  unfolding dyn_return_def by (intro good_first [OF good_return_stmt] good_intros assms)

lemma good_dyn_span_ref [good_intros]: "good C m dyn_span_ref"
  unfolding dyn_span_ref_def by (intro good_intros)

lemma good_dyn_pass [good_intros]: "good C m dyn_pass"
  unfolding dyn_pass_def by (intro good_intros)

lemma good_dyn_expr [good_intros]:
  assumes "nom_spec N" and "grammar_ok m G" shows "good C m (dyn_expr N G)"
  unfolding dyn_expr_def by (intro good_first [OF good_expression] good_intros assms)

lemma good_alt_stmt:
  "nom_spec N \<Longrightarrow> list_all (good C m) ps \<Longrightarrow> good C m (nom_alt_stmt N ps)"
  by (rule good_alt [OF nom_specD(7)])

lemma good_small_stmt [good_intros]:
  assumes "nom_spec N" and "grammar_ok m G" shows "good C m (small_stmt N G)"
  unfolding small_stmt_def by (rule good_alt_stmt [OF assms(1)]) (simp add: good_intros assms)

lemma good_import_names [good_intros]:
  assumes nom: "nom_spec N" and ok: "grammar_ok m G" shows "returns m (import_names_p N G)"
  unfolding import_names_p_def
  by (intro good_ploop good_first [OF good_primary] good_intros nom)
    (simp_all add: ok_less [OF ok] ok_fuel [OF ok] good_intros)

lemma good_import_from [good_intros]:
  assumes nom: "nom_spec N" and ok: "grammar_ok m G" shows "good C m (import_from N G)"
  unfolding import_from_def
  by (intro good_later [OF good_import_names] good_intros nom) (simp_all add: ok_less [OF ok])

lemma good_from_import [good_intros]:
  assumes nom: "nom_spec N" and ok: "grammar_ok m G" shows "good C m (from_import N G)"
  unfolding from_import_def
  by (intro good_first [OF good_primary] good_later [OF good_import_names] good_intros nom)
    (simp_all add: ok_less [OF ok])

lemma good_import [good_intros]:
  assumes "nom_spec N" and "grammar_ok m G" shows "good C m (import_p N G)"
  unfolding import_p_def by (rule good_alt [OF nom_specD(8) [OF assms(1)]]) (simp add: good_intros assms)

lemma good_dyn_import [good_intros]:
  assumes "nom_spec N" and "grammar_ok m G" shows "good C m (dyn_import N G)"
  unfolding dyn_import_def by (intro good_first [OF good_import] good_intros assms)

lemma good_chomp [good_intros]:
  assumes ok: "grammar_ok m G" shows "returns m (chomp G)"
  unfolding chomp_def by (intro good_ploop good_intros) (simp_all add: ok_fuel [OF ok])

lemma good_decorator [good_intros]:
  assumes "nom_spec N" and ok: "grammar_ok m G" shows "good C m (decorator N G)"
  unfolding decorator_def
  by (intro good_first [OF good_primary] good_intros assms(1)) (simp_all add: ok_less [OF ok])

lemma good_decorator_list [good_intros]:
  assumes nom: "nom_spec N" and ok: "grammar_ok m G" shows "returns m (decorator_list N G)"
  unfolding decorator_list_def
  by (intro good_ploop good_pif_first [OF good_decorator] good_later [OF good_unwrap_or [OF good_chomp]] good_intros nom)
    (simp_all add: ok_less [OF ok] ok_fuel [OF ok])

lemma good_class_body [good_intros]:
  assumes nom: "nom_spec N" and ok: "grammar_ok (Suc m) G" shows "returns m (class_body N G)"
proof -
  have loop: "returns k (ploop (g_fuel G) (\<lambda>body.
      pif (expect_many_n N 4 TkWhitespace) (\<lambda>_.
        pbind (g_statement G) (\<lambda>stmt.
        pbind (expect_many_n N 0 TkNewline) (\<lambda>_.
        pret (Inl (body @ [stmt])))))
      (pret (Inr body))) bs)" if "k \<le> m" for k bs
    by (intro good_ploop good_pif_later good_first [OF good_callback(12)] good_intros nom)
      (use that in \<open>simp_all add: ok_less [OF ok] ok_fuel [OF ok]\<close>)
  show ?thesis unfolding class_body_def
    by (intro good_pif_first [OF good_expect] loop good_later [OF good_plook] good_intros) (simp_all add: ok)
qed

lemma good_class_def [good_intros]:
  assumes nom: "nom_spec N" and ok: "grammar_ok m G" shows "good C m (class_def_p N G)"
  unfolding class_def_p_def
  by (intro good_later [OF good_decorator_list] good_first [OF good_atom] good_later [OF good_class_body] good_intros assms)
    (simp_all add: ok_less [OF ok])

lemma good_dyn_classdef [good_intros]:
  assumes "nom_spec N" and "grammar_ok m G" shows "good C m (dyn_classdef N G)"
  unfolding dyn_classdef_def by (intro good_first [OF good_class_def] good_intros assms)

text \<open>Functions.\<close>

lemma good_peof: "good C m p \<Longrightarrow> good C m q \<Longrightarrow> good C m (peof p q)"
  unfolding good_def peof_def by simp

lemma good_argument [good_intros]: "nom_spec N \<Longrightarrow> good C m (argument_p N)"
  unfolding argument_p_def by (intro good_intros; assumption)

lemma good_argument_annotated [good_intros]:
  assumes "nom_spec N" and ok: "grammar_ok m G" shows "good C m (argument_annotated N G)"
  unfolding argument_annotated_def
  by (intro good_later [OF good_pif_first [OF good_expect]] good_first [OF good_expression] good_peof good_intros assms(1))
    (simp_all add: ok_less [OF ok])

lemma good_arguments [good_intros]:
  assumes nom: "nom_spec N" and ok: "grammar_ok m G" shows "returns m (arguments N G)"
proof -
  have recv: "consumes m (nom_terminated_tok N (argument_p N) (expect TkComma))"
    by (intro good_terminated(1) [OF nom_specD(11) [OF nom]] good_intros nom)
  have arg: "consumes m (nom_terminated_arg N (argument_annotated N G) (expect TkComma))"
    by (intro good_terminated(1) [OF nom_specD(15) [OF nom]] good_intros assms)
  have "consumes m (nom_alt_arg N [nom_terminated_arg N (argument_annotated N G) (expect TkComma), argument_annotated N G])"
    by (rule good_alt [OF nom_specD(9) [OF nom]]) (simp add: arg good_intros assms)
  then show ?thesis unfolding arguments_def
    by (intro good_later [OF good_unwrap_or [OF good_first [OF recv]]] good_later [OF good_many0 [OF nom_specD(2) [OF nom]]]
        good_intros nom)
qed

lemma good_indent_level [good_intros]: "nom_spec N \<Longrightarrow> returns m (indent_level N level)"
  unfolding indent_level_def by (cases level) (simp_all add: good_later good_plook good_intros)

lemma good_indented_block:
  assumes nom: "nom_spec N" and stmt: "\<And>m' C. m' \<le> m \<Longrightarrow> good C m' stmt_p" and fuel: "m < fuel"
  shows "returns m (indented_block N fuel stmt_p)"
  unfolding indented_block_def
proof (rule good_ploop [OF _ fuel])
  fix s :: "nat option \<times> statement spanned list" and m' assume m': "m' \<le> m"
  obtain level body where s: "s = (level, body)" by (cases s)
  show "good isl m' (case s of (level, body) \<Rightarrow> piter
      (pbind (expect_many_n N 0 TkNewline) (\<lambda>_.
       pbind (indent_level N level) (\<lambda>l.
       pif (expect_many_n_var N l TkWhitespace) (\<lambda>_. pret (Inr l)) (pret (Inl body)))))
      (\<lambda>l. pbind stmt_p (\<lambda>part. pret (Some l, body @ [part]))))"
    unfolding s prod.case
    by (intro good_piter_late good_later [OF good_indent_level] good_pif_later good_first [OF stmt [OF m']] good_intros nom)
qed

lemma good_function_def [good_intros]:
  assumes nom: "nom_spec N" and ok: "grammar_ok m G" shows "good C m (function_def_p N G)"
proof -
  have body: "returns k (pif (g_statement G) (\<lambda>stmt. pret [stmt]) (indented_block N (g_fuel G) (g_statement G)))" if "k < m" for k
    by (intro good_pif_first [OF good_callback(12)] good_indented_block good_callback(12) good_intros nom)
      (use that in \<open>simp_all add: ok_less [OF ok] ok_fuel [OF ok]\<close>)
  have ret: "returns k (pif (pbind (expect TkMinus) (\<lambda>_. expect TkGreaterThan)) (\<lambda>_.
         pbind (whitespace N) (\<lambda>_. pbind (expression N G) (\<lambda>ret. pret (Some ret)))) (pret None))" if "k < m" for k
    by (intro good_pif_later good_first [OF good_expect] good_first [OF good_expression] good_intros nom)
      (use that in \<open>simp_all add: ok_less [OF ok]\<close>)
  show ?thesis unfolding function_def_p_def
    by (intro good_later [OF good_unwrap_or [OF good_later [OF good_decorator_list]]] good_later [OF good_arguments]
        good_later [OF body] good_later [OF ret] good_intros assms)
      (auto simp: ok_less [OF ok] split: prod.split intro!: good_later [OF body] good_later [OF ret] good_intros nom)
qed

lemma good_dyn_funcdef [good_intros]:
  assumes "nom_spec N" and "grammar_ok m G" shows "good C m (dyn_funcdef N G)"
  unfolding dyn_funcdef_def by (intro good_first [OF good_function_def] good_intros assms)

text \<open>Loops and branches.\<close>

lemma good_tuple5:
  assumes "tuple5_spec t" and "returns m p" and "consumes m q"
    and "0 < m \<Longrightarrow> returns (m - 1) r" and "0 < m \<Longrightarrow> returns (m - 1) s" and "0 < m \<Longrightarrow> returns (m - 1) u"
  shows "good C m (t p q r s u)"
proof -
  have "t p q r s u = pbind p (\<lambda>a. pbind q (\<lambda>b. pbind r (\<lambda>c. pbind s (\<lambda>d. pbind u (\<lambda>e. pret (a, b, c, d, e))))))"
    using assms(1) by (simp add: tuple5_spec_def)
  then show ?thesis
    by (simp only:, intro good_later [OF assms(2)] good_first [OF assms(3)] good_later [OF assms(4)]
        good_later [OF assms(5)] good_later [OF assms(6)] returns_pret)
qed

lemma good_while_stmt [good_intros]:
  assumes nom: "nom_spec N" and ok: "grammar_ok m G" shows "good C m (while_stmt_p N G)"
proof -
  have head: "consumes k (nom_tuple_while N (expect_many_n N 0 TkWhitespace) (expression N G) (expect_many_n N 0 TkWhitespace)
         (expect TkColon) (expect_many_n N 0 TkWhitespace))" if "k \<le> m" for k
    by (intro good_tuple5 nom_specD(19) [OF nom] good_intros nom ok_less [OF ok]) (use that in simp_all)
  have body: "returns k (pif (g_statement_unstripped G) (\<lambda>stmt. pret [stmt])
      (indented_block N (g_fuel G) (g_statement_unstripped G)))" if "k < m" for k
    by (intro good_pif_first [OF good_callback(13)] good_indented_block good_callback(13) good_intros nom)
      (use that in \<open>simp_all add: ok_less [OF ok] ok_fuel [OF ok]\<close>)
  show ?thesis unfolding while_stmt_p_def
    by (intro good_first [OF good_expect] good_first [OF head])
      (auto split: prod.split intro!: good_later [OF body] good_intros)
qed

lemma good_dyn_while [good_intros]:
  assumes "nom_spec N" and "grammar_ok m G" shows "good C m (dyn_while N G)"
  unfolding dyn_while_def by (intro good_first [OF good_while_stmt] good_intros assms)

lemma good_if_block:
  assumes nom: "nom_spec N" and ok: "grammar_ok (Suc m) G"
    and checked: "\<And>m' p. returns m' p \<Longrightarrow> returns m' (checked p)"
  shows "returns m (if_block N G checked)"
  unfolding if_block_def
proof (rule good_ploop)
  fix s :: "nat option \<times> statement spanned list" and m' assume m': "m' \<le> m"
  obtain level body where s: "s = (level, body)" by (cases s)
  have newline: "returns m' (checked (expect_many_n N 0 TkNewline))" by (intro checked good_intros nom)
  have level: "returns m' (case level of
              None \<Rightarrow> pbind (plook (checked (expect_many_n N 0 TkWhitespace))) (\<lambda>indent. pret (length indent))
            | Some l \<Rightarrow> pret l)"
    by (cases level) (auto intro!: good_later [OF good_plook] checked good_intros nom)
  have step: "good isl m' (piter
         (pbind (checked (expect_many_n N 0 TkNewline)) (\<lambda>_.
          pbind (case level of
              None \<Rightarrow> pbind (plook (checked (expect_many_n N 0 TkWhitespace))) (\<lambda>indent. pret (length indent))
            | Some l \<Rightarrow> pret l) (\<lambda>l.
          por (pbind (expect_many_n_var N l TkWhitespace) (\<lambda>_. pbind (g_statement G) (\<lambda>part. pret (Inr (l, part)))))
              (pret (Inl body)))))
         (\<lambda>(l, part). pret (Some l, body @ [part])))"
    by (intro good_piter_early good_later [OF newline] good_later [OF level] good_first [OF good_callback(12)] good_intros nom)
      (use m' in \<open>auto simp: ok_less [OF ok] split: prod.split intro: good_intros\<close>)
  show "good isl m' (case s of (level, body) \<Rightarrow> piter
         (pbind (checked (expect_many_n N 0 TkNewline)) (\<lambda>_.
          pbind (case level of
              None \<Rightarrow> pbind (plook (checked (expect_many_n N 0 TkWhitespace))) (\<lambda>indent. pret (length indent))
            | Some l \<Rightarrow> pret l) (\<lambda>l.
          por (pbind (expect_many_n_var N l TkWhitespace) (\<lambda>_. pbind (g_statement G) (\<lambda>part. pret (Inr (l, part)))))
              (pret (Inl body)))))
         (\<lambda>(l, part). pret (Some l, body @ [part])))"
    unfolding s prod.case by (rule step)
qed (simp add: ok_fuel [OF ok])

lemma good_elif_block:
  assumes nom: "nom_spec N" and ok: "grammar_ok (Suc m) G" shows "returns m (elif_block N G)"
  unfolding elif_block_def
  by (intro good_ploop good_pif_first [OF good_first [OF good_first_terminated]] good_intros nom)
    (simp_all add: ok_less [OF ok] ok_fuel [OF ok])

lemma good_if_head:
  assumes nom: "nom_spec N" and ok: "grammar_ok m G" shows "good C m (if_head N G)"
  unfolding if_head_def by (intro good_tuple5 nom_specD(18) [OF nom] good_intros assms)

lemma good_elif_branches:
  assumes nom: "nom_spec N" and ok: "grammar_ok m G" shows "returns m (elif_branches N G branches)"
  unfolding elif_branches_def
proof (rule good_ploop)
  fix s :: "nat option \<times> if_branch spanned list" and m' assume m': "m' \<le> m"
  obtain level bs where s: "s = (level, bs)" by (cases s)
  have step: "returns (m' - 1) (pbind (if_head N G) (\<lambda>(_, test, _).
          pbind (elif_block N G) (\<lambda>body.
          pret (Some l, bs @ [Spanned (sp_span etok) (IfBranch test body)]))))" if "0 < m'" for l etok
    using that m'
    by (intro good_first [OF good_if_head])
      (auto simp: ok_less [OF ok] split: prod.split intro!: good_later [OF good_elif_block] good_intros nom)
  show "good isl m' (case s of (level, branches) \<Rightarrow> piter
         (pbind (expect_many_n N 0 TkNewline) (\<lambda>_.
          pbind (indent_level N level) (\<lambda>l.
          por (pbind (expect_many_n_var N l TkWhitespace) (\<lambda>_. pbind (expect TkElif) (\<lambda>etok. pret (Inr (l, etok)))))
              (pret (Inl (Some l, branches))))))
         (\<lambda>(l, etok).
          pbind (if_head N G) (\<lambda>(_, test, _).
          pbind (elif_block N G) (\<lambda>body.
          pret (Some l, branches @ [Spanned (sp_span etok) (IfBranch test body)])))))"
    unfolding s prod.case
    by (intro good_piter_early good_later [OF good_indent_level] good_intros nom)
      (auto intro!: step [unfolded One_nat_def] split: prod.split)
qed (simp add: ok_fuel [OF ok])

lemma good_else_branch:
  assumes nom: "nom_spec N" and ok: "grammar_ok m G" shows "returns m (else_branch N G level)"
proof -
  have block: "returns k (pbind (nom_tuple_else N (whitespace N) (expect TkColon) (whitespace N)) (\<lambda>_.
      if_block N G punwrap))" if "k < m" for k
  proof -
    have "nom_tuple_else N (whitespace N) (expect TkColon) (whitespace N) =
        pbind (whitespace N) (\<lambda>x. pbind (expect TkColon) (\<lambda>y. pbind (whitespace N) (\<lambda>z. pret (x, y, z))))"
      using nom_specD(17) [OF nom] by (simp add: tuple3_spec_def)
    then have "consumes k (nom_tuple_else N (whitespace N) (expect TkColon) (whitespace N))"
      by (simp only:, intro good_intros nom)
    then show ?thesis
      by (rule good_first) (rule good_if_block [OF nom _ good_punwrap], use that in \<open>simp_all add: ok_less [OF ok]\<close>)
  qed
  have "good isl m (piter
       (pbind (unwrap_or (expect_many_n N 0 TkNewline) []) (\<lambda>_.
        pbind (indent_level N level) (\<lambda>l.
        pbind (unwrap_or (expect_many_n_var N l TkWhitespace) []) (\<lambda>_.
        pif (expect TkElse) (\<lambda>_. pret (Inr ())) (pret (Inl (None :: statement spanned list option)))))))
       (\<lambda>_. pbind (nom_tuple_else N (whitespace N) (expect TkColon) (whitespace N)) (\<lambda>_. if_block N G punwrap)))"
    by (intro good_piter_early good_later [OF good_indent_level] good_intros nom) (rule block, simp)
  then show ?thesis
    unfolding else_branch_def by (intro good_later [OF good_returns] good_intros)
qed

lemma good_if_stmt [good_intros]:
  assumes nom: "nom_spec N" and ok: "grammar_ok m G" shows "good C m (if_stmt N G)"
proof -
  have chain: "returns k (pif (g_statement G) (\<lambda>stmt.
         pret (IfChain [Spanned (sp_span token) (IfBranch test [stmt])] None))
       (pbind (if_block N G (\<lambda>p. p)) (\<lambda>body.
        pbind (elif_branches N G [Spanned (sp_span token) (IfBranch test body)]) (\<lambda>(level, branches).
        pbind (else_branch N G level) (\<lambda>orelse.
        pret (IfChain branches orelse))))))" if "k < m" for k test and token :: "py_token spanned"
    by (intro good_pif_first [OF good_callback(12)] good_later [OF good_if_block] good_later [OF good_elif_branches]
        good_intros nom)
      (use that in \<open>auto simp: ok_less [OF ok] split: prod.split intro!: good_later [OF good_else_branch] good_intros nom\<close>)
  show ?thesis unfolding if_stmt_def
    by (intro good_first [OF good_expect] good_first [OF good_if_head] nom)
      (auto simp: ok_less [OF ok] split: prod.split intro!: good_later [OF chain] good_intros)
qed

lemma good_dyn_ifstmt [good_intros]:
  assumes "nom_spec N" and "grammar_ok m G" shows "good C m (dyn_ifstmt N G)"
  unfolding dyn_ifstmt_def by (intro good_first [OF good_if_stmt] good_intros assms)

lemma good_compound_stmt [good_intros]:
  assumes "nom_spec N" and "grammar_ok m G" shows "good C m (compound_stmt N G)"
  unfolding compound_stmt_def by (rule good_alt_stmt [OF assms(1)]) (simp add: good_intros assms)

lemma good_statement_unstripped [good_intros]:
  assumes "nom_spec N" and "grammar_ok m G" shows "good C m (statement_unstripped N G)"
  unfolding statement_unstripped_def by (rule good_alt_stmt [OF assms(1)]) (simp add: good_intros assms)

lemma good_statement [good_intros]:
  assumes "nom_spec N" and "grammar_ok m G" shows "good C m (statement_p N G)"
  unfolding statement_p_def
  by (intro good_skip good_alt_stmt [OF assms(1)] assms(1)) (simp add: good_intros assms)

lemma good_module:
  assumes nom: "nom_spec N" and ok: "grammar_ok m G" shows "returns m (module_p N G)"
proof -
  have loop: "returns m (ploop (g_fuel G) (\<lambda>body.
         pif (statement_p N G) (\<lambda>stmt.
           pbind (expect_many_n N 0 TkNewline) (\<lambda>_.
           pret (Inl (body @ [stmt]))))
         (pret (Inr body))) body)" for body
    by (intro good_ploop good_pif_first [OF good_statement] good_intros nom)
      (simp_all add: ok_less [OF ok] ok_fuel [OF ok])
  show ?thesis unfolding module_p_def
    by (intro good_later [OF good_chomp [OF ok]] good_later [OF loop] good_intros)
qed

section \<open>The parser returns\<close>

lemma crate_grammar_ok: "nom_spec N \<Longrightarrow> grammar_ok n (crate_grammar N n)"
proof (induction n)
  case 0
  then show ?case by (simp add: grammar_ok_def)
next
  case (Suc n)
  have ok: "grammar_ok m' (crate_grammar N n)" if "m' < Suc n" for m'
    using ok_less [OF Suc.IH [OF Suc.prems]] that by simp
  show ?case
    unfolding grammar_ok_def crate_grammar.simps Let_def
    by (simp add: good_intros ok Suc.prems)
qed

lemma parse_returns:
  assumes "returns (length tokens) p" shows "parse tokens p \<noteq> None"
proof -
  have "ts_at 0 \<lparr>ts_tokens = tokens, ts_pulled = 0, ts_complete = False\<rparr>" by (simp add: ts_at_def)
  with assms show ?thesis
    by (cases rule: goodE) (auto simp: parse_def)
qed

text \<open>
  C10. The parser returns. On every list of tokens, with fuel for the number of tokens, the parser of
  modules gives a module or panics: no combination of its loops, its alternatives and its mutual
  recursion runs forever. It rests on the documented behaviour of \<open>nom\<close>, and on the fact, proved for
  each parser, that what calls back into the grammar has consumed a token.
\<close>

theorem parse_module_total:
  assumes "nom_spec N" and "length tokens \<le> fuel" shows "parse_module N fuel tokens \<noteq> None"
  unfolding parse_module_def
  by (rule parse_returns, rule good_module [OF assms(1)], rule ok_less [OF crate_grammar_ok [OF assms(1)] assms(2)])

theorem parse_module_total_witness:
  "parse_module nom_ref 3 [Inr (TkIdent (SpanRef 0 0), (0, 1)), Inr (TkEqual, (1, 2)), Inr (TkDigits 7, (2, 3))] \<noteq> None"
  by (rule parse_module_total [OF nom_ref_spec]) simp

end
