(* ===== verification/ParseRun.thy ===== *)
theory ParseRun
  imports ParseStmt
begin

text \<open>
  Runs of parsers on given tokens: what a parser gives on a stream whose next tokens are known. The
  rules follow the combinators; white space, single tokens and alternatives have rules of their own.
\<close>

section \<open>Success and failure\<close>

type_synonym tokens = "(py_token \<times> span) list"

definition upcoming :: "nat \<Rightarrow> tokens \<Rightarrow> token_stream \<Rightarrow> bool" where
  "upcoming pos ts st \<longleftrightarrow> ts_at pos st \<and> drop pos (ts_tokens st) = map Inr ts"

definition later :: "token_stream \<Rightarrow> token_stream \<Rightarrow> bool" where
  "later st st' \<longleftrightarrow> ts_tokens st' = ts_tokens st \<and> ts_pulled st \<le> ts_pulled st'
     \<and> ts_pulled st' \<le> length (ts_tokens st)"

definition parses :: "'a parser \<Rightarrow> tokens \<Rightarrow> 'a \<Rightarrow> tokens \<Rightarrow> bool" where
  "parses p ts v rest \<longleftrightarrow> (\<forall>pos st. upcoming pos ts st \<longrightarrow>
     (\<exists>pos' st'. p pos st = Some (Inr (Inr (pos', v), st')) \<and> later st st' \<and> upcoming pos' rest st'))"

definition fails :: "'a parser \<Rightarrow> tokens \<Rightarrow> bool" where
  "fails p ts \<longleftrightarrow> (\<forall>pos st. upcoming pos ts st \<longrightarrow> (\<exists>k st'. p pos st = Some (Inr (Inl k, st')) \<and> later st st'))"

lemma later_trans: "later st st' \<Longrightarrow> later st' st'' \<Longrightarrow> later st st''"
  by (simp add: later_def)

lemma later_upcoming: "upcoming pos ts st \<Longrightarrow> later st st' \<Longrightarrow> upcoming pos ts st'"
  by (auto simp: upcoming_def later_def ts_at_def)

lemma parsesD:
  assumes "parses p ts v rest" and "upcoming pos ts st"
  obtains pos' st' where "p pos st = Some (Inr (Inr (pos', v), st'))" "later st st'" "upcoming pos' rest st'"
  using assms unfolding parses_def by blast

lemma failsD:
  assumes "fails p ts" and "upcoming pos ts st"
  obtains k st' where "p pos st = Some (Inr (Inl k, st'))" "later st st'"
  using assms unfolding fails_def by blast

lemma later_refl: "upcoming pos ts st \<Longrightarrow> later st st"
  by (simp add: upcoming_def later_def ts_at_def)

lemma parses_pret: "parses (pret x) ts x ts"
  by (auto simp: parses_def pret_def intro: later_refl)

lemma parses_prust: "r = Inr x \<Longrightarrow> parses (prust r) ts x ts"
  by (auto simp: parses_def prust_def intro: later_refl)

lemma fails_pfail: "fails (pfail k) ts"
  by (auto simp: fails_def pfail_def intro: later_refl)

lemma parses_bind:
  assumes "parses p ts v mid" and "parses (f v) mid w rest"
  shows "parses (pbind p f) ts w rest"
  unfolding parses_def
proof (intro allI impI)
  fix pos st assume "upcoming pos ts st"
  from assms(1) this obtain pos1 st1 where 1: "p pos st = Some (Inr (Inr (pos1, v), st1))" "later st st1" "upcoming pos1 mid st1"
    by (rule parsesD)
  from assms(2) 1(3) obtain pos2 st2 where "f v pos1 st1 = Some (Inr (Inr (pos2, w), st2))" "later st1 st2" "upcoming pos2 rest st2"
    by (rule parsesD)
  then show "\<exists>pos' st'. pbind p f pos st = Some (Inr (Inr (pos', w), st')) \<and> later st st' \<and> upcoming pos' rest st'"
    using 1 later_trans by (auto simp: pbind_def)
qed

lemma fails_bind_first: "fails p ts \<Longrightarrow> fails (pbind p f) ts"
  by (fastforce simp: fails_def pbind_def)

lemma fails_bind_later:
  assumes "parses p ts v mid" and "fails (f v) mid"
  shows "fails (pbind p f) ts"
  unfolding fails_def
proof (intro allI impI)
  fix pos st assume "upcoming pos ts st"
  from assms(1) this obtain pos1 st1 where 1: "p pos st = Some (Inr (Inr (pos1, v), st1))" "later st st1" "upcoming pos1 mid st1"
    by (rule parsesD)
  from assms(2) 1(3) obtain k st2 where "f v pos1 st1 = Some (Inr (Inl k, st2))" "later st1 st2" by (rule failsD)
  then show "\<exists>k st'. pbind p f pos st = Some (Inr (Inl k, st')) \<and> later st st'"
    using 1 later_trans by (auto simp: pbind_def)
qed

lemma parses_por_first: "parses p ts v rest \<Longrightarrow> parses (por p q) ts v rest"
  by (fastforce simp: parses_def por_def)

lemma por_second:
  assumes "fails p ts" and "upcoming pos ts st"
  obtains st' where "por p q pos st = q pos st'" "later st st'" "upcoming pos ts st'"
proof -
  from assms obtain k st' where "p pos st = Some (Inr (Inl k, st'))" "later st st'" by (rule failsD)
  then show thesis using that later_upcoming [OF assms(2)] by (auto simp: por_def)
qed

lemma parses_por_second:
  assumes "fails p ts" and "parses q ts v rest" shows "parses (por p q) ts v rest"
  unfolding parses_def
proof (intro allI impI)
  fix pos st assume "upcoming pos ts st"
  with assms(1) obtain st1 where 1: "por p q pos st = q pos st1" "later st st1" "upcoming pos ts st1" by (rule por_second)
  from assms(2) 1(3) obtain pos' st' where "q pos st1 = Some (Inr (Inr (pos', v), st'))" "later st1 st'" "upcoming pos' rest st'"
    by (rule parsesD)
  then show "\<exists>pos' st'. por p q pos st = Some (Inr (Inr (pos', v), st')) \<and> later st st' \<and> upcoming pos' rest st'"
    using 1 later_trans by auto
qed

lemma fails_por:
  assumes "fails p ts" and "fails q ts" shows "fails (por p q) ts"
  unfolding fails_def
proof (intro allI impI)
  fix pos st assume "upcoming pos ts st"
  with assms(1) obtain st1 where 1: "por p q pos st = q pos st1" "later st st1" "upcoming pos ts st1" by (rule por_second)
  from assms(2) 1(3) obtain k st' where "q pos st1 = Some (Inr (Inl k, st'))" "later st1 st'" by (rule failsD)
  then show "\<exists>k st'. por p q pos st = Some (Inr (Inl k, st')) \<and> later st st'" using 1 later_trans by auto
qed

lemma pif_por: "fails p ts \<Longrightarrow> upcoming pos ts st \<Longrightarrow> pif p f q pos st = por (pbind p f) q pos st"
  by (erule failsD) (auto simp: pif_def por_def pbind_def)

lemma pif_bind: "parses p ts v mid \<Longrightarrow> upcoming pos ts st \<Longrightarrow> pif p f q pos st = pbind p f pos st"
  by (erule parsesD) (auto simp: pif_def pbind_def)

lemma parses_pif: "parses p ts v mid \<Longrightarrow> parses (f v) mid w rest \<Longrightarrow> parses (pif p f q) ts w rest"
  using parses_bind [of p ts v mid f w rest] by (simp add: parses_def pif_bind [unfolded parses_def])

lemma fails_pif: "parses p ts v mid \<Longrightarrow> fails (f v) mid \<Longrightarrow> fails (pif p f q) ts"
  using fails_bind_later [of p ts v mid f] by (simp add: fails_def pif_bind)

lemma parses_pif_else: "fails p ts \<Longrightarrow> parses q ts v rest \<Longrightarrow> parses (pif p f q) ts v rest"
  using parses_por_second [OF fails_bind_first, of p ts q v rest f] by (simp add: parses_def pif_por)

lemma fails_pif_else: "fails p ts \<Longrightarrow> fails q ts \<Longrightarrow> fails (pif p f q) ts"
  using fails_por [OF fails_bind_first, of p ts q f] by (simp add: fails_def pif_por)

section \<open>Tokens\<close>

definition upcoming_token :: "tokens \<Rightarrow> py_token option" where
  "upcoming_token ts = (case ts of [] \<Rightarrow> None | t # _ \<Rightarrow> Some (fst t))"

lemma upcoming_token_simps [simp]: "upcoming_token [] = None" "upcoming_token (t # ts) = Some (fst t)"
  by (simp_all add: upcoming_token_def)

text \<open>What \<open>expect_with\<close> sees: the token at its position, pulled when it was not before.\<close>

lemma expect_with_Cons:
  assumes "upcoming pos ((t, sp) # ts) st"
  obtains st' where "later st st'" "upcoming (Suc pos) ts st'"
    "expect_with f pos st = Some (Inr (if f t sp then Inr (Suc pos, Spanned sp t) else Inl ErrIsNot, st'))"
proof -
  have d: "drop pos (ts_tokens st) = Inr (t, sp) # map Inr ts" and le: "pos \<le> ts_pulled st" "ts_pulled st \<le> length (ts_tokens st)"
    using assms by (simp_all add: upcoming_def ts_at_def)
  have lt: "pos < length (ts_tokens st)" using d by (metis drop_eq_Nil list.distinct(1) not_le)
  have nth: "ts_tokens st ! pos = Inr (t, sp)" and d': "drop (Suc pos) (ts_tokens st) = map Inr ts"
    using d Cons_nth_drop_Suc [OF lt] by simp_all
  show thesis
  proof (cases "ts_pulled st = pos")
    case True
    then show thesis
      by (intro that [of "st\<lparr>ts_pulled := Suc pos\<rparr>"])
        (use lt nth d' in \<open>simp_all add: later_def upcoming_def ts_at_def expect_with_def ts_grow_def get_at_def\<close>)
  next
    case False
    then show thesis
      by (intro that [of st]) (use lt nth d' le in \<open>simp_all add: later_def upcoming_def ts_at_def expect_with_def get_at_def\<close>)
  qed
qed

lemma expect_with_Nil:
  assumes "upcoming pos [] st"
  shows "expect_with f pos st = Some (Inr (Inl ErrEof, st\<lparr>ts_complete := True\<rparr>))"
proof -
  have "pos = length (ts_tokens st)" "ts_pulled st = pos"
    using assms by (simp_all add: upcoming_def ts_at_def)
  then show ?thesis by (simp add: expect_with_def ts_grow_def get_at_def)
qed

lemma parses_expect_with: "f t sp \<Longrightarrow> parses (expect_with f) ((t, sp) # ts) (Spanned sp t) ts"
  unfolding parses_def
proof (intro allI impI)
  fix pos st assume f: "f t sp" and up: "upcoming pos ((t, sp) # ts) st"
  from up show "\<exists>pos' st'. expect_with f pos st = Some (Inr (Inr (pos', Spanned sp t), st')) \<and> later st st' \<and> upcoming pos' ts st'"
    by (rule expect_with_Cons [where f = f]) (use f in auto)
qed

lemma fails_expect_with: "(\<And>t sp ts'. ts = (t, sp) # ts' \<Longrightarrow> \<not> f t sp) \<Longrightarrow> fails (expect_with f) ts"
  unfolding fails_def
proof (intro allI impI)
  fix pos st assume f: "\<And>t sp ts'. ts = (t, sp) # ts' \<Longrightarrow> \<not> f t sp" and up: "upcoming pos ts st"
  show "\<exists>k st'. expect_with f pos st = Some (Inr (Inl k, st')) \<and> later st st'"
  proof (cases ts)
    case Nil
    then show ?thesis using expect_with_Nil up by (fastforce simp: later_def upcoming_def ts_at_def)
  next
    case (Cons a ts')
    obtain t sp where a: "a = (t, sp)" by (cases a)
    have "\<not> f t sp" using f Cons a by simp
    moreover from up [unfolded Cons a] obtain st' where "later st st'"
      "expect_with f pos st = Some (Inr (if f t sp then Inr (Suc pos, Spanned sp t) else Inl ErrIsNot, st'))"
      by (rule expect_with_Cons)
    ultimately show ?thesis by auto
  qed
qed

lemma parses_expect: "parses (expect v) ((v, sp) # ts) (Spanned sp v) ts"
  unfolding expect_def by (rule parses_expect_with) simp

lemma fails_expect: "upcoming_token ts \<noteq> Some v \<Longrightarrow> fails (expect v) ts"
  unfolding expect_def by (rule fails_expect_with) auto

lemma parses_any_token:
  "t \<in> set vs \<Longrightarrow> parses (expect_any_token vs) ((t, sp) # ts) (Spanned sp t) ts"
proof (induction vs)
  case (Cons v vs)
  show ?case
  proof (cases "v = t")
    case True
    then show ?thesis by (simp add: parses_por_first parses_expect)
  next
    case False
    then have "fails (expect v) ((t, sp) # ts)" by (intro fails_expect) simp
    then show ?thesis using Cons False by (simp add: parses_por_second)
  qed
qed simp

lemma fails_any_token: "upcoming_token ts \<notin> Some ` set vs \<Longrightarrow> fails (expect_any_token vs) ts"
  by (induction vs) (auto intro: fails_pfail fails_por fails_expect)

lemma parses_any_of:
  "t \<in> set vs \<Longrightarrow> parses (expect_any_of vs) ((t, sp) # ts) (Spanned sp t) ts"
proof (induction vs)
  case (Cons v vs)
  show ?case
  proof (cases "v = t")
    case True
    then show ?thesis by (simp add: parses_por_first parses_expect)
  next
    case False
    then have "fails (expect v) ((t, sp) # ts)" by (intro fails_expect) simp
    then show ?thesis using Cons False by (simp add: parses_por_second)
  qed
qed simp

lemma fails_any_of: "upcoming_token ts \<notin> Some ` set vs \<Longrightarrow> fails (expect_any_of vs) ts"
  by (induction vs) (auto intro: fails_pfail fails_por fails_expect)

section \<open>Repetition, white space, alternatives\<close>

definition skip_all :: "py_token \<Rightarrow> tokens \<Rightarrow> tokens" where
  "skip_all v ts = dropWhile (\<lambda>t. fst t = v) ts"

abbreviation "strip \<equiv> skip_all TkWhitespace"

lemma skip_all_simps [simp]:
  "skip_all v [] = []" "skip_all v ((t, sp) # ts) = (if t = v then skip_all v ts else (t, sp) # ts)"
  "skip_all v (skip_all v ts) = skip_all v ts"
  by (induction ts) (simp_all add: skip_all_def)

lemma skip_all_first: "upcoming_token (skip_all v ts) \<noteq> Some v"
  by (induction ts) (auto simp: skip_all_def)

lemma many0_unfold:
  assumes "nom_spec N" and "upcoming pos ts st"
  shows "nom_many0 N (expect v) pos st = repeat_step (expect v) (nom_many0 N (expect v)) pos st"
  using nom_specD(1) [OF assms(1)] assms(2) good_expect [of "\<lambda>_. True"]
  unfolding many0_spec_def upcoming_def by blast

lemma parses_many0:
  assumes nom: "nom_spec N"
  shows "parses (nom_many0 N (expect v)) ts (map (\<lambda>(t, sp). Spanned sp t) (takeWhile (\<lambda>t. fst t = v) ts)) (skip_all v ts)"
proof (induction ts)
  case Nil
  have "parses (repeat_step (expect v) (nom_many0 N (expect v))) [] [] []"
    unfolding repeat_step_def by (intro parses_por_second fails_bind_first fails_expect parses_pret) simp
  then show ?case using many0_unfold [OF nom] by (simp add: parses_def)
next
  case (Cons a ts)
  obtain t sp where a: "a = (t, sp)" by (cases a)
  have "parses (repeat_step (expect v) (nom_many0 N (expect v))) ((t, sp) # ts)
      (map (\<lambda>(t, sp). Spanned sp t) (takeWhile (\<lambda>t. fst t = v) ((t, sp) # ts))) (skip_all v ((t, sp) # ts))"
  proof (cases "t = v")
    case True
    then show ?thesis unfolding repeat_step_def
      by (simp, intro parses_por_first parses_bind [OF parses_expect] parses_bind [OF Cons.IH] parses_pret)
  next
    case False
    then show ?thesis unfolding repeat_step_def
      by (simp, intro parses_por_second fails_bind_first fails_expect parses_pret) simp
  qed
  then show ?case using many0_unfold [OF nom] unfolding a by (simp add: parses_def)
qed

lemma parses_skip:
  assumes "nom_spec N" and "\<And>xs. parses (f xs) (skip_all v ts) w rest"
  shows "parses (pbind (expect_many_n N 0 v) f) ts w rest"
  unfolding expect_many_n_def by (simp, rule parses_bind [OF parses_many0 [OF assms(1)] assms(2)])

lemma fails_skip:
  assumes "nom_spec N" and "\<And>xs. fails (f xs) (skip_all v ts)"
  shows "fails (pbind (expect_many_n N 0 v) f) ts"
  unfolding expect_many_n_def by (simp, rule fails_bind_later [OF parses_many0 [OF assms(1)] assms(2)])

lemma parses_whitespace: "nom_spec N \<Longrightarrow> parses (whitespace N) ts () (strip ts)"
  unfolding whitespace_def by (rule parses_skip) (auto intro: parses_pret)

lemma parses_ws: "nom_spec N \<Longrightarrow> parses (f ()) (strip ts) w rest \<Longrightarrow> parses (pbind (whitespace N) f) ts w rest"
  by (rule parses_bind [OF parses_whitespace])

lemma fails_ws: "nom_spec N \<Longrightarrow> fails (f ()) (strip ts) \<Longrightarrow> fails (pbind (whitespace N) f) ts"
  by (rule fails_bind_later [OF parses_whitespace])

lemma parses_token: "parses (f (Spanned sp t)) ts w rest \<Longrightarrow> parses (pbind (expect t) f) ((t, sp) # ts) w rest"
  by (rule parses_bind [OF parses_expect])

lemma fails_token: "fails (f (Spanned sp t)) ts \<Longrightarrow> fails (pbind (expect t) f) ((t, sp) # ts)"
  by (rule fails_bind_later [OF parses_expect])

lemma fails_no_token: "upcoming_token ts \<noteq> Some t \<Longrightarrow> fails (pbind (expect t) f) ts"
  by (rule fails_bind_first [OF fails_expect])

lemma parses_alt_first: "alt_spec alt \<Longrightarrow> parses p ts v rest \<Longrightarrow> parses (alt (p # ps)) ts v rest"
  by (simp add: alt_spec_def parses_por_first)

lemma parses_alt_next: "alt_spec alt \<Longrightarrow> fails p ts \<Longrightarrow> parses (alt ps) ts v rest \<Longrightarrow> parses (alt (p # ps)) ts v rest"
  by (simp add: alt_spec_def parses_por_second)

lemma fails_alt: "alt_spec alt \<Longrightarrow> list_all (\<lambda>p. fails p ts) ps \<Longrightarrow> fails (alt ps) ts"
proof -
  have "list_all (\<lambda>p. fails p ts) ps \<Longrightarrow> fails (foldr por ps (pfail ErrNom)) ts"
    by (induction ps) (simp_all add: fails_pfail fails_por)
  then show "alt_spec alt \<Longrightarrow> list_all (\<lambda>p. fails p ts) ps \<Longrightarrow> fails (alt ps) ts" by (simp add: alt_spec_def)
qed

lemma parses_terminated:
  assumes "terminated_spec t" and "parses p ts v mid" and "parses q mid w rest"
  shows "parses (t p q) ts v rest"
proof -
  have "t p q = pbind p (\<lambda>x. pbind q (\<lambda>_. pret x))" using assms(1) by (simp add: terminated_spec_def)
  then show ?thesis by (simp only:) (rule parses_bind [OF assms(2) parses_bind [OF assms(3) parses_pret]])
qed

lemma fails_terminated: "terminated_spec t \<Longrightarrow> fails p ts \<Longrightarrow> fails (t p q) ts"
  unfolding terminated_spec_def by (simp add: fails_bind_first)

text \<open>Loops.\<close>

lemma parses_ploop_next:
  assumes "parses (f s) ts (Inl s') mid" and "parses (ploop n f s') mid v rest"
  shows "parses (ploop (Suc n) f s) ts v rest"
proof -
  have "parses (pbind (f s) (case_sum (ploop n f) pret)) ts v rest"
    by (rule parses_bind [OF assms(1)]) (simp add: assms(2))
  then show ?thesis by (simp add: parses_def)
qed

lemma parses_ploop_end:
  assumes "parses (f s) ts (Inr v) rest" shows "parses (ploop (Suc n) f s) ts v rest"
proof -
  have "parses (pbind (f s) (case_sum (ploop n f) pret)) ts v rest"
    by (rule parses_bind [OF assms(1)]) (simp add: parses_pret)
  then show ?thesis by (simp add: parses_def)
qed

lemma parses_pwhile_next:
  assumes "parses (p s) ts s' mid" and "parses (pwhile n p s') mid v rest"
  shows "parses (pwhile (Suc n) p s) ts v rest"
  unfolding pwhile_def
  by (rule parses_ploop_next, rule parses_pif [OF assms(1) parses_pret]) (rule assms(2) [unfolded pwhile_def])

lemma parses_pwhile_end:
  assumes "fails (p s) ts" shows "parses (pwhile (Suc n) p s) ts s ts"
  unfolding pwhile_def by (rule parses_ploop_end, rule parses_pif_else [OF assms parses_pret])

end
