(* ===== verification/ParsePrint.thy ===== *)
theory ParsePrint
  imports ParseRun
begin

text \<open>
  Printing and parsing. \<open>print_expr\<close> writes an expression as tokens; \<open>printable\<close> are the expressions of
  the levels of the grammar, with the precedence and the associativity that the parsers give them and
  with the spans they compute. The expression parser reads what is printed back as it was, and
  \<open>parse\<close> does so for modules of assignments.
\<close>

section \<open>Printing\<close>

text \<open>
  A layout gives the tokens that carry no position into the tree, such as white space, their spans. It is
  a function of the path to the token; \<open>sub k L\<close> is the layout of the \<open>k\<close>-th part.
\<close>

type_synonym layout = "nat list \<Rightarrow> span"

abbreviation sub :: "nat \<Rightarrow> layout \<Rightarrow> layout" where
  "sub k L \<equiv> (\<lambda>p. L (k # p))"

primrec lay :: "layout \<Rightarrow> nat \<Rightarrow> py_token list \<Rightarrow> tokens" where
  "lay L i [] = []"
| "lay L i (t # ts) = (t, L [i]) # lay L (Suc i) ts"

fun infix_tokens :: "infix_op \<Rightarrow> py_token list" where
  "infix_tokens Add = [TkPlus]"
| "infix_tokens Sub = [TkMinus]"
| "infix_tokens Mult = [TkStar]"
| "infix_tokens Div = [TkDiv]"
| "infix_tokens FloorDiv = [TkDiv, TkDiv]"
| "infix_tokens Mod = [TkModulo]"
| "infix_tokens MatMult = [TkAt]"
| "infix_tokens And = [TkAnd]"
| "infix_tokens Xor = [TkCaret]"
| "infix_tokens Or = [TkPipe]"
| "infix_tokens Eq = [TkEqual, TkEqual]"
| "infix_tokens NotEq = [TkBang, TkEqual]"
| "infix_tokens _ = []"

fun unary_token :: "unary_op \<Rightarrow> py_token" where
  "unary_token UAdd = TkPlus"
| "unary_token USub = TkMinus"
| "unary_token Invert = TkTilde"
| "unary_token UNot = TkNot"

fun atom_token :: "atom \<Rightarrow> py_token option" where
  "atom_token (AtName n) = Some (TkIdent n)"
| "atom_token (AtInt n) = Some (TkDigits n)"
| "atom_token (AtStr n) = Some (TkStringRef n)"
| "atom_token (AtBool b) = Some (if b then TkTrue else TkFalse)"
| "atom_token AtNone = Some TkNone"
| "atom_token AtEllipsis = Some TkEllipsis"
| "atom_token _ = None"

text \<open>White space is printed around binary operators and keywords.\<close>

definition spaced :: "layout \<Rightarrow> py_token list \<Rightarrow> tokens" where
  "spaced L ts = lay L 0 (TkWhitespace # ts @ [TkWhitespace])"

function (sequential) print_expr :: "layout \<Rightarrow> expr spanned \<Rightarrow> tokens" where
  "print_expr L (Spanned sp (BinOp l op r)) = print_expr (sub 0 L) l @ spaced L (infix_tokens op) @ print_expr (sub (Suc 0) L) r"
| "print_expr L (Spanned sp (Unary op v)) =
     (unary_token op, sp) # (if op = UNot then [(TkWhitespace, L [0])] else []) @ print_expr (sub 0 L) v"
| "print_expr L (Spanned sp (ExprIf t b e)) =
     print_expr (sub 0 L) b @ spaced (sub 3 L) [TkIf] @ print_expr (sub (Suc 0) L) t @ spaced (sub 4 L) [TkElse] @ print_expr (sub 2 L) e"
| "print_expr L (Spanned sp (ExprPrimary (Spanned _ (Atomic a)))) =
     (case atom_token (sp_inner a) of Some t \<Rightarrow> [(t, sp_span a)] | None \<Rightarrow> [])"
| "print_expr L _ = []"
  by pat_completeness auto

termination print_expr
  by (relation "measure (size_spanned size \<circ> snd)") auto

text \<open>The level of the grammar that builds an expression: 0 is \<open>factor\<close>, 10 is \<open>expression\<close>.\<close>

fun infix_level :: "infix_op \<Rightarrow> nat" where
  "infix_level Mult = 1" | "infix_level Div = 1" | "infix_level FloorDiv = 1" | "infix_level Mod = 1" | "infix_level MatMult = 1"
| "infix_level Add = 2" | "infix_level Sub = 2"
| "infix_level And = 4" | "infix_level Xor = 5" | "infix_level Or = 6" | "infix_level Eq = 7" | "infix_level NotEq = 7"
| "infix_level _ = 11"

fun expr_level :: "expr \<Rightarrow> nat" where
  "expr_level (BinOp _ op _) = infix_level op"
| "expr_level (Unary op _) = (if op = UNot then 8 else 0)"
| "expr_level (ExprIf _ _ _) = 10"
| "expr_level (ExprPrimary _) = 0"
| "expr_level (Named _ _) = 11"

text \<open>
  Sums associate to the left; \<open>&\<close>, \<open>^\<close>, \<open>|\<close> and comparisons to the right; a product has two factors.
\<close>

definition operand_levels :: "nat \<Rightarrow> nat \<times> nat" where
  "operand_levels k = (if k = 1 then (0, 0) else if k = 2 then (2, 1) else if k = 4 then (3, 4) else (k - 1, k))"

function (sequential) printable :: "expr spanned \<Rightarrow> bool" where
  "printable (Spanned sp (BinOp l op r)) \<longleftrightarrow>
     printable l \<and> printable r \<and> sp = (fst (sp_span l), snd (sp_span r)) \<and> infix_level op < 11
     \<and> expr_level (sp_inner l) \<le> fst (operand_levels (infix_level op))
     \<and> expr_level (sp_inner r) \<le> snd (operand_levels (infix_level op))"
| "printable (Spanned sp (Unary op v)) \<longleftrightarrow>
     printable v \<and> snd sp = snd (sp_span v) \<and> expr_level (sp_inner v) \<le> (if op = UNot then 8 else 0)"
| "printable (Spanned sp (ExprIf t b e)) \<longleftrightarrow>
     printable t \<and> printable b \<and> printable e \<and> sp = (fst (sp_span b), snd (sp_span e))
     \<and> expr_level (sp_inner t) \<le> 9 \<and> expr_level (sp_inner b) \<le> 9"
| "printable (Spanned sp (ExprPrimary (Spanned sp' (Atomic a)))) \<longleftrightarrow>
     sp = sp' \<and> sp' = sp_span a \<and> atom_token (sp_inner a) \<noteq> None"
| "printable _ \<longleftrightarrow> False"
  by pat_completeness auto

termination printable
  by (relation "measure (size_spanned size)") auto

section \<open>What may follow\<close>

text \<open>The level that looks for a token after an operand.\<close>

definition token_level :: "py_token \<Rightarrow> nat" where
  "token_level t =
     (case t of
        TkDot \<Rightarrow> 0 | TkLParen \<Rightarrow> 0 | TkLBracket \<Rightarrow> 0 | TkStar \<Rightarrow> 1 | TkDiv \<Rightarrow> 1 | TkModulo \<Rightarrow> 1
      | TkAt \<Rightarrow> 1 | TkPlus \<Rightarrow> 2 | TkMinus \<Rightarrow> 2 | TkLessThan \<Rightarrow> 3 | TkGreaterThan \<Rightarrow> 3 | TkAnd \<Rightarrow> 4
      | TkCaret \<Rightarrow> 5 | TkPipe \<Rightarrow> 6 | TkEqual \<Rightarrow> 7 | TkBang \<Rightarrow> 7 | TkOr \<Rightarrow> 9 | TkIf \<Rightarrow> 10
      | _ \<Rightarrow> 11)"

lemma token_level_simps [simp]:
  "token_level TkDot = 0" "token_level TkLParen = 0" "token_level TkLBracket = 0"
  "token_level TkStar = 1" "token_level TkDiv = 1" "token_level TkModulo = 1"
  "token_level TkAt = 1" "token_level TkPlus = 2" "token_level TkMinus = 2"
  "token_level TkLessThan = 3" "token_level TkGreaterThan = 3" "token_level TkAnd = 4"
  "token_level TkCaret = 5" "token_level TkPipe = 6" "token_level TkEqual = 7"
  "token_level TkBang = 7" "token_level TkOr = 9" "token_level TkIf = 10"
  "token_level TkElse = 11" "token_level TkNewline = 11" "token_level TkRParen = 11"
  by (simp_all add: token_level_def)

definition stops :: "nat \<Rightarrow> tokens \<Rightarrow> bool" where
  "stops k rest \<longleftrightarrow>
     (case strip rest of [] \<Rightarrow> True | (t, _) # rest' \<Rightarrow> k \<le> token_level t \<and> (t = TkStar \<longrightarrow> upcoming_token rest' \<noteq> Some TkStar))"

lemma stops_mono: "stops k rest \<Longrightarrow> j \<le> k \<Longrightarrow> stops j rest"
  by (auto simp: stops_def split: list.splits)

lemma stops_strip [simp]: "stops k (strip rest) = stops k rest"
  by (simp add: stops_def)

lemma stops_strip_token: "stops k rest \<Longrightarrow> token_level t < k \<Longrightarrow> upcoming_token (strip rest) \<noteq> Some t"
  by (auto simp: stops_def split: list.splits)

lemma stops_token:
  assumes "stops k rest" and "token_level t < k" and "t \<noteq> TkWhitespace"
  shows "upcoming_token rest \<noteq> Some t"
  using stops_strip_token [OF assms(1,2)] assms(3) by (cases rest) (auto split: if_splits)

lemma stops_double_star: "stops k rest \<Longrightarrow> strip rest = (TkStar, sp) # rest' \<Longrightarrow> upcoming_token rest' \<noteq> Some TkStar"
  by (simp add: stops_def)

section \<open>Operands pass through the levels above them\<close>

lemma fails_name: "(\<And>n. upcoming_token ts \<noteq> Some (TkIdent n)) \<Longrightarrow> fails name_p ts"
  unfolding name_p_def expect_ident_def
  by (intro fails_bind_first fails_expect_with) (auto split: py_token.split)

lemma fails_digits: "(\<And>n. upcoming_token ts \<noteq> Some (TkDigits n)) \<Longrightarrow> fails expect_digits ts"
  unfolding expect_digits_def by (intro fails_expect_with) (auto split: py_token.split)

lemma fails_string: "(\<And>n. upcoming_token ts \<noteq> Some (TkStringRef n)) \<Longrightarrow> fails string_ref ts"
  unfolding string_ref_def by (intro fails_bind_first fails_expect_with) (auto split: py_token.split)

lemma parses_digits: "parses expect_digits ((TkDigits n, sp) # ts) (Spanned sp (TkDigits n)) ts"
  unfolding expect_digits_def by (rule parses_expect_with) simp

lemma tuple_float_eq:
  "nom_spec N \<Longrightarrow> nom_tuple_float N p q r = pbind p (\<lambda>x. pbind q (\<lambda>y. pbind r (\<lambda>z. pret (x, y, z))))"
  using nom_specD(16) [of N] by (simp add: tuple3_spec_def)

lemma fails_float:
  assumes "nom_spec N" and "upcoming_token (drop 1 ts) \<noteq> Some TkDot" shows "fails (float_p N) ts"
  unfolding float_p_def tuple_float_eq [OF assms(1)]
proof (rule fails_bind_first)
  show "fails (pbind expect_digits (\<lambda>x. pbind (expect TkDot) (\<lambda>y. pbind expect_digits (\<lambda>z. pret (x, y, z))))) ts"
  proof (cases "\<exists>n sp ts'. ts = (TkDigits n, sp) # ts'")
    case True
    then obtain n sp ts' where ts: "ts = (TkDigits n, sp) # ts'" by blast
    show ?thesis unfolding ts
      by (rule fails_bind_later [OF parses_digits fails_no_token]) (use assms(2) ts in simp)
  next
    case False
    then show ?thesis by (intro fails_bind_first fails_digits) (cases ts, auto)
  qed
qed

lemma parses_atom:
  assumes nom: "nom_spec N" and a: "atom_token a = Some t" and rest: "upcoming_token rest \<noteq> Some TkDot"
  shows "parses (atom_p N G) ((t, sp) # rest) (Spanned sp a) rest"
proof -
  note alt = nom_specD(5) [OF nom]
  have float: "fails (float_p N) ((t, sp) # rest)" by (rule fails_float [OF nom]) (use rest in simp)
  have tuple: "t \<noteq> TkLParen \<Longrightarrow> fails (tuple_literal N G) ((t, sp) # rest)"
    unfolding tuple_literal_def by (rule fails_no_token) simp
  have fallback: "parses atom_fallback ((t, sp) # rest) (Spanned sp a) rest"
    if "t \<in> set [TkEllipsis, TkTrue, TkFalse, TkNone]" "atom_of_token t = Inr a"
    unfolding atom_fallback_def
    by (rule parses_bind [OF parses_any_of [OF that(1)]], rule parses_bind [where v = a, OF parses_prust])
      (simp_all add: that(2) parses_pret)
  have keyword: "parses (atom_p N G) ((t, sp) # rest) (Spanned sp a) rest"
    if k: "t \<in> set [TkEllipsis, TkTrue, TkFalse, TkNone]" "atom_of_token t = Inr a"
  proof -
    have "fails name_p ((t, sp) # rest)" "fails string_ref ((t, sp) # rest)" "fails integer_p ((t, sp) # rest)"
      using k(1) unfolding integer_p_def by (auto intro!: fails_name fails_string fails_bind_first fails_digits)
    moreover have "fails (tuple_literal N G) ((t, sp) # rest)" using k(1) by (intro tuple) auto
    ultimately show ?thesis unfolding atom_p_def
      by (rule parses_alt_next [OF alt _ parses_alt_next [OF alt float parses_alt_next [OF alt _ parses_alt_next [OF alt _
            parses_alt_next [OF alt _ parses_alt_first [OF alt fallback [OF k]]]]]]])
  qed
  show ?thesis
  proof (cases a)
    case (AtName n)
    then have t: "t = TkIdent n" using a by simp
    have "parses name_p ((t, sp) # rest) (Spanned sp a) rest"
      unfolding name_p_def expect_ident_def t AtName
      by (intro parses_bind [OF parses_expect_with] parses_prust) simp_all
    then show ?thesis unfolding atom_p_def by (rule parses_alt_first [OF alt])
  next
    case (AtInt n)
    then have t: "t = TkDigits n" using a by simp
    have "parses integer_p ((t, sp) # rest) (Spanned sp a) rest"
      unfolding integer_p_def t AtInt by (intro parses_bind [OF parses_digits] parses_prust) simp
    then show ?thesis unfolding atom_p_def
      by (intro parses_alt_next [OF alt] parses_alt_first [OF alt] float) (use AtInt a in \<open>auto intro: fails_name fails_string\<close>)
  next
    case (AtStr n)
    then have t: "t = TkStringRef n" using a by simp
    have "parses string_ref ((t, sp) # rest) (Spanned sp a) rest"
      unfolding string_ref_def t AtStr by (intro parses_bind [OF parses_expect_with] parses_prust) simp_all
    then show ?thesis unfolding atom_p_def
      by (intro parses_alt_next [OF alt] parses_alt_first [OF alt] float) (use AtStr a in \<open>auto intro: fails_name\<close>)
  qed (rule keyword; use a in \<open>auto simp: atom_of_token_def split: if_splits\<close>)+
qed

text \<open>Primaries, powers and factors.\<close>

lemma fails_left_recurse:
  assumes nom: "nom_spec N" and rest: "stops 1 rest"
  shows "fails (primary_left_recurse N G base) rest"
proof -
  have "fails (primary_dot_name N base) rest"
    unfolding primary_dot_name_def
    by (intro fails_ws [OF nom] fails_no_token stops_strip_token [OF rest]) simp
  moreover have "fails (primary_call N G base) rest" "fails (primary_subscript N G base) rest"
    unfolding primary_call_def primary_subscript_def by (intro fails_no_token stops_token [OF rest]; simp)+
  ultimately show ?thesis
    unfolding primary_left_recurse_def by (intro fails_bind_first fails_por fails_pfail)
qed

lemma parses_power:
  assumes nom: "nom_spec N" and atom: "parses (atom_p N G) ts (Spanned sp a) rest"
    and first: "upcoming_token ts \<noteq> Some TkAwait" and rest: "stops 1 rest"
  shows "parses (power_p N G) ts (Spanned sp (ExprPrimary (Spanned sp (Atomic (Spanned sp a))))) rest"
proof -
  have "parses (primary_p N G) ts (Spanned sp (Atomic (Spanned sp a))) rest"
    unfolding primary_p_def
    by (rule parses_bind [OF atom], rule parses_por_second [OF fails_left_recurse [OF nom rest]])
      (simp add: spanned_replace_with_def parses_pret)
  then have await: "parses (await_primary N G) ts (Spanned sp (Atomic (Spanned sp a))) rest"
    unfolding await_primary_def
    by (intro parses_pif_else fails_terminated [OF nom_specD(10) [OF nom]] fails_expect first)
  have stars: "fails (expect_wrapped_values N [TkStar, TkStar] TkWhitespace) rest"
  proof (cases "upcoming_token (strip rest) = Some TkStar")
    case True
    then obtain sp' rest' where r: "strip rest = (TkStar, sp') # rest'" by (cases "strip rest") auto
    have "fails (pbind (expect_all [TkStar, TkStar] []) f) ((TkStar, sp') # rest')" for f :: "_ \<Rightarrow> py_token spanned list parser"
      by (simp, intro fails_bind_first fails_token fails_no_token stops_double_star [OF rest r])
    then show ?thesis
      by (simp add: expect_wrapped_values_def) (rule fails_skip [OF nom], simp add: r)
  next
    case False
    then have "fails (pbind (expect_all [TkStar, TkStar] []) f) (strip rest)" for f :: "_ \<Rightarrow> py_token spanned list parser"
      by (simp, intro fails_bind_first fails_no_token) simp
    then show ?thesis
      by (simp add: expect_wrapped_values_def) (rule fails_skip [OF nom], simp)
  qed
  show ?thesis unfolding power_p_def
    by (rule parses_bind [OF await], rule parses_pif_else [OF stars]) (simp add: spanned_replace_with_def parses_pret)
qed

lemma parses_factor:
  assumes "parses (power_p N G) ts v rest" and "upcoming_token ts \<notin> Some ` {TkPlus, TkMinus, TkTilde}"
  shows "parses (factor N G) ts v rest"
  unfolding factor_def by (rule parses_pif_else [OF fails_any_token assms(1)]) (use assms(2) in simp)

lemma parses_unary:
  assumes "parses (g_factor G) ts v rest" and "op \<noteq> UNot"
  shows "parses (factor N G) ((unary_token op, sp) # ts) (Spanned (fst sp, snd (sp_span v)) (Unary op v)) rest"
proof -
  have "unary_token op \<in> set [TkPlus, TkMinus, TkTilde]" using assms(2) by (cases op) simp_all
  then show ?thesis unfolding factor_def
    by (intro parses_pif [OF parses_any_token] parses_bind [OF assms(1)] parses_bind [where v = op, OF parses_prust])
      (use assms(2) in \<open>cases op; simp add: parses_pret\<close>)+
qed

lemma parses_term:
  assumes nom: "nom_spec N" and "parses (factor N G) (strip ts) e rest" and rest: "stops 2 rest"
  shows "parses (term_p N G) ts e rest"
proof -
  have "fails (term_rest N G e) rest"
    unfolding term_rest_def
    by (intro fails_ws [OF nom] fails_bind_first fails_any_token) (use stops_strip_token [OF rest] in auto)
  then show ?thesis unfolding term_p_def
    by (intro parses_ws [OF nom] parses_bind [OF assms(2)] parses_por_second parses_pret)
qed

text \<open>The first token of what is printed.\<close>

lemma print_first:
  "printable e \<Longrightarrow> \<exists>t sp ts. print_expr L e = (t, sp) # ts \<and> t \<noteq> TkWhitespace \<and> (t = TkNot \<longrightarrow> 7 < expr_level (sp_inner e))"
proof (induction e arbitrary: L rule: printable.induct)
  case (1 sp l op r)
  have "expr_level (sp_inner l) \<le> 7" if "infix_level op \<le> 7" using "1.prems" that
    by (cases op) (simp_all add: operand_levels_def)
  moreover have "infix_level op \<le> 7" using "1.prems" by (cases op) simp_all
  ultimately show ?case using "1.prems" "1.IH"(1) [of "sub 0 L"] by auto
next
  case (2 sp op v)
  then show ?case using "2.IH" [of "sub 0 L"] by (cases op) auto
next
  case (3 sp t b e)
  then obtain u us where "print_expr (sub 0 L) b = u # us" "fst u \<noteq> TkWhitespace" by fastforce
  then show ?case by (cases u) simp
next
  case (4 sp sp' a)
  then show ?case by (cases "sp_inner a") (auto split: if_splits)
qed simp_all

lemma strip_print: "printable e \<Longrightarrow> strip (print_expr L e @ rest) = print_expr L e @ rest"
  using print_first [of e L] by auto

lemma strip_lead: "strip lead = [] \<Longrightarrow> strip (lead @ ts) = strip ts"
  by (induction lead) (auto split: if_splits)

lemma strip_lead_print: "strip lead = [] \<Longrightarrow> printable e \<Longrightarrow> strip (lead @ print_expr L e @ rest) = print_expr L e @ rest"
  by (simp add: strip_lead strip_print)

lemma print_not_not:
  "printable e \<Longrightarrow> expr_level (sp_inner e) \<le> 7 \<Longrightarrow> upcoming_token (print_expr L e @ rest) \<noteq> Some TkNot"
  using print_first [of e L] by auto

lemma print_length: "printable e \<Longrightarrow> 0 < length (print_expr L e)"
  using print_first [of e L] by auto

lemma strip_spaced [simp]:
  "t \<noteq> TkWhitespace \<Longrightarrow> strip (spaced L (t # ts) @ rest) = (t, L [Suc 0]) # lay L (Suc (Suc 0)) (ts @ [TkWhitespace]) @ rest"
  by (simp add: spaced_def)

lemma length_spaced [simp]: "length (spaced L ts) = length ts + 2"
proof -
  have "length (lay L i ts) = length ts" for i ts by (induction ts arbitrary: i) simp_all
  then show ?thesis by (simp add: spaced_def)
qed

lemma stops_spaced:
  "k \<le> token_level t \<Longrightarrow> t \<noteq> TkWhitespace \<Longrightarrow> ts = [] \<or> t \<noteq> TkStar \<Longrightarrow> stops k (spaced L (t # ts) @ rest)"
  by (auto simp: stops_def)

section \<open>The levels\<close>

definition level_parser :: "nat \<Rightarrow> nom \<Rightarrow> grammar \<Rightarrow> expr spanned parser" where
  "level_parser k =
     ([factor, term_p, sum_p, shift_expr, bitwise_and, bitwise_xor, bitwise_or, comparison, inversion, disjunction, expression] ! k)"

lemma level_parser_simps [simp]:
  "level_parser 0 = factor" "level_parser 1 = term_p" "level_parser (Suc 0) = term_p" "level_parser 2 = sum_p"
  "level_parser 3 = shift_expr" "level_parser 4 = bitwise_and" "level_parser 5 = bitwise_xor" "level_parser 6 = bitwise_or"
  "level_parser 7 = comparison" "level_parser 8 = inversion" "level_parser 9 = disjunction" "level_parser 10 = expression"
  by (simp_all add: level_parser_def eval_nat_numeral)

text \<open>The levels above \<open>shift_expr\<close> also consume the white space that follows.\<close>

definition reads :: "nom \<Rightarrow> nat \<Rightarrow> expr spanned \<Rightarrow> bool" where
  "reads N k e \<longleftrightarrow> (\<forall>L lead n rest. strip lead = [] \<longrightarrow> (k = 0 \<longrightarrow> lead = []) \<longrightarrow> length (print_expr L e) \<le> n \<longrightarrow> stops (Suc k) rest \<longrightarrow>
     parses (level_parser k N (crate_grammar N n)) (lead @ print_expr L e @ rest) e (if k \<le> 3 then rest else strip rest))"

lemma readsD:
  assumes "reads N k e" and "level_parser k = p" and "length (print_expr L e) \<le> n" and "stops (Suc k) rest"
  shows "k \<le> 3 \<Longrightarrow> parses (p N (crate_grammar N n)) (print_expr L e @ rest) e rest"
    and "3 < k \<Longrightarrow> parses (p N (crate_grammar N n)) (print_expr L e @ rest) e (strip rest)"
proof -
  have "parses (level_parser k N (crate_grammar N n)) ([] @ print_expr L e @ rest) e (if k \<le> 3 then rest else strip rest)"
    using assms(1) [unfolded reads_def, rule_format, of "[]" L n rest] assms(3,4) by simp
  then show "k \<le> 3 \<Longrightarrow> parses (p N (crate_grammar N n)) (print_expr L e @ rest) e rest"
    and "3 < k \<Longrightarrow> parses (p N (crate_grammar N n)) (print_expr L e @ rest) e (strip rest)"
    using assms(2) by simp_all
qed

lemma reads_lead:
  assumes "reads N k e" and "level_parser k = p" and "length (print_expr L e) \<le> n" and "stops (Suc k) rest"
    and "3 < k" and "strip lead = []"
  shows "parses (p N (crate_grammar N n)) (lead @ print_expr L e @ rest) e (strip rest)"
proof -
  have "parses (level_parser k N (crate_grammar N n)) (lead @ print_expr L e @ rest) e (if k \<le> 3 then rest else strip rest)"
    using assms(1,3-6) unfolding reads_def by blast
  then show ?thesis using assms(2,5) by simp
qed

lemma fuel_crate: "g_fuel (crate_grammar N n) = Suc n"
  by (cases n) (simp_all add: Let_def)

text \<open>An expression of a level is read by the next one.\<close>

lemma reads_1: "nom_spec N \<Longrightarrow> printable e \<Longrightarrow> reads N 0 e \<Longrightarrow> reads N 1 e"
  by (auto simp: reads_def strip_lead strip_print numeral_2_eq_2 intro!: parses_term dest: stops_mono [of "Suc (Suc 0)" _ "Suc 0"])

lemma fails_sum_rest: "nom_spec N \<Longrightarrow> stops 3 rest \<Longrightarrow> fails (sum_rest N G e) rest"
  unfolding sum_rest_def
  by (intro fails_ws fails_bind_first fails_any_token)
    (use stops_strip_token [of 3 rest TkPlus] stops_strip_token [of 3 rest TkMinus] in auto)

lemma reads_3: 
  assumes nom: "nom_spec N" and e: "printable e" and lower: "reads N 2 e" shows "reads N 3 e"
  unfolding reads_def
proof (intro allI impI)
  fix L lead n rest assume lead: "strip lead = []" and n: "length (print_expr L e) \<le> n" and rest: "stops (Suc 3) rest"
  have "parses (sum_p N (crate_grammar N n)) (print_expr L e @ rest) e rest"
    by (rule readsD(1) [OF lower _ n]) (use stops_mono [OF rest] in simp_all)
  then have "parses (shift_expr N (crate_grammar N n)) (lead @ print_expr L e @ rest) e rest"
    unfolding shift_expr_def
    by (intro parses_ws [OF nom] parses_bind parses_pif_else parses_pret fails_any_token)
      (use stops_token [OF rest, of TkLessThan] stops_token [OF rest, of TkGreaterThan] in \<open>auto simp: strip_lead_print [OF lead e] parses_pret\<close>)
  then show "parses (level_parser 3 N (crate_grammar N n)) (lead @ print_expr L e @ rest) e (if 3 \<le> (3::nat) then rest else strip rest)"
    by simp
qed

text \<open>The three levels of \<open>&\<close>, \<open>^\<close> and \<open>|\<close> have one shape.\<close>

definition chain :: "nom \<Rightarrow> expr spanned parser \<Rightarrow> py_token \<Rightarrow> infix_op \<Rightarrow> expr spanned parser \<Rightarrow> expr spanned parser" where
  "chain N operand t op again =
     pbind (whitespace N) (\<lambda>_.
     pbind operand (\<lambda>base.
     pbind (whitespace N) (\<lambda>_.
     pif (expect_any_token [t]) (\<lambda>_.
       pbind (whitespace N) (\<lambda>_.
       pbind again (\<lambda>v.
       pret (bin_op op base v))))
     (pret base))))"

lemma chain_eqs:
  "bitwise_and N G = chain N (shift_expr N G) TkAnd And (g_bitwise_and G)"
  "bitwise_xor N G = chain N (bitwise_and N G) TkCaret Xor (g_bitwise_xor G)"
  "bitwise_or N G = chain N (bitwise_xor N G) TkPipe Or (g_bitwise_or G)"
  by (simp_all add: bitwise_and_def bitwise_xor_def bitwise_or_def chain_def)

lemma chain_pass:
  assumes nom: "nom_spec N" and "parses operand (strip ts) e mid" and "strip mid = strip rest"
    and "upcoming_token (strip rest) \<noteq> Some t"
  shows "parses (chain N operand t op again) ts e (strip rest)"
proof -
  have "parses (pbind (whitespace N) (\<lambda>_. pif (expect_any_token [t]) (\<lambda>_.
      pbind (whitespace N) (\<lambda>_. pbind again (\<lambda>v. pret (bin_op op e v)))) (pret e))) mid e (strip rest)"
    by (rule parses_ws [OF nom], unfold assms(3), rule parses_pif_else [OF fails_any_token parses_pret]) (use assms(4) in simp)
  then show ?thesis unfolding chain_def
    by (intro parses_ws [OF nom]) (rule parses_bind [OF assms(2)])
qed

lemma chain_op:
  assumes nom: "nom_spec N" and "parses operand (strip ts) l mid"
    and "strip mid = (t, sp) # (TkWhitespace, sp') # ts2" and "strip ts2 = ts2" and "parses again ts2 r rest"
  shows "parses (chain N operand t op again) ts (bin_op op l r) rest"
proof -
  have "parses (pbind (whitespace N) (\<lambda>_. pbind again (\<lambda>v. pret (bin_op op l v)))) ((TkWhitespace, sp') # ts2) (bin_op op l r) rest"
    by (rule parses_ws [OF nom]) (simp add: assms(4) parses_bind [OF assms(5) parses_pret])
  then have "parses (pbind (whitespace N) (\<lambda>_. pif (expect_any_token [t]) (\<lambda>_.
      pbind (whitespace N) (\<lambda>_. pbind again (\<lambda>v. pret (bin_op op l v)))) (pret l))) mid (bin_op op l r) rest"
    by (intro parses_ws [OF nom], unfold assms(3)) (rule parses_pif [OF parses_any_token], simp_all)
  then show ?thesis unfolding chain_def
    by (intro parses_ws [OF nom]) (rule parses_bind [OF assms(2)])
qed

lemma chain_reads:
  assumes nom: "nom_spec N" and e: "printable e" and lower: "reads N k e" and k: "3 \<le> k"
    and p: "level_parser k = operand" "level_parser (Suc k) N = (\<lambda>G. chain N (operand N G) t op (again G))"
    and t: "token_level t = Suc k"
  shows "reads N (Suc k) e"
  unfolding reads_def
proof (intro allI impI)
  fix L lead n rest assume lead: "strip lead = []" and n: "length (print_expr L e) \<le> n" and rest: "stops (Suc (Suc k)) rest"
  have rest': "stops (Suc k) rest" by (rule stops_mono [OF rest]) simp
  have "upcoming_token (strip rest) \<noteq> Some t" by (rule stops_strip_token [OF rest]) (simp add: t)
  moreover have mid: "parses (operand N (crate_grammar N n)) (strip (lead @ print_expr L e @ rest)) e (if k \<le> 3 then rest else strip rest)"
    using readsD [OF lower p(1) n rest'] k unfolding strip_lead_print [OF lead e] by simp
  ultimately have "parses (chain N (operand N (crate_grammar N n)) t op (again (crate_grammar N n))) (lead @ print_expr L e @ rest) e (strip rest)"
    by (intro chain_pass [OF nom mid]) simp_all
  then show "parses (level_parser (Suc k) N (crate_grammar N n)) (lead @ print_expr L e @ rest) e
      (if Suc k \<le> 3 then rest else strip rest)"
    using k by (simp add: p(2))
qed

lemma reads_chain:
  assumes "nom_spec N" and "printable e"
  shows "reads N 3 e \<Longrightarrow> reads N 4 e" "reads N 4 e \<Longrightarrow> reads N 5 e" "reads N 5 e \<Longrightarrow> reads N 6 e"
  using chain_reads [OF assms, of 3 shift_expr TkAnd And g_bitwise_and] chain_reads [OF assms, of 4 bitwise_and TkCaret Xor g_bitwise_xor]
    chain_reads [OF assms, of 5 bitwise_xor TkPipe Or g_bitwise_or]
  by (simp_all add: chain_eqs fun_eq_iff)

lemma reads_7:
  assumes nom: "nom_spec N" and e: "printable e" and lower: "reads N 6 e" shows "reads N 7 e"
  unfolding reads_def
proof (intro allI impI)
  fix L lead n rest assume lead: "strip lead = []" and n: "length (print_expr L e) \<le> n" and rest: "stops (Suc 7) rest"
  let ?G = "crate_grammar N n"
  have or: "parses (bitwise_or N ?G) (print_expr L e @ rest) e (strip rest)"
    by (rule readsD(2) [OF lower _ n]) (use stops_mono [OF rest] in simp_all)
  have or': "parses (bitwise_or N ?G) (lead @ print_expr L e @ rest) e (strip rest)"
    by (rule reads_lead [OF lower _ n _ _ lead]) (use stops_mono [OF rest] in simp_all)
  have "upcoming_token (strip rest) \<notin> Some ` set [TkEqual, TkBang]"
    using stops_strip_token [OF rest, of TkEqual] stops_strip_token [OF rest, of TkBang] by auto
  then have "fails (pbind (expect_any_of [TkEqual, TkBang]) f) (strip rest)" for f :: "_ \<Rightarrow> expr spanned parser"
    by (intro fails_bind_first fails_any_of)
  then have "fails (equality N ?G) (lead @ print_expr L e @ rest)"
    unfolding equality_def
    by (intro fails_skip [OF nom], unfold strip_lead_print [OF lead e]) (rule fails_bind_later [OF or], rule fails_skip [OF nom], simp)
  then have "parses (comparison N ?G) (lead @ print_expr L e @ rest) e (strip rest)"
    unfolding comparison_def by (intro parses_alt_next [OF nom_specD(6) [OF nom]] parses_alt_first [OF nom_specD(6) [OF nom]] or')
  then show "parses (level_parser 7 N ?G) (lead @ print_expr L e @ rest) e (if 7 \<le> (3::nat) then rest else strip rest)" by simp
qed

lemma reads_8:
  assumes nom: "nom_spec N" and e: "printable e" and level: "expr_level (sp_inner e) \<le> 7" and lower: "reads N 7 e"
  shows "reads N 8 e"
  unfolding reads_def
proof (intro allI impI)
  fix L lead n rest assume lead: "strip lead = []" and n: "length (print_expr L e) \<le> n" and rest: "stops (Suc 8) rest"
  let ?G = "crate_grammar N n"
  have cmp: "parses (comparison N ?G) (lead @ print_expr L e @ rest) e (strip rest)"
    by (rule reads_lead [OF lower _ n _ _ lead]) (use stops_mono [OF rest] in simp_all)
  have "fails (not_comparison N ?G) (lead @ print_expr L e @ rest)"
    unfolding not_comparison_def
    by (intro fails_ws [OF nom] fails_no_token) (simp add: strip_lead_print [OF lead e] print_not_not [OF e level])
  then have "parses (inversion N ?G) (lead @ print_expr L e @ rest) e (strip rest)"
    unfolding inversion_def by (intro parses_alt_next [OF nom_specD(6) [OF nom]] parses_alt_first [OF nom_specD(6) [OF nom]] cmp)
  then show "parses (level_parser 8 N ?G) (lead @ print_expr L e @ rest) e (if 8 \<le> (3::nat) then rest else strip rest)" by simp
qed

lemma reads_9:
  assumes nom: "nom_spec N" and e: "printable e" and lower: "reads N 8 e" shows "reads N 9 e"
  unfolding reads_def
proof (intro allI impI)
  fix L lead n rest assume lead: "strip lead = []" and n: "length (print_expr L e) \<le> n" and rest: "stops (Suc 9) rest"
  let ?G = "crate_grammar N n"
  note alt = nom_specD(6) [OF nom]
  have inv: "parses (inversion N ?G) (lead @ print_expr L e @ rest) e (strip rest)"
    by (rule reads_lead [OF lower _ n _ _ lead]) (use stops_mono [OF rest] in simp_all)
  have "fails (and_inversion N ?G) (lead @ print_expr L e @ rest)"
    unfolding and_inversion_def
    by (rule fails_bind_later [OF inv], intro fails_ws [OF nom] fails_no_token) (simp add: stops_strip_token [OF rest])
  then have conj: "parses (conjunction N ?G) (lead @ print_expr L e @ rest) e (strip rest)"
    unfolding conjunction_def by (intro parses_alt_next [OF alt] parses_alt_first [OF alt] inv)
  have "fails (or_conjunction N ?G) (lead @ print_expr L e @ rest)"
    unfolding or_conjunction_def
    by (rule fails_bind_later [OF conj], intro fails_ws [OF nom] fails_no_token) (simp add: stops_strip_token [OF rest])
  then have "parses (disjunction N ?G) (lead @ print_expr L e @ rest) e (strip rest)"
    unfolding disjunction_def by (intro parses_alt_next [OF alt] parses_alt_first [OF alt] conj)
  then show "parses (level_parser 9 N ?G) (lead @ print_expr L e @ rest) e (if 9 \<le> (3::nat) then rest else strip rest)" by simp
qed

lemma parses_expression:
  assumes nom: "nom_spec N" and "parses (ternary_disjunction N G) ts e mid
      \<or> fails (ternary_disjunction N G) ts \<and> parses (disjunction N G) ts e mid"
  shows "parses (expression N G) ts e (strip mid)"
proof -
  have "parses (nom_alt_expr N [ternary_disjunction N G, disjunction N G]) ts e mid"
    using assms(2) by (auto intro: parses_alt_next parses_alt_first nom_specD(6) [OF nom])
  then show ?thesis unfolding expression_def by (rule parses_bind) (intro parses_ws [OF nom] parses_pret)
qed

lemma reads_10:
  assumes nom: "nom_spec N" and e: "printable e" and lower: "reads N 9 e" shows "reads N 10 e"
  unfolding reads_def
proof (intro allI impI)
  fix L lead n rest assume lead: "strip lead = []" and n: "length (print_expr L e) \<le> n" and rest: "stops (Suc 10) rest"
  let ?G = "crate_grammar N n"
  have dis: "parses (disjunction N ?G) (lead @ print_expr L e @ rest) e (strip rest)"
    by (rule reads_lead [OF lower _ n _ _ lead]) (use stops_mono [OF rest] in simp_all)
  have "fails (ternary_disjunction N ?G) (lead @ print_expr L e @ rest)"
    unfolding ternary_disjunction_def
    by (rule fails_bind_later [OF dis], intro fails_ws [OF nom] fails_no_token) (simp add: stops_strip_token [OF rest])
  then have "parses (expression N ?G) (lead @ print_expr L e @ rest) e (strip (strip rest))"
    by (intro parses_expression [OF nom]) (simp add: dis)
  then show "parses (level_parser 10 N ?G) (lead @ print_expr L e @ rest) e (if 10 \<le> (3::nat) then rest else strip rest)" by simp
qed

section \<open>Operators are read at their level\<close>

lemma sp_bin_op: "sp = (fst (sp_span l), snd (sp_span r)) \<Longrightarrow> Spanned sp (BinOp l op r) = bin_op op l r"
  by (simp add: bin_op_def)

lemma print_bin_op: "print_expr L (bin_op op l r) = print_expr (sub 0 L) l @ spaced L (infix_tokens op) @ print_expr (sub (Suc 0) L) r"
  by (simp add: bin_op_def)

text \<open>Products.\<close>

lemma stops_infix: "infix_level op < 11 \<Longrightarrow> stops (infix_level op) (spaced L (infix_tokens op) @ rest)"
  by (cases op) (auto intro!: stops_spaced)

lemma parses_operator:
  "r = Inr op \<Longrightarrow> parses (pbind (prust r) (\<lambda>op. pret (bin_op op left right))) rest (bin_op op left right) rest"
  by (rule parses_bind [OF parses_prust parses_pret])

lemma parses_right_operand:
  assumes nom: "nom_spec N" and p: "parses p ts r rest" "strip ts = ts" and f: "parses (f r) rest v rest"
  shows "parses (pbind (whitespace N) (\<lambda>_. pbind p f)) ((TkWhitespace, sp) # ts) v rest"
proof -
  have "parses (pbind p f) ts v rest" using p(1) f by (rule parses_bind)
  moreover have "strip ((TkWhitespace, sp) # ts) = ts" using p(2) by simp
  ultimately show ?thesis by (intro parses_ws [OF nom]) (simp only:)
qed

lemma parses_term_rest:
  assumes nom: "nom_spec N" and op: "infix_level op = 1" and r: "parses (factor N G) ts r rest" "strip ts = ts"
  shows "parses (term_rest N G l) (spaced L (infix_tokens op) @ ts) (bin_op op l r) rest"
proof (cases "op = FloorDiv")
  case True
  have "parses (pbind (whitespace N) (\<lambda>_. pbind (factor N G) (\<lambda>right. pret (bin_op FloorDiv l right))))
      ((TkWhitespace, L [Suc (Suc (Suc 0))]) # ts) (bin_op FloorDiv l r) rest"
    by (rule parses_right_operand [OF nom r]) (rule parses_pret)
  note div = this
  have strip: "strip (spaced L [TkDiv, TkDiv] @ ts) = (TkDiv, L [Suc 0]) # (TkDiv, L [Suc (Suc 0)]) # (TkWhitespace, L [Suc (Suc (Suc 0))]) # ts"
    by simp
  have "TkDiv \<in> set [TkStar, TkDiv, TkModulo, TkAt]" by simp
  then show ?thesis unfolding True infix_tokens.simps term_rest_def
    by (intro parses_ws [OF nom], unfold strip) (rule parses_bind [OF parses_any_token], assumption, rule parses_pif [OF parses_expect], rule div)
next
  case False
  then obtain t where t: "infix_tokens op = [t]" "t \<in> set [TkStar, TkDiv, TkModulo, TkAt]" "t \<noteq> TkWhitespace"
    and v: "(case sp_inner (Spanned (L [Suc 0]) t) of TkAt \<Rightarrow> Inr MatMult | TkModulo \<Rightarrow> Inr Mod | TkStar \<Rightarrow> Inr Mult
       | TkDiv \<Rightarrow> Inr Div | _ \<Rightarrow> Inl UnreachableCode) = Inr op"
    using op by (cases op) simp_all
  have strip: "strip (spaced L [t] @ ts) = (t, L [Suc 0]) # (TkWhitespace, L [Suc (Suc 0)]) # ts" using t(3) by simp
  have "fails (expect TkDiv) ((TkWhitespace, L [Suc (Suc 0)]) # ts)" by (rule fails_expect) simp
  then show ?thesis unfolding t(1) term_rest_def
    by (intro parses_ws [OF nom], unfold strip)
      (rule parses_bind [OF parses_any_token [OF t(2)]], rule parses_pif_else, assumption,
       rule parses_right_operand [OF nom r], rule parses_operator [OF v])
qed

lemma reads_product:
  assumes nom: "nom_spec N" and op: "infix_level op = 1"
    and l: "printable l" "reads N 0 l" and r: "printable r" "reads N 0 r"
  shows "reads N 1 (bin_op op l r)"
  unfolding reads_def
proof (intro allI impI)
  fix L lead n rest assume lead: "strip lead = []" and n: "length (print_expr L (bin_op op l r)) \<le> n" and rest: "stops (Suc 1) rest"
  let ?G = "crate_grammar N n" and ?mid = "spaced L (infix_tokens op) @ print_expr (sub (Suc 0) L) r @ rest"
  have "stops (Suc 0) ?mid" using stops_infix [of op] op by simp
  then have left: "parses (factor N ?G) (print_expr (sub 0 L) l @ ?mid) l ?mid"
    by (intro readsD(1) [OF l(2)]) (use n in \<open>simp_all add: print_bin_op\<close>)
  have "parses (factor N ?G) (print_expr (sub (Suc 0) L) r @ rest) r rest"
    by (intro readsD(1) [OF r(2)]) (use n stops_mono [OF rest, of "Suc 0"] in \<open>simp_all add: print_bin_op\<close>)
  from parses_term_rest [OF nom op this strip_print [OF r(1)]]
  have "parses (term_p N ?G) (lead @ print_expr (sub 0 L) l @ ?mid) (bin_op op l r) rest"
    unfolding term_p_def
    by (intro parses_ws [OF nom], unfold strip_lead_print [OF lead l(1)]) (rule parses_bind [OF left], rule parses_por_first)
  then show "parses (level_parser 1 N ?G) (lead @ print_expr L (bin_op op l r) @ rest) (bin_op op l r) (if 1 \<le> (3::nat) then rest else strip rest)"
    by (simp add: print_bin_op)
qed

text \<open>
  Sums. \<open>spine N e\<close>: what is printed for \<open>e\<close> begins with a term, and from that term the loop of \<open>sum\<close>
  arrives at \<open>e\<close> in \<open>j\<close> rounds.
\<close>

definition spine :: "nom \<Rightarrow> expr spanned \<Rightarrow> bool" where
  "spine N e \<longleftrightarrow> (\<forall>L n rest. length (print_expr L e) \<le> n \<longrightarrow> stops 2 rest \<longrightarrow>
     (\<exists>t mid j. j < length (print_expr L e) \<and> parses (term_p N (crate_grammar N n)) (print_expr L e @ rest) t mid
       \<and> (\<forall>k v fin. parses (pwhile k (sum_rest N (crate_grammar N n)) e) rest v fin
            \<longrightarrow> parses (pwhile (j + k) (sum_rest N (crate_grammar N n)) t) mid v fin)))"

lemma spine_term:
  assumes "printable e" and "reads N 1 e" shows "spine N e"
  unfolding spine_def
proof (intro allI impI)
  fix L n rest assume n: "length (print_expr L e) \<le> n" and rest: "stops 2 rest"
  have "parses (term_p N (crate_grammar N n)) (print_expr L e @ rest) e rest"
    by (rule readsD(1) [OF assms(2) _ n]) (use rest in \<open>simp_all add: numeral_2_eq_2\<close>)
  then show "\<exists>t mid j. j < length (print_expr L e) \<and> parses (term_p N (crate_grammar N n)) (print_expr L e @ rest) t mid
       \<and> (\<forall>k v fin. parses (pwhile k (sum_rest N (crate_grammar N n)) e) rest v fin
            \<longrightarrow> parses (pwhile (j + k) (sum_rest N (crate_grammar N n)) t) mid v fin)"
    using print_length [OF assms(1)] by (intro exI [of _ e] exI [of _ rest] exI [of _ 0]) simp
qed

lemma parses_sum_rest:
  assumes nom: "nom_spec N" and op: "infix_level op = 2" and r: "parses (term_p N G) ts r rest" "strip ts = ts"
  shows "parses (sum_rest N G l) (spaced L (infix_tokens op) @ ts) (bin_op op l r) rest"
proof -
  obtain t where t: "infix_tokens op = [t]" "t \<in> set [TkPlus, TkMinus]" "t \<noteq> TkWhitespace"
    and v: "(case sp_inner (Spanned (L [Suc 0]) t) of TkPlus \<Rightarrow> Inr Add | TkMinus \<Rightarrow> Inr Sub | _ \<Rightarrow> Inl UnreachableCode) = Inr op"
    using op by (cases op) simp_all
  have strip: "strip (spaced L [t] @ ts) = (t, L [Suc 0]) # (TkWhitespace, L [Suc (Suc 0)]) # ts" using t(3) by simp
  show ?thesis unfolding t(1) sum_rest_def
    by (intro parses_ws [OF nom], unfold strip)
      (rule parses_bind [OF parses_any_token [OF t(2)]], rule parses_right_operand [OF nom r], rule parses_operator [OF v])
qed

lemma spine_sum:
  assumes nom: "nom_spec N" and op: "infix_level op = 2"
    and l: "printable l" "spine N l" and r: "printable r" "reads N 1 r"
  shows "spine N (bin_op op l r)"
  unfolding spine_def
proof (intro allI impI)
  fix L n rest assume n: "length (print_expr L (bin_op op l r)) \<le> n" and rest: "stops 2 rest"
  let ?G = "crate_grammar N n" and ?mid = "spaced L (infix_tokens op) @ print_expr (sub (Suc 0) L) r @ rest"
  have n': "length (print_expr (sub 0 L) l) \<le> n" using n by (simp add: print_bin_op)
  have "stops 2 ?mid" using stops_infix [of op] op by simp
  then obtain t mid j where j: "j < length (print_expr (sub 0 L) l)" and t: "parses (term_p N ?G) (print_expr (sub 0 L) l @ ?mid) t mid"
    and loop: "\<And>k v fin. parses (pwhile k (sum_rest N ?G) l) ?mid v fin \<Longrightarrow> parses (pwhile (j + k) (sum_rest N ?G) t) mid v fin"
    using l(2) n' unfolding spine_def by meson
  have "parses (term_p N ?G) (print_expr (sub (Suc 0) L) r @ rest) r rest"
    by (intro readsD(1) [OF r(2)]) (use n rest in \<open>simp_all add: print_bin_op numeral_2_eq_2\<close>)
  from parses_sum_rest [OF nom op this strip_print [OF r(1)]]
  have "parses (pwhile (j + Suc k) (sum_rest N ?G) t) mid v fin" if "parses (pwhile k (sum_rest N ?G) (bin_op op l r)) rest v fin" for k v fin
    using that by (intro loop parses_pwhile_next)
  then show "\<exists>t mid j. j < length (print_expr L (bin_op op l r))
       \<and> parses (term_p N ?G) (print_expr L (bin_op op l r) @ rest) t mid
       \<and> (\<forall>k v fin. parses (pwhile k (sum_rest N ?G) (bin_op op l r)) rest v fin
            \<longrightarrow> parses (pwhile (j + k) (sum_rest N ?G) t) mid v fin)"
    using j t by (intro exI [of _ t] exI [of _ mid] exI [of _ "Suc j"]) (simp add: print_bin_op)
qed

lemma reads_sum:
  assumes nom: "nom_spec N" and e: "printable e" and sp: "spine N e" shows "reads N 2 e"
  unfolding reads_def
proof (intro allI impI)
  fix L lead n rest assume lead: "strip lead = []" and n: "length (print_expr L e) \<le> n" and rest: "stops (Suc 2) rest"
  let ?G = "crate_grammar N n"
  have "stops 2 rest" by (rule stops_mono [OF rest]) simp
  then obtain t mid j where j: "j < length (print_expr L e)" and t: "parses (term_p N ?G) (print_expr L e @ rest) t mid"
    and loop: "\<And>k v fin. parses (pwhile k (sum_rest N ?G) e) rest v fin \<Longrightarrow> parses (pwhile (j + k) (sum_rest N ?G) t) mid v fin"
    using sp n unfolding spine_def by meson
  have fuel: "g_fuel ?G = j + Suc (n - j)" using j n by (simp add: fuel_crate)
  have "parses (pwhile (Suc (n - j)) (sum_rest N ?G) e) rest e rest"
    by (rule parses_pwhile_end [OF fails_sum_rest [OF nom]]) (use rest in \<open>simp add: numeral_3_eq_3 numeral_2_eq_2\<close>)
  then have "parses (sum_p N ?G) (lead @ print_expr L e @ rest) e rest"
    unfolding sum_p_def fuel
    by (intro parses_ws [OF nom], unfold strip_lead_print [OF lead e]) (rule parses_bind [OF t], rule loop)
  then show "parses (level_parser 2 N ?G) (lead @ print_expr L e @ rest) e (if 2 \<le> (3::nat) then rest else strip rest)" by simp
qed

text \<open>Atoms and unary operators.\<close>

lemma crate_callbacks [simp]:
  "g_factor (crate_grammar N (Suc n)) = factor N (crate_grammar N n)"
  "g_bitwise_and (crate_grammar N (Suc n)) = bitwise_and N (crate_grammar N n)"
  "g_bitwise_xor (crate_grammar N (Suc n)) = bitwise_xor N (crate_grammar N n)"
  "g_bitwise_or (crate_grammar N (Suc n)) = bitwise_or N (crate_grammar N n)"
  "g_comparison (crate_grammar N (Suc n)) = comparison N (crate_grammar N n)"
  "g_inversion (crate_grammar N (Suc n)) = inversion N (crate_grammar N n)"
  "g_expression (crate_grammar N (Suc n)) = expression N (crate_grammar N n)"
  by (simp_all add: Let_def)

declare crate_grammar.simps(2) [simp del]

lemma reads_atom:
  assumes nom: "nom_spec N" and a: "atom_token (sp_inner a) = Some t" and sp: "sp_span a = sp"
  shows "reads N 0 (Spanned sp (ExprPrimary (Spanned sp (Atomic a))))"
  unfolding reads_def
proof (intro allI impI)
  fix L and lead :: tokens and n rest assume "0 = (0::nat) \<longrightarrow> lead = []" and "stops (Suc 0) rest"
  then have rest: "stops 1 rest" and lead: "lead = []" by simp_all
  obtain b where b: "a = Spanned sp b" using sp by (cases a) simp
  have "parses (atom_p N (crate_grammar N n)) ((t, sp) # rest) (Spanned sp b) rest"
    by (rule parses_atom [OF nom]) (use a b stops_token [OF rest, of TkDot] in simp_all)
  moreover have "t \<notin> {TkAwait, TkPlus, TkMinus, TkTilde}" using a by (cases "sp_inner a") (auto split: if_splits)
  ultimately have "parses (factor N (crate_grammar N n)) ((t, sp) # rest) (Spanned sp (ExprPrimary (Spanned sp (Atomic a)))) rest"
    unfolding b by (intro parses_factor parses_power [OF nom _ _ rest]) auto
  then show "parses (level_parser 0 N (crate_grammar N n)) (lead @ print_expr L (Spanned sp (ExprPrimary (Spanned sp (Atomic a)))) @ rest)
      (Spanned sp (ExprPrimary (Spanned sp (Atomic a)))) (if 0 \<le> (3::nat) then rest else strip rest)"
    by (simp add: a sp lead)
qed

lemma reads_unary:
  assumes "op \<noteq> UNot" and v: "reads N 0 v" and sp: "snd sp = snd (sp_span v)"
  shows "reads N 0 (Spanned sp (Unary op v))"
  unfolding reads_def
proof (intro allI impI)
  fix L and lead :: tokens and n rest assume "0 = (0::nat) \<longrightarrow> lead = []" and n: "length (print_expr L (Spanned sp (Unary op v))) \<le> n" and rest: "stops (Suc 0) rest"
  then have lead: "lead = []" by simp
  obtain m where m: "n = Suc m" using n by (cases n) simp_all
  have "parses (g_factor (crate_grammar N n)) (print_expr (sub 0 L) v @ rest) v rest"
    unfolding m crate_callbacks by (rule readsD(1) [OF v]) (use n m rest in simp_all)
  from parses_unary [OF this assms(1), where sp = sp]
  show "parses (level_parser 0 N (crate_grammar N n)) (lead @ print_expr L (Spanned sp (Unary op v)) @ rest) (Spanned sp (Unary op v))
      (if 0 \<le> (3::nat) then rest else strip rest)"
    using assms(1) by (simp add: lead flip: sp)
qed

text \<open>The operators that associate to the right.\<close>

lemma chain_reads_op:
  assumes nom: "nom_spec N" and l: "printable l" "reads N k l" and r: "printable r" "reads N (Suc k) r" and k: "3 \<le> k"
    and p: "level_parser k = operand" "level_parser (Suc k) = p" "\<And>G. p N G = chain N (operand N G) t op (again G)"
    and again: "\<And>n. again (crate_grammar N (Suc n)) = p N (crate_grammar N n)"
    and t: "token_level t = Suc k" "infix_tokens op = [t]" "t \<noteq> TkWhitespace"
  shows "reads N (Suc k) (bin_op op l r)"
  unfolding reads_def
proof (intro allI impI)
  fix L lead n rest assume lead: "strip lead = []" and n: "length (print_expr L (bin_op op l r)) \<le> n" and rest: "stops (Suc (Suc k)) rest"
  let ?mid = "spaced L (infix_tokens op) @ print_expr (sub (Suc 0) L) r @ rest"
  obtain m where m: "n = Suc m" using n by (cases n) (simp_all add: print_bin_op)
  have "stops (Suc k) ?mid" using t by (auto intro!: stops_spaced)
  moreover have "length (print_expr (sub 0 L) l) \<le> n" using n by (simp add: print_bin_op)
  ultimately have left: "parses (operand N (crate_grammar N n)) (print_expr (sub 0 L) l @ ?mid) l (if k \<le> 3 then ?mid else strip ?mid)"
    using readsD [OF l(2) p(1)] by simp
  have right: "parses (again (crate_grammar N n)) (print_expr (sub (Suc 0) L) r @ rest) r (strip rest)"
    unfolding m again by (rule readsD(2) [OF r(2) p(2) _ rest]) (use n m k in \<open>simp_all add: print_bin_op\<close>)
  have strip: "strip (if k \<le> 3 then ?mid else strip ?mid) = (t, L [Suc 0]) # (TkWhitespace, L [Suc (Suc 0)]) # print_expr (sub (Suc 0) L) r @ rest"
    using t by simp
  have "parses (operand N (crate_grammar N n)) (strip (lead @ print_expr (sub 0 L) l @ ?mid)) l (if k \<le> 3 then ?mid else strip ?mid)"
    using left unfolding strip_lead_print [OF lead l(1)] .
  from chain_op [OF nom this strip strip_print [OF r(1)] right]
  show "parses (level_parser (Suc k) N (crate_grammar N n)) (lead @ print_expr L (bin_op op l r) @ rest) (bin_op op l r)
      (if Suc k \<le> 3 then rest else strip rest)"
    using k by (simp add: p(2,3) print_bin_op)
qed

lemma reads_bitwise:
  assumes "nom_spec N" and "printable l" and "printable r"
  shows "reads N 3 l \<Longrightarrow> reads N 4 r \<Longrightarrow> reads N 4 (bin_op And l r)"
    and "reads N 4 l \<Longrightarrow> reads N 5 r \<Longrightarrow> reads N 5 (bin_op Xor l r)"
    and "reads N 5 l \<Longrightarrow> reads N 6 r \<Longrightarrow> reads N 6 (bin_op Or l r)"
  using chain_reads_op [OF assms(1,2) _ assms(3), of 3 shift_expr bitwise_and TkAnd And g_bitwise_and]
    chain_reads_op [OF assms(1,2) _ assms(3), of 4 bitwise_and bitwise_xor TkCaret Xor g_bitwise_xor]
    chain_reads_op [OF assms(1,2) _ assms(3), of 5 bitwise_xor bitwise_or TkPipe Or g_bitwise_or]
  by (simp_all add: chain_eqs)

text \<open>Comparisons, negation, conditional expressions.\<close>

lemma reads_equality:
  assumes nom: "nom_spec N" and l: "printable l" "reads N 6 l" and r: "printable r" "reads N 7 r" and op: "infix_level op = 7"
  shows "reads N 7 (bin_op op l r)"
  unfolding reads_def
proof (intro allI impI)
  fix L lead n rest assume lead: "strip lead = []" and n: "length (print_expr L (bin_op op l r)) \<le> n" and rest: "stops (Suc 7) rest"
  let ?mid = "spaced L (infix_tokens op) @ print_expr (sub (Suc 0) L) r @ rest"
  obtain m where m: "n = Suc m" using n by (cases n) (simp_all add: print_bin_op)
  obtain t where t: "infix_tokens op = [t, TkEqual]" "t \<in> set [TkEqual, TkBang]" "t \<noteq> TkWhitespace"
    and v: "(case sp_inner (Spanned (L [Suc 0]) t) of TkBang \<Rightarrow> Inr NotEq | TkEqual \<Rightarrow> Inr Eq | _ \<Rightarrow> Inl UnreachableCode) = Inr op"
    using op by (cases op) simp_all
  have "stops (Suc 6) ?mid" using t(2) by (auto simp: t(1) intro!: stops_spaced)
  then have left: "parses (bitwise_or N (crate_grammar N n)) (print_expr (sub 0 L) l @ ?mid) l (strip ?mid)"
    by (intro readsD(2) [OF l(2)]) (use n in \<open>simp_all add: print_bin_op\<close>)
  have right: "parses (g_comparison (crate_grammar N n)) (print_expr (sub (Suc 0) L) r @ rest) r (strip rest)"
    unfolding m crate_callbacks by (rule readsD(2) [OF r(2) _ _ rest]) (use n m in \<open>simp_all add: print_bin_op\<close>)
  have skip: "skip_all TkWhitespace (strip ?mid) = (t, L [Suc 0]) # (TkEqual, L [Suc (Suc 0)]) # (TkWhitespace, L [Suc (Suc (Suc 0))]) # print_expr (sub (Suc 0) L) r @ rest"
    using t(3) by (simp add: t(1))
  have skip_r: "strip ((TkWhitespace, L [Suc (Suc (Suc 0))]) # print_expr (sub (Suc 0) L) r @ rest) = print_expr (sub (Suc 0) L) r @ rest"
    using strip_print [OF r(1)] by simp
  have op_r: "parses (pbind (prust (case sp_inner (Spanned (L [Suc 0]) t) of TkBang \<Rightarrow> Inr NotEq | TkEqual \<Rightarrow> Inr Eq
        | _ \<Rightarrow> Inl UnreachableCode)) (\<lambda>op. pbind (expect_many_n N 0 TkWhitespace) (\<lambda>_.
        pbind (g_comparison (crate_grammar N n)) (\<lambda>right. pret (bin_op op l right)))))
      ((TkWhitespace, L [Suc (Suc (Suc 0))]) # print_expr (sub (Suc 0) L) r @ rest) (bin_op op l r) (strip rest)"
    unfolding v
    by (rule parses_bind [OF parses_prust [OF refl]], rule parses_skip [OF nom], unfold skip_r)
      (rule parses_bind [OF right parses_pret])
  have "parses (equality N (crate_grammar N n)) (lead @ print_expr (sub 0 L) l @ ?mid) (bin_op op l r) (strip rest)"
    unfolding equality_def
    by (rule parses_skip [OF nom], unfold strip_lead_print [OF lead l(1)], rule parses_bind [OF left], rule parses_skip [OF nom],
        unfold skip, rule parses_bind [OF parses_any_of [OF t(2)]], rule parses_token, rule op_r)
  then have "parses (comparison N (crate_grammar N n)) (lead @ print_expr (sub 0 L) l @ ?mid) (bin_op op l r) (strip rest)"
    unfolding comparison_def by (rule parses_alt_first [OF nom_specD(6) [OF nom]])
  then show "parses (level_parser 7 N (crate_grammar N n)) (lead @ print_expr L (bin_op op l r) @ rest) (bin_op op l r)
      (if 7 \<le> (3::nat) then rest else strip rest)"
    by (simp add: print_bin_op)
qed

lemma reads_not:
  assumes nom: "nom_spec N" and v: "printable v" "reads N 8 v" and sp: "snd sp = snd (sp_span v)"
  shows "reads N 8 (Spanned sp (Unary UNot v))"
  unfolding reads_def
proof (intro allI impI)
  fix L lead n rest assume lead: "strip lead = []" and n: "length (print_expr L (Spanned sp (Unary UNot v))) \<le> n" and rest: "stops (Suc 8) rest"
  obtain m where m: "n = Suc m" using n by (cases n) simp_all
  have "parses (g_inversion (crate_grammar N n)) ([(TkWhitespace, L [0])] @ print_expr (sub 0 L) v @ rest) v (strip rest)"
    unfolding m crate_callbacks by (rule reads_lead [OF v(2) _ _ rest]) (use n m in \<open>simp_all\<close>)
  moreover have "strip (lead @ print_expr L (Spanned sp (Unary UNot v)) @ rest) = (TkNot, sp) # [(TkWhitespace, L [0])] @ print_expr (sub 0 L) v @ rest"
    by (simp add: strip_lead [OF lead])
  ultimately have "parses (not_comparison N (crate_grammar N n)) (lead @ print_expr L (Spanned sp (Unary UNot v)) @ rest)
      (Spanned (fst sp, snd (sp_span v)) (Unary UNot v)) (strip rest)"
    unfolding not_comparison_def
    by (intro parses_ws [OF nom]) (simp only:, rule parses_token, rule parses_bind, assumption, simp add: parses_pret)
  then show "parses (level_parser 8 N (crate_grammar N n)) (lead @ print_expr L (Spanned sp (Unary UNot v)) @ rest)
      (Spanned sp (Unary UNot v)) (if 8 \<le> (3::nat) then rest else strip rest)"
    unfolding inversion_def by (simp del: print_expr.simps add: inversion_def flip: sp) (rule parses_alt_first [OF nom_specD(6) [OF nom]])
qed

lemma reads_ternary:
  assumes nom: "nom_spec N" and t: "printable t" "reads N 9 t" and b: "printable b" "reads N 9 b"
    and e: "printable e" "reads N 10 e" and sp: "sp = (fst (sp_span b), snd (sp_span e))"
  shows "reads N 10 (Spanned sp (ExprIf t b e))"
  unfolding reads_def
proof (intro allI impI)
  fix L lead n rest assume lead: "strip lead = []" and n: "length (print_expr L (Spanned sp (ExprIf t b e))) \<le> n" and rest: "stops (Suc 10) rest"
  let ?G = "crate_grammar N n"
  let ?else = "spaced (sub 4 L) [TkElse] @ print_expr (sub 2 L) e @ rest"
  let ?if = "spaced (sub 3 L) [TkIf] @ print_expr (sub (Suc 0) L) t @ ?else"
  obtain m where m: "n = Suc m" using n by (cases n) simp_all
  have body: "parses (disjunction N ?G) (lead @ print_expr (sub 0 L) b @ ?if) b (strip ?if)"
    by (rule reads_lead [OF b(2) _ _ stops_spaced _ lead]) (use n in simp_all)
  have test: "parses (disjunction N ?G) (print_expr (sub (Suc 0) L) t @ ?else) t (strip ?else)"
    by (rule readsD(2) [OF t(2) _ _ stops_spaced]) (use n in simp_all)
  have orelse: "parses (g_expression ?G) (print_expr (sub 2 L) e @ rest) e (strip rest)"
    unfolding m crate_callbacks by (rule readsD(2) [OF e(2) _ _ rest]) (use n m in simp_all)
  have if_tokens: "strip (strip ?if) = (TkIf, L [3, Suc 0]) # (TkWhitespace, L [3, Suc (Suc 0)]) # print_expr (sub (Suc 0) L) t @ ?else"
    and test_tokens: "strip ((TkWhitespace, L [3, Suc (Suc 0)]) # print_expr (sub (Suc 0) L) t @ ?else) = print_expr (sub (Suc 0) L) t @ ?else"
    and else_tokens: "strip (strip ?else) = (TkElse, L [4, Suc 0]) # (TkWhitespace, L [4, Suc (Suc 0)]) # print_expr (sub 2 L) e @ rest"
    and orelse_tokens: "strip ((TkWhitespace, L [4, Suc (Suc 0)]) # print_expr (sub 2 L) e @ rest) = print_expr (sub 2 L) e @ rest"
    by (simp_all add: strip_print t(1) e(1))
  have "parses (ternary_disjunction N ?G) (lead @ print_expr (sub 0 L) b @ ?if) (Spanned sp (ExprIf t b e)) (strip rest)"
    unfolding ternary_disjunction_def sp
    by (rule parses_bind [OF body], rule parses_ws [OF nom], unfold if_tokens, rule parses_token, rule parses_ws [OF nom],
        unfold test_tokens, rule parses_bind [OF test], rule parses_ws [OF nom], unfold else_tokens, rule parses_token,
        rule parses_ws [OF nom], unfold orelse_tokens, rule parses_bind [OF orelse], rule parses_pret)
  then have "parses (expression N ?G) (lead @ print_expr (sub 0 L) b @ ?if) (Spanned sp (ExprIf t b e)) (strip (strip rest))"
    by (intro parses_expression [OF nom]) simp
  then show "parses (level_parser 10 N ?G) (lead @ print_expr L (Spanned sp (ExprIf t b e)) @ rest) (Spanned sp (ExprIf t b e))
      (if 10 \<le> (3::nat) then rest else strip rest)"
    by simp
qed

section \<open>Expressions are read back\<close>

lemma reads_next:
  assumes nom: "nom_spec N" and e: "printable e" and k: "k < 10" "expr_level (sp_inner e) \<le> k" and lower: "reads N k e"
  shows "reads N (Suc k) e"
proof -
  consider "k = 0" | "k = 1" | "k = 2" | "k = 3" | "k = 4" | "k = 5" | "k = 6" | "k = 7" | "k = 8" | "k = 9"
    using k(1) by (auto simp: less_Suc_eq eval_nat_numeral)
  then show ?thesis
  proof cases
    case 2
    then show ?thesis using reads_sum [OF nom e spine_term [OF e]] lower by (simp add: numeral_2_eq_2)
  qed (use k(2) lower reads_1 [OF nom e] reads_3 [OF nom e] reads_chain [OF nom e] reads_7 [OF nom e] reads_8 [OF nom e]
      reads_9 [OF nom e] reads_10 [OF nom e] in simp_all)
qed

lemma reads_up:
  assumes nom: "nom_spec N" and e: "printable e" and j: "expr_level (sp_inner e) \<le> j" "reads N j e" and k: "j \<le> k" "k \<le> 10"
  shows "reads N k e"
  using k
proof (induction k)
  case (Suc k)
  then show ?case using reads_next [OF nom e, of k] j by (cases "j = Suc k") simp_all
qed (use j in simp)

definition read_back :: "nom \<Rightarrow> expr spanned \<Rightarrow> bool" where
  "read_back N e \<longleftrightarrow> (\<forall>k. expr_level (sp_inner e) \<le> k \<longrightarrow> k \<le> 10 \<longrightarrow> reads N k e)
     \<and> (expr_level (sp_inner e) \<le> 2 \<longrightarrow> spine N e)"

lemma read_backI:
  assumes nom: "nom_spec N" and e: "printable e"
    and own: "expr_level (sp_inner e) \<noteq> 2 \<Longrightarrow> reads N (expr_level (sp_inner e)) e" and sum: "expr_level (sp_inner e) = 2 \<Longrightarrow> spine N e"
  shows "read_back N e"
proof -
  have own': "reads N (expr_level (sp_inner e)) e" using own sum reads_sum [OF nom e] by (cases "expr_level (sp_inner e) = 2") simp_all
  then have all: "reads N k e" if "expr_level (sp_inner e) \<le> k" "k \<le> 10" for k
    using reads_up [OF nom e _ own'] that by simp
  have "spine N e" if "expr_level (sp_inner e) \<le> 2"
    using sum spine_term [OF e] all [of 1] that by (cases "expr_level (sp_inner e) = 2") simp_all
  then show ?thesis using all by (simp add: read_back_def)
qed

lemma read_back_bin_op:
  assumes nom: "nom_spec N" and e: "printable (bin_op op l r)" and l: "printable l" "read_back N l" and r: "printable r" "read_back N r"
  shows "read_back N (bin_op op l r)"
proof (rule read_backI [OF nom e])
  have level: "expr_level (sp_inner (bin_op op l r)) = infix_level op" by (simp add: bin_op_def)
  have ops: "reads N k l" if "fst (operand_levels (infix_level op)) \<le> k" "k \<le> 10" for k
    using that e l(2) by (simp add: read_back_def bin_op_def)
  have ops': "reads N k r" if "snd (operand_levels (infix_level op)) \<le> k" "k \<le> 10" for k
    using that e r(2) by (simp add: read_back_def bin_op_def)
  show "reads N (expr_level (sp_inner (bin_op op l r))) (bin_op op l r)" if "expr_level (sp_inner (bin_op op l r)) \<noteq> 2"
    using that e reads_product [OF nom _ l(1) _ r(1)] reads_bitwise [OF nom l(1) r(1)] reads_equality [OF nom l(1) _ r(1)] ops ops'
    unfolding level by (cases op) (simp_all add: operand_levels_def bin_op_def)
  show "spine N (bin_op op l r)" if "expr_level (sp_inner (bin_op op l r)) = 2"
  proof (rule spine_sum [OF nom _ l(1) _ r(1)])
    show op: "infix_level op = 2" using that level by simp
    show "spine N l" using l(2) e op by (simp add: read_back_def bin_op_def operand_levels_def)
    show "reads N 1 r" by (rule ops') (simp_all add: op operand_levels_def)
  qed
qed

lemma expr_level_printable: "printable e \<Longrightarrow> expr_level (sp_inner e) \<le> 10"
  by (induction e rule: printable.induct) simp_all

lemma printable_read_back: "nom_spec N \<Longrightarrow> printable e \<Longrightarrow> read_back N e"
proof (induction e rule: printable.induct)
  case (1 sp l op r)
  then show ?case using read_back_bin_op [of N op l r] by (simp add: bin_op_def)
next
  case (2 sp op v)
  then have v: "printable v" "read_back N v" "snd sp = snd (sp_span v)" by simp_all
  show ?case
  proof (rule read_backI [OF "2.prems"])
    show "reads N (expr_level (sp_inner (Spanned sp (Unary op v)))) (Spanned sp (Unary op v))"
    proof (cases "op = UNot")
      case True
      then show ?thesis using reads_not [OF "2.prems"(1) v(1) _ v(3)] v(2) "2.prems"(2) by (simp add: read_back_def)
    next
      case False
      then show ?thesis using reads_unary [OF False _ v(3)] v(2) "2.prems"(2) by (simp add: read_back_def)
    qed
  qed (simp split: if_splits)
next
  case (3 sp t b e)
  show ?case
    by (rule read_backI [OF "3.prems"]) (use 3 reads_ternary [OF "3.prems"(1), of t b e sp] expr_level_printable [of e] in \<open>simp_all add: read_back_def\<close>)
next
  case (4 sp sp' a)
  then obtain t where t: "atom_token (sp_inner a) = Some t" and "sp_span a = sp" "sp' = sp" by auto
  show ?case
    by (rule read_backI [OF "4.prems"]) (use reads_atom [OF "4.prems"(1) t \<open>sp_span a = sp\<close>] \<open>sp' = sp\<close> in simp_all)
qed simp_all

lemma printed_expression:
  assumes "nom_spec N" and "printable e" and "length (print_expr L e) \<le> n" and "stops 11 rest"
  shows "parses (expression N (crate_grammar N n)) (print_expr L e @ rest) e (strip rest)"
proof -
  have "reads N 10 e" using printable_read_back [OF assms(1,2)] expr_level_printable [OF assms(2)] by (simp add: read_back_def)
  then show ?thesis by (rule readsD(2)) (use assms(3,4) in simp_all)
qed

end
