(* ===== verification/ParseModule.thy ===== *)
theory ParseModule
  imports ParsePrint
begin

text \<open>
  Printing and parsing of modules: statements that are assignments, returns or \<open>pass\<close>, one to a line.
  What is printed, with any layout, is read back as it was, by the whole of \<open>parse\<close>.
\<close>

section \<open>Printing\<close>

fun print_stmt :: "layout \<Rightarrow> statement spanned \<Rightarrow> tokens" where
  "print_stmt L (Spanned sp (StAsn (Assign (Spanned _ (Atomic (Spanned spn (AtName n)))) v _))) =
     (TkIdent n, spn) # spaced L [TkEqual] @ print_expr (sub 0 L) v"
| "print_stmt L (Spanned sp (StRet (Return (Inr v)))) = (TkReturn, sp) # (TkWhitespace, L [0]) # print_expr (sub 0 L) v"
| "print_stmt L (Spanned sp StPass) = [(TkPass, sp)]"
| "print_stmt L _ = []"

fun print_body :: "layout \<Rightarrow> statement spanned list \<Rightarrow> tokens" where
  "print_body L [] = []"
| "print_body L (s # body) = print_stmt (sub 0 L) s @ (TkNewline, L [0]) # print_body (sub (Suc 0) L) body"

fun print_module :: "layout \<Rightarrow> module \<Rightarrow> tokens" where
  "print_module L (Module body) = print_body L body"

fun printable_statement :: "statement spanned \<Rightarrow> bool" where
  "printable_statement (Spanned sp (StAsn (Assign (Spanned spp (Atomic (Spanned spn (AtName n)))) v kind))) \<longleftrightarrow>
     printable v \<and> kind = None \<and> spp = spn \<and> sp = (fst spn, snd (sp_span v))"
| "printable_statement (Spanned sp (StRet (Return (Inr v)))) \<longleftrightarrow> printable v \<and> snd sp = snd (sp_span v)"
| "printable_statement (Spanned sp StPass) \<longleftrightarrow> True"
| "printable_statement _ \<longleftrightarrow> False"

section \<open>Statements\<close>

text \<open>Tokens that begin no atom.\<close>

lemma fails_atom:
  assumes nom: "nom_spec N" and t: "upcoming_token ts \<in> {None, Some TkPass, Some TkReturn}"
  shows "fails (atom_p N G) ts"
proof -
  have "fails (float_p N) ts"
    unfolding float_p_def tuple_float_eq [OF nom] by (intro fails_bind_first fails_digits) (use t in auto)
  moreover have "fails name_p ts" "fails string_ref ts" by (intro fails_name fails_string; use t in auto)+
  moreover have "fails integer_p ts" unfolding integer_p_def by (intro fails_bind_first fails_digits) (use t in auto)
  moreover have "fails (tuple_literal N G) ts" unfolding tuple_literal_def by (rule fails_no_token) (use t in auto)
  moreover have "fails atom_fallback ts" unfolding atom_fallback_def by (intro fails_bind_first fails_any_of) (use t in auto)
  ultimately show ?thesis unfolding atom_p_def by (intro fails_alt [OF nom_specD(5) [OF nom]]) simp
qed

lemma fails_primary:
  "nom_spec N \<Longrightarrow> upcoming_token ts \<in> {None, Some TkPass, Some TkReturn} \<Longrightarrow> fails (primary_p N G) ts"
  unfolding primary_p_def by (intro fails_bind_first fails_atom)

lemma fails_small_start:
  assumes nom: "nom_spec N" and t: "upcoming_token ts \<in> {None, Some TkPass, Some TkReturn}"
  shows "fails (dyn_assign N G) ts" "fails (dyn_annotation N G) ts"
  unfolding dyn_assign_def assignment_p_def dyn_annotation_def
  by (intro fails_bind_first fails_terminated [OF nom_specD(14) [OF nom]] fails_terminated [OF nom_specD(12) [OF nom]]
      fails_primary [OF nom t] fails_name; use t in auto)+

text \<open>Nothing parses at the end of the stream.\<close>

lemma fails_expression_Nil:
  assumes nom: "nom_spec N" shows "fails (expression N G) []"
proof -
  note alt = fails_alt [OF nom_specD(6) [OF nom]]
  have "fails (power_p N G) []"
    unfolding power_p_def await_primary_def
    by (intro fails_bind_first fails_pif_else fails_terminated [OF nom_specD(10) [OF nom]] fails_expect fails_primary [OF nom]) simp_all
  then have "fails (factor N G) []" unfolding factor_def by (intro fails_pif_else fails_any_token) auto
  then have "fails (term_p N G) []" unfolding term_p_def by (intro fails_ws [OF nom]) (simp add: fails_bind_first)
  then have "fails (sum_p N G) []" unfolding sum_p_def by (intro fails_ws [OF nom]) (simp add: fails_bind_first)
  then have "fails (shift_expr N G) []" unfolding shift_expr_def by (intro fails_ws [OF nom]) (simp add: fails_bind_first)
  then have "fails (bitwise_and N G) []" unfolding bitwise_and_def by (intro fails_ws [OF nom]) (simp add: fails_bind_first)
  then have "fails (bitwise_xor N G) []" unfolding bitwise_xor_def by (intro fails_ws [OF nom]) (simp add: fails_bind_first)
  then have or: "fails (bitwise_or N G) []" unfolding bitwise_or_def by (intro fails_ws [OF nom]) (simp add: fails_bind_first)
  then have "fails (equality N G) []" unfolding equality_def by (intro fails_skip [OF nom]) (simp add: fails_bind_first)
  then have "fails (comparison N G) []" unfolding comparison_def by (intro alt) (simp add: or)
  moreover have "fails (not_comparison N G) []" unfolding not_comparison_def by (intro fails_ws [OF nom] fails_no_token) simp
  ultimately have "fails (inversion N G) []" unfolding inversion_def by (intro alt) simp
  then have "fails (conjunction N G) []" unfolding conjunction_def and_inversion_def by (intro alt) (simp add: fails_bind_first)
  then have "fails (disjunction N G) []" unfolding disjunction_def or_conjunction_def by (intro alt) (simp add: fails_bind_first)
  then have "fails (nom_alt_expr N [ternary_disjunction N G, disjunction N G]) []"
    unfolding ternary_disjunction_def by (intro alt) (simp add: fails_bind_first)
  then show ?thesis unfolding expression_def by (rule fails_bind_first)
qed

lemma parses_decorators:
  assumes "0 < g_fuel G" and "upcoming_token ts \<noteq> Some TkAt" shows "parses (decorator_list N G) ts [] ts"
proof -
  obtain n where n: "g_fuel G = Suc n" using assms(1) by (cases "g_fuel G") simp_all
  have "fails (decorator N G) ts" unfolding decorator_def by (intro fails_no_token assms(2))
  then show ?thesis unfolding decorator_list_def n by (intro parses_ploop_end parses_pif_else parses_pret)
qed

lemma fails_statement_Nil:
  assumes nom: "nom_spec N" and fuel: "0 < g_fuel G" shows "fails (statement_p N G) []"
proof -
  note alt = fails_alt [OF nom_specD(7) [OF nom]]
  have "fails (return_p N G) []" "fails dyn_pass []" unfolding return_p_def dyn_pass_def by (intro fails_no_token; simp)+
  moreover have "fails dyn_span_ref []" unfolding dyn_span_ref_def by (intro fails_bind_first fails_expect_with) simp
  ultimately have small: "fails (small_stmt N G) []"
    unfolding small_stmt_def using fails_small_start [OF nom, of "[]" G] fails_expression_Nil [OF nom, of G]
    by (intro alt) (simp add: dyn_return_def dyn_expr_def fails_bind_first)
  have "fails (class_def_p N G) []" "fails (function_def_p N G) []"
  proof -
    have dec: "parses (decorator_list N G) [] [] []" by (rule parses_decorators [OF fuel]) simp
    then show "fails (class_def_p N G) []" unfolding class_def_p_def
      by (rule fails_bind_later) (intro fails_no_token, simp)
    have "parses (unwrap_or (pbind (decorator_list N G) (\<lambda>dec. pret (Some dec))) None) [] (Some []) []"
      unfolding unwrap_or_def by (intro parses_por_first parses_bind [OF dec] parses_pret)
    then show "fails (function_def_p N G) []" unfolding function_def_p_def
      by (rule fails_bind_later) (intro fails_no_token, simp)
  qed
  moreover have "fails (import_p N G) []"
    unfolding import_p_def import_from_def from_import_def
    by (intro fails_alt [OF nom_specD(8) [OF nom]]) (simp add: fails_no_token)
  moreover have "fails (if_stmt N G) []" "fails (while_stmt_p N G) []"
    unfolding if_stmt_def while_stmt_p_def by (intro fails_no_token; simp)+
  ultimately have "fails (compound_stmt N G) []"
    unfolding compound_stmt_def
    by (intro alt) (simp add: dyn_funcdef_def dyn_import_def dyn_classdef_def dyn_ifstmt_def dyn_while_def fails_bind_first)
  then have "fails (nom_alt_stmt N [small_stmt N G, compound_stmt N G]) []" using small by (intro alt) simp
  moreover have "parses (unwrap_or (whitespace N) ()) [] () []"
    unfolding unwrap_or_def using parses_whitespace [OF nom, of "[]"] by (simp add: parses_por_first)
  ultimately show ?thesis unfolding statement_p_def by (rule fails_bind_later [rotated])
qed

text \<open>What is printed for a statement.\<close>

lemma parses_many_ws: "nom_spec N \<Longrightarrow> \<exists>xs. parses (expect_many_n N 0 TkWhitespace) ts xs (strip ts)"
  using parses_many0 [of N TkWhitespace ts] by (auto simp: expect_many_n_def)

lemma parses_primary_name:
  assumes nom: "nom_spec N" and rest: "stops 1 rest"
  shows "parses (primary_p N G) ((TkIdent n, sp) # rest) (Spanned sp (Atomic (Spanned sp (AtName n)))) rest"
proof -
  have "parses (atom_p N G) ((TkIdent n, sp) # rest) (Spanned sp (AtName n)) rest"
    by (rule parses_atom [OF nom]) (use stops_token [OF rest, of TkDot] in simp_all)
  then show ?thesis unfolding primary_p_def
    by (rule parses_bind) (use parses_por_second [OF fails_left_recurse [OF nom rest] parses_pret] in \<open>simp add: spanned_replace_with_def\<close>)
qed

lemma stops_newline [simp]: "stops 11 ((TkNewline, nl) # rest)" "strip ((TkNewline, nl) # rest) = (TkNewline, nl) # rest"
  by (simp_all add: stops_def)

lemma parses_assign:
  assumes nom: "nom_spec N" and v: "printable v" and n: "length (print_expr (sub 0 L) v) \<le> n"
  shows "parses (assignment_p N (crate_grammar N n)) ((TkIdent x, sp) # spaced L [TkEqual] @ print_expr (sub 0 L) v @ (TkNewline, nl) # rest)
    (Spanned (fst sp, snd (sp_span v)) (Assign (Spanned sp (Atomic (Spanned sp (AtName x)))) v None)) ((TkNewline, nl) # rest)"
proof -
  let ?G = "crate_grammar N n" and ?v = "print_expr (sub 0 L) v @ (TkNewline, nl) # rest"
  let ?eq = "(TkEqual, L [Suc 0]) # (TkWhitespace, L [Suc (Suc 0)]) # ?v"
  obtain xs ys where ws: "parses (expect_many_n N 0 TkWhitespace) (spaced L [TkEqual] @ ?v) xs ?eq"
    and ws': "parses (expect_many_n N 0 TkWhitespace) ((TkWhitespace, L [Suc (Suc 0)]) # ?v) ys ?v"
    using parses_many_ws [OF nom, of "spaced L [TkEqual] @ ?v"] parses_many_ws [OF nom, of "(TkWhitespace, L [Suc (Suc 0)]) # ?v"]
    by (auto simp: strip_print [OF v])
  have "stops 1 (spaced L [TkEqual] @ ?v)" by (rule stops_spaced) simp_all
  note target = parses_terminated [OF nom_specD(14) [OF nom] parses_primary_name [OF nom this] ws]
  have no_colon: "fails (nom_terminated N (expect TkColon) (expect_many_n N 0 TkWhitespace)) ?eq"
    by (intro fails_terminated [OF nom_specD(10) [OF nom]] fails_expect) simp
  note equal = parses_terminated [OF nom_specD(10) [OF nom] parses_expect ws']
  have "parses (expression N ?G) ?v v ((TkNewline, nl) # rest)"
    using printed_expression [OF nom v n stops_newline(1)] by simp
  then show ?thesis unfolding assignment_p_def
    by (rule_tac parses_bind [OF target], rule_tac parses_bind, rule_tac parses_pif_else [OF no_colon parses_pret],
        rule_tac parses_bind [OF equal], rule_tac parses_bind, assumption) (simp add: parses_pret)
qed

lemma parses_return:
  assumes nom: "nom_spec N" and v: "printable v" and n: "length (print_expr (sub 0 L) v) \<le> n"
  shows "parses (return_p N (crate_grammar N n)) ((TkReturn, sp) # (TkWhitespace, ws) # print_expr (sub 0 L) v @ (TkNewline, nl) # rest)
    (Spanned (fst sp, snd (sp_span v)) (Return (Inr v))) ((TkNewline, nl) # rest)"
proof -
  have "reads N 10 v" using printable_read_back [OF nom v] expr_level_printable [OF v] by (simp add: read_back_def)
  then have "parses (expression N (crate_grammar N n)) ([(TkWhitespace, ws)] @ print_expr (sub 0 L) v @ (TkNewline, nl) # rest) v (strip ((TkNewline, nl) # rest))"
    by (rule reads_lead) (use n stops_newline(1) [of nl rest] in \<open>simp_all\<close>)
  then have e: "parses (expression N (crate_grammar N n)) ((TkWhitespace, ws) # print_expr (sub 0 L) v @ (TkNewline, nl) # rest) v ((TkNewline, nl) # rest)"
    by simp
  show ?thesis unfolding return_p_def
    by (rule parses_token, rule parses_bind, rule parses_pif [OF e parses_pret]) (simp add: parses_pret)
qed

lemma parses_small:
  assumes nom: "nom_spec N" and s: "printable_statement s" and n: "length (print_stmt L s) \<le> n"
  shows "parses (small_stmt N (crate_grammar N n)) (print_stmt L s @ (TkNewline, nl) # rest) s ((TkNewline, nl) # rest)"
    and "strip (print_stmt L s @ (TkNewline, nl) # rest) = print_stmt L s @ (TkNewline, nl) # rest"
    and "upcoming_token (print_stmt L s @ (TkNewline, nl) # rest) \<noteq> Some TkNewline"
proof -
  note alt = nom_specD(7) [OF nom]
  let ?G = "crate_grammar N n"
  consider (asn) sp spn x v where "s = Spanned sp (StAsn (Assign (Spanned spn (Atomic (Spanned spn (AtName x)))) v None))"
      "printable v" "sp = (fst spn, snd (sp_span v))"
    | (ret) sp v where "s = Spanned sp (StRet (Return (Inr v)))" "printable v" "snd sp = snd (sp_span v)"
    | (pass) sp where "s = Spanned sp StPass"
    using s by (cases s rule: printable_statement.cases) auto
  then have "parses (small_stmt N ?G) (print_stmt L s @ (TkNewline, nl) # rest) s ((TkNewline, nl) # rest)
    \<and> strip (print_stmt L s @ (TkNewline, nl) # rest) = print_stmt L s @ (TkNewline, nl) # rest
    \<and> upcoming_token (print_stmt L s @ (TkNewline, nl) # rest) \<noteq> Some TkNewline"
  proof cases
    case asn
    have "length (print_expr (sub 0 L) v) \<le> n" using n asn(1) by simp
    from parses_assign [OF nom asn(2) this, where x = x and sp = spn and nl = nl and rest = rest]
    have "parses (dyn_assign N ?G) (print_stmt L s @ (TkNewline, nl) # rest) s ((TkNewline, nl) # rest)"
      unfolding dyn_assign_def asn(1,3) by (simp, rule_tac parses_bind, assumption) (simp add: parses_pret)
    then show ?thesis unfolding small_stmt_def using asn(1) by (auto intro: parses_alt_first [OF alt])
  next
    case ret
    let ?ts = "print_stmt L s @ (TkNewline, nl) # rest"
    have "length (print_expr (sub 0 L) v) \<le> n" using n ret(1) by simp
    from parses_return [OF nom ret(2) this, where sp = sp and ws = "L [0]" and nl = nl and rest = rest]
    have "parses (dyn_return N ?G) ?ts s ((TkNewline, nl) # rest)"
      unfolding dyn_return_def ret(1) by (simp, rule_tac parses_bind, assumption) (simp add: parses_pret flip: ret(3))
    moreover have "fails (dyn_assign N ?G) ?ts" "fails (dyn_annotation N ?G) ?ts"
      by (intro fails_small_start [OF nom]; simp add: ret(1))+
    ultimately show ?thesis unfolding small_stmt_def
      by (auto simp: ret(1) intro: parses_alt_first [OF alt] parses_alt_next [OF alt])
  next
    case pass
    let ?ts = "print_stmt L s @ (TkNewline, nl) # rest"
    have "parses dyn_pass ?ts s ((TkNewline, nl) # rest)"
      unfolding dyn_pass_def pass by (simp, rule parses_token) (simp add: parses_pret)
    moreover have "fails (dyn_assign N ?G) ?ts" "fails (dyn_annotation N ?G) ?ts"
      by (intro fails_small_start [OF nom]; simp add: pass)+
    moreover have "fails (dyn_return N ?G) ?ts"
      unfolding dyn_return_def return_p_def by (intro fails_bind_first fails_no_token) (simp add: pass)
    ultimately show ?thesis unfolding small_stmt_def
      by (auto simp: pass intro: parses_alt_first [OF alt] parses_alt_next [OF alt])
  qed
  then show "parses (small_stmt N ?G) (print_stmt L s @ (TkNewline, nl) # rest) s ((TkNewline, nl) # rest)"
    and "strip (print_stmt L s @ (TkNewline, nl) # rest) = print_stmt L s @ (TkNewline, nl) # rest"
    and "upcoming_token (print_stmt L s @ (TkNewline, nl) # rest) \<noteq> Some TkNewline" by blast+
qed

section \<open>Modules\<close>

lemma parses_stmt:
  assumes nom: "nom_spec N" and s: "printable_statement s" and n: "length (print_stmt L s) \<le> n"
  shows "parses (statement_p N (crate_grammar N n)) (print_stmt L s @ (TkNewline, nl) # rest) s ((TkNewline, nl) # rest)"
proof -
  let ?ts = "print_stmt L s @ (TkNewline, nl) # rest"
  have "parses (unwrap_or (whitespace N) ()) ?ts () ?ts"
    unfolding unwrap_or_def
    by (rule parses_por_first) (use parses_whitespace [OF nom, of ?ts] parses_small(2) [OF assms] in simp)
  then show ?thesis unfolding statement_p_def
    by (rule parses_bind) (rule parses_alt_first [OF nom_specD(7) [OF nom] parses_small(1) [OF assms]])
qed

lemma parses_newline:
  assumes nom: "nom_spec N" and "upcoming_token rest \<noteq> Some TkNewline"
  shows "\<exists>xs. parses (expect_many_n N 0 TkNewline) ((TkNewline, nl) # rest) xs rest"
proof -
  have "skip_all TkNewline ((TkNewline, nl) # rest) = rest" using assms(2) by (cases rest) auto
  then show ?thesis using parses_many0 [OF nom, of TkNewline "(TkNewline, nl) # rest"] by (auto simp: expect_many_n_def)
qed

lemma print_stmt_first:
  "printable_statement s \<Longrightarrow> upcoming_token (print_stmt L s @ rest) \<notin> {None, Some TkNewline}
    \<and> (\<forall>t. upcoming_token (print_stmt L s @ rest) = Some t \<longrightarrow> t \<noteq> TkWhitespace \<and> (\<forall>c. t \<noteq> TkCommentRef c))"
  by (cases s rule: printable_statement.cases) simp_all

lemma print_body_first:
  assumes "list_all printable_statement body"
  shows "upcoming_token (print_body L body)
    \<notin> {Some TkNewline, Some TkWhitespace} \<union> Some ` range TkCommentRef"
proof (cases body)
  case (Cons s body')
  with assms have "printable_statement s" by simp
  from print_stmt_first [OF this, of "sub 0 L" "(TkNewline, L [0]) # print_body (sub (Suc 0) L) body'"] show ?thesis
    by (cases "upcoming_token (print_body L body)") (auto simp: Cons)
qed simp

lemma parses_body:
  assumes nom: "nom_spec N" and "list_all printable_statement body"
    and "length (print_body L body) \<le> n" and "length body < k"
  shows "parses (ploop k (\<lambda>body. pif (statement_p N (crate_grammar N n)) (\<lambda>stmt.
           pbind (expect_many_n N 0 TkNewline) (\<lambda>_. pret (Inl (body @ [stmt])))) (pret (Inr body))) done)
    (print_body L body) (done @ body) []"
  using assms(2-)
proof (induction body arbitrary: k "done" L)
  case Nil
  have "0 < g_fuel (crate_grammar N n)" by (simp add: fuel_crate)
  then have "fails (statement_p N (crate_grammar N n)) []" by (rule fails_statement_Nil [OF nom])
  then show ?case using Nil by (cases k) (auto intro: parses_ploop_end parses_pif_else parses_pret simp del: ploop.simps)
next
  case (Cons s body)
  obtain k' where k: "k = Suc k'" "length body < k'" using Cons.prems(3) by (cases k) auto
  let ?rest = "print_body (sub (Suc 0) L) body" and ?nl = "L [0]" and ?s = "print_stmt (sub 0 L) s"
  have stmt: "parses (statement_p N (crate_grammar N n)) (?s @ (TkNewline, ?nl) # ?rest) s ((TkNewline, ?nl) # ?rest)"
    by (rule parses_stmt [OF nom]) (use Cons.prems in simp_all)
  obtain xs where nl: "parses (expect_many_n N 0 TkNewline) ((TkNewline, ?nl) # ?rest) xs ?rest"
    using parses_newline [OF nom, of ?rest ?nl] print_body_first [of body "sub (Suc 0) L"] Cons.prems(1) by auto
  have rest: "parses (ploop k' (\<lambda>body. pif (statement_p N (crate_grammar N n)) (\<lambda>stmt.
           pbind (expect_many_n N 0 TkNewline) (\<lambda>_. pret (Inl (body @ [stmt])))) (pret (Inr body))) (done @ [s]))
     ?rest ((done @ [s]) @ body) []"
    by (rule Cons.IH) (use Cons.prems k in simp_all)
  show ?case unfolding k
    using parses_ploop_next [OF parses_pif [OF stmt parses_bind [OF nl parses_pret]] rest] by (simp del: ploop.simps)
qed

lemma parses_chomp:
  assumes "0 < g_fuel G" and "upcoming_token ts \<notin> {Some TkNewline, Some TkWhitespace} \<union> Some ` range TkCommentRef"
  shows "parses (chomp G) ts [] ts"
proof -
  obtain n where n: "g_fuel G = Suc n" using assms(1) by (cases "g_fuel G") simp_all
  have "fails (expect_with (\<lambda>t _. case t of TkCommentRef _ \<Rightarrow> True | _ \<Rightarrow> False)) ts"
    by (rule fails_expect_with) (use assms(2) in \<open>auto split: py_token.split\<close>)
  then show ?thesis unfolding chomp_def n
    by (intro parses_ploop_end parses_pif_else fails_expect parses_pret) (use assms(2) in simp_all)
qed

text \<open>The last \<open>chomp\<close> meets the end of the stream, so that the stream is complete.\<close>

lemma chomp_Nil:
  assumes "0 < g_fuel G" and up: "upcoming pos [] st"
  shows "\<exists>st'. chomp G pos st = Some (Inr (Inr (pos, []), st')) \<and> ts_is_eof st'"
proof -
  obtain n where n: "g_fuel G = Suc n" using assms(1) by (cases "g_fuel G") simp_all
  have up': "upcoming pos [] (st\<lparr>ts_complete := True\<rparr>)" using up by (simp add: upcoming_def ts_at_def)
  have eof: "ts_is_eof (st\<lparr>ts_complete := True\<rparr>)" by (simp add: ts_is_eof_def)
  show ?thesis unfolding chomp_def n expect_def
    using eof by (simp add: pbind_def pif_def pret_def expect_with_Nil [OF up] expect_with_Nil [OF up'])
qed

lemma module_parses:
  assumes nom: "nom_spec N" and p: "list_all printable_statement body" and n: "length (print_module L (Module body)) \<le> n"
    and up: "upcoming pos (print_module L (Module body)) st"
  shows "\<exists>pos' st'. module_p N (crate_grammar N n) pos st = Some (Inr (Inr (pos', Module body), st')) \<and> ts_is_eof st'"
proof -
  have fuel: "g_fuel (crate_grammar N n) = Suc n" by (simp add: fuel_crate)
  have "length body \<le> length (print_body K body)" for K by (induction body arbitrary: K) (simp_all add: le_SucI trans_le_add2)
  from this [of L] have loop: "parses (ploop (g_fuel (crate_grammar N n)) (\<lambda>body. pif (statement_p N (crate_grammar N n)) (\<lambda>stmt.
           pbind (expect_many_n N 0 TkNewline) (\<lambda>_. pret (Inl (body @ [stmt])))) (pret (Inr body))) [])
    (print_module L (Module body)) ([] @ body) []"
    unfolding print_module.simps using p n by (intro parses_body [OF nom]) (simp_all add: fuel)
  have head: "parses (chomp (crate_grammar N n)) (print_module L (Module body)) [] (print_module L (Module body))"
    unfolding print_module.simps by (intro parses_chomp print_body_first [OF p]) (simp add: fuel)
  from head up obtain pos1 st1
    where 1: "chomp (crate_grammar N n) pos st = Some (Inr (Inr (pos1, []), st1))" "later st st1"
      "upcoming pos1 (print_module L (Module body)) st1"
    by (rule parsesD)
  from loop 1(3) obtain pos2 st2
    where 2: "ploop (g_fuel (crate_grammar N n)) (\<lambda>body. pif (statement_p N (crate_grammar N n)) (\<lambda>stmt.
           pbind (expect_many_n N 0 TkNewline) (\<lambda>_. pret (Inl (body @ [stmt])))) (pret (Inr body))) [] pos1 st1
         = Some (Inr (Inr (pos2, [] @ body), st2))" "later st1 st2" "upcoming pos2 [] st2"
    by (rule parsesD)
  from chomp_Nil [OF _ 2(3), of "crate_grammar N n"] obtain st3
    where 3: "chomp (crate_grammar N n) pos2 st2 = Some (Inr (Inr (pos2, []), st3))" "ts_is_eof st3"
    by (auto simp: fuel)
  show ?thesis unfolding module_p_def
    using 3(2) by (simp add: pbind_def prust_def pret_def 1(1) 2(1) 3(1) del: ploop.simps)
qed

lemma printed_module_run:
  assumes "nom_spec N" and "list_all printable_statement body" and "length (print_module L (Module body)) \<le> fuel"
  shows "parse_module N fuel (map Inr (print_module L (Module body))) = Some (Inr (Module body))"
proof -
  have "upcoming 0 (print_module L (Module body)) \<lparr>ts_tokens = map Inr (print_module L (Module body)), ts_pulled = 0, ts_complete = False\<rparr>"
    by (simp add: upcoming_def ts_at_def)
  from module_parses [OF assms this] show ?thesis by (auto simp: parse_module_def parse_def)
qed

text \<open>
  C9. Printing and parsing. A module of assignments, returns and \<open>pass\<close> whose expressions have the
  shape and the spans of the levels of the grammar is read back from its tokens as it was, by the whole
  of \<open>parse\<close>: precedence, associativity and spans are those the syntax tree had, and the stream is at its
  end. The layout, the spans of white space, operators and ends of lines, may be any.
\<close>

theorem printed_module_parses:
  assumes "nom_spec N" and "list_all printable_statement body" and "length (print_module L (Module body)) \<le> fuel"
  shows "parse_module N fuel (map Inr (print_module L (Module body))) = Some (Inr (Module body))"
  by (rule printed_module_run [OF assms])

text \<open>\<open>x = a - 1 - b * 2\<close>, then \<open>pass\<close> and \<open>return not x == 3\<close>.\<close>

definition sample_name :: "nat \<Rightarrow> u32 \<Rightarrow> expr spanned" where
  "sample_name k g = Spanned (k, k + 1) (ExprPrimary (Spanned (k, k + 1) (Atomic (Spanned (k, k + 1) (AtName (SpanRef g 0))))))"

definition sample_int :: "nat \<Rightarrow> 64 word \<Rightarrow> expr spanned" where
  "sample_int k n = Spanned (k, k + 1) (ExprPrimary (Spanned (k, k + 1) (Atomic (Spanned (k, k + 1) (AtInt n)))))"

definition sample_body :: "statement spanned list" where
  "sample_body =
     [Spanned (0, 17) (StAsn (Assign (Spanned (0, 1) (Atomic (Spanned (0, 1) (AtName (SpanRef 1 0)))))
        (bin_op Sub (bin_op Sub (sample_name 4 2) (sample_int 8 1)) (bin_op Mult (sample_name 12 3) (sample_int 16 2))) None)),
      Spanned (18, 22) StPass,
      Spanned (23, 40) (StRet (Return (Inr (Spanned (30, 40) (Unary UNot (bin_op Eq (sample_name 34 1) (sample_int 39 3)))))))]"

lemma sample_printable: "list_all printable_statement sample_body"
  by (simp add: sample_body_def sample_name_def sample_int_def bin_op_def operand_levels_def)

lemma sample_length: "length (print_module L (Module sample_body)) \<le> 40"
  by (simp add: sample_body_def sample_name_def sample_int_def bin_op_def spaced_def)

theorem printed_module_parses_witness:
  "\<forall>L. parse_module nom_ref 40 (map Inr (print_module L (Module sample_body))) = Some (Inr (Module sample_body))"
  by (rule allI) (rule printed_module_parses [OF nom_ref_spec sample_printable sample_length])

end
