(* ===== verification/FlatCode.thy ===== *)
theory FlatCode
  imports Ast
begin

text \<open>
  The flat code of \<^verbatim>\<open>montyc_flatcode/src/raw_inst.rs\<close> and \<^verbatim>\<open>montyc_flatcode/src/lib.rs\<close>:
  instructions, sequences and the builder. A builder action is a value of type \<open>'a lower\<close>: it
  takes the code built so far and returns a result with the new code, or panics. The operand
  and target sets of an instruction, and the well-formedness of a sequence in terms of them,
  are specification vocabulary for the theories that follow.
\<close>

section \<open>Instructions\<close>

datatype dunder =
    DunderUnary unary_op
  | DunderInfix infix_op
  | GetItem
  | SetItem
  | DocComment
  | AsBool

text \<open>\<open>Display for Dunder\<close>.\<close>

fun dunder_display :: "dunder \<Rightarrow> string rust" where
  "dunder_display (DunderUnary _) = Inl TodoMacro"
| "dunder_display (DunderInfix op) = and_then (infix_op_as_ref op) (\<lambda>s. Inr (''__'' @ s @ ''__''))"
| "dunder_display DocComment = Inr ''__doc__''"
| "dunder_display GetItem = Inr ''__getitem__''"
| "dunder_display SetItem = Inr ''__setitem__''"
| "dunder_display AsBool = Inr ''__bool__''"

datatype raw_inst =
    Defn span_ref "(span_ref \<times> nat option) list" "nat option" nat
  | Class span_ref
  | BuildClass nat nat
  | RefAsStr span_ref
  | CallInst nat "nat list"
  | SetVar span_ref nat
  | UseVar span_ref
  | GetAttribute nat nat
  | GetDunder nat dunder
  | SetAttribute nat nat nat
  | SetDunder nat dunder nat
  | ImportInst "span_ref list" nat
  | ConstInst const
  | TupleInst "nat list"
  | Nop
  | Undefined
  | IfInst nat "nat option" "nat option"
  | Br nat
  | PhiJump nat nat
  | JumpTarget
  | PhiRecv
  | ReturnInst nat
  | SetAnnotation span_ref nat

text \<open>\<open>usize::MAX\<close>.\<close>

definition INVALID_VALUE :: nat where
  "INVALID_VALUE = 2 ^ 64 - 1"

section \<open>Sequences and code\<close>

record inst_attrs =
  ia_span :: "span option"
  ia_ast :: "ast_node option"

definition default_attrs :: inst_attrs where
  "default_attrs = \<lparr>ia_span = None, ia_ast = None\<rparr>"

record flat_inst =
  fi_op :: raw_inst
  fi_value :: nat
  fi_attrs :: inst_attrs

datatype sequence_type = SeqModule | SeqClass | SeqFunction

record flat_seq =
  fs_inst :: "flat_inst list"
  fs_kind :: sequence_type
  fs_span :: "module_ref \<times> span"
  fs_ast :: "ast_node option"

record flat_code =
  fc_index :: nat
  fc_mref :: module_ref
  fc_sequences :: "flat_seq list"

text \<open>The body is only \<open>...\<close>, or a string followed by \<open>...\<close>.\<close>

definition is_stubbed :: "flat_seq \<Rightarrow> bool" where
  "is_stubbed seq =
     (case map fi_op (fs_inst seq) of
        [ConstInst CEllipsis] \<Rightarrow> True
      | [ConstInst (CString _), ConstInst CEllipsis] \<Rightarrow> True
      | _ \<Rightarrow> False)"

definition flatcode_new :: "module_ref \<times> span \<Rightarrow> flat_code" where
  "flatcode_new sp =
     \<lparr>fc_index = 0, fc_mref = fst sp,
      fc_sequences = [\<lparr>fs_inst = [], fs_kind = SeqModule, fs_span = sp, fs_ast = None\<rparr>]\<rparr>"

definition is_sequence_ellipsis_stubbed :: "flat_code \<Rightarrow> nat \<Rightarrow> bool" where
  "is_sequence_ellipsis_stubbed fc seq =
     (case get_at (fc_sequences fc) seq of
        None \<Rightarrow> False
      | Some s \<Rightarrow> (case map fi_op (fs_inst s) of [ConstInst CEllipsis] \<Rightarrow> True | _ \<Rightarrow> False))"

section \<open>The builder\<close>

type_synonym 'a lower = "flat_code \<Rightarrow> ('a \<times> flat_code) rust"

definition lret :: "'a \<Rightarrow> 'a lower" where
  "lret x fc = Inr (x, fc)"

definition lbind :: "'a lower \<Rightarrow> ('a \<Rightarrow> 'b lower) \<Rightarrow> 'b lower" where
  "lbind m f fc = and_then (m fc) (\<lambda>(x, fc'). f x fc')"

definition llift :: "'a rust \<Rightarrow> 'a lower" where
  "llift r fc = and_then r (\<lambda>x. Inr (x, fc))"

text \<open>Run actions from left to right and collect their results.\<close>

fun lseq :: "'a lower list \<Rightarrow> 'a list lower" where
  "lseq [] = lret []"
| "lseq (m # ms) = lbind m (\<lambda>x. lbind (lseq ms) (\<lambda>xs. lret (x # xs)))"

definition current_insts :: "flat_code \<Rightarrow> flat_inst list" where
  "current_insts fc =
     (case get_at (fc_sequences fc) (fc_index fc) of None \<Rightarrow> [] | Some seq \<Rightarrow> fs_inst seq)"

definition set_current_insts :: "flat_inst list \<Rightarrow> flat_code \<Rightarrow> flat_code" where
  "set_current_insts is fc =
     fc\<lparr>fc_sequences := (fc_sequences fc)[fc_index fc := (fc_sequences fc ! fc_index fc)\<lparr>fs_inst := is\<rparr>]\<rparr>"

definition inst :: "raw_inst \<Rightarrow> nat lower" where
  "inst raw fc =
     (case get_at (fc_sequences fc) (fc_index fc) of
        Some seq \<Rightarrow>
          let is = fs_inst seq @
                [\<lparr>fi_op = raw, fi_value = length (fs_inst seq), fi_attrs = default_attrs\<rparr>]
          in Inr (length is - 1, set_current_insts is fc)
      | None \<Rightarrow> Inl UnreachableCode)"

definition last_inst :: "flat_code \<Rightarrow> flat_inst option" where
  "last_inst fc =
     (case get_at (fc_sequences fc) (fc_index fc) of
        None \<Rightarrow> None
      | Some seq \<Rightarrow> if fs_inst seq = [] then None else Some (last (fs_inst seq)))"

text \<open>Overwrite one instruction of the current sequence; indexing outside it panics.\<close>

definition patch :: "nat \<Rightarrow> (flat_inst \<Rightarrow> flat_inst rust) \<Rightarrow> unit lower" where
  "patch i f fc =
     (case get_at (current_insts fc) i of
        None \<Rightarrow> Inl IndexOutOfBounds
      | Some x \<Rightarrow> and_then (f x) (\<lambda>x'. Inr ((), set_current_insts ((current_insts fc)[i := x']) fc)))"

definition set_op :: "raw_inst \<Rightarrow> flat_inst \<Rightarrow> flat_inst rust" where
  "set_op raw x = Inr (x\<lparr>fi_op := raw\<rparr>)"

definition put_span :: "span \<Rightarrow> flat_inst \<Rightarrow> flat_inst rust" where
  "put_span sp x = Inr (x\<lparr>fi_attrs := (fi_attrs x)\<lparr>ia_span := Some sp\<rparr>\<rparr>)"

fun set_span_for_values :: "nat list \<Rightarrow> span \<Rightarrow> unit lower" where
  "set_span_for_values [] sp = lret ()"
| "set_span_for_values (v # vs) sp =
     lbind (patch v (put_span sp)) (\<lambda>_. set_span_for_values vs sp)"

text \<open>\<open>if let Some(span) = span { self.set_span_for_values(values, span) }\<close>.\<close>

definition set_span_opt :: "nat list \<Rightarrow> span option \<Rightarrow> unit lower" where
  "set_span_opt vs sp = (case sp of None \<Rightarrow> lret () | Some s \<Rightarrow> set_span_for_values vs s)"

definition with_new_sequence :: "sequence_type \<Rightarrow> module_ref \<times> span \<Rightarrow> unit lower \<Rightarrow> nat lower" where
  "with_new_sequence kind sp f fc =
     (let old_index = fc_index fc;
          index = length (fc_sequences fc);
          fc1 = fc\<lparr>fc_index := index,
                   fc_sequences := fc_sequences fc @
                     [\<lparr>fs_inst = [], fs_kind = kind, fs_span = sp, fs_ast = None\<rparr>]\<rparr>
      in and_then (assert_that (index < length (fc_sequences fc1))) (\<lambda>_.
         and_then (f fc1) (\<lambda>(_, fc2). Inr (index, fc2\<lparr>fc_index := old_index\<rparr>))))"

section \<open>Operands, targets, well-formed sequences\<close>

fun operands :: "raw_inst \<Rightarrow> nat set" where
  "operands (Defn _ params returns _) = {v. \<exists>p \<in> set params. snd p = Some v} \<union> set_option returns"
| "operands (BuildClass _ c) = {c}"
| "operands (CallInst f args) = insert f (set args)"
| "operands (SetVar _ v) = {v}"
| "operands (GetAttribute ob a) = {ob, a}"
| "operands (GetDunder ob _) = {ob}"
| "operands (SetAttribute ob a v) = {ob, a, v}"
| "operands (SetDunder ob _ v) = {ob, v}"
| "operands (TupleInst vs) = set vs"
| "operands (IfInst t _ _) = {t}"
| "operands (PhiJump _ v) = {v}"
| "operands (ReturnInst v) = {v}"
| "operands (SetAnnotation _ v) = {v}"
| "operands _ = {}"

fun targets :: "raw_inst \<Rightarrow> nat set" where
  "targets (IfInst _ t f) = set_option t \<union> set_option f"
| "targets (Br t) = {t}"
| "targets (PhiJump r _) = {r}"
| "targets _ = {}"

fun is_label :: "raw_inst \<Rightarrow> bool" where
  "is_label JumpTarget = True"
| "is_label PhiRecv = True"
| "is_label _ = False"

fun sub_sequences :: "raw_inst \<Rightarrow> nat set" where
  "sub_sequences (Defn _ _ _ s) = {s}"
| "sub_sequences (BuildClass s _) = {s}"
| "sub_sequences _ = {}"

text \<open>
  Instruction \<open>j\<close> of a region that starts at \<open>a\<close> is well formed: it is numbered by its position,
  uses only earlier results, and jumps only to places inside the region. With \<open>lab\<close> every jump
  goes to a label.
\<close>

definition inst_ok :: "bool \<Rightarrow> nat \<Rightarrow> flat_inst list \<Rightarrow> nat \<Rightarrow> bool" where
  "inst_ok lab a is j \<longleftrightarrow> fi_value (is ! j) = j \<and> (\<forall>v \<in> operands (fi_op (is ! j)). v < j)
     \<and> (\<forall>t \<in> targets (fi_op (is ! j)). a \<le> t \<and> t < length is \<and> (lab \<longrightarrow> is_label (fi_op (is ! t))))"

definition region_ok :: "bool \<Rightarrow> nat \<Rightarrow> flat_inst list \<Rightarrow> bool" where
  "region_ok lab a is \<longleftrightarrow> (\<forall>j. a \<le> j \<and> j < length is \<longrightarrow> inst_ok lab a is j)"

definition seq_ok :: "bool \<Rightarrow> flat_seq \<Rightarrow> bool" where
  "seq_ok lab seq \<longleftrightarrow> region_ok lab 0 (fs_inst seq)"

end
