(* ===== verification/Lower.thy ===== *)
theory Lower
  imports FlatCode
begin

text \<open>
  The lowering of syntax trees to flat code, \<^verbatim>\<open>montyc_flatcode/src/lower.rs\<close>. There is one
  definition per visitor method. A method that visits children takes the children's visits as
  arguments (actions of type \<open>nat lower\<close>); the recursion over the tree, which the source gets
  from \<open>AstObject::visit_with\<close>, is the group of primitive recursive functions at the end.
\<close>

section \<open>Expressions\<close>

fun visit_const :: "atom \<Rightarrow> span option \<Rightarrow> nat lower" where
  "visit_const at sp =
     lbind (llift (case at of
         AtNone \<Rightarrow> Inr CNone
       | AtEllipsis \<Rightarrow> Inr CEllipsis
       | AtInt n \<Rightarrow> Inr (CInt n)
       | AtStr s \<Rightarrow> Inr (CString s)
       | AtBool b \<Rightarrow> Inr (CBool b)
       | AtFloat f \<Rightarrow> Inr (CFloat f)
       | _ \<Rightarrow> Inl UnreachableCode)) (\<lambda>const_v.
     lbind (inst (ConstInst const_v)) (\<lambda>v.
     lbind (set_span_opt [v] sp) (\<lambda>_.
     lret v)))"

definition visit_name :: "atom \<Rightarrow> span option \<Rightarrow> nat lower" where
  "visit_name at sp =
     lbind (llift (unwrap (atom_as_name at))) (\<lambda>variable.
     lbind (inst (UseVar variable)) (\<lambda>v.
     lbind (set_span_opt [v] sp) (\<lambda>_.
     lret v)))"

definition visit_tuple :: "nat lower list \<Rightarrow> span option \<Rightarrow> nat lower" where
  "visit_tuple elems sp =
     lbind (lseq elems) (\<lambda>vs.
     lbind (inst (TupleInst vs)) (\<lambda>v.
     lbind (set_span_opt [v] sp) (\<lambda>_.
     lret v)))"

definition visit_pass :: "nat lower" where
  "visit_pass = inst Nop"

definition visit_binop :: "nat lower \<Rightarrow> infix_op \<Rightarrow> nat lower \<Rightarrow> nat lower" where
  "visit_binop left op right =
     lbind left (\<lambda>left_value.
     lbind right (\<lambda>right_value.
     lbind (inst (GetDunder left_value (DunderInfix op))) (\<lambda>dunder.
     inst (CallInst dunder [left_value, right_value]))))"

definition visit_unary :: "unary_op \<Rightarrow> nat lower \<Rightarrow> nat lower" where
  "visit_unary op v =
     lbind v (\<lambda>value.
     lbind (inst (GetDunder value (DunderUnary op))) (\<lambda>dunder.
     inst (CallInst dunder [value])))"

definition visit_ternary :: "nat lower \<Rightarrow> nat lower \<Rightarrow> nat lower \<Rightarrow> nat lower" where
  "visit_ternary test_v body_v orelse_v =
     lbind test_v (\<lambda>test.
     lbind (inst (GetDunder test AsBool)) (\<lambda>bool_dunder.
     lbind (inst (CallInst bool_dunder [test])) (\<lambda>test.
     lbind (inst Nop) (\<lambda>test_jump.
     lbind (inst JumpTarget) (\<lambda>_.
     lbind body_v (\<lambda>true_value.
     lbind (inst (Br INVALID_VALUE)) (\<lambda>after_value_jump_true.
     lbind (inst JumpTarget) (\<lambda>false_header.
     lbind orelse_v (\<lambda>false_value.
     lbind (inst (Br INVALID_VALUE)) (\<lambda>after_value_jump_false.
     lbind (inst PhiRecv) (\<lambda>phi_recv.
     lbind (patch test_jump (set_op (IfInst test None (Some false_header)))) (\<lambda>_.
     lbind (patch after_value_jump_true (set_op (PhiJump phi_recv true_value))) (\<lambda>_.
     lbind (patch after_value_jump_false (set_op (PhiJump phi_recv false_value))) (\<lambda>_.
     lret phi_recv))))))))))))))"

definition visit_named_expr :: "atom spanned \<Rightarrow> nat lower \<Rightarrow> span option \<Rightarrow> nat lower" where
  "visit_named_expr target v sp =
     lbind (llift (unwrap (atom_as_name (sp_inner target)))) (\<lambda>variable.
     lbind v (\<lambda>value.
     lbind (inst (SetVar variable value)) (\<lambda>rv.
     lbind (set_span_opt [rv] sp) (\<lambda>_.
     lret value))))"

definition visit_call :: "nat lower \<Rightarrow> nat lower list option \<Rightarrow> span option \<Rightarrow> nat lower" where
  "visit_call func args sp =
     lbind func (\<lambda>callable.
     lbind (case args of Some as \<Rightarrow> lseq as | None \<Rightarrow> lret []) (\<lambda>arguments.
     lbind (inst (CallInst callable arguments)) (\<lambda>rv.
     lbind (set_span_opt [rv] sp) (\<lambda>_.
     lret rv))))"

definition visit_subscript :: "nat lower \<Rightarrow> nat lower \<Rightarrow> nat lower" where
  "visit_subscript v i =
     lbind v (\<lambda>object.
     lbind i (\<lambda>index.
     lbind (inst (GetDunder object GetItem)) (\<lambda>get_item.
     inst (CallInst get_item [object, index]))))"

definition visit_attr :: "atom spanned \<Rightarrow> nat lower \<Rightarrow> nat lower" where
  "visit_attr attr base =
     lbind base (\<lambda>object.
     lbind (llift (unwrap (atom_as_name (sp_inner attr)))) (\<lambda>r.
     lbind (inst (RefAsStr r)) (\<lambda>attr_v.
     inst (GetAttribute object attr_v))))"

section \<open>Statements\<close>

definition visit_return :: "nat lower option \<Rightarrow> span option \<Rightarrow> nat lower" where
  "visit_return value sp =
     lbind (case value of Some e \<Rightarrow> e | None \<Rightarrow> inst (ConstInst CNone)) (\<lambda>rv.
     lbind (inst (ReturnInst rv)) (\<lambda>ret.
     lbind (set_span_opt [ret] sp) (\<lambda>_.
     lret ret)))"

definition visit_annotation :: "atom spanned \<Rightarrow> nat lower \<Rightarrow> nat lower" where
  "visit_annotation name kind =
     lbind (llift (case atom_as_name (sp_inner name) of Some sref \<Rightarrow> Inr sref | None \<Rightarrow> Inl TodoMacro)) (\<lambda>name.
     lbind kind (\<lambda>annotation.
     inst (SetAnnotation name annotation)))"

text \<open>\<open>left_v\<close> is the visit of the base of an attribute target.\<close>

definition visit_assign :: "primary spanned \<Rightarrow> nat lower \<Rightarrow> nat lower \<Rightarrow> span option \<Rightarrow> nat lower" where
  "visit_assign name left_v value_v sp =
     (case sp_inner name of
        Atomic at \<Rightarrow>
          lbind (llift (unwrap (atom_as_name (sp_inner at)))) (\<lambda>variable.
          lbind value_v (\<lambda>value.
          inst (SetVar variable value)))
      | Await _ \<Rightarrow> llift (Inl UnreachableCode)
      | Call _ _ \<Rightarrow> llift (Inl UnreachableCode)
      | Subscript _ _ \<Rightarrow> llift (Inl TodoMacro)
      | Attribute left attr \<Rightarrow>
          lbind left_v (\<lambda>object.
          lbind (llift (unwrap (atom_as_name (sp_inner attr)))) (\<lambda>r.
          lbind (inst (RefAsStr r)) (\<lambda>attr_v.
          lbind (set_span_for_values [attr_v] (sp_span attr)) (\<lambda>_.
          lbind value_v (\<lambda>value.
          lbind (inst (SetAttribute object attr_v value)) (\<lambda>ret.
          lbind (set_span_opt [ret] sp) (\<lambda>_.
          lret ret))))))))"

definition component_names :: "primary \<Rightarrow> span_ref list rust" where
  "component_names p =
     and_then (primary_components p) (\<lambda>ats.
       foldr (\<lambda>at acc. and_then (unwrap (atom_as_name at)) (\<lambda>n. and_then acc (\<lambda>ns. Inr (n # ns)))) ats (Inr []))"

fun visit_import_names :: "primary spanned list \<Rightarrow> span option \<Rightarrow> unit lower" where
  "visit_import_names [] sp = lret ()"
| "visit_import_names (name # names) sp =
     lbind (llift (component_names (sp_inner name))) (\<lambda>path.
     lbind (llift (unwrap (get_at path 0))) (\<lambda>root.
     lbind (inst (ImportInst path 0)) (\<lambda>value.
     lbind (inst (SetVar root value)) (\<lambda>set_var.
     lbind (set_span_opt [value, set_var] sp) (\<lambda>_.
     visit_import_names names sp)))))"

fun visit_import_from_names :: "nat \<Rightarrow> primary spanned list \<Rightarrow> unit lower" where
  "visit_import_from_names m [] = lret ()"
| "visit_import_from_names m (name # names) =
     lbind (llift (unwrap (primary_as_name (sp_inner name)))) (\<lambda>n.
     lbind (inst (RefAsStr n)) (\<lambda>attr.
     lbind (inst (GetAttribute m attr)) (\<lambda>attr.
     lbind (inst (SetVar n attr)) (\<lambda>_.
     visit_import_from_names m names))))"

fun visit_import :: "import \<Rightarrow> span option \<Rightarrow> nat lower" where
  "visit_import (ImportNames names) sp =
     lbind (visit_import_names names sp) (\<lambda>_. lret INVALID_VALUE)"
| "visit_import (ImportFrom m names level) sp =
     lbind (llift (component_names (sp_inner m))) (\<lambda>path.
     lbind (inst (ImportInst path level)) (\<lambda>module_v.
     lbind (visit_import_from_names module_v names) (\<lambda>_.
     lret INVALID_VALUE)))"

definition visit_while :: "nat lower \<Rightarrow> nat lower list \<Rightarrow> nat lower" where
  "visit_while test_v body_vs =
     lbind (inst JumpTarget) (\<lambda>to_start.
     lbind (inst JumpTarget) (\<lambda>start.
     lbind (patch to_start (set_op (Br start))) (\<lambda>_.
     lbind test_v (\<lambda>test.
     lbind (inst (IfInst test None None)) (\<lambda>jump.
     lbind (inst JumpTarget) (\<lambda>when_true.
     lbind (lseq body_vs) (\<lambda>_.
     lbind (inst (Br start)) (\<lambda>_.
     lbind (inst JumpTarget) (\<lambda>or_else.
     lbind (patch jump (set_op (IfInst test (Some when_true) (Some or_else)))) (\<lambda>_.
     lret INVALID_VALUE))))))))))"

subsection \<open>If chains\<close>

text \<open>The test of one branch: its \<open>If\<close> instruction and the entry recorded for it.\<close>

definition if_branch_test :: "nat lower \<Rightarrow> (nat \<times> nat) lower" where
  "if_branch_test test_v =
     lbind (\<lambda>fc. case last_inst fc of
              Some _ \<Rightarrow> Inr (length (current_insts fc) - 1, fc)
            | None \<Rightarrow> inst JumpTarget fc) (\<lambda>entry.
     lbind test_v (\<lambda>test.
     lbind (inst (GetDunder test AsBool)) (\<lambda>bool_dunder.
     lbind (inst (CallInst bool_dunder [test])) (\<lambda>test.
     lbind (inst (IfInst test (Some INVALID_VALUE) (Some INVALID_VALUE))) (\<lambda>br.
     lret (br, entry))))))"

definition if_branch_body :: "nat lower list \<Rightarrow> (nat \<times> nat) lower" where
  "if_branch_body body_vs =
     lbind (inst JumpTarget) (\<lambda>body_entry.
     lbind (lseq body_vs) (\<lambda>_.
     lbind (inst (Br INVALID_VALUE)) (\<lambda>backedge.
     lret (body_entry, backedge))))"

text \<open>\<open>if let Some(RawInst::If { falsey, .. }) = ... { falsey.replace(to) }\<close>: anything else is left alone.\<close>

definition replace_falsey :: "nat option \<Rightarrow> nat \<Rightarrow> unit lower" where
  "replace_falsey ix to fc =
     (case ix of
        None \<Rightarrow> Inr ((), fc)
      | Some i \<Rightarrow>
          (case get_at (current_insts fc) i of
             None \<Rightarrow> Inr ((), fc)
           | Some x \<Rightarrow>
               (case fi_op x of
                  IfInst t tr _ \<Rightarrow> patch i (set_op (IfInst t tr (Some to))) fc
                | _ \<Rightarrow> Inr ((), fc))))"

definition set_if_targets :: "nat \<Rightarrow> nat \<Rightarrow> flat_inst \<Rightarrow> flat_inst rust" where
  "set_if_targets body after x =
     (case fi_op x of
        IfInst t _ _ \<Rightarrow> set_op (IfInst t (Some body) (Some after)) x
      | _ \<Rightarrow> Inl UnreachableCode)"

definition set_br_target :: "nat \<Rightarrow> flat_inst \<Rightarrow> flat_inst rust" where
  "set_br_target after x =
     (case fi_op x of Br _ \<Rightarrow> set_op (Br after) x | _ \<Rightarrow> Inl UnreachableCode)"

text \<open>
  The patch loop. \<open>prev\<close> is the \<open>If\<close> of the branch before. The loop zips the branches with the
  bodies, so it stops with the shorter list.
\<close>

fun patch_branches :: "nat option \<Rightarrow> ((nat \<times> nat) \<times> nat \<times> nat) list \<Rightarrow> nat \<Rightarrow> unit lower" where
  "patch_branches prev [] after = lret ()"
| "patch_branches prev (((branch, branch_entry), (body, body_tail)) # rest) after =
     lbind (replace_falsey prev branch_entry) (\<lambda>_.
     lbind (patch branch (set_if_targets body after)) (\<lambda>_.
     lbind (patch body_tail (set_br_target after)) (\<lambda>_.
     patch_branches (Some branch) rest after)))"

definition visit_orelse :: "nat option \<Rightarrow> nat lower list option \<Rightarrow> nat lower" where
  "visit_orelse last_branch orelse_vs =
     (case orelse_vs of
        None \<Rightarrow> lret INVALID_VALUE
      | Some vs \<Rightarrow>
          lbind (inst JumpTarget) (\<lambda>or_else_body.
          lbind (replace_falsey last_branch or_else_body) (\<lambda>_.
          lbind (lseq vs) (\<lambda>_.
          inst (Br INVALID_VALUE)))))"

definition visit_ifstmt :: "(nat lower \<times> nat lower list) list \<Rightarrow> nat lower list option \<Rightarrow> nat lower" where
  "visit_ifstmt branches orelse_vs =
     lbind (lseq (map (if_branch_test \<circ> fst) branches)) (\<lambda>branch_indices.
     lbind (lseq (map (if_branch_body \<circ> snd) branches)) (\<lambda>body_indices.
     lbind (visit_orelse (if branch_indices = [] then None else Some (fst (last branch_indices))) orelse_vs)
       (\<lambda>or_else_br_tail.
     lbind (inst JumpTarget) (\<lambda>after_if_ch.
     lbind (patch_branches None (zip branch_indices body_indices) after_if_ch) (\<lambda>_.
     lbind (if or_else_br_tail \<noteq> INVALID_VALUE then patch or_else_br_tail (set_br_target after_if_ch)
            else lret ()) (\<lambda>_.
     lret INVALID_VALUE))))))"

subsection \<open>Functions and classes\<close>

fun decorator_calls :: "nat \<Rightarrow> nat list \<Rightarrow> nat lower" where
  "decorator_calls func [] = lret func"
| "decorator_calls func (dec # decs) =
     lbind (inst (CallInst dec [func])) (\<lambda>f. decorator_calls f decs)"

fun visit_params :: "(span_ref \<times> nat lower option) list \<Rightarrow> (span_ref \<times> nat option) list lower" where
  "visit_params [] = lret []"
| "visit_params ((name, None) # ps) = lbind (visit_params ps) (\<lambda>rest. lret ((name, None) # rest))"
| "visit_params ((name, Some ann_v) # ps) =
     lbind ann_v (\<lambda>ann. lbind (visit_params ps) (\<lambda>rest. lret ((name, Some ann) # rest)))"

definition receiver_params :: "atom spanned option \<Rightarrow> (span_ref \<times> nat option) list lower" where
  "receiver_params recv =
     (case recv of
        None \<Rightarrow> lret []
      | Some r \<Rightarrow> lbind (llift (unwrap (atom_as_name (sp_inner r)))) (\<lambda>n. lret [(n, None)]))"

text \<open>\<open>self.code.sequences[sequence_id].ast.replace(...)\<close>.\<close>

definition set_ast :: "nat \<Rightarrow> ast_node \<Rightarrow> unit lower" where
  "set_ast n a = (\<lambda>fc. if n < length (fc_sequences fc)
     then Inr ((), fc\<lparr>fc_sequences := (fc_sequences fc)[n := (fc_sequences fc ! n)\<lparr>fs_ast := Some a\<rparr>]\<rparr>)
     else Inl IndexOutOfBounds)"

definition visit_funcdef ::
  "function_def \<Rightarrow> nat lower list \<Rightarrow> (span_ref \<times> nat lower option) list option \<Rightarrow> nat lower option
    \<Rightarrow> nat lower list \<Rightarrow> span option \<Rightarrow> nat lower" where
  "visit_funcdef fndef decorator_vs args_v returns_v body_vs sp =
     lbind (lseq (rev decorator_vs)) (\<lambda>decorators.
     lbind (receiver_params (fn_reciever fndef)) (\<lambda>recv.
     lbind (visit_params (case args_v of None \<Rightarrow> [] | Some ps \<Rightarrow> ps)) (\<lambda>ps.
     lbind (case returns_v of None \<Rightarrow> lret None | Some r \<Rightarrow> lbind r (\<lambda>v. lret (Some v))) (\<lambda>returns.
     lbind (llift (unwrap sp)) (\<lambda>s.
     lbind (\<lambda>fc. with_new_sequence SeqFunction (fc_mref fc, s) (lbind (lseq body_vs) (\<lambda>_. lret ())) fc)
       (\<lambda>sequence_id.
     lbind (set_ast sequence_id (NFuncDef fndef)) (\<lambda>_.
     lbind (llift (unwrap (atom_as_name (sp_inner (fn_name fndef))))) (\<lambda>name.
     lbind (inst (Defn name (recv @ ps) returns sequence_id)) (\<lambda>func.
     lbind (inst (SetVar name func)) (\<lambda>_.
     decorator_calls func decorators))))))))))"

text \<open>
  One statement of a class body. \<open>v\<close> is the visit of the statement proper, given a span. A
  function definition has the last instruction it emitted overwritten.
\<close>

definition class_item :: "statement spanned \<Rightarrow> (span option \<Rightarrow> nat lower) \<Rightarrow> unit lower" where
  "class_item node v =
     lbind (llift (statement_into_ast_node (sp_inner node))) (\<lambda>kind.
     (case kind of
        NFuncDef def \<Rightarrow>
          lbind (v None) (\<lambda>function.
          lbind (\<lambda>fc. if current_insts fc = [] then Inl UnwrapNone
                     else and_then (unwrap (atom_as_name (sp_inner (fn_name def)))) (\<lambda>name.
                       patch (length (current_insts fc) - 1) (set_op (SetVar name function)) fc)) (\<lambda>_.
          set_span_for_values [function] (sp_span node)))
      | NAssign asn \<Rightarrow>
          lbind (v None) (\<lambda>assignment.
          lbind (llift (unwrap (primary_as_name (sp_inner (asn_name asn))))) (\<lambda>varname.
          lbind (inst (SetVar varname assignment)) (\<lambda>setter.
          set_span_for_values [assignment, setter] (sp_span node))))
      | _ \<Rightarrow>
          lbind (v (Some (sp_span node))) (\<lambda>val.
          set_span_for_values [val] (sp_span node))))"

text \<open>A leading string is the doc comment: it is emitted outside the class body and consumed.\<close>

definition class_doc ::
  "nat \<Rightarrow> (statement spanned \<times> (span option \<Rightarrow> nat lower)) list
    \<Rightarrow> (statement spanned \<times> (span option \<Rightarrow> nat lower)) list lower" where
  "class_doc class items =
     (case items of
        [] \<Rightarrow> lret []
      | (node, v) # rest \<Rightarrow>
          lbind (llift (statement_into_ast_node (sp_inner node))) (\<lambda>kind.
          (case kind of
             NStr string \<Rightarrow>
               lbind (visit_const string None) (\<lambda>s.
               lbind (inst (SetDunder class DocComment s)) (\<lambda>dunder.
               lbind (set_span_for_values [dunder] (sp_span node)) (\<lambda>_.
               lret rest)))
           | _ \<Rightarrow> lret items)))"

definition visit_classdef ::
  "class_def \<Rightarrow> (span option \<Rightarrow> nat lower) list \<Rightarrow> span option \<Rightarrow> nat lower" where
  "visit_classdef classdef body_vs sp =
     lbind (llift (unwrap (atom_as_name (sp_inner (cls_name classdef))))) (\<lambda>name.
     lbind (inst (Class name)) (\<lambda>class.
     lbind (inst (SetVar name class)) (\<lambda>set_var.
     lbind (set_span_opt [set_var] sp) (\<lambda>_.
     lbind (class_doc class (zip (cls_body classdef) body_vs)) (\<lambda>items.
     lbind (\<lambda>fc. with_new_sequence SeqClass (fc_mref fc, case sp of None \<Rightarrow> (0, 0) | Some s \<Rightarrow> s)
              (lbind (inst Nop) (\<lambda>_.
               lbind (lseq (map (\<lambda>(node, v). class_item node v) items)) (\<lambda>_. lret ()))) fc) (\<lambda>class_body.
     lbind (inst (BuildClass class_body class)) (\<lambda>_.
     lret class)))))))"

section \<open>The recursion over the tree\<close>

text \<open>\<open>Spanned<T>::visit_with\<close>.\<close>

definition visit_spanned :: "(span option \<Rightarrow> nat lower) spanned \<Rightarrow> span option \<Rightarrow> nat lower" where
  "visit_spanned s sp = sp_inner s (opt_or sp (Some (sp_span s)))"

primrec visit_with_atom :: "atom \<Rightarrow> span option \<Rightarrow> nat lower"
  and visit_with_expr :: "expr \<Rightarrow> span option \<Rightarrow> nat lower"
  and visit_with_primary :: "primary \<Rightarrow> span option \<Rightarrow> nat lower" where
  "visit_with_atom AtNone = (\<lambda>sp. visit_const AtNone sp)"
| "visit_with_atom AtEllipsis = (\<lambda>sp. visit_const AtEllipsis sp)"
| "visit_with_atom (AtInt n) = (\<lambda>sp. visit_const (AtInt n) sp)"
| "visit_with_atom (AtStr s) = (\<lambda>sp. visit_const (AtStr s) sp)"
| "visit_with_atom (AtBool b) = (\<lambda>sp. visit_const (AtBool b) sp)"
| "visit_with_atom (AtFloat f) = (\<lambda>sp. visit_const (AtFloat f) sp)"
| "visit_with_atom (AtTuple es) =
     (\<lambda>sp. visit_tuple (map (\<lambda>e. visit_spanned e None) (map (map_spanned visit_with_expr) es)) sp)"
| "visit_with_atom (AtComment _) = (\<lambda>sp. visit_pass)"
| "visit_with_atom (AtName n) = (\<lambda>sp. visit_name (AtName n) sp)"
| "visit_with_expr (ExprIf t b e) =
     (\<lambda>sp. visit_ternary (visit_spanned (map_spanned visit_with_expr t) None)
             (visit_spanned (map_spanned visit_with_expr b) None)
             (visit_spanned (map_spanned visit_with_expr e) None))"
| "visit_with_expr (BinOp l op r) =
     (\<lambda>sp. visit_binop (visit_spanned (map_spanned visit_with_expr l) None) op
             (visit_spanned (map_spanned visit_with_expr r) None))"
| "visit_with_expr (Unary op v) =
     (\<lambda>sp. visit_unary op (visit_spanned (map_spanned visit_with_expr v) None))"
| "visit_with_expr (Named t v) =
     (\<lambda>sp. visit_named_expr t (visit_spanned (map_spanned visit_with_expr v) None)
             (opt_or sp (expr_span (Named t v))))"
| "visit_with_expr (ExprPrimary p) =
     (\<lambda>sp. visit_spanned (map_spanned visit_with_primary p) (opt_or sp (Some (sp_span p))))"
| "visit_with_primary (Atomic a) =
     (\<lambda>sp. visit_spanned (map_spanned visit_with_atom a) (opt_or sp (Some (sp_span a))))"
| "visit_with_primary (Subscript v i) =
     (\<lambda>sp. visit_subscript (visit_spanned (map_spanned visit_with_primary v) None)
             (visit_spanned (map_spanned visit_with_expr i) None))"
| "visit_with_primary (Call f args) =
     (\<lambda>sp. lbind (llift (primary_span (Call f args))) (\<lambda>own.
             visit_call (visit_spanned (map_spanned visit_with_primary f) None)
               (map_option (map (\<lambda>e. visit_spanned e None)) (map_option (map (map_spanned visit_with_expr)) args))
               (opt_or sp own)))"
| "visit_with_primary (Attribute l a) =
     (\<lambda>sp. visit_attr a (visit_spanned (map_spanned visit_with_primary l) None))"
| "visit_with_primary (Await p) = (\<lambda>sp. llift (Inl TodoMacro))"

abbreviation visit_sexpr :: "expr spanned \<Rightarrow> nat lower" where
  "visit_sexpr e \<equiv> visit_spanned (map_spanned visit_with_expr e) None"

abbreviation visit_sprimary :: "primary spanned \<Rightarrow> nat lower" where
  "visit_sprimary p \<equiv> visit_spanned (map_spanned visit_with_primary p) None"

definition visit_with_assign :: "assign \<Rightarrow> span option \<Rightarrow> nat lower" where
  "visit_with_assign a sp =
     visit_assign (asn_name a)
       (case sp_inner (asn_name a) of
          Attribute left _ \<Rightarrow> visit_sprimary left | _ \<Rightarrow> llift (Inl UnreachableCode))
       (visit_sexpr (asn_value a)) sp"

definition visit_with_return :: "return_stmt \<Rightarrow> span option \<Rightarrow> nat lower" where
  "visit_with_return r sp =
     visit_return (case r of Return (Inr e) \<Rightarrow> Some (visit_sexpr e) | Return (Inl _) \<Rightarrow> None) sp"

primrec visit_with_statement :: "statement \<Rightarrow> span option \<Rightarrow> nat lower"
  and visit_with_function_def :: "function_def \<Rightarrow> span option \<Rightarrow> nat lower"
  and visit_with_class_def :: "class_def \<Rightarrow> span option \<Rightarrow> nat lower"
  and visit_with_if_branch :: "if_branch \<Rightarrow> nat lower \<times> nat lower list"
  and visit_with_if_chain :: "if_chain \<Rightarrow> span option \<Rightarrow> nat lower"
  and visit_with_while :: "while_stmt \<Rightarrow> span option \<Rightarrow> nat lower" where
  "visit_with_statement (StExpr e) = (\<lambda>sp. visit_with_expr e sp)"
| "visit_with_statement (StFnDef f) = (\<lambda>sp. visit_with_function_def f sp)"
| "visit_with_statement (StRet r) = (\<lambda>sp. visit_with_return r sp)"
| "visit_with_statement (StAsn a) = (\<lambda>sp. visit_with_assign a sp)"
| "visit_with_statement (StAnn a) = (\<lambda>sp. visit_annotation (ann_name a) (visit_sexpr (ann_kind a)))"
| "visit_with_statement (StImport i) = (\<lambda>sp. visit_import i sp)"
| "visit_with_statement (StClass c) = (\<lambda>sp. visit_with_class_def c sp)"
| "visit_with_statement (StIf c) = (\<lambda>sp. visit_with_if_chain c sp)"
| "visit_with_statement (StWhile w) = (\<lambda>sp. visit_with_while w sp)"
| "visit_with_statement StPass = (\<lambda>sp. visit_pass)"
| "visit_with_function_def (FunctionDef recv name args body decs rets) =
     (\<lambda>sp. visit_funcdef (FunctionDef recv name args body decs rets) (map visit_sprimary decs)
             (map_option (map (\<lambda>(n, ann). (n, map_option visit_sexpr ann))) args)
             (map_option visit_sexpr rets)
             (map (\<lambda>s. visit_spanned s None) (map (map_spanned visit_with_statement) body))
             (opt_or sp (function_def_span (FunctionDef recv name args body decs rets))))"
| "visit_with_class_def (ClassDef name decs body) =
     (\<lambda>sp. visit_classdef (ClassDef name decs body)
             (map sp_inner (map (map_spanned visit_with_statement) body)) sp)"
| "visit_with_if_branch (IfBranch t body) =
     (visit_sexpr t, map (\<lambda>s. visit_spanned s None) (map (map_spanned visit_with_statement) body))"
| "visit_with_if_chain (IfChain branches orelse) =
     (\<lambda>sp. lbind (llift (if_chain_span (IfChain branches orelse))) (\<lambda>_.
             visit_ifstmt (map sp_inner (map (map_spanned visit_with_if_branch) branches))
               (map_option (map (\<lambda>s. visit_spanned s None))
                 (map_option (map (map_spanned visit_with_statement)) orelse))))"
| "visit_with_while (While t body) =
     (\<lambda>sp. visit_while (visit_with_expr (sp_inner t) None)
             (map (\<lambda>s. visit_spanned s None) (map (map_spanned visit_with_statement) body)))"

abbreviation visit_sstmt :: "statement spanned \<Rightarrow> nat lower" where
  "visit_sstmt s \<equiv> visit_spanned (map_spanned visit_with_statement s) None"

definition visit_module :: "module \<Rightarrow> nat lower" where
  "visit_module m = lbind (lseq (map visit_sstmt (module_body m))) (\<lambda>_. lret INVALID_VALUE)"

text \<open>The whole translation of a module, as the driver's query and the interpreter's host run it.\<close>

definition ast_to_flatcode :: "module_ref \<Rightarrow> module \<Rightarrow> flat_code rust" where
  "ast_to_flatcode mref m =
     and_then (visit_module m (flatcode_new (mref, case module_span m of None \<Rightarrow> (0, 0) | Some s \<Rightarrow> s)))
       (\<lambda>(_, fc). Inr fc)"

end
