(* ===== verification/LowerLogic.thy ===== *)
theory LowerLogic
  imports Lower
begin

text \<open>
  A small program logic for builder actions. \<open>runs m fc Q\<close> says that \<open>m\<close>, started on \<open>fc\<close>, does
  not panic and ends in a result and code related by \<open>Q\<close>; it distributes over \<open>lbind\<close>, so a
  visitor method is verified by walking through its steps. \<open>ext H lab s fc\<close> is what such a walk
  maintains: since the state \<open>s\<close> in which the method was entered, code was only appended, every
  appended instruction is numbered by its position, uses earlier results only and jumps inside
  the appended region, and every sequence opened since is complete. \<open>H\<close> is the set of
  instructions that still await their jump targets.
\<close>

section \<open>Runs\<close>

definition runs :: "'a lower \<Rightarrow> flat_code \<Rightarrow> ('a \<Rightarrow> flat_code \<Rightarrow> bool) \<Rightarrow> bool" where
  "runs m fc Q \<longleftrightarrow> (\<exists>v fc'. m fc = Inr (v, fc') \<and> Q v fc')"

abbreviation len :: "flat_code \<Rightarrow> nat" where
  "len fc \<equiv> length (current_insts fc)"

definition op_at :: "flat_code \<Rightarrow> nat \<Rightarrow> raw_inst" where
  "op_at fc i = fi_op (current_insts fc ! i)"

text \<open>A definition refers to a function body and a class to a class body.\<close>

fun refs_ok :: "flat_seq list \<Rightarrow> raw_inst \<Rightarrow> bool" where
  "refs_ok seqs (Defn _ _ _ s) = (s < length seqs \<and> fs_kind (seqs ! s) = SeqFunction)"
| "refs_ok seqs (BuildClass s _) = (s < length seqs \<and> fs_kind (seqs ! s) = SeqClass)"
| "refs_ok seqs _ = True"

section \<open>Extension\<close>

definition fc_valid :: "flat_code \<Rightarrow> bool" where
  "fc_valid fc \<longleftrightarrow> fc_index fc < length (fc_sequences fc)"

definition inst_okH :: "nat set \<Rightarrow> bool \<Rightarrow> nat \<Rightarrow> flat_inst list \<Rightarrow> nat \<Rightarrow> bool" where
  "inst_okH H lab a is j \<longleftrightarrow> fi_value (is ! j) = j \<and> (\<forall>v \<in> operands (fi_op (is ! j)). v < j)
     \<and> (j \<notin> H \<longrightarrow> (\<forall>t \<in> targets (fi_op (is ! j)).
           a \<le> t \<and> t < length is \<and> (lab \<longrightarrow> t \<notin> H \<and> is_label (fi_op (is ! t)))))"

definition same_frame :: "flat_code \<Rightarrow> flat_code \<Rightarrow> bool" where
  "same_frame s fc \<longleftrightarrow> fc_index fc = fc_index s \<and> fc_mref fc = fc_mref s
     \<and> length (fc_sequences s) \<le> length (fc_sequences fc)
     \<and> (\<forall>i < length (fc_sequences s). fs_kind (fc_sequences fc ! i) = fs_kind (fc_sequences s ! i)
          \<and> (i \<noteq> fc_index s \<longrightarrow> fc_sequences fc ! i = fc_sequences s ! i))"

definition new_seqs_ok :: "bool \<Rightarrow> flat_code \<Rightarrow> flat_code \<Rightarrow> bool" where
  "new_seqs_ok lab s fc \<longleftrightarrow>
     (\<forall>i. length (fc_sequences s) \<le> i \<and> i < length (fc_sequences fc) \<longrightarrow>
        seq_ok lab (fc_sequences fc ! i)
        \<and> (\<forall>x \<in> set (fs_inst (fc_sequences fc ! i)). refs_ok (fc_sequences fc) (fi_op x)))"

definition ext :: "nat set \<Rightarrow> bool \<Rightarrow> flat_code \<Rightarrow> flat_code \<Rightarrow> bool" where
  "ext H lab s fc \<longleftrightarrow> fc_valid s \<and> same_frame s fc \<and> new_seqs_ok lab s fc
     \<and> prefix (current_insts s) (current_insts fc) \<and> H \<subseteq> {len s..<len fc}
     \<and> (\<forall>j. len s \<le> j \<and> j < len fc \<longrightarrow>
          inst_okH H lab (len s) (current_insts fc) j \<and> refs_ok (fc_sequences fc) (op_at fc j))"

text \<open>The code of the current sequence was only appended to.\<close>

definition keeps :: "flat_code \<Rightarrow> flat_code \<Rightarrow> bool" where
  "keeps fc fc' \<longleftrightarrow> len fc \<le> len fc' \<and> (\<forall>i < len fc. op_at fc' i = op_at fc i)"

text \<open>
  What a visit of a statement, and of an expression, has to do, within a budget of \<open>n\<close>
  instructions. Indices stay below \<open>INVALID_VALUE\<close>, which the code uses as a marker.
\<close>

definition act_ok :: "bool \<Rightarrow> nat \<Rightarrow> 'a lower \<Rightarrow> bool" where
  "act_ok lab n m \<longleftrightarrow> (\<forall>fc. fc_valid fc \<longrightarrow> len fc + n < INVALID_VALUE \<longrightarrow>
     runs m fc (\<lambda>_ fc'. ext {} lab fc fc' \<and> len fc' \<le> len fc + n))"

definition val_ok :: "bool \<Rightarrow> nat \<Rightarrow> nat lower \<Rightarrow> bool" where
  "val_ok lab n m \<longleftrightarrow> (\<forall>fc. fc_valid fc \<longrightarrow> len fc + n < INVALID_VALUE \<longrightarrow>
     runs m fc (\<lambda>v fc'. ext {} lab fc fc' \<and> len fc' \<le> len fc + n \<and> len fc \<le> v \<and> v < len fc'))"

section \<open>Runs distribute over the builder\<close>

lemma runs_lbind: "runs (lbind m f) fc Q \<longleftrightarrow> runs m fc (\<lambda>v fc'. runs (f v) fc' Q)"
  by (auto simp: runs_def lbind_def rust_simps)

lemma runs_lret: "runs (lret x) fc Q \<longleftrightarrow> Q x fc"
  by (simp add: runs_def lret_def)

lemma runs_llift: "runs (llift r) fc Q \<longleftrightarrow> (\<exists>x. r = Inr x \<and> Q x fc)"
  by (auto simp: runs_def llift_def rust_simps)

lemmas runs_simps [simp] = runs_lbind runs_lret runs_llift

lemma runs_mono: "runs m fc P \<Longrightarrow> (\<And>v fc'. P v fc' \<Longrightarrow> Q v fc') \<Longrightarrow> runs m fc Q"
  by (auto simp: runs_def)

lemma runs_conj: "runs m fc P \<Longrightarrow> runs m fc Q \<Longrightarrow> runs m fc (\<lambda>v fc'. P v fc' \<and> Q v fc')"
  by (auto simp: runs_def)

section \<open>The current sequence\<close>

lemma current_insts_valid: "fc_valid fc \<Longrightarrow> current_insts fc = fs_inst (fc_sequences fc ! fc_index fc)"
  by (simp add: current_insts_def fc_valid_def)

lemma set_current_insts_simps [simp]:
  "fc_index (set_current_insts is fc) = fc_index fc"
  "fc_mref (set_current_insts is fc) = fc_mref fc"
  "length (fc_sequences (set_current_insts is fc)) = length (fc_sequences fc)"
  "fc_valid (set_current_insts is fc) \<longleftrightarrow> fc_valid fc"
  by (simp_all add: set_current_insts_def fc_valid_def)

lemma current_set_current [simp]: "fc_valid fc \<Longrightarrow> current_insts (set_current_insts is fc) = is"
  by (simp add: current_insts_def set_current_insts_def fc_valid_def)

lemma set_current_insts_nth:
  "i < length (fc_sequences fc) \<Longrightarrow> fc_sequences (set_current_insts is fc) ! i =
     (if i = fc_index fc then (fc_sequences fc ! i)\<lparr>fs_inst := is\<rparr> else fc_sequences fc ! i)"
  by (auto simp: set_current_insts_def nth_list_update)

lemma set_current_insts_id [simp]: "fc_valid fc \<Longrightarrow> set_current_insts (current_insts fc) fc = fc"
  by (simp add: set_current_insts_def current_insts_def fc_valid_def)

lemma refs_ok_cong:
  "map fs_kind seqs' = map fs_kind seqs \<Longrightarrow> refs_ok seqs' raw = refs_ok seqs raw"
  by (cases raw) (auto simp: list_eq_iff_nth_eq)

lemma refs_ok_set_current [simp]:
  "refs_ok (fc_sequences (set_current_insts is fc)) raw = refs_ok (fc_sequences fc) raw"
  by (rule refs_ok_cong) (auto simp: list_eq_iff_nth_eq set_current_insts_nth)

lemma refs_ok_mono:
  "refs_ok seqs raw \<Longrightarrow> length seqs \<le> length seqs' \<Longrightarrow>
     (\<And>i. i < length seqs \<Longrightarrow> fs_kind (seqs' ! i) = fs_kind (seqs ! i)) \<Longrightarrow> refs_ok seqs' raw"
  by (cases raw) auto

section \<open>Extension is a preorder\<close>

lemma same_frame_refl: "same_frame s s"
  by (simp add: same_frame_def)

lemma same_frame_trans: "same_frame s t \<Longrightarrow> same_frame t u \<Longrightarrow> same_frame s u"
  unfolding same_frame_def by (metis order_trans order_less_le_trans)

lemma same_frame_valid: "same_frame s fc \<Longrightarrow> fc_valid s \<Longrightarrow> fc_valid fc"
  by (auto simp: same_frame_def fc_valid_def)

lemma same_frame_set_current: "same_frame s fc \<Longrightarrow> same_frame s (set_current_insts is fc)"
  by (auto simp: same_frame_def set_current_insts_nth)

lemma same_frame_refs: "same_frame s t \<Longrightarrow> refs_ok (fc_sequences s) raw \<Longrightarrow> refs_ok (fc_sequences t) raw"
  by (erule refs_ok_mono) (auto simp: same_frame_def)

lemma ext_refl: "fc_valid fc \<Longrightarrow> ext {} lab fc fc"
  unfolding ext_def new_seqs_ok_def using same_frame_refl by auto

lemma ext_valid [dest]: "ext H lab s fc \<Longrightarrow> fc_valid fc"
  by (auto simp: ext_def dest: same_frame_valid)

lemma ext_frame: "ext H lab s fc \<Longrightarrow> same_frame s fc"
  by (simp add: ext_def)

lemma ext_len: "ext H lab s fc \<Longrightarrow> len s \<le> len fc"
  by (auto simp: ext_def prefix_length_le)

lemma ext_keeps: "ext H lab s fc \<Longrightarrow> keeps s fc"
  by (auto simp: ext_def keeps_def op_at_def prefix_length_le prefix_nth)

lemma ext_inst: "ext H lab s fc \<Longrightarrow> len s \<le> j \<Longrightarrow> j < len fc \<Longrightarrow> inst_okH H lab (len s) (current_insts fc) j"
  unfolding ext_def by blast

lemma ext_value: "ext H lab s fc \<Longrightarrow> len s \<le> j \<Longrightarrow> j < len fc \<Longrightarrow> fi_value (current_insts fc ! j) = j"
  using ext_inst unfolding inst_okH_def by blast

lemma new_seqs_ok_trans:
  assumes s: "new_seqs_ok lab s t" and t: "new_seqs_ok lab t u"
    and f: "same_frame s t" and g: "same_frame t u" and v: "fc_valid s"
  shows "new_seqs_ok lab s u"
  unfolding new_seqs_ok_def
proof (intro allI impI)
  fix i
  assume i: "length (fc_sequences s) \<le> i \<and> i < length (fc_sequences u)"
  show "seq_ok lab (fc_sequences u ! i) \<and>
      (\<forall>x\<in>set (fs_inst (fc_sequences u ! i)). refs_ok (fc_sequences u) (fi_op x))"
  proof (cases "i < length (fc_sequences t)")
    case True
    moreover have "i \<noteq> fc_index t" using i f v by (auto simp: same_frame_def fc_valid_def)
    ultimately have "fc_sequences u ! i = fc_sequences t ! i" using g by (simp add: same_frame_def)
    with True i s same_frame_refs [OF g] show ?thesis by (auto simp: new_seqs_ok_def)
  next
    case False
    with i t show ?thesis unfolding new_seqs_ok_def by (meson not_le)
  qed
qed

lemma inst_okH_left:
  assumes ok: "inst_okH H lab a is j" and p: "prefix is is'" and j: "a \<le> j" "j < length is"
    and H: "H' \<subseteq> {length is..}"
  shows "inst_okH (H \<union> H') lab a is' j"
proof -
  have "length is \<le> length is'" using p by (rule prefix_length_le)
  moreover have "is' ! t = is ! t" if "t < length is" for t using prefix_nth [OF p that] .
  ultimately show ?thesis using ok j H unfolding inst_okH_def by fastforce
qed

lemma inst_okH_right:
  assumes ok: "inst_okH H' lab b is j" and ab: "a \<le> b" "b \<le> j" and H: "H \<subseteq> {a..<b}"
  shows "inst_okH (H \<union> H') lab a is j"
  using assms unfolding inst_okH_def by fastforce

lemma ext_trans:
  assumes st: "ext H lab s t" and tu: "ext H' lab t u"
  shows "ext (H \<union> H') lab s u"
proof -
  have f: "same_frame s t" "same_frame t u" "same_frame s u"
    using st tu same_frame_trans by (auto simp: ext_def)
  have p: "prefix (current_insts s) (current_insts t)" "prefix (current_insts t) (current_insts u)"
    using st tu by (simp_all add: ext_def)
  have l: "len s \<le> len t" "len t \<le> len u" using p by (simp_all add: prefix_length_le)
  have H: "H \<subseteq> {len s..<len t}" "H' \<subseteq> {len t..<len u}" using st tu by (simp_all add: ext_def)
  have "inst_okH (H \<union> H') lab (len s) (current_insts u) j \<and> refs_ok (fc_sequences u) (op_at u j)"
    if j: "len s \<le> j" "j < len u" for j
  proof (cases "j < len t")
    case True
    then have t: "inst_okH H lab (len s) (current_insts t) j" "refs_ok (fc_sequences t) (op_at t j)"
      using st j by (auto simp: ext_def)
    have "H' \<subseteq> {len t..}" using H by auto
    from inst_okH_left [OF t(1) p(2) j(1) True this] t(2) same_frame_refs [OF f(2)] show ?thesis
      using True p(2) by (simp add: op_at_def prefix_nth)
  next
    case False
    then have u: "inst_okH H' lab (len t) (current_insts u) j" "refs_ok (fc_sequences u) (op_at u j)"
      using tu j by (auto simp: ext_def)
    from inst_okH_right [OF u(1) l(1) _ H(1)] u(2) False show ?thesis by simp
  qed
  moreover have "new_seqs_ok lab s u"
    by (rule new_seqs_ok_trans [of lab s t]) (use st tu f in \<open>simp_all add: ext_def\<close>)
  moreover have "prefix (current_insts s) (current_insts u)" using p by (rule prefix_order.trans)
  moreover have "H \<union> H' \<subseteq> {len s..<len u}" using H l by auto
  ultimately show ?thesis using st f unfolding ext_def by blast
qed

section \<open>Changing the current sequence\<close>

text \<open>Whether an instruction may jump to \<open>t\<close> now.\<close>

definition good_target :: "nat set \<Rightarrow> bool \<Rightarrow> flat_code \<Rightarrow> flat_code \<Rightarrow> nat \<Rightarrow> bool" where
  "good_target H lab s fc t \<longleftrightarrow>
     len s \<le> t \<and> t < len fc \<and> (lab \<longrightarrow> t \<notin> H \<and> is_label (op_at fc t))"

lemma new_seqs_ok_set_current:
  "new_seqs_ok lab s fc \<Longrightarrow> same_frame s fc \<Longrightarrow> fc_valid s \<Longrightarrow> new_seqs_ok lab s (set_current_insts is fc)"
  unfolding new_seqs_ok_def by (auto simp: set_current_insts_nth same_frame_def fc_valid_def)

lemma ext_set_current:
  assumes e: "ext H lab s fc" and p: "prefix (current_insts s) is'" and H: "H' \<subseteq> {len s..<length is'}"
    and ok: "\<And>j. len s \<le> j \<Longrightarrow> j < length is' \<Longrightarrow>
       inst_okH H' lab (len s) is' j \<and> refs_ok (fc_sequences fc) (fi_op (is' ! j))"
  shows "ext H' lab s (set_current_insts is' fc)"
  using assms ext_valid [OF e] same_frame_set_current new_seqs_ok_set_current
  unfolding ext_def by (auto simp: op_at_def)

lemma ext_append:
  assumes e: "ext H lab s fc" and x: "fi_op x = raw" "fi_value x = len fc"
    and ops: "\<forall>v \<in> operands raw. v < len fc" and refs: "refs_ok (fc_sequences fc) raw"
    and H: "H' = H \<and> (\<forall>t \<in> targets raw. good_target H lab s fc t) \<or> H' = insert (len fc) H"
  shows "ext H' lab s (set_current_insts (current_insts fc @ [x]) fc)"
proof (rule ext_set_current [OF e])
  have p: "prefix (current_insts s) (current_insts fc)" and HH: "H \<subseteq> {len s..<len fc}"
    and old: "\<And>j. len s \<le> j \<Longrightarrow> j < len fc \<Longrightarrow> inst_okH H lab (len s) (current_insts fc) j"
    and oldr: "\<And>j. len s \<le> j \<Longrightarrow> j < len fc \<Longrightarrow> refs_ok (fc_sequences fc) (op_at fc j)"
    using e by (auto simp: ext_def)
  show "prefix (current_insts s) (current_insts fc @ [x])" using p by simp
  show "H' \<subseteq> {len s..<length (current_insts fc @ [x])}" using H HH ext_len [OF e] by auto
  fix j assume j: "len s \<le> j" "j < length (current_insts fc @ [x])"
  have "inst_okH H' lab (len s) (current_insts fc @ [x]) j"
  proof (cases "j < len fc")
    case True
    have "H' = H \<union> (H' - H)" "H' - H \<subseteq> {len fc..}" using H by auto
    with inst_okH_left [OF old [OF j(1) True] _ j(1) True, of "current_insts fc @ [x]" "H' - H"]
    show ?thesis by simp
  next
    case False
    with j have "j = len fc" by simp
    with x ops H HH show ?thesis unfolding inst_okH_def good_target_def
      by (auto simp: nth_append op_at_def)
  qed
  moreover have "refs_ok (fc_sequences fc) (fi_op ((current_insts fc @ [x]) ! j))"
    using j x refs oldr [of j] by (auto simp: nth_append op_at_def)
  ultimately show "inst_okH H' lab (len s) (current_insts fc @ [x]) j \<and>
      refs_ok (fc_sequences fc) (fi_op ((current_insts fc @ [x]) ! j))" ..
qed

lemma ext_update:
  assumes e: "ext H lab s fc" and i: "len s \<le> i" "i < len fc" and x: "fi_op x = raw" "fi_value x = i"
    and ops: "\<forall>v \<in> operands raw. v < i" and refs: "refs_ok (fc_sequences fc) raw"
    and free: "lab \<longrightarrow> i \<in> H \<or> \<not> is_label (op_at fc i) \<or> is_label raw"
    and H': "H' = H - {i} \<and> (\<forall>t \<in> targets raw. good_target H lab s fc t) \<or> H' = H \<and> i \<in> H"
  shows "ext H' lab s (set_current_insts ((current_insts fc)[i := x]) fc)"
proof (rule ext_set_current [OF e])
  have p: "prefix (current_insts s) (current_insts fc)" and HH: "H \<subseteq> {len s..<len fc}"
    and old: "\<And>j. len s \<le> j \<Longrightarrow> j < len fc \<Longrightarrow> inst_okH H lab (len s) (current_insts fc) j"
    and oldr: "\<And>j. len s \<le> j \<Longrightarrow> j < len fc \<Longrightarrow> refs_ok (fc_sequences fc) (op_at fc j)"
    using e by (auto simp: ext_def)
  show "prefix (current_insts s) ((current_insts fc)[i := x])" by (rule prefix_update_beyond [OF p i(1)])
  show "H' \<subseteq> {len s..<length ((current_insts fc)[i := x])}" using HH H' by auto
  fix j assume j: "len s \<le> j" "j < length ((current_insts fc)[i := x])"
  then have o: "inst_okH H lab (len s) (current_insts fc) j" using old by simp
  have "inst_okH H' lab (len s) ((current_insts fc)[i := x]) j"
  proof (cases "j = i")
    case True
    with x ops H' free i show ?thesis unfolding inst_okH_def good_target_def
      by (auto simp: nth_list_update op_at_def)
  next
    case False
    have "is_label (fi_op ((current_insts fc)[i := x] ! t))"
      if "lab" "t \<notin> H" "is_label (fi_op (current_insts fc ! t))" "t < len fc" for t
      using that free x by (cases "t = i") (auto simp: op_at_def)
    moreover have "j \<in> H' \<longleftrightarrow> j \<in> H" "H' \<subseteq> H" using False H' by auto
    ultimately show ?thesis using o False unfolding inst_okH_def by auto
  qed
  moreover have "refs_ok (fc_sequences fc) (fi_op ((current_insts fc)[i := x] ! j))"
    using j x refs oldr [of j] by (cases "j = i") (auto simp: op_at_def)
  ultimately show "inst_okH H' lab (len s) ((current_insts fc)[i := x]) j \<and>
      refs_ok (fc_sequences fc) (fi_op ((current_insts fc)[i := x] ! j))" ..
qed

section \<open>Walking through a visitor method\<close>

text \<open>
  \<open>walk H lab s fc m Q\<close>: if the code \<open>fc\<close> extends \<open>s\<close> with holes \<open>H\<close>, then \<open>m\<close> runs from it and
  establishes \<open>Q\<close>. There is one rule per kind of step, each for an action followed by a
  continuation; what a rule tells the continuation about the old code it gives as rewrite rules.
\<close>

definition walk :: "nat set \<Rightarrow> bool \<Rightarrow> flat_code \<Rightarrow> flat_code \<Rightarrow> 'a lower \<Rightarrow> ('a \<Rightarrow> flat_code \<Rightarrow> bool) \<Rightarrow> bool" where
  "walk H lab s fc m Q \<longleftrightarrow> (ext H lab s fc \<longrightarrow> runs m fc Q)"

abbreviation kept :: "flat_code \<Rightarrow> flat_code \<Rightarrow> bool" where
  "kept fc fc' \<equiv> \<forall>j < len fc. op_at fc' j = op_at fc j"

lemma walk_lret: "(ext H lab s fc \<Longrightarrow> Q v fc) \<Longrightarrow> walk H lab s fc (lret v) Q"
  by (simp add: walk_def)

lemma walk_llift: "r = Inr x \<Longrightarrow> walk H lab s fc (f x) Q \<Longrightarrow> walk H lab s fc (lbind (llift r) f) Q"
  by (simp add: walk_def)

lemma walk_mono: "walk H lab s fc m P \<Longrightarrow> (\<And>v fc'. P v fc' \<Longrightarrow> Q v fc') \<Longrightarrow> walk H lab s fc m Q"
  by (auto simp: walk_def elim: runs_mono)

lemma runs_inst:
  assumes "fc_valid fc"
    and "Q (len fc) (set_current_insts (current_insts fc @
           [\<lparr>fi_op = raw, fi_value = len fc, fi_attrs = default_attrs\<rparr>]) fc)"
  shows "runs (inst raw) fc Q"
  using assms by (simp add: runs_def inst_def fc_valid_def current_insts_def)

lemma walk_emit:
  assumes ops: "\<forall>v \<in> operands raw. v < len fc" and refs: "refs_ok (fc_sequences fc) raw"
    and H: "H' = H \<and> (\<forall>t \<in> targets raw. good_target H lab s fc t) \<or> H' = insert (len fc) H"
    and Q: "\<And>fc'. ext H' lab s fc' \<Longrightarrow> len fc' = Suc (len fc) \<Longrightarrow> op_at fc' (len fc) = raw \<Longrightarrow>
              kept fc fc' \<Longrightarrow> Q (len fc) fc'"
  shows "walk H lab s fc (inst raw) Q"
  unfolding walk_def
proof
  assume e: "ext H lab s fc"
  show "runs (inst raw) fc Q"
  proof (rule runs_inst)
    show v: "fc_valid fc" using e ..
    show "Q (len fc) (set_current_insts (current_insts fc @
           [\<lparr>fi_op = raw, fi_value = len fc, fi_attrs = default_attrs\<rparr>]) fc)"
      by (rule Q, rule ext_append [OF e _ _ ops refs H])
        (use v in \<open>simp_all add: op_at_def nth_append\<close>)
  qed
qed

lemma walk_inst_last:
  assumes "\<forall>v \<in> operands raw. v < len fc" and "targets raw = {}" and "refs_ok (fc_sequences fc) raw"
    and "\<And>fc'. ext H lab s fc' \<Longrightarrow> len fc' = Suc (len fc) \<Longrightarrow> op_at fc' (len fc) = raw \<Longrightarrow>
           kept fc fc' \<Longrightarrow> Q (len fc) fc'"
  shows "walk H lab s fc (inst raw) Q"
  by (rule walk_emit [where H' = H]) (use assms in auto)

lemma walk_bindI:
  "walk H lab s fc m (\<lambda>v fc'. ext H' lab s fc' \<and> walk H' lab s fc' (f v) Q) \<Longrightarrow> walk H lab s fc (lbind m f) Q"
  by (auto simp: walk_def elim: runs_mono)

lemma walk_inst:
  assumes "\<forall>v \<in> operands raw. v < len fc" and "targets raw = {}" and "refs_ok (fc_sequences fc) raw"
    and "\<And>fc'. len fc' = Suc (len fc) \<Longrightarrow> op_at fc' (len fc) = raw \<Longrightarrow>
           kept fc fc' \<Longrightarrow> walk H lab s fc' (f (len fc)) Q"
  shows "walk H lab s fc (lbind (inst raw) f) Q"
  by (rule walk_bindI, rule walk_inst_last) (use assms in auto)

lemma walk_jump:
  assumes "\<forall>v \<in> operands raw. v < len fc" and "refs_ok (fc_sequences fc) raw"
    and "\<forall>t \<in> targets raw. good_target H lab s fc t"
    and "\<And>fc'. len fc' = Suc (len fc) \<Longrightarrow> op_at fc' (len fc) = raw \<Longrightarrow>
           kept fc fc' \<Longrightarrow> walk H lab s fc' (f (len fc)) Q"
  shows "walk H lab s fc (lbind (inst raw) f) Q"
  by (rule walk_bindI, rule walk_emit) (use assms in auto)

lemma walk_hole:
  assumes "\<forall>v \<in> operands raw. v < len fc" and "refs_ok (fc_sequences fc) raw"
    and "\<And>fc'. len fc' = Suc (len fc) \<Longrightarrow> op_at fc' (len fc) = raw \<Longrightarrow>
           kept fc fc' \<Longrightarrow> walk (insert (len fc) H) lab s fc' (f (len fc)) Q"
  shows "walk H lab s fc (lbind (inst raw) f) Q"
  by (rule walk_bindI [where H' = "insert (len fc) H"], rule walk_emit) (use assms in auto)

subsection \<open>Overwriting\<close>

lemma walk_patch_gen:
  assumes i: "len s \<le> i" "i < len fc" and f: "\<And>x. fi_op x = op_at fc i \<Longrightarrow> f x = Inr (g x)"
    and g: "\<And>x. fi_op x = op_at fc i \<Longrightarrow> fi_op (g x) = raw \<and> fi_value (g x) = fi_value x"
    and ops: "\<forall>v \<in> operands raw. v < i" and refs: "refs_ok (fc_sequences fc) raw"
    and free: "lab \<longrightarrow> i \<in> H \<or> \<not> is_label (op_at fc i) \<or> is_label raw"
    and H': "H' = H - {i} \<and> (\<forall>t \<in> targets raw. good_target H lab s fc t) \<or> H' = H \<and> i \<in> H"
    and Q: "\<And>fc'. len fc' = len fc \<Longrightarrow> op_at fc' i = raw \<Longrightarrow> (\<forall>j < len fc. j \<noteq> i \<longrightarrow> op_at fc' j = op_at fc j) \<Longrightarrow>
              walk H' lab s fc' (k ()) Q"
  shows "walk H lab s fc (lbind (patch i f) k) Q"
  unfolding walk_def
proof
  assume e: "ext H lab s fc"
  then have v: "fc_valid fc" ..
  let ?x = "current_insts fc ! i"
  let ?fc = "set_current_insts ((current_insts fc)[i := g ?x]) fc"
  have x: "fi_op ?x = op_at fc i" by (simp add: op_at_def)
  have "fi_value ?x = i" using e i by (rule ext_value)
  with g [OF x] have "ext H' lab s ?fc"
    by (intro ext_update [OF e i _ _ ops refs free H']) simp_all
  moreover have "walk H' lab s ?fc (k ()) Q"
    by (rule Q) (use v i g [OF x] in \<open>simp_all add: op_at_def\<close>)
  ultimately have "runs (k ()) ?fc Q" by (simp add: walk_def)
  then show "runs (lbind (patch i f) k) fc Q"
    using i f [OF x] by (simp add: runs_def patch_def lbind_def)
qed

lemma walk_set_op:
  assumes "len s \<le> i" "i < len fc" and "\<forall>v \<in> operands raw. v < i" and "refs_ok (fc_sequences fc) raw"
    and "lab \<longrightarrow> i \<in> H \<or> \<not> is_label (op_at fc i)" and "\<forall>t \<in> targets raw. good_target H lab s fc t"
    and "\<And>fc'. len fc' = len fc \<Longrightarrow> op_at fc' i = raw \<Longrightarrow> (\<forall>j < len fc. j \<noteq> i \<longrightarrow> op_at fc' j = op_at fc j) \<Longrightarrow>
           walk (H - {i}) lab s fc' (k ()) Q"
  shows "walk H lab s fc (lbind (patch i (set_op raw)) k) Q"
  by (rule walk_patch_gen [where g = "\<lambda>x. x\<lparr>fi_op := raw\<rparr>" and raw = raw and H' = "H - {i}"])
    (use assms in \<open>auto simp: set_op_def\<close>)

text \<open>Setting a span leaves the code as it is.\<close>

lemma ext_put_span:
  assumes e: "ext H lab s fc" and i: "len s \<le> i" "i < len fc"
  shows "ext H lab s (set_current_insts ((current_insts fc)[i := (current_insts fc ! i)\<lparr>fi_attrs := a\<rparr>]) fc)"
    (is "ext H lab s (set_current_insts ?is fc)")
proof (rule ext_set_current [OF e])
  have p: "prefix (current_insts s) (current_insts fc)" using e by (simp add: ext_def)
  show "prefix (current_insts s) ?is" by (rule prefix_update_beyond [OF p i(1)])
  show "H \<subseteq> {len s..<length ?is}" using e by (simp add: ext_def)
  fix j assume j: "len s \<le> j" "j < length ?is"
  have same: "fi_op (?is ! t) = fi_op (current_insts fc ! t)" "fi_value (?is ! t) = fi_value (current_insts fc ! t)"
    for t using i by (simp_all add: nth_list_update)
  have "refs_ok (fc_sequences fc) (op_at fc j)" using e j by (simp add: ext_def)
  with j ext_inst [OF e, of j] show "inst_okH H lab (len s) ?is j \<and> refs_ok (fc_sequences fc) (fi_op (?is ! j))"
    unfolding inst_okH_def same by (simp add: op_at_def)
qed

lemma walk_put_span:
  assumes i: "len s \<le> i" "i < len fc"
    and Q: "\<And>fc'. len fc' = len fc \<Longrightarrow> kept fc fc' \<Longrightarrow> walk H lab s fc' (k ()) Q"
  shows "walk H lab s fc (lbind (patch i (put_span sp)) k) Q"
  unfolding walk_def
proof
  let ?x = "current_insts fc ! i"
  let ?fc = "set_current_insts ((current_insts fc)[i := ?x\<lparr>fi_attrs := (fi_attrs ?x)\<lparr>ia_span := Some sp\<rparr>\<rparr>]) fc"
  assume e: "ext H lab s fc"
  then have v: "fc_valid fc" ..
  have "walk H lab s ?fc (k ()) Q" by (rule Q) (use v i in \<open>simp_all add: op_at_def nth_list_update\<close>)
  then have "runs (k ()) ?fc Q" using ext_put_span [OF e i] by (simp add: walk_def)
  then show "runs (lbind (patch i (put_span sp)) k) fc Q"
    using i by (simp add: runs_def patch_def lbind_def put_span_def)
qed

lemma lbind_assoc: "lbind (lbind m f) g = lbind m (\<lambda>x. lbind (f x) g)"
  by (rule ext) (auto simp: lbind_def and_then_def split: sum.splits)

lemma lbind_lret [simp]: "lbind (lret x) f = f x" "lbind m lret = m"
  by (auto simp: fun_eq_iff lbind_def lret_def and_then_def split: sum.splits)

lemma walk_span:
  "(\<forall>v \<in> set vs. len s \<le> v \<and> v < len fc) \<Longrightarrow>
     (\<And>fc'. len fc' = len fc \<Longrightarrow> kept fc fc' \<Longrightarrow> walk H lab s fc' (k ()) Q) \<Longrightarrow>
     walk H lab s fc (lbind (set_span_for_values vs sp) k) Q"
proof (induction vs arbitrary: fc)
  case Nil
  then show ?case by simp
next
  case (Cons v vs)
  show ?case unfolding set_span_for_values.simps lbind_assoc
  proof (rule walk_put_span)
    fix fc'
    assume k: "len fc' = len fc" "kept fc fc'"
    show "walk H lab s fc' (lbind (set_span_for_values vs sp) k) Q"
      by (rule Cons.IH) (use Cons.prems k in simp_all)
  qed (use Cons.prems in simp_all)
qed

lemma walk_span_opt:
  "(\<forall>v \<in> set vs. len s \<le> v \<and> v < len fc) \<Longrightarrow>
     (\<And>fc'. len fc' = len fc \<Longrightarrow> kept fc fc' \<Longrightarrow> walk H lab s fc' (k ()) Q) \<Longrightarrow>
     walk H lab s fc (lbind (set_span_opt vs sp) k) Q"
  by (cases sp) (simp_all add: set_span_opt_def walk_span)

subsection \<open>Visits of children\<close>

lemma val_okI:
  assumes "\<And>s. fc_valid s \<Longrightarrow> len s + n < INVALID_VALUE \<Longrightarrow>
    walk {} lab s s m (\<lambda>v fc'. ext {} lab s fc' \<and> len fc' \<le> len s + n \<and> len s \<le> v \<and> v < len fc')"
  shows "val_ok lab n m"
  using assms by (simp add: val_ok_def walk_def ext_refl)

lemma act_okI:
  assumes "\<And>s. fc_valid s \<Longrightarrow> len s + n < INVALID_VALUE \<Longrightarrow>
    walk {} lab s s m (\<lambda>v fc'. ext {} lab s fc' \<and> len fc' \<le> len s + n)"
  shows "act_ok lab n m"
  using assms by (simp add: act_ok_def walk_def ext_refl)

lemma val_ok_act: "val_ok lab n m \<Longrightarrow> act_ok lab n m"
  unfolding val_ok_def act_ok_def by (blast intro: runs_mono)

lemma ext_kept: "ext H lab s fc \<Longrightarrow> kept s fc"
  using ext_keeps unfolding keeps_def by blast

lemma walk_runs:
  assumes m: "ext H lab s fc \<Longrightarrow> runs m fc (\<lambda>v fc'. ext {} lab fc fc' \<and> P v fc')"
    and Q: "\<And>v fc'. P v fc' \<Longrightarrow> len fc \<le> len fc' \<Longrightarrow> kept fc fc' \<Longrightarrow> walk H lab s fc' (f v) Q"
  shows "walk H lab s fc (lbind m f) Q"
  unfolding walk_def runs_lbind
proof
  assume e: "ext H lab s fc"
  show "runs m fc (\<lambda>v fc'. runs (f v) fc' Q)"
  proof (rule runs_mono [OF m [OF e]])
    fix v fc'
    assume *: "ext {} lab fc fc' \<and> P v fc'"
    then have e': "ext {} lab fc fc'" and P: "P v fc'" by simp_all
    from ext_trans [OF e e'] Q [OF P ext_len [OF e'] ext_kept [OF e']] show "runs (f v) fc' Q"
      by (simp add: walk_def)
  qed
qed

lemma walk_act:
  assumes m: "act_ok lab n m" and n: "len fc + n < INVALID_VALUE"
    and Q: "\<And>v fc'. len fc \<le> len fc' \<Longrightarrow> len fc' \<le> len fc + n \<Longrightarrow> kept fc fc' \<Longrightarrow> walk H lab s fc' (f v) Q"
  shows "walk H lab s fc (lbind m f) Q"
  by (rule walk_runs [where P = "\<lambda>v fc'. len fc' \<le> len fc + n"]) (use m n Q in \<open>auto simp: act_ok_def\<close>)

lemma walk_act_last:
  assumes m: "act_ok lab n m" and n: "len fc + n < INVALID_VALUE"
    and Q: "\<And>v fc'. ext H lab s fc' \<Longrightarrow> len fc \<le> len fc' \<Longrightarrow> len fc' \<le> len fc + n \<Longrightarrow> Q v fc'"
  shows "walk H lab s fc m Q"
proof -
  have "walk H lab s fc (lbind m lret) Q" by (rule walk_act [OF m n], rule walk_lret, rule Q)
  then show ?thesis by simp
qed

lemma walk_visit:
  assumes m: "val_ok lab n m" and n: "len fc + n < INVALID_VALUE"
    and Q: "\<And>v fc'. len fc \<le> len fc' \<Longrightarrow> len fc' \<le> len fc + n \<Longrightarrow> kept fc fc' \<Longrightarrow> len fc \<le> v \<Longrightarrow> v < len fc' \<Longrightarrow>
              walk H lab s fc' (f v) Q"
  shows "walk H lab s fc (lbind m f) Q"
  by (rule walk_runs [where P = "\<lambda>v fc'. len fc' \<le> len fc + n \<and> len fc \<le> v \<and> v < len fc'"])
    (use m n Q in \<open>auto simp: val_ok_def\<close>)

lemma walk_lseq:
  "list_all2 (val_ok lab) ns ms \<Longrightarrow> len fc + sum_list ns < INVALID_VALUE \<Longrightarrow>
     (\<And>vs fc'. len fc \<le> len fc' \<Longrightarrow> len fc' \<le> len fc + sum_list ns \<Longrightarrow> kept fc fc' \<Longrightarrow>
        (\<forall>v \<in> set vs. len fc \<le> v \<and> v < len fc') \<Longrightarrow> length vs = length ms \<Longrightarrow> walk H lab s fc' (f vs) Q) \<Longrightarrow>
     walk H lab s fc (lbind (lseq ms) f) Q"
proof (induction ns ms arbitrary: fc f rule: list_all2_induct)
  case Nil
  then show ?case by simp
next
  case (Cons n ns m ms)
  show ?case unfolding lseq.simps lbind_assoc
  proof (rule walk_visit [OF Cons.hyps(1)])
    fix v fc'
    assume v: "len fc \<le> len fc'" "len fc' \<le> len fc + n" "kept fc fc'" "len fc \<le> v" "v < len fc'"
    show "walk H lab s fc' (lbind (lseq ms) (\<lambda>vs. lbind (lret (v # vs)) f)) Q"
      unfolding lbind_lret
    proof (rule Cons.IH)
      fix vs fc''
      assume "len fc' \<le> len fc''" "len fc'' \<le> len fc' + sum_list ns" "kept fc' fc''"
        "\<forall>v \<in> set vs. len fc' \<le> v \<and> v < len fc''" "length vs = length ms"
      with v show "walk H lab s fc'' (f (v # vs)) Q" by (intro Cons.prems(2)) auto
    qed (use Cons.prems v in simp)
  qed (use Cons.prems in simp)
qed

lemma walk_lseq_acts:
  "list_all2 (act_ok lab) ns ms \<Longrightarrow> len fc + sum_list ns < INVALID_VALUE \<Longrightarrow>
     (\<And>vs fc'. len fc \<le> len fc' \<Longrightarrow> len fc' \<le> len fc + sum_list ns \<Longrightarrow> kept fc fc' \<Longrightarrow> walk H lab s fc' (f vs) Q) \<Longrightarrow>
     walk H lab s fc (lbind (lseq ms) f) Q"
proof (induction ns ms arbitrary: fc f rule: list_all2_induct)
  case Nil
  then show ?case by simp
next
  case (Cons n ns m ms)
  show ?case unfolding lseq.simps lbind_assoc
  proof (rule walk_act [OF Cons.hyps(1)])
    fix v fc'
    assume v: "len fc \<le> len fc'" "len fc' \<le> len fc + n" "kept fc fc'"
    show "walk H lab s fc' (lbind (lseq ms) (\<lambda>vs. lbind (lret (v # vs)) f)) Q"
      unfolding lbind_lret by (rule Cons.IH) (use Cons.prems v in auto)
  qed (use Cons.prems in simp)
qed

subsection \<open>New sequences\<close>

lemma inst_okH_none: "inst_okH {} lab a is j \<longleftrightarrow> inst_ok lab a is j"
  unfolding inst_okH_def inst_ok_def by simp

lemma ext_seq_ok:
  assumes e: "ext {} lab s fc" and s: "current_insts s = []"
  shows "seq_ok lab (fc_sequences fc ! fc_index fc)"
    and "\<forall>x \<in> set (fs_inst (fc_sequences fc ! fc_index fc)). refs_ok (fc_sequences fc) (fi_op x)"
proof -
  have v: "current_insts fc = fs_inst (fc_sequences fc ! fc_index fc)"
    using current_insts_valid ext_valid [OF e] by simp
  have "inst_ok lab 0 (current_insts fc) j" if "j < len fc" for j
    using ext_inst [OF e, of j] s that by (simp add: inst_okH_none)
  then show "seq_ok lab (fc_sequences fc ! fc_index fc)" by (simp add: seq_ok_def region_ok_def flip: v)
  have "refs_ok (fc_sequences fc) (fi_op (current_insts fc ! j))" if "j < len fc" for j
    using e s that by (simp add: ext_def op_at_def)
  then show "\<forall>x \<in> set (fs_inst (fc_sequences fc ! fc_index fc)). refs_ok (fc_sequences fc) (fi_op x)"
    by (auto simp: in_set_conv_nth simp flip: v)
qed

definition new_frame :: "sequence_type \<Rightarrow> module_ref \<times> span \<Rightarrow> flat_code \<Rightarrow> flat_code" where
  "new_frame kind sp fc = fc\<lparr>fc_index := length (fc_sequences fc),
     fc_sequences := fc_sequences fc @ [\<lparr>fs_inst = [], fs_kind = kind, fs_span = sp, fs_ast = None\<rparr>]\<rparr>"

lemma new_frame_facts:
  "fc_valid (new_frame kind sp fc)" "current_insts (new_frame kind sp fc) = []"
  "fc_index (new_frame kind sp fc) = length (fc_sequences fc)"
  "length (fc_sequences (new_frame kind sp fc)) = Suc (length (fc_sequences fc))"
  "fc_mref (new_frame kind sp fc) = fc_mref fc"
  "i < length (fc_sequences fc) \<Longrightarrow> fc_sequences (new_frame kind sp fc) ! i = fc_sequences fc ! i"
  "fs_kind (fc_sequences (new_frame kind sp fc) ! length (fc_sequences fc)) = kind"
  by (simp_all add: new_frame_def fc_valid_def current_insts_def nth_append)

lemma same_frame_pop:
  assumes v: "fc_valid fc" and f: "same_frame (new_frame kind sp fc) fc2"
  shows "same_frame fc (fc2\<lparr>fc_index := fc_index fc\<rparr>)"
    and "current_insts (fc2\<lparr>fc_index := fc_index fc\<rparr>) = current_insts fc"
    and "length (fc_sequences fc) < length (fc_sequences fc2)"
    and "fs_kind (fc_sequences fc2 ! length (fc_sequences fc)) = kind"
proof -
  have old: "fc_sequences fc2 ! i = fc_sequences fc ! i" if "i < length (fc_sequences fc)" for i
    using f that by (auto simp: same_frame_def new_frame_facts)
  show l: "length (fc_sequences fc) < length (fc_sequences fc2)" using f
    by (auto simp: same_frame_def new_frame_facts)
  then show "same_frame fc (fc2\<lparr>fc_index := fc_index fc\<rparr>)"
    using f old by (auto simp: same_frame_def new_frame_facts)
  show "current_insts (fc2\<lparr>fc_index := fc_index fc\<rparr>) = current_insts fc"
    using v l old by (simp add: current_insts_def fc_valid_def)
  show "fs_kind (fc_sequences fc2 ! length (fc_sequences fc)) = kind"
    using f by (auto simp: same_frame_def new_frame_facts)
qed

lemma ext_pop:
  assumes v: "fc_valid fc" and e: "ext {} lab (new_frame kind sp fc) fc2"
  shows "ext {} lab fc (fc2\<lparr>fc_index := fc_index fc\<rparr>)" (is "ext _ _ _ ?fc")
proof -
  note f = ext_frame [OF e]
  have ix: "fc_index fc2 = length (fc_sequences fc)" using f by (simp add: same_frame_def new_frame_facts)
  have new: "new_seqs_ok lab (new_frame kind sp fc) fc2" using e by (simp add: ext_def)
  have "new_seqs_ok lab fc ?fc" unfolding new_seqs_ok_def
  proof (intro allI impI)
    fix i assume i: "length (fc_sequences fc) \<le> i \<and> i < length (fc_sequences ?fc)"
    show "seq_ok lab (fc_sequences ?fc ! i) \<and>
      (\<forall>x\<in>set (fs_inst (fc_sequences ?fc ! i)). refs_ok (fc_sequences ?fc) (fi_op x))"
    proof (cases "i = length (fc_sequences fc)")
      case True
      then show ?thesis using ext_seq_ok [OF e new_frame_facts(2)] ix by simp
    next
      case False
      with i have "length (fc_sequences (new_frame kind sp fc)) \<le> i \<and> i < length (fc_sequences fc2)"
        by (simp add: new_frame_facts)
      with new show ?thesis unfolding new_seqs_ok_def by simp
    qed
  qed
  with v same_frame_pop [OF v f] show ?thesis unfolding ext_def by auto
qed

lemma with_new_sequence_unfold:
  "with_new_sequence kind sp f fc =
     and_then (f (new_frame kind sp fc)) (\<lambda>(_, fc2). Inr (length (fc_sequences fc), fc2\<lparr>fc_index := fc_index fc\<rparr>))"
  by (simp add: with_new_sequence_def new_frame_def Let_def)

lemma walk_new_sequence:
  assumes body: "act_ok lab n body" and n: "n < INVALID_VALUE"
    and Q: "\<And>fc'. len fc' = len fc \<Longrightarrow> kept fc fc' \<Longrightarrow> length (fc_sequences s) \<le> length (fc_sequences fc) \<Longrightarrow>
       length (fc_sequences fc) < length (fc_sequences fc') \<Longrightarrow>
       fs_kind (fc_sequences fc' ! length (fc_sequences fc)) = kind \<Longrightarrow>
       walk H lab s fc' (f (length (fc_sequences fc))) Q"
  shows "walk H lab s fc (lbind (\<lambda>fc. with_new_sequence kind (g fc) body fc) f) Q"
  unfolding walk_def
proof
  assume e: "ext H lab s fc"
  then have v: "fc_valid fc" ..
  have "runs body (new_frame kind (g fc) fc) (\<lambda>_ fc2. ext {} lab (new_frame kind (g fc) fc) fc2 \<and>
      len fc2 \<le> len (new_frame kind (g fc) fc) + n)"
    using body [unfolded act_ok_def, rule_format, OF new_frame_facts(1)] n by (simp add: new_frame_facts)
  then obtain u fc2 where b: "body (new_frame kind (g fc) fc) = Inr (u, fc2)"
    and e2: "ext {} lab (new_frame kind (g fc) fc) fc2"
    unfolding runs_def by blast
  let ?fc = "fc2\<lparr>fc_index := fc_index fc\<rparr>"
  note pop = same_frame_pop [OF v ext_frame [OF e2]]
  have "walk H lab s ?fc (f (length (fc_sequences fc))) Q"
    by (rule Q) (use pop ext_frame [OF e] in \<open>simp_all add: op_at_def same_frame_def\<close>)
  with ext_trans [OF e ext_pop [OF v e2]] have "runs (f (length (fc_sequences fc))) ?fc Q"
    by (simp add: walk_def)
  then show "runs (lbind (\<lambda>fc. with_new_sequence kind (g fc) body fc) f) fc Q"
    by (simp add: runs_def lbind_def with_new_sequence_unfold b)
qed

text \<open>Recording the syntax tree of a sequence leaves its code as it is.\<close>

lemma ext_set_ast:
  assumes v: "fc_valid s" and e: "ext H lab s fc"
    and n: "length (fc_sequences s) \<le> n" "n < length (fc_sequences fc)"
  shows "ext H lab s (fc\<lparr>fc_sequences := (fc_sequences fc)[n := (fc_sequences fc ! n)\<lparr>fs_ast := a\<rparr>]\<rparr>)"
    (is "ext H lab s ?fc")
proof -
  have nth: "fs_inst (fc_sequences ?fc ! i) = fs_inst (fc_sequences fc ! i)"
    "fs_kind (fc_sequences ?fc ! i) = fs_kind (fc_sequences fc ! i)" for i
    using n by (simp_all add: nth_list_update)
  have refs: "refs_ok (fc_sequences ?fc) raw = refs_ok (fc_sequences fc) raw" for raw
    using nth(2) by (intro refs_ok_cong) (auto simp: list_eq_iff_nth_eq)
  have cur: "current_insts ?fc = current_insts fc"
    using n by (simp add: current_insts_def get_at_def nth_list_update)
  have seq: "seq_ok lab (fc_sequences ?fc ! i) = seq_ok lab (fc_sequences fc ! i)" for i
    unfolding seq_ok_def nth ..
  have "same_frame s ?fc" using e n v by (auto simp: ext_def same_frame_def fc_valid_def nth_list_update)
  moreover have "new_seqs_ok lab s ?fc" using e unfolding ext_def new_seqs_ok_def seq refs nth by simp
  ultimately show ?thesis using e unfolding ext_def refs by (simp add: cur op_at_def)
qed

lemma walk_set_ast:
  assumes n: "length (fc_sequences s) \<le> n" "n < length (fc_sequences fc)"
    and Q: "\<And>fc'. len fc' = len fc \<Longrightarrow> kept fc fc' \<Longrightarrow> length (fc_sequences fc') = length (fc_sequences fc) \<Longrightarrow>
       fs_kind (fc_sequences fc' ! n) = fs_kind (fc_sequences fc ! n) \<Longrightarrow> walk H lab s fc' (f ()) Q"
  shows "walk H lab s fc (lbind (set_ast n a) f) Q"
  unfolding walk_def
proof
  let ?fc = "fc\<lparr>fc_sequences := (fc_sequences fc)[n := (fc_sequences fc ! n)\<lparr>fs_ast := Some a\<rparr>]\<rparr>"
  assume e: "ext H lab s fc"
  then have v: "fc_valid s" by (simp add: ext_def)
  have cur: "current_insts ?fc = current_insts fc"
    using n by (simp add: current_insts_def get_at_def nth_list_update)
  have "walk H lab s ?fc (f ()) Q" by (rule Q) (use n in \<open>simp_all add: cur op_at_def\<close>)
  with ext_set_ast [OF v e n] have "runs (f ()) ?fc Q" by (simp add: walk_def)
  with n show "runs (lbind (set_ast n a) f) fc Q" by (simp add: runs_def lbind_def set_ast_def)
qed

end
