(* ===== verification/LowerCorrect.thy ===== *)
theory LowerCorrect
  imports LowerLogic
begin

text \<open>
  Lowering is correct on the trees it is meant for. \<open>low_*\<close> say which trees those are; the
  lemmas walk through each visitor method; the theorems at the end are about whole modules.
\<close>

section \<open>Expressions\<close>

text \<open>The rules with the continuation as first premise, so that a walk proceeds to the end of the method.\<close>

lemmas walk_steps =
  walk_inst [rotated 3] walk_inst_last [rotated 3] walk_llift [rotated 1] walk_span_opt [rotated 1]
  walk_span [rotated 1] walk_lret

lemmas step_inst = walk_inst [rotated 3]
lemmas step_hole = walk_hole [rotated 2]
lemmas step_set = walk_set_op [rotated 6]
lemmas visit_then = walk_visit [rotated 2]
lemmas act_then = walk_act [rotated 2]
lemmas lseq_acts_then = walk_lseq_acts [rotated 2]
lemmas step_span = walk_span [rotated 1]
lemmas step_span_opt = walk_span_opt [rotated 1]


lemmas visit_lseq = walk_lseq [rotated 2]

lemma lift_value: "lbind (llift (Inr x)) f = f x"
  by (simp add: fun_eq_iff lbind_def llift_def)

lemma const_ok: "val_ok lab 1 (lbind (inst (ConstInst c)) (\<lambda>v. lbind (set_span_opt [v] sp) (\<lambda>_. lret v)))"
  by (rule val_okI, (rule walk_steps)+, auto)

lemma visit_const_ok:
  "(case at of AtTuple _ \<Rightarrow> False | AtComment _ \<Rightarrow> False | AtName _ \<Rightarrow> False | _ \<Rightarrow> True) \<Longrightarrow>
     val_ok lab 1 (visit_const at sp)"
  by (cases at) (simp_all add: lift_value const_ok [simplified])

lemma visit_name_ok: "atom_as_name at = Some n \<Longrightarrow> val_ok lab 1 (visit_name at sp)"
  unfolding visit_name_def by (rule val_okI, (rule walk_steps)+, auto)

lemma visit_tuple_ok:
  assumes "list_all2 (val_ok lab) ns ms"
  shows "val_ok lab (sum_list ns + 1) (visit_tuple ms sp)"
  unfolding visit_tuple_def by (rule val_okI, rule visit_lseq [OF _ assms], (rule walk_steps)+, auto)

lemma visit_pass_ok: "val_ok lab 1 visit_pass"
  unfolding visit_pass_def by (rule val_okI, (rule walk_steps)+, auto)

lemma visit_binop_ok:
  assumes l: "val_ok lab n l" and r: "val_ok lab k r"
  shows "val_ok lab (n + k + 2) (visit_binop l op r)"
  unfolding visit_binop_def
  by (rule val_okI, rule visit_then [OF _ l], rule visit_then [OF _ r], (rule walk_steps)+, auto)

lemma visit_unary_ok:
  assumes v: "val_ok lab n v"
  shows "val_ok lab (n + 2) (visit_unary op v)"
  unfolding visit_unary_def by (rule val_okI, rule visit_then [OF _ v], (rule walk_steps)+, auto)

lemma visit_named_expr_ok:
  assumes "atom_as_name (sp_inner t) = Some m" and v: "val_ok lab n v"
  shows "val_ok lab (n + 1) (visit_named_expr t v sp)"
  using assms(1) unfolding visit_named_expr_def
  by (simp add: lift_value) (rule val_okI, rule visit_then [OF _ v], (rule walk_steps)+, auto)

lemma visit_call_ok:
  assumes f: "val_ok lab n f" and as: "list_all2 (val_ok lab) ns (case args of None \<Rightarrow> [] | Some as \<Rightarrow> as)"
  shows "val_ok lab (n + sum_list ns + 1) (visit_call f args sp)"
proof -
  have args: "(case args of Some as \<Rightarrow> lseq as | None \<Rightarrow> lret []) = lseq (case args of None \<Rightarrow> [] | Some as \<Rightarrow> as)"
    by (cases args) simp_all
  show ?thesis unfolding visit_call_def args
    by (rule val_okI, rule visit_then [OF _ f], rule visit_lseq [OF _ as], (rule walk_steps)+, auto)
qed

lemma visit_subscript_ok:
  assumes v: "val_ok lab n v" and i: "val_ok lab k i"
  shows "val_ok lab (n + k + 2) (visit_subscript v i)"
  unfolding visit_subscript_def
  by (rule val_okI, rule visit_then [OF _ v], rule visit_then [OF _ i], (rule walk_steps)+, auto)

lemma visit_attr_ok:
  assumes "atom_as_name (sp_inner a) = Some m" and b: "val_ok lab n b"
  shows "val_ok lab (n + 2) (visit_attr a b)"
  using assms(1) unfolding visit_attr_def
  by (simp add: lift_value) (rule val_okI, rule visit_then [OF _ b], (rule walk_steps)+, auto)

lemma visit_return_ok:
  assumes "case e of None \<Rightarrow> 1 \<le> n | Some m \<Rightarrow> val_ok lab n m"
  shows "val_ok lab (n + 1) (visit_return e sp)"
proof -
  have "val_ok lab n (inst (ConstInst CNone))" if "1 \<le> n" by (rule val_okI, (rule walk_steps)+, use that in auto)
  with assms have m: "val_ok lab n (case e of Some m \<Rightarrow> m | None \<Rightarrow> inst (ConstInst CNone))"
    by (cases e) simp_all
  show ?thesis unfolding visit_return_def
    by (rule val_okI, rule visit_then [OF _ m], (rule walk_steps)+, auto)
qed

lemma visit_annotation_ok:
  assumes "atom_as_name (sp_inner a) = Some m" and k: "val_ok lab n k"
  shows "val_ok lab (n + 1) (visit_annotation a k)"
  using assms(1) unfolding visit_annotation_def
  by (simp add: lift_value) (rule val_okI, rule visit_then [OF _ k], (rule walk_steps)+, auto)

text \<open>
  A ternary: the test jump is a hole until the false branch exists, each branch ends in a hole
  that becomes the jump to the receiving phi.
\<close>

lemma visit_ternary_ok:
  assumes t: "val_ok lab nt t" and b: "val_ok lab nb b" and e: "val_ok lab ne e"
  shows "val_ok lab (nt + nb + ne + 8) (visit_ternary t b e)"
  unfolding visit_ternary_def
  by (rule val_okI, rule visit_then [OF _ t], rule step_inst, rule step_inst, rule step_hole, rule step_inst,
      rule visit_then [OF _ b], rule step_hole, rule step_inst, rule visit_then [OF _ e], rule step_hole,
      rule step_inst, rule step_set, rule step_set, rule step_set, rule walk_lret)
    (simp_all add: good_target_def insert_Diff_if)

section \<open>Assignments and imports\<close>

lemma visit_assign_name_ok:
  assumes "sp_inner name = Atomic at" and "atom_as_name (sp_inner at) = Some m" and v: "val_ok lab n value_v"
  shows "val_ok lab (n + 1) (visit_assign name left_v value_v sp)"
  unfolding visit_assign_def using assms(1,2)
  by (simp add: lift_value) (rule val_okI, rule visit_then [OF _ v], (rule walk_steps)+, auto)

lemma visit_assign_attr_ok:
  assumes "sp_inner name = Attribute left attr" and "atom_as_name (sp_inner attr) = Some m"
    and l: "val_ok lab n left_v" and v: "val_ok lab k value_v"
  shows "val_ok lab (n + k + 2) (visit_assign name left_v value_v sp)"
  unfolding visit_assign_def using assms(1,2)
  by (simp add: lift_value del: set_span_for_values.simps)
    (rule val_okI, rule visit_then [OF _ l], rule step_inst, rule step_span, rule visit_then [OF _ v],
     (rule walk_steps)+, auto)

text \<open>A dotted name, as the parser builds it for an import.\<close>

fun dotted :: "primary \<Rightarrow> bool" where
  "dotted (Atomic at) = (atom_as_name (sp_inner at) \<noteq> None)"
| "dotted (Attribute (Spanned _ left) attr) = (dotted left \<and> atom_as_name (sp_inner attr) \<noteq> None)"
| "dotted _ = False"

lemma names_of_atoms:
  "\<forall>at \<in> set ats. atom_as_name at \<noteq> None \<Longrightarrow>
     \<exists>ns. foldr (\<lambda>at acc. and_then (unwrap (atom_as_name at)) (\<lambda>n. and_then acc (\<lambda>ns. Inr (n # ns)))) ats (Inr [])
       = Inr ns \<and> length ns = length ats"
  by (induction ats) auto

lemma dotted_components:
  "dotted p \<Longrightarrow> \<exists>ats. primary_components p = Inr ats \<and> ats \<noteq> [] \<and> (\<forall>at \<in> set ats. atom_as_name at \<noteq> None)"
  by (induction p rule: dotted.induct) auto

lemma dotted_names: "dotted p \<Longrightarrow> \<exists>n ns. component_names p = Inr (n # ns)"
proof -
  assume "dotted p"
  then obtain ats where "primary_components p = Inr ats" "ats \<noteq> []" "\<forall>at \<in> set ats. atom_as_name at \<noteq> None"
    using dotted_components by blast
  with names_of_atoms [of ats] show ?thesis by (auto simp: component_names_def length_Suc_conv neq_Nil_conv)
qed

lemma visit_import_names_ok:
  "\<forall>name \<in> set names. dotted (sp_inner name) \<Longrightarrow> act_ok lab (2 * length names) (visit_import_names names sp)"
proof (induction names)
  case Nil
  show ?case by (rule act_okI) (simp add: walk_lret)
next
  case (Cons name names)
  then obtain n ns where n: "component_names (sp_inner name) = Inr (n # ns)" using dotted_names by force
  have IH: "act_ok lab (2 * length names) (visit_import_names names sp)" using Cons by simp
  show ?case using n
    by (simp add: lift_value)
      (rule act_okI, rule step_inst, rule step_inst, rule step_span_opt, rule walk_act_last [OF IH], auto)
qed

lemma visit_import_from_names_ok:
  "\<forall>name \<in> set names. primary_as_name (sp_inner name) \<noteq> None \<Longrightarrow> m < len fc \<Longrightarrow>
     (\<And>v fc'. len fc \<le> len fc' \<Longrightarrow> len fc' \<le> len fc + 3 * length names \<Longrightarrow> walk H lab s fc' (k v) Q) \<Longrightarrow>
     walk H lab s fc (lbind (visit_import_from_names m names) k) Q"
proof (induction names arbitrary: fc)
  case Nil
  then show ?case by simp
next
  case (Cons name names)
  then obtain n where "primary_as_name (sp_inner name) = Some n" by auto
  then show ?case
    by (simp add: lift_value lbind_assoc)
      (rule step_inst, rule step_inst, rule step_inst, rule Cons.IH, use Cons.prems in auto)
qed

fun low_import :: "import \<Rightarrow> bool" where
  "low_import (ImportNames names) = list_all (\<lambda>n. dotted (sp_inner n)) names"
| "low_import (ImportFrom m names _) =
     (dotted (sp_inner m) \<and> list_all (\<lambda>n. primary_as_name (sp_inner n) \<noteq> None) names)"

fun import_cost :: "import \<Rightarrow> nat" where
  "import_cost (ImportNames names) = 2 * length names"
| "import_cost (ImportFrom _ names _) = 1 + 3 * length names"

lemma visit_import_ok: "low_import i \<Longrightarrow> act_ok lab (import_cost i) (visit_import i sp)"
proof (cases i)
  case (ImportNames names)
  assume "low_import i"
  with ImportNames visit_import_names_ok [of names lab sp]
  have n: "act_ok lab (2 * length names) (visit_import_names names sp)" by (simp add: list_all_iff)
  show ?thesis unfolding ImportNames visit_import.simps
    by (rule act_okI, rule act_then [OF _ n], rule walk_lret) simp_all
next
  case (ImportFrom m names level)
  assume "low_import i"
  with ImportFrom obtain n ns where "component_names (sp_inner m) = Inr (n # ns)"
    and names: "\<forall>name \<in> set names. primary_as_name (sp_inner name) \<noteq> None"
    using dotted_names by (force simp: list_all_iff)
  then show ?thesis unfolding ImportFrom visit_import.simps
    by (simp add: lift_value)
      (rule act_okI, rule step_inst, rule visit_import_from_names_ok [OF names], simp, rule walk_lret, auto)
qed

section \<open>Loops\<close>

text \<open>
  The header of a while loop is emitted as a label, overwritten with a jump and so a hole at
  first; so is the test's jump until the exit label exists.
\<close>

lemma visit_while_ok:
  assumes t: "val_ok lab n t" and b: "list_all2 (act_ok lab) ns body"
  shows "act_ok lab (n + sum_list ns + 6) (visit_while t body)"
  unfolding visit_while_def
  by (rule act_okI, rule step_hole, rule step_inst, rule step_set, rule visit_then [OF _ t], rule step_hole,
      rule step_inst, rule lseq_acts_then [OF _ b], rule walk_jump [rotated 3], rule step_inst, rule step_set,
      rule walk_lret)
    (simp_all add: good_target_def insert_Diff_if)

end
