(* ===== verification/LowerIf.thy ===== *)
theory LowerIf
  imports LowerCorrect
begin

text \<open>
  If chains (\<open>visit_ifstmt\<close>). All tests are emitted first, then all bodies, then the \<open>else\<close> body;
  the jumps are holes until a final loop overwrites them. The loop only ever turns an \<open>If\<close> into
  an \<open>If\<close> on the same test and a \<open>Br\<close> into a \<open>Br\<close>, which is what \<open>same_kinds\<close> records.
\<close>

section \<open>Kinds of instructions\<close>

definition is_if :: "flat_code \<Rightarrow> nat \<Rightarrow> bool" where
  "is_if fc i \<longleftrightarrow> (\<exists>t a b. op_at fc i = IfInst t a b \<and> t < i)"

definition is_br :: "flat_code \<Rightarrow> nat \<Rightarrow> bool" where
  "is_br fc i \<longleftrightarrow> (\<exists>t. op_at fc i = Br t)"

definition same_kinds :: "flat_code \<Rightarrow> flat_code \<Rightarrow> bool" where
  "same_kinds fc fc' \<longleftrightarrow> len fc' = len fc \<and>
     (\<forall>j < len fc. (is_if fc j \<longrightarrow> is_if fc' j) \<and> (is_br fc j \<longrightarrow> is_br fc' j) \<and>
        (is_label (op_at fc j) \<longrightarrow> is_label (op_at fc' j)))"

lemma same_kinds_trans: "same_kinds a b \<Longrightarrow> same_kinds b c \<Longrightarrow> same_kinds a c"
  by (simp add: same_kinds_def)

lemma is_if_not_label: "is_if fc i \<Longrightarrow> \<not> is_label (op_at fc i)"
  and is_br_not_label: "is_br fc i \<Longrightarrow> \<not> is_label (op_at fc i)"
  by (auto simp: is_if_def is_br_def)

lemma kept_is_if: "kept fc fc' \<Longrightarrow> i < len fc \<Longrightarrow> is_if fc' i = is_if fc i"
  and kept_is_br: "kept fc fc' \<Longrightarrow> i < len fc \<Longrightarrow> is_br fc' i = is_br fc i"
  by (simp_all add: is_if_def is_br_def)

lemma same_kinds_update:
  assumes l: "len fc' = len fc" and o: "\<forall>j < len fc. j \<noteq> i \<longrightarrow> op_at fc' j = op_at fc j"
    and i: "is_if fc i \<longrightarrow> is_if fc' i" "is_br fc i \<longrightarrow> is_br fc' i" "\<not> is_label (op_at fc i)"
  shows "same_kinds fc fc'"
  unfolding same_kinds_def
proof (intro conjI allI l)
  fix j
  show "j < len fc \<longrightarrow> (is_if fc j \<longrightarrow> is_if fc' j) \<and> (is_br fc j \<longrightarrow> is_br fc' j) \<and>
    (is_label (op_at fc j) \<longrightarrow> is_label (op_at fc' j))"
    using o i by (cases "j = i") (simp_all add: is_if_def is_br_def)
qed

lemma good_target_mono:
  "good_target H lab s fc t \<Longrightarrow> same_kinds fc fc' \<Longrightarrow> H' \<subseteq> H \<Longrightarrow> good_target H' lab s fc' t"
  by (auto simp: good_target_def same_kinds_def)

section \<open>The patching steps\<close>

lemma walk_if_targets:
  assumes i: "len s \<le> i" "i < len fc" "is_if fc i"
    and t: "good_target H lab s fc body" "good_target H lab s fc after"
    and Q: "\<And>fc'. same_kinds fc fc' \<Longrightarrow> walk (H - {i}) lab s fc' (k ()) Q"
  shows "walk H lab s fc (lbind (patch i (set_if_targets body after)) k) Q"
proof -
  obtain c a b where c: "op_at fc i = IfInst c a b" "c < i" using i(3) by (auto simp: is_if_def)
  show ?thesis
  proof (rule walk_patch_gen [where g = "\<lambda>x. x\<lparr>fi_op := IfInst c (Some body) (Some after)\<rparr>"
        and raw = "IfInst c (Some body) (Some after)" and H' = "H - {i}"])
    fix fc'
    assume "len fc' = len fc" "op_at fc' i = IfInst c (Some body) (Some after)"
      "\<forall>j < len fc. j \<noteq> i \<longrightarrow> op_at fc' j = op_at fc j"
    with c have "same_kinds fc fc'" by (intro same_kinds_update [where i = i]) (auto simp: is_if_def is_br_def)
    then show "walk (H - {i}) lab s fc' (k ()) Q" by (rule Q)
  qed (use i c t in \<open>auto simp: set_if_targets_def set_op_def\<close>)
qed

lemma walk_br_target:
  assumes i: "len s \<le> i" "i < len fc" "is_br fc i" and t: "good_target H lab s fc after"
    and Q: "\<And>fc'. same_kinds fc fc' \<Longrightarrow> walk (H - {i}) lab s fc' (k ()) Q"
  shows "walk H lab s fc (lbind (patch i (set_br_target after)) k) Q"
proof -
  obtain c where c: "op_at fc i = Br c" using i(3) by (auto simp: is_br_def)
  show ?thesis
  proof (rule walk_patch_gen [where g = "\<lambda>x. x\<lparr>fi_op := Br after\<rparr>" and raw = "Br after" and H' = "H - {i}"])
    fix fc'
    assume "len fc' = len fc" "op_at fc' i = Br after" "\<forall>j < len fc. j \<noteq> i \<longrightarrow> op_at fc' j = op_at fc j"
    with c have "same_kinds fc fc'" by (intro same_kinds_update [where i = i]) (auto simp: is_if_def is_br_def)
    then show "walk (H - {i}) lab s fc' (k ()) Q" by (rule Q)
  qed (use i c t in \<open>auto simp: set_br_target_def set_op_def\<close>)
qed

lemma runs_replace_falsey:
  assumes "i < len fc" and "op_at fc i = IfInst c a b"
  shows "lbind (replace_falsey (Some i) to) k fc = lbind (patch i (set_op (IfInst c a (Some to)))) k fc"
  using assms by (simp add: lbind_def replace_falsey_def op_at_def)

lemma walk_falsey:
  assumes i: "len s \<le> i" "i < len fc" "is_if fc i" and t: "i \<in> H \<or> good_target H lab s fc to"
    and Q: "\<And>fc'. same_kinds fc fc' \<Longrightarrow> walk H lab s fc' (k ()) Q"
  shows "walk H lab s fc (lbind (replace_falsey (Some i) to) k) Q"
  unfolding walk_def
proof
  assume e: "ext H lab s fc"
  obtain c a b where c: "op_at fc i = IfInst c a b" "c < i" using i(3) by (auto simp: is_if_def)
  have old: "good_target H lab s fc x" if "i \<notin> H" "x \<in> set_option a" for x
    using ext_inst [OF e i(1,2)] that c by (auto simp: inst_okH_def good_target_def op_at_def)
  have "walk H lab s fc (lbind (patch i (set_op (IfInst c a (Some to)))) k) Q"
  proof (rule walk_patch_gen [where g = "\<lambda>x. x\<lparr>fi_op := IfInst c a (Some to)\<rparr>"
        and raw = "IfInst c a (Some to)" and H' = H])
    fix fc'
    assume "len fc' = len fc" "op_at fc' i = IfInst c a (Some to)"
      "\<forall>j < len fc. j \<noteq> i \<longrightarrow> op_at fc' j = op_at fc j"
    with c have "same_kinds fc fc'" by (intro same_kinds_update [where i = i]) (auto simp: is_if_def is_br_def)
    then show "walk H lab s fc' (k ()) Q" by (rule Q)
  next
    show "H = H - {i} \<and> (\<forall>t\<in>targets (IfInst c a (Some to)). good_target H lab s fc t) \<or> H = H \<and> i \<in> H"
      using t old by auto
  qed (use i c in \<open>auto simp: set_op_def\<close>)
  with e have "runs (lbind (patch i (set_op (IfInst c a (Some to)))) k) fc Q" by (simp add: walk_def)
  then show "runs (lbind (replace_falsey (Some i) to) k) fc Q"
    unfolding runs_def runs_replace_falsey [OF i(2) c(1)] .
qed

text \<open>
  What the loop needs of the pairs it is given: an \<open>If\<close> and a \<open>Br\<close> to overwrite, a place to send
  the \<open>If\<close>; a branch that has a predecessor also needs its recorded entry to be a place to jump to.
\<close>

definition pair_ok :: "nat set \<Rightarrow> bool \<Rightarrow> flat_code \<Rightarrow> flat_code \<Rightarrow> (nat \<times> nat) \<times> nat \<times> nat \<Rightarrow> bool" where
  "pair_ok H lab s fc = (\<lambda>((branch, _), (body, tail)).
     len s \<le> branch \<and> branch < len fc \<and> is_if fc branch \<and> len s \<le> tail \<and> tail < len fc \<and> is_br fc tail
     \<and> good_target H lab s fc body)"

definition entry_ok :: "nat set \<Rightarrow> bool \<Rightarrow> flat_code \<Rightarrow> flat_code \<Rightarrow> (nat \<times> nat) \<times> nat \<times> nat \<Rightarrow> bool" where
  "entry_ok H lab s fc = (\<lambda>((_, entry), _). good_target H lab s fc entry)"

definition prev_ok :: "flat_code \<Rightarrow> flat_code \<Rightarrow> nat option \<Rightarrow> bool" where
  "prev_ok s fc prev = (case prev of None \<Rightarrow> True | Some i \<Rightarrow> len s \<le> i \<and> i < len fc \<and> is_if fc i)"

lemma pair_ok_mono: "pair_ok H lab s fc x \<Longrightarrow> same_kinds fc fc' \<Longrightarrow> H' \<subseteq> H \<Longrightarrow> pair_ok H' lab s fc' x"
  by (auto simp: pair_ok_def same_kinds_def good_target_def split: prod.splits)

lemma entry_ok_mono: "entry_ok H lab s fc x \<Longrightarrow> same_kinds fc fc' \<Longrightarrow> H' \<subseteq> H \<Longrightarrow> entry_ok H' lab s fc' x"
  by (auto simp: entry_ok_def split: prod.splits intro: good_target_mono)

lemma walk_falsey_opt:
  assumes "prev_ok s fc prev" and "prev \<noteq> None \<longrightarrow> good_target H lab s fc to"
    and Q: "\<And>fc'. same_kinds fc fc' \<Longrightarrow> walk H lab s fc' (k ()) Q"
  shows "walk H lab s fc (lbind (replace_falsey prev to) k) Q"
proof (cases prev)
  case None
  have "lbind (replace_falsey prev to) k = k ()"
    by (simp add: fun_eq_iff None lbind_def replace_falsey_def)
  moreover have "same_kinds fc fc" by (simp add: same_kinds_def)
  ultimately show ?thesis using Q by simp
next
  case (Some i)
  with assms show ?thesis by (auto simp: prev_ok_def intro: walk_falsey)
qed

lemma walk_patch_branches:
  "\<forall>x \<in> set ps. pair_ok H lab s fc x \<Longrightarrow> prev_ok s fc prev \<Longrightarrow>
     \<forall>x \<in> set (if prev = None then tl ps else ps). entry_ok H lab s fc x \<Longrightarrow> good_target H lab s fc after \<Longrightarrow>
     (\<And>fc'. same_kinds fc fc' \<Longrightarrow>
        walk (H - fst ` fst ` set ps - snd ` snd ` set ps) lab s fc' (k ()) Q) \<Longrightarrow>
     walk H lab s fc (lbind (patch_branches prev ps after) k) Q"
proof (induction prev ps after arbitrary: H fc rule: patch_branches.induct)
  case (1 prev after)
  have "same_kinds fc fc" by (simp add: same_kinds_def)
  with 1 show ?case by simp
next
  case (2 prev branch entry body tail rest after)
  have ok: "len s \<le> branch" "branch < len fc" "is_if fc branch" "len s \<le> tail" "tail < len fc" "is_br fc tail"
    "good_target H lab s fc body" using 2(2) by (auto simp: pair_ok_def)
  show ?case unfolding patch_branches.simps lbind_assoc
  proof (rule walk_falsey_opt [OF 2(3)])
    show "prev \<noteq> None \<longrightarrow> good_target H lab s fc entry" using 2(4) by (auto simp: entry_ok_def)
    fix fc1
    assume k1: "same_kinds fc fc1"
    show "walk H lab s fc1 (lbind (patch branch (set_if_targets body after))
        (\<lambda>_. lbind (patch tail (set_br_target after)) (\<lambda>_. lbind (patch_branches (Some branch) rest after) k))) Q"
    proof (rule walk_if_targets)
      fix fc2
      assume k2: "same_kinds fc1 fc2"
      note k12 = same_kinds_trans [OF k1 k2]
      show "walk (H - {branch}) lab s fc2
          (lbind (patch tail (set_br_target after)) (\<lambda>_. lbind (patch_branches (Some branch) rest after) k)) Q"
      proof (rule walk_br_target)
        fix fc3
        assume k3: "same_kinds fc2 fc3"
        note k = same_kinds_trans [OF k12 k3]
        show "walk (H - {branch} - {tail}) lab s fc3 (lbind (patch_branches (Some branch) rest after) k) Q"
        proof (rule 2(1))
          show "\<forall>x\<in>set rest. pair_ok (H - {branch} - {tail}) lab s fc3 x"
            using 2(2) by (auto intro: pair_ok_mono [OF _ k])
          show "prev_ok s fc3 (Some branch)" using ok k by (simp add: prev_ok_def same_kinds_def)
          have "\<forall>x\<in>set rest. entry_ok H lab s fc x" using 2(4) by (auto split: if_splits)
          then show "\<forall>x\<in>set (if Some branch = None then tl rest else rest).
              entry_ok (H - {branch} - {tail}) lab s fc3 x"
            by (auto intro: entry_ok_mono [OF _ k])
          show "good_target (H - {branch} - {tail}) lab s fc3 after"
            using 2(5) by (rule good_target_mono [OF _ k]) auto
          fix fc4
          assume "same_kinds fc3 fc4"
          moreover have "H - fst ` fst ` set (((branch, entry), body, tail) # rest)
              - snd ` snd ` set (((branch, entry), body, tail) # rest)
            = H - {branch} - {tail} - fst ` fst ` set rest - snd ` snd ` set rest" by auto
          ultimately show "walk (H - {branch} - {tail} - fst ` fst ` set rest - snd ` snd ` set rest) lab s fc4 (k ()) Q"
            using 2(6) [OF same_kinds_trans [OF k]] by simp
        qed
      qed (use ok k12 2(5) in \<open>auto simp: same_kinds_def good_target_def\<close>)
    qed (use ok k1 2(5) in \<open>auto simp: same_kinds_def good_target_def\<close>)
  qed
qed

section \<open>Tests and bodies\<close>

lemma walk_entry:
  assumes Q: "\<And>fc'. len fc \<le> len fc' \<Longrightarrow> len fc' \<le> Suc (len fc) \<Longrightarrow> kept fc fc' \<Longrightarrow> 0 < len fc' \<Longrightarrow>
    walk H lab s fc' (k (len fc - 1)) Q"
  shows "walk H lab s fc (lbind (\<lambda>fc. case last_inst fc of
      Some _ \<Rightarrow> Inr (length (current_insts fc) - 1, fc) | None \<Rightarrow> inst JumpTarget fc) k) Q"
    (is "walk H lab s fc (lbind ?m k) Q")
proof (cases "current_insts fc = []")
  case True
  then have "last_inst fc = None" by (auto simp: last_inst_def current_insts_def split: option.splits)
  then have "lbind ?m k fc = lbind (inst JumpTarget) k fc" by (simp add: lbind_def)
  moreover have "walk H lab s fc (lbind (inst JumpTarget) k) Q"
  proof (rule step_inst)
    fix fc'
    assume "len fc' = Suc (len fc)" "kept fc fc'"
    then show "walk H lab s fc' (k (len fc)) Q" using Q [of fc'] True by simp
  qed simp_all
  ultimately show ?thesis by (simp add: walk_def runs_def)
next
  case False
  then obtain x where "last_inst fc = Some x"
    by (auto simp: last_inst_def current_insts_def split: option.splits)
  then have "lbind ?m k fc = k (len fc - 1) fc" by (simp add: lbind_def)
  moreover have "walk H lab s fc (k (len fc - 1)) Q" by (rule Q) (use False in simp_all)
  ultimately show ?thesis by (simp add: walk_def runs_def)
qed

lemma walk_test:
  assumes m: "val_ok lab n m" and n: "len fc + n + 1 < INVALID_VALUE"
    and Q: "\<And>br fc'. len fc < len fc' \<Longrightarrow> len fc' \<le> len fc + n + 4 \<Longrightarrow> kept fc fc' \<Longrightarrow>
      len fc \<le> br \<Longrightarrow> len fc' = Suc br \<Longrightarrow> is_if fc' br \<Longrightarrow>
      walk (insert br H) lab s fc' (f (br, len fc - 1)) Q"
  shows "walk H lab s fc (lbind (if_branch_test m) f) Q"
  unfolding if_branch_test_def lbind_assoc lbind_lret
proof (rule walk_entry, rule visit_then [OF _ m], rule step_inst, rule step_inst, rule step_hole)
  fix fc1 v fc2 fc3 fc4 fc5
  assume *: "len fc \<le> len fc1" "len fc1 \<le> Suc (len fc)" "kept fc fc1"
    "len fc1 \<le> len fc2" "len fc2 \<le> len fc1 + n" "kept fc1 fc2" "len fc3 = Suc (len fc2)" "kept fc2 fc3"
    "len fc4 = Suc (len fc3)" "kept fc3 fc4" "len fc5 = Suc (len fc4)" "kept fc4 fc5"
    "op_at fc5 (len fc4) = IfInst (len fc3) (Some INVALID_VALUE) (Some INVALID_VALUE)"
  then have "is_if fc5 (len fc4)" by (simp add: is_if_def)
  with * show "walk (insert (len fc4) H) lab s fc5 (f (len fc4, len fc - 1)) Q" by (intro Q) simp_all
qed (use n in simp_all)

text \<open>
  The tests are emitted in order; the entry recorded for a branch is the instruction before its
  test, which is the \<open>If\<close> of the branch before.
\<close>

definition tests_emitted :: "flat_code \<Rightarrow> flat_code \<Rightarrow> (nat \<times> nat) list \<Rightarrow> bool" where
  "tests_emitted fc fc' brs \<longleftrightarrow> (\<forall>x \<in> set brs. len fc \<le> fst x \<and> fst x < len fc' \<and> is_if fc' (fst x) \<and> snd x < len fc')
     \<and> distinct (map fst brs) \<and> (brs \<noteq> [] \<longrightarrow> snd (hd brs) = len fc - 1)
     \<and> (\<forall>k. Suc k < length brs \<longrightarrow> snd (brs ! Suc k) = fst (brs ! k))"

lemma tests_emitted_Cons:
  assumes 2: "tests_emitted fc1 fc2 brs" and 1: "len fc < len fc1" "len fc \<le> br" "len fc1 = Suc br" "is_if fc1 br"
    "kept fc1 fc2" "len fc1 \<le> len fc2"
  shows "tests_emitted fc fc2 ((br, len fc - 1) # brs)"
proof -
  have "is_if fc2 br" using kept_is_if [OF 1(5)] 1 by simp
  moreover have "br \<notin> fst ` set brs" using 2 1 unfolding tests_emitted_def by fastforce
  moreover have "snd (((br, len fc - 1) # brs) ! Suc k) = fst (((br, len fc - 1) # brs) ! k)"
    if "Suc k < length ((br, len fc - 1) # brs)" for k
    using 2 1 that unfolding tests_emitted_def by (cases k) (auto simp: hd_conv_nth)
  moreover have "\<forall>x \<in> set brs. len fc \<le> fst x \<and> fst x < len fc2 \<and> is_if fc2 (fst x) \<and> snd x < len fc2"
    using 2 1 unfolding tests_emitted_def by fastforce
  ultimately show ?thesis using 2 1 unfolding tests_emitted_def by auto
qed

lemma walk_tests:
  "list_all2 (val_ok lab) ns ms \<Longrightarrow> len fc + sum_list ns + 4 * length ns < INVALID_VALUE \<Longrightarrow>
     (\<And>brs fc'. len fc \<le> len fc' \<Longrightarrow> len fc' \<le> len fc + sum_list ns + 4 * length ns \<Longrightarrow> kept fc fc' \<Longrightarrow>
        length brs = length ms \<Longrightarrow> tests_emitted fc fc' brs \<Longrightarrow> walk (H \<union> fst ` set brs) lab s fc' (f brs) Q) \<Longrightarrow>
     walk H lab s fc (lbind (lseq (map if_branch_test ms)) f) Q"
proof (induction ns ms arbitrary: H fc f rule: list_all2_induct)
  case Nil
  then show ?case by (simp add: tests_emitted_def)
next
  case (Cons n ns m ms)
  show ?case unfolding list.map lseq.simps lbind_assoc lbind_lret
  proof (rule walk_test [OF Cons.hyps(1)])
    fix br fc1
    assume 1: "len fc < len fc1" "len fc1 \<le> len fc + n + 4" "kept fc fc1" "len fc \<le> br" "len fc1 = Suc br" "is_if fc1 br"
    show "walk (insert br H) lab s fc1 (lbind (lseq (map if_branch_test ms)) (\<lambda>xs. f ((br, len fc - 1) # xs))) Q"
    proof (rule Cons.IH)
      fix brs fc2
      assume 2: "len fc1 \<le> len fc2" "len fc2 \<le> len fc1 + sum_list ns + 4 * length ns" "kept fc1 fc2"
        "length brs = length ms" "tests_emitted fc1 fc2 brs"
      have "tests_emitted fc fc2 ((br, len fc - 1) # brs)"
        by (rule tests_emitted_Cons [OF 2(5) 1(1,4,5,6) 2(3,1)])
      with 1 2 have "walk (H \<union> fst ` set ((br, len fc - 1) # brs)) lab s fc2 (f ((br, len fc - 1) # brs)) Q"
        by (intro Cons.prems(2)) auto
      then show "walk (insert br H \<union> fst ` set brs) lab s fc2 (f ((br, len fc - 1) # brs)) Q" by simp
    qed (use Cons.prems 1 in simp)
  qed (use Cons.prems in simp)
qed

lemma walk_body:
  assumes b: "list_all2 (act_ok lab) ns ms" and n: "len fc + sum_list ns + 2 < INVALID_VALUE"
    and Q: "\<And>body tail fc'. len fc < len fc' \<Longrightarrow> len fc' \<le> len fc + sum_list ns + 2 \<Longrightarrow> kept fc fc' \<Longrightarrow>
      len fc \<le> body \<Longrightarrow> body < len fc' \<Longrightarrow> is_label (op_at fc' body) \<Longrightarrow>
      len fc \<le> tail \<Longrightarrow> tail < len fc' \<Longrightarrow> is_br fc' tail \<Longrightarrow> walk (insert tail H) lab s fc' (f (body, tail)) Q"
  shows "walk H lab s fc (lbind (if_branch_body ms) f) Q"
  unfolding if_branch_body_def lbind_assoc lbind_lret
proof (rule step_inst, rule lseq_acts_then [OF _ b], rule step_hole)
  fix fc1 vs fc2 fc3
  assume *: "len fc1 = Suc (len fc)" "op_at fc1 (len fc) = JumpTarget" "kept fc fc1" "len fc1 \<le> len fc2"
    "len fc2 \<le> len fc1 + sum_list ns" "kept fc1 fc2" "len fc3 = Suc (len fc2)"
    "op_at fc3 (len fc2) = Br INVALID_VALUE" "kept fc2 fc3"
  then have "is_br fc3 (len fc2)" "is_label (op_at fc3 (len fc))" by (simp_all add: is_br_def)
  with * show "walk (insert (len fc2) H) lab s fc3 (f (len fc, len fc2)) Q" by (intro Q) simp_all
qed (use n in simp_all)

definition bodies_emitted :: "flat_code \<Rightarrow> flat_code \<Rightarrow> (nat \<times> nat) list \<Rightarrow> bool" where
  "bodies_emitted fc fc' bos \<longleftrightarrow>
     (\<forall>x \<in> set bos. len fc \<le> fst x \<and> fst x < len fc' \<and> is_label (op_at fc' (fst x))
        \<and> len fc \<le> snd x \<and> snd x < len fc' \<and> is_br fc' (snd x))
     \<and> distinct (map snd bos)"

lemma bodies_emitted_Cons:
  assumes 2: "bodies_emitted fc1 fc2 bos" and 1: "len fc < len fc1" "len fc \<le> body" "body < len fc1"
    "is_label (op_at fc1 body)" "len fc \<le> tail" "tail < len fc1" "is_br fc1 tail" "kept fc1 fc2" "len fc1 \<le> len fc2"
  shows "bodies_emitted fc fc2 ((body, tail) # bos)"
proof -
  have "is_br fc2 tail" "is_label (op_at fc2 body)" using 1 by (simp_all add: kept_is_br)
  moreover have "tail \<notin> snd ` set bos" using 2 1 unfolding bodies_emitted_def by fastforce
  moreover have "\<forall>x \<in> set bos. len fc \<le> fst x \<and> fst x < len fc2 \<and> is_label (op_at fc2 (fst x))
      \<and> len fc \<le> snd x \<and> snd x < len fc2 \<and> is_br fc2 (snd x)"
    using 2 1 unfolding bodies_emitted_def by fastforce
  ultimately show ?thesis using 2 1 unfolding bodies_emitted_def by auto
qed

lemma walk_bodies:
  "list_all2 (list_all2 (act_ok lab)) nss mss \<Longrightarrow>
     len fc + sum_list (map sum_list nss) + 2 * length nss < INVALID_VALUE \<Longrightarrow>
     (\<And>bos fc'. len fc \<le> len fc' \<Longrightarrow> len fc' \<le> len fc + sum_list (map sum_list nss) + 2 * length nss \<Longrightarrow>
        kept fc fc' \<Longrightarrow> length bos = length mss \<Longrightarrow> bodies_emitted fc fc' bos \<Longrightarrow>
        walk (H \<union> snd ` set bos) lab s fc' (f bos) Q) \<Longrightarrow>
     walk H lab s fc (lbind (lseq (map if_branch_body mss)) f) Q"
proof (induction nss mss arbitrary: H fc f rule: list_all2_induct)
  case Nil
  then show ?case by (simp add: bodies_emitted_def)
next
  case (Cons ns nss ms mss)
  show ?case unfolding list.map lseq.simps lbind_assoc lbind_lret
  proof (rule walk_body [OF Cons.hyps(1)])
    fix body tail fc1
    assume 1: "len fc < len fc1" "len fc1 \<le> len fc + sum_list ns + 2" "kept fc fc1" "len fc \<le> body" "body < len fc1"
      "is_label (op_at fc1 body)" "len fc \<le> tail" "tail < len fc1" "is_br fc1 tail"
    show "walk (insert tail H) lab s fc1 (lbind (lseq (map if_branch_body mss)) (\<lambda>xs. f ((body, tail) # xs))) Q"
    proof (rule Cons.IH)
      fix bos fc2
      assume 2: "len fc1 \<le> len fc2" "len fc2 \<le> len fc1 + sum_list (map sum_list nss) + 2 * length nss"
        "kept fc1 fc2" "length bos = length mss" "bodies_emitted fc1 fc2 bos"
      have "bodies_emitted fc fc2 ((body, tail) # bos)"
        by (rule bodies_emitted_Cons [OF 2(5) 1(1,4-9) 2(3,1)])
      with 1 2 have "walk (H \<union> snd ` set ((body, tail) # bos)) lab s fc2 (f ((body, tail) # bos)) Q"
        by (intro Cons.prems(2)) auto
      then show "walk (insert tail H \<union> snd ` set bos) lab s fc2 (f ((body, tail) # bos)) Q" by simp
    qed (use Cons.prems 1 in simp)
  qed (use Cons.prems in simp)
qed

section \<open>The else body and the whole chain\<close>

definition grows :: "flat_code \<Rightarrow> flat_code \<Rightarrow> bool" where
  "grows fc fc' \<longleftrightarrow> len fc \<le> len fc' \<and>
     (\<forall>j < len fc. (is_if fc j \<longrightarrow> is_if fc' j) \<and> (is_br fc j \<longrightarrow> is_br fc' j) \<and>
        (is_label (op_at fc j) \<longrightarrow> is_label (op_at fc' j)))"

lemma grows_kept: "len fc \<le> len fc' \<Longrightarrow> kept fc fc' \<Longrightarrow> grows fc fc'"
  by (simp add: grows_def is_if_def is_br_def)

lemma grows_same_kinds: "same_kinds fc fc' \<Longrightarrow> grows fc fc'"
  by (simp add: grows_def same_kinds_def)

lemma grows_trans: "grows a b \<Longrightarrow> grows b c \<Longrightarrow> grows a c"
  by (simp add: grows_def)

definition orelse_cost :: "nat list option \<Rightarrow> nat" where
  "orelse_cost ns = (case ns of None \<Rightarrow> 0 | Some ns \<Rightarrow> sum_list ns + 2)"

definition orelse_result :: "nat set \<Rightarrow> flat_code \<Rightarrow> nat \<Rightarrow> flat_code \<Rightarrow> nat set \<Rightarrow> bool" where
  "orelse_result H fc r fc' H' \<longleftrightarrow> r = INVALID_VALUE \<and> H' = H \<or>
     r \<noteq> INVALID_VALUE \<and> len fc \<le> r \<and> r < len fc' \<and> is_br fc' r \<and> H' = insert r H"

lemma walk_orelse:
  assumes i: "i \<in> H" "len s \<le> i" "i < len fc" "is_if fc i"
    and b: "rel_option (list_all2 (act_ok lab)) ns vs" and n: "len fc + orelse_cost ns < INVALID_VALUE"
    and Q: "\<And>r fc' H'. grows fc fc' \<Longrightarrow> len fc' \<le> len fc + orelse_cost ns \<Longrightarrow> orelse_result H fc r fc' H' \<Longrightarrow>
       walk H' lab s fc' (f r) Q"
  shows "walk H lab s fc (lbind (visit_orelse (Some i) vs) f) Q"
proof (cases vs)
  case None
  have "grows fc fc" by (simp add: grows_def)
  with None show ?thesis using Q by (simp add: visit_orelse_def orelse_result_def orelse_cost_def)
next
  case (Some ms)
  with b obtain ks where ks: "ns = Some ks" "list_all2 (act_ok lab) ks ms" by (auto simp: option_rel_Some2)
  show ?thesis unfolding visit_orelse_def Some option.case lbind_assoc
  proof (rule step_inst, rule walk_falsey [rotated 4], rule lseq_acts_then [OF _ ks(2)], rule step_hole)
    fix fc1 fc2 us fc3 fc4
    assume *: "len fc1 = Suc (len fc)" "kept fc fc1" "same_kinds fc1 fc2" "len fc2 \<le> len fc3"
      "len fc3 \<le> len fc2 + sum_list ks" "kept fc2 fc3" "len fc4 = Suc (len fc3)"
      "op_at fc4 (len fc3) = Br INVALID_VALUE" "kept fc3 fc4"
    have l2: "len fc2 = Suc (len fc)" using * by (simp add: same_kinds_def)
    have "grows fc fc1" "grows fc1 fc2" "grows fc2 fc3" "grows fc3 fc4"
      using * by (simp_all add: grows_kept grows_same_kinds)
    then have "grows fc fc4" using grows_trans by blast
    moreover have "is_br fc4 (len fc3)" using * by (simp add: is_br_def)
    ultimately show "walk (insert (len fc3) H) lab s fc4 (f (len fc3)) Q"
      using * l2 n ks by (intro Q) (simp_all add: orelse_cost_def orelse_result_def)
  qed (use i n ks in \<open>simp_all add: orelse_cost_def is_if_def same_kinds_def\<close>)
qed

section \<open>What the patching loop writes\<close>

text \<open>
  \<open>wired\<close>: every branch's \<open>If\<close> goes to its body when the test holds; when it fails, the last one
  goes to \<open>after\<close> and every other one to the entry recorded for the branch that follows.
\<close>

definition wired :: "((nat \<times> nat) \<times> nat \<times> nat) list \<Rightarrow> nat \<Rightarrow> flat_code \<Rightarrow> bool" where
  "wired ps after fc \<longleftrightarrow> (\<forall>k < length ps.
     (\<exists>t. op_at fc (fst (fst (ps ! k))) = IfInst t (Some (fst (snd (ps ! k))))
        (Some (if Suc k < length ps then snd (fst (ps ! Suc k)) else after)))
     \<and> op_at fc (snd (snd (ps ! k))) = Br after)"

definition pair_kinds :: "flat_code \<Rightarrow> (nat \<times> nat) \<times> nat \<times> nat \<Rightarrow> bool" where
  "pair_kinds fc x \<longleftrightarrow> fst (fst x) < len fc \<and> is_if fc (fst (fst x)) \<and> snd (snd x) < len fc \<and> is_br fc (snd (snd x))"

abbreviation patched :: "((nat \<times> nat) \<times> nat \<times> nat) list \<Rightarrow> nat set" where
  "patched ps \<equiv> fst ` fst ` set ps \<union> snd ` snd ` set ps"

lemma patch_exact:
  assumes "fc_valid fc" and "i < len fc" and "\<And>x. fi_op x = op_at fc i \<Longrightarrow> f x = set_op raw x"
  shows "\<exists>fc'. patch i f fc = Inr ((), fc') \<and> fc_valid fc' \<and> len fc' = len fc
    \<and> (\<forall>j. op_at fc' j = (if j = i then raw else op_at fc j))"
proof -
  have "f (current_insts fc ! i) = Inr ((current_insts fc ! i)\<lparr>fi_op := raw\<rparr>)"
    using assms(3) by (simp add: op_at_def set_op_def)
  then show ?thesis using assms(1,2) by (simp add: patch_def op_at_def nth_list_update)
qed

lemma falsey_exact:
  assumes v: "fc_valid fc" and i: "i < len fc" "op_at fc i = IfInst t a b"
  shows "\<exists>fc'. replace_falsey (Some i) to fc = Inr ((), fc') \<and> fc_valid fc' \<and> len fc' = len fc
    \<and> (\<forall>j < len fc. op_at fc' j = (if j = i then IfInst t a (Some to) else op_at fc j))"
proof -
  have "replace_falsey (Some i) to fc = patch i (set_op (IfInst t a (Some to))) fc"
    using i by (simp add: replace_falsey_def op_at_def)
  with patch_exact [OF v i(1), of "set_op (IfInst t a (Some to))" "IfInst t a (Some to)"] show ?thesis by auto
qed

lemma falsey_opt_exact:
  assumes v: "fc_valid fc" and p: "\<forall>i \<in> set_option prev. i < len fc \<and> is_if fc i"
  shows "\<exists>fc'. replace_falsey prev to fc = Inr ((), fc') \<and> fc_valid fc' \<and> len fc' = len fc
    \<and> (\<forall>j < len fc. j \<notin> set_option prev \<longrightarrow> op_at fc' j = op_at fc j)
    \<and> (\<forall>i t a b. prev = Some i \<longrightarrow> op_at fc i = IfInst t a b \<longrightarrow> op_at fc' i = IfInst t a (Some to))"
proof (cases prev)
  case None
  with v show ?thesis by (simp add: replace_falsey_def)
next
  case (Some i)
  then obtain t a b where i: "i < len fc" "op_at fc i = IfInst t a b" using p by (auto simp: is_if_def)
  from falsey_exact [OF v i, of to] Some i show ?thesis by auto
qed

lemma patch_pair_exact:
  assumes v: "fc_valid fc" and p: "pair_kinds fc ((br, en), (bo, ta))" and d: "br \<noteq> ta"
  shows "\<exists>fc'. lbind (patch br (set_if_targets bo after)) (\<lambda>_. patch ta (set_br_target after)) fc = Inr ((), fc')
    \<and> fc_valid fc' \<and> len fc' = len fc
    \<and> (\<exists>t. op_at fc' br = IfInst t (Some bo) (Some after) \<and> t < br) \<and> op_at fc' ta = Br after
    \<and> (\<forall>j < len fc. j \<noteq> br \<longrightarrow> j \<noteq> ta \<longrightarrow> op_at fc' j = op_at fc j)"
proof -
  from p obtain t a b c where o: "br < len fc" "op_at fc br = IfInst t a b" "ta < len fc" "op_at fc ta = Br c" "t < br"
    by (auto simp: pair_kinds_def is_if_def is_br_def)
  obtain fc1 where 1: "patch br (set_if_targets bo after) fc = Inr ((), fc1)" "fc_valid fc1" "len fc1 = len fc"
    "\<forall>j < len fc. op_at fc1 j = (if j = br then IfInst t (Some bo) (Some after) else op_at fc j)"
    using patch_exact [OF v o(1), of "set_if_targets bo after" "IfInst t (Some bo) (Some after)"] o(2)
    by (auto simp: set_if_targets_def)
  have "ta < len fc1" "op_at fc1 ta = Br c" using 1 o d by auto
  then obtain fc2 where 2: "patch ta (set_br_target after) fc1 = Inr ((), fc2)" "fc_valid fc2" "len fc2 = len fc1"
    "\<forall>j < len fc1. op_at fc2 j = (if j = ta then Br after else op_at fc1 j)"
    using patch_exact [OF 1(2), of ta "set_br_target after" "Br after"] by (auto simp: set_br_target_def)
  show ?thesis using 1 2 o d by (auto simp: lbind_def)
qed

lemma wired_Cons:
  assumes w: "wired rest after fc"
    and br: "\<exists>t. op_at fc br = IfInst t (Some bo) (Some (if rest = [] then after else snd (fst (hd rest))))"
    and ta: "op_at fc ta = Br after"
  shows "wired (((br, en), (bo, ta)) # rest) after fc"
  unfolding wired_def
proof (intro allI impI)
  fix k
  assume k: "k < length (((br, en), (bo, ta)) # rest)"
  show "(\<exists>t. op_at fc (fst (fst ((((br, en), bo, ta) # rest) ! k))) =
        IfInst t (Some (fst (snd ((((br, en), bo, ta) # rest) ! k))))
         (Some (if Suc k < length (((br, en), bo, ta) # rest) then snd (fst ((((br, en), bo, ta) # rest) ! Suc k)) else after))) \<and>
      op_at fc (snd (snd ((((br, en), bo, ta) # rest) ! k))) = Br after"
  proof (cases k)
    case 0
    then show ?thesis using br ta by (cases rest) auto
  next
    case (Suc k')
    then show ?thesis using w k unfolding wired_def by auto
  qed
qed

lemma wired_br:
  assumes "wired ps after fc" and "is_br fc r" and "\<forall>j. op_at fc' j = (if j = r then Br after else op_at fc j)"
  shows "wired ps after fc'"
proof -
  have ne: "i \<noteq> r" if "op_at fc i = IfInst t a b" for i t a b using that assms(2) by (auto simp: is_br_def)
  show ?thesis unfolding wired_def
  proof (intro allI impI)
    fix k
    assume "k < length ps"
    then obtain t where "op_at fc (fst (fst (ps ! k))) = IfInst t (Some (fst (snd (ps ! k))))
        (Some (if Suc k < length ps then snd (fst (ps ! Suc k)) else after))" "op_at fc (snd (snd (ps ! k))) = Br after"
      using assms(1) unfolding wired_def by blast
    with ne [OF this(1)] assms(3) show "(\<exists>t. op_at fc' (fst (fst (ps ! k))) = IfInst t (Some (fst (snd (ps ! k))))
        (Some (if Suc k < length ps then snd (fst (ps ! Suc k)) else after))) \<and> op_at fc' (snd (snd (ps ! k))) = Br after"
      by simp
  qed
qed

lemma patch_branches_exact:
  "fc_valid fc \<Longrightarrow> \<forall>x \<in> set ps. pair_kinds fc x \<Longrightarrow> distinct (map (fst \<circ> fst) ps) \<Longrightarrow> distinct (map (snd \<circ> snd) ps) \<Longrightarrow>
     fst ` fst ` set ps \<inter> snd ` snd ` set ps = {} \<Longrightarrow>
     (\<forall>i \<in> set_option prev. i < len fc \<and> is_if fc i \<and> i \<notin> patched ps) \<Longrightarrow>
     \<exists>fc'. patch_branches prev ps after fc = Inr ((), fc') \<and> wired ps after fc'
       \<and> (\<forall>j < len fc. j \<notin> patched ps \<longrightarrow> j \<notin> set_option prev \<longrightarrow> op_at fc' j = op_at fc j)
       \<and> (\<forall>i t a b. prev = Some i \<longrightarrow> op_at fc i = IfInst t a b \<longrightarrow>
            op_at fc' i = (if ps = [] then IfInst t a b else IfInst t a (Some (snd (fst (hd ps))))))"
proof (induction prev ps after arbitrary: fc rule: patch_branches.induct)
  case (1 prev after)
  then show ?case by (simp add: lret_def wired_def)
next
  case (2 prev br en bo ta rest after)
  note IH = 2(1) and v = 2(2) and kinds = 2(3) and disj = 2(6) and pr = 2(7)
  have p': "\<forall>i \<in> set_option prev. i < len fc \<and> is_if fc i" using pr by auto
  from falsey_opt_exact [OF v p', of en] obtain fc1 where
    1: "replace_falsey prev en fc = Inr ((), fc1)" "fc_valid fc1" "len fc1 = len fc"
    "\<forall>j < len fc. j \<notin> set_option prev \<longrightarrow> op_at fc1 j = op_at fc j"
    "\<forall>i t a b. prev = Some i \<longrightarrow> op_at fc i = IfInst t a b \<longrightarrow> op_at fc1 i = IfInst t a (Some en)"
    by (elim exE conjE)
  have np: "br \<notin> set_option prev" "ta \<notin> set_option prev" "\<forall>x \<in> set rest. fst (fst x) \<notin> set_option prev \<and> snd (snd x) \<notin> set_option prev"
    using pr by auto
  have d: "br \<noteq> ta" "br \<notin> patched rest" "ta \<notin> patched rest"
    using 2(4,5) disj by (auto simp: image_image)
  have "pair_kinds fc1 ((br, en), (bo, ta))" using kinds 1 np by (auto simp: pair_kinds_def is_if_def is_br_def)
  from patch_pair_exact [OF 1(2) this d(1), of after] obtain fc2 t where
    w: "lbind (patch br (set_if_targets bo after)) (\<lambda>_. patch ta (set_br_target after)) fc1 = Inr ((), fc2)"
    "fc_valid fc2" "len fc2 = len fc1" "op_at fc2 br = IfInst t (Some bo) (Some after)" "t < br" "op_at fc2 ta = Br after"
    "\<forall>j < len fc1. j \<noteq> br \<longrightarrow> j \<noteq> ta \<longrightarrow> op_at fc2 j = op_at fc1 j"
    by (elim exE conjE)
  have rest: "\<forall>x \<in> set rest. pair_kinds fc2 x"
  proof
    fix x assume x: "x \<in> set rest"
    then have "op_at fc2 (fst (fst x)) = op_at fc (fst (fst x))" "op_at fc2 (snd (snd x)) = op_at fc (snd (snd x))"
      using 1 w np kinds d by (auto simp: pair_kinds_def)
    with x kinds 1 w show "pair_kinds fc2 x" by (auto simp: pair_kinds_def is_if_def is_br_def)
  qed
  have br2: "\<forall>i \<in> set_option (Some br). i < len fc2 \<and> is_if fc2 i \<and> i \<notin> patched rest"
    using w 1 kinds d by (auto simp: pair_kinds_def is_if_def)
  obtain fc3 where
    3: "patch_branches (Some br) rest after fc2 = Inr ((), fc3)" "wired rest after fc3"
    "\<forall>j < len fc2. j \<notin> patched rest \<longrightarrow> j \<notin> set_option (Some br) \<longrightarrow> op_at fc3 j = op_at fc2 j"
    "\<forall>i t a b. Some br = Some i \<longrightarrow> op_at fc2 i = IfInst t a b \<longrightarrow>
       op_at fc3 i = (if rest = [] then IfInst t a b else IfInst t a (Some (snd (fst (hd rest)))))"
    using IH [OF w(2) rest _ _ _ br2] 2(4,5) disj by auto
  have "lbind (lbind (patch br (set_if_targets bo after)) (\<lambda>_. patch ta (set_br_target after)))
      (\<lambda>_. patch_branches (Some br) rest after) fc1 = Inr ((), fc3)" using w(1) 3(1) by (simp add: lbind_def)
  then have run: "patch_branches prev (((br, en), bo, ta) # rest) after fc = Inr ((), fc3)"
    unfolding patch_branches.simps lbind_assoc using 1(1) by (simp add: lbind_def)
  have "op_at fc3 ta = Br after" "\<exists>t. op_at fc3 br = IfInst t (Some bo) (Some (if rest = [] then after else snd (fst (hd rest))))"
    using 3 w d kinds 1(3) by (auto simp: pair_kinds_def)
  then have wired: "wired (((br, en), bo, ta) # rest) after fc3" using wired_Cons [OF 3(2)] by simp
  have frame: "op_at fc3 j = op_at fc1 j" if "j < len fc" "j \<notin> patched (((br, en), bo, ta) # rest)" for j
    using that 3(3) w 1(3) by simp
  have "op_at fc3 i = IfInst t a (Some en)" if "prev = Some i" "op_at fc i = IfInst t a b" for i t a b
    using that frame [of i] 1(5) pr by simp
  then show ?case using run wired frame 1(4) by auto
qed

section \<open>The end of the chain\<close>

lemma walk_exact:
  assumes "m fc = Inr (u, fc0)" and "walk H lab s fc (lbind m (\<lambda>u. lret u)) (\<lambda>_ fc'. ext H' lab s fc' \<and> P fc')"
    and "P fc0 \<Longrightarrow> walk H' lab s fc0 (k u) Q"
  shows "walk H lab s fc (lbind m k) Q"
  using assms by (auto simp: walk_def runs_def lbind_def)

text \<open>The state in which the patching loop starts.\<close>

lemma tests_emitted_grows: "tests_emitted s fc brs \<Longrightarrow> grows fc fc' \<Longrightarrow> tests_emitted s fc' brs"
  unfolding tests_emitted_def grows_def by fastforce

lemma bodies_emitted_grows:
  "bodies_emitted a fc bos \<Longrightarrow> len s \<le> len a \<Longrightarrow> grows fc fc' \<Longrightarrow> bodies_emitted s fc' bos"
  unfolding bodies_emitted_def grows_def by fastforce

lemma zip_images:
  assumes "length xs = length ys"
  shows "fst ` fst ` set (zip xs ys) = fst ` set xs" and "snd ` snd ` set (zip xs ys) = snd ` set ys"
proof -
  have "fst ` set (zip xs ys) = set xs" "snd ` set (zip xs ys) = set ys"
    using assms by (metis list.set_map map_fst_zip, metis assms list.set_map map_snd_zip)
  then show "fst ` fst ` set (zip xs ys) = fst ` set xs" "snd ` snd ` set (zip xs ys) = snd ` set ys" by simp_all
qed

lemma chain_pairs_ok:
  assumes brs: "tests_emitted s fc brs" and bos: "bodies_emitted s fc bos" and H: "\<forall>h \<in> H. \<not> is_label (op_at fc h)"
    and x: "x \<in> set (zip brs bos)"
  shows "pair_ok H lab s fc x" and "pair_kinds fc x"
proof -
  have "fst x \<in> set brs" "snd x \<in> set bos"
    using x set_zip_leftD [of "fst x" "snd x"] set_zip_rightD [of "fst x" "snd x"] by simp_all
  with brs bos have "len s \<le> fst (fst x) \<and> fst (fst x) < len fc \<and> is_if fc (fst (fst x))"
    "len s \<le> fst (snd x) \<and> fst (snd x) < len fc \<and> is_label (op_at fc (fst (snd x)))
      \<and> len s \<le> snd (snd x) \<and> snd (snd x) < len fc \<and> is_br fc (snd (snd x))"
    unfolding tests_emitted_def bodies_emitted_def by blast+
  with H show "pair_ok H lab s fc x" "pair_kinds fc x"
    by (auto simp: pair_ok_def pair_kinds_def good_target_def split: prod.splits)
qed

lemma chain_entries_ok:
  assumes brs: "tests_emitted s fc brs" and lab: "lab \<longrightarrow> length brs \<le> 1"
    and x: "x \<in> set (tl (zip brs bos))"
  shows "entry_ok H lab s fc x"
proof -
  have "tl (zip brs bos) = zip (tl brs) (tl bos)" by (cases brs; cases bos) simp_all
  then have "fst x \<in> set (tl brs)" using x set_zip_leftD [of "fst x" "snd x"] by simp
  then obtain k where k: "k < length (tl brs)" "fst x = tl brs ! k" by (metis in_set_conv_nth)
  then have "Suc k < length brs" "snd (fst x) = fst (brs ! k)"
    using brs by (auto simp: tests_emitted_def nth_tl)
  moreover have "len s \<le> fst (brs ! k) \<and> fst (brs ! k) < len fc"
    using brs calculation(1) by (simp add: tests_emitted_def)
  ultimately show ?thesis using lab by (auto simp: entry_ok_def good_target_def split: prod.splits)
qed

lemma chain_disjoint:
  assumes "tests_emitted s fc brs" and "bodies_emitted s fc bos" and len: "length bos = length brs"
  shows "fst ` fst ` set (zip brs bos) \<inter> snd ` snd ` set (zip brs bos) = {}"
    and "distinct (map (fst \<circ> fst) (zip brs bos))" and "distinct (map (snd \<circ> snd) (zip brs bos))"
proof -
  have "\<not> (is_if fc i \<and> is_br fc i)" for i by (auto simp: is_if_def is_br_def)
  then show "fst ` fst ` set (zip brs bos) \<inter> snd ` snd ` set (zip brs bos) = {}"
    using assms unfolding zip_images [OF len [symmetric]] tests_emitted_def bodies_emitted_def by fastforce
  have "map (fst \<circ> fst) (zip brs bos) = map fst brs" "map (snd \<circ> snd) (zip brs bos) = map snd bos"
    using len by (simp_all flip: map_map)
  with assms show "distinct (map (fst \<circ> fst) (zip brs bos))" "distinct (map (snd \<circ> snd) (zip brs bos))"
    by (simp_all add: tests_emitted_def bodies_emitted_def)
qed

text \<open>The last part: the label after the chain, the loop, and the tail of the \<open>else\<close> body.\<close>

lemma walk_chain_end:
  assumes brs: "tests_emitted s fc brs" and bos: "bodies_emitted s fc bos" and lab: "lab \<longrightarrow> length brs \<le> 1"
    and len: "length bos = length brs" and s: "len s \<le> len fc"
    and r: "r = INVALID_VALUE \<and> H = fst ` set brs \<union> snd ` set bos \<or>
       r \<noteq> INVALID_VALUE \<and> len s \<le> r \<and> r < len fc \<and> is_br fc r \<and> r \<notin> snd ` set bos
         \<and> H = insert r (fst ` set brs \<union> snd ` set bos)"
    and Q: "\<And>fc'. ext {} lab s fc' \<Longrightarrow> len fc' = Suc (len fc) \<Longrightarrow> wired (zip brs bos) (len fc) fc' \<Longrightarrow>
       grows fc fc' \<Longrightarrow> Q INVALID_VALUE fc'"
  shows "walk H lab s fc (lbind (inst JumpTarget) (\<lambda>after.
     lbind (patch_branches None (zip brs bos) after) (\<lambda>_.
     lbind (if r \<noteq> INVALID_VALUE then patch r (set_br_target after) else lret ()) (\<lambda>_.
     lret INVALID_VALUE)))) Q"
proof (rule step_inst)
  fix fc1
  assume 1: "len fc1 = Suc (len fc)" "op_at fc1 (len fc) = JumpTarget" "kept fc fc1"
  have g: "grows fc fc1" using 1 by (simp add: grows_kept)
  note brs1 = tests_emitted_grows [OF brs g] and bos1 = bodies_emitted_grows [OF bos order_refl g]
  have H: "\<forall>h \<in> H. h < len fc \<and> \<not> is_label (op_at fc h)"
    using r brs bos is_if_not_label is_br_not_label unfolding tests_emitted_def bodies_emitted_def by fastforce
  have H1: "\<forall>h \<in> H. \<not> is_label (op_at fc1 h)" using H 1 by simp
  have after: "good_target H lab s fc1 (len fc)" using 1 s H by (auto simp: good_target_def)
  let ?ps = "zip brs bos"
  let ?H = "H - fst ` fst ` set ?ps - snd ` snd ` set ?ps"
  have H2: "?H - {r} = {}" "r = INVALID_VALUE \<longrightarrow> ?H = {}" using r zip_images [OF len [symmetric]] by auto
  have loop: "walk H lab s fc1 (lbind (patch_branches None ?ps (len fc)) (\<lambda>u. lret u))
      (\<lambda>_ fc'. ext ?H lab s fc' \<and> same_kinds fc1 fc')"
  proof (rule walk_patch_branches)
    show "\<forall>x\<in>set ?ps. pair_ok H lab s fc1 x" using chain_pairs_ok(1) [OF brs1 bos1 H1] by blast
    show "prev_ok s fc1 None" by (simp add: prev_ok_def)
    show "\<forall>x\<in>set (if None = None then tl ?ps else ?ps). entry_ok H lab s fc1 x"
      using chain_entries_ok [OF brs1 lab] by auto
  qed (auto intro: after walk_lret)
  show "walk H lab s fc1 (lbind (patch_branches None ?ps (len fc)) (\<lambda>_.
     lbind (if r \<noteq> INVALID_VALUE then patch r (set_br_target (len fc)) else lret ()) (\<lambda>_.
     lret INVALID_VALUE))) Q"
  proof (cases "fc_valid fc1")
    case False
    then show ?thesis by (auto simp: walk_def dest: ext_valid)
  next
    case True
    obtain fc2 where ex: "patch_branches None ?ps (len fc) fc1 = Inr ((), fc2)" and wi: "wired ?ps (len fc) fc2"
      using patch_branches_exact [OF True _ chain_disjoint(2,3,1) [OF brs1 bos1 len], of None "len fc"]
        chain_pairs_ok(2) [OF brs1 bos1 H1] by auto
    show ?thesis
    proof (rule walk_exact [OF ex loop])
      assume k: "same_kinds fc1 fc2"
      then have l2: "len fc2 = Suc (len fc)" using 1 by (simp add: same_kinds_def)
      have g2: "grows fc fc2" by (rule grows_trans [OF g grows_same_kinds [OF k]])
      show "walk ?H lab s fc2 (lbind (if r \<noteq> INVALID_VALUE then patch r (set_br_target (len fc)) else lret ())
          (\<lambda>_. lret INVALID_VALUE)) Q"
      proof (cases "r = INVALID_VALUE")
        case True
        then have "walk {} lab s fc2 (lret INVALID_VALUE) Q" using l2 wi g2 by (intro walk_lret Q)
        then show ?thesis unfolding H2(2) [rule_format, OF True] using True by simp
      next
        case False
        have rr: "len s \<le> r" "r < len fc" "is_br fc r" "r \<notin> snd ` set bos" using False r by auto
        have br2: "is_br fc2 r" using rr 1 k by (simp add: same_kinds_def kept_is_br)
        have "walk ?H lab s fc2 (lbind (patch r (set_br_target (len fc))) (\<lambda>_. lret INVALID_VALUE)) Q"
        proof -
          obtain c where c: "op_at fc2 r = Br c" using br2 by (auto simp: is_br_def)
          have gt: "good_target ?H lab s fc2 (len fc)" by (rule good_target_mono [OF after k]) auto
          have v2: "fc_valid fc2" if "ext ?H lab s fc2" using that by (rule ext_valid)
          show ?thesis
          proof (cases "fc_valid fc2")
            case False
            with v2 show ?thesis by (auto simp: walk_def)
          next
            case True
            obtain fc3 where ex3: "patch r (set_br_target (len fc)) fc2 = Inr ((), fc3)"
              and op3: "\<forall>j. op_at fc3 j = (if j = r then Br (len fc) else op_at fc2 j)"
              using patch_exact [OF True, of r "set_br_target (len fc)" "Br (len fc)"] rr l2 c
              by (auto simp: set_br_target_def)
            have "walk ?H lab s fc2 (lbind (patch r (set_br_target (len fc))) (\<lambda>u. lret u))
                (\<lambda>_ fc'. ext (?H - {r}) lab s fc' \<and> same_kinds fc2 fc')"
              by (rule walk_br_target) (use rr l2 br2 gt in \<open>auto intro: walk_lret\<close>)
            then show ?thesis
            proof (rule walk_exact [where m = "patch r (set_br_target (len fc))", OF ex3])
              assume k3: "same_kinds fc2 fc3"
              then have "len fc3 = Suc (len fc)" using l2 by (simp add: same_kinds_def)
              moreover have "grows fc fc3" by (rule grows_trans [OF g2 grows_same_kinds [OF k3]])
              ultimately show "walk (?H - {r}) lab s fc3 (lret INVALID_VALUE) Q"
                unfolding H2(1) using wired_br [OF wi br2 op3] by (intro walk_lret Q)
            qed
          qed
        qed
        with False show ?thesis by simp
      qed
    qed
  qed
qed simp_all

section \<open>The whole chain\<close>

definition chain_cost :: "nat list \<Rightarrow> nat list list \<Rightarrow> nat list option \<Rightarrow> nat" where
  "chain_cost ns nss ks = sum_list ns + sum_list (map sum_list nss) + 6 * length ns + orelse_cost ks + 1"

text \<open>
  The shape of a lowered chain: \<open>brs\<close> holds the \<open>If\<close> of each branch, \<open>bos\<close> the first and last
  instruction of each body, and the last instruction of all is where every body continues.
\<close>

definition chain_shape :: "nat \<Rightarrow> flat_code \<Rightarrow> flat_code \<Rightarrow> bool" where
  "chain_shape n s fc \<longleftrightarrow> (\<exists>brs bos. length brs = n \<and> length bos = n \<and> (\<forall>k < n.
     len s \<le> brs ! k \<and> brs ! k < fst (bos ! k) \<and> snd (bos ! k) < len fc - 1 \<and> is_label (op_at fc (fst (bos ! k)))
     \<and> (\<exists>t. op_at fc (brs ! k) = IfInst t (Some (fst (bos ! k))) (Some (if Suc k < n then brs ! k else len fc - 1)))
     \<and> op_at fc (snd (bos ! k)) = Br (len fc - 1)))"

lemma chain_shapeI:
  assumes brs: "tests_emitted s fc1 brs" and bos: "bodies_emitted fc1 fc2 bos" and g: "grows fc2 fc3" "grows fc3 fc"
    and len: "length bos = length brs" "len fc = Suc (len fc3)" and w: "wired (zip brs bos) (len fc3) fc"
  shows "chain_shape (length brs) s fc"
  unfolding chain_shape_def
proof (intro exI [where x = "map fst brs"] exI [where x = bos] conjI allI impI)
  fix k
  assume k: "k < length brs"
  have b1: "len s \<le> fst (brs ! k)" "fst (brs ! k) < len fc1" using brs k by (simp_all add: tests_emitted_def)
  have "bos ! k \<in> set bos" using k len by simp
  then have b2: "len fc1 \<le> fst (bos ! k)" "fst (bos ! k) < len fc2" "is_label (op_at fc2 (fst (bos ! k)))" "snd (bos ! k) < len fc2"
    using bos by (simp_all add: bodies_emitted_def)
  show "len s \<le> map fst brs ! k" "map fst brs ! k < fst (bos ! k)" using b1 b2 k by simp_all
  show "snd (bos ! k) < len fc - 1" "is_label (op_at fc (fst (bos ! k)))" using b2 g len by (auto simp: grows_def)
  have next_k: "snd (brs ! Suc k) = fst (brs ! k)" if "Suc k < length brs" using brs that by (simp add: tests_emitted_def)
  show "\<exists>t. op_at fc (map fst brs ! k) = IfInst t (Some (fst (bos ! k)))
      (Some (if Suc k < length brs then map fst brs ! k else len fc - 1))"
    "op_at fc (snd (bos ! k)) = Br (len fc - 1)"
    using w k len next_k unfolding wired_def by (auto split: if_splits)
qed (use len in simp_all)

lemma visit_ifstmt_runs:
  assumes t: "list_all2 (val_ok lab) ns (map fst branches)"
    and b: "list_all2 (list_all2 (act_ok lab)) nss (map snd branches)"
    and e: "rel_option (list_all2 (act_ok lab)) ks orelse_vs"
    and ne: "branches \<noteq> []" and lab: "lab \<longrightarrow> length branches \<le> 1"
    and n: "len s + chain_cost ns nss ks < INVALID_VALUE"
  shows "walk {} lab s s (visit_ifstmt branches orelse_vs)
    (\<lambda>v fc'. ext {} lab s fc' \<and> len fc' \<le> len s + chain_cost ns nss ks \<and> chain_shape (length branches) s fc')"
  unfolding visit_ifstmt_def map_map [symmetric]
proof (rule walk_tests [OF t], goal_cases)
  case 1
  then show ?case using n by (simp add: chain_cost_def)
next
  case (2 brs fc1)
  note A = this
  note ln = list_all2_lengthD [OF t] list_all2_lengthD [OF b]
  have ne: "brs \<noteq> []" using A ne by auto
  then have i: "last brs \<in> set brs" by simp
  show ?case
  proof (rule walk_bodies [OF b], goal_cases)
    case 1
    then show ?case using A n ln by (simp add: chain_cost_def)
  next
    case (2 bos fc2)
    note B = this
    note A2 = tests_emitted_grows [OF A(5) grows_kept [OF B(1,3)]]
    have n2: "len fc2 + orelse_cost ks < INVALID_VALUE" using A(2) B(2) ln n by (simp add: chain_cost_def)
    have br: "fst (last brs) \<in> {} \<union> fst ` set brs \<union> snd ` set bos" "len s \<le> fst (last brs)" "fst (last brs) < len fc2"
      "is_if fc2 (fst (last brs))" using A2 i by (auto simp: tests_emitted_def)
    show ?case unfolding if_not_P [OF ne]
    proof (rule walk_orelse [OF br e n2])
      fix r fc3 H'
      assume C: "grows fc2 fc3" "len fc3 \<le> len fc2 + orelse_cost ks"
        "orelse_result ({} \<union> fst ` set brs \<union> snd ` set bos) fc2 r fc3 H'"
      have l: "len s \<le> len fc1" "len fc1 \<le> len fc2" "len fc2 \<le> len fc3" using A(1) B(1) C(1) by (simp_all add: grows_def)
      have bl: "length bos = length brs" "length brs = length branches" using A(4) B(4) by simp_all
      show "walk H' lab s fc3 (lbind (inst JumpTarget) (\<lambda>after_if_ch.
          lbind (patch_branches None (zip brs bos) after_if_ch) (\<lambda>_.
          lbind (if r \<noteq> INVALID_VALUE then patch r (set_br_target after_if_ch) else lret ()) (\<lambda>_.
          lret INVALID_VALUE))))
        (\<lambda>v fc'. ext {} lab s fc' \<and> len fc' \<le> len s + chain_cost ns nss ks \<and> chain_shape (length branches) s fc')"
      proof (rule walk_chain_end)
        show "tests_emitted s fc3 brs" by (rule tests_emitted_grows [OF A2 C(1)])
        show "bodies_emitted s fc3 bos" by (rule bodies_emitted_grows [OF B(5) l(1) C(1)])
        show "r = INVALID_VALUE \<and> H' = fst ` set brs \<union> snd ` set bos \<or>
          r \<noteq> INVALID_VALUE \<and> len s \<le> r \<and> r < len fc3 \<and> is_br fc3 r \<and> r \<notin> snd ` set bos
            \<and> H' = insert r (fst ` set brs \<union> snd ` set bos)"
          using C(3) l B(5) unfolding orelse_result_def bodies_emitted_def by fastforce
        show "length bos = length brs" "lab \<longrightarrow> length brs \<le> 1" using bl lab by simp_all
        fix fc'
        assume f: "ext {} lab s fc'" "len fc' = Suc (len fc3)" "wired (zip brs bos) (len fc3) fc'" "grows fc3 fc'"
        have "chain_shape (length brs) s fc'" by (rule chain_shapeI [OF A(5) B(5) C(1) f(4) bl(1) f(2,3)])
        with f show "ext {} lab s fc' \<and> len fc' \<le> len s + chain_cost ns nss ks \<and> chain_shape (length branches) s fc'"
          using A(2) B(2) C(2) ln bl by (simp add: chain_cost_def)
      qed (use l in simp)
    qed
  qed
qed

lemma visit_ifstmt_ok:
  assumes "list_all2 (val_ok lab) ns (map fst branches)"
    and "list_all2 (list_all2 (act_ok lab)) nss (map snd branches)"
    and "rel_option (list_all2 (act_ok lab)) ks orelse_vs"
    and "branches \<noteq> []" and "lab \<longrightarrow> length branches \<le> 1"
  shows "act_ok lab (chain_cost ns nss ks) (visit_ifstmt branches orelse_vs)"
  by (rule act_okI, rule walk_mono, rule visit_ifstmt_runs [OF assms]) auto

end
