(* ===== verification/LowerDefs.thy ===== *)
theory LowerDefs
  imports LowerIf
begin

text \<open>
  Functions and classes: their bodies become sequences of their own. A class body accepts
  expressions, assignments to names, undecorated functions, nested classes and the like; the
  predicate \<open>class_item_ok\<close> says which statements those are.
\<close>

section \<open>Functions\<close>

lemma walk_decorators:
  "func < len fc \<Longrightarrow> len s \<le> func \<Longrightarrow> \<forall>d \<in> set decs. d < len fc \<Longrightarrow>
     (\<And>v fc'. len fc \<le> len fc' \<Longrightarrow> len fc' \<le> len fc + length decs \<Longrightarrow> len s \<le> v \<Longrightarrow> v < len fc' \<Longrightarrow>
        decs = [] \<longrightarrow> v = func \<and> fc' = fc \<Longrightarrow> decs \<noteq> [] \<longrightarrow> len fc' = Suc v \<Longrightarrow> ext H lab s fc' \<Longrightarrow> Q v fc') \<Longrightarrow>
     len s \<le> len fc \<Longrightarrow> walk H lab s fc (decorator_calls func decs) Q"
proof (induction func decs arbitrary: fc rule: decorator_calls.induct)
  case (1 func)
  then show ?case by (auto intro!: walk_lret)
next
  case (2 func dec decs)
  show ?case unfolding decorator_calls.simps
    by (rule step_inst, rule 2(1)) (use 2 in auto)
qed

definition param_ok :: "bool \<Rightarrow> nat \<Rightarrow> span_ref \<times> nat lower option \<Rightarrow> bool" where
  "param_ok lab n p = (case snd p of None \<Rightarrow> True | Some m \<Rightarrow> val_ok lab n m)"

lemma param_ok_simps [simp]: "param_ok lab n (x, None)" "param_ok lab n (x, Some m) = val_ok lab n m"
  by (simp_all add: param_ok_def)

lemma walk_params:
  "list_all2 (param_ok lab) ns ps \<Longrightarrow> len fc + sum_list ns < INVALID_VALUE \<Longrightarrow>
     (\<And>rest fc'. len fc \<le> len fc' \<Longrightarrow> len fc' \<le> len fc + sum_list ns \<Longrightarrow> kept fc fc' \<Longrightarrow>
        (\<forall>p \<in> set rest. \<forall>v. snd p = Some v \<longrightarrow> v < len fc') \<Longrightarrow> walk H lab s fc' (f rest) Q) \<Longrightarrow>
     walk H lab s fc (lbind (visit_params ps) f) Q"
proof (induction ps arbitrary: ns fc f rule: visit_params.induct)
  case 1
  then show ?case by simp
next
  case (2 name ps)
  then obtain n ks where ns: "ns = n # ks" "list_all2 (param_ok lab) ks ps" by (auto simp: list_all2_Cons2)
  show ?case unfolding visit_params.simps lbind_assoc lbind_lret
    by (rule 2(1) [OF ns(2)]) (use 2(3) ns in \<open>auto intro!: 2(4)\<close>)
next
  case (3 name m ps)
  then obtain n ks where ns: "ns = n # ks" "list_all2 (param_ok lab) ks ps" "val_ok lab n m"
    by (auto simp: list_all2_Cons2)
  show ?case unfolding visit_params.simps lbind_assoc lbind_lret
  proof (rule visit_then [OF _ ns(3)])
    fix v fc1
    assume v: "len fc \<le> len fc1" "len fc1 \<le> len fc + n" "kept fc fc1" "len fc \<le> v" "v < len fc1"
    show "walk H lab s fc1 (lbind (visit_params ps) (\<lambda>rest. f ((name, Some v) # rest))) Q"
      by (rule 3(1) [OF ns(2)]) (use 3(3) ns v in \<open>auto intro!: 3(4)\<close>)
  qed (use 3(3) ns in simp)
qed

lemma walk_receiver:
  assumes r: "case recv of None \<Rightarrow> True | Some a \<Rightarrow> atom_as_name (sp_inner a) \<noteq> None"
    and Q: "\<And>ps. \<forall>p \<in> set ps. snd p = None \<Longrightarrow> walk H lab s fc (f ps) Q"
  shows "walk H lab s fc (lbind (receiver_params recv) f) Q"
  using assms by (cases recv) (auto simp: receiver_params_def lift_value lbind_assoc)

lemma walk_returns:
  assumes r: "rel_option (val_ok lab) n rv" and n: "len fc + (case n of None \<Rightarrow> 0 | Some k \<Rightarrow> k) < INVALID_VALUE"
    and Q: "\<And>v fc'. len fc \<le> len fc' \<Longrightarrow> len fc' \<le> len fc + (case n of None \<Rightarrow> 0 | Some k \<Rightarrow> k) \<Longrightarrow> kept fc fc' \<Longrightarrow>
       \<forall>x \<in> set_option v. x < len fc' \<Longrightarrow> walk H lab s fc' (f v) Q"
  shows "walk H lab s fc (lbind (case rv of None \<Rightarrow> lret None | Some r \<Rightarrow> lbind r (\<lambda>v. lret (Some v))) f) Q"
proof (cases rv)
  case None
  with r Q show ?thesis by simp
next
  case (Some m)
  with r obtain k where k: "n = Some k" "val_ok lab k m" by (auto simp: option_rel_Some2)
  show ?thesis unfolding Some option.case lbind_assoc lbind_lret
    by (rule walk_visit [OF k(2)]) (use n k in \<open>auto intro!: Q\<close>)
qed

text \<open>
  What a class body needs of a function without decorators: besides the function, one more
  instruction was emitted, and it is no label, so it may be overwritten.
\<close>

definition fn_ok :: "bool \<Rightarrow> nat \<Rightarrow> nat lower \<Rightarrow> bool" where
  "fn_ok lab n m \<longleftrightarrow> (\<forall>fc. fc_valid fc \<longrightarrow> len fc + n < INVALID_VALUE \<longrightarrow>
     runs m fc (\<lambda>v fc'. ext {} lab fc fc' \<and> len fc' \<le> len fc + n \<and> len fc \<le> v \<and> Suc v < len fc'
       \<and> \<not> is_label (op_at fc' (len fc' - 1))))"

definition fn_cost :: "nat list \<Rightarrow> nat list \<Rightarrow> nat option \<Rightarrow> nat list \<Rightarrow> nat" where
  "fn_cost ds ps r bs = sum_list ds + sum_list ps + (case r of None \<Rightarrow> 0 | Some k \<Rightarrow> k) + sum_list bs + length ds + 2"

lemma walk_funcdef:
  assumes d: "list_all2 (val_ok lab) ds decs" and p: "list_all2 (param_ok lab) ps (case args of None \<Rightarrow> [] | Some x \<Rightarrow> x)"
    and r: "rel_option (val_ok lab) rn rv" and b: "list_all2 (act_ok lab) bs body"
    and recv: "case fn_reciever fndef of None \<Rightarrow> True | Some a \<Rightarrow> atom_as_name (sp_inner a) \<noteq> None"
    and name: "atom_as_name (sp_inner (fn_name fndef)) = Some nm"
    and n: "len s + fn_cost ds ps rn bs < INVALID_VALUE"
  shows "walk {} lab s s (visit_funcdef fndef decs args rv body (Some sp))
    (\<lambda>v fc'. ext {} lab s fc' \<and> len fc' \<le> len s + fn_cost ds ps rn bs \<and> len s \<le> v \<and> v < len fc'
       \<and> (decs = [] \<longrightarrow> Suc v < len fc' \<and> \<not> is_label (op_at fc' (len fc' - 1)))
       \<and> (decs \<noteq> [] \<longrightarrow> len fc' = Suc v))"
proof -
  have d': "list_all2 (val_ok lab) (rev ds) (rev decs)" using d by simp
  have b': "act_ok lab (sum_list bs) (lbind (lseq body) (\<lambda>_. lret ()))"
    by (rule act_okI, rule lseq_acts_then [OF _ b], rule walk_lret) simp_all
  have n': "len s + sum_list ds + sum_list ps + (case rn of None \<Rightarrow> 0 | Some k \<Rightarrow> k) + sum_list bs + length decs + 2
      < INVALID_VALUE" "length ds = length decs"
    using n list_all2_lengthD [OF d] by (simp_all add: fn_cost_def)
  show ?thesis
    unfolding visit_funcdef_def name unwrap_simps lift_value
    by (rule visit_lseq [OF _ d'], rule walk_receiver [OF recv], rule walk_params [rotated 2, OF _ p],
        rule walk_returns [rotated 2, OF _ r], rule walk_new_sequence [rotated 2, OF _ b'],
        rule walk_set_ast [rotated 2], rule step_inst, rule step_inst, rule walk_decorators)
      (use n' in \<open>simp_all add: fn_cost_def, fastforce+\<close>)
qed

lemma visit_funcdef_ok:
  assumes "list_all2 (val_ok lab) ds decs" and "list_all2 (param_ok lab) ps (case args of None \<Rightarrow> [] | Some x \<Rightarrow> x)"
    and "rel_option (val_ok lab) rn rv" and "list_all2 (act_ok lab) bs body"
    and "case fn_reciever fndef of None \<Rightarrow> True | Some a \<Rightarrow> atom_as_name (sp_inner a) \<noteq> None"
    and "atom_as_name (sp_inner (fn_name fndef)) \<noteq> None"
  shows "val_ok lab (fn_cost ds ps rn bs) (visit_funcdef fndef decs args rv body (Some sp))"
    and "decs = [] \<Longrightarrow> fn_ok lab (fn_cost ds ps rn bs) (visit_funcdef fndef decs args rv body (Some sp))"
    and "decs \<noteq> [] \<Longrightarrow> fc_valid fc \<Longrightarrow> len fc + fn_cost ds ps rn bs < INVALID_VALUE \<Longrightarrow>
      runs (visit_funcdef fndef decs args rv body (Some sp)) fc (\<lambda>v fc'. fc_valid fc' \<and> len fc' = Suc v)"
proof -
  obtain nm where nm: "atom_as_name (sp_inner (fn_name fndef)) = Some nm" using assms(6) by auto
  note w = walk_funcdef [OF assms(1-5) nm, unfolded walk_def, rule_format, OF _ ext_refl]
  show "val_ok lab (fn_cost ds ps rn bs) (visit_funcdef fndef decs args rv body (Some sp))"
    unfolding val_ok_def by (intro allI impI, rule runs_mono, rule w) auto
  show "fn_ok lab (fn_cost ds ps rn bs) (visit_funcdef fndef decs args rv body (Some sp))" if "decs = []"
    unfolding fn_ok_def using that by (intro allI impI, intro runs_mono [OF w]) auto
  show "runs (visit_funcdef fndef decs args rv body (Some sp)) fc (\<lambda>v fc'. fc_valid fc' \<and> len fc' = Suc v)"
    if "decs \<noteq> []" "fc_valid fc" "len fc + fn_cost ds ps rn bs < INVALID_VALUE"
    using that by (intro runs_mono [OF w]) auto
qed

section \<open>Class bodies\<close>

text \<open>The statements a class body may hold, and what their visits have to do.\<close>

fun class_item_ok :: "statement \<Rightarrow> bool" where
  "class_item_ok (StFnDef f) = (fn_decorators f = [] \<and> fn_body f \<noteq> [])"
| "class_item_ok (StAsn a) = (primary_as_name (sp_inner (asn_name a)) \<noteq> None)"
| "class_item_ok (StImport _) = False"
| "class_item_ok (StIf _) = False"
| "class_item_ok (StWhile _) = False"
| "class_item_ok _ = True"

fun item_visit_ok :: "bool \<Rightarrow> nat \<Rightarrow> statement \<Rightarrow> (span option \<Rightarrow> nat lower) \<Rightarrow> bool" where
  "item_visit_ok lab n (StFnDef f) v = (fn_ok lab n (v None) \<and> atom_as_name (sp_inner (fn_name f)) \<noteq> None)"
| "item_visit_ok lab n (StAsn a) v = val_ok lab n (v None)"
| "item_visit_ok lab n st v =
     ((\<forall>x. val_ok lab n (v (Some x))) \<and> (\<exists>k. statement_into_ast_node st = Inr k))"

lemma walk_fn:
  assumes m: "fn_ok lab n m" and n: "len fc + n < INVALID_VALUE"
    and Q: "\<And>v fc'. len fc \<le> len fc' \<Longrightarrow> len fc' \<le> len fc + n \<Longrightarrow> len fc \<le> v \<Longrightarrow> Suc v < len fc' \<Longrightarrow>
              \<not> is_label (op_at fc' (len fc' - 1)) \<Longrightarrow> walk H lab s fc' (f v) Q"
  shows "walk H lab s fc (lbind m f) Q"
  by (rule walk_runs [where P = "\<lambda>v fc'. len fc' \<le> len fc + n \<and> len fc \<le> v \<and> Suc v < len fc'
        \<and> \<not> is_label (op_at fc' (len fc' - 1))"])
    (use m n Q in \<open>auto simp: fn_ok_def\<close>)

lemma set_last_var:
  assumes "current_insts fc \<noteq> []" and "nm = Some x"
  shows "lbind (\<lambda>fc. if current_insts fc = [] then Inl UnwrapNone
      else and_then (unwrap nm) (\<lambda>name. patch (length (current_insts fc) - 1) (set_op (SetVar name v)) fc)) k fc =
    lbind (patch (len fc - 1) (set_op (SetVar x v))) k fc"
  using assms by (simp add: lbind_def)

lemma walk_set_last:
  assumes i: "len s \<le> v" "Suc v < len fc" "\<not> is_label (op_at fc (len fc - 1))" "nm = Some x"
    and Q: "\<And>fc'. len fc' = len fc \<Longrightarrow> walk (H - {len fc - 1}) lab s fc' (k ()) Q"
  shows "walk H lab s fc (lbind (\<lambda>fc. if current_insts fc = [] then Inl UnwrapNone
      else and_then (unwrap nm) (\<lambda>name. patch (length (current_insts fc) - 1) (set_op (SetVar name v)) fc)) k) Q"
proof -
  have ne: "current_insts fc \<noteq> []" using i by auto
  have "walk H lab s fc (lbind (patch (len fc - 1) (set_op (SetVar x v))) k) Q"
    by (rule step_set, rule Q) (use i in auto)
  then show ?thesis unfolding walk_def runs_def set_last_var [OF ne i(4)] .
qed

lemma atom_node_other: "atom_into_ast_node a \<noteq> NFuncDef f" "atom_into_ast_node a \<noteq> NAssign b"
  by (cases a; simp)+

lemma expr_node_other:
  assumes "expr_into_ast_node e = Inr k"
  shows "k \<noteq> NFuncDef f" and "k \<noteq> NAssign b"
proof -
  have "k \<noteq> NFuncDef f \<and> k \<noteq> NAssign b"
  proof (cases e)
    case (ExprPrimary p)
    with assms show ?thesis by (cases "sp_inner p") (auto dest: sym simp: atom_node_other)
  qed (use assms in auto)
  then show "k \<noteq> NFuncDef f" "k \<noteq> NAssign b" by simp_all
qed

lemma class_item_unfold:
  "sp_inner node = StFnDef f \<Longrightarrow> class_item node v =
     lbind (v None) (\<lambda>function.
     lbind (\<lambda>fc. if current_insts fc = [] then Inl UnwrapNone
        else and_then (unwrap (atom_as_name (sp_inner (fn_name f))))
          (\<lambda>name. patch (length (current_insts fc) - 1) (set_op (SetVar name function)) fc)) (\<lambda>_.
     lbind (set_span_for_values [function] (sp_span node)) lret))"
  "sp_inner node = StAsn a \<Longrightarrow> primary_as_name (sp_inner (asn_name a)) = Some n \<Longrightarrow> class_item node v =
     lbind (v None) (\<lambda>assignment. lbind (inst (SetVar n assignment)) (\<lambda>setter.
     lbind (set_span_for_values [assignment, setter] (sp_span node)) lret))"
  by (simp_all add: class_item_def lift_value del: set_span_for_values.simps)

lemma class_item_other:
  assumes "statement_into_ast_node (sp_inner node) = Inr k" "\<forall>f. k \<noteq> NFuncDef f" "\<forall>b. k \<noteq> NAssign b"
  shows "class_item node v = lbind (v (Some (sp_span node))) (\<lambda>val. lbind (set_span_for_values [val] (sp_span node)) lret)"
  using assms by (cases k) (simp_all add: class_item_def lift_value del: set_span_for_values.simps)

lemma class_item_acts:
  assumes v: "item_visit_ok lab n (sp_inner node) v" and ok: "class_item_ok (sp_inner node)"
  shows "act_ok lab (n + 1) (class_item node v)"
proof (cases "(\<exists>f. sp_inner node = StFnDef f) \<or> (\<exists>a. sp_inner node = StAsn a)")
  case True
  then show ?thesis
  proof (elim disjE exE)
    fix f assume f: "sp_inner node = StFnDef f"
    with v have m: "fn_ok lab n (v None)" by simp
    obtain nm where nm: "atom_as_name (sp_inner (fn_name f)) = Some nm" using v f by auto
    show ?thesis unfolding class_item_unfold(1) [OF f]
      by (rule act_okI, rule walk_fn [rotated 2, OF _ m], rule walk_set_last [rotated 4, OF _ _ _ _ nm],
          rule step_span, rule walk_lret) auto
  next
    fix a assume a: "sp_inner node = StAsn a"
    with v have m: "val_ok lab n (v None)" by simp
    obtain nm where nm: "primary_as_name (sp_inner (asn_name a)) = Some nm" using ok a by auto
    show ?thesis unfolding class_item_unfold(2) [OF a nm]
      by (rule act_okI, rule visit_then [OF _ m], rule step_inst, rule step_span, rule walk_lret) auto
  qed
next
  case False
  with v obtain k where m: "\<forall>x. val_ok lab n (v (Some x))" and k: "statement_into_ast_node (sp_inner node) = Inr k"
    by (cases "sp_inner node") auto
  have k': "\<forall>f. k \<noteq> NFuncDef f" "\<forall>b. k \<noteq> NAssign b"
    using False k by (cases "sp_inner node"; auto dest: expr_node_other)+
  show ?thesis unfolding class_item_other [OF k k']
    by (rule act_okI, rule visit_then [OF _ m [rule_format]], rule step_span, rule walk_lret) auto
qed

definition class_items_ok :: "bool \<Rightarrow> nat list \<Rightarrow> (statement spanned \<times> (span option \<Rightarrow> nat lower)) list \<Rightarrow> bool" where
  "class_items_ok lab = list_all2 (\<lambda>n x. item_visit_ok lab n (sp_inner (fst x)) (snd x) \<and> class_item_ok (sp_inner (fst x)))"

lemma item_has_node: "item_visit_ok lab n st v \<Longrightarrow> \<exists>k. statement_into_ast_node st = Inr k"
  by (cases st) auto

lemma str_node:
  assumes "statement_into_ast_node st = Inr (NStr a)"
  shows "\<exists>s. a = AtStr s"
proof -
  have at: "atom_into_ast_node b = NStr a \<Longrightarrow> ?thesis" for b by (cases b) auto
  from assms obtain e where "st = StExpr e" "expr_into_ast_node e = Inr (NStr a)" by (cases st) auto
  then obtain p where "primary_into_ast_node (sp_inner p) = Inr (NStr a)" by (cases e) auto
  then show ?thesis using at by (cases "sp_inner p") auto
qed

lemma class_doc_other:
  "statement_into_ast_node (sp_inner node) = Inr k \<Longrightarrow> \<forall>a. k \<noteq> NStr a \<Longrightarrow>
     class_doc class ((node, v) # rest) = lret ((node, v) # rest)"
  by (cases k) (simp_all add: class_doc_def lift_value)

lemma walk_class_doc:
  assumes items: "class_items_ok lab ns items" and c: "len s \<le> class" "class < len fc" and n: "len fc + 2 < INVALID_VALUE"
    and Q: "\<And>ns' items' fc'. len fc \<le> len fc' \<Longrightarrow> len fc' \<le> len fc + 2 \<Longrightarrow> class_items_ok lab ns' items' \<Longrightarrow>
       sum_list ns' + length ns' \<le> sum_list ns + length ns \<Longrightarrow> walk H lab s fc' (f items') Q"
  shows "walk H lab s fc (lbind (class_doc class items) f) Q"
proof (cases items)
  case Nil
  with items Q [of fc ns "[]"] show ?thesis by (simp add: class_doc_def)
next
  case (Cons x rest)
  then obtain node v where x: "items = (node, v) # rest" by (cases x) auto
  with items obtain m ms where ns: "ns = m # ms" "item_visit_ok lab m (sp_inner node) v" "class_items_ok lab ms rest"
    by (auto simp: class_items_ok_def list_all2_Cons2)
  then obtain k where k: "statement_into_ast_node (sp_inner node) = Inr k" using item_has_node by blast
  show ?thesis
  proof (cases "\<exists>a. k = NStr a")
    case True
    then obtain str where a: "k = NStr (AtStr str)" using str_node k by blast
    have m: "val_ok lab 1 (visit_const (AtStr str) None)" by (rule visit_const_ok) simp
    have "class_doc class items = lbind (visit_const (AtStr str) None) (\<lambda>s.
        lbind (inst (SetDunder class DocComment s)) (\<lambda>dunder.
        lbind (set_span_for_values [dunder] (sp_span node)) (\<lambda>_. lret rest)))"
      using k a by (simp add: x class_doc_def lift_value del: visit_const.simps set_span_for_values.simps)
    then show ?thesis unfolding lbind_assoc lbind_lret
      by (simp only: lbind_assoc lbind_lret)
        (rule visit_then [OF _ m], rule step_inst, rule step_span, rule Q [OF _ _ ns(3)], use n c ns in auto)
  next
    case False
    then have "class_doc class items = lret items" unfolding x using class_doc_other [OF k] by simp
    then show ?thesis using Q [OF _ _ items] by simp
  qed
qed

lemma class_items_acts:
  "class_items_ok lab ns items \<Longrightarrow>
     list_all2 (act_ok lab) (map Suc ns) (map (\<lambda>(node, v). class_item node v) items)"
  unfolding class_items_ok_def list_all2_map1 list_all2_map2
  by (erule list_all2_mono) (auto dest: class_item_acts)

lemma class_body_acts:
  assumes "class_items_ok lab ns items"
  shows "act_ok lab (1 + sum_list ns + length ns)
    (lbind (inst Nop) (\<lambda>_. lbind (lseq (map (\<lambda>(node, v). class_item node v) items)) (\<lambda>_. lret ())))"
proof -
  have "sum_list (map Suc ns) = sum_list ns + length ns" by (induction ns) auto
  then show ?thesis
    by - (rule act_okI, rule step_inst, rule lseq_acts_then [OF _ class_items_acts [OF assms]], rule walk_lret, auto)
qed

lemma visit_classdef_ok:
  assumes items: "class_items_ok lab ns (zip (cls_body cd) vs)" and nm: "atom_as_name (sp_inner (cls_name cd)) \<noteq> None"
  shows "val_ok lab (6 + sum_list ns + length ns) (visit_classdef cd vs sp)"
proof -
  from nm obtain n where n: "atom_as_name (sp_inner (cls_name cd)) = Some n" by auto
  show ?thesis unfolding visit_classdef_def n unwrap_simps lift_value
  proof (rule val_okI, rule step_inst, rule step_inst, rule step_span_opt, rule walk_class_doc [OF items], goal_cases)
    case (4 s fc1 fc2 fc3 ns' items' fc4)
    show ?case
      by (rule walk_new_sequence [rotated 2, OF _ class_body_acts [OF 4(13)]], rule step_inst, rule walk_lret)
        (use 4 in auto)
  qed auto
qed

end
