(* ===== verification/LowerModule.thy ===== *)
theory LowerModule
  imports LowerDefs
begin

text \<open>
  Whole trees. \<open>low_module\<close> says which modules the lowering is meant for, \<open>module_cost\<close> bounds
  the number of instructions it emits; the theorems say that such a module is lowered without a
  panic to code in which every sequence is well formed, and what goes wrong on other modules.
\<close>

section \<open>The trees the lowering is meant for\<close>

text \<open>Names are names and there is no \<open>await\<close>.\<close>

primrec low_atom :: "atom \<Rightarrow> bool"
  and low_expr :: "expr \<Rightarrow> bool"
  and low_primary :: "primary \<Rightarrow> bool" where
  "low_atom AtNone = True"
| "low_atom AtEllipsis = True"
| "low_atom (AtInt n) = True"
| "low_atom (AtStr s) = True"
| "low_atom (AtBool b) = True"
| "low_atom (AtFloat f) = True"
| "low_atom (AtTuple es) = list_all sp_inner (map (map_spanned low_expr) es)"
| "low_atom (AtComment c) = True"
| "low_atom (AtName n) = True"
| "low_expr (ExprIf t b e) =
     (sp_inner (map_spanned low_expr t) \<and> sp_inner (map_spanned low_expr b) \<and> sp_inner (map_spanned low_expr e))"
| "low_expr (BinOp l op r) = (sp_inner (map_spanned low_expr l) \<and> sp_inner (map_spanned low_expr r))"
| "low_expr (Unary op v) = sp_inner (map_spanned low_expr v)"
| "low_expr (Named t v) = (atom_as_name (sp_inner t) \<noteq> None \<and> sp_inner (map_spanned low_expr v))"
| "low_expr (ExprPrimary p) = sp_inner (map_spanned low_primary p)"
| "low_primary (Atomic a) = sp_inner (map_spanned low_atom a)"
| "low_primary (Subscript v i) = (sp_inner (map_spanned low_primary v) \<and> sp_inner (map_spanned low_expr i))"
| "low_primary (Call f args) = (sp_inner (map_spanned low_primary f) \<and>
     (case map_option (map (map_spanned low_expr)) args of None \<Rightarrow> True | Some es \<Rightarrow> list_all sp_inner es))"
| "low_primary (Attribute l a) = (sp_inner (map_spanned low_primary l) \<and> atom_as_name (sp_inner a) \<noteq> None)"
| "low_primary (Await p) = False"

abbreviation low_sexpr :: "expr spanned \<Rightarrow> bool" where
  "low_sexpr e \<equiv> low_expr (sp_inner e)"

fun low_assign :: "assign \<Rightarrow> bool" where
  "low_assign (Assign name value _) = (low_sexpr value \<and>
     (case sp_inner name of
        Atomic at \<Rightarrow> atom_as_name (sp_inner at) \<noteq> None
      | Attribute left attr \<Rightarrow> low_primary (sp_inner left) \<and> atom_as_name (sp_inner attr) \<noteq> None
      | _ \<Rightarrow> False))"

fun low_return :: "return_stmt \<Rightarrow> bool" where
  "low_return (Return (Inr e)) = low_sexpr e"
| "low_return (Return (Inl _)) = True"

text \<open>With \<open>lab\<close> there is no \<open>elif\<close>.\<close>

primrec low_statement :: "bool \<Rightarrow> statement \<Rightarrow> bool"
  and low_function_def :: "bool \<Rightarrow> function_def \<Rightarrow> bool"
  and low_class_def :: "bool \<Rightarrow> class_def \<Rightarrow> bool"
  and low_if_branch :: "bool \<Rightarrow> if_branch \<Rightarrow> bool"
  and low_if_chain :: "bool \<Rightarrow> if_chain \<Rightarrow> bool"
  and low_while :: "bool \<Rightarrow> while_stmt \<Rightarrow> bool" where
  "low_statement lab (StExpr e) = low_expr e"
| "low_statement lab (StFnDef f) = low_function_def lab f"
| "low_statement lab (StRet r) = low_return r"
| "low_statement lab (StAsn a) = low_assign a"
| "low_statement lab (StAnn a) = (atom_as_name (sp_inner (ann_name a)) \<noteq> None \<and> low_sexpr (ann_kind a))"
| "low_statement lab (StImport i) = low_import i"
| "low_statement lab (StClass c) = low_class_def lab c"
| "low_statement lab (StIf c) = low_if_chain lab c"
| "low_statement lab (StWhile w) = low_while lab w"
| "low_statement lab StPass = True"
| "low_function_def lab (FunctionDef recv name args body decs rets) =
     ((case recv of None \<Rightarrow> True | Some a \<Rightarrow> atom_as_name (sp_inner a) \<noteq> None)
      \<and> atom_as_name (sp_inner name) \<noteq> None
      \<and> (case args of None \<Rightarrow> True | Some ps \<Rightarrow> list_all (\<lambda>p. case snd p of None \<Rightarrow> True | Some e \<Rightarrow> low_sexpr e) ps)
      \<and> list_all sp_inner (map (map_spanned (low_statement lab)) body)
      \<and> list_all (\<lambda>d. low_primary (sp_inner d)) decs
      \<and> (case rets of None \<Rightarrow> True | Some e \<Rightarrow> low_sexpr e))"
| "low_class_def lab (ClassDef name decs body) =
     (atom_as_name (sp_inner name) \<noteq> None \<and> list_all sp_inner (map (map_spanned (low_statement lab)) body)
      \<and> list_all (\<lambda>n. class_item_ok (sp_inner n)) body)"
| "low_if_branch lab (IfBranch t body) =
     (low_sexpr t \<and> list_all sp_inner (map (map_spanned (low_statement lab)) body))"
| "low_if_chain lab (IfChain branches orelse) =
     (branches \<noteq> [] \<and> (lab \<longrightarrow> length branches \<le> 1)
      \<and> list_all sp_inner (map (map_spanned (low_if_branch lab)) branches)
      \<and> (case map_option (map (map_spanned (low_statement lab))) orelse of None \<Rightarrow> True | Some b \<Rightarrow> list_all sp_inner b))"
| "low_while lab (While t body) = (low_sexpr t \<and> list_all sp_inner (map (map_spanned (low_statement lab)) body))"

definition low_module :: "bool \<Rightarrow> module \<Rightarrow> bool" where
  "low_module lab m = list_all (\<lambda>s. low_statement lab (sp_inner s)) (module_body m)"

section \<open>How many instructions are emitted\<close>

primrec atom_cost :: "atom \<Rightarrow> nat"
  and expr_cost :: "expr \<Rightarrow> nat"
  and primary_cost :: "primary \<Rightarrow> nat" where
  "atom_cost AtNone = 1"
| "atom_cost AtEllipsis = 1"
| "atom_cost (AtInt n) = 1"
| "atom_cost (AtStr s) = 1"
| "atom_cost (AtBool b) = 1"
| "atom_cost (AtFloat f) = 1"
| "atom_cost (AtTuple es) = sum_list (map sp_inner (map (map_spanned expr_cost) es)) + 1"
| "atom_cost (AtComment c) = 1"
| "atom_cost (AtName n) = 1"
| "expr_cost (ExprIf t b e) =
     sp_inner (map_spanned expr_cost t) + sp_inner (map_spanned expr_cost b) + sp_inner (map_spanned expr_cost e) + 8"
| "expr_cost (BinOp l op r) = sp_inner (map_spanned expr_cost l) + sp_inner (map_spanned expr_cost r) + 2"
| "expr_cost (Unary op v) = sp_inner (map_spanned expr_cost v) + 2"
| "expr_cost (Named t v) = sp_inner (map_spanned expr_cost v) + 1"
| "expr_cost (ExprPrimary p) = sp_inner (map_spanned primary_cost p)"
| "primary_cost (Atomic a) = sp_inner (map_spanned atom_cost a)"
| "primary_cost (Subscript v i) = sp_inner (map_spanned primary_cost v) + sp_inner (map_spanned expr_cost i) + 2"
| "primary_cost (Call f args) = sp_inner (map_spanned primary_cost f) +
     sum_list (case map_option (map (map_spanned expr_cost)) args of None \<Rightarrow> [] | Some es \<Rightarrow> map sp_inner es) + 1"
| "primary_cost (Attribute l a) = sp_inner (map_spanned primary_cost l) + 2"
| "primary_cost (Await p) = 0"

abbreviation sexpr_cost :: "expr spanned \<Rightarrow> nat" where
  "sexpr_cost e \<equiv> expr_cost (sp_inner e)"

fun assign_cost :: "assign \<Rightarrow> nat" where
  "assign_cost (Assign name value _) =
     (case sp_inner name of Attribute left _ \<Rightarrow> primary_cost (sp_inner left) + sexpr_cost value + 2 | _ \<Rightarrow> sexpr_cost value + 1)"

fun return_cost :: "return_stmt \<Rightarrow> nat" where
  "return_cost (Return (Inr e)) = sexpr_cost e + 1"
| "return_cost (Return (Inl _)) = 2"

definition param_cost :: "span_ref \<times> expr spanned option \<Rightarrow> nat" where
  "param_cost p = (case snd p of None \<Rightarrow> 0 | Some e \<Rightarrow> sexpr_cost e)"

primrec statement_cost :: "statement \<Rightarrow> nat"
  and function_def_cost :: "function_def \<Rightarrow> nat"
  and class_def_cost :: "class_def \<Rightarrow> nat"
  and if_branch_cost :: "if_branch \<Rightarrow> nat \<times> nat list"
  and if_chain_cost :: "if_chain \<Rightarrow> nat"
  and while_cost :: "while_stmt \<Rightarrow> nat" where
  "statement_cost (StExpr e) = expr_cost e"
| "statement_cost (StFnDef f) = function_def_cost f"
| "statement_cost (StRet r) = return_cost r"
| "statement_cost (StAsn a) = assign_cost a"
| "statement_cost (StAnn a) = sexpr_cost (ann_kind a) + 1"
| "statement_cost (StImport i) = import_cost i"
| "statement_cost (StClass c) = class_def_cost c"
| "statement_cost (StIf c) = if_chain_cost c"
| "statement_cost (StWhile w) = while_cost w"
| "statement_cost StPass = 1"
| "function_def_cost (FunctionDef recv name args body decs rets) =
     fn_cost (map (\<lambda>d. primary_cost (sp_inner d)) decs)
       (case args of None \<Rightarrow> [] | Some ps \<Rightarrow> map param_cost ps)
       (map_option (\<lambda>e. sexpr_cost e) rets) (map sp_inner (map (map_spanned statement_cost) body))"
| "class_def_cost (ClassDef name decs body) =
     6 + sum_list (map sp_inner (map (map_spanned statement_cost) body)) + length body"
| "if_branch_cost (IfBranch t body) = (sexpr_cost t, map sp_inner (map (map_spanned statement_cost) body))"
| "if_chain_cost (IfChain branches orelse) =
     chain_cost (map (fst \<circ> sp_inner) (map (map_spanned if_branch_cost) branches))
       (map (snd \<circ> sp_inner) (map (map_spanned if_branch_cost) branches))
       (map_option (map sp_inner) (map_option (map (map_spanned statement_cost)) orelse))"
| "while_cost (While t body) = sexpr_cost t + sum_list (map sp_inner (map (map_spanned statement_cost) body)) + 6"

definition module_cost :: "module \<Rightarrow> nat" where
  "module_cost m = sum_list (map (\<lambda>s. statement_cost (sp_inner s)) (module_body m))"

section \<open>Expressions\<close>

lemma visit_spanned_map [simp]:
  "visit_spanned (map_spanned f x) None = f (sp_inner x) (Some (sp_span x))"
  "visit_spanned (map_spanned f x) (Some sp) = f (sp_inner x) (Some sp)"
  by (cases x; simp add: visit_spanned_def)+

lemma spanned_sel [simp]: "sp_inner (map_spanned f x) = f (sp_inner x)" "set_spanned x = {sp_inner x}"
  by (cases x; simp)+

lemma list_all2_maps: "(\<And>x. x \<in> set xs \<Longrightarrow> P (f x) (g x)) \<Longrightarrow> list_all2 P (map f xs) (map g xs)"
  by (induction xs) auto

lemma visit_expressions_ok:
  "low_atom a \<Longrightarrow> val_ok lab (atom_cost a) (visit_with_atom a sp)"
  "low_expr e \<Longrightarrow> val_ok lab (expr_cost e) (visit_with_expr e sp)"
  "low_primary p \<Longrightarrow> val_ok lab (primary_cost p) (visit_with_primary p sp)"
proof (induction a and e and p arbitrary: sp and sp and sp rule: atom.induct expr.induct primary.induct)
  case (AtTuple es)
  have "list_all2 (val_ok lab) (map (\<lambda>e. expr_cost (sp_inner e)) es)
      (map (\<lambda>e. visit_with_expr (sp_inner e) (Some (sp_span e))) es)"
    by (rule list_all2_maps) (use AtTuple in \<open>auto simp: list_all_iff\<close>)
  from visit_tuple_ok [OF this] show ?case by (simp add: comp_def)
next
  case (Call f args)
  have args: "list_all2 (val_ok lab) (case map_option (map (map_spanned expr_cost)) args of None \<Rightarrow> [] | Some es \<Rightarrow> map sp_inner es)
      (case map_option (map (\<lambda>e. visit_spanned e None)) (map_option (map (map_spanned visit_with_expr)) args) of
         None \<Rightarrow> [] | Some es \<Rightarrow> es)"
    using Call by (cases args) (auto simp: comp_def list_all_iff intro!: list_all2_maps)
  have f: "val_ok lab (primary_cost (sp_inner f)) (visit_with_primary (sp_inner f) (Some (sp_span f)))"
    using Call by auto
  obtain own where "primary_span (Call f args) = Inr own" by (cases args) auto
  then show ?case using visit_call_ok [OF f args] by (simp add: lift_value)
qed (auto simp: visit_pass_ok visit_name_ok opt_or_def lift_value
    split: option.splits simp del: visit_const.simps One_nat_def add_2_eq_Suc'
    intro!: visit_const_ok visit_ternary_ok visit_binop_ok visit_unary_ok visit_named_expr_ok
      visit_subscript_ok visit_attr_ok)

lemma visit_sexpr_ok: "low_sexpr e \<Longrightarrow> val_ok lab (sexpr_cost e) (visit_sexpr e)"
  by (simp add: visit_expressions_ok)

lemma visit_sprimary_ok: "low_primary (sp_inner p) \<Longrightarrow> val_ok lab (primary_cost (sp_inner p)) (visit_sprimary p)"
  by (simp add: visit_expressions_ok)

section \<open>Statements\<close>

lemma visit_with_assign_ok:
  assumes "low_assign a"
  shows "val_ok lab (assign_cost a) (visit_with_assign a sp)"
proof (cases a)
  case (Assign name val kind)
  with assms have v: "val_ok lab (sexpr_cost val) (visit_sexpr val)" by (auto simp: visit_expressions_ok)
  show ?thesis
  proof (cases "sp_inner name")
    case (Atomic at)
    then obtain n where "atom_as_name (sp_inner at) = Some n" using assms Assign by auto
    from visit_assign_name_ok [OF Atomic this v] show ?thesis
      using Assign Atomic by (simp add: visit_with_assign_def)
  next
    case (Attribute left attr)
    then obtain n where n: "atom_as_name (sp_inner attr) = Some n" and l: "low_primary (sp_inner left)"
      using assms Assign by auto
    from visit_assign_attr_ok [OF Attribute n visit_sprimary_ok [OF l] v] show ?thesis
      using Assign Attribute by (simp add: visit_with_assign_def)
  qed (use assms Assign in auto)
qed

lemma visit_with_return_ok: "low_return r \<Longrightarrow> val_ok lab (return_cost r) (visit_with_return r sp)"
proof (induction r rule: low_return.induct)
  case (1 e)
  then show ?case using visit_return_ok [where e = "Some (visit_sexpr e)" and n = "sexpr_cost e"]
    by (simp add: visit_with_return_def visit_expressions_ok)
next
  case (2 t)
  show ?case using visit_return_ok [where e = None and n = 1] by (simp add: visit_with_return_def numeral_2_eq_2)
qed

text \<open>What the visit of a statement does: always an action, and what a class body needs of it.\<close>

definition statement_ok :: "bool \<Rightarrow> statement \<Rightarrow> bool" where
  "statement_ok lab st \<longleftrightarrow>
     (\<forall>x. act_ok lab (statement_cost st) (visit_with_statement st (Some x)))
     \<and> (class_item_ok st \<longrightarrow> item_visit_ok lab (statement_cost st) st (visit_with_statement st))"

lemma body_acts:
  assumes "list_all sp_inner (map (map_spanned (low_statement lab)) body)"
    and "\<And>s. s \<in> set body \<Longrightarrow> low_statement lab (sp_inner s) \<Longrightarrow> statement_ok lab (sp_inner s)"
  shows "list_all2 (act_ok lab) (map sp_inner (map (map_spanned statement_cost) body))
     (map (\<lambda>s. visit_spanned s None) (map (map_spanned visit_with_statement) body))"
  using assms by (auto simp: comp_def list_all_iff statement_ok_def simp del: split_paired_All intro!: list_all2_maps)

lemma value_statement:
  "(\<And>sp. val_ok lab (statement_cost st) (visit_with_statement st sp)) \<Longrightarrow>
     (\<And>f. st \<noteq> StFnDef f) \<Longrightarrow> \<exists>k. statement_into_ast_node st = Inr k \<Longrightarrow> statement_ok lab st"
  unfolding statement_ok_def by (cases st) (auto intro: val_ok_act)

lemma low_expr_node: "low_expr e \<Longrightarrow> \<exists>k. expr_into_ast_node e = Inr k"
proof (cases e)
  case (ExprPrimary p)
  assume "low_expr e"
  with ExprPrimary show ?thesis by (cases "sp_inner p") auto
qed auto

lemma function_def_ok:
  assumes low: "low_function_def lab f"
    and body: "\<And>s. s \<in> set (fn_body f) \<Longrightarrow> low_statement lab (sp_inner s) \<Longrightarrow> statement_ok lab (sp_inner s)"
  shows "val_ok lab (function_def_cost f) (visit_with_function_def f (Some x))"
    and "class_item_ok (StFnDef f) \<Longrightarrow> fn_ok lab (function_def_cost f) (visit_with_function_def f None)"
    and "fn_decorators f \<noteq> [] \<Longrightarrow> fn_body f \<noteq> [] \<Longrightarrow> fc_valid fc \<Longrightarrow> len fc + function_def_cost f < INVALID_VALUE \<Longrightarrow>
      runs (visit_with_function_def f None) fc (\<lambda>v fc'. fc_valid fc' \<and> len fc' = Suc v)"
proof -
  obtain recv name args bd decs rets where f: "f = FunctionDef recv name args bd decs rets" by (cases f)
  have d: "list_all2 (val_ok lab) (map (\<lambda>d. primary_cost (sp_inner d)) decs) (map visit_sprimary decs)"
    using low f by (auto simp: list_all_iff visit_expressions_ok intro!: list_all2_maps)
  have p: "list_all2 (param_ok lab) (case args of None \<Rightarrow> [] | Some ps \<Rightarrow> map param_cost ps)
      (case map_option (map (\<lambda>(n, ann). (n, map_option visit_sexpr ann))) args of None \<Rightarrow> [] | Some x \<Rightarrow> x)"
    using low f by (cases args)
      (auto simp: list_all_iff param_ok_def param_cost_def visit_expressions_ok split: option.splits prod.splits
        intro!: list_all2_maps)
  have r: "rel_option (val_ok lab) (map_option (\<lambda>e. sexpr_cost e) rets) (map_option visit_sexpr rets)"
    using low f by (cases rets) (auto simp: visit_expressions_ok)
  have b: "list_all2 (act_ok lab) (map sp_inner (map (map_spanned statement_cost) bd))
     (map (\<lambda>s. visit_spanned s None) (map (map_spanned visit_with_statement) bd))"
    by (rule body_acts) (use low body f in auto)
  have names: "case fn_reciever f of None \<Rightarrow> True | Some a \<Rightarrow> atom_as_name (sp_inner a) \<noteq> None"
    "atom_as_name (sp_inner (fn_name f)) \<noteq> None" using low f by auto
  note ok = visit_funcdef_ok [OF d p r b names]
  show "val_ok lab (function_def_cost f) (visit_with_function_def f (Some x))"
    using ok(1) by (simp add: f del: map_map)
  show "fn_ok lab (function_def_cost f) (visit_with_function_def f None)" if "class_item_ok (StFnDef f)"
  proof -
    have "decs = []" "\<exists>y. function_def_span f = Some y" using that f by (auto simp: function_def_span_def)
    then show ?thesis using ok(2) by (auto simp: f simp del: map_map)
  qed
  show "runs (visit_with_function_def f None) fc (\<lambda>v fc'. fc_valid fc' \<and> len fc' = Suc v)"
    if "fn_decorators f \<noteq> []" "fn_body f \<noteq> []" "fc_valid fc" "len fc + function_def_cost f < INVALID_VALUE"
  proof -
    have "decs \<noteq> []" "\<exists>y. function_def_span f = Some y" using that f by (auto simp: function_def_span_def)
    then show ?thesis using ok(3) [of fc] that by (auto simp: f simp del: map_map)
  qed
qed

lemma class_def_ok:
  assumes low: "low_class_def lab c"
    and body: "\<And>s. s \<in> set (cls_body c) \<Longrightarrow> low_statement lab (sp_inner s) \<Longrightarrow> statement_ok lab (sp_inner s)"
  shows "val_ok lab (class_def_cost c) (visit_with_class_def c sp)"
proof -
  obtain name decs bd where c: "c = ClassDef name decs bd" by (cases c)
  have "class_items_ok lab (map (\<lambda>s. statement_cost (sp_inner s)) bd)
      (map (\<lambda>s. (s, visit_with_statement (sp_inner s))) bd)"
    unfolding class_items_ok_def
    by (rule list_all2_maps) (use low body c in \<open>auto simp: list_all_iff statement_ok_def\<close>)
  moreover have "zip bd (map (\<lambda>s. visit_with_statement (sp_inner s)) bd) = map (\<lambda>s. (s, visit_with_statement (sp_inner s))) bd"
    by (induction bd) auto
  ultimately show ?thesis
    using visit_classdef_ok [of lab "map (\<lambda>s. statement_cost (sp_inner s)) bd" c
        "map (\<lambda>s. visit_with_statement (sp_inner s)) bd" sp] low c by (simp add: comp_def)
qed

definition if_branch_ok :: "bool \<Rightarrow> if_branch \<Rightarrow> bool" where
  "if_branch_ok lab b \<longleftrightarrow> val_ok lab (fst (if_branch_cost b)) (fst (visit_with_if_branch b))
     \<and> list_all2 (act_ok lab) (snd (if_branch_cost b)) (snd (visit_with_if_branch b))"

lemma if_chain_runs:
  assumes low: "low_if_chain lab c"
    and br: "\<And>b. b \<in> set (if_branches c) \<Longrightarrow> low_if_branch lab (sp_inner b) \<Longrightarrow> if_branch_ok lab (sp_inner b)"
    and orelse: "\<And>b s. if_orelse c = Some b \<Longrightarrow> s \<in> set b \<Longrightarrow> low_statement lab (sp_inner s) \<Longrightarrow> statement_ok lab (sp_inner s)"
    and n: "len s + if_chain_cost c < INVALID_VALUE"
  shows "walk {} lab s s (visit_with_if_chain c sp)
    (\<lambda>v fc'. ext {} lab s fc' \<and> len fc' \<le> len s + if_chain_cost c \<and> chain_shape (length (if_branches c)) s fc')"
proof -
  obtain branches oe where c: "c = IfChain branches oe" by (cases c)
  let ?vs = "map sp_inner (map (map_spanned visit_with_if_branch) branches)"
  have ok: "\<forall>b \<in> set branches. if_branch_ok lab (sp_inner b)" using low br c by (auto simp: list_all_iff)
  have t: "list_all2 (val_ok lab) (map (fst \<circ> sp_inner) (map (map_spanned if_branch_cost) branches)) (map fst ?vs)"
    unfolding map_map by (rule list_all2_maps) (use ok in \<open>simp add: if_branch_ok_def\<close>)
  have b: "list_all2 (list_all2 (act_ok lab)) (map (snd \<circ> sp_inner) (map (map_spanned if_branch_cost) branches)) (map snd ?vs)"
    unfolding map_map by (rule list_all2_maps) (use ok in \<open>simp add: if_branch_ok_def\<close>)
  have e: "rel_option (list_all2 (act_ok lab)) (map_option (map sp_inner) (map_option (map (map_spanned statement_cost)) oe))
      (map_option (map (\<lambda>s. visit_spanned s None)) (map_option (map (map_spanned visit_with_statement)) oe))"
    using low c orelse by (cases oe) (auto intro!: body_acts simp del: map_map)
  obtain span where "if_chain_span c = Inr span" using low c by (cases branches) (auto simp: if_chain_span_def)
  moreover have "?vs \<noteq> []" "lab \<longrightarrow> length ?vs \<le> 1" using low c by simp_all
  ultimately show ?thesis using visit_ifstmt_runs [OF t b e] c n by (simp add: lift_value del: map_map)
qed

lemma if_chain_ok:
  assumes "low_if_chain lab c"
    and "\<And>b. b \<in> set (if_branches c) \<Longrightarrow> low_if_branch lab (sp_inner b) \<Longrightarrow> if_branch_ok lab (sp_inner b)"
    and "\<And>b s. if_orelse c = Some b \<Longrightarrow> s \<in> set b \<Longrightarrow> low_statement lab (sp_inner s) \<Longrightarrow> statement_ok lab (sp_inner s)"
  shows "act_ok lab (if_chain_cost c) (visit_with_if_chain c sp)"
  by (rule act_okI, rule walk_mono, rule if_chain_runs [OF assms]) auto

lemma statements_ok:
  "low_statement lab st \<Longrightarrow> statement_ok lab st"
  "low_function_def lab f \<Longrightarrow> statement_ok lab (StFnDef f)"
  "low_class_def lab c \<Longrightarrow> statement_ok lab (StClass c)"
  "low_if_branch lab b \<Longrightarrow> if_branch_ok lab b"
  "low_if_chain lab ch \<Longrightarrow> statement_ok lab (StIf ch)"
  "low_while lab w \<Longrightarrow> statement_ok lab (StWhile w)"
proof (induction st and f and c and b and ch and w rule: statement.induct function_def.induct class_def.induct
    if_branch.induct if_chain.induct while_stmt.induct)
  case (StExpr e)
  then show ?case by (intro value_statement) (auto simp: visit_expressions_ok low_expr_node)
next
  case (StRet r)
  then show ?case by (intro value_statement) (auto simp: visit_with_return_ok)
next
  case (StAsn a)
  then show ?case by (intro value_statement) (auto simp: visit_with_assign_ok)
next
  case (StAnn a)
  then obtain n where "atom_as_name (sp_inner (ann_name a)) = Some n" "low_sexpr (ann_kind a)" by auto
  from visit_annotation_ok [OF this(1) visit_sexpr_ok [OF this(2)]] show ?case by (intro value_statement) auto
next
  case (StImport i)
  then show ?case by (simp add: statement_ok_def visit_import_ok)
next
  case StPass
  show ?case using visit_pass_ok by (intro value_statement) auto
next
  case (FunctionDef recv name args body decs rets)
  let ?f = "FunctionDef recv name args body decs rets"
  have "s \<in> set (fn_body ?f) \<Longrightarrow> low_statement lab (sp_inner s) \<Longrightarrow> statement_ok lab (sp_inner s)" for s
    using FunctionDef.IH by simp
  note ok = function_def_ok [OF FunctionDef.prems this]
  have "atom_as_name (sp_inner (fn_name ?f)) \<noteq> None" using FunctionDef.prems by simp
  with ok show ?case unfolding statement_ok_def
    by (simp del: visit_with_function_def.simps function_def_cost.simps class_item_ok.simps add: val_ok_act)
next
  case (ClassDef name decs body)
  have "s \<in> set (cls_body (ClassDef name decs body)) \<Longrightarrow> low_statement lab (sp_inner s) \<Longrightarrow> statement_ok lab (sp_inner s)" for s
    using ClassDef.IH by simp
  from class_def_ok [OF ClassDef.prems this] show ?case
    by (intro value_statement) (auto simp del: visit_with_class_def.simps class_def_cost.simps)
next
  case (IfBranch t body)
  have "list_all2 (act_ok lab) (map sp_inner (map (map_spanned statement_cost) body))
     (map (\<lambda>s. visit_spanned s None) (map (map_spanned visit_with_statement) body))"
    by (rule body_acts) (use IfBranch in auto)
  with IfBranch.prems show ?case by (simp add: if_branch_ok_def visit_expressions_ok del: map_map)
next
  case (IfChain branches orelse)
  have "act_ok lab (if_chain_cost (IfChain branches orelse)) (visit_with_if_chain (IfChain branches orelse) sp)" for sp
    by (rule if_chain_ok) (use IfChain in auto)
  then show ?case by (simp add: statement_ok_def del: visit_with_if_chain.simps if_chain_cost.simps)
next
  case (While t body)
  have b: "list_all2 (act_ok lab) (map sp_inner (map (map_spanned statement_cost) body))
     (map (\<lambda>s. visit_spanned s None) (map (map_spanned visit_with_statement) body))"
    by (rule body_acts) (use While in auto)
  have "val_ok lab (sexpr_cost t) (visit_with_expr (sp_inner t) None)" using While.prems by (simp add: visit_expressions_ok)
  from visit_while_ok [OF this b] show ?case by (simp add: statement_ok_def del: map_map)
qed simp_all

section \<open>Modules\<close>

lemma visit_module_ok:
  assumes "low_module lab m"
  shows "act_ok lab (module_cost m) (visit_module m)"
proof -
  have b: "list_all2 (act_ok lab) (map (\<lambda>s. statement_cost (sp_inner s)) (module_body m)) (map visit_sstmt (module_body m))"
    using assms by (auto simp: low_module_def list_all_iff statement_ok_def simp del: split_paired_All
        dest!: statements_ok(1) intro!: list_all2_maps)
  show ?thesis unfolding visit_module_def
    by (rule act_okI, rule lseq_acts_then [OF _ b], rule walk_lret) (auto simp: module_cost_def)
qed

text \<open>What well-formed code is: the property of lowering that the passes below it rely on.\<close>

definition code_ok :: "bool \<Rightarrow> flat_code \<Rightarrow> bool" where
  "code_ok lab fc \<longleftrightarrow> fc_index fc = 0 \<and> fc_sequences fc \<noteq> [] \<and> fs_kind (fc_sequences fc ! 0) = SeqModule
     \<and> (\<forall>seq \<in> set (fc_sequences fc). seq_ok lab seq \<and> (\<forall>x \<in> set (fs_inst seq). refs_ok (fc_sequences fc) (fi_op x)))"

lemma ext_code_ok:
  assumes e: "ext {} lab s fc" and s: "length (fc_sequences s) = 1" "fc_index s = 0" "current_insts s = []"
    "fs_kind (fc_sequences s ! 0) = SeqModule"
  shows "code_ok lab fc"
proof -
  have f: "fc_index fc = 0" "1 \<le> length (fc_sequences fc)" "fs_kind (fc_sequences fc ! 0) = SeqModule"
    using ext_frame [OF e] s by (auto simp: same_frame_def)
  have "seq_ok lab (fc_sequences fc ! i) \<and> (\<forall>x \<in> set (fs_inst (fc_sequences fc ! i)). refs_ok (fc_sequences fc) (fi_op x))"
    if "i < length (fc_sequences fc)" for i
  proof (cases "i = 0")
    case True
    then show ?thesis using ext_seq_ok [OF e s(3)] f by simp
  next
    case False
    then have "length (fc_sequences s) \<le> i \<and> i < length (fc_sequences fc)" using that s by simp
    then show ?thesis using e unfolding ext_def new_seqs_ok_def by blast
  qed
  then have "\<forall>seq \<in> set (fc_sequences fc). seq_ok lab seq \<and> (\<forall>x \<in> set (fs_inst seq). refs_ok (fc_sequences fc) (fi_op x))"
    by (metis in_set_conv_nth)
  then show ?thesis using f unfolding code_ok_def by auto
qed

text \<open>
  C1. Lowering is total and its code is well formed. A module of the shape the lowering is meant
  for, of a size that instruction indices can count, is lowered without a panic. In every
  sequence of the resulting code the instruction at position \<open>j\<close> carries the value number \<open>j\<close> and
  uses results of earlier instructions only, every jump stays inside its sequence (and, without
  \<open>elif\<close>, goes to a jump target), every function definition refers to a function sequence and
  every class to a class sequence; the module sequence has at most \<open>module_cost m\<close> instructions.
\<close>

theorem lowering_well_formed:
  assumes "low_module lab m" and "module_cost m < INVALID_VALUE"
  shows "\<exists>fc. ast_to_flatcode mref m = Inr fc \<and> code_ok lab fc \<and> fc_mref fc = mref
     \<and> length (fs_inst (fc_sequences fc ! 0)) \<le> module_cost m"
proof -
  let ?s = "flatcode_new (mref, case module_span m of None \<Rightarrow> (0, 0) | Some s \<Rightarrow> s)"
  have s: "fc_valid ?s" "current_insts ?s = []" "length (fc_sequences ?s) = 1" "fc_index ?s = 0"
    "fs_kind (fc_sequences ?s ! 0) = SeqModule" "fc_mref ?s = mref"
    by (simp_all add: flatcode_new_def fc_valid_def current_insts_def)
  have "runs (visit_module m) ?s (\<lambda>_ fc'. ext {} lab ?s fc' \<and> len fc' \<le> len ?s + module_cost m)"
    using visit_module_ok [OF assms(1), unfolded act_ok_def, rule_format, OF s(1)] s(2) assms(2) by simp
  then obtain v fc where v: "visit_module m ?s = Inr (v, fc)" and e: "ext {} lab ?s fc" and l: "len fc \<le> module_cost m"
    using s(2) unfolding runs_def by auto
  have "code_ok lab fc" by (rule ext_code_ok [OF e]) (use s in simp_all)
  moreover have "fc_mref fc = mref" "fc_index fc = 0" using ext_frame [OF e] s by (simp_all add: same_frame_def)
  moreover have "len fc = length (fs_inst (fc_sequences fc ! 0))"
    using current_insts_valid [OF ext_valid [OF e]] \<open>fc_index fc = 0\<close> by simp
  ultimately show ?thesis using v l by (simp add: ast_to_flatcode_def)
qed


text \<open>A module with one statement of every kind, used as the concrete instance of the theorems here.\<close>

definition sp1 :: "'a \<Rightarrow> 'a spanned" where
  "sp1 x = Spanned (0, 1) x"

definition ref1 :: "nat \<Rightarrow> span_ref" where
  "ref1 k = SpanRef (of_nat k) (of_nat k)"

definition name1 :: "nat \<Rightarrow> expr" where
  "name1 k = ExprPrimary (sp1 (Atomic (sp1 (AtName (ref1 k)))))"

definition if_else1 :: statement where
  "if_else1 = StIf (IfChain [sp1 (IfBranch (sp1 (name1 1)) [sp1 StPass])] (Some [sp1 (StExpr (name1 2))]))"

definition method1 :: "primary spanned list \<Rightarrow> function_def" where
  "method1 decs = FunctionDef None (sp1 (AtName (ref1 4))) (Some [(ref1 5, Some (sp1 (name1 6)))])
     [sp1 (StRet (Return (Inr (sp1 (name1 5)))))] decs None"

definition class1 :: "statement list \<Rightarrow> statement" where
  "class1 body = StClass (ClassDef (sp1 (AtName (ref1 3))) [] (map sp1 body))"

definition module1 :: module where
  "module1 = Module
     [sp1 (StImport (ImportNames [sp1 (Atomic (sp1 (AtName (ref1 7))))])),
      sp1 (StAsn (Assign (sp1 (Atomic (sp1 (AtName (ref1 1)))))
        (sp1 (ExprIf (sp1 (name1 7)) (sp1 (BinOp (sp1 (name1 7)) Add (sp1 (name1 7)))) (sp1 (name1 7)))) None)),
      sp1 if_else1,
      sp1 (StWhile (While (sp1 (name1 1)) [sp1 (StExpr (name1 2))])),
      sp1 (class1 [StFnDef (method1 []), StAsn (Assign (sp1 (Atomic (sp1 (AtName (ref1 1))))) (sp1 (name1 2)) None)])]"

lemmas module1_defs = module1_def class1_def method1_def if_else1_def name1_def ref1_def sp1_def

theorem lowering_well_formed_witness:
  "low_module True module1 \<and> module_cost module1 < INVALID_VALUE \<and>
     (\<exists>fc. ast_to_flatcode (ModuleRef 0) module1 = Inr fc \<and> code_ok True fc \<and> fc_mref fc = ModuleRef 0
       \<and> length (fs_inst (fc_sequences fc ! 0)) \<le> module_cost module1)"
proof -
  have "low_module True module1" by (simp add: module1_defs low_module_def)
  moreover have "module_cost module1 < INVALID_VALUE"
    by (simp add: module1_defs module_cost_def INVALID_VALUE_def chain_cost_def orelse_cost_def fn_cost_def param_cost_def)
  ultimately show ?thesis using lowering_well_formed [of True module1 "ModuleRef 0"] by blast
qed



section \<open>Statements a class body cannot hold\<close>

text \<open>\<open>yields x m\<close>: whenever the action returns, it returns \<open>x\<close>.\<close>

definition yields :: "'a \<Rightarrow> 'a lower \<Rightarrow> bool" where
  "yields x m \<longleftrightarrow> (\<forall>fc v fc'. m fc = Inr (v, fc') \<longrightarrow> v = x)"

lemma yields_lbind: "(\<And>v. yields x (f v)) \<Longrightarrow> yields x (lbind m f)"
  by (auto simp: yields_def lbind_def rust_simps)

lemma yields_lret: "yields x (lret x)"
  by (simp add: yields_def lret_def)

fun is_control :: "statement \<Rightarrow> bool" where
  "is_control (StIf _) = True"
| "is_control (StWhile _) = True"
| "is_control (StImport _) = True"
| "is_control _ = False"

lemma control_yields:
  assumes "is_control st"
  shows "yields INVALID_VALUE (visit_with_statement st sp)"
proof (cases st)
  case (StIf c)
  then show ?thesis by (cases c) (auto simp: visit_ifstmt_def intro!: yields_lbind yields_lret)
next
  case (StWhile w)
  then show ?thesis by (cases w) (auto simp: visit_while_def intro!: yields_lbind yields_lret)
next
  case (StImport i)
  then show ?thesis by (cases i) (auto intro!: yields_lbind yields_lret)
qed (use assms in auto)

text \<open>
  An \<open>if\<close>, a loop or an import in a class body makes the lowering panic: these statements
  have no value, their visit returns the invalid value number, and the class body indexes its
  instructions with it to attach a span.
\<close>

theorem class_body_control_panics:
  assumes "low_statement lab st" and "is_control st" and "fc_valid fc" and "len fc + statement_cost st < INVALID_VALUE"
  shows "class_item (Spanned sp st) (visit_with_statement st) fc = Inl IndexOutOfBounds"
proof -
  have "act_ok lab (statement_cost st) (visit_with_statement st (Some sp))"
    using statements_ok(1) [OF assms(1)] unfolding statement_ok_def by blast
  then obtain v fc' where r: "visit_with_statement st (Some sp) fc = Inr (v, fc')" "len fc' \<le> len fc + statement_cost st"
    using assms(3,4) unfolding act_ok_def runs_def by blast
  then have v: "v = INVALID_VALUE" using control_yields [OF assms(2)] unfolding yields_def by blast
  have "class_item (Spanned sp st) (visit_with_statement st) =
      lbind (visit_with_statement st (Some sp)) (\<lambda>val. set_span_for_values [val] sp)"
    using assms(2) by (cases st) (simp_all add: class_item_def lift_value)
  then show ?thesis using r v assms(4) by (simp add: lbind_def patch_def)
qed

theorem class_body_control_panics_witness:
  "class_item (Spanned (0, 1) if_else1) (visit_with_statement if_else1) (flatcode_new (ModuleRef 0, (0, 1))) = Inl IndexOutOfBounds"
proof (rule class_body_control_panics [where lab = True])
  show "low_statement True if_else1" by (simp add: if_else1_def name1_def sp1_def)
  show "is_control if_else1" by (simp add: if_else1_def)
  show "fc_valid (flatcode_new (ModuleRef 0, (0, 1)))" by (simp add: flatcode_new_def fc_valid_def)
  show "len (flatcode_new (ModuleRef 0, (0, 1))) + statement_cost if_else1 < INVALID_VALUE"
    by (simp add: if_else1_def name1_def sp1_def chain_cost_def orelse_cost_def INVALID_VALUE_def flatcode_new_def current_insts_def)
qed

text \<open>
  A decorated method loses its value: the class body overwrites the instruction that computes
  the decorated function with an assignment of that same instruction's result, so the last
  instruction of the class body reads its own value number.
\<close>

lemma decorated_method_self_reference:
  assumes "low_function_def lab f" and "fn_decorators f \<noteq> []" and "fn_body f \<noteq> []"
    and "fc_valid fc" and "len fc + function_def_cost f < INVALID_VALUE"
  shows "\<exists>fc' nm. class_item (Spanned sp (StFnDef f)) (visit_with_statement (StFnDef f)) fc = Inr ((), fc')
    \<and> op_at fc' (len fc' - 1) = SetVar nm (len fc' - 1) \<and> 0 < len fc'"
proof -
  obtain nm where nm: "atom_as_name (sp_inner (fn_name f)) = Some nm" using assms(1) by (cases f) auto
  have "s \<in> set (fn_body f) \<Longrightarrow> low_statement lab (sp_inner s) \<Longrightarrow> statement_ok lab (sp_inner s)" for s
    by (rule statements_ok)
  from function_def_ok(3) [OF assms(1) this assms(2-5)] obtain v fc1 where
    1: "visit_with_function_def f None fc = Inr (v, fc1)" "fc_valid fc1" "len fc1 = Suc v"
    unfolding runs_def by blast
  obtain fc2 where 2: "patch v (set_op (SetVar nm v)) fc1 = Inr ((), fc2)" "fc_valid fc2" "len fc2 = len fc1"
    "\<forall>j. op_at fc2 j = (if j = v then SetVar nm v else op_at fc1 j)"
    using patch_exact [OF 1(2), of v "set_op (SetVar nm v)" "SetVar nm v"] 1(3) by auto
  obtain fc3 where 3: "set_span_for_values [v] sp fc2 = Inr ((), fc3)" "len fc3 = len fc2" "op_at fc3 v = op_at fc2 v"
    using 1 2 by (simp add: lbind_def lret_def patch_def put_span_def op_at_def)
  have ne: "current_insts fc1 \<noteq> []" using 1(3) by auto
  have "class_item (Spanned sp (StFnDef f)) (visit_with_statement (StFnDef f)) fc =
      lbind (patch (len fc1 - 1) (set_op (SetVar nm v))) (\<lambda>_. lbind (set_span_for_values [v] sp) lret) fc1"
    unfolding class_item_unfold(1) [of "Spanned sp (StFnDef f)" f, simplified]
    by (subst lbind_def) (simp only: visit_with_statement.simps 1(1) and_then_simps prod.case set_last_var [OF ne nm] spanned.sel, simp)
  also have "\<dots> = Inr ((), fc3)" using 1(3) 2(1) 3(1) by (simp add: lbind_def)
  finally show ?thesis using 1 2 3 by (intro exI [where x = fc3] exI [where x = nm]) simp
qed

lemma decorated_method_self_reference_witness:
  "\<exists>fc' nm. class_item (Spanned (0, 1) (StFnDef (method1 [sp1 (Atomic (sp1 (AtName (ref1 8))))])))
      (visit_with_statement (StFnDef (method1 [sp1 (Atomic (sp1 (AtName (ref1 8))))])))
      (flatcode_new (ModuleRef 0, (0, 1))) = Inr ((), fc')
    \<and> op_at fc' (len fc' - 1) = SetVar nm (len fc' - 1) \<and> 0 < len fc'"
proof (rule decorated_method_self_reference [where lab = True])
  show "low_function_def True (method1 [sp1 (Atomic (sp1 (AtName (ref1 8))))])" by (simp add: module1_defs)
  show "fc_valid (flatcode_new (ModuleRef 0, (0, 1)))" by (simp add: flatcode_new_def fc_valid_def)
  show "len (flatcode_new (ModuleRef 0, (0, 1))) + function_def_cost (method1 [sp1 (Atomic (sp1 (AtName (ref1 8))))]) < INVALID_VALUE"
    by (simp add: module1_defs fn_cost_def param_cost_def INVALID_VALUE_def flatcode_new_def current_insts_def)
qed (simp_all add: method1_def)

end
