(* ===== verification/Typing.thy ===== *)
theory Typing
  imports SSAMap Core
begin

text \<open>
  Types and the type registry: \<^verbatim>\<open>montyc_core/src/typing.rs\<close> and \<open>TypingData\<close> of
  \<^verbatim>\<open>montyc_driver/src/global_context/mod.rs\<close>, the one implementation of the trait
  \<open>TypingContext\<close>. A type identifier is the slot of the type in the registry, never 0. The
  provided methods of the trait are defined on the registry, and a method that registers types
  returns the new registry. Trace output is left out.

  A hash map equals another when they have the same number of entries and every entry of the
  first is in the second (\<open>props_eq\<close>), so two types are equal (\<open>ty_eq\<close>) whatever the order in
  which their properties were added.
\<close>

section \<open>Types\<close>

type_synonym type_id = nat

definition type_id_is_builtin :: "type_id \<Rightarrow> bool" where
  "type_id_is_builtin t = (t \<le> 255)"

text \<open>\<open>From<usize> for TypeId\<close>: the unwrap of \<open>NonZeroU64::new\<close>.\<close>

definition type_id_of_usize :: "nat \<Rightarrow> type_id option" where
  "type_id_of_usize n = (if n = 0 then None else Some n)"

datatype builtin_type =
    BInt | BFloat | BStr | BBool | BNone | BEllipsis | BModule | BUnknown | BType | BObject | BTSelf
  | BUntypedFunc | BUntypedTuple | BAnyType | BBytes
  | BU8 | BU16 | BU32 | BU64 | BI8 | BI16 | BI32 | BI64
  | BNever

fun builtin_tag :: "builtin_type \<Rightarrow> nat" where
  "builtin_tag BInt = 1" | "builtin_tag BFloat = 2" | "builtin_tag BStr = 3" | "builtin_tag BBool = 4"
| "builtin_tag BNone = 5" | "builtin_tag BEllipsis = 6" | "builtin_tag BModule = 7" | "builtin_tag BUnknown = 8"
| "builtin_tag BType = 9" | "builtin_tag BObject = 10" | "builtin_tag BTSelf = 11" | "builtin_tag BUntypedFunc = 12"
| "builtin_tag BUntypedTuple = 13" | "builtin_tag BAnyType = 14" | "builtin_tag BBytes = 15"
| "builtin_tag BU8 = 100" | "builtin_tag BU16 = 101" | "builtin_tag BU32 = 102" | "builtin_tag BU64 = 103"
| "builtin_tag BI8 = 104" | "builtin_tag BI16 = 105" | "builtin_tag BI32 = 106" | "builtin_tag BI64 = 107"
| "builtin_tag BNever = 255"

definition builtins :: "builtin_type list" where
  "builtins =
     [BInt, BFloat, BStr, BBool, BNone, BEllipsis, BModule, BUnknown, BType, BObject, BTSelf, BUntypedFunc,
      BUntypedTuple, BAnyType, BBytes, BU8, BU16, BU32, BU64, BI8, BI16, BI32, BI64, BNever]"

fun size_in_bytes :: "builtin_type \<Rightarrow> nat" where
  "size_in_bytes BEllipsis = 0" | "size_in_bytes BUnknown = 0" | "size_in_bytes BNever = 0"
| "size_in_bytes BU8 = 1" | "size_in_bytes BU16 = 2" | "size_in_bytes BU32 = 4" | "size_in_bytes BU64 = 8"
| "size_in_bytes BI8 = 1" | "size_in_bytes BI16 = 2" | "size_in_bytes BI32 = 4" | "size_in_bytes BI64 = 8"
| "size_in_bytes _ = 8"

fun builtin_name :: "builtin_type \<Rightarrow> string" where
  "builtin_name BInt = ''int''" | "builtin_name BFloat = ''float''" | "builtin_name BStr = ''str''"
| "builtin_name BBool = ''bool''" | "builtin_name BNone = ''NoneType''" | "builtin_name BEllipsis = ''ellipsis''"
| "builtin_name BModule = ''module''" | "builtin_name BUnknown = ''unknown''" | "builtin_name BType = ''type''"
| "builtin_name BObject = ''object''" | "builtin_name BTSelf = ''self''" | "builtin_name BUntypedFunc = ''function''"
| "builtin_name BUntypedTuple = ''tuple''" | "builtin_name BAnyType = ''Any''" | "builtin_name BBytes = ''bytes''"
| "builtin_name BU8 = ''u8''" | "builtin_name BU16 = ''u16''" | "builtin_name BU32 = ''u32''" | "builtin_name BU64 = ''u64''"
| "builtin_name BI8 = ''i8''" | "builtin_name BI16 = ''i16''" | "builtin_name BI32 = ''i32''" | "builtin_name BI64 = ''i64''"
| "builtin_name BNever = ''never''"

text \<open>\<open>Display for BuiltinType\<close>: the name in braces.\<close>

definition builtin_display :: "builtin_type \<Rightarrow> string" where
  "builtin_display b = ''{'' @ builtin_name b @ ''}''"

datatype python_type =
    PyNoReturn
  | PyAny
  | PyTuple "type_id list option"
  | PyList type_id
  | PyUnion "type_id list option"
  | PyType type_id
  | PyClass u64 "type_id list option"
  | PyInstance value_id
  | PyTypeVar span_ref
  | PyCallable "type_id list option" type_id
  | PyGeneric "type_id list option"
  | PyBuiltin builtin_type

datatype property_value = PropId value_id | PropBuiltin type_id string

record property =
  prop_type_id :: type_id
  prop_value :: property_value

record ty =
  ty_kind :: python_type
  ty_properties :: "(string \<times> property) list"

definition ty_of_kind :: "python_type \<Rightarrow> ty" where
  "ty_of_kind k = \<lparr>ty_kind = k, ty_properties = []\<rparr>"

definition ty_new_class :: "u64 \<Rightarrow> type_id list option \<Rightarrow> ty" where
  "ty_new_class object_id members = \<lparr>ty_kind = PyClass object_id members, ty_properties = []\<rparr>"

text \<open>\<open>PartialEq\<close> for hash maps and the derived \<open>PartialEq\<close> for \<open>Type\<close>.\<close>

definition props_eq :: "(string \<times> property) list \<Rightarrow> (string \<times> property) list \<Rightarrow> bool" where
  "props_eq a b \<longleftrightarrow> length a = length b \<and> list_all (\<lambda>(k, v). map_of b k = Some v) a"

definition ty_eq :: "ty \<Rightarrow> ty \<Rightarrow> bool" where
  "ty_eq a b \<longleftrightarrow> ty_kind a = ty_kind b \<and> props_eq (ty_properties a) (ty_properties b)"

section \<open>The registry\<close>

text \<open>The map \<open>clobber\<close> from types to identifiers.\<close>

fun clobber_get :: "ty \<Rightarrow> (ty \<times> type_id) list \<Rightarrow> type_id option" where
  "clobber_get t [] = None"
| "clobber_get t ((t', tid) # c) = (if ty_eq t t' then Some tid else clobber_get t c)"

fun clobber_put :: "ty \<Rightarrow> type_id \<Rightarrow> (ty \<times> type_id) list \<Rightarrow> (ty \<times> type_id) list" where
  "clobber_put t tid [] = [(t, tid)]"
| "clobber_put t tid ((t', tid') # c) =
     (if ty_eq t t' then (t', tid) # c else (t', tid') # clobber_put t tid c)"

record typing_data =
  td_inner :: "ty ssamap"
  td_clobber :: "(ty \<times> type_id) list"

text \<open>One builtin of \<open>write_ssa\<close>.\<close>

definition write_builtin :: "builtin_type \<Rightarrow> ty ssamap \<Rightarrow> ty ssamap rust" where
  "write_builtin b m =
     (case ssa_skip_to_nth (builtin_tag b) m of
        Inl _ \<Rightarrow> Inl UnwrapNone
      | Inr m' \<Rightarrow>
          and_then (ssa_insert Some (ty_of_kind (PyBuiltin b)) m') (\<lambda>(bltn, m'').
          and_then (assert_that (bltn = builtin_tag b)) (\<lambda>_. Inr m'')))"

fun write_builtins :: "builtin_type list \<Rightarrow> ty ssamap \<Rightarrow> ty ssamap rust" where
  "write_builtins [] m = Inr m"
| "write_builtins (b # bs) m = and_then (write_builtin b m) (write_builtins bs)"

definition write_ssa :: "ty ssamap \<Rightarrow> ty ssamap rust" where
  "write_ssa m =
     and_then (assert_that (ssa_is_empty m)) (\<lambda>_.
     and_then (write_builtins builtins m) (\<lambda>m'.
     (case ssa_skip_to_nth 256 m' of Inl _ \<Rightarrow> Inl UnwrapNone | Inr m'' \<Rightarrow> Inr m'')))"

fun clobber_all :: "(nat \<times> ty) list \<Rightarrow> (ty \<times> type_id) list \<Rightarrow> (ty \<times> type_id) list rust" where
  "clobber_all [] c = Inr c"
| "clobber_all ((tid, t) # ts) c = and_then (unwrap (type_id_of_usize tid)) (\<lambda>i. clobber_all ts (clobber_put t i c))"

definition td_initialized :: "typing_data rust" where
  "td_initialized =
     and_then (write_ssa ssa_new) (\<lambda>inner.
     and_then (clobber_all (ssa_iter inner) []) (\<lambda>clobber.
     Inr \<lparr>td_inner = inner, td_clobber = clobber\<rparr>))"

text \<open>\<open>localize\<close>, \<open>get_type_repr\<close>: the pair of \<open>LocalTypeId\<close> is the identifier and the type.\<close>

definition td_get_type_repr :: "typing_data \<Rightarrow> type_id \<Rightarrow> ty option" where
  "td_get_type_repr td tid = ssa_get (td_inner td) tid"

definition td_localize :: "typing_data \<Rightarrow> type_id \<Rightarrow> (type_id \<times> ty) option" where
  "td_localize td tid = map_option (\<lambda>t. (tid, t)) (ssa_get (td_inner td) tid)"

definition td_get_python_type_of :: "typing_data \<Rightarrow> type_id \<Rightarrow> python_type option" where
  "td_get_python_type_of td tid = map_option ty_kind (ssa_get (td_inner td) tid)"

text \<open>The reference is used through \<open>f\<close>; an identifier that is not in the registry panics.\<close>

definition td_get_type_repr_mut :: "type_id \<Rightarrow> (ty \<Rightarrow> ty) \<Rightarrow> typing_data \<Rightarrow> typing_data rust" where
  "td_get_type_repr_mut tid f td =
     and_then (unwrap (ssa_get_mut tid f (td_inner td))) (\<lambda>inner. Inr (td\<lparr>td_inner := inner\<rparr>))"

definition td_insert :: "ty \<Rightarrow> typing_data \<Rightarrow> (type_id \<times> typing_data) rust" where
  "td_insert t td =
     (case clobber_get t (td_clobber td) of
        Some tid \<Rightarrow> Inr (tid, td)
      | None \<Rightarrow>
          and_then (ssa_insert type_id_of_usize t (td_inner td)) (\<lambda>(tid, inner).
          Inr (tid, \<lparr>td_inner = inner, td_clobber = clobber_put t tid (td_clobber td)\<rparr>)))"

definition td_insert_property :: "type_id \<Rightarrow> string \<Rightarrow> property \<Rightarrow> typing_data \<Rightarrow> property option \<times> typing_data" where
  "td_insert_property base name p td =
     (case ssa_get (td_inner td) base of
        None \<Rightarrow> (None, td)
      | Some t \<Rightarrow>
          (let t' = t\<lparr>ty_properties := assoc_put name p (ty_properties t)\<rparr> in
           (map_of (ty_properties t) name,
            \<lparr>td_inner = (td_inner td)\<lparr>ssa_inner := (ssa_inner (td_inner td))[base := Some t']\<rparr>,
             td_clobber = clobber_put t' base (td_clobber td)\<rparr>)))"

text \<open>\<open>LocalTypeId::get_property\<close>, \<open>LazyPropertyAccess::get\<close> and the provided method on top of them.\<close>

definition local_get_property :: "type_id \<times> ty \<Rightarrow> string \<Rightarrow> (type_id \<times> string) + property" where
  "local_get_property loc name =
     (case map_of (ty_properties (snd loc)) name of None \<Rightarrow> Inl (fst loc, name) | Some p \<Rightarrow> Inr p)"

definition lazy_property_get :: "type_id \<times> string \<Rightarrow> typing_data \<Rightarrow> (property option \<times> typing_data) rust" where
  "lazy_property_get access td =
     and_then (td_insert (ty_of_kind (PyType (fst access))) td) (\<lambda>(klass_t, td').
     Inr (Option.bind (td_get_type_repr td' klass_t) (\<lambda>t. map_of (ty_properties t) (snd access)), td'))"

definition td_get_property :: "type_id \<Rightarrow> string \<Rightarrow> typing_data \<Rightarrow> (property option \<times> typing_data) rust" where
  "td_get_property base_t name td =
     and_then (unwrap (td_localize td base_t)) (\<lambda>loc.
     (case local_get_property loc name of
        Inr p \<Rightarrow> Inr (Some p, td)
      | Inl klass \<Rightarrow> lazy_property_get klass td))"

definition is_integer :: "type_id \<Rightarrow> bool" where
  "is_integer t = list_ex (\<lambda>b. builtin_tag b = t) [BInt, BI16, BI32, BI64, BI8, BU16, BU32, BU64, BU8]"

section \<open>Building types\<close>

definition td_callable :: "type_id list option \<Rightarrow> type_id \<Rightarrow> typing_data \<Rightarrow> (type_id \<times> typing_data) rust" where
  "td_callable args ret td = td_insert (ty_of_kind (PyCallable args ret)) td"

definition td_list :: "type_id \<Rightarrow> typing_data \<Rightarrow> (type_id \<times> typing_data) rust" where
  "td_list inner td = td_insert (ty_of_kind (PyList inner)) td"

text \<open>The type of an element of a tuple; the members are sorted and deduplicated first.\<close>

definition members_as_union :: "type_id list option \<Rightarrow> typing_data \<Rightarrow> (type_id \<times> typing_data) rust" where
  "members_as_union members td =
     (case map_option (\<lambda>elems. remdups_adj (sort elems)) members of
        Some [t] \<Rightarrow> Inr (t, td)
      | Some ts \<Rightarrow> td_insert (ty_of_kind (PyUnion (Some ts))) td
      | None \<Rightarrow> Inr (builtin_tag BNever, td))"

definition td_tuple :: "type_id list \<Rightarrow> typing_data \<Rightarrow> (type_id \<times> typing_data) rust" where
  "td_tuple elements td =
     (let members = (if elements = [] then None else Some elements) in
      and_then (td_insert (ty_of_kind (PyTuple members)) td) (\<lambda>(tuple_type_id, td).
      and_then (members_as_union members td) (\<lambda>(u, td).
      and_then (td_callable (Some [tuple_type_id, builtin_tag BInt]) u td) (\<lambda>(get_t, td).
      (let td = snd (td_insert_property tuple_type_id ''__getitem__''
                  \<lparr>prop_type_id = get_t, prop_value = PropBuiltin tuple_type_id ''__getitem__''\<rparr> td) in
       and_then (td_callable (Some [tuple_type_id, builtin_tag BInt, if members = None then builtin_tag BAnyType else u])
                  (builtin_tag BNone) td) (\<lambda>(set_t, td).
       Inr (tuple_type_id, snd (td_insert_property tuple_type_id ''__setitem__''
              \<lparr>prop_type_id = set_t, prop_value = PropBuiltin tuple_type_id ''__setitem__''\<rparr> td))))))))"

definition is_tuple :: "typing_data \<Rightarrow> type_id \<Rightarrow> bool" where
  "is_tuple td t \<longleftrightarrow> t = builtin_tag BUntypedTuple \<or>
     (case td_get_python_type_of td t of Some (PyTuple _) \<Rightarrow> True | _ \<Rightarrow> False)"

text \<open>
  The members of a union are collected in a hash set, which is then turned into a vector; the
  order in which the set hands out its elements is the argument \<open>order\<close>. The inner sum is the
  function's own \<open>Result<TypeId, TypeId>\<close>.
\<close>

definition union_members :: "type_id \<times> ty \<Rightarrow> type_id list" where
  "union_members x = (case ty_kind (snd x) of PyUnion (Some rest) \<Rightarrow> rest | PyUnion None \<Rightarrow> [] | _ \<Rightarrow> [fst x])"

definition td_make_union ::
  "(type_id list \<Rightarrow> type_id list) \<Rightarrow> type_id \<Rightarrow> type_id \<Rightarrow> typing_data \<Rightarrow> (type_id + type_id \<times> typing_data) rust" where
  "td_make_union order left right td =
     (case (td_get_type_repr td left, td_get_type_repr td right) of
        (None, _) \<Rightarrow> Inr (Inl left)
      | (Some _, None) \<Rightarrow> Inr (Inl right)
      | (Some l, Some r) \<Rightarrow>
          (let members = order (remdups (union_members (left, l) @ union_members (right, r))) in
           and_then (td_insert (ty_of_kind (PyUnion (if members = [] then None else Some members))) td) (\<lambda>res.
           Inr (Inr res))))"

section \<open>Unification of calls\<close>

datatype unify_failure =
    NotCallableFailure
  | UnequalArity nat nat
  | BadArgumentTypes "(nat \<times> type_id \<times> type_id) list"

text \<open>The loop over the pairs of parameter and argument.\<close>

fun arg_mismatches :: "nat \<Rightarrow> type_id list \<Rightarrow> type_id list \<Rightarrow> (nat \<times> type_id \<times> type_id) list" where
  "arg_mismatches ix (l # params) (r # args) =
     (if l \<noteq> builtin_tag BUnknown \<and> l \<noteq> r then [(ix, l, r)] else []) @ arg_mismatches (Suc ix) params args"
| "arg_mismatches ix _ _ = []"

fun drop_self :: "type_id list \<Rightarrow> type_id list \<Rightarrow> type_id list \<times> type_id list" where
  "drop_self (p # params) (a # args) = (if p = builtin_tag BTSelf then (params, args) else (p # params, a # args))"
| "drop_self params args = (params, args)"

definition td_unify_func :: "typing_data \<Rightarrow> type_id \<Rightarrow> type_id list \<Rightarrow> type_id \<Rightarrow> (unify_failure + python_type) rust" where
  "td_unify_func td func_t args ret =
     and_then (unwrap (td_get_type_repr td func_t)) (\<lambda>t.
     (case ty_kind t of
        PyCallable ps f_ret \<Rightarrow>
          (let params = (case ps of None \<Rightarrow> [] | Some ps \<Rightarrow> ps) in
           if length params \<noteq> length args \<or> (ret \<noteq> builtin_tag BUnknown \<and> f_ret \<noteq> ret)
           then Inr (Inl (UnequalArity (length params) (length args)))
           else
             (case drop_self params args of (params', args') \<Rightarrow>
                (case arg_mismatches 0 params' args' of
                   [] \<Rightarrow> Inr (Inr (ty_kind t))
                 | errors \<Rightarrow> Inr (Inl (BadArgumentTypes errors)))))
      | _ \<Rightarrow> Inr (Inl NotCallableFailure)))"

section \<open>Layouts\<close>

text \<open>\<open>std::alloc::Layout\<close> and the parts of its interface the code uses.\<close>

record layout =
  l_size :: nat
  l_align :: nat

definition round_up :: "nat \<Rightarrow> nat \<Rightarrow> nat" where
  "round_up n a = (n + a - 1) div a * a"

definition isize_max :: nat where
  "isize_max = 2 ^ 63 - 1"

definition layout_ok :: "layout \<Rightarrow> bool" where
  "layout_ok l \<longleftrightarrow> round_up (l_size l) (l_align l) \<le> isize_max"

text \<open>\<open>Layout::extend\<close>: the combined layout and the offset of the second.\<close>

definition layout_extend :: "layout \<Rightarrow> layout \<Rightarrow> (layout \<times> nat) option" where
  "layout_extend l new_l =
     (let offset = round_up (l_size l) (l_align new_l);
          l' = \<lparr>l_size = offset + l_size new_l, l_align = max (l_align l) (l_align new_l)\<rparr>
      in if layout_ok l' then Some (l', offset) else None)"

definition pad_to_align :: "layout \<Rightarrow> layout" where
  "pad_to_align l = \<lparr>l_size = round_up (l_size l) (l_align l), l_align = l_align l\<rparr>"

definition I64_LAYOUT :: layout where
  "I64_LAYOUT = \<lparr>l_size = 8, l_align = 8\<rparr>"

definition layout_bytes :: "nat \<Rightarrow> layout" where
  "layout_bytes n = \<lparr>l_size = n, l_align = 1\<rparr>"

fun layout_fields :: "layout list \<Rightarrow> layout \<Rightarrow> nat list \<Rightarrow> (layout \<times> nat list) rust" where
  "layout_fields [] l offsets = Inr (l, offsets)"
| "layout_fields (new_l # fs) l offsets =
     and_then (unwrap (layout_extend l new_l)) (\<lambda>(l', offset).
     if offset < 2 ^ 31 then layout_fields fs l' (offsets @ [offset]) else Inl UnwrapNone)"

definition calculate_layout :: "layout list \<Rightarrow> (layout \<times> nat list) rust" where
  "calculate_layout fs =
     and_then (layout_fields fs \<lparr>l_size = 0, l_align = 1\<rparr> []) (\<lambda>(l, offsets).
     (let l' = pad_to_align l in
      and_then (assert_that (l_size l' \<noteq> 0)) (\<lambda>_. Inr (l', offsets))))"

text \<open>\<open>Iterator::max_by\<close> on the sizes: the last of the largest.\<close>

fun max_by_size :: "layout list \<Rightarrow> layout option" where
  "max_by_size [] = None"
| "max_by_size (l # ls) =
     Some (foldl (\<lambda>best x. if l_size x < l_size best then best else x) l ls)"

text \<open>
  A type that contains itself sends the code into unbounded recursion; \<open>fuel\<close> bounds the depth
  and \<open>None\<close> stands for exceeding it.
\<close>

fun collect_layouts :: "layout rust option list \<Rightarrow> layout list rust option" where
  "collect_layouts [] = Some (Inr [])"
| "collect_layouts (None # ls) = None"
| "collect_layouts (Some (Inl p) # ls) = Some (Inl p)"
| "collect_layouts (Some (Inr l) # ls) =
     map_option (\<lambda>r. and_then r (\<lambda>rest. Inr (l # rest))) (collect_layouts ls)"

fun layout_of :: "nat \<Rightarrow> typing_data \<Rightarrow> type_id \<Rightarrow> layout rust option" where
  "layout_of 0 td tid = None"
| "layout_of (Suc fuel) td tid =
     (case td_get_python_type_of td tid of
        None \<Rightarrow> Some (Inl UnwrapNone)
      | Some k \<Rightarrow>
          (let of_members = (\<lambda>members.
             map_option (\<lambda>r. and_then r (\<lambda>ls. unwrap (max_by_size ls)))
               (collect_layouts (map (layout_of fuel td) (case members of None \<Rightarrow> [] | Some ms \<Rightarrow> ms))))
           in
          (case k of
             PyAny \<Rightarrow> Some (Inr I64_LAYOUT)
           | PyClass _ members \<Rightarrow> of_members members
           | PyTuple members \<Rightarrow> of_members members
           | PyUnion members \<Rightarrow> of_members members
           | PyCallable _ _ \<Rightarrow> Some (Inr I64_LAYOUT)
           | PyBuiltin b \<Rightarrow>
               Some (and_then (assert_that (size_in_bytes b \<noteq> 0)) (\<lambda>_. Inr (pad_to_align (layout_bytes (size_in_bytes b)))))
           | _ \<Rightarrow> Some (Inl TodoMacro))))"

definition size_of :: "nat \<Rightarrow> typing_data \<Rightarrow> type_id \<Rightarrow> nat rust option" where
  "size_of fuel td tid =
     map_option (\<lambda>r. and_then r (\<lambda>l. if l_size l < 2 ^ 32 then Inr (l_size l) else Inl UnwrapNone)) (layout_of fuel td tid)"

end
