(* ===== verification/TypingLaws.thy ===== *)
theory TypingLaws
  imports Typing
begin

text \<open>
  What the type registry guarantees. \<open>td_wf\<close> is its invariant: a type is found again under the
  identifier it was registered with, so that two types are the same type exactly when their
  identifiers are the same, which is how the type checker compares them. The locale
  \<open>interning\<close> is the contract of such a table; the registry is an instance of it.
\<close>

section \<open>Interning tables\<close>

locale interning =
  fixes put :: "'k \<Rightarrow> 's \<Rightarrow> (nat \<times> 's) rust"
    and look :: "'s \<Rightarrow> nat \<Rightarrow> 'k option"
    and ok :: "'s \<Rightarrow> bool"
  assumes put_new: "ok s \<Longrightarrow> \<exists>i s'. put k s = Inr (i, s') \<and> ok s' \<and> look s' i = Some k
      \<and> (\<forall>j v. look s j = Some v \<longrightarrow> look s' j = Some v)"
    and put_old: "ok s \<Longrightarrow> look s i = Some k \<Longrightarrow> put k s = Inr (i, s)"
begin

definition grows :: "'s \<Rightarrow> 's \<Rightarrow> bool" where
  "grows s s' \<longleftrightarrow> (\<forall>j v. look s j = Some v \<longrightarrow> look s' j = Some v)"

lemma grows_refl [simp]: "grows s s"
  by (simp add: grows_def)

lemma grows_chain: "grows s s' \<Longrightarrow> grows s' s'' \<Longrightarrow> grows s s''"
  by (simp add: grows_def)

lemma grows_look: "grows s s' \<Longrightarrow> look s j = Some v \<Longrightarrow> look s' j = Some v"
  by (simp add: grows_def)

lemma put_ok: "ok s \<Longrightarrow> put k s = Inr (i, s') \<Longrightarrow> ok s' \<and> look s' i = Some k \<and> grows s s'"
  using put_new [of s k] by (auto simp: grows_def)

lemma look_inj: "ok s \<Longrightarrow> look s i = Some k \<Longrightarrow> look s j = Some k \<Longrightarrow> i = j"
  using put_old [of s i k] put_old [of s j k] by simp

text \<open>Identifiers agree exactly when the keys do, whatever was put in between.\<close>

lemma put_eq_iff:
  assumes "ok s" and "put k s = Inr (i, s1)" and "ok s2" and "grows s1 s2" and "put k' s2 = Inr (j, s3)"
  shows "i = j \<longleftrightarrow> k = k'"
proof -
  have i: "look s2 i = Some k" using put_ok [OF assms(1,2)] assms(4) grows_look by blast
  have j: "ok s3 \<and> look s3 j = Some k' \<and> grows s2 s3" using put_ok [OF assms(3,5)] .
  have "look s3 i = Some k" using i j grows_look by blast
  with j look_inj [of s3 i k j] show ?thesis by auto
qed

lemma put_again: "ok s \<Longrightarrow> put k s = Inr (i, s1) \<Longrightarrow> ok s2 \<Longrightarrow> grows s1 s2 \<Longrightarrow> put k s2 = Inr (i, s2)"
  using put_ok grows_look put_old by blast

end

section \<open>Equality of types\<close>

lemma ty_eq_kind: "ty_eq t u \<Longrightarrow> ty_kind t = ty_kind u"
  by (simp add: ty_eq_def)

lemma ty_eq_bare [simp]: "ty_eq (ty_of_kind k) t \<longleftrightarrow> t = ty_of_kind k" "ty_eq t (ty_of_kind k) \<longleftrightarrow> t = ty_of_kind k"
  by (cases t; auto simp: ty_eq_def ty_of_kind_def props_eq_def)+

lemma ty_of_kind_simps [simp]: "ty_kind (ty_of_kind k) = k" "ty_properties (ty_of_kind k) = []"
  "ty_of_kind k = ty_of_kind k' \<longleftrightarrow> k = k'"
  by (simp_all add: ty_of_kind_def)

lemma clobber_get_put_bare:
  "clobber_get (ty_of_kind k) (clobber_put t i c) = (if t = ty_of_kind k then Some i else clobber_get (ty_of_kind k) c)"
  by (induction t i c rule: clobber_put.induct) auto

lemma clobber_get_mem: "clobber_get t c = Some i \<Longrightarrow> \<exists>u. (u, i) \<in> set c \<and> ty_eq t u"
  by (induction t c rule: clobber_get.induct) (auto split: if_splits)

lemma clobber_put_mem: "(u, j) \<in> set (clobber_put t i c) \<Longrightarrow> (u, j) \<in> set c \<or> j = i \<and> ty_kind u = ty_kind t"
  by (induction t i c rule: clobber_put.induct) (auto simp: ty_eq_kind split: if_splits)

section \<open>The invariant\<close>

definition td_wf :: "typing_data \<Rightarrow> bool" where
  "td_wf td \<longleftrightarrow> ssa_wf (td_inner td) \<and> 256 \<le> ssa_next_free (td_inner td)
     \<and> (\<forall>(t, i) \<in> set (td_clobber td). td_get_python_type_of td i = Some (ty_kind t))
     \<and> (\<forall>i k. td_get_python_type_of td i = Some k \<longrightarrow> i \<noteq> 0 \<and> clobber_get (ty_of_kind k) (td_clobber td) = Some i)"

lemma td_wfD:
  assumes "td_wf td"
  shows "ssa_wf (td_inner td)" "256 \<le> ssa_next_free (td_inner td)"
    "(t, i) \<in> set (td_clobber td) \<Longrightarrow> td_get_python_type_of td i = Some (ty_kind t)"
    "td_get_python_type_of td i = Some k \<Longrightarrow> i \<noteq> 0"
    "td_get_python_type_of td i = Some k \<Longrightarrow> clobber_get (ty_of_kind k) (td_clobber td) = Some i"
  using assms unfolding td_wf_def by auto

lemma kind_repr: "td_get_python_type_of td i = Some k \<longleftrightarrow> (\<exists>t. td_get_type_repr td i = Some t \<and> ty_kind t = k)"
  by (auto simp: td_get_python_type_of_def td_get_type_repr_def)

lemma type_id_of_usize_pos [simp]: "0 < n \<Longrightarrow> type_id_of_usize n = Some n"
  by (simp add: type_id_of_usize_def)

text \<open>What registering a bare kind does.\<close>

lemma td_insert_old:
  assumes "td_wf td" and "td_get_python_type_of td i = Some k"
  shows "td_insert (ty_of_kind k) td = Inr (i, td)"
  using td_wfD(5) [OF assms] by (simp add: td_insert_def)

lemma clobber_get_known:
  assumes "td_wf td" and "clobber_get (ty_of_kind k) (td_clobber td) = Some i"
  shows "td_get_python_type_of td i = Some k"
  using clobber_get_mem [OF assms(2)] td_wfD(3) [OF assms(1)] by fastforce

lemma td_insert_fresh:
  assumes wf: "td_wf td" and "\<forall>i. td_get_python_type_of td i \<noteq> Some k"
  shows "\<exists>td'. td_insert (ty_of_kind k) td = Inr (ssa_next_free (td_inner td), td') \<and> td_wf td'
    \<and> ssa_next_free (td_inner td') = Suc (ssa_next_free (td_inner td))
    \<and> (\<forall>j. td_get_type_repr td' j = (if j = ssa_next_free (td_inner td) then Some (ty_of_kind k) else td_get_type_repr td j))"
proof -
  let ?n = "ssa_next_free (td_inner td)"
  have c: "clobber_get (ty_of_kind k) (td_clobber td) = None"
    using assms(2) clobber_get_known [OF wf, of k] by (cases "clobber_get (ty_of_kind k) (td_clobber td)") auto
  have n: "?n = length (ssa_inner (td_inner td))" "0 < ?n" using td_wfD(1,2) [OF wf] by (auto simp: ssa_wf_def)
  define td' where "td' = \<lparr>td_inner = (td_inner td)\<lparr>ssa_next_free := Suc ?n, ssa_inner := ssa_inner (td_inner td) @ [Some (ty_of_kind k)]\<rparr>,
    td_clobber = clobber_put (ty_of_kind k) ?n (td_clobber td)\<rparr>"
  have ins: "td_insert (ty_of_kind k) td = Inr (?n, td')"
    using c n by (simp add: td_insert_def ssa_insert_def td'_def Let_def)
  have get: "td_get_type_repr td' j = (if j = ?n then Some (ty_of_kind k) else td_get_type_repr td j)" for j
    using n(1) by (auto simp: td_get_type_repr_def td'_def ssa_get_def get_at_append)
  have kind: "td_get_python_type_of td' j = (if j = ?n then Some k else td_get_python_type_of td j)" for j
    using get [of j] by (auto simp: td_get_python_type_of_def td_get_type_repr_def)
  have clob: "clobber_get (ty_of_kind k') (td_clobber td') = (if k = k' then Some ?n else clobber_get (ty_of_kind k') (td_clobber td))" for k'
    by (simp add: td'_def clobber_get_put_bare)
  have none: "td_get_python_type_of td ?n = None" using n(1) by (simp add: td_get_python_type_of_def)
  have "td_wf td'" unfolding td_wf_def
  proof (intro conjI ballI allI impI)
    show "ssa_wf (td_inner td')" "256 \<le> ssa_next_free (td_inner td')"
      using td_wfD(1,2) [OF wf] by (simp_all add: td'_def ssa_wf_def)
  next
    fix x assume "x \<in> set (td_clobber td')"
    then obtain t i where x: "x = (t, i)" "(t, i) \<in> set (td_clobber td) \<or> i = ?n \<and> ty_kind t = k"
      using clobber_put_mem [of "fst x" "snd x" "ty_of_kind k" ?n "td_clobber td"]
      by (cases x rule: prod.exhaust) (simp add: td'_def)
    then show "case x of (t, i) \<Rightarrow> td_get_python_type_of td' i = Some (ty_kind t)"
      using td_wfD(3) [OF wf, of t i] none by (auto simp: kind)
  next
    fix i k' assume i: "td_get_python_type_of td' i = Some k'"
    then show "i \<noteq> 0" using td_wfD(4) [OF wf, of i k'] n by (auto simp: kind split: if_splits)
    show "clobber_get (ty_of_kind k') (td_clobber td') = Some i"
      using i td_wfD(5) [OF wf, of i k'] assms(2) by (auto simp: kind clob split: if_splits)
  qed
  with ins get show ?thesis by (auto simp: td'_def)
qed

lemma td_insert_cases:
  assumes "td_wf td" and "td_insert (ty_of_kind k) td = Inr (i, td')"
  shows "td_get_python_type_of td i = Some k \<and> td' = td \<or>
    (\<forall>j. td_get_python_type_of td j \<noteq> Some k) \<and> i = ssa_next_free (td_inner td) \<and> td_wf td'
      \<and> ssa_next_free (td_inner td') = Suc i
      \<and> (\<forall>j. td_get_type_repr td' j = (if j = i then Some (ty_of_kind k) else td_get_type_repr td j))"
proof (cases "\<forall>j. td_get_python_type_of td j \<noteq> Some k")
  case True
  with td_insert_fresh [OF assms(1), of k] assms(2) show ?thesis by auto
next
  case False
  then obtain j where "td_get_python_type_of td j = Some k" by auto
  with td_insert_old [OF assms(1) this] assms(2) show ?thesis by auto
qed

lemma registered_bound: "td_wf td \<Longrightarrow> td_get_type_repr td i = Some t \<Longrightarrow> i < ssa_next_free (td_inner td)"
  using ssa.look_bound by (auto simp: td_get_type_repr_def td_wf_def)

interpretation td: interning "\<lambda>k. td_insert (ty_of_kind k)" td_get_python_type_of td_wf
proof
  fix td :: typing_data and k
  assume wf: "td_wf td"
  show "\<exists>i td'. td_insert (ty_of_kind k) td = Inr (i, td') \<and> td_wf td' \<and> td_get_python_type_of td' i = Some k
      \<and> (\<forall>j v. td_get_python_type_of td j = Some v \<longrightarrow> td_get_python_type_of td' j = Some v)"
  proof (cases "\<forall>i. td_get_python_type_of td i \<noteq> Some k")
    case True
    then obtain td' where td': "td_insert (ty_of_kind k) td = Inr (ssa_next_free (td_inner td), td')" "td_wf td'"
      "\<forall>j. td_get_type_repr td' j = (if j = ssa_next_free (td_inner td) then Some (ty_of_kind k) else td_get_type_repr td j)"
      using td_insert_fresh [OF wf, of k] by blast
    then show ?thesis using registered_bound [OF wf] by (auto simp: kind_repr)
  next
    case False
    then show ?thesis using td_insert_old [OF wf] wf by blast
  qed
next
  show "td_insert (ty_of_kind k) td = Inr (i, td)" if "td_wf td" "td_get_python_type_of td i = Some k" for td i k
    using td_insert_old that .
qed

text \<open>Adding a property changes no kind.\<close>

lemma td_insert_property_repr:
  assumes "td_insert_property b n p td = (old, td')"
  shows "td_get_type_repr td' i = (if i = b then map_option (\<lambda>t. t\<lparr>ty_properties := assoc_put n p (ty_properties t)\<rparr>) (td_get_type_repr td b)
      else td_get_type_repr td i)"
    and "old = Option.bind (td_get_type_repr td b) (\<lambda>t. map_of (ty_properties t) n)"
    and "ssa_next_free (td_inner td') = ssa_next_free (td_inner td)"
  using assms
  by (auto simp: td_insert_property_def td_get_type_repr_def ssa_get_def get_at_update Let_def ssa_get_Some_iff
      get_at_Some_iff bind_eq_Some_conv split: option.splits bind_splits)

lemma assoc_put_ne [simp]: "assoc_put k v m \<noteq> []"
  by (induction k v m rule: assoc_put.induct) simp_all

lemma td_insert_property_wf:
  assumes wf: "td_wf td" and ins: "td_insert_property b n p td = (old, td')"
  shows "td_wf td'"
proof -
  have kind: "td_get_python_type_of td' i = td_get_python_type_of td i" for i
    using td_insert_property_repr(1) [OF ins, of i]
    by (cases "td_get_type_repr td i") (auto simp: td_get_python_type_of_def td_get_type_repr_def)
  show ?thesis
  proof (cases "ssa_get (td_inner td) b")
    case None
    then show ?thesis using wf ins by (simp add: td_insert_property_def)
  next
    case (Some t)
    define t' where "t' = t\<lparr>ty_properties := assoc_put n p (ty_properties t)\<rparr>"
    have c: "td_clobber td' = clobber_put t' b (td_clobber td)"
      "ssa_wf (td_inner td')" "ssa_next_free (td_inner td') = ssa_next_free (td_inner td)"
      using ins Some td_wfD(1) [OF wf] by (auto simp: td_insert_property_def Let_def t'_def ssa_wf_def)
    have t': "t' \<noteq> ty_of_kind k" for k by (cases t) (simp add: t'_def ty_of_kind_def)
    have k: "ty_kind t' = ty_kind t" "td_get_python_type_of td b = Some (ty_kind t)"
      using Some by (simp_all add: t'_def td_get_python_type_of_def)
    have "td_get_python_type_of td i = Some (ty_kind u)" if "(u, i) \<in> set (td_clobber td')" for u i
      using clobber_put_mem [of u i t' b "td_clobber td"] that c(1) k td_wfD(3) [OF wf, of u i] by auto
    then show ?thesis using td_wfD(2,4,5) [OF wf] c t' unfolding td_wf_def kind by (auto simp: clobber_get_put_bare)
  qed
qed

section \<open>Initialisation\<close>

lemma write_builtin_ok:
  assumes "ssa_wf m" and "ssa_next_free m \<le> builtin_tag b"
  shows "\<exists>m'. write_builtin b m = Inr m' \<and> ssa_wf m' \<and> ssa_next_free m' = Suc (builtin_tag b)
    \<and> (\<forall>i. ssa_get m' i = (if i = builtin_tag b then Some (ty_of_kind (PyBuiltin b)) else ssa_get m i))"
proof -
  let ?m = "m\<lparr>ssa_next_free := builtin_tag b, ssa_inner := ssa_inner m @ replicate (builtin_tag b - ssa_next_free m) None\<rparr>"
  have m: "ssa_skip_to_nth (builtin_tag b) m = Inr ?m" "ssa_wf ?m" "\<And>i. ssa_get ?m i = ssa_get m i"
    using assms by (auto simp: ssa_skip_to_nth_def ssa_wf_def ssa_get_def get_at_def nth_append Let_def)
  obtain m' where m': "ssa_insert Some (ty_of_kind (PyBuiltin b)) ?m = Inr (builtin_tag b, m')" "ssa_wf m'"
    "ssa_next_free m' = Suc (builtin_tag b)"
    using ssa.put_ok [OF m(2), of "ty_of_kind (PyBuiltin b)"] by auto
  with ssa.look_put [OF m(2) m'(1)] m show ?thesis by (simp add: write_builtin_def)
qed

lemma write_builtins_ok:
  "ssa_wf m \<Longrightarrow> sorted_wrt (\<lambda>a b. builtin_tag a < builtin_tag b) bs \<Longrightarrow> \<forall>b \<in> set bs. ssa_next_free m \<le> builtin_tag b \<Longrightarrow>
    \<exists>m'. write_builtins bs m = Inr m' \<and> ssa_wf m'
      \<and> ssa_next_free m' = (if bs = [] then ssa_next_free m else Suc (builtin_tag (last bs)))
      \<and> (\<forall>i. ssa_get m' i = (case find (\<lambda>b. builtin_tag b = i) bs of Some b \<Rightarrow> Some (ty_of_kind (PyBuiltin b)) | None \<Rightarrow> ssa_get m i))"
proof (induction bs arbitrary: m)
  case (Cons b bs)
  then obtain m1 where m1: "write_builtin b m = Inr m1" "ssa_wf m1" "ssa_next_free m1 = Suc (builtin_tag b)"
    "\<forall>i. ssa_get m1 i = (if i = builtin_tag b then Some (ty_of_kind (PyBuiltin b)) else ssa_get m i)"
    using write_builtin_ok [of m b] by auto
  have "\<forall>c \<in> set bs. ssa_next_free m1 \<le> builtin_tag c" using Cons.prems(2) m1(3) by auto
  with Cons.IH [OF m1(2)] Cons.prems(2) obtain m2 where m2: "write_builtins bs m1 = Inr m2" "ssa_wf m2"
    "ssa_next_free m2 = (if bs = [] then ssa_next_free m1 else Suc (builtin_tag (last bs)))"
    "\<forall>i. ssa_get m2 i = (case find (\<lambda>b. builtin_tag b = i) bs of Some b \<Rightarrow> Some (ty_of_kind (PyBuiltin b)) | None \<Rightarrow> ssa_get m1 i)"
    by auto
  have "find (\<lambda>c. builtin_tag c = builtin_tag b) bs = None"
    using Cons.prems(2) by (force simp: find_None_iff)
  with m1 m2 show ?case by (auto split: option.splits)
qed simp

lemma find_builtin: "find (\<lambda>c. builtin_tag c = i) builtins = Some b \<longleftrightarrow> builtin_tag b = i"
  by (cases b) (auto simp: builtins_def)

lemma write_ssa_ok:
  "\<exists>m. write_ssa ssa_new = Inr m \<and> ssa_wf m \<and> ssa_next_free m = 256
     \<and> (\<forall>i t. ssa_get m i = Some t \<longleftrightarrow> (\<exists>b. builtin_tag b = i \<and> t = ty_of_kind (PyBuiltin b)))"
proof -
  have s: "sorted_wrt (\<lambda>a b. builtin_tag a < builtin_tag b) builtins" by (simp add: builtins_def)
  obtain m where m: "write_builtins builtins ssa_new = Inr m" "ssa_wf m" "ssa_next_free m = 256"
    "\<forall>i. ssa_get m i = (case find (\<lambda>b. builtin_tag b = i) builtins of Some b \<Rightarrow> Some (ty_of_kind (PyBuiltin b)) | None \<Rightarrow> ssa_get ssa_new i)"
    using write_builtins_ok [OF ssa_wf_new s] by (auto simp: ssa_new_def builtins_def)
  have new: "ssa_get (ssa_new :: ty ssamap) i = None" "ssa_is_empty (ssa_new :: ty ssamap)" for i
    by (simp_all add: ssa_new_def ssa_get_def ssa_is_empty_def ssa_iter_def List.map_filter_def)
  have "write_ssa ssa_new = Inr m"
    using m(1,3) new(2) by (cases m) (simp add: write_ssa_def ssa_skip_to_nth_def)
  moreover have "ssa_get m i = Some t \<longleftrightarrow> (\<exists>b. builtin_tag b = i \<and> t = ty_of_kind (PyBuiltin b))" for i t
    using m(4) [rule_format, of i] find_builtin [of i] new by (cases "find (\<lambda>b. builtin_tag b = i) builtins") auto
  ultimately show ?thesis using m by auto
qed

lemma ssa_iter_mem: "(i, v) \<in> set (ssa_iter m) \<longleftrightarrow> ssa_get m i = Some v"
  by (auto simp: ssa_iter_def ssa_get_Some_iff get_at_Some_iff List.map_filter_def in_set_enumerate_eq image_iff
      intro!: bexI [of _ "(i, Some v)"])

lemma clobber_all_ok:
  "\<forall>(i, t) \<in> set ts. \<exists>b. i = builtin_tag b \<and> t = ty_of_kind (PyBuiltin b) \<Longrightarrow>
    \<exists>c'. clobber_all ts c = Inr c'
      \<and> (\<forall>(u, j) \<in> set c'. (u, j) \<in> set c \<or> (\<exists>b. j = builtin_tag b \<and> ty_kind u = PyBuiltin b))
      \<and> (\<forall>b. clobber_get (ty_of_kind (PyBuiltin b)) c' =
            (if (builtin_tag b, ty_of_kind (PyBuiltin b)) \<in> set ts then Some (builtin_tag b) else clobber_get (ty_of_kind (PyBuiltin b)) c))"
proof (induction ts arbitrary: c)
  case (Cons x ts)
  obtain b where x: "x = (builtin_tag b, ty_of_kind (PyBuiltin b))" using Cons.prems by (cases x) auto
  have pos: "type_id_of_usize (builtin_tag b) = Some (builtin_tag b)" by (cases b) (simp_all add: type_id_of_usize_def)
  let ?c = "clobber_put (ty_of_kind (PyBuiltin b)) (builtin_tag b) c"
  obtain c' where c': "clobber_all ts ?c = Inr c'"
    "\<forall>(u, j) \<in> set c'. (u, j) \<in> set ?c \<or> (\<exists>b. j = builtin_tag b \<and> ty_kind u = PyBuiltin b)"
    "\<forall>d. clobber_get (ty_of_kind (PyBuiltin d)) c' =
       (if (builtin_tag d, ty_of_kind (PyBuiltin d)) \<in> set ts then Some (builtin_tag d) else clobber_get (ty_of_kind (PyBuiltin d)) ?c)"
    using Cons.IH [of ?c] Cons.prems by auto
  have "(u, j) \<in> set c \<or> (\<exists>b. j = builtin_tag b \<and> ty_kind u = PyBuiltin b)" if "(u, j) \<in> set c'" for u j
    using c'(2) that clobber_put_mem [of u j "ty_of_kind (PyBuiltin b)" "builtin_tag b" c] by auto
  moreover have "clobber_get (ty_of_kind (PyBuiltin d)) c' =
      (if (builtin_tag d, ty_of_kind (PyBuiltin d)) \<in> set (x # ts) then Some (builtin_tag d) else clobber_get (ty_of_kind (PyBuiltin d)) c)" for d
    using c'(3) [rule_format, of d] x by (auto simp: clobber_get_put_bare)
  ultimately show ?case using c'(1) x pos by auto
qed auto

lemma td_initialized_ok:
  "\<exists>td. td_initialized = Inr td \<and> td_wf td \<and> ssa_next_free (td_inner td) = 256
     \<and> (\<forall>i k. td_get_python_type_of td i = Some k \<longleftrightarrow> (\<exists>b. builtin_tag b = i \<and> k = PyBuiltin b))"
proof -
  obtain m where m: "write_ssa ssa_new = Inr m" "ssa_wf m" "ssa_next_free m = 256"
    "\<forall>i t. ssa_get m i = Some t \<longleftrightarrow> (\<exists>b. builtin_tag b = i \<and> t = ty_of_kind (PyBuiltin b))"
    using write_ssa_ok by blast
  have it: "\<forall>(i, t) \<in> set (ssa_iter m). \<exists>b. i = builtin_tag b \<and> t = ty_of_kind (PyBuiltin b)"
    using m(4) by (auto simp: ssa_iter_mem)
  obtain c where c: "clobber_all (ssa_iter m) [] = Inr c"
    "\<forall>(u, j) \<in> set c. \<exists>b. j = builtin_tag b \<and> ty_kind u = PyBuiltin b"
    "\<forall>b. clobber_get (ty_of_kind (PyBuiltin b)) c = Some (builtin_tag b)"
    using clobber_all_ok [OF it, of "[]"] m(4) by (auto simp: ssa_iter_mem)
  let ?td = "\<lparr>td_inner = m, td_clobber = c\<rparr>"
  have k: "td_get_python_type_of ?td i = Some k \<longleftrightarrow> (\<exists>b. builtin_tag b = i \<and> k = PyBuiltin b)" for i k
    using m(4) by (auto simp: td_get_python_type_of_def)
  have nz: "builtin_tag b \<noteq> 0" for b by (cases b) simp_all
  have "td_wf ?td" using m(2,3) c(2,3) nz unfolding td_wf_def k by auto
  with m c k show ?thesis by (auto simp: td_initialized_def)
qed

section \<open>Sequences of operations\<close>

text \<open>The type identifiers a kind mentions.\<close>

fun kind_refs :: "python_type \<Rightarrow> type_id set" where
  "kind_refs (PyTuple (Some ms)) = set ms"
| "kind_refs (PyList t) = {t}"
| "kind_refs (PyUnion (Some ms)) = set ms"
| "kind_refs (PyType t) = {t}"
| "kind_refs (PyClass _ (Some ms)) = set ms"
| "kind_refs (PyCallable ps t) = insert t (case ps of None \<Rightarrow> {} | Some ms \<Rightarrow> set ms)"
| "kind_refs (PyGeneric (Some ms)) = set ms"
| "kind_refs _ = {}"

definition known :: "typing_data \<Rightarrow> type_id \<Rightarrow> bool" where
  "known td t \<longleftrightarrow> td_get_type_repr td t \<noteq> None"

lemma known_kind: "known td t \<longleftrightarrow> (\<exists>k. td_get_python_type_of td t = Some k)"
  by (auto simp: known_def kind_repr)

text \<open>The two primitive operations that change a registry; the others are sequences of them.\<close>

inductive td_step :: "typing_data \<Rightarrow> typing_data \<Rightarrow> bool" where
  step_insert: "td_insert (ty_of_kind k) td = Inr (i, td') \<Longrightarrow> \<forall>t \<in> kind_refs k. known td t \<Longrightarrow> td_step td td'"
| step_property: "td_insert_property b n p td = (old, td') \<Longrightarrow> td_step td td'"

text \<open>A kind mentions only types registered before it.\<close>

definition refs_below :: "typing_data \<Rightarrow> bool" where
  "refs_below td \<longleftrightarrow> (\<forall>i k. td_get_python_type_of td i = Some k \<longrightarrow> (\<forall>t \<in> kind_refs k. t < i \<and> known td t))"

definition td_inv :: "typing_data \<Rightarrow> bool" where
  "td_inv td \<longleftrightarrow> td_wf td \<and> refs_below td \<and> (\<forall>b. td_get_python_type_of td (builtin_tag b) = Some (PyBuiltin b))"

lemma td_insert_property_kind:
  assumes "td_insert_property b n p td = (old, td')"
  shows "td_get_python_type_of td' i = td_get_python_type_of td i"
  using td_insert_property_repr(1) [OF assms, of i]
  by (cases "td_get_type_repr td i") (auto simp: td_get_python_type_of_def td_get_type_repr_def)

lemma td_step_keeps:
  assumes "td_step td td'" and "td_inv td"
  shows "td_inv td' \<and> td.grows td td'"
  using assms(1)
proof cases
  case (step_insert k i)
  have wf: "td_wf td" "refs_below td" "\<And>b. td_get_python_type_of td (builtin_tag b) = Some (PyBuiltin b)"
    using assms(2) by (auto simp: td_inv_def)
  have p: "td_wf td' \<and> td_get_python_type_of td' i = Some k \<and> td.grows td td'" using td.put_ok [OF wf(1)] step_insert(1) .
  have kn: "known td' t" if "known td t" for t using that p td.grows_look by (auto simp: known_kind)
  have "refs_below td'"
  proof (cases "td_get_python_type_of td i = Some k \<and> td' = td")
    case True
    then show ?thesis using wf(2) by simp
  next
    case False
    then have f: "i = ssa_next_free (td_inner td)"
      "\<forall>j. td_get_type_repr td' j = (if j = i then Some (ty_of_kind k) else td_get_type_repr td j)"
      using td_insert_cases [OF wf(1) step_insert(1)] by blast+
    have kd: "td_get_python_type_of td' j = (if j = i then Some k else td_get_python_type_of td j)" for j
      using f(2) by (simp add: td_get_python_type_of_def td_get_type_repr_def)
    have "t < i" if "known td t" for t using that registered_bound [OF wf(1)] f(1) by (auto simp: known_def)
    then show ?thesis using wf(2) kn step_insert(2) unfolding refs_below_def kd by auto
  qed
  with p wf(3) td.grows_look show ?thesis by (auto simp: td_inv_def)
next
  case (step_property b n p old)
  note k = td_insert_property_kind [OF step_property]
  have "refs_below td'" using assms(2) by (simp add: td_inv_def refs_below_def k known_kind)
  then show ?thesis using assms(2) td_insert_property_wf [OF _ step_property] by (simp add: td_inv_def k td.grows_def)
qed

lemma td_steps_keep:
  assumes "td_step\<^sup>*\<^sup>* td td'" and "td_inv td"
  shows "td_inv td' \<and> td.grows td td'"
  using assms
proof (induction rule: rtranclp_induct)
  case (step y z)
  then show ?case using td_step_keeps td.grows_chain by blast
qed simp

lemma td_initialized_inv: "\<exists>td. td_initialized = Inr td \<and> td_inv td"
proof -
  obtain td where td: "td_initialized = Inr td" "td_wf td"
    "\<forall>i k. td_get_python_type_of td i = Some k \<longleftrightarrow> (\<exists>b. builtin_tag b = i \<and> k = PyBuiltin b)"
    using td_initialized_ok by blast
  then have "td_inv td" unfolding td_inv_def refs_below_def by auto
  with td show ?thesis by blast
qed

text \<open>Registering a kind whose parts are known.\<close>

lemma td_insert_step:
  assumes "td_inv td" and "\<forall>t \<in> kind_refs k. known td t"
  shows "\<exists>i td'. td_insert (ty_of_kind k) td = Inr (i, td') \<and> td_step td td' \<and> td_inv td' \<and> td.grows td td'
    \<and> td_get_python_type_of td' i = Some k \<and> td_insert (ty_of_kind k) td' = Inr (i, td')"
proof -
  have wf: "td_wf td" using assms(1) by (simp add: td_inv_def)
  obtain i td' where i: "td_insert (ty_of_kind k) td = Inr (i, td')" using td.put_new [OF wf] by blast
  have s: "td_step td td'" using step_insert [OF i assms(2)] .
  have p: "td_wf td' \<and> td_get_python_type_of td' i = Some k \<and> td.grows td td'" using td.put_ok [OF wf i] .
  then have "td_insert (ty_of_kind k) td' = Inr (i, td')" using td.put_old by blast
  with i s p td_step_keeps [OF s assms(1)] show ?thesis by blast
qed

lemma grows_known: "td.grows td td' \<Longrightarrow> known td t \<Longrightarrow> known td' t"
  using td.grows_look by (auto simp: known_kind)

section \<open>Tuples, properties and unions\<close>

lemma td_insert_property_step: "td_step td (snd (td_insert_property b n p td))"
  by (rule step_property [of b n p td "fst (td_insert_property b n p td)"]) simp

lemma td_insert_property_grows: "td_inv td \<Longrightarrow> td_inv (snd (td_insert_property b n p td)) \<and> td.grows td (snd (td_insert_property b n p td))"
  using td_step_keeps [OF td_insert_property_step] by blast

lemma td_get_property_step:
  assumes "td_inv td" and "known td base"
  shows "\<exists>p td'. td_get_property base name td = Inr (p, td') \<and> td_step\<^sup>*\<^sup>* td td'"
proof -
  obtain t where t: "td_get_type_repr td base = Some t" using assms(2) by (auto simp: known_def)
  then have loc: "td_localize td base = Some (base, t)" by (simp add: td_localize_def td_get_type_repr_def)
  show ?thesis
  proof (cases "map_of (ty_properties t) name")
    case None
    have "\<forall>u \<in> kind_refs (PyType base). known td u" using assms(2) by simp
    then obtain i td' where "td_insert (ty_of_kind (PyType base)) td = Inr (i, td')" "td_step td td'"
      using td_insert_step [OF assms(1)] by blast
    with None loc show ?thesis by (auto simp: td_get_property_def local_get_property_def lazy_property_get_def)
  next
    case (Some p)
    with loc show ?thesis by (auto simp: td_get_property_def local_get_property_def)
  qed
qed

text \<open>The element type of a tuple.\<close>

definition element_kind_ok :: "typing_data \<Rightarrow> type_id list \<Rightarrow> type_id \<Rightarrow> bool" where
  "element_kind_ok td elems u \<longleftrightarrow>
     (if elems = [] then u = builtin_tag BNever
      else if \<exists>t. set elems = {t} then set elems = {u}
      else td_get_python_type_of td u = Some (PyUnion (Some (sorted_list_of_set (set elems)))))"

lemma distinct_remdups_adj_sorted: "sorted xs \<Longrightarrow> distinct (remdups_adj xs)"
  by (induction xs rule: remdups_adj.induct) (auto simp: antisym)

lemma remdups_adj_sort: "remdups_adj (sort (xs :: nat list)) = sorted_list_of_set (set xs)"
proof -
  have "sorted (remdups_adj (sort xs))" by (simp add: sorted_remdups_adj)
  moreover have "distinct (remdups_adj (sort xs))" by (simp add: distinct_remdups_adj_sorted)
  ultimately have "sorted_list_of_set (set (remdups_adj (sort xs))) = remdups_adj (sort xs)"
    by (rule sorted_list_of_set.idem_if_sorted_distinct)
  then show ?thesis by simp
qed

lemma members_as_union_ok:
  assumes inv: "td_inv td" and kn: "\<forall>t \<in> set elems. known td t"
  shows "\<exists>u td'. members_as_union (if elems = [] then None else Some elems) td = Inr (u, td') \<and> td_step\<^sup>*\<^sup>* td td'
    \<and> known td' u \<and> element_kind_ok td' elems u"
proof -
  have b: "known td (builtin_tag b)" for b using inv by (auto simp: td_inv_def known_kind)
  let ?ts = "sorted_list_of_set (set elems)"
  have set: "set ?ts = set elems" by simp
  consider (nil) "elems = []" | (one) t where "?ts = [t]" | (many) a c r where "?ts = a # c # r"
    by (metis list.exhaust set set_empty)
  then show ?thesis
  proof cases
    case nil
    then show ?thesis using b [of BNever] by (auto simp: members_as_union_def element_kind_ok_def)
  next
    case one
    then have e: "set elems = {t}" using set by (metis empty_set list.simps(15))
    then have "elems \<noteq> []" by auto
    with one e kn show ?thesis by (auto simp: members_as_union_def element_kind_ok_def remdups_adj_sort)
  next
    case many
    have ne: "elems \<noteq> []" using many by auto
    have "\<nexists>t. set elems = {t}"
    proof
      assume "\<exists>t. set elems = {t}"
      then obtain t where "set elems = {t}" ..
      then have "?ts = [t]" by simp
      with many show False by simp
    qed
    have kn': "\<forall>t \<in> kind_refs (PyUnion (Some ?ts)). known td t" using kn by simp
    then obtain u td' where u: "td_insert (ty_of_kind (PyUnion (Some ?ts))) td = Inr (u, td')" "td_step td td'"
      "td_get_python_type_of td' u = Some (PyUnion (Some ?ts))"
      using td_insert_step [OF inv kn'] by blast
    have "members_as_union (if elems = [] then None else Some elems) td = Inr (u, td')"
      using ne u(1) many by (simp add: members_as_union_def remdups_adj_sort)
    moreover have "known td' u" "element_kind_ok td' elems u"
      using u(3) ne \<open>\<nexists>t. set elems = {t}\<close> by (auto simp: known_kind element_kind_ok_def)
    ultimately show ?thesis using u(2) by blast
  qed
qed

lemma element_kind_ok_grows: "td.grows td td' \<Longrightarrow> element_kind_ok td elems u \<Longrightarrow> element_kind_ok td' elems u"
  using td.grows_look by (auto simp: element_kind_ok_def split: if_splits)

lemma td_insert_repr:
  assumes "td_inv td" and "td_insert (ty_of_kind k) td = Inr (i, td')" and "td_get_type_repr td j = Some t"
  shows "td_get_type_repr td' j = Some t"
  using td_insert_cases [of td k i td'] assms registered_bound [of td j t] by (auto simp: td_inv_def)

lemma td_insert_property_get:
  assumes "known td b"
  shows "\<exists>t. td_get_type_repr (snd (td_insert_property b n p td)) b = Some t \<and> map_of (ty_properties t) n = Some p"
  using td_insert_property_repr(1) [of b n p td "fst (td_insert_property b n p td)" _ b] assms by (auto simp: known_def)

lemma td_insert_property_other:
  assumes "td_get_type_repr td b = Some t" and "n \<noteq> m"
  shows "\<exists>t'. td_get_type_repr (snd (td_insert_property b n p td)) b = Some t' \<and> map_of (ty_properties t') m = map_of (ty_properties t) m"
  using td_insert_property_repr(1) [of b n p td "fst (td_insert_property b n p td)" _ b] assms by auto

lemma td_get_property_own:
  assumes "td_get_type_repr td b = Some t" and "map_of (ty_properties t) n = Some p"
  shows "td_get_property b n td = Inr (Some p, td)"
  using assms by (simp add: td_get_property_def td_localize_def td_get_type_repr_def local_get_property_def)

text \<open>What a tuple type offers: its kind and the signatures of the two item operations.\<close>

definition tuple_type_ok :: "typing_data \<Rightarrow> type_id list \<Rightarrow> type_id \<Rightarrow> bool" where
  "tuple_type_ok td elems tid \<longleftrightarrow>
     td_get_python_type_of td tid = Some (PyTuple (if elems = [] then None else Some elems)) \<and> is_tuple td tid \<and>
     (\<exists>g s u. element_kind_ok td elems u
        \<and> td_get_property tid ''__getitem__'' td = Inr (Some \<lparr>prop_type_id = g, prop_value = PropBuiltin tid ''__getitem__''\<rparr>, td)
        \<and> td_get_python_type_of td g = Some (PyCallable (Some [tid, builtin_tag BInt]) u)
        \<and> td_get_property tid ''__setitem__'' td = Inr (Some \<lparr>prop_type_id = s, prop_value = PropBuiltin tid ''__setitem__''\<rparr>, td)
        \<and> td_get_python_type_of td s =
            Some (PyCallable (Some [tid, builtin_tag BInt, if elems = [] then builtin_tag BAnyType else u]) (builtin_tag BNone)))"

lemma td_tuple_ok:
  assumes inv: "td_inv td" and kn: "\<forall>t \<in> set elems. known td t"
  shows "\<exists>tid td'. td_tuple elems td = Inr (tid, td') \<and> td_step\<^sup>*\<^sup>* td td' \<and> tuple_type_ok td' elems tid"
proof -
  define members where "members = (if elems = [] then None else Some elems)"
  have b: "known s (builtin_tag c)" if "td_inv s" for s c using that by (auto simp: td_inv_def known_kind)
  have "\<forall>t \<in> kind_refs (PyTuple members). known td t" using kn by (simp add: members_def)
  then obtain tid td1 where 1: "td_insert (ty_of_kind (PyTuple members)) td = Inr (tid, td1)" "td_step td td1" "td_inv td1" "td.grows td td1"
      "td_get_python_type_of td1 tid = Some (PyTuple members)"
    using td_insert_step [OF inv] by blast
  have "\<forall>t \<in> set elems. known td1 t" using kn grows_known [OF 1(4)] by blast
  then obtain u td2 where 2: "members_as_union members td1 = Inr (u, td2)" "td_step\<^sup>*\<^sup>* td1 td2" "known td2 u" "element_kind_ok td2 elems u"
    using members_as_union_ok [OF 1(3)] unfolding members_def by blast
  have i2: "td_inv td2" "td.grows td1 td2" using td_steps_keep [OF 2(2) 1(3)] by auto
  have k2: "known td2 tid" using grows_known [OF i2(2)] 1(5) by (auto simp: known_kind)
  define gk where "gk = PyCallable (Some [tid, builtin_tag BInt]) u"
  have "\<forall>t \<in> kind_refs gk. known td2 t" using k2 2(3) b [OF i2(1), of BInt] by (auto simp: gk_def)
  then obtain g td3 where 3: "td_insert (ty_of_kind gk) td2 = Inr (g, td3)" "td_step td2 td3" "td_inv td3" "td.grows td2 td3"
      "td_get_python_type_of td3 g = Some gk"
    using td_insert_step [OF i2(1)] by blast
  define gp where "gp = \<lparr>prop_type_id = g, prop_value = PropBuiltin tid ''__getitem__''\<rparr>"
  define td4 where "td4 = snd (td_insert_property tid ''__getitem__'' gp td3)"
  have 4: "td_step td3 td4" "td_inv td4" "td.grows td3 td4"
    using td_insert_property_step td_insert_property_grows [OF 3(3)] by (simp_all add: td4_def)
  obtain t4 where t4: "td_get_type_repr td4 tid = Some t4" "map_of (ty_properties t4) ''__getitem__'' = Some gp"
    using td_insert_property_get [of td3 tid "''__getitem__''" gp] grows_known [OF 3(4) k2] by (auto simp: td4_def)
  define sk where "sk = PyCallable (Some [tid, builtin_tag BInt, if elems = [] then builtin_tag BAnyType else u]) (builtin_tag BNone)"
  have k4: "known td4 tid" "known td4 u"
    using grows_known [OF 4(3) grows_known [OF 3(4) k2]] grows_known [OF 4(3) grows_known [OF 3(4) 2(3)]] .
  have "\<forall>t \<in> kind_refs sk. known td4 t"
    using k4 b [OF 4(2), of BInt] b [OF 4(2), of BAnyType] b [OF 4(2), of BNone] by (auto simp: sk_def)
  then obtain s td5 where 5: "td_insert (ty_of_kind sk) td4 = Inr (s, td5)" "td_step td4 td5" "td_inv td5" "td.grows td4 td5"
      "td_get_python_type_of td5 s = Some sk"
    using td_insert_step [OF 4(2)] by blast
  define sp where "sp = \<lparr>prop_type_id = s, prop_value = PropBuiltin tid ''__setitem__''\<rparr>"
  define td6 where "td6 = snd (td_insert_property tid ''__setitem__'' sp td5)"
  have 6: "td_step td5 td6" "td.grows td5 td6"
    using td_insert_property_step td_insert_property_grows [OF 5(3)] by (simp_all add: td6_def)
  have t5: "td_get_type_repr td5 tid = Some t4" using td_insert_repr [OF 4(2) 5(1) t4(1)] .
  obtain t6 where t6: "td_get_type_repr td6 tid = Some t6" "map_of (ty_properties t6) ''__setitem__'' = Some sp"
    using td_insert_property_get [of td5 tid "''__setitem__''" sp] t5 by (auto simp: td6_def known_def)
  have t6': "map_of (ty_properties t6) ''__getitem__'' = Some gp"
    using td_insert_property_other [OF t5, of "''__setitem__''" "''__getitem__''" sp] t6(1) t4(2) by (auto simp: td6_def)
  have run: "td_tuple elems td = Inr (tid, td6)"
    using 1(1) 2(1) 3(1) 5(1)
    by (cases "elems = []")
      (simp_all add: td_tuple_def td_callable_def members_def gk_def sk_def gp_def sp_def td4_def td6_def Let_def del: builtin_tag.simps)
  have steps: "td_step\<^sup>*\<^sup>* td td6"
    using 1(2) 2(2) 3(2) 4(1) 5(2) 6(1) by (meson converse_rtranclp_into_rtranclp rtranclp.rtrancl_into_rtrancl rtranclp_trans)
  have gr: "td.grows td3 td6" "td.grows td5 td6" "td.grows td2 td6" "td.grows td1 td6"
    using i2(2) 3(4) 4(3) 5(4) 6(2) td.grows_chain by blast+
  have kd: "td_get_python_type_of td6 tid = Some (PyTuple members)" "td_get_python_type_of td6 g = Some gk"
    "td_get_python_type_of td6 s = Some sk" "element_kind_ok td6 elems u"
    using td.grows_look [OF gr(4) 1(5)] td.grows_look [OF gr(1) 3(5)] td.grows_look [OF gr(2) 5(5)] element_kind_ok_grows [OF gr(3) 2(4)] .
  have "tuple_type_ok td6 elems tid"
    unfolding tuple_type_ok_def
  proof (intro conjI exI)
    show "td_get_python_type_of td6 tid = Some (PyTuple (if elems = [] then None else Some elems))" "is_tuple td6 tid"
      using kd(1) by (simp_all add: members_def is_tuple_def)
    show "element_kind_ok td6 elems u" by (rule kd(4))
    show "td_get_property tid ''__getitem__'' td6 = Inr (Some \<lparr>prop_type_id = g, prop_value = PropBuiltin tid ''__getitem__''\<rparr>, td6)"
      using td_get_property_own [OF t6(1) t6'] by (simp add: gp_def)
    show "td_get_property tid ''__setitem__'' td6 = Inr (Some \<lparr>prop_type_id = s, prop_value = PropBuiltin tid ''__setitem__''\<rparr>, td6)"
      using td_get_property_own [OF t6(1) t6(2)] by (simp add: sp_def)
  qed (use kd in \<open>simp_all add: gk_def sk_def\<close>)
  with run steps show ?thesis by blast
qed

text \<open>The registries a session can have.\<close>

definition registry_state :: "typing_data \<Rightarrow> bool" where
  "registry_state td \<longleftrightarrow> (\<exists>td0. td_initialized = Inr td0 \<and> td_step\<^sup>*\<^sup>* td0 td)"

lemma registry_state_inv: "registry_state td \<Longrightarrow> td_inv td"
  using td_initialized_inv td_steps_keep [of _ td] unfolding registry_state_def by (metis Inr_inject)

lemma registry_state_steps: "registry_state td \<Longrightarrow> td_step\<^sup>*\<^sup>* td td' \<Longrightarrow> registry_state td'"
  by (auto simp: registry_state_def)

lemma registry_state_exists: "\<exists>td. registry_state td"
  using td_initialized_inv by (auto simp: registry_state_def)

lemma registry_builtin: "registry_state td \<Longrightarrow> known td (builtin_tag b)"
  using registry_state_inv by (auto simp: td_inv_def known_kind)



text \<open>
  The type of a tuple. For registered element types, \<open>tuple\<close> succeeds by registry operations
  only and returns a tuple type with exactly these members, whose \<open>__getitem__\<close> takes the tuple
  and an integer and returns the element type (the one member type, the union of the sorted
  member types, or never for the empty tuple) and whose \<open>__setitem__\<close> takes a value of it.
\<close>

theorem tuple_type:
  assumes "registry_state td" and "list_all (known td) elems"
  shows "\<exists>tid td'. td_tuple elems td = Inr (tid, td') \<and> registry_state td' \<and> tuple_type_ok td' elems tid"
  using td_tuple_ok [OF registry_state_inv [OF assms(1)], of elems] assms registry_state_steps by (auto simp: list_all_iff)

theorem tuple_type_witness:
  "\<exists>td tid td'. registry_state td \<and> td_tuple [1, 3, 1] td = Inr (tid, td') \<and> tuple_type_ok td' [1, 3, 1] tid"
proof -
  obtain td where td: "registry_state td" using registry_state_exists by blast
  have "list_all (known td) [1, 3, 1]" using registry_builtin [OF td, of BInt] registry_builtin [OF td, of BStr] by simp
  from tuple_type [OF td this] td show ?thesis by blast
qed

section \<open>Unification\<close>

text \<open>When the parameter at position \<open>i\<close> takes an argument of the given type.\<close>

definition accepts :: "nat \<Rightarrow> type_id \<Rightarrow> type_id \<Rightarrow> bool" where
  "accepts i p a \<longleftrightarrow> p = builtin_tag BUnknown \<or> p = a \<or> i = 0 \<and> p = builtin_tag BTSelf"

lemma arg_mismatches_nil:
  "length ps = length as \<Longrightarrow> arg_mismatches ix ps as = [] \<longleftrightarrow> (\<forall>i < length as. ps ! i = builtin_tag BUnknown \<or> ps ! i = as ! i)"
proof (induction ix ps as rule: arg_mismatches.induct)
  case (1 ix l ps r as)
  then show ?case by (auto simp: All_less_Suc2 simp del: builtin_tag.simps)
qed auto

definition params_of :: "type_id list option \<Rightarrow> type_id list" where
  "params_of ps = (case ps of None \<Rightarrow> [] | Some ps \<Rightarrow> ps)"

lemma drop_self_mismatches:
  assumes "length ps = length as" and "drop_self ps as = (ps', as')"
  shows "arg_mismatches 0 ps' as' = [] \<longleftrightarrow> (\<forall>i < length as. accepts i (ps ! i) (as ! i))"
proof (cases "ps \<noteq> [] \<and> hd ps = builtin_tag BTSelf")
  case True
  then obtain p qs a bs where "ps = p # qs" "as = a # bs" "p = builtin_tag BTSelf" using assms(1) by (cases ps; cases as) auto
  with assms arg_mismatches_nil [of qs bs 0] show ?thesis by (auto simp: accepts_def All_less_Suc2 simp del: builtin_tag.simps)
next
  case False
  then have "ps' = ps" "as' = as" using assms by (cases ps; cases as; auto)+
  moreover have "accepts i (ps ! i) (as ! i) \<longleftrightarrow> ps ! i = builtin_tag BUnknown \<or> ps ! i = as ! i" if "i < length as" for i
    using False assms(1) that by (cases ps) (auto simp: accepts_def simp del: builtin_tag.simps)
  ultimately show ?thesis using arg_mismatches_nil [OF assms(1)] by auto
qed

text \<open>
  Unification of a call. A call of a callable type is accepted exactly when the numbers of
  parameters and arguments agree, the expected result is unknown or the declared one, and every
  parameter is unknown, equal to the type of its argument, or a leading \<open>self\<close>. The error
  \<open>UnequalArity\<close> is returned for a wrong number of arguments and also, with two equal numbers,
  for a wrong result type.
\<close>

theorem unify_func_accepts:
  assumes "td_get_python_type_of td f = Some (PyCallable ps r)"
  shows "(td_unify_func td f args ret = Inr (Inr (PyCallable ps r)) \<longleftrightarrow>
      length args = length (params_of ps) \<and> (ret = builtin_tag BUnknown \<or> ret = r)
      \<and> (\<forall>i < length args. accepts i (params_of ps ! i) (args ! i)))
    \<and> (td_unify_func td f args ret = Inr (Inl (UnequalArity n m)) \<longleftrightarrow>
      n = length (params_of ps) \<and> m = length args \<and> (n \<noteq> m \<or> ret \<noteq> builtin_tag BUnknown \<and> ret \<noteq> r))
    \<and> td_unify_func td f args ret \<noteq> Inr (Inl NotCallableFailure)"
proof -
  obtain t where t: "td_get_type_repr td f = Some t" "ty_kind t = PyCallable ps r" using assms by (auto simp: kind_repr)
  obtain ps' as' where d: "drop_self (params_of ps) args = (ps', as')" by fastforce
  show ?thesis
  proof (cases "length (params_of ps) \<noteq> length args \<or> ret \<noteq> builtin_tag BUnknown \<and> r \<noteq> ret")
    case True
    then have "td_unify_func td f args ret = Inr (Inl (UnequalArity (length (params_of ps)) (length args)))"
      using t by (simp add: td_unify_func_def params_of_def Let_def)
    with True show ?thesis by auto
  next
    case False
    then have "td_unify_func td f args ret =
        (case arg_mismatches 0 ps' as' of [] \<Rightarrow> Inr (Inr (PyCallable ps r)) | errors \<Rightarrow> Inr (Inl (BadArgumentTypes errors)))"
      using t d by (auto simp: td_unify_func_def params_of_def Let_def split: list.splits simp del: builtin_tag.simps)
    with False drop_self_mismatches [OF _ d] show ?thesis by (cases "arg_mismatches 0 ps' as'") auto
  qed
qed

theorem unify_func_accepts_witness:
  "\<exists>td f. td_get_python_type_of td f = Some (PyCallable (Some [11, 1]) 3)
     \<and> td_unify_func td f [300, 1] 3 = Inr (Inr (PyCallable (Some [11, 1]) 3))
     \<and> td_unify_func td f [300, 1] 4 = Inr (Inl (UnequalArity 2 2))"
proof -
  obtain td where td: "registry_state td" using registry_state_exists by blast
  let ?k = "PyCallable (Some [11, 1]) 3"
  have "\<forall>t \<in> kind_refs ?k. known td t"
    using registry_builtin [OF td, of BInt] registry_builtin [OF td, of BStr] registry_builtin [OF td, of BTSelf] by simp
  then obtain f td' where f: "td_get_python_type_of td' f = Some ?k" using td_insert_step [OF registry_state_inv [OF td]] by blast
  have "td_unify_func td' f [300, 1] 3 = Inr (Inr ?k)"
    using unify_func_accepts [OF f, of "[300, 1]" 3 0 0] by (simp add: params_of_def accepts_def All_less_Suc2)
  moreover have "td_unify_func td' f [300, 1] 4 = Inr (Inl (UnequalArity 2 2))"
    using unify_func_accepts [OF f, of "[300, 1]" 4 2 2] by (simp add: params_of_def)
  ultimately show ?thesis using f by blast
qed

section \<open>Unions\<close>

definition member_set :: "typing_data \<Rightarrow> type_id \<Rightarrow> type_id set" where
  "member_set td t = (case td_get_python_type_of td t of Some (PyUnion (Some ms)) \<Rightarrow> set ms | Some (PyUnion None) \<Rightarrow> {} | _ \<Rightarrow> {t})"

lemma member_set_eq: "td_get_type_repr td t = Some r \<Longrightarrow> member_set td t = set (union_members (t, r))"
  by (auto simp: member_set_def union_members_def td_get_python_type_of_def td_get_type_repr_def split: python_type.splits option.splits)

lemma member_set_known: "td_inv td \<Longrightarrow> known td t \<Longrightarrow> m \<in> member_set td t \<Longrightarrow> known td m"
  unfolding member_set_def td_inv_def refs_below_def
  by (fastforce split: option.splits python_type.splits)

lemma td_make_union_ok:
  assumes "registry_state td" and "known td a" and "known td b"
    and order: "\<And>xs. distinct xs \<Longrightarrow> distinct (order xs) \<and> set (order xs) = set xs"
  shows "\<exists>u td' ms. td_make_union order a b td = Inr (Inr (u, td')) \<and> registry_state td'
    \<and> td_get_python_type_of td' u = Some (PyUnion (if ms = [] then None else Some ms))
    \<and> distinct ms \<and> set ms = member_set td a \<union> member_set td b"
proof -
  have inv: "td_inv td" using registry_state_inv assms(1) .
  obtain l r where l: "td_get_type_repr td a = Some l" "td_get_type_repr td b = Some r" using assms(2,3) by (auto simp: known_def)
  define ms where "ms = order (remdups (union_members (a, l) @ union_members (b, r)))"
  have ms: "distinct ms" "set ms = member_set td a \<union> member_set td b"
    using order [of "remdups (union_members (a, l) @ union_members (b, r))"] member_set_eq [OF l(1)] member_set_eq [OF l(2)]
    unfolding ms_def by simp_all
  let ?k = "PyUnion (if ms = [] then None else Some ms)"
  have "\<forall>t \<in> kind_refs ?k. known td t"
    using ms(2) member_set_known [OF inv assms(2)] member_set_known [OF inv assms(3)] by auto
  then obtain u td' where u: "td_insert (ty_of_kind ?k) td = Inr (u, td')" "td_step td td'" "td_get_python_type_of td' u = Some ?k"
    using td_insert_step [OF inv] by blast
  have "td_make_union order a b td = Inr (Inr (u, td'))" using l u(1) by (auto simp: td_make_union_def ms_def Let_def)
  moreover have "registry_state td'" using registry_state_steps [OF assms(1)] u(2) by blast
  ultimately show ?thesis using u(3) ms by blast
qed

text \<open>
  Unions. For registered types, \<open>make_union\<close> succeeds by registry operations only, and the
  members of the type it returns are the members of both sides, each once, where a union
  contributes its members and any other type itself. The argument \<open>order\<close> is the order in which
  the hash set hands out its elements; all that is known of it is that each comes once.
\<close>

theorem make_union_members:
  assumes "registry_state td" and "known td a" and "known td b"
    and order: "\<And>xs. distinct xs \<Longrightarrow> distinct (order xs) \<and> set (order xs) = set xs"
  shows "\<exists>u td' ms. td_make_union order a b td = Inr (Inr (u, td')) \<and> registry_state td'
    \<and> td_get_python_type_of td' u = Some (PyUnion (if ms = [] then None else Some ms))
    \<and> distinct ms \<and> set ms = member_set td a \<union> member_set td b"
  by (rule td_make_union_ok [OF assms])

theorem make_union_members_witness:
  "\<exists>td u td' ms. td_make_union rev 1 3 td = Inr (Inr (u, td')) \<and> td_get_python_type_of td' u = Some (PyUnion (if ms = [] then None else Some ms))
     \<and> set ms = {1, 3}"
proof -
  obtain td where td: "registry_state td" using registry_state_exists by blast
  have k: "known td 1" "known td 3" using registry_builtin [OF td, of BInt] registry_builtin [OF td, of BStr] by simp_all
  have "td_get_python_type_of td (builtin_tag b) = Some (PyBuiltin b)" for b using registry_state_inv [OF td] by (simp add: td_inv_def)
  from this [of BInt] this [of BStr] have m: "member_set td 1 = {1}" "member_set td 3 = {3}" by (simp_all add: member_set_def)
  obtain u td' ms where "td_make_union rev 1 3 td = Inr (Inr (u, td'))"
    "td_get_python_type_of td' u = Some (PyUnion (if ms = [] then None else Some ms))" "set ms = member_set td 1 \<union> member_set td 3"
    using make_union_members [OF td k, of rev] by auto
  moreover from this(3) m have "set ms = {1, 3}" by auto
  ultimately show ?thesis by blast
qed

lemma td_make_union_builtin:
  assumes bt: "\<And>c. td_get_python_type_of td (builtin_tag c) = Some (PyBuiltin c)"
    and ab: "a \<noteq> b" and ne: "order [builtin_tag a, builtin_tag b] \<noteq> []"
    and run: "td_make_union order (builtin_tag a) (builtin_tag b) td = Inr (Inr (u, td'))"
  shows "td_insert (ty_of_kind (PyUnion (Some (order [builtin_tag a, builtin_tag b])))) td = Inr (u, td')"
proof -
  have ab': "builtin_tag a \<noteq> builtin_tag b" using ab find_builtin by (metis option.inject)
  obtain l r where l: "td_get_type_repr td (builtin_tag a) = Some l" "ty_kind l = PyBuiltin a"
    "td_get_type_repr td (builtin_tag b) = Some r" "ty_kind r = PyBuiltin b"
    using bt [of a] bt [of b] by (auto simp: kind_repr)
  have "union_members (builtin_tag a, l) = [builtin_tag a]" "union_members (builtin_tag b, r) = [builtin_tag b]"
    using l by (simp_all add: union_members_def)
  with l ab' ne run show ?thesis by (simp add: td_make_union_def Let_def and_then_Inr_iff)
qed

text \<open>
  Unions are not canonical. When the hash set hands out the same two builtin types in two
  different orders, two calls of \<open>make_union\<close> on the same arguments return two different types,
  although every other constructor of types returns the same type for the same arguments.
\<close>

theorem make_union_order:
  assumes "registry_state td" and "a \<noteq> b"
    and "td_make_union order1 (builtin_tag a) (builtin_tag b) td = Inr (Inr (u1, td1))"
    and "td_make_union order2 (builtin_tag a) (builtin_tag b) td1 = Inr (Inr (u2, td2))"
    and "order1 [builtin_tag a, builtin_tag b] \<noteq> []" and "order2 [builtin_tag a, builtin_tag b] \<noteq> []"
  shows "u1 = u2 \<longleftrightarrow> order1 [builtin_tag a, builtin_tag b] = order2 [builtin_tag a, builtin_tag b]"
proof -
  have inv: "td_inv td" using registry_state_inv [OF assms(1)] .
  have wf: "td_wf td" and bt: "\<And>c. td_get_python_type_of td (builtin_tag c) = Some (PyBuiltin c)" using inv by (simp_all add: td_inv_def)
  note 1 = td_make_union_builtin [OF bt assms(2) assms(5) assms(3)]
  have st: "td_wf td1 \<and> td.grows td td1" using td.put_ok [OF wf 1] by blast
  have bt1: "td_get_python_type_of td1 (builtin_tag c) = Some (PyBuiltin c)" for c
    using bt st td.grows_look by blast
  note 2 = td_make_union_builtin [OF bt1 assms(2) assms(6) assms(4)]
  show ?thesis using td.put_eq_iff [OF wf 1 _ _ 2] st by simp
qed

theorem make_union_order_witness:
  "\<exists>td u1 td1 u2 td2. td_make_union (\<lambda>xs. xs) 1 3 td = Inr (Inr (u1, td1)) \<and> td_make_union rev 1 3 td1 = Inr (Inr (u2, td2)) \<and> u1 \<noteq> u2"
proof -
  obtain td where td: "registry_state td" using registry_state_exists by blast
  have run: "\<exists>u td'. td_make_union order (builtin_tag BInt) (builtin_tag BStr) s = Inr (Inr (u, td')) \<and> registry_state td'"
    if s: "registry_state s" and "\<And>xs. distinct xs \<Longrightarrow> distinct (order xs) \<and> set (order xs) = set xs" for s order
    using td_make_union_ok [OF s registry_builtin [OF s, of BInt] registry_builtin [OF s, of BStr], of order] that(2) by blast
  obtain u1 td1 where 1: "td_make_union (\<lambda>xs. xs) (builtin_tag BInt) (builtin_tag BStr) td = Inr (Inr (u1, td1))" "registry_state td1"
    using run [OF td, of "\<lambda>xs. xs"] by auto
  obtain u2 td2 where 2: "td_make_union rev (builtin_tag BInt) (builtin_tag BStr) td1 = Inr (Inr (u2, td2))"
    using run [OF 1(2), of rev] by auto
  have "u1 \<noteq> u2" using make_union_order [OF td _ 1(1) 2] by simp
  with 1 2 show ?thesis by (metis builtin_tag.simps(1,3))
qed

end
