(* ===== verification/TypeLayout.thy ===== *)
theory TypeLayout
  imports TypingLaws
begin

text \<open>
  Layouts of structs and sizes of types (\<open>calculate_layout\<close>, \<open>layout_of\<close> of
  \<^verbatim>\<open>montyc_core/src/typing.rs\<close>): fields do not overlap, the recursion over the members of a type
  ends, and how the two computations disagree on tuples.
\<close>

section \<open>Layouts\<close>

lemma round_up_ge: "0 < a \<Longrightarrow> n \<le> round_up n a"
  unfolding round_up_def using div_mult_mod_eq [of "n + a - 1" a] mod_less_divisor [of a "n + a - 1"] by linarith

lemma round_up_dvd [simp]: "a dvd round_up n a"
  by (simp add: round_up_def)

lemma round_up_less: "0 < a \<Longrightarrow> round_up n a < n + a"
  unfolding round_up_def using div_mult_mod_eq [of "n + a - 1" a] by linarith

text \<open>What the loop over the fields maintains: \<open>done\<close> are the fields placed so far.\<close>

definition placed :: "layout list \<Rightarrow> nat list \<Rightarrow> layout \<Rightarrow> bool" where
  "placed fs offsets l \<longleftrightarrow> length offsets = length fs \<and> 0 < l_align l
     \<and> (\<forall>i < length fs. l_align (fs ! i) dvd offsets ! i \<and> offsets ! i < 2 ^ 31
          \<and> l_align (fs ! i) \<le> l_align l \<and> offsets ! i + l_size (fs ! i) \<le> l_size l)
     \<and> (\<forall>i j. i < j \<longrightarrow> j < length fs \<longrightarrow> offsets ! i + l_size (fs ! i) \<le> offsets ! j)
     \<and> (l_align l = 1 \<or> (\<exists>f \<in> set fs. l_align f = l_align l)) \<and> layout_ok l"

lemma placed_extend:
  assumes p: "placed fs offsets l" and a: "0 < l_align f" and e: "layout_extend l f = Some (l', off)" and o: "off < 2 ^ 31"
  shows "placed (fs @ [f]) (offsets @ [off]) l'"
proof -
  have e': "off = round_up (l_size l) (l_align f)" "l_size l' = off + l_size f" "l_align l' = max (l_align l) (l_align f)" "layout_ok l'"
    using e by (auto simp: layout_extend_def Let_def split: if_splits)
  have ge: "l_size l \<le> off" using round_up_ge [OF a] e'(1) by simp
  have len: "length offsets = length fs" using p by (simp add: placed_def)
  have 1: "l_align ((fs @ [f]) ! i) dvd (offsets @ [off]) ! i \<and> (offsets @ [off]) ! i < 2 ^ 31
      \<and> l_align ((fs @ [f]) ! i) \<le> l_align l' \<and> (offsets @ [off]) ! i + l_size ((fs @ [f]) ! i) \<le> l_size l'" if "i < length (fs @ [f])" for i
  proof (cases "i < length fs")
    case True
    then have "l_align (fs ! i) dvd offsets ! i" "offsets ! i < 2 ^ 31" "l_align (fs ! i) \<le> l_align l" "offsets ! i + l_size (fs ! i) \<le> l_size l"
      using p by (simp_all add: placed_def)
    with True len ge e' show ?thesis by (simp add: nth_append)
  next
    case False
    with that have "i = length fs" by simp
    with len e' o show ?thesis by (simp add: nth_append)
  qed
  have 2: "(offsets @ [off]) ! i + l_size ((fs @ [f]) ! i) \<le> (offsets @ [off]) ! j" if "i < j" "j < length (fs @ [f])" for i j
  proof (cases "j < length fs")
    case True
    with that p len show ?thesis by (simp add: nth_append placed_def)
  next
    case False
    with that have j: "j = length fs" "i < length fs" by auto
    then have "offsets ! i + l_size (fs ! i) \<le> l_size l" using p by (simp add: placed_def)
    with j len ge show ?thesis by (simp add: nth_append)
  qed
  have 3: "l_align l' = 1 \<or> (\<exists>g \<in> set (fs @ [f]). l_align g = l_align l')" using p a e'(3) by (auto simp: placed_def max_def)
  show ?thesis unfolding placed_def using 1 2 3 e'(3,4) a len by (auto simp: less_max_iff_disj)
qed

lemma layout_fields_placed:
  "placed fs offsets l \<Longrightarrow> \<forall>f \<in> set gs. 0 < l_align f \<Longrightarrow> layout_fields gs l offsets = Inr (l', offsets') \<Longrightarrow> placed (fs @ gs) offsets' l'"
proof (induction gs arbitrary: fs l offsets)
  case (Cons g gs)
  obtain l1 off where 1: "layout_extend l g = Some (l1, off)" "off < 2 ^ 31" "layout_fields gs l1 (offsets @ [off]) = Inr (l', offsets')"
    using Cons.prems(3) by (auto simp: and_then_Inr_iff split: if_splits)
  have "placed (fs @ [g]) (offsets @ [off]) l1" using placed_extend [OF Cons.prems(1) _ 1(1,2)] Cons.prems(2) by simp
  from Cons.IH [OF this _ 1(3)] Cons.prems(2) show ?case by simp
qed simp

text \<open>
  C36. Struct layouts are sound. When \<open>calculate_layout\<close> returns, every field lies at an offset
  that is a multiple of its alignment and fits an \<open>i32\<close>, the fields follow one another without
  overlap, all of them lie inside the struct, whose size is a non-zero multiple of its
  alignment, and the alignment is the largest of the fields'.
\<close>

theorem calculate_layout_sound:
  assumes al: "list_all (\<lambda>f. 0 < l_align f) fs" and run: "calculate_layout fs = Inr (l, offsets)"
  shows "length offsets = length fs
    \<and> (\<forall>i < length fs. l_align (fs ! i) dvd offsets ! i \<and> offsets ! i < 2 ^ 31
         \<and> offsets ! i + l_size (fs ! i) \<le> l_size l \<and> l_align (fs ! i) \<le> l_align l)
    \<and> (\<forall>j < length fs. \<forall>i < j. offsets ! i + l_size (fs ! i) \<le> offsets ! j)
    \<and> l_align l dvd l_size l \<and> l_size l \<noteq> 0 \<and> l_size l \<le> isize_max
    \<and> (l_align l = 1 \<or> (\<exists>f \<in> set fs. l_align f = l_align l))"
proof -
  let ?l0 = "\<lparr>l_size = 0, l_align = 1\<rparr>"
  obtain l1 where l1: "layout_fields fs ?l0 [] = Inr (l1, offsets)" "l = pad_to_align l1" "l_size l \<noteq> 0"
    using run by (auto simp: calculate_layout_def Let_def and_then_Inr_iff split: prod.splits)
  have "placed [] [] ?l0" by (simp add: placed_def layout_ok_def round_up_def isize_max_def)
  from layout_fields_placed [OF this _ l1(1)] al have p: "placed fs offsets l1" by (simp add: list_all_iff)
  have l: "l_size l = round_up (l_size l1) (l_align l1)" "l_align l = l_align l1" using l1(2) by (simp_all add: pad_to_align_def)
  have le: "l_size l1 \<le> l_size l" using round_up_ge [of "l_align l1" "l_size l1"] p l(1) by (simp add: placed_def)
  have bd: "l_size l \<le> isize_max" using p l(1) by (simp add: placed_def layout_ok_def)
  have dv: "l_align l dvd l_size l" using l by simp
  show ?thesis using p le bd dv l1(3) unfolding placed_def l(2) by (meson le_trans)
qed

theorem calculate_layout_sound_witness:
  "calculate_layout [\<lparr>l_size = 1, l_align = 1\<rparr>, \<lparr>l_size = 8, l_align = 8\<rparr>, \<lparr>l_size = 2, l_align = 2\<rparr>] =
     Inr (\<lparr>l_size = 24, l_align = 8\<rparr>, [0, 8, 16]) \<and> (8 :: nat) dvd 24"
proof -
  let ?fs = "[\<lparr>l_size = 1, l_align = 1\<rparr>, \<lparr>l_size = 8, l_align = 8\<rparr>, \<lparr>l_size = 2, l_align = 2\<rparr>]"
  have r: "calculate_layout ?fs = Inr (\<lparr>l_size = 24, l_align = 8\<rparr>, [0, 8, 16])"
    by (simp add: calculate_layout_def layout_extend_def layout_ok_def pad_to_align_def round_up_def isize_max_def Let_def)
  with calculate_layout_sound [of ?fs "\<lparr>l_size = 24, l_align = 8\<rparr>" "[0, 8, 16]"] show ?thesis by simp
qed

section \<open>Sizes of types\<close>

lemma collect_layouts_Inr: "collect_layouts xs = Some (Inr ls) \<longleftrightarrow> xs = map (\<lambda>l. Some (Inr l)) ls"
proof (induction xs arbitrary: ls rule: collect_layouts.induct)
  case (4 l xs)
  show ?case
  proof (cases ls)
    case (Cons l' ls')
    with 4 [of ls'] show ?thesis by (auto simp: and_then_Inr_iff)
  qed (auto simp: and_then_Inr_iff)
qed auto

lemma collect_layouts_total: "\<forall>x \<in> set xs. x \<noteq> None \<Longrightarrow> \<exists>r. collect_layouts xs = Some r"
  by (induction xs rule: collect_layouts.induct) auto

lemma collect_layouts_cong: "list_all2 (\<lambda>x y. x \<noteq> None \<longrightarrow> y = x) xs ys \<Longrightarrow> collect_layouts xs = Some r \<Longrightarrow> collect_layouts ys = Some r"
proof (induction xs arbitrary: ys r rule: collect_layouts.induct)
  case (4 l xs)
  then show ?case by (cases ys) auto
qed (auto simp: list_all2_Cons1)

lemma max_by_size_max: "max_by_size ls = Some l \<Longrightarrow> l \<in> set ls \<and> (\<forall>x \<in> set ls. l_size x \<le> l_size l)"
proof (induction ls arbitrary: l rule: max_by_size.induct)
  case (2 a ls)
  have "foldl (\<lambda>best x. if l_size x < l_size best then best else x) a ls \<in> set (a # ls)
      \<and> (\<forall>x \<in> set (a # ls). l_size x \<le> l_size (foldl (\<lambda>best x. if l_size x < l_size best then best else x) a ls))"
  proof (induction ls arbitrary: a)
    case (Cons b ls)
    from Cons.IH [of "if l_size b < l_size a then a else b"] show ?case by (auto split: if_splits intro: order_trans)
  qed simp
  with 2 show ?case by auto
qed simp

text \<open>The members whose layouts are combined.\<close>

fun layout_members :: "python_type \<Rightarrow> type_id list option option" where
  "layout_members (PyClass _ ms) = Some ms"
| "layout_members (PyTuple ms) = Some ms"
| "layout_members (PyUnion ms) = Some ms"
| "layout_members _ = None"

lemma layout_of_members:
  assumes "td_get_python_type_of td tid = Some k" and "layout_members k = Some ms"
  shows "layout_of (Suc fuel) td tid =
    map_option (\<lambda>r. and_then r (\<lambda>ls. unwrap (max_by_size ls))) (collect_layouts (map (layout_of fuel td) (params_of ms)))"
  using assms by (cases k) (simp_all add: params_of_def)

lemma layout_of_leaf:
  assumes "td_get_python_type_of td tid = Some k" and "layout_members k = None"
  shows "layout_of (Suc fuel) td tid = layout_of (Suc fuel') td tid \<and> layout_of (Suc fuel) td tid \<noteq> None"
  using assms by (cases k) simp_all

lemma layout_of_mono: "layout_of n td tid = Some r \<Longrightarrow> n \<le> m \<Longrightarrow> layout_of m td tid = Some r"
proof (induction n arbitrary: m tid r)
  case (Suc n)
  obtain m' where m: "m = Suc m'" "n \<le> m'" using Suc.prems(2) by (cases m) auto
  show ?case
  proof (cases "td_get_python_type_of td tid")
    case k: (Some k)
    show ?thesis
    proof (cases "layout_members k")
      case None
      have "layout_of (Suc m') td tid = layout_of (Suc n) td tid" using layout_of_leaf [OF k None] by blast
      with Suc.prems(1) m(1) show ?thesis by (simp del: layout_of.simps)
    next
      case (Some ms)
      have "list_all2 (\<lambda>x y. x \<noteq> None \<longrightarrow> y = x) (map (layout_of n td) (params_of ms)) (map (layout_of m' td) (params_of ms))"
        unfolding list_all2_map1 list_all2_map2 list_all2_same using Suc.IH [OF _ m(2)] by (metis option.exhaust)
      from collect_layouts_cong [OF this] show ?thesis
        using Suc.prems(1) unfolding m(1) layout_of_members [OF k Some] by auto
    qed
  qed (use Suc.prems m in simp)
qed simp

lemma layout_members_refs: "layout_members k = Some ms \<Longrightarrow> set (params_of ms) \<subseteq> kind_refs k"
  by (cases k; cases ms) (auto simp: params_of_def)

lemma layout_of_total:
  assumes "refs_below td"
  shows "known td tid \<Longrightarrow> tid < fuel \<Longrightarrow> \<exists>r. layout_of fuel td tid = Some r"
proof (induction fuel arbitrary: tid)
  case (Suc n)
  obtain k where k: "td_get_python_type_of td tid = Some k" using Suc.prems(1) by (auto simp: known_kind)
  show ?case
  proof (cases "layout_members k")
    case None
    with layout_of_leaf [OF k None, of n n] show ?thesis by auto
  next
    case (Some ms)
    have "layout_of n td m \<noteq> None" if "m \<in> set (params_of ms)" for m
    proof -
      have "m < tid \<and> known td m" using assms k layout_members_refs [OF Some] that unfolding refs_below_def by blast
      then show ?thesis using Suc.IH [of m] Suc.prems(2) by auto
    qed
    then have "\<exists>r. collect_layouts (map (layout_of n td) (params_of ms)) = Some r" by (intro collect_layouts_total) auto
    then show ?thesis unfolding layout_of_members [OF k Some] by auto
  qed
qed simp

lemma layout_of_positive: "layout_of n td tid = Some (Inr l) \<Longrightarrow> 0 < l_size l \<and> 0 < l_align l"
proof (induction n arbitrary: tid l)
  case (Suc n)
  show ?case
  proof (cases "td_get_python_type_of td tid")
    case (Some k)
    show ?thesis
    proof (cases "layout_members k")
      case None
      then show ?thesis using Suc.prems Some
        by (cases k) (auto simp: I64_LAYOUT_def and_then_Inr_iff pad_to_align_def layout_bytes_def round_up_def)
    next
      case ms: (Some ms)
      then obtain ls where "map (layout_of n td) (params_of ms) = map (\<lambda>l. Some (Inr l)) ls" "max_by_size ls = Some l"
        using Suc.prems unfolding layout_of_members [OF Some ms] by (auto simp: and_then_Inr_iff collect_layouts_Inr)
      then have "Some (Inr l) \<in> set (map (layout_of n td) (params_of ms))" using max_by_size_max [of ls l] by auto
      then show ?thesis using Suc.IH by (metis ex_map_conv imageE list.set_map)
    qed
  qed (use Suc.prems in simp)
qed simp



text \<open>
  The size of a tuple is too small. \<open>layout_of\<close> gives a tuple the layout of its largest
  member, as for a union; whenever the members can be laid out as a struct, which is how the
  code generator allocates and fills a tuple, and there is more than one of them, the struct is
  larger than the size reported for the tuple.
\<close>

theorem tuple_size_below_struct:
  assumes "td_get_python_type_of td tid = Some (PyTuple (Some ms))"
    and "map (layout_of fuel td) ms = map (\<lambda>l. Some (Inr l)) ls" and "2 \<le> length ls"
    and "calculate_layout ls = Inr (struct, offsets)"
  shows "\<exists>l. layout_of (Suc fuel) td tid = Some (Inr l) \<and> l_size l < l_size struct"
proof -
  have pos: "0 < l_size x \<and> 0 < l_align x" if "x \<in> set ls" for x
    using assms(2) that layout_of_positive [of fuel td] by (metis ex_map_conv imageE image_eqI list.set_map)
  let ?l0 = "\<lparr>l_size = 0, l_align = 1\<rparr>"
  obtain l1 where l1: "layout_fields ls ?l0 [] = Inr (l1, offsets)" "struct = pad_to_align l1"
    using assms(4) by (auto simp: calculate_layout_def Let_def and_then_Inr_iff split: prod.splits)
  have "placed [] [] ?l0" by (simp add: placed_def layout_ok_def round_up_def isize_max_def)
  from layout_fields_placed [OF this _ l1(1)] pos have p: "placed ls offsets l1" by simp
  have le: "l_size l1 \<le> l_size struct" using round_up_ge [of "l_align l1" "l_size l1"] p l1(2) by (simp add: placed_def pad_to_align_def)
  obtain l where l: "max_by_size ls = Some l" using assms(3) by (cases ls) auto
  have "layout_of (Suc fuel) td tid = Some (Inr l)"
    using layout_of_members [OF assms(1), of "Some ms" fuel] assms(2) l collect_layouts_Inr [of "map (\<lambda>l. Some (Inr l)) ls" ls]
    by (simp add: params_of_def del: layout_of.simps)
  moreover have "l_size l < l_size struct"
  proof -
    obtain i where i: "i < length ls" "ls ! i = l" using max_by_size_max [OF l] by (auto simp: in_set_conv_nth)
    have end_i: "offsets ! i + l_size l \<le> l_size l1" using p i by (auto simp: placed_def)
    show ?thesis
    proof (cases i)
      case 0
      have "offsets ! 0 + l_size l \<le> offsets ! 1" "offsets ! 1 + l_size (ls ! 1) \<le> l_size l1"
        using p i 0 assms(3) by (auto simp: placed_def)
      moreover have "0 < l_size (ls ! 1)" using pos [of "ls ! 1"] assms(3) by simp
      ultimately show ?thesis using le by linarith
    next
      case (Suc j)
      have "offsets ! 0 + l_size (ls ! 0) \<le> offsets ! i" using p i Suc by (auto simp: placed_def)
      moreover have "0 < l_size (ls ! 0)" using pos [of "ls ! 0"] assms(3) by (cases ls) auto
      ultimately show ?thesis using le end_i by linarith
    qed
  qed
  ultimately show ?thesis by blast
qed

theorem tuple_size_below_struct_witness:
  "\<exists>td tid l. td_get_python_type_of td tid = Some (PyTuple (Some [1, 1])) \<and> layout_of 2 td tid = Some (Inr l) \<and> l_size l < 16"
proof -
  obtain td0 where td0: "registry_state td0" using registry_state_exists by blast
  have kn: "\<forall>t \<in> set [1, 1]. known td0 t" using registry_builtin [OF td0, of BInt] by simp
  obtain tid td where td: "td_step\<^sup>*\<^sup>* td0 td" "tuple_type_ok td [1, 1] tid"
    using td_tuple_ok [OF registry_state_inv [OF td0] kn] by blast
  then have k: "td_get_python_type_of td tid = Some (PyTuple (Some [1, 1]))" by (simp add: tuple_type_ok_def)
  have "td_get_python_type_of td (builtin_tag BInt) = Some (PyBuiltin BInt)"
    using registry_state_inv [OF registry_state_steps [OF td0 td(1)]] unfolding td_inv_def by blast
  then have l: "map (layout_of (Suc 0) td) [1, 1] = map (\<lambda>l. Some (Inr l)) [\<lparr>l_size = 8, l_align = 1\<rparr>, \<lparr>l_size = 8, l_align = 1\<rparr>]"
    by (simp add: pad_to_align_def layout_bytes_def round_up_def)
  have c: "calculate_layout [\<lparr>l_size = 8, l_align = 1\<rparr>, \<lparr>l_size = 8, l_align = 1\<rparr>] = Inr (\<lparr>l_size = 16, l_align = 1\<rparr>, [0, 8])"
    by (simp add: calculate_layout_def layout_extend_def layout_ok_def pad_to_align_def round_up_def isize_max_def Let_def)
  have "\<exists>l. layout_of (Suc (Suc 0)) td tid = Some (Inr l) \<and> l_size l < l_size \<lparr>l_size = 16, l_align = 1\<rparr>"
    by (rule tuple_size_below_struct [OF k l _ c]) simp
  with k show ?thesis by (auto simp: numeral_2_eq_2 simp del: layout_of.simps)
qed

end
