(* ===== verification/BlockCFG.thy ===== *)
theory BlockCFG
  imports FlatCode "HOL-Library.Multiset"
begin

text \<open>
  Blocks and the control flow graph of a sequence: \<open>flatseq_to_blocks\<close> of
  \<^verbatim>\<open>montyc_driver/src/typeck/mod.rs\<close> and \<^verbatim>\<open>block_cfg.rs\<close>. The graph type is petgraph's; the
  definitions take its operations as an argument and \<open>graph_laws\<close> states what petgraph documents
  of them. \<open>list_graph\<close> is an implementation of the same operations.
\<close>

section \<open>Blocks\<close>

text \<open>One step of the fold: \<open>rblocks\<close> holds the finished part, its last element is the open block.\<close>

definition push_inst :: "flat_inst list list \<Rightarrow> flat_inst \<Rightarrow> flat_inst list list" where
  "push_inst blocks inst_v =
     (if blocks = [] \<or> is_label (fi_op inst_v) then blocks @ [[inst_v]]
      else butlast blocks @ [last blocks @ [inst_v]])"

definition flatseq_to_blocks :: "flat_inst list \<Rightarrow> flat_inst list list" where
  "flatseq_to_blocks inst_v = foldl push_inst [] inst_v"

section \<open>The graph operations\<close>

record ('g, 'n, 'e) graph_ops =
  g_empty :: 'g
  g_add_node :: "'n \<Rightarrow> 'g \<Rightarrow> (nat \<times> 'g) rust"
  g_add_edge :: "nat \<Rightarrow> nat \<Rightarrow> 'e \<Rightarrow> 'g \<Rightarrow> 'g rust"
  g_weights :: "'g \<Rightarrow> 'n list"
  g_set_weight :: "nat \<Rightarrow> 'n \<Rightarrow> 'g \<Rightarrow> 'g"
  g_out :: "'g \<Rightarrow> nat \<Rightarrow> (nat \<times> 'e) list"
  g_edges :: "'g \<Rightarrow> (nat \<times> nat) list"
  g_update_edge :: "nat \<Rightarrow> nat \<Rightarrow> 'e \<Rightarrow> 'g \<Rightarrow> 'g rust"

text \<open>
  What petgraph documents: node indices count up from 0 and the index type holds \<open>2 ^ 32 - 1\<close> of
  them; adding an edge between two nodes adds it to the outgoing edges of the first, in an order
  that is not part of the contract; adding an edge to a node that does not exist panics;
  updating an edge leaves the nodes and the other edges alone, and there is one such edge after it.
\<close>

definition graph_laws :: "('g, 'n, 'e) graph_ops \<Rightarrow> bool" where
  "graph_laws G \<longleftrightarrow> g_weights G (g_empty G) = [] \<and> (\<forall>i. g_out G (g_empty G) i = [])
     \<and> (\<forall>w g. length (g_weights G g) < 2 ^ 32 - 1 \<longrightarrow>
          (\<exists>g'. g_add_node G w g = Inr (length (g_weights G g), g')
             \<and> g_weights G g' = g_weights G g @ [w] \<and> (\<forall>i. g_out G g' i = g_out G g i)))
     \<and> (\<forall>a b e g. a < length (g_weights G g) \<longrightarrow> b < length (g_weights G g) \<longrightarrow>
          (\<exists>g'. g_add_edge G a b e g = Inr g' \<and> g_weights G g' = g_weights G g
             \<and> (\<forall>i. mset (g_out G g' i) = mset (g_out G g i) + (if i = a then {#(b, e)#} else {#}))))
     \<and> (\<forall>a b e g. length (g_weights G g) \<le> a \<or> length (g_weights G g) \<le> b \<longrightarrow>
          (\<exists>p. g_add_edge G a b e g = Inl p))
     \<and> (\<forall>a w g. a < length (g_weights G g) \<longrightarrow> g_weights G (g_set_weight G a w g) = (g_weights G g)[a := w]
          \<and> (\<forall>i. g_out G (g_set_weight G a w g) i = g_out G g i))
     \<and> (\<forall>a b g. (a, b) \<in> set (g_edges G g) \<longleftrightarrow> (\<exists>e. (b, e) \<in> set (g_out G g a)))
     \<and> (\<forall>a b e g. a < length (g_weights G g) \<longrightarrow> b < length (g_weights G g) \<longrightarrow>
          (\<exists>g'. g_update_edge G a b e g = Inr g' \<and> g_weights G g' = g_weights G g
             \<and> set (g_edges G g') = insert (a, b) (set (g_edges G g))))"

section \<open>The control flow graph\<close>

datatype block_cfg_edge = IfTrue nat | IfFalse nat | OrElse nat | Direct nat

text \<open>The jumps of a block, in order: where they come from, the value they go to, their kind.\<close>

definition inst_edges :: "nat \<Rightarrow> flat_inst list \<Rightarrow> nat \<Rightarrow> (nat \<times> nat \<times> block_cfg_edge) list" where
  "inst_edges block_index block inst_ix =
     (case fi_op (block ! inst_ix) of
        IfInst _ truthy falsey \<Rightarrow>
          (case truthy of None \<Rightarrow> [] | Some t \<Rightarrow> [(block_index, t, IfTrue inst_ix)]) @
          (case falsey of None \<Rightarrow> [] | Some f \<Rightarrow> [(block_index, f, IfFalse inst_ix)])
      | Br to \<Rightarrow>
          if 0 < inst_ix \<and> (case fi_op (block ! (inst_ix - 1)) of IfInst _ _ None \<Rightarrow> True | _ \<Rightarrow> False)
          then [(block_index, to, OrElse inst_ix)]
          else [(block_index, to, Direct inst_ix)]
      | _ \<Rightarrow> [])"

definition block_edges :: "nat \<Rightarrow> flat_inst list \<Rightarrow> (nat \<times> nat \<times> block_cfg_edge) list" where
  "block_edges block_index block = concat (map (inst_edges block_index block) [0..<length block])"

text \<open>\<open>ix as u32\<close> keeps the low 32 bits.\<close>

fun find_block :: "nat \<Rightarrow> nat \<Rightarrow> flat_inst list list \<Rightarrow> nat option" where
  "find_block ix v [] = None"
| "find_block ix v (seq # seqs) =
     (if list_ex (\<lambda>inst_v. fi_value inst_v = v) seq then Some (ix mod 2 ^ 32) else find_block (Suc ix) v seqs)"

definition find_block_of_val :: "('g, flat_inst list, 'e) graph_ops \<Rightarrow> 'g \<Rightarrow> nat \<Rightarrow> nat option" where
  "find_block_of_val G cfg v = find_block 0 v (g_weights G cfg)"

text \<open>
  The loop over \<open>append\<close>, which adds the nodes while it is iterated. \<open>blocks\<close> is the whole
  argument, which the body indexes with the node index.
\<close>

fun append_blocks ::
  "('g, flat_inst list, 'e) graph_ops \<Rightarrow> flat_inst list list \<Rightarrow> flat_inst list list
    \<Rightarrow> 'g \<times> nat option \<times> (nat \<times> nat \<times> block_cfg_edge) list \<Rightarrow> ('g \<times> nat option \<times> (nat \<times> nat \<times> block_cfg_edge) list) rust" where
  "append_blocks G blocks [] (cfg, entry, edges) = Inr (cfg, entry, edges)"
| "append_blocks G blocks (b # bs) (cfg, entry, edges) =
     and_then (g_add_node G b cfg) (\<lambda>(ix, cfg').
       (case get_at blocks ix of
          None \<Rightarrow> Inl IndexOutOfBounds
        | Some block \<Rightarrow> append_blocks G blocks bs (cfg', opt_or entry (Some ix), edges @ block_edges ix block)))"

fun connect_all ::
  "('g, flat_inst list, block_cfg_edge) graph_ops \<Rightarrow> (nat \<times> nat \<times> block_cfg_edge) list \<Rightarrow> 'g \<Rightarrow> 'g rust" where
  "connect_all G [] cfg = Inr cfg"
| "connect_all G ((from_ix, to, edge) # edges) cfg =
     and_then (unwrap (find_block_of_val G cfg to)) (\<lambda>b.
     and_then (g_add_edge G from_ix b edge cfg) (\<lambda>cfg'.
     connect_all G edges cfg'))"

definition new_from_blocks ::
  "('g, flat_inst list, block_cfg_edge) graph_ops \<Rightarrow> flat_inst list list \<Rightarrow> ('g \<times> nat option) rust" where
  "new_from_blocks G blocks =
     and_then (append_blocks G blocks blocks (g_empty G, None, [])) (\<lambda>(cfg, entry, edges).
     and_then (connect_all G edges cfg) (\<lambda>cfg'. Inr (cfg', entry)))"

text \<open>\<open>GraphLike::n_nodes\<close>.\<close>

definition n_nodes :: "('g, 'n, 'e) graph_ops \<Rightarrow> 'g \<Rightarrow> nat" where
  "n_nodes G cfg = length (g_weights G cfg)"

section \<open>A list implementation of the graph operations\<close>

definition list_graph :: "('n list \<times> (nat \<times> nat \<times> 'e) list, 'n, 'e) graph_ops" where
  "list_graph =
     \<lparr>g_empty = ([], []),
      g_add_node = (\<lambda>w (ns, es). if length ns < 2 ^ 32 - 1 then Inr (length ns, ns @ [w], es) else Inl AssertionFailed),
      g_add_edge = (\<lambda>a b e (ns, es). if a < length ns \<and> b < length ns then Inr (ns, es @ [(a, b, e)]) else Inl IndexOutOfBounds),
      g_weights = fst,
      g_set_weight = (\<lambda>a w (ns, es). (ns[a := w], es)),
      g_out = (\<lambda>(ns, es) i. map snd (filter (\<lambda>x. fst x = i) es)),
      g_edges = (\<lambda>(ns, es). map (\<lambda>(a, b, e). (a, b)) es),
      g_update_edge = (\<lambda>a b e (ns, es).
        if a < length ns \<and> b < length ns
        then Inr (ns, filter (\<lambda>(c, d, _). (c, d) \<noteq> (a, b)) es @ [(a, b, e)])
        else Inl IndexOutOfBounds)\<rparr>"

lemma list_graph_laws: "graph_laws list_graph"
  by (auto simp: graph_laws_def list_graph_def image_iff) force+

section \<open>Blocks partition the sequence\<close>

lemma push_inst_ne: "push_inst blocks inst_v \<noteq> []"
  by (simp add: push_inst_def)

lemma concat_push_inst: "concat (push_inst blocks inst_v) = concat blocks @ [inst_v]"
proof (cases "blocks = [] \<or> is_label (fi_op inst_v)")
  case False
  then have "concat blocks = concat (butlast blocks) @ last blocks"
    by (metis append_butlast_last_id concat.simps concat_append append_Nil2)
  with False show ?thesis by (simp add: push_inst_def)
qed (auto simp: push_inst_def)

text \<open>Every block is non-empty and holds a label at most at its start.\<close>

definition block_ok :: "flat_inst list \<Rightarrow> bool" where
  "block_ok b \<longleftrightarrow> b \<noteq> [] \<and> (\<forall>x \<in> set (tl b). \<not> is_label (fi_op x))"

lemma push_inst_ok:
  assumes "\<forall>b \<in> set blocks. block_ok b"
  shows "\<forall>b \<in> set (push_inst blocks inst_v). block_ok b"
proof (cases "blocks = [] \<or> is_label (fi_op inst_v)")
  case True
  then show ?thesis using assms by (auto simp: push_inst_def block_ok_def)
next
  case False
  then have "block_ok (last blocks)" "\<forall>b \<in> set (butlast blocks). block_ok b"
    using assms by (auto dest: in_set_butlastD)
  with False show ?thesis by (auto simp: push_inst_def block_ok_def)
qed

text \<open>Every block after the first starts with a label.\<close>

definition starts_ok :: "flat_inst list list \<Rightarrow> bool" where
  "starts_ok blocks \<longleftrightarrow> (\<forall>b \<in> set (tl blocks). is_label (fi_op (hd b)))"

lemma push_inst_starts:
  assumes "starts_ok blocks" and "\<forall>b \<in> set blocks. block_ok b"
  shows "starts_ok (push_inst blocks inst_v)"
proof (cases "blocks = [] \<or> is_label (fi_op inst_v)")
  case True
  then show ?thesis using assms by (cases blocks) (auto simp: push_inst_def starts_ok_def)
next
  case False
  then obtain bs b where b: "blocks = bs @ [b]" by (metis rev_exhaust)
  have "b \<noteq> []" using assms b by (auto simp: block_ok_def)
  with assms b False show ?thesis by (cases bs) (auto simp: push_inst_def starts_ok_def)
qed

lemma flatseq_to_blocks_invariant:
  "concat (flatseq_to_blocks is) = is \<and> (\<forall>b \<in> set (flatseq_to_blocks is). block_ok b)
     \<and> starts_ok (flatseq_to_blocks is) \<and> (flatseq_to_blocks is = [] \<longleftrightarrow> is = [])"
proof (induction "is" rule: rev_induct)
  case Nil
  then show ?case by (simp add: flatseq_to_blocks_def starts_ok_def)
next
  case (snoc x xs)
  have "flatseq_to_blocks (xs @ [x]) = push_inst (flatseq_to_blocks xs) x" by (simp add: flatseq_to_blocks_def)
  with snoc push_inst_ok [of "flatseq_to_blocks xs" x] push_inst_starts [of "flatseq_to_blocks xs" x]
    push_inst_ne [of "flatseq_to_blocks xs" x] show ?case by (simp add: concat_push_inst)
qed

text \<open>The properties determine the partition.\<close>

lemma first_block_unique:
  assumes "b @ xs = c @ ys" and b: "block_ok b" and c: "block_ok c"
    and ys: "ys \<noteq> [] \<longrightarrow> is_label (fi_op (hd ys))" and xs: "xs \<noteq> [] \<longrightarrow> is_label (fi_op (hd xs))"
  shows "b = c \<and> xs = ys"
proof -
  obtain us where us: "b = c @ us \<and> us @ xs = ys \<or> b @ us = c \<and> xs = us @ ys"
    using assms(1) by (auto simp: append_eq_append_conv2)
  have "us = []"
  proof (rule ccontr)
    assume ne: "us \<noteq> []"
    from us show False
    proof
      assume e: "b = c @ us \<and> us @ xs = ys"
      then have "hd us \<in> set (tl b)" using ne c by (auto simp: block_ok_def)
      moreover have "is_label (fi_op (hd us))" using e ys ne by auto
      ultimately show False using b by (auto simp: block_ok_def)
    next
      assume e: "b @ us = c \<and> xs = us @ ys"
      then have "hd us \<in> set (tl c)" using ne b by (auto simp: block_ok_def)
      moreover have "is_label (fi_op (hd us))" using e xs ne by auto
      ultimately show False using c by (auto simp: block_ok_def)
    qed
  qed
  with us show ?thesis by auto
qed

lemma hd_concat_label:
  "\<forall>b \<in> set bs. block_ok b \<Longrightarrow> \<forall>b \<in> set bs. is_label (fi_op (hd b)) \<Longrightarrow> concat bs \<noteq> [] \<longrightarrow> is_label (fi_op (hd (concat bs)))"
  by (cases bs) (auto simp: block_ok_def)

lemma blocks_unique:
  "concat bs = concat cs \<Longrightarrow> \<forall>b \<in> set bs. block_ok b \<Longrightarrow> \<forall>b \<in> set cs. block_ok b \<Longrightarrow>
     starts_ok bs \<Longrightarrow> starts_ok cs \<Longrightarrow> bs = cs"
proof (induction bs arbitrary: cs)
  case Nil
  then show ?case by (cases cs) (auto simp: block_ok_def)
next
  case (Cons b bs)
  have "b \<noteq> []" using Cons.prems(2) by (simp add: block_ok_def)
  with Cons.prems(1) obtain c cs' where c: "cs = c # cs'" by (cases cs) auto
  have "b = c \<and> concat bs = concat cs'"
    by (rule first_block_unique) (use Cons.prems c hd_concat_label in \<open>auto simp: starts_ok_def\<close>)
  moreover have "starts_ok bs" "starts_ok cs'" using Cons.prems c by (cases bs; cases cs'; auto simp: starts_ok_def)+
  ultimately show ?case using Cons c by auto
qed

text \<open>
  C5. Blocks partition a sequence. Concatenated they give the sequence back, none is empty, no
  block holds a jump target or a phi receiver after its first instruction and every block but
  the first starts with one; and this is the only such partition.
\<close>

theorem blocks_partition:
  "concat bs = is \<and> list_all block_ok bs \<and> starts_ok bs \<longleftrightarrow> bs = flatseq_to_blocks is"
proof
  assume "concat bs = is \<and> list_all block_ok bs \<and> starts_ok bs"
  then show "bs = flatseq_to_blocks is"
    using flatseq_to_blocks_invariant [of "is"] by (intro blocks_unique) (auto simp: list_all_iff)
next
  assume "bs = flatseq_to_blocks is"
  then show "concat bs = is \<and> list_all block_ok bs \<and> starts_ok bs"
    using flatseq_to_blocks_invariant [of "is"] by (simp add: list_all_iff)
qed

section \<open>Building the graph\<close>

lemma graph_lawsD:
  assumes "graph_laws G"
  shows "\<forall>w g. length (g_weights G g) < 2 ^ 32 - 1 \<longrightarrow>
      (\<exists>g'. g_add_node G w g = Inr (length (g_weights G g), g') \<and> g_weights G g' = g_weights G g @ [w] \<and> (\<forall>i. g_out G g' i = g_out G g i))"
    and "\<forall>a b e g. a < length (g_weights G g) \<longrightarrow> b < length (g_weights G g) \<longrightarrow>
      (\<exists>g'. g_add_edge G a b e g = Inr g' \<and> g_weights G g' = g_weights G g
        \<and> (\<forall>i. mset (g_out G g' i) = mset (g_out G g i) + (if i = a then {#(b, e)#} else {#})))"
    and "\<forall>a b e g. a < length (g_weights G g) \<longrightarrow> b < length (g_weights G g) \<longrightarrow>
      (\<exists>g'. g_update_edge G a b e g = Inr g' \<and> g_weights G g' = g_weights G g
        \<and> set (g_edges G g') = insert (a, b) (set (g_edges G g)))"
    and "\<forall>a w g. a < length (g_weights G g) \<longrightarrow> g_weights G (g_set_weight G a w g) = (g_weights G g)[a := w]
          \<and> (\<forall>i. g_out G (g_set_weight G a w g) i = g_out G g i)"
    and "\<forall>a b g. (a, b) \<in> set (g_edges G g) \<longleftrightarrow> (\<exists>e. (b, e) \<in> set (g_out G g a))"
  apply (insert assms [unfolded graph_laws_def])
  apply (elim conjE, assumption)+
  done

lemma graph_add_node:
  assumes "graph_laws G" and "length (g_weights G g) < 2 ^ 32 - 1"
  obtains g' where "g_add_node G w g = Inr (length (g_weights G g), g')" "g_weights G g' = g_weights G g @ [w]"
    "\<And>i. g_out G g' i = g_out G g i"
  using graph_lawsD(1) [OF assms(1)] assms(2) by blast

lemma graph_add_edge:
  assumes "graph_laws G" and "a < length (g_weights G g)" and "b < length (g_weights G g)"
  obtains g' where "g_add_edge G a b e g = Inr g'" "g_weights G g' = g_weights G g"
    "\<And>i. mset (g_out G g' i) = mset (g_out G g i) + (if i = a then {#(b, e)#} else {#})"
  using graph_lawsD(2) [OF assms(1)] assms(2,3) by blast

lemma graph_empty: "graph_laws G \<Longrightarrow> g_weights G (g_empty G) = []" "graph_laws G \<Longrightarrow> g_out G (g_empty G) i = []"
  by (simp_all add: graph_laws_def)

text \<open>All jumps of the blocks, in order.\<close>

definition all_edges :: "flat_inst list list \<Rightarrow> nat \<Rightarrow> (nat \<times> nat \<times> block_cfg_edge) list" where
  "all_edges blocks k = concat (map (\<lambda>i. block_edges i (blocks ! i)) [k..<length blocks])"

lemma append_blocks_ok:
  assumes G: "graph_laws G"
  shows "blocks = g_weights G cfg @ bs \<Longrightarrow> length blocks < 2 ^ 32 - 1 \<Longrightarrow>
    \<exists>cfg'. append_blocks G blocks bs (cfg, entry, edges) =
        Inr (cfg', opt_or entry (if bs = [] then None else Some (length (g_weights G cfg))),
             edges @ all_edges blocks (length (g_weights G cfg)))
      \<and> g_weights G cfg' = blocks \<and> (\<forall>i. g_out G cfg' i = g_out G cfg i)"
proof (induction bs arbitrary: cfg entry edges)
  case Nil
  then show ?case by (cases entry) (simp_all add: all_edges_def)
next
  case (Cons b bs)
  let ?n = "length (g_weights G cfg)"
  obtain cfg' where c: "g_add_node G b cfg = Inr (?n, cfg')" "g_weights G cfg' = g_weights G cfg @ [b]"
    "\<And>i. g_out G cfg' i = g_out G cfg i"
    using graph_add_node [OF G, of cfg b] Cons.prems by auto
  have n: "?n < length blocks" "blocks ! ?n = b" using Cons.prems by (simp_all add: nth_append)
  have "all_edges blocks ?n = block_edges ?n b @ all_edges blocks (Suc ?n)"
    using n by (simp add: all_edges_def upt_conv_Cons)
  with Cons.IH [of cfg' "opt_or entry (Some ?n)" "edges @ block_edges ?n b"] Cons.prems c n
  show ?case by (cases entry; cases bs) auto
qed

lemma connect_all_ok:
  assumes G: "graph_laws G"
  shows "\<forall>x \<in> set edges. fst x < length (g_weights G cfg) \<and>
      (\<exists>b < length (g_weights G cfg). find_block 0 (fst (snd x)) (g_weights G cfg) = Some b) \<Longrightarrow>
    \<exists>cfg'. connect_all G edges cfg = Inr cfg' \<and> g_weights G cfg' = g_weights G cfg
      \<and> (\<forall>i. mset (g_out G cfg' i) = mset (g_out G cfg i) +
           mset (map (\<lambda>x. (the (find_block 0 (fst (snd x)) (g_weights G cfg)), snd (snd x))) (filter (\<lambda>x. fst x = i) edges)))"
proof (induction edges arbitrary: cfg)
  case Nil
  then show ?case by simp
next
  case (Cons x edges)
  obtain a t e where x: "x = (a, t, e)" by (cases x)
  then obtain b where b: "a < length (g_weights G cfg)" "b < length (g_weights G cfg)" "find_block 0 t (g_weights G cfg) = Some b"
    using Cons.prems by auto
  obtain cfg1 where 1: "g_add_edge G a b e cfg = Inr cfg1" "g_weights G cfg1 = g_weights G cfg"
    "\<And>i. mset (g_out G cfg1 i) = mset (g_out G cfg i) + (if i = a then {#(b, e)#} else {#})"
    using graph_add_edge [OF G b(1,2)] by blast
  obtain cfg2 where 2: "connect_all G edges cfg1 = Inr cfg2" "g_weights G cfg2 = g_weights G cfg1"
    "\<forall>i. mset (g_out G cfg2 i) = mset (g_out G cfg1 i) +
       mset (map (\<lambda>x. (the (find_block 0 (fst (snd x)) (g_weights G cfg1)), snd (snd x))) (filter (\<lambda>x. fst x = i) edges))"
    using Cons.IH [of cfg1] Cons.prems 1(2) by auto
  show ?case using 1 2 x b by (auto simp: find_block_of_val_def)
qed

lemma find_block_Some:
  "find_block ix v bs = Some b \<Longrightarrow> ix + length bs \<le> 2 ^ 32 \<Longrightarrow>
     ix \<le> b \<and> b < ix + length bs \<and> v \<in> fi_value ` set (bs ! (b - ix))"
proof (induction ix v bs rule: find_block.induct)
  case (2 ix v seq seqs)
  show ?case
  proof (cases "list_ex (\<lambda>x. fi_value x = v) seq")
    case True
    with 2 show ?thesis by (auto simp: list_ex_iff)
  next
    case False
    with 2 have "Suc ix \<le> b \<and> b < Suc ix + length seqs \<and> v \<in> fi_value ` set (seqs ! (b - Suc ix))" by simp
    then show ?thesis by (auto simp: nth_Cons')
  qed
qed simp

lemma find_block_defined: "v \<in> fi_value ` set (concat bs) \<Longrightarrow> \<exists>b. find_block ix v bs = Some b"
  by (induction ix v bs rule: find_block.induct) (auto simp: list_ex_iff)

lemma distinct_concat_disjoint:
  "distinct (concat xss) \<Longrightarrow> i < length xss \<Longrightarrow> j < length xss \<Longrightarrow> i \<noteq> j \<Longrightarrow> set (xss ! i) \<inter> set (xss ! j) = {}"
proof (induction xss arbitrary: i j)
  case (Cons xs xss)
  have sub: "set (xss ! k) \<subseteq> set (concat xss)" if "k < length xss" for k using nth_mem [OF that] by auto
  from Cons show ?case using sub by (cases i; cases j) (fastforce simp del: set_concat)+
qed simp

lemma find_block_iff:
  assumes d: "distinct (map fi_value (concat bs))" and l: "length bs \<le> 2 ^ 32"
  shows "find_block 0 v bs = Some b \<longleftrightarrow> b < length bs \<and> v \<in> fi_value ` set (bs ! b)"
proof
  assume "find_block 0 v bs = Some b"
  with find_block_Some [of 0 v bs b] l show "b < length bs \<and> v \<in> fi_value ` set (bs ! b)" by simp
next
  assume b: "b < length bs \<and> v \<in> fi_value ` set (bs ! b)"
  then have "v \<in> fi_value ` set (concat bs)" by force
  then obtain c where c: "find_block 0 v bs = Some c" using find_block_defined by blast
  with find_block_Some [of 0 v bs c] l have c': "c < length bs \<and> v \<in> fi_value ` set (bs ! c)" by simp
  have "b = c"
  proof (rule ccontr)
    assume ne: "b \<noteq> c"
    have "set (map (map fi_value) bs ! b) \<inter> set (map (map fi_value) bs ! c) = {}"
      by (rule distinct_concat_disjoint) (use d b c' ne in \<open>simp_all add: map_concat\<close>)
    with b c' show False by auto
  qed
  with c show "find_block 0 v bs = Some b" by simp
qed

text \<open>The targets the graph knows of: those of \<open>If\<close> and \<open>Br\<close>.\<close>

fun cfg_targets :: "raw_inst \<Rightarrow> nat set" where
  "cfg_targets (IfInst _ t f) = set_option t \<union> set_option f"
| "cfg_targets (Br t) = {t}"
| "cfg_targets _ = {}"

text \<open>Block \<open>i\<close> has an \<open>If\<close> or \<open>Br\<close> whose target is in block \<open>j\<close>.\<close>

definition jumps :: "flat_inst list list \<Rightarrow> nat \<Rightarrow> nat \<Rightarrow> bool" where
  "jumps blocks i j \<longleftrightarrow> i < length blocks \<and> j < length blocks \<and>
     (\<exists>x \<in> set (blocks ! i). \<exists>t \<in> cfg_targets (fi_op x). t \<in> fi_value ` set (blocks ! j))"

lemma inst_edges_targets: "(\<exists>e. (a, t, e) \<in> set (inst_edges i b k)) \<longleftrightarrow> a = i \<and> t \<in> cfg_targets (fi_op (b ! k))"
  by (auto simp: inst_edges_def split: raw_inst.splits option.splits)

lemma block_edges_targets:
  "(\<exists>e. (a, t, e) \<in> set (block_edges i b)) \<longleftrightarrow> a = i \<and> (\<exists>x \<in> set b. t \<in> cfg_targets (fi_op x))"
proof -
  have "(\<exists>e. (a, t, e) \<in> set (block_edges i b)) \<longleftrightarrow> (\<exists>k < length b. \<exists>e. (a, t, e) \<in> set (inst_edges i b k))"
    unfolding block_edges_def by fastforce
  also have "\<dots> \<longleftrightarrow> a = i \<and> (\<exists>x \<in> set b. t \<in> cfg_targets (fi_op x))"
    unfolding inst_edges_targets by (metis in_set_conv_nth)
  finally show ?thesis .
qed

lemma all_edges_targets:
  "(\<exists>e. (a, t, e) \<in> set (all_edges blocks 0)) \<longleftrightarrow> a < length blocks \<and> (\<exists>x \<in> set (blocks ! a). t \<in> cfg_targets (fi_op x))"
proof -
  have "(\<exists>e. (a, t, e) \<in> set (all_edges blocks 0)) \<longleftrightarrow> (\<exists>i < length blocks. \<exists>e. (a, t, e) \<in> set (block_edges i (blocks ! i)))"
    unfolding all_edges_def by fastforce
  then show ?thesis unfolding block_edges_targets by auto
qed

lemma new_from_blocks_ok:
  assumes G: "graph_laws G" and d: "distinct (map fi_value (concat blocks))" and l: "length blocks < 2 ^ 32 - 1"
    and t: "\<And>x t. x \<in> set (concat blocks) \<Longrightarrow> t \<in> cfg_targets (fi_op x) \<Longrightarrow> t \<in> fi_value ` set (concat blocks)"
  shows "\<exists>cfg. new_from_blocks G blocks = Inr (cfg, if blocks = [] then None else Some 0)
    \<and> g_weights G cfg = blocks \<and> (\<forall>i j. (\<exists>e. (j, e) \<in> set (g_out G cfg i)) \<longleftrightarrow> jumps blocks i j)"
proof -
  obtain cfg1 where 1: "append_blocks G blocks blocks (g_empty G, None, []) =
      Inr (cfg1, if blocks = [] then None else Some 0, all_edges blocks 0)"
    "g_weights G cfg1 = blocks" "\<forall>i. g_out G cfg1 i = []"
    using append_blocks_ok [OF G, of blocks "g_empty G" blocks None "[]"] l graph_empty [OF G] by auto
  have ed: "fst x < length blocks \<and> (\<exists>b < length blocks. find_block 0 (fst (snd x)) blocks = Some b)"
    if x: "x \<in> set (all_edges blocks 0)" for x
  proof -
    obtain a v e where xe: "x = (a, v, e)" by (cases x)
    with x all_edges_targets obtain y where y: "a < length blocks" "y \<in> set (blocks ! a)" "v \<in> cfg_targets (fi_op y)" by blast
    then have "y \<in> set (concat blocks)" using nth_mem by fastforce
    with t y have "v \<in> fi_value ` set (concat blocks)" by blast
    then obtain b where b: "find_block 0 v blocks = Some b" using find_block_defined by blast
    with find_block_Some [of 0 v blocks b] l have "b < length blocks" by simp
    with b y xe show ?thesis by auto
  qed
  obtain cfg2 where 2: "connect_all G (all_edges blocks 0) cfg1 = Inr cfg2" "g_weights G cfg2 = blocks"
    "\<forall>i. mset (g_out G cfg2 i) =
       mset (map (\<lambda>x. (the (find_block 0 (fst (snd x)) blocks), snd (snd x))) (filter (\<lambda>x. fst x = i) (all_edges blocks 0)))"
    using connect_all_ok [OF G, of "all_edges blocks 0" cfg1] 1 ed by auto
  have l': "length blocks \<le> 2 ^ 32" using l by simp
  have "(\<exists>e. (j, e) \<in> set (g_out G cfg2 i)) \<longleftrightarrow> jumps blocks i j" for i j
  proof -
    let ?E = "all_edges blocks 0" and ?f = "\<lambda>x. (the (find_block 0 (fst (snd x)) blocks), snd (snd x))"
    have out: "set (g_out G cfg2 i) = ?f ` {x \<in> set ?E. fst x = i}"
      using mset_eq_setD [OF 2(3) [rule_format, of i]] by simp
    have "(\<exists>e. (j, e) \<in> set (g_out G cfg2 i)) \<longleftrightarrow> (\<exists>x \<in> set ?E. fst x = i \<and> j = the (find_block 0 (fst (snd x)) blocks))"
    proof
      assume "\<exists>e. (j, e) \<in> set (g_out G cfg2 i)"
      then obtain e x where "x \<in> set ?E" "fst x = i" "(j, e) = ?f x" unfolding out by blast
      then show "\<exists>x \<in> set ?E. fst x = i \<and> j = the (find_block 0 (fst (snd x)) blocks)" by (intro bexI [of _ x]) simp_all
    next
      assume "\<exists>x \<in> set ?E. fst x = i \<and> j = the (find_block 0 (fst (snd x)) blocks)"
      then obtain x where "x \<in> set ?E" "fst x = i" "j = the (find_block 0 (fst (snd x)) blocks)" by blast
      then have "(j, snd (snd x)) \<in> ?f ` {x \<in> set ?E. fst x = i}" by (intro image_eqI [of _ _ x]) simp_all
      then show "\<exists>e. (j, e) \<in> set (g_out G cfg2 i)" unfolding out by blast
    qed
    also have "\<dots> \<longleftrightarrow> (\<exists>x \<in> set ?E. fst x = i \<and> find_block 0 (fst (snd x)) blocks = Some j)"
    proof (rule bex_cong [OF refl])
      fix x assume "x \<in> set ?E"
      from ed [OF this] show "fst x = i \<and> j = the (find_block 0 (fst (snd x)) blocks) \<longleftrightarrow>
          fst x = i \<and> find_block 0 (fst (snd x)) blocks = Some j" by auto
    qed
    also have "\<dots> \<longleftrightarrow> (\<exists>v. (\<exists>e. (i, v, e) \<in> set ?E) \<and> find_block 0 v blocks = Some j)"
      by (auto simp: Bex_def)
    also have "\<dots> \<longleftrightarrow> jumps blocks i j"
      unfolding all_edges_targets find_block_iff [OF d l'] jumps_def by auto
    finally show ?thesis .
  qed
  with 1 2 show ?thesis by (simp add: new_from_blocks_def)
qed

lemma length_le_concat: "\<forall>b \<in> set bs. b \<noteq> [] \<Longrightarrow> length bs \<le> length (concat bs)"
proof (induction bs)
  case (Cons b bs)
  then show ?case by (cases b) auto
qed simp

lemma seq_blocks:
  assumes ok: "seq_ok lab seq" and l: "length (fs_inst seq) < 2 ^ 32 - 1"
  shows "distinct (map fi_value (concat (flatseq_to_blocks (fs_inst seq))))"
    and "length (flatseq_to_blocks (fs_inst seq)) < 2 ^ 32 - 1"
    and "x \<in> set (concat (flatseq_to_blocks (fs_inst seq))) \<Longrightarrow> t \<in> cfg_targets (fi_op x) \<Longrightarrow>
      t \<in> fi_value ` set (concat (flatseq_to_blocks (fs_inst seq)))"
proof -
  let ?is = "fs_inst seq" and ?bs = "flatseq_to_blocks (fs_inst seq)"
  note inv = flatseq_to_blocks_invariant [of ?is]
  have val: "fi_value (?is ! j) = j" "\<forall>t \<in> targets (fi_op (?is ! j)). t < length ?is" if "j < length ?is" for j
    using ok that by (simp_all add: seq_ok_def region_ok_def inst_ok_def)
  have mv: "map fi_value ?is = [0..<length ?is]" by (rule nth_equalityI) (simp_all add: val)
  then show "distinct (map fi_value (concat ?bs))" using inv by simp
  have "length ?bs \<le> length (concat ?bs)" by (rule length_le_concat) (use inv in \<open>auto simp: block_ok_def\<close>)
  then show "length ?bs < 2 ^ 32 - 1" using l inv by simp
  show "t \<in> fi_value ` set (concat ?bs)" if x: "x \<in> set (concat ?bs)" and t: "t \<in> cfg_targets (fi_op x)"
  proof -
    have "t \<in> targets (fi_op x)" using t by (cases "fi_op x") auto
    moreover obtain j where "j < length ?is" "x = ?is ! j" using x inv by (metis in_set_conv_nth)
    ultimately have "t < length ?is" using val by auto
    then have "t \<in> set (map fi_value ?is)" using mv by simp
    then show ?thesis using inv by simp
  qed
qed

text \<open>
  C6. The control flow graph. For a well-formed sequence (short enough for 32-bit node indices)
  and any graph library that keeps its contract, building the graph does not panic, its nodes
  are the blocks in order, the entry is the first block, and there is an edge from one block to
  another exactly when an \<open>If\<close> or \<open>Br\<close> of the first goes to an instruction of the second. A phi
  jump and falling off the end of a block contribute no edge.
\<close>

theorem cfg_edges:
  assumes G: "graph_laws G" and ok: "seq_ok lab seq" and l: "length (fs_inst seq) < 2 ^ 32 - 1"
  shows "\<exists>cfg. new_from_blocks G (flatseq_to_blocks (fs_inst seq)) = Inr (cfg, if fs_inst seq = [] then None else Some 0)
    \<and> g_weights G cfg = flatseq_to_blocks (fs_inst seq)
    \<and> (\<forall>i j. (\<exists>e. (j, e) \<in> set (g_out G cfg i)) \<longleftrightarrow> jumps (flatseq_to_blocks (fs_inst seq)) i j)"
  using new_from_blocks_ok [OF G seq_blocks [OF ok l]] flatseq_to_blocks_invariant [of "fs_inst seq"] by simp

definition loop_seq :: flat_seq where
  "loop_seq =
     \<lparr>fs_inst = [\<lparr>fi_op = Br 1, fi_value = 0, fi_attrs = default_attrs\<rparr>, \<lparr>fi_op = JumpTarget, fi_value = 1, fi_attrs = default_attrs\<rparr>,
                 \<lparr>fi_op = Br 1, fi_value = 2, fi_attrs = default_attrs\<rparr>],
      fs_kind = SeqFunction, fs_span = (ModuleRef 0, (0, 1)), fs_ast = None\<rparr>"

theorem cfg_edges_witness:
  "\<exists>cfg. new_from_blocks list_graph (flatseq_to_blocks (fs_inst loop_seq)) = Inr (cfg, Some 0)
     \<and> (\<exists>e. (1, e) \<in> set (g_out list_graph cfg 0)) \<and> (\<exists>e. (1, e) \<in> set (g_out list_graph cfg 1)) \<and> \<not> (\<exists>e. (0, e) \<in> set (g_out list_graph cfg 1))"
proof -
  have "seq_ok True loop_seq"
    by (auto simp: seq_ok_def region_ok_def inst_ok_def loop_seq_def less_Suc_eq nth_Cons')
  moreover have "length (fs_inst loop_seq) < 2 ^ 32 - 1" "fs_inst loop_seq \<noteq> []" by (simp_all add: loop_seq_def)
  moreover have "jumps (flatseq_to_blocks (fs_inst loop_seq)) 0 1" "jumps (flatseq_to_blocks (fs_inst loop_seq)) 1 1"
    "\<not> jumps (flatseq_to_blocks (fs_inst loop_seq)) 1 0"
    by (simp_all add: jumps_def flatseq_to_blocks_def loop_seq_def push_inst_def)
  ultimately show ?thesis using cfg_edges [OF list_graph_laws, of True loop_seq] by (simp, metis)
qed

end
