(* ===== verification/CfgReducer.thy ===== *)
theory CfgReducer
  imports Typing
begin

text \<open>
  The worklist of the type checker: the trait \<open>CFGReducer\<close> of
  \<^verbatim>\<open>montyc_driver/src/typeck/cfg_reducer.rs\<close>, with the errors of \<^verbatim>\<open>montyc_core/src/error.rs\<close>. The
  provided method \<open>visit\<close> takes the required method \<open>visit_block\<close> as an argument; it keeps two
  sorted vectors, the blocks processed and the blocks to analyze, and searches them with the
  binary search of the standard library. A loop that does not end is the value \<open>None\<close>.

  The locale \<open>cfg_walk\<close> is what \<open>visit\<close> needs of a reducer; \<open>cfg_total\<close> adds that no block
  fails. The reducers of the type checker are instances.
\<close>

section \<open>Errors\<close>

type_synonym located_span = "module_ref \<times> span"

datatype type_error =
    UnboundLocal span_ref span_ref located_span
  | DuplicateParameters
  | ReturnOutsideFunction located_span
  | IncompatibleReassignment span_ref located_span located_span type_id type_id
  | BadReturnType type_id type_id located_span located_span
  | BadConditionalType type_id span_ref
  | MissingReturn type_id located_span located_span
  | NotCallable type_id located_span
  | UnknownType string
  | UndefinedVariable span_ref
  | BadArgumentType type_id type_id located_span located_span
  | SusArgumentLength located_span nat nat
  | IncompatibleTypes located_span type_id located_span type_id
  | BadBinaryOp located_span type_id type_id
  | InvalidAttributeAccess type_id located_span
  | NotAFunction
  | Unsupported located_span string

text \<open>The payload of \<open>IO\<close> is the error of the operating system.\<close>

datatype monty_error =
    InterpreterException
  | QueryError
  | MontyNone
  | ValueDoesNotExist value_id
  | MontyIO string
  | MontyTypeError module_ref type_error

text \<open>A computation of type \<open>MontyResult\<close>: it may panic or return an error.\<close>

datatype failure = Panicked panic | Failed monty_error

type_synonym 'a monty = "failure + 'a"

definition lift_panic :: "'a rust \<Rightarrow> 'a monty" where
  "lift_panic r = (case r of Inl p \<Rightarrow> Inl (Panicked p) | Inr x \<Rightarrow> Inr x)"

text \<open>\<open>ok_or(e)?\<close>\<close>

definition ok_or :: "'a option \<Rightarrow> monty_error \<Rightarrow> 'a monty" where
  "ok_or x e = (case x of None \<Rightarrow> Inl (Failed e) | Some v \<Rightarrow> Inr v)"

section \<open>Binary search\<close>

text \<open>\<open>slice::binary_search\<close>: \<open>Inl\<close> the index of an equal element, \<open>Inr\<close> where to insert.\<close>

function bsearch :: "nat list \<Rightarrow> nat \<Rightarrow> nat \<Rightarrow> nat \<Rightarrow> nat + nat" where
  "bsearch xs x lo hi =
     (if lo < hi then
        (let mid = lo + (hi - lo) div 2 in
         if xs ! mid < x then bsearch xs x (mid + 1) hi
         else if x < xs ! mid then bsearch xs x lo mid
         else Inl mid)
      else Inr lo)"
  by pat_completeness auto

termination
  by (relation "measure (\<lambda>(xs, x, lo, hi). hi - lo)") auto

declare bsearch.simps [simp del]

definition binary_search :: "nat list \<Rightarrow> nat \<Rightarrow> nat + nat" where
  "binary_search xs x = bsearch xs x 0 (length xs)"

definition insert_at :: "nat \<Rightarrow> 'a \<Rightarrow> 'a list \<Rightarrow> 'a list" where
  "insert_at i x xs = take i xs @ x # drop i xs"

section \<open>The worklist\<close>

text \<open>The loop over the nodes a block leads to.\<close>

fun enqueue :: "nat list \<Rightarrow> nat list \<Rightarrow> nat list \<Rightarrow> nat list" where
  "enqueue processed to_analyze [] = to_analyze"
| "enqueue processed to_analyze (node # nodes) =
     (case binary_search processed node of
        Inl _ \<Rightarrow> enqueue processed to_analyze nodes
      | Inr _ \<Rightarrow>
          (case binary_search to_analyze node of
             Inl _ \<Rightarrow> enqueue processed to_analyze nodes
           | Inr index \<Rightarrow> enqueue processed (insert_at index node to_analyze) nodes))"

type_synonym ('s, 'o) visit_fn = "'s \<Rightarrow> 'o \<Rightarrow> nat \<Rightarrow> (nat list \<times> type_error list \<times> 's \<times> 'o) monty"

partial_function (option) visit_loop ::
  "('s, 'o) visit_fn \<Rightarrow> nat list \<Rightarrow> nat list \<Rightarrow> 's \<Rightarrow> 'o \<Rightarrow> ('s \<times> 'o) monty option" where
  "visit_loop visit_block processed to_analyze s out =
     (case to_analyze of
        [] \<Rightarrow> Some (Inr (s, out))
      | ix # rest \<Rightarrow>
          (case binary_search processed ix of
             Inl _ \<Rightarrow> visit_loop visit_block processed rest s out
           | Inr insert_ix \<Rightarrow>
               (case visit_block s out ix of
                  Inl f \<Rightarrow> Some (Inl f)
                | Inr (nodes, errors, s', out') \<Rightarrow>
                    (if errors = [] then
                       visit_loop visit_block (insert_at insert_ix ix processed)
                         (enqueue (insert_at insert_ix ix processed) rest nodes) s' out'
                     else Some (Inl (Panicked TodoMacro))))))"

definition visit :: "('s, 'o) visit_fn \<Rightarrow> nat \<Rightarrow> 's \<Rightarrow> 'o \<Rightarrow> ('s \<times> 'o) monty option" where
  "visit visit_block entry s out = visit_loop visit_block [] [entry] s out"

section \<open>Facts about the search\<close>

abbreviation ascending :: "nat list \<Rightarrow> bool" where
  "ascending \<equiv> sorted_wrt (<)"

lemma ascending_nth: "ascending xs \<Longrightarrow> i < j \<Longrightarrow> j < length xs \<Longrightarrow> xs ! i < xs ! j"
  by (simp add: sorted_wrt_iff_nth_less)

lemma bsearch_spec:
  assumes "ascending xs"
  shows "hi \<le> length xs \<Longrightarrow> lo \<le> hi \<Longrightarrow> (\<forall>i < lo. xs ! i < x) \<Longrightarrow> (\<forall>i. hi \<le> i \<and> i < length xs \<longrightarrow> x < xs ! i) \<Longrightarrow>
    (case bsearch xs x lo hi of
       Inl i \<Rightarrow> i < length xs \<and> xs ! i = x
     | Inr i \<Rightarrow> i \<le> length xs \<and> (\<forall>j < i. xs ! j < x) \<and> (\<forall>j. i \<le> j \<and> j < length xs \<longrightarrow> x < xs ! j))"
proof (induction "hi - lo" arbitrary: lo hi rule: less_induct)
  case less
  show ?case
  proof (cases "lo < hi")
    case False
    with less.prems show ?thesis by (simp add: bsearch.simps [of xs x hi hi])
  next
    case True
    define mid where "mid = lo + (hi - lo) div 2"
    have mid: "lo \<le> mid" "mid < hi" using True by (auto simp: mid_def)
    consider (lt) "xs ! mid < x" | (gt) "x < xs ! mid" | (eq) "xs ! mid = x" by linarith
    then show ?thesis
    proof cases
      case lt
      have "\<forall>i < mid + 1. xs ! i < x"
        using lt ascending_nth [OF assms, of _ mid] mid less.prems by (metis Suc_eq_plus1 less_Suc_eq less_le_trans less_trans)
      with less.hyps [of hi "mid + 1"] less.prems mid lt True show ?thesis by (simp add: bsearch.simps [of xs x lo hi] Let_def mid_def)
    next
      case gt
      have "\<forall>i. mid \<le> i \<and> i < length xs \<longrightarrow> x < xs ! i"
        using gt ascending_nth [OF assms, of mid] by (metis le_neq_implies_less less_trans)
      moreover have "bsearch xs x lo hi = bsearch xs x lo mid"
        using gt True by (simp add: bsearch.simps [of xs x lo hi] Let_def mid_def)
      ultimately show ?thesis using less.hyps [of mid lo] less.prems mid by simp
    next
      case eq
      with less.prems mid True show ?thesis by (simp add: bsearch.simps [of xs x lo hi] Let_def mid_def)
    qed
  qed
qed

lemma binary_search_found: "ascending xs \<Longrightarrow> binary_search xs x = Inl i \<Longrightarrow> x \<in> set xs"
  using bsearch_spec [of xs "length xs" 0 x] by (auto simp: binary_search_def)

lemma binary_search_missing:
  assumes "ascending xs" and "binary_search xs x = Inr i"
  shows "x \<notin> set xs \<and> ascending (insert_at i x xs) \<and> set (insert_at i x xs) = insert x (set xs)"
proof -
  have s: "i \<le> length xs" "\<forall>j < i. xs ! j < x" "\<forall>j. i \<le> j \<and> j < length xs \<longrightarrow> x < xs ! j"
    using bsearch_spec [OF assms(1), of "length xs" 0 x] assms(2) by (auto simp: binary_search_def)
  have l: "\<forall>y \<in> set (take i xs). y < x" using s by (auto simp: in_set_conv_nth)
  have r: "\<forall>y \<in> set (drop i xs). x < y" using s by (auto simp: in_set_conv_nth)
  have e: "set xs = set (take i xs) \<union> set (drop i xs)" by (metis append_take_drop_id set_append)
  have "sorted_wrt (<) (take i xs @ drop i xs)" using assms(1) by simp
  then have a: "ascending (take i xs)" "ascending (drop i xs)" "\<forall>y \<in> set (take i xs). \<forall>z \<in> set (drop i xs). y < z"
    unfolding sorted_wrt_append by blast+
  show ?thesis using l r e a unfolding insert_at_def sorted_wrt_append by auto
qed

lemma binary_search_iff: "ascending xs \<Longrightarrow> (\<exists>i. binary_search xs x = Inl i) \<longleftrightarrow> x \<in> set xs"
  using binary_search_found binary_search_missing by (metis sum.exhaust)

lemma enqueue_spec:
  "ascending processed \<Longrightarrow> ascending queue \<Longrightarrow>
    ascending (enqueue processed queue nodes) \<and> set (enqueue processed queue nodes) = set queue \<union> (set nodes - set processed)"
proof (induction processed queue nodes rule: enqueue.induct)
  case (2 processed queue node nodes)
  show ?case
  proof (cases "binary_search processed node")
    case (Inl a)
    with 2 binary_search_found [OF 2(4) Inl] show ?thesis by auto
  next
    case p: (Inr a)
    show ?thesis
    proof (cases "binary_search queue node")
      case (Inl b)
      with 2 p binary_search_found [OF 2(5) Inl] show ?thesis by auto
    next
      case (Inr b)
      with 2 p binary_search_missing [OF 2(5) Inr] binary_search_missing [OF 2(4) p] show ?thesis by auto
    qed
  qed
qed simp

text \<open>One iteration of the loop, by cases.\<close>

lemma visit_loop_nil: "visit_loop f processed [] s out = Some (Inr (s, out))"
  by (subst visit_loop.simps) simp

lemma visit_loop_skip: "binary_search processed ix = Inl i \<Longrightarrow> visit_loop f processed (ix # rest) s out = visit_loop f processed rest s out"
  by (subst visit_loop.simps) simp

lemma visit_loop_fail:
  "binary_search processed ix = Inr i \<Longrightarrow> f s out ix = Inl e \<Longrightarrow> visit_loop f processed (ix # rest) s out = Some (Inl e)"
  by (subst visit_loop.simps) simp

lemma visit_loop_errors:
  "binary_search processed ix = Inr i \<Longrightarrow> f s out ix = Inr (nodes, errors, s', out') \<Longrightarrow> errors \<noteq> [] \<Longrightarrow>
     visit_loop f processed (ix # rest) s out = Some (Inl (Panicked TodoMacro))"
  by (subst visit_loop.simps) simp

lemma visit_loop_step:
  "binary_search processed ix = Inr i \<Longrightarrow> f s out ix = Inr (nodes, [], s', out') \<Longrightarrow>
     visit_loop f processed (ix # rest) s out =
       visit_loop f (insert_at i ix processed) (enqueue (insert_at i ix processed) rest nodes) s' out'"
  by (subst visit_loop.simps) simp

lemma wf_less_lex: "wf ({(m, n). (m :: nat) < n} <*lex*> {(m, n). (m :: nat) < n})"
  by (intro wf_lex_prod wf_less)

section \<open>What the worklist needs of a reducer\<close>

text \<open>The blocks that lead to another, and all the blocks one leads to.\<close>

definition flow_edge :: "(nat \<Rightarrow> nat list) \<Rightarrow> nat \<Rightarrow> nat \<Rightarrow> bool" where
  "flow_edge succs i j \<longleftrightarrow> j \<in> set (succs i)"

definition reach_from :: "(nat \<Rightarrow> nat list) \<Rightarrow> nat \<Rightarrow> nat set" where
  "reach_from succs entry = {j. (flow_edge succs)\<^sup>*\<^sup>* entry j}"

text \<open>
  \<open>succs\<close> are the edges of the graph with the nodes below \<open>n\<close>, and \<open>inv P s out\<close> is an invariant
  of the reducer's state and output when the blocks in \<open>P\<close> have been processed.
\<close>

locale cfg_walk =
  fixes visit_block :: "('s, 'o) visit_fn"
    and succs :: "nat \<Rightarrow> nat list"
    and n :: nat
    and inv :: "nat set \<Rightarrow> 's \<Rightarrow> 'o \<Rightarrow> bool"
  assumes succ_bound: "i < n \<Longrightarrow> j \<in> set (succs i) \<Longrightarrow> j < n"
    and visit_ok: "inv P s out \<Longrightarrow> P \<subseteq> {..<n} \<Longrightarrow> i < n \<Longrightarrow> i \<notin> P \<Longrightarrow> visit_block s out i = Inr (nodes, [], s', out') \<Longrightarrow>
      set nodes = set (succs i) \<and> inv (insert i P) s' out'"
begin

lemma edges_bound: "(flow_edge succs)\<^sup>*\<^sup>* entry j \<Longrightarrow> entry < n \<Longrightarrow> j < n"
  by (induction rule: rtranclp_induct) (auto simp: flow_edge_def intro: succ_bound)

lemma reach_bound: "entry < n \<Longrightarrow> reach_from succs entry \<subseteq> {..<n}"
  using edges_bound by (auto simp: reach_from_def)

text \<open>The invariant of the loop.\<close>

definition loop_inv :: "nat \<Rightarrow> nat list \<Rightarrow> nat list \<Rightarrow> 's \<Rightarrow> 'o \<Rightarrow> bool" where
  "loop_inv entry processed queue s out \<longleftrightarrow>
     ascending processed \<and> ascending queue \<and> inv (set processed) s out
     \<and> set processed \<union> set queue \<subseteq> reach_from succs entry \<and> entry \<in> set processed \<union> set queue
     \<and> (\<forall>i \<in> set processed. set (succs i) \<subseteq> set processed \<union> set queue)"

lemma loop_inv_final: "loop_inv entry processed [] s out \<Longrightarrow> set processed = reach_from succs entry"
proof -
  assume l: "loop_inv entry processed [] s out"
  have "j \<in> set processed" if "(flow_edge succs)\<^sup>*\<^sup>* entry j" for j
    using that by (induction rule: rtranclp_induct) (use l in \<open>auto simp: loop_inv_def flow_edge_def\<close>)
  with l show ?thesis by (auto simp: loop_inv_def reach_from_def)
qed

lemma loop_inv_skip:
  "loop_inv entry processed (ix # rest) s out \<Longrightarrow> binary_search processed ix = Inl i \<Longrightarrow> loop_inv entry processed rest s out"
  using binary_search_found [of processed ix i] unfolding loop_inv_def by auto

lemma loop_inv_visit:
  assumes "entry < n" and l: "loop_inv entry processed (ix # rest) s out" and b: "binary_search processed ix = Inr i"
    and v: "visit_block s out ix = Inr (nodes, [], s', out')"
  shows "loop_inv entry (insert_at i ix processed) (enqueue (insert_at i ix processed) rest nodes) s' out'
    \<and> set (insert_at i ix processed) = insert ix (set processed) \<and> ix \<notin> set processed \<and> ix < n"
proof -
  have sub: "set processed \<subseteq> {..<n}" "ix < n" using l reach_bound [OF assms(1)] by (auto simp: loop_inv_def)
  have as: "ascending processed" "ascending rest" using l by (simp_all add: loop_inv_def)
  note m = binary_search_missing [OF as(1) b]
  have q: "set nodes = set (succs ix)" "inv (insert ix (set processed)) s' out'"
    using visit_ok [OF _ sub _ v] m l by (auto simp: loop_inv_def)
  have e: "ascending (enqueue (insert_at i ix processed) rest nodes)"
    "set (enqueue (insert_at i ix processed) rest nodes) = set rest \<union> (set nodes - insert ix (set processed))"
    using enqueue_spec [of "insert_at i ix processed" rest nodes] m as by auto
  have r: "set (succs ix) \<subseteq> reach_from succs entry"
    using l by (auto simp: loop_inv_def reach_from_def flow_edge_def intro: rtranclp.rtrancl_into_rtrancl)
  show ?thesis using l m q e r sub(2) unfolding loop_inv_def by auto
qed

text \<open>The loop ends, and when it returns the invariant holds of the reachable blocks.\<close>

lemma visit_loop_ends:
  assumes "entry < n"
  shows "loop_inv entry processed queue s out \<Longrightarrow>
    \<exists>r. visit_loop visit_block processed queue s out = Some r \<and> (\<forall>s' out'. r = Inr (s', out') \<longrightarrow> inv (reach_from succs entry) s' out')"
proof (induction "(n - card (set processed), length queue)" arbitrary: processed queue s out rule: wf_induct_rule [OF wf_less_lex])
  case (1 processed queue s out)
  note IH = 1(1) and l = 1(2)
  show ?case
  proof (cases queue)
    case Nil
    have "set processed = reach_from succs entry" using l Nil loop_inv_final by blast
    then have "inv (reach_from succs entry) s out" using l unfolding loop_inv_def by metis
    then show ?thesis unfolding Nil visit_loop_nil by blast
  next
    case (Cons ix rest)
    show ?thesis
    proof (cases "binary_search processed ix")
      case (Inl i)
      have "loop_inv entry processed rest s out" using loop_inv_skip [OF _ Inl] l Cons by blast
      from IH [OF _ this] Cons Inl show ?thesis by (simp add: visit_loop_skip)
    next
      case b: (Inr i)
      consider (fail) f where "visit_block s out ix = Inl f"
        | (errors) nodes errors s' out' where "visit_block s out ix = Inr (nodes, errors, s', out')" "errors \<noteq> []"
        | (step) nodes s' out' where "visit_block s out ix = Inr (nodes, [], s', out')"
        by (metis prod.exhaust sum.exhaust)
      then show ?thesis
      proof cases
        case fail
        then show ?thesis using visit_loop_fail [of processed ix i visit_block s out, OF b fail] Cons by simp
      next
        case errors
        then show ?thesis using visit_loop_errors [of processed ix i visit_block s out, OF b errors] Cons by simp
      next
        case step
        let ?p = "insert_at i ix processed"
        have v: "loop_inv entry ?p (enqueue ?p rest nodes) s' out'" "set ?p = insert ix (set processed)" "ix \<notin> set processed"
          using loop_inv_visit [OF assms _ b step] l Cons by blast+
        have "set ?p \<subseteq> {..<n}" using v(1) reach_bound [OF assms] unfolding loop_inv_def by blast
        then have "card (set ?p) \<le> card {..<n}" by (intro card_mono) auto
        then have "n - card (set ?p) < n - card (set processed)" using v(2,3) by simp
        then show ?thesis using IH [OF _ v(1)] visit_loop_step [of processed ix i visit_block s out, OF b step] Cons by simp
      qed
    qed
  qed
qed

lemma visit_ends:
  assumes "entry < n" and "inv {} s out"
  shows "\<exists>r. visit visit_block entry s out = Some r \<and> (\<forall>s' out'. r = Inr (s', out') \<longrightarrow> inv (reach_from succs entry) s' out')"
proof -
  have "loop_inv entry [] [entry] s out" using assms(2) by (simp add: loop_inv_def reach_from_def)
  from visit_loop_ends [OF assms(1) this] show ?thesis by (simp add: visit_def)
qed

end

text \<open>A reducer that never fails.\<close>

locale cfg_total = cfg_walk +
  assumes visit_total: "inv P s out \<Longrightarrow> P \<subseteq> {..<n} \<Longrightarrow> i < n \<Longrightarrow> i \<notin> P \<Longrightarrow> \<exists>nodes s' out'. visit_block s out i = Inr (nodes, [], s', out')"
begin

lemma visit_loop_succeeds:
  assumes "entry < n"
  shows "loop_inv entry processed queue s out \<Longrightarrow> visit_loop visit_block processed queue s out \<noteq> Some (Inl f)"
proof (induction "(n - card (set processed), length queue)" arbitrary: processed queue s out rule: wf_induct_rule [OF wf_less_lex])
  case (1 processed queue s out)
  note IH = 1(1) and l = 1(2)
  show ?case
  proof (cases queue)
    case Nil
    then show ?thesis by (simp add: visit_loop_nil)
  next
    case (Cons ix rest)
    show ?thesis
    proof (cases "binary_search processed ix")
      case (Inl i)
      have "loop_inv entry processed rest s out" using loop_inv_skip [OF _ Inl] l Cons by blast
      from IH [OF _ this] Cons Inl show ?thesis by (simp add: visit_loop_skip)
    next
      case b: (Inr i)
      let ?p = "insert_at i ix processed"
      have sub: "set processed \<subseteq> {..<n}" "ix < n" "inv (set processed) s out" "ascending processed"
        using l Cons reach_bound [OF assms] unfolding loop_inv_def by auto
      obtain nodes s' out' where step: "visit_block s out ix = Inr (nodes, [], s', out')"
        using visit_total [OF sub(3,1,2)] binary_search_missing [OF sub(4) b] by blast
      have v: "loop_inv entry ?p (enqueue ?p rest nodes) s' out'" "set ?p = insert ix (set processed)" "ix \<notin> set processed"
        using loop_inv_visit [OF assms _ b step] l Cons by blast+
      have "set ?p \<subseteq> {..<n}" using v(1) reach_bound [OF assms] unfolding loop_inv_def by blast
      then have "card (set ?p) \<le> card {..<n}" by (intro card_mono) auto
      then have "n - card (set ?p) < n - card (set processed)" using v(2,3) by simp
      then show ?thesis using IH [OF _ v(1)] visit_loop_step [of processed ix i visit_block s out, OF b step] Cons by simp
    qed
  qed
qed

lemma visit_succeeds:
  assumes "entry < n" and "inv {} s out"
  shows "\<exists>s' out'. visit visit_block entry s out = Some (Inr (s', out')) \<and> inv (reach_from succs entry) s' out'"
proof -
  have "loop_inv entry [] [entry] s out" using assms(2) by (simp add: loop_inv_def reach_from_def)
  then have "visit visit_block entry s out \<noteq> Some (Inl f)" for f using visit_loop_succeeds [OF assms(1)] by (simp add: visit_def)
  moreover obtain r where "visit visit_block entry s out = Some r" "\<forall>s' out'. r = Inr (s', out') \<longrightarrow> inv (reach_from succs entry) s' out'"
    using visit_ends [OF assms] by blast
  ultimately show ?thesis by (cases r) auto
qed

end

end
