(* ===== verification/VariableFlow.thy ===== *)
theory VariableFlow
  imports BlockCFG CfgReducer
begin

text \<open>
  The variable flow graph of \<^verbatim>\<open>montyc_driver/src/typeck/variable_flowgraph.rs\<close>: a reducer over the
  control flow graph that lists, for every reachable block, the variables it assigns or reads.
  Both graphs are petgraph's: \<open>G\<close> has the operations of the control flow graph, \<open>H\<close> those of the
  output graph. The reducer is an instance of \<open>cfg_total\<close>.
\<close>

section \<open>The reducer\<close>

datatype ('i, 'n) def_place = Defined 'i | DefinedFrom 'n | Deleted 'i

record vfg_node =
  vfg_defined :: "u32 list"

definition vfg_default :: vfg_node where
  "vfg_default = \<lparr>vfg_defined = []\<rparr>"

fun vfg_defs :: "flat_inst list \<Rightarrow> u32 list" where
  "vfg_defs [] = []"
| "vfg_defs (x # xs) =
     (case fi_op x of
        UseVar variable \<Rightarrow> span_group variable # vfg_defs xs
      | SetVar variable _ \<Rightarrow> span_group variable # vfg_defs xs
      | _ \<Rightarrow> vfg_defs xs)"

definition do_block :: "('g, flat_inst list, 'e) graph_ops \<Rightarrow> 'g \<Rightarrow> nat \<Rightarrow> vfg_node rust" where
  "do_block G cfg ix = and_then (unwrap (get_at (g_weights G cfg) ix)) (\<lambda>block. Inr \<lparr>vfg_defined = vfg_defs block\<rparr>)"

text \<open>\<open>make_output\<close>: one default node for every node of the input.\<close>

fun add_defaults :: "('h, 'n, 'f) graph_ops \<Rightarrow> 'n \<Rightarrow> nat \<Rightarrow> 'h \<Rightarrow> 'h rust" where
  "add_defaults H w 0 h = Inr h"
| "add_defaults H w (Suc n) h = and_then (g_add_node H w h) (\<lambda>(_, h'). add_defaults H w n h')"

definition vfg_make_output ::
  "('g, flat_inst list, 'e) graph_ops \<Rightarrow> ('h, vfg_node, unit) graph_ops \<Rightarrow> 'g \<Rightarrow> 'h rust" where
  "vfg_make_output G H cfg = add_defaults H vfg_default (length (g_weights G cfg)) (g_empty H)"

definition vfg_visit_block ::
  "('g, flat_inst list, 'e) graph_ops \<Rightarrow> ('h, vfg_node, unit) graph_ops \<Rightarrow> ('g, 'h) visit_fn" where
  "vfg_visit_block G H cfg out ix =
     and_then (lift_panic (do_block G cfg ix)) (\<lambda>block.
     and_then (lift_panic (unwrap (get_at (g_weights H out) ix))) (\<lambda>_.
     Inr (map fst (g_out G cfg ix), [], cfg, g_set_weight H ix block out)))"

definition vfg_new ::
  "('g, flat_inst list, 'e) graph_ops \<Rightarrow> ('h, vfg_node, unit) graph_ops \<Rightarrow> 'g \<Rightarrow> 'h monty option" where
  "vfg_new G H cfg =
     (case vfg_make_output G H cfg of
        Inl p \<Rightarrow> Some (Inl (Panicked p))
      | Inr out \<Rightarrow> map_option (\<lambda>r. and_then r (\<lambda>(_, vfg). Inr vfg)) (visit (vfg_visit_block G H) 0 cfg out))"

section \<open>The reducer is an instance of the worklist's contract\<close>

text \<open>Edges of a graph stay inside it.\<close>

definition edges_inside :: "('g, 'n, 'e) graph_ops \<Rightarrow> 'g \<Rightarrow> bool" where
  "edges_inside G g \<longleftrightarrow> (\<forall>i j e. (j, e) \<in> set (g_out G g i) \<longrightarrow> j < length (g_weights G g))"

definition inside_succs :: "('g, 'n, 'e) graph_ops \<Rightarrow> 'g \<Rightarrow> nat \<Rightarrow> nat list" where
  "inside_succs G g i = filter (\<lambda>j. j < length (g_weights G g)) (map fst (g_out G g i))"

lemma inside_succs_all: "edges_inside G g \<Longrightarrow> set (inside_succs G g i) = fst ` set (g_out G g i)"
  by (force simp: edges_inside_def inside_succs_def)

lemma reach_from_inside: "edges_inside G g \<Longrightarrow> reach_from (inside_succs G g) k = reach_from (\<lambda>b. map fst (g_out G g b)) k"
proof -
  assume "edges_inside G g"
  then have "flow_edge (inside_succs G g) = flow_edge (\<lambda>b. map fst (g_out G g b))"
    by (intro ext) (simp add: flow_edge_def inside_succs_all)
  then show ?thesis by (simp add: reach_from_def)
qed

definition vfg_inv ::
  "('g, flat_inst list, 'e) graph_ops \<Rightarrow> ('h, vfg_node, unit) graph_ops \<Rightarrow> 'g \<Rightarrow> nat set \<Rightarrow> 'g \<Rightarrow> 'h \<Rightarrow> bool" where
  "vfg_inv G H cfg P s out \<longleftrightarrow> graph_laws H \<and> edges_inside G cfg \<and> s = cfg
     \<and> g_weights H out = map (\<lambda>i. if i \<in> P then \<lparr>vfg_defined = vfg_defs (g_weights G cfg ! i)\<rparr> else vfg_default) [0..<length (g_weights G cfg)]"

lemma vfg_visit_block_ok:
  assumes "vfg_inv G H cfg P s out" and "i < length (g_weights G cfg)"
  shows "\<exists>out'. vfg_visit_block G H s out i = Inr (map fst (g_out G cfg i), [], cfg, out') \<and> vfg_inv G H cfg (insert i P) cfg out'"
proof -
  let ?node = "\<lparr>vfg_defined = vfg_defs (g_weights G cfg ! i)\<rparr>"
  have a: "graph_laws H" "edges_inside G cfg" "s = cfg"
    "g_weights H out = map (\<lambda>i. if i \<in> P then \<lparr>vfg_defined = vfg_defs (g_weights G cfg ! i)\<rparr> else vfg_default) [0..<length (g_weights G cfg)]"
    using assms(1) by (auto simp: vfg_inv_def)
  have "g_weights H (g_set_weight H i ?node out) = (g_weights H out)[i := ?node]" using graph_lawsD(4) [OF a(1)] a(4) assms(2) by simp
  also have "\<dots> = map (\<lambda>j. if j \<in> insert i P then \<lparr>vfg_defined = vfg_defs (g_weights G cfg ! j)\<rparr> else vfg_default) [0..<length (g_weights G cfg)]"
    unfolding a(4) using assms(2) by (intro nth_equalityI) (auto simp: nth_list_update)
  finally have "vfg_inv G H cfg (insert i P) cfg (g_set_weight H i ?node out)" using a by (simp add: vfg_inv_def)
  moreover have "vfg_visit_block G H s out i = Inr (map fst (g_out G cfg i), [], cfg, g_set_weight H i ?node out)"
    using a assms(2) by (simp add: vfg_visit_block_def do_block_def lift_panic_def)
  ultimately show ?thesis by blast
qed

interpretation vfg: cfg_total "vfg_visit_block G H" "inside_succs G cfg" "length (g_weights G cfg)" "vfg_inv G H cfg" for G H cfg
proof
  show "j < length (g_weights G cfg)" if "j \<in> set (inside_succs G cfg i)" for i j
    using that by (simp add: inside_succs_def)
next
  fix P s out i nodes s' out'
  assume i: "vfg_inv G H cfg P s out" "i < length (g_weights G cfg)" and v: "vfg_visit_block G H s out i = Inr (nodes, [], s', out')"
  have "set (inside_succs G cfg i) = fst ` set (g_out G cfg i)" using i(1) by (intro inside_succs_all) (simp add: vfg_inv_def)
  with vfg_visit_block_ok [OF i] v show "set nodes = set (inside_succs G cfg i) \<and> vfg_inv G H cfg (insert i P) s' out'" by auto
next
  fix P s out i
  assume i: "vfg_inv G H cfg P s out" "i < length (g_weights G cfg)"
  then show "\<exists>nodes s' out'. vfg_visit_block G H s out i = Inr (nodes, [], s', out')" using vfg_visit_block_ok [OF i] by blast
qed

lemma add_defaults_ok:
  assumes "graph_laws H"
  shows "length (g_weights H h) + n \<le> 2 ^ 32 - 1 \<Longrightarrow> \<exists>h'. add_defaults H w n h = Inr h' \<and> g_weights H h' = g_weights H h @ replicate n w
    \<and> (\<forall>i. g_out H h' i = g_out H h i)"
proof (induction n arbitrary: h)
  case (Suc n)
  obtain h1 where h1: "g_add_node H w h = Inr (length (g_weights H h), h1)" "g_weights H h1 = g_weights H h @ [w]"
    "\<forall>i. g_out H h1 i = g_out H h i"
    using graph_add_node [OF assms, of h w] Suc.prems by auto
  with Suc.IH [of h1] Suc.prems show ?case by auto
qed simp

text \<open>
  C8. The variable flow graph. For a control flow graph whose edges stay inside it, with at least
  one block and no more than the index type holds, building the variable flow graph ends and
  returns a graph with one node per block: for a block that the first one leads to, the
  variables its instructions assign or read, in order; for any other block, none.
\<close>

theorem variable_flow_graph:
  assumes "graph_laws H" and "edges_inside G cfg" and "g_weights G cfg \<noteq> []" and "length (g_weights G cfg) \<le> 2 ^ 32 - 1"
  shows "\<exists>vfg. vfg_new G H cfg = Some (Inr vfg)
    \<and> g_weights H vfg = map (\<lambda>i. \<lparr>vfg_defined = (if i \<in> reach_from (\<lambda>b. map fst (g_out G cfg b)) 0 then vfg_defs (g_weights G cfg ! i) else [])\<rparr>)
        [0..<length (g_weights G cfg)]"
proof -
  let ?n = "length (g_weights G cfg)"
  obtain out where out: "vfg_make_output G H cfg = Inr out" "g_weights H out = replicate ?n vfg_default"
    using add_defaults_ok [OF assms(1), of "g_empty H" ?n vfg_default] graph_empty [OF assms(1)] assms(4) by (auto simp: vfg_make_output_def)
  have "vfg_inv G H cfg {} cfg out" using assms out(2) by (simp add: vfg_inv_def map_replicate_trivial)
  then obtain s vfg where v: "visit (vfg_visit_block G H) 0 cfg out = Some (Inr (s, vfg))"
    "vfg_inv G H cfg (reach_from (inside_succs G cfg) 0) s vfg"
    using vfg.visit_succeeds [of 0 G cfg H cfg out] assms(3) by auto
  have r: "reach_from (inside_succs G cfg) 0 = reach_from (\<lambda>b. map fst (g_out G cfg b)) 0"
    by (rule reach_from_inside [OF assms(2)])
  have "vfg_new G H cfg = Some (Inr vfg)" using out v by (simp add: vfg_new_def)
  moreover have "g_weights H vfg = map (\<lambda>i. \<lparr>vfg_defined = (if i \<in> reach_from (\<lambda>b. map fst (g_out G cfg b)) 0
      then vfg_defs (g_weights G cfg ! i) else [])\<rparr>) [0..<?n]"
    using v(2) unfolding vfg_inv_def r by (auto simp: vfg_default_def)
  ultimately show ?thesis by blast
qed

definition two_blocks :: "flat_inst list list \<times> (nat \<times> nat \<times> block_cfg_edge) list" where
  "two_blocks =
     ([[\<lparr>fi_op = UseVar (SpanRef 7 1), fi_value = 0, fi_attrs = default_attrs\<rparr>, \<lparr>fi_op = Br 2, fi_value = 1, fi_attrs = default_attrs\<rparr>],
       [\<lparr>fi_op = JumpTarget, fi_value = 2, fi_attrs = default_attrs\<rparr>, \<lparr>fi_op = SetVar (SpanRef 9 2) 0, fi_value = 3, fi_attrs = default_attrs\<rparr>],
       [\<lparr>fi_op = JumpTarget, fi_value = 4, fi_attrs = default_attrs\<rparr>, \<lparr>fi_op = SetVar (SpanRef 8 3) 0, fi_value = 5, fi_attrs = default_attrs\<rparr>]],
      [(0, 1, Direct 1)])"

theorem variable_flow_graph_witness:
  "\<exists>vfg. vfg_new list_graph list_graph two_blocks = Some (Inr vfg)
     \<and> g_weights list_graph vfg = [\<lparr>vfg_defined = [7]\<rparr>, \<lparr>vfg_defined = [9]\<rparr>, \<lparr>vfg_defined = []\<rparr>]"
proof -
  let ?succs = "\<lambda>b. map fst (g_out list_graph two_blocks b)"
  have inside: "edges_inside list_graph two_blocks" by (auto simp: edges_inside_def list_graph_def two_blocks_def)
  have e: "flow_edge ?succs a b \<longleftrightarrow> a = 0 \<and> b = 1" for a b
    by (auto simp: flow_edge_def list_graph_def two_blocks_def)
  have "(flow_edge ?succs)\<^sup>*\<^sup>* 0 j \<Longrightarrow> j = 0 \<or> j = 1" for j by (induction rule: rtranclp_induct) (auto simp: e)
  moreover have "(flow_edge ?succs)\<^sup>*\<^sup>* 0 1" by (rule r_into_rtranclp) (simp add: e)
  ultimately have r: "reach_from ?succs 0 = {0, 1}" by (auto simp: reach_from_def)
  have w: "g_weights list_graph two_blocks = fst two_blocks" by (simp add: list_graph_def)
  have len: "fst two_blocks \<noteq> []" "length (fst two_blocks) = 3" by (simp_all add: two_blocks_def)
  obtain vfg where v: "vfg_new list_graph list_graph two_blocks = Some (Inr vfg)"
    "g_weights list_graph vfg = map (\<lambda>i. \<lparr>vfg_defined = (if i \<in> {0, 1} then vfg_defs (fst two_blocks ! i) else [])\<rparr>) [0..<3]"
    using variable_flow_graph [OF list_graph_laws inside] unfolding w r len(2) using len by auto
  have "vfg_defs (fst two_blocks ! 0) = [7]" "vfg_defs (fst two_blocks ! Suc 0) = [9]" by (simp_all add: two_blocks_def)
  with v show ?thesis by (simp add: upt_rec)
qed

end
