(* ===== verification/ValueStore.thy ===== *)
theory ValueStore
  imports BlockCFG Typing
begin

text \<open>
  The global value store of \<^verbatim>\<open>montyc_driver/src/value_store.rs\<close>: a graph of values, metadata for
  each of them and a cache from the hashes of other keys (types, modules, objects) to values.
  The graph is petgraph's, with the operations \<open>V\<close>; the hash function is the argument \<open>hash\<close>.
  A closure passed to \<open>with_value\<close> and its relatives is an argument; the variants that mutate
  return the new store.
\<close>

section \<open>Values and metadata\<close>

record value_rec =
  val_properties :: "(u32 \<times> value_id) list"

definition value_default :: value_rec where
  "value_default = \<lparr>val_properties = []\<rparr>"

record func_rec =
  fu_value_id :: value_id
  fu_type_id :: type_id
  fu_mref :: module_ref
  fu_name :: span_ref
  fu_is_extern :: bool

record 'cg value_metadata =
  vm_value_ix :: value_id
  vm_module_ref :: "module_ref option"
  vm_type_id :: "type_id option"
  vm_object_id :: "object_id option"
  vm_rib :: "(u32 \<times> type_id) list option"
  vm_class :: "value_id option"
  vm_parent_scope :: "value_id option"
  vm_function :: "func_rec option"
  vm_ast :: "ast_node option"
  vm_flatcode :: "(flat_seq \<times> flat_code option) option"
  vm_internal_refs :: "value_id list option"
  vm_cg_flowgraph :: "'cg option"

definition metadata_default :: "value_id \<Rightarrow> 'cg value_metadata" where
  "metadata_default vid =
     \<lparr>vm_value_ix = vid, vm_module_ref = None, vm_type_id = None, vm_object_id = None, vm_rib = None, vm_class = None,
      vm_parent_scope = None, vm_function = None, vm_ast = None, vm_flatcode = None, vm_internal_refs = None,
      vm_cg_flowgraph = None\<rparr>"

text \<open>The keys the code associates with values; the Rust type of a key is hashed with it.\<close>

datatype assoc_key = TypeKey type_id | ModuleKey module_ref | ObjectKey object_id

datatype gv_key = ValueKey value_id | AssocKey assoc_key

record ('vg, 'cg) value_store =
  vs_graph :: 'vg
  vs_metadata :: "(value_id \<times> 'cg value_metadata) list"
  vs_assoc_cache :: "(u64 \<times> value_id) list"

section \<open>Operations\<close>

definition vs_default :: "('vg, value_rec, unit) graph_ops \<Rightarrow> ('vg, 'cg) value_store" where
  "vs_default V = \<lparr>vs_graph = g_empty V, vs_metadata = [], vs_assoc_cache = []\<rparr>"

definition vs_node :: "('vg, value_rec, unit) graph_ops \<Rightarrow> ('vg, 'cg) value_store \<Rightarrow> value_id \<Rightarrow> value_rec option" where
  "vs_node V st vid = get_at (g_weights V (vs_graph st)) (unat (value_id_raw vid))"

definition get_by_assoc :: "(assoc_key \<Rightarrow> u64) \<Rightarrow> ('vg, 'cg) value_store \<Rightarrow> assoc_key \<Rightarrow> value_id option" where
  "get_by_assoc hash st key = map_of (vs_assoc_cache st) (hash key)"

text \<open>\<open>entry(hash).or_insert_with(|| value)\<close>.\<close>

definition vs_assoc :: "(assoc_key \<Rightarrow> u64) \<Rightarrow> assoc_key \<Rightarrow> value_id \<Rightarrow> ('vg, 'cg) value_store \<Rightarrow> ('vg, 'cg) value_store" where
  "vs_assoc hash key v st =
     (case map_of (vs_assoc_cache st) (hash key) of
        Some _ \<Rightarrow> st
      | None \<Rightarrow> st\<lparr>vs_assoc_cache := assoc_put (hash key) v (vs_assoc_cache st)\<rparr>)"

text \<open>\<open>GVKey::resolve\<close> of the key types.\<close>

definition resolve_value :: "('vg, value_rec, unit) graph_ops \<Rightarrow> ('vg, 'cg) value_store \<Rightarrow> value_id \<Rightarrow> value_id option" where
  "resolve_value V st vid = map_option (\<lambda>_. vid) (vs_node V st vid)"

fun resolve :: "('vg, value_rec, unit) graph_ops \<Rightarrow> (assoc_key \<Rightarrow> u64) \<Rightarrow> ('vg, 'cg) value_store \<Rightarrow> gv_key \<Rightarrow> value_id option" where
  "resolve V hash st (ValueKey vid) = resolve_value V st vid"
| "resolve V hash st (AssocKey k) = Option.bind (get_by_assoc hash st k) (resolve_value V st)"

definition vs_contains :: "('vg, value_rec, unit) graph_ops \<Rightarrow> (assoc_key \<Rightarrow> u64) \<Rightarrow> ('vg, 'cg) value_store \<Rightarrow> gv_key \<Rightarrow> bool" where
  "vs_contains V hash st key = (resolve V hash st key \<noteq> None)"

definition vs_insert :: "('vg, value_rec, unit) graph_ops \<Rightarrow> value_rec \<Rightarrow> ('vg, 'cg) value_store \<Rightarrow> (value_id \<times> ('vg, 'cg) value_store) rust" where
  "vs_insert V v st =
     and_then (g_add_node V v (vs_graph st)) (\<lambda>(index, g).
     (let vid = ValueId (word_of_nat index);
          metadata = (case map_of (vs_metadata st) vid of
                        Some _ \<Rightarrow> vs_metadata st
                      | None \<Rightarrow> assoc_put vid (metadata_default vid) (vs_metadata st))
      in Inr (vid, st\<lparr>vs_graph := g, vs_metadata := metadata\<rparr>)))"

definition with_value ::
  "('vg, value_rec, unit) graph_ops \<Rightarrow> (assoc_key \<Rightarrow> u64) \<Rightarrow> gv_key \<Rightarrow> (value_rec \<Rightarrow> 'a) \<Rightarrow> ('vg, 'cg) value_store \<Rightarrow> 'a option" where
  "with_value V hash key f st =
     Option.bind (resolve V hash st key) (\<lambda>vid. map_option f (vs_node V st vid))"

definition with_value_mut ::
  "('vg, value_rec, unit) graph_ops \<Rightarrow> (assoc_key \<Rightarrow> u64) \<Rightarrow> gv_key \<Rightarrow> (value_rec \<Rightarrow> 'a \<times> value_rec) \<Rightarrow> ('vg, 'cg) value_store
    \<Rightarrow> ('a \<times> ('vg, 'cg) value_store) option" where
  "with_value_mut V hash key f st =
     Option.bind (resolve V hash st key) (\<lambda>vid.
     map_option (\<lambda>v. (fst (f v), st\<lparr>vs_graph := g_set_weight V (unat (value_id_raw vid)) (snd (f v)) (vs_graph st)\<rparr>))
       (vs_node V st vid))"

definition with_metadata ::
  "('vg, value_rec, unit) graph_ops \<Rightarrow> (assoc_key \<Rightarrow> u64) \<Rightarrow> gv_key \<Rightarrow> ('cg value_metadata \<Rightarrow> 'a) \<Rightarrow> ('vg, 'cg) value_store \<Rightarrow> 'a option" where
  "with_metadata V hash key f st =
     Option.bind (resolve V hash st key) (\<lambda>vid. map_option f (map_of (vs_metadata st) vid))"

definition with_metadata_mut ::
  "('vg, value_rec, unit) graph_ops \<Rightarrow> (assoc_key \<Rightarrow> u64) \<Rightarrow> gv_key \<Rightarrow> ('cg value_metadata \<Rightarrow> 'a \<times> 'cg value_metadata)
    \<Rightarrow> ('vg, 'cg) value_store \<Rightarrow> ('a \<times> ('vg, 'cg) value_store) option" where
  "with_metadata_mut V hash key f st =
     Option.bind (resolve V hash st key) (\<lambda>vid.
     map_option (\<lambda>m. (fst (f m), st\<lparr>vs_metadata := assoc_put vid (snd (f m)) (vs_metadata st)\<rparr>))
       (map_of (vs_metadata st) vid))"

definition alloc_id_of :: "('vg, 'cg) value_store \<Rightarrow> value_id \<Rightarrow> object_id option" where
  "alloc_id_of st ix = Option.bind (map_of (vs_metadata st) ix) vm_object_id"

definition type_id_of :: "('vg, 'cg) value_store \<Rightarrow> value_id \<Rightarrow> type_id option" where
  "type_id_of st ix = Option.bind (map_of (vs_metadata st) ix) vm_type_id"

section \<open>The invariant\<close>

text \<open>The values are the first node indices, and every value has metadata that names it.\<close>

definition vs_wf :: "('vg, value_rec, unit) graph_ops \<Rightarrow> ('vg, 'cg) value_store \<Rightarrow> bool" where
  "vs_wf V st \<longleftrightarrow> length (g_weights V (vs_graph st)) \<le> 2 ^ 32 - 1
     \<and> (\<forall>vid. (\<exists>m. map_of (vs_metadata st) vid = Some m) \<longleftrightarrow> unat (value_id_raw vid) < length (g_weights V (vs_graph st)))
     \<and> (\<forall>vid m. map_of (vs_metadata st) vid = Some m \<longrightarrow> vm_value_ix m = vid)"

lemma value_id_eq: "n < 2 ^ 32 \<Longrightarrow> i = ValueId (word_of_nat n) \<longleftrightarrow> unat (value_id_raw i) = n"
  using unat_word_of_nat_u32 [of n] by (cases i) auto

lemma vs_wf_default: "graph_laws V \<Longrightarrow> vs_wf V (vs_default V)"
  by (simp add: vs_wf_def vs_default_def graph_empty)

lemma vs_insert_ok:
  assumes V: "graph_laws V" and wf: "vs_wf V st" and room: "length (g_weights V (vs_graph st)) < 2 ^ 32 - 1"
  shows "\<exists>vid st'. vs_insert V v st = Inr (vid, st') \<and> vs_wf V st' \<and> unat (value_id_raw vid) = length (g_weights V (vs_graph st))
    \<and> vs_node V st vid = None \<and> (\<forall>i. vs_node V st' i = (if i = vid then Some v else vs_node V st i))
    \<and> (\<forall>i. map_of (vs_metadata st') i = (if i = vid then Some (metadata_default vid) else map_of (vs_metadata st) i))
    \<and> vs_assoc_cache st' = vs_assoc_cache st"
proof -
  let ?n = "length (g_weights V (vs_graph st))"
  obtain g where g: "g_add_node V v (vs_graph st) = Inr (?n, g)" "g_weights V g = g_weights V (vs_graph st) @ [v]"
    using graph_add_node [OF V room, of v] by blast
  define vid where "vid = ValueId (word_of_nat ?n)"
  have n32: "?n < 2 ^ 32" using room by simp
  have idn: "i = vid \<longleftrightarrow> unat (value_id_raw i) = ?n" for i unfolding vid_def by (rule value_id_eq [OF n32])
  have none: "map_of (vs_metadata st) vid = None" using wf idn [of vid] unfolding vs_wf_def by (metis less_irrefl option.exhaust)
  define st' where "st' = st\<lparr>vs_graph := g, vs_metadata := assoc_put vid (metadata_default vid) (vs_metadata st)\<rparr>"
  have run: "vs_insert V v st = Inr (vid, st')" using g none by (simp add: vs_insert_def Let_def vid_def st'_def)
  have node: "vs_node V st' i = (if i = vid then Some v else vs_node V st i)" for i
    using idn [of i] g(2) by (auto simp: vs_node_def st'_def get_at_def nth_append)
  have meta: "map_of (vs_metadata st') i = (if i = vid then Some (metadata_default vid) else map_of (vs_metadata st) i)" for i
    by (simp add: st'_def)
  have "vs_wf V st'"
    unfolding vs_wf_def
  proof (intro conjI allI impI)
    show "length (g_weights V (vs_graph st')) \<le> 2 ^ 32 - 1" using g(2) room by (simp add: st'_def)
    show "(\<exists>m. map_of (vs_metadata st') i = Some m) \<longleftrightarrow> unat (value_id_raw i) < length (g_weights V (vs_graph st'))" for i
      using wf idn [of i] g(2) unfolding meta by (auto simp: vs_wf_def st'_def)
    show "vm_value_ix m = i" if "map_of (vs_metadata st') i = Some m" for i m
      using wf that unfolding meta by (auto simp: vs_wf_def metadata_default_def split: if_splits)
  qed
  moreover have "vs_node V st vid = None" using idn [of vid] by (simp add: vs_node_def)
  ultimately show ?thesis using run node meta idn [of vid] by (intro exI [of _ vid] exI [of _ st']) (simp add: st'_def)
qed

text \<open>
  Values and keys of the store. In a well-formed store with room, inserting a value gives a
  fresh identifier under which the value and fresh metadata are found, and changes nothing for
  any other identifier. Associating a key with it makes the key find the value unless the key's
  hash was taken, in which case the earlier value stays; keys with other hashes are unaffected.
\<close>

theorem value_store_roundtrip:
  assumes V: "graph_laws V" and wf: "vs_wf V st" and room: "length (g_weights V (vs_graph st)) < 2 ^ 32 - 1"
  shows "\<exists>vid st'. vs_insert V v st = Inr (vid, st') \<and> vs_wf V st' \<and> vs_wf V (vs_assoc hash k vid st')
    \<and> \<not> vs_contains V hash st (ValueKey vid)
    \<and> with_value V hash (ValueKey i) f st' = (if i = vid then Some (f v) else with_value V hash (ValueKey i) f st)
    \<and> with_metadata V hash (ValueKey i) g st' = (if i = vid then Some (g (metadata_default vid)) else with_metadata V hash (ValueKey i) g st)
    \<and> get_by_assoc hash (vs_assoc hash k vid st') k' =
        (if hash k' = hash k \<and> get_by_assoc hash st k = None then Some vid else get_by_assoc hash st k')
    \<and> (get_by_assoc hash st k = None \<longrightarrow> with_value V hash (AssocKey k) f (vs_assoc hash k vid st') = Some (f v))"
proof -
  obtain vid st' where s: "vs_insert V v st = Inr (vid, st')" "vs_wf V st'" "vs_node V st vid = None"
    "\<And>i. vs_node V st' i = (if i = vid then Some v else vs_node V st i)"
    "\<And>i. map_of (vs_metadata st') i = (if i = vid then Some (metadata_default vid) else map_of (vs_metadata st) i)"
    "vs_assoc_cache st' = vs_assoc_cache st"
    using vs_insert_ok [OF V wf room, of v] by blast
  have same: "vs_graph (vs_assoc hash k vid st') = vs_graph st'" "vs_metadata (vs_assoc hash k vid st') = vs_metadata st'"
    by (simp_all add: vs_assoc_def split: option.splits)
  have wf': "vs_wf V (vs_assoc hash k vid st')" using s(2) unfolding vs_wf_def same .
  have node': "vs_node V (vs_assoc hash k vid st') i = vs_node V st' i" for i by (simp add: vs_node_def same)
  have as: "get_by_assoc hash (vs_assoc hash k vid st') k' =
      (if hash k' = hash k \<and> get_by_assoc hash st k = None then Some vid else get_by_assoc hash st k')" for k'
    using s(6) by (auto simp: get_by_assoc_def vs_assoc_def split: option.splits)
  have v: "with_value V hash (ValueKey i) f st' = (if i = vid then Some (f v) else with_value V hash (ValueKey i) f st)"
    by (auto simp: with_value_def resolve_value_def s(4) split: bind_splits)
  have m: "with_metadata V hash (ValueKey i) g st' = (if i = vid then Some (g (metadata_default vid)) else with_metadata V hash (ValueKey i) g st)"
    by (auto simp: with_metadata_def resolve_value_def s(4,5) split: bind_splits)
  have a: "with_value V hash (AssocKey k) f (vs_assoc hash k vid st') = Some (f v)" if "get_by_assoc hash st k = None"
    using that as [of k] by (simp add: with_value_def resolve_value_def node' s(4))
  have "\<not> vs_contains V hash st (ValueKey vid)" using s(3) by (simp add: vs_contains_def resolve_value_def)
  with s(1,2) wf' v m as [of k'] a show ?thesis by (intro exI [of _ vid] exI [of _ st']) simp
qed

theorem value_store_roundtrip_witness:
  "\<exists>vid (st' :: (value_rec list \<times> (nat \<times> nat \<times> unit) list, unit) value_store).
     vs_insert list_graph value_default (vs_default list_graph) = Inr (vid, st')
     \<and> with_value list_graph (\<lambda>_. 0) (AssocKey (TypeKey 1)) (\<lambda>v. v) (vs_assoc (\<lambda>_. 0) (TypeKey 1) vid st') = Some value_default"
proof -
  let ?st = "vs_default list_graph :: (value_rec list \<times> (nat \<times> nat \<times> unit) list, unit) value_store"
  have wf: "vs_wf list_graph ?st" using vs_wf_default [OF list_graph_laws] .
  have room: "length (g_weights list_graph (vs_graph ?st)) < 2 ^ 32 - 1" by (simp add: vs_default_def list_graph_def)
  have none: "get_by_assoc (\<lambda>_. 0) ?st (TypeKey 1) = None" by (simp add: get_by_assoc_def vs_default_def)
  from value_store_roundtrip [OF list_graph_laws wf room, of value_default "\<lambda>_. 0" "TypeKey 1" "ValueId 0" "\<lambda>v. v" "\<lambda>_. ()" "TypeKey 1"] none
  show ?thesis by blast
qed

end
