(* ===== verification/TypingMachine.thy ===== *)
theory TypingMachine
  imports VariableFlow ValueStore TypingLaws
begin

text \<open>
  The abstract interpreter of \<^verbatim>\<open>montyc_driver/src/typeck/typing_machine.rs\<close> and the function
  \<open>typecheck\<close> of \<^verbatim>\<open>typeck/mod.rs\<close> that runs it: a reducer over the control flow graph that assigns
  a type to every value and emits the instructions of \<^verbatim>\<open>montyc_core/src/codegen.rs\<close>.

  The session is the type registry and the value store. Two of its queries, the type of a value
  (computed by the compile-time interpreter) and the text of a span, are arguments, together
  with the operations of the value graph and the hash of the store (\<open>queries\<close>). Log output is
  left out. Reading a local variable builds the variable flow graph and then panics with its
  printout; \<open>VariableFlow\<close> shows that building it ends, so the model goes straight to the panic.
\<close>

section \<open>Instructions for code generation\<close>

datatype cg_field = ByVal nat | Imm "64 word"

datatype cg_inst =
    CgJump nat "nat list"
  | CgJumpIfTrue nat nat
  | CgJumpIfFalse nat nat
  | CgUse value_id nat
  | CgCall value_id "nat list" nat
  | CgConst const nat
  | CgFieldLoad nat type_id cg_field type_id nat
  | CgReadLocalVar span_ref nat
  | CgWriteLocalVar span_ref nat
  | CgAlloc type_id "nat list" nat
  | CgReturn nat

section \<open>State\<close>

record ('vg, 'cg) session =
  ss_types :: typing_data
  ss_values :: "('vg, 'cg) value_store"

record ('vg, 'cg) queries =
  q_graph :: "('vg, value_rec, unit) graph_ops"
  q_hash :: "assoc_key \<Rightarrow> u64"
  q_get_type_of :: "value_id \<Rightarrow> ('vg, 'cg) session \<Rightarrow> (type_id \<times> ('vg, 'cg) session) monty"
  q_spanref_to_str :: "span_ref \<Rightarrow> ('vg, 'cg) session \<Rightarrow> string monty"

record binding =
  bd_block :: nat
  bd_inst :: nat
  bd_type_id :: type_id

record 'g typing_machine =
  tm_cfg :: 'g
  tm_return_t :: type_id
  tm_entry :: "nat option"
  tm_mref :: module_ref
  tm_locals :: "(u32 \<times> binding list) list"
  tm_nonlocals :: "(nat \<times> value_id) list"
  tm_values :: "(nat \<times> type_id) list"

text \<open>What \<open>analyze_block\<close> works on: the machine, the session, the block emitted so far, the errors.\<close>

record ('g, 'vg, 'cg) analysis =
  an_tm :: "'g typing_machine"
  an_cx :: "('vg, 'cg) session"
  an_cg :: "cg_inst list"
  an_errors :: "type_error list"

text \<open>How the body of the loop over the instructions ends.\<close>

datatype loop_exit = NextInst | BreakLoop

section \<open>Lookups\<close>

definition tm_new ::
  "('g, flat_inst list, block_cfg_edge) graph_ops \<Rightarrow> flat_inst list list \<Rightarrow> type_id \<Rightarrow> module_ref \<Rightarrow> 'g typing_machine rust" where
  "tm_new G blocks return_t mref =
     and_then (new_from_blocks G blocks) (\<lambda>(cfg, entry).
     Inr \<lparr>tm_cfg = cfg, tm_return_t = return_t, tm_entry = entry, tm_mref = mref, tm_locals = [], tm_nonlocals = [], tm_values = []\<rparr>)"

fun find_inst_from :: "nat \<Rightarrow> nat \<Rightarrow> flat_inst list list \<Rightarrow> (flat_inst \<times> nat) option" where
  "find_inst_from ix v [] = None"
| "find_inst_from ix v (node # nodes) =
     (case find (\<lambda>i. fi_value i = v) node of
        Some x \<Rightarrow> Some (x, ix mod 2 ^ 32)
      | None \<Rightarrow> find_inst_from (Suc ix) v nodes)"

definition find_inst :: "('g, flat_inst list, block_cfg_edge) graph_ops \<Rightarrow> 'g \<Rightarrow> nat \<Rightarrow> (flat_inst \<times> nat) option" where
  "find_inst G cfg v = find_inst_from 0 v (g_weights G cfg)"

text \<open>Indexing a map panics when the key is missing.\<close>

definition map_index :: "('k \<times> 'v) list \<Rightarrow> 'k \<Rightarrow> 'v monty" where
  "map_index m k = (case map_of m k of None \<Rightarrow> Inl (Panicked IndexOutOfBounds) | Some v \<Rightarrow> Inr v)"

fun map_index_all :: "('k \<times> 'v) list \<Rightarrow> 'k list \<Rightarrow> 'v list monty" where
  "map_index_all m [] = Inr []"
| "map_index_all m (k # ks) = and_then (map_index m k) (\<lambda>v. and_then (map_index_all m ks) (\<lambda>vs. Inr (v # vs)))"

definition an_push :: "cg_inst \<Rightarrow> ('g, 'vg, 'cg) analysis \<Rightarrow> ('g, 'vg, 'cg) analysis" where
  "an_push c st = st\<lparr>an_cg := an_cg st @ [c]\<rparr>"

definition an_error :: "type_error \<Rightarrow> ('g, 'vg, 'cg) analysis \<Rightarrow> ('g, 'vg, 'cg) analysis" where
  "an_error e st = st\<lparr>an_errors := an_errors st @ [e]\<rparr>"

definition an_set_type :: "nat \<Rightarrow> type_id \<Rightarrow> ('g, 'vg, 'cg) analysis \<Rightarrow> ('g, 'vg, 'cg) analysis" where
  "an_set_type v t st = st\<lparr>an_tm := (an_tm st)\<lparr>tm_values := assoc_put v t (tm_values (an_tm st))\<rparr>\<rparr>"

definition an_set_types :: "typing_data \<Rightarrow> ('g, 'vg, 'cg) analysis \<Rightarrow> ('g, 'vg, 'cg) analysis" where
  "an_set_types td st = st\<lparr>an_cx := (an_cx st)\<lparr>ss_types := td\<rparr>\<rparr>"

definition an_value_type :: "('g, 'vg, 'cg) analysis \<Rightarrow> nat \<Rightarrow> type_id monty" where
  "an_value_type st v = map_index (tm_values (an_tm st)) v"

text \<open>\<open>find_inst(cfg, v).unwrap()\<close>.\<close>

definition an_find :: "('g, flat_inst list, block_cfg_edge) graph_ops \<Rightarrow> ('g, 'vg, 'cg) analysis \<Rightarrow> nat \<Rightarrow> (flat_inst \<times> nat) monty" where
  "an_find G st v = lift_panic (unwrap (find_inst G (tm_cfg (an_tm st)) v))"

text \<open>\<open>(mref, inst.attrs.span.clone().unwrap_or_default())\<close>.\<close>

definition inst_node :: "('g, 'vg, 'cg) analysis \<Rightarrow> flat_inst \<Rightarrow> located_span" where
  "inst_node st x = (tm_mref (an_tm st), case ia_span (fi_attrs x) of None \<Rightarrow> (0, 0) | Some sp \<Rightarrow> sp)"

section \<open>Instructions that move control\<close>

definition analyze_br ::
  "('g, flat_inst list, block_cfg_edge) graph_ops \<Rightarrow> nat \<Rightarrow> nat list \<Rightarrow> ('g, 'vg, 'cg) analysis \<Rightarrow> ('g, 'vg, 'cg) analysis monty" where
  "analyze_br G target with_vals st = and_then (an_find G st target) (\<lambda>(_, block). Inr (an_push (CgJump block with_vals) st))"

definition analyze_if ::
  "('g, flat_inst list, block_cfg_edge) graph_ops \<Rightarrow> nat \<Rightarrow> nat option \<Rightarrow> nat option \<Rightarrow> ('g, 'vg, 'cg) analysis
    \<Rightarrow> ('g, 'vg, 'cg) analysis monty" where
  "analyze_if G test truthy falsey st =
     (case (truthy, falsey) of
        (None, None) \<Rightarrow> Inr st
      | (None, Some target) \<Rightarrow>
          and_then (an_find G st target) (\<lambda>(_, block). Inr (an_push (CgJumpIfFalse block test) st))
      | (Some target, None) \<Rightarrow>
          and_then (an_find G st target) (\<lambda>(_, block). Inr (an_push (CgJumpIfTrue block test) st))
      | (Some target, Some orelse) \<Rightarrow>
          and_then (an_find G st target) (\<lambda>(_, block).
          and_then (an_find G st orelse) (\<lambda>(_, block').
          Inr (an_push (CgJump block' []) (an_push (CgJumpIfTrue block test) st)))))"

section \<open>Variables\<close>

definition analyze_set_var :: "nat \<Rightarrow> flat_inst \<Rightarrow> span_ref \<Rightarrow> nat \<Rightarrow> ('g, 'vg, 'cg) analysis \<Rightarrow> ('g, 'vg, 'cg) analysis monty" where
  "analyze_set_var block_ix x variable v st =
     and_then (an_value_type st v) (\<lambda>type_id.
     (let locals = tm_locals (an_tm st);
          var = (case map_of locals (span_group variable) of None \<Rightarrow> [] | Some bs \<Rightarrow> bs);
          locals' = assoc_put (span_group variable)
            (var @ [\<lparr>bd_block = block_ix, bd_inst = fi_value x, bd_type_id = type_id\<rparr>]) locals
      in Inr (an_push (CgWriteLocalVar variable v) (st\<lparr>an_tm := (an_tm st)\<lparr>tm_locals := locals'\<rparr>\<rparr>))))"

definition analyze_use_var ::
  "('vg, 'cg) queries \<Rightarrow> flat_inst \<Rightarrow> span_ref \<Rightarrow> ('g, 'vg, 'cg) analysis \<Rightarrow> ('g, 'vg, 'cg) analysis monty" where
  "analyze_use_var Q x variable st =
     (case map_of (tm_locals (an_tm st)) (span_group variable) of
        Some _ \<Rightarrow> Inl (Panicked PanicMacro)
      | None \<Rightarrow>
          (let store = ss_values (an_cx st) in
           and_then (lift_panic (unwrap (get_by_assoc (q_hash Q) store (ModuleKey (tm_mref (an_tm st)))))) (\<lambda>module.
           and_then (lift_panic (unwrap (with_value (q_graph Q) (q_hash Q) (ValueKey module)
             (\<lambda>m. map_of (val_properties m) (span_group variable)) store))) (\<lambda>found.
           and_then (lift_panic (unwrap found)) (\<lambda>v.
           and_then (q_get_type_of Q v (an_cx st)) (\<lambda>(value_t, cx').
           (let st' = an_set_type (fi_value x) value_t (st\<lparr>an_cx := cx'\<rparr>);
                st'' = st'\<lparr>an_tm := (an_tm st')\<lparr>tm_nonlocals := assoc_put (fi_value x) v (tm_nonlocals (an_tm st'))\<rparr>\<rparr>
            in Inr (an_push (CgUse v (fi_value x)) st''))))))))"

section \<open>Calls\<close>

text \<open>
  What the callable of a call was computed by: \<open>Inl\<close> a global variable (the loop continues),
  \<open>Inr (Some _)\<close> an attribute of an object, \<open>Inr None\<close> anything else.
\<close>

definition call_attr ::
  "('vg, 'cg) queries \<Rightarrow> ('g, flat_inst list, block_cfg_edge) graph_ops \<Rightarrow> nat \<Rightarrow> ('g, 'vg, 'cg) analysis
    \<Rightarrow> (unit + (nat \<times> type_id \<times> string) option) monty" where
  "call_attr Q G callable st =
     and_then (an_find G st callable) (\<lambda>(c, _).
     (case fi_op c of
        GetAttribute ob attr \<Rightarrow>
          and_then (an_find G st attr) (\<lambda>(a, _).
          (case fi_op a of
             RefAsStr r \<Rightarrow>
               and_then (q_spanref_to_str Q r (an_cx st)) (\<lambda>s.
               and_then (an_value_type st ob) (\<lambda>object_t. Inr (Inr (Some (ob, object_t, s)))))
           | _ \<Rightarrow> Inr (Inr None)))
      | GetDunder ob dunder \<Rightarrow>
          and_then (an_value_type st ob) (\<lambda>object_t.
          and_then (lift_panic (dunder_display dunder)) (\<lambda>s. Inr (Inr (Some (ob, object_t, s)))))
      | UseVar _ \<Rightarrow> Inr (Inl ())
      | _ \<Rightarrow> Inr (Inr None)))"

text \<open>\<open>members.get(n as usize)\<close>: a negative \<open>i64\<close> is out of range.\<close>

definition tuple_field :: "type_id list \<Rightarrow> 64 word \<Rightarrow> type_id option" where
  "tuple_field members n = get_at members (unat n)"

definition emit_method_call ::
  "('g, flat_inst list, block_cfg_edge) graph_ops \<Rightarrow> flat_inst \<Rightarrow> nat list \<Rightarrow> type_id \<Rightarrow> nat \<times> type_id \<times> string
    \<Rightarrow> ('g, 'vg, 'cg) analysis \<Rightarrow> ('g, 'vg, 'cg) analysis monty" where
  "emit_method_call G x arguments ret attr st =
     (case attr of (ob, object_t, name) \<Rightarrow>
        and_then (lift_panic (unwrap (td_get_python_type_of (ss_types (an_cx st)) object_t))) (\<lambda>object_pytype.
        (case (object_pytype, name = ''__getitem__'') of
           (PyTuple members, True) \<Rightarrow>
             (case get_at arguments 1 of
                None \<Rightarrow> Inl (Panicked IndexOutOfBounds)
              | Some index \<Rightarrow>
                  and_then (an_find G st index) (\<lambda>(i, _).
                  (let (field, field_t) =
                     (case fi_op i of
                        ConstInst (CInt n) \<Rightarrow> (Imm n, tuple_field (params_of members) n)
                      | _ \<Rightarrow> (ByVal index, Some ret))
                   in Inr (an_push (CgFieldLoad ob object_t field
                             (case field_t of None \<Rightarrow> builtin_tag BNever | Some t \<Rightarrow> t) (fi_value x)) st))))
         | _ \<Rightarrow>
             and_then (lift_panic (td_get_property object_t name (ss_types (an_cx st)))) (\<lambda>(prop, td).
             (let st' = an_set_types td st in
              (case prop of
                 None \<Rightarrow> Inr st'
               | Some p \<Rightarrow>
                   (case prop_value p of
                      PropId v \<Rightarrow> Inr (an_push (CgCall v arguments (fi_value x)) st')
                    | PropBuiltin _ _ \<Rightarrow> Inl (Panicked TodoMacro))))))))"

text \<open>One error for every argument of the wrong type.\<close>

definition bad_arguments :: "flat_inst \<Rightarrow> (nat \<times> type_id \<times> type_id) list \<Rightarrow> ('g, 'vg, 'cg) analysis \<Rightarrow> ('g, 'vg, 'cg) analysis" where
  "bad_arguments x mismatch st =
     fold (\<lambda>(n, expected, actual) st. an_error (BadArgumentType expected actual (inst_node st x) (inst_node st x)) st) mismatch st"

text \<open>What follows once the call is known to be well typed.\<close>

definition emit_call ::
  "('vg, 'cg) queries \<Rightarrow> ('g, flat_inst list, block_cfg_edge) graph_ops \<Rightarrow> flat_inst \<Rightarrow> nat \<Rightarrow> nat list \<Rightarrow> type_id
    \<Rightarrow> ('g, 'vg, 'cg) analysis \<Rightarrow> (loop_exit \<times> ('g, 'vg, 'cg) analysis) monty" where
  "emit_call Q G x callable arguments ret st =
     and_then (call_attr Q G callable st) (\<lambda>attr.
     (case attr of
        Inl _ \<Rightarrow>
          Inr (NextInst, case map_of (tm_nonlocals (an_tm st)) callable of
                 None \<Rightarrow> st | Some v \<Rightarrow> an_push (CgCall v arguments (fi_value x)) st)
      | Inr None \<Rightarrow> Inr (NextInst, st)
      | Inr (Some a) \<Rightarrow> and_then (emit_method_call G x arguments ret a st) (\<lambda>st'. Inr (NextInst, st'))))"

definition analyze_callable ::
  "('vg, 'cg) queries \<Rightarrow> ('g, flat_inst list, block_cfg_edge) graph_ops \<Rightarrow> flat_inst \<Rightarrow> nat \<Rightarrow> nat list \<Rightarrow> type_id \<Rightarrow> type_id
    \<Rightarrow> ('g, 'vg, 'cg) analysis \<Rightarrow> (loop_exit \<times> ('g, 'vg, 'cg) analysis) monty" where
  "analyze_callable Q G x callable arguments callable_t ret st =
     and_then (map_index_all (tm_values (an_tm st)) arguments) (\<lambda>argument_types.
     and_then (lift_panic (td_unify_func (ss_types (an_cx st)) callable_t argument_types ret)) (\<lambda>unified.
     (case unified of
        Inl (UnequalArity _ _) \<Rightarrow> Inl (Panicked TodoMacro)
      | Inl NotCallableFailure \<Rightarrow> Inl (Panicked UnreachableCode)
      | Inl (BadArgumentTypes mismatch) \<Rightarrow> Inr (BreakLoop, bad_arguments x mismatch st)
      | Inr _ \<Rightarrow> emit_call Q G x callable arguments ret (an_set_type (fi_value x) ret st))))"

definition analyze_call ::
  "('vg, 'cg) queries \<Rightarrow> ('g, flat_inst list, block_cfg_edge) graph_ops \<Rightarrow> flat_inst \<Rightarrow> nat \<Rightarrow> nat list \<Rightarrow> ('g, 'vg, 'cg) analysis
    \<Rightarrow> (loop_exit \<times> ('g, 'vg, 'cg) analysis) monty" where
  "analyze_call Q G x callable arguments st =
     and_then (an_value_type st callable) (\<lambda>callable_t.
     and_then (lift_panic (unwrap (td_get_python_type_of (ss_types (an_cx st)) callable_t))) (\<lambda>callable_pytype.
     (case callable_pytype of
        PyCallable _ ret \<Rightarrow> analyze_callable Q G x callable arguments callable_t ret st
      | PyBuiltin BType \<Rightarrow>
          (case map_of (tm_nonlocals (an_tm st)) callable of
             None \<Rightarrow> Inl (Panicked IndexOutOfBounds)
           | Some _ \<Rightarrow> Inl (Panicked TodoMacro))
      | _ \<Rightarrow> Inl (Panicked TodoMacro))))"

section \<open>Attributes, constants, tuples, returns\<close>

definition analyze_get_attribute ::
  "('vg, 'cg) queries \<Rightarrow> ('g, flat_inst list, block_cfg_edge) graph_ops \<Rightarrow> flat_inst \<Rightarrow> nat \<Rightarrow> nat \<Rightarrow> ('g, 'vg, 'cg) analysis
    \<Rightarrow> ('g, 'vg, 'cg) analysis monty" where
  "analyze_get_attribute Q G x ob attr st =
     and_then (an_value_type st ob) (\<lambda>object_t.
     and_then (an_find G st attr) (\<lambda>(a, _).
     (case fi_op a of
        RefAsStr r \<Rightarrow>
          and_then (q_spanref_to_str Q r (an_cx st)) (\<lambda>name.
          and_then (lift_panic (td_get_property object_t name (ss_types (an_cx st)))) (\<lambda>(prop, td).
          (let st' = an_set_types td st in
           (case prop of
              Some p \<Rightarrow> Inr (an_set_type (fi_value x) (prop_type_id p) st')
            | None \<Rightarrow> Inr (an_error (InvalidAttributeAccess object_t (inst_node st x)) st')))))
      | _ \<Rightarrow> Inl (Panicked TodoMacro))))"

definition analyze_get_dunder :: "flat_inst \<Rightarrow> nat \<Rightarrow> dunder \<Rightarrow> ('g, 'vg, 'cg) analysis \<Rightarrow> ('g, 'vg, 'cg) analysis monty" where
  "analyze_get_dunder x ob dunder st =
     and_then (an_value_type st ob) (\<lambda>object_t.
     and_then (lift_panic (dunder_display dunder)) (\<lambda>name.
     and_then (lift_panic (td_get_property object_t name (ss_types (an_cx st)))) (\<lambda>(prop, td).
     (case prop of
        Some p \<Rightarrow> Inr (an_set_type (fi_value x) (prop_type_id p) (an_set_types td st))
      | None \<Rightarrow> Inl (Panicked TodoMacro)))))"

fun const_type :: "const \<Rightarrow> type_id" where
  "const_type (CInt _) = builtin_tag BInt"
| "const_type (CFloat _) = builtin_tag BFloat"
| "const_type (CBool _) = builtin_tag BBool"
| "const_type (CString _) = builtin_tag BStr"
| "const_type CNone = builtin_tag BNone"
| "const_type CEllipsis = builtin_tag BEllipsis"

definition analyze_tuple :: "flat_inst \<Rightarrow> nat list \<Rightarrow> ('g, 'vg, 'cg) analysis \<Rightarrow> ('g, 'vg, 'cg) analysis monty" where
  "analyze_tuple x elems st =
     and_then (map_index_all (tm_values (an_tm st)) elems) (\<lambda>types.
     and_then (lift_panic (td_tuple types (ss_types (an_cx st)))) (\<lambda>(type_id, td).
     Inr (an_set_type (fi_value x) type_id (an_push (CgAlloc type_id elems (fi_value x)) (an_set_types td st)))))"

definition analyze_return :: "flat_inst \<Rightarrow> nat \<Rightarrow> ('g, 'vg, 'cg) analysis \<Rightarrow> ('g, 'vg, 'cg) analysis monty" where
  "analyze_return x v st =
     and_then (an_value_type st v) (\<lambda>val_t.
     if val_t \<noteq> tm_return_t (an_tm st)
     then Inr (an_error (BadReturnType (tm_return_t (an_tm st)) val_t (inst_node st x) (inst_node st x)) st)
     else Inr (an_push (CgReturn v) st))"

section \<open>Blocks\<close>

definition next_inst :: "('g, 'vg, 'cg) analysis monty \<Rightarrow> (loop_exit \<times> ('g, 'vg, 'cg) analysis) monty" where
  "next_inst r = and_then r (\<lambda>st. Inr (NextInst, st))"

definition analyze_inst ::
  "('vg, 'cg) queries \<Rightarrow> ('g, flat_inst list, block_cfg_edge) graph_ops \<Rightarrow> nat \<Rightarrow> flat_inst \<Rightarrow> ('g, 'vg, 'cg) analysis
    \<Rightarrow> (loop_exit \<times> ('g, 'vg, 'cg) analysis) monty" where
  "analyze_inst Q G block_ix x st =
     (case fi_op x of
        SetAnnotation _ annotation \<Rightarrow> and_then (an_find G st annotation) (\<lambda>_. Inl (Panicked TodoMacro))
      | Defn _ _ _ _ \<Rightarrow> Inl (Panicked TodoMacro)
      | Class _ \<Rightarrow> Inl (Panicked TodoMacro)
      | ImportInst _ _ \<Rightarrow> Inl (Panicked TodoMacro)
      | Br to \<Rightarrow> next_inst (analyze_br G to [] st)
      | IfInst test truthy falsey \<Rightarrow> next_inst (analyze_if G test truthy falsey st)
      | Undefined \<Rightarrow> Inr (NextInst, st)
      | Nop \<Rightarrow> Inr (NextInst, st)
      | BuildClass _ _ \<Rightarrow> Inr (NextInst, st)
      | JumpTarget \<Rightarrow> Inr (NextInst, st)
      | SetVar variable v \<Rightarrow> next_inst (analyze_set_var block_ix x variable v st)
      | UseVar variable \<Rightarrow> next_inst (analyze_use_var Q x variable st)
      | RefAsStr _ \<Rightarrow> Inr (NextInst, an_set_type (fi_value x) (builtin_tag BStr) st)
      | CallInst callable arguments \<Rightarrow> analyze_call Q G x callable arguments st
      | GetAttribute ob attr \<Rightarrow> next_inst (analyze_get_attribute Q G x ob attr st)
      | SetAttribute _ _ _ \<Rightarrow> Inl (Panicked TodoMacro)
      | GetDunder ob dunder \<Rightarrow> next_inst (analyze_get_dunder x ob dunder st)
      | SetDunder _ _ _ \<Rightarrow> Inl (Panicked TodoMacro)
      | ConstInst cst \<Rightarrow>
          Inr (NextInst, an_push (CgConst cst (fi_value x)) (an_set_type (fi_value x) (const_type cst) st))
      | TupleInst elems \<Rightarrow> next_inst (analyze_tuple x elems st)
      | PhiJump recv v \<Rightarrow> next_inst (analyze_br G recv [v] st)
      | PhiRecv \<Rightarrow> Inl (Panicked TodoMacro)
      | ReturnInst v \<Rightarrow> next_inst (analyze_return x v st))"

fun analyze_insts ::
  "('vg, 'cg) queries \<Rightarrow> ('g, flat_inst list, block_cfg_edge) graph_ops \<Rightarrow> nat \<Rightarrow> flat_inst list \<Rightarrow> ('g, 'vg, 'cg) analysis
    \<Rightarrow> ('g, 'vg, 'cg) analysis monty" where
  "analyze_insts Q G block_ix [] st = Inr st"
| "analyze_insts Q G block_ix (x # xs) st =
     and_then (analyze_inst Q G block_ix x st) (\<lambda>(exit_kind, st').
     (case exit_kind of
        BreakLoop \<Rightarrow> Inr st'
      | NextInst \<Rightarrow> analyze_insts Q G block_ix xs st'))"

text \<open>The machine and the session are the reducer's state; the result carries the emitted block and the errors.\<close>

definition analyze_block ::
  "('vg, 'cg) queries \<Rightarrow> ('g, flat_inst list, block_cfg_edge) graph_ops \<Rightarrow> nat \<Rightarrow> 'g typing_machine \<times> ('vg, 'cg) session
    \<Rightarrow> ('g, 'vg, 'cg) analysis monty" where
  "analyze_block Q G block_ix s =
     and_then (ok_or (get_at (g_weights G (tm_cfg (fst s))) block_ix) MontyNone) (\<lambda>block.
     and_then (analyze_insts Q G block_ix block \<lparr>an_tm = fst s, an_cx = snd s, an_cg = [], an_errors = []\<rparr>) (\<lambda>st.
     and_then (lift_panic (assert_that (an_cg st \<noteq> []))) (\<lambda>_. Inr st)))"

definition tm_visit_block ::
  "('vg, 'cg) queries \<Rightarrow> ('g, flat_inst list, block_cfg_edge) graph_ops \<Rightarrow> ('cg, cg_inst list, unit) graph_ops
    \<Rightarrow> ('g typing_machine \<times> ('vg, 'cg) session, 'cg) visit_fn" where
  "tm_visit_block Q G C s out ix =
     and_then (analyze_block Q G ix s) (\<lambda>st.
     (let out' = (case get_at (g_weights C out) ix of None \<Rightarrow> out | Some _ \<Rightarrow> g_set_weight C ix (an_cg st) out)
      in Inr (map fst (g_out G (tm_cfg (an_tm st)) ix), an_errors st, (an_tm st, an_cx st), out')))"

definition tm_make_output ::
  "('g, flat_inst list, block_cfg_edge) graph_ops \<Rightarrow> ('cg, cg_inst list, unit) graph_ops \<Rightarrow> 'g \<Rightarrow> 'cg rust" where
  "tm_make_output G C cfg = add_defaults C [] (length (g_weights G cfg)) (g_empty C)"

section \<open>Typechecking a function\<close>

definition get_function_flatcode :: "('vg, 'cg) queries \<Rightarrow> ('vg, 'cg) session \<Rightarrow> value_id \<Rightarrow> flat_seq monty" where
  "get_function_flatcode Q cx fid =
     and_then (ok_or (with_metadata (q_graph Q) (q_hash Q) (ValueKey fid) vm_flatcode (ss_values cx)) (ValueDoesNotExist fid)) (\<lambda>code.
     and_then (ok_or code MontyNone) (\<lambda>(seq, _). Inr seq))"

text \<open>The parameters are bound in the entry block.\<close>

definition bind_param :: "nat \<Rightarrow> span_ref \<times> type_id \<Rightarrow> (u32 \<times> binding list) list \<Rightarrow> (u32 \<times> binding list) list" where
  "bind_param entry p locals =
     (let var = (case map_of locals (span_group (fst p)) of None \<Rightarrow> [] | Some bs \<Rightarrow> bs)
      in assoc_put (span_group (fst p)) (var @ [\<lparr>bd_block = entry, bd_inst = 0, bd_type_id = snd p\<rparr>]) locals)"

definition bind_params :: "nat \<Rightarrow> flat_seq \<Rightarrow> type_id list option \<Rightarrow> (u32 \<times> binding list) list \<Rightarrow> (u32 \<times> binding list) list" where
  "bind_params entry code params_t locals =
     (case fs_ast code of
        Some (NFuncDef f) \<Rightarrow>
          fold (bind_param entry) (zip (map fst (case fn_args f of None \<Rightarrow> [] | Some as \<Rightarrow> as)) (params_of params_t)) locals
      | _ \<Rightarrow> locals)"

fun copy_edges :: "('cg, cg_inst list, unit) graph_ops \<Rightarrow> (nat \<times> nat) list \<Rightarrow> 'cg \<Rightarrow> 'cg rust" where
  "copy_edges C [] out = Inr out"
| "copy_edges C ((a, b) # es) out = and_then (g_update_edge C a b () out) (copy_edges C es)"

text \<open>
  \<open>build\<close> tells the \<open>Build\<close> options from the \<open>Check\<close> options. The part before the visit returns
  the machine to run.
\<close>

definition typecheck_setup ::
  "('vg, 'cg) queries \<Rightarrow> ('g, flat_inst list, block_cfg_edge) graph_ops \<Rightarrow> bool \<Rightarrow> func_rec \<Rightarrow> ('vg, 'cg) session
    \<Rightarrow> ('g typing_machine \<times> nat) monty" where
  "typecheck_setup Q G build fun_v cx =
     and_then (get_function_flatcode Q cx (fu_value_id fun_v)) (\<lambda>code.
     if \<not> build then Inl (Panicked TodoMacro)
     else
       and_then (lift_panic (unwrap (td_get_python_type_of (ss_types cx) (fu_type_id fun_v)))) (\<lambda>k.
       (case k of
          PyCallable params_t return_t \<Rightarrow>
            and_then (lift_panic (tm_new G (flatseq_to_blocks (fs_inst code)) return_t (fu_mref fun_v))) (\<lambda>tm.
            (case tm_entry tm of
               None \<Rightarrow> Inl (Panicked UnreachableCode)
             | Some entry \<Rightarrow> Inr (tm\<lparr>tm_locals := bind_params entry code params_t (tm_locals tm)\<rparr>, entry)))
        | _ \<Rightarrow> Inl (Panicked UnreachableCode))))"

definition typecheck ::
  "('vg, 'cg) queries \<Rightarrow> ('g, flat_inst list, block_cfg_edge) graph_ops \<Rightarrow> ('cg, cg_inst list, unit) graph_ops
    \<Rightarrow> bool \<Rightarrow> func_rec \<Rightarrow> ('vg, 'cg) session \<Rightarrow> ('cg \<times> ('vg, 'cg) session) monty option" where
  "typecheck Q G C build fun_v cx =
     (case typecheck_setup Q G build fun_v cx of
        Inl f \<Rightarrow> Some (Inl f)
      | Inr (tm, entry) \<Rightarrow>
          (case tm_make_output G C (tm_cfg tm) of
             Inl p \<Rightarrow> Some (Inl (Panicked p))
           | Inr out \<Rightarrow>
               map_option (\<lambda>r. and_then r (\<lambda>((tm', cx'), cg).
                   and_then (lift_panic (copy_edges C (g_edges G (tm_cfg tm')) cg)) (\<lambda>cg'. Inr (cg', cx'))))
                 (visit (tm_visit_block Q G C) entry (tm, cx) out)))"

end
