(* ===== verification/TypeckLaws.thy ===== *)
theory TypeckLaws
  imports TypingMachine
begin

text \<open>
  What type checking a function guarantees. Each instruction's effect on the machine is
  characterised once (\<open>inst_effect\<close>); the effects compose over a block, and the machine is an
  instance of the worklist's contract \<open>cfg_walk\<close>, which gives termination and the properties of
  the emitted graph.
\<close>

section \<open>Looking up instructions\<close>

lemma find_inst_block: "map_option snd (find_inst_from ix v bs) = find_block ix v bs"
proof (induction ix v bs rule: find_inst_from.induct)
  case (2 ix v node nodes)
  have "(\<exists>x. find (\<lambda>i. fi_value i = v) node = Some x) \<longleftrightarrow> list_ex (\<lambda>x. fi_value x = v) node"
    by (metis (mono_tags, lifting) find_None_iff find_Some_iff list_ex_iff nth_mem option.exhaust)
  with 2 show ?case by (cases "find (\<lambda>i. fi_value i = v) node") auto
qed simp

section \<open>The effect of one instruction\<close>

fun cg_target :: "cg_inst \<Rightarrow> nat option" where
  "cg_target (CgJump b _) = Some b"
| "cg_target (CgJumpIfTrue b _) = Some b"
| "cg_target (CgJumpIfFalse b _) = Some b"
| "cg_target _ = None"

definition cg_targets :: "cg_inst list \<Rightarrow> nat set" where
  "cg_targets cs = {b. \<exists>c \<in> set cs. cg_target c = Some b}"

lemma cg_targets_simps [simp]: "cg_targets [] = {}" "cg_targets (cs @ ds) = cg_targets cs \<union> cg_targets ds"
  "cg_targets (c # cs) = set_option (cg_target c) \<union> cg_targets cs"
  by (auto simp: cg_targets_def)

text \<open>The blocks an instruction of the flat code goes to.\<close>

definition op_blocks :: "flat_inst list list \<Rightarrow> raw_inst \<Rightarrow> nat set" where
  "op_blocks blocks op = {b. \<exists>t \<in> targets op. find_block 0 t blocks = Some b}"

text \<open>What an emitted instruction says of the types of the values it mentions.\<close>

fun cg_typed :: "type_id \<Rightarrow> (nat \<rightharpoonup> type_id) \<Rightarrow> cg_inst \<Rightarrow> bool" where
  "cg_typed rt m (CgReturn v) = (m v = Some rt)"
| "cg_typed rt m (CgConst c v) = (m v = Some (const_type c))"
| "cg_typed rt m (CgAlloc t es v) = (m v = Some t \<and> list_all (\<lambda>e. m e \<noteq> None) es)"
| "cg_typed rt m (CgCall _ args v) = (m v \<noteq> None \<and> list_all (\<lambda>a. m a \<noteq> None) args)"
| "cg_typed rt m (CgFieldLoad ob t _ _ v) = (m ob = Some t \<and> m v \<noteq> None)"
| "cg_typed rt m (CgWriteLocalVar _ v) = (m v \<noteq> None)"
| "cg_typed rt m (CgUse _ v) = (m v \<noteq> None)"
| "cg_typed rt m _ = True"

lemma cg_typed_mono:
  assumes "cg_typed rt m c" and ext: "\<And>v t. m v = Some t \<Longrightarrow> m' v = Some t"
  shows "cg_typed rt m' c"
proof -
  have "m' v \<noteq> None" if "m v \<noteq> None" for v using that ext by blast
  with assms show ?thesis by (cases c) (simp_all add: list_all_iff)
qed

abbreviation an_typing :: "('g, 'vg, 'cg) analysis \<Rightarrow> nat \<rightharpoonup> type_id" where
  "an_typing st \<equiv> map_of (tm_values (an_tm st))"

definition bound_locals :: "'g typing_machine \<Rightarrow> u32 set" where
  "bound_locals tm = dom (map_of (tm_locals tm))"

lemma bound_locals_update [simp]:
  "bound_locals (tm\<lparr>tm_values := vs\<rparr>) = bound_locals tm" "bound_locals (tm\<lparr>tm_nonlocals := ns\<rparr>) = bound_locals tm"
  "bound_locals (tm\<lparr>tm_locals := assoc_put k b (tm_locals tm)\<rparr>) = insert k (bound_locals tm)"
  by (simp_all add: bound_locals_def)

text \<open>The instruction does not read one of the given variables.\<close>

definition reads_none :: "u32 set \<Rightarrow> raw_inst \<Rightarrow> bool" where
  "reads_none L op = (case op of UseVar r \<Rightarrow> span_group r \<notin> L | _ \<Rightarrow> True)"

lemma reads_none_mono: "reads_none L op \<Longrightarrow> K \<subseteq> L \<Longrightarrow> reads_none K op"
  by (auto simp: reads_none_def split: raw_inst.splits)

definition inst_effect ::
  "('g, flat_inst list, block_cfg_edge) graph_ops \<Rightarrow> flat_inst \<Rightarrow> ('g, 'vg, 'cg) analysis \<Rightarrow> ('g, 'vg, 'cg) analysis \<Rightarrow> bool" where
  "inst_effect G x st st' \<longleftrightarrow>
     tm_cfg (an_tm st') = tm_cfg (an_tm st) \<and> tm_return_t (an_tm st') = tm_return_t (an_tm st)
     \<and> prefix (an_errors st) (an_errors st')
     \<and> bound_locals (an_tm st) \<subseteq> bound_locals (an_tm st')
     \<and> (\<forall>v. v \<noteq> fi_value x \<longrightarrow> an_typing st' v = an_typing st v)
     \<and> (\<exists>cs. an_cg st' = an_cg st @ cs \<and> cg_targets cs = op_blocks (g_weights G (tm_cfg (an_tm st))) (fi_op x)
          \<and> (\<forall>c \<in> set cs. cg_typed (tm_return_t (an_tm st)) (an_typing st') c))"

lemmas an_defs = an_push_def an_error_def an_set_type_def an_set_types_def

lemma an_find_Inr: "an_find G st v = Inr (y, b) \<Longrightarrow> find_block 0 v (g_weights G (tm_cfg (an_tm st))) = Some b"
  using find_inst_block [of 0 v "g_weights G (tm_cfg (an_tm st))"]
  by (auto simp: an_find_def find_inst_def lift_panic_def split: sum.splits)

lemma and_thenE: "and_then m f = Inr y \<Longrightarrow> (\<And>x. m = Inr x \<Longrightarrow> f x = Inr y \<Longrightarrow> P) \<Longrightarrow> P"
  by (cases m) simp_all

lemma lift_panic_Inr [simp]: "lift_panic r = Inr x \<longleftrightarrow> r = Inr x"
  by (cases r) (simp_all add: lift_panic_def)

lemma an_value_type_Inr [simp]: "an_value_type st v = Inr t \<longleftrightarrow> an_typing st v = Some t"
  by (simp add: an_value_type_def map_index_def split: option.split)

lemma map_index_all_Inr: "map_index_all m ks = Inr vs \<Longrightarrow> list_all (\<lambda>k. map_of m k \<noteq> None) ks"
  by (induction ks arbitrary: vs) (auto simp: map_index_def elim!: and_thenE split: option.split_asm)

lemma typed_after_put: "list_all (\<lambda>k. map_of m k \<noteq> None) ks \<Longrightarrow> list_all (\<lambda>k. map_of (assoc_put x t m) k \<noteq> None) ks"
  by (auto simp: list_all_iff)

text \<open>An instruction that emits no jump.\<close>

lemma inst_effect_plain:
  assumes "targets (fi_op x) = {}" and "tm_cfg (an_tm st') = tm_cfg (an_tm st)" and "tm_return_t (an_tm st') = tm_return_t (an_tm st)"
    and "prefix (an_errors st) (an_errors st')" and "an_cg st' = an_cg st @ cs" 
    and "\<forall>c \<in> set cs. cg_target c = None \<and> cg_typed (tm_return_t (an_tm st)) (an_typing st') c"
    and "\<And>v. v \<noteq> fi_value x \<Longrightarrow> an_typing st' v = an_typing st v"
    and "bound_locals (an_tm st) \<subseteq> bound_locals (an_tm st')"
  shows "inst_effect G x st st'"
  using assms unfolding inst_effect_def op_blocks_def cg_targets_def by auto

lemma analyze_br_effect:
  "analyze_br G t vs st = Inr st' \<Longrightarrow> targets (fi_op x) = {t} \<Longrightarrow> inst_effect G x st st'"
  by (auto simp: analyze_br_def inst_effect_def an_defs op_blocks_def and_then_Inr_iff dest: an_find_Inr)

lemma analyze_if_effect:
  "analyze_if G test truthy falsey st = Inr st' \<Longrightarrow> targets (fi_op x) = set_option truthy \<union> set_option falsey \<Longrightarrow> inst_effect G x st st'"
  by (cases truthy; cases falsey)
    (auto simp: analyze_if_def inst_effect_def an_defs op_blocks_def and_then_Inr_iff dest!: an_find_Inr)

lemma analyze_set_var_effect:
  "analyze_set_var b x var v st = Inr st' \<Longrightarrow> targets (fi_op x) = {} \<Longrightarrow> inst_effect G x st st'"
  by (rule inst_effect_plain [where cs = "[CgWriteLocalVar var v]"])
    (auto simp: analyze_set_var_def an_defs and_then_Inr_iff Let_def)

lemma analyze_use_var_effect:
  assumes "analyze_use_var Q x var st = Inr st'" and "targets (fi_op x) = {}"
  shows "inst_effect G x st st'"
proof -
  obtain v value_t cx' where "st' = an_push (CgUse v (fi_value x))
      ((an_set_type (fi_value x) value_t (st\<lparr>an_cx := cx'\<rparr>))\<lparr>an_tm := (an_tm (an_set_type (fi_value x) value_t (st\<lparr>an_cx := cx'\<rparr>)))
         \<lparr>tm_nonlocals := assoc_put (fi_value x) v (tm_nonlocals (an_tm (an_set_type (fi_value x) value_t (st\<lparr>an_cx := cx'\<rparr>))))\<rparr>\<rparr>)"
    using assms(1) unfolding analyze_use_var_def by (auto simp: and_then_Inr_iff Let_def split: option.splits)
  then show ?thesis using assms(2) by (intro inst_effect_plain [where cs = "[CgUse v (fi_value x)]"]) (auto simp: an_defs)
qed

lemma analyze_get_attribute_effect:
  "analyze_get_attribute Q G x ob a st = Inr st' \<Longrightarrow> targets (fi_op x) = {} \<Longrightarrow> inst_effect G x st st'"
  by (rule inst_effect_plain [where cs = "[]"])
    (auto simp: analyze_get_attribute_def an_defs Let_def elim!: and_thenE split: prod.split_asm raw_inst.split_asm option.split_asm)

lemma analyze_get_dunder_effect:
  "analyze_get_dunder x ob d st = Inr st' \<Longrightarrow> targets (fi_op x) = {} \<Longrightarrow> inst_effect G x st st'"
  by (rule inst_effect_plain [where cs = "[]"])
    (auto simp: analyze_get_dunder_def an_defs Let_def elim!: and_thenE split: prod.split_asm option.split_asm)

lemma analyze_tuple_effect:
  assumes "analyze_tuple x elems st = Inr st'" and "targets (fi_op x) = {}"
  shows "inst_effect G x st st'"
proof -
  obtain types t td where r: "map_index_all (tm_values (an_tm st)) elems = Inr types"
      "st' = an_set_type (fi_value x) t (an_push (CgAlloc t elems (fi_value x)) (an_set_types td st))"
    using assms(1) by (auto simp: analyze_tuple_def and_then_Inr_iff)
  then show ?thesis using assms(2) typed_after_put [OF map_index_all_Inr [OF r(1)], of "fi_value x" t]
    by (intro inst_effect_plain [where cs = "[CgAlloc t elems (fi_value x)]"]) (auto simp: an_defs)
qed

lemma analyze_return_effect:
  "analyze_return x v st = Inr st' \<Longrightarrow> fi_op x = ReturnInst v \<Longrightarrow> inst_effect G x st st'"
  by (auto simp: analyze_return_def inst_effect_def an_defs op_blocks_def and_then_Inr_iff split: if_splits)

lemma call_exit: "bad_arguments x mismatch st = st\<lparr>an_errors := an_errors st @
    map (\<lambda>(n, expected, actual). BadArgumentType expected actual (inst_node st x) (inst_node st x)) mismatch\<rparr>"
proof (induction mismatch arbitrary: st)
  case (Cons m ms)
  have "inst_node (an_error e st) x = inst_node st x" for e by (simp add: inst_node_def an_error_def)
  with Cons show ?case by (cases m) (simp add: bad_arguments_def an_error_def)
qed (simp add: bad_arguments_def)

text \<open>A call emits at most one instruction, which types the call's value and its arguments.\<close>

definition call_effect :: "('g, 'vg, 'cg) analysis \<Rightarrow> ('g, 'vg, 'cg) analysis \<Rightarrow> bool" where
  "call_effect st st' \<longleftrightarrow> an_tm st' = an_tm st \<and> an_errors st' = an_errors st
     \<and> (\<exists>cs. an_cg st' = an_cg st @ cs \<and> (\<forall>c \<in> set cs. cg_target c = None \<and> cg_typed (tm_return_t (an_tm st)) (an_typing st) c))"

lemma call_effect_same: "call_effect st st" "call_effect st (an_set_types td st)"
  by (simp_all add: call_effect_def an_defs)

lemma call_effect_push:
  "cg_target c = None \<Longrightarrow> cg_typed (tm_return_t (an_tm st)) (an_typing st) c \<Longrightarrow>
     call_effect st (an_push c st) \<and> call_effect st (an_push c (an_set_types td st))"
  by (simp add: call_effect_def an_defs)

lemma emit_method_call_effect:
  assumes "emit_method_call G x args ret (ob, t, name) st = Inr st'"
    and "an_typing st ob = Some t" "an_typing st (fi_value x) \<noteq> None" "list_all (\<lambda>a. an_typing st a \<noteq> None) args"
  shows "call_effect st st'"
  using assms unfolding emit_method_call_def
  by (auto simp: Let_def call_effect_same elim!: and_thenE intro!: call_effect_push [THEN conjunct1] call_effect_push [THEN conjunct2]
      split: prod.split_asm bool.split_asm python_type.split_asm option.split_asm property_value.split_asm)

lemma call_attr_typed: "call_attr Q G f st = Inr (Inr (Some (ob, t, name))) \<Longrightarrow> an_typing st ob = Some t"
  unfolding call_attr_def by (auto elim!: and_thenE split: prod.split_asm raw_inst.split_asm)

lemma td_unify_func_mismatch: "td_unify_func td f args ret = Inr (Inl (BadArgumentTypes es)) \<Longrightarrow> es \<noteq> []"
  by (auto simp: td_unify_func_def Let_def elim!: and_thenE split: prod.split_asm python_type.split_asm option.split_asm list.split_asm if_split_asm)

lemma emit_call_effect:
  assumes "emit_call Q G x f args ret st = Inr (e, st')"
    and typed: "an_typing st (fi_value x) \<noteq> None" "list_all (\<lambda>a. an_typing st a \<noteq> None) args"
  shows "e = NextInst \<and> call_effect st st'"
proof -
  consider (var) v where "e = NextInst" "st' = an_push (CgCall v args (fi_value x)) st" | (none) "e = NextInst" "st' = st"
    | (attr) ob t name where "e = NextInst" "call_attr Q G f st = Inr (Inr (Some (ob, t, name)))"
        "emit_method_call G x args ret (ob, t, name) st = Inr st'"
    using assms(1) unfolding emit_call_def by (auto elim!: and_thenE split: sum.split_asm option.split_asm)
  then show ?thesis
  proof cases
    case var
    with typed call_effect_push [of "CgCall v args (fi_value x)" st] show ?thesis by simp
  next
    case none
    then show ?thesis by (simp add: call_effect_same)
  next
    case attr
    with emit_method_call_effect [OF attr(3) call_attr_typed [OF attr(2)] typed] show ?thesis by simp
  qed
qed

lemma analyze_callable_effect:
  assumes "analyze_callable Q G x f args ft ret st = Inr (e, st')" and tg: "targets (fi_op x) = {}"
  shows "inst_effect G x st st' \<and> (e = BreakLoop \<longrightarrow> an_errors st' \<noteq> [])"
proof -
  consider (bad) ts ms where "td_unify_func (ss_types (an_cx st)) ft ts ret = Inr (Inl (BadArgumentTypes ms))"
      "e = BreakLoop" "st' = bad_arguments x ms st"
    | (ok) ts where "map_index_all (tm_values (an_tm st)) args = Inr ts" "emit_call Q G x f args ret (an_set_type (fi_value x) ret st) = Inr (e, st')"
    using assms(1) unfolding analyze_callable_def
    by (auto elim!: and_thenE split: sum.split_asm unify_failure.split_asm)
  then show ?thesis
  proof cases
    case bad
    have "ms \<noteq> []" using td_unify_func_mismatch bad(1) by blast
    then have "an_errors st' \<noteq> []" using bad by (simp add: call_exit)
    moreover have "inst_effect G x st st'"
      using tg bad by (intro inst_effect_plain [where cs = "[]"]) (auto simp: call_exit)
    ultimately show ?thesis by blast
  next
    case ok
    let ?st = "an_set_type (fi_value x) ret st"
    have "e = NextInst \<and> call_effect ?st st'"
      by (rule emit_call_effect [OF ok(2)])
        (use typed_after_put [OF map_index_all_Inr [OF ok(1)], of "fi_value x" ret] in \<open>simp_all add: an_set_type_def\<close>)
    then show ?thesis using tg by (auto intro!: inst_effect_plain simp: call_effect_def an_set_type_def)
  qed
qed

lemma inst_effect_same: "targets (fi_op x) = {} \<Longrightarrow> inst_effect G x st st"
  by (rule inst_effect_plain [where cs = "[]"]) simp_all

lemma next_inst_Inr: "next_inst r = Inr (e, st') \<longleftrightarrow> r = Inr st' \<and> e = NextInst"
  by (cases r) (auto simp: next_inst_def)

lemmas inst_effects = analyze_br_effect analyze_if_effect analyze_set_var_effect analyze_use_var_effect
  analyze_get_attribute_effect analyze_get_dunder_effect analyze_tuple_effect analyze_return_effect

lemma analyze_inst_effect:
  assumes "analyze_inst Q G b x st = Inr (e, st')"
  shows "inst_effect G x st st' \<and> (e = BreakLoop \<longrightarrow> an_errors st' \<noteq> [])"
proof (cases "fi_op x")
  case (CallInst f args)
  then obtain ft ret where "analyze_callable Q G x f args ft ret st = Inr (e, st')"
    using assms by (auto simp: analyze_inst_def analyze_call_def elim!: and_thenE
        split: python_type.split_asm builtin_type.split_asm option.split_asm)
  then show ?thesis using analyze_callable_effect CallInst by fastforce
next
  case (ConstInst c)
  then have "e = NextInst" "st' = an_push (CgConst c (fi_value x)) (an_set_type (fi_value x) (const_type c) st)"
    using assms by (simp_all add: analyze_inst_def)
  then show ?thesis using ConstInst by (simp add: inst_effect_plain [where cs = "[CgConst c (fi_value x)]"] an_defs)
next
  case (RefAsStr r)
  then have "e = NextInst" "st' = an_set_type (fi_value x) (builtin_tag BStr) st"
    using assms by (simp_all add: analyze_inst_def)
  then show ?thesis using RefAsStr by (simp add: inst_effect_plain [where cs = "[]"] an_defs)
qed (use assms in \<open>auto simp: analyze_inst_def next_inst_Inr elim!: and_thenE intro: inst_effect_same inst_effects\<close>)

lemma analyze_inst_reads:
  "analyze_inst Q G b x st = Inr r \<Longrightarrow> reads_none (bound_locals (an_tm st)) (fi_op x)"
  by (cases "fi_op x") (auto simp: reads_none_def analyze_inst_def next_inst_def analyze_use_var_def bound_locals_def
      split: option.split_asm elim!: and_thenE)

text \<open>The typing rules of the flat code: what the types of the values say of an instruction.\<close>

fun op_typed :: "type_id \<Rightarrow> (nat \<rightharpoonup> type_id) \<Rightarrow> nat \<Rightarrow> raw_inst \<Rightarrow> bool" where
  "op_typed rt m x (ConstInst c) = (m x = Some (const_type c))"
| "op_typed rt m x (RefAsStr _) = (m x = Some (builtin_tag BStr))"
| "op_typed rt m x (ReturnInst v) = (m v = Some rt)"
| "op_typed rt m x (SetVar _ v) = (m v \<noteq> None)"
| "op_typed rt m x (UseVar _) = (m x \<noteq> None)"
| "op_typed rt m x (TupleInst es) = (m x \<noteq> None \<and> list_all (\<lambda>e. m e \<noteq> None) es)"
| "op_typed rt m x (CallInst f args) = (m x \<noteq> None \<and> m f \<noteq> None \<and> list_all (\<lambda>a. m a \<noteq> None) args)"
| "op_typed rt m x (GetAttribute ob _) = (m x \<noteq> None \<and> m ob \<noteq> None)"
| "op_typed rt m x (GetDunder ob _) = (m x \<noteq> None \<and> m ob \<noteq> None)"
| "op_typed rt m x _ = True"

lemma op_typed_mono:
  assumes "op_typed rt m x op" and ext: "\<And>v t. m v = Some t \<Longrightarrow> m' v = Some t"
  shows "op_typed rt m' x op"
proof -
  have "m' v \<noteq> None" if "m v \<noteq> None" for v using that ext by blast
  with assms show ?thesis by (cases op) (simp_all add: list_all_iff)
qed

lemma analyze_callable_typed:
  assumes "analyze_callable Q G x f args ft ret st = Inr (e, st')" "an_errors st' = []" "an_typing st f \<noteq> None"
  shows "op_typed rt (an_typing st') (fi_value x) (CallInst f args)"
proof -
  obtain ts where ok: "map_index_all (tm_values (an_tm st)) args = Inr ts" "emit_call Q G x f args ret (an_set_type (fi_value x) ret st) = Inr (e, st')"
    using assms(1,2) td_unify_func_mismatch unfolding analyze_callable_def
    by (fastforce simp: call_exit elim!: and_thenE split: sum.split_asm unify_failure.split_asm)
  let ?st = "an_set_type (fi_value x) ret st"
  have "e = NextInst \<and> call_effect ?st st'"
    by (rule emit_call_effect [OF ok(2)])
      (use typed_after_put [OF map_index_all_Inr [OF ok(1)], of "fi_value x" ret] in \<open>simp_all add: an_set_type_def\<close>)
  then have "an_typing st' = (an_typing st)(fi_value x \<mapsto> ret)" by (simp add: call_effect_def an_set_type_def)
  with assms(3) typed_after_put [OF map_index_all_Inr [OF ok(1)], of "fi_value x" ret] show ?thesis by simp
qed

lemma analyze_inst_typed:
  assumes "analyze_inst Q G b x st = Inr (e, st')" and "an_errors st' = []"
  shows "op_typed (tm_return_t (an_tm st)) (an_typing st') (fi_value x) (fi_op x)"
proof (cases "fi_op x")
  case (CallInst f args)
  then obtain t ft ret where "an_typing st f = Some t" "analyze_callable Q G x f args ft ret st = Inr (e, st')"
    using assms(1) by (auto simp: analyze_inst_def analyze_call_def elim!: and_thenE
        split: python_type.split_asm builtin_type.split_asm option.split_asm)
  then show ?thesis using analyze_callable_typed [OF _ assms(2)] CallInst by simp
next
  case (TupleInst es)
  then obtain ts t where "map_index_all (tm_values (an_tm st)) es = Inr ts" "an_typing st' = (an_typing st)(fi_value x \<mapsto> t)"
    using assms(1) by (auto simp: analyze_inst_def next_inst_Inr analyze_tuple_def an_defs elim!: and_thenE)
  with TupleInst show ?thesis by (auto dest!: map_index_all_Inr simp: list_all_iff)
next
  case (UseVar r)
  then show ?thesis using assms(1)
    by (auto simp: analyze_inst_def next_inst_Inr analyze_use_var_def an_defs Let_def elim!: and_thenE split: option.split_asm)
next
  case (GetAttribute ob a)
  then show ?thesis using assms
    by (auto simp: analyze_inst_def next_inst_Inr analyze_get_attribute_def an_defs Let_def elim!: and_thenE
        split: prod.split_asm option.split_asm raw_inst.split_asm)
next
  case (GetDunder ob d)
  then show ?thesis using assms
    by (auto simp: analyze_inst_def next_inst_Inr analyze_get_dunder_def an_defs elim!: and_thenE split: prod.split_asm option.split_asm)
qed (use assms in \<open>auto simp: analyze_inst_def next_inst_Inr analyze_set_var_def analyze_return_def an_defs Let_def
      elim!: and_thenE split: if_split_asm\<close>)

section \<open>The effect of a block\<close>

text \<open>
  Provided the values of the instructions are new, a block that leaves no error has emitted jumps
  to exactly the blocks its instructions go to, and returns only values of the return type.
\<close>

definition typed_values :: "('g, 'vg, 'cg) analysis \<Rightarrow> nat set" where
  "typed_values st = dom (an_typing st)"

lemma typed_valuesI: "an_typing st v = Some t \<Longrightarrow> v \<in> typed_values st"
  by (auto simp: typed_values_def)

definition fresh_values :: "flat_inst list \<Rightarrow> ('g, 'vg, 'cg) analysis \<Rightarrow> bool" where
  "fresh_values xs st \<longleftrightarrow> distinct (map fi_value xs) \<and> typed_values st \<inter> fi_value ` set xs = {}"

lemma inst_effect_dom:
  "inst_effect G x st st' \<Longrightarrow> typed_values st' \<subseteq> insert (fi_value x) (typed_values st)"
  unfolding inst_effect_def typed_values_def by (auto simp: dom_def)

lemma inst_effect_fresh:
  assumes "inst_effect G x st st'" and "fresh_values (x # xs) st"
  shows "fresh_values xs st'" and "an_typing st v = Some t \<Longrightarrow> an_typing st' v = Some t"
proof -
  let ?V = "fi_value ` set xs"
  have d: "distinct (map fi_value xs)" "fi_value x \<notin> ?V" "typed_values st \<inter> insert (fi_value x) ?V = {}"
    using assms(2) by (simp_all add: fresh_values_def)
  have "typed_values st' \<inter> ?V \<subseteq> insert (fi_value x) (typed_values st) \<inter> ?V" using inst_effect_dom [OF assms(1)] by (rule Int_mono) simp
  also have "\<dots> = {}" using d(2,3) by (simp add: Int_insert_right split: if_split_asm)
  finally show "fresh_values xs st'" using d(1) by (simp add: fresh_values_def)
next
  assume v: "an_typing st v = Some t"
  then have "v \<noteq> fi_value x" using assms(2) typed_valuesI [OF v] by (auto simp: fresh_values_def)
  then show "an_typing st' v = Some t" using assms(1) v by (simp add: inst_effect_def)
qed

lemma analyze_insts_keeps:
  assumes "analyze_insts Q G b xs st = Inr st'" and "fresh_values xs st"
  shows "tm_cfg (an_tm st') = tm_cfg (an_tm st) \<and> tm_return_t (an_tm st') = tm_return_t (an_tm st)
    \<and> prefix (an_errors st) (an_errors st') \<and> bound_locals (an_tm st) \<subseteq> bound_locals (an_tm st')
    \<and> typed_values st' \<subseteq> typed_values st \<union> fi_value ` set xs
    \<and> (\<forall>v t. an_typing st v = Some t \<longrightarrow> an_typing st' v = Some t)"
  using assms
proof (induction xs arbitrary: st)
  case (Cons x xs)
  obtain e st1 where 1: "analyze_inst Q G b x st = Inr (e, st1)" "e = BreakLoop \<and> st' = st1 \<or> e = NextInst \<and> analyze_insts Q G b xs st1 = Inr st'"
    using Cons.prems(1) by (auto elim!: and_thenE split: loop_exit.split_asm)
  have eff: "inst_effect G x st st1" using analyze_inst_effect [OF 1(1)] by blast
  note fr = inst_effect_fresh [OF eff Cons.prems(2)] and d = inst_effect_dom [OF eff]
  have b: "tm_cfg (an_tm st1) = tm_cfg (an_tm st)" "tm_return_t (an_tm st1) = tm_return_t (an_tm st)" "prefix (an_errors st) (an_errors st1)"
    "bound_locals (an_tm st) \<subseteq> bound_locals (an_tm st1)"
    using eff by (auto simp: inst_effect_def)
  show ?case
  proof (cases e)
    case NextInst
    then have "analyze_insts Q G b xs st1 = Inr st'" using 1(2) by simp
    from Cons.IH [OF this fr(1)] b d fr(2) show ?thesis by (auto intro: prefix_order.trans)
  next
    case BreakLoop
    then show ?thesis using 1(2) b d fr(2) by auto
  qed
qed simp

lemma analyze_insts_effect:
  assumes "analyze_insts Q G b xs st = Inr st'" and "fresh_values xs st" and "an_errors st' = []"
  shows "\<exists>cs. an_cg st' = an_cg st @ cs \<and> cg_targets cs = (\<Union>x \<in> set xs. op_blocks (g_weights G (tm_cfg (an_tm st))) (fi_op x))
    \<and> (\<forall>c \<in> set cs. cg_typed (tm_return_t (an_tm st)) (an_typing st') c)"
  using assms
proof (induction xs arbitrary: st)
  case (Cons x xs)
  obtain e st1 where 1: "analyze_inst Q G b x st = Inr (e, st1)" "e = BreakLoop \<and> st' = st1 \<or> e = NextInst \<and> analyze_insts Q G b xs st1 = Inr st'"
    using Cons.prems(1) by (auto elim!: and_thenE split: loop_exit.split_asm)
  have eff: "inst_effect G x st st1" and br: "e = BreakLoop \<longrightarrow> an_errors st1 \<noteq> []" using analyze_inst_effect [OF 1(1)] by blast+
  have n: "analyze_insts Q G b xs st1 = Inr st'" using 1(2) br Cons.prems(3) by auto
  note fr = inst_effect_fresh [OF eff Cons.prems(2)]
  obtain cs where cs: "an_cg st1 = an_cg st @ cs" "cg_targets cs = op_blocks (g_weights G (tm_cfg (an_tm st))) (fi_op x)"
    "\<forall>c \<in> set cs. cg_typed (tm_return_t (an_tm st)) (an_typing st1) c"
    and same: "tm_cfg (an_tm st1) = tm_cfg (an_tm st)" "tm_return_t (an_tm st1) = tm_return_t (an_tm st)"
    using eff unfolding inst_effect_def by blast
  obtain ds where ds: "an_cg st' = an_cg st1 @ ds" "cg_targets ds = (\<Union>x \<in> set xs. op_blocks (g_weights G (tm_cfg (an_tm st1))) (fi_op x))"
    "\<forall>c \<in> set ds. cg_typed (tm_return_t (an_tm st1)) (an_typing st') c"
    using Cons.IH [OF n fr(1) Cons.prems(3)] by blast
  have "cg_typed (tm_return_t (an_tm st)) (an_typing st') c" if "c \<in> set cs" for c
    using cg_typed_mono cs(3) that analyze_insts_keeps [OF n fr(1)] by blast
  then show ?case using cs ds same by (intro exI [of _ "cs @ ds"]) auto
qed simp

lemma analyze_insts_typed:
  assumes "analyze_insts Q G b xs st = Inr st'" and "fresh_values xs st" and "an_errors st' = []"
  shows "\<forall>x \<in> set xs. reads_none (bound_locals (an_tm st)) (fi_op x)
    \<and> op_typed (tm_return_t (an_tm st)) (an_typing st') (fi_value x) (fi_op x)"
  using assms
proof (induction xs arbitrary: st)
  case (Cons x xs)
  obtain e st1 where 1: "analyze_inst Q G b x st = Inr (e, st1)" "e = BreakLoop \<and> st' = st1 \<or> e = NextInst \<and> analyze_insts Q G b xs st1 = Inr st'"
    using Cons.prems(1) by (auto elim!: and_thenE split: loop_exit.split_asm)
  have eff: "inst_effect G x st st1" and br: "e = BreakLoop \<longrightarrow> an_errors st1 \<noteq> []" using analyze_inst_effect [OF 1(1)] by blast+
  have n: "analyze_insts Q G b xs st1 = Inr st'" using 1(2) br Cons.prems(3) by auto
  note fr = inst_effect_fresh [OF eff Cons.prems(2)]
  note keep = analyze_insts_keeps [OF n fr(1)]
  have "an_errors st1 = []" using keep Cons.prems(3) by auto
  from op_typed_mono [OF analyze_inst_typed [OF 1(1) this], of "an_typing st'"] keep
  have x: "op_typed (tm_return_t (an_tm st)) (an_typing st') (fi_value x) (fi_op x)" by blast
  have "\<forall>y \<in> set xs. reads_none (bound_locals (an_tm st)) (fi_op y)
      \<and> op_typed (tm_return_t (an_tm st)) (an_typing st') (fi_value y) (fi_op y)"
    using Cons.IH [OF n fr(1) Cons.prems(3)] eff reads_none_mono unfolding inst_effect_def by metis
  with analyze_inst_reads [OF 1(1)] x show ?case by simp
qed simp

section \<open>The machine is an instance of the worklist's contract\<close>

text \<open>What a processed block of the output satisfies.\<close>

definition block_checked :: "flat_inst list list \<Rightarrow> u32 set \<Rightarrow> type_id \<Rightarrow> (nat \<times> type_id) list \<Rightarrow> nat \<Rightarrow> cg_inst list \<Rightarrow> bool" where
  "block_checked blocks L rt values i cs \<longleftrightarrow> cs \<noteq> [] \<and> cg_targets cs = (\<Union>x \<in> set (blocks ! i). op_blocks blocks (fi_op x))
     \<and> list_all (cg_typed rt (map_of values)) cs 
     \<and> list_all (\<lambda>x. reads_none L (fi_op x) \<and> op_typed rt (map_of values) (fi_value x) (fi_op x)) (blocks ! i)"

definition tm_inv ::
  "('g, flat_inst list, block_cfg_edge) graph_ops \<Rightarrow> ('cg, cg_inst list, unit) graph_ops \<Rightarrow> 'g \<Rightarrow> u32 set \<Rightarrow> type_id
    \<Rightarrow> nat set \<Rightarrow> 'g typing_machine \<times> ('vg, 'cg) session \<Rightarrow> 'cg \<Rightarrow> bool" where
  "tm_inv G C cfg L rt P s out \<longleftrightarrow> graph_laws C \<and> edges_inside G cfg \<and> distinct (map fi_value (concat (g_weights G cfg)))
     \<and> tm_cfg (fst s) = cfg \<and> tm_return_t (fst s) = rt \<and> L \<subseteq> bound_locals (fst s)
     \<and> length (g_weights C out) = length (g_weights G cfg) \<and> (\<forall>a. g_out C out a = [])
     \<and> dom (map_of (tm_values (fst s))) \<subseteq> (\<Union>i \<in> P. fi_value ` set (g_weights G cfg ! i))
     \<and> (\<forall>i < length (g_weights G cfg).
          if i \<in> P then block_checked (g_weights G cfg) L rt (tm_values (fst s)) i (g_weights C out ! i) else g_weights C out ! i = [])"

lemma UN_disjoint: "(\<And>j. j \<in> P \<Longrightarrow> A j \<inter> B = {}) \<Longrightarrow> (\<Union>j \<in> P. A j) \<inter> B = {}"
  by blast

lemma tm_inv_fresh:
  assumes "tm_inv G C cfg L rt P s out" and "P \<subseteq> {..<length (g_weights G cfg)}" and "i < length (g_weights G cfg)" and "i \<notin> P"
  shows "fresh_values (g_weights G cfg ! i) \<lparr>an_tm = fst s, an_cx = snd s, an_cg = [], an_errors = []\<rparr>"
proof -
  let ?ws = "map (map fi_value) (g_weights G cfg)"
  have d: "distinct (concat ?ws)" using assms(1) by (simp add: tm_inv_def map_concat)
  have dist: "distinct (map fi_value (g_weights G cfg ! i))"
    using d assms(3) by (metis distinct_concat_iff length_map nth_map nth_mem)
  have "fi_value ` set (g_weights G cfg ! j) \<inter> fi_value ` set (g_weights G cfg ! i) = {}" if "j \<in> P" for j
    using distinct_concat_disjoint [OF d, of j i] that assms(2-4) by (auto simp del: Int_iff)
  then have "(\<Union>j \<in> P. fi_value ` set (g_weights G cfg ! j)) \<inter> fi_value ` set (g_weights G cfg ! i) = {}"
    by (rule UN_disjoint)
  moreover have "dom (map_of (tm_values (fst s))) \<subseteq> (\<Union>j \<in> P. fi_value ` set (g_weights G cfg ! j))"
    using assms(1) by (simp add: tm_inv_def)
  ultimately show ?thesis using dist unfolding fresh_values_def typed_values_def by (simp, metis Int_mono subset_empty order_refl)
qed

lemma tm_visit_block_ok:
  assumes inv: "tm_inv G C cfg L rt P s out" and P: "P \<subseteq> {..<length (g_weights G cfg)}" and i: "i < length (g_weights G cfg)" "i \<notin> P"
    and v: "tm_visit_block Q G C s out i = Inr (nodes, [], s', out')"
  shows "nodes = map fst (g_out G cfg i) \<and> tm_inv G C cfg L rt (insert i P) s' out'"
proof -
  let ?w = "g_weights G cfg" and ?st = "\<lparr>an_tm = fst s, an_cx = snd s, an_cg = [], an_errors = []\<rparr>"
  have a: "graph_laws C" "edges_inside G cfg" "tm_cfg (fst s) = cfg" "tm_return_t (fst s) = rt" "length (g_weights C out) = length ?w"
    "\<And>a. g_out C out a = []" using inv by (simp_all add: tm_inv_def)
  obtain st where st: "analyze_insts Q G i (?w ! i) ?st = Inr st" "an_cg st \<noteq> []" "an_errors st = []" "s' = (an_tm st, an_cx st)"
    "nodes = map fst (g_out G (tm_cfg (an_tm st)) i)" "out' = g_set_weight C i (an_cg st) out"
    using v i a by (auto simp: tm_visit_block_def analyze_block_def ok_or_def Let_def elim!: and_thenE)
  note fr = tm_inv_fresh [OF inv P i]
  note keep = analyze_insts_keeps [OF st(1) fr] and eff = analyze_insts_effect [OF st(1) fr st(3)]
  have L: "L \<subseteq> bound_locals (fst s)" using inv by (simp add: tm_inv_def)
  have cfg: "tm_cfg (an_tm st) = cfg" "tm_return_t (an_tm st) = rt" "L \<subseteq> bound_locals (an_tm st)" using keep a L by auto
  have rd: "\<forall>x \<in> set (?w ! i). reads_none L (fi_op x) \<and> op_typed rt (an_typing st) (fi_value x) (fi_op x)"
    using analyze_insts_typed [OF st(1) fr st(3)] reads_none_mono [OF _ L] a by simp
  have chk: "block_checked ?w L rt (tm_values (an_tm st)) i (an_cg st)" using eff st(2) a rd by (auto simp: block_checked_def list_all_iff)
  have w: "g_weights C out' = (g_weights C out)[i := an_cg st]" "\<And>b. g_out C out' b = []"
    using graph_lawsD(4) [OF a(1)] a i st(6) by auto
  have old: "block_checked ?w L rt (tm_values (an_tm st)) j cs" if "block_checked ?w L rt (tm_values (fst s)) j cs" for j cs
    using that keep cg_typed_mono [of rt "map_of (tm_values (fst s))" _ "an_typing st"]
      op_typed_mono [of rt "map_of (tm_values (fst s))" _ _ "an_typing st"] unfolding block_checked_def list_all_iff by simp
  have dm: "dom (an_typing st) \<subseteq> (\<Union>i \<in> insert i P. fi_value ` set (?w ! i))"
  proof -
    have "dom (an_typing st) \<subseteq> dom (map_of (tm_values (fst s))) \<union> fi_value ` set (?w ! i)"
      using keep by (simp add: typed_values_def)
    also have "\<dots> \<subseteq> (\<Union>i \<in> P. fi_value ` set (?w ! i)) \<union> fi_value ` set (?w ! i)"
      by (rule Un_mono) (use inv in \<open>simp_all add: tm_inv_def\<close>)
    finally show ?thesis by (simp add: Un_commute)
  qed
  have "(if j \<in> insert i P then block_checked ?w L rt (tm_values (an_tm st)) j (g_weights C out' ! j) else g_weights C out' ! j = [])"
    if "j < length ?w" for j
    using inv chk old that w(1) a(5) unfolding tm_inv_def by (cases "j = i") auto
  moreover have "length (g_weights C out') = length ?w" "distinct (map fi_value (concat ?w))" using inv w(1) a(5) by (simp_all add: tm_inv_def)
  ultimately have "tm_inv G C cfg L rt (insert i P) s' out'"
    using a(1,2) cfg w(2) dm st(4) unfolding tm_inv_def by (simp only: fst_conv) blast
  with st(5) cfg show ?thesis by simp
qed

interpretation tm: cfg_walk "tm_visit_block Q G C" "inside_succs G cfg" "length (g_weights G cfg)" "tm_inv G C cfg L rt" for Q G C cfg L rt
proof
  show "j < length (g_weights G cfg)" if "j \<in> set (inside_succs G cfg i)" for i j
    using that by (simp add: inside_succs_def)
next
  fix P s out i nodes s' out'
  assume i: "tm_inv G C cfg L rt P s out" "P \<subseteq> {..<length (g_weights G cfg)}" "i < length (g_weights G cfg)" "i \<notin> P"
    and v: "tm_visit_block Q G C s out i = Inr (nodes, [], s', out')"
  have "set (inside_succs G cfg i) = fst ` set (g_out G cfg i)" using i(1) by (intro inside_succs_all) (simp add: tm_inv_def)
  with tm_visit_block_ok [OF i v] show "set nodes = set (inside_succs G cfg i) \<and> tm_inv G C cfg L rt (insert i P) s' out'" by simp
qed

end
