(* ===== verification/Typecheck.thy ===== *)
theory Typecheck
  imports TypeckLaws
begin

text \<open>
  What a caller of \<open>typecheck\<close> (\<^verbatim>\<open>montyc_driver/src/typeck/mod.rs\<close>) can rely on: it always
  returns, an accepted function is well typed and its graph has the shape of the source, and the
  ways in which a function is not accepted.
\<close>

section \<open>The graph the checker starts from\<close>

lemma jumps_inside:
  assumes "g_weights G cfg = bs" and "\<forall>i j. (\<exists>e. (j, e) \<in> set (g_out G cfg i)) \<longleftrightarrow> jumps bs i j"
  shows "edges_inside G cfg" and "reach_from (inside_succs G cfg) k = {j. (jumps bs)\<^sup>*\<^sup>* k j}"
proof -
  show e: "edges_inside G cfg" using assms by (auto simp: edges_inside_def jumps_def)
  have "flow_edge (\<lambda>b. map fst (g_out G cfg b)) = jumps bs"
    using assms(2) by (intro ext) (force simp: flow_edge_def)
  then show "reach_from (inside_succs G cfg) k = {j. (jumps bs)\<^sup>*\<^sup>* k j}"
    unfolding reach_from_inside [OF e] by (simp add: reach_from_def)
qed

lemma copy_edges_ok:
  assumes "graph_laws C"
  shows "\<forall>(a, b) \<in> set es. a < length (g_weights C out) \<and> b < length (g_weights C out) \<Longrightarrow>
    \<exists>out'. copy_edges C es out = Inr out' \<and> g_weights C out' = g_weights C out \<and> set (g_edges C out') = set es \<union> set (g_edges C out)"
proof (induction es arbitrary: out)
  case (Cons x es)
  obtain a b where x: "x = (a, b)" "a < length (g_weights C out)" "b < length (g_weights C out)" using Cons.prems by (cases x) auto
  obtain out1 where 1: "g_update_edge C a b () out = Inr out1" "g_weights C out1 = g_weights C out"
    "set (g_edges C out1) = insert (a, b) (set (g_edges C out))"
    using graph_lawsD(3) [OF assms] x(2,3) by blast
  obtain out' where "copy_edges C es out1 = Inr out'" "g_weights C out' = g_weights C out1" "set (g_edges C out') = set es \<union> set (g_edges C out1)"
    using Cons.IH [of out1] Cons.prems 1(2) by auto
  with 1 x show ?case by auto
qed simp

text \<open>The parameters the checker binds.\<close>

definition param_groups :: "flat_seq \<Rightarrow> type_id list option \<Rightarrow> u32 set" where
  "param_groups code params_t =
     (case fs_ast code of
        Some (NFuncDef f) \<Rightarrow> (\<lambda>p. span_group (fst p)) ` set (zip (map fst (case fn_args f of None \<Rightarrow> [] | Some as \<Rightarrow> as)) (params_of params_t))
      | _ \<Rightarrow> {})"

lemma bind_param_bound: "(\<lambda>p. span_group (fst p)) ` set ps \<union> dom (map_of locals) \<subseteq> dom (map_of (fold (bind_param entry) ps locals))"
proof (induction ps arbitrary: locals)
  case (Cons p ps)
  have "dom (map_of (bind_param entry p locals)) = insert (span_group (fst p)) (dom (map_of locals))"
    by (simp add: bind_param_def Let_def)
  with Cons.IH [of "bind_param entry p locals"] show ?case by simp
qed simp

lemma bind_params_bound: "param_groups code ps \<subseteq> dom (map_of (bind_params entry code ps locals))"
proof (cases "\<exists>f. fs_ast code = Some (NFuncDef f)")
  case True
  then obtain f where "fs_ast code = Some (NFuncDef f)" by blast
  with bind_param_bound show ?thesis by (simp add: param_groups_def bind_params_def)
next
  case False
  then have "param_groups code ps = {}" by (simp add: param_groups_def split: option.split ast_node.split)
  then show ?thesis by simp
qed

section \<open>The result of type checking\<close>

text \<open>
  An accepted function: one node for each block, the edges of the jumps, and for every block that
  the first one leads to, checked code; the other blocks are empty.
\<close>

definition checked_code ::
  "('cg, cg_inst list, unit) graph_ops \<Rightarrow> flat_inst list list \<Rightarrow> u32 set \<Rightarrow> type_id \<Rightarrow> (nat \<times> type_id) list \<Rightarrow> 'cg \<Rightarrow> bool" where
  "checked_code C blocks L rt values cg \<longleftrightarrow> length (g_weights C cg) = length blocks
     \<and> (\<forall>i j. (i, j) \<in> set (g_edges C cg) \<longleftrightarrow> jumps blocks i j)
     \<and> (\<forall>i < length blocks. if (jumps blocks)\<^sup>*\<^sup>* 0 i then block_checked blocks L rt values i (g_weights C cg ! i) else g_weights C cg ! i = [])"

lemma typecheck_setup_Inr:
  assumes G: "graph_laws G" and code: "get_function_flatcode Q cx (fu_value_id f) = Inr code"
    and ok: "seq_ok lab code" and l: "length (fs_inst code) < 2 ^ 32 - 1"
    and s: "typecheck_setup Q G build f cx = Inr (tm, entry)"
  shows "\<exists>ps rt. build \<and> td_get_python_type_of (ss_types cx) (fu_type_id f) = Some (PyCallable ps rt)
    \<and> entry = 0 \<and> flatseq_to_blocks (fs_inst code) \<noteq> []
    \<and> g_weights G (tm_cfg tm) = flatseq_to_blocks (fs_inst code)
    \<and> (\<forall>i j. (\<exists>e. (j, e) \<in> set (g_out G (tm_cfg tm) i)) \<longleftrightarrow> jumps (flatseq_to_blocks (fs_inst code)) i j)
    \<and> tm_return_t tm = rt \<and> tm_values tm = [] \<and> param_groups code ps \<subseteq> bound_locals tm"
proof -
  let ?bs = "flatseq_to_blocks (fs_inst code)"
  have "\<exists>cfg. new_from_blocks G ?bs = Inr (cfg, if ?bs = [] then None else Some 0) \<and> g_weights G cfg = ?bs
      \<and> (\<forall>i j. (\<exists>e. (j, e) \<in> set (g_out G cfg i)) \<longleftrightarrow> jumps ?bs i j)"
    by (rule new_from_blocks_ok [OF G seq_blocks(1,2) [OF ok l]]) (rule seq_blocks(3) [OF ok l])
  then obtain cfg where cfg: "new_from_blocks G ?bs = Inr (cfg, if ?bs = [] then None else Some 0)" "g_weights G cfg = ?bs"
    "\<forall>i j. (\<exists>e. (j, e) \<in> set (g_out G cfg i)) \<longleftrightarrow> jumps ?bs i j"
    by blast
  obtain ps rt where b: "build" "td_get_python_type_of (ss_types cx) (fu_type_id f) = Some (PyCallable ps rt)"
    and tm: "?bs \<noteq> []" "entry = 0" "tm = \<lparr>tm_cfg = cfg, tm_return_t = rt, tm_entry = Some 0, tm_mref = fu_mref f,
      tm_locals = bind_params 0 code ps [], tm_nonlocals = [], tm_values = []\<rparr>"
    using s code cfg(1) unfolding typecheck_setup_def tm_new_def
    by (auto elim!: and_thenE split: if_split_asm python_type.split_asm option.split_asm)
  show ?thesis using b tm cfg bind_params_bound [of code ps 0 "[]"]
    by (intro exI [of _ ps] exI [of _ rt]) (simp add: bound_locals_def)
qed

lemma typecheck_result:
  assumes G: "graph_laws G" and C: "graph_laws C" and code: "get_function_flatcode Q cx (fu_value_id f) = Inr code"
    and ok: "seq_ok lab code" and l: "length (fs_inst code) < 2 ^ 32 - 1"
  shows "\<exists>r. typecheck Q G C build f cx = Some r \<and> (\<forall>cg cx'. r = Inr (cg, cx') \<longrightarrow>
    (\<exists>ps rt values. build \<and> td_get_python_type_of (ss_types cx) (fu_type_id f) = Some (PyCallable ps rt)
       \<and> checked_code C (flatseq_to_blocks (fs_inst code)) (param_groups code ps) rt values cg))"
proof (cases "typecheck_setup Q G build f cx")
  case (Inl e)
  then show ?thesis by (simp add: typecheck_def)
next
  case (Inr te)
  obtain tm entry where te: "te = (tm, entry)" by (cases te)
  let ?bs = "flatseq_to_blocks (fs_inst code)"
  obtain ps rt where st: "build" "td_get_python_type_of (ss_types cx) (fu_type_id f) = Some (PyCallable ps rt)" "entry = 0" "?bs \<noteq> []"
    "g_weights G (tm_cfg tm) = ?bs" "\<forall>i j. (\<exists>e. (j, e) \<in> set (g_out G (tm_cfg tm) i)) \<longleftrightarrow> jumps ?bs i j"
    "tm_return_t tm = rt" "tm_values tm = []" "param_groups code ps \<subseteq> bound_locals tm"
    using typecheck_setup_Inr [OF G code ok l Inr [unfolded te]] by blast
  let ?L = "param_groups code ps"
  obtain out where out: "tm_make_output G C (tm_cfg tm) = Inr out" "g_weights C out = replicate (length ?bs) []" "\<forall>i. g_out C out i = []"
    using add_defaults_ok [OF C, of "g_empty C" "length ?bs" "[]"] graph_empty [OF C] seq_blocks(2) [OF ok l] st(5)
    by (auto simp: tm_make_output_def)
  note inside = jumps_inside [OF st(5,6)]
  have "tm_inv G C (tm_cfg tm) ?L rt {} (tm, cx) out"
    using C inside(1) seq_blocks(1) [OF ok l] st out by (simp add: tm_inv_def)
  then obtain r where r: "visit (tm_visit_block Q G C) 0 (tm, cx) out = Some r"
    "\<forall>s' out'. r = Inr (s', out') \<longrightarrow> tm_inv G C (tm_cfg tm) ?L rt (reach_from (inside_succs G (tm_cfg tm)) 0) s' out'"
    using tm.visit_ends [of 0 G "tm_cfg tm" C ?L rt "(tm, cx)" out Q] st(4,5) by auto
  show ?thesis
  proof (cases r)
    case (Inl e)
    with r Inr te out st show ?thesis by (simp add: typecheck_def)
  next
    case rr: (Inr so)
    obtain tm' cx' out' where so: "so = ((tm', cx'), out')" by (metis surj_pair)
    have inv: "tm_inv G C (tm_cfg tm) ?L rt {j. (jumps ?bs)\<^sup>*\<^sup>* 0 j} (tm', cx') out'" using r(2) rr so inside(2) by simp
    then have i: "tm_cfg tm' = tm_cfg tm" "length (g_weights C out') = length ?bs" "\<forall>a. g_out C out' a = []"
      "\<forall>i < length ?bs. if (jumps ?bs)\<^sup>*\<^sup>* 0 i then block_checked ?bs ?L rt (tm_values tm') i (g_weights C out' ! i) else g_weights C out' ! i = []"
      using st(5) by (auto simp: tm_inv_def)
    have ed: "set (g_edges G (tm_cfg tm)) = {(a, b). jumps ?bs a b}"
      using graph_lawsD(5) [OF G] st(6) by (auto simp: set_eq_iff)
    have "p \<notin> set (g_edges C out')" for p
      using graph_lawsD(5) [OF C, rule_format, of "fst p" "snd p" out'] i(3) by simp
    then have no: "set (g_edges C out') = {}" by (metis ex_in_conv)
    obtain cg where cg: "copy_edges C (g_edges G (tm_cfg tm)) out' = Inr cg" "g_weights C cg = g_weights C out'"
      "set (g_edges C cg) = {(a, b). jumps ?bs a b}"
      using copy_edges_ok [OF C, of "g_edges G (tm_cfg tm)" out'] ed no i(2) by (auto simp: jumps_def)
    have "typecheck Q G C build f cx = Some (Inr (cg, cx'))"
      using Inr te out(1) r(1) rr so st(3) cg(1) i(1) by (simp add: typecheck_def lift_panic_def)
    moreover have "checked_code C ?bs ?L rt (tm_values tm') cg" using cg i by (simp add: checked_code_def)
    ultimately show ?thesis using st(1,2) by auto
  qed
qed

text \<open>
  C23. Type checking a function. For a function with well-formed code (short enough for 32-bit node
  indices), graph libraries that keep their contract and whatever the queries return, \<open>typecheck\<close>
  always returns. If it accepts the function then it was asked to build, the function's type is a
  callable, and the graph it returns has one node per block and exactly the edges of the jumps;
  there is one assignment of types to values under which every instruction of every block that
  the first one leads to is well typed and the code emitted for it is well typed too; the code
  jumps exactly to the blocks its instructions go to, and blocks that are not reached stay empty.
\<close>

theorem typecheck_sound:
  assumes "graph_laws G" and "graph_laws C" and "get_function_flatcode Q cx (fu_value_id f) = Inr code"
    and "seq_ok lab code" and "length (fs_inst code) < 2 ^ 32 - 1"
  shows "\<exists>r. typecheck Q G C build f cx = Some r \<and> (\<forall>cg cx'. r = Inr (cg, cx') \<longrightarrow>
    (\<exists>ps rt values. build \<and> td_get_python_type_of (ss_types cx) (fu_type_id f) = Some (PyCallable ps rt)
       \<and> checked_code C (flatseq_to_blocks (fs_inst code)) (param_groups code ps) rt values cg))"
  by (rule typecheck_result [OF assms])

lemma checked_code_inst:
  assumes "checked_code C bs L rt values cg" and "(jumps bs)\<^sup>*\<^sup>* 0 i" and "i < length bs" and "x \<in> set (bs ! i)"
  shows "reads_none L (fi_op x) \<and> op_typed rt (map_of values) (fi_value x) (fi_op x)"
  using assms by (auto simp: checked_code_def block_checked_def list_all_iff)

text \<open>
  C24. Reading a parameter is never accepted: when a block that is reached reads a parameter of
  the function, type checking fails.
\<close>

theorem parameter_read_rejected:
  assumes "graph_laws G" and "graph_laws C" and "get_function_flatcode Q cx (fu_value_id f) = Inr code"
    and "seq_ok lab code" and "length (fs_inst code) < 2 ^ 32 - 1"
    and ty: "td_get_python_type_of (ss_types cx) (fu_type_id f) = Some (PyCallable ps rt)"
    and i: "(jumps (flatseq_to_blocks (fs_inst code)))\<^sup>*\<^sup>* 0 i" "i < length (flatseq_to_blocks (fs_inst code))"
    and x: "x \<in> set (flatseq_to_blocks (fs_inst code) ! i)" "fi_op x = UseVar v" "span_group v \<in> param_groups code ps"
  shows "\<exists>e. typecheck Q G C build f cx = Some (Inl e)"
proof -
  obtain r where r: "typecheck Q G C build f cx = Some r" "\<forall>cg cx'. r = Inr (cg, cx') \<longrightarrow>
    (\<exists>ps rt values. build \<and> td_get_python_type_of (ss_types cx) (fu_type_id f) = Some (PyCallable ps rt)
       \<and> checked_code C (flatseq_to_blocks (fs_inst code)) (param_groups code ps) rt values cg)"
    using typecheck_result [OF assms(1-5)] by blast
  have "r \<noteq> Inr (cg, cx')" for cg cx'
    using r(2) ty checked_code_inst [OF _ i x(1)] x(2,3) by (fastforce simp: reads_none_def)
  then show ?thesis using r(1) by (cases r) auto
qed

text \<open>
  A constant of the wrong type is never returned: when a block that is reached defines a
  constant and one that is reached returns it, and the constant's type is not the function's
  return type, type checking fails.
\<close>

theorem wrong_constant_return_rejected:
  assumes "graph_laws G" and "graph_laws C" and "get_function_flatcode Q cx (fu_value_id f) = Inr code"
    and "seq_ok lab code" and "length (fs_inst code) < 2 ^ 32 - 1"
    and ty: "td_get_python_type_of (ss_types cx) (fu_type_id f) = Some (PyCallable ps rt)" "const_type c \<noteq> rt"
    and i: "(jumps (flatseq_to_blocks (fs_inst code)))\<^sup>*\<^sup>* 0 i" "i < length (flatseq_to_blocks (fs_inst code))"
    and j: "(jumps (flatseq_to_blocks (fs_inst code)))\<^sup>*\<^sup>* 0 j" "j < length (flatseq_to_blocks (fs_inst code))"
    and x: "x \<in> set (flatseq_to_blocks (fs_inst code) ! i)" "fi_op x = ConstInst c"
    and y: "y \<in> set (flatseq_to_blocks (fs_inst code) ! j)" "fi_op y = ReturnInst (fi_value x)"
  shows "\<exists>e. typecheck Q G C build f cx = Some (Inl e)"
proof -
  obtain r where r: "typecheck Q G C build f cx = Some r" "\<forall>cg cx'. r = Inr (cg, cx') \<longrightarrow>
    (\<exists>ps rt values. build \<and> td_get_python_type_of (ss_types cx) (fu_type_id f) = Some (PyCallable ps rt)
       \<and> checked_code C (flatseq_to_blocks (fs_inst code)) (param_groups code ps) rt values cg)"
    using typecheck_result [OF assms(1-5)] by blast
  have "r \<noteq> Inr (cg, cx')" for cg cx'
    using r(2) ty checked_code_inst [OF _ i x(1)] checked_code_inst [OF _ j y(1)] x(2) y(2) by fastforce
  then show ?thesis using r(1) by (cases r) auto
qed

text \<open>A session with one function, whose type takes the given parameters.\<close>

type_synonym demo_vg = "value_rec list \<times> (nat \<times> nat \<times> unit) list"
type_synonym demo_cg = "cg_inst list list \<times> (nat \<times> nat \<times> unit) list"

definition demo_func :: func_rec where
  "demo_func = \<lparr>fu_value_id = ValueId 0, fu_type_id = 1, fu_mref = ModuleRef 0, fu_name = SpanRef 0 0, fu_is_extern = False\<rparr>"

definition demo_session :: "flat_seq \<Rightarrow> type_id list option \<Rightarrow> type_id \<Rightarrow> (demo_vg, demo_cg) session" where
  "demo_session code ps rt =
     \<lparr>ss_types = \<lparr>td_inner = \<lparr>ssa_inner = [None, Some (ty_of_kind (PyCallable ps rt))], ssa_next_free = 2\<rparr>, td_clobber = []\<rparr>,
      ss_values = \<lparr>vs_graph = ([value_default], []),
        vs_metadata = [(ValueId 0, (metadata_default (ValueId 0))\<lparr>vm_flatcode := Some (code, None)\<rparr>)], vs_assoc_cache = []\<rparr>\<rparr>"

definition demo_queries :: "(demo_vg, demo_cg) queries" where
  "demo_queries = \<lparr>q_graph = list_graph, q_hash = (\<lambda>_. 0), q_get_type_of = (\<lambda>_ _. Inl (Failed QueryError)),
     q_spanref_to_str = (\<lambda>_ _. Inl (Failed QueryError))\<rparr>"

text \<open>\<open>return 1\<close> after a jump.\<close>

definition demo_code :: flat_seq where
  "demo_code =
     \<lparr>fs_inst = [\<lparr>fi_op = Br 1, fi_value = 0, fi_attrs = default_attrs\<rparr>, \<lparr>fi_op = JumpTarget, fi_value = 1, fi_attrs = default_attrs\<rparr>,
        \<lparr>fi_op = ConstInst (CInt 1), fi_value = 2, fi_attrs = default_attrs\<rparr>, \<lparr>fi_op = ReturnInst 2, fi_value = 3, fi_attrs = default_attrs\<rparr>],
      fs_kind = SeqFunction, fs_span = (ModuleRef 0, (0, 1)), fs_ast = None\<rparr>"

lemma demo_flatcode: "get_function_flatcode demo_queries (demo_session code ps rt) (fu_value_id demo_func) = Inr code"
  by (simp add: get_function_flatcode_def demo_queries_def demo_session_def demo_func_def with_metadata_def resolve_value_def
      vs_node_def list_graph_def ok_or_def get_at_def)

lemma demo_type: "td_get_python_type_of (ss_types (demo_session code ps rt)) (fu_type_id demo_func) = Some (PyCallable ps rt)"
  by (simp add: td_get_python_type_of_def demo_session_def demo_func_def ssa_get_def get_at_def ty_of_kind_def)

lemma demo_code_ok: "seq_ok True demo_code" "length (fs_inst demo_code) < 2 ^ 32 - 1"
  by (auto simp: seq_ok_def region_ok_def inst_ok_def demo_code_def less_Suc_eq nth_Cons')

lemma demo_blocks: "flatseq_to_blocks (fs_inst demo_code) = [take 1 (fs_inst demo_code), drop 1 (fs_inst demo_code)]"
  by (simp add: flatseq_to_blocks_def demo_code_def push_inst_def)

text \<open>The operations of \<open>list_graph\<close>, one by one.\<close>

lemma list_graph_ops:
  "g_empty list_graph = ([], [])" "length ns < 2 ^ 32 - 1 \<Longrightarrow> g_add_node list_graph w (ns, es) = Inr (length ns, ns @ [w], es)"
  "a < length ns \<Longrightarrow> b < length ns \<Longrightarrow> g_add_edge list_graph a b e (ns, es) = Inr (ns, es @ [(a, b, e)])"
  "g_weights list_graph (ns, es) = ns" "g_set_weight list_graph a w (ns, es) = (ns[a := w], es)"
  "g_out list_graph (ns, es) i = map snd (filter (\<lambda>x. fst x = i) es)"
  "g_edges list_graph (ns, es) = map (\<lambda>(a, b, e). (a, b)) es"
  "a < length ns \<Longrightarrow> b < length ns \<Longrightarrow>
     g_update_edge list_graph a b e (ns, es) = Inr (ns, filter (\<lambda>(c, d, _). (c, d) \<noteq> (a, b)) es @ [(a, b, e)])"
  by (simp_all add: list_graph_def)

lemmas demo_eval = demo_flatcode demo_type typecheck_def typecheck_setup_def tm_new_def new_from_blocks_def append_blocks.simps
  list_graph_ops block_edges_def inst_edges_def find_block_of_val_def get_at_def lift_panic_def unwrap_def bind_params_def
  tm_make_output_def visit_def tm_visit_block_def analyze_block_def ok_or_def analyze_inst_def next_inst_def
  analyze_br_def an_find_def find_inst_def an_push_def assert_that_def Let_def an_set_type_def analyze_return_def an_value_type_def map_index_def
  binary_search_def insert_at_def

lemma demo_accepted: "typecheck demo_queries list_graph list_graph True demo_func (demo_session demo_code None 1) =
   Some (Inr (([[CgJump 1 []], [CgConst (CInt 1) 2, CgReturn 2]], [(0, 1, ())]), demo_session demo_code None 1))"
  apply (simp add: demo_eval demo_blocks)
  apply (simp add: demo_code_def demo_eval)
  apply (subst visit_loop.simps, simp add: demo_eval bsearch.simps)
  apply (subst visit_loop.simps, simp add: demo_eval bsearch.simps)
  apply (subst visit_loop.simps, simp add: demo_eval bsearch.simps)
  done

theorem typecheck_sound_witness:
  "\<exists>values. typecheck demo_queries list_graph list_graph True demo_func (demo_session demo_code None 1) =
      Some (Inr (([[CgJump 1 []], [CgConst (CInt 1) 2, CgReturn 2]], [(0, 1, ())]), demo_session demo_code None 1))
    \<and> checked_code list_graph (flatseq_to_blocks (fs_inst demo_code)) {} 1 values
        ([[CgJump 1 []], [CgConst (CInt 1) 2, CgReturn 2]], [(0, 1, ())])"
proof -
  have "param_groups demo_code None = {}" by (simp add: param_groups_def demo_code_def)
  then show ?thesis using typecheck_sound [OF list_graph_laws list_graph_laws demo_flatcode [of demo_code None 1] demo_code_ok, of True]
    unfolding demo_accepted demo_type by auto
qed

lemma demo_jumps: "(jumps (flatseq_to_blocks (fs_inst demo_code)))\<^sup>*\<^sup>* 0 1"
  by (rule r_into_rtranclp) (simp add: jumps_def demo_blocks, simp add: demo_code_def)

theorem wrong_constant_return_rejected_witness:
  "\<exists>e. typecheck demo_queries list_graph list_graph True demo_func (demo_session demo_code None 3) = Some (Inl e)"
  by (rule wrong_constant_return_rejected [OF list_graph_laws list_graph_laws demo_flatcode demo_code_ok demo_type _ demo_jumps _ demo_jumps,
      where c = "CInt 1" and x = "fs_inst demo_code ! 2" and y = "fs_inst demo_code ! 3"])
    (simp_all add: demo_blocks, simp_all add: demo_code_def)

text \<open>A function that returns its parameter.\<close>

definition demo_param_code :: flat_seq where
  "demo_param_code =
     \<lparr>fs_inst = [\<lparr>fi_op = UseVar (SpanRef 5 1), fi_value = 0, fi_attrs = default_attrs\<rparr>,
        \<lparr>fi_op = ReturnInst 0, fi_value = 1, fi_attrs = default_attrs\<rparr>],
      fs_kind = SeqFunction, fs_span = (ModuleRef 0, (0, 1)),
      fs_ast = Some (NFuncDef (FunctionDef None (Spanned (0, 1) (AtName (SpanRef 4 1))) (Some [(SpanRef 5 2, None)]) [] [] None))\<rparr>"

theorem parameter_read_rejected_witness:
  "\<exists>e. typecheck demo_queries list_graph list_graph True demo_func (demo_session demo_param_code (Some [1]) 1) = Some (Inl e)"
proof -
  have ok: "seq_ok True demo_param_code" "length (fs_inst demo_param_code) < 2 ^ 32 - 1"
    by (auto simp: seq_ok_def region_ok_def inst_ok_def demo_param_code_def less_Suc_eq nth_Cons')
  have bs: "flatseq_to_blocks (fs_inst demo_param_code) = [fs_inst demo_param_code]"
    by (simp add: flatseq_to_blocks_def demo_param_code_def push_inst_def)
  have L: "param_groups demo_param_code (Some [1]) = {5}" by (simp add: param_groups_def demo_param_code_def params_of_def)
  show ?thesis
    by (rule parameter_read_rejected [OF list_graph_laws list_graph_laws demo_flatcode ok demo_type,
        where i = 0 and x = "fs_inst demo_param_code ! 0" and v = "SpanRef 5 1"])
      (simp_all add: bs L [simplified], simp_all add: demo_param_code_def)
qed

section \<open>How type errors surface\<close>

text \<open>A computation that does not return a type error.\<close>

definition quiet :: "'a monty \<Rightarrow> bool" where
  "quiet r = (case r of Inl (Failed (MontyTypeError _ _)) \<Rightarrow> False | _ \<Rightarrow> True)"

lemma quiet_simps [simp]: "quiet (Inr x)" "quiet (Inl (Panicked p))" "quiet (lift_panic r)" "quiet (map_index m k)"
  "quiet (ok_or y MontyNone)" "quiet (ok_or z (ValueDoesNotExist v))"
  by (simp_all add: quiet_def lift_panic_def map_index_def ok_or_def split: sum.splits option.splits)

lemma quiet_and_then [simp]: "quiet (and_then m f) \<longleftrightarrow> quiet m \<and> (\<forall>x. m = Inr x \<longrightarrow> quiet (f x))"
  by (cases m) (auto simp: quiet_def and_then_def)

lemma quiet_Inl: "quiet (Inl e :: 'a monty) \<Longrightarrow> quiet (Inl e :: 'b monty)"
  by (simp add: quiet_def)

lemma quiet_map_index_all [simp]: "quiet (map_index_all m ks)"
  by (induction ks) auto

lemma quiet_lookups [simp]: "quiet (an_value_type st v)" "quiet (an_find G st v)"
  by (simp_all add: an_value_type_def an_find_def)

text \<open>The queries do not return type errors.\<close>

definition queries_quiet :: "('vg, 'cg) queries \<Rightarrow> bool" where
  "queries_quiet Q \<longleftrightarrow> (\<forall>v cx. quiet (q_get_type_of Q v cx)) \<and> (\<forall>r cx. quiet (q_spanref_to_str Q r cx))"

lemma quiet_call:
  assumes "queries_quiet Q"
  shows "quiet (analyze_call Q G x f args st)"
proof -
  have a: "quiet (call_attr Q G f st)" for st :: "('c, 'a, 'b) analysis"
    using assms unfolding call_attr_def queries_quiet_def by (auto split: raw_inst.split prod.split)
  have m: "quiet (emit_method_call G x args ret at st)" for at ret and st :: "('c, 'a, 'b) analysis"
    unfolding emit_method_call_def by (auto simp: Let_def split: prod.split python_type.split bool.split option.split property_value.split)
  have e: "quiet (emit_call Q G x f args ret st)" for ret and st :: "('c, 'a, 'b) analysis"
    unfolding emit_call_def using a m by (auto split: sum.split option.split)
  have c: "quiet (analyze_callable Q G x f args ft ret st)" for ft ret
    unfolding analyze_callable_def using e by (auto split: sum.split unify_failure.split)
  then show ?thesis unfolding analyze_call_def by (auto split: python_type.split builtin_type.split option.split)
qed

lemma quiet_inst:
  assumes "queries_quiet Q"
  shows "quiet (analyze_inst Q G b x st)"
proof -
  have u: "quiet (analyze_use_var Q x v st)" for v
    using assms unfolding analyze_use_var_def queries_quiet_def by (auto simp: Let_def split: option.split)
  have g: "quiet (analyze_get_attribute Q G x ob a st)" for ob a
    using assms unfolding analyze_get_attribute_def queries_quiet_def by (auto simp: Let_def split: raw_inst.split option.split prod.split)
  have d: "quiet (analyze_get_dunder x ob a st)" for ob a
    unfolding analyze_get_dunder_def by (auto split: option.split prod.split)
  have i: "quiet (analyze_if G v t e st)" for v t e
    unfolding analyze_if_def by (auto split: option.split prod.split)
  show ?thesis unfolding analyze_inst_def next_inst_def using quiet_call [OF assms] u g d i
    by (auto simp: analyze_br_def analyze_set_var_def analyze_tuple_def analyze_return_def Let_def split: raw_inst.split)
qed

lemma quiet_insts: "queries_quiet Q \<Longrightarrow> quiet (analyze_insts Q G b xs st)"
  by (induction xs arbitrary: st) (auto simp: quiet_inst split: loop_exit.split)

lemma quiet_visit_loop:
  "visit_loop f processed queue s out = Some r \<Longrightarrow> (\<And>s out i. quiet (f s out i)) \<Longrightarrow> quiet r"
proof (induction f processed queue s out r rule: visit_loop.raw_induct [rotated, consumes 1])
  case (1 loop f processed queue s out r)
  show ?case
  proof (cases queue)
    case Nil
    then show ?thesis using 1(2) by auto
  next
    case (Cons ix rest)
    have q: "quiet (f s out ix)" using 1 by blast
    show ?thesis
    proof (cases "f s out ix")
      case (Inl e)
      with q have "quiet (Inl e :: ('a \<times> 'b) monty)" using quiet_Inl by auto
      with Inl 1 Cons show ?thesis by (auto split: sum.split_asm)
    next
      case (Inr a)
      with 1 Cons show ?thesis by (auto split: sum.split_asm if_split_asm prod.split_asm)
    qed
  qed
qed

text \<open>
  Type errors do not reach the caller as values. Although \<open>typecheck\<close> returns a result, and
  as long as the queries it makes do not return type errors of their own, it never returns a type
  error: a block with type errors ends in a panic.
\<close>

theorem type_errors_not_returned:
  assumes "queries_quiet Q"
  shows "typecheck Q G C build f cx \<noteq> Some (Inl (Failed (MontyTypeError m e)))"
proof -
  have "quiet r" if "typecheck Q G C build f cx = Some r" for r
  proof -
    have s: "quiet (typecheck_setup Q G build f cx)"
      unfolding typecheck_setup_def get_function_flatcode_def by (auto split: option.split python_type.split)
    have v: "quiet (tm_visit_block Q G C s out i)" for s out i
      unfolding tm_visit_block_def analyze_block_def by (auto simp: Let_def quiet_insts [OF assms])
    have "quiet z" if "visit_loop (tm_visit_block Q G C) p q s out = Some z" for p q s out z
      by (rule quiet_visit_loop [OF that]) (rule v)
    with that s quiet_Inl show ?thesis unfolding typecheck_def visit_def by (auto split: sum.split_asm)
  qed
  then show ?thesis by (auto simp: quiet_def)
qed

theorem type_errors_not_returned_witness:
  "queries_quiet demo_queries
     \<and> typecheck demo_queries list_graph list_graph True demo_func (demo_session demo_code None 3)
         \<noteq> Some (Inl (Failed (MontyTypeError (ModuleRef 0) DuplicateParameters)))"
proof -
  have "queries_quiet demo_queries" by (simp add: queries_quiet_def demo_queries_def quiet_def)
  with type_errors_not_returned show ?thesis by blast
qed

end
