(* ===== verification/StraightLine.thy ===== *)
theory StraightLine
  imports Lower
begin

text \<open>
  What the lowering of \<^verbatim>\<open>montyc_flatcode/src/lower.rs\<close> emits for code without definitions: code
  with a single sequence and how the builder works on it, and the code of a module of
  assignments. The theories that follow code through later stages start from these equations.
\<close>

section \<open>Code with one sequence\<close>

definition name_expr :: "span \<Rightarrow> span_ref \<Rightarrow> expr spanned" where
  "name_expr sp n = Spanned sp (ExprPrimary (Spanned sp (Atomic (Spanned sp (AtName n)))))"

definition one_seq :: "module_ref \<Rightarrow> span \<Rightarrow> flat_inst list \<Rightarrow> flat_code" where
  "one_seq mref sp is = set_current_insts is (flatcode_new (mref, sp))"

text \<open>Code with a single sequence, and how the builder works on it.\<close>

lemma one_seq_run:
  "inst raw (one_seq mref sp is) = Inr (length is, one_seq mref sp (is @ [\<lparr>fi_op = raw, fi_value = length is, fi_attrs = default_attrs\<rparr>]))"
  "i < length is \<Longrightarrow> patch i (set_op raw) (one_seq mref sp is) = Inr ((), one_seq mref sp (is[i := (is ! i)\<lparr>fi_op := raw\<rparr>]))"
  "i < length is \<Longrightarrow> set_span_opt [i] (Some s) (one_seq mref sp is) = Inr ((), one_seq mref sp (is[i := (is ! i)\<lparr>fi_attrs := (fi_attrs (is ! i))\<lparr>ia_span := Some s\<rparr>\<rparr>]))"
  "set_span_opt vs None fc = Inr ((), fc)"
  by (simp_all add: one_seq_def flatcode_new_def inst_def patch_def set_op_def current_insts_def set_current_insts_def get_at_def Let_def
    put_span_def lbind_def lret_def set_span_opt_def)

lemma one_seq_new: "flatcode_new (mref, sp) = one_seq mref sp []"
  by (simp add: one_seq_def flatcode_new_def set_current_insts_def)

lemma name_run: "visit_with_atom (AtName n) (Some s) (one_seq mref sp is) =
  Inr (length is, one_seq mref sp (is @ [\<lparr>fi_op = UseVar n, fi_value = length is, fi_attrs = default_attrs\<lparr>ia_span := Some s\<rparr>\<rparr>]))"
  by (simp add: visit_name_def lbind_def lret_def llift_def one_seq_run unwrap_def)

lemma one_seq_insts: "fs_inst (fc_sequences (one_seq mref sp is) ! 0) = is"
  by (simp add: one_seq_def flatcode_new_def set_current_insts_def)

definition fi :: "nat \<Rightarrow> raw_inst \<Rightarrow> flat_inst" where
  "fi v raw = \<lparr>fi_op = raw, fi_value = v, fi_attrs = default_attrs\<rparr>"

definition fi_at :: "span \<Rightarrow> nat \<Rightarrow> raw_inst \<Rightarrow> flat_inst" where
  "fi_at sp v raw = \<lparr>fi_op = raw, fi_value = v, fi_attrs = default_attrs\<lparr>ia_span := Some sp\<rparr>\<rparr>"

section \<open>Modules of assignments\<close>

text \<open>An assignment of a constant or of a name to a name, with the spans of both sides.\<close>

datatype simple_rhs = RInt "64 word" | RBool bool | RNone | REllipsis | RName span_ref

type_synonym assignment = "(span \<times> span) \<times> span_ref \<times> simple_rhs"

fun rhs_atom :: "simple_rhs \<Rightarrow> atom" where
  "rhs_atom (RInt n) = AtInt n"
| "rhs_atom (RBool b) = AtBool b"
| "rhs_atom RNone = AtNone"
| "rhs_atom REllipsis = AtEllipsis"
| "rhs_atom (RName y) = AtName y"

definition assign_stmt :: "assignment \<Rightarrow> statement spanned" where
  "assign_stmt a = (case a of ((lhs, rhs), x, r) \<Rightarrow>
     Spanned (fst lhs, snd rhs) (StAsn (Assign (Spanned lhs (Atomic (Spanned lhs (AtName x))))
       (Spanned rhs (ExprPrimary (Spanned rhs (Atomic (Spanned rhs (rhs_atom r)))))) None)))"

definition assign_module :: "assignment list \<Rightarrow> module" where
  "assign_module ps = Module (map assign_stmt ps)"

fun rhs_inst :: "simple_rhs \<Rightarrow> raw_inst" where
  "rhs_inst (RInt n) = ConstInst (CInt n)"
| "rhs_inst (RBool b) = ConstInst (CBool b)"
| "rhs_inst RNone = ConstInst CNone"
| "rhs_inst REllipsis = ConstInst CEllipsis"
| "rhs_inst (RName y) = UseVar y"

fun assign_code :: "nat \<Rightarrow> assignment list \<Rightarrow> flat_inst list" where
  "assign_code k [] = []"
| "assign_code k (((lhs, rhs), x, r) # ps) = fi_at rhs k (rhs_inst r) # fi (Suc k) (SetVar x k) # assign_code (Suc (Suc k)) ps"

lemma rhs_run:
  "visit_with_atom (rhs_atom r) (Some s) (one_seq mref sp is) = Inr (length is, one_seq mref sp (is @ [fi_at s (length is) (rhs_inst r)]))"
  by (cases r) (simp_all add: visit_name_def lbind_def lret_def llift_def one_seq_run unwrap_def fi_at_def)

lemma assign_run:
  "visit_sstmt (assign_stmt ((l, s), x, r)) (one_seq mref sp is) =
     Inr (Suc (length is), one_seq mref sp (is @ [fi_at s (length is) (rhs_inst r), fi (Suc (length is)) (SetVar x (length is))]))"
  by (simp add: assign_stmt_def visit_spanned_def visit_with_assign_def visit_assign_def rhs_run lbind_def llift_def one_seq_run fi_def)

lemma assigns_run:
  "\<exists>vs. lseq (map visit_sstmt (map assign_stmt ps)) (one_seq mref sp is) = Inr (vs, one_seq mref sp (is @ assign_code (length is) ps))"
proof (induction ps arbitrary: "is")
  case (Cons p ps)
  obtain l s x r where p: "p = ((l, s), x, r)" by (metis prod.exhaust)
  let ?is = "is @ [fi_at s (length is) (rhs_inst r), fi (Suc (length is)) (SetVar x (length is))]"
  obtain vs where "lseq (map visit_sstmt (map assign_stmt ps)) (one_seq mref sp ?is) = Inr (vs, one_seq mref sp (?is @ assign_code (length ?is) ps))"
    using Cons.IH by blast
  then show ?case by (simp add: p lbind_def lret_def assign_run del: map_map)
qed (simp add: lret_def)

lemma assign_module_code:
  "\<exists>sp. ast_to_flatcode mref (assign_module ps) = Inr (one_seq mref sp (assign_code 0 ps))"
proof -
  let ?sp = "case module_span (assign_module ps) of None \<Rightarrow> (0, 0) | Some s \<Rightarrow> s"
  obtain vs where "lseq (map visit_sstmt (map assign_stmt ps)) (one_seq mref ?sp []) = Inr (vs, one_seq mref ?sp (assign_code 0 ps))"
    using assigns_run [of ps mref ?sp "[]"] by (auto simp del: map_map)
  then show ?thesis
    by (intro exI [of _ ?sp]) (simp add: ast_to_flatcode_def one_seq_new visit_module_def lbind_def lret_def assign_module_def del: map_map)
qed

lemma length_assign_code [simp]: "length (assign_code k ps) = 2 * length ps"
  by (induction k ps rule: assign_code.induct) simp_all

end
