(* ===== verification/Objects.thy ===== *)
theory Objects
  imports FlatCode
begin

text \<open>
  The objects of the compile-time interpreter: \<^verbatim>\<open>montyc_hlirt/src/object\<close>, the object space of
  \<^verbatim>\<open>storage.rs\<close> and the exceptions of \<^verbatim>\<open>exception.rs\<close>.

  Rust functions and trait objects inside values (\<open>NativeFn\<close>, boxed closures, \<open>SharedObject\<close>) are
  represented by identifiers; what they do is an argument of the evaluator. The message and the
  trace of an exception are diagnostics and are left out.
\<close>

section \<open>Object identifiers\<close>

text \<open>\<open>Default for ObjectId\<close>: \<open>u64::MAX\<close>, the identifier of nothing.\<close>

definition object_id_default :: object_id where
  "object_id_default = - 1"

definition is_uninit :: "object_id \<Rightarrow> bool" where
  "is_uninit ob = (ob = object_id_default)"

definition object_id_of_u64 :: "u64 \<Rightarrow> object_id rust" where
  "object_id_of_u64 n = (if n = 0 then Inl UnwrapNone else Inr n)"

section \<open>Values\<close>

type_synonym native_id = nat
type_synonym shared_id = nat

record raw_object =
  ro_alloc_id :: object_id
  ro_dict :: "(object_id \<times> object_id) py_dict"
  ro_class :: object_id

definition raw_object_default :: raw_object where
  "raw_object_default = \<lparr>ro_alloc_id = object_id_default, ro_dict = [], ro_class = object_id_default\<rparr>"

datatype module_key = MkStatic string | MkUser module_ref | MkObject object_id

datatype globals_hook = HookGlobals object_id | ComputeWith native_id

datatype any_func =
    FnNative native_id "globals_hook option"
  | FnBoxed native_id "globals_hook option"
  | FnCode flat_code nat

datatype py_value =
    PvAny raw_object
  | PvInt "64 word"
  | PvFloat "64 word"
  | PvBool bool
  | PvNone
  | PvEllipsis
  | PvBytes "8 word list"
  | PvStr string
  | PvList "object_id list"
  | PvDict "(object_id \<times> object_id) py_dict"
  | PvCallable any_func
  | PvModule module_key raw_object
  | PvFunction any_func "(span_ref \<times> object_id option) list" "object_id option" "object_id option" raw_object
  | PvClass "span_ref option" "object_id option" raw_object
  | PvDynamic shared_id

definition as_int :: "py_value \<Rightarrow> 64 word option" where
  "as_int v = (case v of PvInt n \<Rightarrow> Some n | _ \<Rightarrow> None)"

definition as_str :: "py_value \<Rightarrow> string option" where
  "as_str v = (case v of PvStr s \<Rightarrow> Some s | _ \<Rightarrow> None)"

definition as_list :: "py_value \<Rightarrow> object_id list option" where
  "as_list v = (case v of PvList xs \<Rightarrow> Some xs | _ \<Rightarrow> None)"

definition as_func :: "py_value \<Rightarrow> (any_func \<times> (span_ref \<times> object_id option) list \<times> object_id option) option" where
  "as_func v = (case v of PvFunction body params _ returns _ \<Rightarrow> Some (body, params, returns) | _ \<Rightarrow> None)"

text \<open>The references a value holds. \<open>Dynamic\<close> objects are not supported.\<close>

definition dict_refs :: "(object_id \<times> object_id) py_dict \<Rightarrow> object_id list" where
  "dict_refs d = concat (map (\<lambda>(_, k, v). [k, v]) d)"

definition opt_refs :: "object_id option \<Rightarrow> object_id list" where
  "opt_refs r = (case r of None \<Rightarrow> [] | Some x \<Rightarrow> [x])"

fun refs_with :: "py_value \<Rightarrow> object_id list \<Rightarrow> object_id list rust" where
  "refs_with (PvClass _ _ raw) bucket = Inr (bucket @ dict_refs (ro_dict raw) @ [ro_class raw])"
| "refs_with (PvModule _ raw) bucket = Inr (bucket @ dict_refs (ro_dict raw) @ [ro_class raw])"
| "refs_with (PvAny raw) bucket = Inr (bucket @ dict_refs (ro_dict raw) @ [ro_class raw])"
| "refs_with (PvList elems) bucket = Inr (bucket @ elems)"
| "refs_with (PvDict elems) bucket = Inr (bucket @ dict_refs elems)"
| "refs_with (PvFunction body params parent returns inner) bucket =
     Inr ((bucket @ dict_refs (ro_dict inner) @ [ro_class inner] @ opt_refs parent)
          @ concat (map opt_refs (map snd params @ [returns])))"
| "refs_with (PvDynamic _) bucket = Inl TodoMacro"
| "refs_with _ bucket = Inr bucket"

definition refs_of :: "py_value \<Rightarrow> object_id list rust" where
  "refs_of v = refs_with v []"

section \<open>Exceptions\<close>

datatype inner_exc =
    ExceededTicks
  | UnknownObject object_id
  | ExcReturn object_id
  | NameError span_ref
  | AttributeError object_id u64
  | OsError string
  | ImportError
  | ExcTypeError
  | NotImplementedError

definition is_import_error :: "inner_exc \<Rightarrow> bool" where
  "is_import_error e = (case e of ImportError \<Rightarrow> True | _ \<Rightarrow> False)"

definition is_attribute_arror :: "inner_exc \<Rightarrow> bool" where
  "is_attribute_arror e = (case e of AttributeError _ _ \<Rightarrow> True | _ \<Rightarrow> False)"

section \<open>The object space\<close>

record object_space =
  os_last_object_id :: u64
  os_inner :: "(object_id \<times> py_value) list"

definition os_new :: object_space where
  "os_new = \<lparr>os_last_object_id = 1, os_inner = []\<rparr>"

text \<open>\<open>fetch_add\<close> returns the old value and wraps around.\<close>

definition new_object_id :: "object_space \<Rightarrow> (object_id \<times> object_space) rust" where
  "new_object_id s =
     and_then (object_id_of_u64 (os_last_object_id s)) (\<lambda>ob.
     Inr (ob, s\<lparr>os_last_object_id := os_last_object_id s + 1\<rparr>))"

definition os_insert :: "py_value \<Rightarrow> object_space \<Rightarrow> (object_id \<times> object_space) rust" where
  "os_insert v s =
     and_then (new_object_id s) (\<lambda>(alloc, s').
     Inr (alloc, s'\<lparr>os_inner := assoc_put alloc v (os_inner s')\<rparr>))"

definition os_insert_with :: "(object_id \<Rightarrow> py_value) \<Rightarrow> object_space \<Rightarrow> (object_id \<times> object_space) rust" where
  "os_insert_with f s =
     and_then (new_object_id s) (\<lambda>(alloc, s').
     Inr (alloc, s'\<lparr>os_inner := assoc_put alloc (f alloc) (os_inner s')\<rparr>))"

definition with_object :: "object_id \<Rightarrow> (py_value \<Rightarrow> 'a) \<Rightarrow> object_space \<Rightarrow> 'a rust" where
  "with_object ob f s = and_then (unwrap (map_of (os_inner s) ob)) (\<lambda>v. Inr (f v))"

text \<open>The closure may panic; it returns a result and the new value.\<close>

definition with_object_mut :: "object_id \<Rightarrow> (py_value \<Rightarrow> ('a \<times> py_value) rust) \<Rightarrow> object_space \<Rightarrow> ('a \<times> object_space) rust" where
  "with_object_mut ob f s =
     and_then (unwrap (map_of (os_inner s) ob)) (\<lambda>v.
     and_then (f v) (\<lambda>(r, v').
     Inr (r, s\<lparr>os_inner := assoc_put ob v' (os_inner s)\<rparr>)))"

definition os_size_hint :: "object_space \<Rightarrow> nat option" where
  "os_size_hint s = Some (length (os_inner s))"

fun find_map :: "('a \<Rightarrow> 'b option) \<Rightarrow> 'a list \<Rightarrow> 'b option" where
  "find_map f [] = None"
| "find_map f (x # xs) = (case f x of Some t \<Rightarrow> Some t | None \<Rightarrow> find_map f xs)"

definition os_filter_map :: "(object_id \<Rightarrow> py_value \<Rightarrow> 'a option) \<Rightarrow> object_space \<Rightarrow> 'a option" where
  "os_filter_map f s = find_map (\<lambda>(k, v). f k v) (os_inner s)"

definition os_for_each :: "(object_id \<Rightarrow> py_value \<Rightarrow> 's \<Rightarrow> 's) \<Rightarrow> object_space \<Rightarrow> 's \<Rightarrow> 's" where
  "os_for_each f s = fold (\<lambda>(k, v). f k v) (os_inner s)"

section \<open>The contract of an object space\<close>

text \<open>
  What the runtime needs of the trait \<open>ObjectSpace\<close>: under an invariant, an insertion that does
  not panic returns an identifier that was not in use, adds exactly that object, and never hands
  out the identifier of nothing; a mutation changes one object.
\<close>

locale object_store =
  fixes ok :: "'s \<Rightarrow> bool"
    and get :: "'s \<Rightarrow> object_id \<Rightarrow> py_value option"
    and ins :: "(object_id \<Rightarrow> py_value) \<Rightarrow> 's \<Rightarrow> (object_id \<times> 's) rust"
    and room :: "'s \<Rightarrow> nat"
  assumes ins_ok: "ok s \<Longrightarrow> 0 < room s \<Longrightarrow> \<exists>ob s'. ins f s = Inr (ob, s') \<and> ok s' \<and> room s' = room s - 1 \<and> ob \<noteq> object_id_default
      \<and> get s ob = None \<and> get s' = (get s)(ob \<mapsto> f ob)"
begin

fun insert_all :: "(object_id \<Rightarrow> py_value) list \<Rightarrow> 's \<Rightarrow> (object_id list \<times> 's) rust" where
  "insert_all [] s = Inr ([], s)"
| "insert_all (f # fs) s = and_then (ins f s) (\<lambda>(ob, s'). and_then (insert_all fs s') (\<lambda>(obs, s''). Inr (ob # obs, s'')))"

text \<open>As many insertions as there is room for all succeed, with distinct identifiers, and change nothing else.\<close>

lemma insert_all_ok:
  "ok s \<Longrightarrow> length fs \<le> room s \<Longrightarrow> \<exists>obs s'. insert_all fs s = Inr (obs, s') \<and> ok s' \<and> length obs = length fs \<and> distinct obs
     \<and> set obs \<inter> dom (get s) = {} \<and> (\<forall>i < length fs. get s' (obs ! i) = Some ((fs ! i) (obs ! i)))
     \<and> (\<forall>ob. ob \<notin> set obs \<longrightarrow> get s' ob = get s ob)"
proof (induction fs arbitrary: s)
  case (Cons f fs)
  obtain ob s1 where 1: "ins f s = Inr (ob, s1)" "ok s1" "room s1 = room s - 1" "get s ob = None" "get s1 = (get s)(ob \<mapsto> f ob)"
    using ins_ok [of s f] Cons.prems by (metis length_Cons zero_less_Suc less_le_trans)
  obtain obs s2 where 2: "insert_all fs s1 = Inr (obs, s2)" "ok s2" "length obs = length fs" "distinct obs"
    "set obs \<inter> dom (get s1) = {}" "\<forall>i < length fs. get s2 (obs ! i) = Some ((fs ! i) (obs ! i))"
    "\<forall>ob. ob \<notin> set obs \<longrightarrow> get s2 ob = get s1 ob"
    using Cons.IH [OF 1(2)] 1(3) Cons.prems(2) by fastforce
  have new: "ob \<notin> set obs" using 2(5) 1(5) by auto
  show ?case
  proof (intro exI [of _ "ob # obs"] exI [of _ s2] conjI allI impI)
    show "get s2 ((ob # obs) ! i) = Some (((f # fs) ! i) ((ob # obs) ! i))" if "i < length (f # fs)" for i
      using that 2(6,7) new 1(5) by (cases i) auto
    show "get s2 ob' = get s ob'" if "ob' \<notin> set (ob # obs)" for ob' using that 2(7) 1(5) by auto
    show "set (ob # obs) \<inter> dom (get s) = {}" using 2(5) 1(4,5) by auto
  qed (use 1 2 new in auto)
qed simp

end

text \<open>The default space: the identifiers in use are below the counter, which has not wrapped.\<close>

definition space_ok :: "object_space \<Rightarrow> bool" where
  "space_ok s \<longleftrightarrow> 0 < os_last_object_id s \<and> distinct (map fst (os_inner s))
     \<and> (\<forall>ob v. map_of (os_inner s) ob = Some v \<longrightarrow> 0 < ob \<and> ob < os_last_object_id s)"

definition space_room :: "object_space \<Rightarrow> nat" where
  "space_room s = 2 ^ 64 - 1 - unat (os_last_object_id s)"

lemma u64_succ: "unat (w :: u64) < 2 ^ 64 - 1 \<Longrightarrow> unat (w + 1) = unat w + 1"
  by (simp add: unat_plus_simple unat_word_ariths) 

lemma space_insert:
  assumes "space_ok s" and "0 < space_room s"
  shows "\<exists>s'. os_insert_with f s = Inr (os_last_object_id s, s') \<and> space_ok s' \<and> space_room s' = space_room s - 1
    \<and> os_last_object_id s \<noteq> object_id_default \<and> map_of (os_inner s) (os_last_object_id s) = None
    \<and> map_of (os_inner s') = (map_of (os_inner s))(os_last_object_id s \<mapsto> f (os_last_object_id s))"
proof -
  let ?w = "os_last_object_id s"
  have room: "unat ?w < 2 ^ 64 - 1" using assms(2) by (simp add: space_room_def)
  have succ: "unat (?w + 1) = unat ?w + 1" by (rule u64_succ [OF room])
  have less: "?w < ?w + 1" using succ by (simp add: word_less_nat_alt)
  have "unat (object_id_default) = 2 ^ 64 - 1" by (simp add: object_id_default_def unsigned_minus_1_eq_mask mask_eq_exp_minus_1)
  then have uninit: "?w \<noteq> object_id_default" using room by auto
  have w: "?w \<noteq> 0" "0 < ?w" using assms(1) by (auto simp: space_ok_def)
  have none: "map_of (os_inner s) ?w = None" using assms(1) unfolding space_ok_def by (metis less_irrefl option.exhaust)
  define s' where "s' = s\<lparr>os_last_object_id := ?w + 1, os_inner := assoc_put ?w (f ?w) (os_inner s)\<rparr>"
  have "0 < os_last_object_id s'" using less_trans [OF w(2) less] by (simp add: s'_def)
  moreover have "distinct (map fst (os_inner s'))" using assms(1) by (simp add: s'_def space_ok_def assoc_put_distinct)
  moreover have "0 < ob \<and> ob < os_last_object_id s'" if v: "map_of (os_inner s') ob = Some v" for ob v
  proof (cases "ob = ?w")
    case False
    then have "map_of (os_inner s) ob = Some v" using v by (simp add: s'_def)
    then have "0 < ob" "ob < ?w" using assms(1) by (simp_all only: space_ok_def)
    then show ?thesis using less_trans [OF _ less] by (simp add: s'_def)
  qed (use w less in \<open>simp add: s'_def\<close>)
  ultimately have "space_ok s'" unfolding space_ok_def by blast
  moreover have "space_room s' = space_room s - 1" using succ by (simp add: space_room_def s'_def)
  moreover have "os_insert_with f s = Inr (?w, s')" using w by (simp add: os_insert_with_def new_object_id_def object_id_of_u64_def s'_def)
  ultimately show ?thesis using uninit none by (intro exI [of _ s']) (simp add: s'_def)
qed

interpretation default_space: object_store space_ok "\<lambda>s. map_of (os_inner s)" os_insert_with space_room
  using space_insert by unfold_locales blast

section \<open>Refinement of a heap\<close>

text \<open>The abstract heap: an allocation picks any unused identifier, an update changes one object.\<close>

datatype heap_event = HeapAlloc object_id py_value | HeapUpdate object_id py_value

inductive heap_step :: "(object_id \<rightharpoonup> py_value) \<Rightarrow> heap_event \<Rightarrow> (object_id \<rightharpoonup> py_value) \<Rightarrow> bool" where
  heap_alloc: "h ob = None \<Longrightarrow> ob \<noteq> object_id_default \<Longrightarrow> heap_step h (HeapAlloc ob v) (h(ob \<mapsto> v))"
| heap_update: "h ob = Some v \<Longrightarrow> heap_step h (HeapUpdate ob v') (h(ob \<mapsto> v'))"

inductive_cases heap_stepE: "heap_step h e h'"

definition space_heap :: "object_space \<Rightarrow> object_id \<rightharpoonup> py_value" where
  "space_heap s = map_of (os_inner s)"

lemma os_insert_conv: "os_insert v = os_insert_with (\<lambda>_. v)"
  by (simp add: fun_eq_iff os_insert_def os_insert_with_def)

lemma with_object_mut_ok:
  assumes "space_ok s" and "with_object_mut ob f s = Inr (r, s')"
  shows "\<exists>v v'. space_heap s ob = Some v \<and> f v = Inr (r, v') \<and> space_ok s' \<and> space_room s' = space_room s
    \<and> space_heap s' = (space_heap s)(ob \<mapsto> v')"
proof -
  obtain v v' where v: "map_of (os_inner s) ob = Some v" "f v = Inr (r, v')" "s' = s\<lparr>os_inner := assoc_put ob v' (os_inner s)\<rparr>"
    using assms(2) by (auto simp: with_object_mut_def and_then_Inr_iff)
  have "distinct (map fst (os_inner s'))" using assms(1) v(3) by (simp add: space_ok_def assoc_put_distinct)
  moreover have "0 < ob' \<and> ob' < os_last_object_id s'" if w: "map_of (os_inner s') ob' = Some w" for ob' w
  proof -
    have "\<exists>w. map_of (os_inner s) ob' = Some w" using w v(1,3) by (cases "ob' = ob") auto
    then show ?thesis using assms(1) v(3) unfolding space_ok_def by auto
  qed
  ultimately have "space_ok s'" using assms(1) v(3) unfolding space_ok_def by (simp del: map_of_eq_Some_iff)
  then show ?thesis using v by (simp add: space_heap_def space_room_def)
qed

text \<open>
  The object space refines a heap. In a well-formed space with room for another identifier,
  an insertion does not panic and is an allocation of the abstract heap; a mutation that does not
  panic is an update of the object the closure saw; both keep the space well formed, and reading
  an object gives what the heap holds.
\<close>

theorem object_space_refines:
  assumes "space_ok s" and "0 < space_room s"
  shows "(\<exists>ob s'. os_insert v s = Inr (ob, s') \<and> space_ok s' \<and> space_room s' = space_room s - 1
      \<and> heap_step (space_heap s) (HeapAlloc ob v) (space_heap s') \<and> with_object ob g s' = Inr (g v))
    \<and> (\<forall>ob f r s'. with_object_mut ob f s = Inr (r, s') \<longrightarrow> space_ok s' \<and> space_room s' = space_room s
      \<and> (\<exists>w w'. f w = Inr (r, w') \<and> with_object ob g s = Inr (g w) \<and> heap_step (space_heap s) (HeapUpdate ob w') (space_heap s')))"
proof (intro conjI allI impI)
  obtain s' where s': "os_insert v s = Inr (os_last_object_id s, s')" "space_ok s'" "space_room s' = space_room s - 1"
    "os_last_object_id s \<noteq> object_id_default" "space_heap s (os_last_object_id s) = None"
    "space_heap s' = (space_heap s)(os_last_object_id s \<mapsto> v)"
    using space_insert [OF assms, of "\<lambda>_. v"] by (auto simp: os_insert_conv space_heap_def)
  then have "heap_step (space_heap s) (HeapAlloc (os_last_object_id s) v) (space_heap s')" by (simp add: heap_alloc)
  moreover have "with_object (os_last_object_id s) g s' = Inr (g v)" using s'(6) by (simp add: with_object_def space_heap_def)
  ultimately show "\<exists>ob s'. os_insert v s = Inr (ob, s') \<and> space_ok s' \<and> space_room s' = space_room s - 1
      \<and> heap_step (space_heap s) (HeapAlloc ob v) (space_heap s') \<and> with_object ob g s' = Inr (g v)" using s' by blast
next
  fix ob f r s'
  assume "with_object_mut ob f s = Inr (r, s')"
  from with_object_mut_ok [OF assms(1) this] obtain w w' where w: "space_heap s ob = Some w" "f w = Inr (r, w')" "space_ok s'"
    "space_room s' = space_room s" "space_heap s' = (space_heap s)(ob \<mapsto> w')" by blast
  show "space_ok s'" "space_room s' = space_room s" by (fact w(3), fact w(4))
  have "heap_step (space_heap s) (HeapUpdate ob w') (space_heap s')" unfolding w(5) using w(1) by (rule heap_update)
  moreover have "with_object ob g s = Inr (g w)" using w(1) by (simp add: with_object_def space_heap_def)
  ultimately show "\<exists>w w'. f w = Inr (r, w') \<and> with_object ob g s = Inr (g w) \<and> heap_step (space_heap s) (HeapUpdate ob w') (space_heap s')"
    using w(2) by blast
qed

theorem object_space_refines_witness:
  "\<exists>ob s'. os_insert PvNone os_new = Inr (ob, s') \<and> heap_step (space_heap os_new) (HeapAlloc ob PvNone) (space_heap s')"
proof -
  have "space_ok os_new" "0 < space_room os_new" by (simp_all add: space_ok_def os_new_def space_room_def)
  from object_space_refines [OF this, of PvNone "\<lambda>_. ()", THEN conjunct1] show ?thesis by (elim exE conjE) (intro exI conjI)
qed

end
