(* ===== verification/Runtime.thy ===== *)
theory Runtime
  imports Objects
begin

text \<open>
  The runtime of the compile-time interpreter: \<^verbatim>\<open>montyc_hlirt/src/rt/mod.rs\<close>, its singletons
  (\<^verbatim>\<open>rt/singletons.rs\<close>) and the builders of \<^verbatim>\<open>object/builders.rs\<close>. The hash function of the
  runtime (\<open>ahash::RandomState\<close>) is the argument \<open>hash\<close>, a function of what is hashed. The entries
  of a hash map that is drained come in the order of the association list. Code for tests only is
  left out.
\<close>

section \<open>State\<close>

text \<open>What the runtime hashes. A float is hashed after conversion to \<open>u64\<close>; that is part of \<open>hash\<close>.\<close>

datatype hash_key = HStr string | HInt "64 word" | HFloat "64 word" | HBool bool | HBytes "8 word list" | HObject object_id

datatype dynamic_singleton = DynInt "64 word" | DynStr u64

record singletons =
  sg_builtins :: object_id
  sg_monty :: object_id
  sg_sys :: object_id
  sg_function_class :: object_id
  sg_module_class :: object_id
  sg_string_class :: object_id
  sg_bool_class :: object_id
  sg_int_class :: object_id
  sg_type_class :: object_id
  sg_object_class :: object_id
  sg_float_class :: object_id
  sg_none_class :: object_id
  sg_ellipsis_class :: object_id
  sg_bytes_class :: object_id
  sg_list_class :: object_id
  sg_dict_class :: object_id
  sg_tuple_class :: object_id
  sg_none_v :: object_id
  sg_false_v :: object_id
  sg_true_v :: object_id
  sg_ellipsis_v :: object_id
  sg_dynamic :: "(dynamic_singleton \<times> object_id) list"

definition singletons_default :: singletons where
  "singletons_default =
     (let u = object_id_default in
      \<lparr>sg_builtins = u, sg_monty = u, sg_sys = u, sg_function_class = u, sg_module_class = u, sg_string_class = u,
       sg_bool_class = u, sg_int_class = u, sg_type_class = u, sg_object_class = u, sg_float_class = u, sg_none_class = u,
       sg_ellipsis_class = u, sg_bytes_class = u, sg_list_class = u, sg_dict_class = u, sg_tuple_class = u,
       sg_none_v = u, sg_false_v = u, sg_true_v = u, sg_ellipsis_v = u, sg_dynamic = []\<rparr>)"

record module_metadata =
  mm_alloc :: object_id
  mm_mref :: module_ref
  mm_code :: "flat_code option"

record runtime =
  rt_objects :: object_space
  rt_singletons :: singletons
  rt_module_objects :: "(module_ref \<times> module_metadata) list"

definition new_uninit :: runtime where
  "new_uninit = \<lparr>rt_objects = os_new, rt_singletons = singletons_default, rt_module_objects = []\<rparr>"

section \<open>Objects of the runtime\<close>

text \<open>An insertion into the object space of the runtime.\<close>

definition rt_insert :: "py_value \<Rightarrow> runtime \<Rightarrow> (object_id \<times> runtime) rust" where
  "rt_insert v rt = and_then (os_insert v (rt_objects rt)) (\<lambda>(ob, s). Inr (ob, rt\<lparr>rt_objects := s\<rparr>))"

definition rt_update :: "object_id \<Rightarrow> (py_value \<Rightarrow> py_value rust) \<Rightarrow> runtime \<Rightarrow> runtime rust" where
  "rt_update ob f rt =
     and_then (with_object_mut ob (\<lambda>v. and_then (f v) (\<lambda>v'. Inr ((), v'))) (rt_objects rt)) (\<lambda>(_, s).
     Inr (rt\<lparr>rt_objects := s\<rparr>))"

definition class_of :: "runtime \<Rightarrow> object_id \<Rightarrow> object_id rust" where
  "class_of rt ob =
     (let sg = rt_singletons rt in
      with_object ob (\<lambda>this. case this of
          PvInt _ \<Rightarrow> sg_int_class sg
        | PvBool _ \<Rightarrow> sg_bool_class sg
        | PvNone \<Rightarrow> sg_none_class sg
        | PvEllipsis \<Rightarrow> sg_ellipsis_class sg
        | PvStr _ \<Rightarrow> sg_string_class sg
        | PvFloat _ \<Rightarrow> sg_float_class sg
        | PvFunction _ _ _ _ _ \<Rightarrow> sg_function_class sg
        | PvClass _ _ _ \<Rightarrow> sg_type_class sg
        | PvModule _ _ \<Rightarrow> sg_module_class sg
        | PvDynamic _ \<Rightarrow> sg_object_class sg
        | PvAny raw \<Rightarrow> ro_class raw
        | PvBytes _ \<Rightarrow> sg_bytes_class sg
        | PvList _ \<Rightarrow> sg_list_class sg
        | PvDict _ \<Rightarrow> sg_dict_class sg
        | PvCallable _ \<Rightarrow> sg_function_class sg) (rt_objects rt))"

definition put_dynamic :: "dynamic_singleton \<Rightarrow> object_id \<Rightarrow> runtime \<Rightarrow> runtime" where
  "put_dynamic key ob rt =
     rt\<lparr>rt_singletons := (rt_singletons rt)\<lparr>sg_dynamic := assoc_put key ob (sg_dynamic (rt_singletons rt))\<rparr>\<rparr>"

definition new_string :: "(hash_key \<Rightarrow> u64) \<Rightarrow> string \<Rightarrow> runtime \<Rightarrow> (object_id \<times> runtime) rust" where
  "new_string hash str rt =
     (let key = DynStr (hash (HStr str)) in
      (case map_of (sg_dynamic (rt_singletons rt)) key of
         Some alloc \<Rightarrow> Inr (alloc, rt)
       | None \<Rightarrow> and_then (rt_insert (PvStr str) rt) (\<lambda>(alloc, rt'). Inr (alloc, put_dynamic key alloc rt'))))"

definition new_int :: "64 word \<Rightarrow> runtime \<Rightarrow> (object_id \<times> runtime) rust" where
  "new_int n rt =
     (case map_of (sg_dynamic (rt_singletons rt)) (DynInt n) of
        Some alloc \<Rightarrow> Inr (alloc, rt)
      | None \<Rightarrow> and_then (rt_insert (PvInt n) rt) (\<lambda>(alloc, rt'). Inr (alloc, put_dynamic (DynInt n) alloc rt')))"

definition make_kv_pair ::
  "(hash_key \<Rightarrow> u64) \<Rightarrow> string \<Rightarrow> (runtime \<Rightarrow> (object_id \<times> runtime) rust) \<Rightarrow> runtime
    \<Rightarrow> ((u64 \<times> object_id \<times> object_id) \<times> runtime) rust" where
  "make_kv_pair hash key ctor rt =
     and_then (new_string hash key rt) (\<lambda>(k, rt').
     and_then (ctor rt') (\<lambda>(v, rt'').
     Inr ((hash (HStr key), k, v), rt'')))"

definition new_callable :: "any_func \<Rightarrow> runtime \<Rightarrow> (object_id \<times> runtime) rust" where
  "new_callable func rt = rt_insert (PvCallable func) rt"

definition new_list :: "object_id list \<Rightarrow> runtime \<Rightarrow> (object_id \<times> runtime) rust" where
  "new_list elems rt = rt_insert (PvList elems) rt"

definition new_function ::
  "any_func \<Rightarrow> (span_ref \<times> object_id option) list \<Rightarrow> object_id option \<Rightarrow> runtime \<Rightarrow> (object_id \<times> runtime) rust" where
  "new_function body params returns rt = rt_insert (PvFunction body params None returns raw_object_default) rt"

text \<open>The dictionary of the objects \<open>setattrs\<close> accepts, and the object with another one.\<close>

definition attrs_dict :: "py_value \<Rightarrow> (object_id \<times> object_id) py_dict rust" where
  "attrs_dict v =
     (case v of
        PvAny inner \<Rightarrow> Inr (ro_dict inner)
      | PvModule _ inner \<Rightarrow> Inr (ro_dict inner)
      | PvFunction _ _ _ _ inner \<Rightarrow> Inr (ro_dict inner)
      | _ \<Rightarrow> Inl TodoMacro)"

definition swap_dict :: "(object_id \<times> object_id) py_dict \<Rightarrow> py_value \<Rightarrow> py_value rust" where
  "swap_dict d v =
     (case v of
        PvAny inner \<Rightarrow> Inr (PvAny (inner\<lparr>ro_dict := d\<rparr>))
      | PvModule k inner \<Rightarrow> Inr (PvModule k (inner\<lparr>ro_dict := d\<rparr>))
      | PvFunction b ps p r inner \<Rightarrow> Inr (PvFunction b ps p r (inner\<lparr>ro_dict := d\<rparr>))
      | _ \<Rightarrow> Inl UnreachableCode)"

definition put_attrs :: "(u64 \<times> object_id \<times> object_id) list \<Rightarrow> (object_id \<times> object_id) py_dict \<Rightarrow> (object_id \<times> object_id) py_dict" where
  "put_attrs attrs d = fold (\<lambda>(h, k, v). assoc_put h (k, v)) attrs d"

definition setattrs :: "object_id \<Rightarrow> (u64 \<times> object_id \<times> object_id) list \<Rightarrow> runtime \<Rightarrow> (nat \<times> runtime) rust" where
  "setattrs ob attrs rt =
     and_then (with_object ob attrs_dict (rt_objects rt)) (\<lambda>found.
     and_then found (\<lambda>d.
     and_then (rt_update ob (swap_dict (put_attrs attrs d)) rt) (\<lambda>rt'.
     Inr (length attrs, rt'))))"

section \<open>Initialization\<close>

definition init_with ::
  "(singletons \<Rightarrow> object_id) \<Rightarrow> (object_id \<Rightarrow> singletons \<Rightarrow> singletons) \<Rightarrow> py_value \<Rightarrow> runtime \<Rightarrow> runtime rust" where
  "init_with get set_f v rt =
     (if is_uninit (get (rt_singletons rt))
      then and_then (rt_insert v rt) (\<lambda>(alloc, rt'). Inr (rt'\<lparr>rt_singletons := set_f alloc (rt_singletons rt')\<rparr>))
      else Inr rt)"

fun new_ints :: "64 word list \<Rightarrow> runtime \<Rightarrow> runtime rust" where
  "new_ints [] rt = Inr rt"
| "new_ints (n # ns) rt = and_then (new_int n rt) (\<lambda>(_, rt'). new_ints ns rt')"

definition small_ints :: "64 word list" where
  "small_ints = map word_of_int [- 126 .. 126]"

definition try_init :: "runtime \<Rightarrow> runtime rust" where
  "try_init rt =
     and_then (init_with sg_true_v (\<lambda>ob s. s\<lparr>sg_true_v := ob\<rparr>) (PvBool True) rt) (\<lambda>rt.
     and_then (init_with sg_false_v (\<lambda>ob s. s\<lparr>sg_false_v := ob\<rparr>) (PvBool False) rt) (\<lambda>rt.
     and_then (init_with sg_none_v (\<lambda>ob s. s\<lparr>sg_none_v := ob\<rparr>) PvNone rt) (\<lambda>rt.
     and_then (init_with sg_ellipsis_v (\<lambda>ob s. s\<lparr>sg_ellipsis_v := ob\<rparr>) PvEllipsis rt) (\<lambda>rt.
     new_ints small_ints rt))))"

section \<open>Builders\<close>

text \<open>The properties of an object under construction.\<close>

type_synonym object_builder = "(string \<times> py_value) list"

definition builder_hasattr :: "object_builder \<Rightarrow> string \<Rightarrow> bool" where
  "builder_hasattr b name \<longleftrightarrow> map_of b name \<noteq> None"

definition builder_setattr :: "string \<Rightarrow> py_value \<Rightarrow> object_builder \<Rightarrow> object_builder" where
  "builder_setattr name v b = assoc_put name v b"

fun properties_into_dict ::
  "(hash_key \<Rightarrow> u64) \<Rightarrow> object_builder \<Rightarrow> (object_id \<times> object_id) py_dict \<Rightarrow> runtime \<Rightarrow> ((object_id \<times> object_id) py_dict \<times> runtime) rust" where
  "properties_into_dict hash [] d rt = Inr (d, rt)"
| "properties_into_dict hash ((key, v) # props) d rt =
     and_then (rt_insert (PvStr key) rt) (\<lambda>(k, rt1).
     and_then (rt_insert v rt1) (\<lambda>(ob, rt2).
     properties_into_dict hash props (assoc_put (hash (HStr key)) (k, ob) d) rt2))"

definition rt_insert_with :: "(object_id \<Rightarrow> py_value) \<Rightarrow> runtime \<Rightarrow> (object_id \<times> runtime) rust" where
  "rt_insert_with f rt = and_then (os_insert_with f (rt_objects rt)) (\<lambda>(ob, s). Inr (ob, rt\<lparr>rt_objects := s\<rparr>))"

definition synthesise_object :: "(hash_key \<Rightarrow> u64) \<Rightarrow> object_builder \<Rightarrow> runtime \<Rightarrow> (object_id \<times> runtime) rust" where
  "synthesise_object hash b rt =
     and_then (properties_into_dict hash b [] rt) (\<lambda>(d, rt').
     rt_insert_with (\<lambda>alloc. PvAny \<lparr>ro_alloc_id = alloc, ro_dict = d, ro_class = sg_object_class (rt_singletons rt')\<rparr>) rt')"

definition synthesise_class :: "(hash_key \<Rightarrow> u64) \<Rightarrow> object_builder \<Rightarrow> runtime \<Rightarrow> (object_id \<times> runtime) rust" where
  "synthesise_class hash b rt =
     and_then (properties_into_dict hash b [] rt) (\<lambda>(d, rt').
     rt_insert_with (\<lambda>alloc. PvClass None None \<lparr>ro_alloc_id = alloc, ro_dict = d, ro_class = sg_type_class (rt_singletons rt')\<rparr>) rt')"

text \<open>A native function without a hook gets the module as its globals.\<close>

definition hook_globals :: "object_id \<Rightarrow> py_value \<Rightarrow> py_value" where
  "hook_globals m v =
     (case v of
        PvCallable (FnNative f None) \<Rightarrow> PvCallable (FnNative f (Some (HookGlobals m)))
      | PvCallable (FnBoxed f None) \<Rightarrow> PvCallable (FnBoxed f (Some (HookGlobals m)))
      | _ \<Rightarrow> v)"

fun hook_all :: "object_id \<Rightarrow> object_id list \<Rightarrow> runtime \<Rightarrow> runtime rust" where
  "hook_all m [] rt = Inr rt"
| "hook_all m (v # vs) rt = and_then (rt_update v (\<lambda>x. Inr (hook_globals m x)) rt) (hook_all m vs)"

definition set_module_dict :: "(object_id \<times> object_id) py_dict \<Rightarrow> py_value \<Rightarrow> py_value rust" where
  "set_module_dict d v = (case v of PvModule k inner \<Rightarrow> Inr (PvModule k (inner\<lparr>ro_dict := d\<rparr>)) | _ \<Rightarrow> Inl UnreachableCode)"

definition synthesise_within :: "(hash_key \<Rightarrow> u64) \<Rightarrow> object_builder \<Rightarrow> runtime \<Rightarrow> (object_id \<times> runtime) rust" where
  "synthesise_within hash b rt =
     and_then (rt_insert_with (\<lambda>alloc. PvModule (MkObject alloc)
         \<lparr>ro_alloc_id = alloc, ro_dict = [], ro_class = sg_module_class (rt_singletons rt)\<rparr>) rt) (\<lambda>(m, rt1).
     and_then (properties_into_dict hash b [] rt1) (\<lambda>(d, rt2).
     and_then (hook_all m (map (\<lambda>(_, _, v). v) d) rt2) (\<lambda>rt3.
     and_then (rt_update m (set_module_dict d) rt3) (\<lambda>rt4. Inr (m, rt4)))))"

definition set_mkey :: "module_ref \<Rightarrow> py_value \<Rightarrow> py_value rust" where
  "set_mkey mref v = (case v of PvModule _ inner \<Rightarrow> Inr (PvModule (MkUser mref) inner) | _ \<Rightarrow> Inl UnreachableCode)"

definition synthesise_module :: "(hash_key \<Rightarrow> u64) \<Rightarrow> module_ref \<Rightarrow> object_builder \<Rightarrow> runtime \<Rightarrow> (object_id \<times> runtime) rust" where
  "synthesise_module hash mref b rt =
     and_then (synthesise_within hash b rt) (\<lambda>(ob, rt1).
     and_then (rt_update ob (set_mkey mref) rt1) (\<lambda>rt2.
     Inr (ob, rt2\<lparr>rt_module_objects := assoc_put mref \<lparr>mm_alloc = ob, mm_mref = mref, mm_code = None\<rparr> (rt_module_objects rt2)\<rparr>)))"

section \<open>Interning\<close>

text \<open>
  The invariant of the runtime: its object space is well formed and every dynamic singleton is
  the object of its key.
\<close>

abbreviation rt_heap :: "runtime \<Rightarrow> object_id \<rightharpoonup> py_value" where
  "rt_heap rt \<equiv> space_heap (rt_objects rt)"

abbreviation rt_room :: "runtime \<Rightarrow> nat" where
  "rt_room rt \<equiv> space_room (rt_objects rt)"

fun is_dynamic :: "(hash_key \<Rightarrow> u64) \<Rightarrow> dynamic_singleton \<Rightarrow> py_value \<Rightarrow> bool" where
  "is_dynamic hash (DynInt n) v = (v = PvInt n)"
| "is_dynamic hash (DynStr h) v = (case v of PvStr s \<Rightarrow> hash (HStr s) = h | _ \<Rightarrow> False)"

definition runtime_ok :: "(hash_key \<Rightarrow> u64) \<Rightarrow> runtime \<Rightarrow> bool" where
  "runtime_ok hash rt \<longleftrightarrow> space_ok (rt_objects rt)
     \<and> (\<forall>key ob. map_of (sg_dynamic (rt_singletons rt)) key = Some ob \<longrightarrow> (\<exists>v. rt_heap rt ob = Some v \<and> is_dynamic hash key v))"

lemma rt_insert_with_ok:
  assumes "runtime_ok hash rt" and "0 < rt_room rt"
  shows "\<exists>ob rt'. rt_insert_with f rt = Inr (ob, rt') \<and> runtime_ok hash rt' \<and> rt_room rt' = rt_room rt - 1 \<and> ob \<noteq> object_id_default
    \<and> rt_heap rt ob = None \<and> rt_heap rt' = (rt_heap rt)(ob \<mapsto> f ob) \<and> rt_singletons rt' = rt_singletons rt
    \<and> rt_module_objects rt' = rt_module_objects rt"
proof -
  let ?ob = "os_last_object_id (rt_objects rt)"
  obtain s' where s': "os_insert_with f (rt_objects rt) = Inr (?ob, s')" "space_ok s'"
    "space_room s' = rt_room rt - 1" "?ob \<noteq> object_id_default" "rt_heap rt ?ob = None" "space_heap s' = (rt_heap rt)(?ob \<mapsto> f ?ob)"
    using space_insert [of "rt_objects rt" f] assms by (auto simp: space_heap_def runtime_ok_def)
  have "runtime_ok hash (rt\<lparr>rt_objects := s'\<rparr>)"
    unfolding runtime_ok_def
  proof (intro conjI allI impI)
    fix key ob assume "map_of (sg_dynamic (rt_singletons (rt\<lparr>rt_objects := s'\<rparr>))) key = Some ob"
    then obtain w where w: "rt_heap rt ob = Some w" "is_dynamic hash key w" using assms(1) by (auto simp: runtime_ok_def)
    then show "\<exists>w. rt_heap (rt\<lparr>rt_objects := s'\<rparr>) ob = Some w \<and> is_dynamic hash key w" using s'(5,6) by (intro exI [of _ w]) auto
  qed (simp add: s'(2))
  then show ?thesis using s' by (intro exI [of _ ?ob] exI [of _ "rt\<lparr>rt_objects := s'\<rparr>"]) (simp add: rt_insert_with_def)
qed

lemma rt_insert_ok:
  assumes "runtime_ok hash rt" and "0 < rt_room rt"
  shows "\<exists>ob rt'. rt_insert v rt = Inr (ob, rt') \<and> runtime_ok hash rt' \<and> rt_room rt' = rt_room rt - 1 \<and> ob \<noteq> object_id_default
    \<and> rt_heap rt ob = None \<and> rt_heap rt' = (rt_heap rt)(ob \<mapsto> v) \<and> rt_singletons rt' = rt_singletons rt
    \<and> rt_module_objects rt' = rt_module_objects rt"
  using rt_insert_with_ok [OF assms, of "\<lambda>_. v"] by (simp add: rt_insert_def rt_insert_with_def os_insert_conv)

text \<open>Looking up a singleton and creating it on a miss, which \<open>new_int\<close> and \<open>new_string\<close> have in common.\<close>

lemma intern_ok:
  assumes ok: "runtime_ok hash rt" and room: "0 < rt_room rt" and v: "is_dynamic hash key v"
    and m: "m = (\<lambda>rt. case map_of (sg_dynamic (rt_singletons rt)) key of Some alloc \<Rightarrow> Inr (alloc, rt)
      | None \<Rightarrow> and_then (rt_insert v rt) (\<lambda>(alloc, rt'). Inr (alloc, put_dynamic key alloc rt')))"
  shows "\<exists>ob rt' w. m rt = Inr (ob, rt') \<and> runtime_ok hash rt' \<and> rt_room rt - 1 \<le> rt_room rt' \<and> map_of (sg_dynamic (rt_singletons rt')) key = Some ob
    \<and> rt_heap rt' ob = Some w \<and> is_dynamic hash key w \<and> m rt' = Inr (ob, rt')
    \<and> (\<forall>ob' u. rt_heap rt ob' = Some u \<longrightarrow> rt_heap rt' ob' = Some u)
    \<and> (\<exists>d. rt_singletons rt' = (rt_singletons rt)\<lparr>sg_dynamic := d\<rparr> \<and> map_of (sg_dynamic (rt_singletons rt)) \<subseteq>\<^sub>m map_of d)"
proof (cases "map_of (sg_dynamic (rt_singletons rt)) key")
  case (Some ob)
  then obtain w where w: "rt_heap rt ob = Some w" "is_dynamic hash key w" using ok by (auto simp: runtime_ok_def)
  then show ?thesis using ok Some m
    by (intro exI [of _ ob] exI [of _ rt] exI [of _ w] conjI exI [of _ "sg_dynamic (rt_singletons rt)"]) simp_all
next
  case None
  obtain ob rt1 where 1: "rt_insert v rt = Inr (ob, rt1)" "runtime_ok hash rt1" "rt_room rt1 = rt_room rt - 1" "rt_heap rt ob = None"
    "rt_heap rt1 = (rt_heap rt)(ob \<mapsto> v)" "rt_singletons rt1 = rt_singletons rt"
    using rt_insert_ok [OF ok room, of v] by blast
  let ?rt = "put_dynamic key ob rt1" and ?d = "assoc_put key ob (sg_dynamic (rt_singletons rt))"
  have h: "rt_objects ?rt = rt_objects rt1" "sg_dynamic (rt_singletons ?rt) = ?d" "rt_singletons ?rt = (rt_singletons rt)\<lparr>sg_dynamic := ?d\<rparr>"
    using 1(6) by (simp_all add: put_dynamic_def)
  have "runtime_ok hash ?rt" using 1(2,5,6) v unfolding runtime_ok_def h by auto
  moreover have "map_of (sg_dynamic (rt_singletons rt)) \<subseteq>\<^sub>m map_of ?d" using None by (auto simp: map_le_def)
  moreover have "m rt = Inr (ob, ?rt)" using None 1(1) m by simp
  moreover have "m ?rt = Inr (ob, ?rt)" using m h(2) by simp
  ultimately show ?thesis using 1(3,4,5) v h
    by (intro exI [of _ ob] exI [of _ ?rt] exI [of _ v] conjI exI [of _ ?d]) auto
qed

lemma is_dynamic_int: "is_dynamic hash (DynInt n) (PvInt n)"
  by simp

lemma new_int_conv:
  "new_int n = (\<lambda>rt. case map_of (sg_dynamic (rt_singletons rt)) (DynInt n) of Some alloc \<Rightarrow> Inr (alloc, rt)
      | None \<Rightarrow> and_then (rt_insert (PvInt n) rt) (\<lambda>(alloc, rt'). Inr (alloc, put_dynamic (DynInt n) alloc rt')))"
  by (rule ext) (rule new_int_def)

lemma new_int_ok:
  assumes "runtime_ok hash rt" and "0 < rt_room rt"
  shows "\<exists>ob rt'. new_int n rt = Inr (ob, rt') \<and> runtime_ok hash rt' \<and> rt_heap rt' ob = Some (PvInt n) \<and> new_int n rt' = Inr (ob, rt')
    \<and> rt_heap rt \<subseteq>\<^sub>m rt_heap rt' \<and> rt_room rt - 1 \<le> rt_room rt' \<and> (\<exists>d. rt_singletons rt' = (rt_singletons rt)\<lparr>sg_dynamic := d\<rparr>)"
proof -
  obtain ob rt' where r: "new_int n rt = Inr (ob, rt')" "runtime_ok hash rt'" "rt_heap rt' ob = Some (PvInt n)" "new_int n rt' = Inr (ob, rt')"
    "\<forall>ob' u. rt_heap rt ob' = Some u \<longrightarrow> rt_heap rt' ob' = Some u" "rt_room rt - 1 \<le> rt_room rt'"
    "\<exists>d. rt_singletons rt' = (rt_singletons rt)\<lparr>sg_dynamic := d\<rparr>"
    using intern_ok [OF assms is_dynamic_int new_int_conv, of n] by (auto simp del: map_of_eq_Some_iff)
  then have "rt_heap rt \<subseteq>\<^sub>m rt_heap rt'" by (auto simp: map_le_def dom_def)
  with r show ?thesis by blast
qed

lemma new_string_ok:
  assumes "runtime_ok hash rt" and "0 < rt_room rt"
  shows "\<exists>ob rt' t. new_string hash s rt = Inr (ob, rt') \<and> runtime_ok hash rt' \<and> rt_heap rt' ob = Some (PvStr t) \<and> hash (HStr t) = hash (HStr s)
    \<and> map_of (sg_dynamic (rt_singletons rt')) (DynStr (hash (HStr s))) = Some ob \<and> rt_heap rt \<subseteq>\<^sub>m rt_heap rt'
    \<and> rt_room rt - 1 \<le> rt_room rt' \<and> (\<exists>d. rt_singletons rt' = (rt_singletons rt)\<lparr>sg_dynamic := d\<rparr>)"
proof -
  have conv: "new_string hash s = (\<lambda>rt. case map_of (sg_dynamic (rt_singletons rt)) (DynStr (hash (HStr s))) of Some alloc \<Rightarrow> Inr (alloc, rt)
      | None \<Rightarrow> and_then (rt_insert (PvStr s) rt) (\<lambda>(alloc, rt'). Inr (alloc, put_dynamic (DynStr (hash (HStr s))) alloc rt')))"
    by (rule ext) (simp add: new_string_def Let_def)
  have dyn: "is_dynamic hash (DynStr (hash (HStr s))) (PvStr s)" by simp
  obtain ob rt' w where r: "new_string hash s rt = Inr (ob, rt')" "runtime_ok hash rt'" "rt_heap rt' ob = Some w"
    "map_of (sg_dynamic (rt_singletons rt')) (DynStr (hash (HStr s))) = Some ob" "is_dynamic hash (DynStr (hash (HStr s))) w"
    "\<forall>ob' u. rt_heap rt ob' = Some u \<longrightarrow> rt_heap rt' ob' = Some u" "rt_room rt - 1 \<le> rt_room rt'"
    "\<exists>d. rt_singletons rt' = (rt_singletons rt)\<lparr>sg_dynamic := d\<rparr>"
    using intern_ok [OF assms dyn conv] by blast
  obtain t where "w = PvStr t" "hash (HStr t) = hash (HStr s)" using r(5) by (auto split: py_value.splits)
  moreover have "rt_heap rt \<subseteq>\<^sub>m rt_heap rt'" using r(6) by (auto simp: map_le_def dom_def)
  ultimately show ?thesis using r by blast
qed

text \<open>Updating an object that is no singleton keeps the invariant.\<close>

lemma rt_update_ok:
  assumes ok: "runtime_ok hash rt" and v: "rt_heap rt ob = Some v" "f v = Inr v'" and plain: "\<And>key. \<not> is_dynamic hash key v"
  shows "\<exists>rt'. rt_update ob f rt = Inr rt' \<and> runtime_ok hash rt' \<and> rt_heap rt' = (rt_heap rt)(ob \<mapsto> v') \<and> rt_room rt' = rt_room rt
    \<and> rt_singletons rt' = rt_singletons rt \<and> rt_module_objects rt' = rt_module_objects rt"
proof -
  let ?s = "(rt_objects rt)\<lparr>os_inner := assoc_put ob v' (os_inner (rt_objects rt))\<rparr>" and ?g = "\<lambda>v. and_then (f v) (\<lambda>v'. Inr ((), v'))"
  have m: "with_object_mut ob ?g (rt_objects rt) = Inr ((), ?s)" using v by (simp add: with_object_mut_def space_heap_def)
  have "space_ok (rt_objects rt)" using ok by (simp add: runtime_ok_def)
  from with_object_mut_ok [OF this m] v have s: "space_ok ?s" "space_room ?s = rt_room rt" "space_heap ?s = (rt_heap rt)(ob \<mapsto> v')" by auto
  have "runtime_ok hash (rt\<lparr>rt_objects := ?s\<rparr>)"
    unfolding runtime_ok_def
  proof (intro conjI allI impI)
    fix key ob' assume "map_of (sg_dynamic (rt_singletons (rt\<lparr>rt_objects := ?s\<rparr>))) key = Some ob'"
    then obtain w where w: "rt_heap rt ob' = Some w" "is_dynamic hash key w" using ok by (auto simp: runtime_ok_def)
    then have "ob' \<noteq> ob" using v plain by auto
    then show "\<exists>w. rt_heap (rt\<lparr>rt_objects := ?s\<rparr>) ob' = Some w \<and> is_dynamic hash key w" using w s(3) by (intro exI [of _ w]) simp
  qed (use s(1) in simp)
  then show ?thesis using m s by (intro exI [of _ "rt\<lparr>rt_objects := ?s\<rparr>"]) (simp add: rt_update_def)
qed

text \<open>
  C33. Interning. In a runtime whose invariant holds and whose object space has room, creating an
  integer returns an object that holds it, and creating it again returns the same object and
  changes nothing; creating a string returns an object that holds a string with the same hash,
  and any string with that hash gives the same object from then on. Objects that existed keep
  their values.
\<close>

theorem runtime_interning:
  assumes "runtime_ok hash rt" and "0 < rt_room rt"
  shows "(\<exists>ob rt'. new_int n rt = Inr (ob, rt') \<and> runtime_ok hash rt' \<and> rt_heap rt' ob = Some (PvInt n) \<and> new_int n rt' = Inr (ob, rt')
       \<and> rt_heap rt \<subseteq>\<^sub>m rt_heap rt')
    \<and> (\<exists>ob rt' s'. new_string hash s rt = Inr (ob, rt') \<and> runtime_ok hash rt' \<and> rt_heap rt' ob = Some (PvStr s') \<and> hash (HStr s') = hash (HStr s)
       \<and> (\<forall>t. hash (HStr t) = hash (HStr s) \<longrightarrow> new_string hash t rt' = Inr (ob, rt')) \<and> rt_heap rt \<subseteq>\<^sub>m rt_heap rt')"
proof
  show "\<exists>ob rt'. new_int n rt = Inr (ob, rt') \<and> runtime_ok hash rt' \<and> rt_heap rt' ob = Some (PvInt n) \<and> new_int n rt' = Inr (ob, rt')
       \<and> rt_heap rt \<subseteq>\<^sub>m rt_heap rt'" using new_int_ok [OF assms] by blast
next
  obtain ob rt' s' where r: "new_string hash s rt = Inr (ob, rt')" "runtime_ok hash rt'" "rt_heap rt' ob = Some (PvStr s')"
    "hash (HStr s') = hash (HStr s)" "map_of (sg_dynamic (rt_singletons rt')) (DynStr (hash (HStr s))) = Some ob" "rt_heap rt \<subseteq>\<^sub>m rt_heap rt'"
    using new_string_ok [OF assms, of s] by blast
  moreover have "new_string hash t rt' = Inr (ob, rt')" if "hash (HStr t) = hash (HStr s)" for t
    using r(5) that by (simp add: new_string_def Let_def)
  ultimately show "\<exists>ob rt' s'. new_string hash s rt = Inr (ob, rt') \<and> runtime_ok hash rt' \<and> rt_heap rt' ob = Some (PvStr s')
      \<and> hash (HStr s') = hash (HStr s) \<and> (\<forall>t. hash (HStr t) = hash (HStr s) \<longrightarrow> new_string hash t rt' = Inr (ob, rt')) \<and> rt_heap rt \<subseteq>\<^sub>m rt_heap rt'"
    using r by blast
qed

theorem runtime_interning_witness:
  "\<exists>ob rt'. new_int 7 new_uninit = Inr (ob, rt') \<and> rt_heap rt' ob = Some (PvInt 7) \<and> new_int 7 rt' = Inr (ob, rt')"
proof -
  have "runtime_ok (\<lambda>_. 0) new_uninit" "0 < rt_room new_uninit" by (simp_all add: runtime_ok_def new_uninit_def space_ok_def os_new_def space_room_def singletons_default_def)
  from runtime_interning [OF this, of 7 "''a''", THEN conjunct1] show ?thesis by blast
qed

section \<open>Initialization fills the constants\<close>

text \<open>
  A slot of the singletons: a field that is read by \<open>get\<close> and written by \<open>set_f\<close>, apart from the
  dynamic singletons. \<open>init_with\<close> fills an empty slot and leaves a full one.
\<close>

definition slot_holds :: "(singletons \<Rightarrow> object_id) \<Rightarrow> py_value \<Rightarrow> runtime \<Rightarrow> bool" where
  "slot_holds get v rt \<longleftrightarrow> rt_heap rt (get (rt_singletons rt)) = Some v"

definition slot_ok :: "(singletons \<Rightarrow> object_id) \<Rightarrow> py_value \<Rightarrow> runtime \<Rightarrow> bool" where
  "slot_ok get v rt \<longleftrightarrow> is_uninit (get (rt_singletons rt)) \<or> slot_holds get v rt"

lemma heap_not_uninit:
  assumes "runtime_ok hash rt" and "rt_heap rt ob = Some v"
  shows "\<not> is_uninit ob"
proof -
  have "ob < os_last_object_id (rt_objects rt)" using assms unfolding runtime_ok_def space_ok_def space_heap_def by blast
  then show ?thesis using word_order.extremum [of "os_last_object_id (rt_objects rt)"] by (auto simp: is_uninit_def object_id_default_def)
qed

lemma init_with_idle: "runtime_ok hash rt \<Longrightarrow> slot_holds get v rt \<Longrightarrow> init_with get set_f v rt = Inr rt"
  using heap_not_uninit [of hash rt "get (rt_singletons rt)" v] by (simp add: init_with_def slot_holds_def)

lemma slot_holds_mono:
  "slot_holds get v rt \<Longrightarrow> rt_heap rt \<subseteq>\<^sub>m rt_heap rt' \<Longrightarrow> get (rt_singletons rt') = get (rt_singletons rt) \<Longrightarrow> slot_holds get v rt'"
  by (auto simp: slot_holds_def map_le_def dom_def)

lemma slot_ok_mono:
  "slot_ok get v rt \<Longrightarrow> rt_heap rt \<subseteq>\<^sub>m rt_heap rt' \<Longrightarrow> get (rt_singletons rt') = get (rt_singletons rt) \<Longrightarrow> slot_ok get v rt'"
  using slot_holds_mono by (auto simp: slot_ok_def)

locale singleton_slot =
  fixes get :: "singletons \<Rightarrow> object_id" and set_f :: "object_id \<Rightarrow> singletons \<Rightarrow> singletons"
  assumes get_set: "get (set_f ob s) = ob"
    and dynamic_set: "sg_dynamic (set_f ob s) = sg_dynamic s"
begin

lemma init_fills:
  assumes "runtime_ok hash rt" and "0 < rt_room rt" and "slot_ok get v rt"
  shows "\<exists>rt'. init_with get set_f v rt = Inr rt' \<and> runtime_ok hash rt' \<and> rt_room rt - 1 \<le> rt_room rt' \<and> slot_holds get v rt'
    \<and> rt_heap rt \<subseteq>\<^sub>m rt_heap rt' \<and> (rt_singletons rt' = rt_singletons rt \<or> (\<exists>ob. rt_singletons rt' = set_f ob (rt_singletons rt)))"
proof (cases "is_uninit (get (rt_singletons rt))")
  case True
  obtain ob rt1 where 1: "rt_insert v rt = Inr (ob, rt1)" "runtime_ok hash rt1" "rt_room rt1 = rt_room rt - 1" "rt_heap rt ob = None"
    "rt_heap rt1 = (rt_heap rt)(ob \<mapsto> v)" "rt_singletons rt1 = rt_singletons rt"
    using rt_insert_ok [OF assms(1,2), of v] by blast
  let ?rt = "rt1\<lparr>rt_singletons := set_f ob (rt_singletons rt1)\<rparr>"
  have "runtime_ok hash ?rt" using 1(2) by (simp add: runtime_ok_def dynamic_set)
  moreover have "slot_holds get v ?rt" using 1(5) by (simp add: slot_holds_def get_set)
  moreover have "rt_heap rt \<subseteq>\<^sub>m rt_heap ?rt" using 1(4,5) by (auto simp: map_le_def)
  ultimately show ?thesis using True 1(1,3,6) by (intro exI [of _ ?rt]) (auto simp: init_with_def)
next
  case False
  then show ?thesis using assms(1,3) by (auto simp: init_with_def slot_ok_def)
qed

end

interpretation true_slot: singleton_slot sg_true_v "\<lambda>ob s. s\<lparr>sg_true_v := ob\<rparr>" by unfold_locales simp_all
interpretation false_slot: singleton_slot sg_false_v "\<lambda>ob s. s\<lparr>sg_false_v := ob\<rparr>" by unfold_locales simp_all
interpretation none_slot: singleton_slot sg_none_v "\<lambda>ob s. s\<lparr>sg_none_v := ob\<rparr>" by unfold_locales simp_all
interpretation ellipsis_slot: singleton_slot sg_ellipsis_v "\<lambda>ob s. s\<lparr>sg_ellipsis_v := ob\<rparr>" by unfold_locales simp_all

text \<open>The constants of a runtime: none of the four slots is wrong, or all are filled.\<close>

definition constants_ok :: "runtime \<Rightarrow> bool" where
  "constants_ok rt \<longleftrightarrow> slot_ok sg_true_v (PvBool True) rt \<and> slot_ok sg_false_v (PvBool False) rt
     \<and> slot_ok sg_none_v PvNone rt \<and> slot_ok sg_ellipsis_v PvEllipsis rt"

definition constants_set :: "runtime \<Rightarrow> bool" where
  "constants_set rt \<longleftrightarrow> slot_holds sg_true_v (PvBool True) rt \<and> slot_holds sg_false_v (PvBool False) rt
     \<and> slot_holds sg_none_v PvNone rt \<and> slot_holds sg_ellipsis_v PvEllipsis rt"

definition has_int :: "runtime \<Rightarrow> 64 word \<Rightarrow> bool" where
  "has_int rt n \<longleftrightarrow> map_of (sg_dynamic (rt_singletons rt)) (DynInt n) \<noteq> None"

lemma new_ints_idle: "(\<And>n. n \<in> set ns \<Longrightarrow> has_int rt n) \<Longrightarrow> new_ints ns rt = Inr rt"
proof (induction ns)
  case (Cons n ns)
  then obtain ob where "map_of (sg_dynamic (rt_singletons rt)) (DynInt n) = Some ob" by (auto simp: has_int_def)
  then show ?case using Cons by (simp add: new_int_def)
qed simp

lemma set_small_ints: "set small_ints = word_of_int ` {- 126..126}"
  by (simp only: small_ints_def set_map set_upto)

lemma new_ints_ok:
  "runtime_ok hash rt \<Longrightarrow> length ns \<le> rt_room rt \<Longrightarrow> \<exists>rt'. new_ints ns rt = Inr rt' \<and> runtime_ok hash rt'
    \<and> rt_heap rt \<subseteq>\<^sub>m rt_heap rt' \<and> (\<exists>d. rt_singletons rt' = (rt_singletons rt)\<lparr>sg_dynamic := d\<rparr> \<and> map_of (sg_dynamic (rt_singletons rt)) \<subseteq>\<^sub>m map_of d)
    \<and> (\<forall>n \<in> set ns. has_int rt' n)"
proof (induction ns arbitrary: rt)
  case Nil
  then show ?case by (intro exI [of _ rt] conjI exI [of _ "sg_dynamic (rt_singletons rt)"]) simp_all
next
  case (Cons n ns)
  have room: "0 < rt_room rt" using Cons.prems(2) by simp
  obtain ob rt1 d1 where 1: "new_int n rt = Inr (ob, rt1)" "runtime_ok hash rt1" "rt_room rt - 1 \<le> rt_room rt1"
    "map_of (sg_dynamic (rt_singletons rt1)) (DynInt n) = Some ob" "\<forall>ob' u. rt_heap rt ob' = Some u \<longrightarrow> rt_heap rt1 ob' = Some u"
    "rt_singletons rt1 = (rt_singletons rt)\<lparr>sg_dynamic := d1\<rparr>" "map_of (sg_dynamic (rt_singletons rt)) \<subseteq>\<^sub>m map_of d1"
    using intern_ok [OF Cons.prems(1) room is_dynamic_int new_int_conv, of n] by blast
  have "length ns \<le> rt_room rt1" using Cons.prems(2) 1(3) by simp
  from Cons.IH [OF 1(2) this] obtain rt' d where 2: "new_ints ns rt1 = Inr rt'" "runtime_ok hash rt'" "rt_heap rt1 \<subseteq>\<^sub>m rt_heap rt'"
    "rt_singletons rt' = (rt_singletons rt1)\<lparr>sg_dynamic := d\<rparr>" "map_of (sg_dynamic (rt_singletons rt1)) \<subseteq>\<^sub>m map_of d" "\<forall>n \<in> set ns. has_int rt' n"
    by blast
  have "map_of d (DynInt n) = Some ob" using 1(4) 2(5) by (auto simp: map_le_def dom_def)
  then have "has_int rt' n" using 2(4) by (simp add: has_int_def)
  moreover have "rt_heap rt \<subseteq>\<^sub>m rt_heap rt1" using 1(5) by (auto simp: map_le_def dom_def)
  then have "rt_heap rt \<subseteq>\<^sub>m rt_heap rt'" using 2(3) by (rule map_le_trans)
  moreover have "map_of (sg_dynamic (rt_singletons rt)) \<subseteq>\<^sub>m map_of d" using 1(6,7) 2(5) by (auto intro: map_le_trans)
  ultimately show ?case using 1(1,6) 2 by (intro exI [of _ rt'] conjI exI [of _ d]) simp_all
qed

text \<open>
  C34. Initialization. A runtime whose invariant holds, whose four constants are each unset or
  right and whose object space has room for 257 objects is initialized without a panic; afterwards
  the four constants hold \<open>True\<close>, \<open>False\<close>, \<open>None\<close> and \<open>...\<close>, the integers from -126 to 126 are
  interned, every object that existed is unchanged, and initializing again changes nothing.
\<close>

theorem try_init_fills_constants:
  assumes "runtime_ok hash rt" and "constants_ok rt" and "257 \<le> rt_room rt"
  shows "\<exists>rt'. try_init rt = Inr rt' \<and> runtime_ok hash rt' \<and> constants_set rt' \<and> rt_heap rt \<subseteq>\<^sub>m rt_heap rt'
    \<and> (\<forall>i. - 126 \<le> i \<and> i \<le> 126 \<longrightarrow> has_int rt' (word_of_int i)) \<and> try_init rt' = Inr rt'"
proof -
  have c: "slot_ok sg_true_v (PvBool True) rt" "slot_ok sg_false_v (PvBool False) rt" "slot_ok sg_none_v PvNone rt" "slot_ok sg_ellipsis_v PvEllipsis rt"
    using assms(2) by (simp_all add: constants_ok_def)
  obtain r1 where 1: "init_with sg_true_v (\<lambda>ob s. s\<lparr>sg_true_v := ob\<rparr>) (PvBool True) rt = Inr r1" "runtime_ok hash r1" "256 \<le> rt_room r1"
    "slot_holds sg_true_v (PvBool True) r1" "rt_heap rt \<subseteq>\<^sub>m rt_heap r1" "slot_ok sg_false_v (PvBool False) r1" "slot_ok sg_none_v PvNone r1" "slot_ok sg_ellipsis_v PvEllipsis r1"
    using true_slot.init_fills [OF assms(1) _ c(1)] assms(3) c by (fastforce intro: slot_ok_mono)
  obtain r2 where 2: "init_with sg_false_v (\<lambda>ob s. s\<lparr>sg_false_v := ob\<rparr>) (PvBool False) r1 = Inr r2" "runtime_ok hash r2" "255 \<le> rt_room r2"
    "slot_holds sg_false_v (PvBool False) r2" "rt_heap r1 \<subseteq>\<^sub>m rt_heap r2" "slot_holds sg_true_v (PvBool True) r2" "slot_ok sg_none_v PvNone r2" "slot_ok sg_ellipsis_v PvEllipsis r2"
    using false_slot.init_fills [OF 1(2) _ 1(6)] 1 by (fastforce intro: slot_ok_mono slot_holds_mono)
  obtain r3 where 3: "init_with sg_none_v (\<lambda>ob s. s\<lparr>sg_none_v := ob\<rparr>) PvNone r2 = Inr r3" "runtime_ok hash r3" "254 \<le> rt_room r3"
    "slot_holds sg_none_v PvNone r3" "rt_heap r2 \<subseteq>\<^sub>m rt_heap r3" "slot_holds sg_true_v (PvBool True) r3" "slot_holds sg_false_v (PvBool False) r3" "slot_ok sg_ellipsis_v PvEllipsis r3"
    using none_slot.init_fills [OF 2(2) _ 2(7)] 2 by (fastforce intro: slot_ok_mono slot_holds_mono)
  obtain r4 where 4: "init_with sg_ellipsis_v (\<lambda>ob s. s\<lparr>sg_ellipsis_v := ob\<rparr>) PvEllipsis r3 = Inr r4" "runtime_ok hash r4" "253 \<le> rt_room r4"
    "slot_holds sg_ellipsis_v PvEllipsis r4" "rt_heap r3 \<subseteq>\<^sub>m rt_heap r4" "slot_holds sg_true_v (PvBool True) r4" "slot_holds sg_false_v (PvBool False) r4" "slot_holds sg_none_v PvNone r4"
    using ellipsis_slot.init_fills [OF 3(2) _ 3(8)] 3 by (fastforce intro: slot_holds_mono)
  have "length small_ints \<le> rt_room r4" using 4(3) by (simp add: small_ints_def)
  from new_ints_ok [OF 4(2) this] obtain rt' d where 5: "new_ints small_ints r4 = Inr rt'" "runtime_ok hash rt'" "rt_heap r4 \<subseteq>\<^sub>m rt_heap rt'"
    "rt_singletons rt' = (rt_singletons r4)\<lparr>sg_dynamic := d\<rparr>" "\<forall>n \<in> set small_ints. has_int rt' n" by blast
  have s: "slot_holds sg_true_v (PvBool True) rt'" "slot_holds sg_false_v (PvBool False) rt'" "slot_holds sg_none_v PvNone rt'" "slot_holds sg_ellipsis_v PvEllipsis rt'"
    using slot_holds_mono [OF _ 5(3)] 4 5(4) by simp_all
  have "try_init rt = Inr rt'" by (simp add: try_init_def 1(1) 2(1) 3(1) 4(1) 5(1))
  moreover have "new_ints small_ints rt' = Inr rt'" using 5(5) by (intro new_ints_idle) blast
  then have "try_init rt' = Inr rt'" using init_with_idle [OF 5(2)] s by (simp add: try_init_def)
  moreover have "rt_heap rt \<subseteq>\<^sub>m rt_heap rt'" by (rule map_le_trans [OF 1(5) map_le_trans [OF 2(5) map_le_trans [OF 3(5) map_le_trans [OF 4(5) 5(3)]]]])
  moreover have "\<forall>i. - 126 \<le> i \<and> i \<le> 126 \<longrightarrow> has_int rt' (word_of_int i)" using 5(5) unfolding set_small_ints by simp
  ultimately show ?thesis using 5(2) s by (auto simp: constants_set_def)
qed

theorem try_init_fills_constants_witness: "\<exists>rt'. try_init new_uninit = Inr rt' \<and> constants_set rt' \<and> has_int rt' 126 \<and> try_init rt' = Inr rt'"
proof -
  have "runtime_ok (\<lambda>_. 0) new_uninit" "constants_ok new_uninit" "257 \<le> rt_room new_uninit"
    by (simp_all add: runtime_ok_def new_uninit_def space_ok_def os_new_def space_room_def singletons_default_def constants_ok_def slot_ok_def is_uninit_def)
  from try_init_fills_constants [OF this] obtain rt' where "try_init new_uninit = Inr rt'" "constants_set rt'"
    "\<forall>i. - 126 \<le> i \<and> i \<le> 126 \<longrightarrow> has_int rt' (word_of_int i)" "try_init rt' = Inr rt'" by blast
  then show ?thesis by (auto dest: spec [of _ 126])
qed

end
