(* ===== verification/Interp.thy ===== *)
theory Interp
  imports Runtime
begin

text \<open>
  The evaluator of flat code: \<^verbatim>\<open>montyc_hlirt/src/eval\<close> (the evaluation context of
  \<^verbatim>\<open>ctx/evaluator.rs\<close>, the operations shared through \<^verbatim>\<open>ctx/eval_glue.rs\<close>, the dispatcher of
  \<^verbatim>\<open>inst_exec.rs\<close>, the frames of \<^verbatim>\<open>frame.rs\<close>) and \<open>Runtime::eval\<close>.

  \<^item> An action of the evaluator takes the context and returns \<open>None\<close> when it does not return, a
    panic, or a value or Python exception with the new context.
  \<^item> Functions of the evaluator call each other in a cycle through \<open>call_object\<close> and
    \<open>exec_seq_with_frame\<close>; these two are taken from an argument of type \<open>calls\<close>, and \<open>interp n\<close>
    ties the knot with calls nested at most \<open>n\<close> deep and loops of at most \<open>n\<close> rounds.
  \<^item> The host, the hash function, and what native functions and \<open>PyObject\<close> trait objects do are
    the argument \<open>E\<close>. Its string functions are total: a host that panics on an unknown span is
    outside the model.
  \<^item> \<open>repr_object\<close> formats values for display and is left out, as is logging.
\<close>

section \<open>The context and its actions\<close>

record 'h ectx =
  ec_rt :: runtime
  ec_host :: 'h
  ec_preamble :: "(module_ref \<times> string list) list"
  ec_n_ticks :: "u64 option"
  ec_code :: flat_code
  ec_mref :: module_ref

type_synonym ('h, 'a) ev = "'h ectx \<Rightarrow> (panic + (inner_exc + 'a) \<times> 'h ectx) option"

definition ereturn :: "'a \<Rightarrow> ('h, 'a) ev" where
  "ereturn x s = Some (Inr (Inr x, s))"

definition eraise :: "inner_exc \<Rightarrow> ('h, 'a) ev" where
  "eraise e s = Some (Inr (Inl e, s))"

definition ebind :: "('h, 'a) ev \<Rightarrow> ('a \<Rightarrow> ('h, 'b) ev) \<Rightarrow> ('h, 'b) ev" where
  "ebind m f s =
     (case m s of
        None \<Rightarrow> None
      | Some (Inl p) \<Rightarrow> Some (Inl p)
      | Some (Inr (Inl e, s')) \<Rightarrow> Some (Inr (Inl e, s'))
      | Some (Inr (Inr x, s')) \<Rightarrow> f x s')"

definition erust :: "'a rust \<Rightarrow> ('h, 'a) ev" where
  "erust r s = (case r of Inl p \<Rightarrow> Some (Inl p) | Inr x \<Rightarrow> Some (Inr (Inr x, s)))"

definition eget :: "('h ectx \<Rightarrow> 'a) \<Rightarrow> ('h, 'a) ev" where
  "eget f s = Some (Inr (Inr (f s), s))"

definition eput :: "('h ectx \<Rightarrow> 'h ectx) \<Rightarrow> ('h, unit) ev" where
  "eput f s = Some (Inr (Inr (), f s))"

text \<open>An operation of the runtime.\<close>

definition ert :: "(runtime \<Rightarrow> ('a \<times> runtime) rust) \<Rightarrow> ('h, 'a) ev" where
  "ert f s =
     (case f (ec_rt s) of
        Inl p \<Rightarrow> Some (Inl p)
      | Inr (x, rt) \<Rightarrow> Some (Inr (Inr x, s\<lparr>ec_rt := rt\<rparr>)))"

definition ert_update :: "(runtime \<Rightarrow> runtime rust) \<Rightarrow> ('h, unit) ev" where
  "ert_update f = ert (\<lambda>rt. and_then (f rt) (\<lambda>rt'. Inr ((), rt')))"

definition singleton_of :: "(singletons \<Rightarrow> 'a) \<Rightarrow> ('h, 'a) ev" where
  "singleton_of f = eget (\<lambda>s. f (rt_singletons (ec_rt s)))"

text \<open>Reading an object, with a closure that may panic or give an exception.\<close>

definition read_object :: "object_id \<Rightarrow> (py_value \<Rightarrow> (inner_exc + 'a) rust) \<Rightarrow> ('h, 'a) ev" where
  "read_object ob f =
     ebind (eget (\<lambda>s. rt_objects (ec_rt s))) (\<lambda>space.
     ebind (erust (and_then (with_object ob f space) (\<lambda>r. r))) (\<lambda>r.
     case r of Inl e \<Rightarrow> eraise e | Inr x \<Rightarrow> ereturn x))"

record 'h env =
  env_hash :: "hash_key \<Rightarrow> u64"
  env_spanref_to_str :: "'h \<Rightarrow> span_ref \<Rightarrow> string"
  env_spangroup_to_str :: "'h \<Rightarrow> u32 \<Rightarrow> string"
  env_spangroup_of_hash :: "u64 \<Rightarrow> string \<Rightarrow> 'h \<Rightarrow> u32 \<times> 'h"
  env_import_module_spec :: "module_ref \<Rightarrow> span_ref list \<Rightarrow> nat \<Rightarrow> ('h, object_id) ev"
  env_accept_input :: "string \<Rightarrow> 'h \<Rightarrow> flat_code option \<times> 'h"
  env_native :: "native_id \<Rightarrow> object_id list \<Rightarrow> object_id \<Rightarrow> ('h, object_id) ev"
  env_call :: "shared_id \<Rightarrow> object_id list \<Rightarrow> object_id \<Rightarrow> ('h, object_id) ev"
  env_get_attribute :: "shared_id \<Rightarrow> object_id \<Rightarrow> ('h, object_id) ev"
  env_call_method :: "shared_id \<Rightarrow> object_id \<Rightarrow> object_id list \<Rightarrow> ('h, object_id) ev"
  env_repr :: "shared_id \<Rightarrow> ('h, object_id) ev"

section \<open>Frames\<close>

record frame_state =
  fr_object :: "object_id option"
  fr_current_inst_ix :: nat
  fr_values :: "(nat \<times> object_id) list"
  fr_locals :: "(u32 \<times> object_id) list"
  fr_mref :: "module_ref option"

definition frame_new :: "object_id option \<Rightarrow> module_ref option \<Rightarrow> frame_state" where
  "frame_new ob mref = \<lparr>fr_object = ob, fr_current_inst_ix = 0, fr_values = [], fr_locals = [], fr_mref = mref\<rparr>"

text \<open>\<open>saturating_add\<close>, at the width of \<open>usize\<close>.\<close>

definition frame_next_inst :: "frame_state \<Rightarrow> nat" where
  "frame_next_inst fr = min (fr_current_inst_ix fr + 1) (2 ^ 64 - 1)"

definition frame_value :: "frame_state \<Rightarrow> nat \<Rightarrow> object_id rust" where
  "frame_value fr ix = (case map_of (fr_values fr) ix of None \<Rightarrow> Inl IndexOutOfBounds | Some v \<Rightarrow> Inr v)"

definition put_value :: "nat \<Rightarrow> object_id \<Rightarrow> frame_state \<Rightarrow> frame_state" where
  "put_value ix v fr = fr\<lparr>fr_values := assoc_put ix v (fr_values fr)\<rparr>"

text \<open>The result of a handler: the next instruction, with the value of this one recorded.\<close>

definition yield_value :: "object_id \<Rightarrow> frame_state \<Rightarrow> ('h, nat \<times> frame_state) ev" where
  "yield_value v fr = ereturn (frame_next_inst fr, put_value (fr_current_inst_ix fr) v fr)"

section \<open>Attributes and hashing\<close>

text \<open>What the evaluator calls recursively.\<close>

record 'h calls =
  rc_call :: "object_id \<Rightarrow> object_id list \<Rightarrow> ('h, object_id) ev"
  rc_exec :: "flat_seq \<Rightarrow> frame_state \<Rightarrow> ('h, object_id) ev"

definition sequence_at :: "flat_code \<Rightarrow> nat \<Rightarrow> flat_seq rust" where
  "sequence_at code seq = (case get_at (fc_sequences code) seq of None \<Rightarrow> Inl IndexOutOfBounds | Some s \<Rightarrow> Inr s)"

definition hook_value :: "'h env \<Rightarrow> globals_hook option \<Rightarrow> object_id list \<Rightarrow> object_id \<Rightarrow> ('h, object_id) ev" where
  "hook_value E hook args none_v =
     (case hook of
        Some (HookGlobals glob) \<Rightarrow> ereturn glob
      | Some (ComputeWith f) \<Rightarrow> env_native E f args none_v
      | None \<Rightarrow> ereturn none_v)"

definition call_any_func :: "'h env \<Rightarrow> 'h calls \<Rightarrow> any_func \<Rightarrow> object_id list \<Rightarrow> ('h, object_id) ev" where
  "call_any_func E R func args =
     ebind (singleton_of sg_none_v) (\<lambda>none_v.
     case func of
       FnNative f hook \<Rightarrow> ebind (hook_value E hook args none_v) (\<lambda>globals. env_native E f args globals)
     | FnBoxed f hook \<Rightarrow> ebind (hook_value E hook args none_v) (\<lambda>globals. env_native E f args globals)
     | FnCode module seq_id \<Rightarrow>
         ebind (erust (sequence_at module seq_id)) (\<lambda>seq. rc_exec R seq (frame_new None (Some (fc_mref module)))))"

datatype defered = DeferCall object_id | DeferCallShared shared_id | DeferCallable any_func

text \<open>\<open>SharedObject\<close> does not forward \<open>hash\<close>: the default of the trait raises.\<close>

definition shared_hash :: "shared_id \<Rightarrow> ('h, object_id) ev" where
  "shared_hash ob = eraise NotImplementedError"

definition hash_step :: "(hash_key \<Rightarrow> u64) \<Rightarrow> object_id \<Rightarrow> py_value \<Rightarrow> (inner_exc + (defered + u64)) rust" where
  "hash_step hash ob this =
     (case this of
        PvAny raw \<Rightarrow> (case py_dict_get (ro_dict raw) (hash (HStr ''__hash__'')) of
            Some (_, hash_method) \<Rightarrow> Inr (Inr (Inl (DeferCall hash_method)))
          | None \<Rightarrow> Inr (Inr (Inr (hash (HObject ob)))))
      | PvInt n \<Rightarrow> Inr (Inr (Inr (hash (HInt n))))
      | PvFloat n \<Rightarrow> Inr (Inr (Inr (hash (HFloat n))))
      | PvBool b \<Rightarrow> Inr (Inr (Inr (hash (HBool b))))
      | PvBytes b \<Rightarrow> Inr (Inr (Inr (hash (HBytes b))))
      | PvStr s \<Rightarrow> Inr (Inr (Inr (hash (HStr s))))
      | PvList _ \<Rightarrow> Inl TodoMacro
      | PvDict _ \<Rightarrow> Inl TodoMacro
      | PvDynamic d \<Rightarrow> Inr (Inr (Inl (DeferCallShared d)))
      | PvCallable f \<Rightarrow> Inr (Inr (Inl (DeferCallable f)))
      | _ \<Rightarrow> Inr (Inr (Inr (hash (HObject ob)))))"

definition hash_object :: "'h env \<Rightarrow> 'h calls \<Rightarrow> object_id \<Rightarrow> ('h, u64) ev" where
  "hash_object E R ob =
     ebind (read_object ob (hash_step (env_hash E) ob)) (\<lambda>r. case r of
       Inr h \<Rightarrow> ereturn h
     | Inl d \<Rightarrow>
         ebind (case d of
             DeferCall method \<Rightarrow> rc_call R method []
           | DeferCallShared shared \<Rightarrow> shared_hash shared
           | DeferCallable f \<Rightarrow> call_any_func E R f []) (\<lambda>_.
         read_object ob (\<lambda>v. case v of
             PvInt n \<Rightarrow> Inr (Inr n)
           | PvBool b \<Rightarrow> Inr (Inr (if b then 1 else 0))
           | _ \<Rightarrow> Inr (Inl ExcTypeError))))"

text \<open>The elements an object is iterated over.\<close>

definition iter_object :: "object_id \<Rightarrow> ('h, object_id list) ev" where
  "iter_object ob =
     read_object ob (\<lambda>this. case this of
       PvDynamic _ \<Rightarrow> Inl TodoMacro
     | PvAny _ \<Rightarrow> Inl TodoMacro
     | PvBytes _ \<Rightarrow> Inl TodoMacro
     | PvStr _ \<Rightarrow> Inl TodoMacro
     | PvList xs \<Rightarrow> Inr (Inr xs)
     | PvDict d \<Rightarrow> Inr (Inr (map (\<lambda>(_, k, _). k) d))
     | PvCallable _ \<Rightarrow> Inl TodoMacro
     | _ \<Rightarrow> Inr (Inr []))"

definition getattr_object :: "object_id \<Rightarrow> object_id \<Rightarrow> ('h, object_id) ev" where
  "getattr_object ob attr = read_object ob (\<lambda>_. Inl TodoMacro)"

definition direct_hash :: "object_id \<Rightarrow> u64 \<Rightarrow> py_value \<Rightarrow> (inner_exc + object_id \<times> object_id) rust" where
  "direct_hash ob h this =
     and_then (case this of
         PvModule _ inner \<Rightarrow> Inr (py_dict_get (ro_dict inner) h)
       | PvAny inner \<Rightarrow> Inr (py_dict_get (ro_dict inner) h)
       | PvFunction _ _ _ _ inner \<Rightarrow> Inr (py_dict_get (ro_dict inner) h)
       | PvClass _ _ inner \<Rightarrow> Inr (py_dict_get (ro_dict inner) h)
       | PvDict inner \<Rightarrow> Inr (py_dict_get inner h)
       | PvNone \<Rightarrow> Inr None
       | _ \<Rightarrow> Inl TodoMacro) (\<lambda>found.
     Inr (case found of None \<Rightarrow> Inl (AttributeError ob h) | Some kv \<Rightarrow> Inr kv))"

definition getattr_direct_hash :: "object_id \<Rightarrow> u64 \<Rightarrow> ('h, object_id \<times> object_id) ev" where
  "getattr_direct_hash ob h = read_object ob (direct_hash ob h)"

definition put_attr :: "u64 \<Rightarrow> object_id \<times> object_id \<Rightarrow> py_value \<Rightarrow> py_value rust" where
  "put_attr h kv this =
     (case this of
        PvModule k inner \<Rightarrow> Inr (PvModule k (inner\<lparr>ro_dict := assoc_put h kv (ro_dict inner)\<rparr>))
      | PvAny inner \<Rightarrow> Inr (PvAny (inner\<lparr>ro_dict := assoc_put h kv (ro_dict inner)\<rparr>))
      | PvFunction b ps p r inner \<Rightarrow> Inr (PvFunction b ps p r (inner\<lparr>ro_dict := assoc_put h kv (ro_dict inner)\<rparr>))
      | PvClass n p inner \<Rightarrow> Inr (PvClass n p (inner\<lparr>ro_dict := assoc_put h kv (ro_dict inner)\<rparr>))
      | _ \<Rightarrow> Inl TodoMacro)"

definition setattr :: "'h env \<Rightarrow> 'h calls \<Rightarrow> object_id \<Rightarrow> object_id \<Rightarrow> object_id \<Rightarrow> ('h, unit) ev" where
  "setattr E R ob key v =
     ebind (hash_object E R key) (\<lambda>h.
     ert_update (rt_update ob (put_attr h (key, v))))"

datatype any_attr = AttrStr string | AttrObj object_id

definition attr_to_object :: "'h env \<Rightarrow> any_attr \<Rightarrow> ('h, object_id) ev" where
  "attr_to_object E attr = (case attr of AttrStr s \<Rightarrow> ert (new_string (env_hash E) s) | AttrObj ob \<Rightarrow> ereturn ob)"

text \<open>\<open>unwrap\<close> on the result of an action.\<close>

definition eunwrap :: "('h, 'a) ev \<Rightarrow> ('h, 'a) ev" where
  "eunwrap m s = (case m s of Some (Inr (Inl e, s')) \<Rightarrow> Some (Inl UnwrapNone) | r \<Rightarrow> r)"

definition attr_to_hash :: "'h env \<Rightarrow> 'h calls \<Rightarrow> any_attr \<Rightarrow> ('h, u64) ev" where
  "attr_to_hash E R attr = (case attr of AttrStr s \<Rightarrow> ereturn (env_hash E (HStr s)) | AttrObj ob \<Rightarrow> eunwrap (hash_object E R ob))"

fun getattr :: "'h env \<Rightarrow> 'h calls \<Rightarrow> object_id \<Rightarrow> any_attr list \<Rightarrow> ('h, object_id) ev" where
  "getattr E R object [] = ereturn object"
| "getattr E R object (attr # attrs) =
     ebind (read_object object (\<lambda>this. Inr (Inr (case this of PvDynamic n \<Rightarrow> Some n | _ \<Rightarrow> None)))) (\<lambda>as_shared.
     ebind (case as_shared of
         Some obj \<Rightarrow> ebind (attr_to_object E attr) (\<lambda>a. env_get_attribute E obj a)
       | None \<Rightarrow> ebind (attr_to_hash E R attr) (\<lambda>h. ebind (getattr_direct_hash object h) (\<lambda>(_, v). ereturn v))) (\<lambda>object'.
     getattr E R object' attrs))"

section \<open>Variables\<close>

definition define_var ::
  "'h env \<Rightarrow> 'h calls \<Rightarrow> frame_state \<Rightarrow> u32 \<Rightarrow> object_id \<Rightarrow> ('h, object_id option \<times> frame_state) ev" where
  "define_var E R fr var v =
     ebind (case fr_object fr of
         Some object \<Rightarrow>
           ebind (eget (\<lambda>s. env_spangroup_to_str E (ec_host s) var)) (\<lambda>k.
           ebind (ert (new_string (env_hash E) k)) (\<lambda>k.
           setattr E R object k v))
       | None \<Rightarrow> ereturn ()) (\<lambda>_.
     ereturn (map_of (fr_locals fr) var, fr\<lparr>fr_locals := assoc_put var v (fr_locals fr)\<rparr>))"

definition lookup_next :: "object_id \<Rightarrow> span_ref \<Rightarrow> object_id \<Rightarrow> py_value \<Rightarrow> (inner_exc + object_id) rust" where
  "lookup_next frame_object var this val =
     (case val of
        PvModule _ _ \<Rightarrow> Inr (Inl (NameError var))
      | PvClass _ None _ \<Rightarrow> Inr (Inl (NameError var))
      | PvClass _ (Some parent) _ \<Rightarrow>
          (if this = parent then Inr (Inl (NameError var))
           else Inr (Inr (if this = frame_object then parent else this)))
      | _ \<Rightarrow> Inl UnreachableCode)"

partial_function (option) lookup_loop ::
  "object_space \<Rightarrow> object_id \<Rightarrow> span_ref \<Rightarrow> u64 \<Rightarrow> object_id \<Rightarrow> (panic + inner_exc + object_id) option" where
  "lookup_loop space frame_object var attr this =
     (case and_then (with_object this (lookup_next frame_object var this) space) (\<lambda>r. r) of
        Inl p \<Rightarrow> Some (Inl p)
      | Inr (Inl e) \<Rightarrow> Some (Inr (Inl e))
      | Inr (Inr next) \<Rightarrow>
          (case and_then (with_object next (direct_hash next attr) space) (\<lambda>r. r) of
             Inl p \<Rightarrow> Some (Inl p)
           | Inr (Inr kv) \<Rightarrow> Some (Inr (Inr (snd kv)))
           | Inr (Inl _) \<Rightarrow> lookup_loop space frame_object var attr next))"

definition lookup :: "'h env \<Rightarrow> frame_state \<Rightarrow> span_ref \<Rightarrow> ('h, object_id) ev" where
  "lookup E fr var s =
     (case map_of (fr_locals fr) (span_group var) of
        Some ob \<Rightarrow> Some (Inr (Inr ob, s))
      | None \<Rightarrow>
          (let frame_object = (case fr_object fr of Some ob \<Rightarrow> ob | None \<Rightarrow> sg_builtins (rt_singletons (ec_rt s)));
               attr = env_hash E (HStr (env_spanref_to_str E (ec_host s) var)) in
           case lookup_loop (rt_objects (ec_rt s)) frame_object var attr frame_object of
             None \<Rightarrow> None
           | Some (Inl p) \<Rightarrow> Some (Inl p)
           | Some (Inr r) \<Rightarrow> Some (Inr (r, s))))"

section \<open>Calls\<close>

fun bind_arguments ::
  "'h env \<Rightarrow> 'h calls \<Rightarrow> nat \<Rightarrow> ((span_ref \<times> object_id option) \<times> object_id) list \<Rightarrow> frame_state \<Rightarrow> ('h, frame_state) ev" where
  "bind_arguments E R n [] fr = ereturn fr"
| "bind_arguments E R n (((p, _), a) # ps) fr =
     ebind (define_var E R fr (span_group p) a) (\<lambda>(_, fr').
     bind_arguments E R (n + 1) ps (put_value n a fr'))"

definition callable_of :: "py_value \<Rightarrow> (inner_exc + py_value) rust" where
  "callable_of this =
     (case this of
        PvDynamic _ \<Rightarrow> Inr (Inr this)
      | PvCallable _ \<Rightarrow> Inr (Inr this)
      | PvFunction _ _ _ _ _ \<Rightarrow> Inr (Inr this)
      | _ \<Rightarrow> Inr (Inl ExcTypeError))"

definition code_of :: "any_func \<Rightarrow> (flat_code \<times> nat) rust" where
  "code_of f = (case f of FnCode m seq \<Rightarrow> Inr (m, seq) | _ \<Rightarrow> Inl UnwrapNone)"

definition call_object :: "'h env \<Rightarrow> 'h calls \<Rightarrow> object_id \<Rightarrow> object_id list \<Rightarrow> ('h, object_id) ev" where
  "call_object E R callable args =
     ebind (read_object callable callable_of) (\<lambda>callable.
     ebind (singleton_of sg_none_v) (\<lambda>none_v.
     case callable of
       PvDynamic obj \<Rightarrow> env_call E obj args none_v
     | PvCallable func \<Rightarrow> call_any_func E R func args
     | PvFunction body params _ _ _ \<Rightarrow>
         ebind (erust (code_of body)) (\<lambda>(module, seq_id).
         ebind (erust (sequence_at module seq_id)) (\<lambda>seq.
         ebind (bind_arguments E R 0 (zip params args) (frame_new None (Some (fc_mref module)))) (\<lambda>fr.
         rc_exec R seq fr)))
     | _ \<Rightarrow> erust (Inl UnreachableCode)))"

definition shared_call_method :: "'h env \<Rightarrow> shared_id \<Rightarrow> object_id \<Rightarrow> object_id list \<Rightarrow> ('h, object_id) ev" where
  "shared_call_method E ob name args =
     ebind (ert (new_string (env_hash E) ''__repr__'')) (\<lambda>repr.
     if name = repr then env_repr E ob else env_call_method E ob name args)"

definition call_method_object :: "'h env \<Rightarrow> object_id \<Rightarrow> object_id \<Rightarrow> object_id list \<Rightarrow> ('h, object_id) ev" where
  "call_method_object E object method args =
     ebind (read_object object (\<lambda>this. case this of PvDynamic obj \<Rightarrow> Inr (Inr obj) | _ \<Rightarrow> Inl TodoMacro)) (\<lambda>obj.
     shared_call_method E obj method args)"

section \<open>Imports\<close>

text \<open>The dictionary of a module loaded from a spec.\<close>

definition module_init_dict ::
  "(hash_key \<Rightarrow> u64) \<Rightarrow> object_id \<Rightarrow> object_id \<Rightarrow> object_id \<Rightarrow> object_id \<Rightarrow> runtime \<Rightarrow> ((object_id \<times> object_id) py_dict \<times> runtime) rust" where
  "module_init_dict hash name none_v loader spec rt =
     and_then (make_kv_pair hash ''__name__'' (\<lambda>rt. Inr (name, rt)) rt) (\<lambda>(a, rt).
     and_then (make_kv_pair hash ''__doc__'' (\<lambda>rt. Inr (none_v, rt)) rt) (\<lambda>(b, rt).
     and_then (make_kv_pair hash ''__loader__'' (\<lambda>rt. Inr (loader, rt)) rt) (\<lambda>(c, rt).
     and_then (make_kv_pair hash ''__spec__'' (\<lambda>rt. Inr (spec, rt)) rt) (\<lambda>(d, rt).
     Inr (put_attrs [a, b, c, d] [], rt)))))"

definition put_metadata :: "module_ref \<Rightarrow> module_metadata \<Rightarrow> runtime \<Rightarrow> runtime" where
  "put_metadata mref meta rt = rt\<lparr>rt_module_objects := assoc_put mref meta (rt_module_objects rt)\<rparr>"

definition accept_input :: "'h env \<Rightarrow> string \<Rightarrow> ('h, flat_code option) ev" where
  "accept_input E source s = (case env_accept_input E source (ec_host s) of (r, h) \<Rightarrow> Some (Inr (Inr r, s\<lparr>ec_host := h\<rparr>)))"

definition compile_from_spec :: "'h env \<Rightarrow> 'h calls \<Rightarrow> object_id \<Rightarrow> ('h, object_id) ev" where
  "compile_from_spec E R spec =
     ebind (getattr E R spec [AttrStr ''name'']) (\<lambda>name.
     ebind (getattr E R spec [AttrStr ''loader'']) (\<lambda>loader.
     ebind (ert (new_string (env_hash E) ''get_data'')) (\<lambda>get_data.
     ebind (call_method_object E loader get_data []) (\<lambda>source.
     ebind (read_object source (\<lambda>this. case this of PvStr st \<Rightarrow> Inr (Inr st) | _ \<Rightarrow> Inl UnreachableCode)) (\<lambda>source.
     ebind (accept_input E source) (\<lambda>code.
     ebind (erust (unwrap code)) (\<lambda>code.
     ebind (singleton_of sg_none_v) (\<lambda>none_v.
     ebind (ert (module_init_dict (env_hash E) name none_v loader spec)) (\<lambda>dict.
     ebind (singleton_of sg_module_class) (\<lambda>module_class.
     ebind (ert (rt_insert_with (\<lambda>_. PvModule (MkUser (fc_mref code)) (raw_object_default\<lparr>ro_dict := dict, ro_class := module_class\<rparr>)))) (\<lambda>module.
     ebind (ert_update (\<lambda>rt. Inr (put_metadata (fc_mref code) \<lparr>mm_alloc = module, mm_mref = fc_mref code, mm_code = Some code\<rparr> rt))) (\<lambda>_.
     ereturn module))))))))))))"

definition import_module :: "'h env \<Rightarrow> 'h calls \<Rightarrow> module_ref \<Rightarrow> span_ref list \<Rightarrow> nat \<Rightarrow> ('h, object_id) ev" where
  "import_module E R mref path relative =
     ebind (env_import_module_spec E mref path relative) (\<lambda>spec.
     ebind (singleton_of sg_module_class) (\<lambda>module.
     ebind (ebind (eget ec_rt) (\<lambda>rt. erust (class_of rt spec))) (\<lambda>klass.
     if klass = module then ebind (erust (assert_that (spec \<noteq> object_id_default))) (\<lambda>_. ereturn spec)
     else compile_from_spec E R spec)))"

section \<open>Instructions\<close>

definition ref_as_str :: "'h env \<Rightarrow> frame_state \<Rightarrow> span_ref \<Rightarrow> ('h, nat \<times> frame_state) ev" where
  "ref_as_str E fr r =
     ebind (eget (\<lambda>s. env_spanref_to_str E (ec_host s) r)) (\<lambda>st.
     ebind (ert (new_string (env_hash E) st)) (\<lambda>st.
     yield_value st fr))"

definition class_inst :: "'h env \<Rightarrow> 'h calls \<Rightarrow> frame_state \<Rightarrow> span_ref \<Rightarrow> ('h, nat \<times> frame_state) ev" where
  "class_inst E R fr name =
     ebind (ert (rt_insert (PvClass (Some name) (fr_object fr) raw_object_default))) (\<lambda>class_obj.
     ebind (define_var E R fr (span_group name) class_obj) (\<lambda>(_, fr').
     yield_value class_obj fr'))"

fun frame_values :: "frame_state \<Rightarrow> nat list \<Rightarrow> object_id list rust" where
  "frame_values fr [] = Inr []"
| "frame_values fr (ix # ixs) = and_then (frame_value fr ix) (\<lambda>v. and_then (frame_values fr ixs) (\<lambda>vs. Inr (v # vs)))"

definition call_inst :: "'h env \<Rightarrow> 'h calls \<Rightarrow> frame_state \<Rightarrow> nat \<Rightarrow> nat list \<Rightarrow> ('h, nat \<times> frame_state) ev" where
  "call_inst E R fr callable args =
     ebind (erust (frame_value fr callable)) (\<lambda>callable.
     ebind (erust (frame_values fr args)) (\<lambda>args.
     ebind (call_object E R callable args) (\<lambda>rv.
     yield_value rv fr)))"

definition get_attribute :: "'h env \<Rightarrow> 'h calls \<Rightarrow> frame_state \<Rightarrow> nat \<Rightarrow> nat \<Rightarrow> ('h, nat \<times> frame_state) ev" where
  "get_attribute E R fr object attr =
     ebind (erust (frame_value fr attr)) (\<lambda>attr.
     ebind (erust (frame_value fr object)) (\<lambda>object.
     ebind (getattr E R object [AttrObj attr]) (\<lambda>v.
     yield_value v fr)))"

definition phi_jump :: "frame_state \<Rightarrow> nat \<Rightarrow> nat \<Rightarrow> ('h, nat \<times> frame_state) ev" where
  "phi_jump fr recv v = ebind (erust (frame_value fr v)) (\<lambda>v. ereturn (recv, put_value recv v fr))"

definition if_inst :: "frame_state \<Rightarrow> nat \<Rightarrow> nat option \<Rightarrow> nat option \<Rightarrow> ('h, nat \<times> frame_state) ev" where
  "if_inst fr test truthy falsey =
     ebind (erust (frame_value fr test)) (\<lambda>test.
     ebind (singleton_of (\<lambda>sg. (sg_true_v sg, sg_false_v sg))) (\<lambda>(true_v, false_v).
     ebind (if test = true_v then ereturn truthy
            else ebind (erust (assert_that (test = false_v))) (\<lambda>_. ereturn falsey)) (\<lambda>branch.
     ereturn (case branch of Some dst \<Rightarrow> dst | None \<Rightarrow> fr_current_inst_ix fr + 1, fr))))"

fun frame_params :: "frame_state \<Rightarrow> (span_ref \<times> nat option) list \<Rightarrow> (span_ref \<times> object_id option) list rust" where
  "frame_params fr [] = Inr []"
| "frame_params fr ((var, ann) # ps) =
     and_then (case ann of None \<Rightarrow> Inr None | Some ix \<Rightarrow> and_then (frame_value fr ix) (\<lambda>v. Inr (Some v))) (\<lambda>a.
     and_then (frame_params fr ps) (\<lambda>rest.
     Inr ((var, a) # rest)))"

definition put_function_attr :: "u64 \<Rightarrow> object_id \<times> object_id \<Rightarrow> py_value \<Rightarrow> py_value rust" where
  "put_function_attr h kv v =
     (case v of
        PvFunction b ps p r inner \<Rightarrow> Inr (PvFunction b ps p r (inner\<lparr>ro_dict := assoc_put h kv (ro_dict inner)\<rparr>))
      | _ \<Rightarrow> Inl UnreachableCode)"

definition define_fn ::
  "'h env \<Rightarrow> 'h calls \<Rightarrow> frame_state \<Rightarrow> span_ref \<Rightarrow> (span_ref \<times> nat option) list \<Rightarrow> nat option \<Rightarrow> nat \<Rightarrow> ('h, nat \<times> frame_state) ev" where
  "define_fn E R fr name params returns seq_id =
     ebind (eget ec_code) (\<lambda>module.
     ebind (erust (case returns of None \<Rightarrow> Inr None | Some ix \<Rightarrow> and_then (frame_value fr ix) (\<lambda>v. Inr (Some v)))) (\<lambda>returns.
     ebind (erust (frame_params fr params)) (\<lambda>params.
     ebind (ert (new_function (FnCode module seq_id) params returns)) (\<lambda>func_obj.
     ebind (define_var E R fr (span_group name) func_obj) (\<lambda>(_, fr').
     ebind (eget (\<lambda>s. env_spanref_to_str E (ec_host s) name)) (\<lambda>name_as_str.
     ebind (ert (new_string (env_hash E) name_as_str)) (\<lambda>name_str_obj.
     ebind (ert (new_string (env_hash E) ''__name__'')) (\<lambda>name_slot.
     ebind (ert_update (rt_update func_obj (put_function_attr (env_hash E (HStr ''__name__'')) (name_slot, name_str_obj)))) (\<lambda>_.
     yield_value func_obj fr')))))))))"

definition set_var :: "'h env \<Rightarrow> 'h calls \<Rightarrow> frame_state \<Rightarrow> span_ref \<Rightarrow> nat \<Rightarrow> ('h, nat \<times> frame_state) ev" where
  "set_var E R fr var v =
     ebind (erust (frame_value fr v)) (\<lambda>v.
     ebind (define_var E R fr (span_group var) v) (\<lambda>(_, fr').
     ereturn (frame_next_inst fr', fr')))"

definition use_var :: "'h env \<Rightarrow> frame_state \<Rightarrow> span_ref \<Rightarrow> ('h, nat \<times> frame_state) ev" where
  "use_var E fr var = ebind (lookup E fr var) (\<lambda>v. yield_value v fr)"

definition import_inst :: "'h env \<Rightarrow> 'h calls \<Rightarrow> frame_state \<Rightarrow> span_ref list \<Rightarrow> nat \<Rightarrow> ('h, nat \<times> frame_state) ev" where
  "import_inst E R fr path relative =
     ebind (eget (\<lambda>s. case fr_mref fr of Some m \<Rightarrow> m | None \<Rightarrow> ec_mref s)) (\<lambda>mref.
     ebind (import_module E R mref path relative) (\<lambda>module.
     yield_value module fr))"

definition return_inst :: "frame_state \<Rightarrow> nat \<Rightarrow> ('h, nat \<times> frame_state) ev" where
  "return_inst fr v = ebind (erust (frame_value fr v)) (\<lambda>object. eraise (ExcReturn object))"

definition const_inst :: "'h env \<Rightarrow> frame_state \<Rightarrow> const \<Rightarrow> ('h, nat \<times> frame_state) ev" where
  "const_inst E fr cst =
     ebind (case cst of
         CNone \<Rightarrow> singleton_of sg_none_v
       | CEllipsis \<Rightarrow> singleton_of sg_ellipsis_v
       | CInt n \<Rightarrow> ert (new_int n)
       | CFloat _ \<Rightarrow> erust (Inl TodoMacro)
       | CBool b \<Rightarrow> singleton_of (if b then sg_true_v else sg_false_v)
       | CString st \<Rightarrow> ebind (eget (\<lambda>s. env_spanref_to_str E (ec_host s) st)) (\<lambda>st. ert (new_string (env_hash E) st))) (\<lambda>v.
     yield_value v fr)"

definition set_dunder :: "'h env \<Rightarrow> 'h calls \<Rightarrow> frame_state \<Rightarrow> nat \<Rightarrow> dunder \<Rightarrow> nat \<Rightarrow> ('h, nat \<times> frame_state) ev" where
  "set_dunder E R fr object dunder v =
     ebind (erust (frame_value fr object)) (\<lambda>object.
     ebind (erust (frame_value fr v)) (\<lambda>v.
     case dunder of
       DocComment \<Rightarrow>
         ebind (ert (new_string (env_hash E) ''__doc__'')) (\<lambda>doc.
         ebind (setattr E R object doc v) (\<lambda>_.
         ereturn (frame_next_inst fr, fr)))
     | _ \<Rightarrow> erust (Inl TodoMacro)))"

definition build_class :: "'h env \<Rightarrow> 'h calls \<Rightarrow> frame_state \<Rightarrow> nat \<Rightarrow> nat \<Rightarrow> ('h, nat \<times> frame_state) ev" where
  "build_class E R fr sequence klass =
     ebind (erust (frame_value fr klass)) (\<lambda>klass.
     ebind (eget ec_code) (\<lambda>code.
     ebind (erust (sequence_at code sequence)) (\<lambda>seq.
     ebind (erust (assert_that (fs_kind seq = SeqClass))) (\<lambda>_.
     ebind (rc_exec R seq (frame_new (Some klass) (fr_mref fr))) (\<lambda>_.
     ereturn (frame_next_inst fr, fr))))))"

definition exec_inst :: "'h env \<Rightarrow> 'h calls \<Rightarrow> frame_state \<Rightarrow> raw_inst \<Rightarrow> ('h, nat \<times> frame_state) ev" where
  "exec_inst E R fr op =
     (case op of
        SetAnnotation _ _ \<Rightarrow> ereturn (frame_next_inst fr, fr)
      | TupleInst _ \<Rightarrow> erust (Inl TodoMacro)
      | Undefined \<Rightarrow> erust (Inl TodoMacro)
      | BuildClass sequence klass \<Rightarrow> build_class E R fr sequence klass
      | UseVar v \<Rightarrow> use_var E fr v
      | SetVar v val \<Rightarrow> set_var E R fr v val
      | IfInst test truthy falsey \<Rightarrow> if_inst fr test truthy falsey
      | Br to \<Rightarrow> ereturn (to, fr)
      | ConstInst cst \<Rightarrow> const_inst E fr cst
      | PhiJump recv val \<Rightarrow> phi_jump fr recv val
      | PhiRecv \<Rightarrow> ereturn (frame_next_inst fr, fr)
      | Nop \<Rightarrow> ereturn (frame_next_inst fr, fr)
      | JumpTarget \<Rightarrow> ereturn (frame_next_inst fr, fr)
      | ReturnInst val \<Rightarrow> return_inst fr val
      | SetDunder object dunder val \<Rightarrow> set_dunder E R fr object dunder val
      | GetDunder _ _ \<Rightarrow> erust (Inl TodoMacro)
      | Defn name params returns seq_id \<Rightarrow> define_fn E R fr name params returns seq_id
      | Class name \<Rightarrow> class_inst E R fr name
      | CallInst callable args \<Rightarrow> call_inst E R fr callable args
      | GetAttribute object attr \<Rightarrow> get_attribute E R fr object attr
      | SetAttribute _ _ _ \<Rightarrow> erust (Inl TodoMacro)
      | ImportInst path relative \<Rightarrow> import_inst E R fr path relative
      | RefAsStr r \<Rightarrow> ref_as_str E fr r)"

section \<open>The loops\<close>

text \<open>\<open>NonZeroU64::new\<close>.\<close>

definition nonzero :: "u64 \<Rightarrow> u64 option" where
  "nonzero n = (if n = 0 then None else Some n)"

definition tick :: "('h, unit) ev" where
  "tick s =
     (case ec_n_ticks s of
        None \<Rightarrow> Some (Inr (Inr (), s))
      | Some n \<Rightarrow>
          (if n = 1 then Some (Inr (Inl ExceededTicks, s))
           else Some (Inr (Inr (), s\<lparr>ec_n_ticks := nonzero (if n = 0 then 0 else n - 1)\<rparr>))))"

text \<open>One round: execute the current instruction, then count it.\<close>

definition exec_round :: "'h env \<Rightarrow> 'h calls \<Rightarrow> flat_inst \<Rightarrow> frame_state \<Rightarrow> ('h, frame_state) ev" where
  "exec_round E R i fr =
     ebind (exec_inst E R fr (fi_op i)) (\<lambda>(ip, fr').
     ebind tick (\<lambda>_. ereturn (fr'\<lparr>fr_current_inst_ix := ip\<rparr>)))"

text \<open>A \<open>Return\<close> ends the sequence with its value. \<open>tick\<close> never raises \<open>Return\<close>.\<close>

definition ecatch_return :: "(object_id \<Rightarrow> ('h, 'a) ev) \<Rightarrow> ('h, 'a) ev \<Rightarrow> ('h, 'a) ev" where
  "ecatch_return f m s = (case m s of Some (Inr (Inl (ExcReturn rv), s')) \<Rightarrow> f rv s' | r \<Rightarrow> r)"

fun exec_loop :: "'h env \<Rightarrow> 'h calls \<Rightarrow> nat \<Rightarrow> flat_seq \<Rightarrow> frame_state \<Rightarrow> ('h, unit) ev" where
  "exec_loop E R 0 seq fr = (\<lambda>s. None)"
| "exec_loop E R (Suc n) seq fr =
     (case get_at (fs_inst seq) (fr_current_inst_ix fr) of
        None \<Rightarrow> ereturn ()
      | Some i \<Rightarrow> ebind (exec_round E R i fr) (\<lambda>fr'. exec_loop E R n seq fr'))"

definition exec_seq_with_frame :: "'h env \<Rightarrow> 'h calls \<Rightarrow> nat \<Rightarrow> flat_seq \<Rightarrow> frame_state \<Rightarrow> ('h, object_id) ev" where
  "exec_seq_with_frame E R n seq fr =
     ecatch_return ereturn (ebind (exec_loop E R n seq fr) (\<lambda>_. singleton_of sg_none_v))"

text \<open>The knot.\<close>

primrec interp :: "'h env \<Rightarrow> nat \<Rightarrow> 'h calls" where
  "interp E 0 = \<lparr>rc_call = (\<lambda>_ _ _. None), rc_exec = (\<lambda>_ _ _. None)\<rparr>"
| "interp E (Suc n) = \<lparr>rc_call = call_object E (interp E n), rc_exec = exec_seq_with_frame E (interp E n) n\<rparr>"

section \<open>Evaluating a module\<close>

definition host_spangroup_of_hash :: "'h env \<Rightarrow> u64 \<Rightarrow> string \<Rightarrow> ('h, u32) ev" where
  "host_spangroup_of_hash E h name s = (case env_spangroup_of_hash E h name (ec_host s) of (g, host) \<Rightarrow> Some (Inr (Inr g, s\<lparr>ec_host := host\<rparr>)))"

definition define_named :: "'h env \<Rightarrow> 'h calls \<Rightarrow> u64 \<Rightarrow> string \<Rightarrow> object_id \<Rightarrow> frame_state \<Rightarrow> ('h, frame_state) ev" where
  "define_named E R h name v fr =
     ebind (host_spangroup_of_hash E h name) (\<lambda>g.
     ebind (define_var E R fr g v) (\<lambda>(_, fr'). ereturn fr'))"

fun define_classes :: "'h env \<Rightarrow> 'h calls \<Rightarrow> (string \<times> object_id) list \<Rightarrow> frame_state \<Rightarrow> ('h, frame_state) ev" where
  "define_classes E R [] fr = ereturn fr"
| "define_classes E R ((name, v) # vs) fr =
     (if is_uninit v then define_classes E R vs fr
      else ebind (define_named E R (env_hash E (HStr name)) name v fr) (define_classes E R vs))"

fun define_builtins :: "'h env \<Rightarrow> 'h calls \<Rightarrow> (object_id \<times> object_id) py_dict \<Rightarrow> frame_state \<Rightarrow> ('h, frame_state) ev" where
  "define_builtins E R [] fr = ereturn fr"
| "define_builtins E R ((h, key, v) # d) fr =
     ebind (read_object key (\<lambda>k. case k of PvStr st \<Rightarrow> Inr (Inr st) | _ \<Rightarrow> Inl UnreachableCode)) (\<lambda>name.
     ebind (define_named E R h name v fr) (define_builtins E R d))"

definition setup_builtins :: "'h env \<Rightarrow> 'h calls \<Rightarrow> frame_state \<Rightarrow> ('h, frame_state) ev" where
  "setup_builtins E R fr =
     ebind (singleton_of (\<lambda>sg. sg)) (\<lambda>sg.
     if is_uninit (sg_none_v sg) then ereturn fr
     else if is_uninit (sg_builtins sg)
     then define_classes E R [(''int'', sg_int_class sg), (''bool'', sg_bool_class sg), (''str'', sg_string_class sg)] fr
     else if sg_builtins sg \<noteq> sg_none_v sg
     then ebind (read_object (sg_builtins sg) (\<lambda>b. case b of PvModule _ inner \<Rightarrow> Inr (Inr (ro_dict inner)) | _ \<Rightarrow> Inl UnreachableCode))
            (\<lambda>d. define_builtins E R d fr)
     else ereturn fr)"

fun import_names :: "'h env \<Rightarrow> 'h calls \<Rightarrow> object_id \<Rightarrow> string list \<Rightarrow> frame_state \<Rightarrow> ('h, frame_state) ev" where
  "import_names E R module [] fr = ereturn fr"
| "import_names E R module (name # names) fr =
     ebind (eunwrap (getattr_direct_hash module (env_hash E (HStr name)))) (\<lambda>(_, v).
     ebind (define_named E R (env_hash E (HStr name)) name v fr) (import_names E R module names))"

definition module_alloc :: "module_ref \<Rightarrow> ('h, object_id) ev" where
  "module_alloc mref =
     ebind (eget (\<lambda>s. map_of (rt_module_objects (ec_rt s)) mref)) (\<lambda>m.
     case m of None \<Rightarrow> erust (Inl TodoMacro) | Some meta \<Rightarrow> ereturn (mm_alloc meta))"

fun run_preamble :: "'h env \<Rightarrow> 'h calls \<Rightarrow> (module_ref \<times> string list) list \<Rightarrow> frame_state \<Rightarrow> ('h, frame_state) ev" where
  "run_preamble E R [] fr = ereturn fr"
| "run_preamble E R ((mref, names) # rest) fr =
     ebind (module_alloc mref) (\<lambda>module.
     ebind (import_names E R module names fr) (run_preamble E R rest))"

definition run_until_complete :: "'h env \<Rightarrow> nat \<Rightarrow> ('h, object_id) ev" where
  "run_until_complete E n =
     ebind (eget ec_code) (\<lambda>code.
     ebind (module_alloc (fc_mref code)) (\<lambda>module.
     case fc_sequences code of
       [] \<Rightarrow> ereturn module
     | module_seq # _ \<Rightarrow>
         ebind (eget ec_preamble) (\<lambda>preamble.
         ebind (eput (\<lambda>s. s\<lparr>ec_preamble := []\<rparr>)) (\<lambda>_.
         ebind (setup_builtins E (interp E n) (frame_new (Some module) (Some (fc_mref code)))) (\<lambda>fr.
         ebind (run_preamble E (interp E n) preamble fr) (\<lambda>fr.
         ebind (ecatch_return (\<lambda>_. erust (Inl UnreachableCode)) (exec_loop E (interp E n) n module_seq fr)) (\<lambda>_.
         ereturn module)))))))"

definition set_upper_tick_bound :: "u64 option \<Rightarrow> 'h ectx \<Rightarrow> 'h ectx" where
  "set_upper_tick_bound n s = s\<lparr>ec_n_ticks := n\<rparr>"

definition from_module_import :: "module_ref \<Rightarrow> string list \<Rightarrow> 'h ectx \<Rightarrow> 'h ectx" where
  "from_module_import mref names s = s\<lparr>ec_preamble := ec_preamble s @ [(mref, names)]\<rparr>"

definition bind_ctx :: "flat_code \<Rightarrow> module_ref \<Rightarrow> runtime \<Rightarrow> 'h \<Rightarrow> 'h ectx" where
  "bind_ctx code mref rt host =
     \<lparr>ec_rt = rt, ec_host = host, ec_preamble = [], ec_n_ticks = None, ec_code = code, ec_mref = mref\<rparr>"

text \<open>\<open>Runtime::eval\<close>. An error of the host is \<open>None\<close>.\<close>

definition eval :: "'h env \<Rightarrow> string \<Rightarrow> runtime \<Rightarrow> 'h \<Rightarrow> 'h ectx option rust" where
  "eval E source rt host =
     (case env_accept_input E source host of
        (None, _) \<Rightarrow> Inr None
      | (Some code, host') \<Rightarrow>
          and_then (synthesise_module (env_hash E) (fc_mref code) [] rt) (\<lambda>(module, rt').
          Inr (Some (bind_ctx code (fc_mref code)
            (put_metadata (fc_mref code) \<lparr>mm_alloc = module, mm_mref = fc_mref code, mm_code = Some code\<rparr> rt') host'))))"

end
