(* ===== verification/InterpLaws.thy ===== *)
theory InterpLaws
  imports Interp
begin

text \<open>
  Facts about the evaluator of \<^verbatim>\<open>montyc_hlirt/src/eval\<close>: the result of an evaluation does not
  depend on the fuel that finds it, what a name resolves to in each kind of frame, what a call
  does with its arguments, what a definition does to the namespace, and how far a tick bound
  bounds an evaluation.
\<close>

named_theorems ev_mono \<open>monotonicity of evaluator actions in the recursive calls\<close>
named_theorems ev_simps \<open>rewriting of evaluator actions\<close>

lemma ev_basic [ev_simps]:
  "ereturn x s = Some (Inr (Inr x, s))"
  "eraise e s = Some (Inr (Inl e, s))"
  "erust (Inr x) s = Some (Inr (Inr x, s))"
  "erust (Inl p) s = Some (Inl p)"
  "eget f s = Some (Inr (Inr (f s), s))"
  "eput g s = Some (Inr (Inr (), g s))"
  "singleton_of h s = Some (Inr (Inr (h (rt_singletons (ec_rt s))), s))"
  by (simp_all add: ereturn_def eraise_def erust_def eget_def eput_def singleton_of_def)

lemma ebind_simps [ev_simps]:
  "m s = None \<Longrightarrow> ebind m f s = None"
  "m s = Some (Inl p) \<Longrightarrow> ebind m f s = Some (Inl p)"
  "m s = Some (Inr (Inl e, s')) \<Longrightarrow> ebind m f s = Some (Inr (Inl e, s'))"
  "m s = Some (Inr (Inr x, s')) \<Longrightarrow> ebind m f s = f x s'"
  by (simp_all add: ebind_def)

section \<open>More fuel, same result\<close>

definition ev_le :: "('h, 'a) ev \<Rightarrow> ('h, 'a) ev \<Rightarrow> bool" where
  "ev_le m m' \<longleftrightarrow> (\<forall>s. m s = None \<or> m s = m' s)"

definition calls_le :: "'h calls \<Rightarrow> 'h calls \<Rightarrow> bool" where
  "calls_le R R' \<longleftrightarrow> (\<forall>ob args. ev_le (rc_call R ob args) (rc_call R' ob args)) \<and> (\<forall>seq fr. ev_le (rc_exec R seq fr) (rc_exec R' seq fr))"

lemma ev_le_refl [ev_mono]: "ev_le m m"
  by (simp add: ev_le_def)

lemma ev_leD: "ev_le m m' \<Longrightarrow> m s = None \<or> m s = m' s"
  unfolding ev_le_def by (rule spec)

lemma ev_le_ext: "(\<And>s. m' s = m s \<Longrightarrow> f s = None \<or> f s = f' s) \<Longrightarrow> (\<And>s. m s = None \<Longrightarrow> f s = None) \<Longrightarrow> ev_le m m' \<Longrightarrow> ev_le f f'"
  unfolding ev_le_def by metis

lemma ebind_mono [ev_mono]:
  assumes "ev_le m m'" and "\<And>x. ev_le (f x) (f' x)"
  shows "ev_le (ebind m f) (ebind m' f')"
proof (rule ev_le_ext [OF _ _ assms(1)])
  fix s assume "m' s = m s"
  then show "ebind m f s = None \<or> ebind m f s = ebind m' f' s"
    using ev_leD [OF assms(2)] by (simp add: ebind_def split: option.split sum.split prod.split)
qed (simp add: ebind_def)

lemma eunwrap_mono [ev_mono]: "ev_le m m' \<Longrightarrow> ev_le (eunwrap m) (eunwrap m')"
  by (rule ev_le_ext [of m' m]) (simp_all add: eunwrap_def)

lemma ecatch_return_mono [ev_mono]: "ev_le m m' \<Longrightarrow> ev_le (ecatch_return f m) (ecatch_return f m')"
  by (rule ev_le_ext [of m' m]) (simp_all add: ecatch_return_def)

lemma calls_le_mono [ev_mono]:
  "calls_le R R' \<Longrightarrow> ev_le (rc_call R ob args) (rc_call R' ob args)"
  "calls_le R R' \<Longrightarrow> ev_le (rc_exec R seq fr) (rc_exec R' seq fr)"
  by (simp_all add: calls_le_def)

lemma split_mono [ev_mono]: "(\<And>a b. ev_le (f a b) (f' a b)) \<Longrightarrow> ev_le (case p of (a, b) \<Rightarrow> f a b) (case p of (a, b) \<Rightarrow> f' a b)"
  by (simp split: prod.split)

lemma call_any_func_mono [ev_mono]: "calls_le R R' \<Longrightarrow> ev_le (call_any_func E R f args) (call_any_func E R' f args)"
  unfolding call_any_func_def by (auto intro!: ev_mono split: any_func.split)

lemma hash_object_mono [ev_mono]: "calls_le R R' \<Longrightarrow> ev_le (hash_object E R ob) (hash_object E R' ob)"
  unfolding hash_object_def by (auto intro!: ev_mono split: sum.split defered.split)

lemma setattr_mono [ev_mono]: "calls_le R R' \<Longrightarrow> ev_le (setattr E R ob k v) (setattr E R' ob k v)"
  unfolding setattr_def by (intro ev_mono)

lemma attr_to_hash_mono [ev_mono]: "calls_le R R' \<Longrightarrow> ev_le (attr_to_hash E R a) (attr_to_hash E R' a)"
  unfolding attr_to_hash_def by (auto intro!: ev_mono split: any_attr.split)

lemma getattr_mono [ev_mono]: "calls_le R R' \<Longrightarrow> ev_le (getattr E R ob attrs) (getattr E R' ob attrs)"
  by (induction attrs arbitrary: ob) (auto intro!: ev_mono split: option.split)

lemma define_var_mono [ev_mono]: "calls_le R R' \<Longrightarrow> ev_le (define_var E R fr var v) (define_var E R' fr var v)"
  unfolding define_var_def by (auto intro!: ev_mono split: option.split)

lemma bind_arguments_mono [ev_mono]: "calls_le R R' \<Longrightarrow> ev_le (bind_arguments E R n ps fr) (bind_arguments E R' n ps fr)"
  by (induction E R n ps fr rule: bind_arguments.induct) (auto intro!: ev_mono)

lemma call_object_mono [ev_mono]: "calls_le R R' \<Longrightarrow> ev_le (call_object E R ob args) (call_object E R' ob args)"
  unfolding call_object_def by (auto intro!: ev_mono split: py_value.split)

lemma compile_from_spec_mono [ev_mono]: "calls_le R R' \<Longrightarrow> ev_le (compile_from_spec E R spec) (compile_from_spec E R' spec)"
  unfolding compile_from_spec_def by (intro ev_mono)

lemma import_module_mono [ev_mono]: "calls_le R R' \<Longrightarrow> ev_le (import_module E R mref path rel) (import_module E R' mref path rel)"
  unfolding import_module_def by (auto intro!: ev_mono)

lemma exec_inst_mono [ev_mono]:
  assumes "calls_le R R'" shows "ev_le (exec_inst E R fr op) (exec_inst E R' fr op)"
  using assms
  by (cases op) (auto simp: exec_inst_def build_class_def set_var_def set_dunder_def define_fn_def class_inst_def call_inst_def
      get_attribute_def import_inst_def simp del: getattr.simps intro!: ev_mono split: dunder.split)

lemma exec_loop_mono: "calls_le R R' \<Longrightarrow> n \<le> n' \<Longrightarrow> ev_le (exec_loop E R n seq fr) (exec_loop E R' n' seq fr)"
proof (induction n arbitrary: n' fr)
  case 0
  then show ?case by (simp add: ev_le_def)
next
  case (Suc n)
  then obtain k where k: "n' = Suc k" "n \<le> k" by (cases n') auto
  show ?case unfolding k(1) exec_loop.simps exec_round_def using Suc.prems(1) Suc.IH [OF Suc.prems(1) k(2)]
    by (auto intro!: ev_mono split: option.split)
qed

lemma exec_seq_mono: "calls_le R R' \<Longrightarrow> n \<le> n' \<Longrightarrow> ev_le (exec_seq_with_frame E R n seq fr) (exec_seq_with_frame E R' n' seq fr)"
  unfolding exec_seq_with_frame_def by (intro ev_mono exec_loop_mono)

lemma interp_mono: "n \<le> m \<Longrightarrow> calls_le (interp E n) (interp E m)"
proof (induction n arbitrary: m)
  case 0
  then show ?case by (simp add: calls_le_def ev_le_def)
next
  case (Suc n)
  then obtain k where k: "m = Suc k" "n \<le> k" by (cases m) auto
  then show ?case using Suc.IH [OF k(2)] by (auto simp: calls_le_def intro!: call_object_mono exec_seq_mono)
qed

lemma define_named_mono [ev_mono]: "calls_le R R' \<Longrightarrow> ev_le (define_named E R h name v fr) (define_named E R' h name v fr)"
  unfolding define_named_def by (intro ev_mono)

lemma define_classes_mono [ev_mono]: "calls_le R R' \<Longrightarrow> ev_le (define_classes E R vs fr) (define_classes E R' vs fr)"
  by (induction E R vs fr rule: define_classes.induct) (auto intro!: ev_mono)

lemma define_builtins_mono [ev_mono]: "calls_le R R' \<Longrightarrow> ev_le (define_builtins E R d fr) (define_builtins E R' d fr)"
  by (induction E R d fr rule: define_builtins.induct) (auto intro!: ev_mono)

lemma setup_builtins_mono [ev_mono]: "calls_le R R' \<Longrightarrow> ev_le (setup_builtins E R fr) (setup_builtins E R' fr)"
  unfolding setup_builtins_def by (auto intro!: ev_mono)

lemma import_names_mono [ev_mono]: "calls_le R R' \<Longrightarrow> ev_le (import_names E R module names fr) (import_names E R' module names fr)"
  by (induction E R module names fr rule: import_names.induct) (auto intro!: ev_mono)

lemma run_preamble_mono [ev_mono]: "calls_le R R' \<Longrightarrow> ev_le (run_preamble E R ps fr) (run_preamble E R' ps fr)"
  by (induction E R ps fr rule: run_preamble.induct) (auto intro!: ev_mono)


text \<open>A host without state, for the examples.\<close>

definition sample_env :: "unit env" where
  "sample_env =
     \<lparr>env_hash = (\<lambda>k. case k of HStr s \<Rightarrow> word_of_nat (length s) | _ \<Rightarrow> 0), env_spanref_to_str = (\<lambda>_ r. replicate (unat (span_group r)) CHR ''a''),
      env_spangroup_to_str = (\<lambda>_ g. replicate (unat g) CHR ''a''), env_spangroup_of_hash = (\<lambda>h _ host. (ucast h, host)),
      env_import_module_spec = (\<lambda>_ _ _. eraise ImportError), env_accept_input = (\<lambda>_ h. (None, h)),
      env_native = (\<lambda>_ _ _. eraise NotImplementedError), env_call = (\<lambda>_ _ _. eraise ExcTypeError),
      env_get_attribute = (\<lambda>_ a. eraise (AttributeError a 0)), env_call_method = (\<lambda>_ _ _. eraise NotImplementedError),
      env_repr = (\<lambda>_. eraise NotImplementedError)\<rparr>"

definition sample_inst :: "raw_inst \<Rightarrow> flat_inst" where
  "sample_inst op = \<lparr>fi_op = op, fi_value = 0, fi_attrs = default_attrs\<rparr>"

definition sample_seq :: "raw_inst list \<Rightarrow> flat_seq" where
  "sample_seq ops = \<lparr>fs_inst = map sample_inst ops, fs_kind = SeqModule, fs_span = (ModuleRef 0, (0, 0)), fs_ast = None\<rparr>"

definition sample_code :: "flat_seq list \<Rightarrow> flat_code" where
  "sample_code seqs = \<lparr>fc_index = 0, fc_mref = ModuleRef 0, fc_sequences = seqs\<rparr>"

text \<open>A context with the given objects, numbered from 1.\<close>

definition sample_ctx :: "py_value list \<Rightarrow> flat_code \<Rightarrow> unit ectx" where
  "sample_ctx vs code = bind_ctx code (ModuleRef 0)
     (new_uninit\<lparr>rt_objects := \<lparr>os_last_object_id = word_of_nat (length vs + 1), os_inner = zip (map word_of_nat [1..<length vs + 1]) vs\<rparr>,
       rt_module_objects := [(ModuleRef 0, \<lparr>mm_alloc = 1, mm_mref = ModuleRef 0, mm_code = None\<rparr>)]\<rparr>) ()"

lemmas sample_defs = sample_env_def sample_inst_def sample_seq_def sample_code_def sample_ctx_def bind_ctx_def new_uninit_def
  singletons_default_def object_id_default_def upt_rec Let_def


section \<open>Names\<close>

abbreviation ev_heap :: "'h ectx \<Rightarrow> object_id \<rightharpoonup> py_value" where
  "ev_heap s \<equiv> rt_heap (ec_rt s)"

lemma with_object_heap: "space_heap sp ob = Some v \<Longrightarrow> with_object ob f sp = Inr (f v)"
  by (simp add: with_object_def space_heap_def)

lemma read_object_heap [ev_simps]:
  "ev_heap s ob = Some v \<Longrightarrow> read_object ob f s = (case f v of Inl p \<Rightarrow> Some (Inl p) | Inr r \<Rightarrow> Some (Inr (r, s)))"
  by (simp add: read_object_def with_object_heap ebind_def eget_def erust_def ereturn_def eraise_def split: sum.split)

lemma lookup_outermost:
  assumes "map_of (fr_locals fr) (span_group var) = None"
    and fo: "fo = (case fr_object fr of Some ob \<Rightarrow> ob | None \<Rightarrow> sg_builtins (rt_singletons (ec_rt s)))"
    and "ev_heap s fo = Some (PvModule k inner) \<or> ev_heap s fo = Some (PvClass n None inner)"
  shows "lookup E fr var s = Some (Inr (Inl (NameError var), s))"
  using assms(1,3) unfolding lookup_def fo [symmetric] by (subst lookup_loop.simps) (auto simp: with_object_heap lookup_next_def)

text \<open>
  C27. What a name is. A local of the frame is its value. A name that is not a local, in a frame
  whose namespace (or, for a function body, the \<open>builtins\<close> singleton) is a module or a class
  without a parent, is a \<open>NameError\<close>, whatever that namespace holds. In a frame whose namespace
  is a class directly inside a module, it is the attribute of the module, or a \<open>NameError\<close>.
\<close>

theorem lookup_result:
  "(\<forall>ob. map_of (fr_locals fr) (span_group var) = Some ob \<longrightarrow> lookup E fr var s = Some (Inr (Inr ob, s)))
   \<and> (\<forall>fo k n inner. map_of (fr_locals fr) (span_group var) = None
        \<and> fo = (case fr_object fr of Some ob \<Rightarrow> ob | None \<Rightarrow> sg_builtins (rt_singletons (ec_rt s)))
        \<and> (ev_heap s fo = Some (PvModule k inner) \<or> ev_heap s fo = Some (PvClass n None inner))
        \<longrightarrow> lookup E fr var s = Some (Inr (Inl (NameError var), s)))
   \<and> (\<forall>c m n k cinner minner. map_of (fr_locals fr) (span_group var) = None \<and> fr_object fr = Some c
        \<and> ev_heap s c = Some (PvClass n (Some m) cinner) \<and> ev_heap s m = Some (PvModule k minner)
        \<longrightarrow> lookup E fr var s =
          (case map_of (ro_dict minner) (env_hash E (HStr (env_spanref_to_str E (ec_host s) var))) of
             Some (_, v) \<Rightarrow> Some (Inr (Inr v, s)) | None \<Rightarrow> Some (Inr (Inl (NameError var), s))))"
proof (intro conjI allI impI; (elim conjE)?)
  show "map_of (fr_locals fr) (span_group var) = Some ob \<Longrightarrow> lookup E fr var s = Some (Inr (Inr ob, s))" for ob
    by (simp add: lookup_def)
next
  fix fo k n inner
  assume "map_of (fr_locals fr) (span_group var) = None"
    and "fo = (case fr_object fr of Some ob \<Rightarrow> ob | None \<Rightarrow> sg_builtins (rt_singletons (ec_rt s)))"
    and "ev_heap s fo = Some (PvModule k inner) \<or> ev_heap s fo = Some (PvClass n None inner)"
  then show "lookup E fr var s = Some (Inr (Inl (NameError var), s))" by (rule lookup_outermost)
next
  fix c m n k cinner minner
  assume h: "map_of (fr_locals fr) (span_group var) = None" "fr_object fr = Some c"
     "ev_heap s c = Some (PvClass n (Some m) cinner)" "ev_heap s m = Some (PvModule k minner)"
  then have "c \<noteq> m" by auto
  then show "lookup E fr var s =
       (case map_of (ro_dict minner) (env_hash E (HStr (env_spanref_to_str E (ec_host s) var))) of
          Some (_, v) \<Rightarrow> Some (Inr (Inr v, s)) | None \<Rightarrow> Some (Inr (Inl (NameError var), s)))"
    using h by (auto simp: lookup_def Let_def lookup_loop.simps [of _ c _ _ c] lookup_loop.simps [of _ c _ _ m] with_object_heap lookup_next_def
        direct_hash_def py_dict_get_def split: option.split)
qed

text \<open>The body of a class inside a module: a name of the module, and one it does not have.\<close>

theorem lookup_result_witness:
  "lookup sample_env (frame_new (Some 2) None) (SpanRef 3 0)
     (sample_ctx [PvModule (MkStatic ''m'') (raw_object_default\<lparr>ro_dict := [(3, (9, 7))]\<rparr>), PvClass None (Some 1) raw_object_default] (sample_code []))
   = Some (Inr (Inr 7,
     sample_ctx [PvModule (MkStatic ''m'') (raw_object_default\<lparr>ro_dict := [(3, (9, 7))]\<rparr>), PvClass None (Some 1) raw_object_default] (sample_code [])))"
  using lookup_result [of "frame_new (Some 2) None" "SpanRef 3 0" sample_env "sample_ctx
      [PvModule (MkStatic ''m'') (raw_object_default\<lparr>ro_dict := [(3, (9, 7))]\<rparr>), PvClass None (Some 1) raw_object_default] (sample_code [])",
      THEN conjunct2, THEN conjunct2]
  by (simp add: frame_new_def sample_defs space_heap_def)

text \<open>
  C28. A name in the body of a class nested in another class. When it is not a local and not an
  attribute of the enclosing class, the lookup does not return: the search never moves past the
  enclosing class, so it neither finds the names of the module nor gives up.
\<close>

theorem nested_class_lookup_diverges:
  assumes "map_of (fr_locals fr) (span_group var) = None" and "fr_object fr = Some c"
    and "ev_heap s c = Some (PvClass n (Some d) cinner)" and "ev_heap s d = Some (PvClass n' (Some m) dinner)" and "c \<noteq> d" and "d \<noteq> m"
    and "map_of (ro_dict dinner) (env_hash E (HStr (env_spanref_to_str E (ec_host s) var))) = None"
  shows "lookup E fr var s = None"
proof -
  let ?sp = "rt_objects (ec_rt s)" and ?h = "env_hash E (HStr (env_spanref_to_str E (ec_host s) var))"
  have stuck: "\<not> (sp = ?sp \<and> fo = c \<and> h = ?h \<and> this = d)" if "lookup_loop sp fo v h this = Some r" for sp fo v h this r
    apply (rule lookup_loop.raw_induct [where P = "\<lambda>sp fo v h this r. \<not> (sp = ?sp \<and> fo = c \<and> h = ?h \<and> this = d)", OF _ that])
    subgoal premises prems for loop sp fo v h this r
    proof
      assume at: "sp = ?sp \<and> fo = c \<and> h = ?h \<and> this = d"
      with prems(2) have "loop sp fo v h this = Some r"
        using assms(4-7) by (simp add: with_object_heap lookup_next_def direct_hash_def py_dict_get_def)
      from prems(1) [OF this] at show False by simp
    qed
    done
  have "lookup_loop ?sp c var ?h d = None"
  proof (cases "lookup_loop ?sp c var ?h d")
    case (Some r)
    then show ?thesis using stuck [OF Some] by simp
  qed
  then have "lookup_loop ?sp c var ?h c = None"
    using assms(3-7) by (subst lookup_loop.simps) (simp add: with_object_heap lookup_next_def direct_hash_def py_dict_get_def)
  then show ?thesis using assms(1,2) by (simp add: lookup_def)
qed

theorem nested_class_lookup_diverges_witness:
  "lookup sample_env (frame_new (Some 3) None) (SpanRef 3 0)
     (sample_ctx [PvModule (MkStatic ''m'') (raw_object_default\<lparr>ro_dict := [(3, (9, 7))]\<rparr>), PvClass None (Some 1) raw_object_default,
        PvClass None (Some 2) raw_object_default] (sample_code [])) = None"
  by (rule nested_class_lookup_diverges [where c = 3 and d = 2 and m = 1 and n = None and n' = None and cinner = raw_object_default
        and dinner = raw_object_default])
    (simp_all add: frame_new_def sample_defs space_heap_def raw_object_default_def)

section \<open>Calls\<close>

lemma define_var_local [ev_simps]:
  "fr_object fr = None \<Longrightarrow> define_var E R fr var v s =
     Some (Inr (Inr (map_of (fr_locals fr) var, fr\<lparr>fr_locals := assoc_put var v (fr_locals fr)\<rparr>), s))"
  by (simp add: define_var_def ev_simps)

lemma bind_arguments_local:
  "fr_object fr = None \<Longrightarrow> bind_arguments E R n ps fr s =
     Some (Inr (Inr (fr\<lparr>fr_locals := fold (\<lambda>((p, _), a). assoc_put (span_group p) a) ps (fr_locals fr),
       fr_values := fold (\<lambda>(i, a). assoc_put i a) (enumerate n (map snd ps)) (fr_values fr)\<rparr>), s))"
proof (induction ps arbitrary: n fr)
  case (Cons q ps)
  obtain p t a where "q = ((p, t), a)" by (metis prod.exhaust)
  then show ?case using Cons by (simp add: ev_simps put_value_def)
qed (simp add: ev_simps)

definition call_frame :: "(span_ref \<times> object_id option) list \<Rightarrow> object_id list \<Rightarrow> module_ref \<Rightarrow> frame_state" where
  "call_frame params args mref = \<lparr>fr_object = None, fr_current_inst_ix = 0,
     fr_values = fold (\<lambda>(i, a). assoc_put i a) (enumerate 0 (take (length params) args)) [],
     fr_locals = fold (\<lambda>(p, a). assoc_put (span_group p) a) (zip (map fst params) args) [],
     fr_mref = Some mref\<rparr>"

lemma call_code_function:
  assumes "ev_heap s f = Some (PvFunction (FnCode module q) params parent returns inner)"
    and "get_at (fc_sequences module) q = Some seq"
  shows "call_object E R f args s =
      rc_exec R seq (call_frame params args (fc_mref module)) s"
proof -
  have "map snd (zip params args) = take (length params) args"
    by (induction params args rule: list_induct2') simp_all
  moreover have "fold (\<lambda>((p, _), a). assoc_put (span_group p) a) (zip params args) l
      = fold (\<lambda>(p, a). assoc_put (span_group p) a) (zip (map fst params) args) l" for l :: "(u32 \<times> object_id) list"
    by (induction params args arbitrary: l rule: list_induct2') auto
  ultimately show ?thesis
    using assms by (simp add: call_object_def ev_simps callable_of_def code_of_def sequence_at_def bind_arguments_local frame_new_def call_frame_def)
qed

text \<open>
  C25. Calling a function of flat code. The body runs in a fresh frame without a namespace, in
  the context as it was: the parameters are bound, in order, to the arguments they are paired
  with, and the value slots from 0 hold those arguments. Nothing compares the number of
  arguments with the number of parameters: surplus arguments are dropped, missing ones leave
  their parameters unbound.
\<close>

theorem call_binds_parameters:
  assumes "ev_heap s f = Some (PvFunction (FnCode module q) params parent returns inner)"
    and "get_at (fc_sequences module) q = Some seq"
  shows "call_object E R f args s =
      rc_exec R seq \<lparr>fr_object = None, fr_current_inst_ix = 0,
        fr_values = fold (\<lambda>(i, a). assoc_put i a) (enumerate 0 (take (length params) args)) [],
        fr_locals = fold (\<lambda>(p, a). assoc_put (span_group p) a) (zip (map fst params) args) [],
        fr_mref = Some (fc_mref module)\<rparr> s"
  using call_code_function [OF assms] by (simp add: call_frame_def)

theorem call_binds_parameters_witness:
  "call_object sample_env (interp sample_env 0\<lparr>rc_exec := \<lambda>seq fr. ereturn (the (map_of (fr_locals fr) 4))\<rparr>) 1 [8, 9]
     (sample_ctx [PvFunction (FnCode (sample_code [sample_seq []]) 0) [(SpanRef 4 0, None)] None None raw_object_default] (sample_code []))
   = Some (Inr (Inr 8,
     sample_ctx [PvFunction (FnCode (sample_code [sample_seq []]) 0) [(SpanRef 4 0, None)] None None raw_object_default] (sample_code [])))"
  by (subst call_binds_parameters [where module = "sample_code [sample_seq []]" and q = 0 and params = "[(SpanRef 4 0, None)]"
        and seq = "sample_seq []" and parent = None and returns = None and inner = raw_object_default])
    (simp_all add: sample_defs space_heap_def ev_basic)



section \<open>Definitions\<close>

text \<open>What an assignment in a module frame does, in full.\<close>

lemma set_var_runs:
  assumes ok: "runtime_ok (env_hash E) (ec_rt s)" "0 < rt_room (ec_rt s)"
    and m: "fr_object fr = Some m" "ev_heap s m = Some (PvModule k inner)" and v: "frame_value fr ix = Inr v"
  shows "\<exists>rt' key. exec_inst E R fr (SetVar x ix) s =
      Some (Inr (Inr (frame_next_inst fr, fr\<lparr>fr_locals := assoc_put (span_group x) v (fr_locals fr)\<rparr>), s\<lparr>ec_rt := rt'\<rparr>))
    \<and> runtime_ok (env_hash E) rt' \<and> rt_room (ec_rt s) - 1 \<le> rt_room rt' \<and> (\<exists>d. rt_singletons rt' = (rt_singletons (ec_rt s))\<lparr>sg_dynamic := d\<rparr>)
    \<and> rt_heap rt' m = Some (PvModule k (inner\<lparr>ro_dict :=
        assoc_put (env_hash E (HStr (env_spangroup_to_str E (ec_host s) (span_group x)))) (key, v) (ro_dict inner)\<rparr>))
    \<and> (\<forall>ob u. ob \<noteq> m \<and> ev_heap s ob = Some u \<longrightarrow> rt_heap rt' ob = Some u)"
proof -
  let ?n = "env_spangroup_to_str E (ec_host s) (span_group x)" and ?fr = "fr\<lparr>fr_locals := assoc_put (span_group x) v (fr_locals fr)\<rparr>"
  obtain key rt1 t where 1: "new_string (env_hash E) ?n (ec_rt s) = Inr (key, rt1)" "runtime_ok (env_hash E) rt1" "rt_heap rt1 key = Some (PvStr t)"
    "env_hash E (HStr t) = env_hash E (HStr ?n)" "ev_heap s \<subseteq>\<^sub>m rt_heap rt1"
    "rt_room (ec_rt s) - 1 \<le> rt_room rt1" "\<exists>d. rt_singletons rt1 = (rt_singletons (ec_rt s))\<lparr>sg_dynamic := d\<rparr>"
    using new_string_ok [OF ok, of ?n] by blast
  have m1: "rt_heap rt1 m = Some (PvModule k inner)" using 1(5) m(2) by (auto simp: map_le_def dom_def)
  let ?v = "PvModule k (inner\<lparr>ro_dict := assoc_put (env_hash E (HStr ?n)) (key, v) (ro_dict inner)\<rparr>)"
  have plain: "\<not> is_dynamic (env_hash E) d (PvModule k inner)" for d by (cases d) simp_all
  obtain rt2 where 2: "rt_update m (put_attr (env_hash E (HStr ?n)) (key, v)) rt1 = Inr rt2" "runtime_ok (env_hash E) rt2"
    "rt_heap rt2 = (rt_heap rt1)(m \<mapsto> ?v)" "rt_room rt2 = rt_room rt1" "rt_singletons rt2 = rt_singletons rt1"
    using rt_update_ok [OF 1(2) m1 _ plain, of "put_attr (env_hash E (HStr ?n)) (key, v)" ?v] by (auto simp: put_attr_def)
  let ?s1 = "s\<lparr>ec_rt := rt1\<rparr>" and ?s2 = "s\<lparr>ec_rt := rt2\<rparr>"
  have "hash_object E R key ?s1 = Some (Inr (Inr (env_hash E (HStr ?n)), ?s1))"
    using 1(3,4) by (simp add: hash_object_def ebind_def read_object_heap hash_step_def ereturn_def)
  then have "setattr E R m key v ?s1 = Some (Inr (Inr (), ?s2))"
    using 2(1) by (simp add: setattr_def ebind_def ert_update_def ert_def)
  then have "define_var E R fr (span_group x) v s = Some (Inr (Inr (map_of (fr_locals fr) (span_group x), ?fr), ?s2))"
    using 1(1) m(1) by (simp add: define_var_def ebind_def eget_def ert_def ereturn_def)
  then have "exec_inst E R fr (SetVar x ix) s = Some (Inr (Inr (frame_next_inst fr, ?fr), ?s2))"
    using v by (simp add: exec_inst_def set_var_def ebind_def erust_def ereturn_def frame_next_inst_def)
  moreover have "rt_heap rt2 ob = Some u" if "ob \<noteq> m" "ev_heap s ob = Some u" for ob u
    using that 1(5) 2(3) by (auto simp: map_le_def dom_def)
  ultimately show ?thesis using 1(6,7) 2(2-5) by (intro exI [of _ rt2] exI [of _ key]) simp
qed

text \<open>
  Assignment. In a module frame of a well-formed context with room for an object, storing a
  value under a name returns; afterwards the name, by whichever span of its group, is that
  value, other locals are as before, the dictionary of the module maps the hash of the name to
  the value and is otherwise unchanged, and every other object is unchanged.
\<close>

theorem set_var_defines:
  assumes ok: "runtime_ok (env_hash E) (ec_rt s)" "0 < rt_room (ec_rt s)"
    and m: "fr_object fr = Some m" "ev_heap s m = Some (PvModule k inner)" and v: "frame_value fr ix = Inr v"
  shows "\<exists>fr' s' key. exec_inst E R fr (SetVar x ix) s = Some (Inr (Inr (frame_next_inst fr, fr'), s')) \<and> runtime_ok (env_hash E) (ec_rt s')
    \<and> (\<forall>y. span_group y = span_group x \<longrightarrow> lookup E fr' y s' = Some (Inr (Inr v, s')))
    \<and> (\<forall>g. g \<noteq> span_group x \<longrightarrow> map_of (fr_locals fr') g = map_of (fr_locals fr) g)
    \<and> ev_heap s' m = Some (PvModule k (inner\<lparr>ro_dict :=
        assoc_put (env_hash E (HStr (env_spangroup_to_str E (ec_host s) (span_group x)))) (key, v) (ro_dict inner)\<rparr>))
    \<and> (\<forall>ob u. ob \<noteq> m \<and> ev_heap s ob = Some u \<longrightarrow> ev_heap s' ob = Some u)"
proof -
  obtain rt' key where r: "exec_inst E R fr (SetVar x ix) s =
      Some (Inr (Inr (frame_next_inst fr, fr\<lparr>fr_locals := assoc_put (span_group x) v (fr_locals fr)\<rparr>), s\<lparr>ec_rt := rt'\<rparr>))" "runtime_ok (env_hash E) rt'"
    "rt_heap rt' m = Some (PvModule k (inner\<lparr>ro_dict :=
        assoc_put (env_hash E (HStr (env_spangroup_to_str E (ec_host s) (span_group x)))) (key, v) (ro_dict inner)\<rparr>))"
    "\<forall>ob u. ob \<noteq> m \<and> ev_heap s ob = Some u \<longrightarrow> rt_heap rt' ob = Some u"
    using set_var_runs [OF assms, of R x] by blast
  show ?thesis
    by (intro exI [of _ "fr\<lparr>fr_locals := assoc_put (span_group x) v (fr_locals fr)\<rparr>"] exI [of _ "s\<lparr>ec_rt := rt'\<rparr>"] exI [of _ key])
      (use r in \<open>simp add: lookup_def\<close>)
qed

theorem set_var_defines_witness:
  "\<exists>fr' s'. exec_inst sample_env (interp sample_env 0) (put_value 0 7 (frame_new (Some 1) None)) (SetVar (SpanRef 3 0) 0)
     (sample_ctx [PvModule (MkStatic ''m'') raw_object_default] (sample_code [])) = Some (Inr (Inr (1, fr'), s'))
   \<and> lookup sample_env fr' (SpanRef 3 1) s' = Some (Inr (Inr 7, s'))"
proof -
  let ?s = "sample_ctx [PvModule (MkStatic ''m'') raw_object_default] (sample_code [])" and ?fr = "put_value 0 7 (frame_new (Some 1) None)"
  have "runtime_ok (env_hash sample_env) (ec_rt ?s)" "0 < rt_room (ec_rt ?s)"
    by (simp_all add: runtime_ok_def space_ok_def space_room_def sample_defs)
  moreover have "fr_object ?fr = Some 1" "ev_heap ?s 1 = Some (PvModule (MkStatic ''m'') raw_object_default)" "frame_value ?fr 0 = Inr 7"
    by (simp_all add: sample_defs space_heap_def put_value_def frame_new_def frame_value_def)
  moreover have "frame_next_inst ?fr = 1" by (simp add: frame_next_inst_def put_value_def frame_new_def)
  ultimately show ?thesis using set_var_defines [of sample_env ?s ?fr 1 "MkStatic ''m''" raw_object_default 0 7 "interp sample_env 0" "SpanRef 3 0"]
    by fastforce
qed

text \<open>
  Hashing. When an object has a \<open>__hash__\<close> method, the value the method returns is not
  used: if the method returns at all, the result is a \<open>TypeError\<close>, unless the call replaced the
  object itself by an integer or a truth value. The hash of a native object is always a
  \<open>NotImplementedError\<close>.
\<close>

theorem hash_method_ignored:
  "(\<forall>raw method s' r. ev_heap s ob = Some (PvAny raw) \<and> (\<exists>key. map_of (ro_dict raw) (env_hash E (HStr ''__hash__'')) = Some (key, method))
      \<and> rc_call R method [] s = Some (Inr (Inr r, s')) \<and> (\<exists>raw'. ev_heap s' ob = Some (PvAny raw'))
      \<longrightarrow> hash_object E R ob s = Some (Inr (Inl ExcTypeError, s')))
   \<and> (\<forall>d. ev_heap s ob = Some (PvDynamic d) \<longrightarrow> hash_object E R ob s = Some (Inr (Inl NotImplementedError, s)))"
  by (auto simp: hash_object_def ebind_def read_object_heap hash_step_def py_dict_get_def shared_hash_def eraise_def)

theorem hash_method_ignored_witness:
  "hash_object sample_env (interp sample_env 0\<lparr>rc_call := \<lambda>_ _. ereturn 7\<rparr>) 1
     (sample_ctx [PvAny (raw_object_default\<lparr>ro_dict := [(8, (2, 3))]\<rparr>)] (sample_code []))
   = Some (Inr (Inl ExcTypeError, sample_ctx [PvAny (raw_object_default\<lparr>ro_dict := [(8, (2, 3))]\<rparr>)] (sample_code [])))"
  using hash_method_ignored [of "sample_ctx [PvAny (raw_object_default\<lparr>ro_dict := [(8, (2, 3))]\<rparr>)] (sample_code [])" 1 sample_env
      "interp sample_env 0\<lparr>rc_call := \<lambda>_ _. ereturn 7\<rparr>", THEN conjunct1]
  by (simp add: sample_defs space_heap_def ereturn_def)

section \<open>Ticks\<close>

text \<open>Instructions that stay inside the frame: no call, no host, no namespace.\<close>

fun local_inst :: "raw_inst \<Rightarrow> bool" where
  "local_inst (Defn _ _ _ _) = False"
| "local_inst (Class _) = False"
| "local_inst (BuildClass _ _) = False"
| "local_inst (CallInst _ _) = False"
| "local_inst (SetVar _ _) = False"
| "local_inst (UseVar _) = False"
| "local_inst (GetAttribute _ _) = False"
| "local_inst (SetDunder _ _ _) = False"
| "local_inst (ImportInst _ _) = False"
| "local_inst _ = True"

text \<open>An action that returns and leaves the ticks as they are.\<close>

definition keeps_ticks :: "('h, 'a) ev \<Rightarrow> bool" where
  "keeps_ticks m \<longleftrightarrow> (\<forall>s. \<exists>r. m s = Some r \<and> (\<forall>x s'. r = Inr (x, s') \<longrightarrow> ec_n_ticks s' = ec_n_ticks s))"

named_theorems ticks_intros \<open>actions that return and leave the ticks as they are\<close>

lemma keeps_ticks_basic [ticks_intros]:
  "keeps_ticks (ereturn x)" "keeps_ticks (eraise e)" "keeps_ticks (eget f)" "keeps_ticks (singleton_of g)" "keeps_ticks (erust q)" "keeps_ticks (ert h)"
  by (auto simp: keeps_ticks_def ev_basic erust_def ert_def split: sum.split prod.split)

lemma keeps_ticks_ebind [ticks_intros]:
  assumes "keeps_ticks m" and "\<And>x. keeps_ticks (f x)"
  shows "keeps_ticks (ebind m f)"
  unfolding keeps_ticks_def
proof
  fix s
  obtain r where r: "m s = Some r" "\<And>x s'. r = Inr (x, s') \<Longrightarrow> ec_n_ticks s' = ec_n_ticks s" using assms(1) unfolding keeps_ticks_def by blast
  show "\<exists>r. ebind m f s = Some r \<and> (\<forall>x s'. r = Inr (x, s') \<longrightarrow> ec_n_ticks s' = ec_n_ticks s)"
  proof (cases "\<exists>x s'. r = Inr (Inr x, s')")
    case True
    then obtain x s' where x: "r = Inr (Inr x, s')" by blast
    obtain q where "f x s' = Some q" "\<forall>y t. q = Inr (y, t) \<longrightarrow> ec_n_ticks t = ec_n_ticks s'"
      using assms(2) [of x] unfolding keeps_ticks_def by blast
    then show ?thesis using r x by (auto simp: ebind_def)
  next
    case False
    then consider p where "r = Inl p" | e s' where "r = Inr (Inl e, s')" by (metis old.sum.exhaust surj_pair)
    then show ?thesis using r by cases (simp_all add: ebind_def)
  qed
qed

lemma local_inst_returns:
  assumes "local_inst op"
  shows "keeps_ticks (exec_inst E R fr op)"
  using assms
  by (cases op)
    (auto simp: exec_inst_def ref_as_str_def phi_jump_def if_inst_def return_inst_def const_inst_def yield_value_def
      split: const.split prod.split intro!: ticks_intros)

text \<open>
  C29. A tick bound ends every loop that stays inside its frame: under a bound of \<open>k\<close> ticks, a
  sequence of such instructions, whatever its jumps, ends within \<open>k\<close> rounds, with a value, an
  exception or a panic.
\<close>

theorem tick_bound_ends_loops:
  assumes "\<forall>i \<in> set (fs_inst seq). local_inst (fi_op i)" and "ec_n_ticks s = Some k" and "0 < k" and "unat k \<le> n"
  shows "\<exists>r. exec_seq_with_frame E R n seq fr s = Some r"
proof -
  have "\<exists>r. exec_loop E R n seq fr s = Some r"
    using assms(2-4)
  proof (induction n arbitrary: k fr s)
    case 0
    then show ?case by (simp add: unat_eq_0)
  next
    case (Suc n)
    show ?case
    proof (cases "get_at (fs_inst seq) (fr_current_inst_ix fr)")
      case None
      then show ?thesis by (simp add: ereturn_def)
    next
      case (Some i)
      then have "local_inst (fi_op i)" using assms(1) by (auto simp: get_at_Some_iff)
      from local_inst_returns [OF this, of E R fr] obtain r where r: "exec_inst E R fr (fi_op i) s = Some r"
        "\<And>x s'. r = Inr (x, s') \<Longrightarrow> ec_n_ticks s' = Some k" using Suc.prems(1) unfolding keeps_ticks_def by fastforce
      have "0 < k - 1 \<and> unat (k - 1) \<le> n" if "k \<noteq> 1" using that Suc.prems(2,3) by (auto simp: unat_minus_one word_greater_zero_iff)
      then show ?thesis using Some r Suc.IH Suc.prems(2)
        by (auto simp: exec_round_def ebind_def tick_def nonzero_def ereturn_def word_greater_zero_iff split: sum.split prod.split)
    qed
  qed
  then obtain r where "exec_loop E R n seq fr s = Some r" by blast
  then show ?thesis
    by (auto simp: exec_seq_with_frame_def ecatch_return_def ebind_def ev_basic split: sum.split prod.split inner_exc.split)
qed

theorem tick_bound_ends_loops_witness:
  "\<exists>r. exec_seq_with_frame sample_env (interp sample_env 0) 5 (sample_seq [Nop, Br 0]) (frame_new None None)
     (set_upper_tick_bound (Some 5) (sample_ctx [] (sample_code []))) = Some r"
  by (rule tick_bound_ends_loops [where k = 5]) (simp_all add: sample_seq_def sample_inst_def set_upper_tick_bound_def)

end
