(* ===== verification/EvalModule.thy ===== *)
theory EvalModule
  imports StraightLine InterpLaws
begin

text \<open>
  From the syntax tree to the values of a module. A module of assignments of constants and names
  is lowered (\<^verbatim>\<open>montyc_flatcode/src/lower.rs\<close>), handed to \<open>Runtime::eval\<close> and run by the
  evaluator (\<^verbatim>\<open>montyc_hlirt/src\<close>). The result refines the reading of the assignments as updates of
  a map from names to values.
\<close>

section \<open>The abstract reading\<close>

fun rhs_value :: "simple_rhs \<Rightarrow> (u32 \<rightharpoonup> py_value) \<Rightarrow> span_ref + py_value" where
  "rhs_value (RInt n) \<sigma> = Inr (PvInt n)"
| "rhs_value (RBool b) \<sigma> = Inr (PvBool b)"
| "rhs_value RNone \<sigma> = Inr PvNone"
| "rhs_value REllipsis \<sigma> = Inr PvEllipsis"
| "rhs_value (RName y) \<sigma> = (case \<sigma> (span_group y) of None \<Rightarrow> Inl y | Some v \<Rightarrow> Inr v)"

text \<open>The left result is the name that is not defined when it is read.\<close>

fun assigns :: "assignment list \<Rightarrow> (u32 \<rightharpoonup> py_value) \<Rightarrow> span_ref + (u32 \<rightharpoonup> py_value)" where
  "assigns [] \<sigma> = Inr \<sigma>"
| "assigns ((sp, x, r) # ps) \<sigma> = and_then (rhs_value r \<sigma>) (\<lambda>v. assigns ps (\<sigma>(span_group x \<mapsto> v)))"

section \<open>The simulation\<close>

text \<open>What the dictionary of a module has under a name.\<close>

definition name_hash :: "'h env \<Rightarrow> 'h \<Rightarrow> u32 \<Rightarrow> u64" where
  "name_hash E host g = env_hash E (HStr (env_spangroup_to_str E host g))"

text \<open>
  The locals of a module frame and the dictionary of the module \<open>m\<close> agree with the map \<open>\<sigma>\<close>, in a
  well-formed runtime.
\<close>

definition namespace_is :: "'h env \<Rightarrow> 'h \<Rightarrow> object_id \<Rightarrow> (u32 \<rightharpoonup> py_value) \<Rightarrow> frame_state \<Rightarrow> 'h ectx \<Rightarrow> bool" where
  "namespace_is E host m \<sigma> fr s \<longleftrightarrow>
     runtime_ok (env_hash E) (ec_rt s) \<and> constants_set (ec_rt s) \<and> ec_host s = host \<and> fr_object fr = Some m
     \<and> (\<forall>g. map_of (fr_locals fr) g = None \<longleftrightarrow> \<sigma> g = None)
     \<and> (\<forall>g ob. map_of (fr_locals fr) g = Some ob \<longrightarrow> ob \<noteq> m \<and> ev_heap s ob = \<sigma> g)
     \<and> (\<exists>k inner. ev_heap s m = Some (PvModule k inner) \<and> dom (map_of (ro_dict inner)) = name_hash E host ` dom \<sigma>
          \<and> (\<forall>g ob. map_of (fr_locals fr) g = Some ob \<longrightarrow> (\<exists>key. map_of (ro_dict inner) (name_hash E host g) = Some (key, ob))))"

lemma namespace_module:
  "namespace_is E host m \<sigma> fr s \<Longrightarrow> \<exists>k inner. ev_heap s m = Some (PvModule k inner) \<and> dom (map_of (ro_dict inner)) = name_hash E host ` dom \<sigma>
    \<and> (\<forall>g ob. map_of (fr_locals fr) g = Some ob \<longrightarrow> (\<exists>key. map_of (ro_dict inner) (name_hash E host g) = Some (key, ob)))"
  by (simp add: namespace_is_def)

lemma namespace_locals:
  "namespace_is E host m \<sigma> fr s \<Longrightarrow> map_of (fr_locals fr) g = None \<longleftrightarrow> \<sigma> g = None"
  "namespace_is E host m \<sigma> fr s \<Longrightarrow> map_of (fr_locals fr) g = Some ob \<Longrightarrow> ev_heap s ob = \<sigma> g \<and> ob \<noteq> m"
  by (simp_all add: namespace_is_def)

lemma constants_set_mono:
  assumes "constants_set rt" and "\<And>ob u. ob \<noteq> m \<Longrightarrow> rt_heap rt ob = Some u \<Longrightarrow> rt_heap rt' ob = Some u"
    and "rt_heap rt m = Some (PvModule k inner)" and "rt_singletons rt' = (rt_singletons rt)\<lparr>sg_dynamic := d\<rparr>"
  shows "constants_set rt'"
proof -
  have "slot_holds get v rt'" if "slot_holds get v rt" "v \<noteq> PvModule k inner" "get (rt_singletons rt') = get (rt_singletons rt)" for get v
  proof -
    have "get (rt_singletons rt) \<noteq> m" using that(1,2) assms(3) by (auto simp: slot_holds_def)
    then show ?thesis using that assms(2) [of "get (rt_singletons rt)" v] by (simp add: slot_holds_def)
  qed
  then show ?thesis using assms(1,4) by (simp add: constants_set_def)
qed

text \<open>Reading the right-hand side.\<close>

lemma rhs_step:
  assumes ns: "namespace_is E host m \<sigma> fr s" and room: "0 < rt_room (ec_rt s)"
  shows "(\<forall>y. rhs_value r \<sigma> = Inl y \<longrightarrow> exec_inst E R fr (rhs_inst r) s = Some (Inr (Inl (NameError y), s)))
    \<and> (\<forall>v. rhs_value r \<sigma> = Inr v \<longrightarrow> (\<exists>ob rt'. exec_inst E R fr (rhs_inst r) s =
          Some (Inr (Inr (frame_next_inst fr, put_value (fr_current_inst_ix fr) ob fr), s\<lparr>ec_rt := rt'\<rparr>))
        \<and> runtime_ok (env_hash E) rt' \<and> rt_heap rt' ob = Some v \<and> ob \<noteq> m \<and> ev_heap s \<subseteq>\<^sub>m rt_heap rt' \<and> rt_room (ec_rt s) - 1 \<le> rt_room rt'
        \<and> (\<exists>d. rt_singletons rt' = (rt_singletons (ec_rt s))\<lparr>sg_dynamic := d\<rparr>)))"
proof -
  have ok: "runtime_ok (env_hash E) (ec_rt s)" and cs: "constants_set (ec_rt s)" and fo: "fr_object fr = Some m"
    using ns by (simp_all add: namespace_is_def)
  obtain k inner where m: "ev_heap s m = Some (PvModule k inner)" using ns by (auto simp: namespace_is_def)
  have same: "\<exists>d. rt_singletons (ec_rt s) = (rt_singletons (ec_rt s))\<lparr>sg_dynamic := d\<rparr>"
    by (rule exI [of _ "sg_dynamic (rt_singletons (ec_rt s))"]) simp
  have const: ?thesis if "rhs_value r \<sigma> = Inr v" "exec_inst E R fr (rhs_inst r) s =
      Some (Inr (Inr (frame_next_inst fr, put_value (fr_current_inst_ix fr) ob fr), s))" "ev_heap s ob = Some v" "ob \<noteq> m" for v ob
  proof -
    have "\<exists>ob rt'. exec_inst E R fr (rhs_inst r) s =
          Some (Inr (Inr (frame_next_inst fr, put_value (fr_current_inst_ix fr) ob fr), s\<lparr>ec_rt := rt'\<rparr>))
        \<and> runtime_ok (env_hash E) rt' \<and> rt_heap rt' ob = Some v \<and> ob \<noteq> m \<and> ev_heap s \<subseteq>\<^sub>m rt_heap rt' \<and> rt_room (ec_rt s) - 1 \<le> rt_room rt'
        \<and> (\<exists>d. rt_singletons rt' = (rt_singletons (ec_rt s))\<lparr>sg_dynamic := d\<rparr>)"
      by (intro exI [of _ ob] exI [of _ "ec_rt s"] conjI same) (simp_all add: that ok)
    then show ?thesis using that(1) by simp
  qed
  show ?thesis
  proof (cases r)
    case (RInt n)
    obtain ob rt' where r: "new_int n (ec_rt s) = Inr (ob, rt')" "runtime_ok (env_hash E) rt'" "rt_heap rt' ob = Some (PvInt n)"
      "ev_heap s \<subseteq>\<^sub>m rt_heap rt'" "rt_room (ec_rt s) - 1 \<le> rt_room rt'" "\<exists>d. rt_singletons rt' = (rt_singletons (ec_rt s))\<lparr>sg_dynamic := d\<rparr>"
      using new_int_ok [OF ok room, of n] by blast
    have "rt_heap rt' m = Some (PvModule k inner)" using r(4) m by (auto simp: map_le_def dom_def)
    then have "ob \<noteq> m" using r(3) by auto
    then show ?thesis using RInt r
      by (auto simp: exec_inst_def const_inst_def yield_value_def ebind_def ert_def ereturn_def intro!: exI [of _ ob] exI [of _ rt'])
  next
    case (RBool b)
    then show ?thesis using cs m by (intro const [of "PvBool b" "if b then sg_true_v (rt_singletons (ec_rt s)) else sg_false_v (rt_singletons (ec_rt s))"])
      (simp_all add: exec_inst_def const_inst_def yield_value_def ebind_def ev_basic constants_set_def slot_holds_def, auto?)
  next
    case RNone
    then show ?thesis using cs m by (intro const [of PvNone "sg_none_v (rt_singletons (ec_rt s))"])
      (simp_all add: exec_inst_def const_inst_def yield_value_def ebind_def ev_basic constants_set_def slot_holds_def, auto?)
  next
    case REllipsis
    then show ?thesis using cs m by (intro const [of PvEllipsis "sg_ellipsis_v (rt_singletons (ec_rt s))"])
      (simp_all add: exec_inst_def const_inst_def yield_value_def ebind_def ev_basic constants_set_def slot_holds_def, auto?)
  next
    case (RName y)
    show ?thesis
    proof (cases "map_of (fr_locals fr) (span_group y)")
      case None
      then have "\<sigma> (span_group y) = None" using ns by (simp add: namespace_is_def)
      moreover have "lookup E fr y s = Some (Inr (Inl (NameError y), s))"
        using lookup_outermost [OF None, of m s k inner undefined E] fo m by simp
      ultimately show ?thesis using RName by (simp add: exec_inst_def use_var_def ebind_def)
    next
      case (Some ob)
      then have ob: "ob \<noteq> m" "ev_heap s ob = \<sigma> (span_group y)" using ns by (simp_all add: namespace_is_def)
      have "map_of (fr_locals fr) (span_group y) = None \<longleftrightarrow> \<sigma> (span_group y) = None" using ns by (simp add: namespace_is_def)
      then obtain v where v: "\<sigma> (span_group y) = Some v" using Some by auto
      have "lookup E fr y s = Some (Inr (Inr ob, s))" using Some by (simp add: lookup_def)
      then have run: "exec_inst E R fr (rhs_inst r) s = Some (Inr (Inr (frame_next_inst fr, put_value (fr_current_inst_ix fr) ob fr), s))"
        using RName by (simp add: exec_inst_def use_var_def ebind_def yield_value_def ereturn_def)
      show ?thesis by (rule const [of v ob]) (use RName ob v run in simp_all)
    qed
  qed
qed

text \<open>Keeping the namespace while the heap grows, and extending it by one name.\<close>

lemma namespace_grow:
  assumes ns: "namespace_is E host m \<sigma> fr s" and "runtime_ok (env_hash E) rt'" and grow: "ev_heap s \<subseteq>\<^sub>m rt_heap rt'"
    and "rt_singletons rt' = (rt_singletons (ec_rt s))\<lparr>sg_dynamic := d\<rparr>"
  shows "namespace_is E host m \<sigma> (put_value ix ob fr) (s\<lparr>ec_rt := rt'\<rparr>)"
proof -
  have g: "rt_heap rt' ob = Some u" if "ev_heap s ob = Some u" for ob u using grow that by (auto simp: map_le_def dom_def)
  obtain k inner where m: "ev_heap s m = Some (PvModule k inner)"
    "dom (map_of (ro_dict inner)) = name_hash E host ` dom \<sigma>"
    "\<forall>g ob. map_of (fr_locals fr) g = Some ob \<longrightarrow> (\<exists>key. map_of (ro_dict inner) (name_hash E host g) = Some (key, ob))"
    using namespace_module [OF ns] by (elim exE conjE)
  have "constants_set rt'" using constants_set_mono [OF _ _ m(1) assms(4)] g ns by (simp add: namespace_is_def)
  moreover have "rt_heap rt' ob = \<sigma> g" if bound: "map_of (fr_locals fr) g = Some ob" for g ob
  proof -
    obtain v where "\<sigma> g = Some v" using bound namespace_locals(1) [OF ns, of g] by auto
    then show ?thesis using g [of ob v] namespace_locals(2) [OF ns bound] by simp
  qed
  ultimately show ?thesis using ns assms(2) g [OF m(1)] m(2,3) by (simp add: namespace_is_def put_value_def)
qed

lemma namespace_extend:
  assumes ns: "namespace_is E host m \<sigma> fr s" and ok: "runtime_ok (env_hash E) rt'" and sg: "rt_singletons rt' = (rt_singletons (ec_rt s))\<lparr>sg_dynamic := d\<rparr>"
    and m: "ev_heap s m = Some (PvModule k inner)"
    and m': "rt_heap rt' m = Some (PvModule k (inner\<lparr>ro_dict := assoc_put (name_hash E host g) (key, ob) (ro_dict inner)\<rparr>))"
    and grow: "\<And>ob u. ob \<noteq> m \<Longrightarrow> ev_heap s ob = Some u \<Longrightarrow> rt_heap rt' ob = Some u"
    and ob: "ev_heap s ob = Some v" "ob \<noteq> m" and inj: "inj_on (name_hash E host) (insert g (dom \<sigma>))"
  shows "namespace_is E host m (\<sigma>(g \<mapsto> v)) (fr\<lparr>fr_locals := assoc_put g ob (fr_locals fr)\<rparr>) (s\<lparr>ec_rt := rt'\<rparr>)"
proof -
  have cs: "constants_set rt'" using constants_set_mono [OF _ _ m sg] grow ns by (simp add: namespace_is_def)
  note loc = namespace_locals(1) [OF ns]
  have old: "rt_heap rt' ob' = \<sigma> h \<and> ob' \<noteq> m" if bound: "map_of (fr_locals fr) h = Some ob'" for h ob'
  proof -
    have l: "ev_heap s ob' = \<sigma> h" "ob' \<noteq> m" using namespace_locals(2) [OF ns bound] by simp_all
    then obtain u where "\<sigma> h = Some u" using bound loc [of h] by auto
    then show ?thesis using grow [of ob' u] l by simp
  qed
  have dict: "\<exists>key'. map_of (assoc_put (name_hash E host g) (key, ob) (ro_dict inner)) (name_hash E host h) = Some (key', ob')"
    if "map_of (assoc_put g ob (fr_locals fr)) h = Some ob'" for h ob'
  proof (cases "h = g")
    case False
    then have "map_of (fr_locals fr) h = Some ob'" using that by simp
    moreover have "h \<in> dom \<sigma>" using loc [of h] calculation by auto
    then have "name_hash E host h \<noteq> name_hash E host g" using inj False by (auto simp: inj_on_def)
    ultimately show ?thesis using ns m by (auto simp: namespace_is_def)
  qed (use that in simp)
  have keys: "dom (map_of (ro_dict inner)) = name_hash E host ` dom \<sigma>" using ns m by (auto simp: namespace_is_def)
  show ?thesis
    unfolding namespace_is_def
  proof (intro conjI allI impI exI)
    show "dom (map_of (ro_dict (inner\<lparr>ro_dict := assoc_put (name_hash E host g) (key, ob) (ro_dict inner)\<rparr>))) = name_hash E host ` dom (\<sigma>(g \<mapsto> v))"
      using keys by simp
    show "(map_of (fr_locals (fr\<lparr>fr_locals := assoc_put g ob (fr_locals fr)\<rparr>)) h = None) = ((\<sigma>(g \<mapsto> v)) h = None)" for h using loc by simp
    fix h ob' assume h: "map_of (fr_locals (fr\<lparr>fr_locals := assoc_put g ob (fr_locals fr)\<rparr>)) h = Some ob'"
    then show "ob' \<noteq> m" "ev_heap (s\<lparr>ec_rt := rt'\<rparr>) ob' = (\<sigma>(g \<mapsto> v)) h" using old grow ob by (auto split: if_splits)
  next
    show "ev_heap (s\<lparr>ec_rt := rt'\<rparr>) m = Some (PvModule k (inner\<lparr>ro_dict := assoc_put (name_hash E host g) (key, ob) (ro_dict inner)\<rparr>))"
      using m' by simp
  next
    fix h ob' assume "map_of (fr_locals (fr\<lparr>fr_locals := assoc_put g ob (fr_locals fr)\<rparr>)) h = Some ob'"
    then show "map_of (ro_dict (inner\<lparr>ro_dict := assoc_put (name_hash E host g) (key, ob) (ro_dict inner)\<rparr>)) (name_hash E host h)
      = Some (SOME key'. map_of (assoc_put (name_hash E host g) (key, ob) (ro_dict inner)) (name_hash E host h) = Some (key', ob'), ob')"
      using someI_ex [OF dict [of h ob']] by simp
  qed (use ns ok cs in \<open>simp_all add: namespace_is_def\<close>)
qed

text \<open>One round of the loop, with more than \<open>k\<close> ticks left.\<close>

definition ticks_above :: "nat \<Rightarrow> u64 option \<Rightarrow> bool" where
  "ticks_above k t \<longleftrightarrow> (case t of None \<Rightarrow> True | Some n \<Rightarrow> k < unat n)"

lemma tick_ok: "ticks_above (Suc k) (ec_n_ticks s) \<Longrightarrow> \<exists>t. tick s = Some (Inr (Inr (), s\<lparr>ec_n_ticks := t\<rparr>)) \<and> ticks_above k t"
proof (cases "ec_n_ticks s")
  case None
  then have "s\<lparr>ec_n_ticks := None\<rparr> = s" by simp
  then show ?thesis using None by (intro exI [of _ None]) (simp add: tick_def ticks_above_def)
next
  case (Some n)
  assume "ticks_above (Suc k) (ec_n_ticks s)"
  then have n: "Suc k < unat n" using Some by (simp add: ticks_above_def)
  then have "n \<noteq> 1" "n \<noteq> 0" by auto
  moreover have "unat (n - 1) = unat n - 1" using \<open>n \<noteq> 0\<close> by (simp add: unat_minus_one)
  ultimately show ?thesis using Some n by (auto simp: tick_def ticks_above_def nonzero_def)
qed

lemma exec_round_ok:
  "exec_inst E R fr (fi_op i) s = Some (Inr (Inr (ip, fr'), s')) \<Longrightarrow> ticks_above (Suc k) (ec_n_ticks s') \<Longrightarrow>
     \<exists>t. exec_round E R i fr s = Some (Inr (Inr (fr'\<lparr>fr_current_inst_ix := ip\<rparr>), s'\<lparr>ec_n_ticks := t\<rparr>)) \<and> ticks_above k t"
  "exec_inst E R fr (fi_op i) s = Some (Inr (Inl e, s')) \<Longrightarrow> exec_round E R i fr s = Some (Inr (Inl e, s'))"
  using tick_ok [of k s'] by (auto simp: exec_round_def ebind_def ereturn_def)

lemma exec_loop_step:
  assumes "get_at (fs_inst seq) (fr_current_inst_ix fr) = Some i"
  shows "exec_round E R i fr s = Some (Inr (Inr fr', s')) \<Longrightarrow> exec_loop E R (Suc n) seq fr s = exec_loop E R n seq fr' s'"
    and "exec_round E R i fr s = Some (Inr (Inl e, s')) \<Longrightarrow> exec_loop E R (Suc n) seq fr s = Some (Inr (Inl e, s'))"
  using assms by (simp_all add: ebind_def)

text \<open>The namespace does not depend on the position and the values of the frame.\<close>

lemma namespace_at:
  "namespace_is E host m \<sigma> (fr\<lparr>fr_current_inst_ix := ip\<rparr>) s = namespace_is E host m \<sigma> fr s"
  "namespace_is E host m \<sigma> fr (s\<lparr>ec_n_ticks := t\<rparr>) = namespace_is E host m \<sigma> fr s"
  by (simp_all add: namespace_is_def)

text \<open>Both instructions of an assignment.\<close>

lemma assignment_step:
  assumes ns: "namespace_is E host m \<sigma> fr s" and room: "2 \<le> rt_room (ec_rt s)" and v: "rhs_value r \<sigma> = Inr v"
    and ix: "fr_current_inst_ix fr = k" "k + 2 < 2 ^ 64" and ticks: "ticks_above (Suc (Suc j)) (ec_n_ticks s)" and inj: "inj_on (name_hash E host) (insert (span_group x) (dom \<sigma>))"
  shows "\<exists>fr1 s1 fr2 s2. exec_round E R (fi_at sp k (rhs_inst r)) fr s = Some (Inr (Inr fr1, s1)) \<and> fr_current_inst_ix fr1 = Suc k
    \<and> exec_round E R (fi (Suc k) (SetVar x k)) fr1 s1 = Some (Inr (Inr fr2, s2)) \<and> fr_current_inst_ix fr2 = Suc (Suc k)
    \<and> namespace_is E host m (\<sigma>(span_group x \<mapsto> v)) fr2 s2 \<and> rt_room (ec_rt s) - 2 \<le> rt_room (ec_rt s2) \<and> ticks_above j (ec_n_ticks s2)"
proof -
  have host: "ec_host s = host" using ns by (simp_all add: namespace_is_def)
  obtain ob rt1 d where 1: "exec_inst E R fr (rhs_inst r) s =
      Some (Inr (Inr (frame_next_inst fr, put_value k ob fr), s\<lparr>ec_rt := rt1\<rparr>))" "runtime_ok (env_hash E) rt1" "rt_heap rt1 ob = Some v" "ob \<noteq> m"
    "ev_heap s \<subseteq>\<^sub>m rt_heap rt1" "rt_room (ec_rt s) - 1 \<le> rt_room rt1" "rt_singletons rt1 = (rt_singletons (ec_rt s))\<lparr>sg_dynamic := d\<rparr>"
    using rhs_step [OF ns, of r R] room v ix(1) by (auto simp del: map_of_eq_Some_iff)
  have room1: "0 < rt_room rt1" using 1(6) room by linarith
  have next1: "frame_next_inst fr = Suc k" using ix by (simp add: frame_next_inst_def)
  obtain t1 where r1: "exec_round E R (fi_at sp k (rhs_inst r)) fr s =
      Some (Inr (Inr ((put_value k ob fr)\<lparr>fr_current_inst_ix := Suc k\<rparr>), s\<lparr>ec_rt := rt1, ec_n_ticks := t1\<rparr>))" and t1: "ticks_above (Suc j) t1"
    using exec_round_ok(1) [of E R fr "fi_at sp k (rhs_inst r)" s "Suc k" "put_value k ob fr" "s\<lparr>ec_rt := rt1\<rparr>" "Suc j"] 1(1) ticks
    by (auto simp: fi_at_def next1)
  let ?fr1 = "(put_value k ob fr)\<lparr>fr_current_inst_ix := Suc k\<rparr>" and ?s1 = "s\<lparr>ec_rt := rt1, ec_n_ticks := t1\<rparr>"
  have ns1: "namespace_is E host m \<sigma> ?fr1 ?s1" unfolding namespace_at by (rule namespace_grow [OF ns 1(2,5,7)])
  obtain kk inner where m: "rt_heap rt1 m = Some (PvModule kk inner)" using ns1 by (auto simp: namespace_is_def)
  have fo: "fr_object ?fr1 = Some m" and val: "frame_value ?fr1 k = Inr ob" using ns1 by (simp_all add: namespace_is_def frame_value_def put_value_def)
  obtain rt2 key d' where 2: "exec_inst E R ?fr1 (SetVar x k) ?s1 =
      Some (Inr (Inr (frame_next_inst ?fr1, ?fr1\<lparr>fr_locals := assoc_put (span_group x) ob (fr_locals ?fr1)\<rparr>), ?s1\<lparr>ec_rt := rt2\<rparr>))"
    "runtime_ok (env_hash E) rt2" "rt_room rt1 - 1 \<le> rt_room rt2" "rt_singletons rt2 = (rt_singletons rt1)\<lparr>sg_dynamic := d'\<rparr>"
    "rt_heap rt2 m = Some (PvModule kk (inner\<lparr>ro_dict := assoc_put (name_hash E host (span_group x)) (key, ob) (ro_dict inner)\<rparr>))"
    "\<forall>ob u. ob \<noteq> m \<and> rt_heap rt1 ob = Some u \<longrightarrow> rt_heap rt2 ob = Some u"
    using set_var_runs [of E ?s1 ?fr1 m kk inner k ob R x] 1(2) room1 m fo val host by (auto simp: name_hash_def simp del: map_of_eq_Some_iff)
  let ?fr1' = "?fr1\<lparr>fr_locals := assoc_put (span_group x) ob (fr_locals ?fr1)\<rparr>"
  let ?fr2 = "?fr1'\<lparr>fr_current_inst_ix := Suc (Suc k)\<rparr>"
  have next2: "frame_next_inst ?fr1 = Suc (Suc k)" using ix by (simp add: frame_next_inst_def)
  obtain t2 where r2: "exec_round E R (fi (Suc k) (SetVar x k)) ?fr1 ?s1 = Some (Inr (Inr ?fr2, ?s1\<lparr>ec_rt := rt2, ec_n_ticks := t2\<rparr>))"
      and t2: "ticks_above j t2"
    using exec_round_ok(1) [of E R ?fr1 "fi (Suc k) (SetVar x k)" ?s1 "Suc (Suc k)" ?fr1' "?s1\<lparr>ec_rt := rt2\<rparr>" j] 2(1) t1
    by (auto simp: fi_def next2)
  let ?s2 = "?s1\<lparr>ec_rt := rt2, ec_n_ticks := t2\<rparr>"
  have "namespace_is E host m (\<sigma>(span_group x \<mapsto> v)) ?fr2 ?s2"
    unfolding namespace_at using namespace_extend [OF ns1 2(2) _ _ 2(5) _ _ 1(4) inj, of d' v] 2(4,6) m 1(3) by simp
  then show ?thesis using r1 r2 1(6) 2(3) t2
    by (intro exI [of _ ?fr1] exI [of _ ?s1] exI [of _ ?fr2] exI [of _ ?s2]) simp
qed

lemma assignments_loop:
  assumes "fs_inst seq = pre @ assign_code (length pre) ps" and "fr_current_inst_ix fr = length pre" and "length (fs_inst seq) < 2 ^ 63"
    and "namespace_is E host m \<sigma> fr s" and "2 * length ps \<le> rt_room (ec_rt s)" and "2 * length ps < n"
    and "inj_on (name_hash E host) (dom \<sigma> \<union> (\<lambda>(_, x, _). span_group x) ` set ps)" and "ticks_above (2 * length ps) (ec_n_ticks s)"
  shows "(\<forall>y. assigns ps \<sigma> = Inl y \<longrightarrow> (\<exists>s'. exec_loop E R n seq fr s = Some (Inr (Inl (NameError y), s'))))
    \<and> (\<forall>\<tau>. assigns ps \<sigma> = Inr \<tau> \<longrightarrow> (\<exists>fr' s'. exec_loop E R n seq fr s = Some (Inr (Inr (), s')) \<and> namespace_is E host m \<tau> fr' s'))"
  using assms
proof (induction ps arbitrary: pre fr s \<sigma> n)
  case Nil
  then obtain k where "n = Suc k" by (cases n) auto
  then have "exec_loop E R n seq fr s = Some (Inr (Inr (), s))" using Nil.prems(1,2) by (simp add: ereturn_def)
  then show ?case using Nil.prems(4) by auto
next
  case (Cons p ps)
  obtain lhs rhs x r where p: "p = ((lhs, rhs), x, r)" by (metis prod.exhaust)
  let ?k = "length pre" and ?i = "fi_at rhs (length pre) (rhs_inst r)" and ?j = "fi (Suc (length pre)) (SetVar x (length pre))"
  obtain n' where n: "n = Suc (Suc n')" using Cons.prems(6) by (metis Suc_less_eq2 length_Cons less_imp_Suc_add mult_Suc_right add_2_eq_Suc add_Suc)
  have i: "get_at (fs_inst seq) ?k = Some ?i" "get_at (fs_inst seq) (Suc ?k) = Some ?j" using Cons.prems(1) by (simp_all add: p get_at_append get_at_def nth_append)
  show ?case
  proof (cases "rhs_value r \<sigma>")
    case (Inl y)
    have "exec_inst E R fr (rhs_inst r) s = Some (Inr (Inl (NameError y), s))"
      using rhs_step [OF Cons.prems(4), of r R] Inl Cons.prems(5) by simp
    then have "exec_loop E R n seq fr s = Some (Inr (Inl (NameError y), s))"
      unfolding n using exec_loop_step(2) [of seq fr ?i E R s] exec_round_ok(2) [of E R fr ?i s] i(1) Cons.prems(2) by (simp add: fi_at_def)
    then show ?thesis by (simp add: p Inl)
  next
    case (Inr v)
    have inj: "inj_on (name_hash E host) (insert (span_group x) (dom \<sigma>))" by (rule inj_on_subset [OF Cons.prems(7)]) (auto simp: p)
    have two: "2 \<le> rt_room (ec_rt s)" using Cons.prems(5) by simp
    have big: "?k + 2 < 2 ^ 64" using Cons.prems(1,3) by (simp add: p)
    obtain fr1 s1 fr2 s2 where st: "exec_round E R ?i fr s = Some (Inr (Inr fr1, s1))" "fr_current_inst_ix fr1 = Suc ?k"
      "exec_round E R ?j fr1 s1 = Some (Inr (Inr fr2, s2))" "fr_current_inst_ix fr2 = Suc (Suc ?k)"
      "namespace_is E host m (\<sigma>(span_group x \<mapsto> v)) fr2 s2" "rt_room (ec_rt s) - 2 \<le> rt_room (ec_rt s2)"
      "ticks_above (2 * length ps) (ec_n_ticks s2)"
      using assignment_step [OF Cons.prems(4) two Inr Cons.prems(2) big _ inj, of "2 * length ps" R rhs] Cons.prems(8) by auto
    have run: "exec_loop E R n seq fr s = exec_loop E R n' seq fr2 s2"
      unfolding n using exec_loop_step(1) [OF _ st(1)] exec_loop_step(1) [OF _ st(3)] i Cons.prems(2) st(2) by simp
    have "fs_inst seq = (pre @ [?i, ?j]) @ assign_code (length (pre @ [?i, ?j])) ps" using Cons.prems(1) by (simp add: p)
    moreover have "fr_current_inst_ix fr2 = length (pre @ [?i, ?j])" using st(4) by simp
    moreover have "2 * length ps \<le> rt_room (ec_rt s2)" using st(6) Cons.prems(5) by simp
    moreover have "2 * length ps < n'" using Cons.prems(6) n by simp
    moreover have "inj_on (name_hash E host) (dom (\<sigma>(span_group x \<mapsto> v)) \<union> (\<lambda>(_, x, _). span_group x) ` set ps)"
      by (rule inj_on_subset [OF Cons.prems(7)]) (auto simp: p)
    ultimately show ?thesis unfolding run p assigns.simps Inr and_then_simps by (rule Cons.IH [OF _ _ Cons.prems(3) st(5) _ _ _ st(7)])
  qed
qed

section \<open>The whole module\<close>

text \<open>The module object of a fresh module.\<close>

lemma synthesise_module_ok:
  assumes "runtime_ok hash rt" and "0 < rt_room rt"
  shows "\<exists>m rt' inner. synthesise_module hash mref [] rt = Inr (m, rt') \<and> runtime_ok hash rt' \<and> rt_room rt' = rt_room rt - 1
    \<and> rt_heap rt m = None \<and> rt_heap rt' = (rt_heap rt)(m \<mapsto> PvModule (MkUser mref) inner) \<and> ro_dict inner = []
    \<and> rt_singletons rt' = rt_singletons rt \<and> map_of (rt_module_objects rt') mref = Some \<lparr>mm_alloc = m, mm_mref = mref, mm_code = None\<rparr>"
proof -
  let ?inner = "\<lambda>m. \<lparr>ro_alloc_id = m, ro_dict = [], ro_class = sg_module_class (rt_singletons rt)\<rparr>"
  obtain m rt1 where 1: "rt_insert_with (\<lambda>m. PvModule (MkObject m) (?inner m)) rt = Inr (m, rt1)" "runtime_ok hash rt1" "rt_room rt1 = rt_room rt - 1"
    "rt_heap rt m = None" "rt_heap rt1 = (rt_heap rt)(m \<mapsto> PvModule (MkObject m) (?inner m))" "rt_singletons rt1 = rt_singletons rt"
    using rt_insert_with_ok [OF assms] by blast
  have plain: "\<not> is_dynamic hash key (PvModule k inner)" for key k inner by (cases key) simp_all
  obtain rt2 where 2: "rt_update m (set_module_dict []) rt1 = Inr rt2" "runtime_ok hash rt2" "rt_room rt2 = rt_room rt1" "rt_singletons rt2 = rt_singletons rt1"
    "rt_heap rt2 = (rt_heap rt1)(m \<mapsto> PvModule (MkObject m) (?inner m))"
    using rt_update_ok [OF 1(2), of m "PvModule (MkObject m) (?inner m)" "set_module_dict []" "PvModule (MkObject m) (?inner m)"] 1(5) plain
    by (auto simp: set_module_dict_def)
  obtain rt3 where 3: "rt_update m (set_mkey mref) rt2 = Inr rt3" "runtime_ok hash rt3" "rt_room rt3 = rt_room rt2" "rt_singletons rt3 = rt_singletons rt2"
    "rt_heap rt3 = (rt_heap rt2)(m \<mapsto> PvModule (MkUser mref) (?inner m))"
    using rt_update_ok [OF 2(2), of m "PvModule (MkObject m) (?inner m)" "set_mkey mref" "PvModule (MkUser mref) (?inner m)"] 2(5) plain
    by (auto simp: set_mkey_def)
  let ?meta = "\<lparr>mm_alloc = m, mm_mref = mref, mm_code = None\<rparr>"
  let ?rt = "rt3\<lparr>rt_module_objects := assoc_put mref ?meta (rt_module_objects rt3)\<rparr>"
  have "synthesise_module hash mref [] rt = Inr (m, ?rt)"
    using 1(1) 2(1) 3(1) by (simp add: synthesise_module_def synthesise_within_def)
  moreover have "runtime_ok hash ?rt" using 3(2) by (simp add: runtime_ok_def)
  ultimately show ?thesis using 1 2 3 by (intro exI [of _ m] exI [of _ ?rt] exI [of _ "?inner m"]) simp
qed

text \<open>A runtime with its constants and no \<open>builtins\<close> module, as \<open>try_init\<close> leaves it.\<close>

definition bare_runtime :: "(hash_key \<Rightarrow> u64) \<Rightarrow> runtime \<Rightarrow> bool" where
  "bare_runtime hash rt \<longleftrightarrow> runtime_ok hash rt \<and> constants_set rt \<and> is_uninit (sg_builtins (rt_singletons rt))
     \<and> is_uninit (sg_int_class (rt_singletons rt)) \<and> is_uninit (sg_bool_class (rt_singletons rt)) \<and> is_uninit (sg_string_class (rt_singletons rt))"

lemma setup_builtins_bare:
  assumes "bare_runtime hash (ec_rt s)"
  shows "setup_builtins E R fr s = Some (Inr (Inr fr, s))"
proof -
  have "slot_holds sg_none_v PvNone (ec_rt s)" using assms by (simp add: bare_runtime_def constants_set_def)
  then have "\<not> is_uninit (sg_none_v (rt_singletons (ec_rt s)))"
    using assms heap_not_uninit by (auto simp: bare_runtime_def slot_holds_def)
  then show ?thesis using assms by (simp add: setup_builtins_def ebind_def ev_basic bare_runtime_def)
qed

lemma run_module_bare:
  assumes "bare_runtime hash (ec_rt s)" and "ec_preamble s = []" and "fc_sequences (ec_code s) = [seq]"
    and "map_of (rt_module_objects (ec_rt s)) (fc_mref (ec_code s)) = Some meta"
  shows "run_until_complete E n s =
    ebind (ecatch_return (\<lambda>_. erust (Inl UnreachableCode)) (exec_loop E (interp E n) n seq (frame_new (Some (mm_alloc meta)) (Some (fc_mref (ec_code s))))))
      (\<lambda>_. ereturn (mm_alloc meta)) s"
proof -
  have "module_alloc (fc_mref (ec_code s)) s = Some (Inr (Inr (mm_alloc meta), s))" using assms(4) by (simp add: module_alloc_def ebind_def ev_basic)
  moreover have same: "s\<lparr>ec_preamble := []\<rparr> = s" using assms(2) by (metis ectx.surjective ectx.update_convs(3))
  ultimately show ?thesis
    unfolding run_until_complete_def using setup_builtins_bare [OF assms(1), of E "interp E n"] assms(2,3)
    by (simp add: ebind_def [of "eget ec_code"] ebind_def [of "module_alloc q" for q] ebind_def [of "eget ec_preamble"] ebind_def [of "eput f" for f]
        ebind_def [of "setup_builtins E R f" for R f] ebind_def [of "ereturn f" for f] ev_basic same)
qed

text \<open>Evaluating the code of the assignments, in terms of the code.\<close>

lemma assignments_run:
  assumes bare: "bare_runtime (env_hash E) rt" and room: "2 * length ps < rt_room rt" and small: "2 * length ps < 2 ^ 63" and fuel: "2 * length ps < n"
    and code: "ast_to_flatcode mref (assign_module ps) = Inr code" and ticks: "ticks_above (2 * length ps) t"
    and inj: "inj_on (name_hash E host) ((\<lambda>(_, x, _). span_group x) ` set ps)"
  shows "\<exists>ctx. (\<forall>E' source h. env_hash E' = env_hash E \<longrightarrow> env_accept_input E' source h = (Some code, host) \<longrightarrow> eval E' source rt h = Inr (Some ctx))
    \<and> (\<forall>y. assigns ps Map.empty = Inl y \<longrightarrow> (\<exists>s'. run_until_complete E n (set_upper_tick_bound t ctx) = Some (Inr (Inl (NameError y), s'))))
    \<and> (\<forall>\<sigma>. assigns ps Map.empty = Inr \<sigma> \<longrightarrow> (\<exists>m s' k inner. run_until_complete E n (set_upper_tick_bound t ctx) = Some (Inr (Inr m, s'))
        \<and> ev_heap s' m = Some (PvModule k inner) \<and> dom (map_of (ro_dict inner)) = name_hash E host ` dom \<sigma>
        \<and> (\<forall>g v. \<sigma> g = Some v \<longrightarrow> (\<exists>key ob. map_of (ro_dict inner) (name_hash E host g) = Some (key, ob) \<and> ev_heap s' ob = Some v))))"
proof -
  obtain sp where sp: "code = one_seq mref sp (assign_code 0 ps)" using assign_module_code [of mref ps] code by auto
  then obtain seq where mref: "fc_mref code = mref" "fc_sequences code = [seq]" "fs_inst seq = assign_code 0 ps"
    by (simp add: one_seq_def flatcode_new_def set_current_insts_def)
  obtain m rt1 inner where m: "synthesise_module (env_hash E) mref [] rt = Inr (m, rt1)" "runtime_ok (env_hash E) rt1" "rt_room rt1 = rt_room rt - 1"
    "rt_heap rt m = None" "rt_heap rt1 = (rt_heap rt)(m \<mapsto> PvModule (MkUser mref) inner)" "ro_dict inner = []" "rt_singletons rt1 = rt_singletons rt"
    using synthesise_module_ok [of "env_hash E" rt mref] bare room by (auto simp: bare_runtime_def)
  let ?meta = "\<lparr>mm_alloc = m, mm_mref = mref, mm_code = Some code\<rparr>"
  let ?rt = "put_metadata mref ?meta rt1" and ?fr = "frame_new (Some m) (Some mref)"
  let ?new = "bind_ctx code mref ?rt host"
  let ?ctx = "set_upper_tick_bound t ?new"
  have "constants_set rt1"
  proof -
    have "slot_holds get v rt1" if "slot_holds get v rt" for get v using that m(4,5,7) by (auto simp: slot_holds_def)
    then show ?thesis using bare by (simp add: bare_runtime_def constants_set_def)
  qed
  then have cs: "constants_set ?rt" by (simp add: constants_set_def slot_holds_def put_metadata_def)
  have okrt: "runtime_ok (env_hash E) ?rt" using m(2) by (simp add: runtime_ok_def put_metadata_def)
  have ctx: "ec_rt ?ctx = ?rt" "ec_host ?ctx = host" "ec_n_ticks ?ctx = t" "ec_preamble ?ctx = []" "ec_code ?ctx = code"
    by (simp_all add: bind_ctx_def set_upper_tick_bound_def)
  have bare': "bare_runtime (env_hash E) (ec_rt ?ctx)" using bare cs okrt m(7) unfolding ctx by (simp add: bare_runtime_def put_metadata_def)
  have ns: "namespace_is E host m Map.empty ?fr ?ctx"
    using okrt cs m(5,6) unfolding namespace_is_def ctx by (simp add: frame_new_def put_metadata_def)
  have "2 * length ps \<le> rt_room (ec_rt ?ctx)" using m(3) room unfolding ctx by (simp add: put_metadata_def)
  then have loop: "(\<forall>y. assigns ps Map.empty = Inl y \<longrightarrow> (\<exists>s'. exec_loop E (interp E n) n seq ?fr ?ctx = Some (Inr (Inl (NameError y), s'))))
    \<and> (\<forall>\<tau>. assigns ps Map.empty = Inr \<tau> \<longrightarrow> (\<exists>fr' s'. exec_loop E (interp E n) n seq ?fr ?ctx = Some (Inr (Inr (), s')) \<and> namespace_is E host m \<tau> fr' s'))"
    using assignments_loop [of seq "[]" ps ?fr E host m Map.empty ?ctx n "interp E n"] mref(3) ns fuel inj small ticks
    by (simp add: frame_new_def ctx(3))
  have pre: "run_until_complete E n ?ctx =
      ebind (ecatch_return (\<lambda>_. erust (Inl UnreachableCode)) (exec_loop E (interp E n) n seq ?fr)) (\<lambda>_. ereturn m) ?ctx"
    using run_module_bare [OF bare' _ _ , of seq ?meta E n] mref unfolding ctx by (simp add: put_metadata_def)
  show ?thesis
  proof (rule exI [of _ ?new], intro conjI allI impI)
    fix E' :: "'a env" and source h
    assume "env_hash E' = env_hash E" "env_accept_input E' source h = (Some code, host)"
    then show "eval E' source rt h = Inr (Some ?new)" using m(1) by (simp add: eval_def mref)
  next
    fix y assume "assigns ps Map.empty = Inl y"
    then obtain s' where "exec_loop E (interp E n) n seq ?fr ?ctx = Some (Inr (Inl (NameError y), s'))" using loop by blast
    then show "\<exists>s'. run_until_complete E n ?ctx = Some (Inr (Inl (NameError y), s'))" unfolding pre by (simp add: ebind_def ecatch_return_def)
  next
    fix \<sigma> assume "assigns ps Map.empty = Inr \<sigma>"
    then obtain fr' s' where l: "exec_loop E (interp E n) n seq ?fr ?ctx = Some (Inr (Inr (), s'))" "namespace_is E host m \<sigma> fr' s'" using loop by blast
    obtain k inner' where i: "ev_heap s' m = Some (PvModule k inner')" "dom (map_of (ro_dict inner')) = name_hash E host ` dom \<sigma>"
      "\<forall>g ob. map_of (fr_locals fr') g = Some ob \<longrightarrow> (\<exists>key. map_of (ro_dict inner') (name_hash E host g) = Some (key, ob))"
      using namespace_module [OF l(2)] by (elim exE conjE)
    have "\<exists>key ob. map_of (ro_dict inner') (name_hash E host g) = Some (key, ob) \<and> ev_heap s' ob = Some v" if "\<sigma> g = Some v" for g v
    proof -
      obtain ob where ob: "map_of (fr_locals fr') g = Some ob" using namespace_locals(1) [OF l(2), of g] \<open>\<sigma> g = Some v\<close> by auto
      then obtain key where "map_of (ro_dict inner') (name_hash E host g) = Some (key, ob)" using i(3) by blast
      then show ?thesis using namespace_locals(2) [OF l(2) ob] \<open>\<sigma> g = Some v\<close> by (intro exI [of _ key] exI [of _ ob]) simp
    qed
    moreover have "run_until_complete E n ?ctx = Some (Inr (Inr m, s'))" unfolding pre using l(1) by (simp add: ebind_def ecatch_return_def ereturn_def)
    ultimately show "\<exists>m s' k inner. run_until_complete E n ?ctx = Some (Inr (Inr m, s'))
        \<and> ev_heap s' m = Some (PvModule k inner) \<and> dom (map_of (ro_dict inner)) = name_hash E host ` dom \<sigma>
        \<and> (\<forall>g v. \<sigma> g = Some v \<longrightarrow> (\<exists>key ob. map_of (ro_dict inner) (name_hash E host g) = Some (key, ob) \<and> ev_heap s' ob = Some v))"
      using i(1,2) by blast
  qed
qed


text \<open>An initialized runtime, and a host whose input is the module \<open>aaa = 7; aaaa = aaa\<close>.\<close>

definition sample_runtime :: runtime where
  "sample_runtime = \<lparr>rt_objects = \<lparr>os_last_object_id = 5, os_inner = [(1, PvNone), (2, PvBool True), (3, PvBool False), (4, PvEllipsis)]\<rparr>,
     rt_singletons = singletons_default\<lparr>sg_none_v := 1, sg_true_v := 2, sg_false_v := 3, sg_ellipsis_v := 4\<rparr>, rt_module_objects = []\<rparr>"

definition sample_assignments :: "assignment list" where
  "sample_assignments = [(((0, 3), (6, 7)), SpanRef 3 0, RInt 7), (((8, 12), (15, 18)), SpanRef 4 1, RName (SpanRef 3 2))]"

definition sample_host :: "unit env" where
  "sample_host = sample_env\<lparr>env_accept_input := \<lambda>_ h.
     (case ast_to_flatcode (ModuleRef 0) (assign_module sample_assignments) of Inl _ \<Rightarrow> None | Inr code \<Rightarrow> Some code, h)\<rparr>"

lemma sample_runtime_bare: "bare_runtime hash sample_runtime" "100 < rt_room sample_runtime"
proof -
  have "0 < ob \<and> ob < 5" if "map_of [(1, PvNone), (2, PvBool True), (3, PvBool False), (4, PvEllipsis)] ob = Some v" for ob :: object_id and v
    using that by (auto split: if_splits)
  then have "space_ok (rt_objects sample_runtime)" by (simp add: space_ok_def sample_runtime_def)
  then show "bare_runtime hash sample_runtime"
    by (simp add: bare_runtime_def runtime_ok_def constants_set_def slot_holds_def sample_runtime_def singletons_default_def space_heap_def
        is_uninit_def object_id_default_def Let_def)
  show "100 < rt_room sample_runtime" by (simp add: sample_runtime_def space_room_def)
qed


end
