(* ===== verification/Discovery.thy ===== *)
theory Discovery
  imports ValueStore Runtime SpanInterner
begin

text \<open>
  Value discovery: \<open>SessionContext::stir_the_pot\<close> of \<^verbatim>\<open>montyc_driver/src/global_context/mod.rs\<close>. After a
  module has run, every object of the interpreter becomes a value of the global value store, with the
  values of the objects it refers to. The order in which the hash set of an object's references is
  read is the argument \<open>order\<close>; the capacities of the collections are left out, and with them the
  object count of the pot, which nothing else reads.
\<close>

section \<open>Scanning the objects\<close>

definition object_key :: "object_id \<Rightarrow> gv_key" where
  "object_key ob = AssocKey (ObjectKey ob)"

text \<open>The set of an object's references, without the identifier of nothing.\<close>

definition hash_refs :: "object_id list \<Rightarrow> object_id list" where
  "hash_refs refs = removeAll object_id_default (remdups refs)"

fun unwrap_all :: "('a \<Rightarrow> 'b option) \<Rightarrow> 'a list \<Rightarrow> 'b list rust" where
  "unwrap_all f [] = Inr []"
| "unwrap_all f (x # xs) = and_then (unwrap (f x)) (\<lambda>y. and_then (unwrap_all f xs) (\<lambda>ys. Inr (y # ys)))"

text \<open>What is recorded for an object that has a value: \<open>None\<close> when its references did not change.\<close>

definition refs_update ::
  "('vg, 'cg) value_store \<Rightarrow> value_id list option \<Rightarrow> object_id list \<Rightarrow> object_id list option option rust" where
  "refs_update st internal_refs h_refs =
     (let h_refs = (if h_refs = [] then None else Some h_refs) in
      case (internal_refs, h_refs) of
        (None, None) \<Rightarrow> Inr None
      | (Some a, Some b) \<Rightarrow>
          and_then (unwrap_all (alloc_id_of st) a) (\<lambda>obs.
          Inr (if set obs \<noteq> set b then Some (Some b) else None))
      | (Some _, None) \<Rightarrow> Inr (Some None)
      | (None, Some b) \<Rightarrow> Inr (Some (Some b)))"

type_synonym found = "(object_id \<times> object_id list) list \<times> (object_id \<times> object_id list option) list"

definition scan_object ::
  "('vg, value_rec, unit) graph_ops \<Rightarrow> (assoc_key \<Rightarrow> u64) \<Rightarrow> ('vg, 'cg) value_store \<Rightarrow> object_id \<Rightarrow> py_value \<Rightarrow> found \<Rightarrow> found rust" where
  "scan_object V hash st ob v = (\<lambda>(new_objects, update_objects).
     and_then (refs_of v) (\<lambda>refs.
     (let h_refs = hash_refs refs in
      if \<not> vs_contains V hash st (object_key ob) then Inr (assoc_put ob h_refs new_objects, update_objects)
      else
        and_then (unwrap (with_metadata V hash (object_key ob) vm_internal_refs st)) (\<lambda>internal_refs.
        and_then (refs_update st internal_refs h_refs) (\<lambda>update.
        Inr (new_objects, case update of None \<Rightarrow> update_objects | Some r \<Rightarrow> assoc_put ob r update_objects))))))"

fun scan_objects ::
  "('vg, value_rec, unit) graph_ops \<Rightarrow> (assoc_key \<Rightarrow> u64) \<Rightarrow> ('vg, 'cg) value_store \<Rightarrow> (object_id \<times> py_value) list \<Rightarrow> found \<Rightarrow> found rust" where
  "scan_objects V hash st [] found = Inr found"
| "scan_objects V hash st ((ob, v) # objs) found = and_then (scan_object V hash st ob v found) (scan_objects V hash st objs)"

section \<open>New values\<close>

fun new_values ::
  "('vg, value_rec, unit) graph_ops \<Rightarrow> (assoc_key \<Rightarrow> u64) \<Rightarrow> object_id list \<Rightarrow> ('vg, 'cg) value_store \<Rightarrow> ('vg, 'cg) value_store rust" where
  "new_values V hash [] st = Inr st"
| "new_values V hash (ob # obs) st =
     and_then (vs_insert V value_default st) (\<lambda>(vid, st). new_values V hash obs (vs_assoc hash (ObjectKey ob) vid st))"

text \<open>The properties of the value of a module: a value for every name in its dictionary.\<close>

definition module_dict :: "py_value \<Rightarrow> (object_id \<times> object_id) py_dict option" where
  "module_dict o_v = (case o_v of PvModule _ inner \<Rightarrow> Some (ro_dict inner) | _ \<Rightarrow> None)"

definition name_group :: "(string \<Rightarrow> u64) \<Rightarrow> string \<Rightarrow> span_interner \<Rightarrow> (u32 \<times> span_interner) rust" where
  "name_group hash_str st si =
     (case spangroup_of_str hash_str si st of
        Some g \<Rightarrow> Inr (g, si)
      | None \<Rightarrow> and_then (str_to_spanref hash_str 0 st si) (\<lambda>(sref, si'). Inr (span_group sref, si')))"

fun module_properties ::
  "('vg, value_rec, unit) graph_ops \<Rightarrow> (assoc_key \<Rightarrow> u64) \<Rightarrow> (string \<Rightarrow> u64) \<Rightarrow> object_space \<Rightarrow> value_id
    \<Rightarrow> (object_id \<times> object_id) py_dict \<Rightarrow> ('vg, 'cg) value_store \<times> span_interner \<Rightarrow> (('vg, 'cg) value_store \<times> span_interner) rust" where
  "module_properties V hash hash_str space value_id [] (st, si) = Inr (st, si)"
| "module_properties V hash hash_str space value_id ((_, k, v) # d) (st, si) =
     and_then (with_object k as_str space) (\<lambda>name.
     and_then (unwrap name) (\<lambda>name.
     and_then (name_group hash_str name si) (\<lambda>(group, si).
     and_then (unwrap (get_by_assoc hash st (ObjectKey v))) (\<lambda>v.
     (let st = (case with_value_mut V hash (ValueKey value_id)
                  (\<lambda>val. ((), val\<lparr>val_properties := assoc_put group v (val_properties val)\<rparr>)) st of
                  None \<Rightarrow> st | Some (_, st) \<Rightarrow> st)
      in module_properties V hash hash_str space value_id d (st, si))))))"

text \<open>\<open>with_metadata_mut\<close> with a closure that resolves the references and may panic; its result is dropped.\<close>

definition set_refs ::
  "('vg, value_rec, unit) graph_ops \<Rightarrow> (assoc_key \<Rightarrow> u64) \<Rightarrow> gv_key \<Rightarrow> object_id list \<Rightarrow> (value_id list \<Rightarrow> 'cg value_metadata \<Rightarrow> 'cg value_metadata)
    \<Rightarrow> ('vg, 'cg) value_store \<Rightarrow> ('vg, 'cg) value_store rust" where
  "set_refs V hash key refs f st =
     (case with_metadata V hash key (\<lambda>m. m) st of
        None \<Rightarrow> Inr st
      | Some _ \<Rightarrow>
          and_then (unwrap_all (\<lambda>ob. resolve V hash st (object_key ob)) refs) (\<lambda>vids.
          Inr (case with_metadata_mut V hash key (\<lambda>m. ((), f vids m)) st of None \<Rightarrow> st | Some (_, st') \<Rightarrow> st')))"

definition fill_value ::
  "('vg, value_rec, unit) graph_ops \<Rightarrow> (assoc_key \<Rightarrow> u64) \<Rightarrow> (string \<Rightarrow> u64) \<Rightarrow> (object_id list \<Rightarrow> object_id list) \<Rightarrow> object_space
    \<Rightarrow> object_id \<Rightarrow> object_id list \<Rightarrow> ('vg, 'cg) value_store \<times> span_interner \<Rightarrow> (('vg, 'cg) value_store \<times> span_interner) rust" where
  "fill_value V hash hash_str order space ob refs = (\<lambda>(st, si).
     and_then (unwrap (get_by_assoc hash st (ObjectKey ob))) (\<lambda>value_id.
     and_then (with_object ob module_dict space) (\<lambda>dict.
     and_then (case dict of None \<Rightarrow> Inr (st, si) | Some d \<Rightarrow> module_properties V hash hash_str space value_id d (st, si)) (\<lambda>(st, si).
     and_then (set_refs V hash (ValueKey value_id) (order refs)
         (\<lambda>vids meta. meta\<lparr>vm_object_id := Some ob, vm_internal_refs := Some vids\<rparr>) st) (\<lambda>st.
     Inr (st, si))))))"

fun fill_values ::
  "('vg, value_rec, unit) graph_ops \<Rightarrow> (assoc_key \<Rightarrow> u64) \<Rightarrow> (string \<Rightarrow> u64) \<Rightarrow> (object_id list \<Rightarrow> object_id list) \<Rightarrow> object_space
    \<Rightarrow> (object_id \<times> object_id list) list \<Rightarrow> ('vg, 'cg) value_store \<times> span_interner \<Rightarrow> (('vg, 'cg) value_store \<times> span_interner) rust" where
  "fill_values V hash hash_str order space [] s = Inr s"
| "fill_values V hash hash_str order space ((ob, refs) # new) s =
     and_then (fill_value V hash hash_str order space ob refs s) (fill_values V hash hash_str order space new)"

fun update_values ::
  "('vg, value_rec, unit) graph_ops \<Rightarrow> (assoc_key \<Rightarrow> u64) \<Rightarrow> (object_id list \<Rightarrow> object_id list)
    \<Rightarrow> (object_id \<times> object_id list option) list \<Rightarrow> ('vg, 'cg) value_store \<Rightarrow> ('vg, 'cg) value_store rust" where
  "update_values V hash order [] st = Inr st"
| "update_values V hash order ((ob, refs) # upd) st =
     and_then (set_refs V hash (object_key ob) (case refs of None \<Rightarrow> [] | Some r \<Rightarrow> order r)
         (\<lambda>vids m. m\<lparr>vm_internal_refs := Some vids\<rparr>) st) (update_values V hash order upd)"

section \<open>The whole pass\<close>

text \<open>
  The orders in which a set of references, and the map of new objects (its keys and its entries),
  are read.
\<close>

record orders =
  o_set :: "object_id list \<Rightarrow> object_id list"
  o_new :: "(object_id \<times> object_id list) list \<Rightarrow> (object_id \<times> object_id list) list"

text \<open>A clean pot is not stirred.\<close>

definition stir_the_pot ::
  "('vg, value_rec, unit) graph_ops \<Rightarrow> (assoc_key \<Rightarrow> u64) \<Rightarrow> (string \<Rightarrow> u64) \<Rightarrow> orders \<Rightarrow> object_space
    \<Rightarrow> bool \<times> ('vg, 'cg) value_store \<times> span_interner \<Rightarrow> (bool \<times> ('vg, 'cg) value_store \<times> span_interner) rust" where
  "stir_the_pot V hash hash_str ord space = (\<lambda>(dirty, st, si).
     if \<not> dirty then Inr (dirty, st, si)
     else
       and_then (scan_objects V hash st (os_inner space) ([], [])) (\<lambda>(new_objects, update_objects).
       and_then (new_values V hash (map fst (o_new ord new_objects)) st) (\<lambda>st.
       and_then (fill_values V hash hash_str (o_set ord) space (o_new ord new_objects) (st, si)) (\<lambda>(st, si).
       and_then (update_values V hash (o_set ord) update_objects st) (\<lambda>st.
       Inr (False, st, si))))))"

section \<open>What discovery relies on\<close>

text \<open>
  An object that has a value: the metadata of the value names the object, and the values it refers
  to have objects.
\<close>

definition linked :: "(assoc_key \<Rightarrow> u64) \<Rightarrow> object_id set \<Rightarrow> ('vg, 'cg) value_store \<Rightarrow> bool" where
  "linked hash D st \<longleftrightarrow> inj_on (\<lambda>ob. hash (ObjectKey ob)) D \<and>
     (\<forall>ob \<in> D. \<forall>vid. get_by_assoc hash st (ObjectKey ob) = Some vid \<longrightarrow>
        (\<exists>m. map_of (vs_metadata st) vid = Some m \<and> vm_object_id m = Some ob
           \<and> (\<forall>refs. vm_internal_refs m = Some refs \<longrightarrow> (\<forall>r \<in> set refs. alloc_id_of st r \<noteq> None))))"

lemma linkedD:
  "linked hash D st \<Longrightarrow> ob \<in> D \<Longrightarrow> get_by_assoc hash st (ObjectKey ob) = Some vid \<Longrightarrow>
     \<exists>m. map_of (vs_metadata st) vid = Some m \<and> vm_object_id m = Some ob
       \<and> (\<forall>refs. vm_internal_refs m = Some refs \<longrightarrow> (\<forall>r \<in> set refs. alloc_id_of st r \<noteq> None))"
  unfolding linked_def by blast

text \<open>
  The space is closed: no object of a trait, every reference leads to an object, and the
  dictionaries of modules map strings to objects.
\<close>

definition closed_value :: "object_space \<Rightarrow> py_value \<Rightarrow> bool" where
  "closed_value space v \<longleftrightarrow>
     (\<exists>refs. refs_of v = Inr refs \<and> set refs \<subseteq> insert object_id_default (dom (space_heap space)))
     \<and> (\<forall>d h k w. module_dict v = Some d \<longrightarrow> (h, k, w) \<in> set d \<longrightarrow>
          (\<exists>s. space_heap space k = Some (PvStr s)) \<and> w \<in> dom (space_heap space))"

definition closed_space :: "object_space \<Rightarrow> bool" where
  "closed_space space \<longleftrightarrow> distinct (map fst (os_inner space)) \<and> (\<forall>(ob, v) \<in> set (os_inner space). closed_value space v)"

definition ref_list :: "py_value \<Rightarrow> object_id list" where
  "ref_list v = (case refs_of v of Inl _ \<Rightarrow> [] | Inr refs \<Rightarrow> hash_refs refs)"

definition dict_size :: "py_value \<Rightarrow> nat" where
  "dict_size v = (case module_dict v of None \<Rightarrow> 0 | Some d \<Rightarrow> length d)"

text \<open>What is established for an object: its value, and the values of its references.\<close>

definition value_refs :: "('vg, 'cg) value_store \<Rightarrow> 'cg value_metadata \<Rightarrow> object_id option set" where
  "value_refs st m = (case vm_internal_refs m of None \<Rightarrow> {} | Some refs \<Rightarrow> alloc_id_of st ` set refs)"

definition discovered :: "(assoc_key \<Rightarrow> u64) \<Rightarrow> ('vg, 'cg) value_store \<Rightarrow> object_id \<Rightarrow> py_value \<Rightarrow> bool" where
  "discovered hash st ob v \<longleftrightarrow>
     (\<exists>vid m. get_by_assoc hash st (ObjectKey ob) = Some vid \<and> map_of (vs_metadata st) vid = Some m
        \<and> vm_object_id m = Some ob \<and> value_refs st m = Some ` set (ref_list v))"

lemma closed_value_ref_list: "closed_value space v \<Longrightarrow> set (ref_list v) \<subseteq> dom (space_heap space)"
  unfolding closed_value_def ref_list_def hash_refs_def by (fastforce split: sum.split)

lemma set_hash_refs [simp]: "set (hash_refs refs) = set refs - {object_id_default}"
  by (auto simp: hash_refs_def)

section \<open>Scanning\<close>

lemma unwrap_all_Inr: "(\<And>x. x \<in> set xs \<Longrightarrow> f x \<noteq> None) \<Longrightarrow> unwrap_all f xs = Inr (map (the \<circ> f) xs)"
proof (induction xs)
  case (Cons x xs)
  then obtain y where "f x = Some y" by fastforce
  then show ?case using Cons by simp
qed simp

lemma assoc_put_append: "k \<notin> fst ` set m \<Longrightarrow> assoc_put k v m = m @ [(k, v)]"
  by (induction k v m rule: assoc_put.induct) auto

text \<open>The entries kept of a list of objects, with what is computed for each.\<close>

definition kept_entries :: "('k \<Rightarrow> 'v \<Rightarrow> 'r option) \<Rightarrow> ('k \<times> 'v) list \<Rightarrow> ('k \<times> 'r) list" where
  "kept_entries f objs = concat (map (\<lambda>(k, v). case f k v of None \<Rightarrow> [] | Some r \<Rightarrow> [(k, r)]) objs)"

lemma kept_entries_set: "set (kept_entries f objs) = {(k, r). \<exists>v. (k, v) \<in> set objs \<and> f k v = Some r}"
  unfolding kept_entries_def by (force split: option.splits)

lemma kept_entries_length: "length (kept_entries f objs) \<le> length objs"
  by (induction objs) (auto simp: kept_entries_def split: option.split)

lemma kept_entries_sum:
  "(\<And>k v. (k, v) \<in> set objs \<Longrightarrow> g k = h v) \<Longrightarrow> (\<Sum>(k, _) \<leftarrow> kept_entries f objs. g k) \<le> (\<Sum>(_, v) \<leftarrow> objs. h v :: nat)"
proof (induction objs)
  case (Cons x objs)
  obtain k v where x: "x = (k, v)" by (cases x)
  have "(\<Sum>(k, _) \<leftarrow> kept_entries f objs. g k) \<le> (\<Sum>(_, v) \<leftarrow> objs. h v)"
    by (rule Cons.IH) (use Cons.prems in \<open>meson list.set_intros(2)\<close>)
  then show ?case using Cons.prems [of k v] x by (cases "f k v") (simp_all add: kept_entries_def)
qed (simp add: kept_entries_def)

lemma kept_entries_distinct: "distinct (map fst objs) \<Longrightarrow> distinct (map fst (kept_entries f objs))"
proof (induction objs)
  case (Cons x objs)
  obtain k v where x: "x = (k, v)" by (cases x)
  have "k \<notin> fst ` set (kept_entries f objs)" using Cons.prems x by (force simp: kept_entries_set)
  then show ?case using Cons x by (cases "f k v") (simp_all add: kept_entries_def)
qed (simp add: kept_entries_def)

text \<open>Whether an object has a value, and what its update is.\<close>

definition has_value :: "(assoc_key \<Rightarrow> u64) \<Rightarrow> ('vg, 'cg) value_store \<Rightarrow> object_id \<Rightarrow> bool" where
  "has_value hash st ob \<longleftrightarrow> get_by_assoc hash st (ObjectKey ob) \<noteq> None"

definition no_value :: "(assoc_key \<Rightarrow> u64) \<Rightarrow> ('vg, 'cg) value_store \<Rightarrow> object_id \<Rightarrow> py_value \<Rightarrow> object_id list option" where
  "no_value hash st ob v = (if has_value hash st ob then None else Some (ref_list v))"

definition stale :: "(assoc_key \<Rightarrow> u64) \<Rightarrow> ('vg, 'cg) value_store \<Rightarrow> object_id \<Rightarrow> py_value \<Rightarrow> object_id list option option" where
  "stale hash st ob v =
     (case get_by_assoc hash st (ObjectKey ob) of
        None \<Rightarrow> None
      | Some vid \<Rightarrow>
          (case refs_update st (vm_internal_refs (the (map_of (vs_metadata st) vid))) (ref_list v) of
             Inl _ \<Rightarrow> None | Inr r \<Rightarrow> r))"

lemma node_metadata: "vs_wf V st \<Longrightarrow> vs_node V st vid \<noteq> None \<longleftrightarrow> map_of (vs_metadata st) vid \<noteq> None"
  unfolding vs_wf_def vs_node_def by (metis get_at_None_iff not_le option.exhaust option.distinct(1))

lemma resolve_known:
  assumes "vs_wf V st" and "get_by_assoc hash st k = Some vid" and "map_of (vs_metadata st) vid = Some m"
  shows "resolve V hash st (AssocKey k) = Some vid" and "resolve V hash st (ValueKey vid) = Some vid"
proof -
  obtain w where "vs_node V st vid = Some w" using node_metadata [OF assms(1), of vid] assms(3) by auto
  then show "resolve V hash st (AssocKey k) = Some vid" "resolve V hash st (ValueKey vid) = Some vid"
    using assms(2) by (simp_all add: resolve_value_def)
qed

lemma scan_object_ok:
  assumes wf: "vs_wf V st" and lk: "linked hash D st" and ob: "ob \<in> D" and v: "closed_value space v"
    and new: "ob \<notin> fst ` set new" and upd: "ob \<notin> fst ` set upd"
  shows "scan_object V hash st ob v (new, upd) =
    Inr (new @ (case no_value hash st ob v of None \<Rightarrow> [] | Some r \<Rightarrow> [(ob, r)]),
         upd @ (case stale hash st ob v of None \<Rightarrow> [] | Some r \<Rightarrow> [(ob, r)]))"
proof -
  obtain refs where refs: "refs_of v = Inr refs" using v by (auto simp: closed_value_def)
  then have rl: "ref_list v = hash_refs refs" by (simp add: ref_list_def)
  show ?thesis
  proof (cases "get_by_assoc hash st (ObjectKey ob)")
    case None
    then show ?thesis
      using new by (simp add: scan_object_def refs rl vs_contains_def object_key_def no_value_def has_value_def stale_def assoc_put_append)
  next
    case (Some vid)
    then obtain m where m: "map_of (vs_metadata st) vid = Some m"
      "\<And>refs r. vm_internal_refs m = Some refs \<Longrightarrow> r \<in> set refs \<Longrightarrow> alloc_id_of st r \<noteq> None"
      using lk ob unfolding linked_def by metis
    note res = resolve_known [OF wf Some m(1)]
    obtain u where u: "refs_update st (vm_internal_refs m) (hash_refs refs) = Inr u"
    proof (cases "vm_internal_refs m")
      case (Some a)
      then have "unwrap_all (alloc_id_of st) a = Inr (map (the \<circ> alloc_id_of st) a)" using m(2) by (intro unwrap_all_Inr)
      then show thesis using that Some by (cases "hash_refs refs = []") (simp_all add: refs_update_def)
    qed (use that in \<open>cases "hash_refs refs = []"; simp add: refs_update_def\<close>)
    show ?thesis
      using upd res m(1) u by (auto simp: scan_object_def refs rl vs_contains_def object_key_def with_metadata_def no_value_def has_value_def stale_def Some
          assoc_put_append split: option.split)
  qed
qed

lemma scan_objects_ok:
  assumes wf: "vs_wf V st" and lk: "linked hash D st"
  shows "fst ` set objs \<subseteq> D \<Longrightarrow> distinct (map fst objs) \<Longrightarrow> (\<And>ob v. (ob, v) \<in> set objs \<Longrightarrow> closed_value space v) \<Longrightarrow>
    fst ` set objs \<inter> fst ` set new = {} \<Longrightarrow> fst ` set objs \<inter> fst ` set upd = {} \<Longrightarrow>
    scan_objects V hash st objs (new, upd) =
      Inr (new @ kept_entries (no_value hash st) objs, upd @ kept_entries (stale hash st) objs)"
proof (induction objs arbitrary: new upd)
  case (Cons obv objs)
  obtain ob v where obv: "obv = (ob, v)" by (cases obv)
  let ?new = "new @ (case no_value hash st ob v of None \<Rightarrow> [] | Some r \<Rightarrow> [(ob, r)])"
  let ?upd = "upd @ (case stale hash st ob v of None \<Rightarrow> [] | Some r \<Rightarrow> [(ob, r)])"
  have step: "scan_object V hash st ob v (new, upd) = Inr (?new, ?upd)"
    by (rule scan_object_ok [OF wf lk, where space = space]) (use Cons.prems obv in auto)
  have "scan_objects V hash st objs (?new, ?upd) =
      Inr (?new @ kept_entries (no_value hash st) objs, ?upd @ kept_entries (stale hash st) objs)"
  proof (rule Cons.IH)
    show "fst ` set objs \<inter> fst ` set ?upd = {}" using Cons.prems(2,5) obv by (cases "stale hash st ob v") auto
    show "fst ` set objs \<inter> fst ` set ?new = {}" using Cons.prems(2,4) obv by (cases "no_value hash st ob v") auto
    show "closed_value space w" if "(ob', w) \<in> set objs" for ob' w using Cons.prems(3) that by (meson list.set_intros(2))
  qed (use Cons.prems(1,2) in auto)
  then show ?case by (simp add: obv step kept_entries_def)
qed (simp add: kept_entries_def)

section \<open>New values\<close>

text \<open>
  Every new object gets a value of its own with fresh metadata; the values and the associations
  there were stay.
\<close>

definition extends_store :: "(assoc_key \<Rightarrow> u64) \<Rightarrow> object_id list \<Rightarrow> value_id list \<Rightarrow> ('vg, 'cg) value_store \<Rightarrow> ('vg, 'cg) value_store \<Rightarrow> bool" where
  "extends_store hash obs vids st st' \<longleftrightarrow> length vids = length obs \<and> distinct vids
     \<and> set vids \<inter> dom (map_of (vs_metadata st)) = {}
     \<and> (\<forall>i < length obs. get_by_assoc hash st' (ObjectKey (obs ! i)) = Some (vids ! i))
     \<and> (\<forall>k. hash k \<notin> (\<lambda>ob. hash (ObjectKey ob)) ` set obs \<longrightarrow> get_by_assoc hash st' k = get_by_assoc hash st k)
     \<and> (\<forall>vid. map_of (vs_metadata st') vid = (if vid \<in> set vids then Some (metadata_default vid) else map_of (vs_metadata st) vid))"

lemma vs_assoc_same [simp]:
  "vs_graph (vs_assoc hash k v st) = vs_graph st" "vs_metadata (vs_assoc hash k v st) = vs_metadata st"
  by (simp_all add: vs_assoc_def split: option.split)

lemma vs_wf_assoc [simp]: "vs_wf V (vs_assoc hash k v st) = vs_wf V st"
  by (simp add: vs_wf_def)

lemma get_by_assoc_vs_assoc:
  "get_by_assoc hash (vs_assoc hash k v st) k' =
     (if hash k' = hash k \<and> get_by_assoc hash st k = None then Some v else get_by_assoc hash st k')"
  by (auto simp: get_by_assoc_def vs_assoc_def split: option.splits)

lemma new_values_ok:
  assumes V: "graph_laws V"
  shows "vs_wf V st \<Longrightarrow> length (g_weights V (vs_graph st)) + length obs \<le> 2 ^ 32 - 1 \<Longrightarrow> distinct obs \<Longrightarrow>
    inj_on (\<lambda>ob. hash (ObjectKey ob)) (set obs) \<Longrightarrow> (\<And>ob. ob \<in> set obs \<Longrightarrow> \<not> has_value hash st ob) \<Longrightarrow>
    \<exists>vids st'. new_values V hash obs st = Inr st' \<and> vs_wf V st' \<and> extends_store hash obs vids st st'"
proof (induction obs arbitrary: st)
  case Nil
  then show ?case by (auto simp: extends_store_def intro: exI [of _ "[]"])
next
  case (Cons ob obs)
  have room: "length (g_weights V (vs_graph st)) < 2 ^ 32 - 1" using Cons.prems(2) by simp
  from vs_insert_ok [OF V Cons.prems(1) room, of value_default] obtain vid st1
    where s1: "vs_insert V value_default st = Inr (vid, st1)" "vs_wf V st1" "vs_node V st vid = None"
      "unat (value_id_raw vid) = length (g_weights V (vs_graph st))"
      "\<And>i. map_of (vs_metadata st1) i = (if i = vid then Some (metadata_default vid) else map_of (vs_metadata st) i)"
      "vs_assoc_cache st1 = vs_assoc_cache st" "\<And>i. vs_node V st1 i = (if i = vid then Some value_default else vs_node V st i)"
    by blast
  let ?st = "vs_assoc hash (ObjectKey ob) vid st1"
  have assoc1: "get_by_assoc hash st1 k = get_by_assoc hash st k" for k using s1(6) by (simp add: get_by_assoc_def)
  have assoc: "get_by_assoc hash ?st k = (if hash k = hash (ObjectKey ob) then Some vid else get_by_assoc hash st k)" for k
    using Cons.prems(5) [of ob] unfolding get_by_assoc_vs_assoc assoc1 has_value_def by (auto simp: get_by_assoc_def)
  have fresh: "vid \<notin> dom (map_of (vs_metadata st))" using node_metadata [OF Cons.prems(1), of vid] s1(3) by auto
  have len: "length (g_weights V (vs_graph st1)) = Suc (length (g_weights V (vs_graph st)))"
  proof -
    obtain g where g: "g_add_node V value_default (vs_graph st) = Inr (length (g_weights V (vs_graph st)), g)"
      "g_weights V g = g_weights V (vs_graph st) @ [value_default]"
      using graph_add_node [OF V room, of value_default] by blast
    have "vs_graph st1 = g" using s1(1) g(1) by (auto simp: vs_insert_def Let_def)
    then show ?thesis using g(2) by simp
  qed
  have new: "hash (ObjectKey ob') \<noteq> hash (ObjectKey ob)" if "ob' \<in> set obs" for ob'
    using Cons.prems(3,4) that by (auto simp: inj_on_def)
  have "\<exists>vids st'. new_values V hash obs ?st = Inr st' \<and> vs_wf V st' \<and> extends_store hash obs vids ?st st'"
  proof (rule Cons.IH)
    show "length (g_weights V (vs_graph ?st)) + length obs \<le> 2 ^ 32 - 1" using Cons.prems(2) len by simp
    show "\<not> has_value hash ?st ob'" if "ob' \<in> set obs" for ob' using Cons.prems(5) that new [OF that] by (simp add: has_value_def assoc)
  qed (use Cons.prems s1(2) in \<open>auto simp: inj_on_def\<close>)
  then obtain vids st' where st': "new_values V hash obs ?st = Inr st'" "vs_wf V st'" "extends_store hash obs vids ?st st'" by blast
  have "get_by_assoc hash st' (ObjectKey ob) = Some vid"
    using st'(3) new assoc [of "ObjectKey ob"] unfolding extends_store_def by (metis (no_types, lifting) imageE)
  moreover have "vid \<notin> set vids" using st'(3) s1(5) by (auto simp: extends_store_def dom_def)
  moreover note ext = st'(3) [unfolded extends_store_def]
  have "set vids \<inter> dom (map_of (vs_metadata st)) = {}" using ext s1(5) by (auto simp: dom_def)
  moreover have "get_by_assoc hash st' k = get_by_assoc hash st k" if "hash k \<notin> (\<lambda>ob. hash (ObjectKey ob)) ` set (ob # obs)" for k
    using ext assoc [of k] that by simp
  moreover have "map_of (vs_metadata st') i = (if i \<in> set (vid # vids) then Some (metadata_default i) else map_of (vs_metadata st) i)" for i
    using ext s1(5) [of i] by auto
  moreover have "\<forall>i < length (ob # obs). get_by_assoc hash st' (ObjectKey ((ob # obs) ! i)) = Some ((vid # vids) ! i)"
    using ext \<open>get_by_assoc hash st' (ObjectKey ob) = Some vid\<close> by (simp add: All_less_Suc2)
  ultimately have "extends_store hash (ob # obs) (vid # vids) st st'"
    using ext fresh unfolding extends_store_def by simp
  then show ?case using st'(1,2) s1(1) by auto
qed

section \<open>Filling the values\<close>

lemma name_group_ok:
  assumes "interner_wf si" and "ssa_next_free (si_map si) < 2 ^ 32"
  shows "\<exists>g si'. name_group hash_str st si = Inr (g, si') \<and> interner_wf si' \<and> ssa_next_free (si_map si') \<le> Suc (ssa_next_free (si_map si))"
proof (cases "spangroup_of_str hash_str si st")
  case None
  obtain sref si' where i: "interner_insert hash_str st (ModuleRef 0) (0, length st) si = Inr (sref, si')"
    "ssa_next_free (si_map si') = Suc (ssa_next_free (si_map si))"
    using interner_insert_total [OF assms(1) str_get_whole assms(2)] by blast
  then show ?thesis using interner_wf_insert [OF assms(1) i(1)] None by (simp add: name_group_def str_to_spanref_def)
qed (simp add: name_group_def assms(1))

lemma with_value_mut_ok:
  assumes V: "graph_laws V" and wf: "vs_wf V st" and r: "with_value_mut V hash key f st = Some (x, st')"
  shows "vs_wf V st' \<and> vs_assoc_cache st' = vs_assoc_cache st \<and> vs_metadata st' = vs_metadata st"
proof -
  obtain vid w where vid: "vs_node V st vid = Some w" "st' = st\<lparr>vs_graph := g_set_weight V (unat (value_id_raw vid)) (snd (f w)) (vs_graph st)\<rparr>"
    using r by (auto simp: with_value_mut_def split: bind_splits)
  then have "unat (value_id_raw vid) < length (g_weights V (vs_graph st))" unfolding vs_node_def by (blast dest: get_at_bound)
  then have "length (g_weights V (vs_graph st')) = length (g_weights V (vs_graph st))"
    using V vid(2) by (simp add: graph_laws_def)
  then show ?thesis using wf vid(2) by (simp add: vs_wf_def)
qed

lemma module_properties_ok:
  assumes V: "graph_laws V"
  shows "vs_wf V st \<Longrightarrow> interner_wf si \<Longrightarrow> ssa_next_free (si_map si) + length d \<le> 2 ^ 32 \<Longrightarrow>
    (\<And>h k w. (h, k, w) \<in> set d \<Longrightarrow> (\<exists>s. space_heap space k = Some (PvStr s)) \<and> has_value hash st w) \<Longrightarrow>
    \<exists>st' si'. module_properties V hash hash_str space vid d (st, si) = Inr (st', si') \<and> vs_wf V st'
      \<and> vs_assoc_cache st' = vs_assoc_cache st \<and> vs_metadata st' = vs_metadata st
      \<and> interner_wf si' \<and> ssa_next_free (si_map si') \<le> ssa_next_free (si_map si) + length d"
proof (induction d arbitrary: st si)
  case (Cons e d)
  obtain h k w where e: "e = (h, k, w)" by (cases e)
  obtain s wid where s: "space_heap space k = Some (PvStr s)" "get_by_assoc hash st (ObjectKey w) = Some wid"
    using Cons.prems(4) [of h k w] e by (auto simp: has_value_def)
  obtain g si1 where g: "name_group hash_str s si = Inr (g, si1)" "interner_wf si1" "ssa_next_free (si_map si1) \<le> Suc (ssa_next_free (si_map si))"
    using name_group_ok [OF Cons.prems(2), of hash_str s] Cons.prems(3) by auto
  define st1 where "st1 = (case with_value_mut V hash (ValueKey vid)
      (\<lambda>val. ((), val\<lparr>val_properties := assoc_put g wid (val_properties val)\<rparr>)) st of None \<Rightarrow> st | Some (_, st') \<Rightarrow> st')"
  have st1: "vs_wf V st1" "vs_assoc_cache st1 = vs_assoc_cache st" "vs_metadata st1 = vs_metadata st"
    unfolding st1_def using Cons.prems(1) by (auto split: option.split dest: with_value_mut_ok [OF V Cons.prems(1)])
  have key: "with_object k as_str space = Inr (Some s)" using s(1) by (simp add: with_object_def space_heap_def as_str_def)
  have known: "has_value hash st1 w' = has_value hash st w'" for w' using st1(2) by (simp add: has_value_def get_by_assoc_def)
  have "\<exists>st' si'. module_properties V hash hash_str space vid d (st1, si1) = Inr (st', si') \<and> vs_wf V st'
      \<and> vs_assoc_cache st' = vs_assoc_cache st1 \<and> vs_metadata st' = vs_metadata st1
      \<and> interner_wf si' \<and> ssa_next_free (si_map si') \<le> ssa_next_free (si_map si1) + length d"
  proof (intro Cons.IH st1(1) g(2))
    show "ssa_next_free (si_map si1) + length d \<le> 2 ^ 32" using Cons.prems(3) g(3) by simp
    show "(\<exists>s. space_heap space k' = Some (PvStr s)) \<and> has_value hash st1 w'" if "(h', k', w') \<in> set d" for h' k' w'
      using Cons.prems(4) [of h' k' w'] that known by simp
  qed
  then show ?case using key s(2) g(1,3) st1(2,3) by (force simp: e st1_def Let_def)
qed auto

text \<open>The objects all have values with metadata.\<close>

definition covered :: "(assoc_key \<Rightarrow> u64) \<Rightarrow> object_id set \<Rightarrow> ('vg, 'cg) value_store \<Rightarrow> bool" where
  "covered hash D st \<longleftrightarrow> (\<forall>ob \<in> D. \<exists>vid m. get_by_assoc hash st (ObjectKey ob) = Some vid \<and> map_of (vs_metadata st) vid = Some m)"

lemma coveredD:
  "covered hash D st \<Longrightarrow> ob \<in> D \<Longrightarrow> \<exists>vid m. get_by_assoc hash st (ObjectKey ob) = Some vid \<and> map_of (vs_metadata st) vid = Some m"
  unfolding covered_def by blast

definition vid_of :: "(assoc_key \<Rightarrow> u64) \<Rightarrow> ('vg, 'cg) value_store \<Rightarrow> object_id \<Rightarrow> value_id" where
  "vid_of hash st ob = the (get_by_assoc hash st (ObjectKey ob))"

lemma vs_wf_put:
  assumes "vs_wf V st" and "map_of (vs_metadata st) vid = Some m" and "vm_value_ix m' = vm_value_ix m"
  shows "vs_wf V (st\<lparr>vs_metadata := assoc_put vid m' (vs_metadata st)\<rparr>)"
  using assms unfolding vs_wf_def by auto

lemma set_refs_ok:
  assumes wf: "vs_wf V st" and cov: "covered hash D st" and refs: "set refs \<subseteq> D" and key: "resolve V hash st key = Some vid"
    and m: "map_of (vs_metadata st) vid = Some m"
  shows "set_refs V hash key refs f st = Inr (st\<lparr>vs_metadata := assoc_put vid (f (map (vid_of hash st) refs) m) (vs_metadata st)\<rparr>)"
proof -
  have res: "resolve V hash st (object_key ob) = Some (vid_of hash st ob)" if "ob \<in> set refs" for ob
    using that refs cov resolve_known(1) [OF wf] unfolding covered_def object_key_def vid_of_def by (metis option.sel subsetD)
  then have "unwrap_all (\<lambda>ob. resolve V hash st (object_key ob)) refs = Inr (map (the \<circ> (\<lambda>ob. resolve V hash st (object_key ob))) refs)"
    by (intro unwrap_all_Inr) simp
  moreover have "map (the \<circ> (\<lambda>ob. resolve V hash st (object_key ob))) refs = map (vid_of hash st) refs" using res by simp
  ultimately show ?thesis using key m by (simp add: set_refs_def with_metadata_def with_metadata_mut_def)
qed

text \<open>One pass of updates over the metadata, for values that differ.\<close>

definition put_meta :: "('k \<Rightarrow> value_id) \<Rightarrow> ('k \<times> 'r \<Rightarrow> 'm \<Rightarrow> 'm) \<Rightarrow> 'k \<times> 'r \<Rightarrow> (value_id \<rightharpoonup> 'm) \<Rightarrow> (value_id \<rightharpoonup> 'm)" where
  "put_meta vid F x M = M(vid (fst x) \<mapsto> F x (the (M (vid (fst x)))))"

lemma put_meta_other: "i \<notin> vid ` fst ` set xs \<Longrightarrow> fold (put_meta vid F) xs M i = M i"
  by (induction xs arbitrary: M) (simp_all add: put_meta_def)

lemma put_meta_at:
  "distinct (map (vid \<circ> fst) xs) \<Longrightarrow> x \<in> set xs \<Longrightarrow> fold (put_meta vid F) xs M (vid (fst x)) = Some (F x (the (M (vid (fst x)))))"
proof (induction xs arbitrary: M)
  case (Cons y xs)
  show ?case
  proof (cases "x = y")
    case True
    have "vid (fst y) \<notin> vid ` fst ` set xs" using Cons.prems(1) by (auto simp: image_comp)
    then show ?thesis by (simp add: True put_meta_other) (simp add: put_meta_def)
  next
    case False
    then have "vid (fst x) \<noteq> vid (fst y)" using Cons.prems by (auto simp: image_def)
    then show ?thesis using False Cons by (simp add: put_meta_def)
  qed
qed simp

lemma put_meta_dom: "vid ` fst ` set xs \<subseteq> dom M \<Longrightarrow> dom (fold (put_meta vid F) xs M) = dom M"
  by (induction xs arbitrary: M) (auto simp: put_meta_def insert_absorb)

text \<open>Stores with the same keys, that differ in the metadata and the weights.\<close>

definition same_keys :: "('vg, 'cg) value_store \<Rightarrow> ('vg, 'cg) value_store \<Rightarrow> bool" where
  "same_keys st st' \<longleftrightarrow> vs_assoc_cache st' = vs_assoc_cache st \<and> dom (map_of (vs_metadata st')) = dom (map_of (vs_metadata st))"

lemma same_keys_simps:
  assumes "same_keys st st'"
  shows "get_by_assoc hash st' k = get_by_assoc hash st k" and "has_value hash st' ob = has_value hash st ob"
    and "covered hash D st' = covered hash D st" and "vid_of hash st' = vid_of hash st"
proof -
  show g: "get_by_assoc hash st' k = get_by_assoc hash st k" for k using assms by (simp add: same_keys_def get_by_assoc_def)
  show "has_value hash st' ob = has_value hash st ob" by (simp add: has_value_def g)
  show "vid_of hash st' = vid_of hash st" by (rule ext) (simp add: vid_of_def g)
  have "(\<exists>m. map_of (vs_metadata st') vid = Some m) = (\<exists>m. map_of (vs_metadata st) vid = Some m)" for vid
    using assms unfolding same_keys_def dom_def by auto
  then show "covered hash D st' = covered hash D st" unfolding covered_def g by simp
qed

lemma same_keys_trans: "same_keys st st' \<Longrightarrow> same_keys st' st'' \<Longrightarrow> same_keys st st''"
  by (simp add: same_keys_def)

definition filled :: "(object_id list \<Rightarrow> object_id list) \<Rightarrow> (object_id \<Rightarrow> value_id) \<Rightarrow> object_id \<times> object_id list \<Rightarrow> 'cg value_metadata \<Rightarrow> 'cg value_metadata" where
  "filled order vid x m = m\<lparr>vm_object_id := Some (fst x), vm_internal_refs := Some (map vid (order (snd x)))\<rparr>"

lemma fill_value_ok:
  assumes V: "graph_laws V" and wf: "vs_wf V st" and si: "interner_wf si" and D: "D = dom (space_heap space)"
    and cov: "covered hash D st" and v: "space_heap space ob = Some v" "closed_value space v"
    and refs: "set (order refs) \<subseteq> D" and room: "ssa_next_free (si_map si) + dict_size v \<le> 2 ^ 32"
  shows "\<exists>st' si'. fill_value V hash hash_str order space ob refs (st, si) = Inr (st', si') \<and> vs_wf V st' \<and> same_keys st st'
    \<and> map_of (vs_metadata st') = put_meta (vid_of hash st) (filled order (vid_of hash st)) (ob, refs) (map_of (vs_metadata st))
    \<and> interner_wf si' \<and> ssa_next_free (si_map si') \<le> ssa_next_free (si_map si) + dict_size v"
proof -
  obtain vid m where vid: "get_by_assoc hash st (ObjectKey ob) = Some vid" "map_of (vs_metadata st) vid = Some m"
    using cov v(1) D unfolding covered_def by blast
  have props: "\<exists>st1 si1. (case module_dict v of None \<Rightarrow> Inr (st, si) | Some d \<Rightarrow> module_properties V hash hash_str space vid d (st, si)) = Inr (st1, si1)
      \<and> vs_wf V st1 \<and> vs_assoc_cache st1 = vs_assoc_cache st \<and> vs_metadata st1 = vs_metadata st
      \<and> interner_wf si1 \<and> ssa_next_free (si_map si1) \<le> ssa_next_free (si_map si) + dict_size v"
  proof (cases "module_dict v")
    case (Some d)
    have "\<exists>st1 si1. module_properties V hash hash_str space vid d (st, si) = Inr (st1, si1) \<and> vs_wf V st1
      \<and> vs_assoc_cache st1 = vs_assoc_cache st \<and> vs_metadata st1 = vs_metadata st
      \<and> interner_wf si1 \<and> ssa_next_free (si_map si1) \<le> ssa_next_free (si_map si) + length d"
    proof (rule module_properties_ok [OF V wf si])
      show "ssa_next_free (si_map si) + length d \<le> 2 ^ 32" using room Some by (simp add: dict_size_def)
      show "(\<exists>s. space_heap space k = Some (PvStr s)) \<and> has_value hash st w" if "(h, k, w) \<in> set d" for h k w
        using v(2) Some that cov D unfolding closed_value_def covered_def has_value_def by blast
    qed
    then show ?thesis by (simp add: Some dict_size_def)
  qed (use wf si in simp)
  then obtain st1 si1 where s1: "(case module_dict v of None \<Rightarrow> Inr (st, si) | Some d \<Rightarrow> module_properties V hash hash_str space vid d (st, si)) = Inr (st1, si1)"
    "vs_wf V st1" "vs_assoc_cache st1 = vs_assoc_cache st" "vs_metadata st1 = vs_metadata st"
    "interner_wf si1" "ssa_next_free (si_map si1) \<le> ssa_next_free (si_map si) + dict_size v" by blast
  have same: "same_keys st st1" using s1(3,4) by (simp add: same_keys_def)
  note keys = same_keys_simps [OF same]
  have m1: "map_of (vs_metadata st1) vid = Some m" and a1: "get_by_assoc hash st1 (ObjectKey ob) = Some vid" using vid s1(4) keys(1) by simp_all
  let ?f = "\<lambda>vids meta. meta\<lparr>vm_object_id := Some ob, vm_internal_refs := Some vids\<rparr>"
  have set: "set_refs V hash (ValueKey vid) (order refs) ?f st1 =
      Inr (st1\<lparr>vs_metadata := assoc_put vid (?f (map (vid_of hash st) (order refs)) m) (vs_metadata st1)\<rparr>)"
    using set_refs_ok [OF s1(2) _ refs resolve_known(2) [OF s1(2) a1 m1] m1, where f = ?f] cov keys by simp
  have obj: "with_object ob module_dict space = Inr (module_dict v)" using v(1) by (simp add: with_object_def space_heap_def)
  have meta: "(map_of (vs_metadata st))(vid \<mapsto> ?f (map (vid_of hash st) (order refs)) m)
      = put_meta (vid_of hash st) (filled order (vid_of hash st)) (ob, refs) (map_of (vs_metadata st))"
    using vid by (simp add: put_meta_def filled_def vid_of_def)
  let ?st = "st1\<lparr>vs_metadata := assoc_put vid (?f (map (vid_of hash st) (order refs)) m) (vs_metadata st1)\<rparr>"
  have run: "fill_value V hash hash_str order space ob refs (st, si) = Inr (?st, si1)"
    by (simp add: fill_value_def vid(1) obj s1(1) set)
  have "same_keys st ?st" using vid(2) s1(3,4) by (simp add: same_keys_def insert_absorb domI)
  moreover have "vs_wf V ?st" by (rule vs_wf_put [OF s1(2) m1]) simp
  ultimately show ?thesis using run s1(4-6) meta by (intro exI [of _ ?st] exI [of _ si1]) simp
qed

lemma fill_values_ok:
  assumes V: "graph_laws V" and D: "D = dom (space_heap space)" and order: "\<And>xs. set (order xs) = set xs"
  shows "vs_wf V st \<Longrightarrow> interner_wf si \<Longrightarrow> covered hash D st \<Longrightarrow>
    (\<And>ob refs. (ob, refs) \<in> set new \<Longrightarrow> \<exists>v. space_heap space ob = Some v \<and> closed_value space v \<and> set refs \<subseteq> D) \<Longrightarrow>
    ssa_next_free (si_map si) + (\<Sum>(ob, _) \<leftarrow> new. dict_size (the (space_heap space ob))) \<le> 2 ^ 32 \<Longrightarrow>
    \<exists>st' si'. fill_values V hash hash_str order space new (st, si) = Inr (st', si') \<and> vs_wf V st' \<and> same_keys st st'
      \<and> map_of (vs_metadata st') = fold (put_meta (vid_of hash st) (filled order (vid_of hash st))) new (map_of (vs_metadata st))"
proof (induction new arbitrary: st si)
  case Nil
  then show ?case by (simp add: same_keys_def)
next
  case (Cons x new)
  obtain ob refs where x: "x = (ob, refs)" by (cases x)
  obtain v where v: "space_heap space ob = Some v" "closed_value space v" "set refs \<subseteq> D" using Cons.prems(4) [of ob refs] x by auto
  obtain st1 si1 where 1: "fill_value V hash hash_str order space ob refs (st, si) = Inr (st1, si1)" "vs_wf V st1" "same_keys st st1"
    "map_of (vs_metadata st1) = put_meta (vid_of hash st) (filled order (vid_of hash st)) (ob, refs) (map_of (vs_metadata st))"
    "interner_wf si1" "ssa_next_free (si_map si1) \<le> ssa_next_free (si_map si) + dict_size v"
    using fill_value_ok [OF V Cons.prems(1,2) D Cons.prems(3) v(1,2), of order refs hash_str] v(1,3) order Cons.prems(5) x by auto
  note keys = same_keys_simps [OF 1(3)]
  have "\<exists>st' si'. fill_values V hash hash_str order space new (st1, si1) = Inr (st', si') \<and> vs_wf V st' \<and> same_keys st1 st'
      \<and> map_of (vs_metadata st') = fold (put_meta (vid_of hash st1) (filled order (vid_of hash st1))) new (map_of (vs_metadata st1))"
  proof (rule Cons.IH [OF 1(2,5)])
    show "covered hash D st1" using Cons.prems(3) keys by simp
    show "ssa_next_free (si_map si1) + (\<Sum>(ob, _) \<leftarrow> new. dict_size (the (space_heap space ob))) \<le> 2 ^ 32"
      using Cons.prems(5) 1(6) v(1) x by simp
    show "\<exists>v. space_heap space ob' = Some v \<and> closed_value space v \<and> set refs' \<subseteq> D" if "(ob', refs') \<in> set new" for ob' refs'
      using Cons.prems(4) that by (meson list.set_intros(2))
  qed
  then obtain st' si' where 2: "fill_values V hash hash_str order space new (st1, si1) = Inr (st', si')" "vs_wf V st'" "same_keys st1 st'"
    "map_of (vs_metadata st') = fold (put_meta (vid_of hash st) (filled order (vid_of hash st))) new (map_of (vs_metadata st1))"
    unfolding keys by blast
  then show ?case using 1(1,4) same_keys_trans [OF 1(3) 2(3)] by (simp add: x)
qed

definition refreshed :: "(object_id list \<Rightarrow> object_id list) \<Rightarrow> (object_id \<Rightarrow> value_id) \<Rightarrow> object_id \<times> object_id list option
    \<Rightarrow> 'cg value_metadata \<Rightarrow> 'cg value_metadata" where
  "refreshed order vid x m = m\<lparr>vm_internal_refs := Some (map vid (case snd x of None \<Rightarrow> [] | Some r \<Rightarrow> order r))\<rparr>"

lemma update_values_ok:
  assumes order: "\<And>xs. set (order xs) = set xs"
  shows "vs_wf V st \<Longrightarrow> covered hash D st \<Longrightarrow>
    (\<And>ob r. (ob, r) \<in> set upd \<Longrightarrow> ob \<in> D \<and> (\<forall>refs. r = Some refs \<longrightarrow> set refs \<subseteq> D)) \<Longrightarrow>
    \<exists>st'. update_values V hash order upd st = Inr st' \<and> vs_wf V st' \<and> same_keys st st'
      \<and> map_of (vs_metadata st') = fold (put_meta (vid_of hash st) (refreshed order (vid_of hash st))) upd (map_of (vs_metadata st))"
proof (induction upd arbitrary: st)
  case Nil
  then show ?case by (simp add: same_keys_def)
next
  case (Cons x upd)
  obtain ob r where x: "x = (ob, r)" by (cases x)
  let ?refs = "case r of None \<Rightarrow> [] | Some r \<Rightarrow> order r"
  have ob: "ob \<in> D" and refs: "set ?refs \<subseteq> D" using Cons.prems(3) [of ob r] x order by (auto split: option.split)
  obtain vid m where vid: "get_by_assoc hash st (ObjectKey ob) = Some vid" "map_of (vs_metadata st) vid = Some m"
    using Cons.prems(2) ob unfolding covered_def by blast
  let ?m = "m\<lparr>vm_internal_refs := Some (map (vid_of hash st) ?refs)\<rparr>"
  let ?st = "st\<lparr>vs_metadata := assoc_put vid ?m (vs_metadata st)\<rparr>"
  have set: "set_refs V hash (object_key ob) ?refs (\<lambda>vids m. m\<lparr>vm_internal_refs := Some vids\<rparr>) st = Inr ?st"
    using set_refs_ok [OF Cons.prems(1,2) refs _ vid(2), of "object_key ob"] resolve_known(1) [OF Cons.prems(1) vid] by (simp add: object_key_def)
  have same: "same_keys st ?st" using vid(2) by (auto simp: same_keys_def)
  note keys = same_keys_simps [OF same]
  have "\<exists>st'. update_values V hash order upd ?st = Inr st' \<and> vs_wf V st' \<and> same_keys ?st st'
      \<and> map_of (vs_metadata st') = fold (put_meta (vid_of hash ?st) (refreshed order (vid_of hash ?st))) upd (map_of (vs_metadata ?st))"
  proof (rule Cons.IH)
    show "vs_wf V ?st" by (rule vs_wf_put [OF Cons.prems(1) vid(2)]) simp
    show "covered hash D ?st" using Cons.prems(2) keys by simp
    show "ob' \<in> D \<and> (\<forall>refs. r' = Some refs \<longrightarrow> set refs \<subseteq> D)" if "(ob', r') \<in> set upd" for ob' r'
      using Cons.prems(3) [of ob' r'] that by simp
  qed
  then obtain st' where 2: "update_values V hash order upd ?st = Inr st'" "vs_wf V st'" "same_keys ?st st'"
    "map_of (vs_metadata st') = fold (put_meta (vid_of hash st) (refreshed order (vid_of hash st))) upd (map_of (vs_metadata ?st))"
    unfolding keys by blast
  have "map_of (vs_metadata ?st) = put_meta (vid_of hash st) (refreshed order (vid_of hash st)) x (map_of (vs_metadata st))"
    using vid by (simp add: put_meta_def refreshed_def vid_of_def x)
  then show ?case using set 2 same_keys_trans [OF same 2(3)] by (simp add: x)
qed

section \<open>Discovery is complete\<close>

lemma stale_refs:
  assumes "stale hash st ob v = Some r" shows "(case r of None \<Rightarrow> [] | Some r \<Rightarrow> r) = ref_list v" and "has_value hash st ob"
  using assms by (auto simp: stale_def refs_update_def has_value_def Let_def and_then_Inr_iff split: option.splits sum.splits if_splits)

text \<open>An object whose references did not change keeps its metadata.\<close>

lemma not_stale_refs:
  assumes lk: "linked hash D st" and ob: "ob \<in> D" "get_by_assoc hash st (ObjectKey ob) = Some vid" and m: "map_of (vs_metadata st) vid = Some m"
    and s: "stale hash st ob v = None"
  shows "value_refs st m = Some ` set (ref_list v)"
proof (cases "vm_internal_refs m")
  case None
  then show ?thesis using s ob(2) m by (auto simp: stale_def refs_update_def value_refs_def split: if_splits)
next
  case (Some a)
  have a: "\<exists>o'. alloc_id_of st r = Some o'" if "r \<in> set a" for r
    using lk ob m that Some unfolding linked_def by (metis not_None_eq option.inject)
  then have all: "unwrap_all (alloc_id_of st) a = Inr (map (the \<circ> alloc_id_of st) a)" by (intro unwrap_all_Inr) auto
  have "set (map (the \<circ> alloc_id_of st) a) = set (ref_list v)"
    using s ob(2) m Some all by (auto simp: stale_def refs_update_def split: if_splits)
  moreover have "alloc_id_of st ` set a = Some ` set (map (the \<circ> alloc_id_of st) a)" using a by (force simp: image_iff)
  ultimately show ?thesis by (simp add: value_refs_def Some)
qed

text \<open>The keys after the new values are there: one value for each object, and none shared.\<close>

lemma new_keys:
  assumes lk: "linked hash D st" and ext: "extends_store hash obs vids st st1" and obs: "set obs = {ob \<in> D. \<not> has_value hash st ob}"
  shows "covered hash D st1" and "inj_on (vid_of hash st1) D"
    and "ob \<in> D \<Longrightarrow> has_value hash st ob \<Longrightarrow> get_by_assoc hash st1 (ObjectKey ob) = get_by_assoc hash st (ObjectKey ob)"
    and "ob \<in> D \<Longrightarrow> \<not> has_value hash st ob \<Longrightarrow> vid_of hash st1 ob \<in> set vids"
    and "ob \<in> D \<Longrightarrow> has_value hash st ob \<Longrightarrow> vid_of hash st1 ob \<in> dom (map_of (vs_metadata st))"
proof -
  note e = ext [unfolded extends_store_def]
  show old: "get_by_assoc hash st1 (ObjectKey ob) = get_by_assoc hash st (ObjectKey ob)" if "ob \<in> D" "has_value hash st ob" for ob
  proof -
    have "hash (ObjectKey ob) \<notin> (\<lambda>ob. hash (ObjectKey ob)) ` set obs"
      using lk that obs unfolding linked_def inj_on_def by auto
    then show ?thesis using e by blast
  qed
  have new: "\<exists>i < length obs. obs ! i = ob \<and> get_by_assoc hash st1 (ObjectKey ob) = Some (vids ! i) \<and> vids ! i \<in> set vids"
    if "ob \<in> D" "\<not> has_value hash st ob" for ob
  proof -
    have "ob \<in> set obs" using that obs by simp
    then show ?thesis using e by (auto simp: in_set_conv_nth)
  qed
  then show new': "vid_of hash st1 ob \<in> set vids" if "ob \<in> D" "\<not> has_value hash st ob" for ob using that by (fastforce simp: vid_of_def)
  have m: "\<exists>m. map_of (vs_metadata st) (vid_of hash st1 ob) = Some m \<and> vm_object_id m = Some ob" if "ob \<in> D" "has_value hash st ob" for ob
    using lk that old [OF that] unfolding linked_def has_value_def vid_of_def by fastforce
  then show old': "vid_of hash st1 ob \<in> dom (map_of (vs_metadata st))" if "ob \<in> D" "has_value hash st ob" for ob using that by blast
  have disj: "vid \<notin> set vids" if "vid \<in> dom (map_of (vs_metadata st))" for vid using e that by auto
  show "covered hash D st1" unfolding covered_def
  proof
    fix ob assume ob: "ob \<in> D"
    show "\<exists>vid m. get_by_assoc hash st1 (ObjectKey ob) = Some vid \<and> map_of (vs_metadata st1) vid = Some m"
    proof (cases "has_value hash st ob")
      case True
      then obtain vid where "get_by_assoc hash st1 (ObjectKey ob) = Some vid" using old ob by (auto simp: has_value_def)
      then show ?thesis using e m [OF ob True] disj [OF old' [OF ob True]] by (auto simp: vid_of_def)
    next
      case False
      then show ?thesis using e new [OF ob False] by auto
    qed
  qed
  show "inj_on (vid_of hash st1) D"
  proof (rule inj_onI)
    fix ob ob' assume D: "ob \<in> D" "ob' \<in> D" and eq: "vid_of hash st1 ob = vid_of hash st1 ob'"
    show "ob = ob'"
    proof (cases "has_value hash st ob"; cases "has_value hash st ob'")
      assume "has_value hash st ob" "has_value hash st ob'"
      then show ?thesis using m [OF D(1)] m [OF D(2)] eq by auto
    next
      assume k: "\<not> has_value hash st ob" "\<not> has_value hash st ob'"
      obtain i j where "i < length obs" "obs ! i = ob" "get_by_assoc hash st1 (ObjectKey ob) = Some (vids ! i)"
        "j < length obs" "obs ! j = ob'" "get_by_assoc hash st1 (ObjectKey ob') = Some (vids ! j)"
        using new [OF D(1) k(1)] new [OF D(2) k(2)] by blast
      moreover from this have "i = j" using eq e by (simp add: vid_of_def nth_eq_iff_index_eq)
      ultimately show ?thesis by simp
    qed (use eq new' old' disj D in metis)+
  qed
qed

text \<open>The metadata after the two passes.\<close>

lemma passes_metadata:
  assumes lk: "linked hash (dom heap) st" and ext: "extends_store hash (map fst new) vids st st1"
    and new: "distinct (map fst new)" "set new = {(ob, r). \<exists>v. heap ob = Some v \<and> no_value hash st ob v = Some r}"
    and upd: "distinct (map fst upd)" "set upd = {(ob, r). \<exists>v. heap ob = Some v \<and> stale hash st ob v = Some r}"
    and vid: "vid = vid_of hash st1"
    and M: "M = fold (put_meta vid (refreshed order vid)) upd (fold (put_meta vid (filled order vid)) new (map_of (vs_metadata st1)))"
    and ob: "heap ob = Some v"
  shows "\<not> has_value hash st ob \<Longrightarrow> M (vid ob) = Some (filled order vid (ob, ref_list v) (metadata_default (vid ob)))"
    and "stale hash st ob v = Some r \<Longrightarrow> M (vid ob) = Some (refreshed order vid (ob, r) (the (map_of (vs_metadata st) (vid ob))))"
    and "has_value hash st ob \<Longrightarrow> stale hash st ob v = None \<Longrightarrow> M (vid ob) = map_of (vs_metadata st) (vid ob)"
    and "map_of (vs_metadata st) i = Some m \<Longrightarrow> \<exists>m'. M i = Some m' \<and> vm_object_id m' = vm_object_id m"
proof -
  let ?M1 = "map_of (vs_metadata st1)"
  let ?M2 = "fold (put_meta vid (filled order vid)) new ?M1"
  have obs: "set (map fst new) = {ob \<in> dom heap. \<not> has_value hash st ob}" using new(2) by (force simp: no_value_def image_iff)
  note keys = new_keys [OF lk ext obs, folded vid]
  have M1: "?M1 i = (if i \<in> set vids then Some (metadata_default i) else map_of (vs_metadata st) i)" for i
    using ext unfolding extends_store_def by blast
  have disj: "i \<notin> set vids" if "i \<in> dom (map_of (vs_metadata st))" for i using ext that unfolding extends_store_def by blast
  have upd_known: "ob' \<in> dom heap \<and> has_value hash st ob'" if "ob' \<in> fst ` set upd" for ob'
    using that upd(2) stale_refs(2) by fastforce
  have dn: "distinct (map (vid \<circ> fst) new)" using new(1) obs by (simp add: distinct_map comp_inj_on [OF _ inj_on_subset [OF keys(2)]])
  have du: "distinct (map (vid \<circ> fst) upd)" using upd(1) upd_known by (simp add: distinct_map comp_inj_on [OF _ inj_on_subset [OF keys(2)]] subsetI)
  have other_new: "?M2 i = ?M1 i" if "i \<notin> set vids" for i
    using that keys(4) obs by (intro put_meta_other) auto
  have other_upd: "M i = ?M2 i" if "i \<notin> vid ` fst ` set upd" for i unfolding M by (rule put_meta_other [OF that])
  have not_upd: "vid ob \<notin> vid ` fst ` set upd" if "stale hash st ob v = None"
  proof
    assume "vid ob \<in> vid ` fst ` set upd"
    then obtain ob' where "ob' \<in> fst ` set upd" "vid ob = vid ob'" by blast
    then have "ob \<in> fst ` set upd" using keys(2) upd_known [of ob'] ob by (metis domI inj_onD)
    then show False using upd(2) that ob by auto
  qed
  show "M (vid ob) = Some (filled order vid (ob, ref_list v) (metadata_default (vid ob)))" if k: "\<not> has_value hash st ob"
  proof -
    have "(ob, ref_list v) \<in> set new" using new(2) ob k by (auto simp: no_value_def)
    from put_meta_at [OF dn this, of "filled order vid" ?M1] have "?M2 (vid ob) = Some (filled order vid (ob, ref_list v) (metadata_default (vid ob)))"
      using M1 keys(4) ob k by auto
    moreover have "stale hash st ob v = None" using k by (simp add: stale_def has_value_def split: option.split)
    ultimately show ?thesis using other_upd [OF not_upd] by simp
  qed
  show "M (vid ob) = Some (refreshed order vid (ob, r) (the (map_of (vs_metadata st) (vid ob))))" if s: "stale hash st ob v = Some r"
  proof -
    have "(ob, r) \<in> set upd" using upd(2) ob s by auto
    then have "M (vid ob) = Some (refreshed order vid (ob, r) (the (?M2 (vid ob))))" unfolding M using put_meta_at [OF du] by fastforce
    moreover have "vid ob \<notin> set vids" using keys(5) [of ob] ob stale_refs(2) [OF s] disj by blast
    ultimately show ?thesis using other_new M1 by simp
  qed
  show "M (vid ob) = map_of (vs_metadata st) (vid ob)" if "has_value hash st ob" "stale hash st ob v = None"
    using other_upd [OF not_upd] that other_new M1 disj keys(5) [of ob] ob by auto
  show "\<exists>m'. M i = Some m' \<and> vm_object_id m' = vm_object_id m" if i: "map_of (vs_metadata st) i = Some m"
  proof (cases "i \<in> vid ` fst ` set upd")
    case True
    then obtain x where x: "x \<in> set upd" "i = vid (fst x)" by auto
    have "M i = Some (refreshed order vid x (the (?M2 i)))" unfolding M x(2) by (rule put_meta_at [OF du x(1)])
    moreover have "i \<notin> set vids" using disj i by blast
    ultimately show ?thesis using other_new [of i] M1 [of i] i by (simp add: refreshed_def)
  next
    case False
    then show ?thesis using other_upd other_new [of i] M1 [of i] disj [of i] i by auto
  qed
qed

lemma filled_refs:
  assumes "set (order refs) = set refs" and "\<And>ob. ob \<in> set refs \<Longrightarrow> alloc_id_of st (vid ob) = Some ob"
    and "vm_internal_refs m = Some (map vid (order refs))"
  shows "value_refs st m = Some ` set refs"
  using assms by (auto simp: value_refs_def image_image)

lemma discovered_all:
  assumes lk: "linked hash (dom heap) st" and closed: "\<And>ob v. heap ob = Some v \<Longrightarrow> set (ref_list v) \<subseteq> dom heap"
    and order: "\<And>xs. set (order xs) = set xs"
    and ext: "extends_store hash (map fst new) vids st st1"
    and new: "distinct (map fst new)" "set new = {(ob, r). \<exists>v. heap ob = Some v \<and> no_value hash st ob v = Some r}"
    and upd: "distinct (map fst upd)" "set upd = {(ob, r). \<exists>v. heap ob = Some v \<and> stale hash st ob v = Some r}"
    and same: "same_keys st1 st3"
    and M: "map_of (vs_metadata st3) = fold (put_meta (vid_of hash st1) (refreshed order (vid_of hash st1))) upd
        (fold (put_meta (vid_of hash st1) (filled order (vid_of hash st1))) new (map_of (vs_metadata st1)))"
    and ob: "heap ob = Some v"
  shows "discovered hash st3 ob v" and "alloc_id_of st3 (vid_of hash st1 ob) = Some ob"
proof -
  let ?vid = "vid_of hash st1"
  note pass = passes_metadata [OF lk ext new upd refl M]
  have obs: "set (map fst new) = {ob \<in> dom heap. \<not> has_value hash st ob}" using new(2) by (force simp: no_value_def image_iff)
  note keys = new_keys [OF lk ext obs]
  have meta: "\<exists>m. map_of (vs_metadata st) (?vid ob) = Some m \<and> vm_object_id m = Some ob" if "ob \<in> dom heap" "has_value hash st ob" for ob
    using lk keys(3) [OF that] that unfolding linked_def has_value_def vid_of_def by fastforce
  have alloc: "alloc_id_of st3 (?vid ob) = Some ob" if "heap ob = Some v" for ob v
  proof (cases "has_value hash st ob")
    case False
    then show ?thesis using pass(1) [OF that] by (simp add: alloc_id_of_def filled_def)
  next
    case True
    then show ?thesis using meta [of ob] pass(4) [OF that] that by (fastforce simp: alloc_id_of_def)
  qed
  from alloc [OF ob] show "alloc_id_of st3 (?vid ob) = Some ob" .
  have refs: "alloc_id_of st3 (?vid o') = Some o'" if "o' \<in> set (ref_list v)" for o'
    using closed [OF ob] that alloc by blast
  have "\<exists>m. map_of (vs_metadata st3) (?vid ob) = Some m \<and> vm_object_id m = Some ob \<and> value_refs st3 m = Some ` set (ref_list v)"
  proof (cases "has_value hash st ob")
    case False
    show ?thesis using pass(1) [OF ob False] filled_refs [of order "ref_list v" st3 ?vid, OF order refs] by (auto simp: filled_def)
  next
    case True
    obtain m where m: "map_of (vs_metadata st) (?vid ob) = Some m" "vm_object_id m = Some ob" using meta True ob by blast
    show ?thesis
    proof (cases "stale hash st ob v")
      case None
      have "ob \<in> dom heap" using ob by blast
      have vid: "get_by_assoc hash st (ObjectKey ob) = Some (?vid ob)"
        using keys(3) [OF \<open>ob \<in> dom heap\<close> True] True by (auto simp: has_value_def vid_of_def)
      from not_stale_refs [OF lk \<open>ob \<in> dom heap\<close> vid m(1) None] have r: "value_refs st m = Some ` set (ref_list v)" .
      moreover have "alloc_id_of st3 i = alloc_id_of st i" if "vm_internal_refs m = Some a" "i \<in> set a" for a i
      proof -
        have "alloc_id_of st i \<noteq> None" using linkedD [OF lk \<open>ob \<in> dom heap\<close> vid] m(1) that by auto
        then obtain mi where "map_of (vs_metadata st) i = Some mi" by (cases "map_of (vs_metadata st) i") (simp_all add: alloc_id_of_def)
        then show ?thesis using pass(4) [OF ob] by (fastforce simp: alloc_id_of_def)
      qed
      then have "value_refs st3 m = value_refs st m" by (cases "vm_internal_refs m") (auto simp: value_refs_def)
      ultimately show ?thesis using pass(3) [OF ob True None] m by simp
    next
      case (Some r)
      have l: "(case r of None \<Rightarrow> [] | Some r \<Rightarrow> r) = ref_list v" by (rule stale_refs(1) [OF Some])
      have "value_refs st3 (refreshed order ?vid (ob, r) m) = Some ` set (ref_list v)"
        unfolding value_refs_def refreshed_def using l refs order by (cases r) (auto simp: image_image)
      then show ?thesis using pass(2) [OF ob Some] m by (auto simp: refreshed_def)
    qed
  qed
  moreover have "ob \<in> dom heap" using ob by blast
  from coveredD [OF keys(1) this] have "get_by_assoc hash st3 (ObjectKey ob) = Some (?vid ob)"
    unfolding same_keys_simps(1) [OF same] vid_of_def by auto
  ultimately show "discovered hash st3 ob v" unfolding discovered_def by blast
qed

lemma discovered_linked:
  assumes "inj_on (\<lambda>ob. hash (ObjectKey ob)) (dom heap)" and "\<And>ob v. heap ob = Some v \<Longrightarrow> discovered hash st ob v"
  shows "linked hash (dom heap) st"
  unfolding linked_def
proof (intro conjI ballI allI impI)
  fix ob vid assume ob: "ob \<in> dom heap" and vid: "get_by_assoc hash st (ObjectKey ob) = Some vid"
  obtain v where "heap ob = Some v" using ob by blast
  from assms(2) [OF this] vid obtain m where m: "map_of (vs_metadata st) vid = Some m" "vm_object_id m = Some ob"
    "value_refs st m = Some ` set (ref_list v)" by (auto simp: discovered_def)
  have "alloc_id_of st r \<noteq> None" if "vm_internal_refs m = Some refs" "r \<in> set refs" for refs r
  proof -
    have "alloc_id_of st r \<in> value_refs st m" using that by (simp add: value_refs_def)
    then show ?thesis unfolding m(3) by auto
  qed
  then show "\<exists>m. map_of (vs_metadata st) vid = Some m \<and> vm_object_id m = Some ob
      \<and> (\<forall>refs. vm_internal_refs m = Some refs \<longrightarrow> (\<forall>r\<in>set refs. alloc_id_of st r \<noteq> None))" using m(1,2) by blast
qed (rule assms(1))

text \<open>
  C19. Discovery is complete. Stirring a dirty pot, over a closed object space with room for the new
  values, does not panic; afterwards the pot is clean, every object has a value of its own whose
  metadata names the object, the references recorded for the value are exactly the values of the
  objects the object refers to now, and the objects that had a value keep it. It does not depend on
  the order in which the hash sets and maps are read.
\<close>

theorem discovery_complete:
  assumes V: "graph_laws V" and wf: "vs_wf V st" and si: "interner_wf si"
    and closed: "closed_space space" and lk: "linked hash (dom (space_heap space)) st"
    and ord: "\<And>xs. mset (o_set ord xs) = mset xs" "\<And>xs. mset (o_new ord xs) = mset xs"
    and room: "length (g_weights V (vs_graph st)) + length (os_inner space) \<le> 2 ^ 32 - 1"
    and names: "ssa_next_free (si_map si) + (\<Sum>(_, v) \<leftarrow> os_inner space. dict_size v) \<le> 2 ^ 32"
  shows "\<exists>st' si'. stir_the_pot V hash hash_str ord space (True, st, si) = Inr (False, st', si')
    \<and> vs_wf V st' \<and> linked hash (dom (space_heap space)) st'
    \<and> (\<forall>ob v. space_heap space ob = Some v \<longrightarrow> discovered hash st' ob v
        \<and> (\<forall>vid. get_by_assoc hash st (ObjectKey ob) = Some vid \<longrightarrow> get_by_assoc hash st' (ObjectKey ob) = Some vid))"
proof -
  let ?D = "dom (space_heap space)" and ?objs = "os_inner space"
  let ?new = "kept_entries (no_value hash st) ?objs" and ?upd = "kept_entries (stale hash st) ?objs"
  have objs: "distinct (map fst ?objs)" "\<And>ob v. (ob, v) \<in> set ?objs \<Longrightarrow> closed_value space v"
    and heap: "\<And>ob v. (ob, v) \<in> set ?objs \<longleftrightarrow> space_heap space ob = Some v"
    using closed by (auto simp: closed_space_def space_heap_def)
  have D: "fst ` set ?objs = ?D" by (simp add: space_heap_def dom_map_of_conv_image_fst)
  have scan: "scan_objects V hash st ?objs ([], []) = Inr (?new, ?upd)"
    using scan_objects_ok [OF wf lk, of ?objs space "[]" "[]"] objs D by simp
  let ?n = "o_new ord ?new"
  note mset = ord(2) [of ?new]
  have n_new: "mset (map fst ?n) = mset (map fst ?new)" "length ?n = length ?new" "set ?n = set ?new"
    unfolding mset_map mset by (rule refl, rule mset_eq_length [OF mset], rule mset_eq_setD [OF mset])
  have n: "distinct (map fst ?n)" "set ?n = {(ob, r). \<exists>v. space_heap space ob = Some v \<and> no_value hash st ob v = Some r}"
    using kept_entries_distinct [OF objs(1)] mset_eq_imp_distinct_iff [OF n_new(1)] by (auto simp: n_new(3) kept_entries_set heap)
  have upd: "distinct (map fst ?upd)" "set ?upd = {(ob, r). \<exists>v. space_heap space ob = Some v \<and> stale hash st ob v = Some r}"
    using kept_entries_distinct [OF objs(1)] by (auto simp: kept_entries_set heap)
  have order: "set (o_set ord xs) = set xs" for xs using ord(1) [of xs] by (rule mset_eq_setD)
  have "sum_list (map (\<lambda>(ob, _). dict_size (the (space_heap space ob))) ?n) = sum_list (map (\<lambda>(ob, _). dict_size (the (space_heap space ob))) ?new)"
    using mset by (simp flip: sum_mset_sum_list)
  also have "\<dots> \<le> (\<Sum>(_, v) \<leftarrow> ?objs. dict_size v)" by (rule kept_entries_sum) (simp add: heap)
  finally have names': "ssa_next_free (si_map si) + (\<Sum>(ob, _) \<leftarrow> ?n. dict_size (the (space_heap space ob))) \<le> 2 ^ 32" using names by simp
  have "\<exists>vids st1. new_values V hash (map fst ?n) st = Inr st1 \<and> vs_wf V st1 \<and> extends_store hash (map fst ?n) vids st st1"
  proof (rule new_values_ok [OF V wf _ n(1)])
    show "length (g_weights V (vs_graph st)) + length (map fst ?n) \<le> 2 ^ 32 - 1"
      using room kept_entries_length [of "no_value hash st" ?objs] by (simp add: n_new(2))
    show "inj_on (\<lambda>ob. hash (ObjectKey ob)) (set (map fst ?n))"
      using lk n(2) by (auto simp: linked_def intro: inj_on_subset)
    show "\<not> has_value hash st ob" if "ob \<in> set (map fst ?n)" for ob using that n(2) by (auto simp: no_value_def split: if_splits)
  qed
  then obtain vids st1 where st1: "new_values V hash (map fst ?n) st = Inr st1" "vs_wf V st1" "extends_store hash (map fst ?n) vids st st1" by blast
  have obs: "set (map fst ?n) = {ob \<in> ?D. \<not> has_value hash st ob}" using n(2) by (force simp: no_value_def image_iff)
  note keys = new_keys [OF lk st1(3) obs]
  have refs: "set (ref_list v) \<subseteq> ?D" if "space_heap space ob = Some v" for ob v
    using closed_value_ref_list objs(2) heap that by blast
  have "\<exists>st2 si2. fill_values V hash hash_str (o_set ord) space ?n (st1, si) = Inr (st2, si2) \<and> vs_wf V st2 \<and> same_keys st1 st2
      \<and> map_of (vs_metadata st2) = fold (put_meta (vid_of hash st1) (filled (o_set ord) (vid_of hash st1))) ?n (map_of (vs_metadata st1))"
    by (rule fill_values_ok [OF V refl order st1(2) si keys(1) _ names'])
      (use n(2) refs objs(2) heap in \<open>auto simp: no_value_def split: if_splits\<close>)
  then obtain st2 si2 where st2: "fill_values V hash hash_str (o_set ord) space ?n (st1, si) = Inr (st2, si2)" "vs_wf V st2" "same_keys st1 st2"
    "map_of (vs_metadata st2) = fold (put_meta (vid_of hash st1) (filled (o_set ord) (vid_of hash st1))) ?n (map_of (vs_metadata st1))" by blast
  note same2 = same_keys_simps [OF st2(3)]
  have "\<exists>st3. update_values V hash (o_set ord) ?upd st2 = Inr st3 \<and> vs_wf V st3 \<and> same_keys st2 st3
      \<and> map_of (vs_metadata st3) = fold (put_meta (vid_of hash st2) (refreshed (o_set ord) (vid_of hash st2))) ?upd (map_of (vs_metadata st2))"
  proof (rule update_values_ok [OF order st2(2)])
    show "covered hash ?D st2" using keys(1) same2 by simp
    show "ob \<in> ?D \<and> (\<forall>refs. r = Some refs \<longrightarrow> set refs \<subseteq> ?D)" if x: "(ob, r) \<in> set ?upd" for ob r
    proof -
      obtain v where v: "space_heap space ob = Some v" "stale hash st ob v = Some r" using x upd(2) by auto
      then show ?thesis using refs [OF v(1)] stale_refs(1) [OF v(2)] by auto
    qed
  qed
  then obtain st3 where st3: "update_values V hash (o_set ord) ?upd st2 = Inr st3" "vs_wf V st3" "same_keys st2 st3"
    "map_of (vs_metadata st3) = fold (put_meta (vid_of hash st1) (refreshed (o_set ord) (vid_of hash st1))) ?upd (map_of (vs_metadata st2))"
    unfolding same2 by blast
  note same = same_keys_trans [OF st2(3) st3(3)]
  have all: "discovered hash st3 ob v" if "space_heap space ob = Some v" for ob v
    by (rule discovered_all(1) [OF lk refs order st1(3) n upd same _ that]) (simp_all only: st3(4) st2(4))
  have run: "stir_the_pot V hash hash_str ord space (True, st, si) = Inr (False, st3, si2)"
    by (simp add: stir_the_pot_def scan st1(1) st2(1) st3(1))
  have "linked hash ?D st3" using lk all by (intro discovered_linked) (simp_all add: linked_def)
  moreover have "get_by_assoc hash st3 (ObjectKey ob) = Some vid"
    if "space_heap space ob = Some v" "get_by_assoc hash st (ObjectKey ob) = Some vid" for ob v vid
    using keys(3) [of ob] that same_keys_simps(1) [OF same] by (auto simp: has_value_def)
  ultimately show ?thesis using run st3(2) all by blast
qed

text \<open>A module with the name \<open>x\<close>, and a list that contains itself.\<close>

definition sample_space :: object_space where
  "sample_space =
     \<lparr>os_last_object_id = 5,
      os_inner = [(1, PvModule (MkUser (ModuleRef 1)) (raw_object_default\<lparr>ro_alloc_id := 1, ro_dict := [(7, (2, 3))]\<rparr>)),
                  (2, PvStr ''x''), (3, PvInt 5), (4, PvList [3, 4])]\<rparr>"

definition sample_hash :: "assoc_key \<Rightarrow> u64" where
  "sample_hash k = (case k of ObjectKey ob \<Rightarrow> ob | _ \<Rightarrow> 0)"

lemma sample_closed: "closed_space sample_space" "dom (space_heap sample_space) = {1, 2, 3, 4}"
proof -
  show "dom (space_heap sample_space) = {1, 2, 3, 4}" by (auto simp: space_heap_def sample_space_def split: if_splits)
  show "closed_space sample_space"
    by (simp add: closed_space_def closed_value_def sample_space_def space_heap_def refs_of_def dict_refs_def module_dict_def raw_object_default_def)
qed

theorem discovery_complete_witness:
  "\<exists>(st' :: (value_rec list \<times> (nat \<times> nat \<times> unit) list, unit) value_store) si'.
     stir_the_pot list_graph sample_hash (\<lambda>_. 0) \<lparr>o_set = rev, o_new = rev\<rparr> sample_space (True, vs_default list_graph, interner_new)
       = Inr (False, st', si')
     \<and> discovered sample_hash st' 4 (PvList [3, 4])"
proof -
  let ?st = "vs_default list_graph :: (value_rec list \<times> (nat \<times> nat \<times> unit) list, unit) value_store"
  have lk: "linked sample_hash (dom (space_heap sample_space)) ?st"
    by (simp add: linked_def sample_hash_def get_by_assoc_def vs_default_def)
  have room: "length (g_weights list_graph (vs_graph ?st)) + length (os_inner sample_space) \<le> 2 ^ 32 - 1"
    by (simp add: vs_default_def list_graph_def sample_space_def)
  have names: "ssa_next_free (si_map interner_new) + (\<Sum>(_, v) \<leftarrow> os_inner sample_space. dict_size v) \<le> 2 ^ 32"
    by (simp add: interner_new_def ssa_new_def sample_space_def dict_size_def module_dict_def raw_object_default_def)
  have "space_heap sample_space 4 = Some (PvList [3, 4])" by (simp add: space_heap_def sample_space_def)
  then show ?thesis
    using discovery_complete [OF list_graph_laws vs_wf_default [OF list_graph_laws] interner_wf_new sample_closed(1) lk, of
        "\<lparr>o_set = rev, o_new = rev\<rparr>" "\<lambda>_. 0"] room names by auto
qed

end
