(* ===== verification/ValueTypes.thy ===== *)
theory ValueTypes
  imports Discovery TypeckLaws
begin

text \<open>
  The type of a value: \<open>compute_type_of\<close> and its helpers of \<^verbatim>\<open>montyc_driver/src/global_context/mod.rs\<close>, and
  the queries \<open>get_type_of\<close> and \<open>get_layout_of\<close> of \<^verbatim>\<open>global_context/query.rs\<close>. The runtime is only read.
  Log output is left out.
\<close>

section \<open>What the queries read\<close>

text \<open>
  The class branch of \<open>get_type_of\<close> names two variables that the function does not have; what it would
  store for an attribute is the argument \<open>class_property\<close>.
\<close>

record 'vg driver =
  dr_graph :: "('vg, value_rec, unit) graph_ops"
  dr_hash :: "assoc_key \<Rightarrow> u64"
  dr_spanref_to_str :: "span_ref \<Rightarrow> string option"
  dr_union_order :: "type_id list \<Rightarrow> type_id list"
  dr_class_property :: "object_id \<Rightarrow> object_id \<Rightarrow> property"
  dr_rt :: runtime

text \<open>A query that may also not return.\<close>

type_synonym ('vg, 'cg, 'a) query = "('vg, 'cg) session \<Rightarrow> ('a \<times> ('vg, 'cg) session) monty option"

definition qbind :: "'a monty option \<Rightarrow> ('a \<Rightarrow> 'b monty option) \<Rightarrow> 'b monty option" where
  "qbind m f = (case m of None \<Rightarrow> None | Some (Inl e) \<Rightarrow> Some (Inl e) | Some (Inr x) \<Rightarrow> f x)"

definition qrust :: "'a rust \<Rightarrow> 'a monty option" where
  "qrust r = Some (lift_panic r)"

definition qinsert :: "ty \<Rightarrow> ('vg, 'cg) session \<Rightarrow> (type_id \<times> ('vg, 'cg) session) monty" where
  "qinsert t cx = and_then (lift_panic (td_insert t (ss_types cx))) (\<lambda>(tid, td). Inr (tid, cx\<lparr>ss_types := td\<rparr>))"

section \<open>Types of classes and annotations\<close>

definition klass_to_instance_type :: "singletons \<Rightarrow> object_id \<Rightarrow> type_id monty" where
  "klass_to_instance_type sg klass =
     (if sg_bool_class sg = klass then Inr (builtin_tag BBool)
      else if sg_int_class sg = klass then Inr (builtin_tag BInt)
      else if sg_float_class sg = klass then Inr (builtin_tag BFloat)
      else if sg_none_class sg = klass then Inr (builtin_tag BNone)
      else if sg_ellipsis_class sg = klass then Inr (builtin_tag BEllipsis)
      else if sg_string_class sg = klass then Inr (builtin_tag BStr)
      else if sg_module_class sg = klass then Inr (builtin_tag BModule)
      else if sg_type_class sg = klass then Inr (builtin_tag BType)
      else if sg_object_class sg = klass then Inr (builtin_tag BObject)
      else if sg_bytes_class sg = klass then Inr (builtin_tag BBytes)
      else Inl (Failed MontyNone))"

definition resolve_type_annotation ::
  "'vg driver \<Rightarrow> object_id \<Rightarrow> ('vg, 'cg) session \<Rightarrow> (type_id \<times> ('vg, 'cg) session) monty" where
  "resolve_type_annotation D ann cx =
     (let sg = rt_singletons (dr_rt D) in
      if ann = sg_none_v sg then Inr (builtin_tag BNone, cx)
      else
        and_then (lift_panic (and_then (with_object ann (\<lambda>v. case v of PvClass _ _ _ \<Rightarrow> Inr () | _ \<Rightarrow> Inl TodoMacro)
                    (rt_objects (dr_rt D))) (\<lambda>r. r))) (\<lambda>_.
        (case klass_to_instance_type sg ann of
           Inr t \<Rightarrow> Inr (t, cx)
         | Inl (Failed MontyNone) \<Rightarrow>
             and_then (lift_panic (unwrap (get_by_assoc (dr_hash D) (ss_values cx) (ObjectKey ann)))) (\<lambda>klass.
             qinsert (ty_of_kind (PyInstance klass)) cx)
         | Inl e \<Rightarrow> Inl e)))"

fun param_types ::
  "'vg driver \<Rightarrow> (span_ref \<times> object_id option) list \<Rightarrow> ('vg, 'cg) session \<Rightarrow> (type_id list \<times> ('vg, 'cg) session) monty" where
  "param_types D [] cx = Inr ([], cx)"
| "param_types D ((_, ann) # params) cx =
     and_then (case ann of Some ob \<Rightarrow> resolve_type_annotation D ob cx | None \<Rightarrow> Inr (builtin_tag BNone, cx)) (\<lambda>(t, cx).
     and_then (param_types D params cx) (\<lambda>(ts, cx). Inr (t # ts, cx)))"

text \<open>A first parameter without annotation that is called \<open>self\<close> has the type \<open>TSelf\<close>.\<close>

definition is_self :: "'vg driver \<Rightarrow> span_ref \<times> object_id option \<Rightarrow> bool monty" where
  "is_self D p =
     (case snd p of
        None \<Rightarrow> and_then (ok_or (dr_spanref_to_str D (fst p)) MontyNone) (\<lambda>s. Inr (s = ''self''))
      | Some _ \<Rightarrow> Inr False)"

definition function_type ::
  "'vg driver \<Rightarrow> (span_ref \<times> object_id option) list \<Rightarrow> object_id option \<Rightarrow> ('vg, 'cg) session
    \<Rightarrow> (type_id \<times> ('vg, 'cg) session) monty" where
  "function_type D params returns cx =
     and_then (case params of
         [] \<Rightarrow> Inr (None, cx)
       | p # rest \<Rightarrow>
           and_then (is_self D p) (\<lambda>self.
           and_then (param_types D (if self then rest else params) cx) (\<lambda>(ts, cx).
           Inr (Some ((if self then [builtin_tag BTSelf] else []) @ ts), cx)))) (\<lambda>(args, cx).
     and_then (case returns of Some ret \<Rightarrow> resolve_type_annotation D ret cx | None \<Rightarrow> Inr (builtin_tag BNone, cx)) (\<lambda>(ret, cx).
     qinsert (ty_of_kind (PyCallable args ret)) cx))"

section \<open>Types of values\<close>

text \<open>The union of the types of the elements of a list; \<open>rec\<close> is the recursive call.\<close>

fun union_types ::
  "'vg driver \<Rightarrow> (value_id \<Rightarrow> ('vg, 'cg, type_id) query) \<Rightarrow> object_id list \<Rightarrow> type_id \<Rightarrow> ('vg, 'cg, type_id) query" where
  "union_types D rec [] inner cx = Some (Inr (inner, cx))"
| "union_types D rec (ob # obs) inner cx =
     qbind (qrust (unwrap (get_by_assoc (dr_hash D) (ss_values cx) (ObjectKey ob)))) (\<lambda>val.
     qbind (rec val cx) (\<lambda>(val_t, cx).
     qbind (qrust (td_make_union (dr_union_order D) inner val_t (ss_types cx))) (\<lambda>r.
     (case r of
        Inl _ \<Rightarrow> Some (Inl (Panicked UnwrapNone))
      | Inr (inner, td) \<Rightarrow> union_types D rec obs inner (cx\<lparr>ss_types := td\<rparr>)))))"

definition object_type ::
  "'vg driver \<Rightarrow> (value_id \<Rightarrow> ('vg, 'cg, type_id) query) \<Rightarrow> py_value \<Rightarrow> ('vg, 'cg, type_id) query" where
  "object_type D rec v cx =
     (case as_list v of
        Some elems \<Rightarrow>
          qbind (Some (qinsert (ty_of_kind (PyUnion None)) cx)) (\<lambda>(inner, cx).
          qbind (union_types D rec elems inner cx) (\<lambda>(inner, cx).
          qbind (qrust (td_list inner (ss_types cx))) (\<lambda>(t, td). Some (Inr (t, cx\<lparr>ss_types := td\<rparr>)))))
      | None \<Rightarrow>
          (case as_func v of
             Some (_, params, returns) \<Rightarrow> Some (function_type D params returns cx)
           | None \<Rightarrow> Some (Inl (Panicked TodoMacro))))"

definition compute_step ::
  "'vg driver \<Rightarrow> (value_id \<Rightarrow> ('vg, 'cg, type_id) query) \<Rightarrow> value_id \<Rightarrow> ('vg, 'cg, type_id) query" where
  "compute_step D rec val cx =
     qbind (Some (ok_or (with_metadata (dr_graph D) (dr_hash D) (ValueKey val) vm_object_id (ss_values cx)) MontyNone)) (\<lambda>ob.
     qbind (qrust (unwrap ob)) (\<lambda>ob.
     qbind (qrust (with_object ob (\<lambda>v. v) (rt_objects (dr_rt D)))) (\<lambda>v.
     qbind (qrust (class_of (dr_rt D) ob)) (\<lambda>object_class.
     qbind (qrust (assert_that (\<not> is_uninit object_class))) (\<lambda>_.
     (case klass_to_instance_type (rt_singletons (dr_rt D)) object_class of
        Inr t \<Rightarrow> Some (Inr (t, cx))
      | Inl (Failed MontyNone) \<Rightarrow> object_type D rec v cx
      | Inl e \<Rightarrow> Some (Inl e)))))))"

text \<open>The fuel bounds the nesting of lists.\<close>

primrec compute_type_of :: "'vg driver \<Rightarrow> nat \<Rightarrow> value_id \<Rightarrow> ('vg, 'cg, type_id) query" where
  "compute_type_of D 0 = (\<lambda>val cx. None)"
| "compute_type_of D (Suc n) = compute_step D (compute_type_of D n)"

section \<open>The queries\<close>

fun class_properties :: "'vg driver \<Rightarrow> (object_id \<times> object_id) py_dict \<Rightarrow> ty \<Rightarrow> ty rust" where
  "class_properties D [] t = Inr t"
| "class_properties D ((_, k, v) # d) t =
     and_then (with_object k as_str (rt_objects (dr_rt D))) (\<lambda>name.
     and_then (unwrap name) (\<lambda>name.
     class_properties D d (t\<lparr>ty_properties := assoc_put name (dr_class_property D k v) (ty_properties t)\<rparr>)))"

definition class_dict :: "py_value \<Rightarrow> (object_id \<times> object_id) py_dict rust" where
  "class_dict v = (case v of PvClass _ _ inner \<Rightarrow> Inr (ro_dict inner) | _ \<Rightarrow> Inl TodoMacro)"

definition class_type :: "'vg driver \<Rightarrow> value_id \<Rightarrow> ('vg, 'cg) session \<Rightarrow> (type_id \<times> ('vg, 'cg) session) monty" where
  "class_type D val cx =
     and_then (lift_panic (and_then (unwrap (with_metadata (dr_graph D) (dr_hash D) (ValueKey val) vm_object_id (ss_values cx))) unwrap)) (\<lambda>ob.
     and_then (lift_panic (and_then (with_object ob class_dict (rt_objects (dr_rt D))) (\<lambda>d. d))) (\<lambda>d.
     and_then (lift_panic (class_properties D d (ty_new_class ob None))) (\<lambda>t.
     qinsert t cx)))"

definition set_type_id :: "'vg driver \<Rightarrow> value_id \<Rightarrow> type_id \<Rightarrow> ('vg, 'cg) session \<Rightarrow> ('vg, 'cg) session" where
  "set_type_id D val t cx =
     (case with_metadata_mut (dr_graph D) (dr_hash D) (ValueKey val) (\<lambda>m. ((), m\<lparr>vm_type_id := Some t\<rparr>)) (ss_values cx) of
        None \<Rightarrow> cx | Some (_, st) \<Rightarrow> cx\<lparr>ss_values := st\<rparr>)"

definition get_type_of :: "'vg driver \<Rightarrow> nat \<Rightarrow> value_id \<Rightarrow> ('vg, 'cg, type_id) query" where
  "get_type_of D n val cx =
     (case with_metadata (dr_graph D) (dr_hash D) (ValueKey val) vm_type_id (ss_values cx) of
        Some (Some t) \<Rightarrow> Some (Inr (t, cx))
      | Some None \<Rightarrow>
          qbind (compute_type_of D n val cx) (\<lambda>(t, cx).
          if t = builtin_tag BType then Some (class_type D val cx) else Some (Inr (t, set_type_id D val t cx)))
      | None \<Rightarrow> Some (Inl (Failed MontyNone)))"

text \<open>The layout of a type is that of a tuple of one integer.\<close>

definition get_layout_of :: "'vg driver \<Rightarrow> nat \<Rightarrow> value_id \<Rightarrow> ('vg, 'cg, layout) query" where
  "get_layout_of D n val cx =
     qbind (get_type_of D n val cx) (\<lambda>(t, cx).
     qbind (Some (ok_or (td_get_python_type_of (ss_types cx) t) MontyNone)) (\<lambda>k.
     qbind (if k = PyBuiltin BType then qrust (td_tuple [builtin_tag BI64] (ss_types cx))
            else Some (Inr (t, ss_types cx))) (\<lambda>(t, td).
     qbind (map_option lift_panic (layout_of n td t)) (\<lambda>l. Some (Inr (l, cx\<lparr>ss_types := td\<rparr>))))))"

section \<open>Facts about the queries\<close>

lemma qbind_simps [simp]:
  "qbind None f = None" "qbind (Some (Inl e)) f = Some (Inl e)" "qbind (Some (Inr x)) f = f x"
  by (simp_all add: qbind_def)

lemma qbind_Inr: "qbind m f = Some (Inr y) \<longleftrightarrow> (\<exists>x. m = Some (Inr x) \<and> f x = Some (Inr y))"
  by (cases m; cases "the m") simp_all

lemma qrust_simps [simp]: "qrust (Inl p) = Some (Inl (Panicked p))" "qrust (Inr x) = Some (Inr x)"
  by (simp_all add: qrust_def lift_panic_def)

lemma qrust_Inr: "qrust r = Some (Inr x) \<longleftrightarrow> r = Inr x"
  by (cases r) simp_all

text \<open>Computing a type does not change the value store.\<close>

lemma qinsert_values: "qinsert t cx = Inr (i, cx') \<Longrightarrow> ss_values cx' = ss_values cx"
  by (auto simp: qinsert_def and_then_Inr_iff)

lemma annotation_values: "resolve_type_annotation D ann cx = Inr (t, cx') \<Longrightarrow> ss_values cx' = ss_values cx"
  by (auto simp: resolve_type_annotation_def Let_def and_then_Inr_iff dest: qinsert_values
      split: if_splits sum.splits failure.splits monty_error.splits)

lemma param_types_values: "param_types D params cx = Inr (ts, cx') \<Longrightarrow> ss_values cx' = ss_values cx"
proof (induction D params cx arbitrary: ts cx' rule: param_types.induct)
  case (2 D p ann params cx)
  then obtain t cx1 ts' where 1: "(case ann of Some ob \<Rightarrow> resolve_type_annotation D ob cx | None \<Rightarrow> Inr (builtin_tag BNone, cx)) = Inr (t, cx1)"
    "param_types D params cx1 = Inr (ts', cx')" by (auto simp: and_then_Inr_iff)
  then have "ss_values cx1 = ss_values cx" by (auto split: option.splits dest: annotation_values)
  then show ?case using "2.IH" [OF 1(1) refl 1(2)] by simp
qed simp

lemma function_type_values: "function_type D params returns cx = Inr (t, cx') \<Longrightarrow> ss_values cx' = ss_values cx"
  by (fastforce simp: function_type_def and_then_Inr_iff dest: qinsert_values annotation_values param_types_values
      split: list.splits option.splits)

lemma union_types_values:
  assumes "\<And>val cx t cx'. rec val cx = Some (Inr (t, cx')) \<Longrightarrow> ss_values cx' = ss_values cx"
  shows "union_types D rec obs inner cx = Some (Inr (u, cx')) \<Longrightarrow> ss_values cx' = ss_values cx"
proof (induction obs arbitrary: inner cx)
  case (Cons ob obs)
  then obtain val t cx1 and r :: "type_id + type_id \<times> typing_data" where r: "rec val cx = Some (Inr (t, cx1))"
    "(case r of Inl _ \<Rightarrow> Some (Inl (Panicked UnwrapNone))
      | Inr (inner, td) \<Rightarrow> union_types D rec obs inner (cx1\<lparr>ss_types := td\<rparr>)) = Some (Inr (u, cx'))"
    by (clarsimp simp: qbind_Inr qrust_Inr)
  then show ?case using Cons.IH assms [OF r(1)] by (cases r) (auto split: prod.splits)
qed simp

lemma object_type_values:
  assumes "\<And>val cx t cx'. rec val cx = Some (Inr (t, cx')) \<Longrightarrow> ss_values cx' = ss_values cx"
    and "object_type D rec v cx = Some (Inr (t, cx'))"
  shows "ss_values cx' = ss_values cx"
proof (cases "as_list v")
  case None
  then show ?thesis using assms(2) by (auto simp: object_type_def dest: function_type_values split: option.splits)
next
  case (Some elems)
  then obtain i cx1 u cx2 where "qinsert (ty_of_kind (PyUnion None)) cx = Inr (i, cx1)"
    "union_types D rec elems i cx1 = Some (Inr (u, cx2))" "ss_values cx' = ss_values cx2"
    using assms(2) by (auto simp: object_type_def qbind_Inr qrust_Inr)
  then show ?thesis using qinsert_values union_types_values [OF assms(1)] by fastforce
qed

text \<open>An object of a class with a type of its own, or one whose type is computed from its contents.\<close>

lemma klass_Inl: "klass_to_instance_type sg k = Inl e \<Longrightarrow> e = Failed MontyNone"
  by (auto simp: klass_to_instance_type_def split: if_splits)

lemma compute_stepE:
  assumes "compute_step D rec val cx = Some (Inr (t, cx'))"
  obtains (leaf) ob v c where "with_metadata (dr_graph D) (dr_hash D) (ValueKey val) vm_object_id (ss_values cx) = Some (Some ob)"
      "with_object ob (\<lambda>v. v) (rt_objects (dr_rt D)) = Inr v" "class_of (dr_rt D) ob = Inr c" "\<not> is_uninit c"
      "klass_to_instance_type (rt_singletons (dr_rt D)) c = Inr t" "cx' = cx"
  | (contents) ob v where "with_metadata (dr_graph D) (dr_hash D) (ValueKey val) vm_object_id (ss_values cx) = Some (Some ob)"
      "with_object ob (\<lambda>v. v) (rt_objects (dr_rt D)) = Inr v" "object_type D rec v cx = Some (Inr (t, cx'))"
proof -
  obtain ob v c where s: "with_metadata (dr_graph D) (dr_hash D) (ValueKey val) vm_object_id (ss_values cx) = Some (Some ob)"
    "with_object ob (\<lambda>v. v) (rt_objects (dr_rt D)) = Inr v" "class_of (dr_rt D) ob = Inr c" "\<not> is_uninit c"
    "(case klass_to_instance_type (rt_singletons (dr_rt D)) c of Inr t \<Rightarrow> Some (Inr (t, cx))
      | Inl (Failed MontyNone) \<Rightarrow> object_type D rec v cx | Inl e \<Rightarrow> Some (Inl e)) = Some (Inr (t, cx'))"
    using assms by (auto simp: compute_step_def qbind_Inr qrust_Inr ok_or_def split: option.splits)
  show thesis
  proof (cases "klass_to_instance_type (rt_singletons (dr_rt D)) c")
    case (Inl e)
    then show ?thesis using contents [OF s(1,2)] s(5) klass_Inl [OF Inl] by simp
  qed (use leaf [OF s(1-4)] s(5) in simp)
qed

lemma compute_type_values: "compute_type_of D n val cx = Some (Inr (t, cx')) \<Longrightarrow> ss_values cx' = ss_values cx"
proof (induction n arbitrary: val cx t cx')
  case (Suc n)
  have "compute_step D (compute_type_of D n) val cx = Some (Inr (t, cx'))" using Suc.prems by simp
  then show ?case
  proof (cases rule: compute_stepE)
    case (contents ob v)
    show ?thesis by (rule object_type_values [OF Suc.IH contents(3)])
  qed simp
qed simp

section \<open>Asking twice\<close>

lemma resolve_value_metadata [simp]: "resolve_value V (st\<lparr>vs_metadata := m\<rparr>) vid = resolve_value V st vid"
  by (simp add: resolve_value_def vs_node_def)

lemma set_type_id_cached:
  "with_metadata (dr_graph D) (dr_hash D) (ValueKey val) vm_type_id (ss_values cx) = Some c \<Longrightarrow>
     with_metadata (dr_graph D) (dr_hash D) (ValueKey val) vm_type_id (ss_values (set_type_id D val t cx)) = Some (Some t)"
  by (auto simp: set_type_id_def with_metadata_def with_metadata_mut_def split: bind_splits)

lemma clobber_get_put_self: "ty_eq t t \<Longrightarrow> clobber_get t (clobber_put t tid c) = Some tid"
  by (induction t tid c rule: clobber_put.induct) auto

lemma ty_eq_refl: "distinct (map fst (ty_properties t)) \<Longrightarrow> ty_eq t t"
  by (auto simp: ty_eq_def props_eq_def list_all_iff)

lemma td_insert_again: "td_insert t td = Inr (tid, td') \<Longrightarrow> ty_eq t t \<Longrightarrow> td_insert t td' = Inr (tid, td')"
  by (auto simp: td_insert_def and_then_Inr_iff clobber_get_put_self split: option.splits)

lemma class_properties_distinct:
  "class_properties D d t = Inr t' \<Longrightarrow> distinct (map fst (ty_properties t)) \<Longrightarrow> distinct (map fst (ty_properties t'))"
  by (induction D d t arbitrary: t' rule: class_properties.induct) (auto simp: and_then_Inr_iff assoc_put_distinct)

lemma class_type_again:
  assumes "class_type D val cx = Inr (t, cx')" shows "class_type D val cx' = Inr (t, cx')"
proof -
  obtain ob d ty td where s: "with_metadata (dr_graph D) (dr_hash D) (ValueKey val) vm_object_id (ss_values cx) = Some (Some ob)"
    "with_object ob class_dict (rt_objects (dr_rt D)) = Inr (Inr d)" "class_properties D d (ty_new_class ob None) = Inr ty"
    "td_insert ty (ss_types cx) = Inr (t, td)" "cx' = cx\<lparr>ss_types := td\<rparr>"
    using assms by (auto simp: class_type_def qinsert_def and_then_Inr_iff lift_panic_Inr)
  have "ty_eq ty ty" using class_properties_distinct [OF s(3)] by (intro ty_eq_refl) (simp add: ty_new_class_def)
  from td_insert_again [OF s(4) this] show ?thesis using s by (simp add: class_type_def qinsert_def lift_panic_def)
qed

lemma class_is_leaf:
  assumes "compute_step D rec val cx = Some (Inr (t, cx1))" and "class_type D val cx1 = Inr r" and "ss_values cx1 = ss_values cx"
  shows "cx1 = cx \<and> (\<forall>cx2. ss_values cx2 = ss_values cx \<longrightarrow> compute_step D rec val cx2 = Some (Inr (t, cx2)))"
  using assms(1)
proof (cases rule: compute_stepE)
  case (leaf ob v c)
  then show ?thesis by (simp add: compute_step_def ok_or_def)
next
  case (contents ob v)
  then show ?thesis
    using assms(2,3)
    by (auto simp: class_type_def and_then_Inr_iff lift_panic_Inr with_object_def class_dict_def object_type_def as_list_def as_func_def
        split: py_value.splits)
qed

text \<open>
  C20. A type is computed once. When the query for the type of a value succeeds, asking again with the
  same bound gives the same type and changes neither the value store nor the type registry: types of
  values other than classes are stored with the value, and the type of a class, which is not stored,
  is found in the registry.
\<close>

theorem type_query_stable:
  assumes "get_type_of D n val cx = Some (Inr (t, cx'))" shows "get_type_of D n val cx' = Some (Inr (t, cx'))"
proof (cases "with_metadata (dr_graph D) (dr_hash D) (ValueKey val) vm_type_id (ss_values cx)")
  case None
  then show ?thesis using assms by (simp add: get_type_of_def)
next
  case (Some cached)
  show ?thesis
  proof (cases cached)
    case None
    then obtain ty cx1 where 1: "compute_type_of D n val cx = Some (Inr (ty, cx1))"
      "(if ty = builtin_tag BType then Some (class_type D val cx1) else Some (Inr (ty, set_type_id D val ty cx1))) = Some (Inr (t, cx'))"
      using assms Some by (auto simp: get_type_of_def qbind_Inr)
    have vals: "ss_values cx1 = ss_values cx" by (rule compute_type_values [OF 1(1)])
    show ?thesis
    proof (cases "ty = builtin_tag BType")
      case True
      obtain m where n: "n = Suc m" using 1(1) by (cases n) simp_all
      have klass: "class_type D val cx1 = Inr (t, cx')" using 1(2) True by simp
      have leaf: "cx1 = cx \<and> (\<forall>cx2. ss_values cx2 = ss_values cx \<longrightarrow> compute_step D (compute_type_of D m) val cx2 = Some (Inr (ty, cx2)))"
        by (rule class_is_leaf [OF _ klass vals]) (use 1(1) n in simp)
      have "ss_values cx' = ss_values cx1" using klass by (auto simp: class_type_def and_then_Inr_iff dest: qinsert_values)
      then show ?thesis using leaf n True Some None class_type_again [OF klass] vals by (simp add: get_type_of_def)
    next
      case False
      then have "cx' = set_type_id D val ty cx1" "t = ty" using 1(2) by auto
      then show ?thesis using set_type_id_cached [of D val cx1 cached ty] Some vals by (simp add: get_type_of_def)
    qed
  next
    case (Some t')
    then show ?thesis using assms \<open>with_metadata _ _ _ _ _ = Some cached\<close> by (simp add: get_type_of_def)
  qed
qed

section \<open>Types of lists\<close>

text \<open>A value whose object is \<open>v\<close>, of the class \<open>c\<close>.\<close>

definition value_of_object :: "'vg driver \<Rightarrow> ('vg, 'cg) session \<Rightarrow> value_id \<Rightarrow> object_id \<Rightarrow> py_value \<Rightarrow> bool" where
  "value_of_object D cx val ob v \<longleftrightarrow>
     with_metadata (dr_graph D) (dr_hash D) (ValueKey val) vm_object_id (ss_values cx) = Some (Some ob)
     \<and> space_heap (rt_objects (dr_rt D)) ob = Some v \<and> get_by_assoc (dr_hash D) (ss_values cx) (ObjectKey ob) = Some val"

lemma value_of_object_values: "ss_values cx' = ss_values cx \<Longrightarrow> value_of_object D cx' val ob v = value_of_object D cx val ob v"
  by (simp add: value_of_object_def)

lemma compute_step_object:
  assumes "value_of_object D cx val ob v" and "class_of (dr_rt D) ob = Inr c" and "\<not> is_uninit c"
  shows "compute_step D rec val cx =
    (case klass_to_instance_type (rt_singletons (dr_rt D)) c of Inr t \<Rightarrow> Some (Inr (t, cx)) | Inl _ \<Rightarrow> object_type D rec v cx)"
proof -
  have "with_object ob (\<lambda>v. v) (rt_objects (dr_rt D)) = Inr v" using assms(1) by (simp add: value_of_object_def with_object_def space_heap_def)
  then show ?thesis
    using assms klass_Inl [of "rt_singletons (dr_rt D)" c]
    by (cases "klass_to_instance_type (rt_singletons (dr_rt D)) c") (simp_all add: compute_step_def value_of_object_def ok_or_def)
qed

text \<open>The class of lists is set, and has no type of its own.\<close>

definition lists_ready :: "'vg driver \<Rightarrow> bool" where
  "lists_ready D \<longleftrightarrow> \<not> is_uninit (sg_list_class (rt_singletons (dr_rt D)))
     \<and> klass_to_instance_type (rt_singletons (dr_rt D)) (sg_list_class (rt_singletons (dr_rt D))) = Inl (Failed MontyNone)"

lemma compute_step_list:
  assumes "lists_ready D" and "value_of_object D cx val ob (PvList elems)"
  shows "compute_step D rec val cx = object_type D rec (PvList elems) cx"
proof -
  have "class_of (dr_rt D) ob = Inr (sg_list_class (rt_singletons (dr_rt D)))"
    using assms(2) by (simp add: value_of_object_def class_of_def with_object_def space_heap_def Let_def)
  from compute_step_object [OF assms(2) this] assms(1) show ?thesis by (simp add: lists_ready_def)
qed

text \<open>An integer, a list that contains itself, and a list of the integer.\<close>

definition sample_store :: "(value_rec list \<times> (nat \<times> nat \<times> unit) list, unit) value_store" where
  "sample_store =
     \<lparr>vs_graph = (replicate 3 value_default, []),
      vs_metadata = [(ValueId 0, (metadata_default (ValueId 0))\<lparr>vm_object_id := Some 3\<rparr>),
                     (ValueId 1, (metadata_default (ValueId 1))\<lparr>vm_object_id := Some 4\<rparr>),
                     (ValueId 2, (metadata_default (ValueId 2))\<lparr>vm_object_id := Some 5\<rparr>)],
      vs_assoc_cache = [(3, ValueId 0), (4, ValueId 1), (5, ValueId 2)]\<rparr>"

definition sample_driver :: "(value_rec list \<times> (nat \<times> nat \<times> unit) list) driver" where
  "sample_driver =
     \<lparr>dr_graph = list_graph, dr_hash = sample_hash, dr_spanref_to_str = (\<lambda>_. None), dr_union_order = rev,
      dr_class_property = (\<lambda>_ _. undefined),
      dr_rt = \<lparr>rt_objects = \<lparr>os_last_object_id = 6, os_inner = [(3, PvInt 7), (4, PvList [4]), (5, PvList [3])]\<rparr>,
               rt_singletons = singletons_default\<lparr>sg_int_class := 11, sg_list_class := 12\<rparr>, rt_module_objects = []\<rparr>\<rparr>"

lemma sample_lists_ready: "lists_ready sample_driver"
  by (simp add: lists_ready_def sample_driver_def is_uninit_def klass_to_instance_type_def singletons_default_def object_id_default_def Let_def)

lemmas sample_values =
  value_of_object_def sample_driver_def sample_store_def sample_hash_def space_heap_def with_metadata_def resolve_value_def vs_node_def
  list_graph_def get_by_assoc_def get_at_def

lemma qinsert_ok:
  assumes "td_inv (ss_types cx)" and "\<forall>t \<in> kind_refs k. known (ss_types cx) t"
  obtains i td where "qinsert (ty_of_kind k) cx = Inr (i, cx\<lparr>ss_types := td\<rparr>)" "td_step (ss_types cx) td" "td_inv td"
    "td_get_python_type_of td i = Some k"
  using td_insert_step [OF assms] by (auto simp: qinsert_def lift_panic_def)

text \<open>
  C22. A list that contains itself has no type. The computation of the type of a list whose first
  element is the list itself does not return: no depth of recursion is enough.
\<close>

theorem self_containing_list_diverges:
  assumes "lists_ready D" and "value_of_object D cx val ob (PvList (ob # elems))" and "td_inv (ss_types cx)"
  shows "compute_type_of D n val cx = None"
  using assms(2,3)
proof (induction n arbitrary: cx)
  case (Suc n)
  obtain i td where i: "qinsert (ty_of_kind (PyUnion None)) cx = Inr (i, cx\<lparr>ss_types := td\<rparr>)" "td_inv td"
    by (rule qinsert_ok [OF Suc.prems(2), of "PyUnion None"]) auto
  have "compute_type_of D n val (cx\<lparr>ss_types := td\<rparr>) = None"
    by (rule Suc.IH) (use Suc.prems(1) i(2) in \<open>simp_all add: value_of_object_def\<close>)
  moreover have "get_by_assoc (dr_hash D) (ss_values cx) (ObjectKey ob) = Some val"
    using Suc.prems(1) by (simp add: value_of_object_def)
  ultimately show ?case using i(1)
    by (simp add: compute_step_list [OF assms(1) Suc.prems(1)] object_type_def as_list_def)
qed simp

theorem self_containing_list_diverges_witness:
  "\<exists>td. compute_type_of sample_driver 10 (ValueId 1) \<lparr>ss_types = td, ss_values = sample_store\<rparr> = None"
proof -
  obtain td where td: "registry_state td" using registry_state_exists by blast
  let ?cx = "\<lparr>ss_types = td, ss_values = sample_store\<rparr>"
  have "value_of_object sample_driver ?cx (ValueId 1) 4 (PvList (4 # []))" by (simp add: sample_values)
  from self_containing_list_diverges [OF sample_lists_ready this, of 10] registry_state_inv [OF td] show ?thesis by auto
qed

text \<open>The union of the types of the elements.\<close>

lemma klass_builtin: "klass_to_instance_type sg k = Inr t \<Longrightarrow> \<exists>b. t = builtin_tag b"
  unfolding klass_to_instance_type_def by (simp only: split: if_splits) blast+

lemma member_set_builtin: "td_inv td \<Longrightarrow> member_set td (builtin_tag b) = {builtin_tag b}"
  by (simp add: member_set_def td_inv_def)

lemma union_types_leaves:
  assumes order: "\<And>xs. distinct xs \<Longrightarrow> distinct (dr_union_order D xs) \<and> set (dr_union_order D xs) = set xs"
  shows "registry_state (ss_types cx) \<Longrightarrow> known (ss_types cx) inner \<Longrightarrow>
    (\<And>ob. ob \<in> set obs \<Longrightarrow> \<exists>val b. get_by_assoc (dr_hash D) (ss_values cx) (ObjectKey ob) = Some val \<and> te ob = builtin_tag b
       \<and> (\<forall>cx'. ss_values cx' = ss_values cx \<longrightarrow> rec val cx' = Some (Inr (te ob, cx')))) \<Longrightarrow>
    \<exists>u td. union_types D rec obs inner cx = Some (Inr (u, cx\<lparr>ss_types := td\<rparr>)) \<and> registry_state td \<and> known td u
      \<and> member_set td u = member_set (ss_types cx) inner \<union> te ` set obs"
proof (induction obs arbitrary: cx inner)
  case Nil
  then show ?case by (intro exI [of _ inner] exI [of _ "ss_types cx"]) simp
next
  case (Cons ob obs)
  obtain val b where ob: "get_by_assoc (dr_hash D) (ss_values cx) (ObjectKey ob) = Some val" "te ob = builtin_tag b"
    "rec val cx = Some (Inr (te ob, cx))"
    using Cons.prems(3) [of ob] by auto
  have inv: "td_inv (ss_types cx)" by (rule registry_state_inv [OF Cons.prems(1)])
  obtain u td ms where u: "td_make_union (dr_union_order D) inner (te ob) (ss_types cx) = Inr (Inr (u, td))" "registry_state td"
    "td_get_python_type_of td u = Some (PyUnion (if ms = [] then None else Some ms))"
    "set ms = member_set (ss_types cx) inner \<union> member_set (ss_types cx) (te ob)"
    using td_make_union_ok [OF Cons.prems(1,2) _ order, of "te ob"] registry_builtin [OF Cons.prems(1)] ob(2) by metis
  have ms: "member_set td u = insert (te ob) (member_set (ss_types cx) inner)"
    using u(3,4) member_set_builtin [OF inv, of b] ob(2) by (auto simp: member_set_def split: if_splits)
  have "\<exists>u' td'. union_types D rec obs u (cx\<lparr>ss_types := td\<rparr>) = Some (Inr (u', cx\<lparr>ss_types := td\<rparr>\<lparr>ss_types := td'\<rparr>))
      \<and> registry_state td' \<and> known td' u' \<and> member_set td' u' = member_set (ss_types (cx\<lparr>ss_types := td\<rparr>)) u \<union> te ` set obs"
  proof (rule Cons.IH)
    show "\<exists>val b. get_by_assoc (dr_hash D) (ss_values (cx\<lparr>ss_types := td\<rparr>)) (ObjectKey ob') = Some val \<and> te ob' = builtin_tag b
       \<and> (\<forall>cx'. ss_values cx' = ss_values (cx\<lparr>ss_types := td\<rparr>) \<longrightarrow> rec val cx' = Some (Inr (te ob', cx')))" if "ob' \<in> set obs" for ob'
      using Cons.prems(3) [of ob'] that by simp
  qed (use u(2,3) in \<open>simp_all add: known_kind\<close>)
  then show ?case using ob(1,3) u(1) ms by auto
qed

text \<open>
  C21. The type of a list. A list whose elements are objects of classes with a type of their own has
  the type \<open>List\<close> of the union of the types of its elements; nothing but the type registry changes.
\<close>

theorem list_type:
  assumes ready: "lists_ready D" and list: "value_of_object D cx val ob (PvList elems)" and reg: "registry_state (ss_types cx)"
    and order: "\<And>xs. distinct xs \<Longrightarrow> distinct (dr_union_order D xs) \<and> set (dr_union_order D xs) = set xs"
    and elems: "\<And>e. e \<in> set elems \<Longrightarrow> \<exists>ve v c. value_of_object D cx ve e v \<and> class_of (dr_rt D) e = Inr c \<and> \<not> is_uninit c
        \<and> klass_to_instance_type (rt_singletons (dr_rt D)) c = Inr (te e)"
  shows "\<exists>t td u. compute_type_of D (Suc (Suc n)) val cx = Some (Inr (t, cx\<lparr>ss_types := td\<rparr>)) \<and> registry_state td
    \<and> td_get_python_type_of td t = Some (PyList u) \<and> member_set td u = te ` set elems"
proof -
  have inv: "td_inv (ss_types cx)" by (rule registry_state_inv [OF reg])
  obtain i td where i: "qinsert (ty_of_kind (PyUnion None)) cx = Inr (i, cx\<lparr>ss_types := td\<rparr>)" "td_step (ss_types cx) td" "td_inv td"
    "td_get_python_type_of td i = Some (PyUnion None)"
    by (rule qinsert_ok [OF inv, of "PyUnion None"]) auto
  have reg1: "registry_state td" using registry_state_steps [OF reg] i(2) by blast
  have "\<exists>u td'. union_types D (compute_type_of D (Suc n)) elems i (cx\<lparr>ss_types := td\<rparr>) = Some (Inr (u, cx\<lparr>ss_types := td\<rparr>\<lparr>ss_types := td'\<rparr>))
      \<and> registry_state td' \<and> known td' u \<and> member_set td' u = member_set (ss_types (cx\<lparr>ss_types := td\<rparr>)) i \<union> te ` set elems"
  proof (rule union_types_leaves [OF order])
    fix e assume "e \<in> set elems"
    then obtain ve v c where e: "value_of_object D cx ve e v" "class_of (dr_rt D) e = Inr c" "\<not> is_uninit c"
      "klass_to_instance_type (rt_singletons (dr_rt D)) c = Inr (te e)" using elems by blast
    have "compute_type_of D (Suc n) ve cx' = Some (Inr (te e, cx'))" if "ss_values cx' = ss_values cx" for cx'
      using compute_step_object [OF _ e(2,3), of cx' ve v] e(1,4) value_of_object_values [OF that] by simp
    then show "\<exists>val b. get_by_assoc (dr_hash D) (ss_values (cx\<lparr>ss_types := td\<rparr>)) (ObjectKey e) = Some val \<and> te e = builtin_tag b
       \<and> (\<forall>cx'. ss_values cx' = ss_values (cx\<lparr>ss_types := td\<rparr>) \<longrightarrow> compute_type_of D (Suc n) val cx' = Some (Inr (te e, cx')))"
      using klass_builtin [OF e(4)] e(1) by (auto simp: value_of_object_def)
  qed (use reg1 i(4) in \<open>simp_all add: known_kind\<close>)
  then obtain u td' where u: "union_types D (compute_type_of D (Suc n)) elems i (cx\<lparr>ss_types := td\<rparr>) = Some (Inr (u, cx\<lparr>ss_types := td'\<rparr>))"
    "registry_state td'" "known td' u" "member_set td' u = te ` set elems"
    using i(4) by (auto simp: member_set_def)
  obtain t td'' where t: "td_insert (ty_of_kind (PyList u)) td' = Inr (t, td'')" "td_step td' td''" "td.grows td' td''"
    "td_get_python_type_of td'' t = Some (PyList u)"
    using td_insert_step [OF registry_state_inv [OF u(2)], of "PyList u"] u(3) by auto
  have "member_set td'' u = member_set td' u"
    using u(3) td.grows_look [OF t(3)] by (auto simp: member_set_def known_kind)
  moreover have "registry_state td''" using registry_state_steps [OF u(2)] t(2) by blast
  moreover have "compute_type_of D (Suc (Suc n)) val cx = Some (Inr (t, cx\<lparr>ss_types := td''\<rparr>))"
    using compute_step_list [OF ready list] i(1) u(1) t(1) by (simp add: object_type_def as_list_def td_list_def)
  ultimately show ?thesis using t(4) u(4) by auto
qed

theorem list_type_witness:
  "\<exists>td t td' u. registry_state td
     \<and> compute_type_of sample_driver 2 (ValueId 2) \<lparr>ss_types = td, ss_values = sample_store\<rparr>
       = Some (Inr (t, \<lparr>ss_types = td', ss_values = sample_store\<rparr>))
     \<and> td_get_python_type_of td' t = Some (PyList u) \<and> member_set td' u = {1}"
proof -
  obtain td where td: "registry_state td" using registry_state_exists by blast
  let ?cx = "\<lparr>ss_types = td, ss_values = sample_store\<rparr>"
  have v: "value_of_object sample_driver ?cx (ValueId 2) 5 (PvList [3])" "value_of_object sample_driver ?cx (ValueId 0) 3 (PvInt 7)"
    by (simp_all add: sample_values)
  have c: "class_of (dr_rt sample_driver) 3 = Inr 11" "\<not> is_uninit 11"
    "klass_to_instance_type (rt_singletons (dr_rt sample_driver)) 11 = Inr 1"
    by (simp_all add: sample_driver_def class_of_def with_object_def is_uninit_def klass_to_instance_type_def singletons_default_def object_id_default_def Let_def)
  have order: "distinct (dr_union_order sample_driver xs) \<and> set (dr_union_order sample_driver xs) = set xs" if "distinct xs" for xs
    using that by (simp add: sample_driver_def)
  have "\<exists>ve v c. value_of_object sample_driver ?cx ve 3 v \<and> class_of (dr_rt sample_driver) 3 = Inr c \<and> \<not> is_uninit c
      \<and> klass_to_instance_type (rt_singletons (dr_rt sample_driver)) c = Inr 1"
    using v(2) c by blast
  then have "\<exists>t td' u. compute_type_of sample_driver (Suc (Suc 0)) (ValueId 2) ?cx = Some (Inr (t, ?cx\<lparr>ss_types := td'\<rparr>))
      \<and> registry_state td' \<and> td_get_python_type_of td' t = Some (PyList u) \<and> member_set td' u = (\<lambda>_. 1) ` set [3 :: object_id]"
    by (intro list_type [OF sample_lists_ready v(1) _ order]) (use td in simp_all)
  moreover have "(\<lambda>_. 1 :: type_id) ` set [3 :: object_id] = {1}" by simp
  ultimately show ?thesis
    using td by (simp only: numeral_2_eq_2 One_nat_def session.update_convs) blast
qed

theorem type_query_stable_witness:
  "\<exists>td cx. get_type_of sample_driver 1 (ValueId 0) \<lparr>ss_types = td, ss_values = sample_store\<rparr> = Some (Inr (1, cx))
     \<and> get_type_of sample_driver 1 (ValueId 0) cx = Some (Inr (1, cx))"
proof -
  obtain td where td: "registry_state td" using registry_state_exists by blast
  let ?cx = "\<lparr>ss_types = td, ss_values = sample_store\<rparr>"
  have v: "value_of_object sample_driver ?cx (ValueId 0) 3 (PvInt 7)" by (simp add: sample_values)
  have c: "class_of (dr_rt sample_driver) 3 = Inr 11" "\<not> is_uninit 11"
    "klass_to_instance_type (rt_singletons (dr_rt sample_driver)) 11 = Inr 1"
    by (simp_all add: sample_driver_def class_of_def with_object_def is_uninit_def klass_to_instance_type_def singletons_default_def object_id_default_def Let_def)
  have m: "with_metadata (dr_graph sample_driver) (dr_hash sample_driver) (ValueKey (ValueId 0)) vm_type_id sample_store = Some None"
    by (simp add: sample_values metadata_default_def)
  have "compute_type_of sample_driver 1 (ValueId 0) ?cx = Some (Inr (1, ?cx))"
    using compute_step_object [OF v c(1,2)] c(3) by simp
  then have "get_type_of sample_driver 1 (ValueId 0) ?cx = Some (Inr (1, set_type_id sample_driver (ValueId 0) 1 ?cx))"
    using m by (simp add: get_type_of_def)
  from type_query_stable [OF this] this show ?thesis by blast
qed

end
