(* ===== verification/SessionGrowth.thy ===== *)
theory SessionGrowth
  imports ValueTypes Typecheck
begin

text \<open>
  What the session keeps while types are computed: registered types stay registered, values stay where
  they are, and of their metadata only a missing type is filled in. The locale \<open>session_relation\<close>
  carries such a relation through the type checker.
\<close>

section \<open>The registry\<close>

text \<open>Weaker than \<open>td_wf\<close>, which a class with attributes in the registry breaks.\<close>

definition reg_ok :: "typing_data \<Rightarrow> bool" where
  "reg_ok td \<longleftrightarrow> ssa_wf (td_inner td) \<and> (\<forall>(t, i) \<in> set (td_clobber td). td_get_python_type_of td i = Some (ty_kind t))"

lemma td_wf_reg_ok: "td_wf td \<Longrightarrow> reg_ok td"
  by (simp add: td_wf_def reg_ok_def)

definition td_extends :: "typing_data \<Rightarrow> typing_data \<Rightarrow> bool" where
  "td_extends td td' \<longleftrightarrow> (reg_ok td \<longrightarrow> reg_ok td' \<and> td.grows td td')"

lemma td_extends_refl [simp]: "td_extends td td"
  by (simp add: td_extends_def)

lemma td_extends_trans: "td_extends td td' \<Longrightarrow> td_extends td' td'' \<Longrightarrow> td_extends td td''"
  by (auto simp: td_extends_def intro: td.grows_chain)

lemma td_insert_kind:
  assumes "reg_ok td" and "td_insert t td = Inr (i, td')"
  shows "reg_ok td' \<and> td.grows td td' \<and> td_get_python_type_of td' i = Some (ty_kind t)"
proof (cases "clobber_get t (td_clobber td)")
  case (Some j)
  then have "j = i" "td' = td" using assms(2) by (simp_all add: td_insert_def)
  moreover obtain u where "(u, j) \<in> set (td_clobber td)" "ty_eq t u" using clobber_get_mem [OF Some] by blast
  ultimately show ?thesis using assms(1) ty_eq_kind [of t u] by (auto simp: reg_ok_def)
next
  case None
  then obtain inner where i: "ssa_insert type_id_of_usize t (td_inner td) = Inr (i, inner)"
    "td' = \<lparr>td_inner = inner, td_clobber = clobber_put t i (td_clobber td)\<rparr>"
    using assms(2) by (auto simp: td_insert_def and_then_Inr_iff)
  have wf: "ssa_wf (td_inner td)" using assms(1) by (simp add: reg_ok_def)
  have new: "ssa_wf inner" "ssa_get inner i = Some t" "\<And>j v. ssa_get (td_inner td) j = Some v \<Longrightarrow> ssa_get inner j = Some v"
    using i(1) wf ssa_wf_insert [OF wf i(1)] ssa_insert_get [OF i(1)] ssa_insert_keeps [OF i(1)]
    by (auto simp: ssa_insert_def Let_def rust_simps type_id_of_usize_def split: if_splits)
  have grows: "td.grows td td'" using i(2) new(3) by (auto simp: td.grows_def td_get_python_type_of_def)
  have "td_get_python_type_of td' i = Some (ty_kind t)" using i(2) new(2) by (simp add: td_get_python_type_of_def)
  moreover have "td_get_python_type_of td' j = Some (ty_kind u)" if "(u, j) \<in> set (td_clobber td')" for u j
    using clobber_put_mem [of u j t i "td_clobber td"] that i(2) calculation assms(1) td.grows_look [OF grows]
    by (auto simp: reg_ok_def)
  ultimately show ?thesis using grows new(1) i(2) by (auto simp: reg_ok_def)
qed

lemma td_insert_extends: "td_insert t td = Inr (i, td') \<Longrightarrow> td_extends td td'"
  using td_insert_kind unfolding td_extends_def by blast

lemma td_insert_property_extends:
  assumes "td_insert_property b n p td = (old, td')" shows "td_extends td td'"
proof -
  have "reg_ok td'" if ok: "reg_ok td"
  proof (cases "ssa_get (td_inner td) b")
    case None
    then show ?thesis using ok assms by (simp add: td_insert_property_def)
  next
    case (Some t)
    define t' where "t' = t\<lparr>ty_properties := assoc_put n p (ty_properties t)\<rparr>"
    have c: "td_clobber td' = clobber_put t' b (td_clobber td)" "ssa_wf (td_inner td')"
      using assms Some ok by (auto simp: td_insert_property_def Let_def t'_def ssa_wf_def reg_ok_def)
    have k: "ty_kind t' = ty_kind t" "td_get_python_type_of td b = Some (ty_kind t)"
      using Some by (simp_all add: t'_def td_get_python_type_of_def)
    have "td_get_python_type_of td i = Some (ty_kind u)" if "(u, i) \<in> set (td_clobber td')" for u i
      using clobber_put_mem [of u i t' b "td_clobber td"] that c(1) k ok by (auto simp: reg_ok_def)
    then show ?thesis using c(2) td_insert_property_kind [OF assms] by (auto simp: reg_ok_def)
  qed
  then show ?thesis using td_insert_property_kind [OF assms] by (simp add: td_extends_def td.grows_def)
qed

lemma td_insert_property_snd_extends: "td_extends td (snd (td_insert_property b n p td))"
  by (rule td_insert_property_extends [of b n p td "fst (td_insert_property b n p td)"]) simp

lemma lazy_property_extends: "lazy_property_get access td = Inr (p, td') \<Longrightarrow> td_extends td td'"
  by (auto simp: lazy_property_get_def and_then_Inr_iff dest: td_insert_extends)

lemma td_get_property_extends: "td_get_property b n td = Inr (p, td') \<Longrightarrow> td_extends td td'"
proof -
  assume a: "td_get_property b n td = Inr (p, td')"
  then obtain loc where "case_sum (\<lambda>klass. lazy_property_get klass td) (\<lambda>p. Inr (Some p, td)) (local_get_property loc n) = Inr (p, td')"
    by (auto simp: td_get_property_def and_then_Inr_iff)
  then show ?thesis by (cases "local_get_property loc n") (auto dest: lazy_property_extends)
qed

lemma members_as_union_extends: "members_as_union ms td = Inr (u, td') \<Longrightarrow> td_extends td td'"
  by (auto simp: members_as_union_def dest: td_insert_extends split: option.splits list.splits)

lemma td_tuple_extends:
  assumes "td_tuple elems td = Inr (t, td')" shows "td_extends td td'"
proof -
  obtain td1 where 1: "td_insert (ty_of_kind (PyTuple (if elems = [] then None else Some elems))) td = Inr (t, td1)"
    using assms by (auto simp: td_tuple_def Let_def and_then_Inr_iff)
  obtain u td2 where 2: "members_as_union (if elems = [] then None else Some elems) td1 = Inr (u, td2)"
    using assms 1 by (auto simp: td_tuple_def Let_def and_then_Inr_iff)
  obtain g td3 where 3: "td_insert (ty_of_kind (PyCallable (Some [t, builtin_tag BInt]) u)) td2 = Inr (g, td3)"
    using assms 1 2 by (auto simp: td_tuple_def td_callable_def Let_def and_then_Inr_iff)
  obtain p ts s td4 q where 4: "td_insert (ty_of_kind (PyCallable ts (builtin_tag BNone))) (snd (td_insert_property t ''__getitem__'' p td3)) = Inr (s, td4)"
    "td' = snd (td_insert_property t ''__setitem__'' q td4)"
    using assms 1 2 3 by (auto simp: td_tuple_def td_callable_def Let_def and_then_Inr_iff)
  show ?thesis
    using td_insert_extends [OF 1] members_as_union_extends [OF 2] td_insert_extends [OF 3] td_insert_extends [OF 4(1)]
    unfolding 4(2) by (meson td_extends_trans td_insert_property_snd_extends)
qed

lemma td_make_union_extends: "td_make_union order a b td = Inr (Inr (u, td')) \<Longrightarrow> td_extends td td'"
  by (auto simp: td_make_union_def Let_def and_then_Inr_iff dest: td_insert_extends split: option.splits)

lemmas registry_extends =
  td_insert_extends td_get_property_extends td_tuple_extends td_make_union_extends td_extends_trans

section \<open>Through the type checker\<close>

text \<open>
  A relation between sessions that the queries and every extension of the registry keep. The type
  checker changes the session in no other way.
\<close>

locale session_relation =
  fixes Q :: "('vg, 'cg) queries" and R :: "('vg, 'cg) session \<Rightarrow> ('vg, 'cg) session \<Rightarrow> bool"
  assumes R_trans: "R cx cx' \<Longrightarrow> R cx' cx'' \<Longrightarrow> R cx cx''"
    and R_query: "q_get_type_of Q v cx = Inr (t, cx') \<Longrightarrow> R cx cx'"
    and R_types: "td_extends (ss_types cx) td \<Longrightarrow> R cx (cx\<lparr>ss_types := td\<rparr>)"
begin

lemma R_refl: "R cx cx"
  using R_types [of cx "ss_types cx"] by simp

lemma an_cx_simps [simp]:
  "an_cx (an_push c st) = an_cx st" "an_cx (an_error e st) = an_cx st" "an_cx (an_set_type v t st) = an_cx st"
  "an_cx (an_set_types td st) = (an_cx st)\<lparr>ss_types := td\<rparr>"
  by (simp_all add: an_defs)

lemma bad_arguments_cx [simp]: "an_cx (bad_arguments x ms st) = an_cx st"
  by (simp add: call_exit)

lemma R_property: "td_get_property b n (ss_types cx) = Inr (p, td) \<Longrightarrow> R cx (cx\<lparr>ss_types := td\<rparr>)"
  by (rule R_types [OF td_get_property_extends])

lemma R_tuple: "td_tuple ts (ss_types cx) = Inr (t, td) \<Longrightarrow> R cx (cx\<lparr>ss_types := td\<rparr>)"
  by (rule R_types [OF td_tuple_extends])

lemma emit_method_call_keeps: "emit_method_call G x args ret a st = Inr st' \<Longrightarrow> R (an_cx st) (an_cx st')"
  unfolding emit_method_call_def
  by (auto simp: Let_def R_refl elim!: and_thenE dest!: R_property
      split: prod.split_asm bool.split_asm python_type.split_asm option.split_asm property_value.split_asm)

lemma emit_call_keeps: "emit_call Q G x f args ret st = Inr (e, st') \<Longrightarrow> R (an_cx st) (an_cx st')"
  unfolding emit_call_def
  by (auto simp: R_refl elim!: and_thenE dest: emit_method_call_keeps split: sum.split_asm option.split_asm option.splits)

lemma analyze_callable_keeps: "analyze_callable Q G x f args ft ret st = Inr (e, st') \<Longrightarrow> R (an_cx st) (an_cx st')"
  unfolding analyze_callable_def
  by (auto simp: R_refl elim!: and_thenE dest!: emit_call_keeps split: sum.split_asm unify_failure.split_asm)

lemma analyze_use_var_keeps: "analyze_use_var Q x v st = Inr st' \<Longrightarrow> R (an_cx st) (an_cx st')"
  unfolding analyze_use_var_def
  by (auto simp: Let_def an_defs elim!: and_thenE intro: R_query split: option.split_asm prod.split_asm)

lemma analyze_get_attribute_keeps: "analyze_get_attribute Q G x ob a st = Inr st' \<Longrightarrow> R (an_cx st) (an_cx st')"
  unfolding analyze_get_attribute_def
  by (auto simp: Let_def elim!: and_thenE dest!: R_property split: prod.split_asm raw_inst.split_asm option.split_asm)

lemma analyze_get_dunder_keeps: "analyze_get_dunder x ob d st = Inr st' \<Longrightarrow> R (an_cx st) (an_cx st')"
  unfolding analyze_get_dunder_def
  by (auto simp: Let_def elim!: and_thenE dest!: R_property split: prod.split_asm option.split_asm)

lemma analyze_tuple_keeps: "analyze_tuple x elems st = Inr st' \<Longrightarrow> R (an_cx st) (an_cx st')"
  unfolding analyze_tuple_def by (auto simp: and_then_Inr_iff dest!: R_tuple)

lemma plain_keeps:
  "analyze_br G t vs st = Inr st' \<Longrightarrow> R (an_cx st) (an_cx st')"
  "analyze_if G test a b st = Inr st' \<Longrightarrow> R (an_cx st) (an_cx st')"
  "analyze_set_var i x var v st = Inr st' \<Longrightarrow> R (an_cx st) (an_cx st')"
  "analyze_return x v st = Inr st' \<Longrightarrow> R (an_cx st) (an_cx st')"
  by (auto simp: analyze_br_def analyze_if_def analyze_set_var_def analyze_return_def Let_def R_refl and_then_Inr_iff
      split: option.split_asm if_splits)

lemmas inst_keeps = plain_keeps analyze_use_var_keeps analyze_get_attribute_keeps analyze_get_dunder_keeps analyze_tuple_keeps

lemma analyze_inst_keeps_session: "analyze_inst Q G b x st = Inr (e, st') \<Longrightarrow> R (an_cx st) (an_cx st')"
  by (cases "fi_op x")
    (auto simp: analyze_inst_def analyze_call_def next_inst_Inr R_refl elim!: and_thenE intro: inst_keeps analyze_callable_keeps
      split: python_type.split_asm builtin_type.split_asm option.split_asm)

lemma analyze_insts_keeps_session: "analyze_insts Q G b xs st = Inr st' \<Longrightarrow> R (an_cx st) (an_cx st')"
proof (induction xs arbitrary: st)
  case (Cons x xs)
  then obtain e st1 where 1: "analyze_inst Q G b x st = Inr (e, st1)"
    "(case e of BreakLoop \<Rightarrow> Inr st1 | NextInst \<Rightarrow> analyze_insts Q G b xs st1) = Inr st'"
    by (auto simp: and_then_Inr_iff)
  then show ?case using Cons.IH [of st1] analyze_inst_keeps_session [OF 1(1)] R_trans by (cases e) auto
qed (simp add: R_refl)

lemma tm_visit_block_keeps: "tm_visit_block Q G C s out ix = Inr (nodes, errors, s', out') \<Longrightarrow> R (snd s) (snd s')"
  by (auto simp: tm_visit_block_def analyze_block_def Let_def and_then_Inr_iff dest: analyze_insts_keeps_session)

lemma visit_loop_keeps:
  assumes "visit_loop (tm_visit_block Q G C) processed queue s out = Some (Inr (s', out'))" shows "R (snd s) (snd s')"
proof -
  have "f = tm_visit_block Q G C \<Longrightarrow> r = Inr (s', out') \<Longrightarrow> R (snd s) (snd s')"
    if "visit_loop f processed queue s out = Some r" for f r
    using that
  proof (induction rule: visit_loop.raw_induct [rotated, consumes 1, case_names step])
    case (step loop f processed queue s out r)
    show ?case
    proof (cases queue)
      case (Cons ix rest)
      show ?thesis
      proof (cases "binary_search processed ix")
        case (Inl a)
        then show ?thesis using step Cons by auto
      next
        case (Inr a)
        then obtain nodes s1 out1 processed' queue' where 1: "tm_visit_block Q G C s out ix = Inr (nodes, [], s1, out1)"
          "loop f processed' queue' s1 out1 = Some r"
          using step(2,3,4) Cons by (auto split: sum.splits if_splits)
        then show ?thesis using step(1) [OF 1(2) step(3,4)] tm_visit_block_keeps [OF 1(1)] R_trans by blast
      qed
    qed (use step in \<open>simp add: R_refl\<close>)
  qed
  then show ?thesis using assms by blast
qed

lemma typecheck_keeps: "typecheck Q G C build f cx = Some (Inr (cg, cx')) \<Longrightarrow> R cx cx'"
  by (fastforce simp: typecheck_def visit_def and_then_Inr_iff dest: visit_loop_keeps split: sum.split_asm)

end

section \<open>Types of values\<close>

text \<open>An object of the class \<open>type\<close>: the type of its value is not stored.\<close>

definition class_object :: "'vg driver \<Rightarrow> 'cg value_metadata \<Rightarrow> bool" where
  "class_object D m \<longleftrightarrow> (\<exists>ob c. vm_object_id m = Some ob \<and> class_of (dr_rt D) ob = Inr c
     \<and> klass_to_instance_type (rt_singletons (dr_rt D)) c = Inr (builtin_tag BType))"

definition more_typed :: "'vg driver \<Rightarrow> 'cg value_metadata \<Rightarrow> 'cg value_metadata \<Rightarrow> bool" where
  "more_typed D m m' \<longleftrightarrow> m' = m\<lparr>vm_type_id := vm_type_id m'\<rparr>
     \<and> (vm_type_id m \<noteq> None \<or> class_object D m \<longrightarrow> vm_type_id m' = vm_type_id m)"

definition meta_of :: "('vg, 'cg) session \<Rightarrow> value_id \<rightharpoonup> 'cg value_metadata" where
  "meta_of cx = map_of (vs_metadata (ss_values cx))"

text \<open>Two sessions with the same values, whose metadata are related by \<open>P\<close>.\<close>

definition sessions_rel :: "('cg value_metadata \<Rightarrow> 'cg value_metadata \<Rightarrow> bool) \<Rightarrow> ('vg, 'cg) session \<Rightarrow> ('vg, 'cg) session \<Rightarrow> bool" where
  "sessions_rel P cx cx' \<longleftrightarrow> vs_graph (ss_values cx') = vs_graph (ss_values cx)
     \<and> vs_assoc_cache (ss_values cx') = vs_assoc_cache (ss_values cx)
     \<and> (\<forall>v. rel_option P (meta_of cx v) (meta_of cx' v)) \<and> td_extends (ss_types cx) (ss_types cx')"

abbreviation session_extends :: "'vg driver \<Rightarrow> ('vg, 'cg) session \<Rightarrow> ('vg, 'cg) session \<Rightarrow> bool" where
  "session_extends D \<equiv> sessions_rel (more_typed D)"

lemma sessions_rel_mono: "sessions_rel P cx cx' \<Longrightarrow> (\<And>m m'. P m m' \<Longrightarrow> P' m m') \<Longrightarrow> sessions_rel P' cx cx'"
  by (auto simp: sessions_rel_def intro: option.rel_mono_strong)

lemma sessions_rel_trans:
  assumes "sessions_rel P cx cx'" and "sessions_rel P cx' cx''" and P: "\<And>a b c. P a b \<Longrightarrow> P b c \<Longrightarrow> P a c"
  shows "sessions_rel P cx cx''"
proof -
  have "rel_option P (meta_of cx v) (meta_of cx'' v)" for v
  proof -
    have "rel_option P (meta_of cx v) (meta_of cx' v)" "rel_option P (meta_of cx' v) (meta_of cx'' v)"
      using assms by (simp_all add: sessions_rel_def)
    then show ?thesis by (cases "meta_of cx v"; cases "meta_of cx' v"; cases "meta_of cx'' v") (auto intro: P)
  qed
  then show ?thesis using assms td_extends_trans by (auto simp: sessions_rel_def)
qed

lemma sessions_rel_meta: "sessions_rel P cx cx' \<Longrightarrow> meta_of cx v = Some m \<Longrightarrow> \<exists>m'. meta_of cx' v = Some m' \<and> P m m'"
  unfolding sessions_rel_def by (metis option_rel_Some1)

lemma sessions_rel_meta': "sessions_rel P cx cx' \<Longrightarrow> meta_of cx' v = Some m' \<Longrightarrow> \<exists>m. meta_of cx v = Some m \<and> P m m'"
  unfolding sessions_rel_def by (metis option_rel_Some2)

lemma sessions_rel_types:
  "sessions_rel P cx cx' \<Longrightarrow> reg_ok (ss_types cx) \<Longrightarrow> reg_ok (ss_types cx') \<and> td.grows (ss_types cx) (ss_types cx')"
  by (simp add: sessions_rel_def td_extends_def)

lemma more_typed_refl [simp]: "more_typed D m m"
  by (simp add: more_typed_def)

lemma class_object_typed [simp]: "class_object D (m\<lparr>vm_type_id := t\<rparr>) = class_object D m"
  by (simp add: class_object_def)

lemma more_typed_trans: 
  assumes "more_typed D m m'" and "more_typed D m' m''" shows "more_typed D m m''"
proof -
  note ab = assms [unfolded more_typed_def, THEN conjunct1]
  have c: "class_object D m' = class_object D m" by (subst ab(1)) simp
  have "m'' = m\<lparr>vm_type_id := vm_type_id m''\<rparr>" using ab by (cases m; cases m'; cases m'') simp
  then show ?thesis using assms c by (auto simp: more_typed_def)
qed

lemma session_extends_trans: "session_extends D cx cx' \<Longrightarrow> session_extends D cx' cx'' \<Longrightarrow> session_extends D cx cx''"
  using sessions_rel_trans [of "more_typed D"] more_typed_trans by blast

lemma session_extends_types: "td_extends (ss_types cx) td \<Longrightarrow> session_extends D cx (cx\<lparr>ss_types := td\<rparr>)"
  by (simp add: sessions_rel_def meta_of_def option.rel_refl)

lemma session_extends_refl [simp]: "session_extends D cx cx"
  using session_extends_types [of cx "ss_types cx"] by simp

lemma qinsert_extends: "qinsert t cx = Inr (i, cx') \<Longrightarrow> session_extends D cx cx'"
  by (auto simp: qinsert_def and_then_Inr_iff intro: session_extends_types td_insert_extends)

lemma annotation_extends: "resolve_type_annotation D ann cx = Inr (t, cx') \<Longrightarrow> session_extends D cx cx'"
  by (auto simp: resolve_type_annotation_def Let_def and_then_Inr_iff dest: qinsert_extends
      split: if_splits sum.splits failure.splits monty_error.splits)

lemma param_types_extends: "param_types D params cx = Inr (ts, cx') \<Longrightarrow> session_extends D cx cx'"
proof (induction params arbitrary: cx ts)
  case (Cons p params)
  obtain n ann where p: "p = (n, ann)" by (cases p)
  with Cons.prems obtain t cx1 ts' where 1: "(case ann of Some ob \<Rightarrow> resolve_type_annotation D ob cx | None \<Rightarrow> Inr (builtin_tag BNone, cx)) = Inr (t, cx1)"
    "param_types D params cx1 = Inr (ts', cx')" by (auto simp: and_then_Inr_iff)
  then have "session_extends D cx cx1" by (auto split: option.splits dest: annotation_extends)
  then show ?case using Cons.IH [OF 1(2)] session_extends_trans by blast
qed simp

lemma function_type_extends:
  assumes "function_type D params returns cx = Inr (t, cx')" shows "session_extends D cx cx'"
proof -
  obtain args cx1 ret cx2 where f: "(case params of [] \<Rightarrow> Inr (None, cx)
       | p # rest \<Rightarrow>
           and_then (is_self D p) (\<lambda>self.
           and_then (param_types D (if self then rest else params) cx) (\<lambda>(ts, cx).
           Inr (Some ((if self then [builtin_tag BTSelf] else []) @ ts), cx)))) = Inr (args, cx1)"
    "(case returns of Some ret \<Rightarrow> resolve_type_annotation D ret cx1 | None \<Rightarrow> Inr (builtin_tag BNone, cx1)) = Inr (ret, cx2)"
    "qinsert (ty_of_kind (PyCallable args ret)) cx2 = Inr (t, cx')"
    using assms by (auto simp: function_type_def and_then_Inr_iff)
  have "session_extends D cx cx1" using f(1) by (auto simp: and_then_Inr_iff split: list.split_asm dest: param_types_extends)
  moreover have "session_extends D cx1 cx2" using f(2) by (auto split: option.split_asm dest: annotation_extends)
  ultimately show ?thesis using qinsert_extends [OF f(3)] session_extends_trans by blast
qed

lemma union_types_extends:
  assumes "\<And>val cx t cx'. rec val cx = Some (Inr (t, cx')) \<Longrightarrow> session_extends D cx cx'"
  shows "union_types D rec obs inner cx = Some (Inr (u, cx')) \<Longrightarrow> session_extends D cx cx'"
proof (induction obs arbitrary: inner cx)
  case (Cons ob obs)
  then obtain val t cx1 r where r: "rec val cx = Some (Inr (t, cx1))"
    "td_make_union (dr_union_order D) inner t (ss_types cx1) = Inr r"
    "(case r of Inl _ \<Rightarrow> Some (Inl (Panicked UnwrapNone))
      | Inr (inner, td) \<Rightarrow> union_types D rec obs inner (cx1\<lparr>ss_types := td\<rparr>)) = Some (Inr (u, cx'))"
    by (clarsimp simp: qbind_Inr qrust_Inr)
  then obtain inner' td where 1: "td_make_union (dr_union_order D) inner t (ss_types cx1) = Inr (Inr (inner', td))"
    "union_types D rec obs inner' (cx1\<lparr>ss_types := td\<rparr>) = Some (Inr (u, cx'))"
    by (cases r) auto
  then show ?case
    using assms [OF r(1)] session_extends_types [OF td_make_union_extends [OF 1(1)]] Cons.IH [OF 1(2)] session_extends_trans by blast
qed simp

lemma object_type_extends:
  assumes "\<And>val cx t cx'. rec val cx = Some (Inr (t, cx')) \<Longrightarrow> session_extends D cx cx'"
    and "object_type D rec v cx = Some (Inr (t, cx'))"
  shows "session_extends D cx cx'"
proof (cases "as_list v")
  case None
  then show ?thesis using assms(2) by (auto simp: object_type_def dest: function_type_extends split: option.splits)
next
  case (Some elems)
  then obtain i cx1 u cx2 td where 1: "qinsert (ty_of_kind (PyUnion None)) cx = Inr (i, cx1)"
    "union_types D rec elems i cx1 = Some (Inr (u, cx2))" "td_list u (ss_types cx2) = Inr (t, td)" "cx' = cx2\<lparr>ss_types := td\<rparr>"
    using assms(2) by (auto simp: object_type_def qbind_Inr qrust_Inr)
  have "session_extends D cx2 cx'" using 1(3,4) by (auto simp: td_list_def intro: session_extends_types td_insert_extends)
  moreover have "session_extends D cx1 cx2" by (rule union_types_extends [OF assms(1) 1(2)])
  ultimately show ?thesis using qinsert_extends [OF 1(1)] session_extends_trans by blast
qed

lemma compute_type_extends: "compute_type_of D n val cx = Some (Inr (t, cx')) \<Longrightarrow> session_extends D cx cx'"
proof (induction n arbitrary: val cx t cx')
  case (Suc n)
  have "compute_step D (compute_type_of D n) val cx = Some (Inr (t, cx'))" using Suc.prems by simp
  then show ?case
  proof (cases rule: compute_stepE)
    case (contents ob v)
    show ?thesis by (rule object_type_extends [OF Suc.IH contents(3)])
  qed simp
qed simp

lemma set_type_id_extends:
  assumes "with_metadata (dr_graph D) (dr_hash D) (ValueKey val) vm_type_id (ss_values cx) = Some None"
    and "\<And>m. meta_of cx val = Some m \<Longrightarrow> \<not> class_object D m"
  shows "session_extends D cx (set_type_id D val t cx)"
    and "\<exists>m. meta_of (set_type_id D val t cx) val = Some m \<and> vm_type_id m = Some t"
proof -
  obtain m where m: "resolve_value (dr_graph D) (ss_values cx) val = Some val" "meta_of cx val = Some m" "vm_type_id m = None"
    using assms(1) by (auto simp: with_metadata_def meta_of_def resolve_value_def split: bind_splits)
  have s: "set_type_id D val t cx = cx\<lparr>ss_values := (ss_values cx)\<lparr>vs_metadata :=
      assoc_put val (m\<lparr>vm_type_id := Some t\<rparr>) (vs_metadata (ss_values cx))\<rparr>\<rparr>"
    using m by (simp add: set_type_id_def with_metadata_mut_def meta_of_def)
  show "\<exists>m. meta_of (set_type_id D val t cx) val = Some m \<and> vm_type_id m = Some t" by (simp add: s meta_of_def)
  show "session_extends D cx (set_type_id D val t cx)"
    using m(2,3) assms(2) [OF m(2)] by (auto simp: s sessions_rel_def meta_of_def more_typed_def option.rel_refl)
qed

text \<open>The type of a value whose type is not stored is that of a class.\<close>

definition settled :: "'vg driver \<Rightarrow> ('vg, 'cg) session \<Rightarrow> value_id \<Rightarrow> type_id \<Rightarrow> bool" where
  "settled D cx v t \<longleftrightarrow> (\<exists>m. meta_of cx v = Some m
     \<and> (vm_type_id m = Some t \<or>
        vm_type_id m = None \<and> class_object D m \<and> (\<exists>ob. td_get_python_type_of (ss_types cx) t = Some (PyClass ob None))))"

lemma class_properties_kind: "class_properties D d t = Inr t' \<Longrightarrow> ty_kind t' = ty_kind t"
  by (induction D d t arbitrary: t' rule: class_properties.induct) (auto simp: and_then_Inr_iff)

lemma class_type_extends:
  assumes "class_type D val cx = Inr (t, cx')"
  shows "session_extends D cx cx'" and "ss_values cx' = ss_values cx"
    and "reg_ok (ss_types cx) \<Longrightarrow> \<exists>ob. td_get_python_type_of (ss_types cx') t = Some (PyClass ob None)"
proof -
  obtain ob d ty td where s: "class_properties D d (ty_new_class ob None) = Inr ty"
    "td_insert ty (ss_types cx) = Inr (t, td)" "cx' = cx\<lparr>ss_types := td\<rparr>"
    using assms by (auto simp: class_type_def qinsert_def and_then_Inr_iff)
  show "session_extends D cx cx'" "ss_values cx' = ss_values cx" 
    using s by (auto intro: session_extends_types td_insert_extends)
  show "\<exists>ob. td_get_python_type_of (ss_types cx') t = Some (PyClass ob None)" if "reg_ok (ss_types cx)"
    using td_insert_kind [OF that s(2)] class_properties_kind [OF s(1)] s(3) by (auto simp: ty_new_class_def)
qed

text \<open>A value whose type is computed to be \<open>type\<close> is a class, when a class type is made for it.\<close>

lemma compute_type_class:
  assumes "compute_type_of D n val cx = Some (Inr (t, cx1))" and "meta_of cx val = Some m"
  shows "class_object D m \<Longrightarrow> t = builtin_tag BType"
    and "t = builtin_tag BType \<Longrightarrow> class_type D val cx1 = Inr r \<Longrightarrow> class_object D m"
proof -
  obtain k where n: "n = Suc k" using assms(1) by (cases n) simp_all
  have step: "compute_step D (compute_type_of D k) val cx = Some (Inr (t, cx1))" using assms(1) n by simp
  have vals: "ss_values cx1 = ss_values cx" by (rule compute_type_values [OF assms(1)])
  have ob: "vm_object_id m = Some ob" if "with_metadata (dr_graph D) (dr_hash D) (ValueKey val) vm_object_id (ss_values cx) = Some (Some ob)" for ob
    using that assms(2) by (auto simp: with_metadata_def meta_of_def resolve_value_def split: bind_splits)
  show "t = builtin_tag BType" if "class_object D m"
    using step that ob by (auto simp: compute_step_def qbind_Inr qrust_Inr ok_or_def class_object_def split: option.splits)
  show "class_object D m" if "t = builtin_tag BType" "class_type D val cx1 = Inr r"
    using step
  proof (cases rule: compute_stepE)
    case (leaf ob' v c)
    then show ?thesis using that ob by (auto simp: class_object_def)
  next
    case (contents ob' v)
    then show ?thesis
      using that(2) vals by (auto simp: class_type_def and_then_Inr_iff lift_panic_Inr with_object_def class_dict_def object_type_def as_list_def as_func_def
        split: py_value.splits)
  qed
qed

lemma get_type_of_extends:
  assumes "get_type_of D n val cx = Some (Inr (t, cx'))"
  shows "session_extends D cx cx'" and "reg_ok (ss_types cx) \<Longrightarrow> settled D cx' val t"
proof -
  have "session_extends D cx cx' \<and> (reg_ok (ss_types cx) \<longrightarrow> settled D cx' val t)"
  proof (cases "with_metadata (dr_graph D) (dr_hash D) (ValueKey val) vm_type_id (ss_values cx)")
    case None
    then show ?thesis using assms by (simp add: get_type_of_def)
  next
    case (Some cached)
    then obtain m where m: "meta_of cx val = Some m" "vm_type_id m = cached"
      by (auto simp: with_metadata_def meta_of_def resolve_value_def split: bind_splits)
    show ?thesis
    proof (cases cached)
      case None
      then obtain ty cx1 where 1: "compute_type_of D n val cx = Some (Inr (ty, cx1))"
        "(if ty = builtin_tag BType then Some (class_type D val cx1) else Some (Inr (ty, set_type_id D val ty cx1))) = Some (Inr (t, cx'))"
        using assms Some by (auto simp: get_type_of_def qbind_Inr)
      note ext = compute_type_extends [OF 1(1)]
      have vals: "ss_values cx1 = ss_values cx" by (rule compute_type_values [OF 1(1)])
      then have m1: "meta_of cx1 val = Some m" using m by (simp add: meta_of_def)
      show ?thesis
      proof (cases "ty = builtin_tag BType")
        case True
        then have k: "class_type D val cx1 = Inr (t, cx')" using 1(2) by simp
        have "class_object D m" by (rule compute_type_class(2) [OF 1(1) m(1) True k])
        moreover have "meta_of cx' val = Some m" using m1 class_type_extends(2) [OF k] by (simp add: meta_of_def)
        moreover have "reg_ok (ss_types cx1)" if "reg_ok (ss_types cx)" using ext that by (simp add: sessions_rel_def td_extends_def)
        ultimately show ?thesis
          using session_extends_trans [OF ext class_type_extends(1) [OF k]] class_type_extends(3) [OF k] m(2) None
          by (auto simp: settled_def)
      next
        case False
        then have k: "cx' = set_type_id D val ty cx1" "t = ty" using 1(2) by auto
        have cl: "\<not> class_object D m'" if "meta_of cx1 val = Some m'" for m'
          using compute_type_class(1) [OF 1(1) m(1)] that m1 False by auto
        have w: "with_metadata (dr_graph D) (dr_hash D) (ValueKey val) vm_type_id (ss_values cx1) = Some None" using Some None vals by simp
        note set = set_type_id_extends [OF w cl]
        show ?thesis using session_extends_trans [OF ext set(1)] set(2) [of ty] unfolding k settled_def by blast
      qed
    next
      case (Some t')
      then have "t' = t" "cx' = cx" using assms \<open>with_metadata _ _ _ _ _ = Some cached\<close> by (simp_all add: get_type_of_def)
      then show ?thesis using m Some by (auto simp: settled_def)
    qed
  qed
  then show "session_extends D cx cx'" "reg_ok (ss_types cx) \<Longrightarrow> settled D cx' val t" by simp_all
qed

end
