(* ===== verification/CallGraph.thy ===== *)
theory CallGraph
  imports SessionGrowth
begin

text \<open>
  The queries for functions of \<^verbatim>\<open>montyc_driver/src/global_context/query.rs\<close>: \<open>get_function\<close>,
  \<open>get_function_cg_cfg\<close> and \<open>call_graph_of\<close>, which collects the functions a program needs. Log output
  is left out.
\<close>

section \<open>What the queries read\<close>

text \<open>
  Types are computed by recursion on the stack, at most \<open>cc_depth\<close> deep. \<open>cc_map_order\<close> is the order in
  which the map of collected functions is turned into a vector.
\<close>

record ('vg, 'g, 'cg) call_cx =
  cc_driver :: "'vg driver"
  cc_depth :: nat
  cc_rt_hash :: "hash_key \<Rightarrow> u64"
  cc_block_graph :: "('g, flat_inst list, block_cfg_edge) graph_ops"
  cc_code_graph :: "('cg, cg_inst list, unit) graph_ops"
  cc_build :: bool
  cc_map_order :: "value_id list \<Rightarrow> value_id list"

definition type_query :: "('vg, 'g, 'cg) call_cx \<Rightarrow> value_id \<Rightarrow> ('vg, 'cg) session \<Rightarrow> (type_id \<times> ('vg, 'cg) session) monty" where
  "type_query K val cx =
     (case get_type_of (cc_driver K) (cc_depth K) val cx of None \<Rightarrow> Inl (Panicked StackOverflow) | Some r \<Rightarrow> r)"

definition call_queries :: "('vg, 'g, 'cg) call_cx \<Rightarrow> ('vg, 'cg) queries" where
  "call_queries K =
     \<lparr>q_graph = dr_graph (cc_driver K), q_hash = dr_hash (cc_driver K), q_get_type_of = type_query K,
      q_spanref_to_str = (\<lambda>r cx. ok_or (dr_spanref_to_str (cc_driver K) r) MontyNone)\<rparr>"

definition read_meta :: "('vg, 'g, 'cg) call_cx \<Rightarrow> value_id \<Rightarrow> ('cg value_metadata \<Rightarrow> 'a) \<Rightarrow> ('vg, 'cg) session \<Rightarrow> 'a option" where
  "read_meta K val f cx = with_metadata (dr_graph (cc_driver K)) (dr_hash (cc_driver K)) (ValueKey val) f (ss_values cx)"

definition write_meta ::
  "('vg, 'g, 'cg) call_cx \<Rightarrow> value_id \<Rightarrow> ('cg value_metadata \<Rightarrow> 'cg value_metadata) \<Rightarrow> ('vg, 'cg) session \<Rightarrow> ('vg, 'cg) session" where
  "write_meta K val f cx =
     (case with_metadata_mut (dr_graph (cc_driver K)) (dr_hash (cc_driver K)) (ValueKey val) (\<lambda>m. ((), f m)) (ss_values cx) of
        None \<Rightarrow> cx | Some (_, st) \<Rightarrow> cx\<lparr>ss_values := st\<rparr>)"

section \<open>Functions\<close>

definition function_parts :: "py_value \<Rightarrow> (any_func \<times> (object_id \<times> object_id) py_dict) rust" where
  "function_parts v = (case v of PvFunction body _ _ _ inner \<Rightarrow> Inr (body, ro_dict inner) | _ \<Rightarrow> Inl UnreachableCode)"

text \<open>The name of the definition a sequence was made from.\<close>

definition def_name :: "flat_seq \<Rightarrow> span_ref rust" where
  "def_name seq =
     and_then (unwrap (fs_ast seq)) (\<lambda>ast.
     and_then (unwrap (case ast of NFuncDef def \<Rightarrow> Some def | _ \<Rightarrow> None)) (\<lambda>def.
     unwrap (atom_as_name (sp_inner (fn_name def)))))"

definition get_function :: "('vg, 'g, 'cg) call_cx \<Rightarrow> value_id \<Rightarrow> ('vg, 'cg) session \<Rightarrow> (func_rec \<times> ('vg, 'cg) session) monty" where
  "get_function K val cx =
     and_then (ok_or (read_meta K val (\<lambda>m. (vm_function m, vm_object_id m)) cx) (ValueDoesNotExist val)) (\<lambda>(func, ob).
     (case func of
        Some f \<Rightarrow> Inr (f, cx)
      | None \<Rightarrow>
          and_then (lift_panic (unwrap ob)) (\<lambda>ob.
          and_then (lift_panic (and_then (with_object ob function_parts (rt_objects (dr_rt (cc_driver K)))) (\<lambda>r. r))) (\<lambda>(body, dict).
          (case body of
             FnCode code seq_id \<Rightarrow>
               and_then (case get_at (fc_sequences code) seq_id of None \<Rightarrow> Inl (Panicked IndexOutOfBounds) | Some seq \<Rightarrow> Inr seq) (\<lambda>seq.
               and_then (lift_panic (def_name seq)) (\<lambda>name.
               and_then (type_query K val cx) (\<lambda>(type_id, cx).
               (let cx = write_meta K val (\<lambda>m. m\<lparr>vm_flatcode := Some (seq, Some code)\<rparr>) cx;
                    func = \<lparr>fu_value_id = val, fu_type_id = type_id, fu_mref = fc_mref code, fu_name = name,
                            fu_is_extern = (py_dict_get dict (cc_rt_hash K (HStr ''__extern__'')) \<noteq> None)\<rparr>
                in Inr (func, write_meta K val (\<lambda>m. m\<lparr>vm_function := Some func\<rparr>) cx)))))
           | _ \<Rightarrow> Inl (Panicked PanicMacro))))))"

section \<open>Code for functions\<close>

text \<open>The values the code of a function refers to.\<close>

fun inst_uses :: "cg_inst \<Rightarrow> value_id option" where
  "inst_uses (CgUse v _) = Some v"
| "inst_uses (CgCall v _ _) = Some v"
| "inst_uses _ = None"

definition cg_uses :: "('cg, cg_inst list, unit) graph_ops \<Rightarrow> 'cg \<Rightarrow> value_id list" where
  "cg_uses C cg = concat (map (List.map_filter inst_uses) (g_weights C cg))"

definition add_refs :: "value_id list \<Rightarrow> value_id list \<Rightarrow> value_id list" where
  "add_refs values refs = fold (\<lambda>v refs. if v \<in> set refs then refs else refs @ [v]) values refs"

definition record_graph :: "('vg, 'g, 'cg) call_cx \<Rightarrow> value_id \<Rightarrow> 'cg \<Rightarrow> ('vg, 'cg) session \<Rightarrow> ('vg, 'cg) session" where
  "record_graph K fid cg cx =
     write_meta K fid (\<lambda>m. m\<lparr>vm_cg_flowgraph := Some cg,
       vm_internal_refs := Some (add_refs (cg_uses (cc_code_graph K) cg) (case vm_internal_refs m of None \<Rightarrow> [] | Some refs \<Rightarrow> refs))\<rparr>) cx"

definition get_function_cg_cfg :: "('vg, 'g, 'cg) call_cx \<Rightarrow> value_id \<Rightarrow> ('vg, 'cg, 'cg) query" where
  "get_function_cg_cfg K fid cx =
     qbind (qrust (unwrap (read_meta K fid vm_cg_flowgraph cx))) (\<lambda>cached.
     (case cached of
        Some cg \<Rightarrow> Some (Inr (cg, cx))
      | None \<Rightarrow>
          qbind (Some (get_function K fid cx)) (\<lambda>(_, cx).
          qbind (qrust (and_then (unwrap (read_meta K fid vm_function cx)) unwrap)) (\<lambda>func.
          qbind (typecheck (call_queries K) (cc_block_graph K) (cc_code_graph K) (cc_build K) func cx) (\<lambda>(cg, cx).
          Some (Inr (cg, record_graph K fid cg cx)))))))"

section \<open>The call graph\<close>

text \<open>The top of the stack is the head of the list.\<close>

fun push_callees ::
  "('vg, 'g, 'cg) call_cx \<Rightarrow> value_id list \<Rightarrow> value_id list \<Rightarrow> value_id list \<Rightarrow> ('vg, 'cg) session
    \<Rightarrow> (value_id list \<times> ('vg, 'cg) session) monty" where
  "push_callees K [] collected stack cx = Inr (stack, cx)"
| "push_callees K (r # refs) collected stack cx =
     and_then (type_query K r cx) (\<lambda>(t, cx).
     and_then (lift_panic (unwrap (td_get_python_type_of (ss_types cx) t))) (\<lambda>k.
     (case k of
        PyCallable _ _ \<Rightarrow> push_callees K refs collected (if r \<in> set collected then stack else r # stack) cx
      | PyBuiltin BUntypedFunc \<Rightarrow> Inl (Panicked PanicMacro)
      | _ \<Rightarrow> push_callees K refs collected stack cx)))"

type_synonym collected = "(value_id \<times> type_id) list"

definition call_graph_step ::
  "('vg, 'g, 'cg) call_cx \<Rightarrow> value_id \<Rightarrow> value_id list \<Rightarrow> collected \<Rightarrow> ('vg, 'cg) session
    \<Rightarrow> (value_id list \<times> collected \<times> ('vg, 'cg) session) monty option" where
  "call_graph_step K f stack collected cx =
     qbind (Some (type_query K f cx)) (\<lambda>(t, cx).
     if td_get_python_type_of (ss_types cx) t = Some (PyBuiltin BUntypedFunc) then Some (Inl (Panicked PanicMacro))
     else
       qbind (get_function_cg_cfg K f cx) (\<lambda>(_, cx).
       qbind (qrust (unwrap (read_meta K f vm_internal_refs cx))) (\<lambda>refs.
       qbind (Some (push_callees K (case refs of None \<Rightarrow> [] | Some rs \<Rightarrow> rs) (map fst collected) stack cx)) (\<lambda>(stack, cx).
       Some (Inr (stack, assoc_put f t collected, cx))))))"

partial_function (option) call_graph_loop ::
  "('vg, 'g, 'cg) call_cx \<Rightarrow> value_id list \<Rightarrow> collected \<Rightarrow> ('vg, 'cg) session \<Rightarrow> (collected \<times> ('vg, 'cg) session) monty option" where
  "call_graph_loop K stack collected cx =
     (case stack of
        [] \<Rightarrow> Some (Inr (collected, cx))
      | f # rest \<Rightarrow>
          (case call_graph_step K f rest collected cx of
             None \<Rightarrow> None
           | Some r \<Rightarrow>
               (case r of
                  Inl e \<Rightarrow> Some (Inl e)
                | Inr (stack', collected', cx') \<Rightarrow> call_graph_loop K stack' collected' cx')))"

text \<open>The entry function takes no arguments and returns \<open>int\<close> or \<open>None\<close>.\<close>

definition check_entry :: "python_type option \<Rightarrow> unit rust" where
  "check_entry k =
     and_then (unwrap k) (\<lambda>k.
     (case k of
        PyCallable None ret \<Rightarrow> if ret = builtin_tag BInt \<or> ret = builtin_tag BNone then Inr () else Inl TodoMacro
      | _ \<Rightarrow> Inl TodoMacro))"

definition call_graph_from ::
  "('vg, 'g, 'cg) call_cx \<Rightarrow> value_id \<Rightarrow> ('vg, 'cg) session \<Rightarrow> (value_id list \<times> value_id \<times> ('vg, 'cg) session) monty option" where
  "call_graph_from K entry_v cx =
     qbind (Some (type_query K entry_v cx)) (\<lambda>(entry_t, cx).
     qbind (qrust (check_entry (td_get_python_type_of (ss_types cx) entry_t))) (\<lambda>_.
     qbind (call_graph_loop K [entry_v] [] cx) (\<lambda>(collected, cx).
     qbind (Some (type_query K entry_v cx)) (\<lambda>(entry_t, cx).
     Some (Inr (cc_map_order K (map fst (assoc_put entry_v entry_t collected)), entry_v, cx))))))"

section \<open>What the queries keep\<close>

lemma type_query_Inr: "type_query K val cx = Inr (t, cx') \<longleftrightarrow> get_type_of (cc_driver K) (cc_depth K) val cx = Some (Inr (t, cx'))"
  by (simp add: type_query_def split: option.split)

lemma type_query_extends: "type_query K val cx = Inr (t, cx') \<Longrightarrow> session_extends (cc_driver K) cx cx'"
  unfolding type_query_Inr by (rule get_type_of_extends)

lemma type_query_settled: "type_query K val cx = Inr (t, cx') \<Longrightarrow> reg_ok (ss_types cx) \<Longrightarrow> settled (cc_driver K) cx' val t"
  unfolding type_query_Inr by (rule get_type_of_extends)

interpretation calls: session_relation "call_queries K" "session_extends (cc_driver K)" for K :: "('vg, 'g, 'cg) call_cx"
  by unfold_locales
    (auto simp: call_queries_def intro: session_extends_trans type_query_extends session_extends_types)

text \<open>Only the caches of a value change until its graph is stored, and nothing that matters after.\<close>

definition graph_kept :: "'vg driver \<Rightarrow> 'cg value_metadata \<Rightarrow> 'cg value_metadata \<Rightarrow> bool" where
  "graph_kept D m m' \<longleftrightarrow> vm_object_id m' = vm_object_id m
     \<and> (vm_type_id m \<noteq> None \<or> class_object D m \<longrightarrow> vm_type_id m' = vm_type_id m)
     \<and> vm_cg_flowgraph m' = vm_cg_flowgraph m \<and> vm_internal_refs m' = vm_internal_refs m"

definition graph_stored :: "'vg driver \<Rightarrow> 'cg value_metadata \<Rightarrow> 'cg value_metadata \<Rightarrow> bool" where
  "graph_stored D m m' \<longleftrightarrow> vm_object_id m' = vm_object_id m
     \<and> (vm_type_id m \<noteq> None \<or> class_object D m \<longrightarrow> vm_type_id m' = vm_type_id m)
     \<and> (vm_cg_flowgraph m \<noteq> None \<longrightarrow> vm_cg_flowgraph m' = vm_cg_flowgraph m \<and> vm_internal_refs m' = vm_internal_refs m)"

lemma class_object_same: "vm_object_id m' = vm_object_id m \<Longrightarrow> class_object D m' = class_object D m"
  by (simp add: class_object_def)

lemma graph_kept_trans: "graph_kept D a b \<Longrightarrow> graph_kept D b c \<Longrightarrow> graph_kept D a c"
  unfolding graph_kept_def using class_object_same by metis

lemma graph_stored_trans: "graph_stored D a b \<Longrightarrow> graph_stored D b c \<Longrightarrow> graph_stored D a c"
  unfolding graph_stored_def using class_object_same by metis

lemma graph_kept_stored: "graph_kept D m m' \<Longrightarrow> graph_stored D m m'"
  by (simp add: graph_kept_def graph_stored_def)

lemma more_typed_kept:
  assumes "more_typed D m m'" shows "graph_kept D m m'"
proof -
  obtain t where "m' = m\<lparr>vm_type_id := t\<rparr>" using assms unfolding more_typed_def by blast
  then show ?thesis using assms by (auto simp: more_typed_def graph_kept_def)
qed

abbreviation keeps_graphs :: "('vg, 'g, 'cg) call_cx \<Rightarrow> ('vg, 'cg) session \<Rightarrow> ('vg, 'cg) session \<Rightarrow> bool" where
  "keeps_graphs K \<equiv> sessions_rel (graph_kept (cc_driver K))"

abbreviation adds_graphs :: "('vg, 'g, 'cg) call_cx \<Rightarrow> ('vg, 'cg) session \<Rightarrow> ('vg, 'cg) session \<Rightarrow> bool" where
  "adds_graphs K \<equiv> sessions_rel (graph_stored (cc_driver K))"

lemma keeps_graphs_trans: "keeps_graphs K cx cx' \<Longrightarrow> keeps_graphs K cx' cx'' \<Longrightarrow> keeps_graphs K cx cx''"
  using sessions_rel_trans [of "graph_kept (cc_driver K)"] graph_kept_trans by blast

lemma adds_graphs_trans: "adds_graphs K cx cx' \<Longrightarrow> adds_graphs K cx' cx'' \<Longrightarrow> adds_graphs K cx cx''"
  using sessions_rel_trans [of "graph_stored (cc_driver K)"] graph_stored_trans by blast

lemma keeps_adds: "keeps_graphs K cx cx' \<Longrightarrow> adds_graphs K cx cx'"
  by (erule sessions_rel_mono) (rule graph_kept_stored)

lemma extends_keeps: "session_extends (cc_driver K) cx cx' \<Longrightarrow> keeps_graphs K cx cx'"
  by (erule sessions_rel_mono) (rule more_typed_kept)

lemma adds_graphs_refl [simp]: "adds_graphs K cx cx"
  by (rule keeps_adds [OF extends_keeps]) simp

text \<open>The code of functions is well formed, and what stored graphs refer to is recorded.\<close>

definition code_ok :: "flat_seq \<Rightarrow> bool" where
  "code_ok seq \<longleftrightarrow> (\<exists>lab. seq_ok lab seq) \<and> length (fs_inst seq) < 2 ^ 32 - 1"

definition meta_ok :: "('vg, 'g, 'cg) call_cx \<Rightarrow> 'cg value_metadata \<Rightarrow> bool" where
  "meta_ok K m \<longleftrightarrow> (\<forall>seq code. vm_flatcode m = Some (seq, code) \<longrightarrow> code_ok seq)
     \<and> (\<forall>cg. vm_cg_flowgraph m = Some cg \<longrightarrow>
          (\<exists>refs. vm_internal_refs m = Some refs \<and> set (cg_uses (cc_code_graph K) cg) \<subseteq> set refs))"

definition calls_ok :: "('vg, 'g, 'cg) call_cx \<Rightarrow> ('vg, 'cg) session \<Rightarrow> bool" where
  "calls_ok K cx \<longleftrightarrow> reg_ok (ss_types cx) \<and> (\<forall>v m. meta_of cx v = Some m \<longrightarrow> meta_ok K m)"

definition heap_code_ok :: "('vg, 'g, 'cg) call_cx \<Rightarrow> bool" where
  "heap_code_ok K \<longleftrightarrow> (\<forall>ob code i dict seq.
     with_object ob function_parts (rt_objects (dr_rt (cc_driver K))) = Inr (Inr (FnCode code i, dict))
     \<longrightarrow> get_at (fc_sequences code) i = Some seq \<longrightarrow> code_ok seq)"

lemma read_meta_Some: "read_meta K val f cx = Some x \<Longrightarrow> \<exists>m. meta_of cx val = Some m \<and> x = f m"
  by (auto simp: read_meta_def with_metadata_def meta_of_def resolve_value_def split: bind_splits)

lemma write_meta_cases:
  obtains (gone) "write_meta K val f cx = cx"
  | (written) m where "meta_of cx val = Some m" "ss_types (write_meta K val f cx) = ss_types cx"
      "vs_graph (ss_values (write_meta K val f cx)) = vs_graph (ss_values cx)"
      "vs_assoc_cache (ss_values (write_meta K val f cx)) = vs_assoc_cache (ss_values cx)"
      "meta_of (write_meta K val f cx) = (meta_of cx)(val \<mapsto> f m)"
proof (cases "with_metadata_mut (dr_graph (cc_driver K)) (dr_hash (cc_driver K)) (ValueKey val) (\<lambda>m. ((), f m)) (ss_values cx)")
  case None
  then show ?thesis using gone by (simp add: write_meta_def)
next
  case (Some r)
  then obtain m where "meta_of cx val = Some m"
    "write_meta K val f cx = cx\<lparr>ss_values := (ss_values cx)\<lparr>vs_metadata := assoc_put val (f m) (vs_metadata (ss_values cx))\<rparr>\<rparr>"
    by (auto simp: write_meta_def with_metadata_mut_def resolve_value_def meta_of_def split: bind_splits)
  then show ?thesis using written by (auto simp: meta_of_def)
qed

lemma write_meta_keeps:
  assumes "\<And>m. meta_of cx val = Some m \<Longrightarrow> P m (f m)" and "\<And>m. P m m"
  shows "sessions_rel P cx (write_meta K val f cx)"
  by (cases rule: write_meta_cases [of K val f cx]) (auto simp: sessions_rel_def assms option.rel_refl)

lemma write_meta_calls_ok:
  assumes "calls_ok K cx" and "\<And>m. meta_of cx val = Some m \<Longrightarrow> meta_ok K m \<Longrightarrow> meta_ok K (f m)"
  shows "calls_ok K (write_meta K val f cx)"
  by (cases rule: write_meta_cases [of K val f cx]) (use assms in \<open>auto simp: calls_ok_def\<close>)

lemma extends_calls_ok:
  assumes "session_extends (cc_driver K) cx cx'" and "calls_ok K cx" shows "calls_ok K cx'"
proof -
  have "meta_ok K m'" if m': "meta_of cx' v = Some m'" for v m'
  proof -
    obtain m where m: "meta_of cx v = Some m" "more_typed (cc_driver K) m m'"
      using sessions_rel_meta' [OF assms(1) m'] by blast
    obtain t where "m' = m\<lparr>vm_type_id := t\<rparr>" using m(2) unfolding more_typed_def by blast
    then show ?thesis using assms(2) m(1) by (simp add: calls_ok_def meta_ok_def)
  qed
  then show ?thesis using assms sessions_rel_types [OF assms(1)] by (auto simp: calls_ok_def)
qed

lemma get_function_keeps:
  assumes "get_function K val cx = Inr (f, cx')" and heap: "heap_code_ok K" and ok: "calls_ok K cx"
  shows "keeps_graphs K cx cx' \<and> calls_ok K cx'"
proof -
  obtain fn ob where r: "read_meta K val (\<lambda>m. (vm_function m, vm_object_id m)) cx = Some (fn, ob)"
    using assms(1) by (auto simp: get_function_def and_then_Inr_iff ok_or_def split: option.split_asm)
  show ?thesis
  proof (cases fn)
    case (Some f')
    then show ?thesis using assms r by (auto simp: get_function_def ok_or_def intro: extends_keeps)
  next
    case None
    obtain ob' body dict where b: "ob = Some ob'" "with_object ob' function_parts (rt_objects (dr_rt (cc_driver K))) = Inr (Inr (body, dict))"
      using assms(1) r None by (auto simp: get_function_def ok_or_def and_then_Inr_iff)
    then obtain code i where c: "body = FnCode code i"
      using assms(1) r None by (cases body) (auto simp: get_function_def ok_or_def and_then_Inr_iff)
    obtain seq t cx1 where s: "get_at (fc_sequences code) i = Some seq" "type_query K val cx = Inr (t, cx1)"
      "cx' = write_meta K val (\<lambda>m. m\<lparr>vm_function := Some f\<rparr>) (write_meta K val (\<lambda>m. m\<lparr>vm_flatcode := Some (seq, Some code)\<rparr>) cx1)"
      using assms(1) r None b c by (auto simp: get_function_def ok_or_def and_then_Inr_iff Let_def split: option.split_asm)
    note ext = type_query_extends [OF s(2)]
    have code: "code_ok seq" using heap b(2) c s(1) by (auto simp: heap_code_ok_def)
    have "keeps_graphs K cx1 cx'" unfolding s(3)
      by (intro keeps_graphs_trans [OF write_meta_keeps write_meta_keeps]) (auto simp: graph_kept_def)
    moreover have "calls_ok K cx'" unfolding s(3)
      by (intro write_meta_calls_ok extends_calls_ok [OF ext ok]) (use code in \<open>auto simp: meta_ok_def\<close>)
    ultimately show ?thesis using keeps_graphs_trans [OF extends_keeps [OF ext]] by blast
  qed
qed

lemma set_add_refs: "set (add_refs vs refs) = set vs \<union> set refs"
  unfolding add_refs_def by (induction vs arbitrary: refs) auto

text \<open>What is recorded with a graph.\<close>

definition has_graph :: "('vg, 'cg) session \<Rightarrow> value_id \<Rightarrow> bool" where
  "has_graph cx f \<longleftrightarrow> (\<exists>m. meta_of cx f = Some m \<and> vm_cg_flowgraph m \<noteq> None)"

lemma record_graph_keeps:
  assumes none: "\<And>m. meta_of cx f = Some m \<Longrightarrow> vm_cg_flowgraph m = None" and "meta_of cx f \<noteq> None" and ok: "calls_ok K cx"
    and w: "resolve_value (dr_graph (cc_driver K)) (ss_values cx) f = Some f"
  shows "adds_graphs K cx (record_graph K f cg cx)" and "calls_ok K (record_graph K f cg cx)"
    and "\<exists>m. meta_of (record_graph K f cg cx) f = Some m \<and> vm_cg_flowgraph m = Some cg"
proof -
  show "adds_graphs K cx (record_graph K f cg cx)" unfolding record_graph_def
    by (rule write_meta_keeps) (auto simp: graph_stored_def dest: none)
  show "calls_ok K (record_graph K f cg cx)" unfolding record_graph_def
    by (rule write_meta_calls_ok [OF ok]) (auto simp: meta_ok_def set_add_refs)
  show "\<exists>m. meta_of (record_graph K f cg cx) f = Some m \<and> vm_cg_flowgraph m = Some cg"
    using assms(2) w by (auto simp: record_graph_def write_meta_def with_metadata_mut_def meta_of_def split: option.split)
qed

lemma keeps_resolve: "sessions_rel P cx cx' \<Longrightarrow> resolve_value V (ss_values cx') f = resolve_value V (ss_values cx) f"
  by (simp add: resolve_value_def vs_node_def sessions_rel_def)

lemma get_function_cg_cfg_keeps:
  assumes "get_function_cg_cfg K f cx = Some (Inr (cg, cx'))" and heap: "heap_code_ok K" and ok: "calls_ok K cx"
  shows "adds_graphs K cx cx' \<and> calls_ok K cx' \<and> (\<exists>m. meta_of cx' f = Some m \<and> vm_cg_flowgraph m = Some cg)"
proof -
  obtain cached where c: "read_meta K f vm_cg_flowgraph cx = Some cached"
    using assms(1) by (auto simp: get_function_cg_cfg_def qbind_Inr qrust_Inr)
  obtain m where m: "meta_of cx f = Some m" "cached = vm_cg_flowgraph m" using read_meta_Some [OF c] by blast
  show ?thesis
  proof (cases cached)
    case (Some cg')
    then show ?thesis using assms c m by (auto simp: get_function_cg_cfg_def)
  next
    case None
    then obtain fn cx1 func cx2 where s: "get_function K f cx = Inr (fn, cx1)"
      "typecheck (call_queries K) (cc_block_graph K) (cc_code_graph K) (cc_build K) func cx1 = Some (Inr (cg, cx2))"
      "cx' = record_graph K f cg cx2"
      using assms(1) c by (auto simp: get_function_cg_cfg_def qbind_Inr qrust_Inr)
    note fn = get_function_keeps [OF s(1) heap ok]
    have t: "session_extends (cc_driver K) cx1 cx2" by (rule calls.typecheck_keeps [OF s(2)])
    have kept: "keeps_graphs K cx cx2" using fn keeps_graphs_trans extends_keeps [OF t] by blast
    have ok2: "calls_ok K cx2" using extends_calls_ok [OF t] fn by blast
    obtain m2 where m2: "meta_of cx2 f = Some m2" "graph_kept (cc_driver K) m m2" using sessions_rel_meta [OF kept m(1)] by blast
    have "resolve_value (dr_graph (cc_driver K)) (ss_values cx) f = Some f"
      using c by (auto simp: read_meta_def with_metadata_def resolve_value_def split: bind_splits)
    then have w: "resolve_value (dr_graph (cc_driver K)) (ss_values cx2) f = Some f" using keeps_resolve [OF kept] by simp
    have none: "vm_cg_flowgraph m' = None" if "meta_of cx2 f = Some m'" for m'
      using m2 that m(2) None by (simp add: graph_kept_def)
    note rec = record_graph_keeps [OF none _ ok2 w, of cg]
    show ?thesis using adds_graphs_trans [OF keeps_adds [OF kept] rec(1)] rec(2,3) m2(1) s(3) by simp
  qed
qed

text \<open>The code of a function is found in its metadata, where it is well formed: type checking returns.\<close>

lemma get_function_cg_cfg_returns:
  assumes "graph_laws (cc_block_graph K)" and "graph_laws (cc_code_graph K)" and heap: "heap_code_ok K" and ok: "calls_ok K cx"
  shows "get_function_cg_cfg K f cx \<noteq> None"
proof -
  have "typecheck (call_queries K) (cc_block_graph K) (cc_code_graph K) b func cx1 \<noteq> None" if ok1: "calls_ok K cx1" for b func cx1
  proof (cases "get_function_flatcode (call_queries K) cx1 (fu_value_id func)")
    case (Inl e)
    then show ?thesis by (simp add: typecheck_def typecheck_setup_def)
  next
    case (Inr seq)
    then obtain code where "with_metadata (dr_graph (cc_driver K)) (dr_hash (cc_driver K)) (ValueKey (fu_value_id func)) vm_flatcode (ss_values cx1) = Some (Some (seq, code))"
      by (auto simp: get_function_flatcode_def call_queries_def ok_or_def and_then_Inr_iff split: option.split_asm)
    then obtain m where "meta_of cx1 (fu_value_id func) = Some m" "vm_flatcode m = Some (seq, code)"
      by (auto simp: with_metadata_def meta_of_def resolve_value_def split: bind_splits)
    then have "code_ok seq" using ok1 by (auto simp: calls_ok_def meta_ok_def)
    then show ?thesis using typecheck_result [OF assms(1,2) Inr] unfolding code_ok_def by blast
  qed
  note tc = this
  show ?thesis
  proof (cases "get_function K f cx")
    case (Inl e)
    then show ?thesis by (auto simp: get_function_cg_cfg_def qbind_def qrust_def lift_panic_def split: sum.split option.split)
  next
    case (Inr r)
    obtain fn cx1 where r: "r = (fn, cx1)" by (cases r)
    have "calls_ok K cx1" using get_function_keeps [OF _ heap ok, of f fn cx1] Inr r by simp
    from tc [OF this] Inr r show ?thesis
      by (simp add: get_function_cg_cfg_def qbind_def qrust_def lift_panic_def del: not_None_eq split: sum.split option.split prod.split)
  qed
qed

section \<open>The functions that are collected\<close>

definition callable :: "('vg, 'cg) session \<Rightarrow> value_id \<Rightarrow> bool" where
  "callable cx g \<longleftrightarrow> (\<exists>m t ps r. meta_of cx g = Some m \<and> vm_type_id m = Some t \<and> td_get_python_type_of (ss_types cx) t = Some (PyCallable ps r))"

text \<open>A value with a stored graph refers to a function.\<close>

definition refers :: "('vg, 'cg) session \<Rightarrow> value_id \<Rightarrow> value_id \<Rightarrow> bool" where
  "refers cx f g \<longleftrightarrow> (\<exists>m refs. meta_of cx f = Some m \<and> vm_cg_flowgraph m \<noteq> None \<and> vm_internal_refs m = Some refs \<and> g \<in> set refs) \<and> callable cx g"

text \<open>The type of a value is known for good.\<close>

definition decided :: "'vg driver \<Rightarrow> ('vg, 'cg) session \<Rightarrow> value_id \<Rightarrow> bool" where
  "decided D cx g \<longleftrightarrow> (\<exists>m. meta_of cx g = Some m
     \<and> (case vm_type_id m of Some t \<Rightarrow> td_get_python_type_of (ss_types cx) t \<noteq> None | None \<Rightarrow> class_object D m))"

lemma callable_mono:
  assumes a: "adds_graphs K cx cx'" "reg_ok (ss_types cx)" and "callable cx g" shows "callable cx' g"
proof -
  obtain m t ps r where m: "meta_of cx g = Some m" "vm_type_id m = Some t" "td_get_python_type_of (ss_types cx) t = Some (PyCallable ps r)"
    using assms(3) unfolding callable_def by blast
  obtain m' where "meta_of cx' g = Some m'" "graph_stored (cc_driver K) m m'" using sessions_rel_meta [OF a(1) m(1)] by blast
  then show ?thesis
    using m(2) td.grows_look [OF conjunct2 [OF sessions_rel_types [OF a]] m(3)] by (auto simp: callable_def graph_stored_def)
qed

lemma decided_stable:
  assumes a: "adds_graphs K cx cx'" "reg_ok (ss_types cx)" and "decided (cc_driver K) cx g"
  shows "decided (cc_driver K) cx' g" and "callable cx' g \<longleftrightarrow> callable cx g"
proof -
  obtain m where m: "meta_of cx g = Some m"
    "case vm_type_id m of Some t \<Rightarrow> td_get_python_type_of (ss_types cx) t \<noteq> None | None \<Rightarrow> class_object (cc_driver K) m"
    using assms(3) unfolding decided_def by blast
  obtain m' where m': "meta_of cx' g = Some m'" "graph_stored (cc_driver K) m m'" using sessions_rel_meta [OF a(1) m(1)] by blast
  have "vm_type_id m' = vm_type_id m" "class_object (cc_driver K) m' = class_object (cc_driver K) m"
    using m' m(2) class_object_same [of m' m] by (auto simp: graph_stored_def split: option.splits)
  then show "decided (cc_driver K) cx' g" "callable cx' g \<longleftrightarrow> callable cx g"
    using m m'(1) td.grows_look [OF conjunct2 [OF sessions_rel_types [OF a]]]
    by (fastforce simp: decided_def callable_def split: option.splits)+
qed

lemma type_query_decides:
  assumes q: "type_query K g cx = Inr (t, cx')" and ok: "reg_ok (ss_types cx)" and k: "td_get_python_type_of (ss_types cx') t = Some k"
  shows "decided (cc_driver K) cx' g" and "callable cx' g \<longleftrightarrow> (\<exists>ps r. k = PyCallable ps r)"
  using type_query_settled [OF q ok] k by (auto simp: settled_def decided_def callable_def split: option.splits)

lemma push_callees_ok:
  "push_callees K refs coll stack cx = Inr (stack', cx') \<Longrightarrow> reg_ok (ss_types cx) \<Longrightarrow>
    session_extends (cc_driver K) cx cx' \<and> (\<forall>g \<in> set refs. decided (cc_driver K) cx' g)
    \<and> (\<exists>new. stack' = new @ stack \<and> set new = {g \<in> set refs. callable cx' g \<and> g \<notin> set coll})"
proof (induction refs arbitrary: stack cx)
  case (Cons r refs)
  obtain t cx1 k where q: "type_query K r cx = Inr (t, cx1)" "td_get_python_type_of (ss_types cx1) t = Some k"
    "(case k of
        PyCallable _ _ \<Rightarrow> push_callees K refs coll (if r \<in> set coll then stack else r # stack) cx1
      | PyBuiltin BUntypedFunc \<Rightarrow> Inl (Panicked PanicMacro)
      | _ \<Rightarrow> push_callees K refs coll stack cx1) = Inr (stack', cx')"
    using Cons.prems(1) by (auto simp: and_then_Inr_iff)
  note ext = type_query_extends [OF q(1)] and dec = type_query_decides [OF q(1) Cons.prems(2) q(2)]
  have ok: "reg_ok (ss_types cx1)" using sessions_rel_types [OF ext Cons.prems(2)] by blast
  define pushed where "pushed = (if (\<exists>ps ret. k = PyCallable ps ret) \<and> r \<notin> set coll then [r] else [])"
  have "push_callees K refs coll (pushed @ stack) cx1 = Inr (stack', cx')"
    using q(3) by (auto simp: pushed_def split: python_type.splits builtin_type.splits if_splits)
  note IH = Cons.IH [OF this ok]
  have st: "decided (cc_driver K) cx' r" "callable cx' r \<longleftrightarrow> callable cx1 r"
    using decided_stable [OF keeps_adds [OF extends_keeps] ok dec(1)] IH by blast+
  obtain new where "stack' = new @ pushed @ stack" "set new = {g \<in> set refs. callable cx' g \<and> g \<notin> set coll}" using IH by blast
  moreover have "set pushed = {g \<in> {r}. callable cx' g \<and> g \<notin> set coll}" using dec(2) st(2) by (auto simp: pushed_def)
  ultimately have "stack' = (new @ pushed) @ stack \<and> set (new @ pushed) = {g \<in> set (r # refs). callable cx' g \<and> g \<notin> set coll}" by auto
  moreover have "session_extends (cc_driver K) cx cx'" using session_extends_trans [OF ext] IH by blast
  ultimately show ?case using st(1) IH unfolding set_simps by blast
qed simp

text \<open>The invariant of the loop, and that it survives what the queries do to the session.\<close>

definition collected_ok :: "('vg, 'g, 'cg) call_cx \<Rightarrow> value_id list \<Rightarrow> value_id set \<Rightarrow> ('vg, 'cg) session \<Rightarrow> value_id \<Rightarrow> bool" where
  "collected_ok K stack C cx f \<longleftrightarrow> (\<exists>m refs. meta_of cx f = Some m \<and> vm_cg_flowgraph m \<noteq> None \<and> vm_internal_refs m = Some refs
     \<and> (\<forall>g \<in> set refs. decided (cc_driver K) cx g \<and> (callable cx g \<longrightarrow> g \<in> set stack \<union> C)))"

definition calls_inv :: "('vg, 'g, 'cg) call_cx \<Rightarrow> value_id \<Rightarrow> value_id list \<Rightarrow> value_id set \<Rightarrow> ('vg, 'cg) session \<Rightarrow> bool" where
  "calls_inv K entry_v stack C cx \<longleftrightarrow> calls_ok K cx \<and> entry_v \<in> set stack \<union> C
     \<and> (\<forall>f \<in> set stack \<union> C. (refers cx)\<^sup>*\<^sup>* entry_v f) \<and> (\<forall>f \<in> C. collected_ok K stack C cx f)"

lemma refers_mono:
  assumes a: "adds_graphs K cx cx'" "reg_ok (ss_types cx)" and "refers cx f g" shows "refers cx' f g"
proof -
  obtain m refs where m: "meta_of cx f = Some m" "vm_cg_flowgraph m \<noteq> None" "vm_internal_refs m = Some refs" "g \<in> set refs" "callable cx g"
    using assms(3) unfolding refers_def by blast
  obtain m' where "meta_of cx' f = Some m'" "graph_stored (cc_driver K) m m'" using sessions_rel_meta [OF a(1) m(1)] by blast
  then show ?thesis using m(2-4) callable_mono [OF a m(5)] by (auto simp: refers_def graph_stored_def)
qed

lemma collected_ok_mono:
  assumes a: "adds_graphs K cx cx'" "reg_ok (ss_types cx)" and "collected_ok K stack C cx f" and s: "set stack \<union> C \<subseteq> set stack' \<union> C'"
  shows "collected_ok K stack' C' cx' f"
proof -
  obtain m refs where m: "meta_of cx f = Some m" "vm_cg_flowgraph m \<noteq> None" "vm_internal_refs m = Some refs"
    "\<forall>g \<in> set refs. decided (cc_driver K) cx g \<and> (callable cx g \<longrightarrow> g \<in> set stack \<union> C)"
    using assms(3) unfolding collected_ok_def by blast
  obtain m' where m': "meta_of cx' f = Some m'" "graph_stored (cc_driver K) m m'" using sessions_rel_meta [OF a(1) m(1)] by blast
  then have "vm_cg_flowgraph m' \<noteq> None" "vm_internal_refs m' = Some refs" using m(2,3) by (simp_all add: graph_stored_def)
  then show ?thesis using m(4) m'(1) decided_stable [OF a] s unfolding collected_ok_def by blast
qed

lemma calls_inv_mono:
  assumes i: "calls_inv K entry_v stack C cx" and a: "adds_graphs K cx cx'" and ok: "calls_ok K cx'"
  shows "calls_inv K entry_v stack C cx'"
proof -
  have r: "reg_ok (ss_types cx)" using i by (simp add: calls_inv_def calls_ok_def)
  have "(refers cx')\<^sup>*\<^sup>* entry_v f" if "(refers cx)\<^sup>*\<^sup>* entry_v f" for f
    using that refers_mono [OF a r] by (metis mono_rtranclp)
  then show ?thesis using i ok collected_ok_mono [OF a r] unfolding calls_inv_def by blast
qed

lemma calls_inv_final:
  assumes "calls_inv K entry_v [] C cx" shows "C = {f. (refers cx)\<^sup>*\<^sup>* entry_v f}"
proof -
  have "f \<in> C" if "(refers cx)\<^sup>*\<^sup>* entry_v f" for f
    using that
  proof (induction rule: rtranclp_induct)
    case (step f g)
    then show ?case using assms by (fastforce simp: calls_inv_def collected_ok_def refers_def)
  qed (use assms in \<open>simp add: calls_inv_def\<close>)
  then show ?thesis using assms by (auto simp: calls_inv_def)
qed

lemma call_graph_step_ok:
  assumes heap: "heap_code_ok K" and i: "calls_inv K entry_v (f # rest) (fst ` set coll) cx"
    and s: "call_graph_step K f rest coll cx = Some (Inr (stack', coll', cx'))"
  shows "calls_inv K entry_v stack' (fst ` set coll') cx'"
    and "adds_graphs K cx cx'" and "fst ` set coll' = insert f (fst ` set coll)" and "f \<in> dom (meta_of cx)"
    and "\<exists>new. stack' = new @ rest \<and> set new \<inter> fst ` set coll = {}"
proof -
  obtain t cx1 cg cx2 refs cx3 where q: "type_query K f cx = Inr (t, cx1)" "get_function_cg_cfg K f cx1 = Some (Inr (cg, cx2))"
    "read_meta K f vm_internal_refs cx2 = Some refs"
    "push_callees K (case refs of None \<Rightarrow> [] | Some rs \<Rightarrow> rs) (map fst coll) rest cx2 = Inr (stack', cx')" "coll' = assoc_put f t coll"
    using s by (auto simp: call_graph_step_def qbind_Inr qrust_Inr split: if_splits)
  have ok: "calls_ok K cx" using i by (simp add: calls_inv_def)
  note e1 = type_query_extends [OF q(1)]
  have ok1: "calls_ok K cx1" by (rule extends_calls_ok [OF e1 ok])
  note g = get_function_cg_cfg_keeps [OF q(2) heap ok1]
  then have a2: "adds_graphs K cx cx2" and ok2: "calls_ok K cx2" using adds_graphs_trans [OF keeps_adds [OF extends_keeps [OF e1]]] by blast+
  have r2: "reg_ok (ss_types cx2)" using ok2 by (simp add: calls_ok_def)
  note p = push_callees_ok [OF q(4) r2]
  then have a3: "adds_graphs K cx2 cx'" using keeps_adds [OF extends_keeps] by blast
  have ok3: "calls_ok K cx'" using extends_calls_ok ok2 p by blast
  show a: "adds_graphs K cx cx'" by (rule adds_graphs_trans [OF a2 a3])
  show c: "fst ` set coll' = insert f (fst ` set coll)" using assoc_put_keys [of f t coll] q(5) by simp
  obtain new where new: "stack' = new @ rest" "set new = {g \<in> set (case refs of None \<Rightarrow> [] | Some rs \<Rightarrow> rs). callable cx' g \<and> g \<notin> fst ` set coll}"
    using p by auto
  then show "\<exists>new. stack' = new @ rest \<and> set new \<inter> fst ` set coll = {}" by auto
  obtain m2 where m2: "meta_of cx2 f = Some m2" "vm_cg_flowgraph m2 = Some cg" "vm_internal_refs m2 = refs"
    using g read_meta_Some [OF q(3)] by auto
  have "meta_ok K m2" using ok2 m2(1) unfolding calls_ok_def by blast
  then obtain rs where rs: "refs = Some rs" using m2(2,3) by (auto simp: meta_ok_def)
  show "f \<in> dom (meta_of cx)" using sessions_rel_meta' [OF a2 m2(1)] by blast
  obtain m3 where m3: "meta_of cx' f = Some m3" "vm_cg_flowgraph m3 = Some cg" "vm_internal_refs m3 = Some rs"
    using sessions_rel_meta [OF a3 m2(1)] m2(2,3) rs by (auto simp: graph_stored_def)
  have i': "calls_inv K entry_v (f # rest) (fst ` set coll) cx'" by (rule calls_inv_mono [OF i a ok3])
  have f: "collected_ok K stack' (fst ` set coll') cx' f"
    using m3 p new rs c unfolding collected_ok_def by fastforce
  have others: "collected_ok K stack' (fst ` set coll') cx' h" if "h \<in> fst ` set coll" for h
    by (rule collected_ok_mono [OF adds_graphs_refl _ _ _, of cx' K "f # rest" "fst ` set coll"])
      (use i' that new(1) c in \<open>auto simp: calls_inv_def calls_ok_def\<close>)
  have reach: "(refers cx')\<^sup>*\<^sup>* entry_v h" if "h \<in> set new" for h
  proof -
    have "refers cx' f h" using that new(2) m3 rs by (auto simp: refers_def)
    moreover have "(refers cx')\<^sup>*\<^sup>* entry_v f" using i' by (auto simp: calls_inv_def)
    ultimately show ?thesis by (rule rtranclp.rtrancl_into_rtrancl [rotated])
  qed
  show "calls_inv K entry_v stack' (fst ` set coll') cx'"
    using i' ok3 f others reach new(1) unfolding calls_inv_def c by auto
qed

lemma call_graph_loop_nil: "call_graph_loop K [] coll cx = Some (Inr (coll, cx))"
  by (subst call_graph_loop.simps) simp

lemma call_graph_loop_fail: "call_graph_step K f rest coll cx = Some (Inl e) \<Longrightarrow> call_graph_loop K (f # rest) coll cx = Some (Inl e)"
  by (subst call_graph_loop.simps) simp

lemma call_graph_loop_step:
  "call_graph_step K f rest coll cx = Some (Inr (stack', coll', cx')) \<Longrightarrow>
     call_graph_loop K (f # rest) coll cx = call_graph_loop K stack' coll' cx'"
  by (subst call_graph_loop.simps) simp

lemma call_graph_step_returns:
  assumes "graph_laws (cc_block_graph K)" and "graph_laws (cc_code_graph K)" and heap: "heap_code_ok K" and ok: "calls_ok K cx"
  shows "call_graph_step K f rest coll cx \<noteq> None"
proof (cases "type_query K f cx")
  case (Inl e)
  then show ?thesis by (simp add: call_graph_step_def)
next
  case (Inr r)
  obtain t cx1 where r: "r = (t, cx1)" by (cases r)
  have "calls_ok K cx1" using extends_calls_ok [OF type_query_extends ok] Inr r by blast
  from get_function_cg_cfg_returns [OF assms(1,2) heap this, of f] Inr r show ?thesis
    by (auto simp: call_graph_step_def qbind_def qrust_def lift_panic_def split: sum.split option.split)
qed

text \<open>
  A value is collected once, and what is pushed was not collected before: when the top of the stack
  has been collected already, either something new is on top after the step or the stack is shorter.
\<close>

definition call_rank :: "value_id list \<Rightarrow> value_id set \<Rightarrow> value_id set \<Rightarrow> nat \<times> nat \<times> nat" where
  "call_rank stack C D = (card (D - C), if stack \<noteq> [] \<and> hd stack \<in> C then 1 else 0, length stack)"

lemma call_rank_less:
  assumes "finite D" and "f \<in> D" and "stack' = new @ rest" and "set new \<inter> C = {}"
  shows "(call_rank stack' (insert f C) D, call_rank (f # rest) C D) \<in> less_than <*lex*> less_than <*lex*> less_than"
proof (cases "f \<in> C")
  case False
  have "card (D - insert f C) < card (D - C)" using assms(1,2) False by (intro psubset_card_mono) auto
  then show ?thesis by (simp add: call_rank_def)
next
  case True
  then have "insert f C = C" by blast
  then show ?thesis using assms(3,4) True by (cases new) (auto simp: call_rank_def)
qed

lemma call_graph_loop_ends:
  assumes laws: "graph_laws (cc_block_graph K)" "graph_laws (cc_code_graph K)" and heap: "heap_code_ok K"
  shows "calls_inv K entry_v stack (fst ` set coll) cx \<Longrightarrow>
    \<exists>r. call_graph_loop K stack coll cx = Some r
      \<and> (\<forall>coll' cx'. r = Inr (coll', cx') \<longrightarrow> calls_inv K entry_v [] (fst ` set coll') cx' \<and> adds_graphs K cx cx')"
proof (induction "call_rank stack (fst ` set coll) (dom (meta_of cx))" arbitrary: stack coll cx
    rule: wf_induct_rule [OF wf_lex_prod [OF wf_less_than wf_lex_prod [OF wf_less_than wf_less_than]]])
  case (1 stack coll cx)
  note IH = 1(1) and inv = 1(2)
  show ?case
  proof (cases stack)
    case Nil
    then show ?thesis using inv by (simp add: call_graph_loop_nil)
  next
    case (Cons f rest)
    have ok: "calls_ok K cx" using inv by (simp add: calls_inv_def)
    obtain r where r: "call_graph_step K f rest coll cx = Some r" using call_graph_step_returns [OF laws heap ok] by blast
    show ?thesis
    proof (cases r)
      case (Inl e)
      then show ?thesis using Cons r call_graph_loop_fail by fastforce
    next
      case (Inr s)
      obtain stack' coll' cx' where s: "s = (stack', coll', cx')" by (cases s)
      note st = call_graph_step_ok [OF heap inv [unfolded Cons] r [unfolded Inr s]]
      have dom: "dom (meta_of cx') = dom (meta_of cx)"
        using sessions_rel_meta [OF st(2)] sessions_rel_meta' [OF st(2)] by blast
      have "finite (dom (meta_of cx))" by (simp add: meta_of_def finite_dom_map_of)
      from call_rank_less [OF this st(4)] st(3,5) dom Cons
      have "(call_rank stack' (fst ` set coll') (dom (meta_of cx')), call_rank stack (fst ` set coll) (dom (meta_of cx)))
          \<in> less_than <*lex*> less_than <*lex*> less_than" by metis
      from IH [OF this st(1)] call_graph_loop_step [OF r [unfolded Inr s]] Cons show ?thesis
        using adds_graphs_trans [OF st(2)] by auto
    qed
  qed
qed

text \<open>
  C12. The call graph. When the graph library keeps its contract, the code of the functions is well
  formed and whatever graphs are already stored are recorded with their references, collecting the
  functions a program needs always ends. The functions returned are exactly those that lead from the entry
  through the references of functions to functions; each has its code, and every function its code
  uses or calls is among them.
\<close>

theorem call_graph_complete:
  assumes laws: "graph_laws (cc_block_graph K)" "graph_laws (cc_code_graph K)" and heap: "heap_code_ok K" and ok: "calls_ok K cx"
    and order: "\<And>xs. set (cc_map_order K xs) = set xs"
  shows "\<exists>r. call_graph_from K entry_v cx = Some r \<and> (\<forall>funcs e cx'. r = Inr (funcs, e, cx') \<longrightarrow>
    e = entry_v \<and> set funcs = {f. (refers cx')\<^sup>*\<^sup>* entry_v f}
    \<and> (\<forall>f \<in> set funcs. \<exists>m cg. meta_of cx' f = Some m \<and> vm_cg_flowgraph m = Some cg
         \<and> (\<forall>v \<in> set (cg_uses (cc_code_graph K) cg). callable cx' v \<longrightarrow> v \<in> set funcs)))"
proof (cases "type_query K entry_v cx")
  case (Inl e)
  then show ?thesis by (simp add: call_graph_from_def)
next
  case (Inr q)
  obtain t cx1 where q: "type_query K entry_v cx = Inr (t, cx1)" using Inr by (cases q) simp
  have ok1: "calls_ok K cx1" by (rule extends_calls_ok [OF type_query_extends [OF q] ok])
  have "calls_inv K entry_v [entry_v] (fst ` set []) cx1" using ok1 by (simp add: calls_inv_def)
  from call_graph_loop_ends [OF laws heap this] obtain r where r: "call_graph_loop K [entry_v] [] cx1 = Some r"
    "\<forall>coll' cx'. r = Inr (coll', cx') \<longrightarrow> calls_inv K entry_v [] (fst ` set coll') cx' \<and> adds_graphs K cx1 cx'" by blast
  have "\<exists>r'. call_graph_from K entry_v cx = Some r'"
    using r(1) q by (auto simp: call_graph_from_def qbind_def qrust_def lift_panic_def split: sum.split)
  moreover have "e = entry_v \<and> set funcs = {f. (refers cx')\<^sup>*\<^sup>* entry_v f}
      \<and> (\<forall>f \<in> set funcs. \<exists>m cg. meta_of cx' f = Some m \<and> vm_cg_flowgraph m = Some cg
         \<and> (\<forall>v \<in> set (cg_uses (cc_code_graph K) cg). callable cx' v \<longrightarrow> v \<in> set funcs))"
    if run: "call_graph_from K entry_v cx = Some (Inr (funcs, e, cx'))" for funcs e cx'
  proof -
    obtain coll cx2 t2 where c: "r = Inr (coll, cx2)" "type_query K entry_v cx2 = Inr (t2, cx')"
      "funcs = cc_map_order K (map fst (assoc_put entry_v t2 coll))" "e = entry_v"
      using run r(1) q by (auto simp: call_graph_from_def qbind_Inr qrust_Inr)
    have i2: "calls_inv K entry_v [] (fst ` set coll) cx2" using r(2) c(1) by blast
    note ext = type_query_extends [OF c(2)]
    have ok': "calls_ok K cx'" using extends_calls_ok [OF ext] i2 by (simp add: calls_inv_def)
    have i': "calls_inv K entry_v [] (fst ` set coll) cx'" by (rule calls_inv_mono [OF i2 keeps_adds [OF extends_keeps [OF ext]] ok'])
    have "entry_v \<in> fst ` set coll" using i' by (simp add: calls_inv_def)
    then have funcs: "set funcs = fst ` set coll" unfolding c(3) order using assoc_put_keys [of entry_v t2 coll] by auto
    have "\<exists>m cg. meta_of cx' f = Some m \<and> vm_cg_flowgraph m = Some cg
         \<and> (\<forall>v \<in> set (cg_uses (cc_code_graph K) cg). callable cx' v \<longrightarrow> v \<in> set funcs)" if "f \<in> set funcs" for f
    proof -
      have col: "collected_ok K [] (fst ` set coll) cx' f" using i' that unfolding calls_inv_def funcs by blast
      obtain m refs cg where m: "meta_of cx' f = Some m" "vm_cg_flowgraph m = Some cg" "vm_internal_refs m = Some refs"
        "\<forall>g \<in> set refs. callable cx' g \<longrightarrow> g \<in> set funcs"
        using col unfolding collected_ok_def funcs by auto
      have "meta_ok K m" using ok' m(1) unfolding calls_ok_def by blast
      then show ?thesis using m by (auto simp: meta_ok_def)
    qed
    then show ?thesis using calls_inv_final [OF i'] funcs c(4) by blast
  qed
  ultimately show ?thesis by blast
qed

text \<open>A function that calls another one; the code of both is stored.\<close>

definition two_metas :: "type_id \<Rightarrow> (value_id \<times> (cg_inst list list \<times> (nat \<times> nat \<times> unit) list) value_metadata) list" where
  "two_metas t =
     [(ValueId 0, (metadata_default (ValueId 0))\<lparr>vm_type_id := Some t, vm_internal_refs := Some [ValueId 1],
         vm_cg_flowgraph := Some ([[CgUse (ValueId 1) 0, CgCall (ValueId 1) [] 1, CgReturn 1]], [])\<rparr>),
      (ValueId 1, (metadata_default (ValueId 1))\<lparr>vm_type_id := Some t, vm_internal_refs := Some [],
         vm_cg_flowgraph := Some ([[CgConst (CInt 1) 0, CgReturn 0]], [])\<rparr>)]"

definition two_session :: "typing_data \<Rightarrow> type_id \<Rightarrow>
    (value_rec list \<times> (nat \<times> nat \<times> unit) list, cg_inst list list \<times> (nat \<times> nat \<times> unit) list) session" where
  "two_session td t = \<lparr>ss_types = td,
     ss_values = \<lparr>vs_graph = (replicate 2 value_default, []), vs_metadata = two_metas t, vs_assoc_cache = []\<rparr>\<rparr>"

definition two_calls :: "(value_rec list \<times> (nat \<times> nat \<times> unit) list, flat_inst list list \<times> (nat \<times> nat \<times> block_cfg_edge) list,
    cg_inst list list \<times> (nat \<times> nat \<times> unit) list) call_cx" where
  "two_calls = \<lparr>cc_driver = sample_driver, cc_depth = 0, cc_rt_hash = (\<lambda>_. 0), cc_block_graph = list_graph, cc_code_graph = list_graph,
     cc_build = True, cc_map_order = rev\<rparr>"

lemma two_meta: "meta_of (two_session td t) = map_of (two_metas t)"
  by (simp add: meta_of_def two_session_def)

lemma two_read: "read_meta two_calls v f (two_session td t) = (if v = ValueId 0 \<or> v = ValueId 1 then map_option f (map_of (two_metas t) v) else None)"
  by (cases v) (auto simp: read_meta_def two_calls_def sample_driver_def with_metadata_def resolve_value_def vs_node_def two_session_def
      list_graph_def get_at_def two_metas_def)

lemma two_types: "v = ValueId 0 \<or> v = ValueId 1 \<Longrightarrow> type_query two_calls v (two_session td t) = Inr (t, two_session td t)"
  using two_read [of v vm_type_id td t] by (auto simp: type_query_def get_type_of_def read_meta_def two_calls_def two_metas_def)

theorem call_graph_complete_witness:
  "\<exists>td t. call_graph_from two_calls (ValueId 0) (two_session td t) = Some (Inr ([ValueId 1, ValueId 0], ValueId 0, two_session td t))
     \<and> {f. (refers (two_session td t))\<^sup>*\<^sup>* (ValueId 0) f} = {ValueId 0, ValueId 1}"
proof -
  obtain td0 where td0: "registry_state td0" using registry_state_exists by blast
  have inv: "td_inv td0" by (rule registry_state_inv [OF td0])
  obtain t td where t: "td_inv td" "td_get_python_type_of td t = Some (PyCallable None 1)"
    using td_insert_step [OF inv, of "PyCallable None 1"] registry_builtin [OF td0, of BInt] by auto
  let ?cx = "two_session td t"
  have types: "ss_types ?cx = td" by (simp add: two_session_def)
  have "meta_ok two_calls m" if "map_of (two_metas t) v = Some m" for v m
    using that by (auto simp: two_metas_def meta_ok_def metadata_default_def two_calls_def cg_uses_def list_graph_def
        List.map_filter_def split: if_splits)
  then have ok: "calls_ok two_calls ?cx"
    using td_wf_reg_ok t(1) by (simp add: calls_ok_def two_meta types td_inv_def)
  have heap: "heap_code_ok two_calls"
    by (auto simp: heap_code_ok_def two_calls_def sample_driver_def with_object_def function_parts_def split: if_splits option.splits)
  have step: "call_graph_step two_calls (ValueId 0) [] [] ?cx = Some (Inr ([ValueId 1], [(ValueId 0, t)], ?cx))"
    "call_graph_step two_calls (ValueId 1) [] [(ValueId 0, t)] ?cx = Some (Inr ([], [(ValueId 0, t), (ValueId 1, t)], ?cx))"
    by (simp_all add: call_graph_step_def two_types types t(2) get_function_cg_cfg_def two_read two_metas_def and_then_def lift_panic_def)
  have "cc_map_order two_calls = rev" by (simp add: two_calls_def)
  then have run: "call_graph_from two_calls (ValueId 0) ?cx = Some (Inr ([ValueId 1, ValueId 0], ValueId 0, ?cx))"
    by (simp add: call_graph_from_def two_types types t(2) check_entry_def unwrap_def call_graph_loop_step [OF step(1)]
        call_graph_loop_step [OF step(2)] call_graph_loop_nil)
  have ops: "graph_laws (cc_block_graph two_calls)" "graph_laws (cc_code_graph two_calls)" "set (cc_map_order two_calls xs) = set xs" for xs
    using list_graph_laws by (simp_all add: two_calls_def)
  have "set [ValueId 1, ValueId 0] = {f. (refers ?cx)\<^sup>*\<^sup>* (ValueId 0) f}"
    using call_graph_complete [OF ops(1,2) heap ok ops(3), of "ValueId 0"] unfolding run by blast
  then show ?thesis using run by auto
qed

end
