(* ===== verification/Cranelift.thy ===== *)
theory Cranelift
  imports CallGraph
begin

text \<open>
  What the back end of \<^verbatim>\<open>montyc_codegen\<close> asks of cranelift, and its own data: tagged values
  (\<^verbatim>\<open>tvalue.rs\<close>), the functions to be compiled (\<^verbatim>\<open>cranelift/data.rs\<close>) and the builtin methods
  (\<^verbatim>\<open>cranelift/builtins\<close>). Cranelift is not part of the repository: its function builder, object
  module and verifier are the operations of the record \<open>clif\<close>, over types of states that stay
  abstract. A method of its instruction builder becomes one constructor of \<open>ir_inst\<close> with the
  arguments the code passes.
\<close>

section \<open>Sequencing on a state\<close>

definition sret :: "'a \<Rightarrow> 's \<Rightarrow> ('a \<times> 's) rust" where
  "sret x s = Inr (x, s)"

definition sbind :: "('s \<Rightarrow> ('a \<times> 's) rust) \<Rightarrow> ('a \<Rightarrow> 's \<Rightarrow> ('b \<times> 's) rust) \<Rightarrow> 's \<Rightarrow> ('b \<times> 's) rust" where
  "sbind m f s = and_then (m s) (\<lambda>(x, s'). f x s')"

definition slift :: "'a rust \<Rightarrow> 's \<Rightarrow> ('a \<times> 's) rust" where
  "slift r s = and_then r (\<lambda>x. Inr (x, s))"

text \<open>A step that returns nothing.\<close>

definition sdo :: "('s \<Rightarrow> 's rust) \<Rightarrow> 's \<Rightarrow> (unit \<times> 's) rust" where
  "sdo f s = and_then (f s) (\<lambda>s'. Inr ((), s'))"

lemma state_simps [simp]:
  "sret x s = Inr (x, s)"
  "slift (Inl p) s = Inl p"
  "slift (Inr x) s = Inr (x, s)"
  by (simp_all add: sret_def slift_def)

lemma sbind_Inr: "sbind m f s = Inr y \<longleftrightarrow> (\<exists>x s'. m s = Inr (x, s') \<and> f x s' = Inr y)"
  by (auto simp: sbind_def and_then_Inr_iff)

lemma sbind_run: "m s = Inr (x, s') \<Longrightarrow> sbind m f s = f x s'"
  by (simp add: sbind_def)

section \<open>Types, signatures, instructions\<close>

datatype ir_type = IrI8 | IrI16 | IrI32 | IrI64 | IrI128 | IrB1 | IrB8 | IrB16 | IrB32 | IrB64 | IrF32 | IrF64 | IrR64

text \<open>Values, blocks, stack slots and references to functions and data are numbered by cranelift.\<close>

type_synonym ir_value = nat
type_synonym ir_block = nat
type_synonym stack_slot = nat
type_synonym func_ref = nat
type_synonym func_id = nat

datatype call_conv = SystemV | DefaultConv

datatype linkage = LinkImport | LinkLocal | LinkExport

text \<open>\<open>ExternalName::User\<close>.\<close>

datatype external_name = UserName (name_space: u32) (name_index: u32)

record signature =
  sig_call_conv :: call_conv
  sig_params :: "ir_type list"
  sig_returns :: "ir_type list"

datatype int_cc = CcEqual | CcNotEqual

datatype ir_inst =
    Iconst ir_type "64 word"
  | IrCall func_ref "ir_value list"
  | IrStore ir_value ir_value nat
  | IrLoad ir_type ir_value nat
  | IrJump ir_block "ir_value list"
  | BrIcmp int_cc ir_value ir_value ir_block "ir_value list"
  | FuncAddr ir_type func_ref
  | GlobalAddr ir_type nat
  | StackLoad ir_type stack_slot nat
  | StackStore ir_value stack_slot nat
  | StackAddr ir_type stack_slot nat
  | IrReturn "ir_value list"
  | RawBitcast ir_type ir_value
  | Iadd ir_value ir_value
  | Isub ir_value ir_value
  | Icmp int_cc ir_value ir_value

section \<open>The operations of cranelift\<close>

text \<open>
  \<open>'b\<close> is a function under construction together with its builder, \<open>'o\<close> an object module. An
  operation of the builder may panic; one of the module may return an error.
\<close>

record ('b, 'o) clif =
  cl_pointer_type :: ir_type
  cl_function :: "external_name \<Rightarrow> signature \<Rightarrow> 'b"
  cl_set_name :: "external_name \<Rightarrow> 'b \<Rightarrow> 'b"
  cl_create_block :: "'b \<Rightarrow> ir_block \<times> 'b"
  cl_append_params :: "ir_block \<Rightarrow> 'b \<Rightarrow> 'b rust"
  cl_block_params :: "'b \<Rightarrow> ir_block \<Rightarrow> ir_value list"
  cl_current_block :: "'b \<Rightarrow> ir_block option"
  cl_switch_to_block :: "ir_block \<Rightarrow> 'b \<Rightarrow> 'b rust"
  cl_seal_block :: "ir_block \<Rightarrow> 'b \<Rightarrow> 'b rust"
  cl_seal_all_blocks :: "'b \<Rightarrow> 'b rust"
  cl_ins :: "ir_inst \<Rightarrow> 'b \<Rightarrow> (ir_value list \<times> 'b) rust"
  cl_create_stack_slot :: "nat \<Rightarrow> 'b \<Rightarrow> stack_slot \<times> 'b"
  cl_import_function :: "external_name \<Rightarrow> signature \<Rightarrow> bool \<Rightarrow> 'b \<Rightarrow> func_ref \<times> 'b"
  cl_call_memcpy :: "ir_value \<Rightarrow> ir_value \<Rightarrow> ir_value \<Rightarrow> 'b \<Rightarrow> 'b rust"
  cl_finalize :: "'b \<Rightarrow> 'b rust"
  cl_verify :: "'b \<Rightarrow> bool"
  om_new :: 'o
  om_declare_function :: "string \<Rightarrow> linkage \<Rightarrow> signature \<Rightarrow> 'o \<Rightarrow> (func_id \<times> 'o) option"
  om_define_function :: "func_id \<Rightarrow> 'b \<Rightarrow> 'o \<Rightarrow> 'o option"
  om_declare_func_in_func :: "'o \<Rightarrow> func_id \<Rightarrow> 'b \<Rightarrow> func_ref \<times> 'b"
  om_declare_data :: "string \<Rightarrow> 'o \<Rightarrow> (nat \<times> 'o) option"
  om_define_data :: "nat \<Rightarrow> string \<Rightarrow> 'o \<Rightarrow> 'o option"
  om_declare_data_in_func :: "'o \<Rightarrow> nat \<Rightarrow> 'b \<Rightarrow> nat \<times> 'b"

text \<open>The macro \<open>signature!\<close>.\<close>

definition mk_signature :: "call_conv \<Rightarrow> ir_type list \<Rightarrow> ir_type \<Rightarrow> signature" where
  "mk_signature cc params ret = \<lparr>sig_call_conv = cc, sig_params = params, sig_returns = [ret]\<rparr>"

text \<open>An instruction whose one result the code uses.\<close>

definition ins1 :: "('b, 'o) clif \<Rightarrow> ir_inst \<Rightarrow> 'b \<Rightarrow> (ir_value \<times> 'b) rust" where
  "ins1 C i fx = and_then (cl_ins C i fx) (\<lambda>(rs, fx). case rs of [] \<Rightarrow> Inl IndexOutOfBounds | r # _ \<Rightarrow> Inr (r, fx))"

definition ins0 :: "('b, 'o) clif \<Rightarrow> ir_inst \<Rightarrow> 'b \<Rightarrow> 'b rust" where
  "ins0 C i fx = and_then (cl_ins C i fx) (\<lambda>(_, fx). Inr fx)"

section \<open>Tagged values\<close>

datatype 'v value_kind = ImmValue 'v | ThinRef 'v | FatRef 'v 'v

record 'v tvalue =
  tv_inner :: "'v value_kind"
  tv_type_id :: type_id

definition tv_imm :: "'v \<Rightarrow> type_id \<Rightarrow> 'v tvalue" where
  "tv_imm v t = \<lparr>tv_inner = ImmValue v, tv_type_id = t\<rparr>"

definition tv_reference :: "'v \<Rightarrow> type_id \<Rightarrow> 'v tvalue" where
  "tv_reference v t = \<lparr>tv_inner = ThinRef v, tv_type_id = t\<rparr>"

definition tv_fat :: "'v \<Rightarrow> 'v \<Rightarrow> type_id \<Rightarrow> 'v tvalue" where
  "tv_fat l r t = \<lparr>tv_inner = FatRef l r, tv_type_id = t\<rparr>"

definition as_value :: "'v tvalue \<Rightarrow> 'v" where
  "as_value tv = (case tv_inner tv of ImmValue a \<Rightarrow> a | ThinRef a \<Rightarrow> a | FatRef a _ \<Rightarrow> a)"

lemma as_value_simps [simp]:
  "as_value (tv_imm v t) = v" "as_value (tv_reference v t) = v" "as_value (tv_fat l r t) = l"
  "tv_type_id (tv_imm v t) = t" "tv_type_id (tv_reference v t) = t" "tv_type_id (tv_fat l r t) = t"
  by (simp_all add: as_value_def tv_imm_def tv_reference_def tv_fat_def)

section \<open>The functions to compile\<close>

record 'cg cg_func_data =
  cf_name :: external_name
  cf_sig :: signature
  cf_value_id :: value_id
  cf_cfg :: 'cg

record 'cg cg_data =
  cd_funcs :: "(value_id \<times> 'cg cg_func_data) list"
  cd_ordered :: "(string \<times> linkage \<times> signature \<times> value_id option) list"

definition cg_data_default :: "'cg cg_data" where
  "cg_data_default = \<lparr>cd_funcs = [], cd_ordered = []\<rparr>"

text \<open>\<open>len() as u32\<close> keeps the low 32 bits.\<close>

definition next_name :: "'cg cg_data \<Rightarrow> external_name" where
  "next_name d = UserName 0 (word_of_nat (length (cd_ordered d)))"

definition decl_foreign_function :: "string \<Rightarrow> signature \<Rightarrow> value_id option \<Rightarrow> 'cg cg_data \<Rightarrow> external_name \<times> 'cg cg_data" where
  "decl_foreign_function name sg val d = (next_name d, d\<lparr>cd_ordered := cd_ordered d @ [(name, LinkImport, sg, val)]\<rparr>)"

text \<open>\<open>Display\<close> of an unsigned integer.\<close>

fun show_nat :: "nat \<Rightarrow> string" where
  "show_nat n = (if n < 10 then [char_of (48 + n)] else show_nat (n div 10) @ [char_of (48 + n mod 10)])"

declare show_nat.simps [simp del]

definition insert_function :: "value_id \<Rightarrow> 'cg \<Rightarrow> signature \<Rightarrow> 'cg cg_data \<Rightarrow> external_name \<times> 'cg cg_data" where
  "insert_function val cfg sg d =
     (let name = next_name d;
          stringy_name = ''value_'' @ show_nat (unat (value_id_raw val))
      in (name,
          d\<lparr>cd_ordered := cd_ordered d @ [(stringy_name, LinkLocal, sg, Some val)],
            cd_funcs := assoc_put val \<lparr>cf_name = name, cf_sig = sg, cf_value_id = val, cf_cfg = cfg\<rparr> (cd_funcs d)\<rparr>))"

section \<open>Builtin methods\<close>

text \<open>
  Each builds a function of one block: its signature, the parameters, and the instructions of its
  body. The first parameter is a reference, cast to an integer before it is used.
\<close>

definition method_prologue :: "('b, 'o) clif \<Rightarrow> ir_type list \<Rightarrow> ir_type \<Rightarrow> (ir_value list \<times> 'b) rust" where
  "method_prologue C params ret =
     (let fx = cl_function C (UserName 0 0) (mk_signature SystemV params ret);
          (start, fx) = cl_create_block C fx
      in and_then (cl_append_params C start fx) (\<lambda>fx.
         and_then (cl_seal_block C start fx) (\<lambda>fx.
         and_then (cl_switch_to_block C start fx) (\<lambda>fx.
         Inr (cl_block_params C fx start, fx)))))"

definition binary_method :: "('b, 'o) clif \<Rightarrow> ir_type \<Rightarrow> (ir_value \<Rightarrow> ir_value \<Rightarrow> ir_inst) \<Rightarrow> 'b rust" where
  "binary_method C ret body =
     and_then (method_prologue C [IrR64, IrI64] ret) (\<lambda>(params, fx).
     (case params of
        [a, b] \<Rightarrow>
          and_then (ins1 C (RawBitcast IrI64 a) fx) (\<lambda>(a, fx).
          and_then (ins1 C (body a b) fx) (\<lambda>(ret, fx). ins0 C (IrReturn [ret]) fx))
      | _ \<Rightarrow> Inl UnreachableCode))"

definition nonzero_method :: "('b, 'o) clif \<Rightarrow> 'b rust" where
  "nonzero_method C =
     and_then (method_prologue C [IrR64] IrB1) (\<lambda>(params, fx).
     (case params of
        [this] \<Rightarrow>
          and_then (ins1 C (RawBitcast IrI64 this) fx) (\<lambda>(this, fx).
          and_then (ins1 C (Iconst IrI64 0) fx) (\<lambda>(zero, fx).
          and_then (ins1 C (Icmp CcNotEqual this zero) fx) (\<lambda>(ret, fx). ins0 C (IrReturn [ret]) fx)))
      | _ \<Rightarrow> Inl UnreachableCode))"

type_synonym 'b builtin = "('b \<times> type_id \<times> string) rust"

definition int_add :: "('b, 'o) clif \<Rightarrow> 'b builtin" where
  "int_add C = and_then (binary_method C IrI64 Iadd) (\<lambda>func. Inr (func, builtin_tag BInt, ''__add__''))"

definition int_sub :: "('b, 'o) clif \<Rightarrow> 'b builtin" where
  "int_sub C = and_then (binary_method C IrI64 Isub) (\<lambda>func. Inr (func, builtin_tag BInt, ''__sub__''))"

definition int_eq :: "('b, 'o) clif \<Rightarrow> 'b builtin" where
  "int_eq C = and_then (binary_method C IrB1 (Icmp CcEqual)) (\<lambda>func. Inr (func, builtin_tag BInt, ''__eq__''))"

definition int_ne :: "('b, 'o) clif \<Rightarrow> 'b builtin" where
  "int_ne C = and_then (binary_method C IrB1 (Icmp CcNotEqual)) (\<lambda>func. Inr (func, builtin_tag BInt, ''__ne__''))"

definition int_bool :: "('b, 'o) clif \<Rightarrow> 'b builtin" where
  "int_bool C = and_then (nonzero_method C) (\<lambda>func. Inr (func, builtin_tag BInt, ''__bool__''))"

definition bool_bool :: "('b, 'o) clif \<Rightarrow> 'b builtin" where
  "bool_bool C = and_then (nonzero_method C) (\<lambda>func. Inr (func, builtin_tag BBool, ''__bool__''))"

definition BUILTINS :: "('b, 'o) clif \<Rightarrow> 'b builtin list" where
  "BUILTINS C = [int_add C, int_sub C, int_bool C, int_eq C, int_ne C, bool_bool C]"

fun install_builtins :: "'b builtin list \<Rightarrow> ((type_id \<times> string) \<times> 'b) list \<Rightarrow> ((type_id \<times> string) \<times> 'b) list rust" where
  "install_builtins [] fids = Inr fids"
| "install_builtins (bltn # bs) fids =
     and_then bltn (\<lambda>(func, tid, name). install_builtins bs (assoc_put (tid, name) func fids))"

definition create_builtins :: "('b, 'o) clif \<Rightarrow> ((type_id \<times> string) \<times> 'b) list rust" where
  "create_builtins C = install_builtins (BUILTINS C) []"

end
