(* ===== verification/StructBuf.thy ===== *)
theory StructBuf
  imports Cranelift TypeLayout
begin

text \<open>
  The struct buffers of \<^verbatim>\<open>cranelift-structbuf/src/lib.rs\<close>: templates of nested fields, the flat
  array of cells a struct is made of, and reading a field through the function builder. The width
  of a cranelift type, \<open>Type::bytes\<close>, is the argument \<open>bytes\<close>; the loads are emitted with the record
  \<open>clif\<close>. Cells lie next to one another in the order of the fields, whatever the alignment of their
  types.
\<close>

section \<open>Templates\<close>

datatype 'ty struct_field = ScalarField ir_type | ComplexField "'ty struct_layout"
and 'ty struct_layout = StructLayout (type_tag: 'ty) (sl_fields: "'ty struct_field list")

text \<open>\<open>StructLayout::new\<close> (the tag is the default) and \<open>StructLayout::new_with_type\<close>.\<close>

definition new_with_type :: "'ty \<Rightarrow> 'ty struct_field list \<Rightarrow> 'ty struct_layout" where
  "new_with_type tag members = StructLayout tag members"

text \<open>The index of the new field, with the template.\<close>

definition push_field :: "'ty struct_field \<Rightarrow> 'ty struct_layout \<Rightarrow> nat \<times> 'ty struct_layout" where
  "push_field f t = (let members = sl_fields t @ [f] in (length members - 1, StructLayout (type_tag t) members))"

text \<open>\<open>StructField::bytes\<close>: the sum of \<open>u32\<close> values overflows at \<open>2 ^ 32\<close>.\<close>

fun sum_u32 :: "nat rust list \<Rightarrow> nat \<Rightarrow> nat rust" where
  "sum_u32 [] acc = Inr acc"
| "sum_u32 (r # rs) acc = and_then r (\<lambda>n. if acc + n < 2 ^ 32 then sum_u32 rs (acc + n) else Inl ArithmeticOverflow)"

fun field_bytes :: "(ir_type \<Rightarrow> nat) \<Rightarrow> 'ty struct_field \<Rightarrow> nat rust" where
  "field_bytes bytes (ScalarField s) = Inr (bytes s)"
| "field_bytes bytes (ComplexField (StructLayout tag members)) = sum_u32 (map (field_bytes bytes) members) 0"

section \<open>Structs\<close>

record value_cell =
  ce_group :: nat
  ce_byte_offset :: nat
  ce_kind :: ir_type
  ce_value :: "ir_value option"

record 'ty struct =
  st_template :: "'ty struct_layout"
  st_layout :: layout
  st_slots :: "value_cell list"
  st_slot_ranges :: "(nat \<times> nat) list"

text \<open>\<open>Layout::array::<u8>(n)\<close> followed by \<open>layout.extend\<close>.\<close>

definition extend_bytes :: "layout \<Rightarrow> nat \<Rightarrow> (layout \<times> nat) option" where
  "extend_bytes l n = (if layout_ok (layout_bytes n) then layout_extend l (layout_bytes n) else None)"

text \<open>The first start and the last end of the ranges of a field; a struct without fields has none.\<close>

definition hull :: "(nat \<times> nat) list \<Rightarrow> (nat \<times> nat) rust" where
  "hull r = (if r = [] then Inl UnwrapNone else Inr (fst (hd r), snd (last r)))"

text \<open>The inner function \<open>rec\<close> of \<open>alloc_layout_from_template\<close>, over the fields that are left.\<close>

fun alloc_fields ::
  "(ir_type \<Rightarrow> nat) \<Rightarrow> 'ty struct_field list \<Rightarrow> layout \<Rightarrow> value_cell list \<Rightarrow> nat \<Rightarrow> (nat \<times> nat) list
    \<Rightarrow> (layout \<times> value_cell list \<times> (nat \<times> nat) list) rust" where
  "alloc_fields bytes [] l slots group_ix ranges = Inr (l, slots, ranges)"
| "alloc_fields bytes (ScalarField kind # fs) l slots group_ix ranges =
     and_then (unwrap (extend_bytes l (bytes kind))) (\<lambda>(l', off).
     if 2 ^ 31 \<le> off then Inl UnwrapNone
     else
       (let slots' = slots @ [\<lparr>ce_group = group_ix, ce_byte_offset = off, ce_kind = kind, ce_value = None\<rparr>] in
        and_then (hull [(length slots' - 1, length slots')]) (\<lambda>rng.
        alloc_fields bytes fs l' slots' group_ix (ranges @ [rng]))))"
| "alloc_fields bytes (ComplexField (StructLayout tag inner) # fs) l slots group_ix ranges =
     and_then (alloc_fields bytes inner l slots (group_ix + 1) []) (\<lambda>(l', slots', r).
     and_then (hull r) (\<lambda>rng.
     alloc_fields bytes fs l' slots' group_ix (ranges @ [rng])))"

definition alloc_layout_from_template ::
  "(ir_type \<Rightarrow> nat) \<Rightarrow> 'ty struct_layout \<Rightarrow> (layout \<times> value_cell list \<times> (nat \<times> nat) list) rust" where
  "alloc_layout_from_template bytes t =
     and_then (alloc_fields bytes (sl_fields t) \<lparr>l_size = 0, l_align = 1\<rparr> [] 0 []) (\<lambda>(l, slots, r).
     Inr (pad_to_align l, slots, r))"

text \<open>\<open>From<StructLayout>\<close> and \<open>From<&StructLayout>\<close>.\<close>

definition struct_from :: "(ir_type \<Rightarrow> nat) \<Rightarrow> 'ty struct_layout \<Rightarrow> 'ty struct rust" where
  "struct_from bytes t =
     and_then (alloc_layout_from_template bytes t) (\<lambda>(l, slots, r).
     Inr \<lparr>st_template = t, st_layout = l, st_slots = slots, st_slot_ranges = r\<rparr>)"

definition struct_field_at :: "'ty struct \<Rightarrow> nat \<Rightarrow> ('ty struct_field \<times> nat) option" where
  "struct_field_at s n =
     (case (get_at (sl_fields (st_template s)) n, get_at (st_slot_ranges s) n) of
        (Some f, Some rng) \<Rightarrow> map_option (\<lambda>c. (f, ce_byte_offset c)) (get_at (st_slots s) (fst rng))
      | _ \<Rightarrow> None)"

section \<open>Reading and writing\<close>

record 'ty pending_read =
  pr_struct :: "'ty struct"
  pr_field :: "'ty struct_field"
  pr_slot_range :: "nat \<times> nat"

definition struct_read :: "'ty struct \<Rightarrow> nat \<Rightarrow> 'ty pending_read option" where
  "struct_read s n =
     (case (get_at (st_slot_ranges s) n, struct_field_at s n) of
        (Some rng, Some (f, _)) \<Rightarrow> Some \<lparr>pr_struct = s, pr_field = f, pr_slot_range = rng\<rparr>
      | _ \<Rightarrow> None)"

definition struct_write :: "'ty struct \<Rightarrow> nat \<Rightarrow> ('ty struct \<times> nat \<times> nat) option" where
  "struct_write s n = map_option (\<lambda>rng. (s, rng)) (get_at (st_slot_ranges s) n)"

text \<open>The slice \<open>slots[range]\<close> panics when the range is not inside.\<close>

definition read_slots :: "'ty pending_read \<Rightarrow> value_cell list rust" where
  "read_slots r =
     (let (a, b) = pr_slot_range r; slots = st_slots (pr_struct r) in
      if a \<le> b \<and> b \<le> length slots then Inr (take (b - a) (drop a slots)) else Inl IndexOutOfBounds)"

datatype read_result = ReadScalar ir_value | ReadComplex ir_value nat

fun read_into_inner :: "read_result \<Rightarrow> ir_value" where
  "read_into_inner (ReadScalar v) = v"
| "read_into_inner (ReadComplex v _) = v"

text \<open>A load or an address has one result.\<close>

definition one_result :: "('b, 'o) clif \<Rightarrow> ir_inst \<Rightarrow> 'b \<Rightarrow> (ir_value \<times> 'b) rust" where
  "one_result C i fx = and_then (cl_ins C i fx) (\<lambda>(vs, fx). case vs of v # _ \<Rightarrow> Inr (v, fx) | [] \<Rightarrow> Inl IndexOutOfBounds)"

definition read_stack_slot ::
  "('b, 'o) clif \<Rightarrow> ir_type \<Rightarrow> stack_slot \<Rightarrow> 'ty pending_read \<Rightarrow> 'b \<Rightarrow> (read_result \<times> 'b) rust" where
  "read_stack_slot C addr_t ss r fx =
     and_then (read_slots r) (\<lambda>cells. case cells of
       [] \<Rightarrow> Inl UnreachableCode
     | [c] \<Rightarrow> and_then (one_result C (StackLoad (ce_kind c) ss (ce_byte_offset c)) fx) (\<lambda>(v, fx). Inr (ReadScalar v, fx))
     | c # _ \<Rightarrow> and_then (one_result C (StackAddr addr_t ss (ce_byte_offset c)) fx) (\<lambda>(v, fx). Inr (ReadComplex v 0, fx)))"

definition address_value ::
  "('b, 'o) clif \<Rightarrow> ir_value \<Rightarrow> 'ty pending_read \<Rightarrow> 'b \<Rightarrow> (read_result \<times> 'b) rust" where
  "address_value C addr r fx =
     and_then (read_slots r) (\<lambda>cells. case cells of
       [] \<Rightarrow> Inl UnreachableCode
     | [c] \<Rightarrow> and_then (one_result C (IrLoad (ce_kind c) addr (ce_byte_offset c)) fx) (\<lambda>(v, fx). Inr (ReadScalar v, fx))
     | c # _ \<Rightarrow> Inr (ReadComplex addr (ce_byte_offset c), fx))"

section \<open>The cells of a template\<close>

text \<open>The scalars of a template in depth-first order, and the templates all of whose structs have fields.\<close>

fun scalars :: "'ty struct_field \<Rightarrow> ir_type list" where
  "scalars (ScalarField k) = [k]"
| "scalars (ComplexField (StructLayout tag fs)) = concat (map scalars fs)"

fun inhabited :: "'ty struct_field \<Rightarrow> bool" where
  "inhabited (ScalarField k) \<longleftrightarrow> True"
| "inhabited (ComplexField (StructLayout tag fs)) \<longleftrightarrow> fs \<noteq> [] \<and> list_all inhabited fs"

abbreviation width :: "(ir_type \<Rightarrow> nat) \<Rightarrow> ir_type list \<Rightarrow> nat" where
  "width bytes ks \<equiv> sum_list (map bytes ks)"

definition all_scalars :: "'ty struct_field list \<Rightarrow> ir_type list" where
  "all_scalars fs = concat (map scalars fs)"

lemma all_scalars_simps [simp]:
  "all_scalars [] = []"
  "all_scalars (f # fs) = scalars f @ all_scalars fs"
  "scalars (ComplexField (StructLayout tag fs)) = all_scalars fs"
  by (simp_all add: all_scalars_def)

declare scalars.simps(2) [simp del]

lemma round_up_1 [simp]: "round_up n (Suc 0) = n"
  by (simp add: round_up_def)

lemma extend_packed:
  assumes "l_align l = 1" and "l_size l + n \<le> isize_max"
  shows "extend_bytes l n = Some (\<lparr>l_size = l_size l + n, l_align = 1\<rparr>, l_size l)"
  using assms by (simp add: extend_bytes_def layout_extend_def layout_ok_def layout_bytes_def Let_def)

text \<open>What a run of the loop has appended: the cells, and one range per field.\<close>

fun starts :: "nat \<Rightarrow> 'ty struct_field list \<Rightarrow> nat list" where
  "starts a [] = []"
| "starts a (f # fs) = a # starts (a + length (scalars f)) fs"

definition ranges_from :: "nat \<Rightarrow> 'ty struct_field list \<Rightarrow> (nat \<times> nat) list" where
  "ranges_from a fs = map2 (\<lambda>s f. (s, s + length (scalars f))) (starts a fs) fs"

lemma ranges_from_simps [simp]:
  "ranges_from a [] = []"
  "ranges_from a (f # fs) = (a, a + length (scalars f)) # ranges_from (a + length (scalars f)) fs"
  by (simp_all add: ranges_from_def)

lemma ranges_from_nil [simp]: "ranges_from a fs = [] \<longleftrightarrow> fs = []"
  by (cases fs) simp_all

lemma hull_ranges: "fs \<noteq> [] \<Longrightarrow> hull (ranges_from a fs) = Inr (a, a + length (all_scalars fs))"
proof (induction fs arbitrary: a)
  case (Cons f fs)
  show ?case
  proof (cases "fs = []")
    case False
    then have "snd (last (ranges_from (a + length (scalars f)) fs)) = a + length (scalars f) + length (all_scalars fs)"
      using Cons.IH [OF False, of "a + length (scalars f)"] by (simp add: hull_def)
    with False show ?thesis by (simp add: hull_def)
  qed (simp add: hull_def)
qed simp

text \<open>Cells at consecutive offsets.\<close>

definition packed :: "(ir_type \<Rightarrow> nat) \<Rightarrow> nat \<Rightarrow> ir_type list \<Rightarrow> value_cell list \<Rightarrow> bool" where
  "packed bytes off ks cells \<longleftrightarrow> map ce_kind cells = ks \<and> (\<forall>i < length cells. ce_byte_offset (cells ! i) = off + width bytes (take i ks))
     \<and> (\<forall>c \<in> set cells. ce_value c = None)"

lemma packed_simps [simp]:
  "packed bytes off [] []"
  "packed bytes off [k] [\<lparr>ce_group = g, ce_byte_offset = off, ce_kind = k, ce_value = None\<rparr>]"
  by (simp_all add: packed_def)

lemma packed_append:
  assumes "packed bytes off ks cs" and "packed bytes (off + width bytes ks) ks' cs'"
  shows "packed bytes off (ks @ ks') (cs @ cs')"
  using assms unfolding packed_def by (auto simp: nth_append)

lemma alloc_fields_run:
  assumes "list_all inhabited fs" and "l_align l = 1" and "l_size l + width bytes (all_scalars fs) < 2 ^ 31"
  shows "\<exists>cells. alloc_fields bytes fs l slots g ranges =
      Inr (\<lparr>l_size = l_size l + width bytes (all_scalars fs), l_align = 1\<rparr>, slots @ cells, ranges @ ranges_from (length slots) fs)
    \<and> packed bytes (l_size l) (all_scalars fs) cells"
  using assms
proof (induction bytes fs l slots g ranges rule: alloc_fields.induct)
  case (1 bytes l slots g ranges)
  then show ?case by (cases l) simp
next
  case (2 bytes kind fs l slots g ranges)
  let ?l' = "\<lparr>l_size = l_size l + bytes kind, l_align = 1\<rparr>"
  let ?cell = "\<lparr>ce_group = g, ce_byte_offset = l_size l, ce_kind = kind, ce_value = None\<rparr>"
  have e: "extend_bytes l (bytes kind) = Some (?l', l_size l)"
    using 2(2-) by (intro extend_packed) (auto simp: isize_max_def)
  obtain cells where c: "alloc_fields bytes fs ?l' (slots @ [?cell]) g (ranges @ [(length slots, Suc (length slots))]) =
      Inr (\<lparr>l_size = l_size ?l' + width bytes (all_scalars fs), l_align = 1\<rparr>, (slots @ [?cell]) @ cells,
        (ranges @ [(length slots, Suc (length slots))]) @ ranges_from (length (slots @ [?cell])) fs)"
      and p: "packed bytes (l_size ?l') (all_scalars fs) cells"
    using 2(1) [of "(?l', l_size l)" ?l' "l_size l" "slots @ [?cell]" "(length slots, Suc (length slots))"] 2(2-) e
    by (auto simp: hull_def)
  have "packed bytes (l_size l) ([kind] @ all_scalars fs) ([?cell] @ cells)"
    by (rule packed_append) (use p in simp_all)
  with c e 2(4) show ?case by (intro exI [of _ "?cell # cells"]) (simp add: hull_def)
next
  case (3 bytes tag inner fs l slots g ranges)
  have w: "l_size l + width bytes (all_scalars inner) < 2 ^ 31" "list_all inhabited inner" "inner \<noteq> []" using 3(3,5) by auto
  obtain cells where c: "alloc_fields bytes inner l slots (g + 1) [] =
      Inr (\<lparr>l_size = l_size l + width bytes (all_scalars inner), l_align = 1\<rparr>, slots @ cells, ranges_from (length slots) inner)"
      and p: "packed bytes (l_size l) (all_scalars inner) cells"
    using 3(1) [OF w(2) 3(4) w(1)] by auto
  have len: "length cells = length (all_scalars inner)" using p unfolding packed_def by (metis length_map)
  let ?l' = "\<lparr>l_size = l_size l + width bytes (all_scalars inner), l_align = 1\<rparr>"
  let ?rng = "(length slots, length slots + length (all_scalars inner))"
  obtain cells' where c': "alloc_fields bytes fs ?l' (slots @ cells) g (ranges @ [?rng]) =
      Inr (\<lparr>l_size = l_size ?l' + width bytes (all_scalars fs), l_align = 1\<rparr>, (slots @ cells) @ cells',
        (ranges @ [?rng]) @ ranges_from (length (slots @ cells)) fs)" and p': "packed bytes (l_size ?l') (all_scalars fs) cells'"
    using 3(2) [OF c refl refl hull_ranges [OF w(3)]] 3(3,5) by auto
  have "packed bytes (l_size l) (all_scalars inner @ all_scalars fs) (cells @ cells')"
    by (rule packed_append) (use p p' in simp_all)
  with c c' len w(3) show ?case by (intro exI [of _ "cells @ cells'"]) (simp add: hull_ranges add.assoc)
qed

section \<open>Fields\<close>

lemma all_scalars_split:
  "n < length fs \<Longrightarrow> all_scalars fs = all_scalars (take n fs) @ scalars (fs ! n) @ all_scalars (drop (Suc n) fs)"
proof (induction fs arbitrary: n)
  case (Cons f fs)
  then show ?case by (cases n) simp_all
qed simp

lemma ranges_from_nth:
  "n < length fs \<Longrightarrow> ranges_from a fs ! n = (a + length (all_scalars (take n fs)), a + length (all_scalars (take n fs)) + length (scalars (fs ! n)))"
proof (induction fs arbitrary: a n)
  case (Cons f fs)
  then show ?case by (cases n) simp_all
qed simp

lemma length_ranges_from [simp]: "length (ranges_from a fs) = length fs"
  by (induction fs arbitrary: a) simp_all

lemma scalars_nonempty: "inhabited f \<Longrightarrow> scalars f \<noteq> []"
proof (induction f rule: inhabited.induct)
  case (2 tag fs)
  then show ?case by (cases fs) auto
qed simp

text \<open>The slice of a field.\<close>

definition cells_of :: "'ty struct_field list \<Rightarrow> value_cell list \<Rightarrow> nat \<Rightarrow> value_cell list" where
  "cells_of fs cells n = take (length (scalars (fs ! n))) (drop (length (all_scalars (take n fs))) cells)"

lemma packed_length: "packed bytes off ks cells \<Longrightarrow> length cells = length ks"
  unfolding packed_def by (metis length_map)

lemma cells_of_field:
  assumes "packed bytes 0 (all_scalars fs) cells" and n: "n < length fs" and "inhabited (fs ! n)"
  shows "\<exists>c cs. cells_of fs cells n = c # cs \<and> ce_byte_offset c = width bytes (all_scalars (take n fs))
    \<and> map ce_kind (c # cs) = scalars (fs ! n)"
proof -
  let ?a = "length (all_scalars (take n fs))"
  have len: "length cells = length (all_scalars fs)" by (rule packed_length [OF assms(1)])
  have kinds: "map ce_kind (cells_of fs cells n) = scalars (fs ! n)"
    using assms(1) all_scalars_split [OF n] by (simp add: cells_of_def packed_def take_map [symmetric] drop_map [symmetric])
  with scalars_nonempty [OF assms(3)] obtain c cs where c: "cells_of fs cells n = c # cs" by (cases "cells_of fs cells n") auto
  have inside: "?a < length cells"
    using len all_scalars_split [OF n] scalars_nonempty [OF assms(3)] by simp
  have "cells_of fs cells n ! 0 = cells ! ?a"
    unfolding cells_of_def using inside scalars_nonempty [OF assms(3)] by simp
  then have "c = cells ! ?a" by (simp add: c)
  moreover have "ce_byte_offset (cells ! ?a) = width bytes (take ?a (all_scalars fs))"
    using assms(1) inside by (simp add: packed_def)
  moreover have "take ?a (all_scalars fs) = all_scalars (take n fs)" using all_scalars_split [OF n] by simp
  ultimately show ?thesis using kinds c by simp
qed

lemma read_cells:
  assumes "packed bytes 0 (all_scalars fs) cells" and n: "n < length fs"
  shows "read_slots \<lparr>pr_struct = \<lparr>st_template = t, st_layout = l, st_slots = cells, st_slot_ranges = rs\<rparr>, pr_field = f,
      pr_slot_range = ranges_from 0 fs ! n\<rparr> = Inr (cells_of fs cells n)"
  using all_scalars_split [OF n] packed_length [OF assms(1)]
  by (simp add: read_slots_def ranges_from_nth [OF n] cells_of_def)

text \<open>What is emitted to read a field that consists of the scalars \<open>ks\<close> and lies at \<open>off\<close>.\<close>

definition field_read ::
  "('b, 'o) clif \<Rightarrow> ir_type \<Rightarrow> stack_slot \<Rightarrow> ir_type list \<Rightarrow> nat \<Rightarrow> 'b \<Rightarrow> (read_result \<times> 'b) rust" where
  "field_read C addr_t ss ks off fx =
     (case ks of
        [k] \<Rightarrow> and_then (one_result C (StackLoad k ss off) fx) (\<lambda>(v, fx). Inr (ReadScalar v, fx))
      | _ \<Rightarrow> and_then (one_result C (StackAddr addr_t ss off) fx) (\<lambda>(v, fx). Inr (ReadComplex v 0, fx)))"

text \<open>
  C40. The layout of a struct buffer. When no nested struct is empty and the scalars take fewer
  than \<open>2 ^ 31\<close> bytes together, a struct is built from its template. It has one cell for every scalar
  of the template in depth-first order, each right after the one before it, its size is the sum of
  their widths and its alignment is 1. Field \<open>n\<close> lies at the sum of the widths of the fields before
  it; reading it from a stack slot loads it when it consists of one scalar, and otherwise gives its
  address. There is no other field.
\<close>

theorem struct_buffer_fields:
  assumes ok: "list_all inhabited (sl_fields t)" and fits: "width bytes (all_scalars (sl_fields t)) < 2 ^ 31"
  shows "\<exists>s. struct_from bytes t = Inr s
    \<and> st_layout s = \<lparr>l_size = width bytes (all_scalars (sl_fields t)), l_align = 1\<rparr>
    \<and> packed bytes 0 (all_scalars (sl_fields t)) (st_slots s)
    \<and> (\<forall>n < length (sl_fields t).
         struct_field_at s n = Some (sl_fields t ! n, width bytes (all_scalars (take n (sl_fields t))))
       \<and> (\<exists>r. struct_read s n = Some r \<and> (\<forall>addr_t ss fx. read_stack_slot C addr_t ss r fx =
              field_read C addr_t ss (scalars (sl_fields t ! n)) (width bytes (all_scalars (take n (sl_fields t)))) fx)))
    \<and> (\<forall>n \<ge> length (sl_fields t). struct_field_at s n = None \<and> struct_read s n = None)"
proof -
  let ?fs = "sl_fields t"
  define l where "l = \<lparr>l_size = width bytes (all_scalars ?fs), l_align = 1\<rparr>"
  obtain cells where run: "alloc_fields bytes ?fs \<lparr>l_size = 0, l_align = 1\<rparr> [] 0 [] = Inr (l, cells, ranges_from 0 ?fs)"
      and p: "packed bytes 0 (all_scalars ?fs) cells"
    using alloc_fields_run [OF ok, of "\<lparr>l_size = 0, l_align = 1\<rparr>" bytes "[]" 0 "[]"] fits by (auto simp: l_def)
  let ?s = "\<lparr>st_template = t, st_layout = l, st_slots = cells, st_slot_ranges = ranges_from 0 ?fs\<rparr>"
  have s: "struct_from bytes t = Inr ?s"
    by (simp add: struct_from_def alloc_layout_from_template_def run [simplified] pad_to_align_def l_def)
  have at: "struct_field_at ?s n = Some (?fs ! n, width bytes (all_scalars (take n ?fs)))" if n: "n < length ?fs" for n
  proof -
    obtain c cs where c: "cells_of ?fs cells n = c # cs" "ce_byte_offset c = width bytes (all_scalars (take n ?fs))"
      using cells_of_field [OF p n] ok n by (auto simp: list_all_length)
    then have "get_at cells (length (all_scalars (take n ?fs))) = Some c"
      by (cases "drop (length (all_scalars (take n ?fs))) cells")
        (auto simp: cells_of_def get_at_Some_iff nth_via_drop take_Cons' split: if_splits, metis drop_eq_Nil leI list.distinct(1))
    with n c(2) show ?thesis by (simp add: struct_field_at_def ranges_from_nth)
  qed
  have rd: "\<exists>r. struct_read ?s n = Some r \<and> (\<forall>addr_t ss fx. read_stack_slot C addr_t ss r fx =
      field_read C addr_t ss (scalars (?fs ! n)) (width bytes (all_scalars (take n ?fs))) fx)"
    if n: "n < length ?fs" for n
  proof -
    obtain c cs where c: "cells_of ?fs cells n = c # cs" "ce_byte_offset c = width bytes (all_scalars (take n ?fs))"
        "map ce_kind (c # cs) = scalars (?fs ! n)"
      using cells_of_field [OF p n] ok n by (auto simp: list_all_length)
    have "scalars (?fs ! n) = ce_kind c # map ce_kind cs" using c(3) by simp
    then show ?thesis
      using n c(1,2) by (cases cs) (simp_all add: struct_read_def at read_stack_slot_def field_read_def read_cells [OF p n])
  qed
  have none: "struct_field_at ?s n = None \<and> struct_read ?s n = None" if "length ?fs \<le> n" for n
    using that by (simp add: struct_read_def struct_field_at_def)
  show ?thesis
  proof (intro exI [of _ ?s] conjI)
    show "struct_from bytes t = Inr ?s" by (rule s)
    show "st_layout ?s = \<lparr>l_size = width bytes (all_scalars ?fs), l_align = 1\<rparr>" by (simp add: l_def)
    show "packed bytes 0 (all_scalars ?fs) (st_slots ?s)" using p by simp
    show "\<forall>n < length ?fs. struct_field_at ?s n = Some (?fs ! n, width bytes (all_scalars (take n ?fs)))
       \<and> (\<exists>r. struct_read ?s n = Some r \<and> (\<forall>addr_t ss fx. read_stack_slot C addr_t ss r fx =
              field_read C addr_t ss (scalars (?fs ! n)) (width bytes (all_scalars (take n ?fs))) fx))"
      using at rd by simp
    show "\<forall>n \<ge> length ?fs. struct_field_at ?s n = None \<and> struct_read ?s n = None" using none by simp
  qed
qed

text \<open>A byte, a pair of an integer and a byte, and an integer: the last one lies at offset 10.\<close>

definition sample_bytes :: "ir_type \<Rightarrow> nat" where
  "sample_bytes k = (if k = IrI64 then 8 else 1)"

definition sample_struct :: "unit struct_layout" where
  "sample_struct = StructLayout () [ScalarField IrI8, ComplexField (StructLayout () [ScalarField IrI64, ScalarField IrI8]), ScalarField IrI64]"

theorem struct_buffer_fields_witness:
  "\<exists>s. struct_from sample_bytes sample_struct = Inr s \<and> l_size (st_layout s) = 18 \<and> struct_field_at s 2 = Some (ScalarField IrI64, 10)"
proof -
  have fields: "sl_fields sample_struct = [ScalarField IrI8, ComplexField (StructLayout () [ScalarField IrI64, ScalarField IrI8]), ScalarField IrI64]"
    by (simp add: sample_struct_def)
  have ok: "list_all inhabited (sl_fields sample_struct)" by (simp add: fields)
  have fits: "width sample_bytes (all_scalars (sl_fields sample_struct)) < 2 ^ 31" by (simp add: fields sample_bytes_def)
  obtain s where s: "struct_from sample_bytes sample_struct = Inr s"
      "st_layout s = \<lparr>l_size = width sample_bytes (all_scalars (sl_fields sample_struct)), l_align = 1\<rparr>"
      "struct_field_at s 2 = Some (sl_fields sample_struct ! 2, width sample_bytes (all_scalars (take 2 (sl_fields sample_struct))))"
    using struct_buffer_fields [OF ok fits, where C = "C :: (unit, unit) clif"] by (fastforce simp: fields)
  then show ?thesis by (intro exI [of _ s]) (simp add: fields sample_bytes_def numeral_2_eq_2)
qed

end
