(* ===== verification/Codegen.thy ===== *)
theory Codegen
  imports Cranelift
begin

text \<open>
  The back end: \<^verbatim>\<open>montyc_codegen/src/cranelift/builder.rs\<close>, which lowers the control flow graph of a
  function to cranelift instructions, and \<^verbatim>\<open>cranelift/mod.rs\<close>, which includes the functions of a
  program and builds the object module. Log output is left out, and so are the steps after the
  module is built: emitting its bytes, writing the file and running the linker.
\<close>

section \<open>State\<close>

text \<open>
  What a backend reads: cranelift, the queries (\<open>cx_calls\<close>), and the order in which maps from values
  hand out their keys.
\<close>

record ('vg, 'g, 'cg, 'b, 'o) backend_cx =
  cx_clif :: "('b, 'o) clif"
  cx_calls :: "('vg, 'g, 'cg) call_cx"
  cx_map_order :: "value_id list \<Rightarrow> value_id list"

text \<open>The fields of \<open>Builder\<close> that change, with the session behind \<open>host\<close> and the object module.\<close>

record ('vg, 'cg, 'b, 'o) lower_state =
  lw_fx :: 'b
  lw_values :: "(nat \<times> ir_value tvalue) list"
  lw_locals :: "(u32 \<times> stack_slot \<times> type_id \<times> ir_type) list"
  lw_f_refs :: "(value_id \<times> func_ref) list"
  lw_session :: "('vg, 'cg) session"
  lw_module :: 'o

type_synonym ('vg, 'cg, 'b, 'o, 'a) emit = "('vg, 'cg, 'b, 'o) lower_state \<Rightarrow> ('a \<times> ('vg, 'cg, 'b, 'o) lower_state) rust"

section \<open>Helpers\<close>

definition unwrap_ok :: "'a monty \<Rightarrow> 'a rust" where
  "unwrap_ok r = (case r of Inl (Panicked p) \<Rightarrow> Inl p | Inl (Failed _) \<Rightarrow> Inl UnwrapNone | Inr x \<Rightarrow> Inr x)"

text \<open>A recursion deeper than the stack ends the process.\<close>

definition within_stack :: "'a rust option \<Rightarrow> 'a rust" where
  "within_stack r = (case r of None \<Rightarrow> Inl StackOverflow | Some x \<Rightarrow> x)"

definition on_fx :: "('b \<Rightarrow> ('a \<times> 'b) rust) \<Rightarrow> ('vg, 'cg, 'b, 'o, 'a) emit" where
  "on_fx f st = and_then (f (lw_fx st)) (\<lambda>(x, fx). Inr (x, st\<lparr>lw_fx := fx\<rparr>))"

definition emit1 :: "('vg, 'g, 'cg, 'b, 'o) backend_cx \<Rightarrow> ir_inst \<Rightarrow> ('vg, 'cg, 'b, 'o, ir_value) emit" where
  "emit1 K i = on_fx (ins1 (cx_clif K) i)"

definition emit0 :: "('vg, 'g, 'cg, 'b, 'o) backend_cx \<Rightarrow> ir_inst \<Rightarrow> ('vg, 'cg, 'b, 'o, unit) emit" where
  "emit0 K i = on_fx (sdo (ins0 (cx_clif K) i))"

definition host_type_of :: "('vg, 'g, 'cg, 'b, 'o) backend_cx \<Rightarrow> value_id \<Rightarrow> ('vg, 'cg, 'b, 'o, type_id) emit" where
  "host_type_of K val st =
     and_then (unwrap_ok (type_query (cx_calls K) val (lw_session st))) (\<lambda>(t, cx). Inr (t, st\<lparr>lw_session := cx\<rparr>))"

definition kind_of :: "type_id \<Rightarrow> ('vg, 'cg, 'b, 'o, python_type) emit" where
  "kind_of t st = slift (unwrap (td_get_python_type_of (ss_types (lw_session st)) t)) st"

definition ir_type_of :: "typing_data \<Rightarrow> type_id \<Rightarrow> ir_type rust" where
  "ir_type_of td t =
     and_then (unwrap (td_get_python_type_of td t)) (\<lambda>k.
     Inr (case k of
       PyBuiltin BBytes \<Rightarrow> IrI64
     | PyBuiltin BU8 \<Rightarrow> IrI8
     | PyBuiltin BU16 \<Rightarrow> IrI16
     | PyBuiltin BU32 \<Rightarrow> IrI32
     | PyBuiltin BU64 \<Rightarrow> IrI64
     | PyBuiltin BI8 \<Rightarrow> IrI8
     | PyBuiltin BI16 \<Rightarrow> IrI16
     | PyBuiltin BI32 \<Rightarrow> IrI32
     | PyBuiltin BI64 \<Rightarrow> IrI64
     | _ \<Rightarrow> IrI64))"

text \<open>Indexing the maps of the builder panics when the key is missing.\<close>

definition key_index :: "('k \<times> 'v) list \<Rightarrow> 'k \<Rightarrow> 'v rust" where
  "key_index m k = (case map_of m k of None \<Rightarrow> Inl IndexOutOfBounds | Some v \<Rightarrow> Inr v)"

definition set_value :: "nat \<Rightarrow> ir_value tvalue \<Rightarrow> ('vg, 'cg, 'b, 'o) lower_state \<Rightarrow> ('vg, 'cg, 'b, 'o) lower_state" where
  "set_value ret v st = st\<lparr>lw_values := assoc_put ret v (lw_values st)\<rparr>"

text \<open>The values of operands, in order.\<close>

fun operand_values :: "(nat \<times> ir_value tvalue) list \<Rightarrow> nat list \<Rightarrow> ir_value list rust" where
  "operand_values vals [] = Inr []"
| "operand_values vals (v # vs) = and_then (key_index vals v) (\<lambda>tv. and_then (operand_values vals vs) (\<lambda>rest. Inr (as_value tv # rest)))"

section \<open>Allocation\<close>

text \<open>
  \<open>calculate_layout\<close> over the layouts of the members of a tuple, which are computed while it runs.
\<close>

fun member_fields :: "nat \<Rightarrow> typing_data \<Rightarrow> type_id list \<Rightarrow> layout \<Rightarrow> nat list \<Rightarrow> (layout \<times> nat list) rust" where
  "member_fields n td [] l offsets = Inr (l, offsets)"
| "member_fields n td (t # ts) l offsets =
     and_then (within_stack (layout_of n td t)) (\<lambda>new_l.
     and_then (layout_fields [new_l] l offsets) (\<lambda>(l', offsets'). member_fields n td ts l' offsets'))"

definition tuple_layout :: "nat \<Rightarrow> typing_data \<Rightarrow> type_id list option \<Rightarrow> (layout \<times> nat list) rust" where
  "tuple_layout n td members =
     and_then (member_fields n td (params_of members) \<lparr>l_size = 0, l_align = 1\<rparr> []) (\<lambda>(l, offsets).
     (let l' = pad_to_align l in and_then (assert_that (l_size l' \<noteq> 0)) (\<lambda>_. Inr (l', offsets))))"

definition member_offsets :: "('vg, 'g, 'cg, 'b, 'o) backend_cx \<Rightarrow> type_id list option \<Rightarrow> ('vg, 'cg, 'b, 'o, layout \<times> nat list) emit" where
  "member_offsets K members st = slift (tuple_layout (cc_depth (cx_calls K)) (ss_types (lw_session st)) members) st"

definition host_layout_of :: "('vg, 'g, 'cg, 'b, 'o) backend_cx \<Rightarrow> value_id \<Rightarrow> ('vg, 'cg, 'b, 'o, layout) emit" where
  "host_layout_of K val st =
     and_then (within_stack (map_option unwrap_ok (get_layout_of (cc_driver (cx_calls K)) (cc_depth (cx_calls K)) val (lw_session st))))
       (\<lambda>(l, cx). Inr (l, st\<lparr>lw_session := cx\<rparr>))"

definition heap_alloc :: "('vg, 'g, 'cg, 'b, 'o) backend_cx \<Rightarrow> external_name \<Rightarrow> nat \<Rightarrow> ('vg, 'cg, 'b, 'o, ir_value list) emit" where
  "heap_alloc K alloc n st =
     (let C = cx_clif K;
          (alloc_ref, fx) = cl_import_function C alloc (mk_signature DefaultConv [IrI64] (cl_pointer_type C)) False (lw_fx st)
      in sbind (emit1 K (Iconst IrI64 (word_of_nat n))) (\<lambda>v.
         on_fx (cl_ins C (IrCall alloc_ref [v]))) (st\<lparr>lw_fx := fx\<rparr>))"

definition alloc_uninit :: "('vg, 'g, 'cg, 'b, 'o) backend_cx \<Rightarrow> external_name \<Rightarrow> type_id \<Rightarrow> ('vg, 'cg, 'b, 'o, ir_value) emit" where
  "alloc_uninit K alloc t =
     sbind (kind_of t) (\<lambda>k.
     sbind (case k of
              PyTuple members \<Rightarrow> sbind (member_offsets K members) (\<lambda>(l, _). sret l)
            | PyInstance val \<Rightarrow> host_layout_of K val
            | _ \<Rightarrow> slift (Inl TodoMacro)) (\<lambda>l.
     sbind (slift (assert_that (l_size l \<noteq> 0))) (\<lambda>_.
     sbind (slift (if l_size l < 2 ^ 63 then Inr (l_size l) else Inl UnwrapNone)) (\<lambda>n.
     sbind (heap_alloc K alloc n) (\<lambda>results.
     (case results of [addr] \<Rightarrow> sret addr | _ \<Rightarrow> slift (Inl UnwrapNone)))))))"

text \<open>The elements are looked up while they are stored.\<close>

fun store_fields ::
  "('vg, 'g, 'cg, 'b, 'o) backend_cx \<Rightarrow> (nat \<times> ir_value tvalue) list \<Rightarrow> nat list \<Rightarrow> ir_value \<Rightarrow> nat \<Rightarrow> nat list \<Rightarrow> ('vg, 'cg, 'b, 'o, unit) emit" where
  "store_fields K vals offsets addr ix [] = sret ()"
| "store_fields K vals offsets addr ix (v # vs) =
     sbind (slift (key_index vals v)) (\<lambda>elem.
     sbind (slift (case get_at offsets ix of None \<Rightarrow> Inl IndexOutOfBounds | Some n \<Rightarrow> Inr n)) (\<lambda>offset.
     sbind (emit0 K (IrStore (as_value elem) addr offset)) (\<lambda>_.
     store_fields K vals offsets addr (Suc ix) vs)))"

definition initialize ::
  "('vg, 'g, 'cg, 'b, 'o) backend_cx \<Rightarrow> type_id \<Rightarrow> ir_value \<Rightarrow> (nat \<times> ir_value tvalue) list \<Rightarrow> nat list \<Rightarrow> ('vg, 'cg, 'b, 'o, unit) emit" where
  "initialize K t addr vals elems =
     sbind (kind_of t) (\<lambda>k.
     (case k of
        PyTuple members \<Rightarrow> sbind (member_offsets K members) (\<lambda>(_, offsets). store_fields K vals offsets addr 0 elems)
      | PyInstance _ \<Rightarrow> sret ()
      | _ \<Rightarrow> slift (Inl TodoMacro)))"

text \<open>The size of a slot is rounded up to a multiple of 16 bytes.\<close>

definition slot_size :: "nat \<Rightarrow> nat" where
  "slot_size n = (n + 15) div 16 * 16"

text \<open>\<open>size + 15\<close> is checked for overflow.\<close>

definition stack_alloc :: "('vg, 'g, 'cg, 'b, 'o) backend_cx \<Rightarrow> type_id \<Rightarrow> ('vg, 'cg, 'b, 'o, stack_slot) emit" where
  "stack_alloc K t st =
     and_then (within_stack (size_of (cc_depth (cx_calls K)) (ss_types (lw_session st)) t)) (\<lambda>n.
     if 2 ^ 32 \<le> n + 15 then Inl ArithmeticOverflow
     else on_fx (\<lambda>fx. Inr (cl_create_stack_slot (cx_clif K) (slot_size n) fx)) st)"

section \<open>Instructions\<close>

text \<open>\<open>f64 as i64\<close>: towards zero, saturating, 0 for a NaN.\<close>

definition f64_as_i64 :: "64 word \<Rightarrow> 64 word" where
  "f64_as_i64 w =
     (let bits = unat w;
          negative = 2 ^ 63 \<le> bits;
          e = bits div 2 ^ 52 mod 2 ^ 11;
          f = bits mod 2 ^ 52;
          m = (if e = 0 then f else f + 2 ^ 52);
          ex = max e 1;
          mag = (if 1075 \<le> ex then m * 2 ^ (ex - 1075) else m div 2 ^ (1075 - ex))
      in if e = 2047 \<and> f \<noteq> 0 then 0
         else if negative then word_of_int (- int (min mag (2 ^ 63)))
         else word_of_nat (min mag (2 ^ 63 - 1)))"

text \<open>A function is imported into the one under construction the first time it is named.\<close>

definition func_ref_of :: "('vg, 'g, 'cg, 'b, 'o) backend_cx \<Rightarrow> (value_id \<times> func_id) list \<Rightarrow> value_id \<Rightarrow> ('vg, 'cg, 'b, 'o, func_ref) emit" where
  "func_ref_of K fids val st =
     (case map_of (lw_f_refs st) val of
        Some f \<Rightarrow> Inr (f, st)
      | None \<Rightarrow>
          and_then (key_index fids val) (\<lambda>fid.
          (let (f, fx) = om_declare_func_in_func (cx_clif K) (lw_module st) fid (lw_fx st)
           in Inr (f, st\<lparr>lw_fx := fx, lw_f_refs := assoc_put val f (lw_f_refs st)\<rparr>))))"

definition lower_alloc :: "('vg, 'g, 'cg, 'b, 'o) backend_cx \<Rightarrow> external_name \<Rightarrow> type_id \<Rightarrow> nat list \<Rightarrow> nat \<Rightarrow> ('vg, 'cg, 'b, 'o, unit) emit" where
  "lower_alloc K alloc t ilist ret =
     sbind (alloc_uninit K alloc t) (\<lambda>addr.
     sbind (\<lambda>st. initialize K t addr (lw_values st) ilist st) (\<lambda>_ st.
     Inr ((), set_value ret (tv_reference addr t) st)))"

definition lower_field_load ::
  "('vg, 'g, 'cg, 'b, 'o) backend_cx \<Rightarrow> nat \<Rightarrow> type_id \<Rightarrow> cg_field \<Rightarrow> type_id \<Rightarrow> nat \<Rightarrow> ('vg, 'cg, 'b, 'o, unit) emit" where
  "lower_field_load K orig orig_t field field_t ret st =
     and_then (key_index (lw_values st) orig) (\<lambda>orig.
     sbind (kind_of orig_t) (\<lambda>k.
     (case k of
        PyTuple members \<Rightarrow>
          sbind (member_offsets K members) (\<lambda>(_, offsets).
          (case field of
             ByVal _ \<Rightarrow> slift (Inl TodoMacro)
           | Imm n \<Rightarrow>
               sbind (slift (case get_at offsets (unat n) of None \<Rightarrow> Inl IndexOutOfBounds | Some off \<Rightarrow> Inr off)) (\<lambda>off.
               sbind (emit1 K (IrLoad IrI64 (as_value orig) off)) (\<lambda>v st.
               Inr ((), set_value ret (tv_imm v field_t) st)))))
      | _ \<Rightarrow> slift (Inl TodoMacro))) st)"

definition lower_jump :: "('vg, 'g, 'cg, 'b, 'o) backend_cx \<Rightarrow> (nat \<times> ir_block) list \<Rightarrow> nat \<Rightarrow> nat list \<Rightarrow> ('vg, 'cg, 'b, 'o, unit) emit" where
  "lower_jump K blocks to args st =
     and_then (operand_values (lw_values st) args) (\<lambda>vs.
     and_then (key_index blocks to) (\<lambda>b. emit0 K (IrJump b vs) st))"

text \<open>The branch is taken when the value equals \<open>expected\<close>.\<close>

definition lower_branch ::
  "('vg, 'g, 'cg, 'b, 'o) backend_cx \<Rightarrow> (nat \<times> ir_block) list \<Rightarrow> 64 word \<Rightarrow> nat \<Rightarrow> nat \<Rightarrow> ('vg, 'cg, 'b, 'o, unit) emit" where
  "lower_branch K blocks expected to ctrl =
     sbind (emit1 K (Iconst IrI64 expected)) (\<lambda>one st.
     and_then (key_index (lw_values st) ctrl) (\<lambda>tv.
     and_then (key_index blocks to) (\<lambda>b. emit0 K (BrIcmp CcEqual (as_value tv) one b []) st)))"

definition lower_use :: "('vg, 'g, 'cg, 'b, 'o) backend_cx \<Rightarrow> (value_id \<times> func_id) list \<Rightarrow> value_id \<Rightarrow> nat \<Rightarrow> ('vg, 'cg, 'b, 'o, unit) emit" where
  "lower_use K fids val ret =
     sbind (func_ref_of K fids val) (\<lambda>f.
     sbind (emit1 K (FuncAddr (cl_pointer_type (cx_clif K)) f)) (\<lambda>addr.
     sbind (host_type_of K val) (\<lambda>t st.
     Inr ((), set_value ret (tv_reference addr t) st))))"

definition lower_call ::
  "('vg, 'g, 'cg, 'b, 'o) backend_cx \<Rightarrow> (value_id \<times> func_id) list \<Rightarrow> value_id \<Rightarrow> nat list \<Rightarrow> nat \<Rightarrow> ('vg, 'cg, 'b, 'o, unit) emit" where
  "lower_call K fids val args ret =
     sbind (func_ref_of K fids val) (\<lambda>f.
     sbind (\<lambda>st. slift (operand_values (lw_values st) args) st) (\<lambda>vs.
     sbind (on_fx (cl_ins (cx_clif K) (IrCall f vs))) (\<lambda>results.
     sbind (host_type_of K val) (\<lambda>t.
     sbind (kind_of t) (\<lambda>k.
     sbind (slift (case k of PyCallable _ ret_t \<Rightarrow> Inr ret_t | _ \<Rightarrow> Inl UnreachableCode)) (\<lambda>ret_t.
     (case results of
        [rval] \<Rightarrow> (\<lambda>st. Inr ((), set_value ret (tv_imm rval ret_t) st))
      | _ \<Rightarrow> slift (Inl TodoMacro))))))))"

text \<open>A string becomes a data object; a string with a zero byte is not a C string.\<close>

definition string_data :: "('vg, 'g, 'cg, 'b, 'o) backend_cx \<Rightarrow> span_ref \<Rightarrow> ('vg, 'cg, 'b, 'o, ir_value) emit" where
  "string_data K r st =
     (let C = cx_clif K in
      and_then (unwrap (om_declare_data C (''str,'' @ show_nat (unat (span_distinct r))) (lw_module st))) (\<lambda>(data_id, ob).
      and_then (unwrap (dr_spanref_to_str (cc_driver (cx_calls K)) r)) (\<lambda>s.
      and_then (if char_of (0 :: nat) \<in> set s then Inl UnwrapNone else Inr (s @ [char_of (0 :: nat)])) (\<lambda>bytes.
      and_then (unwrap (om_define_data C data_id bytes ob)) (\<lambda>ob.
      (let (gv, fx) = om_declare_data_in_func C ob data_id (lw_fx st)
       in emit1 K (GlobalAddr IrI64 gv) (st\<lparr>lw_module := ob, lw_fx := fx\<rparr>)))))))"

definition lower_const :: "('vg, 'g, 'cg, 'b, 'o) backend_cx \<Rightarrow> const \<Rightarrow> nat \<Rightarrow> ('vg, 'cg, 'b, 'o, unit) emit" where
  "lower_const K cst ret =
     sbind (case cst of
         CInt n \<Rightarrow> emit1 K (Iconst IrI64 n)
       | CFloat n \<Rightarrow> emit1 K (Iconst IrF64 (f64_as_i64 n))
       | CBool b \<Rightarrow> emit1 K (Iconst IrI64 (if b then 1 else 0))
       | CString r \<Rightarrow> string_data K r
       | CNone \<Rightarrow> emit1 K (Iconst IrI64 0)
       | CEllipsis \<Rightarrow> slift (Inl TodoMacro)) (\<lambda>v st.
     Inr ((), set_value ret (tv_imm v (const_type cst)) st))"

definition lower_read :: "('vg, 'g, 'cg, 'b, 'o) backend_cx \<Rightarrow> span_ref \<Rightarrow> nat \<Rightarrow> ('vg, 'cg, 'b, 'o, unit) emit" where
  "lower_read K var ret st =
     and_then (key_index (lw_locals st) (span_group var)) (\<lambda>(ss, t, _).
     sbind (emit1 K (StackLoad IrI64 ss 0)) (\<lambda>v st. Inr ((), set_value ret (tv_imm v t) st)) st)"

text \<open>The slot of a variable that is written before anything else is done with it holds an \<open>int\<close>.\<close>

definition ensure_slot :: "('vg, 'g, 'cg, 'b, 'o) backend_cx \<Rightarrow> u32 \<Rightarrow> ('vg, 'cg, 'b, 'o, unit) emit" where
  "ensure_slot K g st =
     (case map_of (lw_locals st) g of
        Some _ \<Rightarrow> Inr ((), st)
      | None \<Rightarrow>
          sbind (stack_alloc K (builtin_tag BInt)) (\<lambda>ss st.
          and_then (ir_type_of (ss_types (lw_session st)) (builtin_tag BInt)) (\<lambda>ir.
          Inr ((), st\<lparr>lw_locals := assoc_put g (ss, builtin_tag BInt, ir) (lw_locals st)\<rparr>))) st)"

definition lower_write :: "('vg, 'g, 'cg, 'b, 'o) backend_cx \<Rightarrow> span_ref \<Rightarrow> nat \<Rightarrow> ('vg, 'cg, 'b, 'o, unit) emit" where
  "lower_write K var orig =
     sbind (ensure_slot K (span_group var)) (\<lambda>_.
     sbind (\<lambda>st. slift (key_index (lw_locals st) (span_group var)) st) (\<lambda>(ss, slot_t, _).
     sbind (emit1 K (StackAddr IrI64 ss 0)) (\<lambda>dest.
     sbind (\<lambda>st. slift (key_index (lw_values st) orig) st) (\<lambda>val.
     if is_integer (tv_type_id val) then emit0 K (StackStore (as_value val) ss 0)
     else
       sbind (\<lambda>st. slift (within_stack (size_of (cc_depth (cx_calls K)) (ss_types (lw_session st)) slot_t)) st) (\<lambda>n.
       sbind (emit1 K (Iconst IrI64 (word_of_nat n))) (\<lambda>n.
       on_fx (sdo (cl_call_memcpy (cx_clif K) dest (as_value val) n))))))))"

text \<open>The last component tells whether the loop over the block goes on.\<close>

definition goes_on :: "loop_exit \<Rightarrow> ('vg, 'cg, 'b, 'o, unit) emit \<Rightarrow> ('vg, 'cg, 'b, 'o, loop_exit) emit" where
  "goes_on e m = sbind m (\<lambda>_. sret e)"

definition lower_inst ::
  "('vg, 'g, 'cg, 'b, 'o) backend_cx \<Rightarrow> external_name \<Rightarrow> (nat \<times> ir_block) list \<Rightarrow> (value_id \<times> func_id) list \<Rightarrow> cg_inst
    \<Rightarrow> ('vg, 'cg, 'b, 'o, loop_exit) emit" where
  "lower_inst K alloc blocks fids i =
     (case i of
        CgAlloc t ilist ret \<Rightarrow> goes_on NextInst (lower_alloc K alloc t ilist ret)
      | CgFieldLoad orig orig_t field field_t ret \<Rightarrow> goes_on NextInst (lower_field_load K orig orig_t field field_t ret)
      | CgJump to args \<Rightarrow> goes_on BreakLoop (lower_jump K blocks to args)
      | CgJumpIfTrue to ctrl \<Rightarrow> goes_on NextInst (lower_branch K blocks 1 to ctrl)
      | CgJumpIfFalse to ctrl \<Rightarrow> goes_on NextInst (lower_branch K blocks 0 to ctrl)
      | CgUse val ret \<Rightarrow> goes_on NextInst (lower_use K fids val ret)
      | CgCall val args ret \<Rightarrow> goes_on NextInst (lower_call K fids val args ret)
      | CgConst cst ret \<Rightarrow> goes_on NextInst (lower_const K cst ret)
      | CgReadLocalVar var ret \<Rightarrow> goes_on NextInst (lower_read K var ret)
      | CgWriteLocalVar var orig \<Rightarrow> goes_on NextInst (lower_write K var orig)
      | CgReturn val \<Rightarrow>
          goes_on BreakLoop (\<lambda>st. and_then (key_index (lw_values st) val) (\<lambda>tv. emit0 K (IrReturn [as_value tv]) st)))"

fun lower_insts ::
  "('vg, 'g, 'cg, 'b, 'o) backend_cx \<Rightarrow> external_name \<Rightarrow> (nat \<times> ir_block) list \<Rightarrow> (value_id \<times> func_id) list \<Rightarrow> cg_inst list
    \<Rightarrow> ('vg, 'cg, 'b, 'o, unit) emit" where
  "lower_insts K alloc blocks fids [] = sret ()"
| "lower_insts K alloc blocks fids (i # insts) =
     sbind (lower_inst K alloc blocks fids i) (\<lambda>e.
     (case e of BreakLoop \<Rightarrow> sret () | NextInst \<Rightarrow> lower_insts K alloc blocks fids insts))"

section \<open>Blocks\<close>

text \<open>The part of the loop body before the successors: the current block is lowered and sealed.\<close>

definition lower_block ::
  "('vg, 'g, 'cg, 'b, 'o) backend_cx \<Rightarrow> external_name \<Rightarrow> 'cg \<Rightarrow> (nat \<times> ir_block) list \<Rightarrow> (value_id \<times> func_id) list \<Rightarrow> nat
    \<Rightarrow> ('vg, 'cg, 'b, 'o, unit) emit" where
  "lower_block K alloc cfg blocks fids ix st =
     and_then (key_index blocks ix) (\<lambda>b.
     and_then (if cl_current_block (cx_clif K) (lw_fx st) \<noteq> Some b
               then on_fx (sdo (cl_switch_to_block (cx_clif K) b)) st else Inr ((), st)) (\<lambda>(_, st).
     and_then (case get_at (g_weights (cc_code_graph (cx_calls K)) cfg) ix of None \<Rightarrow> Inl IndexOutOfBounds | Some is \<Rightarrow> Inr is) (\<lambda>insts.
     sbind (lower_insts K alloc blocks fids insts) (\<lambda>_.
     on_fx (sdo (cl_seal_block (cx_clif K) b))) st)))"

text \<open>The vector of processed blocks is searched by bisection, though it is not kept sorted.\<close>

fun push_successors :: "nat list \<Rightarrow> nat list \<Rightarrow> nat list \<Rightarrow> nat list" where
  "push_successors processed queue [] = queue"
| "push_successors processed queue (to # tos) =
     (case binary_search processed to of
        Inl _ \<Rightarrow> push_successors processed queue tos
      | Inr _ \<Rightarrow> push_successors processed (if to \<in> set queue then queue else queue @ [to]) tos)"

partial_function (option) lower_loop ::
  "(nat \<Rightarrow> 's \<Rightarrow> (unit \<times> 's) rust) \<Rightarrow> (nat \<Rightarrow> nat list) \<Rightarrow> nat list \<Rightarrow> nat list \<Rightarrow> 's \<Rightarrow> (nat list \<times> 's) rust option" where
  "lower_loop step succs processed queue st =
     (case queue of
        [] \<Rightarrow> Some (Inr (processed, st))
      | ix # rest \<Rightarrow>
          (case step ix st of
             Inl p \<Rightarrow> Some (Inl p)
           | Inr (_, st') \<Rightarrow>
               (let processed' = processed @ [ix]
                in lower_loop step succs processed' (push_successors processed' rest (succs ix)) st')))"

text \<open>\<open>Builder::lower\<close>; the vector of processed blocks is returned with the state.\<close>

definition lower ::
  "('vg, 'g, 'cg, 'b, 'o) backend_cx \<Rightarrow> external_name \<Rightarrow> 'cg \<Rightarrow> (nat \<times> ir_block) list \<Rightarrow> (value_id \<times> func_id) list
    \<Rightarrow> ('vg, 'cg, 'b, 'o) lower_state \<Rightarrow> (nat list \<times> ('vg, 'cg, 'b, 'o) lower_state) rust option" where
  "lower K alloc cfg blocks fids st =
     map_option (\<lambda>r. and_then r (\<lambda>(processed, st).
       and_then (on_fx (sdo (cl_finalize (cx_clif K))) st) (\<lambda>(_, st). Inr (processed, st))))
       (lower_loop (lower_block K alloc cfg blocks fids)
          (\<lambda>ix. map fst (g_out (cc_code_graph (cx_calls K)) cfg ix)) [] [0] st)"

end
