(* ===== verification/Backend.thy ===== *)
theory Backend
  imports Codegen
begin

text \<open>
  \<^verbatim>\<open>montyc_codegen/src/cranelift/mod.rs\<close>: settings, including functions, and building the object
  module with the builtins, the entry point and every function. Emitting the bytes of the module,
  writing the file and running the linker are left out.
\<close>

section \<open>Settings\<close>

text \<open>\<open>str::split\<close> with a single character.\<close>

fun split_char :: "char \<Rightarrow> string \<Rightarrow> string list" where
  "split_char c [] = [[]]"
| "split_char c (x # xs) =
     (if x = c then [] # split_char c xs
      else (case split_char c xs of [] \<Rightarrow> [[x]] | s # ss \<Rightarrow> (x # s) # ss))"

text \<open>\<open>set\<close> is the method of cranelift's settings, which may return an error.\<close>

fun apply_settings :: "(string \<Rightarrow> string \<Rightarrow> 'f \<Rightarrow> 'f option) \<Rightarrow> string list \<Rightarrow> 'f \<Rightarrow> 'f rust" where
  "apply_settings set_flag [] flags = Inr flags"
| "apply_settings set_flag (s # ss) flags =
     (case split_char (CHR ''='') s of
        name # v # _ \<Rightarrow> and_then (unwrap (set_flag name v flags)) (apply_settings set_flag ss)
      | _ \<Rightarrow> Inl UnwrapNone)"

definition codegen_flags :: "(string \<Rightarrow> string \<Rightarrow> 'f \<Rightarrow> 'f option) \<Rightarrow> string list \<Rightarrow> 'f \<Rightarrow> 'f rust" where
  "codegen_flags set_flag settings flags =
     apply_settings set_flag ([''opt_level=none'', ''is_pic=no'', ''enable_verifier=yes''] @ settings) flags"

section \<open>Including functions\<close>

fun ir_types :: "typing_data \<Rightarrow> type_id list \<Rightarrow> ir_type list rust" where
  "ir_types td [] = Inr []"
| "ir_types td (t # ts) = and_then (ir_type_of td t) (\<lambda>i. and_then (ir_types td ts) (\<lambda>is. Inr (i # is)))"

definition function_signature :: "typing_data \<Rightarrow> type_id \<Rightarrow> signature rust" where
  "function_signature td t =
     (case td_get_python_type_of td t of
        Some (PyCallable params ret) \<Rightarrow>
          and_then (ir_type_of td ret) (\<lambda>ret.
          and_then (ir_types td (params_of params)) (\<lambda>params. Inr (mk_signature SystemV params ret)))
      | Some _ \<Rightarrow> Inl PanicMacro
      | None \<Rightarrow> Inl UnreachableCode)"

definition include_function ::
  "('vg, 'g, 'cg, 'b, 'o) backend_cx \<Rightarrow> value_id \<Rightarrow> ('vg, 'cg) session \<times> 'cg cg_data \<Rightarrow> (('vg, 'cg) session \<times> 'cg cg_data) monty option" where
  "include_function K val s =
     (case s of (cx, d) \<Rightarrow>
        qbind (Some (get_function (cx_calls K) val cx)) (\<lambda>(func, cx).
        qbind (get_function_cg_cfg (cx_calls K) val cx) (\<lambda>(cg_cfg, cx).
        qbind (Some (type_query (cx_calls K) val cx)) (\<lambda>(t, cx).
        qbind (qrust (function_signature (ss_types cx) t)) (\<lambda>sg.
        if fu_is_extern func then
          qbind (Some (ok_or (dr_spanref_to_str (cc_driver (cx_calls K)) (fu_name func)) MontyNone)) (\<lambda>name.
          Some (Inr (cx, snd (decl_foreign_function name sg (Some val) d))))
        else Some (Inr (cx, snd (insert_function val cg_cfg sg d))))))))"

fun include_all ::
  "('vg, 'g, 'cg, 'b, 'o) backend_cx \<Rightarrow> value_id list \<Rightarrow> ('vg, 'cg) session \<times> 'cg cg_data \<Rightarrow> (('vg, 'cg) session \<times> 'cg cg_data) monty option" where
  "include_all K [] s = Some (Inr s)"
| "include_all K (f # fs) s = qbind (include_function K f s) (include_all K fs)"

section \<open>The entry point\<close>

text \<open>\<open>count() as u32 + 1\<close> is checked for overflow.\<close>

definition define_main :: "('b, 'o) clif \<Rightarrow> external_name \<times> signature \<Rightarrow> nat \<Rightarrow> 'o \<Rightarrow> 'o rust" where
  "define_main C entry n ob =
     (case entry of (entry_name, entry_sig) \<Rightarrow>
      (let index = (word_of_nat n :: u32) in
       if index = -1 then Inl ArithmeticOverflow
       else
         (let fx = cl_function C (UserName 0 (index + 1)) (mk_signature SystemV [] IrI64) in
          and_then (unwrap (om_declare_function C ''main'' LinkExport entry_sig ob)) (\<lambda>(fid, ob).
          (let (entry_ref, fx) = cl_import_function C entry_name entry_sig True fx;
               (start, fx) = cl_create_block C fx
           in and_then (cl_switch_to_block C start fx) (\<lambda>fx.
              and_then (ins1 C (IrCall entry_ref []) fx) (\<lambda>(ret, fx).
              and_then (ins0 C (IrReturn [ret]) fx) (\<lambda>fx.
              and_then (cl_seal_all_blocks C fx) (\<lambda>fx.
              if cl_verify C fx then unwrap (om_define_function C fid fx ob) else Inl PanicMacro)))))))))"

section \<open>Builtin methods\<close>

text \<open>A method that has no builtin of its name and return type is logged and stays undefined.\<close>

definition define_builtin ::
  "('vg, 'g, 'cg, 'b, 'o) backend_cx \<Rightarrow> ((type_id \<times> string) \<times> 'b) list \<Rightarrow> (value_id \<times> func_id) list
    \<Rightarrow> value_id \<times> 'cg cg_func_data \<Rightarrow> ('vg, 'cg) session \<times> 'o \<Rightarrow> (('vg, 'cg) session \<times> 'o) monty" where
  "define_builtin K bltns fids f s =
     (case (f, s) of ((ix, f), (cx, ob)) \<Rightarrow>
        and_then (lift_panic (key_index fids ix)) (\<lambda>fid.
        and_then (lift_panic (unwrap_ok (type_query (cx_calls K) ix cx))) (\<lambda>(func_t, cx).
        and_then (lift_panic (unwrap (td_get_python_type_of (ss_types cx) func_t))) (\<lambda>k.
        (case k of
           PyCallable _ ret \<Rightarrow>
             and_then (get_function (cx_calls K) ix cx) (\<lambda>(func, cx).
             and_then (ok_or (dr_spanref_to_str (cc_driver (cx_calls K)) (fu_name func)) MontyNone) (\<lambda>name.
             (case map_of bltns (ret, name) of
                None \<Rightarrow> Inr (cx, ob)
              | Some fx \<Rightarrow>
                  (let fx = cl_set_name (cx_clif K) (cf_name f) fx in
                   if \<not> cl_verify (cx_clif K) fx then Inl (Panicked TodoMacro)
                   else and_then (lift_panic (unwrap (om_define_function (cx_clif K) fid fx ob))) (\<lambda>ob. Inr (cx, ob))))))
         | _ \<Rightarrow> Inl (Panicked TodoMacro))))))"

fun define_each ::
  "('vg, 'g, 'cg, 'b, 'o) backend_cx \<Rightarrow> ((type_id \<times> string) \<times> 'b) list \<Rightarrow> (value_id \<times> func_id) list
    \<Rightarrow> (value_id \<times> 'cg cg_func_data) list \<Rightarrow> ('vg, 'cg) session \<times> 'o \<Rightarrow> (('vg, 'cg) session \<times> 'o) monty" where
  "define_each K bltns fids [] s = Inr s"
| "define_each K bltns fids (f # fs) s = and_then (define_builtin K bltns fids f s) (define_each K bltns fids fs)"

definition define_builtin_methods ::
  "('vg, 'g, 'cg, 'b, 'o) backend_cx \<Rightarrow> (value_id \<times> func_id) list \<Rightarrow> (value_id \<times> 'cg cg_func_data) list
    \<Rightarrow> ('vg, 'cg) session \<times> 'o \<Rightarrow> (('vg, 'cg) session \<times> 'o) monty" where
  "define_builtin_methods K fids stubbed s =
     and_then (lift_panic (create_builtins (cx_clif K))) (\<lambda>bltns. define_each K bltns fids stubbed s)"

section \<open>Functions\<close>

text \<open>One block of the builder for every node, numbered from \<open>ix\<close>.\<close>

fun create_blocks :: "('b, 'o) clif \<Rightarrow> nat \<Rightarrow> nat \<Rightarrow> 'b \<Rightarrow> (nat \<times> ir_block) list \<times> 'b" where
  "create_blocks C ix 0 fx = ([], fx)"
| "create_blocks C ix (Suc n) fx =
     (let (b, fx) = cl_create_block C fx; (bs, fx) = create_blocks C (Suc ix) n fx in ((ix, b) # bs, fx))"

text \<open>A parameter is stored into a slot of its type, which becomes the slot of its name.\<close>

fun store_params :: "('vg, 'g, 'cg, 'b, 'o) backend_cx \<Rightarrow> ((span_ref \<times> type_id) \<times> ir_value) list \<Rightarrow> ('vg, 'cg, 'b, 'o, unit) emit" where
  "store_params K [] = sret ()"
| "store_params K (((name, t), v) # ps) =
     sbind (stack_alloc K t) (\<lambda>ss.
     sbind (emit0 K (StackStore v ss 0)) (\<lambda>_.
     sbind (\<lambda>st. slift (ir_type_of (ss_types (lw_session st)) t) st) (\<lambda>ir st.
     store_params K ps (st\<lparr>lw_locals := assoc_put (span_group name) (ss, t, ir) (lw_locals st)\<rparr>))))"

definition param_names :: "flat_seq \<Rightarrow> span_ref list rust" where
  "param_names seq =
     and_then (unwrap (fs_ast seq)) (\<lambda>ast.
     (case ast of
        NFuncDef f \<Rightarrow> Inr (map fst (case fn_args f of None \<Rightarrow> [] | Some args \<Rightarrow> args))
      | _ \<Rightarrow> Inl UnreachableCode))"

definition enter_function :: "('vg, 'g, 'cg, 'b, 'o) backend_cx \<Rightarrow> value_id \<Rightarrow> ir_block \<Rightarrow> (nat \<times> ir_block) list \<Rightarrow> ('vg, 'cg, 'b, 'o, unit) emit" where
  "enter_function K val start blocks =
     sbind (on_fx (sdo (cl_append_params (cx_clif K) start))) (\<lambda>_.
     sbind (on_fx (sdo (cl_switch_to_block (cx_clif K) start))) (\<lambda>_.
     sbind (host_type_of K val) (\<lambda>t.
     sbind (kind_of t) (\<lambda>k.
     sbind (slift (case k of PyCallable params _ \<Rightarrow> Inr params | _ \<Rightarrow> Inl UnreachableCode)) (\<lambda>params.
     sbind (case params of
              None \<Rightarrow> sret ()
            | Some ts \<Rightarrow> (\<lambda>st.
                and_then (unwrap_ok (get_function_flatcode (call_queries (cx_calls K)) (lw_session st) val)) (\<lambda>seq.
                and_then (param_names seq) (\<lambda>names.
                store_params K (zip (zip names ts) (cl_block_params (cx_clif K) (lw_fx st) start)) st)))) (\<lambda>_.
     sbind (slift (key_index blocks 0)) (\<lambda>b.
     sbind (emit0 K (IrJump b [])) (\<lambda>_.
     on_fx (sdo (cl_seal_block (cx_clif K) start))))))))))"

definition build_func ::
  "('vg, 'g, 'cg, 'b, 'o) backend_cx \<Rightarrow> external_name \<Rightarrow> (value_id \<times> func_id) list \<Rightarrow> 'cg cg_func_data
    \<Rightarrow> ('vg, 'cg) session \<times> 'o \<Rightarrow> (('vg, 'cg) session \<times> 'o) rust option" where
  "build_func K alloc fids func s =
     (let C = cx_clif K; n = length (g_weights (cc_code_graph (cx_calls K)) (cf_cfg func));
          fx = cl_function C (cf_name func) (cf_sig func) in
      case map_of fids (cf_value_id func) of
        None \<Rightarrow> Some (Inl PanicMacro)
      | Some fid \<Rightarrow>
          (let (start, fx) = cl_create_block C fx;
               (blocks, fx) = create_blocks C 0 n fx;
               st = \<lparr>lw_fx = fx, lw_values = [], lw_locals = [], lw_f_refs = [], lw_session = fst s, lw_module = snd s\<rparr>
           in case enter_function K (cf_value_id func) start blocks st of
                Inl p \<Rightarrow> Some (Inl p)
              | Inr (_, st) \<Rightarrow>
                  map_option (\<lambda>r. and_then r (\<lambda>(_, st).
                    if \<not> cl_verify C (lw_fx st) then Inl PanicMacro
                    else (case om_define_function C fid (lw_fx st) (lw_module st) of
                            None \<Rightarrow> Inl TodoMacro
                          | Some ob \<Rightarrow> Inr (lw_session st, ob))))
                    (lower K alloc (cf_cfg func) blocks fids st)))"

fun build_each ::
  "('vg, 'g, 'cg, 'b, 'o) backend_cx \<Rightarrow> external_name \<Rightarrow> (value_id \<times> func_id) list \<Rightarrow> 'cg cg_func_data list
    \<Rightarrow> ('vg, 'cg) session \<times> 'o \<Rightarrow> (('vg, 'cg) session \<times> 'o) rust option" where
  "build_each K alloc fids [] s = Some (Inr s)"
| "build_each K alloc fids (f # fs) s =
     (case build_func K alloc fids f s of
        None \<Rightarrow> None
      | Some (Inl p) \<Rightarrow> Some (Inl p)
      | Some (Inr s') \<Rightarrow> build_each K alloc fids fs s')"

section \<open>The object module\<close>

text \<open>A function whose body is an ellipsis, or which has no code, is a stub.\<close>

definition is_stub :: "('cg, cg_inst list, unit) graph_ops \<Rightarrow> 'cg cg_func_data \<Rightarrow> bool" where
  "is_stub G func =
     (case g_weights G (cf_cfg func) of
        [] \<Rightarrow> True
      | [block] \<Rightarrow> (case block of [CgConst CEllipsis _] \<Rightarrow> True | _ \<Rightarrow> False)
      | _ \<Rightarrow> False)"

fun declare_all ::
  "('b, 'o) clif \<Rightarrow> (string \<times> linkage \<times> signature \<times> value_id option) list \<Rightarrow> (value_id \<times> func_id) list \<times> 'o
    \<Rightarrow> ((value_id \<times> func_id) list \<times> 'o) rust" where
  "declare_all C [] s = Inr s"
| "declare_all C ((name, link, sg, ix) # fs) s =
     (case s of (fids, ob) \<Rightarrow>
        and_then (unwrap (om_declare_function C name link sg ob)) (\<lambda>(fid, ob).
        declare_all C fs (case ix of None \<Rightarrow> fids | Some v \<Rightarrow> assoc_put v fid fids, ob)))"

text \<open>The functions of a partition, in the order of the map they are collected into.\<close>

definition select_funcs ::
  "('vg, 'g, 'cg, 'b, 'o) backend_cx \<Rightarrow> ('cg cg_func_data \<Rightarrow> bool) \<Rightarrow> 'cg cg_data \<Rightarrow> (value_id \<times> 'cg cg_func_data) list" where
  "select_funcs K P d =
     (let fs = filter (\<lambda>(_, f). P f) (cd_funcs d)
      in List.map_filter (\<lambda>v. map_option (Pair v) (map_of fs v)) (cx_map_order K (map fst fs)))"

definition build_all_functions ::
  "('vg, 'g, 'cg, 'b, 'o) backend_cx \<Rightarrow> value_id \<Rightarrow> ('vg, 'cg) session \<times> 'cg cg_data \<Rightarrow> (('vg, 'cg) session \<times> 'o) monty option" where
  "build_all_functions K entry_ix s =
     (case s of (cx, d) \<Rightarrow>
       (let C = cx_clif K;
            (alloc, d) = decl_foreign_function ''malloc'' (mk_signature DefaultConv [IrI64] (cl_pointer_type C)) None d;
            stub = is_stub (cc_code_graph (cx_calls K));
            stubbed = select_funcs K stub d;
            defined = select_funcs K (\<lambda>f. \<not> stub f) d
        in qbind (qrust (declare_all C (cd_ordered d) ([], om_new C))) (\<lambda>(fids, ob).
           qbind (Some (define_builtin_methods K fids stubbed (cx, ob))) (\<lambda>(cx, ob).
           qbind (qrust (key_index defined entry_ix)) (\<lambda>entry.
           qbind (qrust (define_main C (cf_name entry, cf_sig entry) (length (cd_ordered d)) ob)) (\<lambda>ob.
           map_option lift_panic (build_each K alloc fids (map snd defined) (cx, ob))))))))"

text \<open>
  \<open>finish\<close> from the resolved entry function to the object module. An error of
  \<open>build_all_functions\<close> is unwrapped.
\<close>

definition compile_program ::
  "('vg, 'g, 'cg, 'b, 'o) backend_cx \<Rightarrow> value_id \<Rightarrow> ('vg, 'cg) session \<Rightarrow> (('vg, 'cg) session \<times> 'o) monty option" where
  "compile_program K entry_v cx =
     qbind (call_graph_from (cx_calls K) entry_v cx) (\<lambda>(funcs, entry, cx).
     qbind (include_all K funcs (cx, cg_data_default)) (\<lambda>s.
     map_option (\<lambda>r. lift_panic (unwrap_ok r)) (build_all_functions K entry s)))"

end
