(* ===== verification/ImportSystem.thy ===== *)
theory ImportSystem
  imports InterpLaws
begin

text \<open>
  The import machinery: argument parsing (\<^verbatim>\<open>montyc_hlirt/src/argparse\<close>), the finders and loaders
  that the driver installs in the module \<^verbatim>\<open>importlib._bootstrap\<close> (\<^verbatim>\<open>montyc_driver/src/import.rs\<close>) and
  the host's side of the instruction \<open>Import\<close> (\<^verbatim>\<open>global_context/host.rs\<close>).

  \<^item> The file system is the argument \<open>FS\<close>. Paths are strings; names that are not UTF-8 are outside
    the model. A hash map that is iterated over comes in the order of its list.
  \<^item> Rust objects inside \<open>Dynamic\<close> values (specs, finders, loaders) are kept in a table of the host,
    their identifier is the index.
  \<^item> Native functions have identifiers; \<open>import_env\<close> ties identifiers and objects to what they do.
    Messages and traces of exceptions are left out.
\<close>

section \<open>Arguments\<close>

definition eresult :: "inner_exc + 'a \<Rightarrow> ('h, 'a) ev" where
  "eresult r = (case r of Inl e \<Rightarrow> eraise e | Inr x \<Rightarrow> ereturn x)"

text \<open>\<open>arg_\<close>: the next argument, and what is left.\<close>

definition take_arg :: "'i list \<Rightarrow> inner_exc + 'i list \<times> 'i" where
  "take_arg args = (case args of [] \<Rightarrow> Inl ExcTypeError | a # rest \<Rightarrow> Inr (rest, a))"

text \<open>\<open>and(positional.map(arg_))\<close> for \<open>n\<close> names.\<close>

fun take_args :: "nat \<Rightarrow> 'i list \<Rightarrow> inner_exc + 'i list \<times> 'i list" where
  "take_args 0 input = Inr (input, [])"
| "take_args (Suc n) input =
     and_then (take_arg input) (\<lambda>(rest, a). and_then (take_args n rest) (\<lambda>(rem, results). Inr (rem, a # results)))"

definition args_unboxed :: "nat \<Rightarrow> 'i list \<Rightarrow> inner_exc + 'i list \<times> 'i list" where
  "args_unboxed n input = take_args n input"

text \<open>Optional arguments are taken until one is missing.\<close>

fun take_optional :: "nat \<Rightarrow> 'i list \<Rightarrow> 'i list \<times> 'i option list" where
  "take_optional 0 remaining = (remaining, [])"
| "take_optional (Suc m) remaining =
     (case take_arg remaining of
        Inl _ \<Rightarrow> (remaining, replicate (Suc m) None)
      | Inr (rem, a) \<Rightarrow> (case take_optional m rem of (rem, tail) \<Rightarrow> (rem, Some a # tail)))"

definition args_opt_unboxed :: "nat \<Rightarrow> nat \<Rightarrow> 'i list \<Rightarrow> inner_exc + 'i list \<times> 'i list \<times> 'i option list" where
  "args_opt_unboxed n m input =
     and_then (take_args n input) (\<lambda>(remaining, head).
     Inr (case take_optional m remaining of (remaining, tail) \<Rightarrow> (remaining, head, tail)))"

text \<open>\<open>CallCx::parse_args_with\<close>: arguments that are left over are an error.\<close>

definition parse_args_with :: "('i list \<Rightarrow> inner_exc + 'i list \<times> 'a) \<Rightarrow> 'i list \<Rightarrow> inner_exc + 'a" where
  "parse_args_with parser args = and_then (parser args) (\<lambda>(rem, x). if rem = [] then Inr x else Inl ExcTypeError)"

text \<open>
  The second generation of parsers: \<open>Argument\<close> and \<open>Then\<close> fail without an exception, and
  \<open>CallCx::parse_args_v2\<close> unwraps. The extracted tuple is a list.
\<close>

type_synonym 'i arg_parser = "'i list \<Rightarrow> ('i list \<times> 'i list) option"

definition argument :: "'i arg_parser" where
  "argument args = (case args of [] \<Rightarrow> None | a # rest \<Rightarrow> Some (rest, [a]))"

definition then_parser :: "'i arg_parser \<Rightarrow> 'i arg_parser \<Rightarrow> 'i arg_parser" where
  "then_parser p q args = Option.bind (p args) (\<lambda>(rest, xs). map_option (\<lambda>(rest, ys). (rest, xs @ ys)) (q rest))"

definition parse_args_v2 :: "'i arg_parser \<Rightarrow> 'i list \<Rightarrow> (inner_exc + 'i list) rust" where
  "parse_args_v2 p args = and_then (unwrap (p args)) (\<lambda>(rem, xs). Inr (if rem \<noteq> [] then Inl ExcTypeError else Inr xs))"

section \<open>The file system\<close>

record file_system =
  fs_canonicalize :: "string \<Rightarrow> string option"
  fs_exists :: "string \<Rightarrow> bool"
  fs_is_dir :: "string \<Rightarrow> bool"
  fs_is_file :: "string \<Rightarrow> bool"
  fs_read_dir :: "string \<Rightarrow> string + string option list"
  fs_read_to_string :: "string \<Rightarrow> string option"
  fs_current_dir :: "string option"

text \<open>\<open>Path::join\<close> and \<open>str::rsplit(c).next()\<close>.\<close>

definition path_join :: "string \<Rightarrow> string \<Rightarrow> string" where
  "path_join base p =
     (if p \<noteq> [] \<and> hd p = CHR ''/'' then p
      else if base = [] \<or> last base = CHR ''/'' then base @ p else base @ ''/'' @ p)"

definition last_segment :: "char \<Rightarrow> string \<Rightarrow> string" where
  "last_segment c s = rev (takeWhile (\<lambda>x. x \<noteq> c) (rev s))"

text \<open>\<open>str::rsplit_once(c)\<close>.\<close>

definition rsplit_once :: "char \<Rightarrow> string \<Rightarrow> (string \<times> string) option" where
  "rsplit_once c s =
     (if c \<in> set s then Some (rev (tl (dropWhile (\<lambda>x. x \<noteq> c) (rev s))), last_segment c s) else None)"

section \<open>Objects of the import system\<close>

datatype import_object =
    ModuleSpecObj (spec_name: object_id) (spec_loader: object_id)
  | FileFinderObj (finder_base: string) (finder_loaders: "(string \<times> object_id) list")
  | SourceFileLoaderObj (loader_path: object_id)

record import_host =
  ih_objects :: "import_object list"

type_synonym ('z, 'a) iev = "('z import_host_scheme, 'a) ev"

text \<open>\<open>SharedObject::new(x).into_py_val()\<close> put into the object space.\<close>

definition insert_shared :: "import_object \<Rightarrow> ('z, object_id) iev" where
  "insert_shared x =
     ebind (eget (\<lambda>s. length (ih_objects (ec_host s)))) (\<lambda>n.
     ebind (eput (\<lambda>s. s\<lparr>ec_host := (ec_host s)\<lparr>ih_objects := ih_objects (ec_host s) @ [x]\<rparr>\<rparr>)) (\<lambda>_.
     ert (rt_insert (PvDynamic n))))"

definition estring :: "'h env \<Rightarrow> string \<Rightarrow> ('h, object_id) ev" where
  "estring E st = ert (new_string (env_hash E) st)"

definition read_str :: "(inner_exc + string) rust \<Rightarrow> object_id \<Rightarrow> ('h, string) ev" where
  "read_str other ob = read_object ob (\<lambda>this. case this of PvStr st \<Rightarrow> Inr (Inr st) | _ \<Rightarrow> other)"

text \<open>Going on after an exception.\<close>

definition ecase :: "('h, 'a) ev \<Rightarrow> (inner_exc + 'a \<Rightarrow> ('h, 'b) ev) \<Rightarrow> ('h, 'b) ev" where
  "ecase m f s = (case m s of None \<Rightarrow> None | Some (Inl p) \<Rightarrow> Some (Inl p) | Some (Inr (r, s')) \<Rightarrow> f r s')"

section \<open>File finder\<close>

definition file_finder_new :: "file_system \<Rightarrow> string \<Rightarrow> import_object option" where
  "file_finder_new FS path = map_option (\<lambda>base. FileFinderObj base []) (fs_canonicalize FS path)"

text \<open>A directory of the name with an init file: the branch that would build the spec of a package.\<close>

definition package_check :: "file_system \<Rightarrow> (string \<times> object_id) list \<Rightarrow> string \<Rightarrow> string \<Rightarrow> unit rust" where
  "package_check FS loaders path tail =
     (if list_ex (\<lambda>(sfx, _). fs_is_file FS (path_join (path_join path tail) (''__init__'' @ sfx))) loaders
      then Inl TodoMacro else Inr ())"

fun scan_directory ::
  "file_system \<Rightarrow> string \<Rightarrow> (string \<times> object_id) list \<Rightarrow> string \<Rightarrow> string option list \<Rightarrow> (string \<times> string) list
    \<Rightarrow> (string \<times> string) list rust" where
  "scan_directory FS base loaders tail [] cache = Inr cache"
| "scan_directory FS base loaders tail (None # entries) cache = scan_directory FS base loaders tail entries cache"
| "scan_directory FS base loaders tail (Some name # entries) cache =
     (let path = path_join base name in
      and_then (if name = tail then package_check FS loaders path tail else Inr ()) (\<lambda>_.
      scan_directory FS base loaders tail entries (assoc_put name path cache)))"

text \<open>The loaders are tried by their suffix; when none fits the search ends in \<open>todo!\<close>.\<close>

fun try_loaders ::
  "'z import_host_scheme env \<Rightarrow> 'z import_host_scheme calls \<Rightarrow> string \<Rightarrow> object_id \<Rightarrow> string \<Rightarrow> (string \<times> string) list
    \<Rightarrow> (string \<times> object_id) list \<Rightarrow> ('z, object_id) iev" where
  "try_loaders E R base fullname tail cache [] = erust (Inl TodoMacro)"
| "try_loaders E R base fullname tail cache ((sfx, loader) # loaders) =
     (let partial = tail @ sfx in
      case map_of cache partial of
        None \<Rightarrow> try_loaders E R base fullname tail cache loaders
      | Some _ \<Rightarrow>
          ebind (estring E (path_join base partial)) (\<lambda>path.
          ebind (call_object E R loader [fullname, path]) (\<lambda>loader.
          insert_shared (ModuleSpecObj fullname loader))))"

definition file_finder_find_spec ::
  "file_system \<Rightarrow> 'z import_host_scheme env \<Rightarrow> 'z import_host_scheme calls \<Rightarrow> string \<Rightarrow> (string \<times> object_id) list
    \<Rightarrow> object_id \<Rightarrow> ('z, object_id) iev" where
  "file_finder_find_spec FS E R base loaders fullname =
     ebind (read_str (Inr (Inl ExcTypeError)) fullname) (\<lambda>fullname_st.
     let tail = last_segment CHR ''.'' fullname_st in
     case fs_read_dir FS base of
       Inl why \<Rightarrow> eraise (OsError why)
     | Inr entries \<Rightarrow>
         ebind (erust (scan_directory FS base loaders tail entries [])) (\<lambda>cache.
         try_loaders E R base fullname tail cache loaders))"

section \<open>Attributes and methods\<close>

text \<open>\<open>get_attribute\<close>; the default of the trait is an attribute error.\<close>

definition import_get_attribute :: "'z import_host_scheme env \<Rightarrow> import_object \<Rightarrow> object_id \<Rightarrow> ('z, object_id) iev" where
  "import_get_attribute E this attr =
     (case this of
        ModuleSpecObj name loader \<Rightarrow>
          ebind (estring E ''loader'') (\<lambda>loader_s.
          ebind (estring E ''name'') (\<lambda>name_s.
          if attr = loader_s then ereturn loader
          else if attr = name_s then ereturn name
          else eraise (AttributeError attr 0)))
      | _ \<Rightarrow> eraise (AttributeError attr 0))"

definition source_get_data :: "file_system \<Rightarrow> 'z import_host_scheme env \<Rightarrow> object_id \<Rightarrow> ('z, object_id) iev" where
  "source_get_data FS E path =
     ebind (read_str (Inl UnreachableCode) path) (\<lambda>path.
     ebind (erust (unwrap (fs_read_to_string FS path))) (\<lambda>source. estring E source))"

definition import_call_method ::
  "file_system \<Rightarrow> 'z import_host_scheme env \<Rightarrow> 'z import_host_scheme calls \<Rightarrow> import_object \<Rightarrow> object_id \<Rightarrow> object_id list
    \<Rightarrow> ('z, object_id) iev" where
  "import_call_method FS E R this name args =
     (let other = ebind (import_get_attribute E this name) (\<lambda>method. call_object E R method args) in
      case this of
        ModuleSpecObj _ _ \<Rightarrow> other
      | FileFinderObj base loaders \<Rightarrow>
          ebind (estring E ''find_spec'') (\<lambda>find_spec.
          if name = find_spec then
            ebind (eresult (args_opt_unboxed 1 2 args)) (\<lambda>(_, head, _).
            file_finder_find_spec FS E R base loaders (hd head))
          else other)
      | SourceFileLoaderObj path \<Rightarrow>
          ebind (estring E ''get_data'') (\<lambda>get_data.
          if name = get_data then source_get_data FS E path else other))"

section \<open>Native functions\<close>

definition new_source_file_loader :: "object_id list \<Rightarrow> ('z, object_id) iev" where
  "new_source_file_loader args =
     ebind (eresult (parse_args_with (args_unboxed 2) args)) (\<lambda>parsed.
     insert_shared (SourceFileLoaderObj (parsed ! 1)))"

text \<open>The path hook for directories.\<close>

definition path_hooks_for_file_finder ::
  "file_system \<Rightarrow> 'z import_host_scheme env \<Rightarrow> 'z import_host_scheme calls \<Rightarrow> object_id list \<Rightarrow> object_id \<Rightarrow> ('z, object_id) iev" where
  "path_hooks_for_file_finder FS E R args globals =
     ebind (eresult (parse_args_with (args_unboxed 1) args)) (\<lambda>parsed.
     ebind (read_str (Inr (Inl ExcTypeError)) (hd parsed)) (\<lambda>path.
     if \<not> fs_is_dir FS path then eraise ImportError
     else
       ebind (erust (unwrap (fs_canonicalize FS path))) (\<lambda>base.
       ecase (getattr E R globals [AttrStr ''SourceFileLoader'']) (\<lambda>r. case r of
         Inr source_loader \<Rightarrow> insert_shared (FileFinderObj base [(''.py'', source_loader)])
       | Inl e \<Rightarrow> if is_attribute_arror e then erust (Inl TodoMacro) else eraise e))))"

text \<open>The hooks of \<open>sys.path_hooks\<close> in order; an import error rejects the path.\<close>

fun try_hooks ::
  "'h env \<Rightarrow> 'h calls \<Rightarrow> object_id \<Rightarrow> object_id list \<Rightarrow> ('h, object_id) ev" where
  "try_hooks E R path [] = singleton_of sg_none_v"
| "try_hooks E R path (hook # hooks) =
     ecase (call_object E R hook [path]) (\<lambda>r. case r of
       Inl e \<Rightarrow> if is_import_error e then try_hooks E R path hooks else eraise e
     | Inr finder \<Rightarrow> ereturn finder)"

definition path_hooks :: "'h env \<Rightarrow> 'h calls \<Rightarrow> object_id \<Rightarrow> ('h, object_id) ev" where
  "path_hooks E R path =
     ebind (singleton_of sg_sys) (\<lambda>sys.
     ebind (getattr E R sys [AttrStr ''path_hooks'']) (\<lambda>hooks.
     ebind (iter_object hooks) (\<lambda>hooks. try_hooks E R path hooks)))"

definition get_path_from_importer_cache ::
  "file_system \<Rightarrow> 'h env \<Rightarrow> 'h calls \<Rightarrow> object_id \<Rightarrow> ('h, object_id) ev" where
  "get_path_from_importer_cache FS E R path =
     ebind (singleton_of sg_none_v) (\<lambda>none_v.
     ebind (estring E []) (\<lambda>empty.
     ebind (if path = empty then
              (case Option.bind (fs_current_dir FS) (fs_canonicalize FS) of
                 Some cwd \<Rightarrow> estring E cwd
               | None \<Rightarrow> ereturn none_v)
            else ereturn path) (\<lambda>path.
     path_hooks E R path)))"

text \<open>
  The entries of the path in order. A finder that answers ends the search; the branches for
  namespace packages and for an exhausted path are \<open>todo!\<close>.
\<close>

fun search_entries ::
  "file_system \<Rightarrow> 'h env \<Rightarrow> 'h calls \<Rightarrow> object_id \<Rightarrow> object_id \<Rightarrow> object_id option \<Rightarrow> object_id list \<Rightarrow> ('h, object_id) ev" where
  "search_entries FS E R fullname find_spec target [] = erust (Inl TodoMacro)"
| "search_entries FS E R fullname find_spec target (entry # entries) =
     ebind (singleton_of sg_none_v) (\<lambda>none_v.
     ebind (get_path_from_importer_cache FS E R entry) (\<lambda>finder.
     if finder = none_v then search_entries FS E R fullname find_spec target entries
     else
       ebind (call_method_object E finder find_spec [fullname, (case target of None \<Rightarrow> none_v | Some t \<Rightarrow> t)]) (\<lambda>spec.
       if spec = none_v then search_entries FS E R fullname find_spec target entries
       else
         ebind (getattr E R spec [AttrStr ''loader'']) (\<lambda>spec_loader.
         if spec_loader \<noteq> none_v then ereturn spec else erust (Inl TodoMacro)))))"

definition get_spec ::
  "file_system \<Rightarrow> 'h env \<Rightarrow> 'h calls \<Rightarrow> object_id \<Rightarrow> object_id \<Rightarrow> object_id option \<Rightarrow> ('h, object_id) ev" where
  "get_spec FS E R fullname path target =
     ebind (estring E ''find_spec'') (\<lambda>find_spec.
     ebind (iter_object path) (\<lambda>entries. search_entries FS E R fullname find_spec target entries))"

definition path_finder_find_spec :: "file_system \<Rightarrow> 'h env \<Rightarrow> 'h calls \<Rightarrow> object_id list \<Rightarrow> ('h, object_id) ev" where
  "path_finder_find_spec FS E R args =
     ebind (singleton_of sg_none_v) (\<lambda>none_v.
     ebind (eresult (parse_args_with (args_opt_unboxed 1 2) args)) (\<lambda>(head, opts).
     ebind (case opts ! 0 of
         Some p \<Rightarrow> if p = none_v then ebind (singleton_of sg_sys) (\<lambda>sys. getattr E R sys [AttrStr ''path'']) else ereturn p
       | None \<Rightarrow> ebind (singleton_of sg_sys) (\<lambda>sys. getattr E R sys [AttrStr ''path''])) (\<lambda>path.
     ebind (get_spec FS E R (hd head) path (opts ! 1)) (\<lambda>spec.
     if spec = none_v then ereturn none_v
     else
       ebind (getattr E R spec [AttrStr ''loader'']) (\<lambda>loader.
       if loader = none_v then erust (Inl TodoMacro) else ereturn spec)))))"

section \<open>Installation\<close>

definition native_source_file_loader :: native_id where
  "native_source_file_loader = 0"

definition native_path_hook :: native_id where
  "native_path_hook = 1"

definition native_find_spec :: native_id where
  "native_find_spec = 2"

definition module_attrs :: "py_value \<Rightarrow> (object_id \<times> object_id) py_dict rust" where
  "module_attrs v = (case v of PvModule _ inner \<Rightarrow> Inr (ro_dict inner) | _ \<Rightarrow> Inl UnreachableCode)"

definition dict_attr :: "(hash_key \<Rightarrow> u64) \<Rightarrow> (object_id \<times> object_id) py_dict \<Rightarrow> string \<Rightarrow> object_id rust" where
  "dict_attr hash d name = and_then (unwrap (py_dict_get d (hash (HStr name)))) (\<lambda>kv. Inr (snd kv))"

definition list_extend :: "object_id list \<Rightarrow> py_value \<Rightarrow> py_value rust" where
  "list_extend xs v = (case v of PvList l \<Rightarrow> Inr (PvList (l @ xs)) | _ \<Rightarrow> Inl UnreachableCode)"

definition dict_put :: "u64 \<Rightarrow> object_id \<times> object_id \<Rightarrow> py_value \<Rightarrow> py_value rust" where
  "dict_put h kv v = (case v of PvDict d \<Rightarrow> Inr (PvDict (assoc_put h kv d)) | _ \<Rightarrow> Inl UnreachableCode)"

definition class_put :: "u64 \<Rightarrow> object_id \<times> object_id \<Rightarrow> py_value \<Rightarrow> py_value rust" where
  "class_put h kv v =
     (case v of PvClass n p inner \<Rightarrow> Inr (PvClass n p (inner\<lparr>ro_dict := assoc_put h kv (ro_dict inner)\<rparr>)) | _ \<Rightarrow> Inl UnreachableCode)"

text \<open>\<open>import::setup\<close>, on the module object of \<^verbatim>\<open>importlib._bootstrap\<close>.\<close>

definition import_setup :: "(hash_key \<Rightarrow> u64) \<Rightarrow> object_id \<Rightarrow> runtime \<Rightarrow> runtime rust" where
  "import_setup hash module rt =
     (let sys = sg_sys (rt_singletons rt) in
      and_then (and_then (with_object sys module_attrs (rt_objects rt)) (\<lambda>r. r)) (\<lambda>sys_dict.
      and_then (dict_attr hash sys_dict ''modules'') (\<lambda>sys_modules.
      and_then (make_kv_pair hash ''importlib._bootstrap'' (\<lambda>rt. Inr (module, rt)) rt) (\<lambda>((h, kv), rt).
      and_then (rt_update sys_modules (dict_put h kv) rt) (\<lambda>rt.
      and_then (and_then (with_object module module_attrs (rt_objects rt)) (\<lambda>r. r)) (\<lambda>module_dict.
      and_then (make_kv_pair hash ''SourceFileLoader'' (new_callable (FnBoxed native_source_file_loader None)) rt) (\<lambda>((h, kv), rt).
      let module_dict = assoc_put h kv module_dict in
      and_then (dict_attr hash sys_dict ''meta_path'') (\<lambda>sys_meta_path.
      and_then (dict_attr hash module_dict ''PathFinder'') (\<lambda>path_finder_class.
      and_then (rt_update sys_meta_path (list_extend [path_finder_class]) rt) (\<lambda>rt.
      and_then (dict_attr hash sys_dict ''path_hooks'') (\<lambda>sys_path_hooks.
      and_then (new_callable (FnNative native_path_hook (Some (HookGlobals module))) rt) (\<lambda>(hook, rt).
      and_then (rt_update sys_path_hooks (list_extend [hook]) rt) (\<lambda>rt.
      and_then (make_kv_pair hash ''find_spec'' (new_callable (FnBoxed native_find_spec None)) rt) (\<lambda>((h, kv), rt).
      and_then (rt_update path_finder_class (class_put h kv) rt) (\<lambda>rt.
      rt_update module (set_module_dict module_dict) rt)))))))))))))))"

section \<open>The import instruction's host side\<close>

text \<open>The finders of \<open>sys.meta_path\<close> in order.\<close>

fun try_finders :: "'h env \<Rightarrow> object_id \<Rightarrow> object_id \<Rightarrow> object_id \<Rightarrow> object_id list \<Rightarrow> ('h, object_id option) ev" where
  "try_finders E find_spec name_s none_v [] = ereturn None"
| "try_finders E find_spec name_s none_v (elem # elems) =
     ebind (call_method_object E elem find_spec [name_s, none_v, none_v]) (\<lambda>spec.
     if spec = none_v then try_finders E find_spec name_s none_v elems else ereturn (Some spec))"

text \<open>The dictionary of the module \<open>sys\<close> and the value of one of its names.\<close>

definition sys_attr :: "'h env \<Rightarrow> string \<Rightarrow> ('h, object_id) ev" where
  "sys_attr E name =
     ebind (singleton_of sg_sys) (\<lambda>sys.
     ebind (read_object sys (\<lambda>v. and_then (module_attrs v) (\<lambda>d. Inr (Inr d)))) (\<lambda>sys_dict.
     erust (dict_attr (env_hash E) sys_dict name)))"

definition host_find_spec :: "'h env \<Rightarrow> string \<Rightarrow> ('h, object_id option) ev" where
  "host_find_spec E name =
     ebind (singleton_of sg_none_v) (\<lambda>none_v.
     ebind (sys_attr E ''meta_path'') (\<lambda>sys_meta_path.
     ebind (iter_object sys_meta_path) (\<lambda>meta_path.
     ebind (estring E ''find_spec'') (\<lambda>find_spec.
     ebind (estring E name) (\<lambda>name_s.
     try_finders E find_spec name_s none_v meta_path)))))"

definition modules_get :: "'h env \<Rightarrow> (inner_exc + object_id option) rust \<Rightarrow> object_id \<Rightarrow> string \<Rightarrow> ('h, object_id option) ev" where
  "modules_get E other sys_modules name =
     read_object sys_modules (\<lambda>v. case v of
         PvDict d \<Rightarrow> Inr (Inr (map_option snd (py_dict_get d (env_hash E (HStr name)))))
       | _ \<Rightarrow> other)"

lemma rsplit_once_shorter: "rsplit_once c s = Some (parent, child) \<Longrightarrow> length parent < length s"
proof -
  assume a: "rsplit_once c s = Some (parent, child)"
  then have c: "c \<in> set (rev s)" by (auto simp: rsplit_once_def split: if_splits)
  then have "dropWhile (\<lambda>x. x \<noteq> c) (rev s) \<noteq> []" by (auto simp: dropWhile_eq_Nil_conv)
  moreover have "length (dropWhile (\<lambda>x. x \<noteq> c) (rev s)) \<le> length s" by (metis length_dropWhile_le length_rev)
  ultimately have "length (tl (dropWhile (\<lambda>x. x \<noteq> c) (rev s))) < length s" by (cases "dropWhile (\<lambda>x. x \<noteq> c) (rev s)") auto
  with a show ?thesis by (auto simp: rsplit_once_def split: if_splits)
qed

function gcd_import :: "'h env \<Rightarrow> string \<Rightarrow> ('h, object_id) ev" where
  "gcd_import E name =
     ebind (sys_attr E ''modules'') (\<lambda>sys_modules.
     case rsplit_once CHR ''.'' name of
       Some (parent, _) \<Rightarrow>
         ebind (modules_get E (Inl UnreachableCode) sys_modules parent) (\<lambda>parent_in_sys_modules.
         ebind (case parent_in_sys_modules of
             Some module \<Rightarrow> ereturn module
           | None \<Rightarrow> gcd_import E parent) (\<lambda>_.
         ebind (modules_get E (Inr (Inr None)) sys_modules name) (\<lambda>module. case module of
             Some module \<Rightarrow> ereturn module
           | None \<Rightarrow> erust (Inl TodoMacro))))
     | None \<Rightarrow>
         ebind (host_find_spec E name) (\<lambda>spec. case spec of
           Some spec \<Rightarrow> ereturn spec
         | None \<Rightarrow> eraise ImportError))"
  by pat_completeness auto
termination by (relation "measure (\<lambda>(_, name). length name)") (auto simp: rsplit_once_shorter)

fun join_dots :: "string list \<Rightarrow> string" where
  "join_dots [] = []"
| "join_dots [s] = s"
| "join_dots (s # ss) = s @ ''.'' @ join_dots ss"

text \<open>
  \<open>SessionContext::import_module_spec\<close>. The map of static names is indexed with the group of the
  first name.
\<close>

definition import_module_spec :: "(u32 \<times> string) list \<Rightarrow> 'h env \<Rightarrow> span_ref list \<Rightarrow> nat \<Rightarrow> ('h, object_id) ev" where
  "import_module_spec statics E path relative =
     ebind (eget (\<lambda>s. join_dots (map (env_spanref_to_str E (ec_host s)) path))) (\<lambda>name.
     ebind (if relative \<noteq> 0 then
              (case path of
                 [] \<Rightarrow> ereturn False
               | head # _ \<Rightarrow>
                   (case map_of statics (span_group head) of
                      None \<Rightarrow> erust (Inl IndexOutOfBounds)
                    | Some st \<Rightarrow> ereturn (st = ''__monty'')))
            else ereturn True) (\<lambda>supported.
     if \<not> supported then eraise ImportError
     else if name = ''__monty'' then singleton_of sg_monty
     else gcd_import E name))"

section \<open>The environment of the interpreter\<close>

text \<open>
  What the identifiers of native functions and objects stand for: those of the import system, and
  otherwise what the environment \<open>B\<close> says. Native functions call back into the interpreter, at most
  \<open>n\<close> deep.
\<close>

definition import_object_at :: "shared_id \<Rightarrow> ('z, import_object option) iev" where
  "import_object_at n = eget (\<lambda>s. get_at (ih_objects (ec_host s)) n)"

definition import_native ::
  "file_system \<Rightarrow> 'z import_host_scheme env \<Rightarrow> 'z import_host_scheme env \<Rightarrow> 'z import_host_scheme calls
    \<Rightarrow> native_id \<Rightarrow> object_id list \<Rightarrow> object_id \<Rightarrow> ('z, object_id) iev" where
  "import_native FS B E R f args globals =
     (if f = native_source_file_loader then new_source_file_loader args
      else if f = native_path_hook then path_hooks_for_file_finder FS E R args globals
      else if f = native_find_spec then path_finder_find_spec FS E R args
      else env_native B f args globals)"

fun import_env ::
  "file_system \<Rightarrow> (u32 \<times> string) list \<Rightarrow> 'z import_host_scheme env \<Rightarrow> nat \<Rightarrow> 'z import_host_scheme env" where
  "import_env FS statics B 0 =
     B\<lparr>env_native := (\<lambda>_ _ _ _. None), env_call := (\<lambda>_ _ _ _. None), env_get_attribute := (\<lambda>_ _ _. None), env_call_method := (\<lambda>_ _ _ _. None),
       env_import_module_spec := (\<lambda>_ _ _ _. None)\<rparr>"
| "import_env FS statics B (Suc n) =
     (let E = import_env FS statics B n; R = interp E n in
      B\<lparr>env_native := import_native FS B E R,
        env_call := (\<lambda>ob args none_v. ebind (import_object_at ob) (\<lambda>x. case x of
            Some x \<Rightarrow> eraise ExcTypeError | None \<Rightarrow> env_call B ob args none_v)),
        env_get_attribute := (\<lambda>ob attr. ebind (import_object_at ob) (\<lambda>x. case x of
            Some x \<Rightarrow> import_get_attribute E x attr | None \<Rightarrow> env_get_attribute B ob attr)),
        env_call_method := (\<lambda>ob name args. ebind (import_object_at ob) (\<lambda>x. case x of
            Some x \<Rightarrow> import_call_method FS E R x name args | None \<Rightarrow> env_call_method B ob name args)),
        env_import_module_spec := (\<lambda>mref path relative. import_module_spec statics E path relative)\<rparr>)"

end
