(* ===== verification/Session.thy ===== *)
theory Session
  imports Backend ImportSystem ParseStmt TokenIter Lower
begin

text \<open>
  The session of the driver: the options (\<^verbatim>\<open>montyc_core/src/opts.rs\<close>), the host of the interpreter
  (\<^verbatim>\<open>montyc_driver/src/global_context/host.rs\<close>), and loading, evaluating and finding modules, up to the
  initialization of a session (\<^verbatim>\<open>global_context/mod.rs\<close>). This theory ties the parser, the lowering, the
  interpreter, value discovery and the import system together.

  \<^item> The world outside is the record \<open>world\<close>: the file system, what \<open>logos\<close> recognises in a text, nom,
    the hash functions and the orders of hash tables.
  \<^item> The reference cells and locks around the parts of the session are left out, as is log output. An
    error loses the session: the callers print it and exit.
  \<^item> \<open>None\<close> is a run of the interpreter that needs more than \<open>w_fuel\<close>.
\<close>

section \<open>Text and paths\<close>

text \<open>
  Two paths are equal when \<open>Path::components\<close> agrees: repeated and trailing separators do not count,
  nor do dots after the first component.
\<close>

definition path_components :: "string \<Rightarrow> string list" where
  "path_components p =
     (let parts = split_char CHR ''/'' p; kept = filter (\<lambda>s. s \<noteq> [] \<and> s \<noteq> ''.'') parts in
      if p \<noteq> [] \<and> hd p = CHR ''/'' then ''/'' # kept else if hd parts = ''.'' then ''.'' # kept else kept)"

definition path_eq :: "string \<Rightarrow> string \<Rightarrow> bool" where
  "path_eq p q \<longleftrightarrow> path_components p = path_components q"

definition file_stem :: "string \<Rightarrow> string option" where
  "file_stem p =
     (case path_components p of
        [] \<Rightarrow> None
      | cs \<Rightarrow>
          (let name = last cs in
           if name \<in> {''/'', ''..'', ''.''} then None
           else Some (case rsplit_once CHR ''.'' name of Some (before, _) \<Rightarrow> if before = [] then name else before | None \<Rightarrow> name)))"

section \<open>Options\<close>

datatype compiler_options =
    OptCheck (co_libstd: string) (co_input: string)
  | OptBuild (co_entry: string) (co_libstd: string) (co_input: string) (co_output: string) (co_show_ir: "string option")
      (co_cc: "string option") (co_ld: "string option") (co_settings: "string list")

datatype option_error = PathMissing string string | PathUnresolved string string

definition check_if_path_exists :: "file_system \<Rightarrow> string \<Rightarrow> string \<Rightarrow> option_error + string" where
  "check_if_path_exists FS path field =
     (case fs_canonicalize FS path of
        None \<Rightarrow> Inl (PathUnresolved field path)
      | Some p \<Rightarrow> if fs_exists FS p then Inr p else Inl (PathMissing field p))"

definition set_libstd :: "string \<Rightarrow> compiler_options \<Rightarrow> compiler_options" where
  "set_libstd p opts =
     (case opts of
        OptCheck _ input \<Rightarrow> OptCheck p input
      | OptBuild entry _ input output show_ir cc ld settings \<Rightarrow> OptBuild entry p input output show_ir cc ld settings)"

definition path_errors :: "file_system \<Rightarrow> string \<Rightarrow> string \<Rightarrow> option_error list" where
  "path_errors FS path field = (case check_if_path_exists FS path field of Inl e \<Rightarrow> [e] | Inr _ \<Rightarrow> [])"

definition tool_errors :: "file_system \<Rightarrow> compiler_options \<Rightarrow> option_error list" where
  "tool_errors FS opts =
     (case opts of
        OptCheck _ _ \<Rightarrow> []
      | OptBuild _ _ _ _ _ cc ld _ \<Rightarrow>
          (case cc of None \<Rightarrow> [] | Some p \<Rightarrow> path_errors FS p ''the specified C compiler'')
          @ (case ld of None \<Rightarrow> [] | Some p \<Rightarrow> path_errors FS p ''the specified linker''))"

definition verify_options :: "file_system \<Rightarrow> compiler_options \<Rightarrow> option_error list + compiler_options" where
  "verify_options FS opts =
     (let (errors, opts) = (case check_if_path_exists FS (co_libstd opts) ''the standard library'' of
            Inl e \<Rightarrow> ([e], opts) | Inr p \<Rightarrow> ([], set_libstd p opts));
          errors = errors @ path_errors FS (path_join (co_libstd opts) ''builtins.py'') ''the builtins module''
            @ path_errors FS (co_input opts) ''the provided input file'' @ tool_errors FS opts
      in if errors \<noteq> [] then Inl errors else Inr opts)"

section \<open>The session\<close>

record module_data =
  md_path :: string
  md_name :: string
  md_mref :: module_ref
  md_qualname :: "string list"

text \<open>What the interpreter can change of its host: the objects it creates and the span interner.\<close>

record session_host = import_host +
  sh_spanner :: span_interner

record ('vg, 'cg) gcx =
  gc_opts :: compiler_options
  gc_static_names :: "(u32 \<times> string) list"
  gc_modules :: "module_data ssamap"
  gc_module_sources :: "(module_ref \<times> string) list"
  gc_module_asts :: "(module_ref \<times> module) list"
  gc_runtime :: runtime
  gc_host :: session_host
  gc_session :: "('vg, 'cg) session"
  gc_dirty :: bool

record ('vg, 'g, 'cg) world =
  w_files :: file_system
  w_lex :: "string \<Rightarrow> (py_token \<times> span) list"
  w_nom :: nom
  w_hash_str :: "string \<Rightarrow> u64"
  w_call :: "('vg, 'g, 'cg) call_cx"
  w_orders :: orders
  w_repr :: "shared_id \<Rightarrow> string"
  w_fuel :: nat

type_synonym ('vg, 'cg, 'a) act = "('vg, 'cg) gcx \<Rightarrow> ('a \<times> ('vg, 'cg) gcx) monty option"

abbreviation gc_spanner :: "('vg, 'cg) gcx \<Rightarrow> span_interner" where
  "gc_spanner cx \<equiv> sh_spanner (gc_host cx)"

abbreviation gc_values :: "('vg, 'cg) gcx \<Rightarrow> ('vg, 'cg) value_store" where
  "gc_values cx \<equiv> ss_values (gc_session cx)"

abbreviation w_graph :: "('vg, 'g, 'cg) world \<Rightarrow> ('vg, value_rec, unit) graph_ops" where
  "w_graph W \<equiv> dr_graph (cc_driver (w_call W))"

abbreviation w_vs_hash :: "('vg, 'g, 'cg) world \<Rightarrow> assoc_key \<Rightarrow> u64" where
  "w_vs_hash W \<equiv> dr_hash (cc_driver (w_call W))"

abbreviation w_rt_hash :: "('vg, 'g, 'cg) world \<Rightarrow> hash_key \<Rightarrow> u64" where
  "w_rt_hash W \<equiv> cc_rt_hash (w_call W)"

definition session_new :: "('vg, 'g, 'cg) world \<Rightarrow> compiler_options \<Rightarrow> ('vg, 'cg) gcx rust" where
  "session_new W opts =
     and_then td_initialized (\<lambda>td.
     Inr \<lparr>gc_opts = opts, gc_static_names = [], gc_modules = ssa_new, gc_module_sources = [], gc_module_asts = [],
       gc_runtime = new_uninit, gc_host = \<lparr>ih_objects = [], sh_spanner = interner_new\<rparr>,
       gc_session = \<lparr>ss_types = td, ss_values = vs_default (w_graph W)\<rparr>, gc_dirty = False\<rparr>)"

section \<open>Names\<close>

definition resolve_sref_as_str ::
  "(u32 \<times> string) list \<Rightarrow> (module_ref \<times> string) list \<Rightarrow> span_interner \<Rightarrow> span_ref \<Rightarrow> string option" where
  "resolve_sref_as_str statics sources si sref =
     spanref_to_str (\<lambda>mref rng.
       if mref = ModuleRef 0 then map_of statics (span_group sref)
       else Option.bind (map_of sources mref) (\<lambda>source. str_get source rng)) si sref"

text \<open>The first reference of a group that has a text.\<close>

definition host_spangroup_to_str ::
  "(u32 \<times> string) list \<Rightarrow> (module_ref \<times> string) list \<Rightarrow> span_interner \<Rightarrow> u32 \<Rightarrow> string rust" where
  "host_spangroup_to_str statics sources si grp =
     and_then (unwrap (spanrefs_of_group si grp)) (\<lambda>srefs.
     (case List.map_filter (resolve_sref_as_str statics sources si) srefs of
        [] \<Rightarrow> Inl UnreachableCode
      | s # _ \<Rightarrow> Inr s))"

definition session_spangroup_of_hash :: "(string \<Rightarrow> u64) \<Rightarrow> u64 \<Rightarrow> string \<Rightarrow> span_interner \<Rightarrow> (u32 \<times> span_interner) rust" where
  "session_spangroup_of_hash hash_str h s si =
     (case spangroup_of_hash si h of
        Some g \<Rightarrow> Inr (g, si)
      | None \<Rightarrow> and_then (interner_insert hash_str s (ModuleRef 0) (0, length s) si) (\<lambda>(sref, si'). Inr (span_group sref, si')))"

section \<open>The module \<open>__monty\<close>\<close>

definition native_intrinsic :: native_id where
  "native_intrinsic = 3"

definition native_extern :: native_id where
  "native_extern = 4"

text \<open>The decorator that \<open>extern\<close> returns is a closure over the object of the calling convention.\<close>

definition native_extern_decorator :: "object_id \<Rightarrow> native_id" where
  "native_extern_decorator callconv = 5 + unat callconv"

text \<open>\<open>map_value\<close>: the value of the argument is read before surplus arguments are rejected.\<close>

definition parse_object_map :: "(object_id \<Rightarrow> py_value \<Rightarrow> 'b) \<Rightarrow> object_id list \<Rightarrow> ('h, 'b) ev" where
  "parse_object_map f args =
     ebind (erust (unwrap (argument args))) (\<lambda>(rem, obs).
     ebind (read_object (hd obs) (\<lambda>v. Inr (Inr (f (hd obs) v)))) (\<lambda>x.
     if rem \<noteq> [] then eraise ExcTypeError else ereturn x))"

definition monty_extern :: "object_id list \<Rightarrow> ('h, object_id) ev" where
  "monty_extern args =
     ebind (parse_object_map (\<lambda>ob v. case v of PvStr s \<Rightarrow> Inr (ob, s) | _ \<Rightarrow> Inl ob) args) (\<lambda>r.
     (case r of
        Inl _ \<Rightarrow> eraise ExcTypeError
      | Inr (callconv, _) \<Rightarrow> ert (rt_insert (PvCallable (FnBoxed (native_extern_decorator callconv) None)))))"

definition set_function_dict :: "u64 \<Rightarrow> object_id \<times> object_id \<Rightarrow> py_value \<Rightarrow> py_value rust" where
  "set_function_dict h kv v =
     (case v of
        PvFunction body params parent rets inner \<Rightarrow>
          Inr (PvFunction body params parent rets (inner\<lparr>ro_dict := assoc_put h kv (ro_dict inner)\<rparr>))
      | _ \<Rightarrow> Inl UnreachableCode)"

definition monty_extern_decorator :: "(hash_key \<Rightarrow> u64) \<Rightarrow> object_id \<Rightarrow> object_id list \<Rightarrow> ('h, object_id) ev" where
  "monty_extern_decorator hash callconv args =
     ebind (erust (parse_args_v2 argument args)) (\<lambda>r.
     ebind (eresult r) (\<lambda>obs.
     ebind (ert (new_string hash ''__extern__'')) (\<lambda>extern_slot.
     ebind (read_object (hd obs) (\<lambda>v. case v of PvFunction _ _ _ _ _ \<Rightarrow> Inr (Inr ()) | _ \<Rightarrow> Inr (Inl ExcTypeError))) (\<lambda>_.
     ebind (ert_update (rt_update (hd obs) (set_function_dict (hash (HStr ''__extern__'')) (extern_slot, callconv)))) (\<lambda>_.
     ereturn (hd obs))))))"

definition monty_native :: "(hash_key \<Rightarrow> u64) \<Rightarrow> native_id \<Rightarrow> object_id list \<Rightarrow> object_id \<Rightarrow> ('h, object_id) ev" where
  "monty_native hash f args globals =
     (if f = native_intrinsic then (case args of a # _ \<Rightarrow> ereturn a | [] \<Rightarrow> erust (Inl IndexOutOfBounds))
      else if f = native_extern then monty_extern args
      else if 5 \<le> f then monty_extern_decorator hash (word_of_nat (f - 5)) args
      else erust (Inl UnreachableCode))"

definition monty_module :: object_builder where
  "monty_module =
     builder_setattr ''extern'' (PvCallable (FnBoxed native_extern None))
       (builder_setattr ''intrinsic'' (PvCallable (FnBoxed native_intrinsic None)) [])"

section \<open>The host of the interpreter\<close>

text \<open>
  Names that the host cannot resolve are outside the model of the interpreter: there the code
  panics, and the text is empty here. Objects are those of the import system.
\<close>

definition session_base_env ::
  "('vg, 'g, 'cg) world \<Rightarrow> (u32 \<times> string) list \<Rightarrow> (module_ref \<times> string) list \<Rightarrow> session_host env" where
  "session_base_env W statics sources =
     \<lparr>env_hash = w_rt_hash W,
      env_spanref_to_str = (\<lambda>h r. case resolve_sref_as_str statics sources (sh_spanner h) r of Some s \<Rightarrow> s | None \<Rightarrow> []),
      env_spangroup_to_str = (\<lambda>h g. case host_spangroup_to_str statics sources (sh_spanner h) g of Inr s \<Rightarrow> s | Inl _ \<Rightarrow> []),
      env_spangroup_of_hash = (\<lambda>n s h. case session_spangroup_of_hash (w_hash_str W) n s (sh_spanner h) of
         Inr (g, si) \<Rightarrow> (g, h\<lparr>sh_spanner := si\<rparr>) | Inl _ \<Rightarrow> (0, h)),
      env_import_module_spec = (\<lambda>_ _ _. erust (Inl UnreachableCode)),
      env_accept_input = (\<lambda>_ h. (None, h)),
      env_native = monty_native (w_rt_hash W),
      env_call = (\<lambda>_ _ _. erust (Inl UnreachableCode)),
      env_get_attribute = (\<lambda>_ _. erust (Inl UnreachableCode)),
      env_call_method = (\<lambda>_ _ _. erust (Inl UnreachableCode)),
      env_repr = (\<lambda>ob. ert (new_string (w_rt_hash W) (w_repr W ob)))\<rparr>"

definition session_env ::
  "('vg, 'g, 'cg) world \<Rightarrow> (u32 \<times> string) list \<Rightarrow> (module_ref \<times> string) list \<Rightarrow> session_host env" where
  "session_env W statics sources = import_env (w_files W) statics (session_base_env W statics sources) (w_fuel W)"

section \<open>Loading modules\<close>

text \<open>Parsing a text as a module; the tokens are what the iterator makes of the lexer's.\<close>

definition parse_source :: "('vg, 'g, 'cg) world \<Rightarrow> string \<Rightarrow> module_ref \<Rightarrow> span_interner \<Rightarrow> (module \<times> span_interner) rust option" where
  "parse_source W source mref si =
     (let (tokens, si') = iter_tokens (w_hash_str W) source mref (w_lex W source) si in
      map_option (\<lambda>r. and_then r (\<lambda>ast. Inr (ast, si'))) (ParseStmt.parse_module (w_nom W) (length tokens) tokens))"

definition reserve_module :: "('vg, 'cg) gcx \<Rightarrow> nat \<times> module_ref \<times> ('vg, 'cg) gcx" where
  "reserve_module cx =
     (case ssa_reserve (gc_modules cx) of (ix, ms) \<Rightarrow> (ix, ModuleRef (word_of_nat ix), cx\<lparr>gc_modules := ms\<rparr>))"

definition store_source :: "module_ref \<Rightarrow> string \<Rightarrow> module \<Rightarrow> ('vg, 'cg) gcx \<Rightarrow> ('vg, 'cg) gcx" where
  "store_source mref source ast cx =
     cx\<lparr>gc_module_sources := assoc_put mref source (gc_module_sources cx), gc_module_asts := assoc_put mref ast (gc_module_asts cx)\<rparr>"

definition session_parse_module ::
  "('vg, 'g, 'cg) world \<Rightarrow> string \<Rightarrow> string \<Rightarrow> string \<Rightarrow> ('vg, 'cg, module_ref) act" where
  "session_parse_module W source path module_name cx =
     (case reserve_module cx of (_, mref, cx) \<Rightarrow>
      qbind (map_option lift_panic (parse_source W source mref (gc_spanner cx))) (\<lambda>(ast, si).
      qbind (qrust (unwrap (file_stem path))) (\<lambda>stem.
      let cx = store_source mref source ast (cx\<lparr>gc_host := (gc_host cx)\<lparr>sh_spanner := si\<rparr>\<rparr>);
          module = \<lparr>md_path = path, md_name = module_name, md_mref = mref, md_qualname = [stem]\<rparr>
      in (case ssa_try_set_value (unat (module_ref_raw mref)) module (gc_modules cx) of
            Inl _ \<Rightarrow> Some (Inl (Panicked UnwrapNone))
          | Inr ms \<Rightarrow> Some (Inr (mref, cx\<lparr>gc_modules := ms\<rparr>))))))"

definition path_loaded :: "string \<Rightarrow> ('vg, 'cg) gcx \<Rightarrow> bool" where
  "path_loaded path cx \<longleftrightarrow> list_ex (\<lambda>(_, md). path_eq (md_path md) path) (ssa_iter (gc_modules cx))"

text \<open>The reason why a file cannot be read is not part of the file system's model.\<close>

definition load_module_with ::
  "('vg, 'g, 'cg) world \<Rightarrow> string \<Rightarrow> string \<Rightarrow> (module_ref \<Rightarrow> ('vg, 'cg, 'a) act) \<Rightarrow> ('vg, 'cg, 'a) act" where
  "load_module_with W path module_name f cx =
     (if path_loaded path cx then Some (Inl (Failed (MontyIO ''AlreadyExists'')))
      else
        (case fs_read_to_string (w_files W) path of
           None \<Rightarrow> Some (Inl (Failed (MontyIO ''read'')))
         | Some source \<Rightarrow> qbind (session_parse_module W source path module_name cx) (\<lambda>(mref, cx). f mref cx)))"

section \<open>Evaluating modules\<close>

text \<open>\<open>AstNode::visit_with\<close>, and \<open>ast_to_flatcode\<close> for such a node, which has no span.\<close>

definition visit_ast_node :: "ast_node \<Rightarrow> span option \<Rightarrow> nat lower" where
  "visit_ast_node node sp =
     (case node of
        NPass \<Rightarrow> visit_pass
      | NImport i \<Rightarrow> visit_import i sp
      | NClassDef c \<Rightarrow> visit_with_class_def c sp
      | NFuncDef f \<Rightarrow> visit_with_function_def f sp
      | NIf c \<Rightarrow> visit_with_if_chain c sp
      | NAssign a \<Rightarrow> visit_with_assign a sp
      | NRet r \<Rightarrow> visit_with_return r sp
      | NStr a \<Rightarrow> visit_with_atom a sp
      | _ \<Rightarrow> llift (Inl TodoMacro))"

definition node_to_flatcode :: "module_ref \<Rightarrow> ast_node \<Rightarrow> flat_code rust" where
  "node_to_flatcode mref node = and_then (visit_ast_node node None (flatcode_new (mref, (0, 0)))) (\<lambda>(_, fc). Inr fc)"

text \<open>A module that has a value must have its code or syntax tree recorded with the value.\<close>

definition get_module_flatcode :: "('vg, 'g, 'cg) world \<Rightarrow> ('vg, 'cg) gcx \<Rightarrow> module_ref \<Rightarrow> flat_code rust" where
  "get_module_flatcode W cx mref =
     (let key = AssocKey (ModuleKey mref) in
      if vs_contains (w_graph W) (w_vs_hash W) (gc_values cx) key then
        and_then (unwrap (with_metadata (w_graph W) (w_vs_hash W) key (\<lambda>m. (vm_flatcode m, vm_ast m)) (gc_values cx))) (\<lambda>m.
        (case m of
           (Some (_, Some code), _) \<Rightarrow> Inr code
         | (_, Some ast) \<Rightarrow> node_to_flatcode mref ast
         | _ \<Rightarrow> Inl PanicMacro))
      else and_then (unwrap (map_of (gc_module_asts cx) mref)) (ast_to_flatcode mref))"

definition session_eval_module :: "('vg, 'g, 'cg) world \<Rightarrow> module_ref \<Rightarrow> ('vg, 'cg, object_id) act" where
  "session_eval_module W mref cx =
     (let E = session_env W (gc_static_names cx) (gc_module_sources cx) in
      qbind (qrust (get_module_flatcode W cx mref)) (\<lambda>code.
      qbind (qrust (eval (E\<lparr>env_accept_input := (\<lambda>_ h. (Some code, h))\<rparr>) [] (gc_runtime cx) (gc_host cx))) (\<lambda>ecx.
      (case ecx of
         None \<Rightarrow> Some (Inl (Panicked TodoMacro))
       | Some ecx \<Rightarrow>
           (case run_until_complete E (w_fuel W) (set_upper_tick_bound (Some 0x1000) ecx) of
              None \<Rightarrow> None
            | Some (Inl p) \<Rightarrow> Some (Inl (Panicked p))
            | Some (Inr (Inl _, _)) \<Rightarrow> Some (Inl (Panicked TodoMacro))
            | Some (Inr (Inr ob, s)) \<Rightarrow>
                Some (Inr (ob, cx\<lparr>gc_runtime := ec_rt s, gc_host := ec_host s, gc_dirty := True\<rparr>)))))))"

definition session_stir :: "('vg, 'g, 'cg) world \<Rightarrow> ('vg, 'cg, unit) act" where
  "session_stir W cx =
     qbind (qrust (stir_the_pot (w_graph W) (w_vs_hash W) (w_hash_str W) (w_orders W) (rt_objects (gc_runtime cx))
         (gc_dirty cx, gc_values cx, gc_spanner cx))) (\<lambda>(dirty, st, si).
     Some (Inr ((), cx\<lparr>gc_dirty := dirty, gc_session := (gc_session cx)\<lparr>ss_values := st\<rparr>, gc_host := (gc_host cx)\<lparr>sh_spanner := si\<rparr>\<rparr>)))"

definition evaluate_module :: "('vg, 'g, 'cg) world \<Rightarrow> module_ref \<Rightarrow> ('vg, 'cg, module_ref \<times> object_id) act" where
  "evaluate_module W mref cx =
     qbind (session_eval_module W mref cx) (\<lambda>(module, cx).
     qbind (session_stir W cx) (\<lambda>(_, cx).
     qbind (qrust (unwrap (with_metadata (w_graph W) (w_vs_hash W) (object_key module) vm_value_ix (gc_values cx)))) (\<lambda>module_value.
     Some (Inr ((mref, module), cx\<lparr>gc_session := (gc_session cx)\<lparr>ss_values := vs_assoc (w_vs_hash W) (ModuleKey mref) module_value (gc_values cx)\<rparr>\<rparr>)))))"

definition include_module :: "('vg, 'g, 'cg) world \<Rightarrow> string \<Rightarrow> string \<Rightarrow> ('vg, 'cg, module_ref \<times> object_id) act" where
  "include_module W path name = load_module_with W path name (evaluate_module W)"

text \<open>The host's input of text: the module is reserved, its data is never set.\<close>

definition host_accept_input :: "('vg, 'g, 'cg) world \<Rightarrow> string \<Rightarrow> ('vg, 'cg, flat_code) act" where
  "host_accept_input W input cx =
     (case reserve_module cx of (_, mref, cx) \<Rightarrow>
      qbind (map_option lift_panic (parse_source W input mref (gc_spanner cx))) (\<lambda>(ast, si).
      let cx = store_source mref input ast (cx\<lparr>gc_host := (gc_host cx)\<lparr>sh_spanner := si\<rparr>\<rparr>)
      in qbind (qrust (get_module_flatcode W cx mref)) (\<lambda>code. Some (Inr (code, cx)))))"

section \<open>Finding functions\<close>

text \<open>The modules whose name starts with a text.\<close>

definition narrow :: "module_data ssamap \<Rightarrow> string \<Rightarrow> module_ref list \<Rightarrow> module_ref list" where
  "narrow ms start candidates =
     filter (\<lambda>mref. case ssa_get ms (unat (module_ref_raw mref)) of Some md \<Rightarrow> prefix start (md_name md) | None \<Rightarrow> False) candidates"

fun narrow_segments :: "module_data ssamap \<Rightarrow> string list \<Rightarrow> string \<Rightarrow> module_ref list \<Rightarrow> module_ref list" where
  "narrow_segments ms [] start candidates = candidates"
| "narrow_segments ms (seg # segs) start candidates = narrow_segments ms segs (start @ seg) (narrow ms start candidates)"

definition all_modules :: "module_data ssamap \<Rightarrow> module_ref list" where
  "all_modules ms = map (\<lambda>(ix, _). ModuleRef (word_of_nat ix)) (ssa_iter ms)"

definition resolve_fancy_path_to_modules :: "module_data ssamap \<Rightarrow> string \<Rightarrow> module_ref list rust" where
  "resolve_fancy_path_to_modules ms path =
     (let segments = split_char CHR '':'' path; start = hd segments; candidates = narrow ms start (all_modules ms) in
      if length segments - 1 < 1 then Inl UnwrapNone
      else Inr (narrow_segments ms (take (length segments - 1 - 1) (drop 1 segments)) start candidates))"

text \<open>The function of the last segment, in the module that was found.\<close>

definition function_in_module :: "('vg, 'g, 'cg) world \<Rightarrow> string \<Rightarrow> module_ref \<Rightarrow> ('vg, 'cg) gcx \<Rightarrow> value_id monty" where
  "function_in_module W fname mref cx =
     (let st = gc_values cx; space = rt_objects (gc_runtime cx) in
      and_then (lift_panic (unwrap (resolve (w_graph W) (w_vs_hash W) st (AssocKey (ModuleKey mref))))) (\<lambda>vid.
      and_then (lift_panic (unwrap (alloc_id_of st vid))) (\<lambda>module.
      and_then (lift_panic (with_object module module_dict space)) (\<lambda>dict.
      and_then (case map_option (\<lambda>d. py_dict_get d (w_rt_hash W (HStr fname))) dict of
           Some (Some (_, fobj)) \<Rightarrow> Inr fobj
         | _ \<Rightarrow> Inl (Panicked TodoMacro)) (\<lambda>func.
      and_then (lift_panic (with_object func (\<lambda>v. case v of PvFunction _ _ _ _ _ \<Rightarrow> True | _ \<Rightarrow> False) space)) (\<lambda>is_func.
      if \<not> is_func then Inl (Panicked TodoMacro)
      else ok_or (get_by_assoc (w_vs_hash W) st (ObjectKey func)) MontyNone))))))"

text \<open>When no module matches, the input is loaded and the search starts over.\<close>

partial_function (option) get_func_from_path ::
  "('vg, 'g, 'cg) world \<Rightarrow> string \<Rightarrow> ('vg, 'cg) gcx \<Rightarrow> (value_id \<times> ('vg, 'cg) gcx) monty option" where
  "get_func_from_path W path cx =
     (if CHR '':'' \<notin> set path then Some (Inl (Panicked PanicMacro))
      else
        (case resolve_fancy_path_to_modules (gc_modules cx) path of
           Inl p \<Rightarrow> Some (Inl (Panicked p))
         | Inr [] \<Rightarrow>
             if \<not> path_loaded (co_input (gc_opts cx)) cx then
               (case include_module W (co_input (gc_opts cx)) ''__main__'' cx of
                  None \<Rightarrow> None
                | Some (Inl e) \<Rightarrow> Some (Inl e)
                | Some (Inr (_, cx)) \<Rightarrow> get_func_from_path W path cx)
             else Some (Inl (Panicked TodoMacro))
         | Inr [mref] \<Rightarrow>
             Some (and_then (function_in_module W (last (split_char CHR '':'' path)) mref cx) (\<lambda>v. Inr (v, cx)))
         | Inr (_ # _ # _) \<Rightarrow> Some (Inl (Panicked TodoMacro))))"

text \<open>The queries of a session, and the functions a program needs.\<close>

definition session_queries :: "('vg, 'g, 'cg) world \<Rightarrow> ('vg, 'cg) gcx \<Rightarrow> ('vg, 'g, 'cg) call_cx" where
  "session_queries W cx =
     (w_call W)\<lparr>cc_driver := (cc_driver (w_call W))\<lparr>
        dr_spanref_to_str := resolve_sref_as_str (gc_static_names cx) (gc_module_sources cx) (gc_spanner cx),
        dr_rt := gc_runtime cx\<rparr>\<rparr>"

definition call_graph_of :: "('vg, 'g, 'cg) world \<Rightarrow> string \<Rightarrow> ('vg, 'cg, value_id list \<times> value_id) act" where
  "call_graph_of W entry_path cx =
     qbind (get_func_from_path W entry_path cx) (\<lambda>(entry_func, cx).
     qbind (call_graph_from (session_queries W cx) entry_func (gc_session cx)) (\<lambda>(funcs, entry_v, ss).
     Some (Inr ((funcs, entry_v), cx\<lparr>gc_session := ss\<rparr>))))"

end
