(* ===== verification/SessionInit.thy ===== *)
theory SessionInit
  imports Session
begin

text \<open>
  Starting the driver: the names that are interned first, \<open>SessionContext::initialize\<close> and
  \<open>initialize_hlirt\<close> of \<^verbatim>\<open>montyc_driver/src/global_context/mod.rs\<close>, the build of \<^verbatim>\<open>montyc_codegen\<close> from an
  entry path, and the main function of the program up to the object module.
\<close>

section \<open>Static names\<close>

definition MAGICAL_NAMES :: "string list" where
  "MAGICAL_NAMES =
     [''__monty'', ''int'', ''float'', ''tuple'', ''object'', ''dict'', ''set'', ''type'', ''id'',
      ''isinstance'', ''list'', ''str'', ''bool'', ''__lshift__'', ''__rlshift__'', ''__getattr__'',
      ''__rgetattr__'', ''__eq__'', ''__req__'', ''__pow__'', ''__rpow__'', ''__or__'', ''__ror__'',
      ''__and__'', ''__rand__'', ''__div__'', ''__rdiv__'', ''__ne__'', ''__rne__'', ''__getitem__'',
      ''__rgetitem__'', ''__call__'', ''__rcall__'', ''__mul__'', ''__rmul__'', ''__add__'',
      ''__radd__'', ''__sub__'', ''__rsub__'', ''__getattribute__'', ''__rgetattribute__'',
      ''__rshift__'', ''__rrshift__'', ''__new__'', ''__annotations__'', ''__delitem__'',
      ''__reversed__'', ''__module__'', ''__invert__'', ''__repr__'', ''__name__'', ''__eq__'',
      ''__pos__'', ''__len__'', ''__getitem__'', ''__call__'', ''__iter__'', ''__contains__'',
      ''__neg__'', ''__setitem__'', ''__next__'', ''__missing__'', ''__init__'', ''c_ulong'',
      ''c_ulong_p'', ''c_double'', ''c_double_p'', ''c_uint'', ''c_uint_p'', ''c_bool'', ''c_bool_p'',
      ''c_uint32'', ''c_uint32_p'', ''c_long'', ''c_long_p'', ''c_ulonglong'', ''c_ulonglong_p'',
      ''c_void'', ''c_void_p'', ''c_longlong'', ''c_longlong_p'', ''c_uint64'', ''c_uint64_p'',
      ''c_wchar'', ''c_wchar_p'', ''c_ssize_t'', ''c_ssize_t_p'', ''c_size_t'', ''c_size_t_p'',
      ''c_ushort'', ''c_ushort_p'', ''c_int8'', ''c_int8_p'', ''c_uint8'', ''c_uint8_p'', ''c_uint16'',
      ''c_uint16_p'', ''c_int'', ''c_int_p'', ''c_longdouble'', ''c_longdouble_p'', ''c_char'',
      ''c_char_p'', ''c_float'', ''c_float_p'', ''c_byte'', ''c_byte_p'', ''c_int64'', ''c_int64_p'',
      ''c_int32'', ''c_int32_p'', ''c_ubyte'', ''c_ubyte_p'', ''__value'']"

fun intern_static_names :: "(string \<Rightarrow> u64) \<Rightarrow> string list \<Rightarrow> (u32 \<times> string) list \<times> span_interner \<Rightarrow> ((u32 \<times> string) list \<times> span_interner) rust" where
  "intern_static_names hash_str [] s = Inr s"
| "intern_static_names hash_str (name # names) (statics, si) =
     and_then (str_to_spanref hash_str 0 name si) (\<lambda>(sref, si).
     intern_static_names hash_str names (assoc_put (span_group sref) name statics, si))"

section \<open>The builtin classes\<close>

text \<open>The builtin types whose classes are defined in \<^verbatim>\<open>builtins.py\<close>, with their fields of the singletons.\<close>

definition default_builtin_classes :: "(builtin_type \<times> (singletons \<Rightarrow> object_id) \<times> (object_id \<Rightarrow> singletons \<Rightarrow> singletons)) list" where
  "default_builtin_classes =
     [(BObject, sg_object_class, \<lambda>ob s. s\<lparr>sg_object_class := ob\<rparr>),
      (BNone, sg_none_class, \<lambda>ob s. s\<lparr>sg_none_class := ob\<rparr>),
      (BType, sg_type_class, \<lambda>ob s. s\<lparr>sg_type_class := ob\<rparr>),
      (BBool, sg_bool_class, \<lambda>ob s. s\<lparr>sg_bool_class := ob\<rparr>),
      (BInt, sg_int_class, \<lambda>ob s. s\<lparr>sg_int_class := ob\<rparr>),
      (BFloat, sg_float_class, \<lambda>ob s. s\<lparr>sg_float_class := ob\<rparr>),
      (BStr, sg_string_class, \<lambda>ob s. s\<lparr>sg_string_class := ob\<rparr>),
      (BUntypedTuple, sg_tuple_class, \<lambda>ob s. s\<lparr>sg_tuple_class := ob\<rparr>),
      (BUntypedFunc, sg_function_class, \<lambda>ob s. s\<lparr>sg_function_class := ob\<rparr>)]"

fun set_builtin_classes ::
  "(hash_key \<Rightarrow> u64) \<Rightarrow> typing_data \<Rightarrow> object_id \<Rightarrow> (builtin_type \<times> (singletons \<Rightarrow> object_id) \<times> (object_id \<Rightarrow> singletons \<Rightarrow> singletons)) list
    \<Rightarrow> runtime \<Rightarrow> runtime rust" where
  "set_builtin_classes hash td module_ob [] rt = Inr rt"
| "set_builtin_classes hash td module_ob ((b, _, put) # slots) rt =
     and_then (unwrap (td_get_python_type_of td (builtin_tag b))) (\<lambda>kind.
     (case kind of
        PyBuiltin inner \<Rightarrow>
          and_then (and_then (with_object module_ob module_attrs (rt_objects rt)) (\<lambda>r. r)) (\<lambda>d.
          and_then (dict_attr hash d (builtin_name inner)) (\<lambda>real_class.
          set_builtin_classes hash td module_ob slots (rt\<lparr>rt_singletons := put real_class (rt_singletons rt)\<rparr>)))
      | _ \<Rightarrow> Inl UnreachableCode))"

definition class_dict_of :: "py_value \<Rightarrow> (object_id \<times> object_id) py_dict rust" where
  "class_dict_of v = (case v of PvClass _ _ inner \<Rightarrow> Inr (ro_dict inner) | _ \<Rightarrow> Inl TodoMacro)"

definition name_of :: "py_value \<Rightarrow> string rust" where
  "name_of v = (case v of PvStr s \<Rightarrow> Inr s | _ \<Rightarrow> Inl TodoMacro)"

text \<open>The attributes of a builtin class become properties of the type of the class.\<close>

fun class_members :: "('vg, 'g, 'cg) world \<Rightarrow> type_id \<Rightarrow> (object_id \<times> object_id) py_dict \<Rightarrow> ('vg, 'cg, unit) act" where
  "class_members W t [] cx = Some (Inr ((), cx))"
| "class_members W t ((_, k, v) # d) cx =
     qbind (qrust (and_then (with_object k name_of (rt_objects (gc_runtime cx))) (\<lambda>r. r))) (\<lambda>name.
     qbind (qrust (unwrap (get_by_assoc (w_vs_hash W) (gc_values cx) (ObjectKey v)))) (\<lambda>val.
     (case compute_type_of (cc_driver (session_queries W cx)) (cc_depth (w_call W)) val (gc_session cx) of
        None \<Rightarrow> Some (Inl (Panicked StackOverflow))
      | Some (Inl e) \<Rightarrow> Some (Inl e)
      | Some (Inr (val_t, ss)) \<Rightarrow>
          qbind (qrust (td_insert (ty_of_kind (PyType t)) (ss_types ss))) (\<lambda>(base, td).
          let td = snd (td_insert_property base name \<lparr>prop_type_id = val_t, prop_value = PropId val\<rparr> td)
          in class_members W t d (cx\<lparr>gc_session := ss\<lparr>ss_types := td\<rparr>\<rparr>)))))"

fun all_class_members ::
  "('vg, 'g, 'cg) world \<Rightarrow> (builtin_type \<times> (singletons \<Rightarrow> object_id) \<times> (object_id \<Rightarrow> singletons \<Rightarrow> singletons)) list \<Rightarrow> ('vg, 'cg, unit) act" where
  "all_class_members W [] cx = Some (Inr ((), cx))"
| "all_class_members W ((b, get, _) # slots) cx =
     qbind (qrust (and_then (with_object (get (rt_singletons (gc_runtime cx))) class_dict_of (rt_objects (gc_runtime cx))) (\<lambda>r. r))) (\<lambda>d.
     qbind (class_members W (builtin_tag b) d cx) (\<lambda>(_, cx). all_class_members W slots cx))"

section \<open>Initialization\<close>

definition sys_module :: object_builder where
  "sys_module =
     builder_setattr ''modules'' (PvDict []) (builder_setattr ''meta_path'' (PvList [])
       (builder_setattr ''path_hooks'' (PvList []) (builder_setattr ''path'' (PvList []) [])))"

definition initialize_hlirt :: "('vg, 'g, 'cg) world \<Rightarrow> ('vg, 'cg, unit) act" where
  "initialize_hlirt W cx =
     (let hash = w_rt_hash W; libstd = co_libstd (gc_opts cx) in
      qbind (qrust (try_init (gc_runtime cx))) (\<lambda>rt.
      qbind (qrust (synthesise_within hash monty_module rt)) (\<lambda>(monty, rt).
      let cx = cx\<lparr>gc_runtime := rt\<lparr>rt_singletons := (rt_singletons rt)\<lparr>sg_monty := monty\<rparr>\<rparr>\<rparr> in
      qbind (include_module W (path_join libstd ''builtins.py'') ''builtins'' cx) (\<lambda>((_, builtins_ob), cx).
      let rt = gc_runtime cx; rt = rt\<lparr>rt_singletons := (rt_singletons rt)\<lparr>sg_builtins := builtins_ob\<rparr>\<rparr> in
      qbind (qrust (set_builtin_classes hash (ss_types (gc_session cx)) builtins_ob default_builtin_classes rt)) (\<lambda>rt.
      qbind (all_class_members W default_builtin_classes (cx\<lparr>gc_runtime := rt\<rparr>)) (\<lambda>(_, cx).
      qbind (qrust (synthesise_within hash sys_module (gc_runtime cx))) (\<lambda>(sys, rt).
      let cx = cx\<lparr>gc_runtime := rt\<lparr>rt_singletons := (rt_singletons rt)\<lparr>sg_sys := sys\<rparr>\<rparr>\<rparr> in
      qbind (include_module W (path_join libstd ''importlib/_bootstrap.py'') ''importlib._bootstrap'' cx) (\<lambda>((_, bootstrap), cx).
      qbind (qrust (import_setup hash bootstrap (gc_runtime cx))) (\<lambda>rt.
      Some (Inr ((), cx\<lparr>gc_runtime := rt\<rparr>)))))))))))"

definition monty_data :: module_data where
  "monty_data = \<lparr>md_path = [], md_name = ''__monty'', md_mref = ModuleRef 0, md_qualname = [''__monty'']\<rparr>"

definition initialize_session :: "('vg, 'g, 'cg) world \<Rightarrow> compiler_options \<Rightarrow> ('vg, 'cg) gcx monty option" where
  "initialize_session W opts =
     qbind (qrust (session_new W opts)) (\<lambda>cx.
     qbind (qrust (ssa_insert module_ref_of_usize monty_data (gc_modules cx))) (\<lambda>(_, ms).
     qbind (qrust (intern_static_names (w_hash_str W) MAGICAL_NAMES (gc_static_names cx, gc_spanner cx))) (\<lambda>(statics, si).
     qbind (initialize_hlirt W (cx\<lparr>gc_modules := ms, gc_static_names := statics, gc_host := (gc_host cx)\<lparr>sh_spanner := si\<rparr>\<rparr>)) (\<lambda>(_, cx).
     Some (Inr cx)))))"

section \<open>The program\<close>

definition entry_path :: "compiler_options \<Rightarrow> string option" where
  "entry_path opts = (case opts of OptCheck _ _ \<Rightarrow> None | OptBuild entry _ _ _ _ _ _ _ \<Rightarrow> Some entry)"

text \<open>From the entry path to the object module; the back end asks the session.\<close>

definition finish :: "('vg, 'g, 'cg) world \<Rightarrow> ('vg, 'g, 'cg, 'b, 'o) backend_cx \<Rightarrow> ('vg, 'cg, 'o) act" where
  "finish W K cx =
     qbind (qrust (unwrap (entry_path (gc_opts cx)))) (\<lambda>entry.
     qbind (get_func_from_path W entry cx) (\<lambda>(f, cx).
     qbind (compile_program (K\<lparr>cx_calls := session_queries W cx\<rparr>) f (gc_session cx)) (\<lambda>(ss, ob).
     Some (Inr (ob, cx\<lparr>gc_session := ss\<rparr>)))))"

datatype 'o outcome = OptionErrors "option_error list" | Checked | Built 'o

text \<open>
  \<open>main\<close>: the options are verified, but the input, the settings and the commands are those of the
  options as given. \<open>set_flag\<close> is the method of cranelift's settings.
\<close>

definition main_program ::
  "('vg, 'g, 'cg) world \<Rightarrow> ('vg, 'g, 'cg, 'b, 'o) backend_cx \<Rightarrow> (string \<Rightarrow> string \<Rightarrow> 'f \<Rightarrow> 'f option) \<Rightarrow> 'f \<Rightarrow> compiler_options \<Rightarrow> 'o outcome monty option" where
  "main_program W K set_flag flags opts =
     (case verify_options (w_files W) opts of
        Inl errors \<Rightarrow> Some (Inr (OptionErrors errors))
      | Inr verified \<Rightarrow>
          qbind (initialize_session W verified) (\<lambda>cx.
          (case opts of
             OptCheck _ input \<Rightarrow> qbind (include_module W input ''__main__'' cx) (\<lambda>_. Some (Inr Checked))
           | OptBuild _ _ _ _ _ _ _ settings \<Rightarrow>
               qbind (qrust (codegen_flags set_flag settings flags)) (\<lambda>_.
               qbind (finish W K cx) (\<lambda>(ob, _). Some (Inr (Built ob)))))))"

end
