(* ===== verification/SessionLaws.thy ===== *)
theory SessionLaws
  imports SessionInit ParseModule
begin

text \<open>
  What a session keeps: the registry of modules, the texts of names, how a path of modules is
  resolved, and that looking for the entry function loads at most one module.
\<close>

section \<open>Setting a reserved slot\<close>

lemma ssa_try_set_get:
  assumes "ssa_try_set_value k v m = Inr m'"
  shows "ssa_get m' i = (if i = k then Some v else ssa_get m i)" and "ssa_get m k = None"
    and "ssa_next_free m' = ssa_next_free m" and "ssa_wf m \<Longrightarrow> ssa_wf m'"
  using assms by (auto simp: ssa_try_set_value_def ssa_get_def ssa_wf_def get_at_def split: option.splits if_splits)

lemma ssa_reserve_get:
  "ssa_reserve m = (k, m') \<Longrightarrow> ssa_get m' i = ssa_get m i \<and> k = ssa_next_free m \<and> ssa_next_free m' = Suc k \<and> (ssa_wf m \<longrightarrow> ssa_wf m')"
  by (auto simp: ssa_reserve_def ssa_get_def ssa_wf_def get_at_def nth_append split: if_splits)

section \<open>Loading\<close>

text \<open>What parsing a source adds to a session.\<close>

lemma session_parse_moduleD:
  assumes "session_parse_module W source path name cx = Some (Inr (mref, cx'))"
  obtains ast si md ms where "parse_source W source mref (gc_spanner cx) = Some (Inr (ast, si))"
    and "mref = ModuleRef (word_of_nat (ssa_next_free (gc_modules cx)))"
    and "md_path md = path" and "md_name md = name" and "md_mref md = mref" and "file_stem path = Some (hd (md_qualname md))"
    and "\<And>i. ssa_get ms i = (if i = unat (module_ref_raw mref) then Some md else ssa_get (gc_modules cx) i)"
    and "ssa_get (gc_modules cx) (unat (module_ref_raw mref)) = None"
    and "ssa_next_free ms = Suc (ssa_next_free (gc_modules cx))" and "ssa_wf (gc_modules cx) \<Longrightarrow> ssa_wf ms"
    and "cx' = cx\<lparr>gc_modules := ms, gc_module_sources := assoc_put mref source (gc_module_sources cx),
      gc_module_asts := assoc_put mref ast (gc_module_asts cx), gc_host := (gc_host cx)\<lparr>sh_spanner := si\<rparr>\<rparr>"
proof -
  obtain ms0 where r: "ssa_reserve (gc_modules cx) = (ssa_next_free (gc_modules cx), ms0)" by (simp add: ssa_reserve_def)
  let ?m = "ModuleRef (word_of_nat (ssa_next_free (gc_modules cx)))"
  obtain ast si where p: "parse_source W source ?m (gc_spanner cx) = Some (Inr (ast, si))"
    using assms r by (auto simp: session_parse_module_def reserve_module_def qbind_def lift_panic_def split: option.splits sum.splits)
  obtain stem where s: "file_stem path = Some stem"
    using assms r p by (auto simp: session_parse_module_def reserve_module_def qbind_def lift_panic_def qrust_def unwrap_def split: option.splits)
  let ?md = "\<lparr>md_path = path, md_name = name, md_mref = ?m, md_qualname = [stem]\<rparr>"
  obtain ms where set: "ssa_try_set_value (unat (module_ref_raw ?m)) ?md ms0 = Inr ms" "mref = ?m"
      "cx' = cx\<lparr>gc_modules := ms, gc_module_sources := assoc_put mref source (gc_module_sources cx),
        gc_module_asts := assoc_put mref ast (gc_module_asts cx), gc_host := (gc_host cx)\<lparr>sh_spanner := si\<rparr>\<rparr>"
    using assms r p s
    by (auto simp: session_parse_module_def reserve_module_def qbind_def lift_panic_def qrust_def unwrap_def Let_def store_source_def split: sum.splits)
  note get = ssa_try_set_get [OF set(1)] and res = ssa_reserve_get [OF r]
  show thesis
    by (rule that [of ast si ?md ms]) (use p s set(2,3) get res in auto)
qed

text \<open>Evaluation leaves the registry alone.\<close>

lemma evaluate_module_keeps:
  assumes "evaluate_module W mref cx = Some (Inr (r, cx'))"
  shows "gc_modules cx' = gc_modules cx \<and> gc_module_sources cx' = gc_module_sources cx \<and> gc_module_asts cx' = gc_module_asts cx
    \<and> gc_opts cx' = gc_opts cx \<and> gc_static_names cx' = gc_static_names cx \<and> fst r = mref"
proof -
  obtain m cx1 where 1: "session_eval_module W mref cx = Some (Inr (m, cx1))"
    using assms by (auto simp: evaluate_module_def qbind_def split: option.splits sum.splits)
  obtain cx2 where 2: "session_stir W cx1 = Some (Inr ((), cx2))"
    using assms 1 by (auto simp: evaluate_module_def qbind_def split: option.splits sum.splits)
  have "gc_modules cx1 = gc_modules cx \<and> gc_module_sources cx1 = gc_module_sources cx \<and> gc_module_asts cx1 = gc_module_asts cx
      \<and> gc_opts cx1 = gc_opts cx \<and> gc_static_names cx1 = gc_static_names cx"
    using 1 by (auto simp: session_eval_module_def Let_def qbind_def split: option.splits sum.splits)
  moreover have "gc_modules cx2 = gc_modules cx1 \<and> gc_module_sources cx2 = gc_module_sources cx1 \<and> gc_module_asts cx2 = gc_module_asts cx1
      \<and> gc_opts cx2 = gc_opts cx1 \<and> gc_static_names cx2 = gc_static_names cx1"
    using 2 by (auto simp: session_stir_def qbind_def split: option.splits sum.splits)
  ultimately show ?thesis using assms 1 2 by (auto simp: evaluate_module_def qbind_def split: option.splits sum.splits)
qed

lemma path_loaded_iff: "path_loaded path cx \<longleftrightarrow> (\<exists>i md. ssa_get (gc_modules cx) i = Some md \<and> path_eq (md_path md) path)"
proof -
  have "path_loaded path cx \<longleftrightarrow> (\<exists>x \<in> set (ssa_iter (gc_modules cx)). path_eq (md_path (snd x)) path)"
    by (simp add: path_loaded_def list_ex_iff case_prod_unfold)
  also have "\<dots> \<longleftrightarrow> (\<exists>i md. (i, md) \<in> set (ssa_iter (gc_modules cx)) \<and> path_eq (md_path md) path)" by force
  finally show ?thesis unfolding ssa_iter_mem .
qed

lemma include_moduleD:
  assumes "include_module W path name cx = Some (Inr (r, cx'))"
  obtains source mref cx1 where "\<not> path_loaded path cx" and "fs_read_to_string (w_files W) path = Some source"
    and "session_parse_module W source path name cx = Some (Inr (mref, cx1))" and "evaluate_module W mref cx1 = Some (Inr (r, cx'))"
  using assms by (auto simp: include_module_def load_module_with_def qbind_def split: if_splits option.splits sum.splits)

lemma include_loads:
  assumes "include_module W path name cx = Some (Inr (r, cx'))" shows "path_loaded path cx'" and "gc_opts cx' = gc_opts cx"
proof -
  obtain source mref cx1 where 1: "session_parse_module W source path name cx = Some (Inr (mref, cx1))" "evaluate_module W mref cx1 = Some (Inr (r, cx'))"
    using include_moduleD [OF assms] by metis
  obtain ast si md ms where 2: "md_path md = path" "\<And>i. ssa_get ms i = (if i = unat (module_ref_raw mref) then Some md else ssa_get (gc_modules cx) i)"
      "cx1 = cx\<lparr>gc_modules := ms, gc_module_sources := assoc_put mref source (gc_module_sources cx),
      gc_module_asts := assoc_put mref ast (gc_module_asts cx), gc_host := (gc_host cx)\<lparr>sh_spanner := si\<rparr>\<rparr>"
    using session_parse_moduleD [OF 1(1)] by metis
  have k: "gc_modules cx' = ms" "gc_opts cx' = gc_opts cx" using evaluate_module_keeps [OF 1(2)] 2(3) by simp_all
  have "ssa_get ms (unat (module_ref_raw mref)) = Some md" "path_eq (md_path md) path" using 2(1,2) by (simp_all add: path_eq_def)
  then show "path_loaded path cx'" unfolding path_loaded_iff k(1) by blast
  show "gc_opts cx' = gc_opts cx" by (rule k(2))
qed

section \<open>The entry function\<close>

text \<open>
  C14. Looking for a function by its path comes to an end. It loads the input when no module matches,
  and once only: the search returns unless loading the input does not.
\<close>

theorem entry_lookup_returns:
  "get_func_from_path W path cx = None \<longleftrightarrow>
     CHR '':'' \<in> set path \<and> resolve_fancy_path_to_modules (gc_modules cx) path = Inr []
     \<and> \<not> path_loaded (co_input (gc_opts cx)) cx \<and> include_module W (co_input (gc_opts cx)) ''__main__'' cx = None"
proof -
  have loaded: "get_func_from_path W path cx' \<noteq> None" if "path_loaded (co_input (gc_opts cx')) cx'" for cx'
    using that by (subst get_func_from_path.simps) (auto split: sum.split list.split)
  show ?thesis
  proof (cases "include_module W (co_input (gc_opts cx)) ''__main__'' cx")
    case None
    then show ?thesis by (subst get_func_from_path.simps) (auto split: sum.split list.split)
  next
    case (Some r)
    have "get_func_from_path W path cx' \<noteq> None" if "r = Inr (x, cx')" for x cx'
      using include_loads [of W "co_input (gc_opts cx)" "''__main__''" cx x cx'] Some that loaded [of cx'] by simp
    with Some show ?thesis by (subst get_func_from_path.simps) (auto split: sum.split list.split)
  qed
qed

section \<open>Resolving paths of modules\<close>

lemma narrow_Cons_prefix: "narrow ms (p @ q) (narrow ms p candidates) = narrow ms (p @ q) candidates"
  unfolding narrow_def by (auto simp: filter_filter intro!: filter_cong split: option.splits dest: append_prefixD)

lemma narrow_segments_narrow:
  "narrow_segments ms segs start (narrow ms start candidates) = narrow ms (start @ concat (butlast segs)) candidates"
proof (induction segs arbitrary: start candidates)
  case (Cons seg segs)
  have "narrow ms start (narrow ms start candidates) = narrow ms start candidates"
    by (simp add: narrow_def)
  then have step: "narrow_segments ms (seg # segs) start (narrow ms start candidates) = narrow_segments ms segs (start @ seg) (narrow ms start candidates)"
    by simp
  show ?case
  proof (cases segs)
    case (Cons seg' segs')
    have "narrow_segments ms segs (start @ seg) (narrow ms start candidates)
        = narrow_segments ms segs (start @ seg) (narrow ms (start @ seg) (narrow ms start candidates))"
      unfolding Cons by (simp add: narrow_def)
    then show ?thesis unfolding step Cons.IH narrow_Cons_prefix [of ms start "seg"] using Cons by (simp add: Cons.IH narrow_Cons_prefix)
  qed (simp add: step narrow_def)
qed simp

text \<open>
  C16. How a path of modules is resolved. The result is the modules whose name starts with the
  concatenation of the segments but the last two, or with the first segment when there are only two.
  So for \<open>a:b:f\<close> the segment \<open>b\<close> is never compared, and \<open>m:f\<close> also finds the modules whose name only
  begins with \<open>m\<close>.
\<close>

theorem fancy_path_prefixes:
  assumes "split_char CHR '':'' path = segs @ [last_module, func]"
  shows "resolve_fancy_path_to_modules ms path =
    Inr (filter (\<lambda>mref. \<exists>md. ssa_get ms (unat (module_ref_raw mref)) = Some md
        \<and> prefix (if segs = [] then last_module else concat segs) (md_name md)) (all_modules ms))"
proof -
  have n: "narrow ms p (all_modules ms) = filter (\<lambda>mref. \<exists>md. ssa_get ms (unat (module_ref_raw mref)) = Some md \<and> prefix p (md_name md)) (all_modules ms)"
    for p unfolding narrow_def by (rule filter_cong) (auto split: option.split)
  show ?thesis
  proof (cases segs)
    case Nil
    then show ?thesis using assms by (simp add: resolve_fancy_path_to_modules_def Let_def n)
  next
    case (Cons s ss)
    have "take (length (segs @ [last_module, func]) - 1 - 1) (drop 1 (segs @ [last_module, func])) = ss @ [last_module]"
      using Cons by simp
    then show ?thesis unfolding n [symmetric]
      using assms Cons by (simp add: resolve_fancy_path_to_modules_def Let_def narrow_segments_narrow)
  qed
qed

section \<open>The registry of modules\<close>

text \<open>
  Every module is registered under its own reference, has its source and its syntax tree, except for
  \<open>__monty\<close> at 0, and no two modules have the same path.
\<close>

definition modules_ok :: "('vg, 'cg) gcx \<Rightarrow> bool" where
  "modules_ok cx \<longleftrightarrow> ssa_wf (gc_modules cx) \<and> 0 < ssa_next_free (gc_modules cx)
     \<and> (\<forall>i md. ssa_get (gc_modules cx) i = Some md \<longrightarrow> md_mref md = ModuleRef (word_of_nat i)
          \<and> (0 < i \<longrightarrow> md_mref md \<in> dom (map_of (gc_module_sources cx)) \<inter> dom (map_of (gc_module_asts cx))))
     \<and> (\<forall>i j md md'. ssa_get (gc_modules cx) i = Some md \<longrightarrow> ssa_get (gc_modules cx) j = Some md' \<longrightarrow> path_eq (md_path md) (md_path md') \<longrightarrow> i = j)"

text \<open>
  C13. Including a module registers it. The registry stays well formed and keeps the modules it had; the
  new module has the path and the name it was included with and its source is the text of the file.
  Including the path again, in whatever spelling, is refused.
\<close>

theorem include_module_registers:
  assumes ok: "modules_ok cx" and room: "ssa_next_free (gc_modules cx) < 2 ^ 32"
    and inc: "include_module W path name cx = Some (Inr ((mref, ob), cx'))"
  shows "modules_ok cx'
    \<and> (\<exists>md. ssa_get (gc_modules cx') (unat (module_ref_raw mref)) = Some md \<and> md_path md = path \<and> md_name md = name \<and> md_mref md = mref)
    \<and> map_of (gc_module_sources cx') mref = fs_read_to_string (w_files W) path
    \<and> (\<forall>i md. ssa_get (gc_modules cx) i = Some md \<longrightarrow> ssa_get (gc_modules cx') i = Some md)
    \<and> (\<forall>path' name'. path_eq path path' \<longrightarrow> include_module W path' name' cx' = Some (Inl (Failed (MontyIO ''AlreadyExists''))))"
proof -
  obtain source mref' cx1 where 1: "\<not> path_loaded path cx" "fs_read_to_string (w_files W) path = Some source"
      "session_parse_module W source path name cx = Some (Inr (mref', cx1))" "evaluate_module W mref' cx1 = Some (Inr ((mref, ob), cx'))"
    using include_moduleD [OF inc] by metis
  obtain ast si md ms where parsed: "parse_source W source mref' (gc_spanner cx) = Some (Inr (ast, si))"
      and 2: "mref' = ModuleRef (word_of_nat (ssa_next_free (gc_modules cx)))" "md_path md = path" "md_name md = name" "md_mref md = mref'"
      and stem: "file_stem path = Some (hd (md_qualname md))" and 3: "\<And>i. ssa_get ms i = (if i = unat (module_ref_raw mref') then Some md else ssa_get (gc_modules cx) i)"
      "ssa_get (gc_modules cx) (unat (module_ref_raw mref')) = None" "ssa_next_free ms = Suc (ssa_next_free (gc_modules cx))" "ssa_wf (gc_modules cx) \<Longrightarrow> ssa_wf ms"
      "cx1 = cx\<lparr>gc_modules := ms, gc_module_sources := assoc_put mref' source (gc_module_sources cx),
        gc_module_asts := assoc_put mref' ast (gc_module_asts cx), gc_host := (gc_host cx)\<lparr>sh_spanner := si\<rparr>\<rparr>"
    using session_parse_moduleD [OF 1(3)] by blast
  have k: "gc_modules cx' = ms" "gc_module_sources cx' = assoc_put mref' source (gc_module_sources cx)"
      "gc_module_asts cx' = assoc_put mref' ast (gc_module_asts cx)" "mref' = mref"
    using evaluate_module_keeps [OF 1(4)] 3(5) by simp_all
  let ?n = "ssa_next_free (gc_modules cx)"
  have n: "unat (module_ref_raw mref) = ?n" using 2(1) k(4) room by (simp add: unat_word_of_nat_u32)
  have fresh: "\<not> path_eq (md_path md') path" if "ssa_get (gc_modules cx) i = Some md'" for i md'
    using 1(1) that unfolding path_loaded_iff by blast
  have get: "ssa_get ms i = (if i = ?n then Some md else ssa_get (gc_modules cx) i)" for i using 3(1) k(4) n by simp
  have none: "ssa_get (gc_modules cx) ?n = None" using 3(2) k(4) n by simp
  have entry: "md_mref md' = ModuleRef (word_of_nat i)
      \<and> (0 < i \<longrightarrow> md_mref md' \<in> dom (map_of (gc_module_sources cx')) \<inter> dom (map_of (gc_module_asts cx')))"
    if "ssa_get ms i = Some md'" for i md'
  proof (cases "i = ?n")
    case True
    then have "md_mref md' = mref'" "mref' = ModuleRef (word_of_nat i)" using that get [of i] 2(1,4) by simp_all
    moreover have "mref' \<in> dom (map_of (gc_module_sources cx')) \<inter> dom (map_of (gc_module_asts cx'))" unfolding k(2,3) by simp
    ultimately show ?thesis by simp
  next
    case False
    then have "ssa_get (gc_modules cx) i = Some md'" using that get [of i] by simp
    moreover have "dom (map_of (gc_module_sources cx)) \<subseteq> dom (map_of (gc_module_sources cx'))"
      "dom (map_of (gc_module_asts cx)) \<subseteq> dom (map_of (gc_module_asts cx'))" unfolding k(2,3) by auto
    ultimately show ?thesis using ok unfolding modules_ok_def by blast
  qed
  have old_paths: "i = j" if "ssa_get (gc_modules cx) i = Some a" "ssa_get (gc_modules cx) j = Some b" "path_eq (md_path a) (md_path b)" for i j a b
    using that ok unfolding modules_ok_def by blast
  have paths: "i = j" if "ssa_get ms i = Some a" "ssa_get ms j = Some b" "path_eq (md_path a) (md_path b)" for i j a b
  proof -
    have "path_eq (md_path b) (md_path a)" using that(3) by (simp add: path_eq_def)
    then show ?thesis
      using that get [of i] get [of j] fresh [of i a] fresh [of j b] old_paths [of i a j b] 2(2) by (cases "i = ?n"; cases "j = ?n") simp_all
  qed
  have "modules_ok cx'" unfolding modules_ok_def k(1)
  proof (intro conjI allI impI)
    show "ssa_wf ms" "0 < ssa_next_free ms" using 3(3,4) ok by (simp_all add: modules_ok_def)
  qed (use entry paths in blast)+
  moreover have "ssa_get (gc_modules cx') (unat (module_ref_raw mref)) = Some md" using get n k(1) by simp
  moreover have "map_of (gc_module_sources cx') mref = fs_read_to_string (w_files W) path" using k 1(2) by simp
  moreover have "ssa_get (gc_modules cx') i = Some md'" if "ssa_get (gc_modules cx) i = Some md'" for i md'
    using that get none k(1) by auto
  moreover have "include_module W path' name' cx' = Some (Inl (Failed (MontyIO ''AlreadyExists'')))" if "path_eq path path'" for path' name'
  proof -
    have "path_eq (md_path md) path'" using that 2(2) by simp
    then have "path_loaded path' cx'" unfolding path_loaded_iff using get k(1) by metis
    then show ?thesis by (simp add: include_module_def load_module_with_def)
  qed
  ultimately show ?thesis using 2(2-4) k(4) by blast
qed

end
