(* ===== verification/SessionNames.thy ===== *)
theory SessionNames
  imports SessionLaws
begin

text \<open>
  The names of a session: the names of a source resolve to its text, the static names to themselves.
\<close>

section \<open>Where a reference comes from\<close>

fun token_refs :: "py_token \<Rightarrow> span_ref list" where
  "token_refs (TkIdent r) = [r]"
| "token_refs (TkStringRef r) = [r]"
| "token_refs (TkCommentRef r) = [r]"
| "token_refs _ = []"

definition names_text :: "(string \<Rightarrow> u64) \<Rightarrow> string \<Rightarrow> module_ref \<Rightarrow> span_interner \<Rightarrow> span_ref \<Rightarrow> span \<Rightarrow> string \<Rightarrow> bool" where
  "names_text hash source mref si r rng s \<longleftrightarrow> str_get source rng = Some s \<and> issued si r (hash s)
     \<and> interner_span_data si r = Some \<lparr>sd_range = rng, sd_module = mref, sd_hash = hash s\<rparr>"

lemma span_data_keeps:
  assumes wf: "interner_wf si" and ins: "interner_insert hash source mref rng si = Inr (sref, si')" and old: "interner_span_data si r = Some d"
  shows "interner_span_data si' r = Some d"
proof (rule interner_insertD [OF ins wf])
  fix u
  assume i: "ssa_insert Some \<lparr>sd_range = rng, sd_module = mref, sd_hash = hash u\<rparr> (si_map si) = Inr (unat (span_distinct sref), si_map si')"
  have "ssa_wf (si_map si)" using wf by (simp add: interner_wf_def)
  from ssa.look_put_keeps [OF this i] old show ?thesis by (simp add: interner_span_data_def)
qed

lemma names_text_keeps:
  "interner_wf si \<Longrightarrow> interner_insert hash source' mref' rng' si = Inr (sref, si') \<Longrightarrow> names_text hash source mref si r rng s \<Longrightarrow>
     names_text hash source mref si' r rng s"
  unfolding names_text_def using issued_keeps span_data_keeps by blast

lemma insert_names_text:
  assumes wf: "interner_wf si" and ins: "interner_insert hash source mref rng si = Inr (sref, si')"
  shows "\<exists>s. names_text hash source mref si' sref rng s"
proof (rule interner_insertD [OF ins wf])
  fix u
  assume u: "str_get source rng = Some u"
    and i: "ssa_insert Some \<lparr>sd_range = rng, sd_module = mref, sd_hash = hash u\<rparr> (si_map si) = Inr (unat (span_distinct sref), si_map si')"
  have "ssa_wf (si_map si)" using wf by (simp add: interner_wf_def)
  from ssa.look_put_same [OF this i] have "interner_span_data si' sref = Some \<lparr>sd_range = rng, sd_module = mref, sd_hash = hash u\<rparr>"
    by (simp add: interner_span_data_def)
  then show ?thesis unfolding names_text_def using u issued_insert [OF wf ins u] by blast
qed

lemma token_iter_next_cases:
  "token_iter_next hash source mref (t, rng) si = Inr ((t', rng'), si') \<Longrightarrow>
     t' = t \<and> si' = si \<or> (\<exists>n. interner_insert hash source mref rng si = Inr (n, si') \<and> token_refs t' = [n] \<and> rng' = rng)"
  by (cases t) (auto simp: token_iter_next_def and_then_def split: sum.splits prod.splits)

lemma token_iter_next_names:
  assumes wf: "interner_wf si" and step: "token_iter_next hash source mref (t, rng) si = Inr ((t', rng'), si')" and plain: "token_refs t = []"
  shows "interner_wf si' \<and> (\<forall>source' m r g s. names_text hash source' m si r g s \<longrightarrow> names_text hash source' m si' r g s)
    \<and> (\<forall>r \<in> set (token_refs t'). \<exists>s. names_text hash source mref si' r rng' s)"
proof -
  consider "t' = t" "si' = si" | n where "interner_insert hash source mref rng si = Inr (n, si')" "token_refs t' = [n]" "rng' = rng"
    using token_iter_next_cases [OF step] by blast
  then show ?thesis
  proof cases
    case 1
    with wf plain show ?thesis by simp
  next
    case (2 n)
    show ?thesis using interner_wf_insert [OF wf 2(1)] names_text_keeps [OF wf 2(1)] insert_names_text [OF wf 2(1)] 2(2,3) by auto
  qed
qed

lemma iter_tokens_names:
  "iter_tokens hash source mref ts si = (toks, si') \<Longrightarrow> interner_wf si \<Longrightarrow> \<forall>(t, rng) \<in> set ts. token_refs t = [] \<Longrightarrow>
     interner_wf si' \<and> (\<forall>source' m r g s. names_text hash source' m si r g s \<longrightarrow> names_text hash source' m si' r g s)
     \<and> (\<forall>t rng. Inr (t, rng) \<in> set toks \<longrightarrow> (\<forall>r \<in> set (token_refs t). \<exists>s. names_text hash source mref si' r rng s))"
proof (induction hash source mref ts si arbitrary: toks si' rule: iter_tokens.induct)
  case (2 hash source mref l ts si)
  obtain t rng where l: "l = (t, rng)" by (cases l)
  show ?case
  proof (cases "token_iter_next hash source mref l si")
    case (Inl p)
    then have "toks = [Inl p]" "si' = si" using "2.prems"(1) by auto
    then show ?thesis using "2.prems"(2) by simp
  next
    case (Inr y)
    obtain t' rng' si1 where y: "y = ((t', rng'), si1)" by (metis surj_pair)
    obtain rest si2 where rest: "iter_tokens hash source mref ts si1 = (rest, si2)" by fastforce
    have toks: "toks = Inr (t', rng') # rest" "si' = si2" using "2.prems"(1) Inr y rest by auto
    have one: "interner_wf si1 \<and> (\<forall>source' m r g s. names_text hash source' m si r g s \<longrightarrow> names_text hash source' m si1 r g s)
        \<and> (\<forall>r \<in> set (token_refs t'). \<exists>s. names_text hash source mref si1 r rng' s)"
      by (rule token_iter_next_names [OF "2.prems"(2)]) (use Inr y l "2.prems"(3) in auto)
    have more: "interner_wf si2 \<and> (\<forall>source' m r g s. names_text hash source' m si1 r g s \<longrightarrow> names_text hash source' m si2 r g s)
        \<and> (\<forall>t rng. Inr (t, rng) \<in> set rest \<longrightarrow> (\<forall>r \<in> set (token_refs t). \<exists>s. names_text hash source mref si2 r rng s))"
      using "2.IH" [OF Inr, of "(t', rng')" si1 rest si2] y rest one "2.prems"(3) by simp
    have "\<exists>s. names_text hash source mref si2 r rng s" if "Inr (t, rng) \<in> set toks" "r \<in> set (token_refs t)" for t rng r
    proof (cases "(t, rng) = (t', rng')")
      case True
      with that(2) one more show ?thesis by blast
    next
      case False
      then have "Inr (t, rng) \<in> set rest" using that(1) toks(1) by auto
      with that(2) more show ?thesis by blast
    qed
    with one more toks(2) show ?thesis by blast
  qed
qed simp

section \<open>The names of a source\<close>

text \<open>
  C15. The names of a module resolve to its text. When a source has been parsed, the reference that a
  name, string or comment of it carries resolves to the part of the source that its token covers, and
  two of them have the same group exactly when the hashes of their texts agree. The lexer itself
  produces no references.
\<close>

theorem source_names_resolve:
  assumes parsed: "session_parse_module W source path name cx = Some (Inr (mref, cx'))" and wf: "interner_wf (gc_spanner cx)"
    and room: "0 < ssa_next_free (gc_modules cx)" "ssa_next_free (gc_modules cx) < 2 ^ 32"
    and lexer: "\<forall>(t, rng) \<in> set (w_lex W source). token_refs t = []"
    and toks: "toks = fst (iter_tokens (w_hash_str W) source mref (w_lex W source) (gc_spanner cx))"
    and tok: "Inr (t, rng) \<in> set toks" "r \<in> set (token_refs t)" "Inr (t', rng') \<in> set toks" "r' \<in> set (token_refs t')"
  shows "\<exists>s s'. str_get source rng = Some s \<and> str_get source rng' = Some s'
    \<and> resolve_sref_as_str (gc_static_names cx') (gc_module_sources cx') (gc_spanner cx') r = Some s
    \<and> (span_group r = span_group r' \<longleftrightarrow> w_hash_str W s = w_hash_str W s')"
proof -
  obtain ast si md ms where 1: "parse_source W source mref (gc_spanner cx) = Some (Inr (ast, si))"
      "mref = ModuleRef (word_of_nat (ssa_next_free (gc_modules cx)))"
      "cx' = cx\<lparr>gc_modules := ms, gc_module_sources := assoc_put mref source (gc_module_sources cx),
        gc_module_asts := assoc_put mref ast (gc_module_asts cx), gc_host := (gc_host cx)\<lparr>sh_spanner := si\<rparr>\<rparr>"
    by (rule session_parse_moduleD [OF parsed]) blast
  have it: "iter_tokens (w_hash_str W) source mref (w_lex W source) (gc_spanner cx) = (toks, si)"
    using 1(1) toks by (auto simp: parse_source_def rust_simps split: prod.splits)
  have names: "interner_wf si" "\<forall>t rng. Inr (t, rng) \<in> set toks \<longrightarrow> (\<forall>r \<in> set (token_refs t). \<exists>s. names_text (w_hash_str W) source mref si r rng s)"
    using iter_tokens_names [OF it wf lexer] by blast+
  obtain s where s: "names_text (w_hash_str W) source mref si r rng s" using names(2) tok(1,2) by blast
  obtain s' where s': "names_text (w_hash_str W) source mref si r' rng' s'" using names(2) tok(3,4) by blast
  have "mref \<noteq> ModuleRef 0"
    using 1(2) room by (metis module_ref.inject neq0_conv unat_0 unat_word_of_nat_u32)
  then have "resolve_sref_as_str (gc_static_names cx') (gc_module_sources cx') (gc_spanner cx') r = Some s"
    using s 1(3) by (simp add: resolve_sref_as_str_def spanref_to_str_def names_text_def interner_span_data_def)
  moreover have "span_group r = span_group r' \<longleftrightarrow> w_hash_str W s = w_hash_str W s'"
    using s s' issued_group_iff [OF names(1)] unfolding names_text_def by blast
  ultimately show ?thesis using s s' unfolding names_text_def by blast
qed

section \<open>Static names\<close>

definition static_known :: "(string \<Rightarrow> u64) \<Rightarrow> (u32 \<times> string) list \<times> span_interner \<Rightarrow> string \<Rightarrow> bool" where
  "static_known hash s name \<longleftrightarrow> (\<exists>g. spangroup_of_str hash (snd s) name = Some g \<and> map_of (fst s) g = Some name)"

lemma intern_static_step:
  assumes wf: "interner_wf si" and room: "ssa_next_free (si_map si) < 2 ^ 32" and inj: "inj_on hash (insert name N)"
    and known: "\<forall>n \<in> N. static_known hash (statics, si) n"
  shows "\<exists>sref si'. str_to_spanref hash 0 name si = Inr (sref, si') \<and> interner_wf si' \<and> ssa_next_free (si_map si') = Suc (ssa_next_free (si_map si))
    \<and> (\<forall>n \<in> insert name N. static_known hash (assoc_put (span_group sref) name statics, si') n)"
proof -
  obtain sref si' where ins: "interner_insert hash name (ModuleRef 0) (0, length name) si = Inr (sref, si')"
      "ssa_next_free (si_map si') = Suc (ssa_next_free (si_map si))"
    using interner_insert_total [OF wf str_get_whole room] by blast
  have wf': "interner_wf si'" by (rule interner_wf_insert [OF wf ins(1)])
  have groups: "map_of (si_groups si') = (map_of (si_groups si))(hash name \<mapsto> span_group sref)"
    by (rule interner_insertD [OF ins(1) wf]) (simp add: str_get_whole)
  have own: "map_of (si_groups si') (hash name) = Some (span_group sref)" by (simp add: groups)
  have "static_known hash (assoc_put (span_group sref) name statics, si') n" if "n \<in> insert name N" for n
  proof (cases "n = name")
    case True
    then show ?thesis using own by (simp add: static_known_def spangroup_of_str_def spangroup_of_hash_def)
  next
    case False
    then have n: "n \<in> N" "hash n \<noteq> hash name" using that inj_onD [OF inj, of n name] by auto
    obtain g where g: "map_of (si_groups si) (hash n) = Some g" "map_of statics g = Some n"
      using known n(1) by (auto simp: static_known_def spangroup_of_str_def spangroup_of_hash_def)
    have g': "map_of (si_groups si') (hash n) = Some g" using g(1) n(2) groups by simp
    have "g \<noteq> span_group sref"
    proof
      assume "g = span_group sref"
      then show False using g' own n(2) wf' unfolding interner_wf_def by (metis option.inject)
    qed
    then show ?thesis using g g' by (simp add: static_known_def spangroup_of_str_def spangroup_of_hash_def)
  qed
  then show ?thesis using ins wf' by (auto simp: str_to_spanref_def)
qed

lemma intern_static_names_known:
  assumes "interner_wf si" and "ssa_next_free (si_map si) + length names \<le> 2 ^ 32" and "inj_on hash (set names \<union> N)"
    and "\<forall>n \<in> N. static_known hash (statics, si) n"
  shows "\<exists>s. intern_static_names hash names (statics, si) = Inr s \<and> interner_wf (snd s) \<and> (\<forall>n \<in> set names \<union> N. static_known hash s n)"
  using assms
proof (induction names arbitrary: statics si N)
  case (Cons name names)
  have "inj_on hash (insert name N)" by (rule inj_on_subset [OF Cons.prems(3)]) auto
  then obtain sref si' where 1: "str_to_spanref hash 0 name si = Inr (sref, si')" "interner_wf si'" "ssa_next_free (si_map si') = Suc (ssa_next_free (si_map si))"
      "\<forall>n \<in> insert name N. static_known hash (assoc_put (span_group sref) name statics, si') n"
    using intern_static_step [OF Cons.prems(1) _ _ Cons.prems(4), of name] Cons.prems(2) by auto
  have "\<exists>s. intern_static_names hash names (assoc_put (span_group sref) name statics, si') = Inr s \<and> interner_wf (snd s)
      \<and> (\<forall>n \<in> set names \<union> insert name N. static_known hash s n)"
    by (rule Cons.IH [OF 1(2) _ _ 1(4)]) (use Cons.prems(2,3) 1(3) in auto)
  then show ?case using 1(1) by auto
qed simp

text \<open>
  The static names are known by their group. When the hash function separates the names that are
  interned first, initialization interns them all, and the table of static names gives back each name
  from the group of its text; so names of the source are compared with static names by their group.
\<close>

theorem static_names_known:
  assumes "inj_on hash (set MAGICAL_NAMES)"
  shows "\<exists>statics si. intern_static_names hash MAGICAL_NAMES ([], interner_new) = Inr (statics, si) \<and> interner_wf si
    \<and> (\<forall>name \<in> set MAGICAL_NAMES. \<exists>g. spangroup_of_str hash si name = Some g \<and> map_of statics g = Some name)"
proof -
  have "length MAGICAL_NAMES \<le> 2 ^ 32" by (simp add: MAGICAL_NAMES_def)
  then show ?thesis
    using intern_static_names_known [OF interner_wf_new, of MAGICAL_NAMES hash "{}" "[]"] assms
    by (auto simp: static_known_def interner_new_def ssa_new_def)
qed

text \<open>The position of a name as its hash.\<close>

definition position_hash :: "string \<Rightarrow> u64" where
  "position_hash s = word_of_nat (length (takeWhile (\<lambda>x. x \<noteq> s) MAGICAL_NAMES))"

lemma takeWhile_before: "s \<notin> set ys \<Longrightarrow> takeWhile (\<lambda>x. x \<noteq> s) (ys @ s # zs) = ys"
  by (induction ys) auto

lemma position_hash_inj: "inj_on position_hash (set MAGICAL_NAMES)"
proof (rule inj_onI)
  fix x y assume xy: "x \<in> set MAGICAL_NAMES" "y \<in> set MAGICAL_NAMES" "position_hash x = position_hash y"
  let ?p = "\<lambda>s. length (takeWhile (\<lambda>x. x \<noteq> s) MAGICAL_NAMES)"
  have len: "length MAGICAL_NAMES < 2 ^ 64" by (simp add: MAGICAL_NAMES_def)
  have "?p s < 2 ^ 64" for s using length_takeWhile_le [of "\<lambda>x. x \<noteq> s" MAGICAL_NAMES] len by linarith
  then have unat_position: "unat (word_of_nat (?p s) :: u64) = ?p s" for s by (simp add: unat_of_nat take_bit_nat_eq_self)
  have "?p x = ?p y" using xy(3) unfolding position_hash_def by (metis (no_types) unat_position)
  moreover have "MAGICAL_NAMES ! ?p s = s" if "s \<in> set MAGICAL_NAMES" for s
  proof -
    obtain ys zs where "MAGICAL_NAMES = ys @ s # zs" "s \<notin> set ys" using split_list_first [of s MAGICAL_NAMES] \<open>s \<in> set MAGICAL_NAMES\<close> by blast
    moreover from this have "takeWhile (\<lambda>x. x \<noteq> s) MAGICAL_NAMES = ys" by (metis takeWhile_before)
    ultimately show ?thesis by (metis nth_append_length)
  qed
  ultimately show "x = y" using xy(1,2) by metis
qed

theorem static_names_known_witness:
  "\<exists>statics si. intern_static_names position_hash MAGICAL_NAMES ([], interner_new) = Inr (statics, si)
    \<and> (\<exists>g. spangroup_of_str position_hash si ''__monty'' = Some g \<and> map_of statics g = Some ''__monty'')"
proof -
  have "''__monty'' \<in> set MAGICAL_NAMES" by (simp add: MAGICAL_NAMES_def)
  then show ?thesis using static_names_known [OF position_hash_inj] by blast
qed

end
