(* ===== verification/SessionSource.thy ===== *)
theory SessionSource
  imports SessionNames EvalModule
begin

text \<open>
  From a text to the values of a module: parsing, lowering and evaluating in a session. The names in
  the dictionary of the module are texts of the source.
\<close>

section \<open>The texts of groups\<close>

text \<open>
  A span of a module other than \<open>__monty\<close> lies in the source of its module and carries the hash of its
  text; static names are in the table under the group of their hash.
\<close>

definition names_ok :: "(string \<Rightarrow> u64) \<Rightarrow> (u32 \<times> string) list \<Rightarrow> (module_ref \<times> string) list \<Rightarrow> span_interner \<Rightarrow> bool" where
  "names_ok hash statics sources si \<longleftrightarrow> interner_wf si \<and> distinct (map fst (si_groups si))
     \<and> (\<forall>g n. map_of statics g = Some n \<longrightarrow> map_of (si_groups si) (hash n) = Some g)
     \<and> (\<forall>k d. ssa_get (si_map si) k = Some d \<longrightarrow> sd_module d \<noteq> ModuleRef 0 \<longrightarrow>
          (\<exists>source s. map_of sources (sd_module d) = Some source \<and> str_get source (sd_range d) = Some s \<and> hash s = sd_hash d))"

lemma interner_insert_groups:
  "interner_insert hash source mref rng si = Inr (sref, si') \<Longrightarrow> distinct (map fst (si_groups si)) \<Longrightarrow> distinct (map fst (si_groups si'))"
  by (auto simp: interner_insert_def rust_simps Let_def assoc_put_distinct split: option.split)

lemma names_ok_insert:
  assumes ok: "names_ok hash statics sources si" and source: "mref \<noteq> ModuleRef 0 \<Longrightarrow> map_of sources mref = Some source"
    and ins: "interner_insert hash source mref rng si = Inr (sref, si')"
  shows "names_ok hash statics sources si'"
proof -
  have wf: "interner_wf si" and ds: "distinct (map fst (si_groups si))" using ok by (simp_all add: names_ok_def)
  show ?thesis
  proof (rule interner_insertD [OF ins wf])
    fix t
    assume t: "str_get source rng = Some t"
      and i: "ssa_insert Some \<lparr>sd_range = rng, sd_module = mref, sd_hash = hash t\<rparr> (si_map si) = Inr (unat (span_distinct sref), si_map si')"
      and gs: "map_of (si_groups si') = (map_of (si_groups si))(hash t \<mapsto> span_group sref)"
      and g: "map_of (si_groups si) (hash t) = Some (span_group sref) \<or> map_of (si_groups si) (hash t) = None \<and> span_group sref = span_distinct sref"
    have "ssa_wf (si_map si)" using wf by (simp add: interner_wf_def)
    note look = ssa.look_put [OF this i]
    have "\<exists>src s. map_of sources (sd_module d) = Some src \<and> str_get src (sd_range d) = Some s \<and> hash s = sd_hash d"
      if "ssa_get (si_map si') k = Some d" "sd_module d \<noteq> ModuleRef 0" for k d
    proof (cases "k = unat (span_distinct sref)")
      case True
      then have "d = \<lparr>sd_range = rng, sd_module = mref, sd_hash = hash t\<rparr>" using that(1) look by simp
      then show ?thesis using t source that(2) by simp
    next
      case False
      then show ?thesis using that look ok by (simp add: names_ok_def)
    qed
    moreover have "map_of (si_groups si') (hash n) = Some h" if "map_of statics h = Some n" for h n
    proof -
      have "map_of (si_groups si) (hash n) = Some h" using that ok by (simp add: names_ok_def)
      then show ?thesis using g gs by auto
    qed
    ultimately show ?thesis
      unfolding names_ok_def using interner_wf_insert [OF wf ins] interner_insert_groups [OF ins ds] by blast
  qed
qed

lemma names_ok_source:
  "names_ok hash statics sources si \<Longrightarrow> map_of sources mref = None \<Longrightarrow> names_ok hash statics (assoc_put mref source sources) si"
  unfolding names_ok_def by (auto simp del: map_of_eq_Some_iff) (metis option.distinct(1))

lemma names_ok_iter:
  "iter_tokens hash source mref ts si = (toks, si') \<Longrightarrow> map_of sources mref = Some source \<Longrightarrow> names_ok hash statics sources si \<Longrightarrow>
     names_ok hash statics sources si'"
proof (induction hash source mref ts si arbitrary: toks si' rule: iter_tokens.induct)
  case (2 hash source mref l ts si)
  obtain t rng where l: "l = (t, rng)" by (cases l)
  show ?case
  proof (cases "token_iter_next hash source mref l si")
    case (Inl p)
    then show ?thesis using "2.prems" by simp
  next
    case (Inr y)
    obtain t' rng' si1 where y: "y = ((t', rng'), si1)" by (metis surj_pair)
    obtain rest si2 where rest: "iter_tokens hash source mref ts si1 = (rest, si2)" by fastforce
    have si2: "si' = si2" using "2.prems"(1) Inr y rest by auto
    have "names_ok hash statics sources si1"
      using token_iter_next_cases [of hash source mref t rng si t' rng' si1] Inr y l "2.prems"(2,3)
        names_ok_insert [of hash statics sources si mref source rng _ si1] by auto
    then show ?thesis using "2.IH" [OF Inr, of "(t', rng')" si1 rest si2] y rest "2.prems"(2) si2 by simp
  qed
qed simp

text \<open>The host gives a group the text of its references, when the hash separates the texts.\<close>

definition known_texts :: "(u32 \<times> string) list \<Rightarrow> (module_ref \<times> string) list \<Rightarrow> span_interner \<Rightarrow> string set" where
  "known_texts statics sources si = {s. \<exists>r. resolve_sref_as_str statics sources si r = Some s}"

lemma map_filter_mem:
  "x \<in> set xs \<Longrightarrow> f x = Some y \<Longrightarrow> y \<in> set (List.map_filter f xs)"
  "(\<And>x z. x \<in> set xs \<Longrightarrow> f x = Some z \<Longrightarrow> z = y) \<Longrightarrow> set (List.map_filter f xs) \<subseteq> {y}"
  by (force simp: List.map_filter_def image_iff)+

lemma group_text:
  assumes ok: "names_ok hash statics sources si" and r: "issued si r (hash s)" "resolve_sref_as_str statics sources si r = Some s"
    and inj: "inj_on hash (known_texts statics sources si)"
  shows "host_spangroup_to_str statics sources si (span_group r) = Inr s"
proof -
  have wf: "interner_wf si" using ok by (simp add: names_ok_def)
  let ?g = "span_group r"
  have own: "map_of (si_groups si) (hash s) = Some ?g" using r(1) by (simp add: issued_def)
  have same: "h = hash s" if "map_of (si_groups si) h = Some ?g" for h
    using that own wf unfolding interner_wf_def by (metis option.inject)
  have mem: "(hash s, ?g) \<in> set (si_groups si)" using own by (rule map_of_SomeD)
  have "\<exists>h. List.find (\<lambda>(_, g). g = ?g) (si_groups si) = Some (h, ?g) \<and> (h, ?g) \<in> set (si_groups si)"
  proof (cases "List.find (\<lambda>(_, g). g = ?g) (si_groups si)")
    case None
    then show ?thesis using mem by (auto simp: find_None_iff)
  next
    case (Some p)
    then obtain i where i: "i < length (si_groups si)" "p = si_groups si ! i" "snd p = ?g" by (auto simp: find_Some_iff)
    then have "p \<in> set (si_groups si)" by simp
    moreover have "p = (fst p, ?g)" using i(3) by (metis prod.collapse)
    ultimately show ?thesis using Some by metis
  qed
  then obtain h where h: "List.find (\<lambda>(_, g). g = ?g) (si_groups si) = Some (h, ?g)" "(h, ?g) \<in> set (si_groups si)" by blast
  have "map_of (si_groups si) h = Some ?g" using h(2) ok by (simp add: names_ok_def)
  then have "h = hash s" by (rule same)
  let ?refs = "map (\<lambda>(idx, _). SpanRef ?g (word_of_nat idx)) (filter (\<lambda>(_, data). sd_hash data = hash s) (ssa_iter (si_map si)))"
  have refs: "spanrefs_of_group si ?g = Some ?refs" using h(1) \<open>h = hash s\<close> by (simp add: spanrefs_of_group_def)
  have texts: "t = s" if q: "q \<in> set ?refs" "resolve_sref_as_str statics sources si q = Some t" for q t
  proof -
    obtain k d where k: "ssa_get (si_map si) k = Some d" "sd_hash d = hash s" "q = SpanRef ?g (word_of_nat k)"
      using q(1) by (auto simp: ssa_iter_mem)
    have small: "k < 2 ^ 32" using k(1) wf by (auto simp: interner_wf_def ssa_wf_def ssa_get_def get_at_def split: if_splits)
    have data: "ssa_get (si_map si) (unat (word_of_nat k :: u32)) = Some d" using k(1) unat_word_of_nat_u32 [OF small] by simp
    have "hash t = hash s"
    proof (cases "sd_module d = ModuleRef 0")
      case True
      then have "map_of statics ?g = Some t" using q(2) data k(3) by (simp add: resolve_sref_as_str_def spanref_to_str_def)
      then have "map_of (si_groups si) (hash t) = Some ?g" using ok by (simp add: names_ok_def)
      then show ?thesis by (rule same)
    next
      case False
      then obtain source u where "map_of sources (sd_module d) = Some source" "str_get source (sd_range d) = Some u" "hash u = sd_hash d"
        using ok k(1) unfolding names_ok_def by blast
      then show ?thesis using False q(2) data k(2,3) by (simp add: resolve_sref_as_str_def spanref_to_str_def)
    qed
    moreover have "t \<in> known_texts statics sources si" "s \<in> known_texts statics sources si" using q(2) r(2) by (auto simp: known_texts_def)
    ultimately show ?thesis using inj by (simp add: inj_on_def)
  qed
  have "r \<in> set ?refs"
  proof -
    obtain d where d: "interner_span_data si r = Some d" "sd_hash d = hash s" using r(1) by (auto simp: issued_def)
    have "(unat (span_distinct r), d) \<in> set (ssa_iter (si_map si))" using d(1) by (simp add: ssa_iter_mem interner_span_data_def)
    moreover have "r = SpanRef ?g (word_of_nat (unat (span_distinct r)))" by (cases r) simp
    ultimately show ?thesis using d(2) by force
  qed
  then have "s \<in> set (List.map_filter (resolve_sref_as_str statics sources si) ?refs)" using r(2) by (rule map_filter_mem(1))
  moreover have "set (List.map_filter (resolve_sref_as_str statics sources si) ?refs) \<subseteq> {s}" by (rule map_filter_mem(2)) (rule texts)
  ultimately obtain ss where "List.map_filter (resolve_sref_as_str statics sources si) ?refs = s # ss"
    by (cases "List.map_filter (resolve_sref_as_str statics sources si) ?refs") auto
  then show ?thesis by (simp add: host_spangroup_to_str_def refs unwrap_def)
qed

section \<open>Parsing and evaluating in a session\<close>

lemma session_parse_module_ok:
  assumes "parse_source W source mref (gc_spanner cx) = Some (Inr (ast, si))" and "mref = ModuleRef (word_of_nat (ssa_next_free (gc_modules cx)))"
    and "ssa_wf (gc_modules cx)" and "ssa_next_free (gc_modules cx) < 2 ^ 32" and "file_stem path \<noteq> None"
  obtains cx1 where "session_parse_module W source path name cx = Some (Inr (mref, cx1))" and "gc_static_names cx1 = gc_static_names cx"
    and "gc_module_sources cx1 = assoc_put mref source (gc_module_sources cx)" and "gc_module_asts cx1 = assoc_put mref ast (gc_module_asts cx)"
    and "gc_spanner cx1 = si" and "gc_runtime cx1 = gc_runtime cx" and "gc_values cx1 = gc_values cx"
  using assms
  by (auto simp: session_parse_module_def reserve_module_def ssa_reserve_def qbind_def qrust_def lift_panic_def unwrap_def Let_def
      ssa_try_set_value_def get_at_def nth_append unat_word_of_nat_u32 ssa_wf_def store_source_def)

lemma parse_assignments:
  assumes "nom_spec (w_nom W)"
    and "iter_tokens (w_hash_str W) source mref (w_lex W source) si = (map Inr (print_module L (assign_module ps)), si')"
  shows "parse_source W source mref si = Some (Inr (assign_module ps, si'))"
proof -
  have "printable_statement (assign_stmt p)" for p
  proof -
    obtain lhs rhs x r where "p = ((lhs, rhs), x, r)" by (metis prod.exhaust)
    then show ?thesis by (cases r) (simp_all add: assign_stmt_def)
  qed
  then have "list_all printable_statement (map assign_stmt ps)" by (simp add: list_all_iff)
  from printed_module_run [OF assms(1) this order_refl] show ?thesis
    by (simp add: parse_source_def assms(2) assign_module_def rust_simps)
qed

lemma session_env_fields:
  "env_hash (session_env W statics sources) = w_rt_hash W"
  "env_spangroup_to_str (session_env W statics sources) = (\<lambda>h g. case host_spangroup_to_str statics sources (sh_spanner h) g of Inr s \<Rightarrow> s | Inl _ \<Rightarrow> [])"
  by (cases "w_fuel W"; simp add: session_env_def session_base_env_def Let_def)+

text \<open>Evaluating the assignments of a module that has no value yet.\<close>

lemma session_eval_assignments:
  assumes bare: "bare_runtime (w_rt_hash W) (gc_runtime cx)" and room: "2 * length ps < rt_room (gc_runtime cx)"
    and fuel: "2 * length ps < w_fuel W" "2 * length ps < 0x1000"
    and ast: "map_of (gc_module_asts cx) mref = Some (assign_module ps)" and new: "\<not> vs_contains (w_graph W) (w_vs_hash W) (gc_values cx) (AssocKey (ModuleKey mref))"
    and inj: "inj_on (name_hash (session_env W (gc_static_names cx) (gc_module_sources cx)) (gc_host cx)) ((\<lambda>(_, x, _). span_group x) ` set ps)"
  shows "case assigns ps Map.empty of
      Inl y \<Rightarrow> session_eval_module W mref cx = Some (Inl (Panicked TodoMacro))
    | Inr \<sigma> \<Rightarrow> \<exists>m cx' k inner. session_eval_module W mref cx = Some (Inr (m, cx')) \<and> rt_heap (gc_runtime cx') m = Some (PvModule k inner)
        \<and> dom (map_of (ro_dict inner)) = name_hash (session_env W (gc_static_names cx) (gc_module_sources cx)) (gc_host cx) ` dom \<sigma>
        \<and> (\<forall>g v. \<sigma> g = Some v \<longrightarrow> (\<exists>key ob. map_of (ro_dict inner)
              (name_hash (session_env W (gc_static_names cx) (gc_module_sources cx)) (gc_host cx) g) = Some (key, ob)
            \<and> rt_heap (gc_runtime cx') ob = Some v))"
proof -
  let ?E = "session_env W (gc_static_names cx) (gc_module_sources cx)"
  obtain sp where code: "ast_to_flatcode mref (assign_module ps) = Inr (one_seq mref sp (assign_code 0 ps))" using assign_module_code by blast
  let ?code = "one_seq mref sp (assign_code 0 ps)"
  have get: "get_module_flatcode W cx mref = Inr ?code" using new ast code by (simp add: get_module_flatcode_def unwrap_def)
  have bare': "bare_runtime (env_hash ?E) (gc_runtime cx)" using bare by (simp add: session_env_fields)
  have small: "2 * length ps < 2 ^ 63" using fuel(2) by simp
  have ticks: "ticks_above (2 * length ps) (Some 0x1000)" using fuel(2) by (simp add: ticks_above_def)
  obtain ctx where eval: "\<forall>E' source h. env_hash E' = env_hash ?E \<longrightarrow> env_accept_input E' source h = (Some ?code, gc_host cx) \<longrightarrow> eval E' source (gc_runtime cx) h = Inr (Some ctx)"
    and bad: "\<forall>y. assigns ps Map.empty = Inl y \<longrightarrow> (\<exists>s'. run_until_complete ?E (w_fuel W) (set_upper_tick_bound (Some 0x1000) ctx) = Some (Inr (Inl (NameError y), s')))"
    and good: "\<forall>\<sigma>. assigns ps Map.empty = Inr \<sigma> \<longrightarrow> (\<exists>m s' k inner. run_until_complete ?E (w_fuel W) (set_upper_tick_bound (Some 0x1000) ctx) = Some (Inr (Inr m, s'))
        \<and> ev_heap s' m = Some (PvModule k inner) \<and> dom (map_of (ro_dict inner)) = name_hash ?E (gc_host cx) ` dom \<sigma>
        \<and> (\<forall>g v. \<sigma> g = Some v \<longrightarrow> (\<exists>key ob. map_of (ro_dict inner) (name_hash ?E (gc_host cx) g) = Some (key, ob) \<and> ev_heap s' ob = Some v)))"
    using assignments_run [OF bare' room small fuel(1) code ticks inj] by blast
  have ev: "eval (?E\<lparr>env_accept_input := (\<lambda>_ h. (Some ?code, h))\<rparr>) [] (gc_runtime cx) (gc_host cx) = Inr (Some ctx)"
    using eval by simp
  have run: "session_eval_module W mref cx = (case run_until_complete ?E (w_fuel W) (set_upper_tick_bound (Some 0x1000) ctx) of
              None \<Rightarrow> None
            | Some (Inl p) \<Rightarrow> Some (Inl (Panicked p))
            | Some (Inr (Inl _, _)) \<Rightarrow> Some (Inl (Panicked TodoMacro))
            | Some (Inr (Inr ob, s)) \<Rightarrow> Some (Inr (ob, cx\<lparr>gc_runtime := ec_rt s, gc_host := ec_host s, gc_dirty := True\<rparr>)))"
    unfolding session_eval_module_def Let_def get by (simp add: ev)
  show ?thesis
  proof (cases "assigns ps Map.empty")
    case (Inl y)
    then obtain s' where "run_until_complete ?E (w_fuel W) (set_upper_tick_bound (Some 0x1000) ctx) = Some (Inr (Inl (NameError y), s'))"
      using bad by blast
    then show ?thesis unfolding Inl sum.case run by simp
  next
    case (Inr \<sigma>)
    from good [rule_format, OF Inr] obtain m s' k inner where r: "run_until_complete ?E (w_fuel W) (set_upper_tick_bound (Some 0x1000) ctx) = Some (Inr (Inr m, s'))"
        "ev_heap s' m = Some (PvModule k inner)" "dom (map_of (ro_dict inner)) = name_hash ?E (gc_host cx) ` dom \<sigma>"
        "\<forall>g v. \<sigma> g = Some v \<longrightarrow> (\<exists>key ob. map_of (ro_dict inner) (name_hash ?E (gc_host cx) g) = Some (key, ob) \<and> ev_heap s' ob = Some v)"
      by (elim exE conjE)
    show ?thesis unfolding Inr sum.case run r(1) option.case prod.case
      by (intro exI [of _ m] exI [of _ "cx\<lparr>gc_runtime := ec_rt s', gc_host := ec_host s', gc_dirty := True\<rparr>"] exI [of _ k] exI [of _ inner])
        (use r(2-4) in simp)
  qed
qed

section \<open>From a source to the values of its module\<close>

lemma assign_tokens: "((lhs, rhs), x, r) \<in> set ps \<Longrightarrow> (TkIdent x, lhs) \<in> set (print_module L (assign_module ps))"
proof -
  have "((lhs, rhs), x, r) \<in> set ps \<Longrightarrow> (TkIdent x, lhs) \<in> set (print_body K (map assign_stmt ps))" for K
    by (induction ps arbitrary: K) (auto simp: assign_stmt_def)
  then show "((lhs, rhs), x, r) \<in> set ps \<Longrightarrow> ?thesis" by (simp add: assign_module_def)
qed

text \<open>The groups of the names on the left have texts, which the host finds.\<close>

lemma assigned_texts:
  assumes it: "iter_tokens hash source mref ts si = (map Inr (print_module L (assign_module ps)), si')" and ok: "names_ok hash statics sources si"
    and plain: "\<forall>(t, rng) \<in> set ts. token_refs t = []" and src: "map_of sources mref = Some source" and mref: "mref \<noteq> ModuleRef 0"
    and inj: "inj_on hash (known_texts statics sources si')" and p: "((lhs, rhs), x, r) \<in> set ps"
  shows "\<exists>s. str_get source lhs = Some s \<and> s \<in> known_texts statics sources si' \<and> issued si' x (hash s)
    \<and> host_spangroup_to_str statics sources si' (span_group x) = Inr s"
proof -
  have wf: "interner_wf si" using ok by (simp add: names_ok_def)
  have tk: "Inr (TkIdent x, lhs) \<in> set (map Inr (print_module L (assign_module ps)) :: (py_token \<times> span) rust list)"
    using assign_tokens [OF p] by simp
  have "\<forall>r \<in> set (token_refs (TkIdent x)). \<exists>s. names_text hash source mref si' r lhs s"
    using iter_tokens_names [OF it wf plain] tk by blast
  then obtain s where s: "names_text hash source mref si' x lhs s" by auto
  then have found: "str_get source lhs = Some s" "issued si' x (hash s)" and "resolve_sref_as_str statics sources si' x = Some s"
    using src mref by (simp_all add: names_text_def resolve_sref_as_str_def spanref_to_str_def interner_span_data_def)
  moreover from this have "s \<in> known_texts statics sources si'" by (auto simp: known_texts_def)
  ultimately show ?thesis using group_text [OF names_ok_iter [OF it src ok] found(2) _ inj] by blast
qed

lemma assigns_dom: "assigns ps \<sigma> = Inr \<tau> \<Longrightarrow> dom \<tau> = dom \<sigma> \<union> (\<lambda>(_, x, _). span_group x) ` set ps"
proof (induction ps \<sigma> rule: assigns.induct)
  case (2 sp x r ps \<sigma>)
  then obtain v where v: "rhs_value r \<sigma> = Inr v" "assigns ps (\<sigma>(span_group x \<mapsto> v)) = Inr \<tau>" by (auto simp: rust_simps)
  show ?case unfolding "2.IH" [OF v] by auto
qed simp

text \<open>When groups stand for texts and texts have different hashes, so have groups, and their hashes are those of the texts.\<close>

lemma named_groups:
  assumes wf: "interner_wf si" and inj: "inj_on rt_hash T"
    and named: "\<forall>((l, k), x, r) \<in> set ps.
      \<exists>s. str_get source l = Some s \<and> s \<in> T \<and> issued si x (hash s) \<and> h (span_group x) = rt_hash s"
  shows "inj_on h ((\<lambda>(_, x, _). span_group x) ` set ps)"
    and "h ` (\<lambda>(_, x, _). span_group x) ` set ps = {rt_hash s | l k x r s. ((l, k), x, r) \<in> set ps \<and> str_get source l = Some s}"
proof -
  show "inj_on h ((\<lambda>(_, x, _). span_group x) ` set ps)"
  proof (rule inj_onI, elim imageE, clarify)
    fix l1 k1 x1 v1 l2 k2 x2 v2
    assume p: "((l1, k1), x1, v1) \<in> set ps" "((l2, k2), x2, v2) \<in> set ps" and eq: "h (span_group x1) = h (span_group x2)"
    obtain s1 where s1: "s1 \<in> T" "issued si x1 (hash s1)" "h (span_group x1) = rt_hash s1" using bspec [OF named p(1)] by auto
    obtain s2 where s2: "s2 \<in> T" "issued si x2 (hash s2)" "h (span_group x2) = rt_hash s2" using bspec [OF named p(2)] by auto
    have "s1 = s2" using inj_onD [OF inj] eq s1(1,3) s2(1,3) by simp
    then show "span_group x1 = span_group x2" using issued_group_iff [OF wf s1(2) s2(2)] by simp
  qed
  show "h ` (\<lambda>(_, x, _). span_group x) ` set ps = {rt_hash s | l k x r s. ((l, k), x, r) \<in> set ps \<and> str_get source l = Some s}"
    (is "?K = ?S")
  proof (intro equalityI subsetI)
    fix a assume "a \<in> ?K"
    then obtain l k x v where p: "((l, k), x, v) \<in> set ps" "a = h (span_group x)" by auto
    from bspec [OF named p(1)] obtain s where "str_get source l = Some s" "a = rt_hash s" using p(2) by auto
    then show "a \<in> ?S" using p(1) by blast
  next
    fix a assume "a \<in> ?S"
    then obtain l k x v s where p: "((l, k), x, v) \<in> set ps" "str_get source l = Some s" "a = rt_hash s" by blast
    then have "a = h (span_group x)" using bspec [OF named p(1)] by auto
    then show "a \<in> ?K" using p(1) by force
  qed
qed


end
