(* ===== verification/CodegenOrder.thy ===== *)
theory CodegenOrder
  imports Backend
begin

text \<open>
  The order in which \<open>Builder::lower\<close> handles the blocks of a function. The vector of processed
  blocks is searched by bisection without being sorted. Where every search of a block that was
  processed succeeds, the loop is a breadth-first traversal: it ends, and lowers the blocks that
  can be reached from the first, each of them once.
\<close>

section \<open>The traversal\<close>

fun push_new :: "nat list \<Rightarrow> nat list \<Rightarrow> nat list \<Rightarrow> nat list" where
  "push_new processed queue [] = queue"
| "push_new processed queue (to # tos) =
     push_new processed (if to \<in> set processed \<or> to \<in> set queue then queue else queue @ [to]) tos"

fun lowering_order :: "nat \<Rightarrow> (nat \<Rightarrow> nat list) \<Rightarrow> nat list \<Rightarrow> nat list \<Rightarrow> nat list" where
  "lowering_order 0 succs processed queue = processed"
| "lowering_order (Suc n) succs processed [] = processed"
| "lowering_order (Suc n) succs processed (ix # rest) =
     lowering_order n succs (processed @ [ix]) (push_new (processed @ [ix]) rest (succs ix))"

definition found :: "nat list \<Rightarrow> nat \<Rightarrow> bool" where
  "found xs x = (case binary_search xs x of Inl _ \<Rightarrow> True | Inr _ \<Rightarrow> False)"

text \<open>The searches for blocks that were processed find them, in a given order of the blocks.\<close>

definition searches_succeed :: "(nat \<Rightarrow> nat list) \<Rightarrow> nat list \<Rightarrow> bool" where
  "searches_succeed succs order =
     list_all (\<lambda>k. list_all (\<lambda>t. t \<in> set (take (Suc k) order) \<longrightarrow> found (take (Suc k) order) t) (succs (order ! k))) [0..<length order]"

fun run_steps :: "(nat \<Rightarrow> 's \<Rightarrow> (unit \<times> 's) rust) \<Rightarrow> nat list \<Rightarrow> 's \<Rightarrow> 's rust" where
  "run_steps step [] st = Inr st"
| "run_steps step (ix # ixs) st = and_then (step ix st) (\<lambda>(_, st). run_steps step ixs st)"

definition leads_to :: "(nat \<Rightarrow> nat list) \<Rightarrow> (nat \<times> nat) set" where
  "leads_to succs = {(a, b). b \<in> set (succs a)}"

section \<open>Searching\<close>

lemma bsearch_member: "bsearch xs x lo hi = Inl i \<Longrightarrow> hi \<le> length xs \<Longrightarrow> x \<in> set xs"
proof (induction xs x lo hi rule: bsearch.induct)
  case (1 xs x lo hi)
  let ?mid = "lo + (hi - lo) div 2"
  show ?case
  proof (cases "lo < hi")
    case True
    then have mid: "?mid < hi" by auto
    show ?thesis
      using 1 True mid by (subst (asm) (3) bsearch.simps) (fastforce simp: Let_def split: if_splits)
  qed (use 1(3) in \<open>simp add: bsearch.simps [of xs x lo hi]\<close>)
qed

lemma found_member: "found xs x \<Longrightarrow> x \<in> set xs"
  by (auto simp: found_def binary_search_def dest: bsearch_member split: sum.splits)

lemma found_ascending: "ascending xs \<Longrightarrow> x \<in> set xs \<Longrightarrow> found xs x"
  using bsearch_spec [of xs "length xs" 0 x]
  by (auto simp: found_def binary_search_def in_set_conv_nth split: sum.splits) (metis linorder_neqE_nat less_irrefl_nat linorder_not_less)

lemma searches_succeed_ascending: "ascending order \<Longrightarrow> searches_succeed succs order"
  by (auto simp: searches_succeed_def list_all_iff intro: found_ascending sorted_wrt_take)

lemma searches_succeed_at:
  assumes "searches_succeed succs (p @ ix # rest)" and "t \<in> set (succs ix)" and "t \<in> set (p @ [ix])"
  shows "found (p @ [ix]) t"
proof -
  have "length p \<in> set [0..<length (p @ ix # rest)]" by simp
  with assms(1) have "list_all (\<lambda>t. t \<in> set (take (Suc (length p)) (p @ ix # rest)) \<longrightarrow> found (take (Suc (length p)) (p @ ix # rest)) t)
      (succs ((p @ ix # rest) ! length p))"
    unfolding searches_succeed_def list_all_iff by blast
  moreover have "take (Suc (length p)) (p @ ix # rest) = p @ [ix]" "(p @ ix # rest) ! length p = ix" by simp_all
  ultimately have "list_all (\<lambda>t. t \<in> set (p @ [ix]) \<longrightarrow> found (p @ [ix]) t) (succs ix)" by (simp only:)
  then show ?thesis using assms(2,3) unfolding list_all_iff by blast
qed

section \<open>The queue\<close>

lemma push_new_set: "set (push_new p q ts) = set q \<union> (set ts - set p)"
  by (induction p q ts rule: push_new.induct) auto

lemma push_new_distinct: "distinct (p @ q) \<Longrightarrow> distinct (p @ push_new p q ts)"
  by (induction p q ts rule: push_new.induct) auto

lemma push_successors_new:
  "(\<And>t. t \<in> set ts \<Longrightarrow> t \<in> set p \<Longrightarrow> found p t) \<Longrightarrow> push_successors p q ts = push_new p q ts"
proof (induction p q ts rule: push_successors.induct)
  case (2 p q t ts)
  have "isl (binary_search p t) \<longleftrightarrow> t \<in> set p"
    using 2(3) [of t] found_member [of p t] by (cases "binary_search p t") (auto simp: found_def)
  with 2 show ?case by (auto split: sum.splits)
qed simp

lemma lowering_order_prefix: "\<exists>rest. lowering_order n succs p q = p @ rest"
  by (induction n succs p q rule: lowering_order.induct) auto

lemma lowering_order_nil: "lowering_order n succs p [] = p"
  by (cases n) auto

section \<open>The loop\<close>

definition traversing :: "nat \<Rightarrow> (nat \<Rightarrow> nat list) \<Rightarrow> nat list \<Rightarrow> nat list \<Rightarrow> bool" where
  "traversing n succs p q \<longleftrightarrow> distinct (p @ q) \<and> set (p @ q) \<subseteq> {..<n} \<and> (\<forall>i \<in> set p. set (succs i) \<subseteq> set (p @ q))
     \<and> (\<forall>i \<in> set (p @ q). (0, i) \<in> (leads_to succs)\<^sup>*) \<and> 0 \<in> set (p @ q)"

lemma traversing_step:
  assumes "traversing n succs p (ix # q)" and "\<forall>i < n. set (succs i) \<subseteq> {..<n}"
  shows "traversing n succs (p @ [ix]) (push_new (p @ [ix]) q (succs ix))"
proof -
  have "(0, t) \<in> (leads_to succs)\<^sup>*" if "t \<in> set (succs ix)" for t
  proof -
    have "(0, ix) \<in> (leads_to succs)\<^sup>*" using assms(1) by (simp add: traversing_def)
    moreover have "(ix, t) \<in> leads_to succs" using that by (simp add: leads_to_def)
    ultimately show ?thesis by (rule rtrancl_into_rtrancl)
  qed
  moreover have "distinct ((p @ [ix]) @ push_new (p @ [ix]) q (succs ix))"
    using assms(1) by (intro push_new_distinct) (simp add: traversing_def)
  ultimately show ?thesis
    using assms by (auto simp: traversing_def push_new_set)
qed

lemma traversing_full:
  assumes "traversing n succs p q" and "n \<le> length p" shows "q = []"
proof -
  have "length (p @ q) \<le> n"
    using assms(1) card_mono [of "{..<n}" "set (p @ q)"] distinct_card [of "p @ q"]
    by (simp add: traversing_def del: set_append distinct_append)
  with assms(2) show ?thesis by (cases q) auto
qed

lemma traversing_done:
  assumes "traversing n succs p []" shows "set p = {j. (0, j) \<in> (leads_to succs)\<^sup>*}"
proof
  show "set p \<subseteq> {j. (0, j) \<in> (leads_to succs)\<^sup>*}" using assms by (auto simp: traversing_def)
  have "j \<in> set p" if "(0, j) \<in> (leads_to succs)\<^sup>*" for j
    using that
  proof (induction rule: rtrancl_induct)
    case (step y z)
    then show ?case using assms by (auto simp: traversing_def leads_to_def)
  qed (use assms in \<open>simp add: traversing_def\<close>)
  then show "{j. (0, j) \<in> (leads_to succs)\<^sup>*} \<subseteq> set p" by auto
qed

lemma lower_loop_nil: "lower_loop step succs p [] st = Some (Inr (p, st))"
  by (subst lower_loop.simps) simp

lemma lower_loop_cons:
  "lower_loop step succs p (ix # q) st =
     (case step ix st of
        Inl e \<Rightarrow> Some (Inl e)
      | Inr (_, st') \<Rightarrow> lower_loop step succs (p @ [ix]) (push_successors (p @ [ix]) q (succs ix)) st')"
  by (subst lower_loop.simps) (simp add: Let_def split: sum.split prod.split)

lemma loop_in_order:
  assumes "\<forall>i < n. set (succs i) \<subseteq> {..<n}" and "searches_succeed succs (lowering_order m succs p q)"
    and "traversing n succs p q" and "n \<le> length p + m"
  shows "lower_loop step succs p q st = Some (and_then (run_steps step (drop (length p) (lowering_order m succs p q)) st)
      (\<lambda>st'. Inr (lowering_order m succs p q, st')))
    \<and> traversing n succs (lowering_order m succs p q) []"
  using assms
proof (induction m succs p q arbitrary: st rule: lowering_order.induct)
  case (1 succs p q)
  then have "q = []" using traversing_full [OF 1(3)] by simp
  with 1 show ?case by (simp add: lower_loop_nil)
next
  case (2 m succs p)
  then show ?case by (simp add: lower_loop_nil)
next
  case (3 m succs p ix q)
  let ?p = "p @ [ix]" and ?q = "push_new (p @ [ix]) q (succs ix)"
  let ?order = "lowering_order m succs ?p ?q"
  obtain rest where order: "?order = ?p @ rest" using lowering_order_prefix by blast
  have "found ?p t" if "t \<in> set (succs ix)" "t \<in> set ?p" for t
    using 3(3) that order by (simp add: searches_succeed_at)
  then have push: "push_successors ?p q (succs ix) = ?q" by (rule push_successors_new)
  have "traversing n succs ?p ?q" using 3(4,2) by (rule traversing_step)
  moreover have "n \<le> length ?p + m" using 3(5) by simp
  ultimately have "lower_loop step succs ?p ?q st' = Some (and_then (run_steps step (drop (length ?p) ?order) st') (\<lambda>st'. Inr (?order, st')))
      \<and> traversing n succs ?order []" for st'
    using 3(1) 3(2,3) by simp
  moreover have "drop (length p) ?order = ix # drop (length ?p) ?order" using order by simp
  ultimately show ?case
    by (cases "step ix st") (simp_all add: lower_loop_cons push split: prod.splits)
qed

section \<open>Lowering a function\<close>

definition cfg_succs :: "('vg, 'g, 'cg, 'b, 'o) backend_cx \<Rightarrow> 'cg \<Rightarrow> nat \<Rightarrow> nat list" where
  "cfg_succs K cfg ix = map fst (g_out (cc_code_graph (cx_calls K)) cfg ix)"

definition cfg_size :: "('vg, 'g, 'cg, 'b, 'o) backend_cx \<Rightarrow> 'cg \<Rightarrow> nat" where
  "cfg_size K cfg = length (g_weights (cc_code_graph (cx_calls K)) cfg)"

definition cfg_order :: "('vg, 'g, 'cg, 'b, 'o) backend_cx \<Rightarrow> 'cg \<Rightarrow> nat list" where
  "cfg_order K cfg = lowering_order (cfg_size K cfg) (cfg_succs K cfg) [] [0]"

text \<open>There is a first block, edges lead to blocks, and the searches of the loop succeed.\<close>

definition traversable :: "('vg, 'g, 'cg, 'b, 'o) backend_cx \<Rightarrow> 'cg \<Rightarrow> bool" where
  "traversable K cfg \<longleftrightarrow> 0 < cfg_size K cfg \<and> list_all (\<lambda>i. list_all (\<lambda>t. t < cfg_size K cfg) (cfg_succs K cfg i)) [0..<cfg_size K cfg]
     \<and> searches_succeed (cfg_succs K cfg) (cfg_order K cfg)"

lemma order_traversing:
  assumes "traversable K cfg"
  shows "lower_loop step (cfg_succs K cfg) [] [0] st = Some (and_then (run_steps step (cfg_order K cfg) st) (\<lambda>st'. Inr (cfg_order K cfg, st')))"
    and "traversing (cfg_size K cfg) (cfg_succs K cfg) (cfg_order K cfg) []"
proof -
  let ?n = "cfg_size K cfg" and ?s = "cfg_succs K cfg"
  have "\<forall>i < ?n. set (?s i) \<subseteq> {..<?n}" using assms by (auto simp: traversable_def list_all_iff)
  moreover have "traversing ?n ?s [] [0]" using assms by (simp add: traversable_def traversing_def)
  moreover have "searches_succeed ?s (lowering_order ?n ?s [] [0])" using assms by (simp add: traversable_def cfg_order_def)
  ultimately show "lower_loop step ?s [] [0] st = Some (and_then (run_steps step (cfg_order K cfg) st) (\<lambda>st'. Inr (cfg_order K cfg, st')))"
      "traversing ?n ?s (cfg_order K cfg) []"
    using loop_in_order [of ?n ?s ?n "[]" "[0]" step st] by (simp_all add: cfg_order_def)
qed

lemma lower_in_order:
  assumes "traversable K cfg"
  shows "lower K alloc cfg blocks fids st =
    Some (and_then (run_steps (lower_block K alloc cfg blocks fids) (cfg_order K cfg) st) (\<lambda>st'.
      and_then (on_fx (sdo (cl_finalize (cx_clif K))) st') (\<lambda>(_, st''). Inr (cfg_order K cfg, st''))))"
  unfolding lower_def cfg_succs_def [symmetric]
  using order_traversing(1) [OF assms, of "lower_block K alloc cfg blocks fids" st]
  by (simp add: cfg_succs_def [abs_def] and_then_assoc)

text \<open>
  C17. The blocks of a function are lowered in breadth-first order. When every edge leads to a
  block and every search of a block that was lowered finds it, the loop of \<open>Builder::lower\<close> ends:
  it lowers exactly the blocks that can be reached from the first block, each of them once, in the
  order \<open>cfg_order\<close>, and then finishes the function.
\<close>

theorem lowers_reachable_blocks_once:
  assumes "traversable K cfg"
  shows "lower K alloc cfg blocks fids st =
      Some (and_then (run_steps (lower_block K alloc cfg blocks fids) (cfg_order K cfg) st) (\<lambda>st'.
        and_then (on_fx (sdo (cl_finalize (cx_clif K))) st') (\<lambda>(_, st''). Inr (cfg_order K cfg, st''))))
    \<and> distinct (cfg_order K cfg) \<and> set (cfg_order K cfg) = {j. (0, j) \<in> (leads_to (cfg_succs K cfg))\<^sup>*}"
  using lower_in_order [OF assms] traversing_done [OF order_traversing(2) [OF assms]] order_traversing(2) [OF assms]
  by (simp add: traversing_def)

text \<open>
  C18. A block can be lowered twice. In the graph with the edges 0 to 2, 2 to 1 and 1 to itself, the
  blocks are processed in the order 0, 2, 1, which is not sorted: the search for block 1, made when
  its own edge is followed, misses it, and block 1 is lowered a second time.
\<close>

theorem block_lowered_twice:
  assumes "cfg_succs K cfg 0 = [2]" and "cfg_succs K cfg 2 = [1]" and "cfg_succs K cfg 1 = [1]"
  shows "lower K alloc cfg blocks fids st =
    Some (and_then (run_steps (lower_block K alloc cfg blocks fids) [0, 2, 1, 1] st) (\<lambda>st'.
      and_then (on_fx (sdo (cl_finalize (cx_clif K))) st') (\<lambda>(_, st''). Inr ([0, 2, 1, 1], st''))))"
proof -
  let ?step = "lower_block K alloc cfg blocks fids"
  have "lower_loop ?step (cfg_succs K cfg) [] [0] st = Some (and_then (run_steps ?step [0, 2, 1, 1] st) (\<lambda>st'. Inr ([0, 2, 1, 1], st')))"
    using assms by (simp add: lower_loop_cons lower_loop_nil binary_search_def bsearch.simps and_then_def nth_Cons' split: sum.splits prod.splits)
  then show ?thesis by (simp add: lower_def cfg_succs_def [abs_def] and_then_assoc)
qed

end
