(* ===== verification/CodegenSim.thy ===== *)
theory CodegenSim
  imports CodegenOrder
begin

text \<open>
  The code that \<open>Builder::lower\<close> hands to cranelift computes what the instructions of
  \<^verbatim>\<open>montyc_core/src/codegen.rs\<close> mean. The instructions are given a meaning on the fragment of integers,
  booleans, local variables, calls and jumps; cranelift is described by what it documents of its
  function builder (\<open>clif_laws\<close>) and of the instructions it executes (\<open>machine_laws\<close>). The first
  half of the proof relates an instruction to the instructions emitted for it (\<open>implements\<close>), the
  second half executes both.
\<close>

section \<open>What cranelift documents of the function builder\<close>

text \<open>
  What can be seen of a function under construction: the instructions of a block with their
  results, the values, stack slots and imported functions that exist, and the sealed blocks.
\<close>

record 'b clif_view =
  vw_code :: "'b \<Rightarrow> ir_block \<Rightarrow> (ir_inst \<times> ir_value list) list"
  vw_values :: "'b \<Rightarrow> ir_value set"
  vw_slots :: "'b \<Rightarrow> stack_slot set"
  vw_funcs :: "'b \<Rightarrow> func_ref \<rightharpoonup> func_id"

text \<open>The number of results; that of a call depends on its signature.\<close>

fun result_count :: "ir_inst \<Rightarrow> nat option" where
  "result_count (IrCall _ _) = None"
| "result_count (IrStore _ _ _) = Some 0"
| "result_count (StackStore _ _ _) = Some 0"
| "result_count (IrJump _ _) = Some 0"
| "result_count (BrIcmp _ _ _ _ _) = Some 0"
| "result_count (IrReturn _) = Some 0"
| "result_count _ = Some 1"

text \<open>Code is only added at the end of the current block, and nothing is forgotten.\<close>

definition fx_grows ::
  "('b, 'o) clif \<Rightarrow> 'b clif_view \<Rightarrow> 'b \<Rightarrow> (ir_inst \<times> ir_value list) list \<Rightarrow> 'b \<Rightarrow> bool" where
  "fx_grows C W fx seg fx' \<longleftrightarrow> cl_current_block C fx' = cl_current_block C fx
     \<and> (\<forall>b. vw_code W fx' b = vw_code W fx b @ (if cl_current_block C fx = Some b then seg else []))
     \<and> vw_values W fx \<subseteq> vw_values W fx' \<and> set (concat (map snd seg)) \<subseteq> vw_values W fx'
     \<and> vw_slots W fx \<subseteq> vw_slots W fx' \<and> vw_funcs W fx \<subseteq>\<^sub>m vw_funcs W fx'"

text \<open>
  An instruction goes to the end of the current block and its results are new; a stack slot is
  new; a function that is imported gets a new reference. Copying memory inserts a call. Sealing,
  finishing and switching insert nothing.
\<close>

definition clif_laws :: "('b, 'o) clif \<Rightarrow> 'b clif_view \<Rightarrow> bool" where
  "clif_laws C W \<longleftrightarrow>
     (\<forall>i fx rs fx'. cl_ins C i fx = Inr (rs, fx') \<longrightarrow>
        fx_grows C W fx [(i, rs)] fx' \<and> set rs \<inter> vw_values W fx = {} \<and> (\<forall>n. result_count i = Some n \<longrightarrow> length rs = n)
        \<and> cl_current_block C fx \<noteq> None)
   \<and> (\<forall>n fx ss fx'. cl_create_stack_slot C n fx = (ss, fx') \<longrightarrow>
        fx_grows C W fx [] fx' \<and> ss \<notin> vw_slots W fx \<and> ss \<in> vw_slots W fx')
   \<and> (\<forall>ob fid fx f fx'. om_declare_func_in_func C ob fid fx = (f, fx') \<longrightarrow>
        fx_grows C W fx [] fx' \<and> vw_funcs W fx' f = Some fid)
   \<and> (\<forall>d s n fx fx'. cl_call_memcpy C d s n fx = Inr fx' \<longrightarrow> (\<exists>seg. fx_grows C W fx seg fx'))
   \<and> (\<forall>b fx fx'. cl_seal_block C b fx = Inr fx' \<longrightarrow> fx_grows C W fx [] fx')
   \<and> (\<forall>fx fx'. cl_finalize C fx = Inr fx' \<longrightarrow> (\<forall>b. vw_code W fx' b = vw_code W fx b) \<and> vw_funcs W fx' = vw_funcs W fx)
   \<and> (\<forall>b fx fx'. cl_switch_to_block C b fx = Inr fx' \<longrightarrow> cl_current_block C fx' = Some b
        \<and> (\<forall>b. vw_code W fx' b = vw_code W fx b) \<and> vw_values W fx' = vw_values W fx
        \<and> vw_slots W fx' = vw_slots W fx \<and> vw_funcs W fx' = vw_funcs W fx)"

lemma clif_ins:
  assumes "clif_laws C W" and "cl_ins C i fx = Inr (rs, fx')"
  shows "fx_grows C W fx [(i, rs)] fx'" "set rs \<inter> vw_values W fx = {}" "result_count i = Some n \<Longrightarrow> length rs = n"
  using assms by (simp_all add: clif_laws_def)

lemma clif_slot:
  assumes "clif_laws C W" and "cl_create_stack_slot C n fx = (ss, fx')"
  shows "fx_grows C W fx [] fx'" "ss \<notin> vw_slots W fx" "ss \<in> vw_slots W fx'"
  using assms by (simp_all add: clif_laws_def)

lemma clif_import:
  assumes "clif_laws C W" and "om_declare_func_in_func C ob fid fx = (f, fx')"
  shows "fx_grows C W fx [] fx'" "vw_funcs W fx' f = Some fid"
  using assms by (simp_all add: clif_laws_def)

lemma clif_others:
  assumes "clif_laws C W"
  shows "cl_call_memcpy C d s n fx = Inr fx' \<Longrightarrow> \<exists>seg. fx_grows C W fx seg fx'"
    and "cl_seal_block C b fx = Inr fx' \<Longrightarrow> fx_grows C W fx [] fx'"
    and "cl_finalize C fx = Inr fx' \<Longrightarrow> (\<forall>b. vw_code W fx' b = vw_code W fx b) \<and> vw_funcs W fx' = vw_funcs W fx"
    and "cl_switch_to_block C b fx = Inr fx' \<Longrightarrow> cl_current_block C fx' = Some b
        \<and> (\<forall>b. vw_code W fx' b = vw_code W fx b) \<and> vw_values W fx' = vw_values W fx
        \<and> vw_slots W fx' = vw_slots W fx \<and> vw_funcs W fx' = vw_funcs W fx"
  using assms by (simp_all add: clif_laws_def)

lemma fx_grows_refl: "fx_grows C W fx [] fx"
  by (simp add: fx_grows_def)

lemma fx_grows_trans:
  "fx_grows C W fx seg fx' \<Longrightarrow> fx_grows C W fx' seg' fx'' \<Longrightarrow> fx_grows C W fx (seg @ seg') fx''"
  unfolding fx_grows_def by (auto intro: map_le_trans)

section \<open>Instructions and what is emitted for them\<close>

text \<open>The constants of the fragment.\<close>

fun const_word :: "const \<Rightarrow> 64 word option" where
  "const_word (CInt n) = Some n"
| "const_word (CBool b) = Some (if b then 1 else 0)"
| "const_word CNone = Some 0"
| "const_word _ = None"

fun supported :: "cg_inst \<Rightarrow> bool" where
  "supported (CgConst c _) \<longleftrightarrow> const_word c \<noteq> None"
| "supported (CgJump _ args) \<longleftrightarrow> args = []"
| "supported (CgAlloc _ _ _) \<longleftrightarrow> False"
| "supported (CgFieldLoad _ _ _ _ _) \<longleftrightarrow> False"
| "supported _ \<longleftrightarrow> True"

fun inst_rets :: "cg_inst \<Rightarrow> nat list" where
  "inst_rets (CgUse _ r) = [r]"
| "inst_rets (CgCall _ _ r) = [r]"
| "inst_rets (CgConst _ r) = [r]"
| "inst_rets (CgFieldLoad _ _ _ _ r) = [r]"
| "inst_rets (CgReadLocalVar _ r) = [r]"
| "inst_rets (CgAlloc _ _ r) = [r]"
| "inst_rets _ = []"

fun is_exit :: "cg_inst \<Rightarrow> bool" where
  "is_exit (CgJump _ _) \<longleftrightarrow> True"
| "is_exit (CgReturn _) \<longleftrightarrow> True"
| "is_exit _ \<longleftrightarrow> False"

fun upto_exit :: "cg_inst list \<Rightarrow> cg_inst list" where
  "upto_exit [] = []"
| "upto_exit (i # is) = (if is_exit i then [i] else i # upto_exit is)"

text \<open>
  The result of compilation: the cranelift value of every instruction, the slot of every
  variable, the imported functions, and the two tables the code is built with.
\<close>

record layout_map =
  lm_values :: "nat \<rightharpoonup> ir_value tvalue"
  lm_locals :: "u32 \<rightharpoonup> stack_slot \<times> type_id \<times> ir_type"
  lm_funcs :: "func_ref \<rightharpoonup> func_id"
  lm_fids :: "value_id \<rightharpoonup> func_id"
  lm_blocks :: "nat \<rightharpoonup> ir_block"

definition temporary :: "layout_map \<Rightarrow> ir_value \<Rightarrow> bool" where
  "temporary L r \<longleftrightarrow> (\<forall>tv \<in> ran (lm_values L). as_value tv \<noteq> r)"

fun implements :: "layout_map \<Rightarrow> cg_inst \<Rightarrow> (ir_inst \<times> ir_value list) list \<Rightarrow> bool" where
  "implements L (CgConst c ret) seg \<longleftrightarrow>
     (\<exists>tv n. lm_values L ret = Some tv \<and> const_word c = Some n \<and> seg = [(Iconst IrI64 n, [as_value tv])])"
| "implements L (CgReadLocalVar var ret) seg \<longleftrightarrow>
     (\<exists>tv ss t ir. lm_values L ret = Some tv \<and> lm_locals L (span_group var) = Some (ss, t, ir)
        \<and> seg = [(StackLoad IrI64 ss 0, [as_value tv])])"
| "implements L (CgWriteLocalVar var orig) seg \<longleftrightarrow>
     (\<exists>tv ss t ir. lm_values L orig = Some tv \<and> lm_locals L (span_group var) = Some (ss, t, ir)
        \<and> (is_integer (tv_type_id tv) \<longrightarrow>
             (\<exists>r. temporary L r \<and> seg = [(StackAddr IrI64 ss 0, [r]), (StackStore (as_value tv) ss 0, [])])))"
| "implements L (CgUse v ret) seg \<longleftrightarrow>
     (\<exists>tv ty f fid. lm_values L ret = Some tv \<and> lm_funcs L f = Some fid \<and> lm_fids L v = Some fid
        \<and> seg = [(FuncAddr ty f, [as_value tv])])"
| "implements L (CgCall v args ret) seg \<longleftrightarrow>
     (\<exists>tv tvs f fid. lm_values L ret = Some tv \<and> lm_funcs L f = Some fid \<and> lm_fids L v = Some fid
        \<and> map (lm_values L) args = map Some tvs \<and> seg = [(IrCall f (map as_value tvs), [as_value tv])])"
| "implements L (CgJump to args) seg \<longleftrightarrow> (\<exists>b. lm_blocks L to = Some b \<and> seg = [(IrJump b [], [])])"
| "implements L (CgJumpIfTrue to ctrl) seg \<longleftrightarrow>
     (\<exists>tv b r. lm_values L ctrl = Some tv \<and> lm_blocks L to = Some b \<and> temporary L r
        \<and> seg = [(Iconst IrI64 1, [r]), (BrIcmp CcEqual (as_value tv) r b [], [])])"
| "implements L (CgJumpIfFalse to ctrl) seg \<longleftrightarrow>
     (\<exists>tv b r. lm_values L ctrl = Some tv \<and> lm_blocks L to = Some b \<and> temporary L r
        \<and> seg = [(Iconst IrI64 0, [r]), (BrIcmp CcEqual (as_value tv) r b [], [])])"
| "implements L (CgReturn v) seg \<longleftrightarrow> (\<exists>tv. lm_values L v = Some tv \<and> seg = [(IrReturn [as_value tv], [])])"
| "implements L _ seg \<longleftrightarrow> False"

text \<open>Values and slots are not shared.\<close>

definition layout_inj :: "layout_map \<Rightarrow> bool" where
  "layout_inj L \<longleftrightarrow>
     (\<forall>i j a b. lm_values L i = Some a \<longrightarrow> lm_values L j = Some b \<longrightarrow> as_value a = as_value b \<longrightarrow> i = j)
   \<and> (\<forall>g h a b. lm_locals L g = Some a \<longrightarrow> lm_locals L h = Some b \<longrightarrow> fst a = fst b \<longrightarrow> g = h)"

definition layout_at :: "'b clif_view \<Rightarrow> (value_id \<times> func_id) list \<Rightarrow> (nat \<times> ir_block) list \<Rightarrow> ('vg, 'cg, 'b, 'o) lower_state \<Rightarrow> layout_map" where
  "layout_at W fids blocks st =
     \<lparr>lm_values = map_of (lw_values st), lm_locals = map_of (lw_locals st), lm_funcs = vw_funcs W (lw_fx st),
      lm_fids = map_of fids, lm_blocks = map_of blocks\<rparr>"

lemmas layout_defs = layout_at_def layout_inj_def temporary_def

section \<open>Lowering one instruction\<close>

text \<open>What holds of the builder between instructions.\<close>

definition lower_ok :: "'b clif_view \<Rightarrow> (value_id \<times> func_id) list \<Rightarrow> ('vg, 'cg, 'b, 'o) lower_state \<Rightarrow> bool" where
  "lower_ok W fids st \<longleftrightarrow> layout_inj (layout_at W fids [] st)
     \<and> (\<forall>i tv. map_of (lw_values st) i = Some tv \<longrightarrow> as_value tv \<in> vw_values W (lw_fx st))
     \<and> (\<forall>g a. map_of (lw_locals st) g = Some a \<longrightarrow> fst a \<in> vw_slots W (lw_fx st))
     \<and> (\<forall>v f. map_of (lw_f_refs st) v = Some f \<longrightarrow> (\<exists>fid. map_of fids v = Some fid \<and> vw_funcs W (lw_fx st) f = Some fid))"

text \<open>Entries of the maps stay, and new values are new to cranelift.\<close>

definition lower_extends :: "'b clif_view \<Rightarrow> ('vg, 'cg, 'b, 'o) lower_state \<Rightarrow> ('vg, 'cg, 'b, 'o) lower_state \<Rightarrow> bool" where
  "lower_extends W st st' \<longleftrightarrow> map_of (lw_values st) \<subseteq>\<^sub>m map_of (lw_values st') \<and> map_of (lw_locals st) \<subseteq>\<^sub>m map_of (lw_locals st')
     \<and> vw_values W (lw_fx st) \<subseteq> vw_values W (lw_fx st') \<and> vw_funcs W (lw_fx st) \<subseteq>\<^sub>m vw_funcs W (lw_fx st')
     \<and> (\<forall>i tv. map_of (lw_values st') i = Some tv \<longrightarrow> map_of (lw_values st) i = Some tv \<or> as_value tv \<notin> vw_values W (lw_fx st))"

definition seg_results :: "(ir_inst \<times> ir_value list) list \<Rightarrow> ir_value set" where
  "seg_results seg = set (concat (map snd seg))"

lemma lower_extends_refl: "lower_extends W st st"
  by (simp add: lower_extends_def)

lemma lower_extends_trans: "lower_extends W a b \<Longrightarrow> lower_extends W b c \<Longrightarrow> lower_extends W a c"
  unfolding lower_extends_def by (auto intro: map_le_trans) blast

lemma map_le_Some: "m \<subseteq>\<^sub>m m' \<Longrightarrow> m x = Some y \<Longrightarrow> m' x = Some y"
  by (metis domI map_le_def)

lemma temporary_stays:
  assumes "temporary (layout_at W fids blocks st) r" "lower_extends W st st'" "r \<in> vw_values W (lw_fx st)"
  shows "temporary (layout_at W fids blocks st') r"
  using assms by (auto simp: layout_defs lower_extends_def ran_def) blast

lemma layout_stays:
  assumes "lower_extends W st st'"
  shows "lm_values (layout_at W fids blocks st) x = Some tv \<Longrightarrow> lm_values (layout_at W fids blocks st') x = Some tv"
    and "lm_locals (layout_at W fids blocks st) g = Some a \<Longrightarrow> lm_locals (layout_at W fids blocks st') g = Some a"
    and "lm_funcs (layout_at W fids blocks st) f = Some d \<Longrightarrow> lm_funcs (layout_at W fids blocks st') f = Some d"
    and "lm_fids (layout_at W fids blocks st') = lm_fids (layout_at W fids blocks st)"
    and "lm_blocks (layout_at W fids blocks st') = lm_blocks (layout_at W fids blocks st)"
  using assms by (auto simp: lower_extends_def layout_at_def elim: map_le_Some)

lemma arguments_stay:
  assumes "lower_extends W st st'" and "map (lm_values (layout_at W fids blocks st)) args = map Some tvs"
  shows "map (lm_values (layout_at W fids blocks st')) args = map Some tvs"
  using assms(2)
proof (induction args arbitrary: tvs)
  case (Cons a args)
  then show ?case using layout_stays(1) [OF assms(1)] by (cases tvs) auto
qed simp

lemma implements_stays:
  assumes "implements (layout_at W fids blocks st) i seg" and "lower_extends W st st'"
    and "seg_results seg \<subseteq> vw_values W (lw_fx st)"
  shows "implements (layout_at W fids blocks st') i seg"
proof -
  note keep = layout_stays [OF assms(2)] arguments_stay [OF assms(2)]
  have t: "temporary (layout_at W fids blocks st') r"
    if "temporary (layout_at W fids blocks st) r" "r \<in> seg_results seg" for r
    using temporary_stays [OF that(1) assms(2)] that(2) assms(3) by blast
  show ?thesis
  proof (cases i)
    case (CgCall v args ret)
    with assms(1) show ?thesis using keep by simp metis
  next
    case (CgWriteLocalVar var orig)
    with assms(1) obtain tv ss ty ir where w: "lm_values (layout_at W fids blocks st) orig = Some tv"
        "lm_locals (layout_at W fids blocks st) (span_group var) = Some (ss, ty, ir)"
        "is_integer (tv_type_id tv) \<longrightarrow> (\<exists>r. temporary (layout_at W fids blocks st) r
           \<and> seg = [(StackAddr IrI64 ss 0, [r]), (StackStore (as_value tv) ss 0, [])])"
      by auto
    have "is_integer (tv_type_id tv) \<longrightarrow> (\<exists>r. temporary (layout_at W fids blocks st') r
           \<and> seg = [(StackAddr IrI64 ss 0, [r]), (StackStore (as_value tv) ss 0, [])])"
      using w(3) t by (auto simp: seg_results_def)
    then show ?thesis using CgWriteLocalVar keep(1) [OF w(1)] keep(2) [OF w(2)] by auto
  next
    case (CgJumpIfTrue to ctrl)
    with assms(1) t show ?thesis using keep by (auto simp: seg_results_def)
  next
    case (CgJumpIfFalse to ctrl)
    with assms(1) t show ?thesis using keep by (auto simp: seg_results_def)
  qed (use assms(1) keep in \<open>auto; fail\<close>)+
qed

section \<open>Steps of the builder\<close>

definition step_ok ::
  "('b, 'o) clif \<Rightarrow> 'b clif_view \<Rightarrow> (value_id \<times> func_id) list \<Rightarrow> nat list \<Rightarrow> ('vg, 'cg, 'b, 'o) lower_state
    \<Rightarrow> (ir_inst \<times> ir_value list) list \<Rightarrow> ('vg, 'cg, 'b, 'o) lower_state \<Rightarrow> bool" where
  "step_ok C W fids rets st seg st' \<longleftrightarrow> lower_ok W fids st' \<and> lower_extends W st st' \<and> fx_grows C W (lw_fx st) seg (lw_fx st')
     \<and> dom (map_of (lw_values st')) = dom (map_of (lw_values st)) \<union> set rets"

text \<open>The maps of the builder are the same.\<close>

definition same_maps :: "('vg, 'cg, 'b, 'o) lower_state \<Rightarrow> ('vg, 'cg, 'b, 'o) lower_state \<Rightarrow> bool" where
  "same_maps st st' \<longleftrightarrow> lw_values st' = lw_values st \<and> lw_locals st' = lw_locals st \<and> lw_f_refs st' = lw_f_refs st"

lemma step_ok_trans:
  "step_ok C W fids rets a seg b \<Longrightarrow> step_ok C W fids rets' b seg' c \<Longrightarrow> step_ok C W fids (rets @ rets') a (seg @ seg') c"
  by (auto simp: step_ok_def intro: lower_extends_trans fx_grows_trans)

lemma step_ok_refl: "lower_ok W fids st \<Longrightarrow> step_ok C W fids [] st [] st"
  by (simp add: step_ok_def lower_extends_refl fx_grows_refl)

lemma step_ok_same:
  assumes "lower_ok W fids st" and "same_maps st st'" and "fx_grows C W (lw_fx st) seg (lw_fx st')"
  shows "step_ok C W fids [] st seg st'"
proof -
  have "\<exists>fid. map_of fids v = Some fid \<and> vw_funcs W (lw_fx st') f = Some fid" if "map_of (lw_f_refs st) v = Some f" for v f
    using assms that by (fastforce simp: lower_ok_def fx_grows_def elim: map_le_Some)
  moreover have "fst a \<in> vw_slots W (lw_fx st')" if "map_of (lw_locals st) g = Some a" for g a
    using assms that unfolding lower_ok_def fx_grows_def by blast
  ultimately show ?thesis
    using assms by (auto simp: step_ok_def lower_ok_def same_maps_def lower_extends_def fx_grows_def layout_defs)
qed

lemma step_ok_value:
  assumes "step_ok C W fids [] st seg st'" and "same_maps st st'"
    and "as_value tv \<notin> vw_values W (lw_fx st)" and "as_value tv \<in> vw_values W (lw_fx st')"
    and "map_of (lw_values st) ret = None" and "lower_ok W fids st"
  shows "step_ok C W fids [ret] st seg (set_value ret tv st')"
proof -
  have fresh: "as_value a \<noteq> as_value tv" if "map_of (lw_values st) i = Some a" for i a
    using that assms(3,6) unfolding lower_ok_def by metis
  have "layout_inj (layout_at W fids [] (set_value ret tv st'))"
    using assms fresh by (auto simp: layout_defs set_value_def same_maps_def lower_ok_def)
  with assms fresh show ?thesis
    by (auto simp: step_ok_def lower_ok_def lower_extends_def set_value_def same_maps_def map_le_def)
qed

lemma ins1_ok:
  assumes "clif_laws C W" and "result_count i = Some 1" and "ins1 C i fx = Inr (r, fx')"
  shows "fx_grows C W fx [(i, [r])] fx'" "r \<notin> vw_values W fx" "r \<in> vw_values W fx'"
proof -
  obtain rs fx1 where "cl_ins C i fx = Inr (rs, fx1)" "(case rs of [] \<Rightarrow> Inl IndexOutOfBounds | r # _ \<Rightarrow> Inr (r, fx1)) = Inr (r, fx')"
    using assms(3) unfolding ins1_def and_then_Inr_iff by (metis (no_types, lifting) case_prod_conv surj_pair)
  then have rs: "cl_ins C i fx = Inr (rs, fx')" "rs \<noteq> []" "hd rs = r"
    by (cases rs; simp)+
  have "length rs = 1" using clif_ins(3) [OF assms(1) rs(1) assms(2)] .
  with rs have "rs = [r]" by (cases rs) auto
  moreover note clif_ins(1,2) [OF assms(1) rs(1)]
  ultimately show "fx_grows C W fx [(i, [r])] fx'" "r \<notin> vw_values W fx" "r \<in> vw_values W fx'"
    by (auto simp: fx_grows_def)
qed

lemma ins0_ok:
  assumes "clif_laws C W" and "result_count i = Some 0" and "ins0 C i fx = Inr fx'"
  shows "fx_grows C W fx [(i, [])] fx'"
proof -
  obtain rs where rs: "cl_ins C i fx = Inr (rs, fx')"
    using assms(3) by (auto simp: ins0_def and_then_Inr_iff)
  show ?thesis using clif_ins(1) [OF assms(1) rs] clif_ins(3) [OF assms(1) rs assms(2)] by simp
qed

lemma emit1_ok:
  assumes "clif_laws (cx_clif K) W" and "lower_ok W fids st" and "result_count i = Some 1" and "emit1 K i st = Inr (r, st')"
  shows "step_ok (cx_clif K) W fids [] st [(i, [r])] st' \<and> same_maps st st' \<and> r \<notin> vw_values W (lw_fx st) \<and> r \<in> vw_values W (lw_fx st')
    \<and> lw_session st' = lw_session st"
proof -
  obtain fx where fx: "ins1 (cx_clif K) i (lw_fx st) = Inr (r, fx)" "st' = st\<lparr>lw_fx := fx\<rparr>"
    using assms(4) by (auto simp: emit1_def on_fx_def and_then_Inr_iff)
  then show ?thesis
    using ins1_ok [OF assms(1,3) fx(1)] assms(2) by (auto simp: same_maps_def intro!: step_ok_same)
qed

lemma emit0_ok:
  assumes "clif_laws (cx_clif K) W" and "lower_ok W fids st" and "result_count i = Some 0" and "emit0 K i st = Inr (u, st')"
  shows "step_ok (cx_clif K) W fids [] st [(i, [])] st' \<and> same_maps st st'"
proof -
  obtain fx where fx: "ins0 (cx_clif K) i (lw_fx st) = Inr fx" "st' = st\<lparr>lw_fx := fx\<rparr>"
    using assms(4) by (auto simp: emit0_def on_fx_def sdo_def and_then_Inr_iff)
  then show ?thesis
    using ins0_ok [OF assms(1,3) fx(1)] assms(2) by (auto simp: same_maps_def intro!: step_ok_same)
qed

lemma host_type_ok:
  assumes "lower_ok W fids st" and "host_type_of K val st = Inr (t, st')"
  shows "step_ok C W fids [] st [] st' \<and> same_maps st st' \<and> lw_fx st' = lw_fx st"
  using assms by (auto simp: host_type_of_def and_then_Inr_iff same_maps_def fx_grows_refl intro!: step_ok_same)

lemma func_ref_ok:
  assumes laws: "clif_laws (cx_clif K) W" and ok: "lower_ok W fids st" and run: "func_ref_of K fids val st = Inr (f, st')"
  shows "step_ok (cx_clif K) W fids [] st [] st' \<and> lw_values st' = lw_values st
    \<and> (\<exists>fid. map_of fids val = Some fid \<and> vw_funcs W (lw_fx st') f = Some fid)"
proof (cases "map_of (lw_f_refs st) val")
  case None
  with run obtain fid fx where fid: "map_of fids val = Some fid"
      and d: "om_declare_func_in_func (cx_clif K) (lw_module st) fid (lw_fx st) = (f, fx)"
      and st': "st' = st\<lparr>lw_fx := fx, lw_f_refs := assoc_put val f (lw_f_refs st)\<rparr>"
    by (auto simp: func_ref_of_def key_index_def and_then_Inr_iff split: option.splits prod.splits)
  note g = clif_import [OF laws d]
  have "step_ok (cx_clif K) W fids [] st [] (st\<lparr>lw_fx := fx\<rparr>)"
    using ok g(1) by (intro step_ok_same) (simp_all add: same_maps_def)
  then show ?thesis
    using g fid by (auto simp: st' step_ok_def lower_ok_def lower_extends_def layout_defs)
next
  case (Some g)
  with run ok show ?thesis by (auto simp: func_ref_of_def lower_ok_def intro!: step_ok_refl)
qed

lemma stack_alloc_run:
  assumes "stack_alloc K t st = Inr (ss, st')"
  shows "\<exists>n fx. cl_create_stack_slot (cx_clif K) n (lw_fx st) = (ss, fx) \<and> st' = st\<lparr>lw_fx := fx\<rparr>"
  using assms by (auto simp: stack_alloc_def on_fx_def and_then_Inr_iff split: if_splits prod.splits)

lemma ensure_slot_ok:
  assumes laws: "clif_laws (cx_clif K) W" and ok: "lower_ok W fids st" and run: "ensure_slot K g st = Inr (u, st')"
  shows "step_ok (cx_clif K) W fids [] st [] st' \<and> lw_values st' = lw_values st \<and> map_of (lw_locals st') g \<noteq> None"
proof (cases "map_of (lw_locals st) g")
  case None
  with run obtain ss fx ir n where s: "cl_create_stack_slot (cx_clif K) n (lw_fx st) = (ss, fx)"
      and st': "st' = st\<lparr>lw_fx := fx, lw_locals := assoc_put g (ss, builtin_tag BInt, ir) (lw_locals st)\<rparr>"
    by (auto simp: ensure_slot_def sbind_Inr and_then_Inr_iff dest!: stack_alloc_run)
  note gr = clif_slot [OF laws s]
  have step: "step_ok (cx_clif K) W fids [] st [] (st\<lparr>lw_fx := fx\<rparr>)"
    using ok gr(1) by (intro step_ok_same) (simp_all add: same_maps_def)
  have "fst a \<noteq> ss" if "map_of (lw_locals st) h = Some a" for h a
    using that ok gr(2) unfolding lower_ok_def by metis
  with step gr(3) None show ?thesis
    by (auto simp: st' step_ok_def lower_ok_def lower_extends_def layout_defs map_le_def) blast+
next
  case (Some a)
  with run ok show ?thesis by (auto simp: ensure_slot_def intro!: step_ok_refl)
qed

section \<open>One lemma for each instruction\<close>

text \<open>The value of one instruction, recorded under its name.\<close>

lemma emit_value_ok:
  assumes laws: "clif_laws (cx_clif K) W" and ok: "lower_ok W fids st" and one: "result_count i = Some 1"
    and new: "map_of (lw_values st) ret = None" and run: "emit1 K i st = Inr (r, st')" and tv: "as_value tv = r"
  shows "step_ok (cx_clif K) W fids [ret] st [(i, [r])] (set_value ret tv st')"
    and "lm_values (layout_at W fids blocks (set_value ret tv st')) ret = Some tv"
    and "lm_locals (layout_at W fids blocks (set_value ret tv st')) = lm_locals (layout_at W fids blocks st)"
    and "vw_funcs W (lw_fx st) f = Some d \<Longrightarrow> lm_funcs (layout_at W fids blocks (set_value ret tv st')) f = Some d"
proof -
  note e = emit1_ok [OF laws ok one run]
  show "step_ok (cx_clif K) W fids [ret] st [(i, [r])] (set_value ret tv st')"
    using e tv new ok by (auto intro!: step_ok_value)
  show "lm_values (layout_at W fids blocks (set_value ret tv st')) ret = Some tv"
    by (simp add: layout_at_def set_value_def)
  show "lm_locals (layout_at W fids blocks (set_value ret tv st')) = lm_locals (layout_at W fids blocks st)"
    using e by (simp add: layout_at_def set_value_def same_maps_def)
  show "vw_funcs W (lw_fx st) f = Some d \<Longrightarrow> lm_funcs (layout_at W fids blocks (set_value ret tv st')) f = Some d"
    using e by (auto simp: layout_at_def set_value_def step_ok_def lower_extends_def elim: map_le_Some)
qed

text \<open>What is shown of every instruction.\<close>

definition lowered_ok ::
  "('b, 'o) clif \<Rightarrow> 'b clif_view \<Rightarrow> (value_id \<times> func_id) list \<Rightarrow> (nat \<times> ir_block) list \<Rightarrow> ('vg, 'cg, 'b, 'o) lower_state
    \<Rightarrow> cg_inst \<Rightarrow> ('vg, 'cg, 'b, 'o) lower_state \<Rightarrow> bool" where
  "lowered_ok C W fids blocks st i st' \<longleftrightarrow>
     (\<exists>seg. step_ok C W fids (inst_rets i) st seg st' \<and> implements (layout_at W fids blocks st') i seg)"

lemma const_lowered_ok:
  assumes "clif_laws (cx_clif K) W" and "lower_ok W fids st" and "const_word c \<noteq> None"
    and "map_of (lw_values st) ret = None" and "lower_const K c ret st = Inr (u, st')"
  shows "lowered_ok (cx_clif K) W fids blocks st (CgConst c ret) st'"
proof -
  obtain n where n: "const_word c = Some n" using assms(3) by auto
  then obtain r st1 where run: "emit1 K (Iconst IrI64 n) st = Inr (r, st1)" and st': "st' = set_value ret (tv_imm r (const_type c)) st1"
    using assms(5) by (cases c) (auto simp: lower_const_def sbind_Inr)
  note v = emit_value_ok [OF assms(1,2) _ assms(4) run, where tv = "tv_imm r (const_type c)"]
  show ?thesis unfolding lowered_ok_def st' using n v(1,2) by (auto intro!: exI [of _ "[(Iconst IrI64 n, [r])]"])
qed

lemma read_ok:
  assumes "clif_laws (cx_clif K) W" and "lower_ok W fids st" and "map_of (lw_values st) ret = None"
    and "lower_read K var ret st = Inr (u, st')"
  shows "lowered_ok (cx_clif K) W fids blocks st (CgReadLocalVar var ret) st'"
proof -
  obtain ss t ir r st1 where l: "map_of (lw_locals st) (span_group var) = Some (ss, t, ir)"
      and run: "emit1 K (StackLoad IrI64 ss 0) st = Inr (r, st1)" and st': "st' = set_value ret (tv_imm r t) st1"
    using assms(4) by (auto simp: lower_read_def sbind_Inr and_then_Inr_iff key_index_def split: option.splits)
  note v = emit_value_ok [OF assms(1,2) _ assms(3) run, where tv = "tv_imm r t"]
  have "lm_locals (layout_at W fids blocks st) (span_group var) = Some (ss, t, ir)" using l by (simp add: layout_at_def)
  then show ?thesis
    unfolding lowered_ok_def st' using v(1-3) by (auto intro!: exI [of _ "[(StackLoad IrI64 ss 0, [r])]"])
qed

lemma use_ok:
  assumes laws: "clif_laws (cx_clif K) W" and "lower_ok W fids st" and "map_of (lw_values st) ret = None"
    and "lower_use K fids v ret st = Inr (u, st')"
  shows "lowered_ok (cx_clif K) W fids blocks st (CgUse v ret) st'"
proof -
  obtain f st1 r st2 t st3 where f: "func_ref_of K fids v st = Inr (f, st1)"
      and run: "emit1 K (FuncAddr (cl_pointer_type (cx_clif K)) f) st1 = Inr (r, st2)"
      and ty: "host_type_of K v st2 = Inr (t, st3)" and st': "st' = set_value ret (tv_reference r t) st3"
    using assms(4) by (auto simp: lower_use_def sbind_Inr)
  note g = func_ref_ok [OF laws assms(2) f]
  then obtain fid where fid: "map_of fids v = Some fid" "vw_funcs W (lw_fx st1) f = Some fid" by blast
  have ok1: "lower_ok W fids st1" using g by (simp add: step_ok_def)
  note e = emit1_ok [OF laws ok1 _ run]
  have ok2: "lower_ok W fids st2" using e by (simp add: step_ok_def)
  note h = host_type_ok [OF ok2 ty, where C = "cx_clif K"]
  have both: "step_ok (cx_clif K) W fids [] st1 [(FuncAddr (cl_pointer_type (cx_clif K)) f, [r])] st3"
    using step_ok_trans [of "cx_clif K" W fids "[]" st1 _ st2 "[]" "[]" st3] e h by auto
  have "step_ok (cx_clif K) W fids [ret] st1 [(FuncAddr (cl_pointer_type (cx_clif K)) f, [r])] st'"
    unfolding st' using both e h ok1 g assms(3) by (intro step_ok_value) (auto simp: same_maps_def)
  with g have step: "step_ok (cx_clif K) W fids [ret] st [(FuncAddr (cl_pointer_type (cx_clif K)) f, [r])] st'"
    using step_ok_trans [of "cx_clif K" W fids "[]" st "[]" st1] by fastforce
  have "vw_funcs W (lw_fx st') f = Some fid"
    using fid(2) both by (auto simp: st' set_value_def step_ok_def lower_extends_def elim: map_le_Some)
  then show ?thesis
    unfolding lowered_ok_def using step fid(1)
    by (auto simp: layout_at_def st' set_value_def intro!: exI [of _ "[(FuncAddr (cl_pointer_type (cx_clif K)) f, [r])]"])
qed

lemma operands_run:
  "operand_values vals args = Inr vs \<Longrightarrow> \<exists>tvs. map (map_of vals) args = map Some tvs \<and> vs = map as_value tvs"
proof (induction args arbitrary: vs)
  case (Cons a args)
  then obtain tv rest where a: "map_of vals a = Some tv" "operand_values vals args = Inr rest" "vs = as_value tv # rest"
    by (auto simp: key_index_def and_then_Inr_iff split: option.splits)
  with Cons.IH obtain tvs where "map (map_of vals) args = map Some tvs" "rest = map as_value tvs" by blast
  with a show ?case by (intro exI [of _ "tv # tvs"]) simp
qed simp

lemma call_ok:
  assumes laws: "clif_laws (cx_clif K) W" and "lower_ok W fids st" and "map_of (lw_values st) ret = None"
    and "lower_call K fids v args ret st = Inr (u, st')"
  shows "lowered_ok (cx_clif K) W fids blocks st (CgCall v args ret) st'"
proof -
  obtain f st1 vs rs st2 t st3 k ret_t where f: "func_ref_of K fids v st = Inr (f, st1)"
      and vs: "operand_values (lw_values st1) args = Inr vs"
      and run: "on_fx (cl_ins (cx_clif K) (IrCall f vs)) st1 = Inr (rs, st2)"
      and ty: "host_type_of K v st2 = Inr (t, st3)"
      and res: "(case rs of [rval] \<Rightarrow> (\<lambda>st. Inr ((), set_value ret (tv_imm rval ret_t) st)) | _ \<Rightarrow> slift (Inl TodoMacro)) st3 = Inr (u, st')"
    using assms(4) by (auto simp: lower_call_def sbind_Inr kind_of_def slift_def and_then_Inr_iff)
  from res obtain r where r: "rs = [r]" and st': "st' = set_value ret (tv_imm r ret_t) st3"
    by (auto split: list.splits)
  note g = func_ref_ok [OF laws assms(2) f]
  then obtain fid where fid: "map_of fids v = Some fid" "vw_funcs W (lw_fx st1) f = Some fid" by blast
  have ok1: "lower_ok W fids st1" using g by (simp add: step_ok_def)
  obtain tvs where tvs: "map (map_of (lw_values st1)) args = map Some tvs" "vs = map as_value tvs"
    using operands_run [OF vs] by blast
  obtain fx where fx: "cl_ins (cx_clif K) (IrCall f vs) (lw_fx st1) = Inr ([r], fx)" and st2: "st2 = st1\<lparr>lw_fx := fx\<rparr>"
    using run r by (auto simp: on_fx_def and_then_Inr_iff)
  let ?seg = "[(IrCall f vs, [r])]"
  have e: "step_ok (cx_clif K) W fids [] st1 ?seg st2" "same_maps st1 st2"
      "r \<notin> vw_values W (lw_fx st1)" "r \<in> vw_values W (lw_fx st2)"
    using clif_ins(1,2) [OF laws fx] ok1 by (auto simp: st2 same_maps_def fx_grows_def intro!: step_ok_same)
  have ok2: "lower_ok W fids st2" using e by (simp add: step_ok_def)
  note h = host_type_ok [OF ok2 ty, where C = "cx_clif K"]
  have both: "step_ok (cx_clif K) W fids [] st1 ?seg st3"
    using step_ok_trans [OF e(1) conjunct1 [OF h]] by simp
  have val: "step_ok (cx_clif K) W fids [ret] st1 ?seg st'"
    unfolding st' using both e h ok1 g assms(3) by (intro step_ok_value) (auto simp: same_maps_def)
  with g have step: "step_ok (cx_clif K) W fids [ret] st ?seg st'"
    using step_ok_trans [of "cx_clif K" W fids "[]" st "[]" st1] by fastforce
  have ext: "lower_extends W st1 st'" using val by (simp add: step_ok_def)
  have "map (lm_values (layout_at W fids blocks st1)) args = map Some tvs" using tvs(1) by (simp add: layout_at_def)
  then have "map (lm_values (layout_at W fids blocks st')) args = map Some tvs" by (rule arguments_stay [OF ext])
  moreover have "lm_funcs (layout_at W fids blocks st') f = Some fid"
    by (rule layout_stays(3) [OF ext]) (simp add: layout_at_def fid(2))
  moreover have "lm_values (layout_at W fids blocks st') ret = Some (tv_imm r ret_t)" "lm_fids (layout_at W fids blocks st') v = Some fid"
    by (simp_all add: layout_at_def st' set_value_def fid(1))
  ultimately have "implements (layout_at W fids blocks st') (CgCall v args ret) ?seg"
    using tvs(2) by (simp del: map_eq_conv)
  with step show ?thesis by (auto simp: lowered_ok_def)
qed

lemma temporary_fresh:
  assumes "lower_ok W fids st" and "r \<notin> vw_values W (lw_fx st)" and "lw_values st' = lw_values st"
  shows "temporary (layout_at W fids blocks st') r"
  using assms by (auto simp: temporary_def layout_at_def lower_ok_def ran_def)

lemma branch_ok:
  assumes laws: "clif_laws (cx_clif K) W" and "lower_ok W fids st" and "lower_branch K blocks n to ctrl st = Inr (u, st')"
  shows "\<exists>tv b r. step_ok (cx_clif K) W fids [] st [(Iconst IrI64 n, [r]), (BrIcmp CcEqual (as_value tv) r b [], [])] st'
    \<and> lm_values (layout_at W fids blocks st') ctrl = Some tv \<and> map_of blocks to = Some b \<and> temporary (layout_at W fids blocks st') r"
proof -
  obtain r st1 tv b where run: "emit1 K (Iconst IrI64 n) st = Inr (r, st1)"
      and tv: "map_of (lw_values st1) ctrl = Some tv" and b: "map_of blocks to = Some b"
      and br: "emit0 K (BrIcmp CcEqual (as_value tv) r b []) st1 = Inr (u, st')"
    using assms(3) by (auto simp: lower_branch_def sbind_Inr key_index_def and_then_Inr_iff split: option.splits)
  note e = emit1_ok [OF laws assms(2) _ run]
  have ok1: "lower_ok W fids st1" using e by (simp add: step_ok_def)
  note g = emit0_ok [OF laws ok1 _ br]
  have "step_ok (cx_clif K) W fids ([] @ []) st ([(Iconst IrI64 n, [r])] @ [(BrIcmp CcEqual (as_value tv) r b [], [])]) st'"
    using e g by (intro step_ok_trans) auto
  moreover have "temporary (layout_at W fids blocks st') r"
    using e g by (intro temporary_fresh [OF assms(2)]) (simp_all add: same_maps_def)
  moreover have "lm_values (layout_at W fids blocks st') ctrl = Some tv" using tv g by (simp add: layout_at_def same_maps_def)
  ultimately show ?thesis using b by auto
qed

lemma write_ok:
  assumes laws: "clif_laws (cx_clif K) W" and ok: "lower_ok W fids st" and run: "lower_write K var orig st = Inr (u, st')"
  shows "lowered_ok (cx_clif K) W fids blocks st (CgWriteLocalVar var orig) st'"
proof -
  let ?rest = "\<lambda>ss slot_t dest val. if is_integer (tv_type_id val) then emit0 K (StackStore (as_value val) ss 0)
     else
       sbind (\<lambda>st. slift (within_stack (size_of (cc_depth (cx_calls K)) (ss_types (lw_session st)) slot_t)) st) (\<lambda>n.
       sbind (emit1 K (Iconst IrI64 (word_of_nat n))) (\<lambda>n.
       on_fx (sdo (cl_call_memcpy (cx_clif K) dest (as_value val) n))))"
  obtain st1 ss slot_t ir dest st2 tv where s: "ensure_slot K (span_group var) st = Inr ((), st1)"
      and l: "map_of (lw_locals st1) (span_group var) = Some (ss, slot_t, ir)"
      and d: "emit1 K (StackAddr IrI64 ss 0) st1 = Inr (dest, st2)" and tv: "map_of (lw_values st2) orig = Some tv"
      and r: "?rest ss slot_t dest tv st2 = Inr (u, st')"
    using run by (auto simp: lower_write_def sbind_Inr slift_def key_index_def and_then_Inr_iff split: option.splits)
  note e = ensure_slot_ok [OF laws ok s]
  have ok1: "lower_ok W fids st1" using e by (simp add: step_ok_def)
  note a = emit1_ok [OF laws ok1 _ d]
  have ok2: "lower_ok W fids st2" using a by (simp add: step_ok_def)
  have st2: "step_ok (cx_clif K) W fids [] st [(StackAddr IrI64 ss 0, [dest])] st2"
    using step_ok_trans [of "cx_clif K" W fids "[]" st "[]" st1 "[]"] e a by fastforce
  have main: "\<exists>seg. step_ok (cx_clif K) W fids [] st2 seg st' \<and> same_maps st2 st'
      \<and> (is_integer (tv_type_id tv) \<longrightarrow> seg = [(StackStore (as_value tv) ss 0, [])])"
  proof (cases "is_integer (tv_type_id tv)")
    case True
    with r have em: "emit0 K (StackStore (as_value tv) ss 0) st2 = Inr (u, st')" by simp
    show ?thesis using emit0_ok [OF laws ok2 _ em] by (intro exI [of _ "[(StackStore (as_value tv) ss 0, [])]"]) simp
  next
    case False
    with r obtain n v st3 fx where c: "emit1 K (Iconst IrI64 (word_of_nat n)) st2 = Inr (v, st3)"
        and m: "cl_call_memcpy (cx_clif K) dest (as_value tv) v (lw_fx st3) = Inr fx" and st': "st' = st3\<lparr>lw_fx := fx\<rparr>"
      by (auto simp: sbind_Inr slift_def on_fx_def sdo_def and_then_Inr_iff)
    note c' = emit1_ok [OF laws ok2 _ c]
    have ok3: "lower_ok W fids st3" using c' by (simp add: step_ok_def)
    obtain seg where "fx_grows (cx_clif K) W (lw_fx st3) seg fx" using clif_others(1) [OF laws m] by blast
    then have "step_ok (cx_clif K) W fids [] st3 seg st'" "same_maps st3 st'"
      using ok3 by (auto simp: st' same_maps_def intro!: step_ok_same)
    then show ?thesis using c' False step_ok_trans [of "cx_clif K" W fids "[]" st2 _ st3 "[]"] by (fastforce simp: same_maps_def)
  qed
  then obtain seg where seg: "step_ok (cx_clif K) W fids [] st2 seg st'" "same_maps st2 st'"
      "is_integer (tv_type_id tv) \<longrightarrow> seg = [(StackStore (as_value tv) ss 0, [])]" by blast
  have step: "step_ok (cx_clif K) W fids [] st ([(StackAddr IrI64 ss 0, [dest])] @ seg) st'"
    using step_ok_trans [OF st2 seg(1)] by simp
  have "lm_values (layout_at W fids blocks st') orig = Some tv"
       "lm_locals (layout_at W fids blocks st') (span_group var) = Some (ss, slot_t, ir)"
    using tv l a seg(2) by (simp_all add: layout_at_def same_maps_def)
  moreover have "temporary (layout_at W fids blocks st') dest"
    using a seg(2) by (intro temporary_fresh [OF ok1]) (simp_all add: same_maps_def)
  ultimately show ?thesis using step seg(3) by (auto simp: lowered_ok_def)
qed

text \<open>Every instruction of the fragment.\<close>

lemma lower_inst_ok:
  assumes "clif_laws (cx_clif K) W" and "lower_ok W fids st" and "supported i"
    and "\<And>r. r \<in> set (inst_rets i) \<Longrightarrow> map_of (lw_values st) r = None"
    and "lower_inst K alloc blocks fids i st = Inr (e, st')"
  shows "lowered_ok (cx_clif K) W fids blocks st i st' \<and> e = (if is_exit i then BreakLoop else NextInst)"
proof (cases i)
  case (CgJump to args)
  with assms(3,5) obtain b where b: "map_of blocks to = Some b" "emit0 K (IrJump b []) st = Inr ((), st')" "e = BreakLoop"
    by (auto simp: lower_inst_def goes_on_def sbind_Inr lower_jump_def key_index_def and_then_Inr_iff split: option.splits)
  then show ?thesis using emit0_ok [OF assms(1,2) _ b(2)] CgJump by (auto simp: lowered_ok_def layout_at_def)
next
  case (CgJumpIfTrue to ctrl)
  with assms(5) have b: "lower_branch K blocks 1 to ctrl st = Inr ((), st')" "e = NextInst"
    by (auto simp: lower_inst_def goes_on_def sbind_Inr)
  then show ?thesis using branch_ok [OF assms(1,2) b(1)] CgJumpIfTrue by (fastforce simp: lowered_ok_def layout_at_def)
next
  case (CgJumpIfFalse to ctrl)
  with assms(5) have b: "lower_branch K blocks 0 to ctrl st = Inr ((), st')" "e = NextInst"
    by (auto simp: lower_inst_def goes_on_def sbind_Inr)
  then show ?thesis using branch_ok [OF assms(1,2) b(1)] CgJumpIfFalse by (fastforce simp: lowered_ok_def layout_at_def)
next
  case (CgReturn v)
  with assms(5) obtain tv where b: "map_of (lw_values st) v = Some tv" "emit0 K (IrReturn [as_value tv]) st = Inr ((), st')" "e = BreakLoop"
    by (auto simp: lower_inst_def goes_on_def sbind_Inr key_index_def and_then_Inr_iff split: option.splits)
  then show ?thesis using emit0_ok [OF assms(1,2) _ b(2)] CgReturn by (auto simp: lowered_ok_def layout_at_def same_maps_def)
qed (use assms in \<open>auto simp: lower_inst_def goes_on_def sbind_Inr dest: const_lowered_ok read_ok use_ok call_ok write_ok; fail\<close>)+

section \<open>Blocks\<close>

definition code_rets :: "cg_inst list \<Rightarrow> nat list" where
  "code_rets is = concat (map inst_rets (upto_exit is))"

definition implements_all :: "layout_map \<Rightarrow> cg_inst list \<Rightarrow> (ir_inst \<times> ir_value list) list \<Rightarrow> 'b clif_view \<Rightarrow> 'b \<Rightarrow> bool" where
  "implements_all L is code W fx \<longleftrightarrow>
     (\<exists>segs. list_all2 (implements L) (upto_exit is) segs \<and> code = concat segs \<and> (\<forall>seg \<in> set segs. seg_results seg \<subseteq> vw_values W fx))"

lemma implements_all_stays:
  assumes "implements_all (layout_at W fids blocks st) is code W (lw_fx st)" and "lower_extends W st st'"
  shows "implements_all (layout_at W fids blocks st') is code W (lw_fx st')"
proof -
  obtain segs where segs: "list_all2 (implements (layout_at W fids blocks st)) (upto_exit is) segs" "code = concat segs"
      "\<forall>seg \<in> set segs. seg_results seg \<subseteq> vw_values W (lw_fx st)"
    using assms(1) by (auto simp: implements_all_def)
  have "list_all2 (implements (layout_at W fids blocks st')) (upto_exit is) segs"
    using segs(1,3) implements_stays [OF _ assms(2)] by (simp add: list_all2_conv_all_nth)
  moreover have "\<forall>seg \<in> set segs. seg_results seg \<subseteq> vw_values W (lw_fx st')"
    using segs(3) assms(2) by (auto simp: lower_extends_def)
  ultimately show ?thesis using segs(2) by (auto simp: implements_all_def)
qed

lemma step_results: "step_ok C W fids rets st seg st' \<Longrightarrow> seg_results seg \<subseteq> vw_values W (lw_fx st')"
  by (simp add: step_ok_def fx_grows_def seg_results_def)

lemma lower_insts_ok:
  assumes laws: "clif_laws (cx_clif K) W" and "lower_ok W fids st" and "list_all supported is" and "distinct (code_rets is)"
    and "set (code_rets is) \<inter> dom (map_of (lw_values st)) = {}" and "lower_insts K alloc blocks fids is st = Inr (u, st')"
  shows "\<exists>code. step_ok (cx_clif K) W fids (code_rets is) st code st'
    \<and> implements_all (layout_at W fids blocks st') is code W (lw_fx st')"
  using assms(2-)
proof (induction "is" arbitrary: st)
  case Nil
  then show ?case
    using step_ok_refl [OF Nil(1)] by (auto simp: code_rets_def implements_all_def)
next
  case (Cons i "is")
  from Cons(6) obtain e st1 where i: "lower_inst K alloc blocks fids i st = Inr (e, st1)"
      and rest: "(case e of BreakLoop \<Rightarrow> sret () | NextInst \<Rightarrow> lower_insts K alloc blocks fids is) st1 = Inr (u, st')"
    by (auto simp: sbind_Inr)
  have new: "map_of (lw_values st) r = None" if "r \<in> set (inst_rets i)" for r
    using that Cons(5) by (auto simp: code_rets_def split: if_splits)
  obtain seg where seg: "step_ok (cx_clif K) W fids (inst_rets i) st seg st1" "implements (layout_at W fids blocks st1) i seg"
      and e: "e = (if is_exit i then BreakLoop else NextInst)"
    using lower_inst_ok [OF laws Cons(2) _ new i] Cons(3) by (auto simp: lowered_ok_def)
  show ?case
  proof (cases "is_exit i")
    case True
    with e rest have "st' = st1" by simp
    with True seg show ?thesis
      using step_results [OF seg(1)]
      by (intro exI [of _ seg]) (auto simp: code_rets_def implements_all_def intro!: exI [of _ "[seg]"])
  next
    case False
    have ok1: "lower_ok W fids st1" using seg(1) by (simp add: step_ok_def)
    have rets: "code_rets (i # is) = inst_rets i @ code_rets is" using False by (simp add: code_rets_def)
    have "dom (map_of (lw_values st1)) = dom (map_of (lw_values st)) \<union> set (inst_rets i)" using seg(1) by (simp add: step_ok_def)
    with Cons(4,5) rets have "set (code_rets is) \<inter> dom (map_of (lw_values st1)) = {}" "distinct (code_rets is)" by auto
    moreover have "lower_insts K alloc blocks fids is st1 = Inr (u, st')" using rest e False by simp
    ultimately obtain code where code: "step_ok (cx_clif K) W fids (code_rets is) st1 code st'"
        "implements_all (layout_at W fids blocks st') is code W (lw_fx st')"
      using Cons(1) [OF ok1] Cons(3) by auto
    have ext: "lower_extends W st1 st'" using code(1) by (simp add: step_ok_def)
    obtain segs where segs: "list_all2 (implements (layout_at W fids blocks st')) (upto_exit is) segs" "code = concat segs"
        "\<forall>seg \<in> set segs. seg_results seg \<subseteq> vw_values W (lw_fx st')"
      using code(2) by (auto simp: implements_all_def)
    have "implements (layout_at W fids blocks st') i seg"
      using implements_stays [OF seg(2) ext step_results [OF seg(1)]] .
    moreover have "seg_results seg \<subseteq> vw_values W (lw_fx st')"
      using step_results [OF seg(1)] ext by (auto simp: lower_extends_def)
    ultimately have "implements_all (layout_at W fids blocks st') (i # is) (seg @ code) W (lw_fx st')"
      using segs False unfolding implements_all_def by (intro exI [of _ "seg # segs"]) simp
    then show ?thesis using step_ok_trans [OF seg(1) code(1)] rets by auto
  qed
qed

text \<open>Lowering one block fills that block and leaves the others alone.\<close>

definition block_code :: "('vg, 'g, 'cg, 'b, 'o) backend_cx \<Rightarrow> 'cg \<Rightarrow> nat \<Rightarrow> cg_inst list" where
  "block_code K cfg ix = (case get_at (g_weights (cc_code_graph (cx_calls K)) cfg) ix of None \<Rightarrow> [] | Some is \<Rightarrow> is)"

definition blocks_ok ::
  "('vg, 'g, 'cg, 'b, 'o) backend_cx \<Rightarrow> 'b clif_view \<Rightarrow> (value_id \<times> func_id) list \<Rightarrow> (nat \<times> ir_block) list \<Rightarrow> 'cg \<Rightarrow> nat list
    \<Rightarrow> ('vg, 'cg, 'b, 'o) lower_state \<Rightarrow> ('vg, 'cg, 'b, 'o) lower_state \<Rightarrow> bool" where
  "blocks_ok K W fids blocks cfg ixs st st' \<longleftrightarrow> lower_ok W fids st' \<and> lower_extends W st st'
     \<and> dom (map_of (lw_values st')) = dom (map_of (lw_values st)) \<union> set (concat (map (\<lambda>ix. code_rets (block_code K cfg ix)) ixs))
     \<and> (\<forall>b. (\<forall>ix \<in> set ixs. map_of blocks ix \<noteq> Some b) \<longrightarrow> vw_code W (lw_fx st') b = vw_code W (lw_fx st) b)
     \<and> (\<forall>ix \<in> set ixs. \<exists>b. map_of blocks ix = Some b
          \<and> implements_all (layout_at W fids blocks st') (block_code K cfg ix) (vw_code W (lw_fx st') b) W (lw_fx st'))"

lemma lower_block_ok:
  assumes laws: "clif_laws (cx_clif K) W" and ok: "lower_ok W fids st" and "list_all supported (block_code K cfg ix)"
    and "distinct (code_rets (block_code K cfg ix))" and "set (code_rets (block_code K cfg ix)) \<inter> dom (map_of (lw_values st)) = {}"
    and empty: "\<And>b. map_of blocks ix = Some b \<Longrightarrow> vw_code W (lw_fx st) b = []"
    and run: "lower_block K alloc cfg blocks fids ix st = Inr (u, st')"
  shows "blocks_ok K W fids blocks cfg [ix] st st'"
proof -
  let ?C = "cx_clif K"
  obtain b st1 "is" st2 where b: "map_of blocks ix = Some b"
      and sw: "(if cl_current_block ?C (lw_fx st) \<noteq> Some b then on_fx (sdo (cl_switch_to_block ?C b)) st else Inr ((), st)) = Inr ((), st1)"
      and "is": "get_at (g_weights (cc_code_graph (cx_calls K)) cfg) ix = Some is"
      and insts: "lower_insts K alloc blocks fids is st1 = Inr ((), st2)"
      and seal: "on_fx (sdo (cl_seal_block ?C b)) st2 = Inr (u, st')"
    using run by (auto simp: lower_block_def key_index_def and_then_Inr_iff sbind_Inr split: option.splits)
  have block: "block_code K cfg ix = is" using "is" by (simp add: block_code_def)
  have st1: "lower_ok W fids st1 \<and> same_maps st st1 \<and> cl_current_block ?C (lw_fx st1) = Some b
      \<and> (\<forall>b. vw_code W (lw_fx st1) b = vw_code W (lw_fx st) b) \<and> lower_extends W st st1"
  proof (cases "cl_current_block ?C (lw_fx st) = Some b")
    case True
    with sw ok show ?thesis by (simp add: same_maps_def lower_extends_refl)
  next
    case False
    with sw obtain fx where fx: "cl_switch_to_block ?C b (lw_fx st) = Inr fx" and st1: "st1 = st\<lparr>lw_fx := fx\<rparr>"
      by (auto simp: on_fx_def sdo_def and_then_Inr_iff)
    show ?thesis using clif_others(4) [OF laws fx] ok
      by (simp add: st1 same_maps_def lower_extends_def lower_ok_def layout_defs)
  qed
  then have "set (code_rets is) \<inter> dom (map_of (lw_values st1)) = {}" using assms(5) by (simp add: same_maps_def block)
  then obtain code where code: "step_ok ?C W fids (code_rets is) st1 code st2"
      "implements_all (layout_at W fids blocks st2) is code W (lw_fx st2)"
    using lower_insts_ok [OF laws _ _ _ _ insts] st1 assms(3,4) by (auto simp: block)
  obtain fx where fx: "cl_seal_block ?C b (lw_fx st2) = Inr fx" and st': "st' = st2\<lparr>lw_fx := fx\<rparr>"
    using seal by (auto simp: on_fx_def sdo_def and_then_Inr_iff)
  have "lower_ok W fids st2" using code(1) by (simp add: step_ok_def)
  then have sealed: "step_ok ?C W fids [] st2 [] st'"
    using clif_others(2) [OF laws fx] by (auto simp: st' same_maps_def intro!: step_ok_same)
  note all = step_ok_trans [OF code(1) sealed]
  have ext: "lower_extends W st st'" using st1 all by (auto simp: step_ok_def intro: lower_extends_trans)
  have grows: "vw_code W (lw_fx st') c = vw_code W (lw_fx st) c @ (if c = b then code else [])" for c
    using all st1 by (auto simp: step_ok_def fx_grows_def)
  have "implements_all (layout_at W fids blocks st') is code W (lw_fx st')"
    using implements_all_stays [OF code(2)] sealed by (simp add: step_ok_def)
  moreover have "vw_code W (lw_fx st') b = code" using grows [of b] empty [OF b] by simp
  ultimately show ?thesis
    using ext grows b all st1 block by (auto simp: blocks_ok_def step_ok_def same_maps_def)
qed

lemma run_blocks_ok:
  assumes laws: "clif_laws (cx_clif K) W" and "lower_ok W fids st"
    and "\<And>ix. ix \<in> set ixs \<Longrightarrow> list_all supported (block_code K cfg ix)"
    and "distinct (concat (map (\<lambda>ix. code_rets (block_code K cfg ix)) ixs))"
    and "set (concat (map (\<lambda>ix. code_rets (block_code K cfg ix)) ixs)) \<inter> dom (map_of (lw_values st)) = {}"
    and "distinct ixs" and inj: "\<And>i j b. map_of blocks i = Some b \<Longrightarrow> map_of blocks j = Some b \<Longrightarrow> i = j"
    and "\<And>ix b. ix \<in> set ixs \<Longrightarrow> map_of blocks ix = Some b \<Longrightarrow> vw_code W (lw_fx st) b = []"
    and "run_steps (lower_block K alloc cfg blocks fids) ixs st = Inr st'"
  shows "blocks_ok K W fids blocks cfg ixs st st'"
  using assms(2-6,8-)
proof (induction ixs arbitrary: st)
  case Nil
  then show ?case by (simp add: blocks_ok_def lower_extends_refl)
next
  case (Cons ix ixs)
  from Cons(8) obtain st1 where one: "lower_block K alloc cfg blocks fids ix st = Inr ((), st1)"
      and rest: "run_steps (lower_block K alloc cfg blocks fids) ixs st1 = Inr st'"
    by (auto simp: and_then_Inr_iff)
  have first: "blocks_ok K W fids blocks cfg [ix] st st1"
  proof (rule lower_block_ok [OF laws Cons(2) _ _ _ _ one])
    show "vw_code W (lw_fx st) b = []" if "map_of blocks ix = Some b" for b
      by (rule Cons(7) [OF _ that]) simp
  qed (use Cons(3-5) in auto)
  obtain b where b: "map_of blocks ix = Some b"
      "implements_all (layout_at W fids blocks st1) (block_code K cfg ix) (vw_code W (lw_fx st1) b) W (lw_fx st1)"
    using first by (auto simp: blocks_ok_def)
  have dom1: "dom (map_of (lw_values st1)) = dom (map_of (lw_values st)) \<union> set (code_rets (block_code K cfg ix))"
    and ok1: "lower_ok W fids st1" using first by (auto simp: blocks_ok_def)
  have others: "vw_code W (lw_fx st1) c = vw_code W (lw_fx st) c" if "c \<noteq> b" for c
    using first b that by (auto simp: blocks_ok_def)
  have "blocks_ok K W fids blocks cfg ixs st1 st'"
  proof (rule Cons(1) [OF ok1 _ _ _ _ _ rest])
    show "set (concat (map (\<lambda>ix. code_rets (block_code K cfg ix)) ixs)) \<inter> dom (map_of (lw_values st1)) = {}"
      using Cons(4,5) by (auto simp: dom1)
    show "vw_code W (lw_fx st1) c = []" if "jx \<in> set ixs" "map_of blocks jx = Some c" for jx c
    proof -
      have "c \<noteq> b" using that b(1) inj Cons(6) by auto
      then show ?thesis using others Cons(7) that by auto
    qed
  qed (use Cons(3,4,6) in auto)
  moreover have "\<forall>jx \<in> set ixs. map_of blocks jx \<noteq> Some b" using inj b(1) Cons(6) by (metis distinct.simps(2))
  with calculation have "vw_code W (lw_fx st') b = vw_code W (lw_fx st1) b" by (simp add: blocks_ok_def)
  moreover from calculation(1) have "implements_all (layout_at W fids blocks st') (block_code K cfg ix) (vw_code W (lw_fx st1) b) W (lw_fx st')"
    using implements_all_stays [OF b(2)] by (simp add: blocks_ok_def)
  ultimately show ?case
    using first b(1) others by (auto simp: blocks_ok_def intro: lower_extends_trans)
qed

end
