(* ===== verification/CodegenRun.thy ===== *)
theory CodegenRun
  imports CodegenSim
begin

text \<open>
  Executing the code of a function: the meaning of the instructions for code generation, what
  cranelift documents of the instructions that are emitted for them, and the simulation between
  the two.
\<close>

section \<open>The meaning of the instructions\<close>

record 'w cg_state =
  cs_values :: "nat \<rightharpoonup> 64 word"
  cs_locals :: "u32 \<rightharpoonup> 64 word"
  cs_world :: 'w

text \<open>What a program does besides the function at hand: calls, and the addresses of functions.\<close>

record 'w callees =
  ca_call :: "value_id \<Rightarrow> 64 word list \<Rightarrow> 'w \<Rightarrow> 64 word \<times> 'w"
  ca_addr :: "value_id \<Rightarrow> 64 word"

datatype control = Next | Goto nat | ReturnWith "64 word list"

definition bind_result :: "nat \<Rightarrow> 64 word \<Rightarrow> 'w cg_state \<Rightarrow> control \<times> 'w cg_state" where
  "bind_result r w s = (Next, s\<lparr>cs_values := (cs_values s)(r \<mapsto> w)\<rparr>)"

text \<open>
  A tested value is 1 or 0. \<open>None\<close> is an operand without a value, or an instruction outside the
  fragment.
\<close>

fun cg_step :: "'w callees \<Rightarrow> cg_inst \<Rightarrow> 'w cg_state \<Rightarrow> (control \<times> 'w cg_state) option" where
  "cg_step A (CgConst c r) s = map_option (\<lambda>w. bind_result r w s) (const_word c)"
| "cg_step A (CgReadLocalVar var r) s = map_option (\<lambda>w. bind_result r w s) (cs_locals s (span_group var))"
| "cg_step A (CgWriteLocalVar var v) s =
     map_option (\<lambda>w. (Next, s\<lparr>cs_locals := (cs_locals s)(span_group var \<mapsto> w)\<rparr>)) (cs_values s v)"
| "cg_step A (CgUse v r) s = Some (bind_result r (ca_addr A v) s)"
| "cg_step A (CgCall v args r) s =
     (if list_all (\<lambda>a. cs_values s a \<noteq> None) args then
        (case ca_call A v (map (\<lambda>a. the (cs_values s a)) args) (cs_world s) of
           (w, world) \<Rightarrow> Some (bind_result r w (s\<lparr>cs_world := world\<rparr>)))
      else None)"
| "cg_step A (CgJump to args) s = (if args = [] then Some (Goto to, s) else None)"
| "cg_step A (CgJumpIfTrue to c) s = map_option (\<lambda>w. (if w = 1 then Goto to else Next, s)) (cs_values s c)"
| "cg_step A (CgJumpIfFalse to c) s = map_option (\<lambda>w. (if w = 0 then Goto to else Next, s)) (cs_values s c)"
| "cg_step A (CgReturn v) s = map_option (\<lambda>w. (ReturnWith [w], s)) (cs_values s v)"
| "cg_step A _ s = None"

fun cg_block :: "'w callees \<Rightarrow> cg_inst list \<Rightarrow> 'w cg_state \<Rightarrow> (control \<times> 'w cg_state) option" where
  "cg_block A [] s = Some (Next, s)"
| "cg_block A (i # is) s =
     (case cg_step A i s of
        None \<Rightarrow> None
      | Some (c, s') \<Rightarrow> (if c = Next then cg_block A is s' else Some (c, s')))"

text \<open>Running a function from a block to a return.\<close>

inductive cg_run :: "'w callees \<Rightarrow> (nat \<Rightarrow> cg_inst list) \<Rightarrow> nat \<Rightarrow> 'w cg_state \<Rightarrow> 64 word list \<Rightarrow> 'w cg_state \<Rightarrow> bool"
  for A code where
  cg_return: "cg_block A (code ix) s = Some (ReturnWith ws, s') \<Longrightarrow> cg_run A code ix s ws s'"
| cg_goto: "cg_block A (code ix) s = Some (Goto to, s1) \<Longrightarrow> cg_run A code to s1 ws s' \<Longrightarrow> cg_run A code ix s ws s'"

section \<open>What cranelift documents of its instructions\<close>

text \<open>
  A machine executes one instruction with its results; the functions that a call can name are the
  imported ones. The eight bytes at the start of a stack slot are read and written as a whole.
\<close>

record ('m, 'w) machine =
  mc_value :: "'m \<Rightarrow> ir_value \<Rightarrow> 64 word"
  mc_slot :: "'m \<Rightarrow> stack_slot \<Rightarrow> 64 word"
  mc_world :: "'m \<Rightarrow> 'w"
  mc_exec :: "ir_inst \<Rightarrow> ir_value list \<Rightarrow> 'm \<Rightarrow> control \<times> 'm"

definition sets_value :: "('m, 'w) machine \<Rightarrow> ir_value \<Rightarrow> 64 word \<Rightarrow> 'm \<Rightarrow> control \<times> 'm \<Rightarrow> bool" where
  "sets_value M r w m cm \<longleftrightarrow> fst cm = Next \<and> mc_value M (snd cm) = (mc_value M m)(r := w)
     \<and> mc_slot M (snd cm) = mc_slot M m \<and> mc_world M (snd cm) = mc_world M m"

definition machine_laws ::
  "('m, 'w) machine \<Rightarrow> (func_id \<Rightarrow> 64 word list \<Rightarrow> 'w \<Rightarrow> 64 word \<times> 'w) \<Rightarrow> (func_id \<Rightarrow> 64 word) \<Rightarrow> (func_ref \<rightharpoonup> func_id) \<Rightarrow> bool" where
  "machine_laws M call addr funcs \<longleftrightarrow>
     (\<forall>n r m. sets_value M r n m (mc_exec M (Iconst IrI64 n) [r] m))
   \<and> (\<forall>ss r m. sets_value M r (mc_slot M m ss) m (mc_exec M (StackLoad IrI64 ss 0) [r] m))
   \<and> (\<forall>ss r m. \<exists>w. sets_value M r w m (mc_exec M (StackAddr IrI64 ss 0) [r] m))
   \<and> (\<forall>ty f fid r m. funcs f = Some fid \<longrightarrow> sets_value M r (addr fid) m (mc_exec M (FuncAddr ty f) [r] m))
   \<and> (\<forall>v ss m. \<exists>m'. mc_exec M (StackStore v ss 0) [] m = (Next, m') \<and> mc_value M m' = mc_value M m
        \<and> mc_slot M m' = (mc_slot M m)(ss := mc_value M m v) \<and> mc_world M m' = mc_world M m)
   \<and> (\<forall>f fid vs r m. funcs f = Some fid \<longrightarrow> (\<exists>m'. mc_exec M (IrCall f vs) [r] m = (Next, m')
        \<and> mc_value M m' = (mc_value M m)(r := fst (call fid (map (mc_value M m) vs) (mc_world M m)))
        \<and> mc_slot M m' = mc_slot M m \<and> mc_world M m' = snd (call fid (map (mc_value M m) vs) (mc_world M m))))
   \<and> (\<forall>b m. mc_exec M (IrJump b []) [] m = (Goto b, m))
   \<and> (\<forall>a c b m. mc_exec M (BrIcmp CcEqual a c b []) [] m = (if mc_value M m a = mc_value M m c then Goto b else Next, m))
   \<and> (\<forall>v m. mc_exec M (IrReturn [v]) [] m = (ReturnWith [mc_value M m v], m))"

fun run_code :: "('m, 'w) machine \<Rightarrow> (ir_inst \<times> ir_value list) list \<Rightarrow> 'm \<Rightarrow> control \<times> 'm" where
  "run_code M [] m = (Next, m)"
| "run_code M ((i, rs) # code) m =
     (case mc_exec M i rs m of (c, m') \<Rightarrow> (if c = Next then run_code M code m' else (c, m')))"

inductive machine_run :: "('m, 'w) machine \<Rightarrow> (ir_block \<Rightarrow> (ir_inst \<times> ir_value list) list) \<Rightarrow> ir_block \<Rightarrow> 'm \<Rightarrow> 64 word list \<Rightarrow> 'm \<Rightarrow> bool"
  for M code where
  machine_return: "run_code M (code b) m = (ReturnWith ws, m') \<Longrightarrow> machine_run M code b m ws m'"
| machine_goto: "run_code M (code b) m = (Goto b', m1) \<Longrightarrow> machine_run M code b' m1 ws m' \<Longrightarrow> machine_run M code b m ws m'"

section \<open>The simulation\<close>

definition related :: "('m, 'w) machine \<Rightarrow> layout_map \<Rightarrow> 'w cg_state \<Rightarrow> 'm \<Rightarrow> bool" where
  "related M L s m \<longleftrightarrow>
     (\<forall>i w. cs_values s i = Some w \<longrightarrow> (\<exists>tv. lm_values L i = Some tv \<and> mc_value M m (as_value tv) = w))
   \<and> (\<forall>g w. cs_locals s g = Some w \<longrightarrow> (\<exists>a. lm_locals L g = Some a \<and> mc_slot M m (fst a) = w))
   \<and> mc_world M m = cs_world s"

text \<open>The functions of the module are the functions of the program.\<close>

definition calls_agree :: "'w callees \<Rightarrow> layout_map \<Rightarrow> (func_id \<Rightarrow> 64 word list \<Rightarrow> 'w \<Rightarrow> 64 word \<times> 'w) \<Rightarrow> (func_id \<Rightarrow> 64 word) \<Rightarrow> bool" where
  "calls_agree A L call addr \<longleftrightarrow> (\<forall>v fid. lm_fids L v = Some fid \<longrightarrow> ca_call A v = call fid \<and> ca_addr A v = addr fid)"

text \<open>Only integers are written to local variables.\<close>

fun writes_integer :: "layout_map \<Rightarrow> cg_inst \<Rightarrow> bool" where
  "writes_integer L (CgWriteLocalVar _ v) \<longleftrightarrow> (case lm_values L v of None \<Rightarrow> True | Some tv \<Rightarrow> is_integer (tv_type_id tv))"
| "writes_integer L _ \<longleftrightarrow> True"

fun control_at :: "layout_map \<Rightarrow> control \<Rightarrow> control option" where
  "control_at L Next = Some Next"
| "control_at L (Goto ix) = map_option Goto (lm_blocks L ix)"
| "control_at L (ReturnWith ws) = Some (ReturnWith ws)"

lemma related_value:
  assumes "related M L s m" and "layout_inj L" and "lm_values L r = Some tv" and "sets_value M (as_value tv) w m cm"
  shows "related M L (snd (bind_result r w s)) (snd cm)"
  using assms unfolding related_def layout_inj_def sets_value_def bind_result_def by (auto; metis)

lemma related_temporary:
  assumes "related M L s m" and "temporary L r" and "sets_value M r w m cm"
  shows "related M L s (snd cm)"
  using assms unfolding related_def temporary_def sets_value_def ran_def by (auto; metis)

lemma related_read: "related M L s m \<Longrightarrow> cs_values s i = Some w \<Longrightarrow> lm_values L i = Some tv \<Longrightarrow> mc_value M m (as_value tv) = w"
  unfolding related_def by fastforce

lemma run_code_append:
  "run_code M (a @ b) m = (case run_code M a m of (c, m') \<Rightarrow> if c = Next then run_code M b m' else (c, m'))"
  by (induction M a m rule: run_code.induct) (auto split: prod.splits)

lemma arguments_read:
  assumes "related M L s m" and "map (lm_values L) args = map Some tvs" and "list_all (\<lambda>a. cs_values s a \<noteq> None) args"
  shows "map (mc_value M m) (map as_value tvs) = map (\<lambda>a. the (cs_values s a)) args"
  using assms(2,3)
proof (induction args arbitrary: tvs)
  case (Cons a args)
  then show ?case using related_read [OF assms(1)] by (cases tvs) auto
qed simp

lemma machine_facts:
  assumes "machine_laws M call addr funcs"
  shows "sets_value M r n m (mc_exec M (Iconst IrI64 n) [r] m)"
    and "sets_value M r (mc_slot M m ss) m (mc_exec M (StackLoad IrI64 ss 0) [r] m)"
    and "\<exists>w. sets_value M r w m (mc_exec M (StackAddr IrI64 ss 0) [r] m)"
    and "funcs f = Some fid \<Longrightarrow> sets_value M r (addr fid) m (mc_exec M (FuncAddr ty f) [r] m)"
    and "\<exists>m'. mc_exec M (StackStore v ss 0) [] m = (Next, m') \<and> mc_value M m' = mc_value M m
        \<and> mc_slot M m' = (mc_slot M m)(ss := mc_value M m v) \<and> mc_world M m' = mc_world M m"
    and "funcs f = Some fid \<Longrightarrow> \<exists>m'. mc_exec M (IrCall f vs) [r] m = (Next, m')
        \<and> mc_value M m' = (mc_value M m)(r := fst (call fid (map (mc_value M m) vs) (mc_world M m)))
        \<and> mc_slot M m' = mc_slot M m \<and> mc_world M m' = snd (call fid (map (mc_value M m) vs) (mc_world M m))"
    and "mc_exec M (IrJump b []) [] m = (Goto b, m)"
    and "mc_exec M (BrIcmp CcEqual a c b []) [] m = (if mc_value M m a = mc_value M m c then Goto b else Next, m)"
    and "mc_exec M (IrReturn [v]) [] m = (ReturnWith [mc_value M m v], m)"
  using assms by (simp_all add: machine_laws_def)

text \<open>One instruction whose value is recorded.\<close>

lemma run_value:
  assumes "related M L s m" and "layout_inj L" and "lm_values L r = Some tv" and "sets_value M (as_value tv) w m (mc_exec M i [as_value tv] m)"
  shows "\<exists>m'. run_code M [(i, [as_value tv])] m = (Next, m') \<and> related M L (snd (bind_result r w s)) m'"
  using related_value [OF assms] assms(4) by (auto simp: sets_value_def split: prod.splits)

lemma run_branch:
  assumes laws: "machine_laws M call addr funcs" and rel: "related M L s m" and t: "temporary L r"
    and tv: "lm_values L ctrl = Some tv" and b: "lm_blocks L to = Some b" and w: "cs_values s ctrl = Some w"
  shows "\<exists>c m'. run_code M [(Iconst IrI64 n, [r]), (BrIcmp CcEqual (as_value tv) r b [], [])] m = (c, m')
    \<and> control_at L (if w = n then Goto to else Next) = Some c \<and> related M L s m'"
proof -
  obtain c m1 where e: "mc_exec M (Iconst IrI64 n) [r] m = (c, m1)" by fastforce
  with machine_facts(1) [OF laws] have s: "sets_value M r n m (c, m1)" by metis
  then have c: "c = Next" "mc_value M m1 r = n" by (simp_all add: sets_value_def)
  have rel1: "related M L s m1" using related_temporary [OF rel t s] by simp
  have "mc_value M m1 (as_value tv) = w" using related_read [OF rel1 w tv] .
  with e c b rel1 show ?thesis by (auto simp: machine_facts(8) [OF laws])
qed

lemma inst_sim:
  assumes laws: "machine_laws M call addr (lm_funcs L)" and agree: "calls_agree A L call addr" and inj: "layout_inj L"
    and rel: "related M L s m" and impl: "implements L i seg" and int: "writes_integer L i"
    and step: "cg_step A i s = Some (c, s')"
  shows "\<exists>c' m'. run_code M seg m = (c', m') \<and> control_at L c = Some c' \<and> related M L s' m'"
proof (cases i)
  case (CgConst cst r)
  with impl obtain tv n where v: "lm_values L r = Some tv" "const_word cst = Some n" "seg = [(Iconst IrI64 n, [as_value tv])]" by auto
  with CgConst step have "(c, s') = bind_result r n s" by auto
  with v show ?thesis using run_value [OF rel inj v(1) machine_facts(1) [OF laws]] by (auto simp: bind_result_def)
next
  case (CgReadLocalVar var r)
  with impl obtain tv ss t ir where v: "lm_values L r = Some tv" "lm_locals L (span_group var) = Some (ss, t, ir)"
      "seg = [(StackLoad IrI64 ss 0, [as_value tv])]" by auto
  from CgReadLocalVar step obtain w where w: "cs_locals s (span_group var) = Some w" "(c, s') = bind_result r w s" by auto
  have "mc_slot M m ss = w" using rel w(1) v(2) by (fastforce simp: related_def)
  with v w show ?thesis using run_value [OF rel inj v(1) machine_facts(2) [OF laws]] by (auto simp: bind_result_def)
next
  case (CgUse f r)
  with impl obtain tv ty g fid where v: "lm_values L r = Some tv" "lm_funcs L g = Some fid" "lm_fids L f = Some fid"
      "seg = [(FuncAddr ty g, [as_value tv])]" by auto
  from CgUse step have w: "(c, s') = bind_result r (ca_addr A f) s" by simp
  have "ca_addr A f = addr fid" using agree v(3) by (simp add: calls_agree_def)
  with v w show ?thesis using run_value [OF rel inj v(1) machine_facts(4) [OF laws v(2)]] by (auto simp: bind_result_def)
next
  case (CgWriteLocalVar var orig)
  with impl int obtain tv ss t ir r where v: "lm_values L orig = Some tv" "lm_locals L (span_group var) = Some (ss, t, ir)"
      "temporary L r" "seg = [(StackAddr IrI64 ss 0, [r]), (StackStore (as_value tv) ss 0, [])]" by auto
  from CgWriteLocalVar step obtain w where w: "cs_values s orig = Some w" "c = Next"
      "s' = s\<lparr>cs_locals := (cs_locals s)(span_group var \<mapsto> w)\<rparr>" by auto
  obtain d m1 where e: "mc_exec M (StackAddr IrI64 ss 0) [r] m = (d, m1)" by fastforce
  with machine_facts(3) [OF laws] obtain x where x: "sets_value M r x m (d, m1)" by metis
  then have d: "d = Next" by (simp add: sets_value_def)
  have rel1: "related M L s m1" using related_temporary [OF rel v(3) x] by simp
  have val: "mc_value M m1 (as_value tv) = w" using related_read [OF rel1 w(1) v(1)] .
  obtain m2 where m2: "mc_exec M (StackStore (as_value tv) ss 0) [] m1 = (Next, m2)" "mc_value M m2 = mc_value M m1"
      "mc_slot M m2 = (mc_slot M m1)(ss := w)" "mc_world M m2 = mc_world M m1"
    using machine_facts(5) [OF laws, of "as_value tv" ss m1] val by auto
  have "related M L s' m2"
    using rel1 m2 v(2) inj w(3) unfolding related_def layout_inj_def by (auto; metis fst_conv)
  with e d m2(1) v(4) w(2) show ?thesis by simp
next
  case (CgCall f args r)
  with impl obtain tv tvs g fid where v: "lm_values L r = Some tv" "lm_funcs L g = Some fid" "lm_fids L f = Some fid"
      "map (lm_values L) args = map Some tvs" "seg = [(IrCall g (map as_value tvs), [as_value tv])]" by auto
  from CgCall step have defd: "list_all (\<lambda>a. cs_values s a \<noteq> None) args" by (auto split: if_splits)
  obtain w world where w: "ca_call A f (map (\<lambda>a. the (cs_values s a)) args) (cs_world s) = (w, world)" by fastforce
  with CgCall step defd have s': "(c, s') = bind_result r w (s\<lparr>cs_world := world\<rparr>)" by simp
  have args: "map (mc_value M m) (map as_value tvs) = map (\<lambda>a. the (cs_values s a)) args"
    using arguments_read [OF rel v(4) defd] .
  have world: "mc_world M m = cs_world s" using rel by (simp add: related_def)
  have "call fid = ca_call A f" using agree v(3) by (simp add: calls_agree_def)
  with machine_facts(6) [OF laws v(2), of "map as_value tvs" "as_value tv" m] args world w obtain m1 where
    m1: "mc_exec M (IrCall g (map as_value tvs)) [as_value tv] m = (Next, m1)" "mc_value M m1 = (mc_value M m)(as_value tv := w)"
      "mc_slot M m1 = mc_slot M m" "mc_world M m1 = world" by auto
  have "related M L s' m1"
    using rel m1 v(1) inj s' unfolding related_def layout_inj_def bind_result_def by (auto; metis)
  with m1(1) v(5) s' show ?thesis by (simp add: bind_result_def)
next
  case (CgJump to args)
  with impl step show ?thesis using rel by (auto simp: machine_facts(7) [OF laws] split: if_splits)
next
  case (CgJumpIfTrue to ctrl)
  with impl obtain tv b r where v: "lm_values L ctrl = Some tv" "lm_blocks L to = Some b" "temporary L r"
      "seg = [(Iconst IrI64 1, [r]), (BrIcmp CcEqual (as_value tv) r b [], [])]" by auto
  from CgJumpIfTrue step obtain w where w: "cs_values s ctrl = Some w" "c = (if w = 1 then Goto to else Next)" "s' = s" by auto
  with v show ?thesis using run_branch [OF laws rel v(3,1,2) w(1), of 1] by auto
next
  case (CgJumpIfFalse to ctrl)
  with impl obtain tv b r where v: "lm_values L ctrl = Some tv" "lm_blocks L to = Some b" "temporary L r"
      "seg = [(Iconst IrI64 0, [r]), (BrIcmp CcEqual (as_value tv) r b [], [])]" by auto
  from CgJumpIfFalse step obtain w where w: "cs_values s ctrl = Some w" "c = (if w = 0 then Goto to else Next)" "s' = s" by auto
  with v show ?thesis using run_branch [OF laws rel v(3,1,2) w(1), of 0] by auto
next
  case (CgReturn v)
  with impl obtain tv where tv: "lm_values L v = Some tv" "seg = [(IrReturn [as_value tv], [])]" by auto
  from CgReturn step obtain w where w: "cs_values s v = Some w" "c = ReturnWith [w]" "s' = s" by auto
  have "mc_value M m (as_value tv) = w" using related_read [OF rel w(1) tv(1)] .
  with tv w rel show ?thesis by (simp add: machine_facts(9) [OF laws])
qed (use impl in auto)

lemma exit_leaves: "is_exit i \<Longrightarrow> cg_step A i s = Some (c, s') \<Longrightarrow> c \<noteq> Next"
  by (cases i) (auto split: if_splits)

lemma control_next: "control_at L c = Some c' \<Longrightarrow> c' = Next \<longleftrightarrow> c = Next"
  by (cases c) auto

lemma block_sim:
  assumes laws: "machine_laws M call addr (lm_funcs L)" and agree: "calls_agree A L call addr" and inj: "layout_inj L"
    and "related M L s m" and "list_all2 (implements L) (upto_exit is) segs" and "list_all (writes_integer L) is"
    and "cg_block A is s = Some (c, s')"
  shows "\<exists>c' m'. run_code M (concat segs) m = (c', m') \<and> control_at L c = Some c' \<and> related M L s' m'"
  using assms(4-)
proof (induction "is" arbitrary: s m segs)
  case (Cons i "is")
  obtain seg rest where segs: "segs = seg # rest" and seg: "implements L i seg"
      and rest: "list_all2 (implements L) (if is_exit i then [] else upto_exit is) rest"
    using Cons(3) by (cases segs) (auto split: if_splits)
  obtain c1 s1 where step: "cg_step A i s = Some (c1, s1)" using Cons(5) by (auto split: option.splits)
  have "writes_integer L i" using Cons(4) by simp
  from inst_sim [OF laws agree inj Cons(2) seg this step] obtain d m1 where
    m1: "run_code M seg m = (d, m1)" "control_at L c1 = Some d" "related M L s1 m1" by blast
  show ?case
  proof (cases "c1 = Next")
    case True
    then have "d = Next" and "\<not> is_exit i" using m1(2) exit_leaves [OF _ step] by auto
    moreover have "cg_block A is s1 = Some (c, s')" using Cons(5) step True by simp
    ultimately show ?thesis
      using Cons(1) [OF m1(3), of rest] rest Cons(4) m1(1) segs by (simp add: run_code_append)
  next
    case False
    then have "d \<noteq> Next" using control_next [OF m1(2)] by simp
    moreover have "(c, s') = (c1, s1)" using Cons(5) step False by simp
    ultimately show ?thesis using m1 segs by (simp add: run_code_append)
  qed
qed auto

section \<open>Functions\<close>

fun inst_targets :: "cg_inst \<Rightarrow> nat list" where
  "inst_targets (CgJump to _) = [to]"
| "inst_targets (CgJumpIfTrue to _) = [to]"
| "inst_targets (CgJumpIfFalse to _) = [to]"
| "inst_targets _ = []"

text \<open>
  The functions of the fragment: every block has supported instructions only, the edges cover the
  jumps, and no two instructions compute the value of the same name.
\<close>

definition in_fragment :: "('vg, 'g, 'cg, 'b, 'o) backend_cx \<Rightarrow> 'cg \<Rightarrow> bool" where
  "in_fragment K cfg \<longleftrightarrow> list_all (\<lambda>i.
      list_all supported (block_code K cfg i) \<and> distinct (code_rets (block_code K cfg i))
      \<and> list_all (\<lambda>x. list_all (\<lambda>t. t \<in> set (cfg_succs K cfg i)) (inst_targets x)) (block_code K cfg i)
      \<and> list_all (\<lambda>j. j \<noteq> i \<longrightarrow> set (code_rets (block_code K cfg i)) \<inter> set (code_rets (block_code K cfg j)) = {}) [0..<cfg_size K cfg])
    [0..<cfg_size K cfg]"

lemma distinct_parts:
  "distinct xs \<Longrightarrow> (\<And>x. x \<in> set xs \<Longrightarrow> distinct (f x)) \<Longrightarrow>
   (\<And>x y. x \<in> set xs \<Longrightarrow> y \<in> set xs \<Longrightarrow> y \<noteq> x \<Longrightarrow> set (f x) \<inter> set (f y) = {}) \<Longrightarrow> distinct (concat (map f xs))"
  by (induction xs) auto

lemma goto_target: "cg_block A is s = Some (Goto to, s') \<Longrightarrow> \<exists>i \<in> set is. to \<in> set (inst_targets i)"
proof (induction "is" arbitrary: s)
  case (Cons i "is")
  then obtain c s1 where c: "cg_step A i s = Some (c, s1)" by (auto split: option.splits)
  show ?case
  proof (cases "c = Next")
    case True
    with Cons c show ?thesis by auto
  next
    case False
    with Cons(2) c have "c = Goto to" by simp
    with c have "to \<in> set (inst_targets i)" by (cases i) (auto simp: bind_result_def split: if_splits prod.splits)
    then show ?thesis by auto
  qed
qed simp

lemma run_sim:
  assumes laws: "machine_laws M call addr (lm_funcs L)" and agree: "calls_agree A L call addr" and inj: "layout_inj L"
    and blocks: "\<And>ix. ix \<in> R \<Longrightarrow> \<exists>b segs. lm_blocks L ix = Some b \<and> list_all2 (implements L) (upto_exit (code ix)) segs \<and> mcode b = concat segs"
    and ints: "\<And>ix. ix \<in> R \<Longrightarrow> list_all (writes_integer L) (code ix)"
    and closed: "\<And>ix i t. ix \<in> R \<Longrightarrow> i \<in> set (code ix) \<Longrightarrow> t \<in> set (inst_targets i) \<Longrightarrow> t \<in> R"
    and run: "cg_run A code ix s ws s'"
  shows "ix \<in> R \<Longrightarrow> related M L s m \<Longrightarrow> lm_blocks L ix = Some b \<Longrightarrow>
    \<exists>m'. machine_run M mcode b m ws m' \<and> mc_world M m' = cs_world s'"
  using run
proof (induction arbitrary: m b rule: cg_run.induct)
  case (cg_return ix s ws s')
  obtain segs where segs: "list_all2 (implements L) (upto_exit (code ix)) segs" "mcode b = concat segs"
    using blocks [OF cg_return(2)] cg_return(4) by auto
  obtain m' where "run_code M (mcode b) m = (ReturnWith ws, m')" "related M L s' m'"
    using block_sim [OF laws agree inj cg_return(3) segs(1) ints [OF cg_return(2)] cg_return(1)] segs(2) by auto
  then show ?case by (auto simp: related_def intro: machine_run.intros)
next
  case (cg_goto ix s to s1 ws s')
  obtain segs where segs: "list_all2 (implements L) (upto_exit (code ix)) segs" "mcode b = concat segs"
    using blocks [OF cg_goto(4)] cg_goto(6) by auto
  obtain b' m1 where m1: "run_code M (mcode b) m = (Goto b', m1)" "lm_blocks L to = Some b'" "related M L s1 m1"
    using block_sim [OF laws agree inj cg_goto(5) segs(1) ints [OF cg_goto(4)] cg_goto(1)] segs(2) by auto
  have "to \<in> R" using goto_target [OF cg_goto(1)] closed cg_goto(4) by blast
  from cg_goto(3) [OF this m1(3,2)] m1(1) show ?case by (auto intro: machine_run.intros)
qed

lemma reachable_targets:
  assumes "in_fragment K cfg" and "traversable K cfg" and "ix \<in> set (cfg_order K cfg)"
    and "i \<in> set (block_code K cfg ix)" and "t \<in> set (inst_targets i)"
  shows "t \<in> set (cfg_order K cfg)"
proof -
  have trav: "traversing (cfg_size K cfg) (cfg_succs K cfg) (cfg_order K cfg) []" using assms(2) by (rule order_traversing)
  then have "ix < cfg_size K cfg" using assms(3) by (auto simp: traversing_def)
  then have "t \<in> set (cfg_succs K cfg ix)" using assms(1,4,5) by (auto simp: in_fragment_def list_all_iff)
  then show ?thesis using trav assms(3) by (auto simp: traversing_def)
qed

lemma fragment_rets:
  assumes "in_fragment K cfg" and "traversable K cfg"
  shows "distinct (concat (map (\<lambda>ix. code_rets (block_code K cfg ix)) (cfg_order K cfg)))"
proof -
  have trav: "traversing (cfg_size K cfg) (cfg_succs K cfg) (cfg_order K cfg) []" using assms(2) by (rule order_traversing)
  then have inside: "x \<in> set [0..<cfg_size K cfg]" if "x \<in> set (cfg_order K cfg)" for x using that by (auto simp: traversing_def)
  show ?thesis
  proof (rule distinct_parts)
    show "distinct (cfg_order K cfg)" using trav by (simp add: traversing_def)
    show "distinct (code_rets (block_code K cfg x))" if "x \<in> set (cfg_order K cfg)" for x
      using assms(1) inside [OF that] unfolding in_fragment_def list_all_iff by blast
    show "set (code_rets (block_code K cfg x)) \<inter> set (code_rets (block_code K cfg y)) = {}"
      if "x \<in> set (cfg_order K cfg)" "y \<in> set (cfg_order K cfg)" "y \<noteq> x" for x y
      using assms(1) inside [OF that(1)] inside [OF that(2)] that(3) unfolding in_fragment_def list_all_iff by blast
  qed
qed

text \<open>
  C2. The back end preserves what a function computes. Take a function whose blocks use constants,
  local variables, calls and jumps, and whose local variables hold integers. When its blocks are
  lowered, every run of its instructions from the first block to a return is matched by a run of
  the cranelift code from the block created for it: the machine returns the same value and has the
  same effects on the world. The parameters may start in stack slots. Cranelift and the machine are
  described by \<open>clif_laws\<close> and \<open>machine_laws\<close>.
\<close>

theorem lowered_code_simulates:
  assumes laws: "clif_laws (cx_clif K) W" and graph: "traversable K cfg" "in_fragment K cfg"
    and run: "lower K alloc cfg blocks fids st = Some (Inr (order, st'))"
    and start: "lower_ok W fids st" "lw_values st = []" "list_all (\<lambda>(_, b). vw_code W (lw_fx st) b = []) blocks" "distinct (map snd blocks)"
    and L: "L = layout_at W fids blocks st'" and ints: "list_all (\<lambda>ix. list_all (writes_integer L) (block_code K cfg ix)) order"
    and machine: "machine_laws M call addr (lm_funcs L)" "calls_agree A L call addr"
    and rel: "related M (layout_at W fids blocks st) s m" "cs_values s = (\<lambda>_. None)"
    and src: "cg_run A (block_code K cfg) 0 s ws s'" and entry: "map_of blocks 0 = Some b"
  shows "\<exists>m'. machine_run M (vw_code W (lw_fx st')) b m ws m' \<and> mc_world M m' = cs_world s'"
proof -
  have trav: "traversing (cfg_size K cfg) (cfg_succs K cfg) (cfg_order K cfg) []" by (rule order_traversing [OF graph(1)])
  obtain st1 fx where steps: "run_steps (lower_block K alloc cfg blocks fids) (cfg_order K cfg) st = Inr st1"
      and fin: "cl_finalize (cx_clif K) (lw_fx st1) = Inr fx" and st': "st' = st1\<lparr>lw_fx := fx\<rparr>" and order: "order = cfg_order K cfg"
    using run lower_in_order [OF graph(1)] by (auto simp: and_then_Inr_iff on_fx_def sdo_def)
  have same: "vw_code W fx = vw_code W (lw_fx st1)" "vw_funcs W fx = vw_funcs W (lw_fx st1)"
    using clif_others(3) [OF laws fin] by auto
  then have L1: "L = layout_at W fids blocks st1" by (simp add: L layout_at_def st')
  have inj: "i = j" if "map_of blocks i = Some c" "map_of blocks j = Some c" for i j c
    using that start(4) map_of_SomeD by (metis (no_types, lifting) distinct_map fst_conv inj_onD snd_conv)
  have empty: "vw_code W (lw_fx st) c = []" if "map_of blocks ix = Some c" for ix c
    using map_of_SomeD [OF that] start(3) by (auto simp: list_all_iff)
  have ok: "blocks_ok K W fids blocks cfg (cfg_order K cfg) st st1"
    by (rule run_blocks_ok [OF laws start(1) _ fragment_rets [OF graph(2,1)] _ _ inj empty steps])
      (use trav graph(2) start(2) in \<open>auto simp: traversing_def in_fragment_def list_all_iff\<close>)
  have layout: "layout_inj L" using ok by (simp add: blocks_ok_def lower_ok_def L1 layout_defs)
  have code: "\<exists>b segs. lm_blocks L ix = Some b \<and> list_all2 (implements L) (upto_exit (block_code K cfg ix)) segs
      \<and> vw_code W (lw_fx st') b = concat segs" if "ix \<in> set (cfg_order K cfg)" for ix
    using ok that by (fastforce simp: blocks_ok_def implements_all_def L1 layout_at_def same st')
  have "lower_extends W st st1" using ok by (simp add: blocks_ok_def)
  then have rel': "related M L s m"
    using rel layout_stays(2) [of W st st1 fids blocks] unfolding related_def L1 by fastforce
  have "0 \<in> set (cfg_order K cfg)" using trav by (simp add: traversing_def)
  from run_sim [OF machine layout code _ _ src this rel', of b] show ?thesis
    using ints order entry reachable_targets [OF graph(2,1)] by (auto simp: L layout_at_def list_all_iff)
qed

end
