(* ===== verification/CodegenSample.thy ===== *)
theory CodegenSample
  imports CodegenRun
begin

text \<open>
  A function builder that records what it is asked for and a machine that executes it: an instance
  of what \<open>CodegenSim\<close> and \<open>CodegenRun\<close> assume of cranelift, and a function compiled with it.
\<close>

section \<open>A recording function builder\<close>

record recorder =
  rc_current :: "nat option"
  rc_blocks :: nat
  rc_code :: "(nat \<times> (ir_inst \<times> nat list)) list"
  rc_next_value :: nat
  rc_next_slot :: nat
  rc_imports :: "func_id list"

definition recorder_new :: recorder where
  "recorder_new = \<lparr>rc_current = None, rc_blocks = 0, rc_code = [], rc_next_value = 0, rc_next_slot = 0, rc_imports = []\<rparr>"

definition record_inst :: "ir_inst \<Rightarrow> recorder \<Rightarrow> (nat list \<times> recorder) rust" where
  "record_inst i fx =
     (case rc_current fx of
        None \<Rightarrow> Inl AssertionFailed
      | Some b \<Rightarrow>
          (let n = (case result_count i of None \<Rightarrow> 1 | Some n \<Rightarrow> n); rs = [rc_next_value fx..<rc_next_value fx + n]
           in Inr (rs, fx\<lparr>rc_code := rc_code fx @ [(b, i, rs)], rc_next_value := rc_next_value fx + n\<rparr>)))"

definition recording :: "(recorder, unit) clif" where
  "recording = \<lparr>cl_pointer_type = IrI64, cl_function = (\<lambda>_ _. recorder_new), cl_set_name = (\<lambda>_ fx. fx),
     cl_create_block = (\<lambda>fx. (rc_blocks fx, fx\<lparr>rc_blocks := Suc (rc_blocks fx)\<rparr>)), cl_append_params = (\<lambda>_ fx. Inr fx),
     cl_block_params = (\<lambda>_ _. []), cl_current_block = rc_current, cl_switch_to_block = (\<lambda>b fx. Inr (fx\<lparr>rc_current := Some b\<rparr>)),
     cl_seal_block = (\<lambda>_ fx. Inr fx), cl_seal_all_blocks = Inr, cl_ins = record_inst,
     cl_create_stack_slot = (\<lambda>_ fx. (rc_next_slot fx, fx\<lparr>rc_next_slot := Suc (rc_next_slot fx)\<rparr>)),
     cl_import_function = (\<lambda>_ _ _ fx. (length (rc_imports fx), fx\<lparr>rc_imports := rc_imports fx @ [0]\<rparr>)),
     cl_call_memcpy = (\<lambda>_ _ _ fx. Inr fx), cl_finalize = Inr, cl_verify = (\<lambda>_. True), om_new = (),
     om_declare_function = (\<lambda>_ _ _ ob. Some (0, ob)), om_define_function = (\<lambda>_ _ ob. Some ob),
     om_declare_func_in_func = (\<lambda>_ fid fx. (length (rc_imports fx), fx\<lparr>rc_imports := rc_imports fx @ [fid]\<rparr>)),
     om_declare_data = (\<lambda>_ ob. Some (0, ob)), om_define_data = (\<lambda>_ _ ob. Some ob), om_declare_data_in_func = (\<lambda>_ _ fx. (0, fx))\<rparr>"

definition recorded :: "recorder clif_view" where
  "recorded = \<lparr>vw_code = (\<lambda>fx b. map snd (filter (\<lambda>(c, _). c = b) (rc_code fx))), vw_values = (\<lambda>fx. {..<rc_next_value fx}),
     vw_slots = (\<lambda>fx. {..<rc_next_slot fx}), vw_funcs = (\<lambda>fx f. get_at (rc_imports fx) f)\<rparr>"

lemma recording_ops [simp]:
  "cl_current_block recording = rc_current" "cl_ins recording = record_inst"
  "cl_switch_to_block recording b fx = Inr (fx\<lparr>rc_current := Some b\<rparr>)" "cl_seal_block recording b fx = Inr fx"
  "cl_finalize recording fx = Inr fx"
  "cl_create_stack_slot recording n fx = (rc_next_slot fx, fx\<lparr>rc_next_slot := Suc (rc_next_slot fx)\<rparr>)"
  by (simp_all add: recording_def)

lemma recording_laws: "clif_laws recording recorded"
proof -
  have kept: "get_at xs \<subseteq>\<^sub>m get_at (xs @ [x])" for xs :: "func_id list" and x
    by (auto simp: map_le_def get_at_def nth_append split: if_splits)
  show ?thesis
    unfolding clif_laws_def
    by (auto simp: recording_def recorded_def record_inst_def fx_grows_def Let_def kept get_at_append split: option.splits)
qed

section \<open>A machine\<close>

record toy_machine =
  ty_values :: "nat \<Rightarrow> 64 word"
  ty_slots :: "nat \<Rightarrow> 64 word"

definition toy_set :: "nat list \<Rightarrow> 64 word \<Rightarrow> toy_machine \<Rightarrow> control \<times> toy_machine" where
  "toy_set rs w m = (Next, m\<lparr>ty_values := (ty_values m)(hd rs := w)\<rparr>)"

fun toy_exec :: "ir_inst \<Rightarrow> nat list \<Rightarrow> toy_machine \<Rightarrow> control \<times> toy_machine" where
  "toy_exec (Iconst _ n) rs m = toy_set rs n m"
| "toy_exec (StackLoad _ ss _) rs m = toy_set rs (ty_slots m ss) m"
| "toy_exec (StackStore v ss _) rs m = (Next, m\<lparr>ty_slots := (ty_slots m)(ss := ty_values m v)\<rparr>)"
| "toy_exec (IrJump b _) rs m = (Goto b, m)"
| "toy_exec (BrIcmp _ a c b _) rs m = (if ty_values m a = ty_values m c then Goto b else Next, m)"
| "toy_exec (IrReturn vs) rs m = (ReturnWith (map (ty_values m) vs), m)"
| "toy_exec _ rs m = toy_set rs 0 m"

definition toy :: "(toy_machine, unit) machine" where
  "toy = \<lparr>mc_value = ty_values, mc_slot = ty_slots, mc_world = (\<lambda>_. ()), mc_exec = toy_exec\<rparr>"

lemma toy_laws: "machine_laws toy (\<lambda>_ _ w. (0, w)) (\<lambda>_. 0) funcs"
  by (auto simp: machine_laws_def toy_def sets_value_def toy_set_def)

section \<open>A function\<close>

text \<open>
  The code of \<open>x = 5; if True: return x; else: return 0\<close>: a test with two successors.
\<close>

definition branching_code :: "cg_inst list list" where
  "branching_code =
     [[CgConst (CInt 5) 0, CgWriteLocalVar (SpanRef 7 0) 0, CgConst (CBool True) 1, CgJumpIfTrue 1 1, CgJump 2 []],
      [CgReadLocalVar (SpanRef 7 1) 2, CgReturn 2],
      [CgConst (CInt 0) 3, CgReturn 3]]"

definition branching :: "cg_inst list list \<times> (nat \<times> nat \<times> unit) list" where
  "branching = (branching_code, [(0, 1, ()), (0, 2, ())])"

definition sample_backend ::
  "(value_rec list \<times> (nat \<times> nat \<times> unit) list, flat_inst list list \<times> (nat \<times> nat \<times> block_cfg_edge) list,
    cg_inst list list \<times> (nat \<times> nat \<times> unit) list, recorder, unit) backend_cx" where
  "sample_backend = \<lparr>cx_clif = recording, cx_calls = two_calls\<lparr>cc_depth := 1\<rparr>, cx_map_order = rev\<rparr>"

text \<open>A registry that knows the type of integers.\<close>

definition int_types :: typing_data where
  "int_types = \<lparr>td_inner = \<lparr>ssa_inner = [None, Some (ty_of_kind (PyBuiltin BInt))], ssa_next_free = 2\<rparr>, td_clobber = []\<rparr>"

lemma int_type: "td_get_python_type_of int_types 1 = Some (PyBuiltin BInt)"
  by (simp add: int_types_def td_get_python_type_of_def ssa_get_def get_at_def ty_of_kind_def)

definition sample_start ::
  "(value_rec list \<times> (nat \<times> nat \<times> unit) list, cg_inst list list \<times> (nat \<times> nat \<times> unit) list, recorder, unit) lower_state" where
  "sample_start = \<lparr>lw_fx = recorder_new\<lparr>rc_blocks := 3\<rparr>, lw_values = [], lw_locals = [], lw_f_refs = [],
     lw_session = two_session int_types 0, lw_module = ()\<rparr>"

lemma branching_weights: "g_weights (cc_code_graph (cx_calls sample_backend)) branching = branching_code"
  by (simp add: sample_backend_def two_calls_def list_graph_def branching_def)

lemma branching_succs: "cfg_succs sample_backend branching 0 = [1, 2]" "cfg_succs sample_backend branching (Suc n) = []"
  by (simp_all add: cfg_succs_def sample_backend_def two_calls_def list_graph_def branching_def)

lemma branching_size: "cfg_size sample_backend branching = 3"
  by (simp add: cfg_size_def branching_weights branching_code_def)

lemma branching_blocks: "block_code sample_backend branching i = (if i < 3 then branching_code ! i else [])"
  by (simp add: block_code_def branching_weights get_at_def) (simp add: branching_code_def)

lemma branching_order: "cfg_order sample_backend branching = [0, 1, 2]"
  by (simp add: cfg_order_def branching_size branching_succs numeral_eq_Suc)

lemma branching_traversable: "traversable sample_backend branching"
  by (simp add: traversable_def branching_order branching_size searches_succeed_ascending)
    (simp add: upt_conv_Cons branching_succs numeral_eq_Suc)

lemma branching_fragment: "in_fragment sample_backend branching"
  by (simp add: in_fragment_def branching_size branching_blocks upt_conv_Cons branching_code_def code_rets_def branching_succs)

definition sample_blocks :: "(nat \<times> ir_block) list" where
  "sample_blocks = [(0, 0), (1, 1), (2, 2)]"

lemmas run_defs =
  key_index_def sbind_def on_fx_def sdo_def emit1_def emit0_def ins1_def ins0_def goes_on_def lower_inst_def lower_const_def lower_read_def
  lower_write_def lower_jump_def lower_branch_def ensure_slot_def stack_alloc_def set_value_def slift_def

lemma sample_clif: "cx_clif sample_backend = recording" "cc_depth (cx_calls sample_backend) = 1"
  by (simp_all add: sample_backend_def)

lemma int_size: "size_of 1 int_types (builtin_tag BInt) = Some (Inr 8)" "ir_type_of int_types (builtin_tag BInt) = Inr IrI64"
  using int_type by (simp_all add: size_of_def ir_type_of_def pad_to_align_def round_up_def layout_bytes_def)

lemma branching_lowers:
  "\<exists>st'. lower sample_backend (UserName 0 0) branching sample_blocks [] sample_start = Some (Inr ([0, 1, 2], st'))
     \<and> map_of (lw_values st') 0 = Some (tv_imm 0 (builtin_tag BInt))"
  unfolding lower_in_order [OF branching_traversable] branching_order
  by (simp add: lower_block_def sample_blocks_def branching_weights sample_clif get_at_def branching_code_def run_defs record_inst_def
      sample_start_def recorder_new_def two_session_def int_size [simplified] within_stack_def Let_def is_integer_def)

text \<open>The source returns 5.\<close>

lemma branching_runs:
  "\<exists>s'. cg_run \<lparr>ca_call = (\<lambda>_ _ w. (0, w)), ca_addr = (\<lambda>_. 0)\<rparr> (block_code sample_backend branching) 0
     \<lparr>cs_values = (\<lambda>_. None), cs_locals = (\<lambda>_. None), cs_world = ()\<rparr> [5] s'"
proof -
  let ?A = "\<lparr>ca_call = (\<lambda>_ _ w. (0, w)), ca_addr = (\<lambda>_. 0)\<rparr> :: unit callees"
  let ?s = "\<lparr>cs_values = [0 \<mapsto> 5, 1 \<mapsto> 1], cs_locals = [7 \<mapsto> 5], cs_world = ()\<rparr> :: unit cg_state"
  have branch: "cg_block ?A (block_code sample_backend branching 0) \<lparr>cs_values = (\<lambda>_. None), cs_locals = (\<lambda>_. None), cs_world = ()\<rparr>
      = Some (Goto 1, ?s)"
    by (simp add: branching_blocks branching_code_def bind_result_def fun_upd_twist)
  have arm: "\<exists>s'. cg_block ?A (block_code sample_backend branching 1) ?s = Some (ReturnWith [5], s')"
    by (simp add: branching_blocks branching_code_def bind_result_def)
  from arm obtain s' where "cg_run ?A (block_code sample_backend branching) 1 ?s [5] s'" by (blast intro: cg_return)
  with branch show ?thesis by (blast intro: cg_goto)
qed

theorem lowered_code_simulates_witness:
  "\<exists>st' m'. lower sample_backend (UserName 0 0) branching sample_blocks [] sample_start = Some (Inr ([0, 1, 2], st'))
     \<and> machine_run toy (vw_code recorded (lw_fx st')) 0 \<lparr>ty_values = (\<lambda>_. 0), ty_slots = (\<lambda>_. 0)\<rparr> [5] m'"
proof -
  obtain st' where run: "lower sample_backend (UserName 0 0) branching sample_blocks [] sample_start = Some (Inr ([0, 1, 2], st'))"
      and v: "map_of (lw_values st') 0 = Some (tv_imm 0 (builtin_tag BInt))" using branching_lowers by blast
  obtain s' where src: "cg_run \<lparr>ca_call = (\<lambda>_ _ w. (0, w)), ca_addr = (\<lambda>_. 0)\<rparr> (block_code sample_backend branching) 0
     \<lparr>cs_values = (\<lambda>_. None), cs_locals = (\<lambda>_. None), cs_world = ()\<rparr> [5] s'" using branching_runs by blast
  have ok: "lower_ok recorded [] sample_start" by (simp add: lower_ok_def layout_defs sample_start_def)
  have ints: "list_all (\<lambda>ix. list_all (writes_integer (layout_at recorded [] sample_blocks st')) (block_code sample_backend branching ix)) [0, 1, 2]"
    using v by (simp add: branching_blocks branching_code_def layout_at_def is_integer_def)
  have empty: "list_all (\<lambda>(_, b). vw_code recorded (lw_fx sample_start) b = []) sample_blocks" "distinct (map snd sample_blocks)"
    by (simp_all add: sample_blocks_def recorded_def sample_start_def recorder_new_def)
  have agree: "calls_agree \<lparr>ca_call = (\<lambda>_ _ w. (0, w)), ca_addr = (\<lambda>_. 0)\<rparr> (layout_at recorded [] sample_blocks st') (\<lambda>_ _ w. (0, w)) (\<lambda>_. 0)"
    by (simp add: calls_agree_def)
  have rel: "related toy (layout_at recorded [] sample_blocks sample_start) \<lparr>cs_values = (\<lambda>_. None), cs_locals = (\<lambda>_. None), cs_world = ()\<rparr>
      \<lparr>ty_values = (\<lambda>_. 0), ty_slots = (\<lambda>_. 0)\<rparr>"
    by (simp add: related_def toy_def)
  have "\<exists>m'. machine_run toy (vw_code recorded (lw_fx st')) 0 \<lparr>ty_values = (\<lambda>_. 0), ty_slots = (\<lambda>_. 0)\<rparr> [5] m' \<and> mc_world toy m' = cs_world s'"
    by (rule lowered_code_simulates [OF _ branching_traversable branching_fragment run ok _ empty refl ints toy_laws agree rel _ src])
      (simp_all add: sample_clif recording_laws sample_start_def sample_blocks_def)
  with run show ?thesis by blast
qed

text \<open>A straight chain is traversed in order; the edges of the second graph are 0 to 2, 2 to 1 and 1 to itself.\<close>

theorem lowers_reachable_blocks_once_witness:
  "(\<exists>st'. lower sample_backend (UserName 0 0) branching sample_blocks [] sample_start = Some (Inr ([0, 1, 2], st')))
   \<and> distinct (cfg_order sample_backend branching)
   \<and> set (cfg_order sample_backend branching) = {j. (0, j) \<in> (leads_to (cfg_succs sample_backend branching))\<^sup>*}"
  using lowers_reachable_blocks_once [OF branching_traversable, of "UserName 0 0" sample_blocks "[]" sample_start] branching_lowers
  by blast

definition looping :: "cg_inst list list \<times> (nat \<times> nat \<times> unit) list" where
  "looping = ([[], [], []], [(0, 2, ()), (2, 1, ()), (1, 1, ())])"

theorem block_lowered_twice_witness:
  "\<exists>st'. lower sample_backend (UserName 0 0) looping sample_blocks [] sample_start = Some (Inr ([0, 2, 1, 1], st'))"
proof -
  have succs: "cfg_succs sample_backend looping 0 = [2]" "cfg_succs sample_backend looping 2 = [1]" "cfg_succs sample_backend looping 1 = [1]"
    by (simp_all add: cfg_succs_def sample_backend_def two_calls_def list_graph_def looping_def)
  have empty: "g_weights (cc_code_graph (cx_calls sample_backend)) looping = [[], [], []]"
    by (simp add: sample_backend_def two_calls_def list_graph_def looping_def)
  show ?thesis
    unfolding block_lowered_twice [OF succs]
    by (simp add: lower_block_def sample_blocks_def empty sample_clif get_at_def run_defs sample_start_def recorder_new_def numeral_eq_Suc)
qed

end
