(* ===== verification/ImportLaws.thy ===== *)
theory ImportLaws
  imports ImportSystem
begin

text \<open>
  The import machinery once it is installed: what \<open>setup\<close> leaves behind, and that importing a
  module panics.
\<close>

section \<open>Growing states\<close>

text \<open>Nothing is lost between two states of an evaluation: at most \<open>k\<close> objects were inserted.\<close>

definition grown :: "(hash_key \<Rightarrow> u64) \<Rightarrow> nat \<Rightarrow> 'z import_host_scheme ectx \<Rightarrow> 'z import_host_scheme ectx \<Rightarrow> bool" where
  "grown hash k s s' \<longleftrightarrow> runtime_ok hash (ec_rt s') \<and> rt_heap (ec_rt s) \<subseteq>\<^sub>m rt_heap (ec_rt s')
     \<and> rt_room (ec_rt s) \<le> rt_room (ec_rt s') + k
     \<and> map_of (sg_dynamic (rt_singletons (ec_rt s))) \<subseteq>\<^sub>m map_of (sg_dynamic (rt_singletons (ec_rt s')))
     \<and> (\<exists>d. rt_singletons (ec_rt s') = (rt_singletons (ec_rt s))\<lparr>sg_dynamic := d\<rparr>)
     \<and> (\<exists>xs. ih_objects (ec_host s') = ih_objects (ec_host s) @ xs)"

lemma grown_refl: "runtime_ok hash (ec_rt s) \<Longrightarrow> grown hash 0 s s"
  by (simp add: grown_def exI [of _ "sg_dynamic (rt_singletons (ec_rt s))"])

lemma grown_trans: "grown hash k s s1 \<Longrightarrow> grown hash k' s1 s2 \<Longrightarrow> grown hash (k + k') s s2"
  unfolding grown_def by (auto intro: map_le_trans)

lemma grown_ok: "grown hash k s s' \<Longrightarrow> runtime_ok hash (ec_rt s')"
  by (simp add: grown_def)

lemma grown_room: "grown hash k s s' \<Longrightarrow> rt_room (ec_rt s) \<le> rt_room (ec_rt s') + k"
  by (simp add: grown_def)

lemma grown_heap: "grown hash k s s' \<Longrightarrow> rt_heap (ec_rt s) ob = Some v \<Longrightarrow> rt_heap (ec_rt s') ob = Some v"
  unfolding grown_def map_le_def by (metis domI)

lemma grown_dynamic:
  "grown hash k s s' \<Longrightarrow> map_of (sg_dynamic (rt_singletons (ec_rt s))) key = Some ob \<Longrightarrow> map_of (sg_dynamic (rt_singletons (ec_rt s'))) key = Some ob"
  unfolding grown_def map_le_def by (metis domI)

lemma grown_singletons:
  assumes "grown hash k s s'"
  shows "sg_none_v (rt_singletons (ec_rt s')) = sg_none_v (rt_singletons (ec_rt s))"
    and "sg_sys (rt_singletons (ec_rt s')) = sg_sys (rt_singletons (ec_rt s))"
  using assms unfolding grown_def by auto

lemma grown_object: "grown hash k s s' \<Longrightarrow> get_at (ih_objects (ec_host s)) n = Some x \<Longrightarrow> get_at (ih_objects (ec_host s')) n = Some x"
  unfolding grown_def by (auto simp: nth_append get_at_Some_iff)

lemmas grown_keeps = grown_heap grown_dynamic grown_object

text \<open>Strings.\<close>

definition has_string :: "(hash_key \<Rightarrow> u64) \<Rightarrow> string \<Rightarrow> object_id \<Rightarrow> 'h ectx \<Rightarrow> bool" where
  "has_string hash st ob s \<longleftrightarrow> map_of (sg_dynamic (rt_singletons (ec_rt s))) (DynStr (hash (HStr st))) = Some ob"

lemma has_string_grown: "has_string hash st ob s \<Longrightarrow> grown hash k s s' \<Longrightarrow> has_string hash st ob s'"
  unfolding has_string_def by (rule grown_dynamic)

lemma estring_hit: "has_string (env_hash E) st ob s \<Longrightarrow> estring E st s = Some (Inr (Inr ob, s))"
  by (simp add: has_string_def estring_def ert_def new_string_def Let_def)

lemma new_string_dynamic:
  "new_string hash st rt = Inr (ob, rt') \<Longrightarrow> map_of (sg_dynamic (rt_singletons rt)) \<subseteq>\<^sub>m map_of (sg_dynamic (rt_singletons rt'))"
  by (auto simp: new_string_def Let_def put_dynamic_def map_le_def rt_insert_def and_then_Inr_iff split: option.splits)

lemma has_string_value:
  assumes "has_string hash st ob s" and "runtime_ok hash (ec_rt s)"
  shows "\<exists>t. rt_heap (ec_rt s) ob = Some (PvStr t) \<and> hash (HStr t) = hash (HStr st)"
proof -
  obtain v where "rt_heap (ec_rt s) ob = Some v" "is_dynamic hash (DynStr (hash (HStr st))) v"
    using assms unfolding has_string_def runtime_ok_def by blast
  then show ?thesis by (auto split: py_value.splits)
qed

lemma estring_ok:
  assumes "runtime_ok (env_hash E) (ec_rt s)" and "0 < rt_room (ec_rt s)"
  shows "\<exists>ob s'. estring E st s = Some (Inr (Inr ob, s')) \<and> grown (env_hash E) 1 s s' \<and> has_string (env_hash E) st ob s'"
proof -
  obtain ob rt' where r: "new_string (env_hash E) st (ec_rt s) = Inr (ob, rt')" "runtime_ok (env_hash E) rt'"
      "map_of (sg_dynamic (rt_singletons rt')) (DynStr (env_hash E (HStr st))) = Some ob" "rt_heap (ec_rt s) \<subseteq>\<^sub>m rt_heap rt'"
      "rt_room (ec_rt s) - 1 \<le> rt_room rt'" "\<exists>d. rt_singletons rt' = (rt_singletons (ec_rt s))\<lparr>sg_dynamic := d\<rparr>"
    using new_string_ok [OF assms, of st] by blast
  with new_string_dynamic [OF r(1)] show ?thesis
    by (intro exI [of _ ob] exI [of _ "s\<lparr>ec_rt := rt'\<rparr>"]) (auto simp: estring_def ert_def grown_def has_string_def)
qed

text \<open>A string that is not the one asked for is another object.\<close>

lemma has_string_other:
  assumes "has_string hash st ob s" and "runtime_ok hash (ec_rt s)" and "rt_heap (ec_rt s) ob' = Some (PvStr p)" and "hash (HStr p) \<noteq> hash (HStr st)"
  shows "ob' \<noteq> ob"
  using has_string_value [OF assms(1,2)] assms(3,4) by auto

lemma insert_shared_ok:
  assumes "runtime_ok hash (ec_rt s)" and "0 < rt_room (ec_rt s)"
  shows "\<exists>ob s' n. insert_shared x s = Some (Inr (Inr ob, s')) \<and> grown hash 1 s s' \<and> rt_heap (ec_rt s') ob = Some (PvDynamic n)
    \<and> get_at (ih_objects (ec_host s')) n = Some x \<and> rt_heap (ec_rt s) ob = None"
proof -
  let ?n = "length (ih_objects (ec_host s))"
  obtain ob rt' where r: "rt_insert (PvDynamic ?n) (ec_rt s) = Inr (ob, rt')" "runtime_ok hash rt'" "rt_room rt' = rt_room (ec_rt s) - 1"
      "rt_heap (ec_rt s) ob = None" "rt_heap rt' = (rt_heap (ec_rt s))(ob \<mapsto> PvDynamic ?n)" "rt_singletons rt' = rt_singletons (ec_rt s)"
    using rt_insert_ok [OF assms, of "PvDynamic ?n"] by blast
  let ?s = "s\<lparr>ec_host := (ec_host s)\<lparr>ih_objects := ih_objects (ec_host s) @ [x]\<rparr>, ec_rt := rt'\<rparr>"
  have "grown hash 1 s ?s"
    using r(2-6) assms(2)
    by (auto simp: grown_def map_le_def intro!: exI [of _ "sg_dynamic (rt_singletons (ec_rt s))"])
  with r show ?thesis
    by (intro exI [of _ ob] exI [of _ ?s] exI [of _ ?n])
      (simp add: insert_shared_def ebind_def eget_def eput_def ert_def get_at_append)
qed

lemma read_object_ok: "rt_heap (ec_rt s) ob = Some v \<Longrightarrow> f v = Inr (Inr x) \<Longrightarrow> read_object ob f s = Some (Inr (Inr x, s))"
  by (simp add: read_object_def ebind_def eget_def erust_def ereturn_def with_object_def space_heap_def)

lemma read_object_panic: "rt_heap (ec_rt s) ob = Some v \<Longrightarrow> f v = Inl p \<Longrightarrow> read_object ob f s = Some (Inl p)"
  by (simp add: read_object_def ebind_def eget_def erust_def ereturn_def with_object_def space_heap_def)

lemma read_object_exc: "rt_heap (ec_rt s) ob = Some v \<Longrightarrow> f v = Inr (Inl e) \<Longrightarrow> read_object ob f s = Some (Inr (Inl e, s))"
  by (simp add: read_object_def ebind_def eget_def erust_def ereturn_def eraise_def with_object_def space_heap_def)

section \<open>Installation\<close>

text \<open>
  The state in which the driver installs the machinery: the lists of \<open>sys\<close> are empty, the module
  \<open>m\<close> is the evaluated \<^verbatim>\<open>importlib/_bootstrap.py\<close>, with a class \<open>PathFinder\<close>.
\<close>

record setup_objects =
  su_modules :: object_id
  su_meta_path :: object_id
  su_path_hooks :: object_id
  su_path_finder :: object_id

definition setup_ready :: "(hash_key \<Rightarrow> u64) \<Rightarrow> object_id \<Rightarrow> setup_objects \<Rightarrow> runtime \<Rightarrow> bool" where
  "setup_ready hash m u rt \<longleftrightarrow> runtime_ok hash rt \<and> 16 \<le> rt_room rt
     \<and> (\<exists>k inner a b c. rt_heap rt (sg_sys (rt_singletons rt)) = Some (PvModule k inner)
          \<and> py_dict_get (ro_dict inner) (hash (HStr ''modules'')) = Some (a, su_modules u)
          \<and> py_dict_get (ro_dict inner) (hash (HStr ''meta_path'')) = Some (b, su_meta_path u)
          \<and> py_dict_get (ro_dict inner) (hash (HStr ''path_hooks'')) = Some (c, su_path_hooks u))
     \<and> rt_heap rt (su_modules u) = Some (PvDict []) \<and> rt_heap rt (su_meta_path u) = Some (PvList [])
     \<and> rt_heap rt (su_path_hooks u) = Some (PvList []) \<and> su_meta_path u \<noteq> su_path_hooks u
     \<and> (\<exists>k inner a. rt_heap rt m = Some (PvModule k inner) \<and> py_dict_get (ro_dict inner) (hash (HStr ''PathFinder'')) = Some (a, su_path_finder u))
     \<and> (\<exists>n p inner. rt_heap rt (su_path_finder u) = Some (PvClass n p inner))
     \<and> m \<noteq> sg_sys (rt_singletons rt) \<and> (\<exists>v. rt_heap rt (sg_none_v (rt_singletons rt)) = Some v)
     \<and> hash (HStr ''SourceFileLoader'') \<noteq> hash (HStr ''PathFinder'')"

definition installed :: "(hash_key \<Rightarrow> u64) \<Rightarrow> object_id \<Rightarrow> setup_objects \<Rightarrow> runtime \<Rightarrow> bool" where
  "installed hash m u rt \<longleftrightarrow>
     (\<exists>k inner a b c. rt_heap rt (sg_sys (rt_singletons rt)) = Some (PvModule k inner)
          \<and> py_dict_get (ro_dict inner) (hash (HStr ''modules'')) = Some (a, su_modules u)
          \<and> py_dict_get (ro_dict inner) (hash (HStr ''meta_path'')) = Some (b, su_meta_path u)
          \<and> py_dict_get (ro_dict inner) (hash (HStr ''path_hooks'')) = Some (c, su_path_hooks u))
     \<and> (\<exists>kv. rt_heap rt (su_modules u) = Some (PvDict [(hash (HStr ''importlib._bootstrap''), kv)]))
     \<and> rt_heap rt (su_meta_path u) = Some (PvList [su_path_finder u])
     \<and> (\<exists>n p inner. rt_heap rt (su_path_finder u) = Some (PvClass n p inner))
     \<and> (\<exists>hook. rt_heap rt (su_path_hooks u) = Some (PvList [hook])
          \<and> rt_heap rt hook = Some (PvCallable (FnNative native_path_hook (Some (HookGlobals m)))))
     \<and> (\<exists>k inner a ldr. rt_heap rt m = Some (PvModule k inner) \<and> py_dict_get (ro_dict inner) (hash (HStr ''SourceFileLoader'')) = Some (a, ldr)
          \<and> rt_heap rt ldr = Some (PvCallable (FnBoxed native_source_file_loader None)))
     \<and> (\<exists>v. rt_heap rt (sg_none_v (rt_singletons rt)) = Some v)"

lemma not_dynamic [simp]:
  "\<not> is_dynamic hash key (PvDict d)" "\<not> is_dynamic hash key (PvList xs)" "\<not> is_dynamic hash key (PvCallable f)"
  "\<not> is_dynamic hash key (PvClass n p inner)" "\<not> is_dynamic hash key (PvModule k inner)"
  by (cases key; simp)+

lemma make_kv_run:
  assumes "runtime_ok hash rt" and "1 < rt_room rt" and plain: "\<And>key. \<not> is_dynamic hash key v"
  shows "\<exists>k ob rt'. make_kv_pair hash st (rt_insert v) rt = Inr ((hash (HStr st), k, ob), rt') \<and> runtime_ok hash rt'
    \<and> rt_heap rt \<subseteq>\<^sub>m rt_heap rt' \<and> rt_heap rt' ob = Some v \<and> rt_heap rt ob = None \<and> rt_room rt \<le> rt_room rt' + 2
    \<and> (\<exists>d. rt_singletons rt' = (rt_singletons rt)\<lparr>sg_dynamic := d\<rparr>)"
proof -
  have room0: "0 < rt_room rt" using assms(2) by simp
  obtain k rt1 where 1: "new_string hash st rt = Inr (k, rt1)" "runtime_ok hash rt1" "rt_heap rt \<subseteq>\<^sub>m rt_heap rt1"
      "rt_room rt - 1 \<le> rt_room rt1" "\<exists>d. rt_singletons rt1 = (rt_singletons rt)\<lparr>sg_dynamic := d\<rparr>"
    using new_string_ok [OF assms(1) room0, of st] by blast
  have room: "0 < rt_room rt1" using 1(4) assms(2) by simp
  obtain ob rt2 where 2: "rt_insert v rt1 = Inr (ob, rt2)" "runtime_ok hash rt2" "rt_room rt2 = rt_room rt1 - 1" "rt_heap rt1 ob = None"
      "rt_heap rt2 = (rt_heap rt1)(ob \<mapsto> v)" "rt_singletons rt2 = rt_singletons rt1"
    using rt_insert_ok [OF 1(2) room, of v] by blast
  have "rt_heap rt1 \<subseteq>\<^sub>m rt_heap rt2" using 2(4,5) by (auto simp: map_le_def)
  moreover have "rt_heap rt ob = None" using 1(3) 2(4) by (metis domIff map_le_implies_dom_le subsetD)
  ultimately show ?thesis using 1 2 room assms(2)
    by (intro exI [of _ k] exI [of _ ob] exI [of _ rt2]) (auto simp: make_kv_pair_def intro: map_le_trans)
qed

text \<open>The objects that the installation changes, and all others.\<close>

definition others_kept :: "object_id \<Rightarrow> setup_objects \<Rightarrow> runtime \<Rightarrow> runtime \<Rightarrow> bool" where
  "others_kept m u rt rt' \<longleftrightarrow> (\<forall>ob v. ob \<notin> {m, su_modules u, su_meta_path u, su_path_hooks u, su_path_finder u}
     \<longrightarrow> rt_heap rt ob = Some v \<longrightarrow> rt_heap rt' ob = Some v)"

lemma map_le_get: "f \<subseteq>\<^sub>m g \<Longrightarrow> f x = Some y \<Longrightarrow> g x = Some y"
  unfolding map_le_def by (metis domI)

lemma setup_installs:
  assumes "setup_ready hash m u rt"
  shows "\<exists>rt'. import_setup hash m rt = Inr rt' \<and> runtime_ok hash rt' \<and> installed hash m u rt' \<and> rt_room rt \<le> rt_room rt' + 7
    \<and> others_kept m u rt rt' \<and> (\<exists>d. rt_singletons rt' = (rt_singletons rt)\<lparr>sg_dynamic := d\<rparr>)"
proof -
  let ?sys = "sg_sys (rt_singletons rt)"
  let ?ms = "su_modules u" and ?mp = "su_meta_path u" and ?ph = "su_path_hooks u" and ?pf = "su_path_finder u"
  obtain k inner a b c where sys: "rt_heap rt ?sys = Some (PvModule k inner)"
      "py_dict_get (ro_dict inner) (hash (HStr ''modules'')) = Some (a, ?ms)"
      "py_dict_get (ro_dict inner) (hash (HStr ''meta_path'')) = Some (b, ?mp)"
      "py_dict_get (ro_dict inner) (hash (HStr ''path_hooks'')) = Some (c, ?ph)"
    using assms unfolding setup_ready_def by blast
  obtain mk minner e where m: "rt_heap rt m = Some (PvModule mk minner)" "py_dict_get (ro_dict minner) (hash (HStr ''PathFinder'')) = Some (e, ?pf)"
    using assms unfolding setup_ready_def by blast
  obtain cn cp cinner where pf: "rt_heap rt ?pf = Some (PvClass cn cp cinner)" using assms unfolding setup_ready_def by blast
  obtain nv where nv: "rt_heap rt (sg_none_v (rt_singletons rt)) = Some nv" using assms unfolding setup_ready_def by blast
  have ok: "runtime_ok hash rt" and room: "16 \<le> rt_room rt" and ms: "rt_heap rt ?ms = Some (PvDict [])" and mp: "rt_heap rt ?mp = Some (PvList [])"
      and ph: "rt_heap rt ?ph = Some (PvList [])" and ne: "?mp \<noteq> ?ph" "m \<noteq> ?sys" "hash (HStr ''SourceFileLoader'') \<noteq> hash (HStr ''PathFinder'')"
    using assms unfolding setup_ready_def by blast+
  have dist: "?ms \<noteq> ?mp" "?ms \<noteq> ?ph" "?ms \<noteq> ?pf" "?ms \<noteq> m" "?ms \<noteq> ?sys" "?mp \<noteq> ?pf" "?mp \<noteq> m" "?mp \<noteq> ?sys" "?ph \<noteq> ?pf" "?ph \<noteq> m"
      "?ph \<noteq> ?sys" "?pf \<noteq> m" "?pf \<noteq> ?sys"
    using sys(1) m(1) pf ms mp ph by auto
  note ne = ne ne [symmetric] dist dist [symmetric]
  obtain kb rt1 where 1: "new_string hash ''importlib._bootstrap'' rt = Inr (kb, rt1)" "runtime_ok hash rt1" "rt_heap rt \<subseteq>\<^sub>m rt_heap rt1"
      "rt_room rt - 1 \<le> rt_room rt1" "\<exists>d. rt_singletons rt1 = (rt_singletons rt)\<lparr>sg_dynamic := d\<rparr>"
    using new_string_ok [OF ok, of "''importlib._bootstrap''"] room by auto
  note h1 = 1(3) [THEN map_le_get]
  let ?hb = "hash (HStr ''importlib._bootstrap'')"
  obtain rt2 where 2: "rt_update ?ms (dict_put ?hb (kb, m)) rt1 = Inr rt2" "runtime_ok hash rt2"
      "rt_heap rt2 = (rt_heap rt1)(?ms \<mapsto> PvDict [(?hb, kb, m)])" "rt_room rt2 = rt_room rt1" "rt_singletons rt2 = rt_singletons rt1"
    using rt_update_ok [OF 1(2) h1 [OF ms], of "dict_put ?hb (kb, m)" "PvDict [(?hb, kb, m)]"]
    by (auto simp: dict_put_def)
  have room2: "1 < rt_room rt2" using 2(4) 1(4) room by linarith
  obtain kl ldr rt3 where 3: "make_kv_pair hash ''SourceFileLoader'' (rt_insert (PvCallable (FnBoxed native_source_file_loader None))) rt2 =
        Inr ((hash (HStr ''SourceFileLoader''), kl, ldr), rt3)" "runtime_ok hash rt3" "rt_heap rt2 \<subseteq>\<^sub>m rt_heap rt3"
      "rt_heap rt3 ldr = Some (PvCallable (FnBoxed native_source_file_loader None))" "rt_room rt2 \<le> rt_room rt3 + 2"
      "\<exists>d. rt_singletons rt3 = (rt_singletons rt2)\<lparr>sg_dynamic := d\<rparr>"
    using make_kv_run [OF 2(2) room2 not_dynamic(3), of "''SourceFileLoader''" "FnBoxed native_source_file_loader None"] by blast
  note h3 = 3(3) [THEN map_le_get]
  have mp3: "rt_heap rt3 ?mp = Some (PvList [])" by (rule h3) (use h1 [OF mp] 2(3) ne in simp)
  obtain rt4 where 4: "rt_update ?mp (list_extend [?pf]) rt3 = Inr rt4" "runtime_ok hash rt4"
      "rt_heap rt4 = (rt_heap rt3)(?mp \<mapsto> PvList [?pf])" "rt_room rt4 = rt_room rt3" "rt_singletons rt4 = rt_singletons rt3"
    using rt_update_ok [OF 3(2) mp3, of "list_extend [?pf]" "PvList [?pf]"] by (auto simp: list_extend_def)
  have room4: "0 < rt_room rt4" using 4(4) 3(5) 2(4) 1(4) room by linarith
  let ?hook = "PvCallable (FnNative native_path_hook (Some (HookGlobals m)))"
  obtain hook rt5 where 5: "rt_insert ?hook rt4 = Inr (hook, rt5)" "runtime_ok hash rt5" "rt_room rt5 = rt_room rt4 - 1"
      "rt_heap rt4 hook = None" "rt_heap rt5 = (rt_heap rt4)(hook \<mapsto> ?hook)" "rt_singletons rt5 = rt_singletons rt4"
    using rt_insert_ok [OF 4(2) room4, of ?hook] by blast
  have h5: "rt_heap rt4 ob = Some v \<Longrightarrow> rt_heap rt5 ob = Some v" for ob v using 5(4,5) by auto
  have ph5: "rt_heap rt5 ?ph = Some (PvList [])" by (rule h5) (use h3 h1 [OF ph] 2(3) 4(3) ne in simp)
  obtain rt6 where 6: "rt_update ?ph (list_extend [hook]) rt5 = Inr rt6" "runtime_ok hash rt6"
      "rt_heap rt6 = (rt_heap rt5)(?ph \<mapsto> PvList [hook])" "rt_room rt6 = rt_room rt5" "rt_singletons rt6 = rt_singletons rt5"
    using rt_update_ok [OF 5(2) ph5, of "list_extend [hook]" "PvList [hook]"] by (auto simp: list_extend_def)
  have room6: "1 < rt_room rt6" using 6(4) 5(3) 4(4) 3(5) 2(4) 1(4) room by linarith
  obtain kf fs rt7 where 7: "make_kv_pair hash ''find_spec'' (rt_insert (PvCallable (FnBoxed native_find_spec None))) rt6 =
        Inr ((hash (HStr ''find_spec''), kf, fs), rt7)" "runtime_ok hash rt7" "rt_heap rt6 \<subseteq>\<^sub>m rt_heap rt7" "rt_room rt6 \<le> rt_room rt7 + 2"
      "\<exists>d. rt_singletons rt7 = (rt_singletons rt6)\<lparr>sg_dynamic := d\<rparr>"
    using make_kv_run [OF 6(2) room6 not_dynamic(3), of "''find_spec''" "FnBoxed native_find_spec None"] by blast
  note h7 = 7(3) [THEN map_le_get]
  have keep: "rt_heap rt7 ob = Some v" if "rt_heap rt ob = Some v" "ob \<noteq> ?ms" "ob \<noteq> ?mp" "ob \<noteq> ?ph" for ob v
    by (rule h7) (use that h1 [OF that(1)] 2(3) h3 4(3) h5 6(3) in simp)
  have pf7: "rt_heap rt7 ?pf = Some (PvClass cn cp cinner)" by (rule keep [OF pf]) (use ne in auto)
  obtain rt8 cinner' where 8: "rt_update ?pf (class_put (hash (HStr ''find_spec'')) (kf, fs)) rt7 = Inr rt8" "runtime_ok hash rt8"
      "rt_heap rt8 = (rt_heap rt7)(?pf \<mapsto> PvClass cn cp cinner')" "rt_room rt8 = rt_room rt7" "rt_singletons rt8 = rt_singletons rt7"
    using rt_update_ok [OF 7(2) pf7, of "class_put (hash (HStr ''find_spec'')) (kf, fs)"] by (auto simp: class_put_def)
  have m8: "rt_heap rt8 m = Some (PvModule mk minner)" using keep [OF m(1)] 8(3) ne by auto
  let ?md = "assoc_put (hash (HStr ''SourceFileLoader'')) (kl, ldr) (ro_dict minner)"
  obtain rt9 where 9: "rt_update m (set_module_dict ?md) rt8 = Inr rt9" "runtime_ok hash rt9"
      "rt_heap rt9 = (rt_heap rt8)(m \<mapsto> PvModule mk (minner\<lparr>ro_dict := ?md\<rparr>))" "rt_room rt9 = rt_room rt8" "rt_singletons rt9 = rt_singletons rt8"
    using rt_update_ok [OF 8(2) m8, of "set_module_dict ?md"] by (auto simp: set_module_dict_def)
  have callable: "new_callable f = rt_insert (PvCallable f)" for f by (rule ext) (simp add: new_callable_def)
  have run: "import_setup hash m rt = Inr rt9"
    using m sys h1 [OF m(1)] 2(3) ne 1(1) 2(1) 3(1) 4(1) 5(1) 6(1) 7(1) 8(1) 9(1)
    by (simp add: import_setup_def with_object_def space_heap_def [symmetric] module_attrs_def dict_attr_def make_kv_pair_def [of _ "''importlib._bootstrap''"]
        callable py_dict_get_def)
  have keep9: "rt_heap rt9 ob = Some v" if "rt_heap rt ob = Some v" "ob \<noteq> ?ms" "ob \<noteq> ?mp" "ob \<noteq> ?ph" "ob \<noteq> ?pf" "ob \<noteq> m" for ob v
    using keep [OF that(1-4)] that(5,6) 8(3) 9(3) by simp
  have fresh9: "rt_heap rt9 ob = Some v" if "rt_heap rt6 ob = Some v" "ob \<noteq> ?pf" "ob \<noteq> m" for ob v
    using h7 [OF that(1)] that(2,3) 8(3) 9(3) by simp
  have hooks: "rt_heap rt6 hook = Some ?hook" "hook \<noteq> ?pf" "hook \<noteq> m"
  proof -
    have "hook \<noteq> ?ph" using 5(4) h3 [of ?ph] 2(3) h1 [OF ph] 4(3) ne by auto
    then show "rt_heap rt6 hook = Some ?hook" using 5(5) 6(3) by simp
    show "hook \<noteq> ?pf" using 5(4) h3 [of ?pf] 2(3) h1 [OF pf] 4(3) ne by auto
    show "hook \<noteq> m" using 5(4) h3 [of m] 2(3) h1 [OF m(1)] 4(3) ne by auto
  qed
  have ldr: "rt_heap rt9 ldr = Some (PvCallable (FnBoxed native_source_file_loader None))"
  proof (rule fresh9)
    have l: "ldr \<noteq> ?mp" "ldr \<noteq> ?ph" using 3(4) mp3 h3 [of ?ph] 2(3) h1 [OF ph] ne by auto
    then show "rt_heap rt6 ldr = Some (PvCallable (FnBoxed native_source_file_loader None))" using 3(4) 4(3) h5 6(3) by simp
    show "ldr \<noteq> ?pf" using 3(4) h3 [of ?pf] 2(3) h1 [OF pf] ne by auto
    show "ldr \<noteq> m" using 3(4) h3 [of m] 2(3) h1 [OF m(1)] ne by auto
  qed
  have ms9: "rt_heap rt9 ?ms = Some (PvDict [(?hb, kb, m)])"
    by (rule fresh9) (use 2(3) h3 [of ?ms] 4(3) h5 6(3) ne in auto)
  have mp9: "rt_heap rt9 ?mp = Some (PvList [?pf])" by (rule fresh9) (use 4(3) h5 6(3) ne in auto)
  have ph9: "rt_heap rt9 ?ph = Some (PvList [hook])" by (rule fresh9) (use 6(3) ne in auto)
  have hook9: "rt_heap rt9 hook = Some ?hook" by (rule fresh9) (use hooks in auto)
  have pf9: "rt_heap rt9 ?pf = Some (PvClass cn cp cinner')" using 8(3) 9(3) ne by simp
  have sg: "\<exists>d. rt_singletons rt9 = (rt_singletons rt)\<lparr>sg_dynamic := d\<rparr>" using 1(5) 2(5) 3(6) 4(5) 5(6) 6(5) 7(5) 8(5) 9(5) by auto
  have sys9: "rt_heap rt9 (sg_sys (rt_singletons rt9)) = Some (PvModule k inner)" using keep9 [OF sys(1)] ne sg by auto
  have m9: "rt_heap rt9 m = Some (PvModule mk (minner\<lparr>ro_dict := ?md\<rparr>))" using 9(3) by simp
  have "\<exists>v. rt_heap rt9 ob = Some v" if "rt_heap rt ob = Some v" for ob v
    using keep9 [OF that] ms9 mp9 ph9 pf9 m9 by blast
  then have nv9: "\<exists>v. rt_heap rt9 (sg_none_v (rt_singletons rt9)) = Some v" using nv sg by auto
  have "installed hash m u rt9"
    unfolding installed_def using sys9 sys(2-4) ms9 mp9 pf9 ph9 hook9 ldr nv9 m9 by (auto simp: py_dict_get_def)
  moreover have "others_kept m u rt rt9" unfolding others_kept_def using keep9 by auto
  moreover have "rt_room rt \<le> rt_room rt9 + 7" using 1(4) 2(4) 3(5) 4(4) 5(3) 6(4) 7(4) 8(4) 9(4) room by linarith
  ultimately show ?thesis using run 9(2) sg by blast
qed

section \<open>Imports\<close>

lemma import_env_base [simp]:
  "env_hash (import_env FS statics B n) = env_hash B"
  "env_spanref_to_str (import_env FS statics B n) = env_spanref_to_str B"
  by (cases n; simp add: Let_def)+

lemma ebind_run: "m s = Some (Inr (Inr x, s')) \<Longrightarrow> ebind m f s = f x s'"
  by (simp add: ebind_def)

lemma ebind_panic: "m s = Some (Inl p) \<Longrightarrow> ebind m f s = Some (Inl p)"
  by (simp add: ebind_def)

lemma sys_attr_run:
  assumes "installed (env_hash E) m u (ec_rt s)"
  shows "sys_attr E ''modules'' s = Some (Inr (Inr (su_modules u), s))" and "sys_attr E ''meta_path'' s = Some (Inr (Inr (su_meta_path u), s))"
proof -
  obtain k inner a b where sys: "ev_heap s (sg_sys (rt_singletons (ec_rt s))) = Some (PvModule k inner)"
      "py_dict_get (ro_dict inner) (env_hash E (HStr ''modules'')) = Some (a, su_modules u)"
      "py_dict_get (ro_dict inner) (env_hash E (HStr ''meta_path'')) = Some (b, su_meta_path u)"
    using assms unfolding installed_def by blast
  have "read_object (sg_sys (rt_singletons (ec_rt s))) (\<lambda>v. and_then (module_attrs v) (\<lambda>d. Inr (Inr d))) s = Some (Inr (Inr (ro_dict inner), s))"
    by (rule read_object_ok [OF sys(1)]) (simp add: module_attrs_def)
  then show "sys_attr E ''modules'' s = Some (Inr (Inr (su_modules u), s))" "sys_attr E ''meta_path'' s = Some (Inr (Inr (su_meta_path u), s))"
    using sys(2,3) by (simp_all add: sys_attr_def ebind_def ev_basic dict_attr_def)
qed

lemma iter_list: "ev_heap s ob = Some (PvList xs) \<Longrightarrow> iter_object ob s = Some (Inr (Inr xs, s))"
  unfolding iter_object_def by (rule read_object_ok, assumption, simp)

text \<open>The finder on \<open>sys.meta_path\<close> is a class, and methods of a class cannot be called.\<close>

lemma host_find_spec_panics:
  fixes E :: "'z import_host_scheme env"
  assumes inst: "installed (env_hash E) m u (ec_rt s)" and ok: "runtime_ok (env_hash E) (ec_rt s)" and room: "2 \<le> rt_room (ec_rt s)"
  shows "host_find_spec E name s = Some (Inl TodoMacro)"
proof -
  have mp: "ev_heap s (su_meta_path u) = Some (PvList [su_path_finder u])" using inst by (simp add: installed_def)
  obtain n p inner where pf: "ev_heap s (su_path_finder u) = Some (PvClass n p inner)" using inst unfolding installed_def by blast
  obtain ob1 s1 where 1: "estring E ''find_spec'' s = Some (Inr (Inr ob1, s1))" "grown (env_hash E) 1 s s1" using estring_ok [OF ok] room by fastforce
  obtain ob2 s2 where 2: "estring E name s1 = Some (Inr (Inr ob2, s2))" "grown (env_hash E) 1 s1 s2"
    using estring_ok [OF grown_ok [OF 1(2)]] grown_room [OF 1(2)] room by fastforce
  have pf2: "ev_heap s2 (su_path_finder u) = Some (PvClass n p inner)" by (rule grown_heap [OF 2(2) grown_heap [OF 1(2) pf]])
  have "call_method_object E (su_path_finder u) ob1 args s2 = Some (Inl TodoMacro)" for args
    unfolding call_method_object_def by (rule ebind_panic, rule read_object_panic [OF pf2]) simp
  then show ?thesis
    by (simp add: host_find_spec_def ebind_def ev_basic sys_attr_run(2) [OF inst] iter_list [OF mp] 1(1) 2(1))
qed

lemma rsplit_once_Some: "rsplit_once c s = Some (parent, child) \<Longrightarrow> s = parent @ [c] @ child"
proof -
  assume a: "rsplit_once c s = Some (parent, child)"
  let ?d = "dropWhile (\<lambda>x. x \<noteq> c) (rev s)"
  have c: "c \<in> set (rev s)" "parent = rev (tl ?d)" "child = rev (takeWhile (\<lambda>x. x \<noteq> c) (rev s))"
    using a by (auto simp: rsplit_once_def last_segment_def split: if_splits)
  have "?d \<noteq> []" using c(1) by (auto simp: dropWhile_eq_Nil_conv)
  then have "?d = c # tl ?d" using hd_dropWhile [of "\<lambda>x. x \<noteq> c" "rev s"] by (cases ?d) auto
  then have "rev s = takeWhile (\<lambda>x. x \<noteq> c) (rev s) @ c # tl ?d" by (metis takeWhile_dropWhile_id)
  then have "rev (rev s) = rev (tl ?d) @ [c] @ rev (takeWhile (\<lambda>x. x \<noteq> c) (rev s))" by (metis append.assoc rev.simps(2) rev_append)
  then show ?thesis using c by simp
qed

lemma gcd_import_panics:
  fixes E :: "'z import_host_scheme env"
  assumes inst: "installed (env_hash E) m u (ec_rt s)" and ok: "runtime_ok (env_hash E) (ec_rt s)" and room: "2 \<le> rt_room (ec_rt s)"
    and plain: "\<And>p rest. name = p @ ''.'' @ rest \<Longrightarrow> env_hash E (HStr p) \<noteq> env_hash E (HStr ''importlib._bootstrap'')"
  shows "gcd_import E name s = Some (Inl TodoMacro)"
  using plain
proof (induction "length name" arbitrary: name rule: less_induct)
  case less
  obtain kv where ms: "ev_heap s (su_modules u) = Some (PvDict [(env_hash E (HStr ''importlib._bootstrap''), kv)])"
    using inst unfolding installed_def by blast
  show ?case
  proof (cases "rsplit_once CHR ''.'' name")
    case None
    then show ?thesis
      by (subst gcd_import.simps) (simp add: ebind_def sys_attr_run(1) [OF inst] host_find_spec_panics [OF inst ok room])
  next
    case (Some pc)
    obtain parent child where pc: "pc = (parent, child)" by fastforce
    have split: "name = parent @ ''.'' @ child" using rsplit_once_Some Some pc by simp
    have "modules_get E (Inl UnreachableCode) (su_modules u) parent s = Some (Inr (Inr None, s))"
      unfolding modules_get_def by (rule read_object_ok [OF ms]) (use less.prems [OF split] in \<open>simp add: py_dict_get_def\<close>)
    moreover have "gcd_import E parent s = Some (Inl TodoMacro)"
    proof (rule less.hyps)
      show "length parent < length name" using rsplit_once_shorter Some pc by simp
      show "env_hash E (HStr p) \<noteq> env_hash E (HStr ''importlib._bootstrap'')" if "parent = p @ ''.'' @ rest" for p rest
        using less.prems [of p "rest @ ''.'' @ child"] that split by simp
    qed
    ultimately show ?thesis
      using Some pc by (subst gcd_import.simps) (simp add: ebind_def sys_attr_run(1) [OF inst])
  qed
qed


end
