(* ===== verification/PathSearch.thy ===== *)
theory PathSearch
  imports ImportLaws
begin

text \<open>
  Searching \<open>sys.path\<close> with the finders of \<^verbatim>\<open>montyc_driver/src/import.rs\<close>: the path hook for an entry,
  the answer of a file finder, the loop over the entries; and a session in which both laws of the
  import system apply.
\<close>

section \<open>Searching the path\<close>

lemma map_le_installed:
  assumes "installed hash m u rt" and "rt_heap rt \<subseteq>\<^sub>m rt_heap rt'" and "\<exists>d. rt_singletons rt' = (rt_singletons rt)\<lparr>sg_dynamic := d\<rparr>"
  shows "installed hash m u rt'"
proof -
  note keep = map_le_get [OF assms(2)]
  have sg: "sg_sys (rt_singletons rt') = sg_sys (rt_singletons rt)" "sg_none_v (rt_singletons rt') = sg_none_v (rt_singletons rt)"
    using assms(3) by auto
  show ?thesis using assms(1) unfolding installed_def sg by (elim conjE; intro conjI) (blast intro: keep)+
qed

lemma installed_grown: "installed hash m u (ec_rt s) \<Longrightarrow> grown hash k s s' \<Longrightarrow> installed hash m u (ec_rt s')"
  unfolding grown_def by (rule map_le_installed) blast+

text \<open>The attribute of a module under a literal name.\<close>

lemma getattr_module:
  assumes "ev_heap s ob = Some (PvModule k inner)" and "py_dict_get (ro_dict inner) (env_hash E (HStr name)) = Some (a, v)"
  shows "getattr E R ob [AttrStr name] s = Some (Inr (Inr v, s))"
proof -
  have "read_object ob (\<lambda>this. Inr (Inr (case this of PvDynamic n \<Rightarrow> Some n | _ \<Rightarrow> None))) s = Some (Inr (Inr None, s))"
    by (rule read_object_ok [OF assms(1)]) simp
  moreover have "getattr_direct_hash ob (env_hash E (HStr name)) s = Some (Inr (Inr (a, v), s))"
    unfolding getattr_direct_hash_def by (rule read_object_ok [OF assms(1)]) (simp add: direct_hash_def assms(2))
  ultimately show ?thesis by (simp add: ebind_def ev_basic attr_to_hash_def)
qed

text \<open>Calling a native function.\<close>

lemma read_callable:
  "ev_heap s f = Some (PvCallable func) \<Longrightarrow> read_object f callable_of s = Some (Inr (Inr (PvCallable func), s))"
  by (erule read_object_ok) (simp add: callable_of_def)

lemma call_native:
  assumes "ev_heap s f = Some (PvCallable (FnNative g hook))"
  shows "call_object E R f args s =
    ebind (hook_value E hook args (sg_none_v (rt_singletons (ec_rt s)))) (\<lambda>globals. env_native E g args globals) s"
  using read_callable [OF assms] by (simp add: call_object_def call_any_func_def ebind_def ev_basic)

lemma call_boxed:
  assumes "ev_heap s f = Some (PvCallable (FnBoxed g hook))"
  shows "call_object E R f args s =
    ebind (hook_value E hook args (sg_none_v (rt_singletons (ec_rt s)))) (\<lambda>globals. env_native E g args globals) s"
  using read_callable [OF assms] by (simp add: call_object_def call_any_func_def ebind_def ev_basic)

lemma hook_call:
  assumes inst: "installed (env_hash B) m u (ec_rt s)" and e: "ev_heap s e = Some (PvStr p)"
  shows "\<exists>hook ldr. ev_heap s (su_path_hooks u) = Some (PvList [hook]) \<and> ev_heap s ldr = Some (PvCallable (FnBoxed native_source_file_loader None))
    \<and> call_object (import_env FS statics B (Suc n)) R hook [e] s =
        (if \<not> fs_is_dir FS p then Some (Inr (Inl ImportError, s))
         else case fs_canonicalize FS p of
             None \<Rightarrow> Some (Inl UnwrapNone)
           | Some base \<Rightarrow> insert_shared (FileFinderObj base [(''.py'', ldr)]) s)"
proof -
  obtain hook where hook: "ev_heap s (su_path_hooks u) = Some (PvList [hook])"
      "ev_heap s hook = Some (PvCallable (FnNative native_path_hook (Some (HookGlobals m))))"
    using inst unfolding installed_def by blast
  obtain k inner a ldr where m: "ev_heap s m = Some (PvModule k inner)"
      "py_dict_get (ro_dict inner) (env_hash B (HStr ''SourceFileLoader'')) = Some (a, ldr)"
      "ev_heap s ldr = Some (PvCallable (FnBoxed native_source_file_loader None))"
    using inst unfolding installed_def by blast
  let ?E = "import_env FS statics B n"
  have str: "read_str (Inr (Inl ExcTypeError)) e s = Some (Inr (Inr p, s))" unfolding read_str_def by (rule read_object_ok [OF e]) simp
  have ld: "getattr ?E R' m [AttrStr ''SourceFileLoader''] s = Some (Inr (Inr ldr, s))" for R'
    by (rule getattr_module [OF m(1)]) (simp add: m(2))
  show ?thesis
    using hook m(3)
    by (intro exI [of _ hook] exI [of _ ldr])
      (simp add: call_native [OF hook(2)] hook_value_def Let_def import_native_def native_path_hook_def native_source_file_loader_def
        path_hooks_for_file_finder_def parse_args_with_def args_unboxed_def take_arg_def eresult_def ebind_def ev_basic str ecase_def ld unwrap_def
        split: option.split del: getattr.simps)
qed

text \<open>The finder for an entry of the path: none for what is no directory.\<close>

lemma sys_hooks:
  assumes "installed (env_hash E) m u (ec_rt s)"
  shows "getattr E R (sg_sys (rt_singletons (ec_rt s))) [AttrStr ''path_hooks''] s = Some (Inr (Inr (su_path_hooks u), s))"
proof -
  obtain k inner c where "ev_heap s (sg_sys (rt_singletons (ec_rt s))) = Some (PvModule k inner)"
      "py_dict_get (ro_dict inner) (env_hash E (HStr ''path_hooks'')) = Some (c, su_path_hooks u)"
    using assms unfolding installed_def by blast
  then show ?thesis by (rule getattr_module)
qed

definition finder_found :: "object_id \<Rightarrow> string \<Rightarrow> 'z import_host_scheme ectx \<Rightarrow> 'z import_host_scheme ectx \<Rightarrow> bool" where
  "finder_found finder base s s' \<longleftrightarrow> (\<exists>k ldr. ev_heap s' finder = Some (PvDynamic k)
     \<and> get_at (ih_objects (ec_host s')) k = Some (FileFinderObj base [(''.py'', ldr)])
     \<and> ev_heap s' ldr = Some (PvCallable (FnBoxed native_source_file_loader None)) \<and> finder \<noteq> sg_none_v (rt_singletons (ec_rt s)))"

lemma entry_finder:
  fixes B :: "'z import_host_scheme env"
  assumes inst: "installed (env_hash B) m u (ec_rt s)" and ok: "runtime_ok (env_hash B) (ec_rt s)" and room: "2 \<le> rt_room (ec_rt s)"
    and e: "ev_heap s e = Some (PvStr p)" "env_hash B (HStr p) \<noteq> env_hash B (HStr [])"
    and E: "E = import_env FS statics B (Suc n)"
  shows "\<not> fs_is_dir FS p \<Longrightarrow> \<exists>s'. get_path_from_importer_cache FS E R e s = Some (Inr (Inr (sg_none_v (rt_singletons (ec_rt s))), s'))
      \<and> grown (env_hash B) 1 s s'"
    and "fs_is_dir FS p \<Longrightarrow> fs_canonicalize FS p = Some base \<Longrightarrow> \<exists>s' finder. get_path_from_importer_cache FS E R e s = Some (Inr (Inr finder, s'))
      \<and> grown (env_hash B) 2 s s' \<and> finder_found finder base s s'"
proof -
  have hash: "env_hash E = env_hash B" unfolding E by (rule import_env_base)
  obtain empty s1 where 1: "estring E [] s = Some (Inr (Inr empty, s1))" "grown (env_hash B) 1 s s1" "has_string (env_hash B) [] empty s1"
    using estring_ok [of E s "[]"] ok room by (auto simp: hash)
  have e1: "ev_heap s1 e = Some (PvStr p)" by (rule grown_heap [OF 1(2) e(1)])
  have ne: "e \<noteq> empty" by (rule has_string_other [OF 1(3) grown_ok [OF 1(2)] e1 e(2)])
  have inst1: "installed (env_hash B) m u (ec_rt s1)" by (rule installed_grown [OF inst 1(2)])
  obtain hook ldr where h: "ev_heap s1 (su_path_hooks u) = Some (PvList [hook])"
      "ev_heap s1 ldr = Some (PvCallable (FnBoxed native_source_file_loader None))"
      "call_object E R hook [e] s1 = (if \<not> fs_is_dir FS p then Some (Inr (Inl ImportError, s1))
         else case fs_canonicalize FS p of
             None \<Rightarrow> Some (Inl UnwrapNone)
           | Some base \<Rightarrow> insert_shared (FileFinderObj base [(''.py'', ldr)]) s1)"
    using hook_call [OF inst1 e1] unfolding E by blast
  have hooks: "getattr E R (sg_sys (rt_singletons (ec_rt s1))) [AttrStr ''path_hooks''] s1 = Some (Inr (Inr (su_path_hooks u), s1))"
    by (rule sys_hooks [where m = m]) (simp add: hash inst1)
  have run: "get_path_from_importer_cache FS E R e s = try_hooks E R e [hook] s1"
    using 1(1) ne by (simp add: get_path_from_importer_cache_def path_hooks_def ebind_def ev_basic hooks iter_list [OF h(1)] del: getattr.simps try_hooks.simps)
  show "\<exists>s'. get_path_from_importer_cache FS E R e s = Some (Inr (Inr (sg_none_v (rt_singletons (ec_rt s))), s')) \<and> grown (env_hash B) 1 s s'"
    if "\<not> fs_is_dir FS p"
    using that run h(3) 1(2) grown_singletons(1) [OF 1(2)] by (simp add: ecase_def ev_basic is_import_error_def)
  show "\<exists>s' finder. get_path_from_importer_cache FS E R e s = Some (Inr (Inr finder, s')) \<and> grown (env_hash B) 2 s s' \<and> finder_found finder base s s'"
    if "fs_is_dir FS p" "fs_canonicalize FS p = Some base"
  proof -
    have room1: "0 < rt_room (ec_rt s1)" using grown_room [OF 1(2)] room by simp
    obtain finder s2 k where 2: "insert_shared (FileFinderObj base [(''.py'', ldr)]) s1 = Some (Inr (Inr finder, s2))" "grown (env_hash B) 1 s1 s2"
        "ev_heap s2 finder = Some (PvDynamic k)" "get_at (ih_objects (ec_host s2)) k = Some (FileFinderObj base [(''.py'', ldr)])" "ev_heap s1 finder = None"
      using insert_shared_ok [OF grown_ok [OF 1(2)] room1] by blast
    have "finder \<noteq> sg_none_v (rt_singletons (ec_rt s))"
      using 2(5) inst1 grown_singletons(1) [OF 1(2)] unfolding installed_def by auto
    then have "finder_found finder base s s2" unfolding finder_found_def using 2(3,4) grown_heap [OF 2(2) h(2)] by blast
    moreover have "grown (env_hash B) 2 s s2" using grown_trans [OF 1(2) 2(2)] by (simp add: numeral_2_eq_2)
    ultimately show ?thesis using that run h(3) 2(1) by (simp add: ecase_def ev_basic)
  qed
qed

text \<open>What a file finder answers.\<close>

lemma scan_directory_ok:
  "Some tail \<notin> set entries \<Longrightarrow> \<exists>cache'. scan_directory FS base ls tail entries cache = Inr cache'
     \<and> dom (map_of cache') = dom (map_of cache) \<union> {p. Some p \<in> set entries}"
proof (induction FS base ls tail entries cache rule: scan_directory.induct)
  case (3 FS base ls tail name entries cache)
  then obtain cache' where "scan_directory FS base ls tail entries (assoc_put name (path_join base name) cache) = Inr cache'"
      "dom (map_of cache') = dom (map_of (assoc_put name (path_join base name) cache)) \<union> {p. Some p \<in> set entries}"
    by (auto simp del: assoc_put_lookup)
  with 3(2) show ?case by (intro exI [of _ cache']) (auto simp: dom_fun_upd)
qed auto

definition found_spec :: "(hash_key \<Rightarrow> u64) \<Rightarrow> object_id \<Rightarrow> string \<Rightarrow> object_id \<Rightarrow> 'z import_host_scheme ectx \<Rightarrow> bool" where
  "found_spec hash fullname path spec s \<longleftrightarrow> (\<exists>k ld j po t. ev_heap s spec = Some (PvDynamic k) \<and> get_at (ih_objects (ec_host s)) k = Some (ModuleSpecObj fullname ld)
     \<and> ld \<noteq> sg_none_v (rt_singletons (ec_rt s)) \<and> spec \<noteq> sg_none_v (rt_singletons (ec_rt s))
     \<and> ev_heap s ld = Some (PvDynamic j) \<and> get_at (ih_objects (ec_host s)) j = Some (SourceFileLoaderObj po)
     \<and> ev_heap s po = Some (PvStr t) \<and> hash (HStr t) = hash (HStr path))"

lemma env_methods [simp]:
  "env_call_method (import_env FS statics B (Suc n)) ob name args s =
     (case get_at (ih_objects (ec_host s)) ob of
        Some x \<Rightarrow> import_call_method FS (import_env FS statics B n) (interp (import_env FS statics B n) n) x name args s
      | None \<Rightarrow> env_call_method B ob name args s)"
  "env_get_attribute (import_env FS statics B (Suc n)) ob attr s =
     (case get_at (ih_objects (ec_host s)) ob of
        Some x \<Rightarrow> import_get_attribute (import_env FS statics B n) x attr s
      | None \<Rightarrow> env_get_attribute B ob attr s)"
  "env_native (import_env FS statics B (Suc n)) f args globals =
     import_native FS B (import_env FS statics B n) (interp (import_env FS statics B n) n) f args globals"
  by (simp_all add: Let_def ebind_def import_object_at_def ev_basic split: option.split)

lemma loader_call:
  assumes "ev_heap s ldr = Some (PvCallable (FnBoxed native_source_file_loader None))"
  shows "call_object (import_env FS statics B (Suc n)) R ldr [fullname, path] s = insert_shared (SourceFileLoaderObj path) s"
  by (simp add: call_boxed [OF assms] hook_value_def ebind_def ev_basic import_native_def new_source_file_loader_def parse_args_with_def
      args_unboxed_def take_arg_def eresult_def numeral_2_eq_2 del: import_env.simps)

lemma finder_answers:
  fixes B :: "'z import_host_scheme env"
  assumes ok: "runtime_ok (env_hash B) (ec_rt s)" and room: "4 \<le> rt_room (ec_rt s)"
    and finder: "ev_heap s finder = Some (PvDynamic k)" "get_at (ih_objects (ec_host s)) k = Some (FileFinderObj base [(''.py'', ldr)])"
      "ev_heap s ldr = Some (PvCallable (FnBoxed native_source_file_loader None))"
    and fs: "has_string (env_hash B) ''find_spec'' fs s" "env_hash B (HStr ''find_spec'') \<noteq> env_hash B (HStr ''__repr__'')"
    and nm: "ev_heap s nm = Some (PvStr name)" and nv: "ev_heap s (sg_none_v (rt_singletons (ec_rt s))) = Some v"
    and rd: "fs_read_dir FS base = Inr entries" "tail = last_segment CHR ''.'' name" "Some tail \<notin> set entries"
    and E: "E = import_env FS statics B (Suc (Suc n))"
  shows "Some (tail @ ''.py'') \<notin> set entries \<Longrightarrow> call_method_object E finder fs [nm, x] s = Some (Inl TodoMacro)"
    and "Some (tail @ ''.py'') \<in> set entries \<Longrightarrow> \<exists>spec s'. call_method_object E finder fs [nm, x] s = Some (Inr (Inr spec, s'))
      \<and> grown (env_hash B) 4 s s' \<and> found_spec (env_hash B) nm (path_join base (tail @ ''.py'')) spec s'"
proof -
  let ?E = "import_env FS statics B (Suc n)"
  have hash: "env_hash E = env_hash B" "env_hash ?E = env_hash B" unfolding E by (rule import_env_base)+
  obtain repr s1 where 1: "estring E ''__repr__'' s = Some (Inr (Inr repr, s1))" "grown (env_hash B) 1 s s1" "has_string (env_hash B) ''__repr__'' repr s1"
    using estring_ok [of E s "''__repr__''"] ok room by (auto simp: hash)
  have fs1: "has_string (env_hash B) ''find_spec'' fs s1" by (rule has_string_grown [OF fs(1) 1(2)])
  then obtain t where t: "ev_heap s1 fs = Some (PvStr t)" "env_hash B (HStr t) = env_hash B (HStr ''find_spec'')"
    using has_string_value grown_ok [OF 1(2)] by blast
  have ne: "fs \<noteq> repr" by (rule has_string_other [OF 1(3) grown_ok [OF 1(2)] t(1)]) (simp add: t(2) fs(2))
  obtain cache where cache: "scan_directory FS base [(''.py'', ldr)] tail entries [] = Inr cache" "dom (map_of cache) = {p. Some p \<in> set entries}"
    using scan_directory_ok [OF rd(3), of FS base "[(''.py'', ldr)]" "[]"] by auto
  have name1: "read_str (Inr (Inl ExcTypeError)) nm s1 = Some (Inr (Inr name, s1))"
    unfolding read_str_def by (rule read_object_ok [OF grown_heap [OF 1(2) nm]]) simp
  have obj: "read_object finder (\<lambda>this. case this of PvDynamic obj \<Rightarrow> Inr (Inr obj) | _ \<Rightarrow> Inl TodoMacro) s = Some (Inr (Inr k, s))"
    by (rule read_object_ok [OF finder(1)]) simp
  have via_host: "call_method_object E finder fs [nm, x] s = import_call_method FS ?E (interp ?E (Suc n)) (FileFinderObj base [(''.py'', ldr)]) fs [nm, x] s1"
  proof -
    have "ert (new_string (env_hash E) ''__repr__'') s = Some (Inr (Inr repr, s1))" using 1(1) by (simp only: estring_def)
    moreover have "env_call_method E k fs [nm, x] s1 = import_call_method FS ?E (interp ?E (Suc n)) (FileFinderObj base [(''.py'', ldr)]) fs [nm, x] s1"
      unfolding E env_methods(1) grown_object [OF 1(2) finder(2)] by (simp only: option.case)
    ultimately show ?thesis
      unfolding call_method_object_def shared_call_method_def by (simp add: ebind_def obj ne del: import_env.simps interp.simps)
  qed
  have run: "call_method_object E finder fs [nm, x] s = try_loaders ?E (interp ?E (Suc n)) base nm tail cache [(''.py'', ldr)] s1"
    unfolding via_host import_call_method_def
    using estring_hit [of ?E "''find_spec''" fs s1] fs1
    by (simp add: ebind_def hash args_opt_unboxed_def take_arg_def numeral_2_eq_2 eresult_def ev_basic file_finder_find_spec_def name1 rd(1)
        rd(2) [symmetric] cache(1) del: import_env.simps try_loaders.simps)
  show "call_method_object E finder fs [nm, x] s = Some (Inl TodoMacro)" if "Some (tail @ ''.py'') \<notin> set entries"
  proof -
    have "map_of cache (tail @ ''.py'') = None" using that cache(2) by (auto simp: dom_def)
    then show ?thesis unfolding run by (simp add: ev_basic del: import_env.simps)
  qed
  assume "Some (tail @ ''.py'') \<in> set entries"
  then obtain q where q: "map_of cache (tail @ ''.py'') = Some q" using cache(2) by (auto simp: dom_def)
  let ?path = "path_join base (tail @ ''.py'')"
  obtain po s2 where 2: "estring ?E ?path s1 = Some (Inr (Inr po, s2))" "grown (env_hash B) 1 s1 s2" "has_string (env_hash B) ?path po s2"
    using estring_ok [of ?E s1 ?path] grown_ok [OF 1(2)] grown_room [OF 1(2)] room by (auto simp: hash simp del: import_env.simps)
  obtain p where p: "ev_heap s2 po = Some (PvStr p)" "env_hash B (HStr p) = env_hash B (HStr ?path)"
    using has_string_value [OF 2(3) grown_ok [OF 2(2)]] by blast
  note g2 = grown_trans [OF 1(2) 2(2)]
  obtain ld s3 j where 3: "insert_shared (SourceFileLoaderObj po) s2 = Some (Inr (Inr ld, s3))" "grown (env_hash B) 1 s2 s3" "ev_heap s3 ld = Some (PvDynamic j)"
      "get_at (ih_objects (ec_host s3)) j = Some (SourceFileLoaderObj po)" "ev_heap s2 ld = None"
    using insert_shared_ok [OF grown_ok [OF 2(2)]] grown_room [OF g2] room by fastforce
  note g3 = grown_trans [OF g2 3(2)]
  obtain spec s4 i where 4: "insert_shared (ModuleSpecObj nm ld) s3 = Some (Inr (Inr spec, s4))" "grown (env_hash B) 1 s3 s4" "ev_heap s4 spec = Some (PvDynamic i)"
      "get_at (ih_objects (ec_host s4)) i = Some (ModuleSpecObj nm ld)" "ev_heap s3 spec = None"
    using insert_shared_ok [OF grown_ok [OF 3(2)]] grown_room [OF g3] room by fastforce
  note g4 = grown_trans [OF g3 4(2)]
  have "call_method_object E finder fs [nm, x] s = Some (Inr (Inr spec, s4))"
    unfolding run
    by (simp add: q 2(1) ebind_def loader_call [OF grown_heap [OF g2 finder(3)]] 3(1) 4(1) del: import_env.simps)
  moreover have "ld \<noteq> sg_none_v (rt_singletons (ec_rt s4))" "spec \<noteq> sg_none_v (rt_singletons (ec_rt s4))"
    using 3(5) 4(5) grown_heap [OF g2 nv] grown_heap [OF g3 nv] grown_singletons(1) [OF g4] by auto
  then have "found_spec (env_hash B) nm ?path spec s4"
    unfolding found_spec_def
    using 4(3,4) grown_heap [OF 4(2) 3(3)] grown_object [OF 4(2) 3(4)] grown_heap [OF grown_trans [OF 3(2) 4(2)] p(1)] p(2) by blast
  moreover have "grown (env_hash B) 4 s s4" using g4 by (simp add: numeral_eq_Suc)
  ultimately show "\<exists>spec s'. call_method_object E finder fs [nm, x] s = Some (Inr (Inr spec, s'))
      \<and> grown (env_hash B) 4 s s' \<and> found_spec (env_hash B) nm ?path spec s'" by blast
qed

lemma found_spec_grown:
  assumes "found_spec hash nm path spec s" and g: "grown hash k s s'" shows "found_spec hash nm path spec s'"
  using assms(1) unfolding found_spec_def grown_singletons(1) [OF g] by (blast intro: grown_heap [OF g] grown_object [OF g])

lemma spec_loader_attr:
  fixes B :: "'z import_host_scheme env"
  assumes spec: "found_spec (env_hash B) nm path spec s" and ok: "runtime_ok (env_hash B) (ec_rt s)" and room: "2 \<le> rt_room (ec_rt s)"
    and E: "E = import_env FS statics B (Suc n)"
  shows "\<exists>ld s'. getattr E R spec [AttrStr ''loader''] s = Some (Inr (Inr ld, s')) \<and> grown (env_hash B) 2 s s' \<and> ld \<noteq> sg_none_v (rt_singletons (ec_rt s))"
proof -
  let ?E = "import_env FS statics B n"
  obtain k ld where k: "ev_heap s spec = Some (PvDynamic k)" "get_at (ih_objects (ec_host s)) k = Some (ModuleSpecObj nm ld)"
      "ld \<noteq> sg_none_v (rt_singletons (ec_rt s))"
    using spec unfolding found_spec_def by blast
  have hash: "env_hash E = env_hash B" "env_hash ?E = env_hash B" unfolding E by (rule import_env_base)+
  obtain a s1 where 1: "estring E ''loader'' s = Some (Inr (Inr a, s1))" "grown (env_hash B) 1 s s1" "has_string (env_hash B) ''loader'' a s1"
    using estring_ok [of E s "''loader''"] ok room by (auto simp: hash)
  obtain b s2 where 2: "estring ?E ''name'' s1 = Some (Inr (Inr b, s2))" "grown (env_hash B) 1 s1 s2"
    using estring_ok [of ?E s1 "''name''"] grown_ok [OF 1(2)] grown_room [OF 1(2)] room by (auto simp: hash)
  have obj: "read_object spec (\<lambda>this. Inr (Inr (case this of PvDynamic n \<Rightarrow> Some n | _ \<Rightarrow> None))) s = Some (Inr (Inr (Some k), s))"
    by (rule read_object_ok [OF k(1)]) simp
  have "env_get_attribute E k a s1 = import_get_attribute ?E (ModuleSpecObj nm ld) a s1"
    unfolding E env_methods(2) grown_object [OF 1(2) k(2)] by (simp only: option.case)
  also have "\<dots> = Some (Inr (Inr ld, s2))"
    using estring_hit [of ?E "''loader''" a s1] 1(3) 2(1) by (simp add: import_get_attribute_def ebind_def ev_basic hash)
  finally have att: "env_get_attribute E k a s1 = Some (Inr (Inr ld, s2))" .
  have "ert (new_string (env_hash E) ''loader'') s = Some (Inr (Inr a, s1))" using 1(1) by (simp only: estring_def)
  then have "getattr E R spec [AttrStr ''loader''] s = Some (Inr (Inr ld, s2))"
    by (simp add: ebind_def obj attr_to_object_def att ev_basic)
  moreover have "grown (env_hash B) 2 s s2" using grown_trans [OF 1(2) 2(2)] by (simp add: numeral_eq_Suc)
  ultimately show ?thesis using k(3) by blast
qed

text \<open>A path entry that is a string, and not the empty one.\<close>

definition entry_location :: "(hash_key \<Rightarrow> u64) \<Rightarrow> 'h ectx \<Rightarrow> object_id \<Rightarrow> string \<Rightarrow> bool" where
  "entry_location hash s e p \<longleftrightarrow> ev_heap s e = Some (PvStr p) \<and> hash (HStr p) \<noteq> hash (HStr [])"

lemma entry_location_grown: "entry_location hash s e p \<Longrightarrow> grown hash k s s' \<Longrightarrow> entry_location hash s' e p"
  unfolding entry_location_def by (auto dest: grown_heap)

lemma search_first_directory:
  fixes B :: "'z import_host_scheme env"
  assumes "installed (env_hash B) m u (ec_rt s)" and "runtime_ok (env_hash B) (ec_rt s)" and "length skipped + 10 \<le> rt_room (ec_rt s)"
    and "has_string (env_hash B) ''find_spec'' fs s" and "env_hash B (HStr ''find_spec'') \<noteq> env_hash B (HStr ''__repr__'')"
    and "list_all (\<lambda>e. \<exists>p. entry_location (env_hash B) s e p \<and> \<not> fs_is_dir FS p) skipped"
    and "entry_location (env_hash B) s e d" and "fs_is_dir FS d" and "fs_canonicalize FS d = Some base"
    and "ev_heap s nm = Some (PvStr name)" and "fs_read_dir FS base = Inr entries"
    and "tail = last_segment CHR ''.'' name" and "Some tail \<notin> set entries" and E: "E = import_env FS statics B (Suc (Suc n))"
  shows "(Some (tail @ ''.py'') \<notin> set entries \<longrightarrow> search_entries FS E R nm fs target (skipped @ e # rest) s = Some (Inl TodoMacro))
    \<and> (Some (tail @ ''.py'') \<in> set entries \<longrightarrow> (\<exists>spec s'. search_entries FS E R nm fs target (skipped @ e # rest) s = Some (Inr (Inr spec, s'))
        \<and> grown (env_hash B) (length skipped + 8) s s' \<and> found_spec (env_hash B) nm (path_join base (tail @ ''.py'')) spec s'))"
  using assms(1-13)
proof (induction skipped arbitrary: s)
  case Nil
  note inst = Nil(1) and ok = Nil(2)
  have path: "ev_heap s e = Some (PvStr d)" "env_hash B (HStr d) \<noteq> env_hash B (HStr [])" using Nil(7) by (simp_all add: entry_location_def)
  obtain s1 finder where 1: "get_path_from_importer_cache FS E R e s = Some (Inr (Inr finder, s1))" "grown (env_hash B) 2 s s1" "finder_found finder base s s1"
    using entry_finder(2) [OF inst ok _ path E Nil(8,9)] Nil(3) by fastforce
  obtain k ldr where f: "ev_heap s1 finder = Some (PvDynamic k)" "get_at (ih_objects (ec_host s1)) k = Some (FileFinderObj base [(''.py'', ldr)])"
      "ev_heap s1 ldr = Some (PvCallable (FnBoxed native_source_file_loader None))" "finder \<noteq> sg_none_v (rt_singletons (ec_rt s))"
    using 1(3) unfolding finder_found_def by blast
  have fs1: "has_string (env_hash B) ''find_spec'' fs s1" by (rule has_string_grown [OF Nil(4) 1(2)])
  obtain v where nv: "ev_heap s1 (sg_none_v (rt_singletons (ec_rt s1))) = Some v"
    using installed_grown [OF inst 1(2)] unfolding installed_def by blast
  have room1: "4 \<le> rt_room (ec_rt s1)" using grown_room [OF 1(2)] Nil(3) by simp
  note answers = finder_answers [OF grown_ok [OF 1(2)] room1 f(1-3) fs1 Nil(5) grown_heap [OF 1(2) Nil(10)] nv Nil(11-13) E]
  let ?none = "sg_none_v (rt_singletons (ec_rt s))" 
  let ?args = "[nm, case target of None \<Rightarrow> ?none | Some t \<Rightarrow> t]"
  show ?case
  proof (intro conjI impI)
    assume "Some (tail @ ''.py'') \<notin> set entries"
    then show "search_entries FS E R nm fs target ([] @ e # rest) s = Some (Inl TodoMacro)"
      using answers(1) f(4) by (simp add: ebind_def ev_basic 1(1) del: getattr.simps)
  next
    assume "Some (tail @ ''.py'') \<in> set entries"
    then obtain spec s2 where 2: "call_method_object E finder fs ?args s1 = Some (Inr (Inr spec, s2))" "grown (env_hash B) 4 s1 s2"
        "found_spec (env_hash B) nm (path_join base (tail @ ''.py'')) spec s2"
      using answers(2) by blast
    have g2: "grown (env_hash B) 6 s s2" using grown_trans [OF 1(2) 2(2)] by simp
    have room2: "2 \<le> rt_room (ec_rt s2)" using grown_room [OF g2] Nil(3) by simp
    obtain ld s3 where 3: "getattr E R spec [AttrStr ''loader''] s2 = Some (Inr (Inr ld, s3))" "grown (env_hash B) 2 s2 s3"
        "ld \<noteq> sg_none_v (rt_singletons (ec_rt s2))"
      using spec_loader_attr [OF 2(3) grown_ok [OF 2(2)] room2 E] by blast
    have none: "spec \<noteq> ?none" "ld \<noteq> ?none" using 2(3) 3(3) grown_singletons(1) [OF g2] by (auto simp: found_spec_def)
    have "grown (env_hash B) 8 s s3" using grown_trans [OF g2 3(2)] by simp
    moreover have "search_entries FS E R nm fs target ([] @ e # rest) s = Some (Inr (Inr spec, s3))"
      using f(4) none by (simp add: ebind_def ev_basic 1(1) 2(1) 3(1) del: getattr.simps)
    ultimately show "\<exists>spec s'. search_entries FS E R nm fs target ([] @ e # rest) s = Some (Inr (Inr spec, s'))
        \<and> grown (env_hash B) (length ([] :: object_id list) + 8) s s' \<and> found_spec (env_hash B) nm (path_join base (tail @ ''.py'')) spec s'"
      using found_spec_grown [OF 2(3) 3(2)] by auto
  qed
next
  case (Cons x skipped)
  obtain p where p: "entry_location (env_hash B) s x p" "\<not> fs_is_dir FS p" using Cons.prems(6) by auto
  then have path: "ev_heap s x = Some (PvStr p)" "env_hash B (HStr p) \<noteq> env_hash B (HStr [])" by (simp_all add: entry_location_def)
  obtain s1 where 1: "get_path_from_importer_cache FS E R x s = Some (Inr (Inr (sg_none_v (rt_singletons (ec_rt s))), s1))" "grown (env_hash B) 1 s s1"
    using entry_finder(1) [OF Cons.prems(1,2) _ path E p(2)] Cons.prems(3) by fastforce
  have run: "search_entries FS E R nm fs target ((x # skipped) @ e # rest) s = search_entries FS E R nm fs target (skipped @ e # rest) s1"
    using 1(1) by (simp add: ebind_def ev_basic)
  have all: "list_all (\<lambda>e. \<exists>p. entry_location (env_hash B) s1 e p \<and> \<not> fs_is_dir FS p) skipped"
    using Cons.prems(6) entry_location_grown [OF _ 1(2)] by (auto simp: list_all_iff) blast
  have room1: "length skipped + 10 \<le> rt_room (ec_rt s1)" using grown_room [OF 1(2)] Cons.prems(3) by simp
  note IH = Cons.IH [OF installed_grown [OF Cons.prems(1) 1(2)] grown_ok [OF 1(2)] room1 has_string_grown [OF Cons.prems(4) 1(2)] Cons.prems(5) all
      entry_location_grown [OF Cons.prems(7) 1(2)] Cons.prems(8,9) grown_heap [OF 1(2) Cons.prems(10)] Cons.prems(11-13)]
  have "grown (env_hash B) (length (x # skipped) + 8) s s'" if "grown (env_hash B) (length skipped + 8) s1 s'" for s'
    using grown_trans [OF 1(2) that] by (simp add: add.commute)
  with IH show ?case unfolding run by blast
qed

text \<open>The list \<open>sys.path\<close>.\<close>

definition sys_path_is :: "(hash_key \<Rightarrow> u64) \<Rightarrow> runtime \<Rightarrow> object_id list \<Rightarrow> bool" where
  "sys_path_is hash rt es \<longleftrightarrow> (\<exists>k inner a pl. rt_heap rt (sg_sys (rt_singletons rt)) = Some (PvModule k inner)
     \<and> py_dict_get (ro_dict inner) (hash (HStr ''path'')) = Some (a, pl) \<and> rt_heap rt pl = Some (PvList es))"


section \<open>A session\<close>

definition length_hash :: "hash_key \<Rightarrow> u64" where
  "length_hash k = (case k of HStr st \<Rightarrow> word_of_nat (length st) | _ \<Rightarrow> 0)"

definition sample_sys :: "(object_id \<times> object_id) py_dict" where
  "sample_sys = [(4, 1, 8), (10, 1, 5), (9, 1, 4), (7, 1, 3)]"

definition import_heap :: "(object_id \<times> py_value) list" where
  "import_heap = [(1, PvNone), (2, PvModule (MkObject 2) (raw_object_default\<lparr>ro_dict := sample_sys\<rparr>)), (3, PvDict []), (4, PvList []), (5, PvList []),
     (6, PvModule (MkObject 6) (raw_object_default\<lparr>ro_dict := [(10, 1, 7)]\<rparr>)), (7, PvClass None None raw_object_default), (8, PvList [9, 10, 9]),
     (9, PvStr ''file.txt''), (10, PvStr ''lib''), (11, PvStr ''pkg.mod'')]"

definition import_runtime :: runtime where
  "import_runtime = \<lparr>rt_objects = \<lparr>os_last_object_id = 12, os_inner = import_heap\<rparr>,
     rt_singletons = singletons_default\<lparr>sg_sys := 2, sg_none_v := 1\<rparr>, rt_module_objects = []\<rparr>"

definition sample_setup :: setup_objects where
  "sample_setup = \<lparr>su_modules = 3, su_meta_path = 4, su_path_hooks = 5, su_path_finder = 7\<rparr>"

definition sample_files :: file_system where
  "sample_files = \<lparr>fs_canonicalize = Some, fs_exists = (\<lambda>_. True), fs_is_dir = (\<lambda>p. p = ''lib''), fs_is_file = (\<lambda>_. True),
     fs_read_dir = (\<lambda>p. Inr [Some ''a.py'', None, Some ''mod.py'']), fs_read_to_string = (\<lambda>_. Some []), fs_current_dir = None\<rparr>"

definition sample_import_env :: "import_host env" where
  "sample_import_env = \<lparr>env_hash = length_hash, env_spanref_to_str = (\<lambda>_ _. ''mod''), env_spangroup_to_str = (\<lambda>_ _. ''mod''),
     env_spangroup_of_hash = (\<lambda>_ _ h. (0, h)), env_import_module_spec = (\<lambda>_ _ _. eraise ImportError), env_accept_input = (\<lambda>_ h. (None, h)),
     env_native = (\<lambda>_ _ _. eraise ImportError), env_call = (\<lambda>_ _ _. eraise ImportError), env_get_attribute = (\<lambda>_ _. eraise ImportError),
     env_call_method = (\<lambda>_ _ _. eraise ImportError), env_repr = (\<lambda>_. eraise ImportError)\<rparr>"

lemma import_runtime_heap: "rt_heap import_runtime = map_of import_heap"
  by (simp add: import_runtime_def space_heap_def)

lemma import_runtime_ok: "runtime_ok length_hash import_runtime"
  by (auto simp: runtime_ok_def import_runtime_def space_ok_def import_heap_def singletons_default_def Let_def split: if_splits)

lemma sample_ready: "setup_ready length_hash 6 sample_setup import_runtime"
  unfolding setup_ready_def import_runtime_heap using import_runtime_ok
  by (simp add: sample_setup_def import_runtime_def import_heap_def py_dict_get_def sample_sys_def length_hash_def space_room_def singletons_default_def)

definition import_ctx :: "runtime \<Rightarrow> import_host ectx" where
  "import_ctx rt = \<lparr>ec_rt = rt, ec_host = \<lparr>ih_objects = []\<rparr>, ec_preamble = [], ec_n_ticks = None,
     ec_code = \<lparr>fc_index = 0, fc_mref = ModuleRef 1, fc_sequences = []\<rparr>, ec_mref = ModuleRef 1\<rparr>"



end
