(* ===== verification/SessionSample.thy ===== *)
theory SessionSample
  imports SessionSource CodegenSample PathSearch
begin

text \<open>A session with two files, on which the laws of sessions apply.\<close>

text \<open>The text of the second, one line.\<close>

definition x_source :: string where
  "x_source = ''x = x'' @ [CHR 0x0A]"

definition sample_read :: "string \<Rightarrow> string option" where
  "sample_read p = (if p = ''lib/a.py'' then Some [] else if p = ''lib/b.py'' then Some x_source else None)"

definition two_names :: "(py_token \<times> span) list" where
  "two_names = [(TkRawIdent, (0, 1)), (TkWhitespace, (1, 2)), (TkEqual, (2, 3)), (TkWhitespace, (3, 4)), (TkRawIdent, (4, 5)), (TkNewline, (5, 6))]"

text \<open>The layout of assignments on lines of six characters.\<close>

fun line_layout :: layout where
  "line_layout [0] = (5, 6)"
| "line_layout [0, i] = (Suc i, Suc (Suc i))"
| "line_layout (Suc _ # p) = (case line_layout p of (a, b) \<Rightarrow> (a + 6, b + 6))"
| "line_layout _ = (0, 0)"

definition sample_world :: "(value_rec list \<times> (nat \<times> nat \<times> unit) list, flat_inst list list \<times> (nat \<times> nat \<times> block_cfg_edge) list,
    cg_inst list list \<times> (nat \<times> nat \<times> unit) list) world" where
  "sample_world = \<lparr>w_files = sample_files\<lparr>fs_read_to_string := sample_read\<rparr>, w_lex = (\<lambda>s. if s = [] then [] else two_names), w_nom = nom_ref,
     w_hash_str = (\<lambda>s. word_of_nat (length s)), w_call = two_calls, w_orders = \<lparr>o_set = rev, o_new = rev\<rparr>, w_repr = (\<lambda>_. []), w_fuel = 1\<rparr>"

definition sample_gcx :: "(value_rec list \<times> (nat \<times> nat \<times> unit) list, cg_inst list list \<times> (nat \<times> nat \<times> unit) list) gcx" where
  "sample_gcx = \<lparr>gc_opts = OptCheck ''lib'' ''lib/a.py'', gc_static_names = [], gc_modules = \<lparr>ssa_inner = [Some monty_data], ssa_next_free = 1\<rparr>,
     gc_module_sources = [], gc_module_asts = [], gc_runtime = new_uninit, gc_host = \<lparr>ih_objects = [], sh_spanner = interner_new\<rparr>,
     gc_session = \<lparr>ss_types = \<lparr>td_inner = ssa_new, td_clobber = []\<rparr>, ss_values = vs_default list_graph\<rparr>, gc_dirty = False\<rparr>"

lemma sample_modules_ok: "modules_ok sample_gcx"
  by (auto simp: modules_ok_def sample_gcx_def ssa_wf_def ssa_get_def get_at_def monty_data_def)

lemma empty_module: "ParseStmt.parse_module nom_ref 0 [] = Some (Inr (Module []))"
  using printed_module_run [OF nom_ref_spec, of "[]" line_layout 0] by simp

lemma sample_parse:
  "session_parse_module sample_world [] ''lib/a.py'' ''a'' sample_gcx = Some (Inr (ModuleRef 1, sample_gcx\<lparr>
     gc_modules := \<lparr>ssa_inner = [Some monty_data, Some \<lparr>md_path = ''lib/a.py'', md_name = ''a'', md_mref = ModuleRef 1, md_qualname = [''a'']\<rparr>], ssa_next_free = 2\<rparr>,
     gc_module_sources := [(ModuleRef 1, [])], gc_module_asts := [(ModuleRef 1, Module [])]\<rparr>))"
  by (simp add: session_parse_module_def reserve_module_def ssa_reserve_def sample_gcx_def parse_source_def sample_world_def empty_module
      qrust_def lift_panic_def file_stem_def path_components_def unwrap_def store_source_def ssa_try_set_value_def get_at_def rsplit_once_def last_segment_def)

lemma sample_code: "ast_to_flatcode (ModuleRef 1) (Module []) = Inr (flatcode_new (ModuleRef 1, (0, 0)))"
  by (simp add: ast_to_flatcode_def visit_module_def lbind_def lret_def)

text \<open>The module object of a module without instructions.\<close>

definition empty_code :: flat_code where
  "empty_code = flatcode_new (ModuleRef 1, (0, 0))"

definition empty_runtime :: runtime where
  "empty_runtime =
     \<lparr>rt_objects = \<lparr>os_last_object_id = 2, os_inner = [(1, PvModule (MkUser (ModuleRef 1)) \<lparr>ro_alloc_id = 1, ro_dict = [], ro_class = object_id_default\<rparr>)]\<rparr>,
      rt_singletons = singletons_default, rt_module_objects = [(ModuleRef 1, \<lparr>mm_alloc = 1, mm_mref = ModuleRef 1, mm_code = Some empty_code\<rparr>)]\<rparr>"

lemma empty_eval: "eval (E\<lparr>env_accept_input := (\<lambda>_ h. (Some empty_code, h))\<rparr>) [] new_uninit host = Inr (Some (bind_ctx empty_code (ModuleRef 1) empty_runtime host))"
  by (simp add: eval_def empty_code_def flatcode_new_def empty_runtime_def synthesise_module_def synthesise_within_def rt_insert_with_def
      os_insert_with_def new_uninit_def os_new_def new_object_id_def object_id_of_u64_def rt_update_def with_object_mut_def unwrap_def
      set_module_dict_def set_mkey_def put_metadata_def singletons_default_def Let_def)

lemma empty_run:
  "run_until_complete E (Suc 0) (set_upper_tick_bound n (bind_ctx empty_code (ModuleRef 1) empty_runtime host))
     = Some (Inr (Inr 1, set_upper_tick_bound n (bind_ctx empty_code (ModuleRef 1) empty_runtime host)))"
  by (simp add: run_until_complete_def empty_code_def flatcode_new_def bind_ctx_def set_upper_tick_bound_def ebind_def ev_basic module_alloc_def
      empty_runtime_def setup_builtins_def singletons_default_def is_uninit_def Let_def ecatch_return_def get_at_def object_id_default_def)

text \<open>The value of its module object, after discovery.\<close>

definition one_store :: "(value_rec list \<times> (nat \<times> nat \<times> unit) list, cg_inst list list \<times> (nat \<times> nat \<times> unit) list) value_store" where
  "one_store =
     \<lparr>vs_graph = ([value_default], []),
      vs_metadata = [(ValueId 0, (metadata_default (ValueId 0))\<lparr>vm_object_id := Some 1, vm_internal_refs := Some []\<rparr>)],
      vs_assoc_cache = [(1, ValueId 0)]\<rparr>"

lemma list_graph_first:
  "g_empty list_graph = ([], [])" "g_add_node list_graph w ([], []) = Inr (0, [w], [])" "g_weights list_graph = fst"
  by (simp_all add: list_graph_def)

lemma one_store_first:
  "vs_insert list_graph value_default (vs_default list_graph) = Inr (ValueId 0, \<lparr>vs_graph = ([value_default], []),
     vs_metadata = [(ValueId 0, metadata_default (ValueId 0))], vs_assoc_cache = []\<rparr>)"
  by (simp add: vs_insert_def vs_default_def list_graph_first Let_def)

lemma empty_scan:
  "scan_objects list_graph sample_hash (vs_default list_graph) (os_inner (rt_objects empty_runtime)) ([], []) = Inr ([(1, [])], [])"
  by (simp add: empty_runtime_def scan_object_def refs_of_def dict_refs_def hash_refs_def vs_contains_def get_by_assoc_def vs_default_def object_key_def)

lemma empty_fill:
  "fill_value list_graph sample_hash h rev (rt_objects empty_runtime) 1 [] (\<lparr>vs_graph = ([value_default], []),
     vs_metadata = [(ValueId 0, metadata_default (ValueId 0))], vs_assoc_cache = [(1, ValueId 0)]\<rparr>, si) = Inr (one_store, si)"
  by (simp add: fill_value_def get_by_assoc_def sample_hash_def unwrap_def empty_runtime_def with_object_def module_dict_def set_refs_def
      with_metadata_def with_metadata_mut_def resolve_value_def vs_node_def list_graph_first get_at_def one_store_def)

lemma empty_stir:
  "stir_the_pot list_graph sample_hash h \<lparr>o_set = rev, o_new = rev\<rparr> (rt_objects empty_runtime) (True, vs_default list_graph, si) = Inr (False, one_store, si)"
  by (simp add: stir_the_pot_def empty_scan one_store_first vs_assoc_def sample_hash_def empty_fill)

lemma sample_selectors:
  "w_fuel sample_world = Suc 0" "cc_driver (w_call sample_world) = sample_driver" "w_orders sample_world = \<lparr>o_set = rev, o_new = rev\<rparr>"
  "dr_graph sample_driver = list_graph" "dr_hash sample_driver = sample_hash"
  "gc_runtime sample_gcx = new_uninit" "gc_host sample_gcx = \<lparr>ih_objects = [], sh_spanner = interner_new\<rparr>"
  "ss_values (gc_session sample_gcx) = vs_default list_graph" "gc_static_names sample_gcx = []"
  by (simp_all add: sample_world_def sample_gcx_def sample_driver_def two_calls_def)

lemma sample_evaluate:
  "\<exists>cx'. evaluate_module sample_world (ModuleRef 1) (sample_gcx\<lparr>gc_modules := ms, gc_module_sources := src, gc_module_asts := [(ModuleRef 1, Module [])]\<rparr>)
     = Some (Inr ((ModuleRef 1, 1), cx'))"
proof -
  let ?cx = "sample_gcx\<lparr>gc_modules := ms, gc_module_sources := src, gc_module_asts := [(ModuleRef 1, Module [])]\<rparr>"
  have code: "get_module_flatcode sample_world ?cx (ModuleRef 1) = Inr empty_code"
    by (simp add: get_module_flatcode_def vs_contains_def sample_gcx_def vs_default_def get_by_assoc_def sample_code unwrap_def empty_code_def)
  have run: "session_eval_module sample_world (ModuleRef 1) ?cx = Some (Inr (1, ?cx\<lparr>gc_runtime := empty_runtime, gc_dirty := True\<rparr>))"
    by (simp add: session_eval_module_def Let_def code qrust_def lift_panic_def sample_selectors empty_eval empty_run)
      (simp add: bind_ctx_def set_upper_tick_bound_def sample_gcx_def)
  have stir: "session_stir sample_world (?cx\<lparr>gc_runtime := empty_runtime, gc_dirty := True\<rparr>)
      = Some (Inr ((), ?cx\<lparr>gc_runtime := empty_runtime, gc_dirty := False, gc_session := (gc_session sample_gcx)\<lparr>ss_values := one_store\<rparr>\<rparr>))"
    by (simp add: session_stir_def sample_selectors empty_stir qrust_def lift_panic_def sample_gcx_def)
  have "with_metadata list_graph sample_hash (object_key 1) vm_value_ix one_store = Some (ValueId 0)"
    by (simp add: with_metadata_def object_key_def one_store_def get_by_assoc_def sample_hash_def resolve_value_def vs_node_def list_graph_first get_at_def metadata_default_def)
  then show ?thesis by (simp add: evaluate_module_def run stir sample_selectors qrust_def lift_panic_def unwrap_def)
qed

section \<open>The laws on the sample\<close>

lemma sample_not_loaded: "\<not> path_loaded ''lib/a.py'' sample_gcx"
  by (simp add: path_loaded_def ssa_iter_def sample_gcx_def monty_data_def path_eq_def path_components_def)

lemma sample_include:
  "\<exists>cx'. include_module sample_world ''lib/a.py'' ''a'' sample_gcx = Some (Inr ((ModuleRef 1, 1), cx'))"
proof -
  have read: "fs_read_to_string (w_files sample_world) ''lib/a.py'' = Some []" by (simp add: sample_world_def sample_read_def)
  show ?thesis
    using sample_evaluate by (simp add: include_module_def load_module_with_def sample_not_loaded read sample_parse)
qed

theorem include_module_registers_witness:
  "\<exists>cx'. include_module sample_world ''lib/a.py'' ''a'' sample_gcx = Some (Inr ((ModuleRef 1, 1), cx')) \<and> modules_ok cx'
     \<and> include_module sample_world ''lib//a.py'' ''b'' cx' = Some (Inl (Failed (MontyIO ''AlreadyExists'')))"
proof -
  obtain cx' where inc: "include_module sample_world ''lib/a.py'' ''a'' sample_gcx = Some (Inr ((ModuleRef 1, 1), cx'))"
    using sample_include by blast
  have "ssa_next_free (gc_modules sample_gcx) < 2 ^ 32" by (simp add: sample_gcx_def)
  from include_module_registers [OF sample_modules_ok this inc]
  have "modules_ok cx'" and again: "\<And>path' name'. path_eq ''lib/a.py'' path' \<Longrightarrow>
      include_module sample_world path' name' cx' = Some (Inl (Failed (MontyIO ''AlreadyExists'')))" by blast+
  moreover have "path_eq ''lib/a.py'' ''lib//a.py''" by code_simp
  ultimately show ?thesis using inc by blast
qed

definition three_modules :: "module_data ssamap" where
  "three_modules =
     \<lparr>ssa_inner = [Some monty_data, Some \<lparr>md_path = ''a.py'', md_name = ''abc'', md_mref = ModuleRef 1, md_qualname = [''a'']\<rparr>,
        Some \<lparr>md_path = ''b.py'', md_name = ''b'', md_mref = ModuleRef 2, md_qualname = [''b'']\<rparr>], ssa_next_free = 3\<rparr>"

theorem fancy_path_prefixes_witness: "resolve_fancy_path_to_modules three_modules ''a:b:f'' = Inr [ModuleRef 1]"
proof -
  have "split_char CHR '':'' ''a:b:f'' = [''a''] @ [''b'', ''f'']" by code_simp
  from fancy_path_prefixes [OF this, of three_modules] show ?thesis
    by (simp add: all_modules_def ssa_iter_def three_modules_def ssa_get_def get_at_def monty_data_def)
qed

text \<open>The two names of \<open>x = x\<close> are two references of one group.\<close>

definition two_names_body :: "statement spanned list" where
  "two_names_body =
     [Spanned (0, 5) (StAsn (Assign (Spanned (0, 1) (Atomic (Spanned (0, 1) (AtName (SpanRef 0 0)))))
        (Spanned (4, 5) (ExprPrimary (Spanned (4, 5) (Atomic (Spanned (4, 5) (AtName (SpanRef 0 1))))))) None))]"

definition two_names_interner :: span_interner where
  "two_names_interner =
     \<lparr>si_map = \<lparr>ssa_inner = [Some \<lparr>sd_range = (0, 1), sd_module = ModuleRef 1, sd_hash = 1\<rparr>, Some \<lparr>sd_range = (4, 5), sd_module = ModuleRef 1, sd_hash = 1\<rparr>],
        ssa_next_free = 2\<rparr>, si_groups = [(1, 0)]\<rparr>"

lemma two_names_text: "str_get x_source (0, Suc 0) = Some ''x''" "str_get x_source (4, 5) = Some ''x''" "x_source \<noteq> []"
  by (simp_all add: x_source_def str_get_def is_char_boundary_def)

lemma two_names_tokens:
  "iter_tokens (w_hash_str sample_world) x_source (ModuleRef 1) two_names interner_new = (map Inr (print_module line_layout (Module two_names_body)), two_names_interner)"
  by (simp add: two_names_def token_iter_next_def interner_insert_def two_names_text interner_new_def ssa_new_def ssa_insert_def u32_of_usize_def
      sample_world_def two_names_body_def spaced_def two_names_interner_def unwrap_def Let_def)

lemma two_names_parsed:
  "session_parse_module sample_world x_source ''lib/b.py'' ''b'' sample_gcx = Some (Inr (ModuleRef 1, sample_gcx\<lparr>
     gc_modules := \<lparr>ssa_inner = [Some monty_data, Some \<lparr>md_path = ''lib/b.py'', md_name = ''b'', md_mref = ModuleRef 1, md_qualname = [''b'']\<rparr>], ssa_next_free = 2\<rparr>,
     gc_module_sources := [(ModuleRef 1, x_source)], gc_module_asts := [(ModuleRef 1, Module two_names_body)],
     gc_host := \<lparr>ih_objects = [], sh_spanner = two_names_interner\<rparr>\<rparr>))"
proof -
  have lex: "w_lex sample_world x_source = two_names" "w_nom sample_world = nom_ref" by (simp_all add: sample_world_def two_names_text)
  have print: "list_all printable_statement two_names_body" by (simp add: two_names_body_def)
  have "parse_source sample_world x_source (ModuleRef 1) interner_new = Some (Inr (Module two_names_body, two_names_interner))"
    using printed_module_run [OF nom_ref_spec print order_refl, of line_layout] by (simp add: parse_source_def lex two_names_tokens rust_simps del: print_module.simps)
  then show ?thesis
    by (simp add: session_parse_module_def reserve_module_def ssa_reserve_def sample_gcx_def qrust_def lift_panic_def file_stem_def
        path_components_def unwrap_def store_source_def ssa_try_set_value_def get_at_def rsplit_once_def last_segment_def)
qed

theorem source_names_resolve_witness:
  "\<exists>cx'. session_parse_module sample_world x_source ''lib/b.py'' ''b'' sample_gcx = Some (Inr (ModuleRef 1, cx'))
     \<and> resolve_sref_as_str (gc_static_names cx') (gc_module_sources cx') (gc_spanner cx') (SpanRef 0 1) = Some ''x''"
proof -
  let ?toks = "map Inr (print_module line_layout (Module two_names_body)) :: (py_token \<times> span) rust list"
  have fresh: "gc_spanner sample_gcx = interner_new" "0 < ssa_next_free (gc_modules sample_gcx)" "ssa_next_free (gc_modules sample_gcx) < 2 ^ 32"
    "w_lex sample_world x_source = two_names"
    by (simp_all add: sample_gcx_def sample_world_def two_names_text)
  have wf: "interner_wf (gc_spanner sample_gcx)" unfolding fresh by (rule interner_wf_new)
  have plain: "\<forall>(t, rng) \<in> set (w_lex sample_world x_source). token_refs t = []" unfolding fresh by (simp add: two_names_def)
  have toks: "?toks = fst (iter_tokens (w_hash_str sample_world) x_source (ModuleRef 1) (w_lex sample_world x_source) (gc_spanner sample_gcx))"
    unfolding fresh two_names_tokens by simp
  have tok: "Inr (TkIdent (SpanRef 0 1), (4, 5)) \<in> set ?toks" "SpanRef 0 1 \<in> set (token_refs (TkIdent (SpanRef 0 1)))"
    by (simp_all add: two_names_body_def)
  show ?thesis
    using two_names_text source_names_resolve [OF two_names_parsed wf fresh(2,3) plain toks tok tok] two_names_parsed by auto
qed

section \<open>A source that is evaluated\<close>

text \<open>\<open>a = 1\<close> and \<open>b = a\<close>, on two lines, in an initialized runtime.\<close>

definition ab_source :: string where
  "ab_source = ''a = 1'' @ [CHR 0x0A] @ ''b = a'' @ [CHR 0x0A]"

definition ab_lexed :: "(py_token \<times> span) list" where
  "ab_lexed =
     [(TkRawIdent, (0, 1)), (TkWhitespace, (1, 2)), (TkEqual, (2, 3)), (TkWhitespace, (3, 4)), (TkDigits 1, (4, 5)), (TkNewline, (5, 6)),
      (TkRawIdent, (6, 7)), (TkWhitespace, (7, 8)), (TkEqual, (8, 9)), (TkWhitespace, (9, 10)), (TkRawIdent, (10, 11)), (TkNewline, (11, 12))]"

definition ab_hash :: "string \<Rightarrow> u64" where
  "ab_hash s = (if s = ''a'' then 1 else 2)"

definition ab_world :: "(value_rec list \<times> (nat \<times> nat \<times> unit) list, flat_inst list list \<times> (nat \<times> nat \<times> block_cfg_edge) list,
    cg_inst list list \<times> (nat \<times> nat \<times> unit) list) world" where
  "ab_world = sample_world\<lparr>w_lex := \<lambda>_. ab_lexed, w_hash_str := ab_hash,
     w_call := two_calls\<lparr>cc_rt_hash := \<lambda>h. case h of HStr s \<Rightarrow> ab_hash s | _ \<Rightarrow> 0\<rparr>, w_fuel := 9\<rparr>"

abbreviation ab_gcx :: "(value_rec list \<times> (nat \<times> nat \<times> unit) list, cg_inst list list \<times> (nat \<times> nat \<times> unit) list) gcx" where
  "ab_gcx \<equiv> sample_gcx\<lparr>gc_runtime := sample_runtime\<rparr>"

definition ab_assignments :: "assignment list" where
  "ab_assignments = [(((0, 1), (4, 5)), SpanRef 0 0, RInt 1), (((6, 7), (10, 11)), SpanRef 1 1, RName (SpanRef 0 2))]"

definition ab_interner :: span_interner where
  "ab_interner =
     \<lparr>si_map = \<lparr>ssa_inner = [Some \<lparr>sd_range = (0, 1), sd_module = ModuleRef 1, sd_hash = 1\<rparr>, Some \<lparr>sd_range = (6, 7), sd_module = ModuleRef 1, sd_hash = 2\<rparr>,
        Some \<lparr>sd_range = (10, 11), sd_module = ModuleRef 1, sd_hash = 1\<rparr>], ssa_next_free = 3\<rparr>, si_groups = [(1, 0), (2, 1)]\<rparr>"

lemma ab_texts: "str_get ab_source (0, Suc 0) = Some ''a''" "str_get ab_source (6, 7) = Some ''b''" "str_get ab_source (10, 11) = Some ''a''"
  by (simp_all add: ab_source_def str_get_def is_char_boundary_def)

lemma ab_tokens:
  "iter_tokens ab_hash ab_source (ModuleRef 1) ab_lexed interner_new = (map Inr (print_module line_layout (assign_module ab_assignments)), ab_interner)"
  by (simp add: ab_lexed_def token_iter_next_def interner_insert_def ab_texts interner_new_def ssa_new_def ssa_insert_def u32_of_usize_def
      ab_hash_def ab_assignments_def assign_module_def assign_stmt_def spaced_def ab_interner_def unwrap_def Let_def)

text \<open>The session knows two texts, which the hash separates.\<close>

lemma ab_known: "known_texts [] (assoc_put (ModuleRef 1) ab_source []) ab_interner \<subseteq> {''a'', ''b''}"
proof -
  have "s \<in> {''a'', ''b''}" if "resolve_sref_as_str [] (assoc_put (ModuleRef 1) ab_source []) ab_interner r = Some s" for r s
    using that
    by (auto simp: resolve_sref_as_str_def spanref_to_str_def interner_span_data_def ab_interner_def ssa_get_def get_at_def ab_texts nth_Cons
        split: if_splits nat.splits option.splits)
  then show ?thesis by (auto simp: known_texts_def)
qed

lemma ab_selectors:
  "w_nom ab_world = nom_ref" "w_lex ab_world = (\<lambda>_. ab_lexed)" "w_hash_str ab_world = ab_hash" "w_rt_hash ab_world (HStr s) = ab_hash s"
  "w_fuel ab_world = 9"
  by (simp_all add: ab_world_def sample_world_def)


end
