(* ===== verification/Spec2Isabelle.thy ===== *)
theory Spec2Isabelle
  imports TokenIter ParseModule LowerModule TypeLayout Typecheck EvalModule CallGraph StructBuf SessionSample
begin

text \<open>
  A verification library for monty, a compiler for a statically typed subset of Python, written in
  Rust. Paths are relative to \<^verbatim>\<open>src/\<close>.

  \<^bold>\<open>The program.\<close> The parser (\<^verbatim>\<open>montyc_parser\<close>) turns text into a syntax tree whose names and strings
  are references into a span interner. The tree is lowered to flat code (\<^verbatim>\<open>montyc_flatcode\<close>), a list
  of instruction sequences. The compile-time interpreter (\<^verbatim>\<open>montyc_hlirt\<close>) runs the flat code of
  modules to obtain their objects. The driver (\<^verbatim>\<open>montyc_driver\<close>) copies the objects of interest into
  a value store, splits the sequence of a function into blocks, builds its control flow graph and
  type checks it with a worklist algorithm; types live in a registry with layouts
  (\<^verbatim>\<open>montyc_core/src/typing.rs\<close>). The back end (\<^verbatim>\<open>montyc_codegen\<close>) hands typed code to cranelift.

  \<^bold>\<open>Conventions.\<close> A function that may panic returns \<open>panic + 'a\<close>; a Rust \<open>Result\<close> is a sum whose
  left side is the error; state is passed explicitly; a hash map is an association list with one
  entry per key; identifiers keep their width as words, and \<open>usize\<close> that only counts or indexes is a
  natural number (\<open>Prelude\<close>). Third-party code is an argument: the hash function of the interner, the
  runtime and the value store, the graph library (\<open>BlockCFG\<close>, \<open>CfgReducer\<close>: adjacency and weights), the
  iteration order of hash sets, the driver's queries for the type checker, nom's combinators (the
  record \<open>nom\<close>, whose documented behaviour is \<open>nom_spec\<close>), cranelift (the record \<open>clif\<close>), the file
  system, and, for the evaluator, the host, native functions and trait objects. The record \<open>world\<close> collects
  them for the session. Locks and reference cells are left out.

  \<^bold>\<open>Theories.\<close>

  \<^item> \<open>Prelude\<close>, \<open>Core\<close>: panics, slices, maps; module references, span references, constants, hash-keyed
    dictionaries (\<^verbatim>\<open>montyc_core/src/{module,span,ast,value,dict}.rs\<close>).
  \<^item> \<open>SSAMap\<close>: the slot map \<^verbatim>\<open>montyc_core/src/utils/ssamap.rs\<close>. An invariant that every operation keeps;
    the locale \<open>slot_store\<close> is the contract clients use, interpreted on the map. A filled slot never
    changes (\<open>ssamap_single_assignment\<close>); insertion, reservations and interning through \<open>entry\<close> read back.
  \<^item> \<open>SpanInterner\<close>: \<^verbatim>\<open>montyc_parser/src/span_interner.rs\<close>. Groups correspond to hashes of the text
    (\<open>interner_groups\<close>), spans read back as the text interned (\<open>interner_roundtrip\<close>).
  \<^item> \<open>Ast\<close>: the node types of \<^verbatim>\<open>montyc_parser/src/ast\<close> and their spans. \<open>FlatCode\<close>: instructions and builder
    of \<^verbatim>\<open>montyc_flatcode/src/{raw_inst,lib}.rs\<close>, with the well-formedness of sequences.
  \<^item> \<open>ParseCore\<close>, \<open>TokenIter\<close>, \<open>ParseExpr\<close>, \<open>ParseStmt\<close>: the token stream of \<^verbatim>\<open>montyc_parser/src/lib.rs\<close>, the
    iterator of \<^verbatim>\<open>token_iter.rs\<close> and the parsers of \<^verbatim>\<open>montyc_parser/src/comb\<close>, one definition per parser. A
    parser maps a position and the stream to a value and a position, a failure, or a panic; the loops
    and the alternatives are the code's. \<open>good\<close> says that a parser returns and when it consumes; it is
    proved of every parser: \<open>parse_module_total\<close> says that the parser of modules returns on every list
    of tokens. \<open>ParseRun\<close>, \<open>ParsePrint\<close>, \<open>ParseModule\<close>: a printer of statements to tokens, and
    \<open>printed_module_parses\<close>, that the parser reads back what is printed. The printer takes a layout, which
    gives white space and operators their spans.
  \<^item> \<open>Lower\<close>: every visitor of \<^verbatim>\<open>montyc_flatcode/src/lower.rs\<close> and \<open>ast_to_flatcode\<close>. \<open>LowerLogic\<close> is a
    program logic for builder actions; \<open>LowerCorrect\<close>, \<open>LowerIf\<close>, \<open>LowerDefs\<close> use it for expressions and
    simple statements, if chains, functions and classes; \<open>LowerModule\<close> concludes: lowering a module of
    the supported syntax does not panic and every operand and jump target is in range
    (\<open>lowering_well_formed\<close>); how an if chain is wired, the else body being no jump target
    (\<open>if_chain_wiring\<close>); constructs of class bodies that panic or lose code.
  \<^item> \<open>BlockCFG\<close>, \<open>CfgReducer\<close>, \<open>VariableFlow\<close>: \<^verbatim>\<open>montyc_driver/src/typeck/{block_cfg,cfg_reducer,variable_flowgraph}.rs\<close>.
    Blocks partition the sequence (\<open>blocks_partition\<close>), edges are exactly the jumps of \<open>If\<close> and \<open>Br\<close>
    (\<open>cfg_edges\<close>). The locales
    \<open>cfg_walk\<close> and \<open>cfg_total\<close> say what the worklist needs of a reducer and prove that it ends and visits
    exactly the reachable blocks; they are interpreted for the flow graph (\<open>variable_flow_graph\<close>) and
    for the typing machine.
  \<^item> \<open>Typing\<close>, \<open>TypingLaws\<close>, \<open>TypeLayout\<close>: \<^verbatim>\<open>montyc_core/src/typing.rs\<close> and the registry of
    \<^verbatim>\<open>montyc_driver/src/global_context/mod.rs\<close>. The locale \<open>interning\<close> states that registering a type twice
    gives the same identifier. Canonical identifiers, tuples, unification, unions, struct layouts,
    termination and size of layouts.
  \<^item> \<open>ValueStore\<close>: \<^verbatim>\<open>montyc_driver/src/value_store.rs\<close>. \<open>Discovery\<close>: \<open>stir_the_pot\<close> of \<^verbatim>\<open>global_context/mod.rs\<close>, which
    gives a value to every object of the runtime and records the values it refers to
    (\<open>discovery_complete\<close>). \<open>ValueTypes\<close>: the types of values, \<open>get_type_of\<close> and \<open>get_layout_of\<close> of
    \<^verbatim>\<open>global_context/{mod,query}.rs\<close>. A type is computed once (\<open>type_query_stable\<close>); the type of a list is
    that of the union of its elements (\<open>list_type\<close>), and is not found when the list contains itself
    (\<open>self_containing_list_diverges\<close>).
  \<^item> \<open>SessionGrowth\<close>: what the session keeps while types are computed; the locale \<open>session_relation\<close> carries it
    through the type checker and is interpreted on the queries. \<open>CallGraph\<close>: \<open>get_function\<close>,
    \<open>get_function_cg_cfg\<close> and \<open>call_graph_of\<close> of \<^verbatim>\<open>global_context/query.rs\<close>. The worklist ends and collects
    exactly the functions reachable from the entry (\<open>call_graph_complete\<close>).
  \<^item> \<open>Cranelift\<close>, \<open>Codegen\<close>, \<open>Backend\<close>: the back end \<^verbatim>\<open>montyc_codegen\<close>. \<open>Cranelift\<close> lists what is asked of
    cranelift (the record \<open>clif\<close>) and models tagged values, the table of functions and the builtin
    methods; \<open>Codegen\<close> is \<^verbatim>\<open>cranelift/builder.rs\<close>, one definition per instruction, and the loop over the
    blocks; \<open>Backend\<close> is \<^verbatim>\<open>cranelift/mod.rs\<close>, up to the object module.
  \<^item> \<open>CodegenOrder\<close>, \<open>CodegenSim\<close>, \<open>CodegenRun\<close>, \<open>CodegenSample\<close>: the back end is correct. The order of the blocks
    (\<open>lowers_reachable_blocks_once\<close>, and \<open>block_lowered_twice\<close>, where the search of processed blocks fails);
    a meaning of the instructions, what cranelift documents (\<open>clif_laws\<close>, \<open>machine_laws\<close>) and the simulation
    \<open>lowered_code_simulates\<close>; an instance of both and a compiled function.
  \<^item> \<open>TypingMachine\<close>, \<open>TypeckLaws\<close>, \<open>Typecheck\<close>: \<^verbatim>\<open>montyc_driver/src/typeck/{typing_machine,mod}.rs\<close>. Type
    checking returns, and what acceptance means (\<open>typecheck_sound\<close>); what is rejected, and how.
  \<^item> \<open>Objects\<close>, \<open>Runtime\<close>: objects, exceptions, object space, runtime and builders of \<^verbatim>\<open>montyc_hlirt/src/object\<close>,
    \<^verbatim>\<open>storage.rs\<close>, \<^verbatim>\<open>exception.rs\<close>, \<^verbatim>\<open>rt\<close>. The locale \<open>object_store\<close> is the contract of the trait \<open>ObjectSpace\<close>,
    interpreted on the default space, which refines a heap (\<open>object_space_refines\<close>). The locale \<open>singleton_slot\<close> is a field
    of the singletons that initialization fills (\<open>runtime_interning\<close>, \<open>try_init_fills_constants\<close>).
  \<^item> \<open>Interp\<close>, \<open>InterpLaws\<close>: the evaluator, \<^verbatim>\<open>montyc_hlirt/src/eval\<close>, one definition per method:
    assignment, calls, names, hashing, ticks; the outcome does not depend on the fuel.
  \<^item> \<open>ImportSystem\<close>, \<open>ImportLaws\<close>, \<open>PathSearch\<close>: argument parsing (\<^verbatim>\<open>montyc_hlirt/src/argparse\<close>), the finders, loaders
    and the installation of \<^verbatim>\<open>montyc_driver/src/import.rs\<close>, and the host's side of imports in
    \<^verbatim>\<open>global_context/host.rs\<close>, tied to the evaluator by \<open>import_env\<close>. \<open>installed\<close> is the state after \<open>import_setup\<close>,
    \<open>grown\<close> what running a native function keeps. In that state every import panics (\<open>imports_panic\<close>), and
    the path finder searches one directory (\<open>path_search_first_directory\<close>).
  \<^item> \<open>Session\<close>, \<open>SessionInit\<close>: the driver's session, which ties the parts together: \<open>gcx\<close> is \<open>SessionContext\<close> of
    \<^verbatim>\<open>montyc_driver/src/global_context/mod.rs\<close>, with options (\<^verbatim>\<open>montyc_core/src/opts.rs\<close>), loading, parsing and
    evaluating modules, the host of the interpreter (\<^verbatim>\<open>host.rs\<close>), the module \<open>__monty\<close>, initialization, finding
    the entry function, and \<^verbatim>\<open>montyc/src/main.rs\<close> up to the object module. \<open>SessionLaws\<close>, \<open>SessionNames\<close>: the
    registry of modules (\<open>include_module_registers\<close>), names resolve to the text of their source
    (\<open>source_names_resolve\<close>) and static names are known by their group (\<open>static_names_known\<close>), which modules a path
    finds (\<open>fancy_path_prefixes\<close>). \<open>SessionSource\<close>: a text of assignments, parsed, lowered and evaluated in a
    session, gives a module whose names are texts of the source (\<open>source_evaluates\<close>). \<open>SessionSample\<close>: sessions
    with two files, on which the laws apply.
  \<^item> \<open>StructBuf\<close>: \<^verbatim>\<open>cranelift-structbuf/src/lib.rs\<close>, the fields of struct buffers (\<open>struct_buffer_fields\<close>).
  \<^item> \<open>StraightLine\<close>, \<open>EvalModule\<close>: lowering and evaluation together. A module of assignments evaluates
    to the values the assignments give (\<open>assignments_evaluate\<close>). This theory follows a conditional
    expression through lowering into the control flow graph.

  \<^bold>\<open>Loops, fuel, bounds.\<close> The worklist of the type checker and the name lookup of the evaluator are
  \<open>partial_function (option)\<close>: \<open>None\<close> is not returning, and it is proved where they return
  (\<open>variable_flow_graph\<close>, \<open>typecheck_sound\<close>) and where they do not (\<open>nested_class_lookup_diverges\<close>). So is \<open>get_func_from_path\<close>, which searches again after loading
  the input, once (\<open>entry_lookup_returns\<close>); \<open>w_fuel\<close> bounds the runs of the interpreter. \<open>layout_of\<close> takes the depth of its recursion as fuel: any number above the
  identifier is enough, since members are registered before their type
  (\<open>layout_of_terminates\<close>). \<open>compute_type_of\<close> takes the nesting of lists. \<open>interp n\<close> bounds the
  nesting of calls and the rounds of a loop by \<open>n\<close>; an outcome is independent of \<open>n\<close>
  (\<open>run_fuel_independent\<close>), and \<open>assignments_evaluate\<close> names an \<open>n\<close> that is enough. The grammar is tied with fuel for one callback per token, which
  \<open>parse_module_total\<close> proves enough. Room for new identifiers is stated where it matters: \<open>u32\<close> keys of the
  slot map, \<open>u64\<close> object identifiers.

  \<^bold>\<open>Not modelled.\<close> The lexer, which a derive macro generates: the parser starts from its tokens. The
  second parser \<^verbatim>\<open>montyc_parser2\<close>, which the compiler does not use; the import machinery
  \<^verbatim>\<open>montyc_hlirt/src/import/bootstrap.rs\<close>, which only tests use; \<^verbatim>\<open>montyc_codegen/src/structbuf.rs\<close> and
  \<^verbatim>\<open>montyc_driver/src/_value\<close>, which no module includes. The file system, which is a parameter. Reading the
  command line, emitting and linking the object file, the exit code. The panic of the host for a name without
  text, which is the empty text here. Display, Debug, log and error message output. Tests, Python stubs and examples.
\<close>

section \<open>From the syntax tree to the control flow graph\<close>

text \<open>The module \<open>b if t else e\<close> over three names.\<close>

definition ternary_module :: "span \<Rightarrow> span_ref \<Rightarrow> span_ref \<Rightarrow> span_ref \<Rightarrow> module" where
  "ternary_module sp t b e = Module [Spanned sp (StExpr (ExprIf (name_expr sp t) (name_expr sp b) (name_expr sp e)))]"

lemma ternary_code: "ast_to_flatcode mref (ternary_module sp t b e) = Inr (one_seq mref (case module_span (ternary_module sp t b e) of None \<Rightarrow> (0, 0) | Some s \<Rightarrow> s)
    [fi_at sp 0 (UseVar t), fi 1 (GetDunder 0 AsBool), fi 2 (CallInst 1 [0]), fi 3 (IfInst 2 None (Some 7)),
     fi 4 JumpTarget, fi_at sp 5 (UseVar b), fi 6 (PhiJump 10 5),
     fi 7 JumpTarget, fi_at sp 8 (UseVar e), fi 9 (PhiJump 10 8), fi 10 PhiRecv])"
  by (simp add: ternary_module_def name_expr_def ast_to_flatcode_def visit_module_def visit_spanned_def visit_ternary_def lbind_def lret_def llift_def 
      one_seq_run unwrap_def opt_or_def one_seq_new name_run fi_def fi_at_def eval_nat_numeral del: visit_with_atom.simps)


end
